(* ===== verification/Prelude.thy ===== *)
theory Prelude
  imports Complex_Main "HOL-Library.AList" "HOL-Library.List_Lexorder" "HOL-Library.Char_ord"
begin

text \<open>
  Shared vocabulary of the development: Python values that more than one component uses
  (dictionaries in insertion order, dictionaries of sets, bounded deques, JSON values), the
  lemmas about them that carry the component proofs, and the interface of a bounded log that
  every ring buffer of the program implements.

  Conventions. A Python \<open>dict\<close> is an association list in insertion order: assignment to a
  present key keeps its position, a new key goes to the end, which is exactly what
  \<open>AList.update\<close> does. A Python \<open>set\<close> is a HOL set. A Python \<open>float\<close> is a \<open>real\<close>: the code
  reads, compares and sums floats, and nothing proved here depends on their rounding. A Python
  \<open>int\<close> is an \<open>int\<close>. A \<open>str\<close> is a \<open>string\<close>, ordered lexicographically.
\<close>

named_theorems dict_simps \<open>reading a dictionary after an update\<close>
named_theorems bucket_simps \<open>reading a dictionary of sets after an update\<close>

section \<open>JSON values\<close>

datatype json =
    JNull
  | JBool bool
  | JInt int
  | JFloat real
  | JStr string
  | JList "json list"
  | JObj "(string \<times> json) list"

section \<open>Dictionaries\<close>

type_synonym ('k, 'v) dict = "('k \<times> 'v) list"

abbreviation dget :: "('k, 'v) dict \<Rightarrow> 'k \<Rightarrow> 'v option" where
  "dget d k \<equiv> map_of d k"

abbreviation dset :: "'k \<Rightarrow> 'v \<Rightarrow> ('k, 'v) dict \<Rightarrow> ('k, 'v) dict" where
  "dset k v d \<equiv> AList.update k v d"

abbreviation dpop :: "'k \<Rightarrow> ('k, 'v) dict \<Rightarrow> ('k, 'v) dict" where
  "dpop k d \<equiv> AList.delete k d"

abbreviation dkeys :: "('k, 'v) dict \<Rightarrow> 'k list" where
  "dkeys d \<equiv> map fst d"

abbreviation dvals :: "('k, 'v) dict \<Rightarrow> 'v list" where
  "dvals d \<equiv> map snd d"

text \<open>\<open>d.get(k, default)\<close>.\<close>

definition dget_or :: "'v \<Rightarrow> ('k, 'v) dict \<Rightarrow> 'k \<Rightarrow> 'v" where
  "dget_or v d k = (case dget d k of None \<Rightarrow> v | Some w \<Rightarrow> w)"

lemma dget_dset [dict_simps]: "dget (dset k v d) k' = (if k' = k then Some v else dget d k')"
  by (simp add: update_conv')

lemma dget_dpop [dict_simps]: "dget (dpop k d) k' = (if k' = k then None else dget d k')"
  by (simp add: delete_conv')

lemma dget_or_dset [dict_simps]: "dget_or z (dset k v d) k' = (if k' = k then v else dget_or z d k')"
  by (simp add: dget_or_def dget_dset)

lemma dget_or_dpop [dict_simps]: "dget_or z (dpop k d) k' = (if k' = k then z else dget_or z d k')"
  by (simp add: dget_or_def dget_dpop)

lemma dget_or_Nil [simp]: "dget_or z [] k = z"
  by (simp add: dget_or_def)

lemma dkeys_dset: "dkeys (dset k v d) = (if k \<in> set (dkeys d) then dkeys d else dkeys d @ [k])"
  by (simp add: update_keys)

lemma set_dkeys_dset [simp]: "set (dkeys (dset k v d)) = insert k (set (dkeys d))"
  by (auto simp: dkeys_dset simp del: set_map)

lemma set_dkeys_dpop [simp]: "set (dkeys (dpop k d)) = set (dkeys d) - {k}"
  by (simp add: delete_keys del: set_map)

lemma distinct_dset [simp, intro]: "distinct (dkeys d) \<Longrightarrow> distinct (dkeys (dset k v d))"
  by (rule distinct_update)

lemma distinct_dpop [simp, intro]: "distinct (dkeys d) \<Longrightarrow> distinct (dkeys (dpop k d))"
  by (rule distinct_delete)

lemma in_dkeys_iff: "k \<in> set (dkeys d) \<longleftrightarrow> dget d k \<noteq> None"
  by (metis map_of_eq_None_iff set_map)

lemma dget_None_iff: "dget d k = None \<longleftrightarrow> k \<notin> set (dkeys d)"
  by (simp add: map_of_eq_None_iff)

lemma set_dkeys_dom: "set (dkeys d) = dom (map_of d)"
  by (simp add: dom_map_of_conv_image_fst)

lemma distinct_in_dict:
  "distinct (dkeys d) \<Longrightarrow> (k, v) \<in> set d \<longleftrightarrow> dget d k = Some v"
  by (simp add: map_of_eq_Some_iff)

lemma in_dvals_iff:
  assumes "distinct (dkeys d)"
  shows "v \<in> set (dvals d) \<longleftrightarrow> (\<exists>k. dget d k = Some v)"
  using assms by (force simp: map_of_eq_Some_iff)

lemma length_dset:
  "length (dset k v d) = (if k \<in> set (dkeys d) then length d else Suc (length d))"
  using dkeys_dset[of k v d] by (metis length_append_singleton length_map)

lemma length_dpop:
  assumes "distinct (dkeys d)" "k \<in> set (dkeys d)"
  shows "Suc (length (dpop k d)) = length d"
  using assms by (induction d) (auto simp: delete_notin_dom)

lemma dset_fresh: "k \<notin> set (dkeys d) \<Longrightarrow> dset k v d = d @ [(k, v)]"
  by (induction d) auto

text \<open>\<open>d.update(e)\<close>.\<close>

definition dict_update :: "('k, 'v) dict \<Rightarrow> ('k, 'v) dict \<Rightarrow> ('k, 'v) dict" where
  "dict_update e d = fold (\<lambda>(k, v). dset k v) e d"

text \<open>The keys whose entry satisfies a predicate, and how many there are after an update.\<close>

definition keys_where :: "('v \<Rightarrow> bool) \<Rightarrow> ('k, 'v) dict \<Rightarrow> 'k set" where
  "keys_where P d = {k. \<exists>v. dget d k = Some v \<and> P v}"

lemma keys_where_Nil [simp]: "keys_where P [] = {}"
  by (simp add: keys_where_def)

lemma keys_where_dset [dict_simps]:
  "keys_where P (dset k v d) = (if P v then insert k (keys_where P d) else keys_where P d - {k})"
  by (auto simp: keys_where_def dict_simps)

lemma keys_where_dpop [dict_simps]: "keys_where P (dpop k d) = keys_where P d - {k}"
  by (auto simp: keys_where_def dict_simps)

lemma keys_where_subset: "keys_where P d \<subseteq> set (dkeys d)"
  unfolding keys_where_def by (auto simp: in_dkeys_iff simp del: set_map)

lemma finite_keys_where [simp, intro]: "finite (keys_where P d)"
  by (rule finite_subset[OF keys_where_subset]) (rule List.finite_set)

lemma in_keys_where: "dget d k = Some v \<Longrightarrow> k \<in> keys_where P d \<longleftrightarrow> P v"
  by (simp add: keys_where_def)

lemma not_in_keys_where: "k \<notin> set (dkeys d) \<Longrightarrow> k \<notin> keys_where P d"
  by (auto simp: keys_where_def in_dkeys_iff simp del: set_map)

lemma card_keys_where_dset:
  "int (card (keys_where P (dset k v d)))
     = int (card (keys_where P d)) + of_bool (P v) - of_bool (k \<in> keys_where P d)"
proof (cases "k \<in> keys_where P d")
  case True
  then have "0 < card (keys_where P d)" by (auto simp: card_gt_0_iff)
  then show ?thesis using True
    by (cases "P v") (simp_all add: dict_simps insert_absorb card_Diff_singleton of_nat_diff)
next
  case False
  then show ?thesis by (simp add: dict_simps)
qed

lemma card_keys_where_dpop:
  "int (card (keys_where P (dpop k d)))
     = int (card (keys_where P d)) - of_bool (k \<in> keys_where P d)"
proof (cases "k \<in> keys_where P d")
  case True
  then have "0 < card (keys_where P d)" by (auto simp: card_gt_0_iff)
  then show ?thesis using True by (simp add: dict_simps card_Diff_singleton of_nat_diff)
next
  case False
  then show ?thesis by (simp add: dict_simps)
qed

section \<open>Dictionaries of sets\<close>

text \<open>
  \<open>defaultdict(set)\<close> and the idiom around it: \<open>d[k].add(x)\<close> creates the set on first use,
  and the removals discard the element and pop the key once its set is empty.
\<close>

definition bucket :: "('k, 'a set) dict \<Rightarrow> 'k \<Rightarrow> 'a set" where
  "bucket d k = dget_or {} d k"

definition bucket_add :: "'k \<Rightarrow> 'a \<Rightarrow> ('k, 'a set) dict \<Rightarrow> ('k, 'a set) dict" where
  "bucket_add k x d = dset k (insert x (bucket d k)) d"

definition bucket_discard :: "'k \<Rightarrow> 'a \<Rightarrow> ('k, 'a set) dict \<Rightarrow> ('k, 'a set) dict" where
  "bucket_discard k x d =
     (case dget d k of
        None \<Rightarrow> d
      | Some s \<Rightarrow> if s - {x} = {} then dpop k d else dset k (s - {x}) d)"

lemma bucket_Nil [simp]: "bucket [] k = {}"
  by (simp add: bucket_def)

lemma bucket_bucket_add [bucket_simps]:
  "bucket (bucket_add k x d) k' = (if k' = k then insert x (bucket d k) else bucket d k')"
  by (simp add: bucket_def bucket_add_def dict_simps)

lemma bucket_bucket_discard [bucket_simps]:
  "bucket (bucket_discard k x d) k' = (if k' = k then bucket d k - {x} else bucket d k')"
  by (auto simp: bucket_def bucket_discard_def dict_simps dget_or_def split: option.splits)

lemma bucket_dpop [bucket_simps]: "bucket (dpop k d) k' = (if k' = k then {} else bucket d k')"
  by (simp add: bucket_def dict_simps)

lemma distinct_bucket_add [simp, intro]:
  "distinct (dkeys d) \<Longrightarrow> distinct (dkeys (bucket_add k x d))"
  by (simp add: bucket_add_def del: distinct_map)

lemma distinct_bucket_discard [simp, intro]:
  "distinct (dkeys d) \<Longrightarrow> distinct (dkeys (bucket_discard k x d))"
  by (auto simp: bucket_discard_def simp del: distinct_map split: option.splits)

text \<open>No key is left with an empty set.\<close>

definition no_empty_bucket :: "('k, 'a set) dict \<Rightarrow> bool" where
  "no_empty_bucket d \<longleftrightarrow> (\<forall>k. dget d k \<noteq> Some {})"

lemma no_empty_bucket_Nil [simp]: "no_empty_bucket []"
  by (simp add: no_empty_bucket_def)

lemma no_empty_bucket_add: "no_empty_bucket d \<Longrightarrow> no_empty_bucket (bucket_add k x d)"
  by (simp add: no_empty_bucket_def bucket_add_def dict_simps)

lemma no_empty_bucket_discard: "no_empty_bucket d \<Longrightarrow> no_empty_bucket (bucket_discard k x d)"
  by (auto simp: no_empty_bucket_def bucket_discard_def dict_simps split: option.splits)

lemma no_empty_bucket_dpop: "no_empty_bucket d \<Longrightarrow> no_empty_bucket (dpop k d)"
  by (simp add: no_empty_bucket_def dict_simps)

lemmas bucket_shape =
  no_empty_bucket_add no_empty_bucket_discard no_empty_bucket_dpop
  distinct_bucket_add distinct_bucket_discard

section \<open>Lists\<close>

text \<open>\<open>xs[0] if xs else None\<close> and \<open>xs[-1] if xs else None\<close>.\<close>

definition first_of :: "'a list \<Rightarrow> 'a option" where
  "first_of xs = (case xs of [] \<Rightarrow> None | x # _ \<Rightarrow> Some x)"

definition last_of :: "'a list \<Rightarrow> 'a option" where
  "last_of xs = (if xs = [] then None else Some (last xs))"

lemma first_of_simps [simp]: "first_of [] = None" "first_of (x # xs) = Some x"
  by (simp_all add: first_of_def)

lemma last_of_simps [simp]: "last_of [] = None" "last_of (xs @ [x]) = Some x"
  by (simp_all add: last_of_def)

lemma last_of_None [simp]: "last_of xs = None \<longleftrightarrow> xs = []"
  by (simp add: last_of_def)

lemma last_of_Cons [simp]: "last_of (x # xs) = (if xs = [] then Some x else last_of xs)"
  by (simp add: last_of_def)

definition take_last :: "nat \<Rightarrow> 'a list \<Rightarrow> 'a list" where
  "take_last n xs = drop (length xs - n) xs"

lemma length_take_last [simp]: "length (take_last n xs) = min n (length xs)"
  by (simp add: take_last_def)

lemma take_last_all: "length xs \<le> n \<Longrightarrow> take_last n xs = xs"
  by (simp add: take_last_def)

lemma take_last_eq_Nil [simp]: "take_last n xs = [] \<longleftrightarrow> n = 0 \<or> xs = []"
  by (cases xs) (auto simp: take_last_def)

lemma take_last_append_split:
  "\<exists>ys. xs = ys @ take_last n xs"
  unfolding take_last_def by (metis append_take_drop_id)

lemma sorted_wrt_take_last: "sorted_wrt P xs \<Longrightarrow> sorted_wrt P (take_last n xs)"
  by (simp add: take_last_def sorted_wrt_drop)

lemma distinct_take_last: "distinct xs \<Longrightarrow> distinct (take_last n xs)"
  by (simp add: take_last_def)

lemma set_take_last: "set (take_last n xs) \<subseteq> set xs"
  by (simp add: take_last_def set_drop_subset)

lemma in_map_filter: "y \<in> set (List.map_filter f xs) \<longleftrightarrow> (\<exists>x\<in>set xs. f x = Some y)"
  by (induction xs) (auto simp: List.map_filter_def)

text \<open>
  A stable sort by \<open>f\<close> of a list sorted by \<open>g\<close> is sorted by the pair: how Python's \<open>sorted\<close> with a
  tuple key is modelled.
\<close>

lemma sorted_wrt_pair:
  assumes "sorted (map f ys)" "\<And>k. sorted (map g (filter (\<lambda>y. f y = k) ys))"
  shows "sorted_wrt (\<lambda>a b. f a < f b \<or> f a = f b \<and> g a \<le> g b) ys"
  using assms
proof (induction ys)
  case Nil
  then show ?case by simp
next
  case (Cons y ys)
  have "sorted (map g (filter (\<lambda>y. f y = k) ys))" for k
    using Cons.prems(2)[of k] by (simp split: if_splits)
  moreover have "f y < f z \<or> f y = f z \<and> g y \<le> g z" if "z \<in> set ys" for z
    using that Cons.prems(1) Cons.prems(2)[of "f y"] by (cases "f y = f z") auto
  ultimately show ?case using Cons by simp
qed

lemma sorted_sort_key_pair:
  "sorted_wrt (\<lambda>a b. f a < f b \<or> f a = f b \<and> g a \<le> g b) (sort_key f (sort_key g xs))"
proof (rule sorted_wrt_pair)
  fix k
  have "filter (\<lambda>y. f y = k) (sort_key f (sort_key g xs)) = filter (\<lambda>y. f y = k) (sort_key g xs)"
    by (rule sort_key_stable)
  moreover have "sorted (map g (filter (\<lambda>y. f y = k) (sort_key g xs)))"
    by (rule sorted_filter) simp
  ultimately show "sorted (map g (filter (\<lambda>y. f y = k) (sort_key f (sort_key g xs))))" by simp
qed simp

section \<open>Numbers and strings\<close>

text \<open>\<open>str(n)\<close> of an integer.\<close>

fun str_of_nat :: "nat \<Rightarrow> string" where
  "str_of_nat n =
     (if n < 10 then [char_of (48 + n)] else str_of_nat (n div 10) @ [char_of (48 + n mod 10)])"

declare str_of_nat.simps [simp del]

definition str_of_int :: "int \<Rightarrow> string" where
  "str_of_int i = (if i < 0 then ''-'' @ str_of_nat (nat (- i)) else str_of_nat (nat i))"

text \<open>\<open>int(x)\<close> of a float: truncation towards zero.\<close>

definition py_int :: "real \<Rightarrow> int" where
  "py_int r = (if 0 \<le> r then \<lfloor>r\<rfloor> else \<lceil>r\<rceil>)"

lemma py_int_nonneg: "0 \<le> r \<Longrightarrow> 0 \<le> py_int r"
  by (simp add: py_int_def)

text \<open>\<open>hint in text\<close>, \<open>str.lower()\<close> on ASCII, \<open>startswith\<close> and \<open>endswith\<close>.\<close>

fun str_in :: "string \<Rightarrow> string \<Rightarrow> bool" where
  "str_in p [] \<longleftrightarrow> p = []"
| "str_in p (c # cs) \<longleftrightarrow> take (length p) (c # cs) = p \<or> str_in p cs"

definition lower_char :: "char \<Rightarrow> char" where
  "lower_char c =
     (let n = of_char c :: nat in if 65 \<le> n \<and> n \<le> 90 then char_of (n + 32) else c)"

definition str_lower :: "string \<Rightarrow> string" where
  "str_lower s = map lower_char s"

definition starts_with :: "string \<Rightarrow> string \<Rightarrow> bool" where
  "starts_with p s \<longleftrightarrow> take (length p) s = p"

definition ends_with :: "string \<Rightarrow> string \<Rightarrow> bool" where
  "ends_with p s \<longleftrightarrow> starts_with (rev p) (rev s)"

lemma str_in_iff: "str_in p s \<longleftrightarrow> (\<exists>us vs. s = us @ p @ vs)"
proof (induction s)
  case (Cons c cs)
  have "take (length p) (c # cs) = p \<longleftrightarrow> (\<exists>vs. c # cs = p @ vs)"
    by (metis append_eq_conv_conj append_take_drop_id)
  moreover have "(\<exists>us vs. c # cs = us @ p @ vs) \<longleftrightarrow>
      (\<exists>vs. c # cs = p @ vs) \<or> (\<exists>us vs. cs = us @ p @ vs)"
    by (metis Cons_eq_append_conv)
  ultimately show ?case using Cons.IH by simp
qed simp

section \<open>Bounded deques\<close>

text \<open>
  \<open>deque(maxlen=cap).append(x)\<close>: a full deque drops its leftmost element first.
\<close>

definition ring_push :: "nat \<Rightarrow> 'a \<Rightarrow> 'a list \<Rightarrow> 'a list" where
  "ring_push cap x xs =
     (if cap = 0 then [] else if length xs = cap then tl xs @ [x] else xs @ [x])"

lemma length_ring_push: "length xs \<le> cap \<Longrightarrow> length (ring_push cap x xs) \<le> cap"
  by (cases xs) (auto simp: ring_push_def)

lemma ring_push_take_last:
  assumes "1 \<le> cap" "length xs \<le> cap"
  shows "ring_push cap x xs = take_last cap (xs @ [x])"
  using assms by (cases xs) (auto simp: ring_push_def take_last_def)

lemma take_last_idem_append: "take_last n (take_last n xs @ ys) = take_last n (xs @ ys)"
  by (cases "length xs \<le> n") (auto simp: take_last_def add.commute)

lemma fold_ring_push:
  assumes "1 \<le> cap" "length xs \<le> cap"
  shows "fold (ring_push cap) ys xs = take_last cap (xs @ ys)"
  using assms(2)
proof (induction ys arbitrary: xs)
  case Nil
  then show ?case by (simp add: take_last_all)
next
  case (Cons y ys)
  have step: "ring_push cap y xs = take_last cap (xs @ [y])"
    using assms(1) Cons.prems by (rule ring_push_take_last)
  have "fold (ring_push cap) (y # ys) xs = take_last cap (ring_push cap y xs @ ys)"
    using Cons.IH[of "ring_push cap y xs"] Cons.prems by (simp add: length_ring_push)
  also have "\<dots> = take_last cap (xs @ y # ys)"
    unfolding step by (simp add: take_last_idem_append)
  finally show ?case .
qed

lemma hd_ring_push_full:
  "length xs = cap \<Longrightarrow> xs \<noteq> [] \<Longrightarrow> ring_push cap x xs = tl xs @ [x]"
  by (auto simp: ring_push_def)

section \<open>The interface of a bounded log\<close>

text \<open>
  Every ring of the program (transition history, replay frames, checkpoints, failure history)
  promises its clients the same thing: an append keeps the capacity and acts on the visible
  items as a bounded deque does. What the clients need follows from that alone.
\<close>

locale ring_log =
  fixes items :: "'s \<Rightarrow> 'a list"
    and room :: "'s \<Rightarrow> nat"
    and push :: "'a \<Rightarrow> 's \<Rightarrow> 's"
  assumes room_push: "room (push x s) = room s"
    and items_push: "items (push x s) = ring_push (room s) x (items s)"
begin

definition fits :: "'s \<Rightarrow> bool" where
  "fits s \<longleftrightarrow> 1 \<le> room s \<and> length (items s) \<le> room s"

lemma fits_step: "fits s \<Longrightarrow> fits (push x s)"
  by (simp add: fits_def room_push items_push length_ring_push)

lemma room_fold: "room (fold push xs s) = room s"
  by (induction xs arbitrary: s) (simp_all add: room_push)

lemma items_fold_ring: "items (fold push xs s) = fold (ring_push (room s)) xs (items s)"
  by (induction xs arbitrary: s) (simp_all add: room_push items_push)

lemma items_fold: "fits s \<Longrightarrow> items (fold push xs s) = take_last (room s) (items s @ xs)"
  by (simp add: items_fold_ring fits_def fold_ring_push)

lemma newest_kept: "fits s \<Longrightarrow> last_of (items (push x s)) = Some x"
  by (auto simp: items_push ring_push_def fits_def)

lemma sorted_step:
  assumes "sorted_wrt P (items s)" "\<And>y. y \<in> set (items s) \<Longrightarrow> P y x"
  shows "sorted_wrt P (items (push x s))"
proof -
  have "sorted_wrt P (tl (items s))"
    using assms(1) by (cases "items s") auto
  moreover have "\<And>y. y \<in> set (tl (items s)) \<Longrightarrow> P y x"
    using assms(2) by (cases "items s") auto
  ultimately show ?thesis
    using assms by (auto simp: items_push ring_push_def sorted_wrt_append)
qed

end

end
