(* ===== verification/Events.thy ===== *)
theory Events
  imports Prelude
begin

text \<open>
  The event envelope and the task events (\<open>asyncviz/runtime/events/models\<close>): \<open>RuntimeEvent\<close>
  is the envelope, and the seven task event classes are the constructors of \<open>event_body\<close>.
  Every other event class is \<open>OtherEvent\<close> with its event type, since the components modelled
  here only ask whether an event is one of the seven. A \<open>uuid\<close> is the string \<open>str(uuid)\<close>.
\<close>

type_synonym task_id = string

section \<open>Task states\<close>

datatype task_state = CREATED | RUNNING | WAITING | COMPLETED | CANCELLED | FAILED

text \<open>The members of the enum in definition order, as iterating over the class lists them.\<close>

definition task_states :: "task_state list" where
  "task_states = [CREATED, RUNNING, WAITING, COMPLETED, CANCELLED, FAILED]"

fun state_value :: "task_state \<Rightarrow> string" where
  "state_value CREATED = ''created''"
| "state_value RUNNING = ''running''"
| "state_value WAITING = ''waiting''"
| "state_value COMPLETED = ''completed''"
| "state_value CANCELLED = ''cancelled''"
| "state_value FAILED = ''failed''"

lemma set_task_states [simp]: "set task_states = UNIV"
  using task_state.exhaust by (auto simp: task_states_def)

lemma distinct_task_states [simp]: "distinct task_states"
  by (simp add: task_states_def)

lemma state_value_eq [simp]: "state_value a = state_value b \<longleftrightarrow> a = b"
  by (cases a; cases b) auto

section \<open>Events\<close>

record task_fields =
  te_task_id :: task_id
  te_parent_task_id :: "task_id option"
  te_coroutine_name :: "string option"
  te_task_name :: "string option"
  te_metadata :: "(string, json) dict"

record terminal_fields =
  te_created_at :: "real option"
  te_completed_at :: "real option"
  te_duration_seconds :: "real option"

datatype event_body =
    TaskCreatedEvent task_fields
  | TaskStartedEvent task_fields
  | TaskWaitingEvent task_fields "string option"
  | TaskResumedEvent task_fields
  | TaskCompletedEvent task_fields terminal_fields
  | TaskCancelledEvent task_fields terminal_fields "string option"
  | TaskFailedEvent task_fields terminal_fields "string option" "string option"
  | OtherEvent string

record runtime_event =
  ev_event_id :: string
  ev_timestamp :: real
  ev_monotonic_timestamp :: real
  ev_monotonic_ns :: int
  ev_runtime_id :: string
  ev_source :: string
  ev_payload_version :: int
  ev_body :: event_body

fun body_event_type :: "event_body \<Rightarrow> string" where
  "body_event_type (TaskCreatedEvent f) = ''asyncio.task.created''"
| "body_event_type (TaskStartedEvent f) = ''asyncio.task.started''"
| "body_event_type (TaskWaitingEvent f reason) = ''asyncio.task.waiting''"
| "body_event_type (TaskResumedEvent f) = ''asyncio.task.resumed''"
| "body_event_type (TaskCompletedEvent f tm) = ''asyncio.task.completed''"
| "body_event_type (TaskCancelledEvent f tm origin) = ''asyncio.task.cancelled''"
| "body_event_type (TaskFailedEvent f tm exc_type exc_message) = ''asyncio.task.failed''"
| "body_event_type (OtherEvent ty) = ty"

definition event_type :: "runtime_event \<Rightarrow> string" where
  "event_type e = body_event_type (ev_body e)"

fun body_fields :: "event_body \<Rightarrow> task_fields option" where
  "body_fields (TaskCreatedEvent f) = Some f"
| "body_fields (TaskStartedEvent f) = Some f"
| "body_fields (TaskWaitingEvent f reason) = Some f"
| "body_fields (TaskResumedEvent f) = Some f"
| "body_fields (TaskCompletedEvent f tm) = Some f"
| "body_fields (TaskCancelledEvent f tm origin) = Some f"
| "body_fields (TaskFailedEvent f tm exc_type exc_message) = Some f"
| "body_fields (OtherEvent ty) = None"

section \<open>Sample events\<close>

text \<open>Concrete events for the closed examples of the development.\<close>

definition sample_fields :: "task_id \<Rightarrow> task_fields" where
  "sample_fields t =
     \<lparr>te_task_id = t, te_parent_task_id = None, te_coroutine_name = None, te_task_name = None,
      te_metadata = []\<rparr>"

definition sample_event :: "string \<Rightarrow> int \<Rightarrow> event_body \<Rightarrow> runtime_event" where
  "sample_event i ns body =
     \<lparr>ev_event_id = i, ev_timestamp = 0, ev_monotonic_timestamp = 0, ev_monotonic_ns = ns,
      ev_runtime_id = ''rt'', ev_source = ''runtime'', ev_payload_version = 1, ev_body = body\<rparr>"

end
