(* ===== verification/Lineage.thy ===== *)
theory Lineage
  imports Events
begin

text \<open>
  The lineage tracker (\<open>asyncviz/runtime/lineage\<close>): the pure walks over the parent map
  (\<open>ancestry.py\<close>), the graph queries (\<open>graph.py\<close>), and the tracker with its cached ancestor
  chains (\<open>tracker.py\<close>), followed by its invariant, the exactness of the cache and the
  correctness of the breadth-first descent.
\<close>


type_synonym parent_map = "(task_id, task_id option) dict"
type_synonym children_map = "(task_id, task_id set) dict"

datatype lineage_error = CyclicAncestryError | LineageDepthExceededError

section \<open>Ancestor walks\<close>

text \<open>\<open>parent_of.get(t)\<close>: a missing key and a stored \<open>None\<close> read the same.\<close>

definition parent_get :: "parent_map \<Rightarrow> task_id \<Rightarrow> task_id option" where
  "parent_get ps t = dget_or None ps t"

text \<open>
  The generator \<open>walk_ancestors\<close> yields a list of ancestors and then either stops at a root
  or raises; the second component says which.
\<close>

datatype walk_end = AtRoot | CycleAt task_id | DepthCeiling

function walk_loop ::
  "int \<Rightarrow> parent_map \<Rightarrow> task_id option \<Rightarrow> task_id set \<Rightarrow> int \<Rightarrow> task_id list \<times> walk_end" where
  "walk_loop max_depth ps None visited steps = ([], AtRoot)"
| "walk_loop max_depth ps (Some current) visited steps =
     (if current \<in> visited then ([], CycleAt current)
      else if max_depth \<le> steps then ([], DepthCeiling)
      else (case walk_loop max_depth ps (parent_get ps current) (insert current visited) (steps + 1) of
              (rest, stop) \<Rightarrow> (current # rest, stop)))"
  by pat_completeness auto
termination
  by (relation "measure (\<lambda>(m, ps, c, vis, st). nat (m - st))") auto

declare walk_loop.simps(2) [simp del]

definition walk_ancestors :: "int \<Rightarrow> parent_map \<Rightarrow> task_id \<Rightarrow> task_id list \<times> walk_end" where
  "walk_ancestors max_depth ps t = walk_loop max_depth ps (parent_get ps t) {} 0"

definition compute_root :: "int \<Rightarrow> parent_map \<Rightarrow> task_id \<Rightarrow> lineage_error + task_id" where
  "compute_root max_depth ps t =
     (case walk_ancestors max_depth ps t of
        (xs, AtRoot) \<Rightarrow> Inr (last (t # xs))
      | (xs, _) \<Rightarrow> Inl LineageDepthExceededError)"

definition compute_depth :: "int \<Rightarrow> parent_map \<Rightarrow> task_id \<Rightarrow> lineage_error + nat" where
  "compute_depth max_depth ps t =
     (case walk_ancestors max_depth ps t of
        (xs, AtRoot) \<Rightarrow> Inr (length xs)
      | (xs, _) \<Rightarrow> Inl LineageDepthExceededError)"

definition ancestors_tuple :: "int \<Rightarrow> parent_map \<Rightarrow> task_id \<Rightarrow> lineage_error + task_id list" where
  "ancestors_tuple max_depth ps t =
     (case walk_ancestors max_depth ps t of
        (xs, AtRoot) \<Rightarrow> Inr xs
      | (xs, _) \<Rightarrow> Inl LineageDepthExceededError)"

definition detect_cycle :: "int \<Rightarrow> task_id \<Rightarrow> task_id \<Rightarrow> parent_map \<Rightarrow> bool" where
  "detect_cycle max_depth candidate_parent candidate_child ps =
     (if candidate_parent = candidate_child then True
      else if candidate_parent \<notin> set (dkeys ps) then False
      else (case walk_ancestors max_depth ps candidate_parent of
              (xs, stop) \<Rightarrow> if candidate_child \<in> set xs then True else stop \<noteq> AtRoot))"

definition roots_in :: "parent_map \<Rightarrow> task_id list" where
  "roots_in ps = map fst (filter (\<lambda>(t, p). p = None) ps)"

section \<open>Breadth-first descent\<close>

text \<open>
  \<open>iter_subtree\<close> appends the unseen children of a node in the iteration order of a Python
  set, which the language leaves open: \<open>order\<close> stands for it, and the properties hold for every
  order that lists the set's elements.
\<close>

function subtree_loop ::
  "(task_id set \<Rightarrow> task_id list) \<Rightarrow> children_map \<Rightarrow> task_id list \<Rightarrow> task_id set \<Rightarrow> task_id list" where
  "subtree_loop order ch [] seen = []"
| "subtree_loop order ch (node # queue) seen =
     (if node \<in> seen then subtree_loop order ch queue seen
      else node # subtree_loop order ch
             (queue @ filter (\<lambda>c. c \<notin> insert node seen)
                (case dget ch node of None \<Rightarrow> [] | Some kids \<Rightarrow> order kids))
             (insert node seen))"
  by pat_completeness auto
termination
proof (relation "measures [\<lambda>(order, ch, queue, seen). card (set (dkeys ch) - seen),
                           \<lambda>(order, ch, queue, seen). length queue]", goal_cases)
  case 1
  then show ?case by simp
next
  case (2 order ch node queue seen)
  then show ?case by simp
next
  case (3 order ch node queue seen)
  show ?case
  proof (cases "node \<in> set (dkeys ch)")
    case True
    with 3 have "set (dkeys ch) - insert node seen \<subset> set (dkeys ch) - seen" by blast
    then have "card (set (dkeys ch) - insert node seen) < card (set (dkeys ch) - seen)"
      by (intro psubset_card_mono) auto
    then show ?thesis by simp
  next
    case False
    then have "dget ch node = None" by (simp only: dget_None_iff simp_thms)
    moreover have "set (dkeys ch) - insert node seen = set (dkeys ch) - seen"
      using False by blast
    ultimately show ?thesis by simp
  qed
qed

declare subtree_loop.simps(2) [simp del]

definition iter_subtree ::
  "(task_id set \<Rightarrow> task_id list) \<Rightarrow> task_id \<Rightarrow> children_map \<Rightarrow> task_id list" where
  "iter_subtree order t ch = subtree_loop order ch [t] {}"

definition descendants_of ::
  "(task_id set \<Rightarrow> task_id list) \<Rightarrow> task_id \<Rightarrow> children_map \<Rightarrow> task_id list" where
  "descendants_of order t ch = filter (\<lambda>node. node \<noteq> t) (iter_subtree order t ch)"

definition subtree_size :: "(task_id set \<Rightarrow> task_id list) \<Rightarrow> task_id \<Rightarrow> children_map \<Rightarrow> nat" where
  "subtree_size order t ch = length (iter_subtree order t ch)"

definition leaves_of ::
  "(task_id set \<Rightarrow> task_id list) \<Rightarrow> task_id \<Rightarrow> children_map \<Rightarrow> task_id list" where
  "leaves_of order t ch = filter (\<lambda>node. bucket ch node = {}) (iter_subtree order t ch)"

function path_loop :: "parent_map \<Rightarrow> task_id option \<Rightarrow> task_id set \<Rightarrow> task_id list" where
  "path_loop ps None visited = []"
| "path_loop ps (Some current) visited =
     (if current \<in> visited then []
      else current # path_loop ps (parent_get ps current) (insert current visited))"
  by pat_completeness auto
termination
proof (relation "measures [\<lambda>(ps, c, vis). card (set (dkeys ps) - vis),
                           \<lambda>(ps, c, vis). case c of None \<Rightarrow> 0 | Some _ \<Rightarrow> 1]", goal_cases)
  case 1
  then show ?case by simp
next
  case (2 ps current visited)
  show ?case
  proof (cases "current \<in> set (dkeys ps)")
    case True
    with 2 have "set (dkeys ps) - insert current visited \<subset> set (dkeys ps) - visited" by blast
    then have "card (set (dkeys ps) - insert current visited) < card (set (dkeys ps) - visited)"
      by (intro psubset_card_mono) auto
    then show ?thesis by simp
  next
    case False
    then have "dget ps current = None" by (simp only: dget_None_iff simp_thms)
    then have "parent_get ps current = None" by (simp add: parent_get_def dget_or_def)
    moreover have "set (dkeys ps) - insert current visited = set (dkeys ps) - visited"
      using False by blast
    ultimately show ?thesis by simp
  qed
qed

declare path_loop.simps(2) [simp del]

definition lineage_path :: "task_id \<Rightarrow> parent_map \<Rightarrow> task_id list" where
  "lineage_path t ps = rev (path_loop ps (Some t) {})"

definition filter_orphans :: "parent_map \<Rightarrow> task_id set \<Rightarrow> task_id list" where
  "filter_orphans ps known =
     map fst (filter (\<lambda>(t, p). case p of None \<Rightarrow> False | Some q \<Rightarrow> q \<notin> known) ps)"

section \<open>The tracker\<close>

record task_lineage =
  tl_task_id :: task_id
  tl_parent_task_id :: "task_id option"
  tl_root_task_id :: task_id
  tl_depth :: nat
  tl_ancestor_chain :: "task_id list"
  tl_child_count :: nat

record tracker =
  max_depth :: int
  parent_of :: parent_map
  children_of :: children_map
  ancestors_of :: "(task_id, task_id list) dict"
  cyclic_rejections :: nat

definition new_tracker :: "int \<Rightarrow> tracker" where
  "new_tracker d =
     \<lparr>max_depth = d, parent_of = [], children_of = [], ancestors_of = [], cyclic_rejections = 0\<rparr>"

definition lineage_locked :: "tracker \<Rightarrow> task_id \<Rightarrow> task_lineage" where
  "lineage_locked tr t =
     (let chain = dget_or [] (ancestors_of tr) t in
      \<lparr>tl_task_id = t,
       tl_parent_task_id = parent_get (parent_of tr) t,
       tl_root_task_id = (if chain = [] then t else last chain),
       tl_depth = length chain,
       tl_ancestor_chain = chain,
       tl_child_count = card (bucket (children_of tr) t)\<rparr>)"

definition lineage_register ::
  "task_id \<Rightarrow> task_id option \<Rightarrow> tracker \<Rightarrow> tracker \<times> (lineage_error + task_lineage)" where
  "lineage_register t parent tr =
     (if t \<in> set (dkeys (parent_of tr)) then (tr, Inr (lineage_locked tr t))
      else case parent of
        Some p \<Rightarrow>
          (if detect_cycle (max_depth tr) p t (parent_of tr)
           then (tr\<lparr>cyclic_rejections := cyclic_rejections tr + 1\<rparr>, Inl CyclicAncestryError)
           else if p \<notin> set (dkeys (parent_of tr)) then
             (let tr' = tr\<lparr>parent_of := dset t (Some p) (parent_of tr),
                           children_of := bucket_add p t (children_of tr),
                           ancestors_of := dset t [] (ancestors_of tr)\<rparr>
              in (tr', Inr (lineage_locked tr' t)))
           else
             (let tr' = tr\<lparr>parent_of := dset t (Some p) (parent_of tr),
                           children_of := bucket_add p t (children_of tr),
                           ancestors_of := dset t (p # dget_or [] (ancestors_of tr) p)
                                             (ancestors_of tr)\<rparr>
              in (tr', Inr (lineage_locked tr' t))))
      | None \<Rightarrow>
          (let tr' = tr\<lparr>parent_of := dset t None (parent_of tr),
                        ancestors_of := dset t [] (ancestors_of tr)\<rparr>
           in (tr', Inr (lineage_locked tr' t))))"

text \<open>
  \<open>unregister\<close> resets the cached chain of every direct child, in the iteration order of the
  Python set that holds them.
\<close>

definition reset_chains ::
  "task_id list \<Rightarrow> (task_id, task_id list) dict \<Rightarrow> (task_id, task_id list) dict" where
  "reset_chains kids d = fold (\<lambda>child. dset child []) kids d"

definition lineage_unregister ::
  "(task_id set \<Rightarrow> task_id list) \<Rightarrow> task_id \<Rightarrow> tracker \<Rightarrow> tracker" where
  "lineage_unregister order t tr =
     (let parent = parent_get (parent_of tr) t;
          anc = dpop t (ancestors_of tr);
          ch = (case parent of None \<Rightarrow> children_of tr | Some p \<Rightarrow> bucket_discard p t (children_of tr))
      in tr\<lparr>parent_of := dpop t (parent_of tr),
            ancestors_of :=
              reset_chains (case dget ch t of None \<Rightarrow> [] | Some kids \<Rightarrow> order kids) anc,
            children_of := dpop t ch\<rparr>)"

definition lineage_clear :: "tracker \<Rightarrow> tracker" where
  "lineage_clear tr =
     tr\<lparr>parent_of := [], children_of := [], ancestors_of := [], cyclic_rejections := 0\<rparr>"

definition lineage_of :: "tracker \<Rightarrow> task_id \<Rightarrow> task_lineage option" where
  "lineage_of tr t =
     (if t \<notin> set (dkeys (parent_of tr)) then None else Some (lineage_locked tr t))"

definition lineage_children :: "tracker \<Rightarrow> task_id \<Rightarrow> task_id list" where
  "lineage_children tr t = sorted_list_of_set (bucket (children_of tr) t)"

definition lineage_ancestors :: "tracker \<Rightarrow> task_id \<Rightarrow> task_id list" where
  "lineage_ancestors tr t = dget_or [] (ancestors_of tr) t"

definition lineage_root_of :: "tracker \<Rightarrow> task_id \<Rightarrow> task_id option" where
  "lineage_root_of tr t =
     (if t \<notin> set (dkeys (parent_of tr)) then None
      else let ancestors = dget_or [] (ancestors_of tr) t
           in Some (if ancestors = [] then t else last ancestors))"

definition lineage_depth_of :: "tracker \<Rightarrow> task_id \<Rightarrow> nat" where
  "lineage_depth_of tr t = length (dget_or [] (ancestors_of tr) t)"

definition lineage_child_count :: "tracker \<Rightarrow> task_id \<Rightarrow> nat" where
  "lineage_child_count tr t = card (bucket (children_of tr) t)"

definition lineage_list_roots :: "tracker \<Rightarrow> task_id list" where
  "lineage_list_roots tr = sort (roots_in (parent_of tr))"

definition recompute_ancestors ::
  "task_id \<Rightarrow> tracker \<Rightarrow> tracker \<times> (lineage_error + task_id list)" where
  "recompute_ancestors t tr =
     (case ancestors_tuple (max_depth tr) (parent_of tr) t of
        Inl e \<Rightarrow> (tr, Inl e)
      | Inr chain \<Rightarrow> (tr\<lparr>ancestors_of := dset t chain (ancestors_of tr)\<rparr>, Inr chain))"

record lineage_metrics =
  lm_tracked_tasks :: nat
  lm_root_tasks :: nat
  lm_max_depth :: nat
  lm_orphan_links :: nat
  lm_cyclic_rejections :: nat

definition lineage_metrics_snapshot :: "tracker \<Rightarrow> lineage_metrics" where
  "lineage_metrics_snapshot tr =
     \<lparr>lm_tracked_tasks = length (parent_of tr),
      lm_root_tasks = length (filter (\<lambda>p. p = None) (dvals (parent_of tr))),
      lm_max_depth = fold max (map length (dvals (ancestors_of tr))) 0,
      lm_orphan_links = length (filter_orphans (parent_of tr) (set (dkeys (parent_of tr)))),
      lm_cyclic_rejections = cyclic_rejections tr\<rparr>"

section \<open>Chains of parents\<close>

text \<open>\<open>is_chain ps c xs\<close>: following parents from \<open>c\<close> lists \<open>xs\<close> and then meets a root.\<close>

fun is_chain :: "parent_map \<Rightarrow> task_id option \<Rightarrow> task_id list \<Rightarrow> bool" where
  "is_chain ps c [] = (c = None)"
| "is_chain ps c (x # xs) = (c = Some x \<and> is_chain ps (parent_get ps x) xs)"

text \<open>A parent map is a forest when every task's chain ends at a root.\<close>

definition rooted :: "parent_map \<Rightarrow> bool" where
  "rooted ps \<longleftrightarrow> (\<forall>t. \<exists>xs. is_chain ps (parent_get ps t) xs)"

lemma parent_get_simps [simp]:
  "parent_get [] t = None"
  "parent_get (dset k v ps) t = (if t = k then v else parent_get ps t)"
  "parent_get (dpop k ps) t = (if t = k then None else parent_get ps t)"
  by (simp_all add: parent_get_def dict_simps)

lemma parent_get_untracked: "t \<notin> set (dkeys ps) \<Longrightarrow> parent_get ps t = None"
  by (simp add: parent_get_def dget_or_def dget_None_iff [THEN iffD2] del: set_map)

lemma is_chain_unique: "is_chain ps c xs \<Longrightarrow> is_chain ps c ys \<Longrightarrow> xs = ys"
proof (induction xs arbitrary: c ys)
  case Nil
  then show ?case by (cases ys) auto
next
  case (Cons x xs)
  then show ?case by (cases ys) auto
qed

lemma is_chain_suffix: "is_chain ps c (ys @ x # zs) \<Longrightarrow> is_chain ps (Some x) (x # zs)"
  by (induction ys arbitrary: c) auto

lemma is_chain_distinct: "is_chain ps c xs \<Longrightarrow> distinct xs"
proof (induction xs arbitrary: c)
  case Nil
  then show ?case by simp
next
  case (Cons x xs)
  have "x \<notin> set xs"
  proof
    assume "x \<in> set xs"
    then obtain ys zs where xs: "xs = ys @ x # zs" by (meson split_list)
    have "is_chain ps (Some x) (x # zs)"
      using Cons.prems is_chain_suffix[of ps c "x # ys" x zs] xs by simp
    moreover have "is_chain ps (Some x) (x # xs)" using Cons.prems by simp
    ultimately have "x # zs = x # xs" by (rule is_chain_unique)
    then show False using xs by simp
  qed
  then show ?case using Cons by auto
qed

lemma is_chain_parent:
  "is_chain ps (parent_get ps t) xs \<Longrightarrow> x \<in> set xs \<Longrightarrow> \<exists>u. parent_get ps u = Some x"
proof (induction xs arbitrary: t)
  case Nil
  then show ?case by simp
next
  case (Cons y ys)
  then show ?case by (metis is_chain.simps(2) set_ConsD)
qed

text \<open>The effect on a chain of changing the parent of one task \<open>t\<close>.\<close>

lemma is_chain_other:
  assumes "is_chain ps c xs" "t \<notin> set xs" "\<And>u. u \<noteq> t \<Longrightarrow> parent_get ps' u = parent_get ps u"
  shows "is_chain ps' c xs"
  using assms(1,2)
proof (induction xs arbitrary: c)
  case Nil
  then show ?case by simp
next
  case (Cons x xs)
  then show ?case using assms(3)[of x] by auto
qed

lemma is_chain_reroute:
  assumes "is_chain ps c (ys @ t # zs)" "t \<notin> set ys"
    and "\<And>u. u \<noteq> t \<Longrightarrow> parent_get ps' u = parent_get ps u"
    and "is_chain ps' (parent_get ps' t) ws"
  shows "is_chain ps' c (ys @ t # ws)"
  using assms(1,2)
proof (induction ys arbitrary: c)
  case Nil
  then show ?case using assms(4) by simp
next
  case (Cons y ys)
  then show ?case using assms(3)[of y] by auto
qed

lemma rooted_change:
  assumes "rooted ps" "\<And>u. u \<noteq> t \<Longrightarrow> parent_get ps' u = parent_get ps u"
    and "is_chain ps' (parent_get ps' t) ws"
  shows "rooted ps'"
  unfolding rooted_def
proof
  fix u
  show "\<exists>xs. is_chain ps' (parent_get ps' u) xs"
  proof (cases "u = t")
    case True
    then show ?thesis using assms(3) by auto
  next
    case False
    then have same: "parent_get ps' u = parent_get ps u" by (rule assms(2))
    obtain xs where xs: "is_chain ps (parent_get ps u) xs"
      using assms(1) unfolding rooted_def by blast
    show ?thesis
    proof (cases "t \<in> set xs")
      case True
      then obtain ys zs where "xs = ys @ t # zs" "t \<notin> set ys"
        by (meson split_list_first)
      then show ?thesis
        using is_chain_reroute[of ps _ ys t zs ps' ws] xs assms(2,3) unfolding same by blast
    next
      case False
      then show ?thesis using is_chain_other[of ps _ xs t ps'] xs assms(2) unfolding same by blast
    qed
  qed
qed

section \<open>What the walks compute\<close>

lemma walk_loop_at_root:
  "walk_loop m ps c vis st = (xs, AtRoot) \<Longrightarrow> is_chain ps c xs"
proof (induction m ps c vis st arbitrary: xs rule: walk_loop.induct)
  case (1 m ps vis st)
  then show ?case by simp
next
  case (2 m ps c vis st)
  then show ?case by (auto simp: walk_loop.simps(2)[of m ps c] split: if_splits prod.splits)
qed

lemma walk_loop_complete:
  assumes "is_chain ps c xs" "set xs \<inter> vis = {}" "st + int (length xs) \<le> m"
  shows "walk_loop m ps c vis st = (xs, AtRoot)"
  using assms
proof (induction xs arbitrary: c vis st)
  case Nil
  then show ?case by simp
next
  case (Cons x xs)
  have "x \<notin> set xs" using is_chain_distinct[OF Cons.prems(1)] by simp
  then have "walk_loop m ps (parent_get ps x) (insert x vis) (st + 1) = (xs, AtRoot)"
    using Cons.prems by (intro Cons.IH) auto
  then show ?case
    using Cons.prems by (simp add: walk_loop.simps(2)[of m ps x])
qed

lemma walk_loop_no_cycle:
  assumes "is_chain ps c xs" "set xs \<inter> vis = {}"
  shows "snd (walk_loop m ps c vis st) \<noteq> CycleAt u"
  using assms
proof (induction xs arbitrary: c vis st)
  case Nil
  then show ?case by simp
next
  case (Cons x xs)
  have "x \<notin> set xs" using is_chain_distinct[OF Cons.prems(1)] by simp
  then have "snd (walk_loop m ps (parent_get ps x) (insert x vis) (st + 1)) \<noteq> CycleAt u"
    using Cons.prems by (intro Cons.IH) auto
  then show ?case
    using Cons.prems by (auto simp: walk_loop.simps(2)[of m ps x] split: prod.splits)
qed

lemma detect_cycle_False:
  assumes "\<not> detect_cycle m p t ps"
  obtains xs where "is_chain ps (parent_get ps p) xs" "t \<notin> set xs" "p \<noteq> t"
proof (cases "p \<in> set (dkeys ps)")
  case True
  obtain xs stop where w: "walk_ancestors m ps p = (xs, stop)" by (cases "walk_ancestors m ps p")
  with True assms have "p \<noteq> t" "t \<notin> set xs" "stop = AtRoot"
    by (auto simp: detect_cycle_def simp del: set_map split: if_splits)
  moreover from this w have "is_chain ps (parent_get ps p) xs"
    by (metis walk_ancestors_def walk_loop_at_root)
  ultimately show ?thesis using that by blast
next
  case False
  then have "is_chain ps (parent_get ps p) []" by (simp add: parent_get_untracked del: set_map)
  moreover have "p \<noteq> t" using assms by (auto simp: detect_cycle_def)
  ultimately show ?thesis using that by (metis empty_iff list.set(1))
qed

section \<open>The tracker's operations keep the forest\<close>

datatype lineage_op =
    LRegister task_id "task_id option"
  | LUnregister task_id
  | LRecompute task_id
  | LClear

fun lineage_step :: "(task_id set \<Rightarrow> task_id list) \<Rightarrow> lineage_op \<Rightarrow> tracker \<Rightarrow> tracker" where
  "lineage_step order (LRegister t p) tr = fst (lineage_register t p tr)"
| "lineage_step order (LUnregister t) tr = lineage_unregister order t tr"
| "lineage_step order (LRecompute t) tr = fst (recompute_ancestors t tr)"
| "lineage_step order LClear tr = lineage_clear tr"

lemma rooted_Nil [simp]: "rooted []"
  unfolding rooted_def by (metis is_chain.simps(1) parent_get_simps(1))

lemma rooted_set_None: "rooted ps \<Longrightarrow> rooted (dset t None ps)"
  by (rule rooted_change[of ps t _ "[]"]) auto

lemma rooted_pop: "rooted ps \<Longrightarrow> rooted (dpop t ps)"
  by (rule rooted_change[of ps t _ "[]"]) auto

lemma rooted_link:
  assumes "rooted ps" "\<not> detect_cycle m p t ps"
  shows "rooted (dset t (Some p) ps)"
proof -
  obtain xs where xs: "is_chain ps (parent_get ps p) xs" "t \<notin> set xs" "p \<noteq> t"
    using detect_cycle_False[OF assms(2)] by blast
  then have "is_chain (dset t (Some p) ps) (parent_get ps p) xs"
    by (auto intro: is_chain_other)
  then show ?thesis
    using xs by (intro rooted_change[OF assms(1), of t _ "p # xs"]) auto
qed

lemma rooted_register:
  "rooted (parent_of tr) \<Longrightarrow> rooted (parent_of (fst (lineage_register t p tr)))"
  by (auto simp: lineage_register_def Let_def rooted_set_None rooted_link split: option.splits)

lemma rooted_step: "rooted (parent_of tr) \<Longrightarrow> rooted (parent_of (lineage_step order op tr))"
  by (cases op) (auto simp: rooted_register lineage_unregister_def rooted_pop lineage_clear_def
      recompute_ancestors_def Let_def split: sum.splits)

lemma rooted_run: "rooted (parent_of tr) \<Longrightarrow> rooted (parent_of (fold (lineage_step order) ops tr))"
  by (induction ops arbitrary: tr) (auto simp: rooted_step)

section \<open>The cached chains\<close>

text \<open>
  What the tracker keeps as long as every recorded parent is itself tracked: its maps have one
  entry per task, the cached chain of a task is its chain of parents, and \<open>children_of\<close> is the
  inverse of \<open>parent_of\<close>.
\<close>

definition closed_parents :: "tracker \<Rightarrow> bool" where
  "closed_parents tr \<longleftrightarrow>
     (\<forall>t p. parent_get (parent_of tr) t = Some p \<longrightarrow> p \<in> set (dkeys (parent_of tr)))"

definition chains_exact :: "tracker \<Rightarrow> bool" where
  "chains_exact tr \<longleftrightarrow>
     (\<forall>t. is_chain (parent_of tr) (parent_get (parent_of tr) t) (lineage_ancestors tr t))"

definition children_exact :: "tracker \<Rightarrow> bool" where
  "children_exact tr \<longleftrightarrow>
     (\<forall>p. bucket (children_of tr) p = {c. parent_get (parent_of tr) c = Some p})"

definition lineage_ok :: "tracker \<Rightarrow> bool" where
  "lineage_ok tr \<longleftrightarrow> distinct (dkeys (parent_of tr)) \<and> closed_parents tr \<and> chains_exact tr \<and>
     children_exact tr"

lemma lineage_ok_rooted: "lineage_ok tr \<Longrightarrow> rooted (parent_of tr)"
  unfolding lineage_ok_def chains_exact_def rooted_def by blast

lemma lineage_ok_new: "lineage_ok (new_tracker d)"
  by (simp add: lineage_ok_def closed_parents_def chains_exact_def children_exact_def
      new_tracker_def lineage_ancestors_def)

lemma lineage_ok_clear: "lineage_ok (lineage_clear tr)"
  by (simp add: lineage_ok_def closed_parents_def chains_exact_def children_exact_def
      lineage_clear_def lineage_ancestors_def)

lemma not_in_chain:
  assumes "closed_parents tr" "t \<notin> set (dkeys (parent_of tr))"
    and "is_chain (parent_of tr) (parent_get (parent_of tr) u) xs"
  shows "t \<notin> set xs"
  using assms is_chain_parent unfolding closed_parents_def by blast

text \<open>Adding a fresh task under \<open>p\<close> (or as a root) with the chain the code caches for it.\<close>

lemma lineage_ok_link:
  assumes ok: "lineage_ok tr" and fresh: "t \<notin> set (dkeys (parent_of tr))"
    and p: "parent = None \<and> ch = children_of tr \<and> chain = [] \<or>
            (\<exists>p. parent = Some p \<and> p \<in> set (dkeys (parent_of tr)) \<and>
                 ch = bucket_add p t (children_of tr) \<and> chain = p # lineage_ancestors tr p)"
    and tr': "parent_of tr' = dset t parent (parent_of tr)" "children_of tr' = ch"
             "ancestors_of tr' = dset t chain (ancestors_of tr)"
  shows "lineage_ok tr'"
proof -
  have closed: "closed_parents tr" and exact: "chains_exact tr" and kids: "children_exact tr"
    and dist: "distinct (dkeys (parent_of tr))"
    using ok by (auto simp: lineage_ok_def)
  have no_parent: "parent_get (parent_of tr) t = None"
    using fresh by (rule parent_get_untracked)
  have no_kids: "parent_get (parent_of tr) c \<noteq> Some t" for c
    using closed fresh unfolding closed_parents_def by blast
  have anc: "lineage_ancestors tr' u = (if u = t then chain else lineage_ancestors tr u)" for u
    by (simp add: lineage_ancestors_def tr' dict_simps)
  have moved: "is_chain (parent_of tr') (parent_get (parent_of tr) u) (lineage_ancestors tr u)" for u
  proof (rule is_chain_other[of "parent_of tr" _ _ t])
    show chain: "is_chain (parent_of tr) (parent_get (parent_of tr) u) (lineage_ancestors tr u)"
      using exact by (simp add: chains_exact_def)
    show "t \<notin> set (lineage_ancestors tr u)" by (rule not_in_chain[OF closed fresh chain])
  qed (simp add: tr')
  have "chains_exact tr'"
    unfolding chains_exact_def
  proof
    fix u
    show "is_chain (parent_of tr') (parent_get (parent_of tr') u) (lineage_ancestors tr' u)"
    proof (cases "u = t")
      case False
      then show ?thesis using moved[of u] by (simp add: anc tr')
    next
      case True
      from p show ?thesis
      proof
        assume "parent = None \<and> ch = children_of tr \<and> chain = []"
        with True show ?thesis by (simp add: anc tr')
      next
        assume "\<exists>p. parent = Some p \<and> p \<in> set (dkeys (parent_of tr)) \<and>
                 ch = bucket_add p t (children_of tr) \<and> chain = p # lineage_ancestors tr p"
        then obtain p where p: "parent = Some p" "p \<in> set (dkeys (parent_of tr))"
          "chain = p # lineage_ancestors tr p" by blast
        then have "p \<noteq> t" using fresh by blast
        then show ?thesis using True p moved[of p] by (simp add: anc tr')
      qed
    qed
  qed
  moreover have "closed_parents tr'"
    using closed p unfolding closed_parents_def by (auto simp: tr' simp del: set_map split: if_splits)
  moreover have "children_exact tr'"
    using kids p no_parent no_kids unfolding children_exact_def
    by (auto simp: tr' bucket_simps split: if_splits)
  moreover have "distinct (dkeys (parent_of tr'))"
    using dist by (simp add: tr' del: distinct_map)
  ultimately show ?thesis by (simp add: lineage_ok_def)
qed

text \<open>A registration whose parent is tracked (or absent) keeps all of it.\<close>

lemma lineage_ok_register:
  assumes ok: "lineage_ok tr" and p: "\<And>q. p = Some q \<Longrightarrow> q \<in> set (dkeys (parent_of tr))"
  shows "lineage_ok (fst (lineage_register t p tr))"
proof (cases "t \<in> set (dkeys (parent_of tr))")
  case True
  then show ?thesis using ok by (simp add: lineage_register_def del: set_map)
next
  case fresh: False
  show ?thesis
  proof (cases p)
    case None
    then show ?thesis
      using fresh lineage_ok_link[OF ok fresh, of None "children_of tr" "[]"]
      by (simp add: lineage_register_def Let_def del: set_map)
  next
    case (Some q)
    have q: "q \<in> set (dkeys (parent_of tr))" using p Some by simp
    show ?thesis
    proof (cases "detect_cycle (max_depth tr) q t (parent_of tr)")
      case True
      then show ?thesis
        using ok fresh Some
        by (simp add: lineage_register_def lineage_ok_def closed_parents_def chains_exact_def
            children_exact_def lineage_ancestors_def del: set_map distinct_map)
    next
      case False
      then show ?thesis
        using fresh Some q
          lineage_ok_link[OF ok fresh, of "Some q" "bucket_add q t (children_of tr)"
            "q # lineage_ancestors tr q"]
        by (simp add: lineage_register_def Let_def lineage_ancestors_def del: set_map)
    qed
  qed
qed

lemma lineage_ok_walk:
  assumes "lineage_ok tr" "int (length (lineage_ancestors tr t)) \<le> m"
  shows "walk_ancestors m (parent_of tr) t = (lineage_ancestors tr t, AtRoot)"
  using assms unfolding walk_ancestors_def lineage_ok_def chains_exact_def
  by (intro walk_loop_complete) auto

section \<open>The breadth-first descent\<close>

definition child_rel :: "children_map \<Rightarrow> (task_id \<times> task_id) set" where
  "child_rel ch = {(p, c). c \<in> bucket ch p}"

definition finite_kids :: "children_map \<Rightarrow> bool" where
  "finite_kids ch \<longleftrightarrow> (\<forall>k s. dget ch k = Some s \<longrightarrow> finite s)"

definition lists_sets :: "(task_id set \<Rightarrow> task_id list) \<Rightarrow> bool" where
  "lists_sets order \<longleftrightarrow> (\<forall>s. finite s \<longrightarrow> set (order s) = s)"

lemma queued_kids:
  assumes "finite_kids ch" "lists_sets order"
  shows "set (case dget ch n of None \<Rightarrow> [] | Some kids \<Rightarrow> order kids) = bucket ch n"
  using assms by (auto simp: finite_kids_def lists_sets_def bucket_def dget_or_def split: option.splits)

lemma subtree_loop_set:
  assumes "finite_kids ch" "lists_sets order"
    and "\<And>x. x \<in> seen \<Longrightarrow> bucket ch x \<subseteq> seen \<union> set queue"
  shows "set (subtree_loop order ch queue seen) \<union> seen = (child_rel ch)\<^sup>* `` (seen \<union> set queue)"
  using assms
proof (induction order ch queue seen rule: subtree_loop.induct)
  case (1 order ch seen)
  have "(child_rel ch) `` seen \<subseteq> seen" using 1(3) by (auto simp: child_rel_def)
  then have "(child_rel ch)\<^sup>* `` seen = seen" by (rule Image_closed_trancl)
  then show ?case by simp
next
  case (2 order ch node queue seen)
  show ?case
  proof (cases "node \<in> seen")
    case True
    then have "bucket ch x \<subseteq> seen \<union> set queue" if "x \<in> seen" for x
      using "2"(5)[OF that] by auto
    with True have "set (subtree_loop order ch queue seen) \<union> seen
        = (child_rel ch)\<^sup>* `` (seen \<union> set queue)"
      using "2"(3,4) by (intro "2.IH"(1))
    moreover have "seen \<union> set (node # queue) = seen \<union> set queue" using True by auto
    ultimately show ?thesis using True by (simp add: subtree_loop.simps(2))
  next
    case False
    define q where "q = queue @ filter (\<lambda>c. c \<notin> insert node seen)
      (case dget ch node of None \<Rightarrow> [] | Some kids \<Rightarrow> order kids)"
    have q: "set q = set queue \<union> (bucket ch node - insert node seen)"
      using queued_kids[OF 2(3,4), of node] by (auto simp: q_def)
    have "bucket ch x \<subseteq> insert node seen \<union> set q" if "x \<in> insert node seen" for x
    proof (cases "x = node")
      case True
      then show ?thesis by (auto simp: q)
    next
      case False
      then have "bucket ch x \<subseteq> seen \<union> set (node # queue)" using that by (intro "2"(5)) simp
      then show ?thesis by (auto simp: q)
    qed
    then have "set (subtree_loop order ch q (insert node seen)) \<union> insert node seen
        = (child_rel ch)\<^sup>* `` (insert node seen \<union> set q)"
      unfolding q_def using False "2"(3,4) by (intro "2.IH"(2))
    also have "\<dots> = (child_rel ch)\<^sup>* `` (seen \<union> set (node # queue))"
      unfolding q by (auto simp: child_rel_def intro: converse_rtrancl_into_rtrancl)
    finally have "insert node (set (subtree_loop order ch q (insert node seen)) \<union> seen)
        = (child_rel ch)\<^sup>* `` (seen \<union> set (node # queue))" by simp
    moreover have "subtree_loop order ch (node # queue) seen
        = node # subtree_loop order ch q (insert node seen)"
      using False unfolding q_def by (simp only: subtree_loop.simps(2) if_False)
    ultimately show ?thesis by simp
  qed
qed

lemma subtree_loop_distinct:
  "distinct (subtree_loop order ch queue seen) \<and> set (subtree_loop order ch queue seen) \<inter> seen = {}"
proof (induction order ch queue seen rule: subtree_loop.induct)
  case (1 order ch seen)
  then show ?case by simp
next
  case (2 order ch node queue seen)
  then show ?case by (auto simp: subtree_loop.simps(2)[of order ch node queue seen])
qed

lemma finite_kids_discard: "finite_kids ch \<Longrightarrow> finite_kids (bucket_discard k x ch)"
  by (auto simp: finite_kids_def bucket_discard_def dict_simps split: option.splits if_splits)

section \<open>Chains after a removal\<close>

lemma dget_or_reset_chains [dict_simps]:
  "dget_or [] (reset_chains kids d) u = (if u \<in> set kids then [] else dget_or [] d u)"
  unfolding reset_chains_def by (induction kids arbitrary: d) (auto simp: dict_simps)

lemma chain_after_unregister:
  assumes "finite_kids (children_of tr)" "lists_sets order"
  shows "lineage_ancestors (lineage_unregister order a tr) u =
    (if u = a \<or> u \<in> bucket (children_of tr) a then [] else lineage_ancestors tr u)"
proof -
  define ch where "ch = (case parent_get (parent_of tr) a of None \<Rightarrow> children_of tr
    | Some p \<Rightarrow> bucket_discard p a (children_of tr))"
  have "finite_kids ch"
    using assms(1) by (auto simp: ch_def finite_kids_discard split: option.split)
  then have kids: "set (case dget ch a of None \<Rightarrow> [] | Some kids \<Rightarrow> order kids) = bucket ch a"
    using assms(2) by (rule queued_kids)
  have "bucket ch a - {a} = bucket (children_of tr) a - {a}"
    by (auto simp: ch_def bucket_simps split: option.splits)
  then show ?thesis
    unfolding lineage_ancestors_def lineage_unregister_def Let_def ch_def[symmetric]
    using kids by (auto simp: dict_simps)
qed

section \<open>Properties\<close>

text \<open>Whatever sequence of registrations, removals, recomputations and clears a tracker
  goes through, its parent links stay a forest: the ancestor walk of any task never runs into
  a cycle, so the walk's cycle branch is unreachable.\<close>

theorem lineage_walk_never_cyclic:
  "snd (walk_ancestors m (parent_of (fold (lineage_step order) ops (new_tracker d))) t) \<noteq> CycleAt c"
proof -
  have "rooted (parent_of (fold (lineage_step order) ops (new_tracker d)))"
    by (rule rooted_run) (simp add: new_tracker_def)
  then show ?thesis
    unfolding walk_ancestors_def rooted_def using walk_loop_no_cycle by (metis inf_bot_right)
qed

text \<open>As long as every registration names no parent or a tracked one (the task registry
  admits no other), the chain the tracker caches for a task is exactly what a fresh walk of its
  ancestors yields, so its cached depth and root are the true ones.\<close>

theorem lineage_cache_is_the_walk:
  assumes "lineage_ok tr" and "\<And>q. p = Some q \<Longrightarrow> q \<in> set (dkeys (parent_of tr))"
    and "int (length (lineage_ancestors (fst (lineage_register t p tr)) u)) \<le> m"
  shows "ancestors_tuple m (parent_of (fst (lineage_register t p tr))) u
           = Inr (lineage_ancestors (fst (lineage_register t p tr)) u) \<and>
         compute_depth m (parent_of (fst (lineage_register t p tr))) u
           = Inr (lineage_depth_of (fst (lineage_register t p tr)) u) \<and>
         lineage_ok (fst (lineage_register t p tr))"
proof -
  have "lineage_ok (fst (lineage_register t p tr))" using assms(1,2) by (rule lineage_ok_register)
  then show ?thesis
    using lineage_ok_walk[OF _ assms(3)]
    by (simp add: ancestors_tuple_def compute_depth_def lineage_depth_of_def lineage_ancestors_def)
qed

theorem lineage_cache_is_the_walk_witness:
  "ancestors_tuple 8192 (parent_of (fst (lineage_register ''b'' (Some ''a'')
      (fst (lineage_register ''a'' None (new_tracker 8192)))))) ''b'' = Inr [''a'']"
proof -
  let ?tr = "fst (lineage_register ''a'' None (new_tracker 8192))"
  have ok: "lineage_ok ?tr" by (intro lineage_ok_register lineage_ok_new) simp
  have p: "\<And>q. Some ''a'' = Some q \<Longrightarrow> q \<in> set (dkeys (parent_of ?tr))"
    by (simp add: lineage_register_def new_tracker_def Let_def)
  have chain: "lineage_ancestors (fst (lineage_register ''b'' (Some ''a'') ?tr)) ''b'' = [''a'']"
    by (simp add: lineage_register_def new_tracker_def Let_def lineage_ancestors_def dict_simps
        detect_cycle_def walk_ancestors_def parent_get_def dget_or_def)
  then have "int (length (lineage_ancestors (fst (lineage_register ''b'' (Some ''a'') ?tr)) ''b''))
      \<le> 8192" by simp
  from lineage_cache_is_the_walk[OF ok p this] show ?thesis unfolding chain by blast
qed

text \<open>C15: The breadth-first descent from a task lists every task reachable through the
  children map exactly once and nothing else, whatever order Python iterates its sets in; it
  terminates even when the map has a cycle.\<close>

theorem iter_subtree_exact:
  assumes "finite_kids ch" and "lists_sets order"
  shows "distinct (iter_subtree order t ch) \<and>
         set (iter_subtree order t ch) = {u. (t, u) \<in> (child_rel ch)\<^sup>*} \<and>
         subtree_size order t ch = card {u. (t, u) \<in> (child_rel ch)\<^sup>*}"
proof -
  have "set (subtree_loop order ch [t] {}) = (child_rel ch)\<^sup>* `` {t}"
    using subtree_loop_set[OF assms, of "{}" "[t]"] by simp
  moreover have "distinct (subtree_loop order ch [t] {})"
    using subtree_loop_distinct by blast
  moreover have "(child_rel ch)\<^sup>* `` {t} = {u. (t, u) \<in> (child_rel ch)\<^sup>*}" by auto
  ultimately show ?thesis
    by (simp add: iter_subtree_def subtree_size_def distinct_card[symmetric])
qed

theorem iter_subtree_exact_witness:
  "distinct (iter_subtree sorted_list_of_set ''a'' [(''a'', {''b''}), (''b'', {''a''})])"
  by (rule iter_subtree_exact[THEN conjunct1])
    (auto simp: finite_kids_def lists_sets_def split: if_splits)

text \<open>Removing a task resets the cached chain of its direct children only. A grandchild
  keeps its old chain, so its depth still counts the removed task (and more) while its own
  parent now reports depth 0.\<close>

theorem unregister_leaves_grandchild_chain:
  assumes "lineage_ok tr" and "lists_sets order" and "finite_kids (children_of tr)"
    and "parent_get (parent_of tr) b = Some a" and "parent_get (parent_of tr) c = Some b"
  shows "lineage_depth_of (lineage_unregister order a tr) b = 0 \<and>
         lineage_depth_of (lineage_unregister order a tr) c = lineage_depth_of tr c \<and>
         2 \<le> lineage_depth_of tr c"
proof -
  have kids: "bucket (children_of tr) a = {u. parent_get (parent_of tr) u = Some a}"
    using assms(1) by (simp add: lineage_ok_def children_exact_def)
  have chain: "is_chain (parent_of tr) (parent_get (parent_of tr) u) (lineage_ancestors tr u)" for u
    using assms(1) by (simp add: lineage_ok_def chains_exact_def)
  obtain ys where ys: "lineage_ancestors tr c = b # ys" "is_chain (parent_of tr) (Some a) ys"
    using chain[of c] assms(4,5) by (cases "lineage_ancestors tr c") auto
  then obtain xs where c_chain: "lineage_ancestors tr c = b # a # xs"
    by (cases ys) auto
  have "a \<noteq> b" using is_chain_distinct[OF chain[of c]] c_chain by auto
  moreover have "a \<noteq> c"
  proof
    assume "a = c"
    then have "lineage_ancestors tr b = a # lineage_ancestors tr c"
      using is_chain_unique[OF chain[of b]] chain[of c] assms(4) by simp
    moreover have "lineage_ancestors tr c = b # lineage_ancestors tr b"
      using is_chain_unique[OF chain[of c]] chain[of b] assms(5) by simp
    ultimately show False by (metis length_Cons n_not_Suc_n less_not_refl not_less_eq lessI less_trans)
  qed
  ultimately show ?thesis
    using assms(4,5) c_chain
    by (simp add: lineage_depth_of_def lineage_ancestors_def[symmetric]
        chain_after_unregister[OF assms(3,2)] kids)
qed

theorem unregister_leaves_grandchild_chain_witness:
  "lineage_depth_of (lineage_unregister sorted_list_of_set ''a''
     (fold (\<lambda>(t, p) tr. fst (lineage_register t p tr))
        [(''a'', None), (''b'', Some ''a''), (''c'', Some ''b'')] (new_tracker 8192))) ''c'' = 2"
proof -
  define tr where "tr = fold (\<lambda>(t, p) tr. fst (lineage_register t p tr))
        [(''a'', None), (''b'', Some ''a''), (''c'', Some ''b'')] (new_tracker 8192)"
  have tr: "tr = \<lparr>max_depth = 8192,
      parent_of = [(''a'', None), (''b'', Some ''a''), (''c'', Some ''b'')],
      children_of = [(''a'', {''b''}), (''b'', {''c''})],
      ancestors_of = [(''a'', []), (''b'', [''a'']), (''c'', [''b'', ''a''])],
      cyclic_rejections = 0\<rparr>"
    unfolding tr_def
    by (simp add: lineage_register_def new_tracker_def Let_def bucket_add_def bucket_def
        detect_cycle_def walk_ancestors_def walk_loop.simps(2) parent_get_def dget_or_def)
  have "lineage_ok tr"
    unfolding tr_def fold.simps prod.case comp_apply id_apply
    by (intro lineage_ok_register lineage_ok_new)
      (auto simp: lineage_register_def new_tracker_def Let_def
        detect_cycle_def walk_ancestors_def walk_loop.simps(2) parent_get_def dget_or_def)
  then have "lineage_depth_of (lineage_unregister sorted_list_of_set ''a'' tr) ''c'' = lineage_depth_of tr ''c''"
    by (rule unregister_leaves_grandchild_chain[where b = "''b''", THEN conjunct2, THEN conjunct1])
      (auto simp: tr parent_get_def dget_or_def finite_kids_def lists_sets_def split: if_splits)
  also have "\<dots> = 2" by (simp add: tr lineage_depth_of_def dget_or_def)
  finally show ?thesis by (simp only: tr_def)
qed

end
