(* ===== verification/Tasks.thy ===== *)
theory Tasks
  imports Lineage
begin

text \<open>
  The task registry (\<open>asyncviz/runtime/tasks\<close>): the lifecycle table (\<open>state.py\<close>), the task
  record (\<open>models.py\<close>), the multi-key index (\<open>indexing.py\<close>), the counters (\<open>metrics.py\<close>), the
  write, read and event operations of \<open>TaskRegistry\<close> (\<open>registry.py\<close>), and the invariant that
  ties index, counters and lineage together.

  The registry's \<open>RuntimeTask\<close> objects are mutable and only it writes them; a field assignment
  is an update of the entry of \<open>by_id\<close>. Every reading of \<open>time.time()\<close> is an argument.
\<close>

section \<open>Lifecycle\<close>

definition TERMINAL_STATES :: "task_state set" where
  "TERMINAL_STATES = {COMPLETED, CANCELLED, FAILED}"

fun TRANSITIONS :: "task_state \<Rightarrow> task_state set" where
  "TRANSITIONS CREATED = {RUNNING, WAITING, COMPLETED, CANCELLED, FAILED}"
| "TRANSITIONS RUNNING = {WAITING, COMPLETED, CANCELLED, FAILED}"
| "TRANSITIONS WAITING = {RUNNING, COMPLETED, CANCELLED, FAILED}"
| "TRANSITIONS COMPLETED = {}"
| "TRANSITIONS CANCELLED = {}"
| "TRANSITIONS FAILED = {}"

definition is_terminal :: "task_state \<Rightarrow> bool" where
  "is_terminal s \<longleftrightarrow> s \<in> TERMINAL_STATES"

definition can_transition :: "task_state \<Rightarrow> task_state \<Rightarrow> bool" where
  "can_transition current target \<longleftrightarrow> target \<in> TRANSITIONS current"

lemma finite_UNIV_state [simp]: "finite (UNIV :: task_state set)"
  by (metis List.finite_set set_task_states)

lemma is_terminal_simps [simp]:
  "\<not> is_terminal CREATED" "\<not> is_terminal RUNNING" "\<not> is_terminal WAITING"
  "is_terminal COMPLETED" "is_terminal CANCELLED" "is_terminal FAILED"
  by (simp_all add: is_terminal_def TERMINAL_STATES_def)

lemma terminal_stuck: "is_terminal s \<Longrightarrow> \<not> can_transition s target"
  by (cases s) (simp_all add: can_transition_def)

lemma can_transition_changes: "can_transition s target \<Longrightarrow> target \<noteq> s"
  by (cases s; cases target) (simp_all add: can_transition_def)

lemma can_transition_not_created [simp]: "\<not> can_transition s CREATED"
  by (cases s) (simp_all add: can_transition_def)

section \<open>Task records\<close>

record task_metadata =
  md_coroutine_name :: "string option"
  md_task_name :: "string option"
  md_parent_task_id :: "task_id option"
  md_asyncio_task_id :: "int option"
  md_runtime_id :: "string option"
  md_tags :: "(string, string) dict"
  md_extra :: "(string, json) dict"

definition default_metadata :: task_metadata where
  "default_metadata = \<lparr>md_coroutine_name = None, md_task_name = None, md_parent_task_id = None,
     md_asyncio_task_id = None, md_runtime_id = None, md_tags = [], md_extra = []\<rparr>"

record runtime_task =
  rt_task_id :: task_id
  rt_state :: task_state
  rt_created_at :: real
  rt_updated_at :: real
  rt_asyncio_task_id :: "int option"
  rt_coroutine_name :: "string option"
  rt_task_name :: "string option"
  rt_parent_task_id :: "task_id option"
  rt_root_task_id :: "task_id option"
  rt_depth :: nat
  rt_ancestor_chain :: "task_id list"
  rt_child_count :: nat
  rt_completed_at :: "real option"
  rt_duration_seconds :: "real option"
  rt_exception_type :: "string option"
  rt_exception_message :: "string option"
  rt_cancellation_origin :: "string option"
  rt_runtime_id :: "string option"
  rt_tags :: "(string, string) dict"
  rt_metadata :: "(string, json) dict"

text \<open>
  \<open>TaskSnapshot.from_task\<close> copies every field (lists and dictionaries by value), so a snapshot
  is the record's value at that moment.
\<close>

type_synonym task_snapshot = runtime_task

definition create_task :: "real \<Rightarrow> task_id \<Rightarrow> task_metadata \<Rightarrow> task_state \<Rightarrow> runtime_task" where
  "create_task now t md st =
     \<lparr>rt_task_id = t, rt_state = st, rt_created_at = now, rt_updated_at = now,
      rt_asyncio_task_id = md_asyncio_task_id md, rt_coroutine_name = md_coroutine_name md,
      rt_task_name = md_task_name md, rt_parent_task_id = md_parent_task_id md,
      rt_root_task_id = Some t, rt_depth = 0, rt_ancestor_chain = [], rt_child_count = 0,
      rt_completed_at = None, rt_duration_seconds = None, rt_exception_type = None,
      rt_exception_message = None, rt_cancellation_origin = None,
      rt_runtime_id = md_runtime_id md, rt_tags = md_tags md, rt_metadata = md_extra md\<rparr>"

definition snapshot_from_task :: "runtime_task \<Rightarrow> task_snapshot" where
  "snapshot_from_task t = t"

section \<open>The index\<close>

record task_index =
  by_id :: "(task_id, runtime_task) dict"
  by_asyncio_id :: "(int, task_id) dict"
  by_state :: "(task_state, task_id set) dict"
  by_parent :: "(task_id option, task_id set) dict"

definition empty_index :: task_index where
  "empty_index = \<lparr>by_id = [], by_asyncio_id = [], by_state = [], by_parent = []\<rparr>"

definition index_add :: "runtime_task \<Rightarrow> task_index \<Rightarrow> task_index" where
  "index_add t ix =
     ix\<lparr>by_id := dset (rt_task_id t) t (by_id ix),
        by_asyncio_id :=
          (case rt_asyncio_task_id t of
             None \<Rightarrow> by_asyncio_id ix
           | Some a \<Rightarrow> dset a (rt_task_id t) (by_asyncio_id ix)),
        by_state := bucket_add (rt_state t) (rt_task_id t) (by_state ix),
        by_parent := bucket_add (rt_parent_task_id t) (rt_task_id t) (by_parent ix)\<rparr>"

definition index_remove :: "runtime_task \<Rightarrow> task_index \<Rightarrow> task_index" where
  "index_remove t ix =
     ix\<lparr>by_id := dpop (rt_task_id t) (by_id ix),
        by_asyncio_id :=
          (case rt_asyncio_task_id t of
             None \<Rightarrow> by_asyncio_id ix
           | Some a \<Rightarrow> dpop a (by_asyncio_id ix)),
        by_state := bucket_discard (rt_state t) (rt_task_id t) (by_state ix),
        by_parent := bucket_discard (rt_parent_task_id t) (rt_task_id t) (by_parent ix)\<rparr>"

definition move_state :: "runtime_task \<Rightarrow> task_state \<Rightarrow> task_state \<Rightarrow> task_index \<Rightarrow> task_index" where
  "move_state t old new ix =
     (if old = new then ix
      else ix\<lparr>by_state := bucket_add new (rt_task_id t) (bucket_discard old (rt_task_id t) (by_state ix))\<rparr>)"

text \<open>
  \<open>filter\<close> walks a Python set, so its result is listed in the order \<open>order\<close> gives. The default
  \<open>"__unset__"\<close> of \<open>parent_task_id\<close> stands for "any parent".
\<close>

definition unset :: "task_id option" where
  "unset = Some ''__unset__''"

definition filter_ids :: "task_state option \<Rightarrow> task_id option \<Rightarrow> task_index \<Rightarrow> task_id set" where
  "filter_ids st parent ix =
     (case st of
        Some s \<Rightarrow>
          if parent \<noteq> unset then bucket (by_state ix) s \<inter> bucket (by_parent ix) parent
          else bucket (by_state ix) s
      | None \<Rightarrow>
          if parent \<noteq> unset then bucket (by_parent ix) parent
          else set (dkeys (by_id ix)))"

definition index_filter ::
  "(task_id set \<Rightarrow> task_id list) \<Rightarrow> task_state option \<Rightarrow> task_id option \<Rightarrow> task_index \<Rightarrow> runtime_task list"
  where
  "index_filter order st parent ix =
     List.map_filter (\<lambda>i. dget (by_id ix) i) (order (filter_ids st parent ix))"

section \<open>Counters\<close>

record duration_accumulator =
  da_count :: nat
  da_total :: real

definition da_record :: "real \<Rightarrow> duration_accumulator \<Rightarrow> duration_accumulator" where
  "da_record seconds d =
     (if seconds < 0 then d else d\<lparr>da_count := da_count d + 1, da_total := da_total d + seconds\<rparr>)"

definition da_average :: "duration_accumulator \<Rightarrow> real option" where
  "da_average d = (if da_count d = 0 then None else Some (da_total d / real (da_count d)))"

text \<open>\<open>by_state_counts\<close> is \<open>dict.fromkeys(TaskState, 0)\<close>: it always has every state as a key.\<close>

record registry_metrics =
  rm_total :: int
  by_state_counts :: "task_state \<Rightarrow> int"
  rejected_transitions :: nat
  rm_completed :: duration_accumulator
  rm_cancelled :: duration_accumulator
  rm_failed :: duration_accumulator
  cancellations_by_origin :: "(string, nat) dict"

definition new_metrics :: registry_metrics where
  "new_metrics =
     \<lparr>rm_total = 0, by_state_counts = (\<lambda>_. 0), rejected_transitions = 0,
      rm_completed = \<lparr>da_count = 0, da_total = 0\<rparr>, rm_cancelled = \<lparr>da_count = 0, da_total = 0\<rparr>,
      rm_failed = \<lparr>da_count = 0, da_total = 0\<rparr>, cancellations_by_origin = []\<rparr>"

definition task_registered :: "task_state \<Rightarrow> registry_metrics \<Rightarrow> registry_metrics" where
  "task_registered s m =
     m\<lparr>rm_total := rm_total m + 1, by_state_counts := (by_state_counts m)(s := by_state_counts m s + 1)\<rparr>"

definition task_removed :: "task_state \<Rightarrow> registry_metrics \<Rightarrow> registry_metrics" where
  "task_removed s m =
     m\<lparr>rm_total := rm_total m - 1, by_state_counts := (by_state_counts m)(s := by_state_counts m s - 1)\<rparr>"

definition task_transitioned ::
  "task_state \<Rightarrow> task_state \<Rightarrow> registry_metrics \<Rightarrow> registry_metrics" where
  "task_transitioned old new m =
     (let counts = (by_state_counts m)(old := by_state_counts m old - 1)
      in m\<lparr>by_state_counts := counts(new := counts new + 1)\<rparr>)"

definition record_duration :: "task_state \<Rightarrow> real \<Rightarrow> registry_metrics \<Rightarrow> registry_metrics" where
  "record_duration terminal d m =
     (if d < 0 then m
      else case terminal of
        COMPLETED \<Rightarrow> m\<lparr>rm_completed := da_record d (rm_completed m)\<rparr>
      | CANCELLED \<Rightarrow> m\<lparr>rm_cancelled := da_record d (rm_cancelled m)\<rparr>
      | FAILED \<Rightarrow> m\<lparr>rm_failed := da_record d (rm_failed m)\<rparr>
      | _ \<Rightarrow> m)"

definition record_rejected_transition :: "registry_metrics \<Rightarrow> registry_metrics" where
  "record_rejected_transition m = m\<lparr>rejected_transitions := rejected_transitions m + 1\<rparr>"

definition record_cancellation_origin :: "string option \<Rightarrow> registry_metrics \<Rightarrow> registry_metrics" where
  "record_cancellation_origin origin m =
     (let key = (case origin of None \<Rightarrow> ''unknown'' | Some k \<Rightarrow> if k = '''' then ''unknown'' else k)
      in m\<lparr>cancellations_by_origin :=
             dset key (dget_or 0 (cancellations_by_origin m) key + 1) (cancellations_by_origin m)\<rparr>)"

definition active_count :: "registry_metrics \<Rightarrow> int" where
  "active_count m = (\<Sum>s\<leftarrow>filter (\<lambda>s. \<not> is_terminal s) task_states. by_state_counts m s)"

definition terminal_count :: "registry_metrics \<Rightarrow> int" where
  "terminal_count m = (\<Sum>s\<leftarrow>filter is_terminal task_states. by_state_counts m s)"

definition average_duration :: "registry_metrics \<Rightarrow> real option" where
  "average_duration m =
     (let n = da_count (rm_completed m) + da_count (rm_cancelled m) + da_count (rm_failed m)
      in if n = 0 then None
         else Some ((da_total (rm_completed m) + da_total (rm_cancelled m) + da_total (rm_failed m))
                    / real n))"

record metrics_snapshot =
  ms_total_tasks :: int
  ms_active_tasks :: int
  ms_completed_tasks :: int
  ms_cancelled_tasks :: int
  ms_failed_tasks :: int
  ms_terminal_tasks :: int
  ms_average_duration :: "real option"
  ms_average_completed :: "real option"
  ms_average_cancelled :: "real option"
  ms_average_failed :: "real option"
  ms_cancellations_by_origin :: "(string, nat) dict"
  ms_rejected_transitions :: nat

definition metrics_snapshot_of :: "registry_metrics \<Rightarrow> metrics_snapshot" where
  "metrics_snapshot_of m =
     \<lparr>ms_total_tasks = rm_total m, ms_active_tasks = active_count m,
      ms_completed_tasks = by_state_counts m COMPLETED,
      ms_cancelled_tasks = by_state_counts m CANCELLED,
      ms_failed_tasks = by_state_counts m FAILED, ms_terminal_tasks = terminal_count m,
      ms_average_duration = average_duration m, ms_average_completed = da_average (rm_completed m),
      ms_average_cancelled = da_average (rm_cancelled m),
      ms_average_failed = da_average (rm_failed m),
      ms_cancellations_by_origin = cancellations_by_origin m,
      ms_rejected_transitions = rejected_transitions m\<rparr>"

section \<open>The registry\<close>

datatype registry_error =
    DuplicateTaskError task_id
  | UnknownTaskError task_id
  | InvalidStateTransitionError task_id task_state task_state
  | InvalidParentReferenceError
  | LineageFailure lineage_error

record task_registry =
  reg_index :: task_index
  reg_metrics :: registry_metrics
  reg_lineage :: tracker

text \<open>
  The tracker is the one in effect: the constructor takes \<open>lineage or LineageTracker()\<close>, and a passed
  tracker that is still empty has length zero, is false, and gives way to a default one.
\<close>

definition new_registry :: "tracker \<Rightarrow> task_registry" where
  "new_registry tr = \<lparr>reg_index = empty_index, reg_metrics = new_metrics, reg_lineage = tr\<rparr>"

abbreviation reg_tasks :: "task_registry \<Rightarrow> (task_id, runtime_task) dict" where
  "reg_tasks r \<equiv> by_id (reg_index r)"

definition set_task :: "task_id \<Rightarrow> runtime_task \<Rightarrow> task_index \<Rightarrow> task_index" where
  "set_task t task ix = ix\<lparr>by_id := dset t task (by_id ix)\<rparr>"

definition apply_lineage :: "task_lineage \<Rightarrow> runtime_task \<Rightarrow> runtime_task" where
  "apply_lineage l t =
     t\<lparr>rt_root_task_id := Some (tl_root_task_id l), rt_depth := tl_depth l,
       rt_ancestor_chain := tl_ancestor_chain l, rt_child_count := tl_child_count l\<rparr>"

definition refresh_parent_child_count :: "task_id \<Rightarrow> tracker \<Rightarrow> task_index \<Rightarrow> task_index" where
  "refresh_parent_child_count p tr ix =
     (case dget (by_id ix) p of
        None \<Rightarrow> ix
      | Some task \<Rightarrow> set_task p (task\<lparr>rt_child_count := lineage_child_count tr p\<rparr>) ix)"

text \<open>The tail of \<open>register\<close>, after the tracker has answered.\<close>

definition finish_register ::
  "task_metadata \<Rightarrow> runtime_task \<Rightarrow> task_lineage \<Rightarrow> tracker \<Rightarrow> task_registry \<Rightarrow> task_registry \<times> runtime_task"
  where
  "finish_register md task lin tr r =
     (let task' = apply_lineage lin task;
          ix = (case md_parent_task_id md of
                  None \<Rightarrow> reg_index r
                | Some p \<Rightarrow> refresh_parent_child_count p tr (reg_index r))
      in (\<lparr>reg_index = index_add task' ix,
           reg_metrics = task_registered (rt_state task') (reg_metrics r),
           reg_lineage = tr\<rparr>, task'))"

definition registry_register ::
  "real \<Rightarrow> task_id \<Rightarrow> task_metadata option \<Rightarrow> task_state \<Rightarrow> task_registry
     \<Rightarrow> task_registry \<times> (registry_error + runtime_task)" where
  "registry_register now t metadata st r =
     (if t \<in> set (dkeys (reg_tasks r)) then (r, Inl (DuplicateTaskError t))
      else
        let md = (case metadata of None \<Rightarrow> default_metadata | Some m \<Rightarrow> m) in
        if (case md_parent_task_id md of None \<Rightarrow> False | Some p \<Rightarrow> p \<notin> set (dkeys (reg_tasks r)))
        then (r, Inl InvalidParentReferenceError)
        else
          let task = create_task now t md st in
          (case lineage_register t (md_parent_task_id md) (reg_lineage r) of
             (tr, Inr lin) \<Rightarrow> map_prod id Inr (finish_register md task lin tr r)
           | (tr, Inl CyclicAncestryError) \<Rightarrow>
               (case lineage_register t None tr of
                  (tr', Inr lin) \<Rightarrow>
                    map_prod id Inr (finish_register md (task\<lparr>rt_parent_task_id := None\<rparr>) lin tr' r)
                | (tr', Inl e) \<Rightarrow> (r\<lparr>reg_lineage := tr'\<rparr>, Inl (LineageFailure e)))
           | (tr, Inl e) \<Rightarrow> (r\<lparr>reg_lineage := tr\<rparr>, Inl (LineageFailure e))))"

record update_args =
  ua_completed_at :: "real option"
  ua_duration_seconds :: "real option"
  ua_exception_type :: "string option"
  ua_exception_message :: "string option"
  ua_cancellation_origin :: "string option"
  ua_metadata_update :: "(string, json) dict option"
  ua_tags_update :: "(string, string) dict option"

definition no_args :: update_args where
  "no_args = \<lparr>ua_completed_at = None, ua_duration_seconds = None, ua_exception_type = None,
     ua_exception_message = None, ua_cancellation_origin = None, ua_metadata_update = None,
     ua_tags_update = None\<rparr>"

text \<open>\<open>if v is not None: field = v\<close>.\<close>

definition overwrite :: "'a option \<Rightarrow> 'a option \<Rightarrow> 'a option" where
  "overwrite new old = (case new of None \<Rightarrow> old | Some v \<Rightarrow> Some v)"

definition merge_opt :: "('k, 'v) dict option \<Rightarrow> ('k, 'v) dict \<Rightarrow> ('k, 'v) dict" where
  "merge_opt u d = (case u of None \<Rightarrow> d | Some e \<Rightarrow> if e = [] then d else dict_update e d)"

text \<open>
  The fields \<open>update_state\<close> writes; \<open>now\<close> is the reading for \<open>updated_at\<close>, \<open>now'\<close> the later
  reading taken for \<open>completed_at\<close> when the caller gives none.
\<close>

definition updated_task ::
  "real \<Rightarrow> real \<Rightarrow> task_state \<Rightarrow> update_args \<Rightarrow> runtime_task \<Rightarrow> runtime_task" where
  "updated_task now now' target a t =
     t\<lparr>rt_state := target,
       rt_updated_at := now,
       rt_duration_seconds := overwrite (ua_duration_seconds a) (rt_duration_seconds t),
       rt_exception_type := overwrite (ua_exception_type a) (rt_exception_type t),
       rt_exception_message := overwrite (ua_exception_message a) (rt_exception_message t),
       rt_cancellation_origin := overwrite (ua_cancellation_origin a) (rt_cancellation_origin t),
       rt_metadata := merge_opt (ua_metadata_update a) (rt_metadata t),
       rt_tags := merge_opt (ua_tags_update a) (rt_tags t),
       rt_completed_at :=
         (if is_terminal target
          then Some (case ua_completed_at a of Some c \<Rightarrow> c | None \<Rightarrow> now')
          else rt_completed_at t)\<rparr>"

text \<open>The counters a transition into \<open>target\<close> touches before \<open>task_transitioned\<close>.\<close>

definition terminal_metrics ::
  "task_state \<Rightarrow> runtime_task \<Rightarrow> registry_metrics \<Rightarrow> registry_metrics" where
  "terminal_metrics target task m =
     (if \<not> is_terminal target then m
      else
        let m1 = (case rt_duration_seconds task of None \<Rightarrow> m | Some d \<Rightarrow> record_duration target d m)
        in if target = CANCELLED then record_cancellation_origin (rt_cancellation_origin task) m1 else m1)"

definition update_state ::
  "real \<Rightarrow> real \<Rightarrow> task_id \<Rightarrow> task_state \<Rightarrow> update_args \<Rightarrow> task_registry
     \<Rightarrow> task_registry \<times> (registry_error + runtime_task)" where
  "update_state now now' t target a r =
     (case dget (reg_tasks r) t of
        None \<Rightarrow> (r, Inl (UnknownTaskError t))
      | Some task \<Rightarrow>
          if \<not> can_transition (rt_state task) target
          then (r, Inl (InvalidStateTransitionError t (rt_state task) target))
          else
            let old = rt_state task;
                task' = updated_task now now' target a task
            in (r\<lparr>reg_index := set_task t task' (move_state task old target (reg_index r)),
                  reg_metrics :=
                    task_transitioned old target (terminal_metrics target task' (reg_metrics r))\<rparr>,
                Inr task'))"

definition registry_remove ::
  "(task_id set \<Rightarrow> task_id list) \<Rightarrow> task_id \<Rightarrow> task_registry \<Rightarrow> task_registry \<times> bool" where
  "registry_remove order t r =
     (case dget (reg_tasks r) t of
        None \<Rightarrow> (r, False)
      | Some task \<Rightarrow>
          let ix = index_remove task (reg_index r);
              tr = lineage_unregister order t (reg_lineage r);
              ix' = (case rt_parent_task_id task of
                       None \<Rightarrow> ix
                     | Some p \<Rightarrow> if p \<in> set (dkeys (by_id ix)) then refresh_parent_child_count p tr ix else ix)
          in (\<lparr>reg_index = ix', reg_metrics = task_removed (rt_state task) (reg_metrics r),
               reg_lineage = tr\<rparr>, True))"

definition registry_clear :: "task_registry \<Rightarrow> task_registry" where
  "registry_clear r =
     \<lparr>reg_index = empty_index, reg_metrics = new_metrics, reg_lineage = lineage_clear (reg_lineage r)\<rparr>"

section \<open>Reads\<close>

definition registry_get :: "task_registry \<Rightarrow> task_id \<Rightarrow> runtime_task option" where
  "registry_get r t = dget (reg_tasks r) t"

definition get_by_asyncio_id :: "task_registry \<Rightarrow> int \<Rightarrow> runtime_task option" where
  "get_by_asyncio_id r a =
     (case dget (by_asyncio_id (reg_index r)) a of
        None \<Rightarrow> None
      | Some t \<Rightarrow> dget (reg_tasks r) t)"

definition registry_list ::
  "(task_id set \<Rightarrow> task_id list) \<Rightarrow> task_state option \<Rightarrow> task_id option \<Rightarrow> task_registry \<Rightarrow> runtime_task list"
  where
  "registry_list order st parent r = index_filter order st parent (reg_index r)"

definition registry_children_of ::
  "(task_id set \<Rightarrow> task_id list) \<Rightarrow> task_id option \<Rightarrow> task_registry \<Rightarrow> runtime_task list" where
  "registry_children_of order parent r = index_filter order None parent (reg_index r)"

definition tasks_of :: "task_registry \<Rightarrow> task_id list \<Rightarrow> runtime_task list" where
  "tasks_of r ids = List.map_filter (\<lambda>i. dget (reg_tasks r) i) ids"

definition get_children :: "task_registry \<Rightarrow> task_id \<Rightarrow> runtime_task list" where
  "get_children r t = tasks_of r (lineage_children (reg_lineage r) t)"

definition get_descendants ::
  "(task_id set \<Rightarrow> task_id list) \<Rightarrow> task_registry \<Rightarrow> task_id \<Rightarrow> runtime_task list" where
  "get_descendants order r t = tasks_of r (descendants_of order t (children_of (reg_lineage r)))"

definition get_root_tasks :: "task_registry \<Rightarrow> runtime_task list" where
  "get_root_tasks r = tasks_of r (lineage_list_roots (reg_lineage r))"

definition list_cancellations_by_origin ::
  "(task_id set \<Rightarrow> task_id list) \<Rightarrow> string option \<Rightarrow> task_registry \<Rightarrow> runtime_task list" where
  "list_cancellations_by_origin order origin r =
     filter (\<lambda>t. rt_cancellation_origin t = origin)
       (tasks_of r (order (bucket (by_state (reg_index r)) CANCELLED)))"

text \<open>\<open>snapshot_tasks\<close> sorts by \<open>(created_at, task_id)\<close> with Python's stable sort.\<close>

definition snapshot_tasks :: "runtime_task list \<Rightarrow> task_snapshot list" where
  "snapshot_tasks ts =
     map snapshot_from_task (sort_key rt_created_at (sort_key rt_task_id ts))"

definition snapshot_active_tasks :: "task_registry \<Rightarrow> task_snapshot list" where
  "snapshot_active_tasks r =
     snapshot_tasks (filter (\<lambda>t. rt_state t \<notin> TERMINAL_STATES) (dvals (reg_tasks r)))"

definition snapshot_all_tasks :: "task_registry \<Rightarrow> task_snapshot list" where
  "snapshot_all_tasks r = snapshot_tasks (dvals (reg_tasks r))"

definition snapshot_task :: "task_registry \<Rightarrow> task_id \<Rightarrow> task_snapshot option" where
  "snapshot_task r t = map_option snapshot_from_task (dget (reg_tasks r) t)"

definition registry_metrics_snapshot :: "task_registry \<Rightarrow> metrics_snapshot" where
  "registry_metrics_snapshot r = metrics_snapshot_of (reg_metrics r)"

section \<open>Events\<close>

text \<open>
  The handlers return the exception that escapes them, if any. \<open>_handle_created\<close> retries
  without the parent when the first registration refuses it; the refused attempt reads no clock.
\<close>

definition created_metadata :: "runtime_event \<Rightarrow> task_fields \<Rightarrow> task_id option \<Rightarrow> task_metadata" where
  "created_metadata e f parent =
     \<lparr>md_coroutine_name = te_coroutine_name f, md_task_name = te_task_name f,
      md_parent_task_id = parent, md_asyncio_task_id = None,
      md_runtime_id = Some (ev_runtime_id e), md_tags = [], md_extra = te_metadata f\<rparr>"

definition handle_created ::
  "real \<Rightarrow> runtime_event \<Rightarrow> task_fields \<Rightarrow> task_registry \<Rightarrow> task_registry \<times> registry_error option" where
  "handle_created now e f r =
     (if te_task_id f \<in> set (dkeys (reg_tasks r)) then (r, None)
      else
        case registry_register now (te_task_id f)
               (Some (created_metadata e f (te_parent_task_id f))) CREATED r of
          (r', Inr _) \<Rightarrow> (r', None)
        | (r', Inl InvalidParentReferenceError) \<Rightarrow>
            (case registry_register now (te_task_id f) (Some (created_metadata e f None)) CREATED r' of
               (r'', Inr _) \<Rightarrow> (r'', None)
             | (r'', Inl err) \<Rightarrow> (r'', Some err))
        | (r', Inl err) \<Rightarrow> (r', Some err))"

definition safe_update ::
  "real \<Rightarrow> real \<Rightarrow> task_id \<Rightarrow> task_state \<Rightarrow> update_args \<Rightarrow> task_registry
     \<Rightarrow> task_registry \<times> registry_error option" where
  "safe_update now now' t target a r =
     (case update_state now now' t target a r of
        (r', Inr _) \<Rightarrow> (r', None)
      | (r', Inl (UnknownTaskError _)) \<Rightarrow> (r', None)
      | (r', Inl (InvalidStateTransitionError _ _ _)) \<Rightarrow>
          (r'\<lparr>reg_metrics := record_rejected_transition (reg_metrics r')\<rparr>, None)
      | (r', Inl err) \<Rightarrow> (r', Some err))"

definition handle_event ::
  "real \<Rightarrow> real \<Rightarrow> runtime_event \<Rightarrow> task_registry \<Rightarrow> task_registry \<times> registry_error option" where
  "handle_event now now' e r =
     (case ev_body e of
        TaskCreatedEvent f \<Rightarrow> handle_created now e f r
      | TaskStartedEvent f \<Rightarrow> safe_update now now' (te_task_id f) RUNNING no_args r
      | TaskWaitingEvent f _ \<Rightarrow> safe_update now now' (te_task_id f) WAITING no_args r
      | TaskResumedEvent f \<Rightarrow> safe_update now now' (te_task_id f) RUNNING no_args r
      | TaskCompletedEvent f tm \<Rightarrow>
          safe_update now now' (te_task_id f) COMPLETED
            (no_args\<lparr>ua_duration_seconds := te_duration_seconds tm\<rparr>) r
      | TaskCancelledEvent f tm origin \<Rightarrow>
          safe_update now now' (te_task_id f) CANCELLED
            (no_args\<lparr>ua_duration_seconds := te_duration_seconds tm,
                     ua_cancellation_origin := origin\<rparr>) r
      | TaskFailedEvent f tm exc_type exc_message \<Rightarrow>
          safe_update now now' (te_task_id f) FAILED
            (no_args\<lparr>ua_duration_seconds := te_duration_seconds tm,
                     ua_exception_type := exc_type, ua_exception_message := exc_message\<rparr>) r
      | OtherEvent _ \<Rightarrow> (r, None))"

section \<open>The invariant of the registry\<close>

definition index_ok :: "task_index \<Rightarrow> bool" where
  "index_ok ix \<longleftrightarrow>
     distinct (dkeys (by_id ix)) \<and>
     (\<forall>k t. dget (by_id ix) k = Some t \<longrightarrow> rt_task_id t = k) \<and>
     (\<forall>s. bucket (by_state ix) s = keys_where (\<lambda>t. rt_state t = s) (by_id ix)) \<and>
     (\<forall>p. bucket (by_parent ix) p = keys_where (\<lambda>t. rt_parent_task_id t = p) (by_id ix)) \<and>
     no_empty_bucket (by_state ix) \<and> no_empty_bucket (by_parent ix) \<and>
     (\<forall>a k. dget (by_asyncio_id ix) a = Some k \<longrightarrow>
        (\<exists>t. dget (by_id ix) k = Some t \<and> rt_asyncio_task_id t = Some a))"

definition counts_ok :: "task_index \<Rightarrow> registry_metrics \<Rightarrow> bool" where
  "counts_ok ix m \<longleftrightarrow>
     rm_total m = int (length (by_id ix)) \<and>
     (\<forall>s. by_state_counts m s = int (card (keys_where (\<lambda>t. rt_state t = s) (by_id ix))))"

text \<open>The registry and the tracker hold the same tasks, with the same parents and child counts.\<close>

definition mirrors :: "task_index \<Rightarrow> tracker \<Rightarrow> bool" where
  "mirrors ix tr \<longleftrightarrow>
     distinct (dkeys (parent_of tr)) \<and>
     set (dkeys (parent_of tr)) = set (dkeys (by_id ix)) \<and>
     (\<forall>k t. dget (by_id ix) k = Some t \<longrightarrow>
        rt_parent_task_id t = parent_get (parent_of tr) k \<and>
        rt_child_count t = lineage_child_count tr k)"

definition registry_ok :: "task_registry \<Rightarrow> bool" where
  "registry_ok r \<longleftrightarrow>
     index_ok (reg_index r) \<and> counts_ok (reg_index r) (reg_metrics r) \<and>
     mirrors (reg_index r) (reg_lineage r)"

lemma index_okD:
  assumes "index_ok ix"
  shows "distinct (dkeys (by_id ix))"
    and "dget (by_id ix) k = Some t \<Longrightarrow> rt_task_id t = k"
    and "bucket (by_state ix) s = keys_where (\<lambda>t. rt_state t = s) (by_id ix)"
    and "bucket (by_parent ix) p = keys_where (\<lambda>t. rt_parent_task_id t = p) (by_id ix)"
    and "no_empty_bucket (by_state ix)" "no_empty_bucket (by_parent ix)"
    and "dget (by_asyncio_id ix) a = Some k \<Longrightarrow>
           \<exists>t. dget (by_id ix) k = Some t \<and> rt_asyncio_task_id t = Some a"
  using assms unfolding index_ok_def by blast+

lemma index_ok_empty [simp]: "index_ok empty_index"
  by (simp add: index_ok_def empty_index_def no_empty_bucket_def)

lemma index_ok_add:
  assumes "index_ok ix" "rt_task_id t \<notin> set (dkeys (by_id ix))"
  shows "index_ok (index_add t ix)"
proof -
  note ok = index_okD[OF assms(1)]
  have fresh: "rt_task_id t \<notin> keys_where P (by_id ix)" for P
    using assms(2) by (rule not_in_keys_where)
  have gone: "dget (by_id ix) (rt_task_id t) = None" using assms(2) by (simp only: dget_None_iff simp_thms)
  have asy: "\<exists>u. dget (by_id (index_add t ix)) k = Some u \<and> rt_asyncio_task_id u = Some a"
    if "dget (by_asyncio_id (index_add t ix)) a = Some k" for a k
    using that ok(7)[of a k] gone
    by (auto simp: index_add_def dict_simps split: option.splits if_splits)
  have "bucket (by_state (index_add t ix)) s = keys_where (\<lambda>t. rt_state t = s) (by_id (index_add t ix))"
    for s using fresh by (auto simp: index_add_def bucket_simps dict_simps ok)
  moreover have "bucket (by_parent (index_add t ix)) p
      = keys_where (\<lambda>t. rt_parent_task_id t = p) (by_id (index_add t ix))" for p
    using fresh by (auto simp: index_add_def bucket_simps dict_simps ok)
  moreover have "dget (by_id (index_add t ix)) k = Some u \<Longrightarrow> rt_task_id u = k" for k u
    using ok(2) by (auto simp: index_add_def dict_simps split: if_splits)
  moreover have "distinct (dkeys (by_id (index_add t ix)))"
    using ok(1) by (simp add: index_add_def del: distinct_map)
  moreover have "no_empty_bucket (by_state (index_add t ix))" "no_empty_bucket (by_parent (index_add t ix))"
    using ok(5,6) by (simp_all add: index_add_def bucket_shape)
  ultimately show ?thesis using asy unfolding index_ok_def by blast
qed

lemma index_ok_remove:
  assumes "index_ok ix" "dget (by_id ix) (rt_task_id t) = Some t"
  shows "index_ok (index_remove t ix)"
proof -
  note ok = index_okD[OF assms(1)]
  have here: "rt_task_id t \<in> keys_where P (by_id ix) \<longleftrightarrow> P t" for P
    using assms(2) by (rule in_keys_where)
  have asy: "\<exists>u. dget (by_id (index_remove t ix)) k = Some u \<and> rt_asyncio_task_id u = Some a"
    if "dget (by_asyncio_id (index_remove t ix)) a = Some k" for a k
    using that ok(7)[of a k] assms(2)
    by (auto simp: index_remove_def dict_simps split: option.splits if_splits)
  have "bucket (by_state (index_remove t ix)) s
      = keys_where (\<lambda>t. rt_state t = s) (by_id (index_remove t ix))" for s
    using here by (auto simp: index_remove_def bucket_simps dict_simps ok)
  moreover have "bucket (by_parent (index_remove t ix)) p
      = keys_where (\<lambda>t. rt_parent_task_id t = p) (by_id (index_remove t ix))" for p
    using here by (auto simp: index_remove_def bucket_simps dict_simps ok)
  moreover have "dget (by_id (index_remove t ix)) k = Some u \<Longrightarrow> rt_task_id u = k" for k u
    using ok(2) by (auto simp: index_remove_def dict_simps split: if_splits)
  moreover have "distinct (dkeys (by_id (index_remove t ix)))"
    using ok(1) by (simp add: index_remove_def del: distinct_map)
  moreover have "no_empty_bucket (by_state (index_remove t ix))" "no_empty_bucket (by_parent (index_remove t ix))"
    using ok(5,6) by (simp_all add: index_remove_def bucket_shape)
  ultimately show ?thesis using asy unfolding index_ok_def by blast
qed

text \<open>Rewriting a task's record, moving it between state buckets when its state changed.\<close>

lemma index_ok_rewrite:
  assumes "index_ok ix" "dget (by_id ix) k = Some t"
    and "rt_task_id u = rt_task_id t" "rt_parent_task_id u = rt_parent_task_id t"
    and "rt_asyncio_task_id u = rt_asyncio_task_id t"
  shows "index_ok (set_task k u (move_state t (rt_state t) (rt_state u) ix))"
proof -
  note ok = index_okD[OF assms(1)]
  have k: "rt_task_id t = k" using ok(2) assms(2) by blast
  have here: "k \<in> keys_where P (by_id ix) \<longleftrightarrow> P t" for P
    using assms(2) by (rule in_keys_where)
  let ?ix = "set_task k u (move_state t (rt_state t) (rt_state u) ix)"
  have ids: "by_id ?ix = dset k u (by_id ix)" by (simp add: set_task_def move_state_def)
  have same: "by_asyncio_id ?ix = by_asyncio_id ix" "by_parent ?ix = by_parent ix"
    by (simp_all add: set_task_def move_state_def)
  have asy: "\<exists>v. dget (by_id ?ix) j = Some v \<and> rt_asyncio_task_id v = Some a"
    if "dget (by_asyncio_id ?ix) a = Some j" for a j
    using that ok(7)[of a j] assms(2,5) unfolding ids same by (auto simp: dict_simps)
  have "bucket (by_state ?ix) s = keys_where (\<lambda>t. rt_state t = s) (by_id ?ix)" for s
    unfolding ids using here
    by (auto simp: set_task_def move_state_def bucket_simps dict_simps ok k)
  moreover have "bucket (by_parent ?ix) p = keys_where (\<lambda>t. rt_parent_task_id t = p) (by_id ?ix)" for p
    unfolding ids same using here assms(4) by (auto simp: dict_simps ok)
  moreover have "dget (by_id ?ix) j = Some v \<Longrightarrow> rt_task_id v = j" for j v
    unfolding ids using ok(2) k assms(3) by (auto simp: dict_simps split: if_splits)
  moreover have "distinct (dkeys (by_id ?ix))" unfolding ids using ok(1) by (rule distinct_dset)
  moreover have "no_empty_bucket (by_state ?ix)" "no_empty_bucket (by_parent ?ix)"
    using ok(5,6) by (simp_all add: set_task_def move_state_def bucket_shape)
  ultimately show ?thesis using asy unfolding index_ok_def by blast
qed

lemma move_state_same [simp]: "move_state t s s ix = ix"
  by (simp add: move_state_def)

lemma index_ok_refresh:
  assumes "index_ok ix"
  shows "index_ok (refresh_parent_child_count p tr ix)"
proof (cases "dget (by_id ix) p")
  case None
  then show ?thesis using assms by (simp add: refresh_parent_child_count_def)
next
  case (Some t)
  then show ?thesis
    using index_ok_rewrite[OF assms Some, of "t\<lparr>rt_child_count := lineage_child_count tr p\<rparr>"]
    by (simp add: refresh_parent_child_count_def)
qed

lemma by_id_refresh:
  "by_id (refresh_parent_child_count p tr ix) =
     (case dget (by_id ix) p of None \<Rightarrow> by_id ix
      | Some task \<Rightarrow> dset p (task\<lparr>rt_child_count := lineage_child_count tr p\<rparr>) (by_id ix))"
  by (simp add: refresh_parent_child_count_def set_task_def split: option.split)

lemma keys_refresh [simp]:
  "set (dkeys (by_id (refresh_parent_child_count p tr ix))) = set (dkeys (by_id ix))"
  unfolding by_id_refresh
  by (auto simp del: set_map split: option.split) (simp add: in_dkeys_iff del: set_map)

lemma dget_refresh:
  "dget (by_id (refresh_parent_child_count p tr ix)) k =
     map_option (\<lambda>t. if k = p then t\<lparr>rt_child_count := lineage_child_count tr p\<rparr> else t) (dget (by_id ix) k)"
  unfolding by_id_refresh by (auto simp: dict_simps map_option_case split: option.split)

lemma counts_ok_refresh [simp]:
  "counts_ok (refresh_parent_child_count p tr ix) m = counts_ok ix m"
proof -
  have "keys_where (\<lambda>t. rt_state t = s) (by_id (refresh_parent_child_count p tr ix))
      = keys_where (\<lambda>t. rt_state t = s) (by_id ix)" for s
  proof (rule set_eqI)
    fix k
    show "k \<in> keys_where (\<lambda>t. rt_state t = s) (by_id (refresh_parent_child_count p tr ix))
      \<longleftrightarrow> k \<in> keys_where (\<lambda>t. rt_state t = s) (by_id ix)"
      by (cases "dget (by_id ix) k") (simp_all add: keys_where_def dget_refresh)
  qed
  moreover have "length (by_id (refresh_parent_child_count p tr ix)) = length (by_id ix)"
    by (auto simp: by_id_refresh length_dset in_dkeys_iff simp del: set_map split: option.split)
  ultimately show ?thesis by (simp add: counts_ok_def)
qed

lemma lineage_register_cases:
  assumes "t \<notin> set (dkeys (parent_of tr))"
  shows "(\<exists>tr'. lineage_register t p tr = (tr', Inr (lineage_locked tr' t)) \<and>
            parent_of tr' = dset t p (parent_of tr) \<and>
            children_of tr' = (case p of None \<Rightarrow> children_of tr | Some q \<Rightarrow> bucket_add q t (children_of tr)) \<and>
            max_depth tr' = max_depth tr)
       \<or> p \<noteq> None \<and> lineage_register t p tr
            = (tr\<lparr>cyclic_rejections := cyclic_rejections tr + 1\<rparr>, Inl CyclicAncestryError)"
  using assms by (auto simp: lineage_register_def Let_def simp del: set_map split: option.split)

lemma lineage_child_count_bump [simp]:
  "lineage_child_count (tr\<lparr>cyclic_rejections := n\<rparr>) = lineage_child_count tr"
  by (rule ext) (simp add: lineage_child_count_def)

text \<open>What a successful registration does, with or without the fallback to no parent.\<close>

lemma finish_register_ok:
  assumes ok: "registry_ok r" and t: "t \<notin> set (dkeys (reg_tasks r))" "rt_task_id task = t"
    and p: "\<And>q. md_parent_task_id md = Some q \<Longrightarrow> q \<in> set (dkeys (reg_tasks r))"
      "rt_parent_task_id task = parent" "parent = md_parent_task_id md \<or> parent = None"
    and tr': "parent_of tr' = dset t parent (parent_of (reg_lineage r))"
      "children_of tr' = (case parent of None \<Rightarrow> children_of (reg_lineage r)
         | Some q \<Rightarrow> bucket_add q t (children_of (reg_lineage r)))"
  shows "registry_ok (fst (finish_register md task (lineage_locked tr' t) tr' r))"
proof -
  define task' where "task' = apply_lineage (lineage_locked tr' t) task"
  define ix where "ix = (case md_parent_task_id md of None \<Rightarrow> reg_index r
    | Some q \<Rightarrow> refresh_parent_child_count q tr' (reg_index r))"
  have iok: "index_ok (reg_index r)" and cok: "counts_ok (reg_index r) (reg_metrics r)"
    and mir: "mirrors (reg_index r) (reg_lineage r)"
    using ok by (simp_all add: registry_ok_def)
  have id': "rt_task_id task' = t" and st': "rt_state task' = rt_state task"
    and par': "rt_parent_task_id task' = parent"
    and cc': "rt_child_count task' = lineage_child_count tr' t"
    using t(2) p(2) by (simp_all add: task'_def apply_lineage_def lineage_locked_def lineage_child_count_def Let_def)
  have ix_keys: "set (dkeys (by_id ix)) = set (dkeys (reg_tasks r))"
    by (simp add: ix_def del: set_map split: option.split)
  have ix_ok: "index_ok ix" using iok by (simp add: ix_def index_ok_refresh split: option.split)
  have ix_counts: "counts_ok ix (reg_metrics r)" using cok by (simp add: ix_def split: option.split)
  have fresh: "t \<notin> set (dkeys (by_id ix))" using t(1) ix_keys by blast
  then have gone: "dget (by_id ix) t = None" by (simp only: dget_None_iff simp_thms)
  have "index_ok (index_add task' ix)" using ix_ok fresh id' by (simp add: index_ok_add del: set_map)
  moreover have "counts_ok (index_add task' ix) (task_registered (rt_state task') (reg_metrics r))"
    using ix_counts fresh not_in_keys_where[OF fresh] id'
    by (auto simp: counts_ok_def index_add_def task_registered_def card_keys_where_dset length_dset
        simp del: set_map)
  moreover have "mirrors (index_add task' ix) tr'"
  proof -
    have other: "rt_parent_task_id u = parent_get (parent_of (reg_lineage r)) k \<and>
        rt_child_count u = lineage_child_count tr' k" if k: "k \<noteq> t" "dget (by_id ix) k = Some u" for k u
    proof -
      obtain v where v: "dget (reg_tasks r) k = Some v"
        and uv: "rt_parent_task_id u = rt_parent_task_id v"
          "rt_child_count u = (if md_parent_task_id md = Some k then lineage_child_count tr' k else rt_child_count v)"
      proof -
        have "dget (by_id ix) k = map_option (\<lambda>v. if md_parent_task_id md = Some k
            then v\<lparr>rt_child_count := lineage_child_count tr' k\<rparr> else v) (dget (reg_tasks r) k)"
          by (cases "md_parent_task_id md"; cases "dget (reg_tasks r) k")
            (auto simp: ix_def dget_refresh)
        with k(2) obtain v where "dget (reg_tasks r) k = Some v"
          "u = (if md_parent_task_id md = Some k then v\<lparr>rt_child_count := lineage_child_count tr' k\<rparr> else v)"
          by auto
        then show thesis by (intro that[of v]) auto
      qed
      have "lineage_child_count tr' k = lineage_child_count (reg_lineage r) k"
        if "md_parent_task_id md \<noteq> Some k"
        using that p(3) by (auto simp: lineage_child_count_def tr' bucket_simps split: option.splits)
      then show ?thesis using v uv mir by (auto simp: mirrors_def)
    qed
    have "set (dkeys (parent_of tr')) = set (dkeys (by_id (index_add task' ix)))"
      using mir ix_keys id' by (simp add: tr' index_add_def mirrors_def del: set_map)
    moreover have "distinct (dkeys (parent_of tr'))"
      using mir by (simp add: tr' mirrors_def del: distinct_map)
    ultimately show ?thesis
      using other id' par' cc'
      by (auto simp: mirrors_def index_add_def dict_simps tr' simp del: set_map distinct_map split: if_splits)
  qed
  ultimately show ?thesis
    by (simp add: registry_ok_def finish_register_def Let_def task'_def[symmetric] ix_def[symmetric])
qed

lemma registry_ok_cong:
  "registry_ok \<lparr>reg_index = ix, reg_metrics = m, reg_lineage = tr\<lparr>cyclic_rejections := n\<rparr>\<rparr>
     = registry_ok \<lparr>reg_index = ix, reg_metrics = m, reg_lineage = tr\<rparr>"
  by (simp add: registry_ok_def mirrors_def)

lemma tracked_iff:
  "registry_ok r \<Longrightarrow> t \<in> set (dkeys (parent_of (reg_lineage r))) \<longleftrightarrow> t \<in> set (dkeys (reg_tasks r))"
  by (simp add: registry_ok_def mirrors_def del: set_map)

text \<open>The three ways a registration ends.\<close>

lemma registry_register_cases:
  assumes ok: "registry_ok r"
  obtains (refused) e where "registry_register now t metadata st r = (r, Inl e)"
      "e = DuplicateTaskError t \<and> t \<in> set (dkeys (reg_tasks r)) \<or>
       e = InvalidParentReferenceError \<and> t \<notin> set (dkeys (reg_tasks r)) \<and>
         (\<exists>md q. metadata = Some md \<and> md_parent_task_id md = Some q)"
    | (accepted) md parent tr' where
      "registry_register now t metadata st r =
         map_prod id Inr (finish_register md (create_task now t md st\<lparr>rt_parent_task_id := parent\<rparr>)
           (lineage_locked tr' t) tr' r)"
      "md = (case metadata of None \<Rightarrow> default_metadata | Some m \<Rightarrow> m)"
      "t \<notin> set (dkeys (reg_tasks r))"
      "\<And>q. md_parent_task_id md = Some q \<Longrightarrow> q \<in> set (dkeys (reg_tasks r))"
      "parent = md_parent_task_id md \<and> lineage_register t parent (reg_lineage r) = (tr', Inr (lineage_locked tr' t))
       \<or> parent = None \<and> (\<exists>tr''. tr'' = (reg_lineage r)\<lparr>cyclic_rejections := cyclic_rejections (reg_lineage r) + 1\<rparr>
            \<and> lineage_register t None tr'' = (tr', Inr (lineage_locked tr' t)))"
      "parent_of tr' = dset t parent (parent_of (reg_lineage r))"
      "children_of tr' = (case parent of None \<Rightarrow> children_of (reg_lineage r)
         | Some q \<Rightarrow> bucket_add q t (children_of (reg_lineage r)))"
proof -
  define md where "md = (case metadata of None \<Rightarrow> default_metadata | Some m \<Rightarrow> m)"
  show thesis
  proof (cases "t \<in> set (dkeys (reg_tasks r))")
    case True
    then show thesis by (intro refused) (simp_all add: registry_register_def del: set_map)
  next
    case fresh: False
    then have un: "t \<notin> set (dkeys (parent_of (reg_lineage r)))" using tracked_iff[OF ok] by blast
    show thesis
    proof (cases "\<exists>q. md_parent_task_id md = Some q \<and> q \<notin> set (dkeys (reg_tasks r))")
      case True
      then have "registry_register now t metadata st r = (r, Inl InvalidParentReferenceError)"
        using fresh by (auto simp: registry_register_def Let_def md_def[symmetric] simp del: set_map)
      moreover have "\<exists>md q. metadata = Some md \<and> md_parent_task_id md = Some q"
        using True by (auto simp: md_def default_metadata_def split: option.splits)
      ultimately show thesis using fresh by (intro refused) auto
    next
      case False
      then have parent: "\<not> (case md_parent_task_id md of None \<Rightarrow> False | Some p \<Rightarrow> p \<notin> set (dkeys (reg_tasks r)))"
        by (auto simp del: set_map split: option.splits)
      from lineage_register_cases[OF un, of "md_parent_task_id md"] show thesis
      proof (elim disjE exE conjE)
        fix tr'
        assume reg: "lineage_register t (md_parent_task_id md) (reg_lineage r) = (tr', Inr (lineage_locked tr' t))"
          and tr': "parent_of tr' = dset t (md_parent_task_id md) (parent_of (reg_lineage r))"
          "children_of tr' = (case md_parent_task_id md of None \<Rightarrow> children_of (reg_lineage r)
            | Some q \<Rightarrow> bucket_add q t (children_of (reg_lineage r)))"
        have "create_task now t md st\<lparr>rt_parent_task_id := md_parent_task_id md\<rparr> = create_task now t md st"
          by (simp add: create_task_def)
        then have "registry_register now t metadata st r =
            map_prod id Inr (finish_register md (create_task now t md st\<lparr>rt_parent_task_id := md_parent_task_id md\<rparr>)
              (lineage_locked tr' t) tr' r)"
          using fresh parent reg
          by (simp add: registry_register_def Let_def md_def[symmetric] del: set_map)
        then show thesis
          using fresh False reg tr' by (intro accepted[of md "md_parent_task_id md" tr']) (auto simp: md_def)
      next
        define tr1 where "tr1 = (reg_lineage r)\<lparr>cyclic_rejections := cyclic_rejections (reg_lineage r) + 1\<rparr>"
        assume "lineage_register t (md_parent_task_id md) (reg_lineage r)
          = ((reg_lineage r)\<lparr>cyclic_rejections := cyclic_rejections (reg_lineage r) + 1\<rparr>, Inl CyclicAncestryError)"
        then have rej: "lineage_register t (md_parent_task_id md) (reg_lineage r) = (tr1, Inl CyclicAncestryError)"
          by (simp add: tr1_def)
        have "t \<notin> set (dkeys (parent_of tr1))" using un by (simp add: tr1_def)
        from lineage_register_cases[OF this, of None] obtain tr' where
          reg: "lineage_register t None tr1 = (tr', Inr (lineage_locked tr' t))"
            "parent_of tr' = dset t None (parent_of tr1)" "children_of tr' = children_of tr1" by auto
        have "registry_register now t metadata st r =
            map_prod id Inr (finish_register md (create_task now t md st\<lparr>rt_parent_task_id := None\<rparr>)
              (lineage_locked tr' t) tr' r)"
          using fresh parent rej reg(1)
          by (simp add: registry_register_def Let_def md_def[symmetric] del: set_map)
        then show thesis
          using fresh False reg by (intro accepted[of md None tr']) (auto simp: md_def tr1_def)
      qed
    qed
  qed
qed

lemma registry_ok_register:
  assumes "registry_ok r"
  shows "registry_ok (fst (registry_register now t metadata st r))"
proof (cases rule: registry_register_cases[OF assms, of now t metadata st, case_names refused accepted])
  case (refused e)
  then show ?thesis using assms by simp
next
  case (accepted md parent tr')
  then have "registry_ok (fst (finish_register md (create_task now t md st\<lparr>rt_parent_task_id := parent\<rparr>)
      (lineage_locked tr' t) tr' r))"
    by (intro finish_register_ok[OF assms]) (auto simp: create_task_def)
  then show ?thesis using accepted(1) by simp
qed

lemma updated_task_simps [simp]:
  "rt_task_id (updated_task now now' target a t) = rt_task_id t"
  "rt_state (updated_task now now' target a t) = target"
  "rt_parent_task_id (updated_task now now' target a t) = rt_parent_task_id t"
  "rt_asyncio_task_id (updated_task now now' target a t) = rt_asyncio_task_id t"
  "rt_child_count (updated_task now now' target a t) = rt_child_count t"
  "rt_updated_at (updated_task now now' target a t) = now"
  "rt_created_at (updated_task now now' target a t) = rt_created_at t"
  by (simp_all add: updated_task_def)

lemma record_simps [simp]:
  "rm_total (record_duration s d m) = rm_total m"
  "by_state_counts (record_duration s d m) = by_state_counts m"
  "rm_total (record_cancellation_origin o' m) = rm_total m"
  "by_state_counts (record_cancellation_origin o' m) = by_state_counts m"
  "rm_total (terminal_metrics s t m) = rm_total m"
  "by_state_counts (terminal_metrics s t m) = by_state_counts m"
  by (simp_all add: terminal_metrics_def record_duration_def record_cancellation_origin_def Let_def
      split: task_state.split option.split)

lemma mirrors_rewrite:
  assumes "mirrors ix tr" "dget (by_id ix) k = Some t" "by_id ix' = dset k u (by_id ix)"
    and "rt_parent_task_id u = rt_parent_task_id t" "rt_child_count u = rt_child_count t"
  shows "mirrors ix' tr"
proof -
  have "k \<in> set (dkeys (by_id ix))" using assms(2) by (simp add: in_dkeys_iff del: set_map)
  then have "set (dkeys (by_id ix')) = set (dkeys (by_id ix))"
    unfolding assms(3) by (simp add: insert_absorb del: set_map)
  then show ?thesis using assms unfolding mirrors_def by (auto simp: dict_simps simp del: set_map distinct_map)
qed

lemma counts_ok_transition:
  assumes "counts_ok ix m" "dget (by_id ix) k = Some t" "by_id ix' = dset k u (by_id ix)"
    and "rm_total m' = rm_total m" "by_state_counts m' = by_state_counts m"
  shows "counts_ok ix' (task_transitioned (rt_state t) (rt_state u) m')"
proof -
  have "k \<in> set (dkeys (by_id ix))" using assms(2) by (simp add: in_dkeys_iff del: set_map)
  moreover have "k \<in> keys_where P (by_id ix) \<longleftrightarrow> P t" for P using assms(2) by (rule in_keys_where)
  ultimately show ?thesis
    using assms unfolding counts_ok_def
    by (auto simp: card_keys_where_dset length_dset task_transitioned_def Let_def simp del: set_map)
qed

lemma update_state_cases:
  obtains (unknown) "dget (reg_tasks r) t = None"
      "update_state now now' t target a r = (r, Inl (UnknownTaskError t))"
    | (illegal) task where "dget (reg_tasks r) t = Some task" "\<not> can_transition (rt_state task) target"
      "update_state now now' t target a r
         = (r, Inl (InvalidStateTransitionError t (rt_state task) target))"
    | (moved) task where "dget (reg_tasks r) t = Some task" "can_transition (rt_state task) target"
      "update_state now now' t target a r =
         (r\<lparr>reg_index := set_task t (updated_task now now' target a task)
                            (move_state task (rt_state task) target (reg_index r)),
             reg_metrics := task_transitioned (rt_state task) target
               (terminal_metrics target (updated_task now now' target a task) (reg_metrics r))\<rparr>,
          Inr (updated_task now now' target a task))"
proof (cases "dget (reg_tasks r) t")
  case None
  then show thesis by (intro unknown) (simp_all add: update_state_def)
next
  case (Some task)
  show thesis
  proof (cases "can_transition (rt_state task) target")
    case False
    with Some show thesis by (intro illegal) (simp_all add: update_state_def)
  next
    case True
    with Some show thesis
      by (intro moved[of task]) (simp_all add: update_state_def Let_def)
  qed
qed

lemma by_id_set_task_move [simp]: "by_id (set_task k u (move_state t a b ix)) = dset k u (by_id ix)"
  by (simp add: set_task_def move_state_def)

lemma registry_ok_update:
  assumes "registry_ok r"
  shows "registry_ok (fst (update_state now now' t target a r))"
proof (cases rule: update_state_cases[of r t now now' target a, case_names unknown illegal moved])
  case (moved task)
  have ok: "index_ok (reg_index r)" "counts_ok (reg_index r) (reg_metrics r)"
    "mirrors (reg_index r) (reg_lineage r)"
    using assms by (simp_all add: registry_ok_def)
  have "index_ok (set_task t (updated_task now now' target a task)
      (move_state task (rt_state task) target (reg_index r)))"
    using index_ok_rewrite[OF ok(1) moved(1), of "updated_task now now' target a task"] by simp
  moreover have "counts_ok (set_task t (updated_task now now' target a task)
      (move_state task (rt_state task) target (reg_index r)))
      (task_transitioned (rt_state task) target
        (terminal_metrics target (updated_task now now' target a task) (reg_metrics r)))"
    using counts_ok_transition[OF ok(2) moved(1) by_id_set_task_move,
        where u = "updated_task now now' target a task"] by simp
  moreover have "mirrors (set_task t (updated_task now now' target a task)
      (move_state task (rt_state task) target (reg_index r))) (reg_lineage r)"
    by (rule mirrors_rewrite[OF ok(3) moved(1) by_id_set_task_move]) simp_all
  ultimately show ?thesis using moved(3) by (simp add: registry_ok_def)
qed (use assms in simp_all)

lemma registry_ok_remove:
  assumes ok: "registry_ok r"
  shows "registry_ok (fst (registry_remove order t r))"
proof (cases "dget (reg_tasks r) t")
  case None
  then show ?thesis using ok by (simp add: registry_remove_def)
next
  case (Some task)
  define ix where "ix = index_remove task (reg_index r)"
  define tr where "tr = lineage_unregister order t (reg_lineage r)"
  define ix' where "ix' = (case rt_parent_task_id task of None \<Rightarrow> ix
    | Some p \<Rightarrow> if p \<in> set (dkeys (by_id ix)) then refresh_parent_child_count p tr ix else ix)"
  have iok: "index_ok (reg_index r)" and cok: "counts_ok (reg_index r) (reg_metrics r)"
    and mir: "mirrors (reg_index r) (reg_lineage r)"
    using ok by (simp_all add: registry_ok_def)
  have id: "rt_task_id task = t" using index_okD(2)[OF iok Some] .
  have ids: "by_id ix = dpop t (reg_tasks r)" by (simp add: ix_def index_remove_def id)
  have "index_ok ix" unfolding ix_def using iok Some id by (intro index_ok_remove) simp_all
  then have "index_ok ix'"
    by (auto simp: ix'_def index_ok_refresh split: option.split)
  moreover have "counts_ok ix' (task_removed (rt_state task) (reg_metrics r))"
  proof -
    have t: "t \<in> set (dkeys (reg_tasks r))" using Some by (simp add: in_dkeys_iff del: set_map)
    have "t \<in> keys_where P (reg_tasks r) \<longleftrightarrow> P task" for P using Some by (rule in_keys_where)
    then have "counts_ok ix (task_removed (rt_state task) (reg_metrics r))"
      using cok length_dpop[OF index_okD(1)[OF iok] t]
      by (auto simp: counts_ok_def ids task_removed_def card_keys_where_dpop)
    then show ?thesis by (auto simp: ix'_def split: option.split)
  qed
  moreover have "mirrors ix' tr"
  proof -
    have par: "rt_parent_task_id task = parent_get (parent_of (reg_lineage r)) t"
      using mir Some by (simp add: mirrors_def)
    have cc: "lineage_child_count tr k = lineage_child_count (reg_lineage r) k"
      if "k \<noteq> t" "rt_parent_task_id task \<noteq> Some k" for k
      using that par
      by (auto simp: lineage_child_count_def tr_def lineage_unregister_def Let_def bucket_simps
          split: option.split)
    have pk: "parent_get (parent_of tr) k = (if k = t then None else parent_get (parent_of (reg_lineage r)) k)" for k
      by (simp add: tr_def lineage_unregister_def Let_def)
    have "distinct (dkeys (parent_of tr))"
      using mir by (simp add: tr_def lineage_unregister_def Let_def mirrors_def del: distinct_map)
    moreover have "set (dkeys (parent_of tr)) = set (dkeys (parent_of (reg_lineage r))) - {t}"
      by (simp add: tr_def lineage_unregister_def Let_def del: set_map)
    moreover have "set (dkeys (by_id ix')) = set (dkeys (reg_tasks r)) - {t}"
      by (simp add: ix'_def ids del: set_map split: option.split)
    moreover have "rt_parent_task_id u = parent_get (parent_of tr) k \<and> rt_child_count u = lineage_child_count tr k"
      if u: "dget (by_id ix') k = Some u" for k u
    proof -
      have "dget (by_id ix') k = map_option (\<lambda>v. if rt_parent_task_id task = Some k
            then v\<lparr>rt_child_count := lineage_child_count tr k\<rparr> else v) (dget (by_id ix) k)"
        by (cases "rt_parent_task_id task"; cases "dget (by_id ix) k")
          (auto simp: ix'_def dget_refresh in_dkeys_iff simp del: set_map)
      with u obtain v where v: "dget (by_id ix) k = Some v"
        and uv: "u = (if rt_parent_task_id task = Some k
            then v\<lparr>rt_child_count := lineage_child_count tr k\<rparr> else v)" by auto
      then have "k \<noteq> t" "dget (reg_tasks r) k = Some v"
        by (auto simp: ids dict_simps split: if_splits)
      then show ?thesis using mir uv cc[of k] by (auto simp: mirrors_def pk)
    qed
    ultimately show ?thesis using mir by (simp add: mirrors_def del: set_map distinct_map)
  qed
  ultimately show ?thesis
    using Some by (simp add: registry_remove_def Let_def registry_ok_def ix_def[symmetric]
        tr_def[symmetric] ix'_def[symmetric])
qed

lemma registry_ok_new:
  "parent_of tr = [] \<Longrightarrow> registry_ok (new_registry tr)"
  by (simp add: registry_ok_def new_registry_def counts_ok_def mirrors_def new_metrics_def)
    (simp add: empty_index_def)

lemma registry_ok_clear: "registry_ok (registry_clear r)"
  by (simp add: registry_ok_def registry_clear_def counts_ok_def mirrors_def new_metrics_def
      lineage_clear_def) (simp add: empty_index_def)

lemma registry_ok_reject:
  "registry_ok (r\<lparr>reg_metrics := record_rejected_transition (reg_metrics r)\<rparr>) = registry_ok r"
  by (simp add: registry_ok_def counts_ok_def record_rejected_transition_def)

section \<open>Sequences of registry operations\<close>

datatype registry_op =
    RRegister real task_id "task_metadata option" task_state
  | RUpdate real real task_id task_state update_args
  | RRemove task_id
  | RClear
  | REvent real real runtime_event

fun registry_step ::
  "(task_id set \<Rightarrow> task_id list) \<Rightarrow> registry_op \<Rightarrow> task_registry \<Rightarrow> task_registry" where
  "registry_step order (RRegister now t md st) r = fst (registry_register now t md st r)"
| "registry_step order (RUpdate now now' t target a) r = fst (update_state now now' t target a r)"
| "registry_step order (RRemove t) r = fst (registry_remove order t r)"
| "registry_step order RClear r = registry_clear r"
| "registry_step order (REvent now now' e) r = fst (handle_event now now' e r)"

abbreviation registry_run ::
  "(task_id set \<Rightarrow> task_id list) \<Rightarrow> registry_op list \<Rightarrow> task_registry \<Rightarrow> task_registry" where
  "registry_run order ops r \<equiv> fold (registry_step order) ops r"

lemma safe_update_ok:
  "registry_ok r \<Longrightarrow> registry_ok (fst (safe_update now now' t target a r)) \<and>
     snd (safe_update now now' t target a r) = None"
  using registry_ok_update[of r now now' t target a]
  by (cases rule: update_state_cases[of r t now now' target a])
    (simp_all add: safe_update_def registry_ok_reject)

lemma handle_created_ok:
  assumes ok: "registry_ok r"
  shows "registry_ok (fst (handle_created now e f r)) \<and> snd (handle_created now e f r) = None"
proof (cases "te_task_id f \<in> set (dkeys (reg_tasks r))")
  case True
  then show ?thesis using ok by (simp add: handle_created_def del: set_map)
next
  case False
  show ?thesis
  proof (cases rule: registry_register_cases[OF ok, of now "te_task_id f"
        "Some (created_metadata e f (te_parent_task_id f))" CREATED, case_names refused accepted])
    case (accepted md parent tr')
    then show ?thesis
      using False registry_ok_register[OF ok, of now "te_task_id f"
          "Some (created_metadata e f (te_parent_task_id f))" CREATED]
      by (auto simp: handle_created_def map_prod_def simp del: set_map split: prod.splits)
  next
    case first: (refused err)
    then have err: "err = InvalidParentReferenceError" using False by blast
    show ?thesis
    proof (cases rule: registry_register_cases[OF ok, of now "te_task_id f"
          "Some (created_metadata e f None)" CREATED, case_names refused accepted])
      case (refused err')
      then show ?thesis using False by (auto simp: created_metadata_def)
    next
      case (accepted md parent tr')
      then show ?thesis
        using False first(1) err registry_ok_register[OF ok, of now "te_task_id f"
            "Some (created_metadata e f None)" CREATED]
        by (auto simp: handle_created_def map_prod_def simp del: set_map split: prod.splits)
    qed
  qed
qed

lemma handle_event_ok:
  assumes "registry_ok r"
  shows "registry_ok (fst (handle_event now now' e r)) \<and> snd (handle_event now now' e r) = None"
  using handle_created_ok[OF assms] safe_update_ok[OF assms] assms
  by (simp add: handle_event_def split: event_body.split)

lemma registry_ok_step: "registry_ok r \<Longrightarrow> registry_ok (registry_step order op r)"
  by (cases op) (simp_all add: registry_ok_register registry_ok_update registry_ok_remove
      registry_ok_clear handle_event_ok)

lemma registry_ok_run: "registry_ok r \<Longrightarrow> registry_ok (registry_run order ops r)"
  by (induction ops arbitrary: r) (simp_all add: registry_ok_step)

lemma registry_ok_reachable: "registry_ok (registry_run order ops (new_registry (new_tracker d)))"
  by (intro registry_ok_run registry_ok_new) (simp add: new_tracker_def)

section \<open>Terminal tasks do not change\<close>

text \<open>Everything of a record but the mirrored child count, which a child's registration moves.\<close>

definition outcome :: "runtime_task \<Rightarrow> runtime_task" where
  "outcome t = t\<lparr>rt_child_count := 0\<rparr>"

fun forgets :: "task_id \<Rightarrow> registry_op \<Rightarrow> bool" where
  "forgets t (RRemove u) = (u = t)"
| "forgets t RClear = True"
| "forgets t _ = False"

definition settled :: "task_id \<Rightarrow> runtime_task \<Rightarrow> task_registry \<Rightarrow> bool" where
  "settled t v r \<longleftrightarrow>
     (case registry_get r t of
        None \<Rightarrow> False
      | Some task \<Rightarrow> is_terminal (rt_state task) \<and> outcome task = v)"

lemma dget_finish_register:
  "dget (reg_tasks (fst (finish_register md task lin tr r))) k =
     (if k = rt_task_id task then Some (apply_lineage lin task)
      else map_option (\<lambda>v. if md_parent_task_id md = Some k
             then v\<lparr>rt_child_count := lineage_child_count tr k\<rparr> else v) (dget (reg_tasks r) k))"
  by (cases "md_parent_task_id md"; cases "dget (reg_tasks r) k")
    (auto simp: finish_register_def Let_def index_add_def apply_lineage_def dict_simps dget_refresh)

lemma settled_register:
  assumes "registry_ok r" "settled t v r"
  shows "settled t v (fst (registry_register now u metadata st r))"
proof (cases rule: registry_register_cases[OF assms(1), of now u metadata st, case_names refused accepted])
  case (refused e)
  then show ?thesis using assms by simp
next
  case (accepted md parent tr')
  obtain task where task: "dget (reg_tasks r) t = Some task" "is_terminal (rt_state task)" "outcome task = v"
    using assms(2) by (auto simp: settled_def registry_get_def split: option.splits)
  then have "t \<noteq> u" using accepted(3) by (auto simp: in_dkeys_iff simp del: set_map)
  then show ?thesis
    using task unfolding settled_def registry_get_def accepted(1)
    by (auto simp: dget_finish_register create_task_def outcome_def)
qed

lemma settled_update:
  assumes "settled t v r"
  shows "settled t v (fst (update_state now now' u target a r))"
proof (cases rule: update_state_cases[of r u now now' target a, case_names unknown illegal moved])
  case (moved task)
  then have "t \<noteq> u" using assms by (auto simp: settled_def registry_get_def terminal_stuck)
  then show ?thesis using assms moved by (simp add: settled_def registry_get_def dict_simps)
qed (use assms in simp_all)

lemma settled_safe_update:
  assumes "settled t v r"
  shows "settled t v (fst (safe_update now now' u target a r))"
  using settled_update[OF assms, of now now' u target a] assms
  by (cases rule: update_state_cases[of r u now now' target a])
    (simp_all add: safe_update_def settled_def registry_get_def)

lemma settled_created:
  assumes "registry_ok r" "settled t v r"
  shows "settled t v (fst (handle_created now e f r))"
  using assms settled_register[OF assms]
    settled_register[OF registry_ok_register[OF assms(1)] settled_register[OF assms]]
  unfolding handle_created_def
  by (auto simp del: set_map split: prod.splits sum.splits registry_error.splits)
    (metis fst_conv)+

lemma settled_remove:
  assumes "registry_ok r" "settled t v r" "u \<noteq> t"
  shows "settled t v (fst (registry_remove order u r))"
proof (cases "dget (reg_tasks r) u")
  case None
  then show ?thesis using assms by (simp add: registry_remove_def)
next
  case (Some task)
  then have "rt_task_id task = u" using assms(1) index_okD(2) by (auto simp: registry_ok_def)
  then show ?thesis
    using assms Some
    by (cases "rt_parent_task_id task"; cases "dget (reg_tasks r) t")
      (auto simp: registry_remove_def Let_def settled_def registry_get_def index_remove_def
        dget_refresh dict_simps outcome_def simp del: set_map)
qed

lemma settled_step:
  assumes "registry_ok r" "settled t v r" "\<not> forgets t op"
  shows "settled t v (registry_step order op r)"
  using assms settled_safe_update[OF assms(2)] settled_created[OF assms(1,2)]
  by (cases op) (auto simp: settled_register settled_update settled_remove handle_event_def
      split: event_body.split)

lemma settled_run:
  "registry_ok r \<Longrightarrow> settled t v r \<Longrightarrow> \<forall>op \<in> set ops. \<not> forgets t op \<Longrightarrow> settled t v (registry_run order ops r)"
  by (induction ops arbitrary: r) (auto simp: registry_ok_step settled_step)

section \<open>Ancestry without removals\<close>

text \<open>
  As long as nothing is removed, the chain, depth and root stamped on a record at registration
  stay those of the tracker, and the tracker's are the true ones.
\<close>

definition ancestry_ok :: "task_registry \<Rightarrow> bool" where
  "ancestry_ok r \<longleftrightarrow>
     lineage_ok (reg_lineage r) \<and>
     (\<forall>k task. registry_get r k = Some task \<longrightarrow>
        rt_ancestor_chain task = lineage_ancestors (reg_lineage r) k \<and>
        rt_depth task = length (rt_ancestor_chain task) \<and>
        rt_root_task_id task = Some (last (k # rt_ancestor_chain task)))"

lemma lineage_ok_bump: "lineage_ok (tr\<lparr>cyclic_rejections := n\<rparr>) = lineage_ok tr"
  by (simp add: lineage_ok_def closed_parents_def chains_exact_def children_exact_def
      lineage_ancestors_def)

lemma lineage_ancestors_register:
  assumes "u \<noteq> t"
  shows "lineage_ancestors (fst (lineage_register t p tr)) u = lineage_ancestors tr u"
  using assms by (auto simp: lineage_register_def Let_def lineage_ancestors_def dict_simps
      simp del: set_map split: option.split)

lemma lineage_ancestors_bump [simp]:
  "lineage_ancestors (tr\<lparr>cyclic_rejections := n\<rparr>) u = lineage_ancestors tr u"
  by (simp add: lineage_ancestors_def)

lemma reg_lineage_finish [simp]: "reg_lineage (fst (finish_register md task lin tr r)) = tr"
  by (simp add: finish_register_def Let_def)

lemma ancestry_ok_register:
  assumes ok: "registry_ok r" and anc: "ancestry_ok r"
  shows "ancestry_ok (fst (registry_register now t metadata st r))"
proof (cases rule: registry_register_cases[OF ok, of now t metadata st, case_names refused accepted])
  case (refused e)
  then show ?thesis using anc by simp
next
  case (accepted md parent tr')
  note tracked = tracked_iff[OF ok]
  have lok: "lineage_ok (reg_lineage r)" using anc by (simp add: ancestry_ok_def)
  have "lineage_ok tr' \<and> (\<forall>u. u \<noteq> t \<longrightarrow> lineage_ancestors tr' u = lineage_ancestors (reg_lineage r) u)"
    using accepted(5)
  proof (elim disjE conjE exE)
    assume p: "parent = md_parent_task_id md"
      and reg: "lineage_register t parent (reg_lineage r) = (tr', Inr (lineage_locked tr' t))"
    have "lineage_ok (fst (lineage_register t parent (reg_lineage r)))"
      using p accepted(4) tracked by (intro lineage_ok_register[OF lok]) blast
    then show ?thesis using reg lineage_ancestors_register[of _ t parent "reg_lineage r"] by simp
  next
    fix tr'' assume "tr'' = (reg_lineage r)\<lparr>cyclic_rejections := cyclic_rejections (reg_lineage r) + 1\<rparr>"
      and reg: "lineage_register t None tr'' = (tr', Inr (lineage_locked tr' t))"
    moreover from this have "lineage_ok (fst (lineage_register t None tr''))"
      using lok by (intro lineage_ok_register) (simp_all add: lineage_ok_bump)
    ultimately show ?thesis using lineage_ancestors_register[of _ t None tr''] by simp
  qed
  then have lok': "lineage_ok tr'"
    and others: "\<And>u. u \<noteq> t \<Longrightarrow> lineage_ancestors tr' u = lineage_ancestors (reg_lineage r) u" by blast+
  define task0 where "task0 = create_task now t md st\<lparr>rt_parent_task_id := parent\<rparr>"
  have "rt_task_id task0 = t" by (simp add: task0_def create_task_def)
  then have got: "registry_get (fst (registry_register now t metadata st r)) k =
      (if k = t then Some (apply_lineage (lineage_locked tr' t) task0)
       else map_option (\<lambda>v. if md_parent_task_id md = Some k
              then v\<lparr>rt_child_count := lineage_child_count tr' k\<rparr> else v) (registry_get r k))" for k
    unfolding accepted(1) task0_def[symmetric] by (simp add: registry_get_def dget_finish_register)
  have "rt_ancestor_chain task = lineage_ancestors tr' k \<and>
        rt_depth task = length (rt_ancestor_chain task) \<and>
        rt_root_task_id task = Some (last (k # rt_ancestor_chain task))"
    if k: "registry_get (fst (registry_register now t metadata st r)) k = Some task" for k task
  proof (cases "k = t")
    case True
    then have "task = apply_lineage (lineage_locked tr' t) task0"
      using k got[of k] by simp
    then show ?thesis
      using True by (simp add: apply_lineage_def lineage_locked_def lineage_ancestors_def Let_def)
  next
    case False
    then obtain v where "registry_get r k = Some v"
      "rt_ancestor_chain task = rt_ancestor_chain v" "rt_depth task = rt_depth v"
      "rt_root_task_id task = rt_root_task_id v"
      using k got[of k] by (auto split: if_splits)
    then show ?thesis using anc others[OF False] by (simp add: ancestry_ok_def)
  qed
  then show ?thesis using lok' accepted(1) by (simp add: ancestry_ok_def)
qed

lemma ancestry_ok_update:
  assumes "ancestry_ok r"
  shows "ancestry_ok (fst (update_state now now' t target a r))"
proof (cases rule: update_state_cases[of r t now now' target a, case_names unknown illegal moved])
  case (moved task)
  then show ?thesis
    using assms by (auto simp: ancestry_ok_def registry_get_def dict_simps updated_task_def)
qed (use assms in simp_all)

lemma ancestry_ok_safe_update:
  assumes "ancestry_ok r"
  shows "ancestry_ok (fst (safe_update now now' t target a r))"
  using ancestry_ok_update[OF assms, of now now' t target a] assms
  by (cases rule: update_state_cases[of r t now now' target a])
    (simp_all add: safe_update_def ancestry_ok_def registry_get_def)

lemma ancestry_ok_created:
  assumes "registry_ok r" "ancestry_ok r"
  shows "ancestry_ok (fst (handle_created now e f r))"
  using assms ancestry_ok_register[OF assms]
    ancestry_ok_register[OF registry_ok_register[OF assms(1)] ancestry_ok_register[OF assms]]
  unfolding handle_created_def
  by (auto simp del: set_map split: prod.splits sum.splits registry_error.splits)
    (metis fst_conv)+

lemma ancestry_ok_clear: "ancestry_ok (registry_clear r)"
  by (simp add: ancestry_ok_def registry_clear_def lineage_ok_clear registry_get_def empty_index_def)

lemma ancestry_ok_step:
  assumes "registry_ok r" "ancestry_ok r" "\<And>u. op \<noteq> RRemove u"
  shows "ancestry_ok (registry_step order op r)"
  using assms ancestry_ok_safe_update[OF assms(2)] ancestry_ok_created[OF assms(1,2)]
  by (cases op) (auto simp: ancestry_ok_register ancestry_ok_update ancestry_ok_clear handle_event_def
      split: event_body.split)

lemma ancestry_ok_run:
  "registry_ok r \<Longrightarrow> ancestry_ok r \<Longrightarrow> \<forall>u. RRemove u \<notin> set ops \<Longrightarrow> ancestry_ok (registry_run order ops r)"
proof (induction ops arbitrary: r)
  case Nil
  then show ?case by simp
next
  case (Cons op ops)
  then have "ancestry_ok (registry_step order op r)" by (intro ancestry_ok_step) auto
  then show ?case using Cons by (simp add: registry_ok_step)
qed

lemma ancestry_ok_new: "ancestry_ok (new_registry (new_tracker d))"
  by (simp add: ancestry_ok_def new_registry_def lineage_ok_new registry_get_def empty_index_def)

lemma sum_counts:
  assumes "distinct (dkeys d)"
  shows "(\<Sum>s\<leftarrow>task_states. int (card (keys_where (\<lambda>t. rt_state t = s) d))) = int (length d)"
proof -
  have "int (length d) = int (card (set (dkeys d)))"
    using distinct_card[OF assms] by simp
  also have "set (dkeys d) = (\<Union>s\<in>UNIV. keys_where (\<lambda>t. rt_state t = s) d)"
    by (auto simp: keys_where_def in_dkeys_iff simp del: set_map)
  also have "card \<dots> = (\<Sum>s\<in>UNIV. card (keys_where (\<lambda>t. rt_state t = s) d))"
  proof (rule card_UN_disjoint)
    show "\<forall>s\<in>UNIV. \<forall>s'\<in>UNIV. s \<noteq> s' \<longrightarrow>
        keys_where (\<lambda>t. rt_state t = s) d \<inter> keys_where (\<lambda>t. rt_state t = s') d = {}"
      by (auto simp: keys_where_def)
  qed simp_all
  finally show ?thesis
    by (simp add: sum_list_distinct_conv_sum_set)
qed

lemma length_filter_dvals:
  assumes "distinct (dkeys d)"
  shows "length (filter P (dvals d)) = card (keys_where P d)"
  using assms
proof (induction d)
  case Nil
  then show ?case by simp
next
  case (Cons kv d)
  obtain k v where kv: "kv = (k, v)" by (cases kv)
  have k: "k \<notin> set (dkeys d)" using Cons.prems by (simp add: kv)
  then have "dget d k = None" by (simp only: dget_None_iff simp_thms)
  then have "keys_where P (kv # d) = (if P v then insert k (keys_where P d) else keys_where P d)"
    by (auto simp: keys_where_def kv)
  moreover have "k \<notin> keys_where P d" using k by (rule not_in_keys_where)
  ultimately show ?case using Cons by (simp add: kv)
qed

lemma active_plus_terminal:
  "active_count m + terminal_count m = (\<Sum>s\<leftarrow>task_states. by_state_counts m s)"
  by (simp add: active_count_def terminal_count_def task_states_def)

lemma count_active:
  "(\<Sum>s\<leftarrow>filter (\<lambda>s. \<not> is_terminal s) task_states. length (filter (\<lambda>t. rt_state t = s) ts))
     = length (filter (\<lambda>t. rt_state t \<notin> TERMINAL_STATES) ts)"
proof (induction ts)
  case Nil
  then show ?case by (simp add: task_states_def)
next
  case (Cons t ts)
  then show ?case by (cases "rt_state t") (simp_all add: task_states_def TERMINAL_STATES_def)
qed

lemma length_snapshot_tasks [simp]: "length (snapshot_tasks ts) = length ts"
  by (simp add: snapshot_tasks_def)

section \<open>Properties\<close>

text \<open>C5: After any sequence of registrations, state updates, removals, clears and events, in any
  interleaving, the published counters are exact: the total is the number of tracked tasks, the
  active count is the number of tasks \<open>snapshot_active_tasks\<close> lists, each terminal count is the
  number of tasks in that state, and active plus terminal is the total.\<close>

theorem registry_counts_exact:
  "let r = registry_run order ops (new_registry (new_tracker d));
       ms = registry_metrics_snapshot r;
       in_state = (\<lambda>s. int (card {t. \<exists>task. registry_get r t = Some task \<and> rt_state task = s}))
   in ms_total_tasks ms = int (length (snapshot_all_tasks r)) \<and>
      ms_active_tasks ms = int (length (snapshot_active_tasks r)) \<and>
      ms_active_tasks ms + ms_terminal_tasks ms = ms_total_tasks ms \<and>
      ms_completed_tasks ms = in_state COMPLETED \<and>
      ms_cancelled_tasks ms = in_state CANCELLED \<and>
      ms_failed_tasks ms = in_state FAILED"
proof -
  define r where "r = registry_run order ops (new_registry (new_tracker d))"
  have ok: "index_ok (reg_index r)" and cok: "counts_ok (reg_index r) (reg_metrics r)"
    using registry_ok_reachable[of order ops d] by (simp_all add: r_def registry_ok_def)
  note dist = index_okD(1)[OF ok]
  have counts: "by_state_counts (reg_metrics r) s = int (card (keys_where (\<lambda>t. rt_state t = s) (reg_tasks r)))"
    and total: "rm_total (reg_metrics r) = int (length (reg_tasks r))" for s
    using cok by (simp_all add: counts_ok_def)
  have "active_count (reg_metrics r) = int (length (snapshot_active_tasks r))"
    using count_active[of "dvals (reg_tasks r)"]
    by (simp add: active_count_def counts length_filter_dvals[OF dist, symmetric]
        snapshot_active_tasks_def task_states_def)
  moreover have "active_count (reg_metrics r) + terminal_count (reg_metrics r) = rm_total (reg_metrics r)"
    using sum_counts[OF dist] by (simp add: active_plus_terminal counts total)
  ultimately show ?thesis
    by (simp add: r_def[symmetric] Let_def registry_metrics_snapshot_def metrics_snapshot_of_def
        total counts keys_where_def registry_get_def snapshot_all_tasks_def)
qed

text \<open>Whatever the registry went through, filtering by state and parent lists exactly the
  tracked tasks with that state and that parent: the state and parent buckets never miss a task,
  never keep a removed or moved one, and no empty bucket stays behind.\<close>

theorem registry_list_exact:
  assumes "lists_sets order'" and "parent \<noteq> unset"
  shows "set (registry_list order' (Some s) parent (registry_run order ops (new_registry (new_tracker d))))
    = {task. \<exists>t. registry_get (registry_run order ops (new_registry (new_tracker d))) t = Some task \<and>
         rt_state task = s \<and> rt_parent_task_id task = parent} \<and>
    no_empty_bucket (by_state (reg_index (registry_run order ops (new_registry (new_tracker d))))) \<and>
    no_empty_bucket (by_parent (reg_index (registry_run order ops (new_registry (new_tracker d)))))"
proof -
  define r where "r = registry_run order ops (new_registry (new_tracker d))"
  have ok: "index_ok (reg_index r)"
    using registry_ok_reachable[of order ops d] by (simp add: r_def registry_ok_def)
  have ids: "filter_ids (Some s) parent (reg_index r)
      = keys_where (\<lambda>t. rt_state t = s) (reg_tasks r) \<inter> keys_where (\<lambda>t. rt_parent_task_id t = parent) (reg_tasks r)"
    using assms(2) by (simp add: filter_ids_def index_okD(3,4)[OF ok])
  then have "set (order' (filter_ids (Some s) parent (reg_index r))) = filter_ids (Some s) parent (reg_index r)"
    using assms(1) by (simp add: lists_sets_def)
  then have "set (registry_list order' (Some s) parent r)
    = {task. \<exists>t. registry_get r t = Some task \<and> rt_state task = s \<and> rt_parent_task_id task = parent}"
    unfolding registry_list_def index_filter_def registry_get_def set_eq_iff in_map_filter
    by (simp add: ids in_keys_where) (fastforce simp: keys_where_def)
  then show ?thesis using index_okD(5,6)[OF ok] by (simp add: r_def)
qed

theorem registry_list_exact_witness:
  "set (registry_list sorted_list_of_set (Some CREATED) None
      (registry_run sorted_list_of_set [RRegister 1 ''a'' None CREATED] (new_registry (new_tracker 8))))
    = {task. \<exists>t. registry_get (registry_run sorted_list_of_set [RRegister 1 ''a'' None CREATED]
        (new_registry (new_tracker 8))) t = Some task \<and>
         rt_state task = CREATED \<and> rt_parent_task_id task = None}"
  by (rule registry_list_exact[THEN conjunct1]) (simp_all add: lists_sets_def unset_def)

text \<open>C8: A task that reached a terminal state stays exactly as it is, whatever later
  registrations, updates and events arrive, until the task itself is removed or the registry
  cleared: a late or repeated terminal event changes neither its state nor its timestamps,
  duration, exception or cancellation origin (only its child count may move).\<close>

theorem terminal_task_is_final:
  assumes "registry_get (registry_run order ops (new_registry (new_tracker d))) t = Some task"
    and "is_terminal (rt_state task)"
    and "\<forall>op \<in> set later. \<not> forgets t op"
  shows "map_option outcome (registry_get (registry_run order (ops @ later) (new_registry (new_tracker d))) t)
           = Some (outcome task)"
  using settled_run[OF registry_ok_reachable[of order ops d], of t "outcome task" later order] assms
  by (auto simp: settled_def split: option.splits)

theorem terminal_task_is_final_witness:
  "map_option rt_state (registry_get (registry_run sorted_list_of_set
      ([RRegister 1 ''a'' None CREATED, RUpdate 2 2 ''a'' FAILED no_args] @
       [RUpdate 3 3 ''a'' COMPLETED no_args, RRegister 4 ''b'' None CREATED])
      (new_registry (new_tracker 8))) ''a'') = Some FAILED"
proof -
  define task where "task = updated_task 2 2 FAILED no_args (create_task 1 ''a'' default_metadata CREATED)"
  have "registry_get (registry_run sorted_list_of_set
      [RRegister 1 ''a'' None CREATED, RUpdate 2 2 ''a'' FAILED no_args] (new_registry (new_tracker 8))) ''a''
      = Some task"
    by (simp add: task_def registry_register_def new_registry_def new_tracker_def empty_index_def
        default_metadata_def lineage_register_def Let_def create_task_def finish_register_def
        apply_lineage_def lineage_locked_def index_add_def update_state_def can_transition_def
        set_task_def move_state_def registry_get_def dget_or_def)
  from terminal_task_is_final[OF this, of "[RUpdate 3 3 ''a'' COMPLETED no_args, RRegister 4 ''b'' None CREATED]"]
  have "map_option outcome (registry_get (registry_run sorted_list_of_set
      ([RRegister 1 ''a'' None CREATED, RUpdate 2 2 ''a'' FAILED no_args] @
       [RUpdate 3 3 ''a'' COMPLETED no_args, RRegister 4 ''b'' None CREATED])
      (new_registry (new_tracker 8))) ''a'') = Some (outcome task)"
    by (simp add: task_def)
  then show ?thesis by (auto simp: outcome_def task_def dest: arg_cong[where f = rt_state])
qed

text \<open>No exception escapes the event handler, whatever event arrives in whatever state the
  registry is: unknown tasks, illegal transitions, duplicate creations and unresolved or cyclic
  parents are all absorbed.\<close>

theorem handle_event_never_raises:
  "snd (handle_event now now' e (registry_run order ops (new_registry (new_tracker d)))) = None"
  using handle_event_ok[OF registry_ok_reachable] by simp

text \<open>\<open>update_state\<close> is all or nothing: an update of an unknown task or an illegal transition
  leaves the registry untouched, and it succeeds exactly when the lifecycle table allows the move;
  then the task is in its target state, every other task is untouched, and the target's count went
  up by one while the old state's went down by one.\<close>

theorem update_state_contract:
  "let r' = fst (update_state now now' t target a r);
       res = snd (update_state now now' t target a r)
   in ((\<exists>task'. res = Inr task') \<longleftrightarrow>
         (\<exists>task. registry_get r t = Some task \<and> can_transition (rt_state task) target)) \<and>
      (case res of
         Inl err \<Rightarrow> r' = r
       | Inr task' \<Rightarrow>
           registry_get r' t = Some task' \<and> rt_state task' = target \<and>
           registry_get r' = (registry_get r)(t := Some task') \<and>
           rt_completed_at task' =
             (if is_terminal target
              then Some (case ua_completed_at a of Some c \<Rightarrow> c | None \<Rightarrow> now')
              else Option.bind (registry_get r t) rt_completed_at) \<and>
           by_state_counts (reg_metrics r') target = by_state_counts (reg_metrics r) target + 1 \<and>
           (\<exists>old. map_option rt_state (registry_get r t) = Some old \<and>
              by_state_counts (reg_metrics r') old = by_state_counts (reg_metrics r) old - 1))"
proof (cases rule: update_state_cases[of r t now now' target a, case_names unknown illegal moved])
  case (moved task)
  then have "target \<noteq> rt_state task" using can_transition_changes by blast
  then show ?thesis
    using moved
    by (auto simp: Let_def registry_get_def dict_simps task_transitioned_def updated_task_def fun_eq_iff)
qed (simp_all add: Let_def registry_get_def)

text \<open>C14: In a registry that only registers, updates and handles events (no removal), every
  record's stamped ancestry is the truth: its ancestor chain is what a fresh walk of the parent
  links yields, its depth is that chain's length, its root the chain's end, and its child count
  the number of tracked tasks that name it as parent.\<close>

theorem stamped_ancestry_exact:
  assumes "\<forall>u. RRemove u \<notin> set ops"
    and "registry_get (registry_run order ops (new_registry (new_tracker d))) t = Some task"
    and "int (rt_depth task) \<le> m"
  shows "ancestors_tuple m (parent_of (reg_lineage (registry_run order ops (new_registry (new_tracker d))))) t
           = Inr (rt_ancestor_chain task) \<and>
         rt_depth task = length (rt_ancestor_chain task) \<and>
         rt_root_task_id task = Some (last (t # rt_ancestor_chain task)) \<and>
         rt_child_count task = card {c. \<exists>u. registry_get (registry_run order ops (new_registry (new_tracker d))) c
            = Some u \<and> rt_parent_task_id u = Some t}"
proof -
  define r where "r = registry_run order ops (new_registry (new_tracker d))"
  have ok: "registry_ok r" unfolding r_def by (rule registry_ok_reachable)
  have anc: "ancestry_ok r" unfolding r_def
    using assms(1) ancestry_ok_new by (intro ancestry_ok_run registry_ok_new) (simp_all add: new_tracker_def)
  have task: "registry_get r t = Some task" using assms(2) by (simp add: r_def)
  have lok: "lineage_ok (reg_lineage r)" using anc by (simp add: ancestry_ok_def)
  have chain: "rt_ancestor_chain task = lineage_ancestors (reg_lineage r) t"
    "rt_depth task = length (rt_ancestor_chain task)"
    "rt_root_task_id task = Some (last (t # rt_ancestor_chain task))"
    using anc task by (simp_all add: ancestry_ok_def)
  have walk: "walk_ancestors m (parent_of (reg_lineage r)) t = (rt_ancestor_chain task, AtRoot)"
    using lineage_ok_walk[OF lok] chain assms(3) by simp
  have mir: "mirrors (reg_index r) (reg_lineage r)" using ok by (simp add: registry_ok_def)
  have "(parent_get (parent_of (reg_lineage r)) c = Some t) =
      (\<exists>u. registry_get r c = Some u \<and> rt_parent_task_id u = Some t)" for c
  proof (cases "registry_get r c")
    case (Some u)
    then show ?thesis using mir by (simp add: mirrors_def registry_get_def)
  next
    case None
    then have "c \<notin> set (dkeys (reg_tasks r))" by (simp add: registry_get_def in_dkeys_iff del: set_map)
    then show ?thesis using None tracked_iff[OF ok] parent_get_untracked by auto
  qed
  then have "bucket (children_of (reg_lineage r)) t
      = {c. \<exists>u. registry_get r c = Some u \<and> rt_parent_task_id u = Some t}"
    using lok by (auto simp: lineage_ok_def children_exact_def)
  moreover have "rt_child_count task = lineage_child_count (reg_lineage r) t"
    using mir task by (simp add: mirrors_def registry_get_def)
  ultimately show ?thesis
    using chain walk by (simp add: r_def[symmetric] ancestors_tuple_def lineage_child_count_def)
qed

theorem stamped_ancestry_exact_witness:
  "map_option rt_ancestor_chain (registry_get (registry_run sorted_list_of_set
      [RRegister 1 ''a'' None CREATED,
       RRegister 2 ''b'' (Some (default_metadata\<lparr>md_parent_task_id := Some ''a''\<rparr>)) CREATED]
      (new_registry (new_tracker 8))) ''b'') = Some [''a''] \<and>
   ancestors_tuple 8 (parent_of (reg_lineage (registry_run sorted_list_of_set
      [RRegister 1 ''a'' None CREATED,
       RRegister 2 ''b'' (Some (default_metadata\<lparr>md_parent_task_id := Some ''a''\<rparr>)) CREATED]
      (new_registry (new_tracker 8))))) ''b'' = Inr [''a'']"
proof -
  let ?r = "registry_run sorted_list_of_set
      [RRegister 1 ''a'' None CREATED,
       RRegister 2 ''b'' (Some (default_metadata\<lparr>md_parent_task_id := Some ''a''\<rparr>)) CREATED]
      (new_registry (new_tracker 8))"
  have "\<exists>task. registry_get ?r ''b'' = Some task \<and> rt_ancestor_chain task = [''a''] \<and> rt_depth task = 1"
    by (simp add: registry_register_def new_registry_def new_tracker_def empty_index_def
        default_metadata_def lineage_register_def Let_def create_task_def finish_register_def
        apply_lineage_def lineage_locked_def index_add_def refresh_parent_child_count_def
        set_task_def registry_get_def dget_or_def detect_cycle_def walk_ancestors_def parent_get_def
        bucket_add_def)
  then obtain task where task: "registry_get ?r ''b'' = Some task" "rt_ancestor_chain task = [''a'']"
    "rt_depth task = 1" by blast
  then show ?thesis using stamped_ancestry_exact[OF _ task(1), of 8] by simp
qed

text \<open>When two tracked tasks carry the same asyncio id (a reused \<open>id()\<close>), removing the older
  one also drops the newer one's mapping: \<open>remove\<close> pops the asyncio id without checking whose it
  is, so the lookup then fails although the newer task is still tracked under that id.\<close>

theorem remove_drops_newer_asyncio_mapping:
  assumes "registry_get (registry_run order ops (new_registry (new_tracker d))) t = Some old"
    and "registry_get (registry_run order ops (new_registry (new_tracker d))) u = Some new"
    and "t \<noteq> u" and "rt_asyncio_task_id old = Some a" and "rt_asyncio_task_id new = Some a"
  shows "get_by_asyncio_id (fst (registry_remove order t
            (registry_run order ops (new_registry (new_tracker d))))) a = None \<and>
         map_option rt_asyncio_task_id (registry_get (fst (registry_remove order t
            (registry_run order ops (new_registry (new_tracker d))))) u) = Some (Some a)"
proof -
  define r where "r = registry_run order ops (new_registry (new_tracker d))"
  have ok: "registry_ok r" unfolding r_def by (rule registry_ok_reachable)
  have old: "dget (reg_tasks r) t = Some old" and new: "dget (reg_tasks r) u = Some new"
    using assms(1,2) by (simp_all add: r_def registry_get_def)
  then have "rt_task_id old = t" using ok index_okD(2) by (auto simp: registry_ok_def)
  then show ?thesis
    using assms(3-5) old new unfolding r_def[symmetric]
    by (cases "rt_parent_task_id old")
      (auto simp: registry_remove_def Let_def get_by_asyncio_id_def index_remove_def registry_get_def
        dict_simps dget_refresh refresh_parent_child_count_def set_task_def simp del: set_map
        split: option.split)
qed

theorem remove_drops_newer_asyncio_mapping_witness:
  "get_by_asyncio_id (fst (registry_remove sorted_list_of_set ''a''
     (registry_run sorted_list_of_set
        [RRegister 1 ''a'' (Some (default_metadata\<lparr>md_asyncio_task_id := Some 7\<rparr>)) CREATED,
         RRegister 2 ''b'' (Some (default_metadata\<lparr>md_asyncio_task_id := Some 7\<rparr>)) CREATED]
        (new_registry (new_tracker 8))))) 7 = None"
proof -
  let ?ops = "[RRegister 1 ''a'' (Some (default_metadata\<lparr>md_asyncio_task_id := Some 7\<rparr>)) CREATED,
         RRegister 2 ''b'' (Some (default_metadata\<lparr>md_asyncio_task_id := Some 7\<rparr>)) CREATED]"
  let ?r = "registry_run sorted_list_of_set ?ops (new_registry (new_tracker 8))"
  have "\<exists>old new. registry_get ?r ''a'' = Some old \<and> registry_get ?r ''b'' = Some new \<and>
      rt_asyncio_task_id old = Some 7 \<and> rt_asyncio_task_id new = Some 7"
    by (simp add: registry_register_def new_registry_def new_tracker_def empty_index_def
        default_metadata_def lineage_register_def Let_def create_task_def finish_register_def
        apply_lineage_def lineage_locked_def index_add_def
        registry_get_def dget_or_def parent_get_def)
  then show ?thesis using remove_drops_newer_asyncio_mapping[of sorted_list_of_set ?ops 8 "''a''" _ "''b''"]
    by blast
qed

lemma in_roots_in:
  assumes "distinct (dkeys ps)"
  shows "t \<in> set (roots_in ps) \<longleftrightarrow> t \<in> set (dkeys ps) \<and> parent_get ps t = None"
proof -
  have "t \<in> set (roots_in ps) \<longleftrightarrow> (t, None) \<in> set ps"
    unfolding roots_in_def by force
  also have "\<dots> \<longleftrightarrow> dget ps t = Some None" by (rule distinct_in_dict[OF assms])
  also have "\<dots> \<longleftrightarrow> t \<in> set (dkeys ps) \<and> parent_get ps t = None"
    unfolding in_dkeys_iff parent_get_def dget_or_def by (cases "dget ps t") auto
  finally show ?thesis .
qed

lemma get_root_tasks_exact:
  assumes ok: "registry_ok r"
  shows "task \<in> set (get_root_tasks r) \<longleftrightarrow>
    (\<exists>t. registry_get r t = Some task \<and> rt_parent_task_id task = None)"
proof -
  have mir: "mirrors (reg_index r) (reg_lineage r)" using ok by (simp add: registry_ok_def)
  then have dist: "distinct (dkeys (parent_of (reg_lineage r)))" by (simp add: mirrors_def del: distinct_map)
  have "t \<in> set (roots_in (parent_of (reg_lineage r))) \<longleftrightarrow> rt_parent_task_id task = None"
    if "registry_get r t = Some task" for t
    using that mir tracked_iff[OF ok, of t]
    by (simp add: in_roots_in[OF dist] registry_get_def mirrors_def in_dkeys_iff del: set_map distinct_map)
  then show ?thesis
    by (auto simp: get_root_tasks_def tasks_of_def in_map_filter lineage_list_roots_def registry_get_def)
qed

text \<open>\<open>get_root_tasks\<close> lists exactly the tracked tasks without a recorded parent. In
  particular a task whose parent has just been removed keeps its parent reference and is not
  listed, although its parent is gone and the method's docstring promises it.\<close>

theorem root_tasks_exclude_orphans:
  assumes "r = registry_run order ops (new_registry (new_tracker d))"
    and "registry_get r child = Some task" and "rt_parent_task_id task = Some t" and "child \<noteq> t"
    and "r' = fst (registry_remove order t r)"
  shows "registry_get r' t = None \<and>
         (\<exists>task'. registry_get r' child = Some task' \<and> rt_parent_task_id task' = Some t \<and>
            task' \<notin> set (get_root_tasks r')) \<and>
         set (get_root_tasks r') =
           {task. \<exists>u. registry_get r' u = Some task \<and> rt_parent_task_id task = None}"
proof -
  have ok: "registry_ok r" unfolding assms(1) by (rule registry_ok_reachable)
  have ok': "registry_ok r'" unfolding assms(5) using ok by (rule registry_ok_remove)
  have "registry_get r' t = None \<and>
      (\<exists>task'. registry_get r' child = Some task' \<and> rt_parent_task_id task' = Some t)"
  proof (cases "registry_get r t")
    case None
    then show ?thesis using assms(2-5) by (simp add: registry_remove_def registry_get_def)
  next
    case (Some gone)
    then have "rt_task_id gone = t" using ok index_okD(2) by (auto simp: registry_ok_def registry_get_def)
    then show ?thesis
      using assms(2-5) Some
      by (cases "rt_parent_task_id gone")
        (auto simp: registry_remove_def Let_def index_remove_def registry_get_def dict_simps
          dget_refresh simp del: set_map)
  qed
  then show ?thesis using get_root_tasks_exact[OF ok'] by auto
qed

theorem root_tasks_exclude_orphans_witness:
  "let r = registry_run sorted_list_of_set
        [RRegister 1 ''a'' None CREATED,
         RRegister 2 ''b'' (Some (default_metadata\<lparr>md_parent_task_id := Some ''a''\<rparr>)) CREATED]
        (new_registry (new_tracker 8))
   in registry_get (fst (registry_remove sorted_list_of_set ''a'' r)) ''a'' = None"
proof -
  let ?ops = "[RRegister 1 ''a'' None CREATED,
         RRegister 2 ''b'' (Some (default_metadata\<lparr>md_parent_task_id := Some ''a''\<rparr>)) CREATED]"
  let ?r = "registry_run sorted_list_of_set ?ops (new_registry (new_tracker 8))"
  have "\<exists>task. registry_get ?r ''b'' = Some task \<and> rt_parent_task_id task = Some ''a''"
    by (simp add: registry_register_def new_registry_def new_tracker_def empty_index_def
        default_metadata_def lineage_register_def Let_def create_task_def finish_register_def
        apply_lineage_def lineage_locked_def index_add_def refresh_parent_child_count_def
        set_task_def registry_get_def dget_or_def detect_cycle_def walk_ancestors_def parent_get_def
        bucket_add_def)
  then obtain task where task: "registry_get ?r ''b'' = Some task" "rt_parent_task_id task = Some ''a''"
    by blast
  show ?thesis unfolding Let_def
    by (rule root_tasks_exclude_orphans[OF refl task _ refl, THEN conjunct1]) simp
qed

text \<open>The completion time a terminal event carries is ignored: whatever \<open>completed_at\<close> the event
  has, the task's record gets the clock reading of the moment it is handled, so a registry rebuilt
  from recorded events reports rebuild time, not recorded time.\<close>

theorem event_completed_at_is_ignored:
  assumes "registry_get r (te_task_id f) = Some task" and "\<not> is_terminal (rt_state task)"
    and "ev_body e = TaskCompletedEvent f tm"
  shows "map_option rt_completed_at (registry_get (fst (handle_event now now' e r)) (te_task_id f))
           = Some (Some now')"
proof -
  have "can_transition (rt_state task) COMPLETED"
    using assms(2) by (cases "rt_state task") (simp_all add: can_transition_def)
  then show ?thesis
    using assms(1,3)
    by (simp add: handle_event_def safe_update_def update_state_def Let_def registry_get_def
        dict_simps updated_task_def no_args_def)
qed

theorem event_completed_at_is_ignored_witness:
  "map_option rt_completed_at (registry_get (fst (handle_event 50 51
      (sample_event ''e2'' 9 (TaskCompletedEvent (sample_fields ''a'')
         \<lparr>te_created_at = Some 1, te_completed_at = Some 3, te_duration_seconds = Some 2\<rparr>))
      (registry_run sorted_list_of_set [RRegister 1 ''a'' None CREATED] (new_registry (new_tracker 8)))))
      ''a'') = Some (Some 51)"
proof -
  let ?r = "registry_run sorted_list_of_set [RRegister 1 ''a'' None CREATED] (new_registry (new_tracker 8))"
  have "\<exists>task. registry_get ?r ''a'' = Some task \<and> rt_state task = CREATED"
    by (simp add: registry_register_def new_registry_def new_tracker_def empty_index_def
        default_metadata_def lineage_register_def Let_def create_task_def finish_register_def
        apply_lineage_def lineage_locked_def index_add_def registry_get_def)
  then obtain task where task: "registry_get ?r ''a'' = Some task" "rt_state task = CREATED" by blast
  have id: "te_task_id (sample_fields ''a'') = ''a''" by (simp add: sample_fields_def)
  show ?thesis
    using event_completed_at_is_ignored[of ?r "sample_fields ''a''" task
        "sample_event ''e2'' 9 (TaskCompletedEvent (sample_fields ''a'')
         \<lparr>te_created_at = Some 1, te_completed_at = Some 3, te_duration_seconds = Some 2\<rparr>)"
        "\<lparr>te_created_at = Some 1, te_completed_at = Some 3, te_duration_seconds = Some 2\<rparr>" 50 51] task
    unfolding id by (simp add: sample_event_def)
qed

end
