(* ===== verification/Reducers.thy ===== *)
theory Reducers
  imports Tasks
begin

text \<open>
  The reducers of the state store (\<open>asyncviz/runtime/state/reducers\<close>): transition validation
  (\<open>validation.py\<close>, \<open>reconciliation.py\<close>), the bounded per-task transition history
  (\<open>transitions.py\<close>), projection invalidation (\<open>projections.py\<close>), per-reducer counters
  (\<open>metrics.py\<close>), the dispatch table (\<open>registry.py\<close>), the shared machinery (\<open>lifecycle.py\<close>)
  and the seven reducers (\<open>task_*.py\<close>).

  A reducer receives the context record and returns it updated together with its result; an
  exception that leaves it is the left value of a sum. The text of a rejection reason is kept as
  a constructor with the values the message interpolates.
\<close>

section \<open>Validation\<close>

datatype reject_reason =
    FirstEventMustBeCreated task_state
  | AlreadyTracked task_state
  | AlreadyTerminal task_state
  | NoTransition task_state task_state
  | TransitionNotAllowed
  | TaskAlreadyCreated task_id
  | RegistryRefused
  | RegistryDidNotTransition task_state
  | RegistryRaised registry_error

record transition_plan =
  tp_allowed :: bool
  tp_current :: "task_state option"
  tp_target :: task_state
  tp_reason :: "reject_reason option"
  tp_terminal_blocked :: bool

definition evaluate_transition :: "task_state option \<Rightarrow> task_state \<Rightarrow> transition_plan" where
  "evaluate_transition current target =
     (case current of
        None \<Rightarrow>
          if target = CREATED
          then \<lparr>tp_allowed = True, tp_current = None, tp_target = target, tp_reason = None,
                tp_terminal_blocked = False\<rparr>
          else \<lparr>tp_allowed = False, tp_current = None, tp_target = target,
                tp_reason = Some (FirstEventMustBeCreated target), tp_terminal_blocked = False\<rparr>
      | Some cur \<Rightarrow>
          if target = CREATED
          then \<lparr>tp_allowed = False, tp_current = current, tp_target = target,
                tp_reason = Some (AlreadyTracked cur), tp_terminal_blocked = False\<rparr>
          else if is_terminal cur
          then \<lparr>tp_allowed = False, tp_current = current, tp_target = target,
                tp_reason = Some (AlreadyTerminal cur), tp_terminal_blocked = True\<rparr>
          else if \<not> can_transition cur target
          then \<lparr>tp_allowed = False, tp_current = current, tp_target = target,
                tp_reason = Some (NoTransition cur target), tp_terminal_blocked = False\<rparr>
          else \<lparr>tp_allowed = True, tp_current = current, tp_target = target, tp_reason = None,
                tp_terminal_blocked = False\<rparr>)"

datatype validation_error = InvalidTransitionError | TerminalStateLockedError

definition assert_transition :: "task_state option \<Rightarrow> task_state \<Rightarrow> validation_error option" where
  "assert_transition current target =
     (let plan = evaluate_transition current target in
      if tp_allowed plan then None
      else if tp_terminal_blocked plan then Some TerminalStateLockedError
      else Some InvalidTransitionError)"

definition is_no_op_terminal :: "task_state option \<Rightarrow> task_state \<Rightarrow> bool" where
  "is_no_op_terminal current target =
     (case current of None \<Rightarrow> False
      | Some c \<Rightarrow> c = target \<and> c \<in> {COMPLETED, CANCELLED, FAILED})"

definition is_legal_transition :: "task_state option \<Rightarrow> task_state \<Rightarrow> bool" where
  "is_legal_transition current target = tp_allowed (evaluate_transition current target)"

lemma is_legal_iff:
  "is_legal_transition current target \<longleftrightarrow>
     (case current of None \<Rightarrow> target = CREATED | Some c \<Rightarrow> can_transition c target)"
  by (cases "target = CREATED")
    (auto simp: is_legal_transition_def evaluate_transition_def terminal_stuck split: option.split)

section \<open>Transition history\<close>

record transition_record =
  tr_sequence :: "int option"
  tr_state :: task_state
  tr_monotonic_ns :: int
  tr_wall_seconds :: real
  tr_event_id :: string
  tr_event_type :: string

record history =
  history_limit :: nat
  history_records :: "(task_id, transition_record list) dict"
  history_evicted :: nat
  history_appended :: nat

text \<open>The constructor raises \<open>ValueError\<close> for a limit below 1.\<close>

definition new_history :: "int \<Rightarrow> history option" where
  "new_history limit =
     (if limit < 1 then None
      else Some \<lparr>history_limit = nat limit, history_records = [], history_evicted = 0,
                 history_appended = 0\<rparr>)"

definition history_append :: "task_id \<Rightarrow> transition_record \<Rightarrow> history \<Rightarrow> history" where
  "history_append t rec h =
     (let bucket = dget_or [] (history_records h) t
      in h\<lparr>history_evicted :=
             (if length bucket = history_limit h then history_evicted h + 1 else history_evicted h),
           history_records := dset t (ring_push (history_limit h) rec bucket) (history_records h),
           history_appended := history_appended h + 1\<rparr>)"

definition history_get :: "history \<Rightarrow> task_id \<Rightarrow> transition_record list" where
  "history_get h t = dget_or [] (history_records h) t"

definition history_discard :: "task_id \<Rightarrow> history \<Rightarrow> history" where
  "history_discard t h = h\<lparr>history_records := dpop t (history_records h)\<rparr>"

definition history_clear :: "history \<Rightarrow> history" where
  "history_clear h = h\<lparr>history_records := [], history_evicted := 0, history_appended := 0\<rparr>"

definition history_append_many :: "task_id \<Rightarrow> transition_record list \<Rightarrow> history \<Rightarrow> history" where
  "history_append_many t recs h = fold (history_append t) recs h"

definition record_as_dict :: "transition_record \<Rightarrow> (string \<times> json) list" where
  "record_as_dict r =
     [(''sequence'', case tr_sequence r of None \<Rightarrow> JNull | Some n \<Rightarrow> JInt n),
      (''state'', JStr (state_value (tr_state r))),
      (''monotonic_ns'', JInt (tr_monotonic_ns r)),
      (''wall_seconds'', JFloat (tr_wall_seconds r)),
      (''event_id'', JStr (tr_event_id r)),
      (''event_type'', JStr (tr_event_type r))]"

definition history_export :: "history \<Rightarrow> (task_id, (string \<times> json) list list) dict" where
  "history_export h = map (\<lambda>(t, bucket). (t, map record_as_dict bucket)) (history_records h)"

lemma history_get_append:
  "history_get (history_append t rec h) u =
     (if u = t then ring_push (history_limit h) rec (history_get h t) else history_get h u)"
  by (simp add: history_get_def history_append_def Let_def dict_simps)

lemma history_limit_append [simp]: "history_limit (history_append t rec h) = history_limit h"
  by (simp add: history_append_def Let_def)

text \<open>The history of one task is a bounded log.\<close>

interpretation history_log: ring_log "\<lambda>h. history_get h t" history_limit "history_append t" for t
  by unfold_locales (simp_all add: history_get_append)

section \<open>Projection invalidation\<close>

datatype projection_name = LINEAGE_TREE | COROUTINE_GROUPS | CANCELLATIONS_BY_ORIGIN | INDEX_VIEW

fun projection_value :: "projection_name \<Rightarrow> string" where
  "projection_value LINEAGE_TREE = ''lineage_tree''"
| "projection_value COROUTINE_GROUPS = ''coroutine_groups''"
| "projection_value CANCELLATIONS_BY_ORIGIN = ''cancellations_by_origin''"
| "projection_value INDEX_VIEW = ''index_view''"

type_synonym invalidation_bus = "(string, nat) dict"

definition bump :: "'k \<Rightarrow> ('k, nat) dict \<Rightarrow> ('k, nat) dict" where
  "bump k d = dset k (dget_or 0 d k + 1) d"

definition invalidation_mark :: "projection_name list \<Rightarrow> invalidation_bus \<Rightarrow> invalidation_bus" where
  "invalidation_mark names bus = fold (\<lambda>name. bump (projection_value name)) names bus"

section \<open>Counters per reducer\<close>

definition invalidation_reset :: "invalidation_bus \<Rightarrow> invalidation_bus" where
  [simp]: "invalidation_reset bus = []"

record reducer_metrics =
  rdm_applied :: "(string, nat) dict"
  rdm_rejected :: "(string, nat) dict"
  rdm_invalid_transitions :: "(string, nat) dict"
  rdm_terminal_blocked :: "(string, nat) dict"
  rdm_last_sequence :: "(string, int) dict"

definition new_reducer_metrics :: reducer_metrics where
  "new_reducer_metrics =
     \<lparr>rdm_applied = [], rdm_rejected = [], rdm_invalid_transitions = [], rdm_terminal_blocked = [],
      rdm_last_sequence = []\<rparr>"

definition reducer_metrics_reset :: "reducer_metrics \<Rightarrow> reducer_metrics" where
  [simp]: "reducer_metrics_reset m = new_reducer_metrics"

text \<open>
  Comparing against \<open>_last_sequence[name]\<close> inserts a zero for a new name, as a \<open>defaultdict\<close> does.
\<close>

definition reducer_record_applied :: "string \<Rightarrow> int option \<Rightarrow> reducer_metrics \<Rightarrow> reducer_metrics" where
  "reducer_record_applied name sequence m =
     m\<lparr>rdm_applied := bump name (rdm_applied m),
       rdm_last_sequence :=
         (case sequence of
            None \<Rightarrow> rdm_last_sequence m
          | Some n \<Rightarrow> dset name (max n (dget_or 0 (rdm_last_sequence m) name)) (rdm_last_sequence m))\<rparr>"

definition reducer_record_rejected ::
  "string \<Rightarrow> bool \<Rightarrow> bool \<Rightarrow> reducer_metrics \<Rightarrow> reducer_metrics" where
  "reducer_record_rejected name invalid_transition terminal_blocked m =
     m\<lparr>rdm_rejected := bump name (rdm_rejected m),
       rdm_invalid_transitions :=
         (if invalid_transition then bump name (rdm_invalid_transitions m) else rdm_invalid_transitions m),
       rdm_terminal_blocked :=
         (if terminal_blocked then bump name (rdm_terminal_blocked m) else rdm_terminal_blocked m)\<rparr>"

record reducer_counters =
  rc_applied :: nat
  rc_rejected :: nat
  rc_invalid_transitions :: nat
  rc_terminal_blocked :: nat
  rc_last_sequence :: int

definition reducer_counters_of :: "reducer_metrics \<Rightarrow> string \<Rightarrow> reducer_counters" where
  "reducer_counters_of m name =
     \<lparr>rc_applied = dget_or 0 (rdm_applied m) name, rc_rejected = dget_or 0 (rdm_rejected m) name,
      rc_invalid_transitions = dget_or 0 (rdm_invalid_transitions m) name,
      rc_terminal_blocked = dget_or 0 (rdm_terminal_blocked m) name,
      rc_last_sequence = dget_or 0 (rdm_last_sequence m) name\<rparr>"

definition reducer_total_applied :: "reducer_metrics \<Rightarrow> nat" where
  "reducer_total_applied m = sum_list (dvals (rdm_applied m))"

definition reducer_total_rejected :: "reducer_metrics \<Rightarrow> nat" where
  "reducer_total_rejected m = sum_list (dvals (rdm_rejected m))"

section \<open>Reducers and their dispatch table\<close>

text \<open>The class of an event, as \<open>type(event)\<close> gives it to the dispatch table.\<close>

datatype event_class =
    ClsCreated | ClsStarted | ClsWaiting | ClsResumed | ClsCompleted | ClsCancelled | ClsFailed
  | ClsOther string

fun event_class_of :: "event_body \<Rightarrow> event_class" where
  "event_class_of (TaskCreatedEvent f) = ClsCreated"
| "event_class_of (TaskStartedEvent f) = ClsStarted"
| "event_class_of (TaskWaitingEvent f reason) = ClsWaiting"
| "event_class_of (TaskResumedEvent f) = ClsResumed"
| "event_class_of (TaskCompletedEvent f tm) = ClsCompleted"
| "event_class_of (TaskCancelledEvent f tm origin) = ClsCancelled"
| "event_class_of (TaskFailedEvent f tm exc_type exc_message) = ClsFailed"
| "event_class_of (OtherEvent ty) = ClsOther ty"

datatype reducer =
    TaskCreatedReducer | TaskStartedReducer | TaskWaitingReducer | TaskResumedReducer
  | TaskCompletedReducer | TaskCancelledReducer | TaskFailedReducer

fun reducer_event_class :: "reducer \<Rightarrow> event_class" where
  "reducer_event_class TaskCreatedReducer = ClsCreated"
| "reducer_event_class TaskStartedReducer = ClsStarted"
| "reducer_event_class TaskWaitingReducer = ClsWaiting"
| "reducer_event_class TaskResumedReducer = ClsResumed"
| "reducer_event_class TaskCompletedReducer = ClsCompleted"
| "reducer_event_class TaskCancelledReducer = ClsCancelled"
| "reducer_event_class TaskFailedReducer = ClsFailed"

fun reducer_name :: "reducer \<Rightarrow> string" where
  "reducer_name TaskCreatedReducer = ''asyncio.task.created''"
| "reducer_name TaskStartedReducer = ''asyncio.task.started''"
| "reducer_name TaskWaitingReducer = ''asyncio.task.waiting''"
| "reducer_name TaskResumedReducer = ''asyncio.task.resumed''"
| "reducer_name TaskCompletedReducer = ''asyncio.task.completed''"
| "reducer_name TaskCancelledReducer = ''asyncio.task.cancelled''"
| "reducer_name TaskFailedReducer = ''asyncio.task.failed''"

text \<open>
  A registered reducer is an object: its class and an identity, since \<open>register\<close> compares with
  \<open>is\<close>.
\<close>

type_synonym reducer_object = "reducer \<times> nat"
type_synonym reducer_registry = "(event_class, reducer_object) dict"

definition reducer_register ::
  "reducer_object \<Rightarrow> reducer_registry \<Rightarrow> reducer_registry option" where
  "reducer_register ro reg =
     (case dget reg (reducer_event_class (fst ro)) of
        None \<Rightarrow> Some (dset (reducer_event_class (fst ro)) ro reg)
      | Some existing \<Rightarrow> if existing = ro then Some reg else None)"

definition reducer_unregister :: "event_class \<Rightarrow> reducer_registry \<Rightarrow> reducer_registry \<times> bool" where
  "reducer_unregister c reg = (dpop c reg, dget reg c \<noteq> None)"

definition reducer_replace ::
  "reducer_object \<Rightarrow> reducer_registry \<Rightarrow> reducer_registry \<times> reducer_object option" where
  "reducer_replace ro reg =
     (dset (reducer_event_class (fst ro)) ro reg, dget reg (reducer_event_class (fst ro)))"

definition reducer_get :: "reducer_registry \<Rightarrow> runtime_event \<Rightarrow> reducer_object option" where
  "reducer_get reg e = dget reg (event_class_of (ev_body e))"

definition build_default_registry :: reducer_registry where
  "build_default_registry =
     the (List.fold (\<lambda>ro reg. Option.bind reg (reducer_register ro))
       [(TaskCreatedReducer, 0), (TaskStartedReducer, 1), (TaskWaitingReducer, 2),
        (TaskResumedReducer, 3), (TaskCompletedReducer, 4), (TaskCancelledReducer, 5),
        (TaskFailedReducer, 6)] (Some []))"

section \<open>Applying a reducer\<close>

record reducer_context =
  ctx_registry :: task_registry
  ctx_history :: history
  ctx_projections :: invalidation_bus
  ctx_metrics :: reducer_metrics
  ctx_sequence :: "int option"

record reducer_result =
  rr_applied :: bool
  rr_transition :: "transition_record option"
  rr_target_state :: "task_state option"
  rr_reason :: "reject_reason option"
  rr_invalid_transition :: bool
  rr_terminal_blocked :: bool

datatype reducer_exception = AssertionFailed | RegistryException registry_error

definition result_ok :: "transition_record \<Rightarrow> task_state \<Rightarrow> reducer_result" where
  "result_ok transition target =
     \<lparr>rr_applied = True, rr_transition = Some transition, rr_target_state = Some target,
      rr_reason = None, rr_invalid_transition = False, rr_terminal_blocked = False\<rparr>"

definition result_rejected :: "reject_reason \<Rightarrow> bool \<Rightarrow> bool \<Rightarrow> reducer_result" where
  "result_rejected reason invalid_transition terminal_blocked =
     \<lparr>rr_applied = False, rr_transition = None, rr_target_state = None, rr_reason = Some reason,
      rr_invalid_transition = invalid_transition, rr_terminal_blocked = terminal_blocked\<rparr>"

definition current_state_of :: "reducer_context \<Rightarrow> task_id \<Rightarrow> task_state option" where
  "current_state_of ctx t = map_option rt_state (registry_get (ctx_registry ctx) t)"

definition transition_of ::
  "int option \<Rightarrow> task_state \<Rightarrow> runtime_event \<Rightarrow> transition_record" where
  "transition_of sequence target e =
     \<lparr>tr_sequence = sequence, tr_state = target, tr_monotonic_ns = ev_monotonic_ns e,
      tr_wall_seconds = ev_timestamp e, tr_event_id = ev_event_id e, tr_event_type = event_type e\<rparr>"

definition record_transition ::
  "task_id \<Rightarrow> task_state \<Rightarrow> runtime_event \<Rightarrow> reducer_context \<Rightarrow> reducer_context \<times> transition_record" where
  "record_transition t target e ctx =
     (let rec = transition_of (ctx_sequence ctx) target e
      in (ctx\<lparr>ctx_history := history_append t rec (ctx_history ctx)\<rparr>, rec))"

definition reducer_reject ::
  "string \<Rightarrow> reject_reason \<Rightarrow> bool \<Rightarrow> bool \<Rightarrow> reducer_context \<Rightarrow> reducer_context \<times> reducer_result" where
  "reducer_reject name reason invalid_transition terminal_blocked ctx =
     (ctx\<lparr>ctx_metrics := reducer_record_rejected name invalid_transition terminal_blocked (ctx_metrics ctx)\<rparr>,
      result_rejected reason invalid_transition terminal_blocked)"

definition reducer_accept ::
  "string \<Rightarrow> transition_record \<Rightarrow> task_state \<Rightarrow> projection_name list \<Rightarrow> reducer_context
     \<Rightarrow> reducer_context \<times> reducer_result" where
  "reducer_accept name transition target projections ctx =
     (ctx\<lparr>ctx_projections := invalidation_mark projections (ctx_projections ctx),
          ctx_metrics := reducer_record_applied name (ctx_sequence ctx) (ctx_metrics ctx)\<rparr>,
      result_ok transition target)"

definition safe_target_transition ::
  "real \<Rightarrow> real \<Rightarrow> task_id \<Rightarrow> task_state \<Rightarrow> string \<Rightarrow> runtime_event \<Rightarrow> projection_name list
     \<Rightarrow> reducer_context \<Rightarrow> reducer_context \<times> (reducer_exception + reducer_result)" where
  "safe_target_transition now now' t target name e projections ctx =
     (let plan = evaluate_transition (current_state_of ctx t) target in
      if \<not> tp_allowed plan then
        map_prod id Inr (reducer_reject name
          (case tp_reason plan of None \<Rightarrow> TransitionNotAllowed | Some reason \<Rightarrow> reason)
          True (tp_terminal_blocked plan) ctx)
      else
        case handle_event now now' e (ctx_registry ctx) of
          (reg, Some (InvalidStateTransitionError u a b)) \<Rightarrow>
            map_prod id Inr (reducer_reject name (RegistryRaised (InvalidStateTransitionError u a b))
              True False (ctx\<lparr>ctx_registry := reg\<rparr>))
        | (reg, Some (UnknownTaskError u)) \<Rightarrow>
            map_prod id Inr (reducer_reject name (RegistryRaised (UnknownTaskError u))
              True False (ctx\<lparr>ctx_registry := reg\<rparr>))
        | (reg, Some err) \<Rightarrow> (ctx\<lparr>ctx_registry := reg\<rparr>, Inl (RegistryException err))
        | (reg, None) \<Rightarrow>
            (let ctx1 = ctx\<lparr>ctx_registry := reg\<rparr> in
             if current_state_of ctx1 t \<noteq> Some target then
               map_prod id Inr (reducer_reject name (RegistryDidNotTransition target) True False ctx1)
             else
               case record_transition t target e ctx1 of
                 (ctx2, transition) \<Rightarrow>
                   map_prod id Inr (reducer_accept name transition target projections ctx2)))"

definition default_targets :: "projection_name list" where
  "default_targets = [LINEAGE_TREE, INDEX_VIEW]"

definition apply_created ::
  "real \<Rightarrow> real \<Rightarrow> task_fields \<Rightarrow> runtime_event \<Rightarrow> reducer_context
     \<Rightarrow> reducer_context \<times> (reducer_exception + reducer_result)" where
  "apply_created now now' f e ctx =
     (let t = te_task_id f; name = reducer_name TaskCreatedReducer in
      if registry_get (ctx_registry ctx) t \<noteq> None
      then map_prod id Inr (reducer_reject name (TaskAlreadyCreated t) True False ctx)
      else
        case handle_event now now' e (ctx_registry ctx) of
          (reg, Some err) \<Rightarrow> (ctx\<lparr>ctx_registry := reg\<rparr>, Inl (RegistryException err))
        | (reg, None) \<Rightarrow>
            (let ctx1 = ctx\<lparr>ctx_registry := reg\<rparr> in
             if registry_get reg t = None
             then map_prod id Inr (reducer_reject name RegistryRefused True False ctx1)
             else
               case record_transition t CREATED e ctx1 of
                 (ctx2, transition) \<Rightarrow>
                   map_prod id Inr (reducer_accept name transition CREATED
                     [LINEAGE_TREE, COROUTINE_GROUPS, INDEX_VIEW] ctx2)))"

text \<open>
  \<open>Reducer.apply\<close> of the other six: each first asserts the class of its event, then asks for its
  own target and names the projections that move.
\<close>

definition apply_started ::
  "real \<Rightarrow> real \<Rightarrow> runtime_event \<Rightarrow> reducer_context
     \<Rightarrow> reducer_context \<times> (reducer_exception + reducer_result)" where
  "apply_started now now' e ctx =
     (case ev_body e of
        TaskStartedEvent f \<Rightarrow>
          safe_target_transition now now' (te_task_id f) RUNNING (reducer_name TaskStartedReducer) e
            default_targets ctx
      | _ \<Rightarrow> (ctx, Inl AssertionFailed))"

definition apply_waiting ::
  "real \<Rightarrow> real \<Rightarrow> runtime_event \<Rightarrow> reducer_context
     \<Rightarrow> reducer_context \<times> (reducer_exception + reducer_result)" where
  "apply_waiting now now' e ctx =
     (case ev_body e of
        TaskWaitingEvent f reason \<Rightarrow>
          safe_target_transition now now' (te_task_id f) WAITING (reducer_name TaskWaitingReducer) e
            default_targets ctx
      | _ \<Rightarrow> (ctx, Inl AssertionFailed))"

definition apply_resumed ::
  "real \<Rightarrow> real \<Rightarrow> runtime_event \<Rightarrow> reducer_context
     \<Rightarrow> reducer_context \<times> (reducer_exception + reducer_result)" where
  "apply_resumed now now' e ctx =
     (case ev_body e of
        TaskResumedEvent f \<Rightarrow>
          safe_target_transition now now' (te_task_id f) RUNNING (reducer_name TaskResumedReducer) e
            default_targets ctx
      | _ \<Rightarrow> (ctx, Inl AssertionFailed))"

definition apply_completed ::
  "real \<Rightarrow> real \<Rightarrow> runtime_event \<Rightarrow> reducer_context
     \<Rightarrow> reducer_context \<times> (reducer_exception + reducer_result)" where
  "apply_completed now now' e ctx =
     (case ev_body e of
        TaskCompletedEvent f tm \<Rightarrow>
          safe_target_transition now now' (te_task_id f) COMPLETED (reducer_name TaskCompletedReducer) e
            [LINEAGE_TREE, COROUTINE_GROUPS, INDEX_VIEW] ctx
      | _ \<Rightarrow> (ctx, Inl AssertionFailed))"

definition apply_cancelled ::
  "real \<Rightarrow> real \<Rightarrow> runtime_event \<Rightarrow> reducer_context
     \<Rightarrow> reducer_context \<times> (reducer_exception + reducer_result)" where
  "apply_cancelled now now' e ctx =
     (case ev_body e of
        TaskCancelledEvent f tm origin \<Rightarrow>
          safe_target_transition now now' (te_task_id f) CANCELLED (reducer_name TaskCancelledReducer) e
            [LINEAGE_TREE, CANCELLATIONS_BY_ORIGIN, COROUTINE_GROUPS, INDEX_VIEW] ctx
      | _ \<Rightarrow> (ctx, Inl AssertionFailed))"

definition apply_failed ::
  "real \<Rightarrow> real \<Rightarrow> runtime_event \<Rightarrow> reducer_context
     \<Rightarrow> reducer_context \<times> (reducer_exception + reducer_result)" where
  "apply_failed now now' e ctx =
     (case ev_body e of
        TaskFailedEvent f tm exc_type exc_message \<Rightarrow>
          safe_target_transition now now' (te_task_id f) FAILED (reducer_name TaskFailedReducer) e
            [LINEAGE_TREE, COROUTINE_GROUPS, INDEX_VIEW] ctx
      | _ \<Rightarrow> (ctx, Inl AssertionFailed))"

fun apply_reducer ::
  "real \<Rightarrow> real \<Rightarrow> reducer \<Rightarrow> runtime_event \<Rightarrow> reducer_context
     \<Rightarrow> reducer_context \<times> (reducer_exception + reducer_result)" where
  "apply_reducer now now' TaskCreatedReducer e ctx =
     (case ev_body e of
        TaskCreatedEvent f \<Rightarrow> apply_created now now' f e ctx
      | _ \<Rightarrow> (ctx, Inl AssertionFailed))"
| "apply_reducer now now' TaskStartedReducer e ctx = apply_started now now' e ctx"
| "apply_reducer now now' TaskWaitingReducer e ctx = apply_waiting now now' e ctx"
| "apply_reducer now now' TaskResumedReducer e ctx = apply_resumed now now' e ctx"
| "apply_reducer now now' TaskCompletedReducer e ctx = apply_completed now now' e ctx"
| "apply_reducer now now' TaskCancelledReducer e ctx = apply_cancelled now now' e ctx"
| "apply_reducer now now' TaskFailedReducer e ctx = apply_failed now now' e ctx"

lemmas apply_reducer_defs =
  apply_started_def apply_waiting_def apply_resumed_def apply_completed_def apply_cancelled_def
  apply_failed_def

section \<open>What the reducers do\<close>

fun body_target :: "event_body \<Rightarrow> task_state option" where
  "body_target (TaskCreatedEvent f) = Some CREATED"
| "body_target (TaskStartedEvent f) = Some RUNNING"
| "body_target (TaskWaitingEvent f reason) = Some WAITING"
| "body_target (TaskResumedEvent f) = Some RUNNING"
| "body_target (TaskCompletedEvent f tm) = Some COMPLETED"
| "body_target (TaskCancelledEvent f tm origin) = Some CANCELLED"
| "body_target (TaskFailedEvent f tm exc_type exc_message) = Some FAILED"
| "body_target (OtherEvent ty) = None"

lemma default_registry:
  "build_default_registry =
     [(ClsCreated, (TaskCreatedReducer, 0)), (ClsStarted, (TaskStartedReducer, 1)),
      (ClsWaiting, (TaskWaitingReducer, 2)), (ClsResumed, (TaskResumedReducer, 3)),
      (ClsCompleted, (TaskCompletedReducer, 4)), (ClsCancelled, (TaskCancelledReducer, 5)),
      (ClsFailed, (TaskFailedReducer, 6))]"
  by (simp add: build_default_registry_def reducer_register_def)

text \<open>The abstract view of a registry: the lifecycle state of every task.\<close>

definition states_of :: "task_registry \<Rightarrow> task_id \<Rightarrow> task_state option" where
  "states_of r t = map_option rt_state (registry_get r t)"

lemma states_of_safe_update:
  assumes "registry_get r t = Some task" "can_transition (rt_state task) target"
  shows "snd (safe_update now now' t target a r) = None"
    and "states_of (fst (safe_update now now' t target a r)) = (states_of r)(t := Some target)"
proof -
  have "snd (safe_update now now' t target a r) = None \<and>
    states_of (fst (safe_update now now' t target a r)) = (states_of r)(t := Some target)"
  proof (cases rule: update_state_cases[of r t now now' target a, case_names unknown illegal moved])
    case (moved task0)
    then show ?thesis
      by (auto simp: safe_update_def states_of_def registry_get_def dict_simps fun_eq_iff)
  qed (use assms in \<open>simp_all add: registry_get_def\<close>)
  then show "snd (safe_update now now' t target a r) = None"
    and "states_of (fst (safe_update now now' t target a r)) = (states_of r)(t := Some target)"
    by blast+
qed

lemma states_of_register:
  assumes ok: "registry_ok r" and acc: "snd (registry_register now t metadata st r) = Inr task"
  shows "states_of (fst (registry_register now t metadata st r)) = (states_of r)(t := Some st)"
proof (cases rule: registry_register_cases[OF ok, of now t metadata st, case_names refused accepted])
  case (refused e)
  then show ?thesis using acc by simp
next
  case (accepted md parent tr')
  define task0 where "task0 = create_task now t md st\<lparr>rt_parent_task_id := parent\<rparr>"
  have "rt_task_id task0 = t" "rt_state task0 = st"
    by (simp_all add: task0_def create_task_def)
  then show ?thesis
    unfolding accepted(1) task0_def[symmetric]
    by (auto simp: fun_eq_iff states_of_def registry_get_def dget_finish_register apply_lineage_def
        option.map_comp intro!: option.map_cong)
qed

lemma handle_created_registers:
  assumes ok: "registry_ok r" and fresh: "registry_get r (te_task_id f) = None"
  obtains md task where
    "handle_created now e f r = (fst (registry_register now (te_task_id f) (Some md) CREATED r), None)"
    "snd (registry_register now (te_task_id f) (Some md) CREATED r) = Inr task"
proof -
  have new: "te_task_id f \<notin> set (dkeys (reg_tasks r))"
    using fresh by (simp add: registry_get_def in_dkeys_iff del: set_map)
  show thesis
  proof (cases rule: registry_register_cases[OF ok, of now "te_task_id f"
        "Some (created_metadata e f (te_parent_task_id f))" CREATED, case_names refused accepted])
    case (accepted md parent tr')
    then show thesis
      using new by (intro that[of "created_metadata e f (te_parent_task_id f)"])
        (simp_all add: handle_created_def map_prod_def split_beta del: set_map)
  next
    case first: (refused err)
    then have err: "err = InvalidParentReferenceError" using new by blast
    show thesis
    proof (cases rule: registry_register_cases[OF ok, of now "te_task_id f"
          "Some (created_metadata e f None)" CREATED, case_names refused accepted])
      case (refused err')
      then show thesis using new by (auto simp: created_metadata_def)
    next
      case (accepted md parent tr')
      then show thesis
        using new first(1) err
        by (intro that[of "created_metadata e f None"])
          (simp_all add: handle_created_def map_prod_def split_beta del: set_map)
    qed
  qed
qed

text \<open>Every task event but a creation is an update towards its target.\<close>

lemma handle_event_update:
  assumes "body_fields (ev_body e) = Some f" "body_target (ev_body e) = Some target" "target \<noteq> CREATED"
  shows "\<exists>a. handle_event now now' e r = safe_update now now' (te_task_id f) target a r"
  using assms by (cases "ev_body e") (auto simp: handle_event_def)

lemma body_created:
  assumes "body_fields b = Some f" "body_target b = Some CREATED"
  shows "b = TaskCreatedEvent f"
  using assms by (cases b) auto

text \<open>The registry follows every legal lifecycle event.\<close>

lemma handle_event_legal:
  assumes ok: "registry_ok r" and body: "body_fields (ev_body e) = Some f"
    "body_target (ev_body e) = Some target"
    and legal: "is_legal_transition (states_of r (te_task_id f)) target"
  shows "states_of (fst (handle_event now now' e r)) = (states_of r)(te_task_id f := Some target)"
proof (cases "target = CREATED")
  case True
  then have b: "ev_body e = TaskCreatedEvent f" using body body_created by blast
  have fresh: "registry_get r (te_task_id f) = None"
    using legal True by (auto simp: is_legal_iff states_of_def split: option.splits)
  obtain md task where
    "handle_created now e f r = (fst (registry_register now (te_task_id f) (Some md) CREATED r), None)"
    "snd (registry_register now (te_task_id f) (Some md) CREATED r) = Inr task"
    using handle_created_registers[OF ok fresh, of now e] by blast
  then show ?thesis
    using b True states_of_register[OF ok] by (simp add: handle_event_def)
next
  case False
  then obtain a where upd: "handle_event now now' e r = safe_update now now' (te_task_id f) target a r"
    using handle_event_update[OF body] by blast
  obtain task where "registry_get r (te_task_id f) = Some task" "can_transition (rt_state task) target"
    using legal False by (auto simp: is_legal_iff states_of_def split: option.splits)
  then show ?thesis unfolding upd by (rule states_of_safe_update)
qed

definition accepted_context ::
  "task_registry \<Rightarrow> task_id \<Rightarrow> string \<Rightarrow> projection_name list \<Rightarrow> transition_record
     \<Rightarrow> reducer_context \<Rightarrow> reducer_context" where
  "accepted_context reg t name projections rec ctx =
     ctx\<lparr>ctx_registry := reg, ctx_history := history_append t rec (ctx_history ctx),
         ctx_projections := invalidation_mark projections (ctx_projections ctx),
         ctx_metrics := reducer_record_applied name (ctx_sequence ctx) (ctx_metrics ctx)\<rparr>"

lemma safe_target_illegal:
  assumes "\<not> is_legal_transition (states_of (ctx_registry ctx) t) target"
  obtains reason tb where "safe_target_transition now now' t target name e projections ctx =
      (ctx\<lparr>ctx_metrics := reducer_record_rejected name True tb (ctx_metrics ctx)\<rparr>,
       Inr (result_rejected reason True tb))"
  using assms
  by (auto simp: safe_target_transition_def Let_def is_legal_transition_def current_state_of_def
      states_of_def reducer_reject_def)

lemma safe_target_legal:
  assumes ok: "registry_ok (ctx_registry ctx)" and body: "body_fields (ev_body e) = Some f"
    "body_target (ev_body e) = Some target" and t: "t = te_task_id f"
    and legal: "is_legal_transition (states_of (ctx_registry ctx) t) target"
  shows "safe_target_transition now now' t target name e projections ctx =
      (accepted_context (fst (handle_event now now' e (ctx_registry ctx))) t name projections
         (transition_of (ctx_sequence ctx) target e) ctx,
       Inr (result_ok (transition_of (ctx_sequence ctx) target e) target))"
proof -
  obtain reg where reg: "handle_event now now' e (ctx_registry ctx) = (reg, None)"
    using handle_event_ok[OF ok, of now now' e] by (metis prod.collapse)
  have "map_option rt_state (registry_get reg t) = Some target"
    using handle_event_legal[OF ok body, of now now'] legal t reg by (metis fst_conv fun_upd_same states_of_def)
  then obtain task' where "registry_get reg t = Some task'" "rt_state task' = target" by auto
  then show ?thesis
    using legal reg
    by (simp add: safe_target_transition_def Let_def is_legal_transition_def current_state_of_def
        states_of_def record_transition_def reducer_accept_def accepted_context_def)
qed

lemma apply_created_illegal:
  assumes "\<not> is_legal_transition (states_of (ctx_registry ctx) (te_task_id f)) CREATED"
  obtains reason name where "apply_created now now' f e ctx =
      (ctx\<lparr>ctx_metrics := reducer_record_rejected name True False (ctx_metrics ctx)\<rparr>,
       Inr (result_rejected reason True False))"
  using assms
  by (auto simp: apply_created_def Let_def is_legal_iff states_of_def reducer_reject_def
      split: option.splits)

lemma apply_created_legal:
  assumes ok: "registry_ok (ctx_registry ctx)" and body: "ev_body e = TaskCreatedEvent f"
    and legal: "is_legal_transition (states_of (ctx_registry ctx) (te_task_id f)) CREATED"
  shows "apply_created now now' f e ctx =
      (accepted_context (fst (handle_event now now' e (ctx_registry ctx))) (te_task_id f)
         (reducer_name TaskCreatedReducer) [LINEAGE_TREE, COROUTINE_GROUPS, INDEX_VIEW]
         (transition_of (ctx_sequence ctx) CREATED e) ctx,
       Inr (result_ok (transition_of (ctx_sequence ctx) CREATED e) CREATED))"
proof -
  obtain reg where reg: "handle_event now now' e (ctx_registry ctx) = (reg, None)"
    using handle_event_ok[OF ok, of now now' e] by (metis prod.collapse)
  have "map_option rt_state (registry_get reg (te_task_id f)) = Some CREATED"
    using handle_event_legal[OF ok, of e f CREATED now now'] body legal reg
    by (metis body_fields.simps(1) body_target.simps(1) fst_conv fun_upd_same states_of_def)
  then obtain task' where "registry_get reg (te_task_id f) = Some task'" by auto
  moreover have "registry_get (ctx_registry ctx) (te_task_id f) = None"
    using legal by (auto simp: is_legal_iff states_of_def split: option.splits)
  ultimately show ?thesis
    using reg
    by (simp add: apply_created_def Let_def record_transition_def reducer_accept_def accepted_context_def)
qed

text \<open>
  A reducer applied to an event of its class either accepts a legal transition, appends exactly
  one record to the task's history and moves exactly that task, or rejects an illegal one and
  touches nothing but its rejection counters. It never raises.
\<close>

lemma apply_reducer_shape:
  assumes "reducer_event_class red = event_class_of (ev_body e)"
    and "body_fields (ev_body e) = Some f" "body_target (ev_body e) = Some target"
  obtains (created) "ev_body e = TaskCreatedEvent f" "target = CREATED" "red = TaskCreatedReducer"
      "apply_reducer now now' red e ctx = apply_created now now' f e ctx"
    | (other) projections where "apply_reducer now now' red e ctx
        = safe_target_transition now now' (te_task_id f) target (reducer_name red) e projections ctx"
proof -
  have "(ev_body e = TaskCreatedEvent f \<and> target = CREATED \<and> red = TaskCreatedReducer \<and>
      apply_reducer now now' red e ctx = apply_created now now' f e ctx) \<or>
    (\<exists>projections. apply_reducer now now' red e ctx
        = safe_target_transition now now' (te_task_id f) target (reducer_name red) e projections ctx)"
    using assms by (cases "ev_body e"; cases red) (auto simp: apply_reducer_defs)
  then show thesis using created other by blast
qed

lemma apply_reducer_illegal:
  assumes "reducer_event_class red = event_class_of (ev_body e)"
    and "body_fields (ev_body e) = Some f" "body_target (ev_body e) = Some target"
    and "\<not> is_legal_transition (states_of (ctx_registry ctx) (te_task_id f)) target"
  obtains name tb reason where "apply_reducer now now' red e ctx =
      (ctx\<lparr>ctx_metrics := reducer_record_rejected name True tb (ctx_metrics ctx)\<rparr>,
       Inr (result_rejected reason True tb))"
  using assms(1-3)
proof (cases rule: apply_reducer_shape[where now = now and now' = now' and ctx = ctx])
  case created
  then show thesis using assms(4) apply_created_illegal that by metis
next
  case (other projections)
  then show thesis using assms(4) safe_target_illegal that by metis
qed

lemma apply_reducer_legal:
  assumes ok: "registry_ok (ctx_registry ctx)"
    and cls: "reducer_event_class red = event_class_of (ev_body e)"
    and body: "body_fields (ev_body e) = Some f" "body_target (ev_body e) = Some target"
    and legal: "is_legal_transition (states_of (ctx_registry ctx) (te_task_id f)) target"
  obtains projections where "apply_reducer now now' red e ctx =
      (accepted_context (fst (handle_event now now' e (ctx_registry ctx))) (te_task_id f)
         (reducer_name red) projections (transition_of (ctx_sequence ctx) target e) ctx,
       Inr (result_ok (transition_of (ctx_sequence ctx) target e) target))"
  using cls body
proof (cases rule: apply_reducer_shape[where now = now and now' = now' and ctx = ctx])
  case created
  then show thesis using legal apply_created_legal[OF ok] that by metis
next
  case (other projections)
  then show thesis using safe_target_legal[OF ok body refl legal] that by metis
qed

end
