(* ===== verification/StateStore.thy ===== *)
theory StateStore
  imports Reducers
begin

text \<open>
  The runtime state store (\<open>asyncviz/runtime/state\<close>): event normalization
  (\<open>normalization.py\<close>), the reconciliation policy that drops stale and duplicate events
  (\<open>reconciliation.py\<close>), the store's counters (\<open>metrics.py\<close>), the listener registry
  (\<open>subscriptions.py\<close>), and \<open>apply\<close>, \<open>rebuild\<close> and \<open>_notify\<close> of \<open>RuntimeStateStore\<close>
  (\<open>store.py\<close>), with the abstract lifecycle automaton the store implements.

  A listener is a callable outside the store; what the store needs of it is whether it raises, so
  it is a predicate. The changes handed to the listeners are the third component of \<open>apply\<close>'s
  result. A store item carries the two clock readings the registry may take while applying it.
\<close>

section \<open>Normalization and reconciliation\<close>

record normalized_event =
  ne_event :: runtime_event
  ne_is_task_event :: bool
  ne_sequence :: "int option"
  ne_event_id :: string
  ne_event_type :: string

definition is_task_event :: "event_body \<Rightarrow> bool" where
  "is_task_event b = (case b of OtherEvent _ \<Rightarrow> False | _ \<Rightarrow> True)"

definition normalize_event :: "runtime_event \<Rightarrow> int option \<Rightarrow> normalized_event" where
  "normalize_event e sequence =
     \<lparr>ne_event = e, ne_is_task_event = is_task_event (ev_body e), ne_sequence = sequence,
      ne_event_id = ev_event_id e, ne_event_type = event_type e\<rparr>"

datatype decision = Apply | Stale | Duplicate

fun decision_value :: "decision \<Rightarrow> string" where
  "decision_value Apply = ''apply''"
| "decision_value Stale = ''stale''"
| "decision_value Duplicate = ''duplicate''"

record policy =
  event_id_window :: nat
  last_sequence :: int
  seen_ids_set :: "string set"
  seen_ids_order :: "string list"

text \<open>\<open>__post_init__\<close> raises \<open>ValueError\<close> for a window that is not positive.\<close>

definition new_policy :: "int \<Rightarrow> policy option" where
  "new_policy window =
     (if window \<le> 0 then None
      else Some \<lparr>event_id_window = nat window, last_sequence = 0, seen_ids_set = {},
                 seen_ids_order = []\<rparr>)"

definition policy_evaluate :: "policy \<Rightarrow> int option \<Rightarrow> string \<Rightarrow> decision" where
  "policy_evaluate p sequence event_id =
     (if event_id \<in> seen_ids_set p then Duplicate
      else case sequence of
        Some n \<Rightarrow> if n \<le> last_sequence p then Stale else Apply
      | None \<Rightarrow> Apply)"

definition policy_record_applied :: "int option \<Rightarrow> string \<Rightarrow> policy \<Rightarrow> policy" where
  "policy_record_applied sequence event_id p =
     (let p1 = (case sequence of
                  Some n \<Rightarrow> if last_sequence p < n then p\<lparr>last_sequence := n\<rparr> else p
                | None \<Rightarrow> p);
          ids = insert event_id (seen_ids_set p1);
          order = seen_ids_order p1 @ [event_id]
      in if event_id_window p1 < length order
         then p1\<lparr>seen_ids_set := ids - {hd order}, seen_ids_order := tl order\<rparr>
         else p1\<lparr>seen_ids_set := ids, seen_ids_order := order\<rparr>)"

definition reset_for_rebuild :: "policy \<Rightarrow> policy" where
  "reset_for_rebuild p = p\<lparr>last_sequence := 0, seen_ids_set := {}, seen_ids_order := []\<rparr>"

section \<open>Counters of the store\<close>

record store_metrics =
  events_applied :: nat
  events_stale :: nat
  events_duplicate :: nat
  events_unknown_type :: nat
  events_rejected :: nat
  rebuilds_completed :: nat
  last_event_sequence :: int
  last_event_monotonic_ns :: int
  last_event_id :: "string option"
  last_event_type :: "string option"
  subscription_dispatches :: nat
  subscription_failures :: nat
  snapshots_emitted :: nat

definition new_store_metrics :: store_metrics where
  "new_store_metrics =
     \<lparr>events_applied = 0, events_stale = 0, events_duplicate = 0, events_unknown_type = 0,
      events_rejected = 0, rebuilds_completed = 0, last_event_sequence = 0,
      last_event_monotonic_ns = 0, last_event_id = None, last_event_type = None,
      subscription_dispatches = 0, subscription_failures = 0, snapshots_emitted = 0\<rparr>"

definition sm_record_applied ::
  "int \<Rightarrow> int \<Rightarrow> string \<Rightarrow> string \<Rightarrow> store_metrics \<Rightarrow> store_metrics" where
  "sm_record_applied sequence monotonic_ns event_id ty m =
     m\<lparr>events_applied := events_applied m + 1,
       last_event_sequence := max sequence (last_event_sequence m),
       last_event_monotonic_ns := max monotonic_ns (last_event_monotonic_ns m),
       last_event_id := Some event_id,
       last_event_type := Some ty\<rparr>"

definition sm_record_stale :: "store_metrics \<Rightarrow> store_metrics" where
  "sm_record_stale m = m\<lparr>events_stale := events_stale m + 1\<rparr>"

definition sm_record_duplicate :: "store_metrics \<Rightarrow> store_metrics" where
  "sm_record_duplicate m = m\<lparr>events_duplicate := events_duplicate m + 1\<rparr>"

definition sm_record_unknown_type :: "store_metrics \<Rightarrow> store_metrics" where
  "sm_record_unknown_type m = m\<lparr>events_unknown_type := events_unknown_type m + 1\<rparr>"

definition sm_record_rejected :: "store_metrics \<Rightarrow> store_metrics" where
  "sm_record_rejected m = m\<lparr>events_rejected := events_rejected m + 1\<rparr>"

definition sm_record_rebuild :: "store_metrics \<Rightarrow> store_metrics" where
  "sm_record_rebuild m = m\<lparr>rebuilds_completed := rebuilds_completed m + 1\<rparr>"

definition sm_record_snapshot :: "store_metrics \<Rightarrow> store_metrics" where
  "sm_record_snapshot m = m\<lparr>snapshots_emitted := snapshots_emitted m + 1\<rparr>"

definition sm_record_dispatch :: "nat \<Rightarrow> store_metrics \<Rightarrow> store_metrics" where
  "sm_record_dispatch failures m =
     m\<lparr>subscription_dispatches := subscription_dispatches m + 1,
       subscription_failures := subscription_failures m + failures\<rparr>"

definition soft_reset_lifetime :: "store_metrics \<Rightarrow> store_metrics" where
  "soft_reset_lifetime m =
     m\<lparr>events_applied := 0, events_stale := 0, events_duplicate := 0, events_unknown_type := 0,
       events_rejected := 0, last_event_sequence := 0, last_event_monotonic_ns := 0,
       last_event_id := None, last_event_type := None\<rparr>"

section \<open>Subscriptions\<close>

record state_change =
  sc_event :: runtime_event
  sc_sequence :: "int option"
  sc_last_sequence :: int
  sc_decision :: string
  sc_event_type :: string
  sc_event_id :: string

type_synonym listener = "state_change \<Rightarrow> bool"

record subscriptions =
  next_sub_id :: int
  sub_listeners :: "(int, listener) dict"

definition no_subscriptions :: subscriptions where
  "no_subscriptions = \<lparr>next_sub_id = 0, sub_listeners = []\<rparr>"

definition subscription_add :: "listener \<Rightarrow> subscriptions \<Rightarrow> subscriptions \<times> int" where
  "subscription_add l s =
     (let n = next_sub_id s + 1
      in (\<lparr>next_sub_id = n, sub_listeners = dset n l (sub_listeners s)\<rparr>, n))"

definition subscription_remove :: "int \<Rightarrow> subscriptions \<Rightarrow> subscriptions \<times> bool" where
  "subscription_remove n s =
     (s\<lparr>sub_listeners := dpop n (sub_listeners s)\<rparr>, n \<in> set (dkeys (sub_listeners s)))"

definition subscriptions_clear :: "subscriptions \<Rightarrow> subscriptions" where
  "subscriptions_clear s = s\<lparr>sub_listeners := []\<rparr>"

section \<open>The store\<close>

record store =
  ss_registry :: task_registry
  ss_history :: history
  ss_projections :: invalidation_bus
  ss_reducer_metrics :: reducer_metrics
  ss_reducers :: reducer_registry
  ss_policy :: policy
  ss_metrics :: store_metrics
  ss_subscriptions :: subscriptions

text \<open>
  Policy, reducers and history are those in effect. The constructor takes \<open>history or
  TransitionHistory()\<close> and likewise for the reducers, so that a passed but empty one gives way to
  the default.
\<close>

definition new_store :: "task_registry \<Rightarrow> policy \<Rightarrow> reducer_registry \<Rightarrow> history \<Rightarrow> store" where
  "new_store reg pol reds hist =
     \<lparr>ss_registry = reg, ss_history = hist, ss_projections = [],
      ss_reducer_metrics = new_reducer_metrics, ss_reducers = reds, ss_policy = pol,
      ss_metrics = new_store_metrics, ss_subscriptions = no_subscriptions\<rparr>"

abbreviation count_metric :: "(store_metrics \<Rightarrow> store_metrics) \<Rightarrow> store \<Rightarrow> store" where
  "count_metric f st \<equiv> st\<lparr>ss_metrics := f (ss_metrics st)\<rparr>"

definition notify :: "state_change \<Rightarrow> store \<Rightarrow> store" where
  "notify change st =
     count_metric
       (sm_record_dispatch (length (filter (\<lambda>l. l change) (dvals (sub_listeners (ss_subscriptions st))))))
       st"

definition change_of :: "normalized_event \<Rightarrow> policy \<Rightarrow> state_change" where
  "change_of ne pol =
     \<lparr>sc_event = ne_event ne, sc_sequence = ne_sequence ne, sc_last_sequence = last_sequence pol,
      sc_decision = decision_value Apply, sc_event_type = ne_event_type ne,
      sc_event_id = ne_event_id ne\<rparr>"

definition record_policy :: "normalized_event \<Rightarrow> store \<Rightarrow> store" where
  "record_policy ne st =
     st\<lparr>ss_policy := policy_record_applied (ne_sequence ne) (ne_event_id ne) (ss_policy st)\<rparr>"

definition announce :: "normalized_event \<Rightarrow> store \<Rightarrow> store \<times> decision \<times> state_change list" where
  "announce ne st =
     (let change = change_of ne (ss_policy st) in (notify change st, Apply, [change]))"

definition context_of :: "normalized_event \<Rightarrow> store \<Rightarrow> reducer_context" where
  "context_of ne st =
     \<lparr>ctx_registry = ss_registry st, ctx_history = ss_history st, ctx_projections = ss_projections st,
      ctx_metrics = ss_reducer_metrics st, ctx_sequence = ne_sequence ne\<rparr>"

text \<open>The reducer mutates the store's components through the context.\<close>

definition with_context :: "reducer_context \<Rightarrow> store \<Rightarrow> store" where
  "with_context ctx st =
     st\<lparr>ss_registry := ctx_registry ctx, ss_history := ctx_history ctx,
        ss_projections := ctx_projections ctx, ss_reducer_metrics := ctx_metrics ctx\<rparr>"

definition store_apply ::
  "real \<Rightarrow> real \<Rightarrow> runtime_event \<Rightarrow> int option \<Rightarrow> store \<Rightarrow> store \<times> decision \<times> state_change list" where
  "store_apply now now' e sequence st =
     (let ne = normalize_event e sequence in
      case policy_evaluate (ss_policy st) (ne_sequence ne) (ne_event_id ne) of
        Stale \<Rightarrow> (count_metric sm_record_stale st, Stale, [])
      | Duplicate \<Rightarrow> (count_metric sm_record_duplicate st, Duplicate, [])
      | Apply \<Rightarrow>
          if \<not> ne_is_task_event ne
          then announce ne (record_policy ne (count_metric sm_record_unknown_type st))
          else
            case reducer_get (ss_reducers st) e of
              None \<Rightarrow> (count_metric sm_record_rejected st, Stale, [])
            | Some (red, _) \<Rightarrow>
                (case apply_reducer now now' red e (context_of ne st) of
                   (ctx, Inl _) \<Rightarrow> (count_metric sm_record_rejected (with_context ctx st), Stale, [])
                 | (ctx, Inr result) \<Rightarrow>
                     if \<not> rr_applied result
                     then (count_metric sm_record_rejected (with_context ctx st), Stale, [])
                     else announce ne
                       (count_metric
                         (sm_record_applied (case ne_sequence ne of None \<Rightarrow> 0 | Some n \<Rightarrow> n)
                            (ev_monotonic_ns e) (ne_event_id ne) (ne_event_type ne))
                         (record_policy ne (with_context ctx st)))))"

record store_item =
  si_now :: real
  si_later :: real
  si_event :: runtime_event
  si_sequence :: "int option"

definition apply_item :: "store_item \<Rightarrow> store \<Rightarrow> store \<times> decision \<times> state_change list" where
  "apply_item it st = store_apply (si_now it) (si_later it) (si_event it) (si_sequence it) st"

text \<open>A run of \<open>apply\<close> calls: the final store, the decisions and the notifications, in order.\<close>

fun apply_all :: "store_item list \<Rightarrow> store \<Rightarrow> store \<times> decision list \<times> state_change list" where
  "apply_all [] st = (st, [], [])"
| "apply_all (it # its) st =
     (case apply_item it st of
        (st', d, cs) \<Rightarrow> (case apply_all its st' of (st'', ds, cs') \<Rightarrow> (st'', d # ds, cs @ cs')))"

definition reset_store :: "store \<Rightarrow> store" where
  "reset_store st =
     st\<lparr>ss_registry := registry_clear (ss_registry st), ss_history := history_clear (ss_history st),
        ss_projections := invalidation_reset (ss_projections st),
        ss_reducer_metrics := reducer_metrics_reset (ss_reducer_metrics st),
        ss_policy := reset_for_rebuild (ss_policy st),
        ss_metrics := soft_reset_lifetime (ss_metrics st)\<rparr>"

definition rebuild :: "store_item list \<Rightarrow> store \<Rightarrow> store \<times> nat \<times> state_change list" where
  "rebuild its st =
     (case apply_all its (reset_store st) of
        (st', ds, cs) \<Rightarrow> (count_metric sm_record_rebuild st', length (filter (\<lambda>d. d = Apply) ds), cs))"

definition subscribe :: "listener \<Rightarrow> store \<Rightarrow> store \<times> int" where
  "subscribe l st =
     (case subscription_add l (ss_subscriptions st) of (s, n) \<Rightarrow> (st\<lparr>ss_subscriptions := s\<rparr>, n))"

definition unsubscribe :: "int \<Rightarrow> store \<Rightarrow> store \<times> bool" where
  "unsubscribe n st =
     (case subscription_remove n (ss_subscriptions st) of (s, b) \<Rightarrow> (st\<lparr>ss_subscriptions := s\<rparr>, b))"

definition transition_history :: "store \<Rightarrow> task_id \<Rightarrow> transition_record list" where
  "transition_history st t = history_get (ss_history st) t"

section \<open>The lifecycle automaton\<close>

text \<open>
  The specification of the store: a partial map from task ids to lifecycle states. An event that
  passes the policy moves its task when the move is legal, and does nothing otherwise; every
  other event does nothing.
\<close>

type_synonym lifecycle = "task_id \<Rightarrow> task_state option"

definition lifecycle_accepts :: "event_body \<Rightarrow> lifecycle \<Rightarrow> bool" where
  "lifecycle_accepts b ls =
     (case (body_fields b, body_target b) of
        (Some f, Some target) \<Rightarrow> is_legal_transition (ls (te_task_id f)) target
      | _ \<Rightarrow> True)"

definition lifecycle_move :: "event_body \<Rightarrow> lifecycle \<Rightarrow> lifecycle" where
  "lifecycle_move b ls =
     (case (body_fields b, body_target b) of
        (Some f, Some target) \<Rightarrow> ls(te_task_id f := Some target)
      | _ \<Rightarrow> ls)"

definition admits :: "policy \<Rightarrow> runtime_event \<Rightarrow> int option \<Rightarrow> bool" where
  "admits p e sequence = (policy_evaluate p sequence (ev_event_id e) = Apply)"

definition lifecycle_step :: "runtime_event \<Rightarrow> bool \<Rightarrow> lifecycle \<Rightarrow> lifecycle" where
  "lifecycle_step e fresh ls =
     (if fresh \<and> lifecycle_accepts (ev_body e) ls then lifecycle_move (ev_body e) ls else ls)"

abbreviation store_states :: "store \<Rightarrow> lifecycle" where
  "store_states st \<equiv> states_of (ss_registry st)"

section \<open>The ways an apply can end\<close>

lemma reducer_for_task_event:
  assumes "is_task_event (ev_body e)"
  obtains red n f target where "reducer_get build_default_registry e = Some (red, n)"
    "reducer_event_class red = event_class_of (ev_body e)"
    "body_fields (ev_body e) = Some f" "body_target (ev_body e) = Some target"
  using assms that
  by (cases "ev_body e") (auto simp: reducer_get_def default_registry is_task_event_def)

definition base_ok :: "store \<Rightarrow> bool" where
  "base_ok st \<longleftrightarrow> registry_ok (ss_registry st) \<and> ss_reducers st = build_default_registry"

definition accept_into ::
  "real \<Rightarrow> real \<Rightarrow> runtime_event \<Rightarrow> int option \<Rightarrow> task_id \<Rightarrow> task_state \<Rightarrow> invalidation_bus
     \<Rightarrow> reducer_metrics \<Rightarrow> store \<Rightarrow> store" where
  "accept_into now now' e sequence t target bus m st =
     count_metric (sm_record_applied (case sequence of None \<Rightarrow> 0 | Some n \<Rightarrow> n)
         (ev_monotonic_ns e) (ev_event_id e) (event_type e))
       (record_policy (normalize_event e sequence)
         (st\<lparr>ss_registry := fst (handle_event now now' e (ss_registry st)),
             ss_history := history_append t (transition_of sequence target e) (ss_history st),
             ss_projections := bus, ss_reducer_metrics := m\<rparr>))"

lemma store_apply_cases:
  assumes base: "base_ok st"
  obtains (stale) "policy_evaluate (ss_policy st) sequence (ev_event_id e) = Stale"
      "store_apply now now' e sequence st = (count_metric sm_record_stale st, Stale, [])"
    | (duplicate) "policy_evaluate (ss_policy st) sequence (ev_event_id e) = Duplicate"
      "store_apply now now' e sequence st = (count_metric sm_record_duplicate st, Duplicate, [])"
    | (passed) "admits (ss_policy st) e sequence" "\<not> is_task_event (ev_body e)"
      "store_apply now now' e sequence st =
         announce (normalize_event e sequence)
           (record_policy (normalize_event e sequence) (count_metric sm_record_unknown_type st))"
    | (rejected) f target m where "admits (ss_policy st) e sequence"
      "body_fields (ev_body e) = Some f" "body_target (ev_body e) = Some target"
      "\<not> is_legal_transition (store_states st (te_task_id f)) target"
      "store_apply now now' e sequence st =
         (count_metric sm_record_rejected (st\<lparr>ss_reducer_metrics := m\<rparr>), Stale, [])"
    | (accepted) f target bus m where "admits (ss_policy st) e sequence"
      "body_fields (ev_body e) = Some f" "body_target (ev_body e) = Some target"
      "is_legal_transition (store_states st (te_task_id f)) target"
      "store_apply now now' e sequence st =
         announce (normalize_event e sequence)
           (accept_into now now' e sequence (te_task_id f) target bus m st)"
proof (cases "policy_evaluate (ss_policy st) sequence (ev_event_id e)")
  case Stale
  then show thesis by (intro stale) (simp_all add: store_apply_def normalize_event_def Let_def)
next
  case Duplicate
  then show thesis by (intro duplicate) (simp_all add: store_apply_def normalize_event_def Let_def)
next
  case Apply
  show thesis
  proof (cases "is_task_event (ev_body e)")
    case False
    with Apply show thesis
      by (intro passed) (simp_all add: store_apply_def normalize_event_def Let_def admits_def)
  next
    case True
    have reg: "registry_ok (ss_registry st)" and reds: "ss_reducers st = build_default_registry"
      using base by (simp_all add: base_ok_def)
    obtain red n f target where red: "reducer_get build_default_registry e = Some (red, n)"
      and cls: "reducer_event_class red = event_class_of (ev_body e)"
      and body: "body_fields (ev_body e) = Some f" "body_target (ev_body e) = Some target"
      using reducer_for_task_event[OF True] by blast
    let ?ne = "normalize_event e sequence"
    let ?ctx = "context_of ?ne st"
    have ctx: "ctx_registry ?ctx = ss_registry st" "ctx_sequence ?ctx = sequence"
      "ctx_history ?ctx = ss_history st"
      by (simp_all add: context_of_def normalize_event_def)
    show thesis
    proof (cases "is_legal_transition (store_states st (te_task_id f)) target")
      case False
      then obtain name tb reason where "apply_reducer now now' red e ?ctx =
          (?ctx\<lparr>ctx_metrics := reducer_record_rejected name True tb (ctx_metrics ?ctx)\<rparr>,
           Inr (result_rejected reason True tb))"
        using apply_reducer_illegal[OF cls body, of ?ctx now now'] ctx by metis
      then have "store_apply now now' e sequence st =
          (count_metric sm_record_rejected
            (st\<lparr>ss_reducer_metrics := reducer_record_rejected name True tb (ss_reducer_metrics st)\<rparr>), Stale, [])"
        using Apply True reds red
        by (simp add: store_apply_def normalize_event_def Let_def result_rejected_def with_context_def
            context_of_def)
      then show thesis using rejected Apply body False by (simp add: admits_def)
    next
      case legal: True
      then obtain projections where "apply_reducer now now' red e ?ctx =
          (accepted_context (fst (handle_event now now' e (ctx_registry ?ctx))) (te_task_id f)
             (reducer_name red) projections (transition_of (ctx_sequence ?ctx) target e) ?ctx,
           Inr (result_ok (transition_of (ctx_sequence ?ctx) target e) target))"
        using apply_reducer_legal[of ?ctx red e f target now now'] reg cls body ctx by metis
      then have "store_apply now now' e sequence st =
          announce ?ne (accept_into now now' e sequence (te_task_id f) target
            (invalidation_mark projections (ss_projections st))
            (reducer_record_applied (reducer_name red) sequence (ss_reducer_metrics st)) st)"
        using Apply True reds red
        by (simp add: store_apply_def normalize_event_def Let_def result_ok_def with_context_def
            context_of_def accepted_context_def accept_into_def record_policy_def)
      then show thesis using accepted Apply body legal by (simp add: admits_def)
    qed
  qed
qed

lemma announce_simps [simp]:
  "fst (announce ne st) = notify (change_of ne (ss_policy st)) st"
  "snd (announce ne st) = (Apply, [change_of ne (ss_policy st)])"
  by (simp_all add: announce_def Let_def)

lemma notify_simps [simp]:
  "ss_registry (notify c st) = ss_registry st" "ss_history (notify c st) = ss_history st"
  "ss_projections (notify c st) = ss_projections st"
  "ss_reducer_metrics (notify c st) = ss_reducer_metrics st"
  "ss_reducers (notify c st) = ss_reducers st" "ss_policy (notify c st) = ss_policy st"
  "ss_subscriptions (notify c st) = ss_subscriptions st"
  by (simp_all add: notify_def)

lemma record_policy_simps [simp]:
  "ss_registry (record_policy ne st) = ss_registry st" "ss_history (record_policy ne st) = ss_history st"
  "ss_projections (record_policy ne st) = ss_projections st"
  "ss_reducer_metrics (record_policy ne st) = ss_reducer_metrics st"
  "ss_reducers (record_policy ne st) = ss_reducers st" "ss_metrics (record_policy ne st) = ss_metrics st"
  "ss_subscriptions (record_policy ne st) = ss_subscriptions st"
  "ss_policy (record_policy (normalize_event e s) st) = policy_record_applied s (ev_event_id e) (ss_policy st)"
  by (simp_all add: record_policy_def normalize_event_def)

lemma accept_into_simps [simp]:
  "ss_registry (accept_into now now' e s t target bus m st) = fst (handle_event now now' e (ss_registry st))"
  "ss_history (accept_into now now' e s t target bus m st)
     = history_append t (transition_of s target e) (ss_history st)"
  "ss_reducers (accept_into now now' e s t target bus m st) = ss_reducers st"
  "ss_subscriptions (accept_into now now' e s t target bus m st) = ss_subscriptions st"
  "ss_policy (accept_into now now' e s t target bus m st) = policy_record_applied s (ev_event_id e) (ss_policy st)"
  by (simp_all add: accept_into_def)

lemma base_ok_apply:
  assumes "base_ok st"
  shows "base_ok (fst (store_apply now now' e s st))"
  using assms handle_event_ok
  by (cases rule: store_apply_cases[OF assms, of s e now now']) (simp_all add: base_ok_def)

text \<open>The store implements the automaton.\<close>

lemma store_apply_refines:
  assumes "base_ok st"
  shows "store_states (fst (store_apply now now' e s st))
           = lifecycle_step e (admits (ss_policy st) e s) (store_states st)"
    and "fst (snd (store_apply now now' e s st)) = Apply
           \<longleftrightarrow> admits (ss_policy st) e s \<and> lifecycle_accepts (ev_body e) (store_states st)"
proof -
  have reg: "registry_ok (ss_registry st)" using assms by (simp add: base_ok_def)
  have "store_states (fst (store_apply now now' e s st))
           = lifecycle_step e (admits (ss_policy st) e s) (store_states st) \<and>
      (fst (snd (store_apply now now' e s st)) = Apply
           \<longleftrightarrow> admits (ss_policy st) e s \<and> lifecycle_accepts (ev_body e) (store_states st))"
  proof (cases rule: store_apply_cases[OF assms, of s e now now', case_names stale duplicate passed rejected accepted])
    case passed
    then show ?thesis
      by (cases "ev_body e")
        (auto simp: is_task_event_def lifecycle_step_def lifecycle_accepts_def lifecycle_move_def)
  next
    case (accepted f target bus m)
    then show ?thesis
      using handle_event_legal[OF reg accepted(2,3,4)]
      by (simp add: lifecycle_step_def lifecycle_accepts_def lifecycle_move_def)
  qed (simp_all add: admits_def lifecycle_step_def lifecycle_accepts_def)
  then show "store_states (fst (store_apply now now' e s st))
           = lifecycle_step e (admits (ss_policy st) e s) (store_states st)"
    and "fst (snd (store_apply now now' e s st)) = Apply
           \<longleftrightarrow> admits (ss_policy st) e s \<and> lifecycle_accepts (ev_body e) (store_states st)"
    by blast+
qed

section \<open>The policy as a function of the notified changes\<close>

definition notified_sequences :: "state_change list \<Rightarrow> int list" where
  "notified_sequences cs = List.map_filter sc_sequence cs"

definition policy_matches :: "policy \<Rightarrow> state_change list \<Rightarrow> bool" where
  "policy_matches p cs \<longleftrightarrow>
     1 \<le> event_id_window p \<and>
     seen_ids_order p = take_last (event_id_window p) (map sc_event_id cs) \<and>
     seen_ids_set p = set (seen_ids_order p) \<and> distinct (seen_ids_order p) \<and>
     last_sequence p = fold max (notified_sequences cs) 0"

lemma notified_sequences_append [simp]:
  "notified_sequences (cs @ [c]) = notified_sequences cs @ (case sc_sequence c of None \<Rightarrow> [] | Some n \<Rightarrow> [n])"
  by (simp add: notified_sequences_def List.map_filter_def split: option.split)

lemma record_applied_order:
  assumes "length (seen_ids_order p) \<le> event_id_window p" "1 \<le> event_id_window p"
  shows "seen_ids_order (policy_record_applied s i p) = ring_push (event_id_window p) i (seen_ids_order p)"
    and "event_id_window (policy_record_applied s i p) = event_id_window p"
    and "last_sequence (policy_record_applied s i p)
           = (case s of None \<Rightarrow> last_sequence p | Some n \<Rightarrow> max n (last_sequence p))"
  using assms
  by (cases "seen_ids_order p"; auto simp: policy_record_applied_def ring_push_def Let_def split: option.splits)+

lemma policy_matches_step:
  assumes m: "policy_matches p cs" and adm: "policy_evaluate p s i = Apply"
    and c: "sc_event_id c = i" "sc_sequence c = s"
  shows "policy_matches (policy_record_applied s i p) (cs @ [c])"
proof -
  let ?w = "event_id_window p" and ?o = "seen_ids_order p"
  have w: "1 \<le> ?w" and o: "?o = take_last ?w (map sc_event_id cs)" and st: "seen_ids_set p = set ?o"
    and dist: "distinct ?o" and last: "last_sequence p = fold max (notified_sequences cs) 0"
    using m unfolding policy_matches_def by blast+
  have len: "length ?o \<le> ?w" by (simp add: o)
  have new: "i \<notin> set ?o" using adm st by (auto simp: policy_evaluate_def split: if_splits)
  note rec = record_applied_order[OF len w, of s i]
  have "ring_push ?w i ?o = take_last ?w (map sc_event_id (cs @ [c]))"
    using ring_push_take_last[OF w len] c(1) by (simp add: o take_last_idem_append)
  moreover have "distinct (ring_push ?w i ?o)"
    using dist new by (cases ?o) (auto simp: ring_push_def)
  moreover have "seen_ids_set (policy_record_applied s i p) = set (ring_push ?w i ?o)"
    using st dist new len w
    by (cases ?o) (auto simp: policy_record_applied_def ring_push_def Let_def split: option.splits)
  moreover have "last_sequence (policy_record_applied s i p) = fold max (notified_sequences (cs @ [c])) 0"
    using rec(3) last c(2) by (simp split: option.split)
  ultimately show ?thesis using rec w by (simp add: policy_matches_def)
qed

lemma le_fold_max: "(x :: int) \<le> fold max xs x" and le_fold_max_elem: "y \<in> set xs \<Longrightarrow> y \<le> fold max xs (x :: int)"
proof -
  show le: "x \<le> fold max xs x" for x :: int and xs
    by (induction xs arbitrary: x) (auto intro: order_trans[OF max.cobounded2])
  show "y \<in> set xs \<Longrightarrow> y \<le> fold max xs x"
  proof (induction xs arbitrary: x)
    case (Cons z zs)
    then show ?case using order_trans[OF max.cobounded1 le[of "max z x" zs]] by auto
  qed simp
qed

lemma sequences_grow:
  assumes "policy_matches p cs" "policy_evaluate p s i = Apply"
    and "sorted_wrt (<) (0 # notified_sequences cs)"
  shows "sorted_wrt (<) (0 # notified_sequences cs @ (case s of None \<Rightarrow> [] | Some n \<Rightarrow> [n]))"
proof (cases s)
  case (Some n)
  have "fold max (notified_sequences cs) 0 < n"
    using assms(1,2) Some
    by (auto simp: policy_evaluate_def policy_matches_def split: if_splits)
  then have "y < n" if "y \<in> set (notified_sequences cs)" for y
    using le_fold_max_elem[OF that, of 0] by linarith
  moreover have "0 < n"
    using \<open>fold max (notified_sequences cs) 0 < n\<close> le_fold_max[of 0 "notified_sequences cs"] by linarith
  ultimately show ?thesis using Some assms(3) by (auto simp: sorted_wrt_append)
qed (use assms in simp)

section \<open>Histories\<close>

definition history_ok :: "history \<Rightarrow> lifecycle \<Rightarrow> bool" where
  "history_ok h ls \<longleftrightarrow>
     1 \<le> history_limit h \<and>
     (\<forall>t. length (history_get h t) \<le> history_limit h \<and>
          successively can_transition (map tr_state (history_get h t)) \<and>
          map_option tr_state (last_of (history_get h t)) = ls t \<and>
          (history_get h t \<noteq> [] \<and> length (history_get h t) < history_limit h \<longrightarrow>
             tr_state (hd (history_get h t)) = CREATED))"

lemma successively_ring_push:
  assumes "successively P (map f xs)" "xs \<noteq> [] \<Longrightarrow> P (f (last xs)) (f x)"
  shows "successively P (map f (ring_push cap x xs))"
proof -
  have "successively P (map f (tl xs))"
    using assms(1) by (cases xs) (auto simp: successively_Cons)
  moreover have "tl xs \<noteq> [] \<Longrightarrow> P (f (last (tl xs))) (f x)"
    using assms(2) by (cases xs) auto
  ultimately show ?thesis
    using assms
    by (cases "tl xs = []"; cases "xs = []") (auto simp: ring_push_def successively_append_iff last_map)
qed

lemma history_ok_append:
  assumes h: "history_ok h ls" and legal: "is_legal_transition (ls t) (tr_state r)"
  shows "history_ok (history_append t r h) (ls(t := Some (tr_state r)))"
proof -
  let ?xs = "history_get h t"
  have lim: "1 \<le> history_limit h" and len: "length ?xs \<le> history_limit h"
    and succ: "successively can_transition (map tr_state ?xs)"
    and last: "map_option tr_state (last_of ?xs) = ls t"
    and first: "?xs \<noteq> [] \<and> length ?xs < history_limit h \<Longrightarrow> tr_state (hd ?xs) = CREATED"
    using h by (simp_all add: history_ok_def)
  have fits: "history_log.fits t h" using lim len by (simp add: history_log.fits_def)
  have "last_of (history_get (history_append t r h) t) = Some r"
    using fits by (rule history_log.newest_kept)
  moreover have "successively can_transition (map tr_state (ring_push (history_limit h) r ?xs))"
    using succ legal last
    by (intro successively_ring_push) (auto simp: last_of_def is_legal_iff split: option.splits)
  moreover have "tr_state (hd (ring_push (history_limit h) r ?xs)) = CREATED"
    if "length (ring_push (history_limit h) r ?xs) < history_limit h"
    using that first legal last len
    by (cases ?xs) (auto simp: ring_push_def is_legal_iff last_of_def split: if_splits)
  moreover have "length (ring_push (history_limit h) r ?xs) \<le> history_limit h"
    using len by (rule length_ring_push)
  ultimately show ?thesis using h by (auto simp: history_ok_def history_get_append)
qed

section \<open>Runs of the store\<close>

definition handled :: "store_metrics \<Rightarrow> nat" where
  "handled m = events_applied m + events_stale m + events_duplicate m + events_unknown_type m + events_rejected m"

definition store_ok :: "store \<Rightarrow> state_change list \<Rightarrow> bool" where
  "store_ok st cs \<longleftrightarrow>
     base_ok st \<and> policy_matches (ss_policy st) cs \<and> sorted_wrt (<) (0 # notified_sequences cs) \<and>
     history_ok (ss_history st) (store_states st)"

lemma ss_policy_count [simp]: "ss_policy (count_metric f st) = ss_policy st"
  by simp

lemma change_of_simps [simp]:
  "sc_event_id (change_of (normalize_event e s) p) = ev_event_id e"
  "sc_sequence (change_of (normalize_event e s) p) = s"
  "sc_event (change_of (normalize_event e s) p) = e"
  "sc_last_sequence (change_of (normalize_event e s) p) = last_sequence p"
  by (simp_all add: change_of_def normalize_event_def)

lemma store_ok_apply:
  assumes ok: "store_ok st cs"
  shows "store_ok (fst (store_apply now now' e s st)) (cs @ snd (snd (store_apply now now' e s st)))"
proof -
  have base: "base_ok st" and pol: "policy_matches (ss_policy st) cs"
    and seqs: "sorted_wrt (<) (0 # notified_sequences cs)"
    and hist: "history_ok (ss_history st) (store_states st)"
    using ok by (simp_all add: store_ok_def)
  have reg: "registry_ok (ss_registry st)" using base by (simp add: base_ok_def)
  have base': "base_ok (fst (store_apply now now' e s st))" using base by (rule base_ok_apply)
  show ?thesis
  proof (cases rule: store_apply_cases[OF base, of s e now now', case_names stale duplicate passed rejected accepted])
    case passed
    then have adm: "policy_evaluate (ss_policy st) s (ev_event_id e) = Apply" by (simp add: admits_def)
    show ?thesis
      using base' passed hist policy_matches_step[OF pol adm] sequences_grow[OF pol adm seqs]
      by (simp add: store_ok_def)
  next
    case (accepted f target bus m)
    then have adm: "policy_evaluate (ss_policy st) s (ev_event_id e) = Apply" by (simp add: admits_def)
    have "history_ok (history_append (te_task_id f) (transition_of s target e) (ss_history st))
        (states_of (fst (handle_event now now' e (ss_registry st))))"
      using history_ok_append[OF hist, of "te_task_id f" "transition_of s target e"]
        handle_event_legal[OF reg accepted(2,3,4)] accepted(4) by (simp add: transition_of_def)
    then show ?thesis
      using base' accepted policy_matches_step[OF pol adm] sequences_grow[OF pol adm seqs]
      by (simp add: store_ok_def)
  qed (use base' pol seqs hist in \<open>simp_all add: store_ok_def\<close>)
qed

lemma store_ok_apply_all:
  "store_ok st cs \<Longrightarrow> apply_all its st = (st', ds, cs') \<Longrightarrow> store_ok st' (cs @ cs')"
proof (induction its arbitrary: st cs st' ds cs')
  case Nil
  then show ?case by simp
next
  case (Cons it its)
  obtain st1 d c1 where one: "apply_item it st = (st1, d, c1)" by (cases "apply_item it st")
  obtain st2 ds2 c2 where rest: "apply_all its st1 = (st2, ds2, c2)" by (cases "apply_all its st1")
  have "store_ok st1 (cs @ c1)"
    using store_ok_apply[OF Cons.prems(1), of "si_now it" "si_later it" "si_event it" "si_sequence it"] one
    by (simp add: apply_item_def)
  from Cons.IH[OF this rest] show ?case using Cons.prems(2) one rest by simp
qed

lemma handled_apply:
  assumes "base_ok st"
  shows "handled (ss_metrics (fst (store_apply now now' e s st))) = handled (ss_metrics st) + 1"
    and "subscription_dispatches (ss_metrics (fst (store_apply now now' e s st)))
           = subscription_dispatches (ss_metrics st) + length (snd (snd (store_apply now now' e s st)))"
    and "events_applied (ss_metrics (fst (store_apply now now' e s st)))
           + events_unknown_type (ss_metrics (fst (store_apply now now' e s st)))
         = events_applied (ss_metrics st) + events_unknown_type (ss_metrics st)
           + length (snd (snd (store_apply now now' e s st)))"
    and "length (snd (snd (store_apply now now' e s st)))
           = (if fst (snd (store_apply now now' e s st)) = Apply then 1 else 0)"
  by (cases rule: store_apply_cases[OF assms, of s e now now'];
      simp add: handled_def sm_record_stale_def sm_record_duplicate_def sm_record_unknown_type_def
        sm_record_rejected_def sm_record_applied_def sm_record_dispatch_def notify_def accept_into_def)+

section \<open>Fresh and rebuilt stores\<close>

definition fresh_store :: "int \<Rightarrow> int \<Rightarrow> int \<Rightarrow> store option" where
  "fresh_store depth window limit =
     (case (new_policy window, new_history limit) of
        (Some p, Some h) \<Rightarrow> Some (new_store (new_registry (new_tracker depth)) p build_default_registry h)
      | _ \<Rightarrow> None)"

lemma store_ok_fresh:
  assumes "fresh_store depth window limit = Some st"
  shows "store_ok st []" "handled (ss_metrics st) = 0" "subscription_dispatches (ss_metrics st) = 0"
    "events_applied (ss_metrics st) + events_unknown_type (ss_metrics st) = 0"
  using assms registry_ok_new[of "new_tracker depth"]
  by (auto simp: fresh_store_def new_policy_def new_history_def new_store_def store_ok_def base_ok_def
      policy_matches_def notified_sequences_def List.map_filter_def take_last_def history_ok_def history_get_def
      states_of_def registry_get_def new_registry_def empty_index_def handled_def new_store_metrics_def
      new_tracker_def split: if_splits)

lemma max_depth_register [simp]: "max_depth (fst (lineage_register t p tr)) = max_depth tr"
  by (simp add: lineage_register_def Let_def split: option.split)

lemma max_depth_registry_register [simp]:
  "max_depth (reg_lineage (fst (registry_register now t md st r))) = max_depth (reg_lineage r)"
proof -
  have bump: "max_depth (fst (lineage_register t None (fst (lineage_register t p tr)))) = max_depth tr" for p tr
    by simp
  show ?thesis
    using max_depth_register[of t "md_parent_task_id (case md of None \<Rightarrow> default_metadata | Some m \<Rightarrow> m)" "reg_lineage r"]
      bump[of "md_parent_task_id (case md of None \<Rightarrow> default_metadata | Some m \<Rightarrow> m)" "reg_lineage r"]
    unfolding registry_register_def Let_def
    by (auto simp: finish_register_def Let_def simp del: max_depth_register set_map
        split: prod.splits sum.splits lineage_error.splits)
qed

lemma max_depth_handle_event [simp]:
  "max_depth (reg_lineage (fst (handle_event now now' e r))) = max_depth (reg_lineage r)"
proof -
  have upd: "max_depth (reg_lineage (fst (safe_update now now' t target a r))) = max_depth (reg_lineage r)"
    for t target a
    by (cases rule: update_state_cases[of r t now now' target a]) (simp_all add: safe_update_def)
  have "max_depth (reg_lineage (fst (handle_created now e f r))) = max_depth (reg_lineage r)" for f
    using max_depth_registry_register[of now "te_task_id f" "Some (created_metadata e f (te_parent_task_id f))" CREATED r]
      max_depth_registry_register[of now "te_task_id f" "Some (created_metadata e f None)" CREATED
        "fst (registry_register now (te_task_id f) (Some (created_metadata e f (te_parent_task_id f))) CREATED r)"]
    unfolding handle_created_def
    by (auto simp del: max_depth_registry_register set_map
        split: prod.splits sum.splits registry_error.splits)
  then show ?thesis using upd by (simp add: handle_event_def split: event_body.split)
qed

text \<open>Two stores that agree on everything a decision depends on.\<close>

definition agree :: "store \<Rightarrow> store \<Rightarrow> bool" where
  "agree st st' \<longleftrightarrow>
     ss_registry st' = ss_registry st \<and> ss_history st' = ss_history st \<and>
     ss_reducers st' = ss_reducers st \<and> ss_policy st' = ss_policy st"

lemma agree_base: "agree st st' \<Longrightarrow> base_ok st \<Longrightarrow> base_ok st'"
  by (simp add: agree_def base_ok_def)

lemma agree_apply:
  assumes "agree st st'" "base_ok st"
  shows "agree (fst (store_apply now now' e s st)) (fst (store_apply now now' e s st'))"
    and "snd (store_apply now now' e s st') = snd (store_apply now now' e s st)"
proof -
  note base' = agree_base[OF assms]
  have "agree (fst (store_apply now now' e s st)) (fst (store_apply now now' e s st')) \<and>
      snd (store_apply now now' e s st') = snd (store_apply now now' e s st)"
    using assms(1)
    by (cases rule: store_apply_cases[OF assms(2), of s e now now'];
        cases rule: store_apply_cases[OF base', of s e now now'];
        auto simp: agree_def admits_def is_task_event_def split: event_body.splits)
  then show "agree (fst (store_apply now now' e s st)) (fst (store_apply now now' e s st'))"
    and "snd (store_apply now now' e s st') = snd (store_apply now now' e s st)" by blast+
qed

lemma agree_dropped:
  assumes "base_ok st" "fst (snd (store_apply now now' e s st)) \<noteq> Apply"
  shows "agree st (fst (store_apply now now' e s st))" "snd (snd (store_apply now now' e s st)) = []"
  using assms
  by (cases rule: store_apply_cases[OF assms(1), of s e now now']; simp add: agree_def)+

fun accepted_items :: "store_item list \<Rightarrow> decision list \<Rightarrow> store_item list" where
  "accepted_items (it # its) (d # ds) = (if d = Apply then it # accepted_items its ds else accepted_items its ds)"
| "accepted_items _ _ = []"

lemma base_ok_apply_item: "base_ok st \<Longrightarrow> base_ok (fst (apply_item it st))"
  by (simp add: apply_item_def base_ok_apply)

lemma agree_sym: "agree st st' \<Longrightarrow> agree st' st"
  by (simp add: agree_def)

lemma agree_trans: "agree a b \<Longrightarrow> agree b c \<Longrightarrow> agree a c"
  by (simp add: agree_def)

lemma accepted_run:
  assumes "base_ok st" "agree st st'" "apply_all its st = (st1, ds, cs)"
  shows "\<exists>st2. apply_all (accepted_items its ds) st' = (st2, filter (\<lambda>d. d = Apply) ds, cs) \<and> agree st1 st2"
  using assms
proof (induction its arbitrary: st st' st1 ds cs)
  case Nil
  then show ?case by simp
next
  case (Cons it its)
  obtain sa d ca where one: "apply_item it st = (sa, d, ca)" by (cases "apply_item it st")
  obtain sb db cb where rest: "apply_all its sa = (sb, db, cb)" by (cases "apply_all its sa")
  have res: "st1 = sb" "ds = d # db" "cs = ca @ cb" using Cons.prems(3) one rest by simp_all
  have base: "base_ok sa" using base_ok_apply_item[OF Cons.prems(1), of it] one by simp
  show ?case
  proof (cases "d = Apply")
    case True
    obtain sc where sc: "apply_item it st' = (sc, d, ca)" and ag: "agree sa sc"
      using agree_apply[OF Cons.prems(2,1), of "si_now it" "si_later it" "si_event it" "si_sequence it"] one
      by (cases "apply_item it st'") (simp add: apply_item_def)
    obtain st2 where "apply_all (accepted_items its db) sc = (st2, filter (\<lambda>d. d = Apply) db, cb)" "agree sb st2"
      using Cons.IH[OF base ag rest] by blast
    then show ?thesis using True sc res by simp
  next
    case False
    have "agree st sa" "ca = []"
      using agree_dropped[OF Cons.prems(1), of "si_now it" "si_later it" "si_event it" "si_sequence it"] one False
      by (simp_all add: apply_item_def)
    then have "agree sa st'" using Cons.prems(2) agree_sym agree_trans by blast
    from Cons.IH[OF base this rest] show ?thesis using False res \<open>ca = []\<close> by simp
  qed
qed

definition same_setup :: "store \<Rightarrow> store \<Rightarrow> bool" where
  "same_setup st st' \<longleftrightarrow>
     max_depth (reg_lineage (ss_registry st')) = max_depth (reg_lineage (ss_registry st)) \<and>
     history_limit (ss_history st') = history_limit (ss_history st) \<and>
     event_id_window (ss_policy st') = event_id_window (ss_policy st) \<and>
     ss_reducers st' = ss_reducers st"

lemma window_record [simp]: "event_id_window (policy_record_applied s i p) = event_id_window p"
  by (simp add: policy_record_applied_def Let_def split: option.split)

lemma same_setup_apply:
  assumes "base_ok st"
  shows "same_setup st (fst (store_apply now now' e s st))"
  by (cases rule: store_apply_cases[OF assms, of s e now now']; simp add: same_setup_def)

lemma same_setup_apply_all:
  "base_ok st \<Longrightarrow> apply_all its st = (st', ds, cs) \<Longrightarrow> same_setup st st'"
proof (induction its arbitrary: st st' ds cs)
  case Nil
  then show ?case by (simp add: same_setup_def)
next
  case (Cons it its)
  obtain sa d ca where one: "apply_item it st = (sa, d, ca)" by (cases "apply_item it st")
  obtain sb db cb where rest: "apply_all its sa = (sb, db, cb)" by (cases "apply_all its sa")
  have "same_setup st sa"
    using same_setup_apply[OF Cons.prems(1), of "si_now it" "si_later it" "si_event it" "si_sequence it"] one
    by (simp add: apply_item_def)
  moreover have "same_setup sa sb"
    using Cons.IH[OF _ rest] base_ok_apply_item[OF Cons.prems(1), of it] one by simp
  ultimately show ?case using Cons.prems(2) one rest by (simp add: same_setup_def)
qed

lemma reset_agrees_with_fresh:
  assumes "fresh_store depth window limit = Some st0" "same_setup st0 st"
  shows "agree st0 (reset_store st)"
  using assms
  by (auto simp: fresh_store_def new_policy_def new_history_def new_store_def same_setup_def agree_def
      reset_store_def registry_clear_def new_registry_def lineage_clear_def new_tracker_def
      history_clear_def reset_for_rebuild_def split: if_splits)

abbreviation after :: "store_item list \<Rightarrow> store \<Rightarrow> store" where
  "after its st \<equiv> fst (apply_all its st)"

abbreviation decisions :: "store_item list \<Rightarrow> store \<Rightarrow> decision list" where
  "decisions its st \<equiv> fst (snd (apply_all its st))"

abbreviation changes :: "store_item list \<Rightarrow> store \<Rightarrow> state_change list" where
  "changes its st \<equiv> snd (snd (apply_all its st))"

lemma store_ok_after:
  assumes "fresh_store depth window limit = Some st"
  shows "store_ok (after its st) (changes its st)"
  using store_ok_apply_all[OF store_ok_fresh(1)[OF assms], of its] by (metis append_Nil prod.collapse)

lemma handled_all:
  assumes "base_ok st" "apply_all its st = (st', ds, cs)"
  shows "handled (ss_metrics st') = handled (ss_metrics st) + length its \<and>
    subscription_dispatches (ss_metrics st') = subscription_dispatches (ss_metrics st) + length cs \<and>
    events_applied (ss_metrics st') + events_unknown_type (ss_metrics st')
      = events_applied (ss_metrics st) + events_unknown_type (ss_metrics st) + length cs \<and>
    length cs = length (filter (\<lambda>d. d = Apply) ds)"
  using assms
proof (induction its arbitrary: st st' ds cs)
  case Nil
  then show ?case by simp
next
  case (Cons it its)
  obtain sa d ca where one: "apply_item it st = (sa, d, ca)" by (cases "apply_item it st")
  obtain sb db cb where rest: "apply_all its sa = (sb, db, cb)" by (cases "apply_all its sa")
  have "base_ok sa" using base_ok_apply_item[OF Cons.prems(1), of it] one by simp
  from Cons.IH[OF this rest] show ?case
    using Cons.prems(2) one rest
      handled_apply[OF Cons.prems(1), of "si_now it" "si_later it" "si_event it" "si_sequence it"]
    by (auto simp: apply_item_def)
qed

definition sample_item :: "string \<Rightarrow> int \<Rightarrow> event_body \<Rightarrow> store_item" where
  "sample_item i n body =
     \<lparr>si_now = 1, si_later = 2, si_event = sample_event i n body, si_sequence = Some n\<rparr>"

lemma fresh_store_exists: "0 < window \<Longrightarrow> 1 \<le> limit \<Longrightarrow> \<exists>st. fresh_store depth window limit = Some st"
  by (simp add: fresh_store_def new_policy_def new_history_def)

text \<open>Every accepted item is announced, and nothing else is.\<close>

lemma announced:
  assumes "base_ok st" "apply_item it st = (st', d, cs)"
  shows "map (\<lambda>c. (sc_event c, sc_sequence c)) cs = (if d = Apply then [(si_event it, si_sequence it)] else [])"
  using assms(2)
  by (cases rule: store_apply_cases[OF assms(1), of "si_sequence it" "si_event it" "si_now it" "si_later it"])
    (auto simp: apply_item_def announce_def Let_def)

lemma announced_all:
  assumes "base_ok st" "apply_all its st = (st', ds, cs)"
  shows "map (\<lambda>c. (sc_event c, sc_sequence c)) cs = map (\<lambda>it. (si_event it, si_sequence it)) (accepted_items its ds)"
  using assms
proof (induction its arbitrary: st st' ds cs)
  case Nil
  then show ?case by simp
next
  case (Cons it its)
  obtain sa d ca where one: "apply_item it st = (sa, d, ca)" by (cases "apply_item it st")
  obtain sb db cb where rest: "apply_all its sa = (sb, db, cb)" by (cases "apply_all its sa")
  have "base_ok sa" using base_ok_apply_item[OF Cons.prems(1), of it] one by simp
  from Cons.IH[OF this rest] show ?case
    using Cons.prems(2) one rest announced[OF Cons.prems(1) one] by auto
qed

section \<open>Properties\<close>

text \<open>C1: The state store implements the lifecycle automaton: after any stream of events, one more
  \<open>apply\<close> moves the states of the tasks exactly as the automaton does (a fresh, legal event moves
  its own task and no other; anything else moves nothing), and it returns APPLY exactly when the
  event is fresh and the automaton accepts it.\<close>

theorem store_refines_lifecycle:
  assumes "fresh_store depth window limit = Some st0"
  shows "store_states (fst (store_apply now now' e s (after its st0)))
           = lifecycle_step e (admits (ss_policy (after its st0)) e s) (store_states (after its st0)) \<and>
         (fst (snd (store_apply now now' e s (after its st0))) = Apply \<longleftrightarrow>
            admits (ss_policy (after its st0)) e s \<and>
            lifecycle_accepts (ev_body e) (store_states (after its st0)))"
proof -
  have "base_ok (after its st0)" using store_ok_after[OF assms] by (simp add: store_ok_def)
  then show ?thesis using store_apply_refines by blast
qed

theorem store_refines_lifecycle_witness:
  "\<exists>st0. fresh_store 8192 4096 1024 = Some st0 \<and>
     store_states (fst (store_apply 1 2 (sample_event ''e1'' 10 (TaskCreatedEvent (sample_fields ''a''))) (Some 1)
       (after [] st0))) ''a'' = Some CREATED"
proof -
  obtain st0 where st0: "fresh_store 8192 4096 1024 = Some st0"
    using fresh_store_exists[of 4096 1024 8192] by auto
  have "store_ok st0 []" using st0 by (rule store_ok_fresh)
  then have "admits (ss_policy st0) (sample_event ''e1'' 10 (TaskCreatedEvent (sample_fields ''a''))) (Some 1)"
    "store_states st0 ''a'' = None"
    using st0 by (auto simp: fresh_store_def new_policy_def new_history_def new_store_def admits_def
        policy_evaluate_def states_of_def registry_get_def new_registry_def empty_index_def)
  then have "store_states (fst (store_apply 1 2 (sample_event ''e1'' 10 (TaskCreatedEvent (sample_fields ''a''))) (Some 1)
       (after [] st0))) ''a'' = Some CREATED"
    using store_refines_lifecycle[OF st0, of 1 2 "sample_event ''e1'' 10 (TaskCreatedEvent (sample_fields ''a''))" "Some 1" "[]"]
    by (simp add: lifecycle_step_def lifecycle_accepts_def lifecycle_move_def sample_event_def
        sample_fields_def is_legal_iff)
  with st0 show ?thesis by blast
qed

text \<open>C9: Deduplication is exact. After any stream of events, an event is called a duplicate exactly
  when its id is among the last \<open>window\<close> notified ids, and stale exactly when it is no duplicate
  and its sequence does not exceed the highest notified one. \<open>apply\<close> then adds one to the counter of
  duplicates, or of stale events, leaves everything else of the store as it is, and notifies nobody.\<close>

theorem reconciliation_exact:
  assumes "fresh_store depth window limit = Some st0"
    and "dup = (ev_event_id e \<in> set (take_last (nat window) (map sc_event_id (changes its st0))))"
    and "old = (\<exists>n. s = Some n \<and> n \<le> fold max (notified_sequences (changes its st0)) 0)"
    and "st = after its st0" and "m = ss_metrics st"
  shows "policy_evaluate (ss_policy st) s (ev_event_id e) = (if dup then Duplicate else if old then Stale else Apply) \<and>
    (fst (snd (store_apply now now' e s st)) = Duplicate \<longleftrightarrow> dup) \<and>
    (dup \<longrightarrow> store_apply now now' e s st = (st\<lparr>ss_metrics := m\<lparr>events_duplicate := events_duplicate m + 1\<rparr>\<rparr>, Duplicate, [])) \<and>
    (\<not> dup \<and> old \<longrightarrow> store_apply now now' e s st = (st\<lparr>ss_metrics := m\<lparr>events_stale := events_stale m + 1\<rparr>\<rparr>, Stale, []))"
proof -
  have ok: "store_ok st (changes its st0)" using assms(1) unfolding assms(4) by (rule store_ok_after)
  then have base: "base_ok st" and pol: "policy_matches (ss_policy st) (changes its st0)"
    by (simp_all add: store_ok_def)
  have "same_setup st0 st"
    using same_setup_apply_all[of st0 its] store_ok_fresh(1)[OF assms(1)] unfolding assms(4)
    by (metis prod.collapse store_ok_def)
  then have win: "event_id_window (ss_policy st) = nat window"
    using assms(1) by (auto simp: same_setup_def fresh_store_def new_policy_def new_history_def
        new_store_def split: if_splits)
  have seen: "seen_ids_set (ss_policy st) = set (take_last (nat window) (map sc_event_id (changes its st0)))"
    and last: "last_sequence (ss_policy st) = fold max (notified_sequences (changes its st0)) 0"
    using pol win by (simp_all add: policy_matches_def)
  have eval: "policy_evaluate (ss_policy st) s (ev_event_id e) = (if dup then Duplicate else if old then Stale else Apply)"
    unfolding policy_evaluate_def seen last assms(2,3) by (auto split: option.splits)
  have "policy_evaluate (ss_policy st) s (ev_event_id e) = Duplicate
      \<longleftrightarrow> fst (snd (store_apply now now' e s st)) = Duplicate"
    by (cases rule: store_apply_cases[OF base, of s e now now']) (simp_all add: admits_def)
  moreover have "policy_evaluate (ss_policy st) s (ev_event_id e) = Duplicate \<Longrightarrow>
      store_apply now now' e s st = (count_metric sm_record_duplicate st, Duplicate, [])"
    "policy_evaluate (ss_policy st) s (ev_event_id e) = Stale \<Longrightarrow>
      store_apply now now' e s st = (count_metric sm_record_stale st, Stale, [])"
    by (cases rule: store_apply_cases[OF base, of s e now now']; simp add: admits_def)+
  ultimately show ?thesis
    using eval by (cases dup; cases old) (simp_all add: sm_record_duplicate_def sm_record_stale_def assms(5))
qed

text \<open>After one event with sequence 5, the same event is a duplicate, and another one with sequence 3 is stale.\<close>

theorem reconciliation_exact_witness:
  "\<exists>st0 st. fresh_store 8192 4096 1024 = Some st0 \<and> st = after [sample_item ''e1'' 5 (OtherEvent ''x'')] st0 \<and>
     fst (snd (store_apply 1 2 (sample_event ''e1'' 10 (OtherEvent ''x'')) (Some 9) st)) = Duplicate \<and>
     store_apply 1 2 (sample_event ''e2'' 10 (OtherEvent ''x'')) (Some 3) st =
       (st\<lparr>ss_metrics := (ss_metrics st)\<lparr>events_stale := events_stale (ss_metrics st) + 1\<rparr>\<rparr>, Stale, [])"
proof -
  let ?it = "sample_item ''e1'' 5 (OtherEvent ''x'')"
  obtain st0 where st0: "fresh_store 8192 4096 1024 = Some st0"
    using fresh_store_exists[of 4096 1024 8192] by auto
  have one: "map sc_event_id (changes [?it] st0) = [''e1'']" "notified_sequences (changes [?it] st0) = [5]"
    using st0 by (auto simp: fresh_store_def new_policy_def new_history_def new_store_def apply_item_def store_apply_def
        sample_item_def sample_event_def normalize_event_def policy_evaluate_def announce_def record_policy_def
        policy_record_applied_def change_of_def is_task_event_def notified_sequences_def List.map_filter_simps Let_def)
  let ?dup = "\<lambda>e. ev_event_id e \<in> set (take_last (nat 4096) (map sc_event_id (changes [?it] st0)))"
  let ?e1 = "sample_event ''e1'' 10 (OtherEvent ''x'')" and ?e2 = "sample_event ''e2'' 10 (OtherEvent ''x'')"
  have dup: "?dup ?e1" "\<not> ?dup ?e2" unfolding one(1) by (simp_all add: sample_event_def take_last_def)
  have old: "\<exists>n. Some (3::int) = Some n \<and> n \<le> fold max (notified_sequences (changes [?it] st0)) 0" unfolding one(2) by simp
  note exact = reconciliation_exact[where now = 1 and now' = 2 and its = "[?it]", OF st0 refl refl refl refl]
  have "fst (snd (store_apply 1 2 ?e1 (Some 9) (after [?it] st0))) = Duplicate"
    using exact[where e = ?e1 and s = "Some 9", THEN conjunct2, THEN conjunct1] dup(1) by blast
  moreover have "store_apply 1 2 ?e2 (Some 3) (after [?it] st0) = ((after [?it] st0)\<lparr>ss_metrics :=
      (ss_metrics (after [?it] st0))\<lparr>events_stale := events_stale (ss_metrics (after [?it] st0)) + 1\<rparr>\<rparr>, Stale, [])"
    using exact[where e = ?e2 and s = "Some 3", THEN conjunct2, THEN conjunct2, THEN conjunct2] dup(2) old by blast
  ultimately show ?thesis using st0 by blast
qed

text \<open>Listeners see sequence numbers in strictly increasing order: whatever stream is applied
  (reordered, repeated, interleaved with unsequenced events), the sequence numbers of the notified
  changes strictly increase and are positive.\<close>

theorem notified_sequences_increase:
  assumes "fresh_store depth window limit = Some st0"
  shows "sorted_wrt (<) (0 # notified_sequences (changes its st0)) \<and>
         last_sequence (ss_policy (after its st0)) = fold max (notified_sequences (changes its st0)) 0"
  using store_ok_after[OF assms, of its] by (simp add: store_ok_def policy_matches_def)

theorem notified_sequences_increase_witness:
  "\<exists>st0. fresh_store 8192 4096 1024 = Some st0 \<and>
     sorted_wrt (<) (0 # notified_sequences (changes
       [sample_item ''e1'' 5 (OtherEvent ''x''), sample_item ''e2'' 3 (OtherEvent ''x''),
        sample_item ''e3'' 7 (OtherEvent ''x'')] st0))"
proof -
  obtain st0 where st0: "fresh_store 8192 4096 1024 = Some st0"
    using fresh_store_exists[of 4096 1024 8192] by auto
  show ?thesis using st0 notified_sequences_increase[OF st0] by blast
qed

text \<open>No event is lost or counted twice: after applying a stream, the five counters (applied,
  stale, duplicate, unknown type, rejected) add up to its length, the listeners were dispatched
  once per applied or unknown-type event, and those are the APPLY decisions.\<close>

theorem store_accounts_for_every_event:
  assumes "fresh_store depth window limit = Some st0"
  shows "handled (ss_metrics (after its st0)) = length its \<and>
         subscription_dispatches (ss_metrics (after its st0)) = length (changes its st0) \<and>
         events_applied (ss_metrics (after its st0)) + events_unknown_type (ss_metrics (after its st0))
           = length (changes its st0) \<and>
         length (changes its st0) = length (filter (\<lambda>d. d = Apply) (decisions its st0))"
proof -
  note fresh = store_ok_fresh[OF assms]
  have "base_ok st0" using fresh(1) by (simp add: store_ok_def)
  then show ?thesis
    using handled_all[of st0 its "after its st0" "decisions its st0" "changes its st0"] fresh by simp
qed

theorem store_accounts_for_every_event_witness:
  "\<exists>st0. fresh_store 8192 4096 1024 = Some st0 \<and>
     handled (ss_metrics (after [sample_item ''e1'' 1 (TaskStartedEvent (sample_fields ''a'')),
       sample_item ''e2'' 2 (OtherEvent ''x'')] st0)) = 2"
proof -
  obtain st0 where st0: "fresh_store 8192 4096 1024 = Some st0"
    using fresh_store_exists[of 4096 1024 8192] by auto
  show ?thesis
    using st0 store_accounts_for_every_event[OF st0, of "[sample_item ''e1'' 1 (TaskStartedEvent (sample_fields ''a'')),
       sample_item ''e2'' 2 (OtherEvent ''x'')]"] by auto
qed

text \<open>The transition history of every task is its life: at most \<open>limit\<close> records, each state
  reached from the previous one by a legal transition, the last one the task's current state
  (none for an unknown task), and the first one CREATED as long as the ring has not filled up.\<close>

theorem history_is_the_lifecycle:
  assumes "fresh_store depth window limit = Some st0"
    and "xs = transition_history (after its st0) t"
  shows "length xs \<le> nat limit \<and> successively can_transition (map tr_state xs) \<and>
         map_option tr_state (last_of xs) = store_states (after its st0) t \<and>
         (xs \<noteq> [] \<and> length xs < nat limit \<longrightarrow> tr_state (hd xs) = CREATED)"
proof -
  have ok: "store_ok (after its st0) (changes its st0)" using assms(1) by (rule store_ok_after)
  have "same_setup st0 (after its st0)"
    using same_setup_apply_all[of st0 its] store_ok_fresh(1)[OF assms(1)]
    by (metis prod.collapse store_ok_def)
  then have "history_limit (ss_history (after its st0)) = nat limit"
    using assms(1) by (auto simp: same_setup_def fresh_store_def new_policy_def new_history_def
        new_store_def split: if_splits)
  then show ?thesis
    using ok unfolding assms(2) transition_history_def store_ok_def history_ok_def by auto
qed

theorem history_is_the_lifecycle_witness:
  "\<exists>st0. fresh_store 8192 4096 1024 = Some st0 \<and>
     map_option tr_state (last_of (transition_history (after
       [sample_item ''e1'' 1 (TaskCreatedEvent (sample_fields ''a''))] st0) ''a''))
     = store_states (after [sample_item ''e1'' 1 (TaskCreatedEvent (sample_fields ''a''))] st0) ''a''"
proof -
  obtain st0 where st0: "fresh_store 8192 4096 1024 = Some st0"
    using fresh_store_exists[of 4096 1024 8192] by auto
  show ?thesis using st0 history_is_the_lifecycle[OF st0 refl] by blast
qed

lemma same_setup_after:
  assumes "fresh_store depth window limit = Some st0"
  shows "same_setup st0 (after its st0)"
proof -
  have "base_ok st0" using store_ok_fresh(1)[OF assms] by (simp add: store_ok_def)
  then show ?thesis using same_setup_apply_all[of st0 its] by (metis prod.collapse)
qed

lemma rebuild_kept:
  assumes "fresh_store depth window limit = Some st0" "same_setup st0 target"
  shows "\<exists>st2. rebuild (accepted_items its (decisions its st0)) target
            = (st2, length (changes its st0), changes its st0) \<and> agree (after its st0) st2"
proof -
  have ok0: "base_ok st0" using store_ok_fresh(1)[OF assms(1)] by (simp add: store_ok_def)
  have "agree st0 (reset_store target)" by (rule reset_agrees_with_fresh[OF assms])
  then obtain st2 where run: "apply_all (accepted_items its (decisions its st0)) (reset_store target)
      = (st2, filter (\<lambda>d. d = Apply) (decisions its st0), changes its st0)"
    and ag: "agree (after its st0) st2"
    using accepted_run[OF ok0, of "reset_store target" its "after its st0" "decisions its st0" "changes its st0"]
    by auto
  have "length (filter (\<lambda>d. d = Apply) (decisions its st0)) = length (changes its st0)"
    using handled_all[OF ok0, of its "after its st0" "decisions its st0" "changes its st0"] by simp
  then show ?thesis using run ag by (simp add: rebuild_def agree_def)
qed

text \<open>C4: Rebuilding from the log of applied events reproduces the store. Take any stream and keep
  only the items \<open>apply\<close> accepted. Rebuild from them any store configured alike (same lineage
  depth, history limit, id window and reducers), whatever it holds: the store of the run, a later
  one or another: every item is accepted again, and registry, transition history, reconciliation
  policy and notified changes are exactly those of the original run (given the same clock
  readings).\<close>

theorem rebuild_reproduces_the_run:
  assumes "fresh_store depth window limit = Some st0"
    and "kept = accepted_items its (decisions its st0)"
    and "same_setup st0 target"
  shows "agree (after its st0) (fst (rebuild kept target)) \<and>
         snd (rebuild kept target) = (length (changes its st0), changes its st0)"
  using rebuild_kept[OF assms(1) assms(3), of its] assms(2)
  by (auto simp: rebuild_def agree_def split: prod.splits)

theorem rebuild_reproduces_the_run_witness:
  "\<exists>st0 its later. fresh_store 8192 4096 1024 = Some st0 \<and>
     its = [sample_item ''e1'' 1 (TaskCreatedEvent (sample_fields ''a'')),
            sample_item ''e1'' 2 (TaskStartedEvent (sample_fields ''a''))] \<and>
     later = its @ [sample_item ''e2'' 3 (TaskStartedEvent (sample_fields ''a''))] \<and>
     agree (after its st0) (fst (rebuild (accepted_items its (decisions its st0)) (after later st0)))"
proof -
  obtain st0 where st0: "fresh_store 8192 4096 1024 = Some st0"
    using fresh_store_exists[of 4096 1024 8192] by auto
  show ?thesis
    using st0 rebuild_reproduces_the_run[OF st0 refl same_setup_after[OF st0]] by blast
qed

end
