(* ===== verification/StateViews.thy ===== *)
theory StateViews
  imports StateStore "HOL-Library.Multiset"
begin

text \<open>
  The derived views of the state store: the index view (\<open>state/indexes.py\<close>), the three default
  projections (\<open>state/projections.py\<close>), the query service (\<open>state/queries.py\<close>) and the snapshot
  that composes them (\<open>state/snapshots.py\<close>, \<open>state/models.py\<close>). Views are functions of the list of
  task snapshots, which \<open>snapshot_all_tasks\<close> sorts by \<open>(created_at, task_id)\<close>.
\<close>

section \<open>The index view\<close>

record state_index_view =
  iv_active :: "task_id list"
  iv_waiting :: "task_id list"
  iv_completed :: "task_id list"
  iv_cancelled :: "task_id list"
  iv_failed :: "task_id list"
  iv_created :: "task_id list"
  iv_by_state :: "(string, task_id list) dict"

definition ids_in_state :: "task_state \<Rightarrow> task_snapshot list \<Rightarrow> task_id list" where
  "ids_in_state s snaps = map rt_task_id (filter (\<lambda>t. rt_state t = s) snaps)"

definition push_back :: "'k \<Rightarrow> 'a \<Rightarrow> ('k, 'a list) dict \<Rightarrow> ('k, 'a list) dict" where
  "push_back k x d = dset k (dget_or [] d k @ [x]) d"

definition index_view_of :: "task_snapshot list \<Rightarrow> state_index_view" where
  "index_view_of snaps =
     \<lparr>iv_active = ids_in_state CREATED snaps @ ids_in_state RUNNING snaps,
      iv_waiting = ids_in_state WAITING snaps,
      iv_completed = ids_in_state COMPLETED snaps,
      iv_cancelled = ids_in_state CANCELLED snaps,
      iv_failed = ids_in_state FAILED snaps,
      iv_created = ids_in_state CREATED snaps,
      iv_by_state = fold (\<lambda>t. push_back (state_value (rt_state t)) (rt_task_id t)) snaps []\<rparr>"

definition build_index_view :: "task_registry \<Rightarrow> state_index_view" where
  "build_index_view r = index_view_of (snapshot_all_tasks r)"

definition is_active_state :: "task_state \<Rightarrow> bool" where
  "is_active_state s \<longleftrightarrow> s \<in> {CREATED, RUNNING, WAITING}"

section \<open>The lineage tree projection\<close>

record tree_view =
  tv_root_id :: task_id
  tv_size :: nat
  tv_max_depth :: nat
  tv_task_ids :: "task_id list"

text \<open>\<open>x or y\<close> on strings: the empty string is false.\<close>

definition or_else :: "string option \<Rightarrow> string \<Rightarrow> string" where
  "or_else x y = (case x of None \<Rightarrow> y | Some s \<Rightarrow> if s = '''' then y else s)"

definition snap_root :: "task_snapshot \<Rightarrow> task_id" where
  "snap_root t = or_else (rt_root_task_id t) (rt_task_id t)"

definition empty_tree :: "task_id \<Rightarrow> tree_view" where
  "empty_tree rid = \<lparr>tv_root_id = rid, tv_size = 0, tv_max_depth = 0, tv_task_ids = []\<rparr>"

definition add_to_tree :: "task_snapshot \<Rightarrow> (task_id, tree_view) dict \<Rightarrow> (task_id, tree_view) dict" where
  "add_to_tree t trees =
     (let rid = snap_root t;
          tree = dget_or (empty_tree rid) trees rid
      in dset rid (tree\<lparr>tv_size := tv_size tree + 1,
                         tv_max_depth := max (tv_max_depth tree) (rt_depth t),
                         tv_task_ids := tv_task_ids tree @ [rt_task_id t]\<rparr>) trees)"

definition snaps_by_id :: "task_snapshot list \<Rightarrow> (task_id, task_snapshot) dict" where
  "snaps_by_id snaps = fold (\<lambda>t. dset (rt_task_id t) t) snaps []"

definition tree_depth_key :: "(task_id, task_snapshot) dict \<Rightarrow> task_id \<Rightarrow> nat" where
  "tree_depth_key d t = (case dget d t of None \<Rightarrow> 0 | Some s \<Rightarrow> rt_depth s)"

definition tree_created_key :: "(task_id, task_snapshot) dict \<Rightarrow> task_id \<Rightarrow> real" where
  "tree_created_key d t = (case dget d t of None \<Rightarrow> 0 | Some s \<Rightarrow> rt_created_at s)"

text \<open>The stable sort by \<open>(depth, created_at, task_id)\<close>.\<close>

definition sort_tree :: "(task_id, task_snapshot) dict \<Rightarrow> tree_view \<Rightarrow> tree_view" where
  "sort_tree d tree =
     tree\<lparr>tv_task_ids :=
       sort_key (tree_depth_key d) (sort_key (tree_created_key d) (sort (tv_task_ids tree)))\<rparr>"

definition orphan_ids :: "task_snapshot list \<Rightarrow> task_id list" where
  "orphan_ids snaps =
     map rt_task_id (filter (\<lambda>t. case rt_parent_task_id t of
         None \<Rightarrow> False | Some p \<Rightarrow> p \<notin> set (dkeys (snaps_by_id snaps))) snaps)"

definition lineage_tree_projection ::
  "task_snapshot list \<Rightarrow> (task_id, tree_view) dict \<times> task_id list" where
  "lineage_tree_projection snaps =
     (map (\<lambda>(rid, tree). (rid, sort_tree (snaps_by_id snaps) tree)) (fold add_to_tree snaps []),
      sorted_list_of_set (set (orphan_ids snaps)))"

section \<open>The coroutine groups projection\<close>

record coroutine_group =
  cg_count :: nat
  cg_active :: nat
  cg_completed :: nat
  cg_cancelled :: nat
  cg_failed :: nat
  cg_task_ids :: "task_id list"
  cg_duration_total :: real
  cg_duration_count :: nat

definition empty_group :: coroutine_group where
  "empty_group = \<lparr>cg_count = 0, cg_active = 0, cg_completed = 0, cg_cancelled = 0, cg_failed = 0,
     cg_task_ids = [], cg_duration_total = 0, cg_duration_count = 0\<rparr>"

definition group_key :: "task_snapshot \<Rightarrow> string" where
  "group_key t = or_else (rt_coroutine_name t) ''<anonymous>''"

definition count_task :: "task_snapshot \<Rightarrow> coroutine_group \<Rightarrow> coroutine_group" where
  "count_task t g0 =
     (let g = g0\<lparr>cg_count := cg_count g0 + 1, cg_task_ids := cg_task_ids g0 @ [rt_task_id t]\<rparr> in
      case rt_state t of
        COMPLETED \<Rightarrow>
          (let g1 = g\<lparr>cg_completed := cg_completed g + 1\<rparr> in
           case rt_duration_seconds t of
             None \<Rightarrow> g1
           | Some d \<Rightarrow> g1\<lparr>cg_duration_total := cg_duration_total g1 + d,
                           cg_duration_count := cg_duration_count g1 + 1\<rparr>)
      | CANCELLED \<Rightarrow> g\<lparr>cg_cancelled := cg_cancelled g + 1\<rparr>
      | FAILED \<Rightarrow> g\<lparr>cg_failed := cg_failed g + 1\<rparr>
      | _ \<Rightarrow> g\<lparr>cg_active := cg_active g + 1\<rparr>)"

definition add_to_group :: "task_snapshot \<Rightarrow> (string, coroutine_group) dict \<Rightarrow> (string, coroutine_group) dict" where
  "add_to_group t groups = dset (group_key t) (count_task t (dget_or empty_group groups (group_key t))) groups"

record group_view =
  gv_count :: nat
  gv_active :: nat
  gv_completed :: nat
  gv_cancelled :: nat
  gv_failed :: nat
  gv_task_ids :: "task_id list"
  gv_average :: "real option"

definition finish_group :: "coroutine_group \<Rightarrow> group_view" where
  "finish_group g =
     \<lparr>gv_count = cg_count g, gv_active = cg_active g, gv_completed = cg_completed g,
      gv_cancelled = cg_cancelled g, gv_failed = cg_failed g, gv_task_ids = cg_task_ids g,
      gv_average = (if cg_duration_count g = 0 then None
                    else Some (cg_duration_total g / real (cg_duration_count g)))\<rparr>"

definition coroutine_groups_projection :: "task_snapshot list \<Rightarrow> (string, group_view) dict" where
  "coroutine_groups_projection snaps =
     map (\<lambda>(name, g). (name, finish_group g)) (fold add_to_group snaps [])"

section \<open>Cancellations by origin\<close>

definition listed_origins :: "string option list" where
  "listed_origins = [Some ''explicit'', Some ''shutdown'', Some ''timeout'', Some ''parent'', None]"

definition origin_key :: "string option \<Rightarrow> string" where
  "origin_key origin = (case origin of None \<Rightarrow> ''unknown'' | Some s \<Rightarrow> s)"

definition cancellations_by_origin_projection ::
  "(task_id set \<Rightarrow> task_id list) \<Rightarrow> task_registry \<Rightarrow> (string, task_id list) dict" where
  "cancellations_by_origin_projection order r =
     fold (\<lambda>origin out.
         let tasks = list_cancellations_by_origin order origin r
         in if tasks = [] then out else dset (origin_key origin) (sort (map rt_task_id tasks)) out)
       listed_origins []"

section \<open>Queries\<close>

definition query_get_tasks :: "task_registry \<Rightarrow> task_id list \<Rightarrow> task_snapshot list" where
  "query_get_tasks r ids = List.map_filter (snapshot_task r) ids"

definition query_get_children :: "task_registry \<Rightarrow> task_id \<Rightarrow> task_snapshot list" where
  "query_get_children r t = map snapshot_from_task (get_children r t)"

definition query_get_descendants ::
  "(task_id set \<Rightarrow> task_id list) \<Rightarrow> task_registry \<Rightarrow> task_id \<Rightarrow> task_snapshot list" where
  "query_get_descendants order r t = map snapshot_from_task (get_descendants order r t)"

definition query_get_roots :: "task_registry \<Rightarrow> task_snapshot list" where
  "query_get_roots r = map snapshot_from_task (get_root_tasks r)"

section \<open>The runtime snapshot\<close>

record lineage_summary =
  ls_tracked_tasks :: nat
  ls_root_tasks :: nat
  ls_max_depth :: nat
  ls_orphan_links :: nat
  ls_cyclic_rejections :: nat
  ls_roots :: "task_id list"

record projections_view =
  pv_lineage_tree :: "(task_id, tree_view) dict \<times> task_id list"
  pv_coroutine_groups :: "(string, group_view) dict"
  pv_cancellations :: "(string, task_id list) dict"

record runtime_snapshot =
  rs_generated_at :: real
  rs_generated_at_monotonic_ns :: int
  rs_last_sequence :: int
  rs_last_event_id :: "string option"
  rs_runtime_id :: string
  rs_tasks :: "task_snapshot list"
  rs_task_ids_by_state :: "(string, task_id list) dict"
  rs_metrics :: metrics_snapshot
  rs_lineage :: lineage_summary
  rs_projections :: "projections_view option"
  rs_transitions :: "(task_id, (string \<times> json) list list) dict"

definition lineage_summary_of :: "tracker \<Rightarrow> lineage_summary" where
  "lineage_summary_of tr =
     (let lm = lineage_metrics_snapshot tr in
      \<lparr>ls_tracked_tasks = lm_tracked_tasks lm, ls_root_tasks = lm_root_tasks lm,
       ls_max_depth = lm_max_depth lm, ls_orphan_links = lm_orphan_links lm,
       ls_cyclic_rejections = lm_cyclic_rejections lm, ls_roots = lineage_list_roots tr\<rparr>)"

definition build_runtime_snapshot ::
  "(task_id set \<Rightarrow> task_id list) \<Rightarrow> real \<Rightarrow> int \<Rightarrow> string \<Rightarrow> task_registry \<Rightarrow> int \<Rightarrow> string option
     \<Rightarrow> bool \<Rightarrow> history \<Rightarrow> bool \<Rightarrow> runtime_snapshot" where
  "build_runtime_snapshot order now now_ns runtime_id r last_seq last_id include_projections h
     include_transitions =
     (let tasks = snapshot_all_tasks r in
      \<lparr>rs_generated_at = now, rs_generated_at_monotonic_ns = now_ns, rs_last_sequence = last_seq,
       rs_last_event_id = last_id, rs_runtime_id = runtime_id, rs_tasks = tasks,
       rs_task_ids_by_state = iv_by_state (build_index_view r),
       rs_metrics = registry_metrics_snapshot r,
       rs_lineage = lineage_summary_of (reg_lineage r),
       rs_projections =
         (if include_projections
          then Some \<lparr>pv_lineage_tree = lineage_tree_projection tasks,
                     pv_coroutine_groups = coroutine_groups_projection tasks,
                     pv_cancellations = cancellations_by_origin_projection order r\<rparr>
          else None),
       rs_transitions =
         (if include_transitions
          then filter (\<lambda>(t, records). t \<in> set (map rt_task_id tasks)) (history_export h)
          else [])\<rparr>)"

definition store_snapshot ::
  "(task_id set \<Rightarrow> task_id list) \<Rightarrow> real \<Rightarrow> int \<Rightarrow> string \<Rightarrow> bool \<Rightarrow> bool \<Rightarrow> store
     \<Rightarrow> store \<times> runtime_snapshot" where
  "store_snapshot order now now_ns runtime_id include_projections include_transitions st =
     (count_metric sm_record_snapshot st,
      build_runtime_snapshot order now now_ns runtime_id (ss_registry st)
        (last_sequence (ss_policy st)) (last_event_id (ss_metrics st)) include_projections
        (ss_history st) include_transitions)"

section \<open>Views as partitions\<close>

text \<open>
  The projections accumulate tasks into a dictionary keyed by a function of the task. What they
  keep of it: the entry of a key is the accumulation of exactly the tasks with that key.
\<close>

lemma dget_fold_accumulate:
  "dget (fold (\<lambda>x d. dset (key x) (add x (dget_or (init (key x)) d (key x))) d) xs d) k =
     (if filter (\<lambda>x. key x = k) xs = [] then dget d k
      else Some (fold add (filter (\<lambda>x. key x = k) xs) (dget_or (init k) d k)))"
proof (induction xs arbitrary: d)
  case Nil
  then show ?case by simp
next
  case (Cons x xs)
  then show ?case by (auto simp: dict_simps)
qed

lemma dkeys_fold_accumulate:
  "set (dkeys (fold (\<lambda>x d. dset (key x) (f x d) d) xs d)) = set (dkeys d) \<union> key ` set xs"
  by (induction xs arbitrary: d) (auto simp del: set_map)

lemma distinct_fold_accumulate:
  "distinct (dkeys d) \<Longrightarrow> distinct (dkeys (fold (\<lambda>x d. dset (key x) (f x d) d) xs d))"
  by (induction xs arbitrary: d) (simp_all del: distinct_map)

lemma dget_map_values: "dget (map (\<lambda>(k, v). (k, f v)) d) k = map_option f (dget d k)"
  by (induction d) auto

lemma dget_index_by_state:
  "dget (iv_by_state (index_view_of snaps)) (state_value s) =
     (if ids_in_state s snaps = [] then None else Some (ids_in_state s snaps))"
proof -
  have "fold (\<lambda>t ids. ids @ [rt_task_id t]) ts acc = acc @ map rt_task_id ts"
    for ts :: "task_snapshot list" and acc
    by (induction ts arbitrary: acc) auto
  then show ?thesis
    using dget_fold_accumulate[of "\<lambda>t. state_value (rt_state t)" "\<lambda>t ids. ids @ [rt_task_id t]"
        "\<lambda>_. []" snaps "[]" "state_value s"]
    by (simp add: index_view_of_def push_back_def[abs_def] ids_in_state_def)
qed

definition tally :: "task_snapshot list \<Rightarrow> coroutine_group \<Rightarrow> bool" where
  "tally ts g \<longleftrightarrow>
     cg_count g = length ts \<and> cg_task_ids g = map rt_task_id ts \<and>
     cg_active g = length (filter (\<lambda>t. \<not> is_terminal (rt_state t)) ts) \<and>
     cg_completed g = length (filter (\<lambda>t. rt_state t = COMPLETED) ts) \<and>
     cg_cancelled g = length (filter (\<lambda>t. rt_state t = CANCELLED) ts) \<and>
     cg_failed g = length (filter (\<lambda>t. rt_state t = FAILED) ts) \<and>
     cg_duration_count g
       = length (filter (\<lambda>t. rt_state t = COMPLETED \<and> rt_duration_seconds t \<noteq> None) ts)"

lemma tally_step: "tally ts g \<Longrightarrow> tally (ts @ [t]) (count_task t g)"
  by (cases "rt_state t"; cases "rt_duration_seconds t") (auto simp: tally_def count_task_def Let_def)

lemma tally_fold: "tally ts g \<Longrightarrow> tally (ts @ us) (fold count_task us g)"
proof (induction us arbitrary: ts g)
  case Nil
  then show ?case by simp
next
  case (Cons u us)
  have "tally ((ts @ [u]) @ us) (fold count_task us (count_task u g))"
    by (rule Cons.IH[OF tally_step[OF Cons.prems]])
  then show ?case by simp
qed

lemma tally_empty: "tally [] empty_group"
  by (simp add: tally_def empty_group_def)

definition grown :: "task_snapshot list \<Rightarrow> task_id \<Rightarrow> tree_view \<Rightarrow> bool" where
  "grown ts rid tree \<longleftrightarrow>
     tv_root_id tree = rid \<and> tv_size tree = length ts \<and> tv_task_ids tree = map rt_task_id ts \<and>
     tv_max_depth tree = fold max (map rt_depth ts) 0"

definition grow :: "task_snapshot \<Rightarrow> tree_view \<Rightarrow> tree_view" where
  "grow t tree = tree\<lparr>tv_size := tv_size tree + 1, tv_max_depth := max (tv_max_depth tree) (rt_depth t),
     tv_task_ids := tv_task_ids tree @ [rt_task_id t]\<rparr>"

lemma grown_fold: "grown ts rid tree \<Longrightarrow> grown (ts @ us) rid (fold grow us tree)"
proof (induction us arbitrary: ts tree)
  case Nil
  then show ?case by simp
next
  case (Cons u us)
  have "grown (ts @ [u]) rid (grow u tree)"
    using Cons.prems by (simp add: grown_def grow_def max.commute)
  from Cons.IH[OF this] show ?case by simp
qed

section \<open>Properties\<close>

text \<open>The coroutine groups partition the tasks: a group exists exactly for the names that occur,
  it lists the tasks of that name in order, its count is their number, and its active, completed,
  cancelled and failed counts are exact and add up to it.\<close>

theorem coroutine_groups_exact:
  assumes "ts = filter (\<lambda>t. group_key t = name) snaps"
  shows "(dget (coroutine_groups_projection snaps) name = None \<longleftrightarrow> ts = []) \<and>
    (\<forall>g. dget (coroutine_groups_projection snaps) name = Some g \<longrightarrow>
       gv_count g = length ts \<and> gv_task_ids g = map rt_task_id ts \<and>
       gv_active g = length (filter (\<lambda>t. \<not> is_terminal (rt_state t)) ts) \<and>
       gv_completed g = length (filter (\<lambda>t. rt_state t = COMPLETED) ts) \<and>
       gv_cancelled g = length (filter (\<lambda>t. rt_state t = CANCELLED) ts) \<and>
       gv_failed g = length (filter (\<lambda>t. rt_state t = FAILED) ts) \<and>
       gv_count g = gv_active g + gv_completed g + gv_cancelled g + gv_failed g)"
proof -
  have get: "dget (coroutine_groups_projection snaps) name =
      (if ts = [] then None else Some (finish_group (fold count_task ts empty_group)))"
    using dget_fold_accumulate[of group_key count_task "\<lambda>_. empty_group" snaps "[]" name]
    by (simp add: coroutine_groups_projection_def dget_map_values add_to_group_def[abs_def] assms)
  have t: "tally ts (fold count_task ts empty_group)"
    using tally_fold[OF tally_empty, of ts] by simp
  have sum: "length us = length (filter (\<lambda>t. \<not> is_terminal (rt_state t)) us)
      + length (filter (\<lambda>t. rt_state t = COMPLETED) us)
      + length (filter (\<lambda>t. rt_state t = CANCELLED) us) + length (filter (\<lambda>t. rt_state t = FAILED) us)"
    for us :: "task_snapshot list"
  proof (induction us)
    case (Cons u us)
    then show ?case by (cases "rt_state u") simp_all
  qed simp
  show ?thesis
    unfolding get using t sum[of ts] by (auto simp: tally_def finish_group_def)
qed

theorem coroutine_groups_exact_witness:
  "dget (coroutine_groups_projection [create_task 1 ''a'' default_metadata CREATED]) ''main'' = None"
  using coroutine_groups_exact[of "[]" "''main''" "[create_task 1 ''a'' default_metadata CREATED]"]
  by (simp add: group_key_def create_task_def or_else_def default_metadata_def)

text \<open>The lineage trees partition the tasks by root: a tree exists exactly for the roots that
  occur, its size is the number of its tasks, its maximal depth the greatest of their depths, and
  its task list is a permutation of their ids sorted by depth.\<close>

theorem lineage_trees_exact:
  assumes "ts = filter (\<lambda>t. snap_root t = rid) snaps"
  shows "(dget (fst (lineage_tree_projection snaps)) rid = None \<longleftrightarrow> ts = []) \<and>
    (\<forall>tree. dget (fst (lineage_tree_projection snaps)) rid = Some tree \<longrightarrow>
       tv_root_id tree = rid \<and> tv_size tree = length ts \<and>
       tv_max_depth tree = fold max (map rt_depth ts) 0 \<and>
       mset (tv_task_ids tree) = mset (map rt_task_id ts) \<and>
       sorted (map (tree_depth_key (snaps_by_id snaps)) (tv_task_ids tree)))"
proof -
  have add: "add_to_tree = (\<lambda>t d. dset (snap_root t) (grow t (dget_or (empty_tree (snap_root t)) d (snap_root t))) d)"
    by (rule ext)+ (simp add: add_to_tree_def grow_def Let_def)
  have get: "dget (fst (lineage_tree_projection snaps)) rid =
      (if ts = [] then None
       else Some (sort_tree (snaps_by_id snaps) (fold grow ts (empty_tree rid))))"
    using dget_fold_accumulate[of snap_root grow empty_tree snaps "[]" rid]
    by (simp add: lineage_tree_projection_def dget_map_values add assms)
  have "grown ts rid (fold grow ts (empty_tree rid))"
    using grown_fold[of "[]" rid "empty_tree rid" ts] by (simp add: grown_def empty_tree_def)
  then show ?thesis unfolding get by (auto simp: grown_def sort_tree_def)
qed

theorem lineage_trees_exact_witness:
  "dget (fst (lineage_tree_projection [create_task 1 ''a'' default_metadata CREATED])) ''b'' = None"
  using lineage_trees_exact[of "[]" "''b''" "[create_task 1 ''a'' default_metadata CREATED]"]
  by (simp add: snap_root_def create_task_def or_else_def)

text \<open>The state buckets of the index view list exactly the tasks of each state, in snapshot
  order, but only for states that occur: an empty state has no entry at all, and the \<open>active\<close> list
  leaves out the waiting tasks that \<open>is_active_state\<close> calls active (both against the docstring).\<close>

theorem index_view_exact:
  "dget (iv_by_state (build_index_view r)) (state_value s) =
     (let ids = map rt_task_id (filter (\<lambda>t. rt_state t = s) (snapshot_all_tasks r))
      in if ids = [] then None else Some ids) \<and>
   is_active_state WAITING \<and>
   set (iv_active (build_index_view r))
     = {t. \<exists>task\<in>set (snapshot_all_tasks r). rt_task_id task = t \<and>
           is_active_state (rt_state task) \<and> rt_state task \<noteq> WAITING}"
proof -
  have "set (iv_active (index_view_of ts)) = {t. \<exists>task\<in>set ts. rt_task_id task = t \<and>
           is_active_state (rt_state task) \<and> rt_state task \<noteq> WAITING}" for ts
    by (auto simp: index_view_of_def ids_in_state_def is_active_state_def)
  then show ?thesis
    by (simp add: build_index_view_def dget_index_by_state ids_in_state_def Let_def is_active_state_def)
qed

text \<open>The cancellations projection does not mirror the metrics counter, as its docstring says: a
  cancelled task whose origin is none of the four reserved ones (and not missing) appears in no
  list of the projection, although the counter has an entry for its origin.\<close>

theorem projection_misses_other_origins:
  assumes "Some origin \<notin> set listed_origins"
    and "dget (cancellations_by_origin_projection order
           (registry_run order' ops (new_registry (new_tracker d)))) key = Some ids"
    and "registry_get (registry_run order' ops (new_registry (new_tracker d))) t = Some task"
    and "rt_cancellation_origin task = Some origin"
  shows "t \<notin> set ids"
proof -
  define r where "r = registry_run order' ops (new_registry (new_tracker d))"
  have iok: "index_ok (reg_index r)"
    using registry_ok_reachable[of order' ops d] by (simp add: r_def registry_ok_def)
  have listed: "\<exists>o' u. o' \<in> set os \<and> registry_get r t = Some u \<and> rt_cancellation_origin u = o'"
    if "dget (fold (\<lambda>origin out.
         let tasks = list_cancellations_by_origin order origin r
         in if tasks = [] then out else dset (origin_key origin) (sort (map rt_task_id tasks)) out)
       os out0) key = Some ids" "t \<in> set ids"
      "\<And>ids'. dget out0 key = Some ids' \<Longrightarrow> t \<notin> set ids'" for os out0
    using that
  proof (induction os arbitrary: out0)
    case Nil
    then show ?case by simp
  next
    case (Cons o' os)
    define ts where "ts = list_cancellations_by_origin order o' r"
    define out1 where "out1 = (if ts = [] then out0 else dset (origin_key o') (sort (map rt_task_id ts)) out0)"
    show ?case
    proof (cases "t \<in> set (map rt_task_id ts)")
      case True
      then obtain u k where "u \<in> set ts" "rt_task_id u = t" by auto
      then have "rt_cancellation_origin u = o'" "\<exists>k. registry_get r k = Some u"
        by (auto simp: ts_def list_cancellations_by_origin_def tasks_of_def in_map_filter registry_get_def)
      then have "registry_get r t = Some u"
        using index_okD(2)[OF iok] \<open>rt_task_id u = t\<close> by (auto simp: registry_get_def)
      then show ?thesis using \<open>rt_cancellation_origin u = o'\<close> by auto
    next
      case False
      then have "\<And>ids'. dget out1 key = Some ids' \<Longrightarrow> t \<notin> set ids'"
        using Cons.prems(3) by (auto simp: out1_def dict_simps split: if_splits)
      then have "\<exists>o' u. o' \<in> set os \<and> registry_get r t = Some u \<and> rt_cancellation_origin u = o'"
        using Cons.IH[of out1] Cons.prems(1,2) unfolding out1_def ts_def fold_simps Let_def by blast
      then show ?thesis by auto
    qed
  qed
  show ?thesis
  proof
    assume "t \<in> set ids"
    then have "\<exists>o' u. o' \<in> set listed_origins \<and> registry_get r t = Some u \<and> rt_cancellation_origin u = o'"
      using assms(2) unfolding cancellations_by_origin_projection_def r_def[symmetric]
      by (intro listed[of listed_origins "[]"]) auto
    then show False using assms(1,3,4) by (auto simp: r_def)
  qed
qed

theorem projection_misses_other_origins_witness:
  "Some ''watchdog'' \<notin> set listed_origins \<and>
   (let r = registry_run sorted_list_of_set
        [RRegister 1 ''a'' None CREATED,
         RUpdate 2 2 ''a'' CANCELLED (no_args\<lparr>ua_cancellation_origin := Some ''watchdog''\<rparr>),
         RRegister 1 ''b'' None CREATED,
         RUpdate 2 2 ''b'' CANCELLED (no_args\<lparr>ua_cancellation_origin := Some ''timeout''\<rparr>)]
        (new_registry (new_tracker 8))
    in \<forall>ids. dget (cancellations_by_origin_projection sorted_list_of_set r) ''timeout'' = Some ids
         \<longrightarrow> ''a'' \<notin> set ids)"
proof -
  let ?ops = "[RRegister 1 ''a'' None CREATED,
         RUpdate 2 2 ''a'' CANCELLED (no_args\<lparr>ua_cancellation_origin := Some ''watchdog''\<rparr>),
         RRegister 1 ''b'' None CREATED,
         RUpdate 2 2 ''b'' CANCELLED (no_args\<lparr>ua_cancellation_origin := Some ''timeout''\<rparr>)]"
  let ?r = "registry_run sorted_list_of_set ?ops (new_registry (new_tracker 8))"
  have listed: "Some ''watchdog'' \<notin> set listed_origins" by (simp add: listed_origins_def)
  have "\<exists>task. registry_get ?r ''a'' = Some task \<and> rt_cancellation_origin task = Some ''watchdog''"
    by (simp add: registry_register_def new_registry_def new_tracker_def empty_index_def
        default_metadata_def lineage_register_def Let_def create_task_def finish_register_def
        apply_lineage_def lineage_locked_def index_add_def update_state_def can_transition_def
        set_task_def move_state_def registry_get_def dget_or_def updated_task_def overwrite_def
        no_args_def)
  then obtain task where task: "registry_get ?r ''a'' = Some task"
    "rt_cancellation_origin task = Some ''watchdog''" by blast
  show ?thesis
    unfolding Let_def using listed projection_misses_other_origins[OF listed _ task] by blast
qed

text \<open>The task list of a snapshot is deterministic: it is a permutation of the tracked tasks,
  ordered by creation time and then by task id, and every exported history belongs to one of them.\<close>

theorem snapshot_sorted_and_complete:
  "let snap = build_runtime_snapshot order now now_ns rid r n last_id True h True
   in mset (rs_tasks snap) = mset (dvals (reg_tasks r)) \<and>
      sorted_wrt (\<lambda>a b. rt_created_at a < rt_created_at b \<or>
         rt_created_at a = rt_created_at b \<and> rt_task_id a \<le> rt_task_id b) (rs_tasks snap) \<and>
      set (dkeys (rs_transitions snap)) \<subseteq> rt_task_id ` set (rs_tasks snap)"
proof -
  have id: "map snapshot_from_task ts = ts" for ts by (simp add: snapshot_from_task_def map_idI)
  have "mset (snapshot_all_tasks r) = mset (dvals (reg_tasks r))"
    by (simp add: snapshot_all_tasks_def snapshot_tasks_def id)
  moreover have "sorted_wrt (\<lambda>a b. rt_created_at a < rt_created_at b \<or>
         rt_created_at a = rt_created_at b \<and> rt_task_id a \<le> rt_task_id b) (snapshot_all_tasks r)"
    unfolding snapshot_all_tasks_def snapshot_tasks_def id by (rule sorted_sort_key_pair)
  ultimately show ?thesis
    by (auto simp: build_runtime_snapshot_def Let_def)
qed

end
