(* ===== verification/ReplayBuffer.thy ===== *)
theory ReplayBuffer
  imports StateStore
begin

text \<open>
  The replay buffer (\<open>asyncviz/runtime/replay\<close>): frames (\<open>frames.py\<close>), the bounded frame ring
  with its sequence index (\<open>retention.py\<close>), the checkpoint ring (\<open>checkpoints.py\<close>), batch and
  window construction (\<open>indexing.py\<close>, \<open>models.py\<close>), the buffer itself (\<open>buffer.py\<close>),
  reconstruction (\<open>reconstruction.py\<close>), and the handshake decision of the websocket gateway that
  queries it (\<open>dashboard/websocket/handshake.py\<close>).

  A frame's payload is \<open>to_dict(event)\<close>, the JSON dictionary the pydantic package dumps (\<open>dump\<close>).
  Reading one back is \<open>from_dict\<close> of \<open>events/models/serialization.py\<close>: the event type picks the
  class in \<open>EVENT_REGISTRY\<close>, and that class's \<open>model_validate\<close>, again the package's, is the
  parameter \<open>validate\<close>.
\<close>

section \<open>Frames\<close>

record 'p replay_frame =
  fr_sequence :: int
  fr_event_id :: string
  fr_event_type :: string
  fr_monotonic_ns :: int
  fr_wall_seconds :: real
  fr_runtime_id :: string
  fr_task_id :: "task_id option"
  fr_parent_task_id :: "task_id option"
  fr_payload :: 'p

text \<open>
  \<open>getattr(event, "task_id", None)\<close>: the task events have the attribute; for the others
  \<open>attrs\<close> gives the string values of the two attributes, if the class has them.
\<close>

definition frame_from_event ::
  "(runtime_event \<Rightarrow> 'p) \<Rightarrow> (runtime_event \<Rightarrow> task_id option \<times> task_id option) \<Rightarrow> runtime_event \<Rightarrow> int
     \<Rightarrow> 'p replay_frame" where
  "frame_from_event dump attrs e sequence =
     (let ids = (case body_fields (ev_body e) of
                   Some f \<Rightarrow> (Some (te_task_id f), te_parent_task_id f)
                 | None \<Rightarrow> attrs e)
      in \<lparr>fr_sequence = sequence, fr_event_id = ev_event_id e, fr_event_type = event_type e,
          fr_monotonic_ns = ev_monotonic_ns e, fr_wall_seconds = ev_timestamp e,
          fr_runtime_id = ev_runtime_id e, fr_task_id = fst ids, fr_parent_task_id = snd ids,
          fr_payload = dump e\<rparr>)"

section \<open>The frame ring\<close>

record 'p retention =
  fq_capacity :: nat
  fq_frames :: "'p replay_frame list"
  fq_index :: "(int, 'p replay_frame) dict"
  fq_evicted_count :: nat
  fq_oldest_evicted :: "int option"

definition new_retention :: "int \<Rightarrow> 'p retention option" where
  "new_retention capacity =
     (if capacity < 1 then None
      else Some \<lparr>fq_capacity = nat capacity, fq_frames = [], fq_index = [], fq_evicted_count = 0,
                 fq_oldest_evicted = None\<rparr>)"

definition retention_append ::
  "'p replay_frame \<Rightarrow> 'p retention \<Rightarrow> 'p retention \<times> 'p replay_frame option" where
  "retention_append frame q =
     (let full = length (fq_frames q) = fq_capacity q \<and> fq_frames q \<noteq> [];
          evicted = (if full then Some (hd (fq_frames q)) else None);
          q1 = (case evicted of
                  None \<Rightarrow> q
                | Some old \<Rightarrow>
                    q\<lparr>fq_evicted_count := fq_evicted_count q + 1,
                      fq_oldest_evicted := Some (fr_sequence old),
                      fq_index := dpop (fr_sequence old) (fq_index q)\<rparr>)
      in (q1\<lparr>fq_frames := ring_push (fq_capacity q) frame (fq_frames q),
             fq_index := dset (fr_sequence frame) frame (fq_index q1)\<rparr>, evicted))"

definition retention_clear :: "'p retention \<Rightarrow> 'p retention" where
  "retention_clear q =
     q\<lparr>fq_frames := [], fq_index := [], fq_evicted_count := 0, fq_oldest_evicted := None\<rparr>"

definition retention_get :: "'p retention \<Rightarrow> int \<Rightarrow> 'p replay_frame option" where
  "retention_get q sequence = dget (fq_index q) sequence"

definition oldest_sequence :: "'p retention \<Rightarrow> int option" where
  "oldest_sequence q = map_option fr_sequence (first_of (fq_frames q))"

definition newest_sequence :: "'p retention \<Rightarrow> int option" where
  "newest_sequence q = map_option fr_sequence (last_of (fq_frames q))"

definition retention_since :: "'p retention \<Rightarrow> int \<Rightarrow> 'p replay_frame list" where
  "retention_since q sequence = filter (\<lambda>f. sequence < fr_sequence f) (fq_frames q)"

definition retention_range :: "'p retention \<Rightarrow> int \<Rightarrow> int \<Rightarrow> 'p replay_frame list" where
  "retention_range q start stop =
     filter (\<lambda>f. start \<le> fr_sequence f \<and> fr_sequence f \<le> stop) (fq_frames q)"

definition covers :: "'p retention \<Rightarrow> int \<Rightarrow> bool" where
  "covers q sequence =
     (if sequence \<le> 0 then True
      else case (oldest_sequence q, newest_sequence q) of
        (Some oldest, Some newest) \<Rightarrow> oldest - 1 \<le> sequence \<and> sequence \<le> newest
      | _ \<Rightarrow> False)"

section \<open>Checkpoints\<close>

record checkpoint =
  cp_checkpoint_id :: string
  cp_sequence :: int
  cp_monotonic_ns :: int
  cp_wall_seconds :: real
  cp_runtime_id :: string
  cp_state :: "json option"
  cp_timeline :: "json option"
  cp_metrics :: "json option"
  cp_warnings :: "json option"
  cp_label :: "string option"

record checkpoint_store =
  cs_capacity :: nat
  cs_checkpoints :: "checkpoint list"
  cs_by_id :: "(string, checkpoint) dict"

definition new_checkpoint_store :: "int \<Rightarrow> checkpoint_store option" where
  "new_checkpoint_store capacity =
     (if capacity < 1 then None
      else Some \<lparr>cs_capacity = nat capacity, cs_checkpoints = [], cs_by_id = []\<rparr>)"

definition checkpoint_add :: "checkpoint \<Rightarrow> checkpoint_store \<Rightarrow> checkpoint_store" where
  "checkpoint_add c s =
     (let by_id' = (if length (cs_checkpoints s) = cs_capacity s \<and> cs_checkpoints s \<noteq> []
                    then dpop (cp_checkpoint_id (hd (cs_checkpoints s))) (cs_by_id s)
                    else cs_by_id s)
      in s\<lparr>cs_checkpoints := ring_push (cs_capacity s) c (cs_checkpoints s),
           cs_by_id := dset (cp_checkpoint_id c) c by_id'\<rparr>)"

definition checkpoint_clear :: "checkpoint_store \<Rightarrow> checkpoint_store" where
  "checkpoint_clear s = s\<lparr>cs_checkpoints := [], cs_by_id := []\<rparr>"

definition checkpoint_latest :: "checkpoint_store \<Rightarrow> checkpoint option" where
  "checkpoint_latest s = last_of (cs_checkpoints s)"

fun find_loop :: "int \<Rightarrow> checkpoint list \<Rightarrow> checkpoint option \<Rightarrow> checkpoint option" where
  "find_loop since [] candidate = candidate"
| "find_loop since (c # cs) candidate =
     (if cp_sequence c \<le> since then find_loop since cs (Some c) else candidate)"

definition find_for_replay :: "checkpoint_store \<Rightarrow> int \<Rightarrow> checkpoint option" where
  "find_for_replay s since = find_loop since (cs_checkpoints s) None"

definition checkpoint_get :: "checkpoint_store \<Rightarrow> string \<Rightarrow> checkpoint option" where
  "checkpoint_get s i = dget (cs_by_id s) i"

section \<open>Windows and batches\<close>

record 'p replay_window =
  rw_requested_since :: int
  rw_requested_end :: "int option"
  rw_hit :: bool
  rw_oldest_available :: "int option"
  rw_newest_available :: "int option"
  rw_frames :: "'p replay_frame list"

record 'p replay_batch =
  rbt_window :: "'p replay_window"
  rbt_checkpoint :: "checkpoint option"

definition build_window ::
  "int \<Rightarrow> int option \<Rightarrow> 'p replay_frame list \<Rightarrow> bool \<Rightarrow> int option \<Rightarrow> int option \<Rightarrow> 'p replay_window" where
  "build_window since stop frames hit oldest newest =
     \<lparr>rw_requested_since = since, rw_requested_end = stop, rw_hit = hit,
      rw_oldest_available = oldest, rw_newest_available = newest, rw_frames = frames\<rparr>"

definition build_batch :: "'p replay_window \<Rightarrow> checkpoint option \<Rightarrow> 'p replay_batch" where
  "build_batch window cp = \<lparr>rbt_window = window, rbt_checkpoint = cp\<rparr>"

section \<open>The buffer\<close>

record 'p replay_buffer =
  rb_retention :: "'p retention"
  rb_checkpoints :: checkpoint_store
  rb_next_id :: int
  rb_listeners :: "(int, 'p replay_frame \<Rightarrow> bool) dict"
  rb_last_sequence :: int
  rb_frames_appended :: nat
  rb_replay_requests :: nat
  rb_replay_hits :: nat
  rb_replay_misses :: nat
  rb_checkpoints_created :: nat
  rb_reconstructions :: nat
  rb_dispatch_count :: nat
  rb_dispatch_failures :: nat

definition new_buffer :: "int \<Rightarrow> int \<Rightarrow> 'p replay_buffer option" where
  "new_buffer capacity checkpoint_capacity =
     (case (new_retention capacity, new_checkpoint_store checkpoint_capacity) of
        (Some q, Some s) \<Rightarrow>
          Some \<lparr>rb_retention = q, rb_checkpoints = s, rb_next_id = 0, rb_listeners = [],
                rb_last_sequence = 0, rb_frames_appended = 0, rb_replay_requests = 0,
                rb_replay_hits = 0, rb_replay_misses = 0, rb_checkpoints_created = 0,
                rb_reconstructions = 0, rb_dispatch_count = 0, rb_dispatch_failures = 0\<rparr>
      | _ \<Rightarrow> None)"

definition buffer_notify :: "'p replay_frame \<Rightarrow> 'p replay_buffer \<Rightarrow> 'p replay_buffer" where
  "buffer_notify frame b =
     (if rb_listeners b = [] then b
      else b\<lparr>rb_dispatch_count := rb_dispatch_count b + 1,
             rb_dispatch_failures := rb_dispatch_failures b
               + length (filter (\<lambda>l. l frame) (dvals (rb_listeners b)))\<rparr>)"

definition append_frame :: "'p replay_frame \<Rightarrow> 'p replay_buffer \<Rightarrow> 'p replay_buffer" where
  "append_frame frame b =
     buffer_notify frame
       (b\<lparr>rb_retention := fst (retention_append frame (rb_retention b)),
          rb_last_sequence := max (fr_sequence frame) (rb_last_sequence b),
          rb_frames_appended := rb_frames_appended b + 1\<rparr>)"

definition append_event ::
  "(runtime_event \<Rightarrow> 'p) \<Rightarrow> (runtime_event \<Rightarrow> task_id option \<times> task_id option) \<Rightarrow> runtime_event \<Rightarrow> int
     \<Rightarrow> 'p replay_buffer \<Rightarrow> 'p replay_buffer" where
  "append_event dump attrs e sequence b = append_frame (frame_from_event dump attrs e sequence) b"

text \<open>The listener \<open>bind\<close> subscribes to the state store.\<close>

definition on_state_change ::
  "(runtime_event \<Rightarrow> 'p) \<Rightarrow> (runtime_event \<Rightarrow> task_id option \<times> task_id option) \<Rightarrow> state_change
     \<Rightarrow> 'p replay_buffer \<Rightarrow> 'p replay_buffer" where
  "on_state_change dump attrs change b =
     (case sc_sequence change of
        None \<Rightarrow> b
      | Some n \<Rightarrow> append_event dump attrs (sc_event change) n b)"

definition replay_since ::
  "int \<Rightarrow> bool \<Rightarrow> 'p replay_buffer \<Rightarrow> 'p replay_buffer \<times> 'p replay_batch" where
  "replay_since since with_checkpoint b =
     (let q = rb_retention b;
          b1 = b\<lparr>rb_replay_requests := rb_replay_requests b + 1\<rparr>;
          oldest = oldest_sequence q;
          newest = newest_sequence q
      in if \<not> covers q since
         then (b1\<lparr>rb_replay_misses := rb_replay_misses b1 + 1\<rparr>,
               build_batch (build_window since None [] False oldest newest)
                 (if with_checkpoint then checkpoint_latest (rb_checkpoints b) else None))
         else (b1\<lparr>rb_replay_hits := rb_replay_hits b1 + 1\<rparr>,
               build_batch (build_window since None (retention_since q since) True oldest newest)
                 (if with_checkpoint then find_for_replay (rb_checkpoints b) since else None)))"

definition replay_range :: "int \<Rightarrow> int \<Rightarrow> 'p replay_buffer \<Rightarrow> 'p replay_buffer \<times> 'p replay_batch" where
  "replay_range start stop b =
     (let q = rb_retention b;
          b1 = b\<lparr>rb_replay_requests := rb_replay_requests b + 1\<rparr>;
          oldest = oldest_sequence q;
          newest = newest_sequence q;
          outside = (case oldest of
                       None \<Rightarrow> True
                     | Some lo \<Rightarrow> stop < lo \<or> (case newest of None \<Rightarrow> 0 | Some hi \<Rightarrow> hi) < start)
      in if outside
         then (b1\<lparr>rb_replay_misses := rb_replay_misses b1 + 1\<rparr>,
               build_batch (build_window start (Some stop) [] False oldest newest) None)
         else (b1\<lparr>rb_replay_hits := rb_replay_hits b1 + 1\<rparr>,
               build_batch (build_window start (Some stop) (retention_range q start stop) True oldest newest)
                 None))"

text \<open>
  The four subsystem snapshots, the fresh id and the clock readings of \<open>create_checkpoint\<close> are
  arguments; the checkpoint is pinned to the sequence read before the snapshots are taken.
\<close>

definition create_checkpoint ::
  "string \<Rightarrow> int \<Rightarrow> real \<Rightarrow> string \<Rightarrow> string option \<Rightarrow> json option \<Rightarrow> json option \<Rightarrow> json option \<Rightarrow> json option
     \<Rightarrow> 'p replay_buffer \<Rightarrow> 'p replay_buffer \<times> checkpoint" where
  "create_checkpoint new_id now_ns wall runtime_id label state timeline metrics warnings b =
     (let c = \<lparr>cp_checkpoint_id = new_id, cp_sequence = rb_last_sequence b, cp_monotonic_ns = now_ns,
               cp_wall_seconds = wall, cp_runtime_id = runtime_id, cp_state = state,
               cp_timeline = timeline, cp_metrics = metrics, cp_warnings = warnings, cp_label = label\<rparr>
      in (b\<lparr>rb_checkpoints := checkpoint_add c (rb_checkpoints b),
            rb_checkpoints_created := rb_checkpoints_created b + 1\<rparr>, c))"

definition buffer_subscribe ::
  "('p replay_frame \<Rightarrow> bool) \<Rightarrow> 'p replay_buffer \<Rightarrow> 'p replay_buffer \<times> int" where
  "buffer_subscribe l b =
     (let n = rb_next_id b + 1 in (b\<lparr>rb_next_id := n, rb_listeners := dset n l (rb_listeners b)\<rparr>, n))"

definition buffer_unsubscribe :: "int \<Rightarrow> 'p replay_buffer \<Rightarrow> 'p replay_buffer \<times> bool" where
  "buffer_unsubscribe n b =
     (b\<lparr>rb_listeners := dpop n (rb_listeners b)\<rparr>, n \<in> set (dkeys (rb_listeners b)))"

definition buffer_subscriptions_clear :: "'p replay_buffer \<Rightarrow> 'p replay_buffer" where
  "buffer_subscriptions_clear b = b\<lparr>rb_listeners := []\<rparr>"

definition buffer_clear :: "'p replay_buffer \<Rightarrow> 'p replay_buffer" where
  "buffer_clear b =
     b\<lparr>rb_retention := retention_clear (rb_retention b),
       rb_checkpoints := checkpoint_clear (rb_checkpoints b), rb_last_sequence := 0,
       rb_frames_appended := 0, rb_replay_requests := 0, rb_replay_hits := 0, rb_replay_misses := 0,
       rb_checkpoints_created := 0, rb_reconstructions := 0\<rparr>"

definition buffer_rebuild ::
  "(runtime_event \<Rightarrow> 'p) \<Rightarrow> (runtime_event \<Rightarrow> task_id option \<times> task_id option) \<Rightarrow> (runtime_event \<times> int) list
     \<Rightarrow> 'p replay_buffer \<Rightarrow> 'p replay_buffer \<times> nat" where
  "buffer_rebuild dump attrs events b =
     (fold (\<lambda>(e, n). append_event dump attrs e n) events (buffer_clear b), length events)"

record buffer_metrics =
  bm_frames_appended :: nat
  bm_frames_evicted :: nat
  bm_frames_retained :: nat
  bm_replay_requests :: nat
  bm_replay_hits :: nat
  bm_replay_misses :: nat
  bm_checkpoints_created :: nat
  bm_reconstructions :: nat

definition buffer_self_metrics :: "'p replay_buffer \<Rightarrow> buffer_metrics" where
  "buffer_self_metrics b =
     \<lparr>bm_frames_appended = rb_frames_appended b, bm_frames_evicted = fq_evicted_count (rb_retention b),
      bm_frames_retained = length (fq_frames (rb_retention b)),
      bm_replay_requests = rb_replay_requests b, bm_replay_hits = rb_replay_hits b,
      bm_replay_misses = rb_replay_misses b, bm_checkpoints_created = rb_checkpoints_created b,
      bm_reconstructions = rb_reconstructions b\<rparr>"

section \<open>Reading events back\<close>

text \<open>
  A class of the event models is named by its Python name. The registry is the dictionary of
  \<open>serialization.py\<close> with the values of the \<open>EventType\<close> members as keys.
\<close>

definition EVENT_REGISTRY :: "(string, string) dict" where
  "EVENT_REGISTRY =
     [(''asyncio.task.created'', ''TaskCreatedEvent''),
      (''asyncio.task.started'', ''TaskStartedEvent''),
      (''asyncio.task.waiting'', ''TaskWaitingEvent''),
      (''asyncio.task.resumed'', ''TaskResumedEvent''),
      (''asyncio.task.completed'', ''TaskCompletedEvent''),
      (''asyncio.task.cancelled'', ''TaskCancelledEvent''),
      (''asyncio.task.failed'', ''TaskFailedEvent''),
      (''asyncio.loop.blocked'', ''LoopBlockedEvent''),
      (''asyncio.queue.created'', ''QueueCreatedEvent''),
      (''asyncio.queue.put'', ''QueuePutEvent''),
      (''asyncio.queue.get'', ''QueueGetEvent''),
      (''asyncio.queue.full_wait'', ''QueueFullWaitEvent''),
      (''asyncio.queue.empty_wait'', ''QueueEmptyWaitEvent''),
      (''asyncio.queue.task_done'', ''QueueTaskDoneEvent''),
      (''asyncio.queue.cancelled'', ''QueueCancelledEvent''),
      (''asyncio.queue.metrics.updated'', ''QueueMetricsUpdatedEvent''),
      (''asyncio.queue.pressure.changed'', ''QueuePressureChangedEvent''),
      (''asyncio.queue.contention.detected'', ''QueueContentionDetectedEvent''),
      (''asyncio.queue.saturation.detected'', ''QueueSaturationDetectedEvent''),
      (''asyncio.semaphore.created'', ''SemaphoreCreatedEvent''),
      (''asyncio.semaphore.acquire.started'', ''SemaphoreAcquireStartedEvent''),
      (''asyncio.semaphore.acquired'', ''SemaphoreAcquiredEvent''),
      (''asyncio.semaphore.released'', ''SemaphoreReleasedEvent''),
      (''asyncio.semaphore.contention.detected'', ''SemaphoreContentionDetectedEvent''),
      (''asyncio.semaphore.wait.cancelled'', ''SemaphoreWaitCancelledEvent''),
      (''asyncio.gather.created'', ''GatherCreatedEvent''),
      (''asyncio.gather.child.attached'', ''GatherChildAttachedEvent''),
      (''asyncio.gather.wait.started'', ''GatherWaitStartedEvent''),
      (''asyncio.gather.child.completed'', ''GatherChildCompletedEvent''),
      (''asyncio.gather.completed'', ''GatherCompletedEvent''),
      (''asyncio.gather.cancelled'', ''GatherCancelledEvent''),
      (''asyncio.gather.failed'', ''GatherFailedEvent''),
      (''asyncio.executor.registered'', ''ExecutorRegisteredEvent''),
      (''asyncio.executor.work.submitted'', ''ExecutorWorkSubmittedEvent''),
      (''asyncio.executor.work.started'', ''ExecutorWorkStartedEvent''),
      (''asyncio.executor.work.completed'', ''ExecutorWorkCompletedEvent''),
      (''asyncio.executor.work.failed'', ''ExecutorWorkFailedEvent''),
      (''asyncio.executor.work.cancelled'', ''ExecutorWorkCancelledEvent''),
      (''asyncio.executor.metrics.updated'', ''ExecutorMetricsUpdatedEvent''),
      (''asyncio.executor.saturation.changed'', ''ExecutorSaturationChangedEvent''),
      (''asyncio.executor.contention.detected'', ''ExecutorContentionDetectedEvent''),
      (''asyncio.executor.latency.spike.detected'', ''ExecutorLatencySpikeDetectedEvent''),
      (''runtime.started'', ''RuntimeStartedEvent''),
      (''runtime.stopped'', ''RuntimeStoppedEvent''),
      (''runtime.warning'', ''WarningEvent''),
      (''runtime.metric'', ''MetricEvent'')]"

definition registered_class :: "string \<Rightarrow> string" where
  "registered_class ty = (case dget EVENT_REGISTRY ty of None \<Rightarrow> ''GenericEvent'' | Some c \<Rightarrow> c)"

text \<open>None is the \<open>EventValidationError\<close> of every failing branch.\<close>

definition event_from_dict ::
  "(string \<Rightarrow> (string, json) dict \<Rightarrow> runtime_event option) \<Rightarrow> (string, json) dict \<Rightarrow> runtime_event option" where
  "event_from_dict validate data =
     (case dget data ''event_type'' of
        Some (JStr ty) \<Rightarrow> if ty = [] then None else validate (registered_class ty) data
      | _ \<Rightarrow> None)"

text \<open>
  The class an event is an instance of. The seven task classes are told by the model's body; the
  class of any other event, which the model keeps only by its type, is the argument.
\<close>

fun python_class :: "(string \<Rightarrow> string) \<Rightarrow> event_body \<Rightarrow> string" where
  "python_class other (TaskCreatedEvent f) = ''TaskCreatedEvent''"
| "python_class other (TaskStartedEvent f) = ''TaskStartedEvent''"
| "python_class other (TaskWaitingEvent f reason) = ''TaskWaitingEvent''"
| "python_class other (TaskResumedEvent f) = ''TaskResumedEvent''"
| "python_class other (TaskCompletedEvent f tm) = ''TaskCompletedEvent''"
| "python_class other (TaskCancelledEvent f tm origin) = ''TaskCancelledEvent''"
| "python_class other (TaskFailedEvent f tm exc_type exc_message) = ''TaskFailedEvent''"
| "python_class other (OtherEvent ty) = other ty"

text \<open>
  An event carries a type of its own class: every task event does, and any other event does unless
  it is a generic event with an empty type or with one that is registered for another class.
\<close>

definition well_typed :: "(string \<Rightarrow> string) \<Rightarrow> runtime_event \<Rightarrow> bool" where
  "well_typed other e \<longleftrightarrow>
     (case ev_body e of OtherEvent ty \<Rightarrow> ty \<noteq> [] \<and> other ty = registered_class ty | _ \<Rightarrow> True)"

lemma registry_task_classes [simp]:
  "registered_class ''asyncio.task.created'' = ''TaskCreatedEvent''"
  "registered_class ''asyncio.task.started'' = ''TaskStartedEvent''"
  "registered_class ''asyncio.task.waiting'' = ''TaskWaitingEvent''"
  "registered_class ''asyncio.task.resumed'' = ''TaskResumedEvent''"
  "registered_class ''asyncio.task.completed'' = ''TaskCompletedEvent''"
  "registered_class ''asyncio.task.cancelled'' = ''TaskCancelledEvent''"
  "registered_class ''asyncio.task.failed'' = ''TaskFailedEvent''"
  by (simp_all add: registered_class_def EVENT_REGISTRY_def)

lemma well_typed_class:
  "well_typed other e \<Longrightarrow> registered_class (event_type e) = python_class other (ev_body e)"
  "well_typed other e \<Longrightarrow> event_type e \<noteq> []"
  by (cases "ev_body e"; simp add: well_typed_def event_type_def)+

text \<open>
  What reading back relies on: the dump of an event has its type under \<open>event_type\<close>, and the class
  of the event validates its own dump to an equal event.
\<close>

definition reads_back ::
  "(string \<Rightarrow> string) \<Rightarrow> (runtime_event \<Rightarrow> (string, json) dict)
     \<Rightarrow> (string \<Rightarrow> (string, json) dict \<Rightarrow> runtime_event option) \<Rightarrow> runtime_event \<Rightarrow> bool" where
  "reads_back other dump validate e \<longleftrightarrow>
     dget (dump e) ''event_type'' = Some (JStr (event_type e)) \<and>
     validate (python_class other (ev_body e)) (dump e) = Some e"

lemma event_from_dict_dump:
  "well_typed other e \<Longrightarrow> reads_back other dump validate e \<Longrightarrow> event_from_dict validate (dump e) = Some e"
  using well_typed_class[of other e] by (simp add: event_from_dict_def reads_back_def)

section \<open>Reconstruction\<close>

text \<open>
  \<open>from_dict\<close> raises on a payload it cannot validate, and then nothing is replayed. The clock
  readings of the rebuild are given per frame.
\<close>

definition load_frames ::
  "(string \<Rightarrow> (string, json) dict \<Rightarrow> runtime_event option) \<Rightarrow> (real \<times> real) list
     \<Rightarrow> (string, json) dict replay_frame list \<Rightarrow> store_item list option" where
  "load_frames validate clock frames =
     (if \<exists>f\<in>set frames. event_from_dict validate (fr_payload f) = None then None
      else Some (map (\<lambda>(f, (now, later)).
             \<lparr>si_now = now, si_later = later, si_event = the (event_from_dict validate (fr_payload f)),
              si_sequence = Some (fr_sequence f)\<rparr>) (zip frames clock)))"

text \<open>
  A buffer that is itself bound to the store hears the changes the rebuild announces, and appends
  them again; \<open>bound\<close> tells whether it is. The frames are read before the rebuild starts.
\<close>

definition replay_into_state ::
  "bool \<Rightarrow> (runtime_event \<Rightarrow> (string, json) dict) \<Rightarrow> (runtime_event \<Rightarrow> task_id option \<times> task_id option)
     \<Rightarrow> (string \<Rightarrow> (string, json) dict \<Rightarrow> runtime_event option) \<Rightarrow> (real \<times> real) list \<Rightarrow> int
     \<Rightarrow> store \<Rightarrow> (string, json) dict replay_buffer
     \<Rightarrow> ((string, json) dict replay_buffer \<times> store \<times> nat) option" where
  "replay_into_state bound dump attrs validate clock since st b =
     (case load_frames validate clock (retention_since (rb_retention b) since) of
        None \<Rightarrow> None
      | Some its \<Rightarrow>
          (case rebuild its st of
             (st', n, cs) \<Rightarrow>
               (let b1 = (if bound then fold (on_state_change dump attrs) cs b else b)
                in Some (b1\<lparr>rb_reconstructions := rb_reconstructions b1 + 1\<rparr>, st', n))))"

section \<open>The websocket handshake\<close>

datatype handshake_mode = LIVE_ONLY | REPLAY | SNAPSHOT_FALLBACK

record 'p handshake_decision =
  hd_mode :: handshake_mode
  hd_requested_since :: int
  hd_last_sequence_sent :: int
  hd_replay :: "'p replay_batch option"
  hd_needs_snapshot :: bool

definition evaluate_handshake ::
  "'p replay_buffer option \<Rightarrow> int \<Rightarrow> int \<Rightarrow> 'p replay_buffer option \<times> 'p handshake_decision" where
  "evaluate_handshake buffer since current =
     (if since \<le> 0 then
        (buffer, \<lparr>hd_mode = LIVE_ONLY, hd_requested_since = since, hd_last_sequence_sent = current,
                  hd_replay = None, hd_needs_snapshot = True\<rparr>)
      else case buffer of
        None \<Rightarrow>
          (None, \<lparr>hd_mode = SNAPSHOT_FALLBACK, hd_requested_since = since,
                  hd_last_sequence_sent = current, hd_replay = None, hd_needs_snapshot = True\<rparr>)
      | Some b \<Rightarrow>
          (case replay_since since True b of
             (b', batch) \<Rightarrow>
               (Some b',
                if rw_hit (rbt_window batch)
                then \<lparr>hd_mode = REPLAY, hd_requested_since = since,
                      hd_last_sequence_sent =
                        (case last_of (rw_frames (rbt_window batch)) of
                           None \<Rightarrow> since | Some f \<Rightarrow> fr_sequence f),
                      hd_replay = Some batch, hd_needs_snapshot = False\<rparr>
                else \<lparr>hd_mode = SNAPSHOT_FALLBACK, hd_requested_since = since,
                      hd_last_sequence_sent = current, hd_replay = Some batch,
                      hd_needs_snapshot = True\<rparr>)))"

section \<open>Both rings are bounded logs\<close>

interpretation frame_log: ring_log fq_frames fq_capacity "\<lambda>f q. fst (retention_append f q)"
  by unfold_locales (simp_all add: retention_append_def Let_def split: option.split)

interpretation checkpoint_log: ring_log cs_checkpoints cs_capacity checkpoint_add
  by unfold_locales (simp_all add: checkpoint_add_def Let_def)

section \<open>What the frame ring holds\<close>

abbreviation before :: "'p replay_frame \<Rightarrow> 'p replay_frame \<Rightarrow> bool" where
  "before f g \<equiv> fr_sequence f < fr_sequence g"

text \<open>
  The ring as a function of the frames appended since the last clear: its frames are the last
  ones, and its index finds exactly them.
\<close>

definition retention_matches :: "'p retention \<Rightarrow> 'p replay_frame list \<Rightarrow> bool" where
  "retention_matches q fs \<longleftrightarrow>
     1 \<le> fq_capacity q \<and> fq_frames q = take_last (fq_capacity q) fs \<and>
     fq_evicted_count q = length fs - length (fq_frames q) \<and>
     (\<forall>n f. dget (fq_index q) n = Some f \<longleftrightarrow> f \<in> set (fq_frames q) \<and> fr_sequence f = n)"

lemma sorted_seq_inj:
  "sorted_wrt before fs \<Longrightarrow> f \<in> set fs \<Longrightarrow> g \<in> set fs \<Longrightarrow> fr_sequence f = fr_sequence g \<Longrightarrow> f = g"
  by (induction fs) auto

lemma retention_matches_step:
  assumes m: "retention_matches q fs" and inc: "sorted_wrt before (fs @ [f])"
  shows "retention_matches (fst (retention_append f q)) (fs @ [f])"
proof -
  let ?q = "fst (retention_append f q)"
  have cap: "1 \<le> fq_capacity q" and frames: "fq_frames q = take_last (fq_capacity q) fs"
    and ev: "fq_evicted_count q = length fs - length (fq_frames q)"
    and ix: "\<And>n g. dget (fq_index q) n = Some g \<longleftrightarrow> g \<in> set (fq_frames q) \<and> fr_sequence g = n"
    using m unfolding retention_matches_def by blast+
  have fits: "frame_log.fits q" using cap frames by (simp add: frame_log.fits_def)
  have frames': "fq_frames ?q = take_last (fq_capacity q) (fs @ [f])"
    using frame_log.items_fold[OF fits, of "[f]"] frames by (simp add: take_last_idem_append)
  have cap': "fq_capacity ?q = fq_capacity q" by (rule frame_log.room_push)
  have sorted: "sorted_wrt before (fq_frames q)" and older: "\<And>g. g \<in> set (fq_frames q) \<Longrightarrow> before g f"
    using inc set_take_last[of "fq_capacity q" fs]
    by (auto simp: frames sorted_wrt_append sorted_wrt_take_last)
  have len: "length (fq_frames q) \<le> fq_capacity q" by (simp add: frames)
  have ix': "dget (fq_index ?q) n = Some g \<longleftrightarrow> g \<in> set (fq_frames ?q) \<and> fr_sequence g = n" for n g
  proof (cases "length (fq_frames q) = fq_capacity q")
    case False
    then have "fq_frames ?q = fq_frames q @ [f]" "fq_index ?q = dset (fr_sequence f) f (fq_index q)"
      using cap by (simp_all add: retention_append_def ring_push_def)
    then show ?thesis using ix[of n g] older[of g] by (auto simp: dict_simps)
  next
    case True
    then obtain h rest where h: "fq_frames q = h # rest" using cap by (cases "fq_frames q") auto
    then have q': "fq_frames ?q = rest @ [f]"
      "fq_index ?q = dset (fr_sequence f) f (dpop (fr_sequence h) (fq_index q))"
      using cap True by (simp_all add: retention_append_def ring_push_def)
    have "g \<in> set rest \<Longrightarrow> fr_sequence g \<noteq> fr_sequence h" using sorted h by auto
    moreover have "fr_sequence h \<noteq> fr_sequence f" using older[of h] h by auto
    ultimately show ?thesis using ix[of n g] older[of g] h unfolding q' by (auto simp: dict_simps)
  qed
  have "fq_evicted_count ?q = length (fs @ [f]) - length (fq_frames ?q)"
    using ev len cap unfolding frames' by (auto simp: retention_append_def frames)
  then show ?thesis using cap cap' frames' ix' by (simp add: retention_matches_def)
qed

lemma rb_retention_append [simp]:
  "rb_retention (append_frame f b) = fst (retention_append f (rb_retention b))"
  by (simp add: append_frame_def buffer_notify_def)

lemma append_frame_simps [simp]:
  "rb_checkpoints (append_frame f b) = rb_checkpoints b"
  "rb_last_sequence (append_frame f b) = max (fr_sequence f) (rb_last_sequence b)"
  by (simp_all add: append_frame_def buffer_notify_def)

lemma retention_matches_new:
  assumes "new_buffer capacity cps = Some b"
  shows "retention_matches (rb_retention b) []" "fq_capacity (rb_retention b) = nat capacity"
  using assms
  by (auto simp: new_buffer_def new_retention_def new_checkpoint_store_def retention_matches_def
      take_last_def split: if_splits)

lemma retention_matches_fold:
  assumes "retention_matches (rb_retention b) old" "sorted_wrt before (old @ fs)"
  shows "retention_matches (rb_retention (fold append_frame fs b)) (old @ fs)"
  using assms
proof (induction fs arbitrary: b old)
  case Nil
  then show ?case by simp
next
  case (Cons f fs)
  have "sorted_wrt before (old @ [f])" using Cons.prems(2) by (simp add: sorted_wrt_append)
  then have "retention_matches (rb_retention (append_frame f b)) (old @ [f])"
    using Cons.prems(1) retention_matches_step by simp
  from Cons.IH[OF this] Cons.prems(2) show ?case by simp
qed

lemma capacity_fold: "fq_capacity (rb_retention (fold append_frame fs b)) = fq_capacity (rb_retention b)"
  by (induction fs arbitrary: b) (simp_all add: frame_log.room_push)

lemma frames_after:
  assumes "new_buffer capacity cps = Some b0" "sorted_wrt before fs"
  shows "fq_frames (rb_retention (fold append_frame fs b0)) = take_last (nat capacity) fs"
  using retention_matches_fold[OF retention_matches_new(1)[OF assms(1)], of fs] assms(2)
    retention_matches_new(2)[OF assms(1)]
  by (simp add: retention_matches_def capacity_fold)

text \<open>A covered positive position has lost nothing.\<close>

lemma covered_is_complete:
  assumes m: "retention_matches q fs" and inc: "sorted_wrt before fs"
    and cov: "covers q since" "0 < since"
  shows "retention_since q since = filter (\<lambda>f. since < fr_sequence f) fs"
proof -
  obtain lost where fs: "fs = lost @ fq_frames q"
    using m take_last_append_split[of fs "fq_capacity q"] by (auto simp: retention_matches_def)
  obtain h rest where h: "fq_frames q = h # rest"
    using cov by (cases "fq_frames q") (auto simp: covers_def oldest_sequence_def)
  have "fr_sequence h - 1 \<le> since"
    using cov h by (auto simp: covers_def oldest_sequence_def newest_sequence_def split: option.splits)
  moreover have "fr_sequence g < fr_sequence h" if "g \<in> set lost" for g
    using inc that by (simp add: fs h sorted_wrt_append)
  ultimately have "\<not> since < fr_sequence g" if "g \<in> set lost" for g using that by fastforce
  then have "filter (\<lambda>f. since < fr_sequence f) lost = []" by (simp add: filter_empty_conv)
  then show ?thesis by (simp add: retention_since_def fs)
qed

section \<open>Checkpoints along the log\<close>

datatype 'p buffer_op =
    BAppend "'p replay_frame"
  | BCheckpoint string int real string "string option" "json option" "json option" "json option" "json option"
  | BSince int bool
  | BRange int int
  | BSubscribe "'p replay_frame \<Rightarrow> bool"
  | BUnsubscribe int
  | BClear

fun buffer_step :: "'p buffer_op \<Rightarrow> 'p replay_buffer \<Rightarrow> 'p replay_buffer" where
  "buffer_step (BAppend f) b = append_frame f b"
| "buffer_step (BCheckpoint i ns wall rid label st tl' mt ws) b
     = fst (create_checkpoint i ns wall rid label st tl' mt ws b)"
| "buffer_step (BSince n wc) b = fst (replay_since n wc b)"
| "buffer_step (BRange a z) b = fst (replay_range a z b)"
| "buffer_step (BSubscribe l) b = fst (buffer_subscribe l b)"
| "buffer_step (BUnsubscribe n) b = fst (buffer_unsubscribe n b)"
| "buffer_step BClear b = buffer_clear b"

definition checkpoints_ok :: "'p replay_buffer \<Rightarrow> bool" where
  "checkpoints_ok b \<longleftrightarrow>
     sorted_wrt (\<lambda>c d. cp_sequence c \<le> cp_sequence d) (cs_checkpoints (rb_checkpoints b)) \<and>
     (\<forall>c\<in>set (cs_checkpoints (rb_checkpoints b)). cp_sequence c \<le> rb_last_sequence b) \<and>
     checkpoint_log.fits (rb_checkpoints b)"

lemma set_ring_push: "set (ring_push cap x xs) \<subseteq> insert x (set xs)"
  by (cases xs) (auto simp: ring_push_def)

lemma checkpoints_ok_create:
  assumes "checkpoints_ok b"
  shows "checkpoints_ok (fst (create_checkpoint i ns wall rid label st tl' mt ws b))"
proof -
  define c where "c = snd (create_checkpoint i ns wall rid label st tl' mt ws b)"
  have seq: "cp_sequence c = rb_last_sequence b" by (simp add: c_def create_checkpoint_def Let_def)
  have cps: "rb_checkpoints (fst (create_checkpoint i ns wall rid label st tl' mt ws b))
      = checkpoint_add c (rb_checkpoints b)"
    "rb_last_sequence (fst (create_checkpoint i ns wall rid label st tl' mt ws b)) = rb_last_sequence b"
    by (simp_all add: c_def create_checkpoint_def Let_def)
  have "sorted_wrt (\<lambda>c d. cp_sequence c \<le> cp_sequence d) (cs_checkpoints (checkpoint_add c (rb_checkpoints b)))"
    using assms seq by (intro checkpoint_log.sorted_step) (auto simp: checkpoints_ok_def)
  moreover have "\<forall>d\<in>set (cs_checkpoints (checkpoint_add c (rb_checkpoints b))). cp_sequence d \<le> rb_last_sequence b"
    using assms seq set_ring_push[of "cs_capacity (rb_checkpoints b)" c "cs_checkpoints (rb_checkpoints b)"]
    by (auto simp: checkpoints_ok_def checkpoint_log.items_push)
  ultimately show ?thesis
    using assms unfolding checkpoints_ok_def cps by (simp add: checkpoint_log.fits_step)
qed

lemma checkpoints_ok_step: "checkpoints_ok b \<Longrightarrow> checkpoints_ok (buffer_step op b)"
proof (cases op)
  case (BAppend f)
  then show "checkpoints_ok b \<Longrightarrow> ?thesis"
    by (auto simp: checkpoints_ok_def append_frame_def buffer_notify_def)
next
  case BClear
  then show "checkpoints_ok b \<Longrightarrow> ?thesis"
    by (simp add: checkpoints_ok_def buffer_clear_def checkpoint_clear_def checkpoint_log.fits_def)
qed (auto simp: checkpoints_ok_create, auto simp: checkpoints_ok_def replay_since_def replay_range_def
    buffer_subscribe_def buffer_unsubscribe_def Let_def)

lemma checkpoints_ok_run: "checkpoints_ok b \<Longrightarrow> checkpoints_ok (fold buffer_step ops b)"
  by (induction ops arbitrary: b) (simp_all add: checkpoints_ok_step)

lemma checkpoints_ok_new: "new_buffer capacity cps = Some b \<Longrightarrow> checkpoints_ok b"
  by (auto simp: new_buffer_def new_retention_def new_checkpoint_store_def checkpoints_ok_def
      checkpoint_log.fits_def split: if_splits)

lemma find_loop_last:
  assumes "sorted_wrt (\<lambda>c d. cp_sequence c \<le> cp_sequence d) cs"
  shows "find_loop since cs candidate =
    (case filter (\<lambda>c. cp_sequence c \<le> since) cs of [] \<Rightarrow> candidate | ds \<Rightarrow> Some (last ds))"
  using assms
proof (induction cs arbitrary: candidate)
  case Nil
  then show ?case by simp
next
  case (Cons c cs)
  show ?case
  proof (cases "cp_sequence c \<le> since")
    case True
    then show ?thesis using Cons by (auto split: list.split)
  next
    case False
    then have "filter (\<lambda>c. cp_sequence c \<le> since) cs = []"
      using Cons.prems by (fastforce simp: filter_empty_conv)
    then show ?thesis using False by simp
  qed
qed

lemma new_buffer_exists: "1 \<le> capacity \<Longrightarrow> 1 \<le> cps \<Longrightarrow> \<exists>b. new_buffer capacity cps = Some b"
  by (simp add: new_buffer_def new_retention_def new_checkpoint_store_def)

definition sample_frame :: "int \<Rightarrow> runtime_event replay_frame" where
  "sample_frame n = frame_from_event id (\<lambda>_. (None, None)) (sample_event ''e'' n (OtherEvent ''x'')) n"

lemma sample_frame_sequence [simp]: "fr_sequence (sample_frame n) = n"
  by (simp add: sample_frame_def frame_from_event_def Let_def)

section \<open>Properties\<close>

text \<open>The frame ring and its index agree: after any frames with increasing sequences, the ring
  holds exactly the last \<open>capacity\<close> of them, the lookup by sequence finds a frame exactly if it is
  retained, and the eviction counter is the number of frames no longer there.\<close>

theorem frame_index_exact:
  assumes "new_buffer capacity cps = Some b0" and "sorted_wrt before fs"
    and "q = rb_retention (fold append_frame fs b0)"
  shows "fq_frames q = take_last (nat capacity) fs \<and>
         (retention_get q n = Some f \<longleftrightarrow> f \<in> set (take_last (nat capacity) fs) \<and> fr_sequence f = n) \<and>
         fq_evicted_count q = length fs - nat capacity"
proof -
  have "retention_matches q fs"
    using retention_matches_fold[OF retention_matches_new(1)[OF assms(1)]] assms(2,3) by simp
  moreover have "fq_capacity q = nat capacity"
    using retention_matches_new(2)[OF assms(1)] assms(3) by (simp add: capacity_fold)
  ultimately show ?thesis by (auto simp: retention_matches_def retention_get_def)
qed

theorem frame_index_exact_witness:
  "\<exists>b0. new_buffer 2 4 = Some b0 \<and>
     fq_frames (rb_retention (fold append_frame [sample_frame 3, sample_frame 5, sample_frame 9] b0))
       = [sample_frame 5, sample_frame 9]"
proof -
  obtain b0 :: "runtime_event replay_buffer" where b0: "new_buffer 2 4 = Some b0"
    using new_buffer_exists[of 2 4] by auto
  show ?thesis
    using b0 frame_index_exact[OF b0 _ refl, of "[sample_frame 3, sample_frame 5, sample_frame 9]"]
    by (simp add: take_last_def)
qed

text \<open>A replay hit is complete. After any frames with increasing sequences, a positive
  \<open>since_sequence\<close> that hits gets every frame ever appended with a higher sequence, in order, evicted
  or not evicted; a miss gets no frames, and happens only when nothing is retained or the position is
  outside the retained window.\<close>

theorem replay_hit_is_complete:
  assumes "new_buffer capacity cps = Some b0" and "sorted_wrt before fs" and "0 < since"
    and "b = fold append_frame fs b0"
    and "window = rbt_window (snd (replay_since since wc b))"
  shows "(rw_hit window \<longrightarrow> rw_frames window = filter (\<lambda>f. since < fr_sequence f) fs) \<and>
         (\<not> rw_hit window \<longrightarrow> rw_frames window = [] \<and>
            (case (oldest_sequence (rb_retention b), newest_sequence (rb_retention b)) of
               (Some oldest, Some newest) \<Rightarrow> since < oldest - 1 \<or> newest < since
             | _ \<Rightarrow> fs = []))"
proof -
  let ?q = "rb_retention b"
  have m: "retention_matches ?q fs"
    using retention_matches_fold[OF retention_matches_new(1)[OF assms(1)]] assms(2,4) by simp
  have hit: "rw_hit window = covers ?q since"
    "rw_frames window = (if covers ?q since then retention_since ?q since else [])"
    by (simp_all add: assms(5) replay_since_def Let_def build_batch_def build_window_def)
  have empty: "fq_frames ?q = [] \<Longrightarrow> fs = []"
    using m unfolding retention_matches_def by (metis not_one_le_zero take_last_eq_Nil)
  show ?thesis
  proof (cases "covers ?q since")
    case True
    then show ?thesis using hit covered_is_complete[OF m assms(2) _ assms(3)] by simp
  next
    case False
    then show ?thesis
      using hit assms(3) empty
      by (cases "fq_frames ?q") (auto simp: covers_def oldest_sequence_def newest_sequence_def
          split: option.splits)
  qed
qed

theorem replay_hit_is_complete_witness:
  "\<exists>b0. new_buffer 2 4 = Some b0 \<and>
     (let b = fold append_frame [sample_frame 3, sample_frame 5, sample_frame 9] b0
      in rw_frames (rbt_window (snd (replay_since 4 False b))) = [sample_frame 5, sample_frame 9])"
proof -
  obtain b0 :: "runtime_event replay_buffer" where b0: "new_buffer 2 4 = Some b0"
    using new_buffer_exists[of 2 4] by auto
  define fs where "fs = [sample_frame 3, sample_frame 5, sample_frame 9]"
  define b where "b = fold append_frame fs b0"
  have sorted: "sorted_wrt before fs" by (simp add: fs_def)
  have "fq_frames (rb_retention b) = [sample_frame 5, sample_frame 9]"
    unfolding b_def using frames_after[OF b0 sorted] by (simp add: fs_def take_last_def)
  then have hit: "rw_hit (rbt_window (snd (replay_since 4 False b)))"
    by (simp add: replay_since_def Let_def build_batch_def build_window_def covers_def
        oldest_sequence_def newest_sequence_def)
  have "rw_frames (rbt_window (snd (replay_since 4 False b))) = filter (\<lambda>f. 4 < fr_sequence f) fs"
    using replay_hit_is_complete[OF b0 sorted _ b_def refl, of 4 False] hit by simp
  also have "\<dots> = [sample_frame 5, sample_frame 9]" by (simp add: fs_def)
  finally show ?thesis using b0 unfolding Let_def b_def fs_def by blast
qed

text \<open>Whatever the buffer went through (appends in any order, checkpoints, queries, clears),
  checkpoint selection for a replay returns the freshest checkpoint not newer than the requested
  position: none exactly if all are newer, otherwise one of maximal sequence among the rest, and
  the early \<open>break\<close> of the search skips none.\<close>

theorem checkpoint_selection_freshest:
  assumes "new_buffer capacity cps = Some b0"
    and "s = rb_checkpoints (fold buffer_step ops b0)"
  shows "case find_for_replay s since of
           None \<Rightarrow> \<forall>d\<in>set (cs_checkpoints s). since < cp_sequence d
         | Some c \<Rightarrow> c \<in> set (cs_checkpoints s) \<and> cp_sequence c \<le> since \<and>
             (\<forall>d\<in>set (cs_checkpoints s). cp_sequence d \<le> since \<longrightarrow> cp_sequence d \<le> cp_sequence c)"
proof -
  let ?cs = "cs_checkpoints s"
  let ?ds = "filter (\<lambda>c. cp_sequence c \<le> since) ?cs"
  have sorted: "sorted_wrt (\<lambda>c d. cp_sequence c \<le> cp_sequence d) ?cs"
    using checkpoints_ok_run[OF checkpoints_ok_new[OF assms(1)], of ops] assms(2)
    by (simp add: checkpoints_ok_def)
  then have sorted_ds: "sorted_wrt (\<lambda>c d. cp_sequence c \<le> cp_sequence d) ?ds"
    by (rule sorted_wrt_filter)
  have find: "find_for_replay s since = (case ?ds of [] \<Rightarrow> None | ds \<Rightarrow> Some (last ds))"
    using find_loop_last[OF sorted] by (simp add: find_for_replay_def)
  show ?thesis
  proof (cases "?ds = []")
    case True
    then show ?thesis using find by (auto simp: filter_empty_conv)
  next
    case False
    then have c: "find_for_replay s since = Some (last ?ds)" using find by (cases ?ds) auto
    have "cp_sequence d \<le> cp_sequence (last ?ds)" if "d \<in> set ?ds" for d
    proof -
      have "?ds = butlast ?ds @ [last ?ds]" using False by simp
      then have "sorted_wrt (\<lambda>c d. cp_sequence c \<le> cp_sequence d) (butlast ?ds @ [last ?ds])"
        "d \<in> set (butlast ?ds @ [last ?ds])" using sorted_ds that by simp_all
      then show ?thesis unfolding sorted_wrt_append by auto
    qed
    then show ?thesis using c last_in_set[OF False] by auto
  qed
qed

theorem checkpoint_selection_freshest_witness:
  "\<exists>b0. new_buffer 2 4 = Some b0 \<and>
     (let s = rb_checkpoints (fold buffer_step
            [BAppend (sample_frame 3), BCheckpoint ''c'' 1 1 ''rt'' None None None None None] b0)
      in case find_for_replay s 7 of
           None \<Rightarrow> \<forall>d\<in>set (cs_checkpoints s). 7 < cp_sequence d
         | Some c \<Rightarrow> c \<in> set (cs_checkpoints s))"
proof -
  obtain b0 :: "runtime_event replay_buffer" where b0: "new_buffer 2 4 = Some b0"
    using new_buffer_exists[of 2 4] by auto
  show ?thesis
    using b0 checkpoint_selection_freshest[OF b0 refl, of
        "[BAppend (sample_frame 3), BCheckpoint ''c'' 1 1 ''rt'' None None None None None]" 7]
    unfolding Let_def by (auto split: option.splits)
qed

text \<open>A batch with a checkpoint can lose events. On a hit the checkpoint offered is not newer than
  the requested position \<open>since\<close>, but the frames start after \<open>since\<close>: a retained frame between the
  two is in neither, so a client that applies the checkpoint first and then the frames, as the
  batch's docstring tells it to, misses that event.\<close>

theorem checkpoint_batch_has_a_gap:
  assumes "snd (replay_since since True b) = batch" and "rw_hit (rbt_window batch)"
    and "rbt_checkpoint batch = Some c"
    and "f \<in> set (fq_frames (rb_retention b))"
    and "cp_sequence c < fr_sequence f" and "fr_sequence f \<le> since"
  shows "f \<notin> set (rw_frames (rbt_window batch)) \<and>
         (\<forall>g\<in>set (rw_frames (rbt_window batch)). fr_sequence f < fr_sequence g)"
  using assms
  by (auto simp: replay_since_def Let_def build_batch_def build_window_def retention_since_def
      split: if_splits)

theorem checkpoint_batch_has_a_gap_witness:
  "\<exists>b0. new_buffer 8 4 = Some b0 \<and>
     (let b = fold buffer_step
            [BAppend (sample_frame 3), BCheckpoint ''c'' 1 1 ''rt'' None None None None None,
             BAppend (sample_frame 5), BAppend (sample_frame 9)] b0
      in map_option cp_sequence (rbt_checkpoint (snd (replay_since 5 True b))) = Some 3 \<and>
         sample_frame 5 \<notin> set (rw_frames (rbt_window (snd (replay_since 5 True b)))))"
proof -
  obtain b0 :: "runtime_event replay_buffer" where b0: "new_buffer 8 4 = Some b0"
    using new_buffer_exists[of 8 4] by auto
  let ?b = "fold buffer_step
            [BAppend (sample_frame 3), BCheckpoint ''c'' 1 1 ''rt'' None None None None None,
             BAppend (sample_frame 5), BAppend (sample_frame 9)] b0"
  have ret: "fq_frames (rb_retention ?b) = [sample_frame 3, sample_frame 5, sample_frame 9]"
    using frames_after[OF b0, of "[sample_frame 3, sample_frame 5, sample_frame 9]"]
    by (simp add: create_checkpoint_def Let_def take_last_def)
  have "cs_checkpoints (rb_checkpoints b0) = []" "cs_capacity (rb_checkpoints b0) = 4"
    "rb_last_sequence b0 = 0"
    using b0 by (auto simp: new_buffer_def new_retention_def new_checkpoint_store_def)
  then have "\<exists>c. cs_checkpoints (rb_checkpoints ?b) = [c] \<and> cp_sequence c = 3"
    by (simp add: create_checkpoint_def checkpoint_add_def ring_push_def Let_def)
  then obtain c where c: "cs_checkpoints (rb_checkpoints ?b) = [c]" "cp_sequence c = 3" by blast
  have cov: "covers (rb_retention ?b) 5"
    by (simp only: covers_def oldest_sequence_def newest_sequence_def ret) simp
  have batch: "rbt_checkpoint (snd (replay_since 5 True ?b)) = Some c"
    "rw_hit (rbt_window (snd (replay_since 5 True ?b)))"
    using cov c by (simp_all only: replay_since_def Let_def build_batch_def build_window_def
        find_for_replay_def if_True not_True_eq_False if_False snd_conv replay_batch.simps
        replay_window.simps) simp_all
  have "sample_frame 5 \<in> set (fq_frames (rb_retention ?b))" unfolding ret by simp
  from checkpoint_batch_has_a_gap[OF refl batch(2,1) this] c(2)
  have "sample_frame 5 \<notin> set (rw_frames (rbt_window (snd (replay_since 5 True ?b))))" by simp
  then show ?thesis using b0 batch(1) c(2) unfolding Let_def by blast
qed



end
