(* ===== verification/EventQueue.thy ===== *)
theory EventQueue
  imports Events
begin

text \<open>
  The internal event queue: the sequence generator (\<open>runtime/clock/sequence.py\<close>), the subscriber
  registry (\<open>runtime/events/subscriber.py\<close>) and \<open>runtime/queue/*\<close>: channel, retention ring,
  counters, overflow strategies, publishing, dispatching and the replay query.

  Producers on the loop's thread, producers on other threads, the callbacks these schedule, the
  dispatcher task and the lifecycle calls interleave, so the queue is a step relation: one step is
  one stretch of code that runs without an \<open>await\<close> (or one call from another thread). The
  dispatcher's item is in flight between the two steps of its loop body.

  A subscriber's callback is represented by whether it raises on an event.
\<close>

section \<open>Sequence numbers\<close>

record sequence_generator =
  sg_value :: int
  sg_max :: int

definition MAX_SEQUENCE :: int where
  "MAX_SEQUENCE = 2 ^ 63 - 1"

text \<open>The constructor raises \<open>ValueError\<close> for a negative start or a ceiling not above it.\<close>

definition new_sequence :: "int \<Rightarrow> int \<Rightarrow> sequence_generator option" where
  "new_sequence start max_value =
     (if start < 0 \<or> max_value \<le> start then None
      else Some \<lparr>sg_value = start, sg_max = max_value\<rparr>)"

text \<open>\<open>None\<close> is \<open>ClockSequenceOverflowError\<close>.\<close>

definition sequence_next :: "sequence_generator \<Rightarrow> (sequence_generator \<times> int) option" where
  "sequence_next g =
     (if sg_max g \<le> sg_value g then None
      else Some (g\<lparr>sg_value := sg_value g + 1\<rparr>, sg_value g + 1))"

section \<open>The subscriber registry\<close>

text \<open>
  \<open>sub_types\<close> is the frozen set of event types as the list Python iterates it; \<open>None\<close> is a wildcard.
\<close>

record subscription =
  sub_id :: int
  sub_callback :: "runtime_event \<Rightarrow> bool"
  sub_types :: "string list option"

record subscription_registry =
  sr_next_id :: int
  sr_by_id :: "(int, subscription) dict"
  sr_by_type :: "(string, int set) dict"
  sr_wildcards :: "int set"

definition new_subscription_registry :: subscription_registry where
  "new_subscription_registry =
     \<lparr>sr_next_id = 0, sr_by_id = [], sr_by_type = [], sr_wildcards = {}\<rparr>"

datatype queue_error =
    InvalidSubscriptionError | EventQueueOverflowError | EventQueueNotRunningError
  | ClockSequenceOverflowError

definition registry_add ::
  "(runtime_event \<Rightarrow> bool) \<Rightarrow> string list option \<Rightarrow> subscription_registry
     \<Rightarrow> subscription_registry \<times> (queue_error + subscription)" where
  "registry_add callback types r =
     (if (case types of None \<Rightarrow> False | Some ts \<Rightarrow> [] \<in> set ts)
      then (r, Inl InvalidSubscriptionError)
      else
        let n = sr_next_id r + 1;
            sub = \<lparr>sub_id = n, sub_callback = callback, sub_types = types\<rparr>;
            r1 = r\<lparr>sr_next_id := n, sr_by_id := dset n sub (sr_by_id r)\<rparr>
        in (case types of
              None \<Rightarrow> r1\<lparr>sr_wildcards := insert n (sr_wildcards r1)\<rparr>
            | Some ts \<Rightarrow> r1\<lparr>sr_by_type := fold (\<lambda>t. bucket_add t n) ts (sr_by_type r1)\<rparr>,
            Inr sub))"

definition registry_drop :: "int \<Rightarrow> subscription_registry \<Rightarrow> subscription_registry \<times> bool" where
  "registry_drop n r =
     (case dget (sr_by_id r) n of
        None \<Rightarrow> (r, False)
      | Some sub \<Rightarrow>
          let r1 = r\<lparr>sr_by_id := dpop n (sr_by_id r)\<rparr>
          in (case sub_types sub of
                None \<Rightarrow> r1\<lparr>sr_wildcards := sr_wildcards r1 - {n}\<rparr>
              | Some ts \<Rightarrow> r1\<lparr>sr_by_type := fold (\<lambda>t. bucket_discard t n) ts (sr_by_type r1)\<rparr>,
              True))"

text \<open>\<open>order\<close> is the order Python iterates the union of the two sets in.\<close>

definition registry_matching ::
  "(int set \<Rightarrow> int list) \<Rightarrow> string \<Rightarrow> subscription_registry \<Rightarrow> subscription list" where
  "registry_matching order ty r =
     List.map_filter (dget (sr_by_id r)) (order (sr_wildcards r \<union> bucket (sr_by_type r) ty))"

definition registry_empty :: "subscription_registry \<Rightarrow> subscription_registry" where
  "registry_empty r = r\<lparr>sr_by_id := [], sr_by_type := [], sr_wildcards := {}\<rparr>"

section \<open>Queued events, the channel and the retention ring\<close>

record queued_event =
  qe_sequence :: int
  qe_event :: runtime_event

text \<open>
  The channel wraps \<open>asyncio.Queue\<close>: a FIFO list with a bound and the counter of unfinished items
  that \<open>join\<close> waits on (a put increments it, \<open>task_done\<close> decrements it).
\<close>

record channel =
  ch_capacity :: nat
  ch_items :: "queued_event list"
  ch_unfinished :: int

definition new_channel :: "nat \<Rightarrow> channel" where
  "new_channel capacity = \<lparr>ch_capacity = capacity, ch_items = [], ch_unfinished = 0\<rparr>"

definition channel_offer :: "queued_event \<Rightarrow> channel \<Rightarrow> channel \<times> bool" where
  "channel_offer item ch =
     (if ch_capacity ch \<le> length (ch_items ch) then (ch, False)
      else (ch\<lparr>ch_items := ch_items ch @ [item], ch_unfinished := ch_unfinished ch + 1\<rparr>, True))"

definition channel_take_nowait :: "channel \<Rightarrow> channel \<times> queued_event option" where
  "channel_take_nowait ch =
     (case ch_items ch of
        [] \<Rightarrow> (ch, None)
      | item # rest \<Rightarrow> (ch\<lparr>ch_items := rest\<rparr>, Some item))"

definition channel_task_done :: "channel \<Rightarrow> channel" where
  "channel_task_done ch = ch\<lparr>ch_unfinished := ch_unfinished ch - 1\<rparr>"

definition channel_drained :: "channel \<Rightarrow> bool" where
  "channel_drained ch \<longleftrightarrow> ch_unfinished ch = 0"

record retention_ring =
  qr_capacity :: nat
  qr_items :: "queued_event list"
  qr_enabled :: bool
  qr_oldest_evicted :: "int option"

text \<open>\<open>RetentionConfigError\<close> for a negative capacity; zero switches retention off.\<close>

definition new_ring :: "int \<Rightarrow> retention_ring option" where
  "new_ring capacity =
     (if capacity < 0 then None
      else Some \<lparr>qr_capacity = nat capacity, qr_items = [], qr_enabled = (0 < capacity),
                 qr_oldest_evicted = None\<rparr>)"

definition ring_append :: "queued_event \<Rightarrow> retention_ring \<Rightarrow> retention_ring" where
  "ring_append item r =
     (if \<not> qr_enabled r then r
      else
        let r1 = (if length (qr_items r) = qr_capacity r \<and> qr_items r \<noteq> []
                  then r\<lparr>qr_oldest_evicted := Some (qe_sequence (hd (qr_items r)))\<rparr> else r)
        in r1\<lparr>qr_items := ring_push (qr_capacity r1) item (qr_items r1)\<rparr>)"

definition ring_clear :: "retention_ring \<Rightarrow> retention_ring" where
  "ring_clear r = r\<lparr>qr_items := [], qr_oldest_evicted := None\<rparr>"

definition ring_oldest :: "retention_ring \<Rightarrow> int option" where
  "ring_oldest r = map_option qe_sequence (first_of (qr_items r))"

definition ring_newest :: "retention_ring \<Rightarrow> int option" where
  "ring_newest r = map_option qe_sequence (last_of (qr_items r))"

definition ring_since :: "int \<Rightarrow> retention_ring \<Rightarrow> queued_event list" where
  "ring_since sequence r = filter (\<lambda>i. sequence < qe_sequence i) (qr_items r)"

definition ring_has_sequence :: "int \<Rightarrow> retention_ring \<Rightarrow> bool" where
  "ring_has_sequence sequence r =
     (if sequence \<le> 0 then True
      else case (ring_oldest r, ring_newest r) of
        (Some oldest, Some newest) \<Rightarrow> oldest \<le> sequence + 1 \<and> sequence + 1 \<le> newest + 1
      | _ \<Rightarrow> False)"

section \<open>Counters\<close>

record queue_metrics =
  qm_published :: nat
  qm_dispatched :: nat
  qm_dropped_overflow :: nat
  qm_dropped_oldest :: nat
  qm_dropped_newest :: nat
  qm_fail_fast :: nat
  qm_subscriber_failures :: nat
  qm_replay_requests :: nat
  qm_replay_hits :: nat
  qm_replay_misses :: nat
  qm_replay_emitted :: nat

definition new_queue_metrics :: queue_metrics where
  "new_queue_metrics =
     \<lparr>qm_published = 0, qm_dispatched = 0, qm_dropped_overflow = 0, qm_dropped_oldest = 0,
      qm_dropped_newest = 0, qm_fail_fast = 0, qm_subscriber_failures = 0, qm_replay_requests = 0,
      qm_replay_hits = 0, qm_replay_misses = 0, qm_replay_emitted = 0\<rparr>"

definition qm_record_published :: "queue_metrics \<Rightarrow> queue_metrics" where
  "qm_record_published m = m\<lparr>qm_published := qm_published m + 1\<rparr>"

definition qm_record_dropped_oldest :: "queue_metrics \<Rightarrow> queue_metrics" where
  "qm_record_dropped_oldest m =
     m\<lparr>qm_dropped_overflow := qm_dropped_overflow m + 1, qm_dropped_oldest := qm_dropped_oldest m + 1\<rparr>"

definition qm_record_dropped_newest :: "queue_metrics \<Rightarrow> queue_metrics" where
  "qm_record_dropped_newest m =
     m\<lparr>qm_dropped_overflow := qm_dropped_overflow m + 1, qm_dropped_newest := qm_dropped_newest m + 1\<rparr>"

definition qm_record_fail_fast :: "queue_metrics \<Rightarrow> queue_metrics" where
  "qm_record_fail_fast m =
     m\<lparr>qm_dropped_overflow := qm_dropped_overflow m + 1, qm_fail_fast := qm_fail_fast m + 1\<rparr>"

definition qm_record_dispatched :: "queue_metrics \<Rightarrow> queue_metrics" where
  "qm_record_dispatched m = m\<lparr>qm_dispatched := qm_dispatched m + 1\<rparr>"

definition qm_record_subscriber_failure :: "queue_metrics \<Rightarrow> queue_metrics" where
  "qm_record_subscriber_failure m = m\<lparr>qm_subscriber_failures := qm_subscriber_failures m + 1\<rparr>"

definition qm_record_replay_request :: "queue_metrics \<Rightarrow> queue_metrics" where
  "qm_record_replay_request m = m\<lparr>qm_replay_requests := qm_replay_requests m + 1\<rparr>"

definition qm_record_replay_hit :: "nat \<Rightarrow> queue_metrics \<Rightarrow> queue_metrics" where
  "qm_record_replay_hit emitted m =
     m\<lparr>qm_replay_hits := qm_replay_hits m + 1, qm_replay_emitted := qm_replay_emitted m + emitted\<rparr>"

definition qm_record_replay_miss :: "queue_metrics \<Rightarrow> queue_metrics" where
  "qm_record_replay_miss m = m\<lparr>qm_replay_misses := qm_replay_misses m + 1\<rparr>"

lemmas qm_defs =
  qm_record_published_def qm_record_dropped_oldest_def qm_record_dropped_newest_def
  qm_record_fail_fast_def qm_record_dispatched_def qm_record_subscriber_failure_def
  qm_record_replay_request_def qm_record_replay_hit_def qm_record_replay_miss_def

section \<open>The queue\<close>

datatype overflow_strategy = DROP_OLDEST | DROP_NEWEST | FAIL_FAST

text \<open>
  \<open>eq_scheduled\<close> are the callbacks other threads handed to the loop with \<open>call_soon_threadsafe\<close>,
  oldest first. \<open>eq_in_flight\<close> is the item the dispatcher is fanning out, with the subscribers
  resolved for it. \<open>eq_stopping\<close> holds while \<open>stop\<close> awaits the cancelled dispatcher.
\<close>

record event_queue =
  eq_capacity :: nat
  eq_overflow :: overflow_strategy
  eq_clock :: sequence_generator
  eq_registry :: subscription_registry
  eq_metrics :: queue_metrics
  eq_retention :: retention_ring
  eq_channel :: "channel option"
  eq_running :: bool
  eq_stopping :: bool
  eq_hook :: bool
  eq_scheduled :: "queued_event list"
  eq_in_flight :: "(queued_event \<times> subscription list) option"

text \<open>\<open>ValueError\<close> for a capacity that is not positive; a negative retention counts as zero.\<close>

definition new_event_queue ::
  "int \<Rightarrow> int \<Rightarrow> overflow_strategy \<Rightarrow> sequence_generator \<Rightarrow> event_queue option" where
  "new_event_queue capacity retention overflow clock =
     (if capacity \<le> 0 then None
      else map_option (\<lambda>ring.
        \<lparr>eq_capacity = nat capacity, eq_overflow = overflow, eq_clock = clock,
         eq_registry = new_subscription_registry, eq_metrics = new_queue_metrics,
         eq_retention = ring, eq_channel = None, eq_running = False, eq_stopping = False,
         eq_hook = False, eq_scheduled = [], eq_in_flight = None\<rparr>) (new_ring (max 0 retention)))"

abbreviation count_queue :: "(queue_metrics \<Rightarrow> queue_metrics) \<Rightarrow> event_queue \<Rightarrow> event_queue" where
  "count_queue f q \<equiv> q\<lparr>eq_metrics := f (eq_metrics q)\<rparr>"

definition queue_start :: "event_queue \<Rightarrow> event_queue" where
  "queue_start q =
     (if eq_running q then q
      else q\<lparr>eq_channel := Some (new_channel (eq_capacity q)), eq_hook := False, eq_running := True\<rparr>)"

definition queue_stop_begin :: "event_queue \<Rightarrow> event_queue" where
  "queue_stop_begin q =
     (if \<not> eq_running q then q else q\<lparr>eq_running := False, eq_stopping := True\<rparr>)"

text \<open>
  The cancelled dispatcher leaves through its \<open>finally\<close> block when an item was in flight, with
  \<open>failed\<close> of its subscribers having raised by then; then \<open>stop\<close> forgets the channel and whatever
  it still held.
\<close>

definition queue_stop_end :: "nat \<Rightarrow> event_queue \<Rightarrow> event_queue" where
  "queue_stop_end failed q =
     (let q1 = (case eq_in_flight q of
                  None \<Rightarrow> q
                | Some _ \<Rightarrow>
                    count_queue (\<lambda>m. qm_record_dispatched ((qm_record_subscriber_failure ^^ failed) m))
                      (q\<lparr>eq_in_flight := None\<rparr>))
      in q1\<lparr>eq_channel := None, eq_stopping := False, eq_hook := False\<rparr>)"

text \<open>\<open>DROP_OLDEST\<close>: evict the head and offer again.\<close>

definition drop_oldest_and_offer :: "queued_event \<Rightarrow> channel \<Rightarrow> event_queue \<Rightarrow> event_queue" where
  "drop_oldest_and_offer item ch q =
     (case channel_take_nowait ch of
        (ch1, None) \<Rightarrow> q\<lparr>eq_channel := Some (fst (channel_offer item ch1))\<rparr>
      | (ch1, Some _) \<Rightarrow>
          (count_queue qm_record_dropped_oldest q)
            \<lparr>eq_channel := Some (fst (channel_offer item (channel_task_done ch1)))\<rparr>)"

definition enqueue :: "queued_event \<Rightarrow> channel \<Rightarrow> event_queue \<Rightarrow> event_queue \<times> (queue_error + bool)" where
  "enqueue item ch q =
     (case channel_offer item ch of
        (ch1, True) \<Rightarrow> (count_queue qm_record_published (q\<lparr>eq_channel := Some ch1\<rparr>), Inr True)
      | (_, False) \<Rightarrow>
          (case eq_overflow q of
             FAIL_FAST \<Rightarrow> (count_queue qm_record_fail_fast q, Inl EventQueueOverflowError)
           | DROP_NEWEST \<Rightarrow> (count_queue qm_record_dropped_newest q, Inr False)
           | DROP_OLDEST \<Rightarrow>
               (count_queue qm_record_published (drop_oldest_and_offer item ch q), Inr True)))"

definition enqueue_cross_thread :: "queued_event \<Rightarrow> event_queue \<Rightarrow> event_queue" where
  "enqueue_cross_thread item q =
     (case eq_channel q of
        None \<Rightarrow> q
      | Some ch \<Rightarrow>
          (case channel_offer item ch of
             (ch1, True) \<Rightarrow> q\<lparr>eq_channel := Some ch1\<rparr>
           | (_, False) \<Rightarrow>
               (case eq_overflow q of
                  FAIL_FAST \<Rightarrow> count_queue qm_record_fail_fast q
                | DROP_NEWEST \<Rightarrow> count_queue qm_record_dropped_newest q
                | DROP_OLDEST \<Rightarrow> drop_oldest_and_offer item ch q)))"

text \<open>\<open>same_thread\<close> tells whether the caller runs on the loop the queue is bound to.\<close>

definition publish :: "bool \<Rightarrow> runtime_event \<Rightarrow> event_queue \<Rightarrow> event_queue \<times> (queue_error + bool)" where
  "publish same_thread e q =
     (case eq_channel q of
        None \<Rightarrow> (q, Inr False)
      | Some ch \<Rightarrow>
          if \<not> eq_running q then (q, Inr False)
          else
            case sequence_next (eq_clock q) of
              None \<Rightarrow> (q, Inl ClockSequenceOverflowError)
            | Some (clock, n) \<Rightarrow>
                let q1 = q\<lparr>eq_clock := clock\<rparr>; item = \<lparr>qe_sequence = n, qe_event = e\<rparr>
                in if same_thread then enqueue item ch q1
                   else (count_queue qm_record_published q1\<lparr>eq_scheduled := eq_scheduled q1 @ [item]\<rparr>,
                         Inr True))"

text \<open>The two halves of the dispatcher's loop body, around its fan-out.\<close>

definition dispatch_take ::
  "(int set \<Rightarrow> int list) \<Rightarrow> queued_event \<Rightarrow> channel \<Rightarrow> event_queue \<Rightarrow> event_queue" where
  "dispatch_take order item ch q =
     q\<lparr>eq_channel := Some ch, eq_retention := ring_append item (eq_retention q),
       eq_in_flight := Some (item, registry_matching order (event_type (qe_event item)) (eq_registry q))\<rparr>"

definition fanout_failures :: "queued_event \<Rightarrow> subscription list \<Rightarrow> nat" where
  "fanout_failures item subs = length (filter (\<lambda>s. sub_callback s (qe_event item)) subs)"

definition dispatch_finish :: "queued_event \<Rightarrow> subscription list \<Rightarrow> event_queue \<Rightarrow> event_queue" where
  "dispatch_finish item subs q =
     (let m = (qm_record_subscriber_failure ^^ fanout_failures item subs) (eq_metrics q)
      in q\<lparr>eq_metrics := qm_record_dispatched m, eq_in_flight := None,
           eq_channel := map_option channel_task_done (eq_channel q)\<rparr>)"

record replay_result =
  qs_requested :: int
  qs_hit :: bool
  qs_oldest :: "int option"
  qs_newest :: "int option"
  qs_events :: "queued_event list"

definition events_since :: "int \<Rightarrow> event_queue \<Rightarrow> event_queue \<times> replay_result" where
  "events_since sequence0 q =
     (let q1 = count_queue qm_record_replay_request q;
          oldest = ring_oldest (eq_retention q);
          newest = ring_newest (eq_retention q);
          sequence = (if sequence0 < 0 then 0 else sequence0);
          hit = (if sequence = 0 then True
                 else case newest of
                   None \<Rightarrow> sequence = 0
                 | Some n \<Rightarrow>
                     n \<le> sequence \<or> (case oldest of None \<Rightarrow> False | Some old \<Rightarrow> old - 1 \<le> sequence));
          events = (if hit then ring_since sequence (eq_retention q) else []);
          q2 = (if hit then count_queue (qm_record_replay_hit (length events)) q1
                else count_queue qm_record_replay_miss q1)
      in (q2, \<lparr>qs_requested = sequence, qs_hit = hit, qs_oldest = oldest, qs_newest = newest,
               qs_events = events\<rparr>))"

definition queue_subscribe ::
  "(runtime_event \<Rightarrow> bool) \<Rightarrow> string list option \<Rightarrow> event_queue \<Rightarrow> event_queue \<times> (queue_error + subscription)"
  where
  "queue_subscribe callback types q =
     (case registry_add callback types (eq_registry q) of (r, res) \<Rightarrow> (q\<lparr>eq_registry := r\<rparr>, res))"

definition queue_unsubscribe :: "int \<Rightarrow> event_queue \<Rightarrow> event_queue \<times> bool" where
  "queue_unsubscribe n q =
     (case registry_drop n (eq_registry q) of (r, res) \<Rightarrow> (q\<lparr>eq_registry := r\<rparr>, res))"

text \<open>The hook lives in the dispatcher: none, and the call raises.\<close>

definition set_post_dispatch_hook :: "bool \<Rightarrow> event_queue \<Rightarrow> event_queue \<times> queue_error option" where
  "set_post_dispatch_hook installed q =
     (if eq_channel q = None then (q, Some EventQueueNotRunningError)
      else (q\<lparr>eq_hook := installed\<rparr>, None))"

definition queue_join :: "event_queue \<Rightarrow> queue_error + bool" where
  "queue_join q =
     (case eq_channel q of
        None \<Rightarrow> Inl EventQueueNotRunningError
      | Some ch \<Rightarrow> if eq_running q then Inr (channel_drained ch) else Inl EventQueueNotRunningError)"

section \<open>Steps\<close>

datatype queue_label =
    QStart
  | QStopBegin
  | QStopEnd nat
  | QPublish bool runtime_event
  | QCallback
  | QTake
  | QFinish
  | QSince int
  | QSubscribe "runtime_event \<Rightarrow> bool" "string list option"
  | QUnsubscribe int
  | QHook bool

text \<open>What a step shows to the outside: an item entering retention, an item given to the hook.\<close>

datatype queue_output = Retained queued_event | Hooked queued_event

inductive queue_step ::
  "(int set \<Rightarrow> int list) \<Rightarrow> queue_label \<Rightarrow> event_queue \<Rightarrow> queue_output list \<Rightarrow> event_queue \<Rightarrow> bool"
  for order where
  start: "\<not> eq_stopping q \<Longrightarrow> queue_step order QStart q [] (queue_start q)"
| stop_begin: "queue_step order QStopBegin q [] (queue_stop_begin q)"
| stop_end: "eq_stopping q \<Longrightarrow> queue_step order (QStopEnd k) q [] (queue_stop_end k q)"
| publish: "queue_step order (QPublish same_thread e) q [] (fst (publish same_thread e q))"
| callback: "eq_scheduled q = item # rest \<Longrightarrow>
    queue_step order QCallback q [] (enqueue_cross_thread item (q\<lparr>eq_scheduled := rest\<rparr>))"
| take: "eq_channel q = Some ch \<Longrightarrow> channel_take_nowait ch = (ch', Some item) \<Longrightarrow>
    eq_in_flight q = None \<Longrightarrow> \<not> eq_stopping q \<Longrightarrow>
    queue_step order QTake q [Retained item] (dispatch_take order item ch' q)"
| finish: "eq_in_flight q = Some (item, subs) \<Longrightarrow> \<not> eq_stopping q \<Longrightarrow>
    queue_step order QFinish q (if eq_hook q then [Hooked item] else []) (dispatch_finish item subs q)"
| since: "queue_step order (QSince n) q [] (fst (events_since n q))"
| subscribe: "queue_step order (QSubscribe f ts) q [] (fst (queue_subscribe f ts q))"
| unsubscribe: "queue_step order (QUnsubscribe n) q [] (fst (queue_unsubscribe n q))"
| hook: "queue_step order (QHook b) q [] (fst (set_post_dispatch_hook b q))"

inductive_cases queue_stepE: "queue_step order l q out q'"

inductive queue_run ::
  "(int set \<Rightarrow> int list) \<Rightarrow> event_queue \<Rightarrow> queue_label list \<Rightarrow> queue_output list \<Rightarrow> event_queue \<Rightarrow> bool"
  for order where
  idle: "queue_run order q [] [] q"
| more: "queue_run order q ls outs q' \<Longrightarrow> queue_step order l q' out q'' \<Longrightarrow>
    queue_run order q (ls @ [l]) (outs @ out) q''"

definition retained :: "queue_output list \<Rightarrow> queued_event list" where
  "retained outs = List.map_filter (\<lambda>out. case out of Retained i \<Rightarrow> Some i | Hooked i \<Rightarrow> None) outs"

definition hooked :: "queue_output list \<Rightarrow> queued_event list" where
  "hooked outs = List.map_filter (\<lambda>out. case out of Retained i \<Rightarrow> None | Hooked i \<Rightarrow> Some i) outs"

lemma retained_simps [simp]:
  "retained [] = []" "retained (xs @ ys) = retained xs @ retained ys"
  "retained [Retained i] = [i]" "retained [Hooked i] = []"
  by (simp_all add: retained_def List.map_filter_def)

lemma hooked_simps [simp]:
  "hooked [] = []" "hooked (xs @ ys) = hooked xs @ hooked ys"
  "hooked [Retained i] = []" "hooked [Hooked i] = [i]"
  by (simp_all add: hooked_def List.map_filter_def)

text \<open>The step relation is a function of the label: one interpreter runs whole schedules.\<close>

fun queue_exec ::
  "(int set \<Rightarrow> int list) \<Rightarrow> queue_label \<Rightarrow> event_queue \<Rightarrow> (queue_output list \<times> event_queue) option" where
  "queue_exec order QStart q = (if eq_stopping q then None else Some ([], queue_start q))"
| "queue_exec order QStopBegin q = Some ([], queue_stop_begin q)"
| "queue_exec order (QStopEnd k) q = (if eq_stopping q then Some ([], queue_stop_end k q) else None)"
| "queue_exec order (QPublish same_thread e) q = Some ([], fst (publish same_thread e q))"
| "queue_exec order QCallback q =
     (case eq_scheduled q of
        [] \<Rightarrow> None
      | item # rest \<Rightarrow> Some ([], enqueue_cross_thread item (q\<lparr>eq_scheduled := rest\<rparr>)))"
| "queue_exec order QTake q =
     (case eq_channel q of
        None \<Rightarrow> None
      | Some ch \<Rightarrow>
          (case channel_take_nowait ch of
             (ch', Some item) \<Rightarrow>
               if eq_in_flight q = None \<and> \<not> eq_stopping q
               then Some ([Retained item], dispatch_take order item ch' q) else None
           | _ \<Rightarrow> None))"
| "queue_exec order QFinish q =
     (case eq_in_flight q of
        None \<Rightarrow> None
      | Some (item, subs) \<Rightarrow>
          if eq_stopping q then None
          else Some (if eq_hook q then [Hooked item] else [], dispatch_finish item subs q))"
| "queue_exec order (QSince n) q = Some ([], fst (events_since n q))"
| "queue_exec order (QSubscribe f ts) q = Some ([], fst (queue_subscribe f ts q))"
| "queue_exec order (QUnsubscribe n) q = Some ([], fst (queue_unsubscribe n q))"
| "queue_exec order (QHook b) q = Some ([], fst (set_post_dispatch_hook b q))"

lemma finish_hook:
  assumes "eq_in_flight q = Some (item, subs)" "\<not> eq_stopping q"
  shows "eq_hook q \<Longrightarrow> queue_step order QFinish q [Hooked item] (dispatch_finish item subs q)"
    and "\<not> eq_hook q \<Longrightarrow> queue_step order QFinish q [] (dispatch_finish item subs q)"
  using queue_step.finish[OF assms, of order] by simp_all

lemma queue_exec_iff: "queue_exec order l q = Some (out, q') \<longleftrightarrow> queue_step order l q out q'"
proof
  assume "queue_exec order l q = Some (out, q')"
  then show "queue_step order l q out q'"
    by (cases l) (auto intro: queue_step.intros finish_hook split: if_splits option.splits list.splits prod.splits)
next
  assume "queue_step order l q out q'"
  then show "queue_exec order l q = Some (out, q')"
    by cases auto
qed

fun queue_exec_all ::
  "(int set \<Rightarrow> int list) \<Rightarrow> queue_label list \<Rightarrow> queue_output list \<Rightarrow> event_queue
     \<Rightarrow> (queue_output list \<times> event_queue) option" where
  "queue_exec_all order [] outs q = Some (outs, q)"
| "queue_exec_all order (l # ls) outs q =
     (case queue_exec order l q of
        None \<Rightarrow> None
      | Some (out, q') \<Rightarrow> queue_exec_all order ls (outs @ out) q')"

lemma queue_exec_all_run:
  "queue_run order q0 done outs q \<Longrightarrow> queue_exec_all order ls outs q = Some (outs', q') \<Longrightarrow>
     queue_run order q0 (done @ ls) outs' q'"
proof (induction ls arbitrary: "done" outs q)
  case (Cons l ls)
  then obtain out q1 where step: "queue_exec order l q = Some (out, q1)"
    and rest: "queue_exec_all order ls (outs @ out) q1 = Some (outs', q')"
    by (auto split: option.splits)
  have "queue_run order q0 (done @ [l]) (outs @ out) q1"
    using Cons.prems(1) step by (auto intro: queue_run.more simp: queue_exec_iff)
  from Cons.IH[OF this rest] show ?case by simp
qed simp

lemmas queue_run_exec = queue_exec_all_run[OF queue_run.idle, simplified]

section \<open>Subscriptions are routed exactly\<close>

datatype subscription_op =
    SubAdd "runtime_event \<Rightarrow> bool" "string list option"
  | SubDrop int
  | SubClear

fun subscription_step :: "subscription_op \<Rightarrow> subscription_registry \<Rightarrow> subscription_registry" where
  "subscription_step (SubAdd f ts) r = fst (registry_add f ts r)"
| "subscription_step (SubDrop n) r = fst (registry_drop n r)"
| "subscription_step SubClear r = registry_empty r"

definition wants :: "string \<Rightarrow> subscription \<Rightarrow> bool" where
  "wants ty sub \<longleftrightarrow> (case sub_types sub of None \<Rightarrow> True | Some ts \<Rightarrow> ty \<in> set ts)"

definition registry_exact :: "subscription_registry \<Rightarrow> bool" where
  "registry_exact r \<longleftrightarrow>
     (\<forall>n sub. dget (sr_by_id r) n = Some sub \<longrightarrow> sub_id sub = n \<and> n \<le> sr_next_id r) \<and>
     (\<forall>n. n \<in> sr_wildcards r \<longleftrightarrow> (\<exists>sub. dget (sr_by_id r) n = Some sub \<and> sub_types sub = None)) \<and>
     (\<forall>ty n. n \<in> bucket (sr_by_type r) ty \<longleftrightarrow>
        (\<exists>sub ts. dget (sr_by_id r) n = Some sub \<and> sub_types sub = Some ts \<and> ty \<in> set ts))"

lemma bucket_fold_add:
  "bucket (fold (\<lambda>t. bucket_add t n) ts d) k = (if k \<in> set ts then insert n (bucket d k) else bucket d k)"
  by (induction ts arbitrary: d) (auto simp: bucket_simps)

lemma bucket_fold_discard:
  "bucket (fold (\<lambda>t. bucket_discard t n) ts d) k = (if k \<in> set ts then bucket d k - {n} else bucket d k)"
  by (induction ts arbitrary: d) (auto simp: bucket_simps)

lemma registry_exact_step:
  assumes "registry_exact r"
  shows "registry_exact (subscription_step op r)"
proof (cases op)
  case (SubAdd f ts)
  have fresh: "dget (sr_by_id r) (sr_next_id r + 1) = None"
    using assms by (cases "dget (sr_by_id r) (sr_next_id r + 1)") (force simp: registry_exact_def)+
  have le: "n \<le> sr_next_id r + 1" if "dget (sr_by_id r) n = Some sub" for n sub
    using assms that by (force simp: registry_exact_def)
  show ?thesis
    using assms fresh le SubAdd
    by (auto simp: registry_exact_def registry_add_def Let_def bucket_fold_add dict_simps
        split: option.splits)
next
  case (SubDrop n)
  show ?thesis
  proof (cases "dget (sr_by_id r) n")
    case None
    then show ?thesis using assms SubDrop by (simp add: registry_drop_def)
  next
    case (Some sub)
    show ?thesis
      using assms SubDrop Some
      by (cases "sub_types sub")
        (auto simp: registry_exact_def registry_drop_def Let_def bucket_fold_discard dict_simps)
  qed
next
  case SubClear
  then show ?thesis by (simp add: registry_exact_def registry_empty_def)
qed

lemma registry_exact_run: "registry_exact r \<Longrightarrow> registry_exact (fold subscription_step ops r)"
  by (induction ops arbitrary: r) (auto intro: registry_exact_step)

lemma registry_exact_new: "registry_exact new_subscription_registry"
  by (simp add: registry_exact_def new_subscription_registry_def)

text \<open>Fan-out is exact. Whatever subscriptions were added, removed and cleared, the registry
  resolves an event type to exactly the live subscriptions that are wildcards or name that type,
  each once, in whatever order Python iterates its sets.\<close>

theorem subscription_routing_exact:
  assumes order: "\<And>A. finite A \<Longrightarrow> distinct (order A) \<and> set (order A) = A"
    and r: "r = fold subscription_step ops new_subscription_registry"
  shows "set (registry_matching order ty r) = {sub. \<exists>n. dget (sr_by_id r) n = Some sub \<and> wants ty sub} \<and>
         distinct (map sub_id (registry_matching order ty r))"
proof -
  have ex: "registry_exact r" using registry_exact_run[OF registry_exact_new] r by blast
  let ?ids = "sr_wildcards r \<union> bucket (sr_by_type r) ty"
  have ids: "n \<in> ?ids \<longleftrightarrow> (\<exists>sub. dget (sr_by_id r) n = Some sub \<and> wants ty sub)" for n
    using ex by (auto simp: registry_exact_def wants_def split: option.splits)
  have "?ids \<subseteq> set (dkeys (sr_by_id r))"
    using ids in_dkeys_iff[of _ "sr_by_id r"] by fastforce
  then have fin: "finite ?ids" using finite_subset by blast
  have own: "sub_id sub = n" if "dget (sr_by_id r) n = Some sub" for n sub
    using ex that by (auto simp: registry_exact_def)
  have "map sub_id (List.map_filter (dget (sr_by_id r)) xs) = xs" if "set xs \<subseteq> ?ids" for xs
    using that
  proof (induction xs)
    case (Cons x xs)
    then obtain sub where "dget (sr_by_id r) x = Some sub" using ids by auto
    then show ?case using Cons own by (simp add: List.map_filter_simps)
  qed (simp add: List.map_filter_simps)
  then have "map sub_id (registry_matching order ty r) = order ?ids"
    using order[OF fin] by (simp add: registry_matching_def)
  moreover have "sub \<in> set (registry_matching order ty r) \<longleftrightarrow>
      (\<exists>n. dget (sr_by_id r) n = Some sub \<and> wants ty sub)" for sub
  proof -
    have "sub \<in> set (registry_matching order ty r) \<longleftrightarrow> (\<exists>n\<in>?ids. dget (sr_by_id r) n = Some sub)"
      using order[OF fin] by (simp only: registry_matching_def in_map_filter)
    also have "\<dots> \<longleftrightarrow> (\<exists>n. dget (sr_by_id r) n = Some sub \<and> wants ty sub)"
      using ids by (metis option.inject)
    finally show ?thesis .
  qed
  ultimately show ?thesis using order[OF fin] by auto
qed

text \<open>Three subscriptions, of which the wildcard is removed again.\<close>

definition sample_ops :: "subscription_op list" where
  "sample_ops = [SubAdd (\<lambda>_. False) None, SubAdd (\<lambda>_. True) (Some [''x'']),
     SubAdd (\<lambda>_. False) (Some [''y'']), SubDrop 1]"

definition sample_sub :: subscription where
  "sample_sub = \<lparr>sub_id = 2, sub_callback = (\<lambda>_. True), sub_types = Some [''x'']\<rparr>"

lemma sample_ops_registry:
  "sr_by_id (fold subscription_step sample_ops new_subscription_registry) =
     [(2, sample_sub), (3, \<lparr>sub_id = 3, sub_callback = (\<lambda>_. False), sub_types = Some [''y'']\<rparr>)]"
  by (simp add: sample_ops_def sample_sub_def registry_add_def registry_drop_def
      new_subscription_registry_def Let_def)

theorem subscription_routing_exact_witness:
  "set (registry_matching sorted_list_of_set ''x''
          (fold subscription_step sample_ops new_subscription_registry)) = {sample_sub}"
proof -
  have "{sub. \<exists>n. dget [(2::int, sample_sub),
            (3, \<lparr>sub_id = 3, sub_callback = (\<lambda>_. False), sub_types = Some [''y'']\<rparr>)] n = Some sub \<and>
          wants ''x'' sub} = {sample_sub}"
    by (auto simp: wants_def sample_sub_def split: if_splits intro: exI[of _ 2])
  moreover have "set (registry_matching sorted_list_of_set ''x''
          (fold subscription_step sample_ops new_subscription_registry)) =
      {sub. \<exists>n. dget (sr_by_id (fold subscription_step sample_ops new_subscription_registry)) n = Some sub \<and>
          wants ''x'' sub}"
    by (rule conjunct1[OF subscription_routing_exact[OF _ refl]]) simp
  ultimately show ?thesis by (simp only: sample_ops_registry)
qed

section \<open>The channel is a bounded queue whose unfinished count is exact\<close>

abbreviation in_flight_count :: "event_queue \<Rightarrow> nat" where
  "in_flight_count q \<equiv> (case eq_in_flight q of None \<Rightarrow> 0 | Some _ \<Rightarrow> 1)"

definition channel_ok :: "event_queue \<Rightarrow> bool" where
  "channel_ok q \<longleftrightarrow> 1 \<le> eq_capacity q \<and>
     (case eq_channel q of
        None \<Rightarrow> eq_in_flight q = None \<and> \<not> eq_running q
      | Some ch \<Rightarrow> ch_capacity ch = eq_capacity q \<and> length (ch_items ch) \<le> eq_capacity q \<and>
          ch_unfinished ch = int (length (ch_items ch) + in_flight_count q)) \<and>
     (eq_stopping q \<longrightarrow> \<not> eq_running q) \<and>
     (eq_channel q \<noteq> None \<longrightarrow> eq_running q \<or> eq_stopping q)"

abbreviation room :: "channel \<Rightarrow> bool" where
  "room ch \<equiv> length (ch_items ch) < ch_capacity ch"

text \<open>What one offer does to the channel and the counters, under each strategy.\<close>

lemma channel_offer_room: "room ch \<Longrightarrow>
    channel_offer item ch =
      (ch\<lparr>ch_items := ch_items ch @ [item], ch_unfinished := ch_unfinished ch + 1\<rparr>, True)"
  by (simp add: channel_offer_def)

lemma channel_offer_full: "\<not> room ch \<Longrightarrow> channel_offer item ch = (ch, False)"
  by (simp add: channel_offer_def)

lemma drop_oldest_full:
  assumes "length (ch_items ch) = ch_capacity ch" "1 \<le> ch_capacity ch"
  shows "drop_oldest_and_offer item ch q =
    (count_queue qm_record_dropped_oldest q)\<lparr>eq_channel := Some (ch\<lparr>ch_items := tl (ch_items ch) @ [item]\<rparr>)\<rparr>"
  using assms
  by (cases "ch_items ch")
    (auto simp: drop_oldest_and_offer_def channel_take_nowait_def channel_offer_def channel_task_done_def)

definition offered :: "queued_event \<Rightarrow> channel \<Rightarrow> event_queue \<Rightarrow> event_queue" where
  "offered item ch q =
     (if room ch
      then q\<lparr>eq_channel := Some (ch\<lparr>ch_items := ch_items ch @ [item], ch_unfinished := ch_unfinished ch + 1\<rparr>)\<rparr>
      else case eq_overflow q of
        FAIL_FAST \<Rightarrow> count_queue qm_record_fail_fast q
      | DROP_NEWEST \<Rightarrow> count_queue qm_record_dropped_newest q
      | DROP_OLDEST \<Rightarrow>
          (count_queue qm_record_dropped_oldest q)
            \<lparr>eq_channel := Some (ch\<lparr>ch_items := tl (ch_items ch) @ [item]\<rparr>)\<rparr>)"

lemma enqueue_cross_thread_offered:
  assumes "eq_channel q = Some ch" "length (ch_items ch) \<le> ch_capacity ch" "1 \<le> ch_capacity ch"
  shows "enqueue_cross_thread item q = offered item ch q"
  using assms
  by (cases "room ch")
    (auto simp: enqueue_cross_thread_def offered_def channel_offer_room channel_offer_full
      drop_oldest_full split: overflow_strategy.splits)

lemma enqueue_offered:
  assumes "eq_channel q = Some ch" "length (ch_items ch) \<le> ch_capacity ch" "1 \<le> ch_capacity ch"
  shows "fst (enqueue item ch q) =
    (if room ch \<or> eq_overflow q = DROP_OLDEST
     then count_queue qm_record_published (offered item ch q) else offered item ch q)"
  using assms
  by (cases "room ch")
    (auto simp: enqueue_def offered_def channel_offer_room channel_offer_full
      drop_oldest_full split: overflow_strategy.splits)

text \<open>A publish is refused, offered to the channel, or scheduled on the loop.\<close>

lemma publish_cases [consumes 1, case_names refused offered scheduled]:
  assumes "channel_ok q"
  obtains "fst (publish same_thread e q) = q"
  | ch n where "same_thread" "eq_running q" "eq_channel q = Some ch" "n = sg_value (eq_clock q) + 1"
      "fst (publish same_thread e q) =
        (let q1 = offered \<lparr>qe_sequence = n, qe_event = e\<rparr> ch
                    (q\<lparr>eq_clock := (eq_clock q)\<lparr>sg_value := n\<rparr>\<rparr>)
         in if room ch \<or> eq_overflow q = DROP_OLDEST then count_queue qm_record_published q1 else q1)"
  | n where "\<not> same_thread" "eq_running q" "n = sg_value (eq_clock q) + 1"
      "fst (publish same_thread e q) =
        q\<lparr>eq_clock := (eq_clock q)\<lparr>sg_value := n\<rparr>, eq_metrics := qm_record_published (eq_metrics q),
          eq_scheduled := eq_scheduled q @ [\<lparr>qe_sequence = n, qe_event = e\<rparr>]\<rparr>"
proof (cases "\<exists>ch. eq_channel q = Some ch \<and> eq_running q \<and> sg_value (eq_clock q) < sg_max (eq_clock q)")
  case False
  then have "fst (publish same_thread e q) = q"
    by (auto simp: publish_def sequence_next_def split: option.splits)
  then show thesis by (rule that(1))
next
  case True
  then obtain ch where ch: "eq_channel q = Some ch" "eq_running q"
    "sg_value (eq_clock q) < sg_max (eq_clock q)" by blast
  show thesis
  proof (cases same_thread)
    case True
    then show thesis
      using ch assms
      by (intro that(2)[OF True ch(2,1) refl])
        (simp add: publish_def sequence_next_def enqueue_offered channel_ok_def Let_def)
  next
    case False
    then show thesis
      using ch by (intro that(3)[OF False ch(2) refl]) (simp add: publish_def sequence_next_def Let_def)
  qed
qed

lemma channel_ok_offered:
  assumes "channel_ok q" "eq_channel q = Some ch"
  shows "channel_ok (offered item ch q)"
  using assms by (auto simp: channel_ok_def offered_def split: overflow_strategy.splits)

lemma channel_ok_irrelevant [simp]:
  "channel_ok (q\<lparr>eq_metrics := m\<rparr>) = channel_ok q"
  "channel_ok (q\<lparr>eq_scheduled := xs\<rparr>) = channel_ok q"
  "channel_ok (q\<lparr>eq_clock := c\<rparr>) = channel_ok q"
  "channel_ok (q\<lparr>eq_registry := r\<rparr>) = channel_ok q"
  "channel_ok (q\<lparr>eq_hook := b\<rparr>) = channel_ok q"
  by (simp_all add: channel_ok_def split: option.split)

lemmas queue_defs =
  queue_start_def queue_stop_begin_def queue_stop_end_def channel_take_nowait_def
  channel_task_done_def new_channel_def dispatch_take_def dispatch_finish_def events_since_def
  queue_subscribe_def queue_unsubscribe_def set_post_dispatch_hook_def Let_def

lemma callback_offered:
  assumes "channel_ok q" "eq_channel q = Some ch"
  shows "enqueue_cross_thread item (q\<lparr>eq_scheduled := rest\<rparr>) = offered item ch (q\<lparr>eq_scheduled := rest\<rparr>)"
  using assms by (intro enqueue_cross_thread_offered) (auto simp: channel_ok_def)

lemma channel_ok_step:
  assumes "queue_step order l q out q'" and ok: "channel_ok q"
  shows "channel_ok q'"
  using assms(1)
proof cases
  case (publish same_thread e)
  show ?thesis
    unfolding publish
    using ok
    by (rule publish_cases[where same_thread = same_thread and e = e])
      (simp_all add: ok Let_def channel_ok_offered)
next
  case (callback item rest)
  then show ?thesis
    using ok callback_offered[OF ok] channel_ok_offered
    by (cases "eq_channel q") (auto simp: enqueue_cross_thread_def)
next
  case start
  then show ?thesis using ok by (auto simp: channel_ok_def queue_defs split: option.splits)
next
  case (stop_end k)
  then show ?thesis using ok by (auto simp: channel_ok_def queue_defs split: option.splits)
next
  case stop_begin
  then show ?thesis using ok by (auto simp: channel_ok_def queue_defs split: option.splits)
next
  case (take ch ch' item)
  then show ?thesis using ok by (auto simp: channel_ok_def queue_defs split: list.splits)
next
  case (finish item subs)
  then show ?thesis using ok by (auto simp: channel_ok_def queue_defs split: option.splits)
next
  case (since n)
  then show ?thesis using ok by (simp add: queue_defs)
next
  case (subscribe f ts)
  then show ?thesis using ok by (simp add: queue_defs split: prod.splits)
next
  case (unsubscribe n)
  then show ?thesis using ok by (simp add: queue_defs split: prod.splits)
next
  case (hook b)
  then show ?thesis using ok by (simp add: queue_defs)
qed

lemma failures_funpow [simp]:
  "(qm_record_subscriber_failure ^^ n) m =
     m\<lparr>qm_subscriber_failures := qm_subscriber_failures m + n\<rparr>"
  by (induction n) (simp_all add: qm_record_subscriber_failure_def)

lemma offered_keeps [simp]:
  "eq_clock (offered item ch q) = eq_clock q"
  "eq_overflow (offered item ch q) = eq_overflow q"
  "eq_scheduled (offered item ch q) = eq_scheduled q"
  "eq_in_flight (offered item ch q) = eq_in_flight q"
  "eq_retention (offered item ch q) = eq_retention q"
  "eq_running (offered item ch q) = eq_running q"
  "eq_stopping (offered item ch q) = eq_stopping q"
  by (auto simp: offered_def split: overflow_strategy.split)

section \<open>Accounting\<close>

definition accounted :: "queue_metrics \<Rightarrow> bool" where
  "accounted m \<longleftrightarrow>
     qm_dropped_overflow m = qm_dropped_oldest m + qm_dropped_newest m + qm_fail_fast m \<and>
     qm_replay_requests m = qm_replay_hits m + qm_replay_misses m"

lemma accounted_step:
  assumes "queue_step order l q out q'" "channel_ok q" "accounted (eq_metrics q)"
  shows "accounted (eq_metrics q')"
  using assms(1)
proof cases
  case (publish same_thread e)
  show ?thesis
    unfolding publish
    using assms(2)
    by (rule publish_cases[where same_thread = same_thread and e = e])
      (use assms(3) in \<open>auto simp: accounted_def Let_def offered_def qm_defs split: overflow_strategy.splits\<close>)
next
  case (callback item rest)
  then show ?thesis
    using assms(3) callback_offered[OF assms(2)]
    by (cases "eq_channel q")
      (auto simp: enqueue_cross_thread_def accounted_def offered_def qm_defs split: overflow_strategy.splits)
qed (use assms(3) in \<open>auto simp: accounted_def queue_defs qm_defs split: option.splits prod.splits\<close>)

abbreviation channel_items :: "event_queue \<Rightarrow> queued_event list" where
  "channel_items q \<equiv> (case eq_channel q of None \<Rightarrow> [] | Some ch \<Rightarrow> ch_items ch)"

fun stops :: "queue_label \<Rightarrow> bool" where
  "stops QStopBegin = True"
| "stops (QStopEnd k) = True"
| "stops l = False"

text \<open>Under \<open>DROP_OLDEST\<close> and without a stop, every published event is somewhere.\<close>

definition conserved :: "event_queue \<Rightarrow> bool" where
  "conserved q \<longleftrightarrow>
     qm_published (eq_metrics q) =
       qm_dispatched (eq_metrics q) + in_flight_count q + length (channel_items q) +
       length (eq_scheduled q) + qm_dropped_oldest (eq_metrics q) \<and>
     qm_dropped_newest (eq_metrics q) = 0 \<and> qm_fail_fast (eq_metrics q) = 0 \<and>
     eq_overflow q = DROP_OLDEST \<and> \<not> eq_stopping q \<and>
     (eq_channel q = None \<longrightarrow> eq_scheduled q = [])"

lemma conserved_offered:
  assumes "eq_overflow q = DROP_OLDEST" "eq_channel q = Some ch" "length (ch_items ch) \<le> ch_capacity ch"
    "1 \<le> ch_capacity ch"
  shows "qm_dropped_oldest (eq_metrics (offered item ch q)) + length (channel_items (offered item ch q)) =
      Suc (qm_dropped_oldest (eq_metrics q) + length (channel_items q))"
    and "qm_published (eq_metrics (offered item ch q)) = qm_published (eq_metrics q)"
    and "qm_dispatched (eq_metrics (offered item ch q)) = qm_dispatched (eq_metrics q)"
    and "qm_dropped_newest (eq_metrics (offered item ch q)) = qm_dropped_newest (eq_metrics q)"
    and "qm_fail_fast (eq_metrics (offered item ch q)) = qm_fail_fast (eq_metrics q)"
    and "eq_channel (offered item ch q) \<noteq> None"
  using assms by (auto simp: offered_def qm_defs)

lemma conserved_step:
  assumes "queue_step order l q out q'" and ok: "channel_ok q" and inv: "conserved q" and "\<not> stops l"
  shows "conserved q'"
  using assms(1)
proof cases
  case (publish same_thread e)
  show ?thesis
    using ok
  proof (cases rule: publish_cases[where same_thread = same_thread and e = e])
    case refused
    then show ?thesis using inv publish by simp
  next
    case (offered ch n)
    let ?q = "q\<lparr>eq_clock := (eq_clock q)\<lparr>sg_value := n\<rparr>\<rparr>"
    have pre: "eq_overflow ?q = DROP_OLDEST" "eq_channel ?q = Some ch"
      "length (ch_items ch) \<le> ch_capacity ch" "1 \<le> ch_capacity ch"
      using offered inv ok by (auto simp: conserved_def channel_ok_def)
    note facts = conserved_offered[OF pre, of "\<lparr>qe_sequence = n, qe_event = e\<rparr>"]
    have "q' = count_queue qm_record_published (offered \<lparr>qe_sequence = n, qe_event = e\<rparr> ch ?q)"
      using publish offered pre by (simp add: Let_def)
    then show ?thesis
      using facts inv pre by (auto simp: conserved_def qm_record_published_def)
  next
    case (scheduled n)
    then show ?thesis
      using publish inv ok by (auto simp: conserved_def channel_ok_def qm_record_published_def split: option.splits)
  qed
next
  case (callback item rest)
  then obtain ch where ch: "eq_channel q = Some ch" using inv by (auto simp: conserved_def)
  let ?q = "q\<lparr>eq_scheduled := rest\<rparr>"
  have pre: "eq_overflow ?q = DROP_OLDEST" "eq_channel ?q = Some ch"
    "length (ch_items ch) \<le> ch_capacity ch" "1 \<le> ch_capacity ch"
    using ch inv ok by (auto simp: conserved_def channel_ok_def)
  have "q' = offered item ch ?q"
    using callback callback_offered[OF ok ch] by simp
  then show ?thesis
    using conserved_offered[OF pre, of item] callback inv pre by (auto simp: conserved_def)
next
  case start
  then show ?thesis
    using inv ok by (auto simp: conserved_def channel_ok_def queue_defs split: option.splits)
next
  case (take ch ch' item)
  then show ?thesis using inv by (auto simp: conserved_def queue_defs split: list.splits)
next
  case (finish item subs)
  then show ?thesis
    using inv by (auto simp: conserved_def queue_defs qm_record_dispatched_def split: option.splits)
next
  case (since n)
  then show ?thesis using inv by (auto simp: conserved_def queue_defs qm_defs)
next
  case (subscribe f ts)
  then show ?thesis using inv by (simp add: conserved_def queue_defs split: prod.splits)
next
  case (unsubscribe n)
  then show ?thesis using inv by (simp add: conserved_def queue_defs split: prod.splits)
next
  case (hook b)
  then show ?thesis using inv by (simp add: conserved_def queue_defs)
qed (use \<open>\<not> stops l\<close> in simp_all)

section \<open>Order\<close>

text \<open>
  As long as nobody publishes from another thread, sequence numbers are taken and enqueued in one
  step, so they reach the dispatcher in order, whatever is dropped on the way.
\<close>

fun same_thread_only :: "queue_label \<Rightarrow> bool" where
  "same_thread_only (QPublish same_thread e) = same_thread"
| "same_thread_only l = True"

definition ordered :: "int \<Rightarrow> int \<Rightarrow> queued_event list \<Rightarrow> bool" where
  "ordered start bound xs \<longleftrightarrow>
     sorted_wrt (<) (map qe_sequence xs) \<and> (\<forall>i\<in>set xs. start < qe_sequence i \<and> qe_sequence i \<le> bound)"

lemma ordered_snoc:
  assumes "ordered start bound xs" "start \<le> bound"
  shows "ordered start (bound + 1) (xs @ [\<lparr>qe_sequence = bound + 1, qe_event = e\<rparr>])"
  using assms by (fastforce simp: ordered_def sorted_wrt_append)

lemma ordered_weaken: "ordered start bound xs \<Longrightarrow> bound \<le> bound' \<Longrightarrow> ordered start bound' xs"
  by (fastforce simp: ordered_def)

lemma ordered_prefix: "ordered start bound (xs @ ys) \<Longrightarrow> ordered start bound xs"
  by (simp add: ordered_def sorted_wrt_append)

lemma ordered_drop: "ordered start bound (xs @ ys) \<Longrightarrow> ordered start bound (xs @ tl ys)"
  by (cases ys) (auto simp: ordered_def sorted_wrt_append)

definition in_order :: "int \<Rightarrow> queue_output list \<Rightarrow> event_queue \<Rightarrow> bool" where
  "in_order start outs q \<longleftrightarrow>
     ordered start (sg_value (eq_clock q)) (retained outs @ channel_items q) \<and>
     start \<le> sg_value (eq_clock q) \<and> eq_scheduled q = []"

definition ring_ok :: "queue_output list \<Rightarrow> event_queue \<Rightarrow> bool" where
  "ring_ok outs q \<longleftrightarrow> (let r = eq_retention q in
     qr_enabled r = (0 < qr_capacity r) \<and> qr_items r = take_last (qr_capacity r) (retained outs))"

lemma in_order_offered:
  assumes inv: "in_order start outs q" and ch: "eq_channel q = Some ch"
    "length (ch_items ch) \<le> ch_capacity ch" "1 \<le> ch_capacity ch"
    and n: "n = sg_value (eq_clock q) + 1"
  shows "in_order start outs
    (offered \<lparr>qe_sequence = n, qe_event = e\<rparr> ch (q\<lparr>eq_clock := (eq_clock q)\<lparr>sg_value := n\<rparr>\<rparr>))"
proof -
  let ?v = "sg_value (eq_clock q)"
  have ord: "ordered start ?v (retained outs @ ch_items ch)" "start \<le> ?v" "eq_scheduled q = []"
    using inv ch by (simp_all add: in_order_def)
  note weak = ordered_weaken[OF ord(1), of n]
  note snoc = ordered_snoc[OF ord(1,2), of e]
  note drop = ordered_snoc[OF ordered_drop[OF ord(1)] ord(2), of e]
  show ?thesis
    using ord(2,3) weak snoc drop n ch(1)
    by (simp add: in_order_def offered_def split: overflow_strategy.split)
qed

lemma in_order_step:
  assumes "queue_step order l q out q'" and ok: "channel_ok q" and inv: "in_order start outs q"
    and "same_thread_only l"
  shows "in_order start (outs @ out) q'"
  using assms(1)
proof cases
  case (publish same_thread e)
  show ?thesis
    using ok
  proof (cases rule: publish_cases[where same_thread = same_thread and e = e])
    case refused
    then show ?thesis using inv publish by simp
  next
    case (offered ch n)
    have "in_order start outs
      (EventQueue.offered \<lparr>qe_sequence = n, qe_event = e\<rparr> ch (q\<lparr>eq_clock := (eq_clock q)\<lparr>sg_value := n\<rparr>\<rparr>))"
      using inv offered ok by (intro in_order_offered) (auto simp: channel_ok_def)
    then show ?thesis
      using publish offered by (simp add: Let_def in_order_def)
  next
    case (scheduled n)
    then show ?thesis using publish \<open>same_thread_only l\<close> by simp
  qed
next
  case (callback item rest)
  then show ?thesis using inv by (simp add: in_order_def)
next
  case start
  then show ?thesis using inv ok by (auto simp: in_order_def queue_defs channel_ok_def dest: ordered_prefix split: option.splits)
next
  case (stop_end k)
  then show ?thesis
    using inv by (auto simp: in_order_def queue_defs dest: ordered_prefix split: option.splits)
next
  case stop_begin
  then show ?thesis using inv by (simp add: in_order_def queue_defs)
next
  case (take ch ch' item)
  then show ?thesis using inv by (auto simp: in_order_def queue_defs split: list.splits)
next
  case (finish item subs)
  then show ?thesis using inv by (auto simp: in_order_def queue_defs split: option.splits)
next
  case (since n)
  then show ?thesis using inv by (simp add: in_order_def queue_defs)
next
  case (subscribe f ts)
  then show ?thesis using inv by (simp add: in_order_def queue_defs split: prod.splits)
next
  case (unsubscribe n)
  then show ?thesis using inv by (simp add: in_order_def queue_defs split: prod.splits)
next
  case (hook b)
  then show ?thesis using inv by (auto simp: in_order_def queue_defs)
qed

lemma ring_append_take_last:
  assumes "qr_enabled r = (0 < qr_capacity r)" "qr_items r = take_last (qr_capacity r) xs"
  shows "qr_items (ring_append item r) = take_last (qr_capacity r) (xs @ [item])"
    and "qr_capacity (ring_append item r) = qr_capacity r"
    and "qr_enabled (ring_append item r) = qr_enabled r"
proof -
  show "qr_items (ring_append item r) = take_last (qr_capacity r) (xs @ [item])"
  proof (cases "qr_capacity r = 0")
    case True
    then show ?thesis using assms by (simp add: ring_append_def take_last_def)
  next
    case False
    then have "ring_push (qr_capacity r) item (qr_items r) = take_last (qr_capacity r) (qr_items r @ [item])"
      using assms by (intro ring_push_take_last) auto
    then show ?thesis
      using False assms by (simp add: ring_append_def Let_def take_last_idem_append)
  qed
qed (simp_all add: ring_append_def Let_def)

lemma ring_ok_step:
  assumes "queue_step order l q out q'" and ok: "channel_ok q" and inv: "ring_ok outs q"
  shows "ring_ok (outs @ out) q'"
  using assms(1)
proof cases
  case (publish same_thread e)
  show ?thesis
    unfolding publish
    using ok
    by (rule publish_cases[where same_thread = same_thread and e = e])
      (use inv in \<open>simp_all add: Let_def ring_ok_def\<close>)
next
  case (callback item rest)
  then show ?thesis
    using inv callback_offered[OF ok] by (cases "eq_channel q") (auto simp: enqueue_cross_thread_def ring_ok_def)
next
  case (take ch ch' item)
  then show ?thesis
    using inv by (simp add: dispatch_take_def ring_ok_def Let_def ring_append_take_last)
qed (use inv in \<open>auto simp: ring_ok_def queue_defs split: option.splits prod.splits\<close>)

section \<open>Runs\<close>

lemma run_channel_ok: "queue_run order q0 ls outs q \<Longrightarrow> channel_ok q0 \<Longrightarrow> channel_ok q"
  by (induction rule: queue_run.induct) (auto intro: channel_ok_step)

lemma run_accounted:
  "queue_run order q0 ls outs q \<Longrightarrow> channel_ok q0 \<Longrightarrow> accounted (eq_metrics q0) \<Longrightarrow> accounted (eq_metrics q)"
  by (induction rule: queue_run.induct) (auto intro: accounted_step run_channel_ok)

lemma run_conserved:
  "queue_run order q0 ls outs q \<Longrightarrow> channel_ok q0 \<Longrightarrow> conserved q0 \<Longrightarrow> \<forall>l\<in>set ls. \<not> stops l \<Longrightarrow> conserved q"
  by (induction rule: queue_run.induct) (auto intro: conserved_step run_channel_ok)

lemma run_in_order:
  "queue_run order q0 ls outs q \<Longrightarrow> channel_ok q0 \<Longrightarrow> in_order start [] q0 \<Longrightarrow>
     \<forall>l\<in>set ls. same_thread_only l \<Longrightarrow> in_order start outs q"
  by (induction rule: queue_run.induct) (auto intro: in_order_step run_channel_ok)

lemma run_ring_ok:
  "queue_run order q0 ls outs q \<Longrightarrow> channel_ok q0 \<Longrightarrow> ring_ok [] q0 \<Longrightarrow> ring_ok outs q"
  by (induction rule: queue_run.induct) (auto intro: ring_ok_step run_channel_ok)

lemma run_capacities:
  "queue_run order q0 ls outs q \<Longrightarrow>
     eq_capacity q = eq_capacity q0 \<and> qr_capacity (eq_retention q) = qr_capacity (eq_retention q0)"
proof (induction rule: queue_run.induct)
  case (more q ls outs q' l out q'')
  have "eq_capacity q'' = eq_capacity q' \<and> qr_capacity (eq_retention q'') = qr_capacity (eq_retention q')"
    using more.hyps(2)
  proof cases
    case (publish same_thread e)
    then show ?thesis
      by (auto simp: publish_def enqueue_def drop_oldest_and_offer_def Let_def
          split: option.split overflow_strategy.split prod.split bool.split)
  next
    case (callback item rest)
    then show ?thesis
      by (auto simp: enqueue_cross_thread_def drop_oldest_and_offer_def Let_def
          split: option.split overflow_strategy.split prod.split bool.split)
  next
    case (take ch ch' item)
    then show ?thesis by (simp add: dispatch_take_def ring_append_def Let_def)
  qed (auto simp: queue_defs split: option.split prod.split)
  then show ?case using more.IH by simp
qed simp

lemma new_event_queue_ok:
  assumes "new_event_queue capacity retention overflow clock = Some q0"
  shows "channel_ok q0" "accounted (eq_metrics q0)" "overflow = DROP_OLDEST \<Longrightarrow> conserved q0"
    "in_order (sg_value clock) [] q0" "ring_ok [] q0" "eq_capacity q0 = nat capacity"
    "qr_capacity (eq_retention q0) = nat retention"
  using assms
  by (auto simp: new_event_queue_def new_ring_def channel_ok_def accounted_def conserved_def in_order_def
      ordered_def ring_ok_def Let_def new_queue_metrics_def take_last_def split: if_splits)

text \<open>C12: Every published event is accounted for. Whatever the producers on all threads, the
  dispatcher and the lifecycle calls do in whatever order, the channel never exceeds its capacity,
  the unfinished count that \<open>join\<close> waits on is exactly the waiting items plus the one in flight
  (so evicting the oldest item must call \<open>task_done\<close>, against the comment beside it), and the drop
  and replay counters add up; under the default strategy and until the queue is stopped, the
  published events are exactly the dispatched, in-flight, waiting, scheduled and evicted ones.\<close>

theorem queue_accounts_for_every_event:
  assumes new: "new_event_queue capacity retention overflow clock = Some q0"
    and run: "queue_run order q0 ls outs q"
  shows "(\<forall>ch. eq_channel q = Some ch \<longrightarrow>
            length (ch_items ch) \<le> nat capacity \<and>
            ch_unfinished ch = int (length (ch_items ch) + in_flight_count q)) \<and>
         (let m = eq_metrics q in
            qm_dropped_overflow m = qm_dropped_oldest m + qm_dropped_newest m + qm_fail_fast m \<and>
            qm_replay_requests m = qm_replay_hits m + qm_replay_misses m \<and>
            (overflow = DROP_OLDEST \<and> (\<forall>l\<in>set ls. \<not> stops l) \<longrightarrow>
               qm_published m = qm_dispatched m + in_flight_count q + length (channel_items q) +
                 length (eq_scheduled q) + qm_dropped_oldest m))"
proof -
  note ok = new_event_queue_ok[OF new]
  have "channel_ok q" using run_channel_ok[OF run ok(1)] .
  moreover have "accounted (eq_metrics q)" using run_accounted[OF run ok(1,2)] .
  moreover have "overflow = DROP_OLDEST \<and> (\<forall>l\<in>set ls. \<not> stops l) \<longrightarrow> conserved q"
    using run_conserved[OF run ok(1,3)] by blast
  moreover have "eq_capacity q = nat capacity" using run_capacities[OF run] ok(6) by simp
  ultimately show ?thesis
    by (auto simp: channel_ok_def accounted_def conserved_def Let_def)
qed

text \<open>C11: A replay hit of the queue is complete as long as all producers publish on the loop's thread:
  the items reach retention in strictly increasing sequence order, retention holds exactly the last
  of them, and a hit for a positive position returns exactly the items dispatched after it; a miss
  returns nothing.\<close>

theorem queue_replay_is_complete:
  assumes new: "new_event_queue capacity retention overflow clock = Some q0"
    and run: "queue_run order q0 ls outs q"
    and local: "\<forall>l\<in>set ls. same_thread_only l"
    and n: "0 < n"
  shows "sorted_wrt (<) (map qe_sequence (retained outs)) \<and>
         qr_items (eq_retention q) = take_last (nat retention) (retained outs) \<and>
         (let res = snd (events_since n q) in
            qs_events res =
              (if qs_hit res then filter (\<lambda>i. n < qe_sequence i) (retained outs) else []))"
proof -
  note ok = new_event_queue_ok[OF new]
  let ?r = "eq_retention q" and ?log = "retained outs"
  have "in_order (sg_value clock) outs q" using run_in_order[OF run ok(1,4) local] .
  then have sorted: "sorted_wrt (<) (map qe_sequence ?log)"
    by (simp add: in_order_def ordered_def sorted_wrt_append)
  have items: "qr_items ?r = take_last (nat retention) ?log"
    using run_ring_ok[OF run ok(1,5)] run_capacities[OF run] ok(7) by (simp add: ring_ok_def Let_def)
  obtain pre where pre: "?log = pre @ qr_items ?r"
    using take_last_append_split items by metis
  have "filter (\<lambda>i. n < qe_sequence i) ?log = ring_since n ?r" if "qs_hit (snd (events_since n q))"
  proof (cases "qr_items ?r")
    case Nil
    then show ?thesis using that n by (simp add: events_since_def Let_def ring_oldest_def ring_newest_def)
  next
    case (Cons old rest)
    have "qe_sequence old - 1 \<le> n"
    proof -
      have "qe_sequence old \<le> qe_sequence (last (old # rest))"
        using sorted pre Cons by (cases rest rule: rev_cases) (auto simp: sorted_wrt_append)
      then show ?thesis
        using that n Cons
        by (auto simp: events_since_def Let_def ring_oldest_def ring_newest_def last_of_def)
    qed
    then have "filter (\<lambda>i. n < qe_sequence i) pre = []"
      using sorted Cons by (fastforce simp: pre filter_empty_conv sorted_wrt_append)
    then show ?thesis by (simp add: pre ring_since_def)
  qed
  then have "qs_events (snd (events_since n q)) =
      (if qs_hit (snd (events_since n q)) then filter (\<lambda>i. n < qe_sequence i) ?log else [])"
    using n by (simp add: events_since_def Let_def)
  then show ?thesis using sorted items by (simp add: Let_def)
qed

section \<open>Witness schedules\<close>

definition sample_queue :: event_queue where
  "sample_queue = the (new_event_queue 1 2 DROP_OLDEST \<lparr>sg_value = 0, sg_max = MAX_SEQUENCE\<rparr>)"

lemma sample_queue:
  "new_event_queue 1 2 DROP_OLDEST \<lparr>sg_value = 0, sg_max = MAX_SEQUENCE\<rparr> = Some sample_queue"
  by (simp add: sample_queue_def new_event_queue_def new_ring_def)

lemmas queue_eval =
  sample_queue_def new_event_queue_def new_ring_def queue_start_def publish_def enqueue_def
  enqueue_cross_thread_def drop_oldest_and_offer_def channel_offer_def channel_take_nowait_def
  channel_task_done_def new_channel_def dispatch_take_def dispatch_finish_def fanout_failures_def
  registry_matching_def new_subscription_registry_def ring_append_def ring_push_def sequence_next_def
  set_post_dispatch_hook_def MAX_SEQUENCE_def new_queue_metrics_def qm_defs Let_def

definition sample_labels :: "queue_label list" where
  "sample_labels =
     [QStart, QPublish True (sample_event ''a'' 1 (OtherEvent ''x'')),
      QPublish True (sample_event ''b'' 2 (OtherEvent ''y'')), QTake, QFinish]"

lemma sample_run:
  obtains outs q where "queue_run (\<lambda>_. []) sample_queue sample_labels outs q"
    "retained outs = [\<lparr>qe_sequence = 2, qe_event = sample_event ''b'' 2 (OtherEvent ''y'')\<rparr>]"
    "qm_published (eq_metrics q) = 2" "qm_dropped_oldest (eq_metrics q) = 1"
    "snd (events_since 1 q) =
       \<lparr>qs_requested = 1, qs_hit = True, qs_oldest = Some 2, qs_newest = Some 2,
        qs_events = [\<lparr>qe_sequence = 2, qe_event = sample_event ''b'' 2 (OtherEvent ''y'')\<rparr>]\<rparr>"
proof -
  obtain outs q where ex: "queue_exec_all (\<lambda>_. []) sample_labels [] sample_queue = Some (outs, q)"
    and facts: "retained outs = [\<lparr>qe_sequence = 2, qe_event = sample_event ''b'' 2 (OtherEvent ''y'')\<rparr>]"
    "qm_published (eq_metrics q) = 2" "qm_dropped_oldest (eq_metrics q) = 1"
    "snd (events_since 1 q) =
       \<lparr>qs_requested = 1, qs_hit = True, qs_oldest = Some 2, qs_newest = Some 2,
        qs_events = [\<lparr>qe_sequence = 2, qe_event = sample_event ''b'' 2 (OtherEvent ''y'')\<rparr>]\<rparr>"
    by (simp add: sample_labels_def queue_eval events_since_def ring_oldest_def ring_newest_def
        ring_since_def)
  show thesis by (rule that[OF queue_run_exec[OF ex] facts])
qed

theorem queue_accounts_for_every_event_witness:
  "\<exists>outs q. queue_run (\<lambda>_. []) sample_queue sample_labels outs q \<and>
     qm_published (eq_metrics q) =
       qm_dispatched (eq_metrics q) + in_flight_count q + length (channel_items q) +
       length (eq_scheduled q) + 1"
proof -
  obtain outs q where run: "queue_run (\<lambda>_. []) sample_queue sample_labels outs q"
    "qm_dropped_oldest (eq_metrics q) = 1"
    using sample_run by blast
  have "\<forall>l\<in>set sample_labels. \<not> stops l" by (simp add: sample_labels_def)
  then show ?thesis
    using queue_accounts_for_every_event[OF sample_queue run(1)] run by (auto simp: Let_def)
qed

theorem queue_replay_is_complete_witness:
  "\<exists>outs q. queue_run (\<lambda>_. []) sample_queue sample_labels outs q \<and>
     map qe_sequence (qr_items (eq_retention q)) = [2]"
proof -
  obtain outs q where run: "queue_run (\<lambda>_. []) sample_queue sample_labels outs q"
    "retained outs = [\<lparr>qe_sequence = 2, qe_event = sample_event ''b'' 2 (OtherEvent ''y'')\<rparr>]"
    using sample_run by blast
  have "\<forall>l\<in>set sample_labels. same_thread_only l" by (simp add: sample_labels_def)
  then show ?thesis
    using queue_replay_is_complete[OF sample_queue run(1), of 1] run
    by (intro exI[of _ outs] exI[of _ q]) (simp add: take_last_def)
qed

end
