(* ===== verification/Timeline.thy ===== *)
theory Timeline
  imports StateViews
begin

text \<open>
  The timeline engine (\<open>runtime/timeline/*\<close>): the classification of transitions, the per-task
  working set with its open and finalized segments, the four reducers, the engine with its
  counters, deltas and binding to the state store, the spans, tracks and the snapshot.

  A listener's effect is the delta it receives; the deltas of a transition are the second component
  of \<open>apply_transition\<close>. The working set keeps every finalized segment in a list, as the code does
  (the bounded \<open>SegmentBuffer\<close> of \<open>buffering.py\<close> is modelled beside it; the engine never uses it).
\<close>

section \<open>Intents\<close>

datatype segment_intent = CREATE | OPEN_RUN | OPEN_WAIT | CLOSE_AND_FINALIZE | IGNORE

fun intent_for :: "task_state \<Rightarrow> segment_intent" where
  "intent_for CREATED = CREATE"
| "intent_for RUNNING = OPEN_RUN"
| "intent_for WAITING = OPEN_WAIT"
| "intent_for COMPLETED = CLOSE_AND_FINALIZE"
| "intent_for CANCELLED = CLOSE_AND_FINALIZE"
| "intent_for FAILED = CLOSE_AND_FINALIZE"

section \<open>Segments and the per-task working set\<close>

record timeline_segment =
  seg_task_id :: task_id
  seg_segment_id :: string
  seg_type :: string
  seg_sequence_start :: "int option"
  seg_sequence_end :: "int option"
  seg_start_ns :: int
  seg_end_ns :: int
  seg_duration_ns :: int
  seg_wall_start :: real
  seg_wall_end :: real
  seg_state :: string
  seg_parent_task_id :: "task_id option"
  seg_coroutine_name :: "string option"
  seg_task_name :: "string option"

record active_segment =
  act_task_id :: task_id
  act_segment_id :: string
  act_type :: string
  act_sequence_start :: "int option"
  act_start_ns :: int
  act_wall_start :: real
  act_state :: string
  act_parent_task_id :: "task_id option"
  act_coroutine_name :: "string option"
  act_task_name :: "string option"

record open_segment =
  osg_task_id :: task_id
  osg_segment_id :: string
  osg_type :: string
  osg_sequence_start :: "int option"
  osg_start_ns :: int
  osg_wall_start :: real
  osg_state :: string
  osg_parent_task_id :: "task_id option"
  osg_coroutine_name :: "string option"
  osg_task_name :: "string option"

record task_timeline =
  tk_task_id :: task_id
  tk_parent_task_id :: "task_id option"
  tk_coroutine_name :: "string option"
  tk_task_name :: "string option"
  tk_created :: bool
  tk_created_ns :: int
  tk_created_wall :: real
  tk_terminated_ns :: "int option"
  tk_terminated_wall :: "real option"
  tk_terminal_state :: "string option"
  tk_open :: "open_segment option"
  tk_segments :: "timeline_segment list"
  tk_counter :: nat
  tk_run_ns :: int
  tk_wait_ns :: int
  tk_depth :: nat
  tk_root_task_id :: "task_id option"

definition new_task_timeline :: "task_id \<Rightarrow> task_timeline" where
  "new_task_timeline t =
     \<lparr>tk_task_id = t, tk_parent_task_id = None, tk_coroutine_name = None, tk_task_name = None,
      tk_created = False, tk_created_ns = 0, tk_created_wall = 0, tk_terminated_ns = None,
      tk_terminated_wall = None, tk_terminal_state = None, tk_open = None, tk_segments = [],
      tk_counter = 0, tk_run_ns = 0, tk_wait_ns = 0, tk_depth = 0, tk_root_task_id = None\<rparr>"

text \<open>Python's decimal rendering of a natural number, for \<open>f"{task_id}:{index}"\<close>.\<close>

fun decimal :: "nat \<Rightarrow> string" where
  "decimal n =
     (if n < 10 then [char_of (48 + n)] else decimal (n div 10) @ [char_of (48 + n mod 10)])"

declare decimal.simps [simp del]

definition segment_id_of :: "task_id \<Rightarrow> nat \<Rightarrow> string" where
  "segment_id_of t n = t @ '':'' @ decimal n"

definition finalize_segment ::
  "open_segment \<Rightarrow> int option \<Rightarrow> int \<Rightarrow> real \<Rightarrow> timeline_segment" where
  "finalize_segment os sequence_end end_ns wall_end =
     \<lparr>seg_task_id = osg_task_id os, seg_segment_id = osg_segment_id os, seg_type = osg_type os,
      seg_sequence_start = osg_sequence_start os, seg_sequence_end = sequence_end,
      seg_start_ns = osg_start_ns os, seg_end_ns = end_ns,
      seg_duration_ns = max 0 (end_ns - osg_start_ns os), seg_wall_start = osg_wall_start os,
      seg_wall_end = wall_end, seg_state = osg_state os,
      seg_parent_task_id = osg_parent_task_id os, seg_coroutine_name = osg_coroutine_name os,
      seg_task_name = osg_task_name os\<rparr>"

definition view_active :: "open_segment \<Rightarrow> active_segment" where
  "view_active os =
     \<lparr>act_task_id = osg_task_id os, act_segment_id = osg_segment_id os, act_type = osg_type os,
      act_sequence_start = osg_sequence_start os, act_start_ns = osg_start_ns os,
      act_wall_start = osg_wall_start os, act_state = osg_state os,
      act_parent_task_id = osg_parent_task_id os, act_coroutine_name = osg_coroutine_name os,
      act_task_name = osg_task_name os\<rparr>"

definition close_open_segment ::
  "int option \<Rightarrow> int \<Rightarrow> real \<Rightarrow> task_timeline \<Rightarrow> task_timeline \<times> bool" where
  "close_open_segment sequence_end end_ns wall_end tk =
     (case tk_open tk of
        None \<Rightarrow> (tk, False)
      | Some os \<Rightarrow>
          let seg = finalize_segment os sequence_end end_ns wall_end;
              tk1 = tk\<lparr>tk_segments := tk_segments tk @ [seg]\<rparr>;
              tk2 = (if seg_type seg = ''run'' then tk1\<lparr>tk_run_ns := tk_run_ns tk1 + seg_duration_ns seg\<rparr>
                     else if seg_type seg = ''wait''
                     then tk1\<lparr>tk_wait_ns := tk_wait_ns tk1 + seg_duration_ns seg\<rparr>
                     else tk1)
          in (tk2\<lparr>tk_open := None\<rparr>, True))"

definition open_new_segment ::
  "string \<Rightarrow> int option \<Rightarrow> int \<Rightarrow> real \<Rightarrow> task_state \<Rightarrow> task_timeline \<Rightarrow> task_timeline" where
  "open_new_segment ty sequence_start start_ns wall_start target tk =
     tk\<lparr>tk_counter := tk_counter tk + 1,
        tk_open := Some
          \<lparr>osg_task_id = tk_task_id tk, osg_segment_id = segment_id_of (tk_task_id tk) (tk_counter tk),
           osg_type = ty, osg_sequence_start = sequence_start, osg_start_ns = start_ns,
           osg_wall_start = wall_start, osg_state = state_value target,
           osg_parent_task_id = tk_parent_task_id tk, osg_coroutine_name = tk_coroutine_name tk,
           osg_task_name = tk_task_name tk\<rparr>\<rparr>"

definition finalize_task :: "task_state \<Rightarrow> int \<Rightarrow> real \<Rightarrow> task_timeline \<Rightarrow> task_timeline" where
  "finalize_task terminal end_ns wall_end tk =
     tk\<lparr>tk_terminal_state := Some (state_value terminal), tk_terminated_ns := Some end_ns,
        tk_terminated_wall := Some wall_end\<rparr>"

definition total_duration_ns :: "int \<Rightarrow> task_timeline \<Rightarrow> int" where
  "total_duration_ns now tk =
     (case tk_terminated_ns tk of
        Some stop \<Rightarrow> max 0 (stop - tk_created_ns tk)
      | None \<Rightarrow> max 0 (now - tk_created_ns tk))"

section \<open>Reducers\<close>

datatype timeline_reject =
    NoIntent task_state
  | AlreadyCreated task_id
  | AlreadyTerminal task_id string
  | NotCreatedYet task_id

record timeline_result =
  tlr_applied :: bool
  tlr_closed :: bool
  tlr_opened :: "string option"
  tlr_finalized :: bool
  tlr_reason :: "timeline_reject option"
  tlr_invalid :: bool

definition timeline_rejected :: "timeline_reject \<Rightarrow> bool \<Rightarrow> timeline_result" where
  "timeline_rejected reason invalid =
     \<lparr>tlr_applied = False, tlr_closed = False, tlr_opened = None, tlr_finalized = False,
      tlr_reason = Some reason, tlr_invalid = invalid\<rparr>"

definition timeline_applied :: "bool \<Rightarrow> string option \<Rightarrow> bool \<Rightarrow> timeline_result" where
  "timeline_applied shut opened finalized =
     \<lparr>tlr_applied = True, tlr_closed = shut, tlr_opened = opened, tlr_finalized = finalized,
      tlr_reason = None, tlr_invalid = False\<rparr>"

text \<open>What the caller knows of the task, beside the transition.\<close>

record timeline_meta =
  tmt_parent_task_id :: "task_id option"
  tmt_coroutine_name :: "string option"
  tmt_task_name :: "string option"
  tmt_depth :: nat
  tmt_root_task_id :: "task_id option"

definition no_meta :: timeline_meta where
  "no_meta = \<lparr>tmt_parent_task_id = None, tmt_coroutine_name = None, tmt_task_name = None,
     tmt_depth = 0, tmt_root_task_id = None\<rparr>"

definition reduce_create ::
  "int \<Rightarrow> real \<Rightarrow> timeline_meta \<Rightarrow> task_timeline \<Rightarrow> task_timeline \<times> timeline_result" where
  "reduce_create ns wall meta tk =
     (if tk_created tk then (tk, timeline_rejected (AlreadyCreated (tk_task_id tk)) True)
      else (tk\<lparr>tk_created := True, tk_created_ns := ns, tk_created_wall := wall,
               tk_parent_task_id := tmt_parent_task_id meta,
               tk_coroutine_name := tmt_coroutine_name meta, tk_task_name := tmt_task_name meta,
               tk_depth := tmt_depth meta,
               tk_root_task_id := Some (or_else (tmt_root_task_id meta) (tk_task_id tk))\<rparr>,
            timeline_applied False None False))"

definition reduce_open ::
  "string \<Rightarrow> task_state \<Rightarrow> int option \<Rightarrow> int \<Rightarrow> real \<Rightarrow> task_timeline
     \<Rightarrow> task_timeline \<times> timeline_result" where
  "reduce_open ty target sequence ns wall tk =
     (case tk_terminal_state tk of
        Some s \<Rightarrow> (tk, timeline_rejected (AlreadyTerminal (tk_task_id tk) s) True)
      | None \<Rightarrow>
          if \<not> tk_created tk then (tk, timeline_rejected (NotCreatedYet (tk_task_id tk)) True)
          else
            case close_open_segment sequence ns wall tk of
              (tk1, shut) \<Rightarrow>
                (open_new_segment ty sequence ns wall target tk1,
                 timeline_applied shut (Some ty) False))"

definition reduce_open_run ::
  "int option \<Rightarrow> int \<Rightarrow> real \<Rightarrow> task_timeline \<Rightarrow> task_timeline \<times> timeline_result" where
  "reduce_open_run = reduce_open ''run'' RUNNING"

definition reduce_open_wait ::
  "int option \<Rightarrow> int \<Rightarrow> real \<Rightarrow> task_timeline \<Rightarrow> task_timeline \<times> timeline_result" where
  "reduce_open_wait = reduce_open ''wait'' WAITING"

definition reduce_close_and_finalize ::
  "task_state \<Rightarrow> int option \<Rightarrow> int \<Rightarrow> real \<Rightarrow> task_timeline \<Rightarrow> task_timeline \<times> timeline_result" where
  "reduce_close_and_finalize target sequence ns wall tk =
     (case tk_terminal_state tk of
        Some s \<Rightarrow> (tk, timeline_rejected (AlreadyTerminal (tk_task_id tk) s) True)
      | None \<Rightarrow>
          case close_open_segment sequence ns wall tk of
            (tk1, shut) \<Rightarrow>
              (finalize_task target ns wall tk1, timeline_applied shut None True))"

section \<open>Counters\<close>

record timeline_metrics =
  tmm_applied :: nat
  tmm_rejected :: nat
  tmm_opened :: nat
  tmm_closed :: nat
  tmm_by_type :: "(string, nat) dict"
  tmm_invalid :: nat
  tmm_active :: nat
  tmm_finalized :: nat
  tmm_rebuilds :: nat

definition new_timeline_metrics :: timeline_metrics where
  "new_timeline_metrics =
     \<lparr>tmm_applied = 0, tmm_rejected = 0, tmm_opened = 0, tmm_closed = 0, tmm_by_type = [],
      tmm_invalid = 0, tmm_active = 0, tmm_finalized = 0, tmm_rebuilds = 0\<rparr>"

definition tmm_record_applied :: "timeline_metrics \<Rightarrow> timeline_metrics" where
  "tmm_record_applied m = m\<lparr>tmm_applied := tmm_applied m + 1\<rparr>"

definition tmm_record_rejected :: "bool \<Rightarrow> timeline_metrics \<Rightarrow> timeline_metrics" where
  "tmm_record_rejected invalid m =
     m\<lparr>tmm_rejected := tmm_rejected m + 1,
       tmm_invalid := (if invalid then tmm_invalid m + 1 else tmm_invalid m)\<rparr>"

definition tmm_record_opened :: "string \<Rightarrow> timeline_metrics \<Rightarrow> timeline_metrics" where
  "tmm_record_opened ty m =
     m\<lparr>tmm_opened := tmm_opened m + 1, tmm_by_type := bump ty (tmm_by_type m),
       tmm_active := tmm_active m + 1\<rparr>"

text \<open>The gauge is only decremented while positive: subtraction on \<open>nat\<close>.\<close>

definition tmm_record_closed :: "timeline_metrics \<Rightarrow> timeline_metrics" where
  "tmm_record_closed m = m\<lparr>tmm_closed := tmm_closed m + 1, tmm_active := tmm_active m - 1\<rparr>"

definition tmm_record_finalized :: "timeline_metrics \<Rightarrow> timeline_metrics" where
  "tmm_record_finalized m = m\<lparr>tmm_finalized := tmm_finalized m + 1\<rparr>"

definition tmm_record_rebuild :: "timeline_metrics \<Rightarrow> timeline_metrics" where
  "tmm_record_rebuild m = m\<lparr>tmm_rebuilds := tmm_rebuilds m + 1\<rparr>"

definition tmm_reset :: "timeline_metrics \<Rightarrow> timeline_metrics" where
  "tmm_reset m = new_timeline_metrics\<lparr>tmm_rebuilds := tmm_rebuilds m\<rparr>"

lemmas tmm_defs =
  tmm_record_applied_def tmm_record_rejected_def tmm_record_opened_def tmm_record_closed_def
  tmm_record_finalized_def tmm_record_rebuild_def

section \<open>The engine\<close>

datatype delta_kind = SEGMENT_OPENED | SEGMENT_CLOSED | SPAN_FINALIZED

record timeline_delta =
  dl_kind :: delta_kind
  dl_task_id :: task_id
  dl_sequence :: "int option"
  dl_monotonic_ns :: int
  dl_wall_seconds :: real
  dl_segment :: "timeline_segment option"
  dl_open_segment :: "active_segment option"
  dl_terminal_state :: "string option"
  dl_closed_a_segment :: bool

record timeline_engine =
  en_states :: "(task_id, task_timeline) dict"
  en_metrics :: timeline_metrics
  en_last_sequence :: int
  en_next_id :: int
  en_listeners :: "(int, timeline_delta \<Rightarrow> bool) dict"

definition new_engine :: timeline_engine where
  "new_engine =
     \<lparr>en_states = [], en_metrics = new_timeline_metrics, en_last_sequence = 0, en_next_id = 0,
      en_listeners = []\<rparr>"

definition deltas_for ::
  "task_id \<Rightarrow> timeline_result \<Rightarrow> int option \<Rightarrow> int \<Rightarrow> real \<Rightarrow> timeline_segment option
     \<Rightarrow> active_segment option \<Rightarrow> string option \<Rightarrow> timeline_delta list" where
  "deltas_for t res sequence ns wall shut opened terminal =
     (let base = \<lparr>dl_kind = SEGMENT_CLOSED, dl_task_id = t, dl_sequence = sequence,
                  dl_monotonic_ns = ns, dl_wall_seconds = wall, dl_segment = None,
                  dl_open_segment = None, dl_terminal_state = None, dl_closed_a_segment = False\<rparr>
      in (if tlr_closed res \<and> shut \<noteq> None
          then [base\<lparr>dl_segment := shut, dl_closed_a_segment := True\<rparr>] else []) @
         (if tlr_opened res \<noteq> None \<and> opened \<noteq> None
          then [base\<lparr>dl_kind := SEGMENT_OPENED, dl_open_segment := opened\<rparr>] else []) @
         (if tlr_finalized res
          then [base\<lparr>dl_kind := SPAN_FINALIZED, dl_terminal_state := terminal\<rparr>] else []))"

definition count_result :: "timeline_result \<Rightarrow> timeline_metrics \<Rightarrow> timeline_metrics" where
  "count_result res m =
     (let m1 = tmm_record_applied m;
          m2 = (if tlr_closed res then tmm_record_closed m1 else m1);
          m3 = (case tlr_opened res of None \<Rightarrow> m2 | Some ty \<Rightarrow> tmm_record_opened ty m2)
      in if tlr_finalized res then tmm_record_finalized m3 else m3)"

definition reduce_transition ::
  "task_state \<Rightarrow> int option \<Rightarrow> int \<Rightarrow> real \<Rightarrow> timeline_meta \<Rightarrow> task_timeline
     \<Rightarrow> task_timeline \<times> timeline_result" where
  "reduce_transition target sequence ns wall meta tk =
     (case intent_for target of
        CREATE \<Rightarrow> reduce_create ns wall meta tk
      | OPEN_RUN \<Rightarrow> reduce_open_run sequence ns wall tk
      | OPEN_WAIT \<Rightarrow> reduce_open_wait sequence ns wall tk
      | _ \<Rightarrow> reduce_close_and_finalize target sequence ns wall tk)"

definition apply_transition ::
  "task_id \<Rightarrow> task_state \<Rightarrow> int option \<Rightarrow> int \<Rightarrow> real \<Rightarrow> timeline_meta \<Rightarrow> timeline_engine
     \<Rightarrow> timeline_engine \<times> timeline_delta list \<times> timeline_result" where
  "apply_transition t target sequence ns wall meta en =
     (if intent_for target = IGNORE
      then (en\<lparr>en_metrics := tmm_record_rejected False (en_metrics en)\<rparr>, [],
            timeline_rejected (NoIntent target) False)
      else
        let tk = (case dget (en_states en) t of None \<Rightarrow> new_task_timeline t | Some tk \<Rightarrow> tk)
        in case reduce_transition target sequence ns wall meta tk of
          (tk', res) \<Rightarrow>
            let en1 = en\<lparr>en_states := dset t tk' (en_states en)\<rparr>
            in if \<not> tlr_applied res
               then (en1\<lparr>en_metrics := tmm_record_rejected (tlr_invalid res) (en_metrics en)\<rparr>, [], res)
               else
                 (en1\<lparr>en_metrics := count_result res (en_metrics en),
                      en_last_sequence :=
                        (case sequence of
                           None \<Rightarrow> en_last_sequence en
                         | Some n \<Rightarrow> if en_last_sequence en < n then n else en_last_sequence en)\<rparr>,
                  if en_listeners en = [] then []
                  else deltas_for t res sequence ns wall
                    (if tlr_closed res then last_of (tk_segments tk') else None)
                    (if tlr_opened res \<noteq> None then map_option view_active (tk_open tk') else None)
                    (if tlr_finalized res then tk_terminal_state tk' else None),
                  res))"

definition engine_subscribe ::
  "(timeline_delta \<Rightarrow> bool) \<Rightarrow> timeline_engine \<Rightarrow> timeline_engine \<times> int" where
  "engine_subscribe l en =
     (let n = en_next_id en + 1
      in (en\<lparr>en_next_id := n, en_listeners := dset n l (en_listeners en)\<rparr>, n))"

definition engine_unsubscribe :: "int \<Rightarrow> timeline_engine \<Rightarrow> timeline_engine \<times> bool" where
  "engine_unsubscribe n en =
     (en\<lparr>en_listeners := dpop n (en_listeners en)\<rparr>, n \<in> set (dkeys (en_listeners en)))"

definition engine_subscriptions_clear :: "timeline_engine \<Rightarrow> timeline_engine" where
  "engine_subscriptions_clear en = en\<lparr>en_listeners := []\<rparr>"

definition engine_clear :: "timeline_engine \<Rightarrow> timeline_engine" where
  "engine_clear en = en\<lparr>en_states := [], en_metrics := tmm_reset (en_metrics en), en_last_sequence := 0\<rparr>"

text \<open>The listener the engine subscribes to the store: the registry is read when it is called.\<close>

definition event_to_state :: "string \<Rightarrow> task_state option" where
  "event_to_state ty =
     map_of [(''asyncio.task.created'', CREATED), (''asyncio.task.started'', RUNNING),
             (''asyncio.task.waiting'', WAITING), (''asyncio.task.resumed'', RUNNING),
             (''asyncio.task.completed'', COMPLETED), (''asyncio.task.cancelled'', CANCELLED),
             (''asyncio.task.failed'', FAILED)] ty"

definition meta_of :: "runtime_task option \<Rightarrow> timeline_meta" where
  "meta_of task =
     (case task of
        None \<Rightarrow> no_meta
      | Some r \<Rightarrow> \<lparr>tmt_parent_task_id = rt_parent_task_id r, tmt_coroutine_name = rt_coroutine_name r,
                  tmt_task_name = rt_task_name r, tmt_depth = rt_depth r,
                  tmt_root_task_id = rt_root_task_id r\<rparr>)"

definition engine_on_change :: "task_registry \<Rightarrow> state_change \<Rightarrow> timeline_engine \<Rightarrow> timeline_engine" where
  "engine_on_change r c en =
     (let e = sc_event c in
      case event_to_state (event_type e) of
        None \<Rightarrow> en
      | Some target \<Rightarrow>
          (case body_fields (ev_body e) of
             None \<Rightarrow> en
           | Some f \<Rightarrow>
               fst (apply_transition (te_task_id f) target (sc_sequence c) (ev_monotonic_ns e)
                 (ev_timestamp e) (meta_of (registry_get r (te_task_id f))) en)))"

section \<open>The bounded segment buffer\<close>

record segment_buffer =
  sbf_limit :: nat
  sbf_segments :: "(task_id, timeline_segment list) dict"
  sbf_evicted :: nat

text \<open>\<open>ValueError\<close> for a limit below one.\<close>

definition new_segment_buffer :: "int \<Rightarrow> segment_buffer option" where
  "new_segment_buffer limit =
     (if limit < 1 then None else Some \<lparr>sbf_limit = nat limit, sbf_segments = [], sbf_evicted = 0\<rparr>)"

definition segment_buffer_append :: "timeline_segment \<Rightarrow> segment_buffer \<Rightarrow> segment_buffer" where
  "segment_buffer_append seg b =
     (let xs = dget_or [] (sbf_segments b) (seg_task_id seg)
      in b\<lparr>sbf_segments :=
             dset (seg_task_id seg) (ring_push (sbf_limit b) seg xs) (sbf_segments b),
           sbf_evicted := (if length xs = sbf_limit b then sbf_evicted b + 1 else sbf_evicted b)\<rparr>)"

definition segment_buffer_get :: "task_id \<Rightarrow> segment_buffer \<Rightarrow> timeline_segment list" where
  "segment_buffer_get t b = dget_or [] (sbf_segments b) t"

definition segment_buffer_discard :: "task_id \<Rightarrow> segment_buffer \<Rightarrow> segment_buffer" where
  "segment_buffer_discard t b = b\<lparr>sbf_segments := dpop t (sbf_segments b)\<rparr>"

definition segment_buffer_clear :: "segment_buffer \<Rightarrow> segment_buffer" where
  "segment_buffer_clear b = b\<lparr>sbf_segments := [], sbf_evicted := 0\<rparr>"

definition segment_buffer_total :: "segment_buffer \<Rightarrow> nat" where
  "segment_buffer_total b = sum_list (map length (dvals (sbf_segments b)))"

section \<open>Spans, tracks and the snapshot\<close>

record lifecycle_span =
  sp_task_id :: task_id
  sp_parent_task_id :: "task_id option"
  sp_coroutine_name :: "string option"
  sp_task_name :: "string option"
  sp_created_ns :: int
  sp_created_wall :: real
  sp_terminated_ns :: "int option"
  sp_terminated_wall :: "real option"
  sp_terminal_state :: "string option"
  sp_total_ns :: int
  sp_run_ns :: int
  sp_wait_ns :: int
  sp_segment_count :: nat
  sp_segments :: "timeline_segment list"
  sp_active :: "active_segment option"
  sp_depth :: nat
  sp_root_task_id :: "task_id option"

definition build_lifecycle_span :: "int \<Rightarrow> task_timeline \<Rightarrow> lifecycle_span" where
  "build_lifecycle_span now tk =
     \<lparr>sp_task_id = tk_task_id tk, sp_parent_task_id = tk_parent_task_id tk,
      sp_coroutine_name = tk_coroutine_name tk, sp_task_name = tk_task_name tk,
      sp_created_ns = tk_created_ns tk, sp_created_wall = tk_created_wall tk,
      sp_terminated_ns = tk_terminated_ns tk, sp_terminated_wall = tk_terminated_wall tk,
      sp_terminal_state = tk_terminal_state tk, sp_total_ns = total_duration_ns now tk,
      sp_run_ns = tk_run_ns tk, sp_wait_ns = tk_wait_ns tk,
      sp_segment_count = length (tk_segments tk), sp_segments = tk_segments tk,
      sp_active = map_option view_active (tk_open tk), sp_depth = tk_depth tk,
      sp_root_task_id = tk_root_task_id tk\<rparr>"

record timeline_track =
  trk_id :: string
  trk_type :: string
  trk_label :: string
  trk_spans :: "lifecycle_span list"
  trk_earliest_ns :: int
  trk_latest_ns :: int

definition span_latest_ns :: "lifecycle_span \<Rightarrow> int" where
  "span_latest_ns s =
     (case sp_terminated_ns s of
        Some stop \<Rightarrow> stop
      | None \<Rightarrow>
          (case sp_active s of
             Some a \<Rightarrow> act_start_ns a + sp_total_ns s
           | None \<Rightarrow> sp_created_ns s + sp_total_ns s))"

text \<open>\<open>sort\<close> with a tuple key is a chain of stable sorts, least significant component first.\<close>

definition sort_spans :: "lifecycle_span list \<Rightarrow> lifecycle_span list" where
  "sort_spans spans = sort_key sp_created_ns (sort_key sp_task_id spans)"

definition project_per_task_tracks :: "lifecycle_span list \<Rightarrow> timeline_track list" where
  "project_per_task_tracks spans =
     map (\<lambda>s. \<lparr>trk_id = ''task:'' @ sp_task_id s, trk_type = ''task'',
              trk_label = or_else (sp_task_name s) (or_else (sp_coroutine_name s) (sp_task_id s)),
              trk_spans = [s], trk_earliest_ns = sp_created_ns s, trk_latest_ns = span_latest_ns s\<rparr>)
       (sort_spans spans)"

definition group_spans :: "(lifecycle_span \<Rightarrow> string) \<Rightarrow> lifecycle_span list \<Rightarrow> (string, lifecycle_span list) dict" where
  "group_spans key spans = fold (\<lambda>s. push_back (key s) s) spans []"

definition span_root :: "lifecycle_span \<Rightarrow> string" where
  "span_root s = or_else (sp_root_task_id s) (sp_task_id s)"

text \<open>A group is never empty, so \<open>min\<close>, \<open>max\<close> and \<open>group[0]\<close> are defined.\<close>

definition root_track :: "string \<times> lifecycle_span list \<Rightarrow> timeline_track" where
  "root_track g =
     (let group = sort_key sp_depth (sort_spans (snd g));
          root_span = (case find (\<lambda>s. sp_task_id s = fst g) group of None \<Rightarrow> hd group | Some s \<Rightarrow> s)
      in \<lparr>trk_id = ''root:'' @ fst g, trk_type = ''root'',
          trk_label = or_else (sp_task_name root_span) (or_else (sp_coroutine_name root_span) (fst g)),
          trk_spans = group, trk_earliest_ns = Min (set (map sp_created_ns group)),
          trk_latest_ns = Max (set (map span_latest_ns group))\<rparr>)"

definition project_root_tracks :: "lifecycle_span list \<Rightarrow> timeline_track list" where
  "project_root_tracks spans =
     sort_key trk_earliest_ns (sort_key trk_id (map root_track (group_spans span_root spans)))"

definition coroutine_track :: "string \<times> lifecycle_span list \<Rightarrow> timeline_track" where
  "coroutine_track g =
     (let group = sort_spans (snd g)
      in \<lparr>trk_id = ''coroutine:'' @ fst g, trk_type = ''coroutine'', trk_label = fst g,
          trk_spans = group, trk_earliest_ns = Min (set (map sp_created_ns group)),
          trk_latest_ns = Max (set (map span_latest_ns group))\<rparr>)"

definition project_coroutine_tracks :: "lifecycle_span list \<Rightarrow> timeline_track list" where
  "project_coroutine_tracks spans =
     sort_key trk_label (sort_key trk_earliest_ns
       (map coroutine_track (group_spans (\<lambda>s. or_else (sp_coroutine_name s) ''<anonymous>'') spans)))"

record timeline_snapshot =
  tsn_generated_at :: real
  tsn_generated_ns :: int
  tsn_runtime_id :: string
  tsn_last_sequence :: int
  tsn_tracks :: "timeline_track list"
  tsn_spans_by_task :: "(task_id, lifecycle_span) dict"
  tsn_active_segments :: "active_segment list"
  tsn_metrics :: timeline_metrics

text \<open>The clock's readings and identity are arguments.\<close>

definition build_timeline_snapshot ::
  "int \<Rightarrow> real \<Rightarrow> string \<Rightarrow> string \<Rightarrow> int \<Rightarrow> timeline_metrics \<Rightarrow> task_timeline list \<Rightarrow> timeline_snapshot" where
  "build_timeline_snapshot now_ns now runtime_id track_kind last_seq metrics states =
     (let spans = sort_spans (map (build_lifecycle_span now_ns) states)
      in \<lparr>tsn_generated_at = now, tsn_generated_ns = now_ns, tsn_runtime_id = runtime_id,
          tsn_last_sequence = last_seq,
          tsn_tracks =
            (if track_kind = ''root'' then project_root_tracks spans
             else if track_kind = ''coroutine'' then project_coroutine_tracks spans
             else project_per_task_tracks spans),
          tsn_spans_by_task = fold (\<lambda>s. dset (sp_task_id s) s) spans [],
          tsn_active_segments = List.map_filter sp_active spans, tsn_metrics = metrics\<rparr>)"

definition engine_snapshot ::
  "int \<Rightarrow> real \<Rightarrow> string \<Rightarrow> string \<Rightarrow> timeline_engine \<Rightarrow> timeline_snapshot" where
  "engine_snapshot now_ns now runtime_id track_kind en =
     build_timeline_snapshot now_ns now runtime_id track_kind (en_last_sequence en) (en_metrics en)
       (dvals (en_states en))"

definition get_segments :: "timeline_engine \<Rightarrow> task_id \<Rightarrow> timeline_segment list" where
  "get_segments en t = (case dget (en_states en) t of None \<Rightarrow> [] | Some tk \<Rightarrow> tk_segments tk)"

definition get_active_segment :: "timeline_engine \<Rightarrow> task_id \<Rightarrow> active_segment option" where
  "get_active_segment en t =
     (case dget (en_states en) t of None \<Rightarrow> None | Some tk \<Rightarrow> map_option view_active (tk_open tk))"

definition get_active_segments :: "timeline_engine \<Rightarrow> active_segment list" where
  "get_active_segments en = List.map_filter (\<lambda>tk. map_option view_active (tk_open tk)) (dvals (en_states en))"

definition get_span :: "int \<Rightarrow> timeline_engine \<Rightarrow> task_id \<Rightarrow> lifecycle_span option" where
  "get_span now en t =
     (case dget (en_states en) t of
        None \<Rightarrow> None
      | Some tk \<Rightarrow> if tk_created tk then Some (build_lifecycle_span now tk) else None)"

definition get_all_spans :: "int \<Rightarrow> timeline_engine \<Rightarrow> lifecycle_span list" where
  "get_all_spans now en = map (build_lifecycle_span now) (filter tk_created (dvals (en_states en)))"

section \<open>Reconstruction from the transition history\<close>

definition replay_order :: "task_id \<times> transition_record \<Rightarrow> int" where
  "replay_order p = (case tr_sequence (snd p) of None \<Rightarrow> -1 | Some n \<Rightarrow> n)"

definition flatten_history ::
  "(task_id, transition_record list) dict \<Rightarrow> (task_id \<times> transition_record) list" where
  "flatten_history d =
     sort_key replay_order (sort_key (\<lambda>p. tr_monotonic_ns (snd p)) (sort_key fst
       (concat (map (\<lambda>(t, rs). map (Pair t) rs) d))))"

definition replay_record ::
  "(task_id, timeline_meta) dict \<Rightarrow> task_id \<times> transition_record \<Rightarrow> timeline_engine \<times> nat
     \<Rightarrow> timeline_engine \<times> nat" where
  "replay_record metas p acc =
     (case apply_transition (fst p) (tr_state (snd p)) (tr_sequence (snd p)) (tr_monotonic_ns (snd p))
         (tr_wall_seconds (snd p)) (dget_or no_meta metas (fst p)) (fst acc) of
        (en, _, res) \<Rightarrow> (en, if tlr_applied res then snd acc + 1 else snd acc))"

definition replay_history ::
  "(task_id, transition_record list) dict \<Rightarrow> (task_id, timeline_meta) dict \<Rightarrow> timeline_engine
     \<Rightarrow> timeline_engine \<times> nat" where
  "replay_history d metas en = fold (replay_record metas) (flatten_history d) (en, 0)"

definition engine_rebuild ::
  "(task_id, transition_record list) dict \<Rightarrow> timeline_engine \<Rightarrow> timeline_engine \<times> nat" where
  "engine_rebuild d en =
     (case replay_history d [] (engine_clear en) of
        (en', n) \<Rightarrow> (en'\<lparr>en_metrics := tmm_record_rebuild (en_metrics en')\<rparr>, n))"

definition replay_state_store :: "store \<Rightarrow> timeline_engine \<Rightarrow> timeline_engine \<times> nat" where
  "replay_state_store st en =
     (let ids = dkeys (history_records (ss_history st))
      in replay_history (map (\<lambda>t. (t, history_get (ss_history st) t)) ids)
           (List.map_filter (\<lambda>t. map_option (\<lambda>r. (t, meta_of (Some r))) (registry_get (ss_registry st) t)) ids)
           en)"

section \<open>The segments of a task tile its life\<close>

fun contiguous :: "timeline_segment list \<Rightarrow> bool" where
  "contiguous (a # b # xs) \<longleftrightarrow> seg_end_ns a = seg_start_ns b \<and> contiguous (b # xs)"
| "contiguous _ \<longleftrightarrow> True"

lemma contiguous_snoc:
  "contiguous (xs @ [x]) \<longleftrightarrow> contiguous xs \<and> (xs \<noteq> [] \<longrightarrow> seg_end_ns (last xs) = seg_start_ns x)"
  by (induction xs rule: contiguous.induct) auto

definition time_in :: "string \<Rightarrow> timeline_segment list \<Rightarrow> int" where
  "time_in ty segs = sum_list (map seg_duration_ns (filter (\<lambda>s. seg_type s = ty) segs))"

lemma time_in_simps [simp]:
  "time_in ty [] = 0"
  "time_in ty (xs @ [x]) = time_in ty xs + (if seg_type x = ty then seg_duration_ns x else 0)"
  by (simp_all add: time_in_def)

definition open_ok :: "task_id \<Rightarrow> timeline_segment list \<Rightarrow> open_segment \<Rightarrow> bool" where
  "open_ok t segs os \<longleftrightarrow> osg_task_id os = t \<and> osg_type os \<in> {''run'', ''wait''} \<and>
     osg_segment_id os = segment_id_of t (length segs) \<and>
     (segs \<noteq> [] \<longrightarrow> seg_end_ns (last segs) = osg_start_ns os)"

definition timeline_ok :: "task_id \<Rightarrow> task_timeline \<Rightarrow> bool" where
  "timeline_ok t tk \<longleftrightarrow>
     tk_task_id tk = t \<and> contiguous (tk_segments tk) \<and>
     (\<forall>seg\<in>set (tk_segments tk). seg_task_id seg = t \<and> seg_type seg \<in> {''run'', ''wait''}) \<and>
     map seg_segment_id (tk_segments tk) = map (segment_id_of t) [0..<length (tk_segments tk)] \<and>
     tk_run_ns tk = time_in ''run'' (tk_segments tk) \<and>
     tk_wait_ns tk = time_in ''wait'' (tk_segments tk) \<and>
     (case tk_open tk of
        None \<Rightarrow> tk_counter tk = length (tk_segments tk) \<and>
                 (tk_terminal_state tk = None \<longrightarrow> tk_segments tk = [])
      | Some os \<Rightarrow> tk_counter tk = Suc (length (tk_segments tk)) \<and> tk_created tk \<and>
                 tk_terminal_state tk = None \<and> open_ok t (tk_segments tk) os) \<and>
     (case tk_terminal_state tk of
        None \<Rightarrow> tk_terminated_ns tk = None
      | Some _ \<Rightarrow> tk_terminated_ns tk \<noteq> None \<and>
          (tk_segments tk \<noteq> [] \<longrightarrow> tk_terminated_ns tk = Some (seg_end_ns (last (tk_segments tk)))))"

lemma timeline_ok_new: "timeline_ok t (new_task_timeline t)"
  by (simp add: timeline_ok_def new_task_timeline_def)

text \<open>Closing what is open, as one equation.\<close>

lemma close_open_segment_None: "tk_open tk = None \<Longrightarrow> close_open_segment sq ns wall tk = (tk, False)"
  by (simp add: close_open_segment_def)

lemma close_open_segment_Some:
  assumes "tk_open tk = Some os" "osg_type os \<in> {''run'', ''wait''}"
  shows "close_open_segment sq ns wall tk =
    (tk\<lparr>tk_segments := tk_segments tk @ [finalize_segment os sq ns wall],
        tk_run_ns := tk_run_ns tk + (if osg_type os = ''run'' then max 0 (ns - osg_start_ns os) else 0),
        tk_wait_ns := tk_wait_ns tk + (if osg_type os = ''wait'' then max 0 (ns - osg_start_ns os) else 0),
        tk_open := None\<rparr>, True)"
  using assms by (auto simp: close_open_segment_def finalize_segment_def Let_def)

lemma finalize_segment_simps [simp]:
  "seg_task_id (finalize_segment os sq ns wall) = osg_task_id os"
  "seg_segment_id (finalize_segment os sq ns wall) = osg_segment_id os"
  "seg_type (finalize_segment os sq ns wall) = osg_type os"
  "seg_start_ns (finalize_segment os sq ns wall) = osg_start_ns os"
  "seg_end_ns (finalize_segment os sq ns wall) = ns"
  "seg_duration_ns (finalize_segment os sq ns wall) = max 0 (ns - osg_start_ns os)"
  by (simp_all add: finalize_segment_def)

lemma timeline_ok_open:
  assumes ok: "timeline_ok t tk" and ty: "ty \<in> {''run'', ''wait''}"
  shows "timeline_ok t (fst (reduce_open ty target sq ns wall tk))"
proof (cases "tk_terminal_state tk = None \<and> tk_created tk")
  case False
  then show ?thesis using ok by (auto simp: reduce_open_def split: option.splits)
next
  case live: True
  show ?thesis
  proof (cases "tk_open tk")
    case None
    then show ?thesis
      using ok live ty
      by (auto simp: reduce_open_def close_open_segment_None open_new_segment_def timeline_ok_def open_ok_def)
  next
    case (Some os)
    then have "osg_type os \<in> {''run'', ''wait''}" using ok by (simp add: timeline_ok_def open_ok_def)
    then show ?thesis
      using ok live ty Some
      by (auto simp: reduce_open_def close_open_segment_Some[OF Some] open_new_segment_def
          timeline_ok_def open_ok_def contiguous_snoc)
  qed
qed

lemma timeline_ok_close:
  assumes ok: "timeline_ok t tk"
  shows "timeline_ok t (fst (reduce_close_and_finalize target sq ns wall tk))"
proof (cases "tk_terminal_state tk")
  case (Some s)
  then show ?thesis using ok by (simp add: reduce_close_and_finalize_def)
next
  case live: None
  show ?thesis
  proof (cases "tk_open tk")
    case None
    then show ?thesis
      using ok live
      by (auto simp: reduce_close_and_finalize_def close_open_segment_None finalize_task_def timeline_ok_def)
  next
    case (Some os)
    then have "osg_type os \<in> {''run'', ''wait''}" using ok live by (simp add: timeline_ok_def open_ok_def)
    then show ?thesis
      using ok live Some
      by (auto simp: reduce_close_and_finalize_def close_open_segment_Some[OF Some] finalize_task_def
          timeline_ok_def open_ok_def contiguous_snoc)
  qed
qed

lemma timeline_ok_reduce:
  assumes "timeline_ok t tk"
  shows "timeline_ok t (fst (reduce_transition target sq ns wall meta tk))"
proof -
  have "timeline_ok t (fst (reduce_create ns wall meta tk))"
    using assms by (auto simp: reduce_create_def timeline_ok_def split: option.splits)
  then show ?thesis
    using assms timeline_ok_open timeline_ok_close
    by (cases target) (simp_all add: reduce_transition_def reduce_open_run_def reduce_open_wait_def)
qed

text \<open>With a clock that does not run backwards the durations are the differences.\<close>

definition timed :: "int \<Rightarrow> task_timeline \<Rightarrow> bool" where
  "timed now tk \<longleftrightarrow>
     (\<forall>seg\<in>set (tk_segments tk). seg_start_ns seg \<le> seg_end_ns seg \<and>
        seg_duration_ns seg = seg_end_ns seg - seg_start_ns seg \<and> seg_end_ns seg \<le> now) \<and>
     (\<forall>os. tk_open tk = Some os \<longrightarrow> tk_created_ns tk \<le> osg_start_ns os \<and> osg_start_ns os \<le> now) \<and>
     (tk_segments tk \<noteq> [] \<longrightarrow> tk_created tk \<and> tk_created_ns tk \<le> seg_start_ns (hd (tk_segments tk))) \<and>
     (tk_created tk \<longrightarrow> tk_created_ns tk \<le> now)"

lemma timed_new: "timed now (new_task_timeline t)"
  by (simp add: timed_def new_task_timeline_def)

lemma timed_weaken: "timed now tk \<Longrightarrow> now \<le> now' \<Longrightarrow> timed now' tk"
  by (fastforce simp: timed_def)

lemma timed_closed:
  assumes "timed now tk" "timeline_ok t tk" "now \<le> ns"
  shows "timed ns (fst (close_open_segment sq ns wall tk))"
proof (cases "tk_open tk")
  case None
  then show ?thesis using timed_weaken[OF assms(1,3)] by (simp add: close_open_segment_None)
next
  case (Some os)
  have ok: "osg_type os \<in> {''run'', ''wait''}" "tk_created tk"
    using assms(2) Some by (simp_all add: timeline_ok_def open_ok_def)
  have t: "timed ns tk" by (rule timed_weaken[OF assms(1,3)])
  have os: "tk_created_ns tk \<le> osg_start_ns os" "osg_start_ns os \<le> ns"
    using t Some by (simp_all add: timed_def)
  show ?thesis
    unfolding close_open_segment_Some[OF Some ok(1)]
    using t ok(2) os by (cases "tk_segments tk") (auto simp: timed_def)
qed

lemma timed_reduce:
  assumes timed: "timed now tk" and ok: "timeline_ok t tk" and le: "now \<le> ns"
  shows "timed ns (fst (reduce_transition target sq ns wall meta tk))"
proof -
  note weak = timed_weaken[OF timed le]
  obtain tk1 b where cl: "close_open_segment sq ns wall tk = (tk1, b)" by fastforce
  have t1: "timed ns tk1" using timed_closed[OF timed ok le, of sq wall] cl by simp
  have fields: "tk_created tk1 = tk_created tk" "tk_created_ns tk1 = tk_created_ns tk"
    using cl by (auto simp: close_open_segment_def Let_def split: option.splits if_splits)
  have "timed ns (fst (reduce_create ns wall meta tk))"
  proof (cases "tk_created tk")
    case True
    then show ?thesis using weak by (simp add: reduce_create_def)
  next
    case False
    then have "tk_segments tk = []" "tk_open tk = None"
      using timed ok by (auto simp: timed_def timeline_ok_def split: option.splits)
    then show ?thesis using False by (simp add: reduce_create_def timed_def)
  qed
  moreover have "timed ns (fst (reduce_open ty st sq ns wall tk))" for ty st
  proof (cases "tk_terminal_state tk = None \<and> tk_created tk")
    case True
    then show ?thesis
      using t1 fields by (auto simp: reduce_open_def cl open_new_segment_def timed_def)
  next
    case False
    then show ?thesis using weak by (auto simp: reduce_open_def split: option.split)
  qed
  moreover have "timed ns (fst (reduce_close_and_finalize target sq ns wall tk))"
  proof (cases "tk_terminal_state tk")
    case None
    then show ?thesis
      using t1 by (simp add: reduce_close_and_finalize_def cl finalize_task_def timed_def)
  next
    case (Some s)
    then show ?thesis using weak by (simp add: reduce_close_and_finalize_def)
  qed
  ultimately show ?thesis
    by (cases target) (simp_all add: reduce_transition_def reduce_open_run_def reduce_open_wait_def)
qed

lemma tiled_time:
  assumes "segs \<noteq> []" "contiguous segs"
    and "\<forall>seg\<in>set segs. seg_type seg \<in> {''run'', ''wait''} \<and> seg_duration_ns seg = seg_end_ns seg - seg_start_ns seg"
  shows "time_in ''run'' segs + time_in ''wait'' segs = seg_end_ns (last segs) - seg_start_ns (hd segs)"
  using assms
proof (induction segs rule: rev_nonempty_induct)
  case (single x)
  then show ?case by (auto simp: time_in_def)
next
  case (snoc x xs)
  then have "time_in ''run'' xs + time_in ''wait'' xs = seg_start_ns x - seg_start_ns (hd xs)"
    by (simp add: contiguous_snoc)
  then show ?case using snoc by auto
qed

lemma time_in_nonneg: "\<forall>seg\<in>set segs. 0 \<le> seg_duration_ns seg \<Longrightarrow> 0 \<le> time_in ty segs"
  by (auto simp: time_in_def intro!: sum_list_nonneg)

section \<open>Runs of the engine\<close>

record transition_call =
  tc_task_id :: task_id
  tc_target :: task_state
  tc_sequence :: "int option"
  tc_ns :: int
  tc_wall :: real
  tc_meta :: timeline_meta

definition apply_call :: "transition_call \<Rightarrow> timeline_engine \<Rightarrow> timeline_engine" where
  "apply_call c en =
     fst (apply_transition (tc_task_id c) (tc_target c) (tc_sequence c) (tc_ns c) (tc_wall c) (tc_meta c) en)"

definition timeline_of :: "timeline_engine \<Rightarrow> task_id \<Rightarrow> task_timeline" where
  "timeline_of en t = (case dget (en_states en) t of None \<Rightarrow> new_task_timeline t | Some tk \<Rightarrow> tk)"

lemma intent_not_IGNORE [simp]: "intent_for target \<noteq> IGNORE"
  by (cases target) simp_all

lemma states_after_transition:
  "en_states (fst (apply_transition t target sq ns wall meta en)) =
     dset t (fst (reduce_transition target sq ns wall meta (timeline_of en t))) (en_states en)"
  by (simp add: apply_transition_def timeline_of_def Let_def split: prod.split)

definition engine_ok :: "timeline_engine \<Rightarrow> bool" where
  "engine_ok en \<longleftrightarrow> (\<forall>t tk. dget (en_states en) t = Some tk \<longrightarrow> timeline_ok t tk)"

lemma engine_ok_of: "engine_ok en \<Longrightarrow> timeline_ok t (timeline_of en t)"
  by (auto simp: engine_ok_def timeline_of_def timeline_ok_new split: option.split)

lemma engine_ok_transition:
  "engine_ok en \<Longrightarrow> engine_ok (fst (apply_transition t target sq ns wall meta en))"
  using engine_ok_of[of en t] timeline_ok_reduce
  by (auto simp: engine_ok_def states_after_transition dict_simps)

lemma engine_ok_new: "engine_ok new_engine"
  by (simp add: engine_ok_def new_engine_def)

lemma engine_ok_calls: "engine_ok en \<Longrightarrow> engine_ok (fold apply_call calls en)"
  by (induction calls arbitrary: en) (simp_all add: apply_call_def engine_ok_transition)

lemma timed_calls:
  assumes "sorted (map tc_ns calls)" "\<forall>c\<in>set calls. now \<le> tc_ns c" "engine_ok en"
    and "\<forall>t tk. dget (en_states en) t = Some tk \<longrightarrow> timed now tk"
    and "dget (en_states (fold apply_call calls en)) t = Some tk"
  shows "\<exists>now'. timed now' tk"
  using assms
proof (induction calls arbitrary: en now)
  case Nil
  then show ?case by auto
next
  case (Cons c calls)
  let ?en = "apply_call c en"
  have "timed now (timeline_of en u)" for u
    using Cons.prems(4) by (auto simp: timeline_of_def timed_new split: option.split)
  then have "timed (tc_ns c) (fst (reduce_transition (tc_target c) (tc_sequence c) (tc_ns c) (tc_wall c)
      (tc_meta c) (timeline_of en (tc_task_id c))))"
    using Cons.prems(2) by (intro timed_reduce[OF _ engine_ok_of[OF Cons.prems(3)]]) auto
  moreover have "timed (tc_ns c) tk" if "dget (en_states en) u = Some tk" for u tk
    using that Cons.prems(2,4) by (auto intro: timed_weaken)
  ultimately have "\<forall>u tk. dget (en_states ?en) u = Some tk \<longrightarrow> timed (tc_ns c) tk"
    by (auto simp: apply_call_def states_after_transition dict_simps)
  then show ?case
    using Cons.IH[of "tc_ns c" ?en] Cons.prems engine_ok_transition by (auto simp: apply_call_def)
qed


section \<open>The gauges\<close>

lemma reduce_outcome:
  assumes "timeline_ok t tk" "reduce_transition target sq ns wall meta tk = (tk', res)"
  shows "\<not> tlr_applied res \<Longrightarrow> tk' = tk"
    and "tlr_applied res \<Longrightarrow> tlr_closed res \<longleftrightarrow> tk_open tk \<noteq> None"
    and "tlr_applied res \<Longrightarrow> tlr_opened res \<noteq> None \<longleftrightarrow> tk_open tk' \<noteq> None"
    and "tlr_applied res \<Longrightarrow> tlr_finalized res \<longleftrightarrow> tk_terminal_state tk = None \<and> tk_terminal_state tk' \<noteq> None"
    and "tk_terminal_state tk \<noteq> None \<Longrightarrow> tk_terminal_state tk' = tk_terminal_state tk"
  using assms
  by (auto simp: reduce_transition_def reduce_create_def reduce_open_run_def reduce_open_wait_def
      reduce_open_def reduce_close_and_finalize_def close_open_segment_def open_new_segment_def
      finalize_task_def timeline_applied_def timeline_rejected_def timeline_ok_def Let_def
      split: segment_intent.splits option.splits prod.splits if_splits)

abbreviation open_tasks :: "timeline_engine \<Rightarrow> task_id set" where
  "open_tasks en \<equiv> keys_where (\<lambda>tk. tk_open tk \<noteq> None) (en_states en)"

abbreviation finished_tasks :: "timeline_engine \<Rightarrow> task_id set" where
  "finished_tasks en \<equiv> keys_where (\<lambda>tk. tk_terminal_state tk \<noteq> None) (en_states en)"

definition gauges_ok :: "timeline_engine \<Rightarrow> bool" where
  "gauges_ok en \<longleftrightarrow>
     tmm_active (en_metrics en) = card (open_tasks en) \<and>
     tmm_opened (en_metrics en) = tmm_closed (en_metrics en) + tmm_active (en_metrics en) \<and>
     tmm_finalized (en_metrics en) = card (finished_tasks en)"

lemma in_keys_where_timeline:
  "\<not> P (new_task_timeline t) \<Longrightarrow> t \<in> keys_where P (en_states en) \<longleftrightarrow> P (timeline_of en t)"
  by (auto simp: keys_where_def timeline_of_def split: option.split)

lemma gauges_step:
  assumes ok: "engine_ok en" and g: "gauges_ok en"
  shows "gauges_ok (fst (apply_transition t target sq ns wall meta en))"
proof -
  let ?tk = "timeline_of en t"
  obtain tk' res where red: "reduce_transition target sq ns wall meta ?tk = (tk', res)" by fastforce
  note out = reduce_outcome[OF engine_ok_of[OF ok] red]
  have mem: "t \<in> open_tasks en \<longleftrightarrow> tk_open ?tk \<noteq> None"
    "t \<in> finished_tasks en \<longleftrightarrow> tk_terminal_state ?tk \<noteq> None"
    by (simp_all add: in_keys_where_timeline new_task_timeline_def)
  define en1 where "en1 = fst (apply_transition t target sq ns wall meta en)"
  have states: "en_states en1 = dset t tk' (en_states en)"
    by (simp add: en1_def states_after_transition red)
  have cards: "int (card (open_tasks en1)) =
      int (card (open_tasks en)) + of_bool (tk_open tk' \<noteq> None) - of_bool (tk_open ?tk \<noteq> None)"
    "int (card (finished_tasks en1)) =
      int (card (finished_tasks en)) + of_bool (tk_terminal_state tk' \<noteq> None)
        - of_bool (tk_terminal_state ?tk \<noteq> None)"
    by (simp_all only: states card_keys_where_dset mem)
  have active: "tk_open ?tk \<noteq> None \<Longrightarrow> 0 < tmm_active (en_metrics en)"
    using g mem(1) by (auto simp: gauges_ok_def card_gt_0_iff)
  show ?thesis
  proof (cases "tlr_applied res")
    case False
    then have "en_metrics en1 = tmm_record_rejected (tlr_invalid res) (en_metrics en)"
      by (simp add: en1_def apply_transition_def timeline_of_def[symmetric] red Let_def)
    then show ?thesis
      using g cards out(1)[OF False] unfolding en1_def[symmetric]
      by (simp add: gauges_ok_def tmm_record_rejected_def)
  next
    case True
    then have m: "en_metrics en1 = count_result res (en_metrics en)"
      by (simp add: en1_def apply_transition_def timeline_of_def[symmetric] red Let_def)
    show ?thesis
      using g cards active out(2-4)[OF True] out(5) unfolding en1_def[symmetric] gauges_ok_def m
      by (cases "tk_open ?tk = None"; cases "tk_open tk' = None"; cases "tk_terminal_state ?tk";
          cases "tk_terminal_state tk'")
        (auto simp: count_result_def tmm_defs Let_def split: option.splits)
  qed
qed

text \<open>The engine's gauges are exact. Whatever transitions it is given, \<open>active_segments\<close> is the
  number of tasks with an open segment, every segment opened was closed or is still active (so the
  clamp of the gauge at zero never hides anything), \<open>finalized_spans\<close> is the number of tasks in a
  terminal state, and every transition is counted as applied or rejected.\<close>

theorem timeline_gauges_exact:
  "let en = fold apply_call calls new_engine; m = en_metrics en
   in tmm_active m = card (open_tasks en) \<and> tmm_opened m = tmm_closed m + tmm_active m \<and>
      tmm_finalized m = card (finished_tasks en) \<and>
      tmm_applied m + tmm_rejected m = length calls"
proof -
  have step: "tmm_applied (en_metrics (apply_call c en)) + tmm_rejected (en_metrics (apply_call c en)) =
      Suc (tmm_applied (en_metrics en) + tmm_rejected (en_metrics en))" for c en
    by (simp add: apply_call_def apply_transition_def count_result_def tmm_defs Let_def
        split: prod.split option.split)
  have "engine_ok en \<Longrightarrow> gauges_ok en \<Longrightarrow> gauges_ok (fold apply_call calls en) \<and>
      tmm_applied (en_metrics (fold apply_call calls en)) + tmm_rejected (en_metrics (fold apply_call calls en)) =
        tmm_applied (en_metrics en) + tmm_rejected (en_metrics en) + length calls" for en
  proof (induction calls arbitrary: en)
    case (Cons c calls)
    then show ?case
      using Cons.IH[of "apply_call c en"] step[of c en] gauges_step engine_ok_transition
      by (simp add: apply_call_def)
  qed simp
  from this[OF engine_ok_new] show ?thesis
    by (simp add: gauges_ok_def new_engine_def new_timeline_metrics_def Let_def)
qed

section \<open>The engine follows the store\<close>

definition shows_state :: "task_state \<Rightarrow> task_timeline \<Rightarrow> bool" where
  "shows_state s tk \<longleftrightarrow> tk_created tk \<and>
     (case s of
        CREATED \<Rightarrow> tk_open tk = None \<and> tk_terminal_state tk = None
      | RUNNING \<Rightarrow> map_option osg_type (tk_open tk) = Some ''run'' \<and> tk_terminal_state tk = None
      | WAITING \<Rightarrow> map_option osg_type (tk_open tk) = Some ''wait'' \<and> tk_terminal_state tk = None
      | _ \<Rightarrow> tk_open tk = None \<and> tk_terminal_state tk = Some (state_value s))"

text \<open>The state of a task as the engine has it, against the store's.\<close>

definition follows :: "store \<Rightarrow> timeline_engine \<Rightarrow> bool" where
  "follows st en \<longleftrightarrow>
     (\<forall>t. case store_states st t of
            None \<Rightarrow> dget (en_states en) t = None
          | Some s \<Rightarrow> (\<exists>tk. dget (en_states en) t = Some tk \<and> shows_state s tk)) \<and>
     tmm_rejected (en_metrics en) = 0"

definition bound_step :: "store_item \<Rightarrow> store \<times> timeline_engine \<Rightarrow> store \<times> timeline_engine" where
  "bound_step it p =
     (case apply_item it (fst p) of
        (st', _, cs) \<Rightarrow> (st', fold (engine_on_change (ss_registry st')) cs (snd p)))"

lemma event_to_state_body:
  "body_fields b = Some f \<Longrightarrow> event_to_state (body_event_type b) = body_target b"
  by (cases b) (auto simp: event_to_state_def)

lemma reduce_follows:
  assumes legal: "is_legal_transition state target"
    and state: "case state of None \<Rightarrow> tk = new_task_timeline t | Some s \<Rightarrow> shows_state s tk"
    and red: "reduce_transition target sq ns wall meta tk = (tk', res)"
  shows "tlr_applied res" "shows_state target tk'"
proof -
  have "tlr_applied res \<and> shows_state target tk'"
  proof (cases state)
    case None
    then show ?thesis
      using legal state red
      by (auto simp: is_legal_iff reduce_transition_def reduce_create_def new_task_timeline_def
          timeline_applied_def shows_state_def)
  next
    case (Some s)
    then have "can_transition s target" using legal by (simp add: is_legal_iff)
    then show ?thesis
      using Some state red
      by (cases s; cases target)
        (auto simp: can_transition_def shows_state_def reduce_transition_def reduce_open_run_def
          reduce_open_wait_def reduce_open_def reduce_close_and_finalize_def close_open_segment_def
          open_new_segment_def finalize_task_def timeline_applied_def Let_def split: if_splits)
  qed
  then show "tlr_applied res" "shows_state target tk'" by blast+
qed

lemma follows_step:
  assumes base: "base_ok st" and fol: "follows st en"
  shows "case bound_step it (st, en) of (st', en') \<Rightarrow> base_ok st' \<and> follows st' en'"
proof -
  let ?e = "si_event it" and ?n = "si_sequence it"
  show ?thesis
  proof (cases rule: store_apply_cases[OF base, of ?n ?e "si_now it" "si_later it",
        case_names stale duplicate passed rejected accepted])
    case stale
    then show ?thesis using base fol by (simp add: bound_step_def apply_item_def base_ok_def follows_def)
  next
    case duplicate
    then show ?thesis using base fol by (simp add: bound_step_def apply_item_def base_ok_def follows_def)
  next
    case (rejected f target m)
    then show ?thesis using base fol by (simp add: bound_step_def apply_item_def base_ok_def follows_def)
  next
    case passed
    then have "body_fields (ev_body ?e) = None"
      by (cases "ev_body ?e") (simp_all add: is_task_event_def)
    then show ?thesis
      using passed base fol
      by (simp add: bound_step_def apply_item_def base_ok_def follows_def announce_def notify_def
          record_policy_def engine_on_change_def change_of_def normalize_event_def Let_def split: option.split)
  next
    case (accepted f target bus m)
    define st' where "st' = fst (apply_item it st)"
    define en' where "en' = snd (bound_step it (st, en))"
    have reg: "registry_ok (ss_registry st)" using base by (simp add: base_ok_def)
    have states: "store_states st' = (store_states st)(te_task_id f := Some target)"
      using handle_event_legal[OF reg accepted(2,3,4)] accepted(5)
      by (simp add: st'_def apply_item_def announce_def notify_def accept_into_def record_policy_def Let_def)
    have en': "en' = fst (apply_transition (te_task_id f) target ?n (ev_monotonic_ns ?e) (ev_timestamp ?e)
        (meta_of (registry_get (ss_registry st') (te_task_id f))) en)"
      using accepted(2,3,5) event_to_state_body[OF accepted(2)]
      by (simp add: en'_def st'_def bound_step_def apply_item_def announce_def notify_def accept_into_def
          record_policy_def engine_on_change_def change_of_def normalize_event_def event_type_def Let_def)
    obtain tk' res where red: "reduce_transition target ?n (ev_monotonic_ns ?e) (ev_timestamp ?e)
        (meta_of (registry_get (ss_registry st') (te_task_id f))) (timeline_of en (te_task_id f)) = (tk', res)"
      by fastforce
    have "case store_states st (te_task_id f) of
        None \<Rightarrow> timeline_of en (te_task_id f) = new_task_timeline (te_task_id f)
      | Some s \<Rightarrow> shows_state s (timeline_of en (te_task_id f))"
      using fol by (auto simp: follows_def timeline_of_def split: option.splits dest!: spec[of _ "te_task_id f"])
    note moved = reduce_follows[OF accepted(4) this red]
    have "follows st' en'"
      unfolding follows_def
    proof (intro conjI allI)
      show "tmm_rejected (en_metrics en') = 0"
        using fol moved(1) by (simp add: en' apply_transition_def timeline_of_def[symmetric] red follows_def
            count_result_def tmm_defs Let_def split: option.split)
      fix t
      show "case store_states st' t of
          None \<Rightarrow> dget (en_states en') t = None
        | Some s \<Rightarrow> (\<exists>tk. dget (en_states en') t = Some tk \<and> shows_state s tk)"
      proof (cases "t = te_task_id f")
        case True
        then show ?thesis using moved(2) by (simp add: states en' states_after_transition red dict_simps)
      next
        case False
        then have "dget (en_states en') t = dget (en_states en) t" "store_states st' t = store_states st t"
          by (simp_all add: states en' states_after_transition dict_simps)
        then show ?thesis using fol by (simp only: follows_def)
      qed
    qed
    moreover have "base_ok st'" unfolding st'_def by (rule base_ok_apply_item[OF base])
    moreover have "bound_step it (st, en) = (st', en')"
      by (simp add: st'_def en'_def bound_step_def split: prod.split)
    ultimately show ?thesis by simp
  qed
qed

lemma follows_run:
  "base_ok st \<Longrightarrow> follows st en \<Longrightarrow>
     follows (fst (fold bound_step its (st, en))) (snd (fold bound_step its (st, en)))"
proof (induction its arbitrary: st en)
  case (Cons it its)
  obtain st' en' where step: "bound_step it (st, en) = (st', en')" by fastforce
  then have "base_ok st'" "follows st' en'" using follows_step[OF Cons.prems, of it] by simp_all
  from Cons.IH[OF this] show ?case by (simp add: step)
qed simp

lemma bound_run_store: "fst (fold bound_step its (st, en)) = after its st"
  by (induction its arbitrary: st en) (simp_all add: bound_step_def split_beta)

text \<open>C6: The timeline engine follows the store. Bound to a store, whatever stream the store is fed,
  the engine rejects nothing, knows exactly the tasks the registry tracks, and shows for each the
  registry's state: created without an open segment, running in an open run segment, waiting in an
  open wait segment, or terminated in that state.\<close>

theorem timeline_follows_the_store:
  assumes fresh: "fresh_store depth window limit = Some st0"
    and run: "fold bound_step its (st0, new_engine) = (st, en)"
  shows "st = after its st0 \<and> tmm_rejected (en_metrics en) = 0 \<and>
         dom (dget (en_states en)) = dom (store_states st) \<and>
         (case store_states st t of
            None \<Rightarrow> dget (en_states en) t = None
          | Some s \<Rightarrow> (\<exists>tk. dget (en_states en) t = Some tk \<and> shows_state s tk))"
proof -
  have base: "base_ok st0" using store_ok_fresh[OF fresh] by (simp add: store_ok_def)
  have "store_states st0 = (\<lambda>_. None)"
    using fresh by (auto simp: fresh_store_def new_store_def states_of_def registry_get_def
        new_registry_def empty_index_def split: option.splits)
  then have "follows st0 new_engine"
    by (simp add: follows_def new_engine_def new_timeline_metrics_def)
  then have fol: "follows st en" using follows_run[OF base, of new_engine its] run by simp
  then have states: "case store_states st u of
      None \<Rightarrow> dget (en_states en) u = None
    | Some s \<Rightarrow> (\<exists>tk. dget (en_states en) u = Some tk \<and> shows_state s tk)" for u
    by (simp add: follows_def)
  have "u \<in> dom (dget (en_states en)) \<longleftrightarrow> u \<in> dom (store_states st)" for u
    using states[of u] by (auto split: option.splits)
  then show ?thesis
    using fol states bound_run_store[of its st0 new_engine] run by (auto simp: follows_def)
qed

lemma distinct_calls: "distinct (dkeys (en_states (fold apply_call calls new_engine)))"
proof -
  have "distinct (dkeys (en_states en)) \<Longrightarrow> distinct (dkeys (en_states (fold apply_call calls en)))" for en
    by (induction calls arbitrary: en)
      (auto simp: apply_call_def states_after_transition simp del: distinct_map)
  then show ?thesis by (simp add: new_engine_def)
qed

lemma dget_spans:
  "\<exists>s\<in>set xs. sp_task_id s = t \<Longrightarrow>
     \<exists>s\<in>set xs. sp_task_id s = t \<and> dget (fold (\<lambda>s. dset (sp_task_id s) s) xs d) t = Some s"
  by (induction xs rule: rev_induct) (auto simp: dict_simps)

text \<open>A rejected transition leaves a phantom. A start of a task the engine never saw created is
  rejected, but its empty working set stays: the snapshot lists a span for it, created at time zero,
  although \<open>get_all_spans\<close> and \<open>get_span\<close> leave it out.\<close>

theorem rejected_transition_leaves_a_span:
  assumes run: "en = fold apply_call calls new_engine" and new: "dget (en_states en) t = None"
    and en': "en' = fst (apply_transition t RUNNING sq ns wall meta en)"
  shows "\<not> tlr_applied (snd (snd (apply_transition t RUNNING sq ns wall meta en))) \<and>
         get_span now en' t = None \<and> get_all_spans now en' = get_all_spans now en \<and>
         map_option sp_created_ns
           (dget (tsn_spans_by_task (engine_snapshot now real_now runtime_id kind en')) t) = Some 0"
proof -
  let ?tk = "new_task_timeline t"
  have res: "reduce_transition RUNNING sq ns wall meta ?tk = (?tk, timeline_rejected (NotCreatedYet t) True)"
    by (simp add: reduce_transition_def reduce_open_run_def reduce_open_def new_task_timeline_def)
  have fresh: "t \<notin> set (dkeys (en_states en))" using new by (simp add: dget_None_iff del: set_map)
  have upd: "en_states en' = dset t ?tk (en_states en)"
    unfolding en' states_after_transition timeline_of_def using new res by simp
  then have states: "en_states en' = en_states en @ [(t, ?tk)]" using dset_fresh[OF fresh] by simp
  have keys: "distinct (dkeys (en_states en))" unfolding run by (rule distinct_calls)
  have rejected: "\<not> tlr_applied (snd (snd (apply_transition t RUNNING sq ns wall meta en)))"
    using new res by (simp add: apply_transition_def timeline_rejected_def Let_def)
  have one: "get_span now en' t = None"
    by (simp add: get_span_def upd dict_simps new_task_timeline_def)
  have all: "get_all_spans now en' = get_all_spans now en"
    by (simp add: get_all_spans_def states new_task_timeline_def)
  let ?spans = "sort_spans (map (build_lifecycle_span now) (dvals (en_states en')))"
  have "sp_task_id s = t \<Longrightarrow> s \<in> set ?spans \<Longrightarrow> s = build_lifecycle_span now ?tk" for s
  proof -
    assume id: "sp_task_id s = t" and s: "s \<in> set ?spans"
    have "tk_task_id tk \<noteq> t" if "(u, tk) \<in> set (en_states en)" for u tk
    proof -
      have "dget (en_states en) u = Some tk" using that keys by (simp add: map_of_eq_Some_iff)
      then have "timeline_ok u tk" using engine_ok_calls[OF engine_ok_new] run by (auto simp: engine_ok_def)
      moreover have "u \<noteq> t" using fresh that by force
      ultimately show ?thesis by (simp add: timeline_ok_def)
    qed
    moreover obtain tk where tk: "s = build_lifecycle_span now tk" "tk = ?tk \<or> (\<exists>u. (u, tk) \<in> set (en_states en))"
    proof -
      have "s \<in> build_lifecycle_span now ` set (dvals (en_states en'))"
        using s by (simp add: sort_spans_def image_image)
      then show thesis using that unfolding states by fastforce
    qed
    moreover have "tk_task_id tk = t" using id tk(1) by (simp add: build_lifecycle_span_def)
    ultimately show ?thesis by blast
  qed
  moreover have "\<exists>s\<in>set ?spans. sp_task_id s = t"
    by (auto simp: sort_spans_def states build_lifecycle_span_def new_task_timeline_def)
  ultimately have "dget (fold (\<lambda>s. dset (sp_task_id s) s) ?spans []) t = Some (build_lifecycle_span now ?tk)"
    using dget_spans[of ?spans t "[]"] by blast
  then show ?thesis
    using rejected one all
    by (simp add: engine_snapshot_def build_timeline_snapshot_def Let_def build_lifecycle_span_def
        new_task_timeline_def)
qed

section \<open>Witness runs\<close>

definition sample_calls :: "transition_call list" where
  "sample_calls =
     [\<lparr>tc_task_id = ''a'', tc_target = CREATED, tc_sequence = Some 1, tc_ns = 10, tc_wall = 1, tc_meta = no_meta\<rparr>,
      \<lparr>tc_task_id = ''a'', tc_target = RUNNING, tc_sequence = Some 2, tc_ns = 15, tc_wall = 2, tc_meta = no_meta\<rparr>,
      \<lparr>tc_task_id = ''a'', tc_target = WAITING, tc_sequence = Some 3, tc_ns = 40, tc_wall = 3, tc_meta = no_meta\<rparr>,
      \<lparr>tc_task_id = ''a'', tc_target = COMPLETED, tc_sequence = Some 4, tc_ns = 100, tc_wall = 4, tc_meta = no_meta\<rparr>]"

lemmas timeline_eval =
  sample_calls_def apply_call_def apply_transition_def reduce_transition_def reduce_create_def
  reduce_open_run_def reduce_open_wait_def reduce_open_def reduce_close_and_finalize_def
  close_open_segment_def open_new_segment_def finalize_task_def finalize_segment_def
  timeline_applied_def timeline_rejected_def new_engine_def new_task_timeline_def Let_def


theorem timeline_follows_the_store_witness:
  "\<exists>st0 st en. fresh_store 8192 4096 1024 = Some st0 \<and>
     fold bound_step [sample_item ''e1'' 1 (TaskCreatedEvent (sample_fields ''a''))] (st0, new_engine) = (st, en) \<and>
     tmm_rejected (en_metrics en) = 0"
proof -
  obtain st0 where st0: "fresh_store 8192 4096 1024 = Some st0"
    using fresh_store_exists[of 4096 1024 8192] by auto
  obtain st en where run: "fold bound_step [sample_item ''e1'' 1 (TaskCreatedEvent (sample_fields ''a''))]
      (st0, new_engine) = (st, en)" by fastforce
  show ?thesis using st0 run timeline_follows_the_store[OF st0 run] by blast
qed

theorem rejected_transition_leaves_a_span_witness:
  "map_option sp_created_ns
     (dget (tsn_spans_by_task (engine_snapshot 500 0 ''r'' ''task''
        (fst (apply_transition ''ghost'' RUNNING None 400 0 no_meta
          (fold apply_call sample_calls new_engine))))) ''ghost'') = Some 0"
proof -
  have "dget (en_states (fold apply_call sample_calls new_engine)) ''ghost'' = None"
    by (simp add: timeline_eval)
  from rejected_transition_leaves_a_span[OF refl this refl] show ?thesis by blast
qed

end
