(* ===== verification/Breaker.thy ===== *)
theory Breaker
  imports Prelude
begin

text \<open>
  The circuit breaker of the resilience layer (\<open>asyncviz/runtime/resilience\<close>): its policy and
  presets, the classification of failures, the three-state breaker, and the runtime mode derived
  from the breakers. Every operation of \<open>CircuitBreaker\<close> holds the breaker's lock from its first
  read to its last write, so an operation is one function of the state; the clock reading each
  operation takes (\<open>now_ns\<close> or \<open>time.monotonic_ns()\<close>) is an argument. An exception is its class
  hierarchy by name, its \<open>errno\<close> and its text.
\<close>

section \<open>Value models\<close>

datatype breaker_state = CLOSED | OPEN | HALF_OPEN

definition is_open :: "breaker_state \<Rightarrow> bool" where
  "is_open s \<longleftrightarrow> s = OPEN"

definition admits_traffic :: "breaker_state \<Rightarrow> bool" where
  "admits_traffic s \<longleftrightarrow> s = CLOSED \<or> s = HALF_OPEN"

datatype failure_kind =
    KTransient | KCorruption | KProtocol | KResource | KCancelled | KProgrammer | KUnknown

fun kind_value :: "failure_kind \<Rightarrow> string" where
  "kind_value KTransient = ''transient''"
| "kind_value KCorruption = ''corruption''"
| "kind_value KProtocol = ''protocol''"
| "kind_value KResource = ''resource''"
| "kind_value KCancelled = ''cancelled''"
| "kind_value KProgrammer = ''programmer''"
| "kind_value KUnknown = ''unknown''"

definition do_not_retry :: "failure_kind \<Rightarrow> bool" where
  "do_not_retry k \<longleftrightarrow> k = KProgrammer \<or> k = KCorruption"

datatype subsystem_id =
    SubReplay | SubWebsocket | SubReducer | SubRender | SubRecorder | SubInstrumentation | SubCustom

fun subsystem_value :: "subsystem_id \<Rightarrow> string" where
  "subsystem_value SubReplay = ''replay''"
| "subsystem_value SubWebsocket = ''websocket''"
| "subsystem_value SubReducer = ''reducer''"
| "subsystem_value SubRender = ''render''"
| "subsystem_value SubRecorder = ''recorder''"
| "subsystem_value SubInstrumentation = ''instrumentation''"
| "subsystem_value SubCustom = ''custom''"

definition critical_subsystems :: "string list" where
  "critical_subsystems = map subsystem_value [SubReplay, SubRecorder]"

section \<open>Policies and presets\<close>

record subsystem_policy =
  failure_threshold :: int
  failure_window_s :: real
  open_duration_s :: real
  half_open_probes :: int
  recovery_backoff_s :: real
  max_recovery_attempts :: int
  quarantine_payload_kind :: bool
  treat_cancelled_as_failure :: bool

definition SubsystemPolicy :: subsystem_policy where
  "SubsystemPolicy =
     \<lparr>failure_threshold = 5, failure_window_s = 30, open_duration_s = 5, half_open_probes = 1,
      recovery_backoff_s = 1, max_recovery_attempts = 6, quarantine_payload_kind = False,
      treat_cancelled_as_failure = False\<rparr>"

definition replay_policy :: subsystem_policy where
  "replay_policy = SubsystemPolicy
     \<lparr>failure_threshold := 8, failure_window_s := 15, open_duration_s := 5 / 2,
      quarantine_payload_kind := True\<rparr>"

definition websocket_policy :: subsystem_policy where
  "websocket_policy = SubsystemPolicy
     \<lparr>failure_threshold := 12, failure_window_s := 10, open_duration_s := 1, half_open_probes := 4\<rparr>"

definition reducer_policy :: subsystem_policy where
  "reducer_policy = SubsystemPolicy
     \<lparr>failure_threshold := 4, failure_window_s := 5, open_duration_s := 2\<rparr>"

definition render_policy :: subsystem_policy where
  "render_policy = SubsystemPolicy
     \<lparr>failure_threshold := 6, failure_window_s := 4, open_duration_s := 1\<rparr>"

definition recorder_policy :: subsystem_policy where
  "recorder_policy = SubsystemPolicy
     \<lparr>failure_threshold := 3, failure_window_s := 30, open_duration_s := 10,
      quarantine_payload_kind := True\<rparr>"

record isolation_config =
  cfg_default_policy :: subsystem_policy
  cfg_per_subsystem :: "(string, subsystem_policy) dict"
  cfg_trace_capacity :: nat
  cfg_enable_tracing :: bool
  cfg_autorecover :: bool
  cfg_halt_on_critical_subsystem :: bool
  cfg_degraded_grace_s :: real

definition default_config :: isolation_config where
  "default_config =
     \<lparr>cfg_default_policy = SubsystemPolicy,
      cfg_per_subsystem =
        [(''replay'', replay_policy), (''websocket'', websocket_policy),
         (''reducer'', reducer_policy), (''render'', render_policy),
         (''recorder'', recorder_policy)],
      cfg_trace_capacity = 256, cfg_enable_tracing = False, cfg_autorecover = True,
      cfg_halt_on_critical_subsystem = False, cfg_degraded_grace_s = 30\<rparr>"

definition lean_config :: isolation_config where
  "lean_config = default_config
     \<lparr>cfg_default_policy := SubsystemPolicy
        \<lparr>failure_threshold := 3, failure_window_s := 5, open_duration_s := 1,
         recovery_backoff_s := 1 / 2\<rparr>,
      cfg_per_subsystem :=
        [(''replay'', SubsystemPolicy
            \<lparr>failure_threshold := 4, failure_window_s := 5, open_duration_s := 1,
             quarantine_payload_kind := True\<rparr>),
         (''websocket'', SubsystemPolicy
            \<lparr>failure_threshold := 6, failure_window_s := 4, open_duration_s := 1 / 2,
             half_open_probes := 2\<rparr>),
         (''reducer'', SubsystemPolicy
            \<lparr>failure_threshold := 2, failure_window_s := 2, open_duration_s := 1 / 2\<rparr>),
         (''render'', SubsystemPolicy
            \<lparr>failure_threshold := 3, failure_window_s := 2, open_duration_s := 1 / 2\<rparr>),
         (''recorder'', SubsystemPolicy
            \<lparr>failure_threshold := 2, failure_window_s := 10, open_duration_s := 2,
             quarantine_payload_kind := True\<rparr>)],
      cfg_degraded_grace_s := 10\<rparr>"

definition relaxed_config :: isolation_config where
  "relaxed_config = default_config
     \<lparr>cfg_default_policy := SubsystemPolicy
        \<lparr>failure_threshold := 20, failure_window_s := 120, open_duration_s := 30,
         recovery_backoff_s := 5, max_recovery_attempts := 20\<rparr>,
      cfg_per_subsystem :=
        [(''replay'', SubsystemPolicy
            \<lparr>failure_threshold := 24, failure_window_s := 120, open_duration_s := 15,
             quarantine_payload_kind := True\<rparr>),
         (''websocket'', SubsystemPolicy
            \<lparr>failure_threshold := 40, failure_window_s := 60, open_duration_s := 10,
             half_open_probes := 8\<rparr>),
         (''reducer'', SubsystemPolicy
            \<lparr>failure_threshold := 12, failure_window_s := 60, open_duration_s := 10\<rparr>),
         (''render'', SubsystemPolicy
            \<lparr>failure_threshold := 20, failure_window_s := 30, open_duration_s := 5\<rparr>),
         (''recorder'', SubsystemPolicy
            \<lparr>failure_threshold := 10, failure_window_s := 300, open_duration_s := 60,
             quarantine_payload_kind := True\<rparr>)],
      cfg_degraded_grace_s := 120\<rparr>"

section \<open>Failure classification\<close>

record py_exception =
  exc_classes :: "string list"
  exc_errno :: "int option"
  exc_text :: string

text \<open>
  \<open>exc_classes\<close> is the names of the exception's class and its bases (its method resolution
  order), the class itself first, so \<open>isinstance(exc, C)\<close> asks whether \<open>C\<close> is in it.
\<close>

definition isinstance :: "py_exception \<Rightarrow> string list \<Rightarrow> bool" where
  "isinstance e cs \<longleftrightarrow> list_ex (\<lambda>c. c \<in> set (exc_classes e)) cs"

definition class_name :: "py_exception \<Rightarrow> string" where
  "class_name e = (case exc_classes e of [] \<Rightarrow> [] | c # _ \<Rightarrow> c)"

definition corruption_hints :: "string list" where
  "corruption_hints =
     [''corrupted'', ''corruption'', ''checksum'', ''decode-failed'', ''deserialize'', ''schema'',
      ''integrity'']"

definition protocol_hints :: "string list" where
  "protocol_hints = [''handshake'', ''protocol'', ''websocket'', ''frame-too-large'']"

definition resource_hints :: "string list" where
  "resource_hints = [''memory'', ''disk'', ''no-space'', ''queue-full'', ''semaphore'', ''exhaust'']"

definition any_hint :: "string list \<Rightarrow> string \<Rightarrow> bool" where
  "any_hint hs s \<longleftrightarrow> list_ex (\<lambda>h. str_in h s) hs"

definition normalize_message :: "py_exception \<Rightarrow> string" where
  "normalize_message e =
     take 200 (str_lower (if exc_text e = [] then class_name e else exc_text e))"

definition classify_exception :: "py_exception \<Rightarrow> failure_kind" where
  "classify_exception e =
     (if isinstance e [''CancelledError''] then KCancelled
      else if isinstance e
                [''AssertionError'', ''TypeError'', ''AttributeError'', ''NameError'', ''SyntaxError'']
      then KProgrammer
      else if isinstance e [''MemoryError''] then KResource
      else if isinstance e [''TimeoutError''] then KTransient
      else if isinstance e [''OSError'', ''BrokenPipeError'', ''ConnectionError'']
      then (if exc_errno e = Some 28 then KResource else KTransient)
      else let message = normalize_message e in
        if any_hint corruption_hints message then KCorruption
        else if any_hint protocol_hints message then KProtocol
        else if any_hint resource_hints message then KResource
        else KUnknown)"

definition classify_marker :: "string \<Rightarrow> failure_kind" where
  "classify_marker marker =
     (if marker = ''cancelled'' \<or> marker = ''cancellation'' then KCancelled
      else if any_hint corruption_hints marker then KCorruption
      else if any_hint protocol_hints marker then KProtocol
      else if any_hint resource_hints marker then KResource
      else if ends_with ''-timeout'' marker \<or> marker = ''timeout'' then KTransient
      else if starts_with ''assert'' marker \<or> marker = ''programmer-error'' then KProgrammer
      else KUnknown)"

section \<open>The circuit breaker\<close>

record circuit_breaker =
  br_name :: string
  br_policy :: subsystem_policy
  br_state :: breaker_state
  br_failures :: "int list"
  br_probes_remaining :: int
  br_opened_at_ns :: int
  br_last_failure_ns :: int
  br_last_success_ns :: int
  br_trips :: int
  br_transitions :: int
  br_successes_since_open :: int

definition new_breaker :: "string \<Rightarrow> subsystem_policy \<Rightarrow> circuit_breaker" where
  "new_breaker name p =
     \<lparr>br_name = name, br_policy = p, br_state = CLOSED, br_failures = [],
      br_probes_remaining = half_open_probes p, br_opened_at_ns = 0, br_last_failure_ns = 0,
      br_last_success_ns = 0, br_trips = 0, br_transitions = 0, br_successes_since_open = 0\<rparr>"

definition open_duration_ns :: "subsystem_policy \<Rightarrow> int" where
  "open_duration_ns p = py_int (open_duration_s p * 1000000000)"

definition window_ns :: "subsystem_policy \<Rightarrow> int" where
  "window_ns p = py_int (failure_window_s p * 1000000000)"

definition transition_locked :: "breaker_state \<Rightarrow> circuit_breaker \<Rightarrow> circuit_breaker" where
  "transition_locked target b =
     (if br_state b = target then b
      else b\<lparr>br_state := target, br_transitions := br_transitions b + 1\<rparr>)"

definition maybe_reopen_probe_locked :: "int \<Rightarrow> circuit_breaker \<Rightarrow> circuit_breaker" where
  "maybe_reopen_probe_locked t b =
     (if br_state b \<noteq> OPEN then b
      else if open_duration_ns (br_policy b) \<le> t - br_opened_at_ns b
      then (transition_locked HALF_OPEN b)
             \<lparr>br_probes_remaining := half_open_probes (br_policy b), br_successes_since_open := 0\<rparr>
      else b)"

definition trip_locked :: "int \<Rightarrow> circuit_breaker \<Rightarrow> circuit_breaker" where
  "trip_locked t b =
     (let b' = (if br_state b \<noteq> OPEN
                then transition_locked OPEN (b\<lparr>br_trips := br_trips b + 1, br_opened_at_ns := t\<rparr>)
                else b)
      in b'\<lparr>br_failures := [], br_probes_remaining := 0\<rparr>)"

definition prune_window_locked :: "int \<Rightarrow> circuit_breaker \<Rightarrow> circuit_breaker" where
  "prune_window_locked t b =
     b\<lparr>br_failures := dropWhile (\<lambda>x. x < t - window_ns (br_policy b)) (br_failures b)\<rparr>"

definition breaker_allow_request :: "int \<Rightarrow> circuit_breaker \<Rightarrow> bool \<times> circuit_breaker" where
  "breaker_allow_request t b =
     (let b' = maybe_reopen_probe_locked t b in
      if br_state b' = OPEN then (False, b')
      else if br_state b' = HALF_OPEN
      then (if br_probes_remaining b' \<le> 0 then (False, b')
            else (True, b'\<lparr>br_probes_remaining := br_probes_remaining b' - 1\<rparr>))
      else (True, b'))"

definition breaker_record_success :: "int \<Rightarrow> circuit_breaker \<Rightarrow> circuit_breaker" where
  "breaker_record_success t b =
     (let b' = b\<lparr>br_last_success_ns := t\<rparr> in
      if br_state b' = HALF_OPEN
      then (transition_locked CLOSED
              (b'\<lparr>br_successes_since_open := br_successes_since_open b' + 1\<rparr>))\<lparr>br_failures := []\<rparr>
      else if br_state b' = CLOSED then prune_window_locked t b'
      else b')"

definition breaker_record_failure :: "int \<Rightarrow> circuit_breaker \<Rightarrow> circuit_breaker" where
  "breaker_record_failure t b =
     (let b' = b\<lparr>br_last_failure_ns := t\<rparr> in
      if br_state b' = HALF_OPEN then trip_locked t b'
      else let c = prune_window_locked t (b'\<lparr>br_failures := br_failures b' @ [t]\<rparr>) in
        if failure_threshold (br_policy c) \<le> int (length (br_failures c)) then trip_locked t c
        else c)"

definition force_open :: "int \<Rightarrow> circuit_breaker \<Rightarrow> circuit_breaker" where
  "force_open t b = trip_locked t b"

definition force_close :: "circuit_breaker \<Rightarrow> circuit_breaker" where
  "force_close b =
     (transition_locked CLOSED b)
       \<lparr>br_failures := [], br_probes_remaining := half_open_probes (br_policy b)\<rparr>"

definition breaker_reset :: "circuit_breaker \<Rightarrow> circuit_breaker" where
  "breaker_reset b =
     b\<lparr>br_state := CLOSED, br_failures := [],
       br_probes_remaining := half_open_probes (br_policy b), br_opened_at_ns := 0,
       br_last_failure_ns := 0, br_last_success_ns := 0, br_trips := 0, br_transitions := 0,
       br_successes_since_open := 0\<rparr>"

record breaker_snapshot =
  bs_state :: breaker_state
  bs_failures_in_window :: nat
  bs_successes_since_open :: int
  bs_trips :: int
  bs_transitions :: int
  bs_opened_at_ns :: int
  bs_last_failure_at_ns :: int
  bs_last_success_at_ns :: int

definition snapshot_breaker :: "circuit_breaker \<Rightarrow> breaker_snapshot" where
  "snapshot_breaker b =
     \<lparr>bs_state = br_state b, bs_failures_in_window = length (br_failures b),
      bs_successes_since_open = br_successes_since_open b, bs_trips = br_trips b,
      bs_transitions = br_transitions b, bs_opened_at_ns = br_opened_at_ns b,
      bs_last_failure_at_ns = br_last_failure_ns b, bs_last_success_at_ns = br_last_success_ns b\<rparr>"

lemmas breaker_defs =
  transition_locked_def maybe_reopen_probe_locked_def trip_locked_def prune_window_locked_def
  breaker_allow_request_def breaker_record_success_def breaker_record_failure_def force_open_def
  force_close_def breaker_reset_def Let_def

section \<open>Runs of a breaker and its bounds\<close>

datatype breaker_call =
    BrAllow int
  | BrSuccess int
  | BrFailure int
  | BrForceOpen int
  | BrForceClose
  | BrReset

fun breaker_step :: "breaker_call \<Rightarrow> circuit_breaker \<Rightarrow> circuit_breaker" where
  "breaker_step (BrAllow t) b = snd (breaker_allow_request t b)"
| "breaker_step (BrSuccess t) b = breaker_record_success t b"
| "breaker_step (BrFailure t) b = breaker_record_failure t b"
| "breaker_step (BrForceOpen t) b = force_open t b"
| "breaker_step BrForceClose b = force_close b"
| "breaker_step BrReset b = breaker_reset b"

text \<open>
  A trip is the only way out of \<open>CLOSED\<close>, and at most two more transitions follow it before the
  next one: the state is worth what the current trip has not spent yet.
\<close>

fun unspent :: "breaker_state \<Rightarrow> int" where
  "unspent CLOSED = 0"
| "unspent HALF_OPEN = 1"
| "unspent OPEN = 2"

definition breaker_ok :: "circuit_breaker \<Rightarrow> bool" where
  "breaker_ok b \<longleftrightarrow>
     int (length (br_failures b)) < max 1 (failure_threshold (br_policy b)) \<and>
     min 0 (half_open_probes (br_policy b)) \<le> br_probes_remaining b \<and>
     br_probes_remaining b \<le> max 0 (half_open_probes (br_policy b)) \<and>
     br_trips b \<le> br_transitions b \<and>
     br_transitions b + unspent (br_state b) \<le> 3 * br_trips b"

lemma policy_kept [simp]:
  "br_policy (transition_locked s b) = br_policy b"
  "br_policy (maybe_reopen_probe_locked t b) = br_policy b"
  "br_policy (trip_locked t b) = br_policy b"
  "br_policy (prune_window_locked t b) = br_policy b"
  "br_policy (snd (breaker_allow_request t b)) = br_policy b"
  "br_policy (breaker_record_success t b) = br_policy b"
  "br_policy (breaker_record_failure t b) = br_policy b"
  "br_policy (force_open t b) = br_policy b"
  "br_policy (force_close b) = br_policy b"
  "br_policy (breaker_reset b) = br_policy b"
  by (simp_all add: breaker_defs)

lemma policy_step [simp]: "br_policy (breaker_step c b) = br_policy b"
  by (cases c) simp_all

lemma policy_run [simp]: "br_policy (fold breaker_step cs b) = br_policy b"
  by (induction cs arbitrary: b) simp_all

lemma policy_new [simp]: "br_policy (new_breaker name p) = p"
  by (simp add: new_breaker_def)

lemma breaker_ok_new: "breaker_ok (new_breaker name p)"
  by (simp add: breaker_ok_def new_breaker_def)

lemma length_prune_le:
  "length (br_failures (prune_window_locked t b)) \<le> length (br_failures b)"
  by (simp add: prune_window_locked_def length_dropWhile_le)

lemma breaker_ok_trip:
  assumes "br_trips b \<le> br_transitions b"
    and "br_transitions b + unspent (br_state b) \<le> 3 * br_trips b"
  shows "breaker_ok (trip_locked t b)"
  using assms by (cases "br_state b") (simp_all add: breaker_ok_def trip_locked_def transition_locked_def)

lemma breaker_ok_allow: "breaker_ok b \<Longrightarrow> breaker_ok (snd (breaker_allow_request t b))"
  by (cases "br_state b")
     (auto simp: breaker_ok_def breaker_allow_request_def maybe_reopen_probe_locked_def
        transition_locked_def Let_def)

lemma breaker_ok_success: "breaker_ok b \<Longrightarrow> breaker_ok (breaker_record_success t b)"
  using length_dropWhile_le[of "\<lambda>x. x < t - window_ns (br_policy b)" "br_failures b"]
  by (cases "br_state b")
     (auto simp: breaker_ok_def breaker_record_success_def prune_window_locked_def
        transition_locked_def Let_def)

lemma breaker_ok_failure: "breaker_ok b \<Longrightarrow> breaker_ok (breaker_record_failure t b)"
proof -
  assume b: "breaker_ok b"
  let ?b = "b\<lparr>br_last_failure_ns := t\<rparr>"
  let ?c = "prune_window_locked t (?b\<lparr>br_failures := br_failures ?b @ [t]\<rparr>)"
  have trip: "breaker_ok (trip_locked t ?b)" "breaker_ok (trip_locked t ?c)"
    by (rule breaker_ok_trip; use b in \<open>simp add: breaker_ok_def prune_window_locked_def\<close>)+
  have "breaker_ok ?c" if "\<not> failure_threshold (br_policy ?c) \<le> int (length (br_failures ?c))"
    using b that by (auto simp: breaker_ok_def prune_window_locked_def)
  then show ?thesis
    using trip by (simp add: breaker_record_failure_def Let_def split: if_splits)
qed

lemma breaker_ok_force_close: "breaker_ok b \<Longrightarrow> breaker_ok (force_close b)"
  by (cases "br_state b") (auto simp: breaker_ok_def force_close_def transition_locked_def)

lemma breaker_ok_step: "breaker_ok b \<Longrightarrow> breaker_ok (breaker_step c b)"
proof (cases c)
  case (BrForceOpen t)
  assume "breaker_ok b"
  then have "breaker_ok (trip_locked t b)" by (intro breaker_ok_trip) (simp_all add: breaker_ok_def)
  then show ?thesis using BrForceOpen by (simp add: force_open_def)
next
  case BrReset
  then show ?thesis by (simp add: breaker_ok_def breaker_reset_def)
qed (simp_all add: breaker_ok_allow breaker_ok_success breaker_ok_failure breaker_ok_force_close)

lemma breaker_ok_run: "breaker_ok b \<Longrightarrow> breaker_ok (fold breaker_step cs b)"
  by (induction cs arbitrary: b) (simp_all add: breaker_ok_step)

lemma breaker_ok_trips: "breaker_ok b \<Longrightarrow> of_bool (br_state b = OPEN) \<le> br_trips b"
  by (cases "br_state b") (auto simp: breaker_ok_def)

lemma breaker_ok_counters: "breaker_ok b \<Longrightarrow> 0 \<le> br_trips b \<and> 0 \<le> br_transitions b"
  by (cases "br_state b") (auto simp: breaker_ok_def)

text \<open>Bounds of the circuit breaker. Whatever sequence of admissions, outcomes, forced openings and
  closings and resets a breaker has seen, at whatever clock readings, the failure window holds
  fewer entries than the threshold (so the deque of failure times is bounded although no
  \<open>maxlen\<close> bounds it), the probes left never exceed the policy's, an open breaker has been
  tripped, and the state changes are between one and three per trip: a breaker cannot flap
  without tripping.
\<close>

theorem breaker_bounds:
  shows "int (length (br_failures (fold breaker_step cs (new_breaker name p))))
           < max 1 (failure_threshold p) \<and>
         br_probes_remaining (fold breaker_step cs (new_breaker name p))
           \<le> max 0 (half_open_probes p) \<and>
         of_bool (br_state (fold breaker_step cs (new_breaker name p)) = OPEN)
           \<le> br_trips (fold breaker_step cs (new_breaker name p)) \<and>
         br_trips (fold breaker_step cs (new_breaker name p))
           \<le> br_transitions (fold breaker_step cs (new_breaker name p)) \<and>
         br_transitions (fold breaker_step cs (new_breaker name p))
             + unspent (br_state (fold breaker_step cs (new_breaker name p)))
           \<le> 3 * br_trips (fold breaker_step cs (new_breaker name p))"
  using breaker_ok_run[OF breaker_ok_new, of cs name p] breaker_ok_trips
  by (simp add: breaker_ok_def)

section \<open>The breaker refines a counter of recent failures\<close>

text \<open>
  The specification keeps every failure since the last clear and counts, at each failure, those
  inside the window; it never prunes.
\<close>

record ideal_breaker =
  id_state :: breaker_state
  id_log :: "int list"
  id_opened :: int
  id_probes :: int

definition ideal_new :: "subsystem_policy \<Rightarrow> ideal_breaker" where
  "ideal_new p =
     \<lparr>id_state = CLOSED, id_log = [], id_opened = 0, id_probes = half_open_probes p\<rparr>"

definition ideal_open :: "int \<Rightarrow> ideal_breaker \<Rightarrow> ideal_breaker" where
  "ideal_open t s =
     \<lparr>id_state = OPEN, id_log = [],
      id_opened = (if id_state s = OPEN then id_opened s else t), id_probes = 0\<rparr>"

definition ideal_allow :: "subsystem_policy \<Rightarrow> int \<Rightarrow> ideal_breaker \<Rightarrow> bool \<times> ideal_breaker" where
  "ideal_allow p t s =
     (case id_state s of
        CLOSED \<Rightarrow> (True, s)
      | HALF_OPEN \<Rightarrow>
          if 0 < id_probes s then (True, s\<lparr>id_probes := id_probes s - 1\<rparr>) else (False, s)
      | OPEN \<Rightarrow>
          if t < id_opened s + open_duration_ns p then (False, s)
          else if 0 < half_open_probes p
          then (True, s\<lparr>id_state := HALF_OPEN, id_probes := half_open_probes p - 1\<rparr>)
          else (False, s\<lparr>id_state := HALF_OPEN, id_probes := half_open_probes p\<rparr>))"

fun ideal_step :: "subsystem_policy \<Rightarrow> breaker_call \<Rightarrow> ideal_breaker \<Rightarrow> ideal_breaker" where
  "ideal_step p (BrAllow t) s = snd (ideal_allow p t s)"
| "ideal_step p (BrSuccess t) s =
     (if id_state s = HALF_OPEN then s\<lparr>id_state := CLOSED, id_log := []\<rparr> else s)"
| "ideal_step p (BrFailure t) s =
     (if id_state s = HALF_OPEN then ideal_open t s
      else if failure_threshold p
                \<le> int (length (filter (\<lambda>x. t - window_ns p \<le> x) (id_log s @ [t])))
      then ideal_open t s
      else s\<lparr>id_log := id_log s @ [t]\<rparr>)"
| "ideal_step p (BrForceOpen t) s = ideal_open t s"
| "ideal_step p BrForceClose s =
     s\<lparr>id_state := CLOSED, id_log := [], id_probes := half_open_probes p\<rparr>"
| "ideal_step p BrReset s = ideal_new p"

fun call_time :: "breaker_call \<Rightarrow> int option" where
  "call_time (BrAllow t) = Some t"
| "call_time (BrSuccess t) = Some t"
| "call_time (BrFailure t) = Some t"
| "call_time (BrForceOpen t) = Some t"
| "call_time BrForceClose = None"
| "call_time BrReset = None"

definition call_times :: "breaker_call list \<Rightarrow> int list" where
  "call_times cs = List.map_filter call_time cs"

text \<open>
  What ties the two: equal control state, and the pruned window is the part of the log no older
  than the window before some earlier clock reading.
\<close>

definition refines :: "int list \<Rightarrow> circuit_breaker \<Rightarrow> ideal_breaker \<Rightarrow> bool" where
  "refines ts b s \<longleftrightarrow>
     br_state b = id_state s \<and> br_opened_at_ns b = id_opened s \<and>
     br_probes_remaining b = id_probes s \<and>
     sorted (id_log s) \<and> set (id_log s) \<subseteq> set ts \<and>
     (br_failures b = [] \<and> id_log s = [] \<or>
      (\<exists>u\<in>set ts. br_failures b = filter (\<lambda>x. u - window_ns (br_policy b) \<le> x) (id_log s)))"

lemma dropWhile_sorted:
  "sorted xs \<Longrightarrow> dropWhile (\<lambda>x. x < c) xs = filter (\<lambda>x. c \<le> x) (xs :: int list)"
proof (induction xs)
  case (Cons x xs)
  then have "c \<le> x \<Longrightarrow> filter (\<lambda>x. c \<le> x) xs = xs"
    by (intro filter_True) auto
  then show ?case using Cons by auto
qed simp

lemma prune_of_filter:
  assumes "sorted xs" "(u::int) \<le> t"
  shows "dropWhile (\<lambda>x. x < t - w) (filter (\<lambda>x. u - w \<le> x) xs) = filter (\<lambda>x. t - w \<le> x) xs"
proof -
  have "dropWhile (\<lambda>x. x < t - w) (filter (\<lambda>x. u - w \<le> x) xs)
      = filter (\<lambda>x. t - w \<le> x) (filter (\<lambda>x. u - w \<le> x) xs)"
    using assms(1) by (intro dropWhile_sorted sorted_filter[where f = id, simplified])
  also have "\<dots> = filter (\<lambda>x. t - w \<le> x) xs"
    using assms(2) by (auto simp: filter_filter intro!: filter_cong)
  finally show ?thesis .
qed

lemma refines_initial: "refines [] (new_breaker name p) (ideal_new p)"
  by (simp add: refines_def new_breaker_def ideal_new_def)

lemma refines_cleared:
  assumes "br_state b = id_state s" "br_opened_at_ns b = id_opened s"
    "br_probes_remaining b = id_probes s" "br_failures b = []" "id_log s = []"
  shows "refines ts b s"
  using assms by (simp add: refines_def)

lemma refines_more: "refines ts b s \<Longrightarrow> refines (ts @ us) b s"
  by (auto simp: refines_def)

lemma refines_trip:
  assumes "refines ts b s"
  shows "refines us (trip_locked t b) (ideal_open t s)"
  using assms
  by (intro refines_cleared)
     (auto simp: refines_def trip_locked_def transition_locked_def ideal_open_def)

text \<open>After a pruning at \<open>t\<close> the window is the log's part since \<open>t - w\<close>.\<close>

lemma refines_prune:
  assumes "refines ts b s" "\<And>u. u \<in> set ts \<Longrightarrow> u \<le> t"
  shows "refines (ts @ [t]) (prune_window_locked t b) s"
proof -
  let ?w = "window_ns (br_policy b)"
  have "dropWhile (\<lambda>x. x < t - ?w) (br_failures b) = filter (\<lambda>x. t - ?w \<le> x) (id_log s)"
    using assms by (auto simp: refines_def prune_of_filter)
  then show ?thesis
    using assms(1) by (auto simp: refines_def prune_window_locked_def)
qed

lemma refines_record:
  assumes "refines ts b s" "\<And>u. u \<in> set ts \<Longrightarrow> u \<le> t"
  shows "refines (ts @ [t])
           (prune_window_locked t (b\<lparr>br_failures := br_failures b @ [t]\<rparr>))
           (s\<lparr>id_log := id_log s @ [t]\<rparr>)"
    and "br_failures (prune_window_locked t (b\<lparr>br_failures := br_failures b @ [t]\<rparr>))
           = filter (\<lambda>x. t - window_ns (br_policy b) \<le> x) (id_log s @ [t])"
proof -
  let ?w = "window_ns (br_policy b)"
  have sorted: "sorted (id_log s @ [t])"
    using assms by (auto simp: refines_def sorted_append)
  have cut: "dropWhile (\<lambda>x. x < t - ?w) (br_failures b @ [t])
      = filter (\<lambda>x. t - ?w \<le> x) (id_log s @ [t])"
  proof -
    have s': "sorted (br_failures b @ [t])"
      using assms sorted_filter[where f = id, simplified, of "id_log s"]
      by (auto simp: refines_def sorted_append)
    have "filter (\<lambda>x. t - ?w \<le> x) (br_failures b) = filter (\<lambda>x. t - ?w \<le> x) (id_log s)"
      using assms(1) unfolding refines_def
    proof (elim conjE disjE bexE)
      fix u assume u: "u \<in> set ts" "br_failures b = filter (\<lambda>x. u - ?w \<le> x) (id_log s)"
      show ?thesis
        using assms(2)[OF u(1)] unfolding u(2) filter_filter by (auto intro!: filter_cong)
    qed simp
    then show ?thesis by (simp add: dropWhile_sorted[OF s'])
  qed
  show "br_failures (prune_window_locked t (b\<lparr>br_failures := br_failures b @ [t]\<rparr>))
      = filter (\<lambda>x. t - ?w \<le> x) (id_log s @ [t])"
    using cut by (simp add: prune_window_locked_def)
  show "refines (ts @ [t])
      (prune_window_locked t (b\<lparr>br_failures := br_failures b @ [t]\<rparr>))
      (s\<lparr>id_log := id_log s @ [t]\<rparr>)"
    using assms(1) cut sorted by (auto simp: refines_def prune_window_locked_def)
qed

lemma refines_same_failures:
  assumes "refines ts b s" "br_failures b' = br_failures b" "br_policy b' = br_policy b"
    "id_log s' = id_log s" "br_state b' = id_state s'" "br_opened_at_ns b' = id_opened s'"
    "br_probes_remaining b' = id_probes s'"
  shows "refines ts b' s'"
  using assms by (simp add: refines_def)

lemma refines_allow:
  assumes "refines ts b s" "br_policy b = p"
  shows "refines ts (snd (breaker_allow_request t b)) (snd (ideal_allow p t s))"
    and "fst (breaker_allow_request t b) = fst (ideal_allow p t s)"
proof -
  have eq: "br_state b = id_state s" "br_opened_at_ns b = id_opened s"
    "br_probes_remaining b = id_probes s"
    using assms(1) by (simp_all add: refines_def)
  show "refines ts (snd (breaker_allow_request t b)) (snd (ideal_allow p t s))"
    by (rule refines_same_failures[OF assms(1)])
       (use eq assms(2) in \<open>auto simp: breaker_allow_request_def maybe_reopen_probe_locked_def
          transition_locked_def ideal_allow_def Let_def split: breaker_state.splits\<close>)
  show "fst (breaker_allow_request t b) = fst (ideal_allow p t s)"
    using eq assms(2)
    by (auto simp: breaker_allow_request_def maybe_reopen_probe_locked_def
        transition_locked_def ideal_allow_def Let_def split: breaker_state.splits)
qed

lemma refines_state: "refines ts b s \<Longrightarrow> br_state b = id_state s"
  by (simp add: refines_def)

lemma refines_success:
  assumes "refines ts b s" "\<And>u. u \<in> set ts \<Longrightarrow> u \<le> t"
  shows "refines (ts @ [t]) (breaker_record_success t b) (ideal_step p (BrSuccess t) s)"
proof (cases "id_state s")
  case CLOSED
  have "refines ts (b\<lparr>br_last_success_ns := t\<rparr>) s"
    by (rule refines_same_failures[OF assms(1)]) (use assms(1) in \<open>auto simp: refines_def\<close>)
  from refines_prune[OF this assms(2)] show ?thesis
    using CLOSED refines_state[OF assms(1)] by (simp add: breaker_record_success_def Let_def)
next
  case OPEN
  have "refines (ts @ [t]) (b\<lparr>br_last_success_ns := t\<rparr>) s"
    by (rule refines_same_failures[OF refines_more[OF assms(1)]])
       (use assms(1) in \<open>auto simp: refines_def\<close>)
  then show ?thesis
    using OPEN refines_state[OF assms(1)] by (simp add: breaker_record_success_def Let_def)
next
  case HALF_OPEN
  then show ?thesis
    using assms(1)
    by (auto simp: breaker_record_success_def Let_def refines_def transition_locked_def)
qed

lemma refines_failure:
  assumes "refines ts b s" "br_policy b = p" "\<And>u. u \<in> set ts \<Longrightarrow> u \<le> t"
  shows "refines (ts @ [t]) (breaker_record_failure t b) (ideal_step p (BrFailure t) s)"
proof (cases "id_state s = HALF_OPEN")
  case True
  have "refines ts (b\<lparr>br_last_failure_ns := t\<rparr>) s"
    by (rule refines_same_failures[OF assms(1)]) (use assms(1) in \<open>auto simp: refines_def\<close>)
  from refines_trip[OF this, of "ts @ [t]" t] show ?thesis
    using True refines_state[OF assms(1)] by (simp add: breaker_record_failure_def Let_def)
next
  case False
  let ?b = "b\<lparr>br_last_failure_ns := t\<rparr>"
  let ?c = "prune_window_locked t (?b\<lparr>br_failures := br_failures ?b @ [t]\<rparr>)"
  let ?s = "s\<lparr>id_log := id_log s @ [t]\<rparr>"
  have b: "refines ts ?b s"
    by (rule refines_same_failures[OF assms(1)]) (use assms(1) in \<open>auto simp: refines_def\<close>)
  have c: "refines (ts @ [t]) ?c ?s"
    and fs: "br_failures ?c = filter (\<lambda>x. t - window_ns p \<le> x) (id_log s @ [t])"
    using refines_record[OF b assms(3)] assms(2) by simp_all
  have "ideal_open t ?s = ideal_open t s" by (simp add: ideal_open_def)
  then show ?thesis
    using False refines_state[OF assms(1)] assms(2) c refines_trip[OF c, of "ts @ [t]" t] fs
    by (simp add: breaker_record_failure_def Let_def)
qed

lemma refines_force_close:
  "refines ts b s \<Longrightarrow> br_policy b = p \<Longrightarrow>
   refines ts (force_close b) (ideal_step p BrForceClose s)"
  by (simp add: refines_def force_close_def transition_locked_def)

lemma refines_reset:
  "br_policy b = p \<Longrightarrow> refines ts (breaker_reset b) (ideal_step p BrReset s)"
  by (simp add: refines_def breaker_reset_def ideal_new_def)

lemma call_times_snoc:
  "call_times (cs @ [c]) = call_times cs @ (case call_time c of None \<Rightarrow> [] | Some t \<Rightarrow> [t])"
  by (simp add: call_times_def List.map_filter_def split: option.split)

lemma refines_step:
  assumes "refines (call_times cs) b s" "br_policy b = p" "sorted (call_times (cs @ [c]))"
  shows "refines (call_times (cs @ [c])) (breaker_step c b) (ideal_step p c s)"
proof -
  have late: "call_time c = Some t \<Longrightarrow> u \<in> set (call_times cs) \<Longrightarrow> u \<le> t" for t u
    using assms(3) by (simp add: call_times_snoc sorted_append)
  show ?thesis
  proof (cases c)
    case (BrAllow t)
    then show ?thesis
      using refines_more[OF refines_allow(1)[OF assms(1,2)], of "[t]"]
      by (simp add: call_times_snoc)
  next
    case (BrSuccess t)
    then show ?thesis
      using refines_success[OF assms(1), of t] late by (simp add: call_times_snoc)
  next
    case (BrFailure t)
    then show ?thesis
      using refines_failure[OF assms(1,2), of t] late by (simp add: call_times_snoc)
  next
    case (BrForceOpen t)
    then show ?thesis
      using refines_trip[OF assms(1)] by (simp add: call_times_snoc force_open_def)
  next
    case BrForceClose
    then show ?thesis
      using refines_force_close[OF assms(1,2)] by (simp add: call_times_snoc)
  next
    case BrReset
    then show ?thesis
      using refines_reset[OF assms(2)] by (simp add: call_times_snoc)
  qed
qed

lemma refines_run:
  "sorted (call_times cs) \<Longrightarrow>
   refines (call_times cs) (fold breaker_step cs (new_breaker name p))
     (fold (ideal_step p) cs (ideal_new p))"
proof (induction cs rule: rev_induct)
  case Nil
  then show ?case by (simp add: call_times_def refines_initial List.map_filter_def)
next
  case (snoc c cs)
  then have "sorted (call_times cs)"
    by (simp add: call_times_snoc sorted_append split: option.splits)
  with snoc show ?case by (simp add: refines_step)
qed

text \<open>C17: Refinement of the circuit breaker. Under a clock that does not run backwards the breaker, which
  prunes its deque of failure times, takes exactly the decisions of a specification that never
  forgets: every admission is answered as the specification answers it, and the state, the time of
  the last trip and the probes left are the specification's. The specification opens at a failure
  when at least \<open>failure_threshold\<close> failures since the last clear lie within the window ending at
  it, at any failure of a probe, and on demand; it half-opens at the first request that is
  \<open>open_duration\<close> or more after the trip, and closes at a probe's success.
\<close>

theorem breaker_refines_window_count:
  assumes "sorted (call_times cs)"
  shows "br_state (fold breaker_step cs (new_breaker name p))
           = id_state (fold (ideal_step p) cs (ideal_new p)) \<and>
         br_opened_at_ns (fold breaker_step cs (new_breaker name p))
           = id_opened (fold (ideal_step p) cs (ideal_new p)) \<and>
         br_probes_remaining (fold breaker_step cs (new_breaker name p))
           = id_probes (fold (ideal_step p) cs (ideal_new p)) \<and>
         (\<forall>t. fst (breaker_allow_request t (fold breaker_step cs (new_breaker name p)))
            = fst (ideal_allow p t (fold (ideal_step p) cs (ideal_new p))))"
  using refines_run[OF assms, of name p] refines_allow(2)[OF refines_run[OF assms, of name p]]
  by (simp add: refines_def[of "call_times cs"])

theorem breaker_refines_window_count_witness:
  "br_state (fold breaker_step
      [BrFailure 0, BrFailure 7000000000, BrFailure 8000000000, BrAllow 8000000001,
       BrFailure 9000000000] (new_breaker ''render'' (render_policy\<lparr>failure_threshold := 3\<rparr>)))
     = OPEN \<and>
   br_opened_at_ns (fold breaker_step
      [BrFailure 0, BrFailure 7000000000, BrFailure 8000000000, BrAllow 8000000001,
       BrFailure 9000000000] (new_breaker ''render'' (render_policy\<lparr>failure_threshold := 3\<rparr>)))
     = 9000000000"
proof -
  let ?cs = "[BrFailure 0, BrFailure 7000000000, BrFailure 8000000000, BrAllow 8000000001,
       BrFailure 9000000000]"
  have "sorted (call_times ?cs)"
    by (simp add: call_times_def List.map_filter_def)
  from breaker_refines_window_count[OF this, of "''render''"
      "render_policy\<lparr>failure_threshold := 3\<rparr>"]
  show ?thesis
    by (simp add: ideal_new_def ideal_allow_def ideal_open_def render_policy_def
        SubsystemPolicy_def window_ns_def py_int_def)
qed

section \<open>Recovery of an open breaker\<close>

text \<open>A request or an outcome that reaches the breaker before its open period is over.\<close>

fun early_call :: "int \<Rightarrow> breaker_call \<Rightarrow> bool" where
  "early_call deadline (BrAllow t) \<longleftrightarrow> t < deadline"
| "early_call deadline (BrSuccess t) \<longleftrightarrow> t < deadline"
| "early_call deadline (BrFailure t) \<longleftrightarrow> t < deadline"
| "early_call deadline c \<longleftrightarrow> False"

definition reopen_at :: "circuit_breaker \<Rightarrow> int" where
  "reopen_at b = br_opened_at_ns b + open_duration_ns (br_policy b)"

lemma early_step:
  assumes "br_state b = OPEN" "early_call (reopen_at b) c"
  shows "br_state (breaker_step c b) = OPEN \<and> reopen_at (breaker_step c b) = reopen_at b"
  using assms by (cases c) (auto simp: breaker_defs reopen_at_def)

lemma early_run:
  assumes "br_state b = OPEN" "list_all (early_call (reopen_at b)) cs"
  shows "br_state (fold breaker_step cs b) = OPEN \<and>
         reopen_at (fold breaker_step cs b) = reopen_at b"
  using assms
proof (induction cs arbitrary: b)
  case (Cons c cs)
  then have "br_state (breaker_step c b) = OPEN" "reopen_at (breaker_step c b) = reopen_at b"
    using early_step[of b c] by simp_all
  with Cons show ?case by simp
qed simp

lemma open_rejects: "br_state b = OPEN \<Longrightarrow> t < reopen_at b \<Longrightarrow> fst (breaker_allow_request t b) = False"
  by (simp add: breaker_defs reopen_at_def)

lemma open_admits_probe:
  assumes "br_state b = OPEN" "reopen_at b \<le> t" "0 < half_open_probes (br_policy b)"
  shows "fst (breaker_allow_request t b)"
    and "br_state (snd (breaker_allow_request t b)) = HALF_OPEN"
    and "br_probes_remaining (snd (breaker_allow_request t b)) = half_open_probes (br_policy b) - 1"
  using assms by (simp_all add: breaker_defs reopen_at_def)

lemma success_closes: "br_state b = HALF_OPEN \<Longrightarrow>
  br_state (breaker_record_success t b) = CLOSED \<and> br_failures (breaker_record_success t b) = []"
  by (simp add: breaker_defs)

lemma failure_reopens: "br_state b = HALF_OPEN \<Longrightarrow>
  br_state (breaker_record_failure t b) = OPEN \<and>
  reopen_at (breaker_record_failure t b) = t + open_duration_ns (br_policy b)"
  by (simp add: breaker_defs reopen_at_def)



text \<open>
  The other side of the same state: a half-open breaker whose probes are spent answers no request,
  and requests alone never change it.
\<close>

lemma spent_probe_rejects:
  assumes "br_state b = HALF_OPEN" "br_probes_remaining b \<le> 0"
  shows "breaker_allow_request t b = (False, b)"
  using assms by (simp add: breaker_defs)

section \<open>The runtime mode\<close>

datatype emergency_mode = Normal | Degraded | Shed | Emergency | Halt

fun mode_value :: "emergency_mode \<Rightarrow> string" where
  "mode_value Normal = ''normal''"
| "mode_value Degraded = ''degraded''"
| "mode_value Shed = ''shed''"
| "mode_value Emergency = ''emergency''"
| "mode_value Halt = ''halt''"

definition derive_runtime_mode :: "bool \<Rightarrow> (string, breaker_state) dict \<Rightarrow> emergency_mode" where
  "derive_runtime_mode halt_on_critical states =
     (if states = [] then Normal
      else
        let (open_count, critical_open, half_open_count) =
          fold (\<lambda>(name, state) (n, crit, h).
              if state = OPEN then (n + 1, crit \<or> name \<in> set critical_subsystems, h)
              else if state = HALF_OPEN then (n, crit, h + 1)
              else (n, crit, h))
            states (0 :: int, False, 0 :: int)
        in
          if critical_open \<and> halt_on_critical then Halt
          else if critical_open then Emergency
          else if 2 \<le> open_count then Shed
          else if open_count = 1 \<or> 0 < half_open_count then Degraded
          else Normal)"

fun severity :: "emergency_mode \<Rightarrow> nat" where
  "severity Normal = 0"
| "severity Degraded = 1"
| "severity Shed = 2"
| "severity Emergency = 3"
| "severity Halt = 4"

fun breaker_rank :: "breaker_state \<Rightarrow> nat" where
  "breaker_rank CLOSED = 0"
| "breaker_rank HALF_OPEN = 1"
| "breaker_rank OPEN = 2"

definition critical_down :: "(string, breaker_state) dict \<Rightarrow> bool" where
  "critical_down states \<longleftrightarrow> (\<exists>x\<in>set states. snd x = OPEN \<and> fst x \<in> set critical_subsystems)"

definition open_number :: "(string, breaker_state) dict \<Rightarrow> nat" where
  "open_number states = length (filter (\<lambda>x. snd x = OPEN) states)"

definition probing_number :: "(string, breaker_state) dict \<Rightarrow> nat" where
  "probing_number states = length (filter (\<lambda>x. snd x = HALF_OPEN) states)"

lemma mode_fold:
  "fold (\<lambda>(name, state) (n, crit, h).
      if state = OPEN then (n + 1, crit \<or> name \<in> set critical_subsystems, h)
      else if state = HALF_OPEN then (n, crit, h + 1) else (n, crit, h)) states (n, crit, h)
   = (n + int (open_number states), crit \<or> critical_down states, h + int (probing_number states))"
  by (induction states arbitrary: n crit h)
     (auto simp: open_number_def probing_number_def critical_down_def split: prod.splits)

lemma derive_runtime_mode_eq:
  "derive_runtime_mode halt states =
     (if critical_down states then (if halt then Halt else Emergency)
      else if 2 \<le> open_number states then Shed
      else if 0 < open_number states + probing_number states then Degraded
      else Normal)"
proof (cases "states = []")
  case True
  then show ?thesis
    by (simp add: derive_runtime_mode_def critical_down_def open_number_def probing_number_def)
next
  case False
  have one: "\<not> 2 \<le> n \<Longrightarrow> (int n = 1 \<or> 0 < int m) \<longleftrightarrow> 0 < n + m" for n m :: nat
    by linarith
  have two: "2 \<le> int n \<longleftrightarrow> 2 \<le> n" for n :: nat
    by linarith
  show ?thesis
    unfolding derive_runtime_mode_def mode_fold Let_def
    by (simp add: False two one)
qed

lemma unhealthy_iff:
  "0 < open_number states + probing_number states \<longleftrightarrow> (\<exists>x\<in>set states. snd x \<noteq> CLOSED)"
proof -
  have "s \<noteq> CLOSED \<longleftrightarrow> s = OPEN \<or> s = HALF_OPEN" for s
    by (cases s) simp_all
  then show ?thesis
    by (auto simp: open_number_def probing_number_def length_greater_0_conv filter_empty_conv
        simp del: length_greater_0_conv[symmetric])
qed

lemma rank_worse:
  "breaker_rank s \<le> breaker_rank s' \<Longrightarrow> s = OPEN \<Longrightarrow> s' = OPEN"
  "breaker_rank s \<le> breaker_rank s' \<Longrightarrow> s \<noteq> CLOSED \<Longrightarrow> s' \<noteq> CLOSED"
  by (cases s; cases s'; simp)+

lemma severity_worse:
  assumes "list_all2 (\<lambda>x y. fst x = fst y \<and> breaker_rank (snd x) \<le> breaker_rank (snd y)) xs ys"
  shows "critical_down xs \<Longrightarrow> critical_down ys"
    and "open_number xs \<le> open_number ys"
    and "0 < open_number xs + probing_number xs \<Longrightarrow> 0 < open_number ys + probing_number ys"
proof -
  show "critical_down xs \<Longrightarrow> critical_down ys"
    using assms unfolding critical_down_def
    by (induction rule: list_all2_induct) (auto dest: rank_worse)
  show "open_number xs \<le> open_number ys"
    using assms unfolding open_number_def
    by (induction rule: list_all2_induct) (auto dest: rank_worse)
  show "0 < open_number xs + probing_number xs \<Longrightarrow> 0 < open_number ys + probing_number ys"
    using assms unfolding unhealthy_iff
    by (induction rule: list_all2_induct) (auto dest: rank_worse)
qed

text \<open>The derived mode is monotone in the health of the subsystems. If every breaker of one map of
  states is at least as far from closed as in another (closed, half-open, open), the runtime mode
  derived from it is at least as severe (normal, degraded, shed, emergency, halt), for either
  setting of \<open>halt_on_critical\<close>: no further failure ever relaxes the mode.
\<close>

theorem worse_breakers_worse_mode:
  assumes "list_all2 (\<lambda>x y. fst x = fst y \<and> breaker_rank (snd x) \<le> breaker_rank (snd y)) xs ys"
  shows "severity (derive_runtime_mode halt xs) \<le> severity (derive_runtime_mode halt ys)"
  using severity_worse[OF assms] by (auto simp: derive_runtime_mode_eq)

theorem worse_breakers_worse_mode_witness:
  "severity (derive_runtime_mode False [(''websocket'', CLOSED), (''replay'', HALF_OPEN)])
     \<le> severity (derive_runtime_mode False [(''websocket'', CLOSED), (''replay'', OPEN)])"
  by (rule worse_breakers_worse_mode) simp

end
