(* ===== verification/Resilience.thy ===== *)
theory Resilience
  imports Breaker
begin

text \<open>
  The failure-isolation layer above the circuit breaker (\<open>asyncviz/runtime/resilience\<close>): the
  failure domain of one subsystem, the boundary a subsystem's code runs in, the adapters that hang
  bookkeeping on it, the recovery supervisor, and the manager that owns them together with the
  metrics, the trace ring, the runtime mode and the bridge to the backpressure layer.

  A callback the program hands out is a token, and the calls made to tokens are returned or
  logged in order (\<open>fm_calls\<close>); what a callback does is outside the model, and the code discards
  its exceptions. A recovery hook is a function of the domain it is handed. Operations are
  sequential: each is one critical section, or a fixed sequence of them, in one thread.
\<close>

section \<open>Failure domains\<close>

record failure_event =
  fe_subsystem :: string
  fe_kind :: failure_kind
  fe_detail :: string
  fe_at_ns :: int
  fe_payload_kind :: string
  fe_recoverable :: bool

datatype failure_listener = ManagerHook | Subscriber nat

record failure_domain =
  fd_name :: string
  fd_policy :: subsystem_policy
  fd_breaker :: circuit_breaker
  fd_history :: "failure_event list"
  fd_quarantine :: "string set"
  fd_total_failures :: int
  fd_total_successes :: int
  fd_last_failure :: "failure_event option"
  fd_listeners :: "failure_listener list"

definition history_capacity :: nat where
  "history_capacity = 64"

definition new_domain :: "string \<Rightarrow> subsystem_policy \<Rightarrow> failure_domain" where
  "new_domain name p =
     \<lparr>fd_name = name, fd_policy = p, fd_breaker = new_breaker name p, fd_history = [],
      fd_quarantine = {}, fd_total_failures = 0, fd_total_successes = 0, fd_last_failure = None,
      fd_listeners = []\<rparr>"

definition domain_subscribe :: "failure_listener \<Rightarrow> failure_domain \<Rightarrow> failure_domain" where
  "domain_subscribe l d = d\<lparr>fd_listeners := fd_listeners d @ [l]\<rparr>"

definition domain_unsubscribe :: "failure_listener \<Rightarrow> failure_domain \<Rightarrow> failure_domain" where
  "domain_unsubscribe l d = d\<lparr>fd_listeners := remove1 l (fd_listeners d)\<rparr>"

definition domain_allow_request :: "string \<Rightarrow> int \<Rightarrow> failure_domain \<Rightarrow> bool \<times> failure_domain" where
  "domain_allow_request payload t d =
     (if payload \<noteq> [] \<and> quarantine_payload_kind (fd_policy d) \<and> payload \<in> fd_quarantine d
      then (False, d)
      else let (ok, b) = breaker_allow_request t (fd_breaker d) in (ok, d\<lparr>fd_breaker := b\<rparr>))"

definition domain_record_success :: "int \<Rightarrow> failure_domain \<Rightarrow> failure_domain" where
  "domain_record_success t d =
     d\<lparr>fd_total_successes := fd_total_successes d + 1,
       fd_breaker := breaker_record_success t (fd_breaker d)\<rparr>"

text \<open>
  A recorded failure returns the calls made to the listeners: the event, the breaker's state read
  before and the state after. \<open>clock\<close> is the reading used when the event carries no time.
\<close>

type_synonym failure_call = "failure_listener \<times> failure_event \<times> breaker_state \<times> breaker_state"

definition domain_record_failure ::
    "int \<Rightarrow> failure_event \<Rightarrow> failure_domain \<Rightarrow> breaker_state \<times> failure_call list \<times> failure_domain" where
  "domain_record_failure clock event d =
     (let now = (if fe_at_ns event = 0 then clock else fe_at_ns event);
          previous = br_state (fd_breaker d);
          d1 = d\<lparr>fd_total_failures := fd_total_failures d + 1,
                 fd_history := ring_push history_capacity event (fd_history d),
                 fd_last_failure := Some event\<rparr>;
          d2 = (if quarantine_payload_kind (fd_policy d1) \<and> fe_payload_kind event \<noteq> [] \<and>
                   \<not> fe_recoverable event
                then d1\<lparr>fd_quarantine := insert (fe_payload_kind event) (fd_quarantine d1)\<rparr>
                else d1);
          listeners = fd_listeners d2;
          b = breaker_record_failure now (fd_breaker d2);
          d3 = d2\<lparr>fd_breaker := b\<rparr>
      in (br_state b, map (\<lambda>l. (l, event, previous, br_state b)) listeners, d3))"

definition quarantined :: "failure_domain \<Rightarrow> string list" where
  "quarantined d = sorted_list_of_set (fd_quarantine d)"

definition release_quarantine :: "string \<Rightarrow> failure_domain \<Rightarrow> bool \<times> failure_domain" where
  "release_quarantine payload d =
     (payload \<in> fd_quarantine d, d\<lparr>fd_quarantine := fd_quarantine d - {payload}\<rparr>)"

definition is_quarantined :: "string \<Rightarrow> failure_domain \<Rightarrow> bool" where
  "is_quarantined payload d \<longleftrightarrow> payload \<in> fd_quarantine d"

record domain_snapshot =
  ds_name :: string
  ds_breaker :: breaker_snapshot
  ds_total_failures :: int
  ds_total_successes :: int
  ds_quarantined_payloads :: "string list"
  ds_last_failure :: "failure_event option"
  ds_recent_failures :: "failure_event list"

definition snapshot_domain :: "failure_domain \<Rightarrow> domain_snapshot" where
  "snapshot_domain d =
     \<lparr>ds_name = fd_name d, ds_breaker = snapshot_breaker (fd_breaker d),
      ds_total_failures = fd_total_failures d, ds_total_successes = fd_total_successes d,
      ds_quarantined_payloads = quarantined d, ds_last_failure = fd_last_failure d,
      ds_recent_failures = fd_history d\<rparr>"

definition domain_reset :: "failure_domain \<Rightarrow> failure_domain" where
  "domain_reset d =
     d\<lparr>fd_breaker := breaker_reset (fd_breaker d), fd_history := [], fd_quarantine := {},
       fd_total_failures := 0, fd_total_successes := 0, fd_last_failure := None\<rparr>"

text \<open>The failure history is a bounded log.\<close>

definition push_failure :: "failure_event \<Rightarrow> failure_domain \<Rightarrow> failure_domain" where
  "push_failure e d = snd (snd (domain_record_failure 0 e d))"

interpretation failure_log: ring_log fd_history "\<lambda>_. history_capacity" push_failure
  by unfold_locales (simp_all add: push_failure_def domain_record_failure_def Let_def)

section \<open>Boundaries\<close>

record boundary =
  bd_payload_kind :: string
  bd_suppress :: bool
  bd_admitted :: bool
  bd_swallow_unavailable :: bool

datatype boundary_error = SubsystemUnavailable string

definition new_boundary :: "string \<Rightarrow> bool \<Rightarrow> bool \<Rightarrow> boundary" where
  "new_boundary payload suppress swallow =
     \<lparr>bd_payload_kind = payload, bd_suppress = suppress, bd_admitted = False,
      bd_swallow_unavailable = swallow\<rparr>"

definition boundary_admit ::
    "int \<Rightarrow> boundary \<Rightarrow> failure_domain \<Rightarrow> (boundary_error + boundary) \<times> failure_domain" where
  "boundary_admit t bd d =
     (let (admitted, d') = domain_allow_request (bd_payload_kind bd) t d in
      if \<not> admitted \<and> \<not> bd_swallow_unavailable bd
      then (Inl (SubsystemUnavailable (fd_name d')), d')
      else (Inr (bd\<lparr>bd_admitted := admitted\<rparr>), d'))"

definition failure_detail :: "py_exception \<Rightarrow> string" where
  "failure_detail exc = class_name exc @ '': '' @ take 200 (exc_text exc)"

definition make_event :: "string \<Rightarrow> failure_kind \<Rightarrow> string \<Rightarrow> int \<Rightarrow> string \<Rightarrow> failure_event" where
  "make_event name kind detail t payload =
     \<lparr>fe_subsystem = name, fe_kind = kind, fe_detail = detail, fe_at_ns = t,
      fe_payload_kind = payload, fe_recoverable = \<not> do_not_retry kind\<rparr>"

text \<open>
  \<open>_handle_exit\<close>: whether the exception is swallowed, the calls to the domain's listeners, and
  the domain and the \<open>on_failure\<close> bookkeeping after it.
\<close>

definition handle_exit ::
    "(failure_event \<Rightarrow> 'h \<Rightarrow> 'h) \<Rightarrow> int \<Rightarrow> py_exception option \<Rightarrow> boundary \<Rightarrow> failure_domain \<times> 'h \<Rightarrow>
     bool \<times> failure_call list \<times> failure_domain \<times> 'h" where
  "handle_exit on_failure t exc bd dh =
     (let (d, h) = dh in
      case exc of
        None \<Rightarrow> (False, [], if bd_admitted bd then domain_record_success t d else d, h)
      | Some e \<Rightarrow>
          let kind = classify_exception e in
          if kind = KCancelled \<and> \<not> treat_cancelled_as_failure (fd_policy d)
          then (False, [], d, h)
          else
            let event = make_event (fd_name d) kind (failure_detail e) t (bd_payload_kind bd);
                (calls, d') = (if bd_admitted bd
                               then snd (domain_record_failure t event d) else ([], d))
            in (bd_suppress bd \<and> \<not> do_not_retry kind, calls, d', on_failure event h))"

text \<open>The asynchronous boundary never swallows a cancellation.\<close>

definition handle_aexit ::
    "(failure_event \<Rightarrow> 'h \<Rightarrow> 'h) \<Rightarrow> int \<Rightarrow> py_exception option \<Rightarrow> boundary \<Rightarrow> failure_domain \<times> 'h \<Rightarrow>
     bool \<times> failure_call list \<times> failure_domain \<times> 'h" where
  "handle_aexit on_failure t exc bd dh =
     (let (swallowed, rest) = handle_exit on_failure t exc bd dh in
      case exc of
        Some e \<Rightarrow> if isinstance e [''CancelledError''] then (False, rest) else (swallowed, rest)
      | None \<Rightarrow> (swallowed, rest))"

text \<open>
  A whole \<open>with\<close> statement: entered at \<open>t0\<close>, its body ends at \<open>t1\<close> normally or with an
  exception. The body runs unless entering raises, admitted or not.
\<close>

datatype with_result =
    Unavailable boundary_error
  | BodyRan bool "py_exception option"

definition with_boundary ::
    "(failure_event \<Rightarrow> 'h \<Rightarrow> 'h) \<Rightarrow> int \<Rightarrow> int \<Rightarrow> py_exception option \<Rightarrow> boundary \<Rightarrow>
     failure_domain \<times> 'h \<Rightarrow> with_result \<times> failure_call list \<times> failure_domain \<times> 'h" where
  "with_boundary on_failure t0 t1 exc bd dh =
     (case boundary_admit t0 bd (fst dh) of
        (Inl err, d) \<Rightarrow> (Unavailable err, [], d, snd dh)
      | (Inr bd', d) \<Rightarrow>
          let (swallowed, rest) = handle_exit on_failure t1 exc bd' (d, snd dh)
          in (BodyRan (bd_admitted bd') (if swallowed then None else exc), rest))"

section \<open>Subsystem adapters\<close>

text \<open>The replay adapter: \<open>bulk_release\<close> counts the payloads that were quarantined.\<close>

fun bulk_release :: "string list \<Rightarrow> failure_domain \<Rightarrow> nat \<times> failure_domain" where
  "bulk_release [] d = (0, d)"
| "bulk_release (k # ks) d =
     (let (existed, d') = release_quarantine k d;
          (n, d'') = bulk_release ks d'
      in (if existed then n + 1 else n, d''))"

text \<open>Websocket, reducer and render adapters keep a set of names; the recorder keeps a count.\<close>

definition note_disconnect :: "string \<Rightarrow> string set \<Rightarrow> string set" where
  "note_disconnect subscriber_id s = (if subscriber_id = [] then s else insert subscriber_id s)"

definition note_reducer_disabled :: "string \<Rightarrow> bool \<Rightarrow> string set \<Rightarrow> string set" where
  "note_reducer_disabled reducer_id recoverable s =
     (if reducer_id = [] \<or> recoverable then s else insert reducer_id s)"

definition note_pass_disabled :: "string \<Rightarrow> string set \<Rightarrow> string set" where
  "note_pass_disabled pass_id s = (if pass_id = [] then s else insert pass_id s)"

definition note_data_loss :: "failure_event \<Rightarrow> int \<Rightarrow> int" where
  "note_data_loss e n = n + 1"

definition reset_data_loss :: "int \<Rightarrow> int" where
  "reset_data_loss n = 0"

text \<open>The render adapter also keeps a fallback mode.\<close>

datatype render_fallback_mode = FallbackNormal | DataOnly | KeyframeOnly | Blank

definition set_fallback_mode ::
    "render_fallback_mode \<Rightarrow> string set \<times> render_fallback_mode \<Rightarrow> string set \<times> render_fallback_mode" where
  "set_fallback_mode mode a = (fst a, mode)"

text \<open>\<open>reinstate\<close> of the three adapters that keep a set.\<close>

definition adapter_reinstate ::
    "string \<Rightarrow> string set \<times> failure_domain \<Rightarrow> bool \<times> string set \<times> failure_domain" where
  "adapter_reinstate name sd =
     (let (s, d) = sd; existed = name \<in> s
      in (existed, s - {name}, if existed then snd (release_quarantine name d) else d))"

definition isolate_decode :: "string \<Rightarrow> bool \<Rightarrow> boundary" where
  "isolate_decode payload suppress = new_boundary payload suppress True"

definition isolate_session :: "bool \<Rightarrow> boundary" where
  "isolate_session suppress = new_boundary [] suppress False"

definition isolate_send :: "string \<Rightarrow> bool \<Rightarrow> boundary" where
  "isolate_send subscriber_id suppress = new_boundary subscriber_id suppress True"

definition isolate_apply :: "string \<Rightarrow> bool \<Rightarrow> boundary" where
  "isolate_apply reducer_id suppress = new_boundary reducer_id suppress True"

definition isolate_pass :: "string \<Rightarrow> bool \<Rightarrow> boundary" where
  "isolate_pass pass_id suppress = new_boundary pass_id suppress True"

definition isolate_write :: "string \<Rightarrow> bool \<Rightarrow> boundary" where
  "isolate_write payload suppress = new_boundary payload suppress True"

definition isolate_flush :: "bool \<Rightarrow> boundary" where
  "isolate_flush suppress = new_boundary [] suppress False"

section \<open>The recovery supervisor\<close>

datatype recovery_verdict = Succeeded | Failed | Deferred | Abandoned | Skipped

record recovery_outcome =
  ro_subsystem :: string
  ro_attempt :: int
  ro_verdict :: recovery_verdict
  ro_duration_s :: real
  ro_detail :: string

text \<open>
  A hook either raises (the text of its exception) or returns a truth value, and leaves the domain
  it was handed in some state.
\<close>

type_synonym recovery_hook = "failure_domain \<Rightarrow> (string + bool) \<times> failure_domain"

record supervisor =
  sv_hook :: "recovery_hook option"
  sv_async_hook :: "recovery_hook option"
  sv_attempts :: int
  sv_successes :: int
  sv_failures :: int
  sv_abandoned :: bool
  sv_last_verdict :: "recovery_verdict option"
  sv_history :: "recovery_outcome list"

definition new_supervisor :: supervisor where
  "new_supervisor =
     \<lparr>sv_hook = None, sv_async_hook = None, sv_attempts = 0, sv_successes = 0, sv_failures = 0,
      sv_abandoned = False, sv_last_verdict = None, sv_history = []\<rparr>"

definition register_hook :: "recovery_hook \<Rightarrow> supervisor \<Rightarrow> supervisor" where
  "register_hook h sv = sv\<lparr>sv_hook := Some h\<rparr>"

definition register_async_hook :: "recovery_hook \<Rightarrow> supervisor \<Rightarrow> supervisor" where
  "register_async_hook h sv = sv\<lparr>sv_async_hook := Some h\<rparr>"

definition clear_hooks :: "supervisor \<Rightarrow> supervisor" where
  "clear_hooks sv = sv\<lparr>sv_hook := None, sv_async_hook := None\<rparr>"

definition reset_abandoned :: "supervisor \<Rightarrow> supervisor" where
  "reset_abandoned sv = sv\<lparr>sv_abandoned := False, sv_attempts := 0\<rparr>"

definition push_outcome :: "recovery_outcome \<Rightarrow> supervisor \<Rightarrow> supervisor" where
  "push_outcome out sv =
     (let h = sv_history sv @ [out]
      in sv\<lparr>sv_history := (if 64 < length h then tl h else h)\<rparr>)"

definition record_outcome ::
    "string \<Rightarrow> recovery_verdict \<Rightarrow> real \<Rightarrow> string \<Rightarrow> supervisor \<Rightarrow> recovery_outcome \<times> supervisor" where
  "record_outcome name verdict duration detail sv =
     (let out = \<lparr>ro_subsystem = name, ro_attempt = sv_attempts sv, ro_verdict = verdict,
                 ro_duration_s = duration, ro_detail = detail\<rparr>
      in (out, push_outcome out (sv\<lparr>sv_last_verdict := Some verdict\<rparr>)))"

definition finalize_outcome ::
    "bool \<Rightarrow> real \<Rightarrow> string \<Rightarrow> supervisor \<times> failure_domain \<Rightarrow>
     recovery_outcome \<times> supervisor \<times> failure_domain" where
  "finalize_outcome ok duration detail svd =
     (let (sv, d) = svd in
      if ok
      then let d' = d\<lparr>fd_breaker := force_close (fd_breaker d)\<rparr>;
               (out, sv') = record_outcome (fd_name d) Succeeded duration detail
                              (sv\<lparr>sv_successes := sv_successes sv + 1\<rparr>)
           in (out, sv', d')
      else let sv1 = sv\<lparr>sv_failures := sv_failures sv + 1\<rparr> in
        if max_recovery_attempts (fd_policy d) \<le> sv_attempts sv1
        then let (out, sv') = record_outcome (fd_name d) Abandoned duration detail
                                (sv1\<lparr>sv_abandoned := True\<rparr>)
             in (out, sv', d)
        else let (out, sv') = record_outcome (fd_name d) Failed duration detail sv1
             in (out, sv', d))"

definition invoke_hook ::
    "recovery_hook \<Rightarrow> real \<Rightarrow> supervisor \<times> failure_domain \<Rightarrow>
     recovery_outcome \<times> supervisor \<times> failure_domain" where
  "invoke_hook hook duration svd =
     (let (sv, d) = svd in
      case hook d of
        (Inl message, d') \<Rightarrow> finalize_outcome False duration (take 200 message) (sv, d')
      | (Inr ok, d') \<Rightarrow>
          finalize_outcome ok duration (if ok then ''ok'' else ''hook returned false'') (sv, d'))"

text \<open>\<open>attempt\<close>, with the hook it would run (\<open>None\<close>: no usable hook) and what it says then.\<close>

definition attempt_with ::
    "recovery_hook option \<Rightarrow> string \<Rightarrow> real \<Rightarrow> supervisor \<times> failure_domain \<Rightarrow>
     recovery_outcome \<times> supervisor \<times> failure_domain" where
  "attempt_with chosen missing duration svd =
     (let (sv, d) = svd in
      if sv_abandoned sv
      then let (out, sv') = record_outcome (fd_name d) Abandoned 0 ''already abandoned'' sv
           in (out, sv', d)
      else if br_state (fd_breaker d) = CLOSED
      then let (out, sv') = record_outcome (fd_name d) Skipped 0 ''breaker already closed'' sv
           in (out, sv', d)
      else case chosen of
        None \<Rightarrow> let (out, sv') = record_outcome (fd_name d) Deferred 0 missing sv in (out, sv', d)
      | Some hook \<Rightarrow> invoke_hook hook duration (sv\<lparr>sv_attempts := sv_attempts sv + 1\<rparr>, d))"

definition attempt ::
    "real \<Rightarrow> supervisor \<times> failure_domain \<Rightarrow> recovery_outcome \<times> supervisor \<times> failure_domain" where
  "attempt duration svd =
     attempt_with (sv_hook (fst svd)) ''no sync recovery hook registered'' duration svd"

definition attempt_async ::
    "real \<Rightarrow> supervisor \<times> failure_domain \<Rightarrow> recovery_outcome \<times> supervisor \<times> failure_domain" where
  "attempt_async duration svd =
     attempt_with
       (case sv_async_hook (fst svd) of Some h \<Rightarrow> Some h | None \<Rightarrow> sv_hook (fst svd))
       ''no recovery hook registered'' duration svd"

lemma sv_fields_record_outcome [simp]:
  "sv_attempts (snd (record_outcome n v t m sv)) = sv_attempts sv"
  "sv_successes (snd (record_outcome n v t m sv)) = sv_successes sv"
  "sv_failures (snd (record_outcome n v t m sv)) = sv_failures sv"
  "sv_abandoned (snd (record_outcome n v t m sv)) = sv_abandoned sv"
  "sv_hook (snd (record_outcome n v t m sv)) = sv_hook sv"
  "sv_async_hook (snd (record_outcome n v t m sv)) = sv_async_hook sv"
  "ro_verdict (fst (record_outcome n v t m sv)) = v"
  by (simp_all add: record_outcome_def push_outcome_def Let_def)

text \<open>The outcome history is a bounded log too.\<close>

lemma tl_push_eq_ring_push:
  "length xs \<le> 64 \<Longrightarrow> (if 64 < length (xs @ [x]) then tl (xs @ [x]) else xs @ [x]) = ring_push 64 x xs"
  by (cases xs) (auto simp: ring_push_def)

lemma length_push_outcome:
  "length (sv_history sv) \<le> 64 \<Longrightarrow> length (sv_history (push_outcome out sv)) \<le> 64"
  by (simp add: push_outcome_def Let_def)

section \<open>Metrics and trace\<close>

record isolation_metrics =
  im_subsystems_registered :: int
  im_failures_observed :: int
  im_breaker_trips :: int
  im_breaker_closes :: int
  im_recovery_attempts :: int
  im_recovery_successes :: int
  im_recovery_failures :: int
  im_recovery_abandonments :: int
  im_payload_quarantines :: int
  im_boundary_admissions :: int
  im_boundary_rejections :: int
  im_mode_transitions :: int
  im_last_mode :: string
  im_by_subsystem :: "(string, int) dict"
  im_by_failure_kind :: "(string, int) dict"

definition new_isolation_metrics :: isolation_metrics where
  "new_isolation_metrics =
     \<lparr>im_subsystems_registered = 0, im_failures_observed = 0, im_breaker_trips = 0,
      im_breaker_closes = 0, im_recovery_attempts = 0, im_recovery_successes = 0,
      im_recovery_failures = 0, im_recovery_abandonments = 0, im_payload_quarantines = 0,
      im_boundary_admissions = 0, im_boundary_rejections = 0, im_mode_transitions = 0,
      im_last_mode = ''normal'', im_by_subsystem = [], im_by_failure_kind = []\<rparr>"

definition im_record_subsystem_registered :: "isolation_metrics \<Rightarrow> isolation_metrics" where
  "im_record_subsystem_registered m =
     m\<lparr>im_subsystems_registered := im_subsystems_registered m + 1\<rparr>"

definition im_record_failure :: "string \<Rightarrow> string \<Rightarrow> isolation_metrics \<Rightarrow> isolation_metrics" where
  "im_record_failure subsystem kind m =
     m\<lparr>im_failures_observed := im_failures_observed m + 1,
       im_by_subsystem :=
         dset subsystem (dget_or 0 (im_by_subsystem m) subsystem + 1) (im_by_subsystem m),
       im_by_failure_kind :=
         dset kind (dget_or 0 (im_by_failure_kind m) kind + 1) (im_by_failure_kind m)\<rparr>"

definition im_record_breaker_trip :: "isolation_metrics \<Rightarrow> isolation_metrics" where
  "im_record_breaker_trip m = m\<lparr>im_breaker_trips := im_breaker_trips m + 1\<rparr>"

definition im_record_breaker_close :: "isolation_metrics \<Rightarrow> isolation_metrics" where
  "im_record_breaker_close m = m\<lparr>im_breaker_closes := im_breaker_closes m + 1\<rparr>"

definition im_record_recovery_attempt ::
    "recovery_verdict \<Rightarrow> isolation_metrics \<Rightarrow> isolation_metrics" where
  "im_record_recovery_attempt verdict m =
     (let m1 = m\<lparr>im_recovery_attempts := im_recovery_attempts m + 1\<rparr> in
      case verdict of
        Succeeded \<Rightarrow> m1\<lparr>im_recovery_successes := im_recovery_successes m1 + 1\<rparr>
      | Failed \<Rightarrow> m1\<lparr>im_recovery_failures := im_recovery_failures m1 + 1\<rparr>
      | Abandoned \<Rightarrow> m1\<lparr>im_recovery_abandonments := im_recovery_abandonments m1 + 1\<rparr>
      | _ \<Rightarrow> m1)"

definition im_record_payload_quarantine :: "isolation_metrics \<Rightarrow> isolation_metrics" where
  "im_record_payload_quarantine m = m\<lparr>im_payload_quarantines := im_payload_quarantines m + 1\<rparr>"

definition im_record_boundary_admission :: "isolation_metrics \<Rightarrow> isolation_metrics" where
  "im_record_boundary_admission m = m\<lparr>im_boundary_admissions := im_boundary_admissions m + 1\<rparr>"

definition im_record_boundary_rejection :: "isolation_metrics \<Rightarrow> isolation_metrics" where
  "im_record_boundary_rejection m = m\<lparr>im_boundary_rejections := im_boundary_rejections m + 1\<rparr>"

definition im_record_mode_transition :: "emergency_mode \<Rightarrow> isolation_metrics \<Rightarrow> isolation_metrics" where
  "im_record_mode_transition mode m =
     m\<lparr>im_mode_transitions := im_mode_transitions m + 1, im_last_mode := mode_value mode\<rparr>"

definition im_reset :: "isolation_metrics \<Rightarrow> isolation_metrics" where
  "im_reset m =
     m\<lparr>im_subsystems_registered := 0, im_failures_observed := 0, im_breaker_trips := 0,
       im_breaker_closes := 0, im_recovery_attempts := 0, im_recovery_successes := 0,
       im_recovery_failures := 0, im_recovery_abandonments := 0, im_payload_quarantines := 0,
       im_boundary_admissions := 0, im_boundary_rejections := 0, im_mode_transitions := 0,
       im_last_mode := ''normal'', im_by_subsystem := [], im_by_failure_kind := []\<rparr>"

record isolation_trace_entry =
  it_kind :: string
  it_detail :: string
  it_at_ns :: int

record isolation_trace =
  tr_enabled :: bool
  tr_capacity :: nat
  tr_ring :: "isolation_trace_entry list"

definition new_isolation_trace :: isolation_trace where
  "new_isolation_trace = \<lparr>tr_enabled = False, tr_capacity = 256, tr_ring = []\<rparr>"

definition set_isolation_trace_enabled ::
    "bool \<Rightarrow> nat option \<Rightarrow> isolation_trace \<Rightarrow> isolation_trace" where
  "set_isolation_trace_enabled value capacity tr =
     (let tr1 = tr\<lparr>tr_enabled := value\<rparr>;
          tr2 = (case capacity of
                   None \<Rightarrow> tr1
                 | Some c \<Rightarrow> tr1\<lparr>tr_capacity := c, tr_ring := take_last c (tr_ring tr1)\<rparr>)
      in if value then tr2 else tr2\<lparr>tr_ring := []\<rparr>)"

definition record_isolation_trace ::
    "int \<Rightarrow> string \<Rightarrow> string \<Rightarrow> isolation_trace \<Rightarrow> isolation_trace" where
  "record_isolation_trace t kind detail tr =
     (if \<not> tr_enabled tr then tr
      else tr\<lparr>tr_ring := ring_push (tr_capacity tr)
                 \<lparr>it_kind = kind, it_detail = detail, it_at_ns = t\<rparr> (tr_ring tr)\<rparr>)"

definition clear_isolation_trace :: "isolation_trace \<Rightarrow> isolation_trace" where
  "clear_isolation_trace tr = tr\<lparr>tr_ring := []\<rparr>"

section \<open>The bridge to the backpressure layer\<close>

record backpressure_suggestion =
  su_runtime_mode :: emergency_mode
  su_drop_policy :: string
  su_sampling_tier :: string
  su_detail :: string

fun default_suggestion :: "emergency_mode \<Rightarrow> backpressure_suggestion" where
  "default_suggestion Normal =
     \<lparr>su_runtime_mode = Normal, su_drop_policy = ''drop-low-priority'',
      su_sampling_tier = ''full'', su_detail = []\<rparr>"
| "default_suggestion Degraded =
     \<lparr>su_runtime_mode = Degraded, su_drop_policy = ''drop-low-priority'',
      su_sampling_tier = ''structural'', su_detail = ''one subsystem on fallback''\<rparr>"
| "default_suggestion Shed =
     \<lparr>su_runtime_mode = Shed, su_drop_policy = ''drop-newest'',
      su_sampling_tier = ''structural'', su_detail = ''overload shedding active''\<rparr>"
| "default_suggestion Emergency =
     \<lparr>su_runtime_mode = Emergency, su_drop_policy = ''drop-newest'',
      su_sampling_tier = ''critical-only'', su_detail = ''critical subsystem unavailable''\<rparr>"
| "default_suggestion Halt =
     \<lparr>su_runtime_mode = Halt, su_drop_policy = ''block'',
      su_sampling_tier = ''critical-only'', su_detail = ''runtime halted for diagnostics''\<rparr>"

record isolation_bridge =
  ib_listeners :: "nat list"
  ib_mode :: emergency_mode
  ib_suggestion :: backpressure_suggestion

definition new_bridge :: isolation_bridge where
  "new_bridge = \<lparr>ib_listeners = [], ib_mode = Normal, ib_suggestion = default_suggestion Normal\<rparr>"

definition on_mode_change ::
    "emergency_mode \<Rightarrow> isolation_bridge \<Rightarrow> (nat \<times> backpressure_suggestion) list \<times> isolation_bridge" where
  "on_mode_change mode ib =
     (if ib_mode ib = mode then ([], ib)
      else (map (\<lambda>l. (l, default_suggestion mode)) (ib_listeners ib),
            ib\<lparr>ib_mode := mode, ib_suggestion := default_suggestion mode\<rparr>))"

definition bridge_subscribe :: "nat \<Rightarrow> isolation_bridge \<Rightarrow> isolation_bridge" where
  "bridge_subscribe l ib = ib\<lparr>ib_listeners := ib_listeners ib @ [l]\<rparr>"

definition bridge_unsubscribe :: "nat \<Rightarrow> isolation_bridge \<Rightarrow> isolation_bridge" where
  "bridge_unsubscribe l ib = ib\<lparr>ib_listeners := remove1 l (ib_listeners ib)\<rparr>"

section \<open>The runtime failure manager\<close>

record subsystem_entry =
  se_domain :: failure_domain
  se_supervisor :: supervisor

datatype isolation_call =
    ModeCall nat emergency_mode
  | SuggestionCall nat backpressure_suggestion
  | FailureCall nat failure_event breaker_state breaker_state

record failure_manager =
  fm_config :: isolation_config
  fm_metrics :: isolation_metrics
  fm_trace :: isolation_trace
  fm_subsystems :: "(string, subsystem_entry) dict"
  fm_mode :: emergency_mode
  fm_mode_listeners :: "nat list"
  fm_bridge :: isolation_bridge
  fm_calls :: "isolation_call list"

definition new_manager ::
    "isolation_config \<Rightarrow> isolation_metrics \<Rightarrow> isolation_trace \<Rightarrow> failure_manager" where
  "new_manager cfg im tr =
     \<lparr>fm_config = cfg, fm_metrics = im,
      fm_trace = (if cfg_enable_tracing cfg
                  then set_isolation_trace_enabled True (Some (cfg_trace_capacity cfg)) tr else tr),
      fm_subsystems = [], fm_mode = Normal, fm_mode_listeners = [], fm_bridge = new_bridge,
      fm_calls = []\<rparr>"

definition mgr_trace :: "int \<Rightarrow> string \<Rightarrow> string \<Rightarrow> failure_manager \<Rightarrow> failure_manager" where
  "mgr_trace t kind detail m = m\<lparr>fm_trace := record_isolation_trace t kind detail (fm_trace m)\<rparr>"

definition mgr_register ::
    "int \<Rightarrow> string \<Rightarrow> subsystem_policy option \<Rightarrow> failure_manager \<Rightarrow> failure_manager" where
  "mgr_register t name pol m =
     (case dget (fm_subsystems m) name of
        Some e \<Rightarrow> m
      | None \<Rightarrow>
          let p = (case pol of
                     Some p \<Rightarrow> p
                   | None \<Rightarrow> dget_or (cfg_default_policy (fm_config m))
                              (cfg_per_subsystem (fm_config m)) name);
              d = domain_subscribe ManagerHook (new_domain name p);
              e = \<lparr>se_domain = d, se_supervisor = new_supervisor\<rparr>
          in mgr_trace t ''subsystem-registered'' name
               (m\<lparr>fm_subsystems := dset name e (fm_subsystems m),
                  fm_metrics := im_record_subsystem_registered (fm_metrics m)\<rparr>))"

definition transition_mode :: "int \<Rightarrow> emergency_mode \<Rightarrow> bool \<Rightarrow> failure_manager \<Rightarrow> failure_manager" where
  "transition_mode t target forced m =
     (if fm_mode m = target \<and> \<not> forced then m
      else
        let m1 = mgr_trace t ''mode-transition'' (mode_value target)
                   (m\<lparr>fm_mode := target,
                      fm_metrics := im_record_mode_transition target (fm_metrics m)\<rparr>);
            (sugs, ib) = on_mode_change target (fm_bridge m1)
        in m1\<lparr>fm_bridge := ib,
              fm_calls := fm_calls m1 @ map (\<lambda>(l, s). SuggestionCall l s) sugs
                @ map (\<lambda>l. ModeCall l target) (fm_mode_listeners m1)\<rparr>)"

definition breaker_states :: "failure_manager \<Rightarrow> (string, breaker_state) dict" where
  "breaker_states m =
     map (\<lambda>(name, e). (name, br_state (fd_breaker (se_domain e)))) (fm_subsystems m)"

definition derived_mode :: "failure_manager \<Rightarrow> emergency_mode" where
  "derived_mode m =
     derive_runtime_mode (cfg_halt_on_critical_subsystem (fm_config m)) (breaker_states m)"

definition reevaluate_mode :: "int \<Rightarrow> failure_manager \<Rightarrow> failure_manager" where
  "reevaluate_mode t m = transition_mode t (derived_mode m) False m"

definition on_domain_failure ::
    "int \<Rightarrow> failure_event \<Rightarrow> breaker_state \<Rightarrow> breaker_state \<Rightarrow> failure_manager \<Rightarrow> failure_manager" where
  "on_domain_failure t event previous new m =
     (let name = fe_subsystem event;
          m1 = mgr_trace t ''failure-observed''
                 (name @ '':'' @ kind_value (fe_kind event) @ '':'' @ take 80 (fe_detail event))
                 (m\<lparr>fm_metrics := im_record_failure name (kind_value (fe_kind event)) (fm_metrics m)\<rparr>);
          m2 = (if previous \<noteq> OPEN \<and> new = OPEN
                then mgr_trace t ''breaker-trip'' name
                       (m1\<lparr>fm_metrics := im_record_breaker_trip (fm_metrics m1)\<rparr>)
                else if previous = OPEN \<and> new \<noteq> OPEN
                then mgr_trace t ''breaker-close'' name
                       (m1\<lparr>fm_metrics := im_record_breaker_close (fm_metrics m1)\<rparr>)
                else m1);
          m3 = (if fe_payload_kind event \<noteq> [] \<and> fe_kind event = KCorruption
                then mgr_trace t ''payload-quarantined'' (name @ '':'' @ fe_payload_kind event)
                       (m2\<lparr>fm_metrics := im_record_payload_quarantine (fm_metrics m2)\<rparr>)
                else m2)
      in reevaluate_mode t m3)"

text \<open>The calls a domain makes to its listeners, in order.\<close>

fun deliver :: "int \<Rightarrow> failure_call list \<Rightarrow> failure_manager \<Rightarrow> failure_manager" where
  "deliver t [] m = m"
| "deliver t ((ManagerHook, event, previous, new) # cs) m =
     deliver t cs (on_domain_failure t event previous new m)"
| "deliver t ((Subscriber l, event, previous, new) # cs) m =
     deliver t cs (m\<lparr>fm_calls := fm_calls m @ [FailureCall l event previous new]\<rparr>)"

definition set_domain :: "string \<Rightarrow> failure_domain \<Rightarrow> failure_manager \<Rightarrow> failure_manager" where
  "set_domain name d m =
     (case dget (fm_subsystems m) name of
        None \<Rightarrow> m
      | Some e \<Rightarrow> m\<lparr>fm_subsystems := dset name (e\<lparr>se_domain := d\<rparr>) (fm_subsystems m)\<rparr>)"

definition domain_of :: "string \<Rightarrow> failure_manager \<Rightarrow> failure_domain option" where
  "domain_of name m = map_option se_domain (dget (fm_subsystems m) name)"

definition supervisor_of :: "string \<Rightarrow> failure_manager \<Rightarrow> supervisor option" where
  "supervisor_of name m = map_option se_supervisor (dget (fm_subsystems m) name)"

text \<open>
  A failure recorded on the domain of a subsystem, by whatever path, reaches the manager through
  the domain's listeners.
\<close>

definition mgr_record_failure ::
    "int \<Rightarrow> string \<Rightarrow> failure_event \<Rightarrow> failure_manager \<Rightarrow> failure_manager" where
  "mgr_record_failure t name event m =
     (case domain_of name m of
        None \<Rightarrow> m
      | Some d \<Rightarrow>
          let (_, calls, d') = domain_record_failure t event d
          in deliver t calls (set_domain name d' m))"

definition submit_failure :: "int \<Rightarrow> failure_event \<Rightarrow> failure_manager \<Rightarrow> failure_manager" where
  "submit_failure t event m =
     mgr_record_failure t (fe_subsystem event) event (mgr_register t (fe_subsystem event) None m)"

definition report_exception ::
    "int \<Rightarrow> string \<Rightarrow> py_exception \<Rightarrow> string \<Rightarrow> failure_manager \<Rightarrow> failure_event \<times> failure_manager" where
  "report_exception t name exc payload m =
     (let event = make_event name (classify_exception exc) (failure_detail exc) t payload
      in (event, submit_failure t event m))"

definition report_marker ::
    "int \<Rightarrow> string \<Rightarrow> string \<Rightarrow> string \<Rightarrow> failure_manager \<Rightarrow> failure_event \<times> failure_manager" where
  "report_marker t name marker payload m =
     (let event = make_event name (classify_marker marker) marker t payload
      in (event, submit_failure t event m))"

text \<open>Entering and leaving a boundary of a registered subsystem.\<close>

definition mgr_enter ::
    "int \<Rightarrow> string \<Rightarrow> boundary \<Rightarrow> failure_manager \<Rightarrow> (boundary_error + boundary) \<times> failure_manager" where
  "mgr_enter t name bd m =
     (let m1 = mgr_register t name None m in
      case domain_of name m1 of
        None \<Rightarrow> (Inr bd, m1)
      | Some d \<Rightarrow> let (r, d') = boundary_admit t bd d in (r, set_domain name d' m1))"

definition mgr_exit ::
    "int \<Rightarrow> string \<Rightarrow> py_exception option \<Rightarrow> boundary \<Rightarrow> failure_manager \<Rightarrow> bool \<times> failure_manager" where
  "mgr_exit t name exc bd m =
     (case domain_of name m of
        None \<Rightarrow> (False, m)
      | Some d \<Rightarrow>
          let (swallowed, calls, d', _) = handle_exit (\<lambda>_. id) t exc bd (d, ())
          in (swallowed, deliver t calls (set_domain name d' m)))"

definition finish_recovery ::
    "int \<Rightarrow> string \<Rightarrow> recovery_outcome \<times> supervisor \<times> failure_domain \<Rightarrow> failure_manager \<Rightarrow>
     recovery_outcome \<times> failure_manager" where
  "finish_recovery t name r m =
     (let (out, sv, d) = r;
          m1 = m\<lparr>fm_subsystems :=
                   dset name \<lparr>se_domain = d, se_supervisor = sv\<rparr> (fm_subsystems m),
                 fm_metrics := im_record_recovery_attempt (ro_verdict out) (fm_metrics m)\<rparr>;
          m2 = mgr_trace t ''recovery-outcome''
                 (name @ '': '' @ (case ro_verdict out of
                    Succeeded \<Rightarrow> ''succeeded'' | Failed \<Rightarrow> ''failed'' | Deferred \<Rightarrow> ''deferred''
                  | Abandoned \<Rightarrow> ''abandoned'' | Skipped \<Rightarrow> ''skipped'')) m1
      in (out, reevaluate_mode t m2))"

text \<open>\<open>attempt_recovery\<close>: \<open>None\<close> is the \<open>KeyError\<close> of an unknown subsystem.\<close>

definition attempt_recovery ::
    "int \<Rightarrow> real \<Rightarrow> string \<Rightarrow> failure_manager \<Rightarrow> (recovery_outcome \<times> failure_manager) option" where
  "attempt_recovery t duration name m =
     (case dget (fm_subsystems m) name of
        None \<Rightarrow> None
      | Some e \<Rightarrow>
          Some (finish_recovery t name (attempt duration (se_supervisor e, se_domain e)) m))"

definition attempt_recovery_async ::
    "int \<Rightarrow> real \<Rightarrow> string \<Rightarrow> failure_manager \<Rightarrow> (recovery_outcome \<times> failure_manager) option" where
  "attempt_recovery_async t duration name m =
     (case dget (fm_subsystems m) name of
        None \<Rightarrow> None
      | Some e \<Rightarrow>
          Some (finish_recovery t name (attempt_async duration (se_supervisor e, se_domain e)) m))"

definition register_recovery ::
    "string \<Rightarrow> recovery_hook \<Rightarrow> failure_manager \<Rightarrow> failure_manager option" where
  "register_recovery name h m =
     (case dget (fm_subsystems m) name of
        None \<Rightarrow> None
      | Some e \<Rightarrow> Some (m\<lparr>fm_subsystems :=
          dset name (e\<lparr>se_supervisor := register_hook h (se_supervisor e)\<rparr>) (fm_subsystems m)\<rparr>))"

definition register_async_recovery ::
    "string \<Rightarrow> recovery_hook \<Rightarrow> failure_manager \<Rightarrow> failure_manager option" where
  "register_async_recovery name h m =
     (case dget (fm_subsystems m) name of
        None \<Rightarrow> None
      | Some e \<Rightarrow> Some (m\<lparr>fm_subsystems :=
          dset name (e\<lparr>se_supervisor := register_async_hook h (se_supervisor e)\<rparr>)
            (fm_subsystems m)\<rparr>))"

definition force_mode :: "int \<Rightarrow> emergency_mode \<Rightarrow> failure_manager \<Rightarrow> failure_manager" where
  "force_mode t mode m = transition_mode t mode True m"

definition subscribe_mode :: "nat \<Rightarrow> failure_manager \<Rightarrow> failure_manager" where
  "subscribe_mode l m = m\<lparr>fm_mode_listeners := fm_mode_listeners m @ [l]\<rparr>"

definition unsubscribe_mode :: "nat \<Rightarrow> failure_manager \<Rightarrow> failure_manager" where
  "unsubscribe_mode l m = m\<lparr>fm_mode_listeners := remove1 l (fm_mode_listeners m)\<rparr>"

definition mgr_reset :: "int \<Rightarrow> failure_manager \<Rightarrow> failure_manager" where
  "mgr_reset t m =
     (let m1 = m\<lparr>fm_subsystems :=
                   map (\<lambda>(name, e). (name,
                     \<lparr>se_domain = domain_reset (se_domain e),
                      se_supervisor = reset_abandoned (clear_hooks (se_supervisor e))\<rparr>))
                   (fm_subsystems m),
                 fm_mode := Normal\<rparr>;
          (sugs, ib) = on_mode_change Normal (fm_bridge m1)
      in mgr_trace t ''diagnostic'' ''manager-reset''
           (m1\<lparr>fm_bridge := ib,
               fm_calls := fm_calls m1 @ map (\<lambda>(l, s). SuggestionCall l s) sugs\<rparr>))"

section \<open>Integrity checks\<close>

datatype integrity_kind =
  NegativeCounter | OpenWithoutTrip | AbandonedWithClosedBreaker | QuarantineWithoutPolicy
  | HistoryInconsistent

type_synonym integrity_finding = "integrity_kind \<times> string"

definition check_domain :: "domain_snapshot \<Rightarrow> integrity_finding list" where
  "check_domain s =
     map (\<lambda>(n, v). (NegativeCounter, ds_name s @ ''.'' @ n @ ''='' @ str_of_int v))
       (filter (\<lambda>(_, v). v < 0)
         [(''total_failures'', ds_total_failures s), (''total_successes'', ds_total_successes s),
          (''trips'', bs_trips (ds_breaker s)), (''transitions'', bs_transitions (ds_breaker s)),
          (''failures_in_window'', int (bs_failures_in_window (ds_breaker s)))])
     @ (if bs_state (ds_breaker s) = OPEN \<and> bs_trips (ds_breaker s) = 0
        then [(OpenWithoutTrip, ds_name s)] else [])"

definition check_supervisor :: "string \<Rightarrow> supervisor \<Rightarrow> integrity_finding list" where
  "check_supervisor name sv =
     (if sv_attempts sv < 0 \<or> sv_successes sv < 0 \<or> sv_failures sv < 0
      then [(NegativeCounter, name @ ''.attempts='' @ str_of_int (sv_attempts sv))] else [])
     @ (if sv_abandoned sv \<and> sv_attempts sv = 0
        then [(HistoryInconsistent, name @ '' abandoned with zero attempts'')] else [])"

definition integrity_findings :: "failure_manager \<Rightarrow> integrity_finding list" where
  "integrity_findings m =
     concat (map (\<lambda>(_, e). check_domain (snapshot_domain (se_domain e))) (fm_subsystems m))
     @ concat (map (\<lambda>(_, e). check_supervisor (fd_name (se_domain e)) (se_supervisor e))
         (fm_subsystems m))"

section \<open>Runs of a manager\<close>

datatype manager_call =
    MRegister int string "subsystem_policy option"
  | MEnter int string boundary
  | MExit int string "py_exception option" boundary
  | MReport int string py_exception string
  | MMarker int string string string
  | MHook string recovery_hook
  | MAsyncHook string recovery_hook
  | MAttempt int real string
  | MAttemptAsync int real string
  | MForceMode int emergency_mode
  | MSubscribe nat
  | MUnsubscribe nat
  | MBreaker string breaker_call
  | MRelease string string
  | MReset int

definition on_domain :: "(failure_domain \<Rightarrow> failure_domain) \<Rightarrow> string \<Rightarrow> failure_manager \<Rightarrow> failure_manager" where
  "on_domain f name m = (case domain_of name m of None \<Rightarrow> m | Some d \<Rightarrow> set_domain name (f d) m)"

fun manager_step :: "manager_call \<Rightarrow> failure_manager \<Rightarrow> failure_manager" where
  "manager_step (MRegister t name pol) m = mgr_register t name pol m"
| "manager_step (MEnter t name bd) m = snd (mgr_enter t name bd m)"
| "manager_step (MExit t name exc bd) m = snd (mgr_exit t name exc bd m)"
| "manager_step (MReport t name exc payload) m = snd (report_exception t name exc payload m)"
| "manager_step (MMarker t name marker payload) m = snd (report_marker t name marker payload m)"
| "manager_step (MHook name h) m = (case register_recovery name h m of None \<Rightarrow> m | Some m' \<Rightarrow> m')"
| "manager_step (MAsyncHook name h) m =
     (case register_async_recovery name h m of None \<Rightarrow> m | Some m' \<Rightarrow> m')"
| "manager_step (MAttempt t dur name) m =
     (case attempt_recovery t dur name m of None \<Rightarrow> m | Some (_, m') \<Rightarrow> m')"
| "manager_step (MAttemptAsync t dur name) m =
     (case attempt_recovery_async t dur name m of None \<Rightarrow> m | Some (_, m') \<Rightarrow> m')"
| "manager_step (MForceMode t mode) m = force_mode t mode m"
| "manager_step (MSubscribe l) m = subscribe_mode l m"
| "manager_step (MUnsubscribe l) m = unsubscribe_mode l m"
| "manager_step (MBreaker name c) m =
     on_domain (\<lambda>d. d\<lparr>fd_breaker := breaker_step c (fd_breaker d)\<rparr>) name m"
| "manager_step (MRelease name payload) m =
     on_domain (\<lambda>d. snd (release_quarantine payload d)) name m"
| "manager_step (MReset t) m = mgr_reset t m"

section \<open>Invariants of domains and supervisors\<close>

definition domain_ok :: "failure_domain \<Rightarrow> bool" where
  "domain_ok d \<longleftrightarrow>
     breaker_ok (fd_breaker d) \<and> br_policy (fd_breaker d) = fd_policy d \<and>
     0 \<le> fd_total_failures d \<and> 0 \<le> fd_total_successes d \<and>
     length (fd_history d) \<le> history_capacity \<and>
     int (length (fd_history d)) \<le> fd_total_failures d \<and>
     ManagerHook \<in> set (fd_listeners d) \<and> finite (fd_quarantine d) \<and>
     (quarantine_payload_kind (fd_policy d) \<or> fd_quarantine d = {})"

text \<open>What the code relies on of a recovery hook: it acts on the domain through its operations.\<close>

definition hook_ok :: "recovery_hook \<Rightarrow> bool" where
  "hook_ok h \<longleftrightarrow> (\<forall>d. domain_ok d \<longrightarrow> domain_ok (snd (h d)))"

definition supervisor_ok :: "supervisor \<Rightarrow> bool" where
  "supervisor_ok sv \<longleftrightarrow>
     0 \<le> sv_attempts sv \<and> 0 \<le> sv_successes sv \<and> 0 \<le> sv_failures sv \<and>
     (sv_abandoned sv \<longrightarrow> 0 < sv_attempts sv) \<and> length (sv_history sv) \<le> 64 \<and>
     pred_option hook_ok (sv_hook sv) \<and> pred_option hook_ok (sv_async_hook sv)"

definition entry_ok :: "subsystem_entry \<Rightarrow> bool" where
  "entry_ok e \<longleftrightarrow> domain_ok (se_domain e) \<and> supervisor_ok (se_supervisor e)"

definition bridge_ok :: "failure_manager \<Rightarrow> bool" where
  "bridge_ok m \<longleftrightarrow>
     ib_mode (fm_bridge m) = fm_mode m \<and>
     ib_suggestion (fm_bridge m) = default_suggestion (fm_mode m)"

definition manager_ok :: "failure_manager \<Rightarrow> bool" where
  "manager_ok m \<longleftrightarrow>
     distinct (dkeys (fm_subsystems m)) \<and>
     (\<forall>name e. dget (fm_subsystems m) name = Some e \<longrightarrow> entry_ok e) \<and> bridge_ok m"

lemma domain_ok_new: "domain_ok (domain_subscribe ManagerHook (new_domain name p))"
  by (simp add: domain_ok_def domain_subscribe_def new_domain_def breaker_ok_new history_capacity_def)

lemma domain_ok_allow: "domain_ok d \<Longrightarrow> domain_ok (snd (domain_allow_request payload t d))"
  using breaker_ok_allow[of "fd_breaker d" t] policy_kept(5)[of t "fd_breaker d"]
  by (cases "breaker_allow_request t (fd_breaker d)")
     (auto simp: domain_ok_def domain_allow_request_def)

lemma domain_ok_success: "domain_ok d \<Longrightarrow> domain_ok (domain_record_success t d)"
  by (simp add: domain_ok_def domain_record_success_def breaker_ok_success)

lemma domain_ok_failure: "domain_ok d \<Longrightarrow> domain_ok (snd (snd (domain_record_failure t ev d)))"
proof -
  assume d: "domain_ok d"
  have "length (ring_push history_capacity ev (fd_history d)) \<le> Suc (length (fd_history d))"
    by (simp add: ring_push_def)
  then show ?thesis
    using d by (auto simp: domain_ok_def domain_record_failure_def Let_def breaker_ok_failure
        length_ring_push)
qed

lemma domain_ok_breaker: "domain_ok d \<Longrightarrow> domain_ok (d\<lparr>fd_breaker := breaker_step c (fd_breaker d)\<rparr>)"
  by (simp add: domain_ok_def breaker_ok_step)

lemma domain_ok_force_close: "domain_ok d \<Longrightarrow> domain_ok (d\<lparr>fd_breaker := force_close (fd_breaker d)\<rparr>)"
  by (simp add: domain_ok_def breaker_ok_force_close)

lemma domain_ok_release: "domain_ok d \<Longrightarrow> domain_ok (snd (release_quarantine payload d))"
  by (auto simp: domain_ok_def release_quarantine_def)

lemma domain_ok_reset: "domain_ok d \<Longrightarrow> domain_ok (domain_reset d)"
  using breaker_ok_step[of "fd_breaker d" BrReset] by (simp add: domain_ok_def domain_reset_def)

lemma domain_ok_admit: "domain_ok d \<Longrightarrow> domain_ok (snd (boundary_admit t bd d))"
  using domain_ok_allow[of d "bd_payload_kind bd" t]
  by (cases "domain_allow_request (bd_payload_kind bd) t d") (auto simp: boundary_admit_def)

lemma domain_ok_exit:
  "domain_ok (fst dh) \<Longrightarrow> domain_ok (fst (snd (snd (handle_exit f t exc bd dh))))"
  using domain_ok_success domain_ok_failure
  by (auto simp: handle_exit_def Let_def split: prod.splits option.splits)
     (metis snd_conv)+

text \<open>Listeners are called with the domain's breaker states around the failure.\<close>

lemma failure_calls:
  "domain_record_failure t ev d = (s, calls, d') \<Longrightarrow>
     calls = map (\<lambda>l. (l, ev, br_state (fd_breaker d), br_state (fd_breaker d'))) (fd_listeners d) \<and>
     s = br_state (fd_breaker d')"
  by (auto simp: domain_record_failure_def Let_def)

lemma sv_record_outcome_ok:
  "supervisor_ok sv \<Longrightarrow> supervisor_ok (snd (record_outcome n v t msg sv))"
  using length_push_outcome[of "sv\<lparr>sv_last_verdict := Some v\<rparr>"]
  by (simp add: supervisor_ok_def) (simp add: record_outcome_def Let_def)

lemma finalize_ok:
  assumes "supervisor_ok sv" "domain_ok d" "0 < sv_attempts sv"
  shows "supervisor_ok (fst (snd (finalize_outcome ok dur msg (sv, d)))) \<and>
         domain_ok (snd (snd (finalize_outcome ok dur msg (sv, d))))"
proof -
  have "supervisor_ok (sv\<lparr>sv_successes := sv_successes sv + 1\<rparr>)"
    "supervisor_ok (sv\<lparr>sv_failures := sv_failures sv + 1, sv_abandoned := True\<rparr>)"
    "supervisor_ok (sv\<lparr>sv_failures := sv_failures sv + 1\<rparr>)"
    using assms(1,3) by (simp_all add: supervisor_ok_def)
  from this[THEN sv_record_outcome_ok] assms(2) show ?thesis
    by (simp add: finalize_outcome_def Let_def domain_ok_force_close split: prod.splits)
       (metis snd_conv)+
qed

lemma attempt_ok:
  assumes "supervisor_ok sv" "domain_ok d" "pred_option hook_ok chosen"
  shows "supervisor_ok (fst (snd (attempt_with chosen msg dur (sv, d)))) \<and>
         domain_ok (snd (snd (attempt_with chosen msg dur (sv, d))))"
proof (cases "sv_abandoned sv \<or> br_state (fd_breaker d) = CLOSED \<or> chosen = None")
  case True
  then show ?thesis
    using sv_record_outcome_ok[OF assms(1)] assms(2)
    by (auto simp: attempt_with_def Let_def split: prod.splits) (metis snd_conv)+
next
  case False
  then obtain h where h: "chosen = Some h" "hook_ok h"
    using assms(3) by auto
  obtain r d' where hd: "h d = (r, d')" by fastforce
  have "domain_ok d'" using h(2) assms(2) hd unfolding hook_ok_def by (metis snd_conv)
  moreover have "supervisor_ok (sv\<lparr>sv_attempts := sv_attempts sv + 1\<rparr>)"
    using assms(1) by (auto simp: supervisor_ok_def)
  moreover have "0 < sv_attempts (sv\<lparr>sv_attempts := sv_attempts sv + 1\<rparr>)"
    using assms(1) by (simp add: supervisor_ok_def)
  ultimately show ?thesis
    using False h(1) hd finalize_ok
    by (simp add: attempt_with_def invoke_hook_def split: sum.splits)
qed

section \<open>Invariants of the manager\<close>

lemma mgr_trace_fields [simp]:
  "fm_subsystems (mgr_trace t k dt m) = fm_subsystems m"
  "fm_mode (mgr_trace t k dt m) = fm_mode m"
  "fm_bridge (mgr_trace t k dt m) = fm_bridge m"
  "fm_metrics (mgr_trace t k dt m) = fm_metrics m"
  "fm_config (mgr_trace t k dt m) = fm_config m"
  "fm_mode_listeners (mgr_trace t k dt m) = fm_mode_listeners m"
  "fm_calls (mgr_trace t k dt m) = fm_calls m"
  by (simp_all add: mgr_trace_def)

lemma transition_mode_fields [simp]:
  "fm_subsystems (transition_mode t target f m) = fm_subsystems m"
  "fm_config (transition_mode t target f m) = fm_config m"
  "fm_mode_listeners (transition_mode t target f m) = fm_mode_listeners m"
  "fm_mode (transition_mode t target f m) = target"
  by (auto simp: transition_mode_def Let_def split: prod.splits)

lemma bridge_ok_transition: "bridge_ok m \<Longrightarrow> bridge_ok (transition_mode t target f m)"
  by (auto simp: bridge_ok_def transition_mode_def on_mode_change_def Let_def)

lemma derived_mode_cong:
  "fm_subsystems m' = fm_subsystems m \<Longrightarrow> fm_config m' = fm_config m \<Longrightarrow>
   derived_mode m' = derived_mode m"
  by (simp add: derived_mode_def breaker_states_def)

lemma derived_mode_transition [simp]: "derived_mode (transition_mode t target f m) = derived_mode m"
  by (rule derived_mode_cong) simp_all

lemma reevaluate_fields [simp]:
  "fm_subsystems (reevaluate_mode t m) = fm_subsystems m"
  "fm_config (reevaluate_mode t m) = fm_config m"
  "fm_mode (reevaluate_mode t m) = derived_mode m"
  "derived_mode (reevaluate_mode t m) = derived_mode m"
  by (simp_all add: reevaluate_mode_def)

lemma on_domain_failure_fields [simp]:
  "fm_subsystems (on_domain_failure t ev a b m) = fm_subsystems m"
  "fm_config (on_domain_failure t ev a b m) = fm_config m"
  by (simp_all add: on_domain_failure_def Let_def)

lemma on_domain_failure_mode:
  "fm_mode (on_domain_failure t ev a b m) = derived_mode (on_domain_failure t ev a b m)"
  by (simp add: on_domain_failure_def Let_def)

lemma bridge_ok_cong:
  "bridge_ok m \<Longrightarrow> fm_bridge m' = fm_bridge m \<Longrightarrow> fm_mode m' = fm_mode m \<Longrightarrow> bridge_ok m'"
  by (simp add: bridge_ok_def)

lemma bridge_ok_on_domain_failure: "bridge_ok m \<Longrightarrow> bridge_ok (on_domain_failure t ev a b m)"
  unfolding on_domain_failure_def Let_def reevaluate_mode_def
  by (rule bridge_ok_transition, erule bridge_ok_cong) simp_all

lemma deliver_fields [simp]:
  "fm_subsystems (deliver t cs m) = fm_subsystems m"
  "fm_config (deliver t cs m) = fm_config m"
  by (induction t cs m rule: deliver.induct) simp_all

lemma bridge_ok_deliver: "bridge_ok m \<Longrightarrow> bridge_ok (deliver t cs m)"
proof (induction t cs m rule: deliver.induct)
  case (2 t ev a b cs m)
  then show ?case by (simp add: bridge_ok_on_domain_failure)
next
  case (3 t l ev a b cs m)
  then show ?case by (simp add: bridge_ok_def)
qed simp

text \<open>Once the manager's hook has run, later listeners do not change the mode.\<close>

lemma deliver_mode:
  "fm_mode m = derived_mode m \<or> ManagerHook \<in> fst ` set cs \<Longrightarrow>
   fm_mode (deliver t cs m) = derived_mode (deliver t cs m)"
proof (induction t cs m rule: deliver.induct)
  case (2 t ev a b cs m)
  then show ?case using on_domain_failure_mode by simp
next
  case (3 t l ev a b cs m)
  then show ?case by (simp add: derived_mode_def breaker_states_def)
qed simp

lemma manager_ok_bridge: "manager_ok m \<Longrightarrow> bridge_ok m"
  by (simp add: manager_ok_def)

lemma manager_ok_cong:
  "manager_ok m \<Longrightarrow> fm_subsystems m' = fm_subsystems m \<Longrightarrow> bridge_ok m' \<Longrightarrow> manager_ok m'"
  by (simp add: manager_ok_def)

lemma manager_ok_put:
  "manager_ok m \<Longrightarrow> entry_ok e \<Longrightarrow> manager_ok (m\<lparr>fm_subsystems := dset name e (fm_subsystems m)\<rparr>)"
  by (auto simp: manager_ok_def bridge_ok_def dict_simps simp del: distinct_map split: if_splits)

lemma manager_ok_trace [simp]: "manager_ok (mgr_trace t k dt m) = manager_ok m"
  by (simp add: manager_ok_def bridge_ok_def)

lemma manager_ok_metrics [simp]: "manager_ok (m\<lparr>fm_metrics := x\<rparr>) = manager_ok m"
  by (simp add: manager_ok_def bridge_ok_def)

lemma manager_ok_transition: "manager_ok m \<Longrightarrow> manager_ok (transition_mode t target f m)"
  by (rule manager_ok_cong) (simp_all add: bridge_ok_transition manager_ok_bridge)

lemma manager_ok_deliver: "manager_ok m \<Longrightarrow> manager_ok (deliver t cs m)"
  by (rule manager_ok_cong) (simp_all add: bridge_ok_deliver manager_ok_bridge)

lemma manager_ok_register: "manager_ok m \<Longrightarrow> manager_ok (mgr_register t name pol m)"
proof -
  assume m: "manager_ok m"
  have "entry_ok \<lparr>se_domain = domain_subscribe ManagerHook (new_domain name p),
      se_supervisor = new_supervisor\<rparr>" for p
    by (simp add: entry_ok_def domain_ok_new supervisor_ok_def new_supervisor_def)
  from manager_ok_put[OF m this] show ?thesis
    using m manager_ok_metrics by (auto simp: mgr_register_def Let_def split: option.split)
qed

lemma domain_of_ok: "manager_ok m \<Longrightarrow> domain_of name m = Some d \<Longrightarrow> domain_ok d"
  by (auto simp: manager_ok_def domain_of_def entry_ok_def)

lemma entry_of_ok: "manager_ok m \<Longrightarrow> dget (fm_subsystems m) name = Some e \<Longrightarrow> entry_ok e"
  by (simp only: manager_ok_def)

lemma manager_ok_set_domain:
  assumes "manager_ok m" "domain_ok d"
  shows "manager_ok (set_domain name d m)"
proof (cases "dget (fm_subsystems m) name")
  case None
  then show ?thesis using assms(1) by (simp add: set_domain_def)
next
  case (Some e)
  have "entry_ok (e\<lparr>se_domain := d\<rparr>)"
    using entry_of_ok[OF assms(1) Some] assms(2) by (simp add: entry_ok_def)
  from manager_ok_put[OF assms(1) this] show ?thesis
    by (simp only: set_domain_def Some option.case)
qed

lemma manager_ok_record_failure:
  assumes "manager_ok m"
  shows "manager_ok (mgr_record_failure t name ev m)"
proof (cases "domain_of name m")
  case None
  then show ?thesis using assms by (simp add: mgr_record_failure_def)
next
  case (Some d)
  obtain s calls d' where r: "domain_record_failure t ev d = (s, calls, d')"
    by (metis prod_cases3)
  then have "domain_ok d'"
    using domain_ok_failure[OF domain_of_ok[OF assms Some], of t ev] by simp
  then show ?thesis
    using Some r assms by (simp add: mgr_record_failure_def manager_ok_deliver manager_ok_set_domain)
qed

lemma manager_ok_enter:
  assumes "manager_ok m"
  shows "manager_ok (snd (mgr_enter t name bd m))"
proof -
  let ?m = "mgr_register t name None m"
  have m: "manager_ok ?m" using assms by (rule manager_ok_register)
  show ?thesis
  proof (cases "domain_of name ?m")
    case None
    then show ?thesis using m by (simp add: mgr_enter_def Let_def)
  next
    case (Some d)
    have "domain_ok (snd (boundary_admit t bd d))"
      by (rule domain_ok_admit[OF domain_of_ok[OF m Some]])
    with Some m show ?thesis
      by (simp add: mgr_enter_def Let_def manager_ok_set_domain split_beta)
  qed
qed

lemma manager_ok_exit: "manager_ok m \<Longrightarrow> manager_ok (snd (mgr_exit t name exc bd m))"
proof (cases "domain_of name m")
  case None
  assume "manager_ok m"
  with None show ?thesis by (simp add: mgr_exit_def)
next
  case (Some d)
  assume m: "manager_ok m"
  obtain sw calls d' u where r: "handle_exit (\<lambda>_. id) t exc bd (d, ()) = (sw, calls, d', u)"
    by (metis prod_cases4)
  then have "domain_ok d'"
    using domain_ok_exit[of "(d, ())" "\<lambda>_. id" t exc bd] domain_of_ok[OF m Some] by simp
  then show ?thesis
    using Some r m by (simp add: mgr_exit_def manager_ok_deliver manager_ok_set_domain)
qed

lemma manager_ok_finish:
  assumes "manager_ok m" "supervisor_ok (fst (snd r))" "domain_ok (snd (snd r))"
  shows "manager_ok (snd (finish_recovery t name r m))"
proof -
  obtain out sv d where r: "r = (out, sv, d)" by (metis prod_cases3)
  have "manager_ok (m\<lparr>fm_subsystems := dset name \<lparr>se_domain = d, se_supervisor = sv\<rparr> (fm_subsystems m)\<rparr>)"
    by (rule manager_ok_put) (use assms r in \<open>simp_all add: entry_ok_def\<close>)
  then have "manager_ok (m\<lparr>fm_subsystems := dset name \<lparr>se_domain = d, se_supervisor = sv\<rparr> (fm_subsystems m),
      fm_metrics := x\<rparr>)" for x
    using manager_ok_metrics by fastforce
  then show ?thesis
    by (simp add: finish_recovery_def r Let_def reevaluate_mode_def manager_ok_transition)
qed

lemma manager_ok_attempt_with:
  assumes "manager_ok m" "dget (fm_subsystems m) name = Some e" "pred_option hook_ok h"
  shows "manager_ok (snd (finish_recovery t name
           (attempt_with h msg dur (se_supervisor e, se_domain e)) m))"
proof -
  have "supervisor_ok (se_supervisor e)" "domain_ok (se_domain e)"
    using entry_of_ok[OF assms(1,2)] by (simp_all add: entry_ok_def)
  from attempt_ok[OF this assms(3), of msg dur] show ?thesis
    by (intro manager_ok_finish[OF assms(1)]) simp_all
qed

lemma registered_hooks_ok:
  assumes "manager_ok m" "dget (fm_subsystems m) name = Some e"
  shows "pred_option hook_ok (sv_hook (se_supervisor e))"
    and "pred_option hook_ok (sv_async_hook (se_supervisor e))"
  using entry_of_ok[OF assms] by (simp_all add: entry_ok_def supervisor_ok_def)

lemma manager_ok_attempts:
  assumes "manager_ok m"
  shows "attempt_recovery t dur name m = Some (out, m') \<Longrightarrow> manager_ok m'"
    and "attempt_recovery_async t dur name m = Some (out, m') \<Longrightarrow> manager_ok m'"
proof -
  show "manager_ok m'" if a: "attempt_recovery t dur name m = Some (out, m')"
  proof (cases "dget (fm_subsystems m) name")
    case (Some e)
    note manager_ok_attempt_with[OF assms Some registered_hooks_ok(1)[OF assms Some]]
    with a Some show ?thesis
      unfolding attempt_recovery_def attempt_def by (simp only: option.case option.inject fst_conv) (metis snd_conv)
  qed (use a in \<open>simp add: attempt_recovery_def\<close>)
  show "manager_ok m'" if a: "attempt_recovery_async t dur name m = Some (out, m')"
  proof (cases "dget (fm_subsystems m) name")
    case (Some e)
    let ?h = "case sv_async_hook (se_supervisor e) of Some h \<Rightarrow> Some h | None \<Rightarrow> sv_hook (se_supervisor e)"
    have "pred_option hook_ok ?h"
      using registered_hooks_ok[OF assms Some] by (cases "sv_async_hook (se_supervisor e)") simp_all
    note manager_ok_attempt_with[OF assms Some this]
    with a Some show ?thesis
      unfolding attempt_recovery_async_def attempt_async_def
      by (simp only: option.case option.inject fst_conv) (metis snd_conv)
  qed (use a in \<open>simp add: attempt_recovery_async_def\<close>)
qed

lemma manager_ok_hooks:
  assumes "manager_ok m" "hook_ok h"
  shows "register_recovery name h m = Some m' \<Longrightarrow> manager_ok m'"
    and "register_async_recovery name h m = Some m' \<Longrightarrow> manager_ok m'"
proof -
  have put: "manager_ok (m\<lparr>fm_subsystems := dset name (e\<lparr>se_supervisor := g (se_supervisor e)\<rparr>) (fm_subsystems m)\<rparr>)"
    if "dget (fm_subsystems m) name = Some e" "\<And>sv. supervisor_ok sv \<Longrightarrow> supervisor_ok (g sv)" for e g
    using manager_ok_put[OF assms(1), of "e\<lparr>se_supervisor := g (se_supervisor e)\<rparr>" name]
      entry_of_ok[OF assms(1) that(1)] that(2) by (simp add: entry_ok_def)
  have g: "supervisor_ok sv \<Longrightarrow> supervisor_ok (register_hook h sv)"
    "supervisor_ok sv \<Longrightarrow> supervisor_ok (register_async_hook h sv)" for sv
    using assms(2) by (simp_all add: supervisor_ok_def register_hook_def register_async_hook_def)
  show "register_recovery name h m = Some m' \<Longrightarrow> manager_ok m'"
    using put g(1) by (auto simp: register_recovery_def simp del: map_of_eq_Some_iff split: option.splits)
  show "register_async_recovery name h m = Some m' \<Longrightarrow> manager_ok m'"
    using put g(2) by (auto simp: register_async_recovery_def simp del: map_of_eq_Some_iff split: option.splits)
qed

lemma manager_ok_on_domain:
  assumes "manager_ok m" "\<And>d. domain_ok d \<Longrightarrow> domain_ok (f d)"
  shows "manager_ok (on_domain f name m)"
  using assms manager_ok_set_domain[OF assms(1)] domain_of_ok[OF assms(1)]
  by (simp add: on_domain_def split: option.split)

lemma manager_ok_reset:
  assumes "manager_ok m"
  shows "manager_ok (mgr_reset t m)"
proof -
  let ?f = "\<lambda>e. \<lparr>se_domain = domain_reset (se_domain e),
      se_supervisor = reset_abandoned (clear_hooks (se_supervisor e))\<rparr>"
  let ?m = "mgr_reset t m"
  have subs: "fm_subsystems ?m = map (\<lambda>(k, e). (k, ?f e)) (fm_subsystems m)"
    by (simp add: mgr_reset_def Let_def split_beta)
  have e: "entry_ok (?f e)" if "entry_ok e" for e
    using that by (simp add: entry_ok_def domain_ok_reset supervisor_ok_def reset_abandoned_def
        clear_hooks_def)
  have keys: "dkeys (fm_subsystems ?m) = dkeys (fm_subsystems m)"
    by (simp add: subs split_beta comp_def)
  have "entry_ok e" if "dget (fm_subsystems ?m) name = Some e" for name e
    using that e entry_of_ok[OF assms]
    by (auto simp: subs map_of_map simp del: map_of_eq_Some_iff)
  moreover have "bridge_ok ?m"
    using manager_ok_bridge[OF assms]
    by (auto simp: mgr_reset_def bridge_ok_def on_mode_change_def Let_def)
  ultimately show ?thesis
    using assms keys by (simp add: manager_ok_def del: distinct_map)
qed

fun call_ok :: "manager_call \<Rightarrow> bool" where
  "call_ok (MHook name h) \<longleftrightarrow> hook_ok h"
| "call_ok (MAsyncHook name h) \<longleftrightarrow> hook_ok h"
| "call_ok c \<longleftrightarrow> True"

lemma manager_ok_step:
  assumes "manager_ok m" "call_ok c"
  shows "manager_ok (manager_step c m)"
proof (cases c)
  case (MReport t name exc payload)
  then show ?thesis using assms(1)
    by (simp add: report_exception_def submit_failure_def Let_def manager_ok_record_failure
        manager_ok_register)
next
  case (MMarker t name marker payload)
  then show ?thesis using assms(1)
    by (simp add: report_marker_def submit_failure_def Let_def manager_ok_record_failure
        manager_ok_register)
next
  case (MHook name h)
  then show ?thesis using assms manager_ok_hooks(1)[of m h name] by (simp split: option.split)
next
  case (MAsyncHook name h)
  then show ?thesis using assms manager_ok_hooks(2)[of m h name] by (simp split: option.split)
next
  case (MAttempt t dur name)
  then show ?thesis using assms manager_ok_attempts(1)[OF assms(1), of t dur name]
    by (auto split: option.split prod.split)
next
  case (MAttemptAsync t dur name)
  then show ?thesis using assms manager_ok_attempts(2)[OF assms(1), of t dur name]
    by (auto split: option.split prod.split)
next
  case (MSubscribe l)
  then show ?thesis using assms(1) by (simp add: subscribe_mode_def manager_ok_def bridge_ok_def)
next
  case (MUnsubscribe l)
  then show ?thesis using assms(1) by (simp add: unsubscribe_mode_def manager_ok_def bridge_ok_def)
next
  case (MBreaker name c)
  then show ?thesis using assms(1) by (simp add: manager_ok_on_domain domain_ok_breaker)
next
  case (MRelease name payload)
  then show ?thesis using assms(1) by (simp add: manager_ok_on_domain domain_ok_release)
qed (use assms(1) in \<open>simp_all add: manager_ok_register manager_ok_enter manager_ok_exit
       force_mode_def manager_ok_transition manager_ok_reset\<close>)

lemma manager_ok_new: "manager_ok (new_manager cfg im tr)"
  by (simp add: new_manager_def manager_ok_def bridge_ok_def new_bridge_def)

lemma manager_ok_run:
  "manager_ok m \<Longrightarrow> list_all call_ok cs \<Longrightarrow> manager_ok (fold manager_step cs m)"
  by (induction cs arbitrary: m) (simp_all add: manager_ok_step)

section \<open>The integrity checks never fire\<close>

lemma check_domain_clean: "domain_ok d \<Longrightarrow> check_domain (snapshot_domain d) = []"
  using breaker_ok_trips[of "fd_breaker d"] breaker_ok_counters[of "fd_breaker d"]
  by (auto simp: check_domain_def snapshot_domain_def snapshot_breaker_def domain_ok_def)

lemma check_supervisor_clean: "supervisor_ok sv \<Longrightarrow> check_supervisor name sv = []"
  by (auto simp: check_supervisor_def supervisor_ok_def)

lemma findings_clean:
  assumes "manager_ok m"
  shows "integrity_findings m = []"
proof -
  have "entry_ok e" if "(name, e) \<in> set (fm_subsystems m)" for name e
    using assms that entry_of_ok[OF assms, of name e] by (simp add: manager_ok_def)
  then show ?thesis
    by (auto simp: integrity_findings_def entry_ok_def check_domain_clean check_supervisor_clean)
qed

text \<open>C19: Integrity of the failure manager. Whatever is registered, entered, left, reported, recovered,
  forced, released or reset, in any order and with any clock readings, the checks the program
  itself runs over the domains and supervisors in its diagnostics (no negative counter, no open
  breaker without a trip, no supervisor abandoned with zero attempts) find nothing; every breaker
  of the manager keeps fewer failures than its threshold and no more probes than its policy grants,
  and has made at least one and at most three transitions per trip; and the mode and the suggestion
  held by the backpressure bridge are those of the manager's mode. Recovery hooks are only assumed
  to leave a well-formed domain well-formed.
\<close>

theorem manager_integrity:
  assumes "list_all call_ok cs" and "m = fold manager_step cs (new_manager cfg im tr)"
  shows "integrity_findings m = [] \<and>
         list_all (\<lambda>e. breaker_ok (fd_breaker (se_domain e))) (dvals (fm_subsystems m)) \<and>
         ib_mode (fm_bridge m) = fm_mode m \<and>
         ib_suggestion (fm_bridge m) = default_suggestion (fm_mode m)"
proof -
  have ok: "manager_ok m"
    using manager_ok_run[OF manager_ok_new assms(1)] assms(2) by simp
  have "breaker_ok (fd_breaker (se_domain e))" if "e \<in> set (dvals (fm_subsystems m))" for e
  proof -
    have "distinct (dkeys (fm_subsystems m))" using ok by (simp add: manager_ok_def)
    then have "\<exists>name. dget (fm_subsystems m) name = Some e"
      using that by (simp only: in_dvals_iff)
    then obtain name where "dget (fm_subsystems m) name = Some e" ..
    then have "entry_ok e" using ok unfolding manager_ok_def by blast
    then show ?thesis by (simp add: entry_ok_def domain_ok_def)
  qed
  then show ?thesis
    using findings_clean[OF ok] manager_ok_bridge[OF ok] unfolding bridge_ok_def list_all_iff by blast
qed

definition closing_hook :: recovery_hook where
  "closing_hook d = (Inr True, d\<lparr>fd_breaker := force_close (fd_breaker d)\<rparr>)"

lemma closing_hook_ok: "hook_ok closing_hook"
  by (simp add: hook_ok_def closing_hook_def domain_ok_force_close)

theorem manager_integrity_witness:
  "\<exists>m. m = fold manager_step
       [MRegister 1 ''render'' None, MHook ''render'' closing_hook,
        MMarker 2 ''render'' ''timeout'' [], MAttempt 3 1 ''render'', MReset 4]
       (new_manager default_config new_isolation_metrics new_isolation_trace) \<and>
     integrity_findings m = [] \<and>
     list_all (\<lambda>e. breaker_ok (fd_breaker (se_domain e))) (dvals (fm_subsystems m))"
  using manager_integrity[of "[MRegister 1 ''render'' None, MHook ''render'' closing_hook,
      MMarker 2 ''render'' ''timeout'' [], MAttempt 3 1 ''render'', MReset 4]",
      OF _ refl, of default_config new_isolation_metrics new_isolation_trace]
  by (simp only: list.pred_inject call_ok.simps closing_hook_ok simp_thms)

section \<open>When the runtime mode follows the breakers\<close>

lemma domain_of_register: "domain_of name (mgr_register t name pol m) \<noteq> None"
  by (auto simp: mgr_register_def domain_of_def Let_def dict_simps split: option.split)

lemma record_failure_mode:
  assumes "manager_ok m" "domain_of name m \<noteq> None"
  shows "fm_mode (mgr_record_failure t name ev m) = derived_mode (mgr_record_failure t name ev m)"
proof -
  obtain d where d: "domain_of name m = Some d" using assms(2) by blast
  obtain s calls d' where r: "domain_record_failure t ev d = (s, calls, d')"
    by (metis prod_cases3)
  have "ManagerHook \<in> set (fd_listeners d)"
    using domain_of_ok[OF assms(1) d] by (simp add: domain_ok_def)
  then have "ManagerHook \<in> fst ` set calls"
    using failure_calls[OF r] by (auto simp: image_image)
  then show ?thesis
    by (simp add: mgr_record_failure_def d r deliver_mode del: deliver_fields)
qed

lemma submit_failure_mode:
  "manager_ok m \<Longrightarrow> fm_mode (submit_failure t ev m) = derived_mode (submit_failure t ev m)"
  by (simp add: submit_failure_def record_failure_mode manager_ok_register domain_of_register)

lemma finish_recovery_mode:
  "fm_mode (snd (finish_recovery t name r m)) = derived_mode (snd (finish_recovery t name r m))"
  by (simp add: finish_recovery_def Let_def split_beta)

text \<open>The mode is exact after every reported failure and every recovery attempt. In any state the
  manager can reach, once a failure is reported for a subsystem (known or not, as an exception or
  as a marker) or a recovery is attempted, the runtime mode is the one \<open>derive_runtime_mode\<close>
  gives for the breaker states at that moment, whatever mode an operator had forced before.
\<close>

theorem mode_exact_after_report:
  assumes "list_all call_ok cs"
  shows "fm_mode (manager_step (MReport t name exc payload) (fold manager_step cs (new_manager cfg im tr)))
           = derived_mode (manager_step (MReport t name exc payload) (fold manager_step cs (new_manager cfg im tr))) \<and>
         fm_mode (manager_step (MMarker t name marker payload) (fold manager_step cs (new_manager cfg im tr)))
           = derived_mode (manager_step (MMarker t name marker payload) (fold manager_step cs (new_manager cfg im tr))) \<and>
         pred_option (\<lambda>(out, m'). fm_mode m' = derived_mode m')
           (attempt_recovery t dur name (fold manager_step cs (new_manager cfg im tr)))"
proof -
  let ?m = "fold manager_step cs (new_manager cfg im tr)"
  have m: "manager_ok ?m" by (rule manager_ok_run[OF manager_ok_new assms])
  have "pred_option (\<lambda>(out, m'). fm_mode m' = derived_mode m') (attempt_recovery t dur name ?m)"
    using finish_recovery_mode
    by (cases "dget (fm_subsystems ?m) name") (simp_all add: attempt_recovery_def split_beta)
  then show ?thesis
    by (simp add: report_exception_def report_marker_def Let_def submit_failure_mode[OF m])
qed

theorem mode_exact_after_report_witness:
  "fm_mode (manager_step (MMarker 1 ''render'' ''timeout'' [])
      (fold manager_step [MForceMode 0 Halt] (new_manager default_config new_isolation_metrics
         new_isolation_trace)))
   = derived_mode (manager_step (MMarker 1 ''render'' ''timeout'' [])
      (fold manager_step [MForceMode 0 Halt] (new_manager default_config new_isolation_metrics
         new_isolation_trace)))"
proof -
  have "list_all call_ok [MForceMode 0 Halt]" by simp
  from mode_exact_after_report[OF this] show ?thesis by blast
qed

lemma set_domain_mode [simp]: "fm_mode (set_domain name d m) = fm_mode m"
  by (simp add: set_domain_def split: option.split)

lemma mgr_register_mode [simp]: "fm_mode (mgr_register t name pol m) = fm_mode m"
  by (simp add: mgr_register_def Let_def split: option.split)

lemma enter_keeps_mode: "fm_mode (snd (mgr_enter t name bd m)) = fm_mode m"
  by (simp add: mgr_enter_def Let_def split_beta split: option.split)

lemma clean_exit_keeps_mode: "fm_mode (snd (mgr_exit t name None bd m)) = fm_mode m"
  by (simp add: mgr_exit_def handle_exit_def Let_def split: option.split)

text \<open>
  A subsystem with one failure allowed: it trips, is probed after its open period, and the probe
  succeeds.
\<close>

definition recovered_manager :: failure_manager where
  "recovered_manager =
     fold manager_step
       [MRegister 0 ''render'' (Some (render_policy\<lparr>failure_threshold := 1\<rparr>)),
        MMarker 1000000000 ''render'' ''timeout'' [],
        MEnter 2000000000 ''render'' (new_boundary [] True True),
        MExit 2000000001 ''render'' None
          ((new_boundary [] True True)\<lparr>bd_admitted := True\<rparr>)]
       (new_manager default_config new_isolation_metrics new_isolation_trace)"

text \<open>A recovery through a boundary never restores the mode. Entering a boundary and leaving it
  without an exception change the runtime mode in no state, although they half-open and close
  breakers; so a subsystem that tripped, was probed and came back with its breaker closed leaves
  the runtime \<open>degraded\<close> (with the backpressure layer still told to sample structurally) while
  the breaker states derive \<open>normal\<close>, until some later failure or recovery attempt.
\<close>

theorem recovery_keeps_stale_mode:
  shows "fm_mode (snd (mgr_enter t name bd m)) = fm_mode m \<and>
         fm_mode (snd (mgr_exit t name None bd m)) = fm_mode m \<and>
         fm_mode recovered_manager = Degraded \<and>
         derived_mode recovered_manager = Normal"
proof -
  have "fm_mode recovered_manager = Degraded \<and> derived_mode recovered_manager = Normal"
    by (simp add: recovered_manager_def) code_simp
  then show ?thesis
    using enter_keeps_mode clean_exit_keeps_mode by simp
qed

section \<open>A probe without an outcome\<close>

text \<open>A sequence of \<open>with\<close> statements on one domain, each with its own boundary and exception.\<close>

type_synonym with_run = "int \<times> int \<times> py_exception option \<times> boundary"

fun run_withs :: "with_run list \<Rightarrow> failure_domain \<Rightarrow> with_result list \<times> failure_domain" where
  "run_withs [] d = ([], d)"
| "run_withs ((t0, t1, exc, bd) # ws) d =
     (let (r, _, d', _) = with_boundary (\<lambda>_. id) t0 t1 exc bd (d, ());
          (rs, d'') = run_withs ws d'
      in (r # rs, d''))"

fun turned_away :: "with_result \<Rightarrow> bool" where
  "turned_away (Unavailable e) \<longleftrightarrow> True"
| "turned_away (BodyRan admitted exc) \<longleftrightarrow> \<not> admitted"

definition wedged :: "failure_domain \<Rightarrow> bool" where
  "wedged d \<longleftrightarrow> br_state (fd_breaker d) = HALF_OPEN \<and> br_probes_remaining (fd_breaker d) \<le> 0"

lemma wedged_allow: "wedged d \<Longrightarrow> domain_allow_request payload t d = (False, d)"
  by (simp add: wedged_def domain_allow_request_def spent_probe_rejects)

lemma wedged_with:
  assumes "wedged d"
  shows "turned_away (fst (with_boundary f t0 t1 exc bd (d, h))) \<and>
         fst (snd (snd (with_boundary f t0 t1 exc bd (d, h)))) = d"
  using wedged_allow[OF assms]
  by (auto simp: with_boundary_def boundary_admit_def handle_exit_def Let_def split: option.splits)

lemma wedged_run:
  "wedged d \<Longrightarrow> list_all turned_away (fst (run_withs ws d)) \<and> snd (run_withs ws d) = d"
proof (induction ws arbitrary: d)
  case (Cons w ws)
  obtain t0 t1 exc bd where w: "w = (t0, t1, exc, bd)" by (metis prod_cases4)
  show ?case
    using Cons wedged_with[OF Cons.prems, of "\<lambda>_. id" t0 t1 exc bd "()"]
    by (simp add: w split_beta Let_def)
qed simp

lemma cancelled_kind: "isinstance exc [''CancelledError''] \<Longrightarrow> classify_exception exc = KCancelled"
  by (simp add: classify_exception_def)

text \<open>A boundary whose body is cancelled, on a payload the domain has not quarantined.\<close>

fun cancelled_run :: "failure_domain \<Rightarrow> with_run \<Rightarrow> bool" where
  "cancelled_run d (t0, t1, exc, bd) \<longleftrightarrow>
     reopen_at (fd_breaker d) \<le> t0 \<and> bd_payload_kind bd \<notin> fd_quarantine d \<and>
     (\<exists>e. exc = Some e \<and> isinstance e [''CancelledError''])"

fun admitted_run :: "with_run \<Rightarrow> with_result" where
  "admitted_run (t0, t1, exc, bd) = BodyRan True exc"

lemma cancelled_with:
  assumes "\<not> treat_cancelled_as_failure (fd_policy d)" "isinstance e [''CancelledError'']"
    and "bd_payload_kind bd \<notin> fd_quarantine d" "breaker_allow_request t0 (fd_breaker d) = (True, b)"
  shows "with_boundary f t0 t1 (Some e) bd (d, h) = (BodyRan True (Some e), [], d\<lparr>fd_breaker := b\<rparr>, h)"
proof -
  have "boundary_admit t0 bd d = (Inr (bd\<lparr>bd_admitted := True\<rparr>), d\<lparr>fd_breaker := b\<rparr>)"
    using assms(3,4) by (simp add: boundary_admit_def domain_allow_request_def)
  then show ?thesis
    using assms(1) cancelled_kind[OF assms(2)] by (simp add: with_boundary_def handle_exit_def)
qed

lemma half_open_admits:
  assumes "br_state b = HALF_OPEN" "0 < br_probes_remaining b"
  shows "breaker_allow_request t b = (True, b\<lparr>br_probes_remaining := br_probes_remaining b - 1\<rparr>)"
  using assms by (simp add: breaker_defs)

text \<open>Cancelled bodies use up the probes of a half-open breaker, one each.\<close>

lemma cancelled_probes_half_open:
  assumes "br_state (fd_breaker d) = HALF_OPEN" "int (length probes) \<le> br_probes_remaining (fd_breaker d)"
    and "\<not> treat_cancelled_as_failure (fd_policy d)" "list_all (cancelled_run d0) probes"
    and "fd_quarantine d = fd_quarantine d0"
  shows "run_withs probes d = (map admitted_run probes,
     d\<lparr>fd_breaker := (fd_breaker d)
        \<lparr>br_probes_remaining := br_probes_remaining (fd_breaker d) - int (length probes)\<rparr>\<rparr>)"
  using assms
proof (induction probes arbitrary: d)
  case (Cons w ws)
  obtain t0 t1 exc bd where w: "w = (t0, t1, exc, bd)" by (metis prod_cases4)
  obtain e where e: "exc = Some e" "isinstance e [''CancelledError'']"
    using Cons.prems(4) w by auto
  let ?b = "(fd_breaker d)\<lparr>br_probes_remaining := br_probes_remaining (fd_breaker d) - 1\<rparr>"
  have "breaker_allow_request t0 (fd_breaker d) = (True, ?b)"
    using half_open_admits[OF Cons.prems(1)] Cons.prems(2) by simp
  from cancelled_with[OF Cons.prems(3) e(2) _ this, of bd "\<lambda>_. id" t1 "()"] Cons.prems(4,5)
  have one: "with_boundary (\<lambda>_. id) t0 t1 (Some e) bd (d, ()) = (BodyRan True (Some e), [], d\<lparr>fd_breaker := ?b\<rparr>, ())"
    by (simp add: w)
  have "run_withs ws (d\<lparr>fd_breaker := ?b\<rparr>) = (map admitted_run ws,
     (d\<lparr>fd_breaker := ?b\<rparr>)\<lparr>fd_breaker := ?b\<lparr>br_probes_remaining := br_probes_remaining ?b - int (length ws)\<rparr>\<rparr>)"
    using Cons.IH[of "d\<lparr>fd_breaker := ?b\<rparr>"] Cons.prems by simp
  then show ?case by (simp add: w e(1) one algebra_simps)
qed simp

lemma cancelled_probes:
  assumes "br_state (fd_breaker d) = OPEN" "half_open_probes (br_policy (fd_breaker d)) = int (length probes)"
    and "probes \<noteq> []" "list_all (cancelled_run d) probes" "\<not> treat_cancelled_as_failure (fd_policy d)"
  shows "fst (run_withs probes d) = map admitted_run probes"
    and "br_state (fd_breaker (snd (run_withs probes d))) = HALF_OPEN"
    and "br_probes_remaining (fd_breaker (snd (run_withs probes d))) = 0"
proof -
  obtain t0 t1 exc bd ws where p: "probes = (t0, t1, exc, bd) # ws" using assms(3) by (metis neq_Nil_conv prod_cases4)
  obtain e where e: "exc = Some e" "isinstance e [''CancelledError'']" using assms(4) p by auto
  obtain b where a: "breaker_allow_request t0 (fd_breaker d) = (True, b)"
    and b: "br_state b = HALF_OPEN" "br_probes_remaining b = int (length ws)"
    using open_admits_probe[of "fd_breaker d" t0] assms(1,2,4) by (cases "breaker_allow_request t0 (fd_breaker d)") (auto simp: p)
  have one: "with_boundary (\<lambda>_. id) t0 t1 (Some e) bd (d, ()) = (BodyRan True (Some e), [], d\<lparr>fd_breaker := b\<rparr>, ())"
    using cancelled_with[OF assms(5) e(2) _ a, of bd "\<lambda>_. id" t1 "()"] assms(4) by (simp add: p)
  have rest: "run_withs ws (d\<lparr>fd_breaker := b\<rparr>) = (map admitted_run ws,
     d\<lparr>fd_breaker := b\<lparr>br_probes_remaining := 0\<rparr>\<rparr>)"
    using cancelled_probes_half_open[of "d\<lparr>fd_breaker := b\<rparr>" ws d] b assms(4,5) by (simp add: p)
  show "fst (run_withs probes d) = map admitted_run probes"
    "br_state (fd_breaker (snd (run_withs probes d))) = HALF_OPEN"
    "br_probes_remaining (fd_breaker (snd (run_withs probes d))) = 0"
    using b by (simp_all add: p e(1) one rest)
qed

text \<open>C16: Cancelled probes take a subsystem out of service for good. Let a tripped breaker's open
  period be over, and let the bodies of the next boundaries, as many as the policy's half-open
  probes (at least one), all be cancelled, on payloads that are not quarantined and under a policy
  that, as every preset, does not count cancellations. They are all admitted, their exits record
  neither success nor failure, and the breaker stays half-open with no probe left: from then on
  every boundary on the domain, at any time and whatever its body does, is turned away and leaves
  the domain exactly as it is, so no timeout brings it back.
\<close>

theorem cancelled_probe_wedges:
  assumes "br_state (fd_breaker d) = OPEN" "half_open_probes (br_policy (fd_breaker d)) = int (length probes)"
    and "probes \<noteq> []" "list_all (cancelled_run d) probes" "\<not> treat_cancelled_as_failure (fd_policy d)"
    and "(rs, d') = run_withs probes d"
  shows "rs = map admitted_run probes \<and>
         br_state (fd_breaker d') = HALF_OPEN \<and> br_probes_remaining (fd_breaker d') = 0 \<and>
         list_all turned_away (fst (run_withs ws d')) \<and> snd (run_withs ws d') = d'"
proof -
  have "d' = snd (run_withs probes d)" "rs = fst (run_withs probes d)" by (simp_all flip: assms(6))
  then show ?thesis using cancelled_probes[OF assms(1-5)] wedged_run[of d' ws] by (simp add: wedged_def)
qed

definition cancelled_error :: py_exception where
  "cancelled_error =
     \<lparr>exc_classes = [''CancelledError'', ''BaseException'', ''object''], exc_errno = None,
      exc_text = []\<rparr>"

definition tripped_domain :: failure_domain where
  "tripped_domain =
     (domain_subscribe ManagerHook (new_domain ''render'' render_policy))
       \<lparr>fd_breaker := force_open 5000000000 (new_breaker ''render'' render_policy)\<rparr>"

text \<open>The preset of the websocket subsystem has four probes.\<close>

definition tripped_websocket :: failure_domain where
  "tripped_websocket =
     (domain_subscribe ManagerHook (new_domain ''websocket'' websocket_policy))
       \<lparr>fd_breaker := force_open 5000000000 (new_breaker ''websocket'' websocket_policy)\<rparr>"

theorem cancelled_probe_wedges_witness:
  "\<exists>probes rs d'. probes = replicate 4 (90000000000, 90000000001, Some cancelled_error, new_boundary [] True True) \<and>
     (rs, d') = run_withs probes tripped_websocket \<and> rs = replicate 4 (BodyRan True (Some cancelled_error)) \<and>
     list_all turned_away (fst (run_withs [(900000000000, 900000000001, None, new_boundary [] True True)] d'))"
proof -
  let ?ps = "replicate 4 (90000000000, 90000000001, Some cancelled_error, new_boundary [] True True)"
  obtain rs d' where run: "(rs, d') = run_withs ?ps tripped_websocket" by (metis prod.collapse)
  note defs = tripped_websocket_def force_open_def trip_locked_def transition_locked_def new_breaker_def
    reopen_at_def open_duration_ns_def py_int_def websocket_policy_def SubsystemPolicy_def
    domain_subscribe_def new_domain_def isinstance_def cancelled_error_def new_boundary_def
  have "br_state (fd_breaker tripped_websocket) = OPEN"
    "half_open_probes (br_policy (fd_breaker tripped_websocket)) = int (length ?ps)" "?ps \<noteq> []"
    "list_all (cancelled_run tripped_websocket) ?ps" "\<not> treat_cancelled_as_failure (fd_policy tripped_websocket)"
    by (simp_all add: defs list_all_iff)
  from cancelled_probe_wedges[OF this run, of "[(900000000000, 900000000001, None, new_boundary [] True True)]"]
  have "rs = replicate 4 (BodyRan True (Some cancelled_error))"
    "list_all turned_away (fst (run_withs [(900000000000, 900000000001, None, new_boundary [] True True)] d'))"
    by simp_all
  with run show ?thesis by blast
qed

section \<open>The recovery budget\<close>

text \<open>
  A run of a supervisor: each attempt, synchronous or not, meets the domain in whatever state it is
  then, under one policy.
\<close>

type_synonym attempt_run = "bool \<times> real \<times> failure_domain"

definition attempt_step :: "attempt_run \<Rightarrow> supervisor \<Rightarrow> supervisor" where
  "attempt_step a sv =
     (case a of (async, dur, d) \<Rightarrow>
        fst (snd ((if async then attempt_async else attempt) dur (sv, d))))"

definition budget_ok :: "int \<Rightarrow> supervisor \<Rightarrow> bool" where
  "budget_ok budget sv \<longleftrightarrow>
     0 \<le> sv_failures sv \<and> 0 \<le> sv_successes sv \<and>
     sv_attempts sv = sv_successes sv + sv_failures sv \<and>
     (if sv_abandoned sv then budget \<le> sv_attempts sv \<and> sv_failures sv \<le> max 1 budget
      else sv_failures sv = 0 \<or> sv_failures sv < budget)"

lemma attempt_with_budget:
  assumes "budget_ok budget sv" "\<And>h. chosen = Some h \<Longrightarrow> max_recovery_attempts (fd_policy (snd (h d))) = budget"
  shows "budget_ok budget (fst (snd (attempt_with chosen msg dur (sv, d))))"
proof (cases "sv_abandoned sv \<or> br_state (fd_breaker d) = CLOSED \<or> chosen = None")
  case True
  then show ?thesis
    using assms(1) by (auto simp: attempt_with_def Let_def budget_ok_def split_beta)
next
  case False
  then obtain h where h: "chosen = Some h" by blast
  obtain r d' where hd: "h d = (r, d')" by fastforce
  have pol: "max_recovery_attempts (fd_policy d') = budget" using assms(2)[OF h] hd by simp
  show ?thesis
    using False assms(1) h hd pol
    by (auto simp: attempt_with_def invoke_hook_def finalize_outcome_def Let_def budget_ok_def
        split_beta split: sum.splits)
qed

definition keeps_policy :: "recovery_hook \<Rightarrow> bool" where
  "keeps_policy h \<longleftrightarrow> (\<forall>d. fd_policy (snd (h d)) = fd_policy d)"

definition under_budget :: "int \<Rightarrow> attempt_run \<Rightarrow> bool" where
  "under_budget budget a \<longleftrightarrow> max_recovery_attempts (fd_policy (snd (snd a))) = budget"

definition with_hooks :: "recovery_hook option \<Rightarrow> recovery_hook option \<Rightarrow> supervisor" where
  "with_hooks h ah = new_supervisor\<lparr>sv_hook := h, sv_async_hook := ah\<rparr>"

lemma attempt_with_hooks:
  "sv_hook (fst (snd (attempt_with chosen msg dur (sv, d)))) = sv_hook sv"
  "sv_async_hook (fst (snd (attempt_with chosen msg dur (sv, d)))) = sv_async_hook sv"
  by (auto simp: attempt_with_def invoke_hook_def finalize_outcome_def Let_def split_beta
      split: option.splits sum.splits)

lemma attempt_step_budget:
  assumes "budget_ok budget sv" "under_budget budget a"
    and "pred_option keeps_policy (sv_hook sv)" "pred_option keeps_policy (sv_async_hook sv)"
  shows "budget_ok budget (attempt_step a sv)"
proof -
  obtain async dur d where a: "a = (async, dur, d)" by (metis prod_cases3)
  have pol: "max_recovery_attempts (fd_policy (snd (h d))) = budget" if "keeps_policy h" for h
    using that assms(2) a by (simp add: keeps_policy_def under_budget_def)
  have "budget_ok budget (fst (snd (attempt dur (sv, d))))"
    unfolding attempt_def fst_conv by (rule attempt_with_budget[OF assms(1)]) (use assms(3) pol in simp)
  moreover have "budget_ok budget (fst (snd (attempt_async dur (sv, d))))"
    unfolding attempt_async_def fst_conv
    by (rule attempt_with_budget[OF assms(1)]) (use assms(3,4) pol in \<open>auto split: option.splits\<close>)
  ultimately show ?thesis by (simp add: attempt_step_def a)
qed

lemma attempt_step_hooks [simp]:
  "sv_hook (attempt_step a sv) = sv_hook sv"
  "sv_async_hook (attempt_step a sv) = sv_async_hook sv"
  by (simp_all add: attempt_step_def attempt_def attempt_async_def attempt_with_hooks split_beta)

lemma budget_run:
  assumes "budget_ok budget sv" "list_all (under_budget budget) runs"
    and "pred_option keeps_policy (sv_hook sv)" "pred_option keeps_policy (sv_async_hook sv)"
  shows "budget_ok budget (fold attempt_step runs sv)"
  using assms by (induction runs arbitrary: sv) (simp_all add: attempt_step_budget)

lemma budget_ok_start: "budget_ok budget (with_hooks h ah)"
  by (simp add: budget_ok_def with_hooks_def new_supervisor_def)

lemma hooks_start [simp]: "sv_hook (with_hooks h ah) = h" "sv_async_hook (with_hooks h ah) = ah"
  by (simp_all add: with_hooks_def)

text \<open>Bound on failed recoveries. However often a supervisor is driven, synchronously or not, and
  whatever state it finds the domain in, its hooks fail at most \<open>max_recovery_attempts\<close> times
  (once, if the policy allows none) before it is abandoned and stops calling them, and every
  call of a hook is counted as exactly one success or one failure.
\<close>

theorem failed_recoveries_bounded:
  assumes "list_all (under_budget budget) runs"
    and "pred_option keeps_policy hook" "pred_option keeps_policy async_hook"
  shows "sv_failures (fold attempt_step runs (with_hooks hook async_hook)) \<le> max 1 budget \<and>
         sv_attempts (fold attempt_step runs (with_hooks hook async_hook))
           = sv_successes (fold attempt_step runs (with_hooks hook async_hook))
             + sv_failures (fold attempt_step runs (with_hooks hook async_hook))"
  using budget_run[OF budget_ok_start, of budget runs hook async_hook] assms
  by (auto simp: budget_ok_def split: if_splits)

definition failing_hook :: recovery_hook where
  "failing_hook d = (Inr False, d)"

theorem failed_recoveries_bounded_witness:
  "sv_failures (fold attempt_step (replicate 9 (False, 1, tripped_domain))
     (with_hooks (Some failing_hook) None)) \<le> 6"
proof -
  have "list_all (under_budget 6) (replicate 9 (False, 1, tripped_domain))"
    by (simp add: list_all_iff under_budget_def tripped_domain_def new_domain_def
        domain_subscribe_def render_policy_def SubsystemPolicy_def)
  moreover have "pred_option keeps_policy (Some failing_hook)"
    by (simp add: keeps_policy_def failing_hook_def)
  moreover have "pred_option keeps_policy None" by simp
  ultimately show ?thesis using failed_recoveries_bounded by fastforce
qed

lemma failed_attempt_abandons:
  assumes "\<not> sv_abandoned sv" "br_state (fd_breaker d) \<noteq> CLOSED"
    and "fst (h d) \<noteq> Inr True" "max_recovery_attempts (fd_policy (snd (h d))) \<le> sv_attempts sv + 1"
  shows "ro_verdict (fst (attempt_with (Some h) msg dur (sv, d))) = Abandoned \<and>
         sv_abandoned (fst (snd (attempt_with (Some h) msg dur (sv, d))))"
  using assms
  by (auto simp: attempt_with_def invoke_hook_def finalize_outcome_def Let_def split_beta
      split: sum.splits)

text \<open>Successful recoveries spend the budget that failures are meant to spend. The attempt counter is
  never reset on success, so a supervisor whose every recovery so far succeeded, once those are
  \<open>max_recovery_attempts - 1\<close> or more, is abandoned by its first failed attempt: the subsystem is
  given up after one failure instead of the configured number.
\<close>

theorem successes_spend_the_budget:
  assumes "list_all (under_budget budget) runs" "keeps_policy h"
    and "sv_failures (fold attempt_step runs (with_hooks (Some h) None)) = 0"
    and "budget \<le> sv_successes (fold attempt_step runs (with_hooks (Some h) None)) + 1"
    and "\<not> sv_abandoned (fold attempt_step runs (with_hooks (Some h) None))"
    and "under_budget budget (False, dur, d)" "br_state (fd_breaker d) \<noteq> CLOSED"
    and "fst (h d) \<noteq> Inr True"
  shows "ro_verdict (fst (attempt dur (fold attempt_step runs (with_hooks (Some h) None), d)))
           = Abandoned \<and>
         sv_failures (attempt_step (False, dur, d)
           (fold attempt_step runs (with_hooks (Some h) None))) \<le> 1"
proof -
  let ?sv = "fold attempt_step runs (with_hooks (Some h) None)"
  have ok: "budget_ok budget ?sv"
    by (rule budget_run[OF budget_ok_start assms(1)]) (use assms(2) in simp_all)
  then have n: "sv_attempts ?sv = sv_successes ?sv" using assms(3) by (simp add: budget_ok_def)
  have hook: "sv_hook ?sv = Some h"
    by (induction runs rule: rev_induct) simp_all
  have pol: "max_recovery_attempts (fd_policy (snd (h d))) = budget"
    using assms(2,6) by (simp add: keeps_policy_def under_budget_def)
  have ab: "ro_verdict (fst (attempt dur (?sv, d))) = Abandoned"
    using failed_attempt_abandons[of ?sv d h] assms(4,5,7,8) n pol hook
    by (simp add: attempt_def)
  have "sv_failures (fst (snd (attempt_with (Some h) msg dur (?sv, d)))) \<le> sv_failures ?sv + 1" for msg
    by (auto simp: attempt_with_def invoke_hook_def finalize_outcome_def Let_def split_beta
      split: sum.splits)
  with ab show ?thesis
    using assms(3) hook by (simp add: attempt_step_def attempt_def)
qed

text \<open>A hook that succeeds on an open breaker and fails on a half-open one.\<close>

definition fickle_hook :: recovery_hook where
  "fickle_hook d = (Inr (br_state (fd_breaker d) = OPEN), d)"

definition probing_domain :: failure_domain where
  "probing_domain =
     tripped_domain\<lparr>fd_breaker := (fd_breaker tripped_domain)\<lparr>br_state := HALF_OPEN\<rparr>\<rparr>"

theorem successes_spend_the_budget_witness:
  "ro_verdict (fst (attempt 1 (fold attempt_step (replicate 5 (False, 1, tripped_domain))
     (with_hooks (Some fickle_hook) None), probing_domain))) = Abandoned"
proof -
  have facts:
    "list_all (under_budget 6) (replicate 5 (False, 1, tripped_domain))"
    "under_budget 6 (False, 1, probing_domain)"
    "keeps_policy fickle_hook"
    "br_state (fd_breaker probing_domain) \<noteq> CLOSED"
    "fst (fickle_hook probing_domain) \<noteq> Inr True"
    by (simp_all add: list_all_iff under_budget_def tripped_domain_def new_domain_def
        domain_subscribe_def render_policy_def SubsystemPolicy_def keeps_policy_def
        fickle_hook_def probing_domain_def)
  have open_state: "br_state (fd_breaker tripped_domain) = OPEN"
    by (simp add: tripped_domain_def force_open_def trip_locked_def transition_locked_def new_breaker_def)
  have step: "sv_successes (attempt_step (False, 1, tripped_domain) sv) = sv_successes sv + 1 \<and>
      sv_failures (attempt_step (False, 1, tripped_domain) sv) = sv_failures sv \<and>
      \<not> sv_abandoned (attempt_step (False, 1, tripped_domain) sv)"
    if "sv_hook sv = Some fickle_hook" "\<not> sv_abandoned sv" for sv
    using that open_state
    by (simp add: attempt_step_def attempt_def attempt_with_def invoke_hook_def fickle_hook_def
        finalize_outcome_def Let_def split_beta)
  have five: "sv_failures (fold attempt_step (replicate n (False, 1, tripped_domain)) sv) = sv_failures sv \<and>
      sv_successes (fold attempt_step (replicate n (False, 1, tripped_domain)) sv) = sv_successes sv + int n \<and>
      \<not> sv_abandoned (fold attempt_step (replicate n (False, 1, tripped_domain)) sv)"
    if "sv_hook sv = Some fickle_hook" "\<not> sv_abandoned sv" for sv n
    using that step by (induction n arbitrary: sv) simp_all
  show ?thesis
    using successes_spend_the_budget[OF facts(1,3) _ _ _ facts(2,4,5)]
      five[of "with_hooks (Some fickle_hook) None" 5]
    by (simp add: with_hooks_def new_supervisor_def)
qed

section \<open>Counters that never count\<close>

definition silent :: "isolation_metrics \<Rightarrow> int \<times> int \<times> int" where
  "silent im = (im_breaker_closes im, im_boundary_admissions im, im_boundary_rejections im)"

lemma silent_records [simp]:
  "silent (im_record_subsystem_registered im) = silent im"
  "silent (im_record_failure a b im) = silent im"
  "silent (im_record_breaker_trip im) = silent im"
  "silent (im_record_recovery_attempt v im) = silent im"
  "silent (im_record_payload_quarantine im) = silent im"
  "silent (im_record_mode_transition md im) = silent im"
  by (simp_all add: silent_def im_record_subsystem_registered_def im_record_failure_def
      im_record_breaker_trip_def im_record_recovery_attempt_def im_record_payload_quarantine_def
      im_record_mode_transition_def Let_def split: recovery_verdict.split)

lemma silent_transition [simp]:
  "silent (fm_metrics (transition_mode t target f m)) = silent (fm_metrics m)"
  by (auto simp: transition_mode_def Let_def split_beta)

lemma silent_on_failure:
  "\<not> (a = OPEN \<and> b \<noteq> OPEN) \<Longrightarrow>
   silent (fm_metrics (on_domain_failure t ev a b m)) = silent (fm_metrics m)"
  by (auto simp: on_domain_failure_def Let_def reevaluate_mode_def)

lemma failure_keeps_open: "br_state b = OPEN \<Longrightarrow> br_state (breaker_record_failure t b) = OPEN"
  by (simp add: breaker_defs)

definition keep_open :: "failure_call list \<Rightarrow> bool" where
  "keep_open cs \<longleftrightarrow> list_all (\<lambda>(l, e, a, b). a = OPEN \<longrightarrow> b = OPEN) cs"

lemma failure_calls_keep_open: "keep_open (fst (snd (domain_record_failure t ev d)))"
  by (simp add: keep_open_def domain_record_failure_def Let_def list_all_iff failure_keeps_open)

lemma silent_deliver:
  "keep_open cs \<Longrightarrow> silent (fm_metrics (deliver t cs m)) = silent (fm_metrics m)"
proof (induction t cs m rule: deliver.induct)
  case (2 t ev a b cs m)
  then show ?case using silent_on_failure[of a b t ev m] by (simp add: keep_open_def)
qed (simp_all add: keep_open_def)

lemma silent_register [simp]:
  "silent (fm_metrics (mgr_register t name pol m)) = silent (fm_metrics m)"
  by (simp add: mgr_register_def Let_def split: option.split)

lemma silent_set_domain [simp]: "fm_metrics (set_domain name d m) = fm_metrics m"
  by (simp add: set_domain_def split: option.split)

lemma silent_record_failure [simp]:
  "silent (fm_metrics (mgr_record_failure t name ev m)) = silent (fm_metrics m)"
  using failure_calls_keep_open[of t ev]
  by (simp add: mgr_record_failure_def split_beta silent_deliver split: option.split)

lemma exit_calls_keep_open: "keep_open (fst (snd (handle_exit f t exc bd dh)))"
  using failure_calls_keep_open
  by (simp add: handle_exit_def Let_def split_beta keep_open_def[of "[]"] split: option.split)

lemma silent_exit [simp]: "silent (fm_metrics (snd (mgr_exit t name exc bd m))) = silent (fm_metrics m)"
  by (simp add: mgr_exit_def split_beta silent_deliver exit_calls_keep_open split: option.split)

lemma silent_finish [simp]:
  "silent (fm_metrics (snd (finish_recovery t name r m))) = silent (fm_metrics m)"
  by (simp add: finish_recovery_def Let_def reevaluate_mode_def split_beta)

lemma silent_step: "silent (fm_metrics (manager_step c m)) = silent (fm_metrics m)"
proof (cases c)
  case (MEnter t name bd)
  then show ?thesis by (simp add: mgr_enter_def Let_def split_beta split: option.split)
next
  case (MAttempt t dur name)
  then show ?thesis
    by (cases "dget (fm_subsystems m) name") (simp_all add: attempt_recovery_def split_beta)
next
  case (MAttemptAsync t dur name)
  then show ?thesis
    by (cases "dget (fm_subsystems m) name") (simp_all add: attempt_recovery_async_def split_beta)
next
  case (MReset t)
  then show ?thesis by (simp add: mgr_reset_def Let_def split_beta)
qed (auto simp: report_exception_def report_marker_def submit_failure_def Let_def
      register_recovery_def register_async_recovery_def force_mode_def subscribe_mode_def
      unsubscribe_mode_def on_domain_def split: option.split)

text \<open>Three counters of the resilience metrics never move. Whatever happens to a manager, the number
  of breaker closes, of boundary admissions and of boundary rejections it has recorded stay what
  they were: a close is only looked for after a recorded failure, and no failure takes a breaker
  out of the open state; and no boundary records its admission.
\<close>

theorem silent_counters:
  shows "im_breaker_closes (fm_metrics (fold manager_step cs m)) = im_breaker_closes (fm_metrics m) \<and>
         im_boundary_admissions (fm_metrics (fold manager_step cs m))
           = im_boundary_admissions (fm_metrics m) \<and>
         im_boundary_rejections (fm_metrics (fold manager_step cs m))
           = im_boundary_rejections (fm_metrics m)"
proof -
  have "silent (fm_metrics (fold manager_step cs m)) = silent (fm_metrics m)"
    by (induction cs arbitrary: m) (simp_all add: silent_step)
  then show ?thesis by (simp add: silent_def)
qed

end
