(* ===== verification/PyValues.thy ===== *)
theory PyValues
  imports Prelude
begin

text \<open>
  Python's conversions of a parsed JSON value, which the readers of event payloads and recordings share:
  \<open>int(x)\<close>, \<open>dict(x)\<close>, \<open>bool(x)\<close>, \<open>str(x)\<close>, the ASCII case of a string, and \<open>d.get(k, default)\<close> followed by
  one of them. \<open>None\<close> is the exception a conversion raises.
\<close>

text \<open>\<open>int(x)\<close> and \<open>dict(x)\<close> of a parsed JSON value; \<open>None\<close> is the exception they raise.\<close>

definition is_digit :: "char \<Rightarrow> bool" where
  "is_digit c \<longleftrightarrow> (let n = of_char c :: nat in 48 \<le> n \<and> n \<le> 57)"

fun scan_digits :: "bool \<Rightarrow> int \<Rightarrow> string \<Rightarrow> int option" where
  "scan_digits after acc [] = (if after then Some acc else None)"
| "scan_digits after acc (c # cs) =
     (if is_digit c then scan_digits True (acc * 10 + (of_char c - 48)) cs
      else if c = CHR ''_'' \<and> after then scan_digits False acc cs
      else None)"

definition is_blank :: "char \<Rightarrow> bool" where
  "is_blank c \<longleftrightarrow> (let n = of_char c :: nat in n = 32 \<or> 9 \<le> n \<and> n \<le> 13)"

definition int_of_string :: "string \<Rightarrow> int option" where
  "int_of_string s =
     (case rev (dropWhile is_blank (rev (dropWhile is_blank s))) of
        [] \<Rightarrow> None
      | c # cs \<Rightarrow>
          if c = CHR ''-'' then map_option uminus (scan_digits False 0 cs)
          else if c = CHR ''+'' then scan_digits False 0 cs
          else scan_digits False 0 (c # cs))"

fun json_int :: "json \<Rightarrow> int option" where
  "json_int (JInt i) = Some i"
| "json_int (JBool b) = Some (if b then 1 else 0)"
| "json_int (JFloat r) = Some (py_int r)"
| "json_int (JStr s) = int_of_string s"
| "json_int _ = None"

text \<open>A non-empty list of pairs, which \<open>dict\<close> would accept, is taken as an error.\<close>

fun json_dict :: "json \<Rightarrow> (string, json) dict option" where
  "json_dict (JObj d) = Some d"
| "json_dict (JList xs) = (if xs = [] then Some [] else None)"
| "json_dict (JStr s) = (if s = [] then Some [] else None)"
| "json_dict _ = None"

text \<open>\<open>bool(x)\<close> and \<open>str(x)\<close> of a parsed JSON value; \<open>render\<close> is \<open>str\<close> where its form is not fixed here.\<close>

fun truthy :: "json \<Rightarrow> bool" where
  "truthy JNull \<longleftrightarrow> False"
| "truthy (JBool b) \<longleftrightarrow> b"
| "truthy (JInt i) \<longleftrightarrow> i \<noteq> 0"
| "truthy (JFloat r) \<longleftrightarrow> r \<noteq> 0"
| "truthy (JStr s) \<longleftrightarrow> s \<noteq> []"
| "truthy (JList xs) \<longleftrightarrow> xs \<noteq> []"
| "truthy (JObj d) \<longleftrightarrow> d \<noteq> []"

fun json_str :: "(json \<Rightarrow> string) \<Rightarrow> json \<Rightarrow> string" where
  "json_str render (JStr s) = s"
| "json_str render (JInt i) = str_of_int i"
| "json_str render (JBool b) = (if b then ''True'' else ''False'')"
| "json_str render JNull = ''None''"
| "json_str render other = render other"

definition upper_char :: "char \<Rightarrow> char" where
  "upper_char c =
     (let n = of_char c :: nat in if 97 \<le> n \<and> n \<le> 122 then char_of (n - 32) else c)"

definition str_upper :: "string \<Rightarrow> string" where
  "str_upper s = map upper_char s"

text \<open>\<open>str(d.get(k, ""))\<close>, \<open>int(d.get(k, n))\<close> and \<open>d.get(k) or {}\<close>, of which only a dictionary has a \<open>get\<close>.\<close>

definition get_str :: "(json \<Rightarrow> string) \<Rightarrow> (string, json) dict \<Rightarrow> string \<Rightarrow> string" where
  "get_str render d k = (case dget d k of None \<Rightarrow> [] | Some v \<Rightarrow> json_str render v)"

definition get_int :: "int \<Rightarrow> (string, json) dict \<Rightarrow> string \<Rightarrow> int option" where
  "get_int n d k = (case dget d k of None \<Rightarrow> Some n | Some v \<Rightarrow> json_int v)"

definition get_dict :: "(string, json) dict \<Rightarrow> string \<Rightarrow> (string, json) dict option" where
  "get_dict d k =
     (case dget d k of
        None \<Rightarrow> Some []
      | Some v \<Rightarrow> if \<not> truthy v then Some [] else (case v of JObj e \<Rightarrow> Some e | _ \<Rightarrow> None))"

definition get_json :: "(string, json) dict \<Rightarrow> string \<Rightarrow> json" where
  "get_json d k = dget_or JNull d k"

text \<open>Optional values in a payload.\<close>

definition json_of_option :: "('a \<Rightarrow> json) \<Rightarrow> 'a option \<Rightarrow> json" where
  "json_of_option f v = (case v of None \<Rightarrow> JNull | Some x \<Rightarrow> f x)"

end
