(* ===== verification/Recording.thy ===== *)
theory Recording
  imports PyValues
begin

text \<open>
  Reading a recording back (\<open>asyncviz/replay/loading\<close>) and the virtual runtime state it rebuilds
  (\<open>asyncviz/replay/runtime/models/runtime_state.py\<close>): the frame envelope, the state and its
  dictionary form, the sequence and snapshot indexes, the seek, the reconstruction of a state from
  a snapshot and the frames after it, windows, filters and the streaming iterator.

  The files are parameters: a chunk is its manifest record with the list of frames its lines
  decode to (malformed lines are skipped before this point), a snapshot is its record with the
  parsed JSON object, absent when the file is missing or malformed.
\<close>

section \<open>Frames\<close>

record wire_frame =
  wf_schema_version :: int
  wf_frame_type :: string
  wf_sequence :: int
  wf_monotonic_ns :: int
  wf_payload_type :: string
  wf_payload :: "(string, json) dict"
  wf_runtime_id :: "string option"
  wf_recording_id :: "string option"
  wf_wall_time_ns :: "int option"
  wf_extensions :: "(string, json) dict"

section \<open>The virtual runtime state\<close>

record virtual_state =
  vs_last_sequence :: int
  vs_last_monotonic_ns :: int
  vs_frames_applied :: int
  vs_domains :: "(string, json) dict"
  vs_notes :: "(string, json) dict"

definition vs_empty :: virtual_state where
  "vs_empty =
     \<lparr>vs_last_sequence = 0, vs_last_monotonic_ns = 0, vs_frames_applied = 0, vs_domains = [],
      vs_notes = []\<rparr>"

definition with_advance :: "int \<Rightarrow> int \<Rightarrow> virtual_state \<Rightarrow> virtual_state" where
  "with_advance sequence monotonic_ns s =
     s\<lparr>vs_last_sequence := sequence, vs_last_monotonic_ns := monotonic_ns,
       vs_frames_applied := vs_frames_applied s + 1\<rparr>"

definition with_domain :: "string \<Rightarrow> (string, json) dict \<Rightarrow> virtual_state \<Rightarrow> virtual_state" where
  "with_domain name payload s = s\<lparr>vs_domains := dset name (JObj payload) (vs_domains s)\<rparr>"

definition with_notes :: "(string, json) dict \<Rightarrow> virtual_state \<Rightarrow> virtual_state" where
  "with_notes notes s = s\<lparr>vs_notes := notes\<rparr>"

definition to_dict :: "virtual_state \<Rightarrow> (string, json) dict" where
  "to_dict s =
     [(''last_sequence'', JInt (vs_last_sequence s)),
      (''last_monotonic_ns'', JInt (vs_last_monotonic_ns s)),
      (''frames_applied'', JInt (vs_frames_applied s)),
      (''domains'', JObj (vs_domains s)),
      (''notes'', JObj (vs_notes s))]"

definition from_dict :: "(string, json) dict \<Rightarrow> virtual_state option" where
  "from_dict d =
     (case (json_int (dget_or (JInt 0) d ''last_sequence''),
            json_int (dget_or (JInt 0) d ''last_monotonic_ns''),
            json_int (dget_or (JInt 0) d ''frames_applied''),
            json_dict (dget_or (JObj []) d ''domains''),
            json_dict (dget_or (JObj []) d ''notes'')) of
        (Some a, Some b, Some c, Some ds, Some ns) \<Rightarrow>
          Some \<lparr>vs_last_sequence = a, vs_last_monotonic_ns = b, vs_frames_applied = c,
                vs_domains = ds, vs_notes = ns\<rparr>
      | _ \<Rightarrow> None)"

lemma from_dict_to_dict [simp]: "from_dict (to_dict s) = Some s"
  by (simp add: from_dict_def to_dict_def dget_or_def)

lemma to_dict_not_Nil [simp]: "to_dict s \<noteq> []"
  by (simp add: to_dict_def)

lemma from_dict_Nil [simp]: "from_dict [] = Some vs_empty"
  by (simp add: from_dict_def vs_empty_def)

section \<open>Chunks, snapshots and their indexes\<close>

record chunk_record =
  ch_index :: int
  ch_event_count :: int
  ch_first_sequence :: int
  ch_last_sequence :: int

record index_entry =
  ie_chunk_index :: int
  ie_first_sequence :: int
  ie_last_sequence :: int
  ie_event_count :: int

record snapshot_entry =
  sn_index :: int
  sn_sequence_at_capture :: int
  sn_payload :: "(string, json) dict option"

type_synonym chunk = "chunk_record \<times> wire_frame list"

text \<open>\<open>bisect_right\<close> on a sorted sequence: how many elements are at most \<open>x\<close>.\<close>

definition bisect_right :: "int list \<Rightarrow> int \<Rightarrow> nat" where
  "bisect_right xs x = length (takeWhile (\<lambda>y. y \<le> x) xs)"

definition build_index_from_chunks :: "chunk_record list \<Rightarrow> index_entry list" where
  "build_index_from_chunks chunks =
     sort_key ie_chunk_index
       (map (\<lambda>c. \<lparr>ie_chunk_index = ch_index c, ie_first_sequence = ch_first_sequence c,
                  ie_last_sequence = ch_last_sequence c, ie_event_count = ch_event_count c\<rparr>)
         chunks)"

definition index_from_metadata :: "chunk_record list \<Rightarrow> index_entry list" where
  "index_from_metadata chunks = sort_key ie_first_sequence (build_index_from_chunks chunks)"

definition chunk_for_sequence :: "index_entry list \<Rightarrow> int \<Rightarrow> index_entry option" where
  "chunk_for_sequence entries sequence =
     (if entries = [] then None
      else
        let n = bisect_right (map ie_first_sequence entries) sequence in
        if n = 0 then None
        else
          let candidate = entries ! (n - 1) in
          if ie_last_sequence candidate < sequence then None else Some candidate)"

definition chunk_record_for_sequence ::
    "index_entry list \<Rightarrow> int \<Rightarrow> chunk_record list \<Rightarrow> chunk_record option" where
  "chunk_record_for_sequence entries sequence chunks =
     (case chunk_for_sequence entries sequence of
        None \<Rightarrow> None
      | Some e \<Rightarrow> find (\<lambda>c. ch_index c = ie_chunk_index e) chunks)"

definition snapshot_index_of :: "snapshot_entry list \<Rightarrow> snapshot_entry list" where
  "snapshot_index_of snaps = sort_key sn_sequence_at_capture snaps"

definition nearest_at_or_before :: "snapshot_entry list \<Rightarrow> int \<Rightarrow> snapshot_entry option" where
  "nearest_at_or_before snaps sequence =
     (if snaps = [] then None
      else
        let n = bisect_right (map sn_sequence_at_capture snaps) sequence in
        if n = 0 then None else Some (snaps ! (n - 1)))"

section \<open>Cursors, windows and filters\<close>

record replay_cursor =
  rc_chunk_index :: int
  rc_last_sequence :: int
  rc_frames_consumed :: int
  rc_last_monotonic_ns :: int
  rc_snapshot_index :: int

definition cursor_at_start :: replay_cursor where
  "cursor_at_start =
     \<lparr>rc_chunk_index = 0, rc_last_sequence = 0, rc_frames_consumed = 0, rc_last_monotonic_ns = 0,
      rc_snapshot_index = -1\<rparr>"

definition cursor_advance :: "int \<Rightarrow> int \<Rightarrow> int \<Rightarrow> replay_cursor \<Rightarrow> replay_cursor" where
  "cursor_advance chunk_index sequence monotonic_ns c =
     c\<lparr>rc_chunk_index := chunk_index, rc_last_sequence := sequence,
       rc_frames_consumed := rc_frames_consumed c + 1, rc_last_monotonic_ns := monotonic_ns\<rparr>"

definition cursor_with_snapshot :: "int \<Rightarrow> replay_cursor \<Rightarrow> replay_cursor" where
  "cursor_with_snapshot i c = c\<lparr>rc_snapshot_index := i\<rparr>"

record frame_window =
  fw_start_sequence :: int
  fw_end_sequence :: "int option"
  fw_start_monotonic_ns :: int
  fw_end_monotonic_ns :: "int option"

definition unbounded_window :: frame_window where
  "unbounded_window =
     \<lparr>fw_start_sequence = 0, fw_end_sequence = None, fw_start_monotonic_ns = 0,
      fw_end_monotonic_ns = None\<rparr>"

fun beyond :: "int option \<Rightarrow> int \<Rightarrow> bool" where
  "beyond None x \<longleftrightarrow> False"
| "beyond (Some b) x \<longleftrightarrow> b < x"

definition window_contains :: "frame_window \<Rightarrow> wire_frame \<Rightarrow> bool" where
  "window_contains w f \<longleftrightarrow>
     \<not> wf_sequence f < fw_start_sequence w \<and> \<not> beyond (fw_end_sequence w) (wf_sequence f) \<and>
     \<not> wf_monotonic_ns f < fw_start_monotonic_ns w \<and>
     \<not> beyond (fw_end_monotonic_ns w) (wf_monotonic_ns f)"

definition below_window :: "frame_window \<Rightarrow> wire_frame \<Rightarrow> bool" where
  "below_window w f \<longleftrightarrow>
     wf_sequence f < fw_start_sequence w \<or> wf_monotonic_ns f < fw_start_monotonic_ns w"

definition above_window :: "frame_window \<Rightarrow> wire_frame \<Rightarrow> bool" where
  "above_window w f \<longleftrightarrow>
     beyond (fw_end_sequence w) (wf_sequence f) \<or> beyond (fw_end_monotonic_ns w) (wf_monotonic_ns f)"

definition merge_cursor_window :: "frame_window option \<Rightarrow> int \<Rightarrow> frame_window" where
  "merge_cursor_window w cursor_start =
     (case w of
        None \<Rightarrow> if 0 < cursor_start then unbounded_window\<lparr>fw_start_sequence := cursor_start\<rparr>
                else unbounded_window
      | Some w \<Rightarrow> if cursor_start \<le> fw_start_sequence w then w
                  else w\<lparr>fw_start_sequence := cursor_start\<rparr>)"

datatype frame_filter =
    ByEventType "string list"
  | ByFrameType "string list"
  | BySequenceRange int "int option"
  | ByTimestampRange int "int option"
  | ByRuntimeId string
  | ByRecordingId string
  | AllOf "frame_filter list"
  | AnyOf "frame_filter list"
  | NotFilter frame_filter

fun filter_matches :: "frame_filter \<Rightarrow> wire_frame \<Rightarrow> bool" where
  "filter_matches (ByEventType ts) f \<longleftrightarrow> wf_payload_type f \<in> set ts"
| "filter_matches (ByFrameType ts) f \<longleftrightarrow> wf_frame_type f \<in> set ts"
| "filter_matches (BySequenceRange a b) f \<longleftrightarrow>
     \<not> wf_sequence f < a \<and> (case b of None \<Rightarrow> True | Some e \<Rightarrow> wf_sequence f \<le> e)"
| "filter_matches (ByTimestampRange a b) f \<longleftrightarrow>
     \<not> wf_monotonic_ns f < a \<and> (case b of None \<Rightarrow> True | Some e \<Rightarrow> wf_monotonic_ns f \<le> e)"
| "filter_matches (ByRuntimeId r) f \<longleftrightarrow> wf_runtime_id f = Some r"
| "filter_matches (ByRecordingId r) f \<longleftrightarrow> wf_recording_id f = Some r"
| "filter_matches (AllOf fs) f \<longleftrightarrow> list_all (\<lambda>g. filter_matches g f) fs"
| "filter_matches (AnyOf fs) f \<longleftrightarrow> list_ex (\<lambda>g. filter_matches g f) fs"
| "filter_matches (NotFilter g) f \<longleftrightarrow> \<not> filter_matches g f"

section \<open>The streaming iterator\<close>

record stream_progress =
  sp_cursor :: replay_cursor
  sp_filtered_drops :: int
  sp_window_drops :: int
  sp_advanced_by :: int

text \<open>The frames tagged with their chunk's index, in reading order.\<close>

definition tagged_frames :: "chunk list \<Rightarrow> (int \<times> wire_frame) list" where
  "tagged_frames chunks = concat (map (\<lambda>(c, fs). map (\<lambda>f. (ch_index c, f)) fs) chunks)"

fun stream_frames ::
    "frame_window \<Rightarrow> frame_filter option \<Rightarrow> (int \<times> wire_frame) list \<Rightarrow> stream_progress \<Rightarrow>
     wire_frame list \<times> stream_progress" where
  "stream_frames w flt [] sp = ([], sp)"
| "stream_frames w flt ((i, f) # fs) sp =
     (if above_window w f then ([], sp\<lparr>sp_window_drops := sp_window_drops sp + 1\<rparr>)
      else if below_window w f
      then stream_frames w flt fs (sp\<lparr>sp_window_drops := sp_window_drops sp + 1\<rparr>)
      else if (case flt of None \<Rightarrow> False | Some g \<Rightarrow> \<not> filter_matches g f)
      then stream_frames w flt fs (sp\<lparr>sp_filtered_drops := sp_filtered_drops sp + 1\<rparr>)
      else
        let (out, sp') = stream_frames w flt fs
              (sp\<lparr>sp_cursor := cursor_advance i (wf_sequence f) (wf_monotonic_ns f) (sp_cursor sp),
                  sp_advanced_by := sp_advanced_by sp + 1\<rparr>)
        in (f # out, sp'))"

definition iter_frames ::
    "chunk list \<Rightarrow> frame_window option \<Rightarrow> frame_filter option \<Rightarrow> replay_cursor option \<Rightarrow>
     replay_cursor \<Rightarrow> wire_frame list \<times> stream_progress" where
  "iter_frames chunks w flt from_cursor current =
     (let start = (case from_cursor of Some c \<Rightarrow> rc_last_sequence c + 1 | None \<Rightarrow> 0) in
      stream_frames (merge_cursor_window w start) flt (tagged_frames chunks)
        \<lparr>sp_cursor = (case from_cursor of Some c \<Rightarrow> c | None \<Rightarrow> current),
         sp_filtered_drops = 0, sp_window_drops = 0, sp_advanced_by = 0\<rparr>)"

section \<open>Seeking\<close>

record seek_plan =
  pl_starting_chunk_index :: int
  pl_snapshot :: "snapshot_entry option"
  pl_chunks_to_scan :: nat

record seek_result =
  sr_cursor :: replay_cursor
  sr_landed_frame :: "wire_frame option"
  sr_chunks_scanned :: nat

definition plan_sequence_seek ::
    "int \<Rightarrow> index_entry list \<Rightarrow> snapshot_entry list \<Rightarrow> chunk list \<Rightarrow> seek_plan" where
  "plan_sequence_seek target entries snaps chunks =
     (case chunk_for_sequence entries target of
        None \<Rightarrow> \<lparr>pl_starting_chunk_index = 0, pl_snapshot = None, pl_chunks_to_scan = 0\<rparr>
      | Some e \<Rightarrow>
          \<lparr>pl_starting_chunk_index = ie_chunk_index e,
           pl_snapshot = nearest_at_or_before snaps target,
           pl_chunks_to_scan =
             length (filter (\<lambda>(c, _). ie_chunk_index e \<le> ch_index c) chunks)\<rparr>)"

fun seek_loop ::
    "seek_plan \<Rightarrow> (wire_frame \<Rightarrow> bool) \<Rightarrow> chunk list \<Rightarrow> nat \<Rightarrow> seek_result" where
  "seek_loop plan P [] scanned =
     \<lparr>sr_cursor = cursor_at_start, sr_landed_frame = None, sr_chunks_scanned = scanned\<rparr>"
| "seek_loop plan P ((c, fs) # chunks) scanned =
     (if ch_index c < pl_starting_chunk_index plan then seek_loop plan P chunks scanned
      else case find P fs of
        None \<Rightarrow> seek_loop plan P chunks (scanned + 1)
      | Some f \<Rightarrow>
          let cur = cursor_advance (ch_index c) (wf_sequence f) (wf_monotonic_ns f) cursor_at_start
          in \<lparr>sr_cursor = (case pl_snapshot plan of
                             None \<Rightarrow> cur | Some s \<Rightarrow> cursor_with_snapshot (sn_index s) cur),
              sr_landed_frame = Some f, sr_chunks_scanned = scanned + 1\<rparr>)"

definition execute_seek :: "seek_plan \<Rightarrow> chunk list \<Rightarrow> (wire_frame \<Rightarrow> bool) \<Rightarrow> seek_result" where
  "execute_seek plan chunks P =
     (if pl_starting_chunk_index plan = 0
      then \<lparr>sr_cursor = cursor_at_start, sr_landed_frame = None, sr_chunks_scanned = 0\<rparr>
      else seek_loop plan P chunks 0)"

definition seek_to_sequence ::
    "int \<Rightarrow> index_entry list \<Rightarrow> snapshot_entry list \<Rightarrow> chunk list \<Rightarrow> seek_result" where
  "seek_to_sequence target entries snaps chunks =
     execute_seek (plan_sequence_seek target entries snaps chunks) chunks
       (\<lambda>f. target \<le> wf_sequence f)"

definition seek_to_timestamp ::
    "int \<Rightarrow> snapshot_entry list \<Rightarrow> chunk list \<Rightarrow> seek_result" where
  "seek_to_timestamp target snaps chunks =
     (let plan = \<lparr>pl_starting_chunk_index = (case chunks of [] \<Rightarrow> 0 | (c, _) # _ \<Rightarrow> ch_index c),
                  pl_snapshot = None, pl_chunks_to_scan = length chunks\<rparr>;
          r = execute_seek plan chunks (\<lambda>f. target \<le> wf_monotonic_ns f)
      in case sr_landed_frame r of
           None \<Rightarrow> r
         | Some f \<Rightarrow>
             (case nearest_at_or_before snaps (wf_sequence f) of
                None \<Rightarrow> r
              | Some s \<Rightarrow> r\<lparr>sr_cursor := cursor_with_snapshot (sn_index s) (sr_cursor r)\<rparr>))"

definition iter_from_cursor :: "replay_cursor \<Rightarrow> chunk list \<Rightarrow> wire_frame list" where
  "iter_from_cursor cursor chunks =
     (if rc_chunk_index cursor \<le> 0 then concat (map snd chunks)
      else concat (map (\<lambda>(c, fs). filter (\<lambda>f. \<not> wf_sequence f \<le> rc_last_sequence cursor) fs)
             (filter (\<lambda>(c, _). \<not> ch_index c < rc_chunk_index cursor) chunks)))"

section \<open>State reconstruction\<close>

record reconstruction =
  re_target_sequence :: int
  re_state :: "(string, json) dict"
  re_snapshot_used :: "snapshot_entry option"
  re_frames_replayed :: nat
  re_seek_result :: seek_result

type_synonym dict_reducer = "(string, json) dict \<Rightarrow> wire_frame \<Rightarrow> (string, json) dict option"

fun reduce_frames ::
    "dict_reducer \<Rightarrow> wire_frame list \<Rightarrow> (string, json) dict \<Rightarrow> (string, json) dict option" where
  "reduce_frames r [] d = Some d"
| "reduce_frames r (f # fs) d = (case r d f of None \<Rightarrow> None | Some d' \<Rightarrow> reduce_frames r fs d')"

text \<open>\<open>None\<close> is an exception: an unreadable snapshot or a reducer that raises.\<close>

definition reconstruct_state ::
    "int \<Rightarrow> index_entry list \<Rightarrow> snapshot_entry list \<Rightarrow> chunk list \<Rightarrow> dict_reducer \<Rightarrow>
     reconstruction option" where
  "reconstruct_state target entries snaps chunks r =
     (let snapshot = nearest_at_or_before snaps target in
      case (case snapshot of None \<Rightarrow> Some [] | Some s \<Rightarrow> sn_payload s) of
        None \<Rightarrow> None
      | Some seed \<Rightarrow>
          let start = (case snapshot of Some s \<Rightarrow> sn_sequence_at_capture s + 1 | None \<Rightarrow> 1);
              sr = seek_to_sequence start entries snaps chunks
          in if target < rc_last_sequence (sr_cursor sr)
             then Some \<lparr>re_target_sequence = target, re_state = seed,
                        re_snapshot_used = snapshot, re_frames_replayed = 0,
                        re_seek_result = sr\<rparr>
             else
               let landed = (case sr_landed_frame sr of
                               Some f \<Rightarrow> if wf_sequence f \<le> target then [f] else []
                             | None \<Rightarrow> []);
                   rest = takeWhile (\<lambda>f. \<not> target < wf_sequence f)
                            (iter_from_cursor (sr_cursor sr) chunks)
               in map_option (\<lambda>d. \<lparr>re_target_sequence = target, re_state = d,
                      re_snapshot_used = snapshot,
                      re_frames_replayed = length landed + length rest,
                      re_seek_result = sr\<rparr>)
                    (reduce_frames r (landed @ rest) seed))"

section \<open>Well-formed recordings\<close>

definition all_frames :: "chunk list \<Rightarrow> wire_frame list" where
  "all_frames chunks = concat (map snd chunks)"

text \<open>
  What the recorder writes: sequence numbers are positive and increase through the files, chunks
  are numbered upwards from one, and a chunk's record bears the first and last sequence number of
  its frames (\<open>-1\<close> for a chunk without frames).
\<close>

definition recording_ok :: "chunk list \<Rightarrow> bool" where
  "recording_ok chunks \<longleftrightarrow>
     sorted_wrt (<) (map wf_sequence (all_frames chunks)) \<and>
     (\<forall>f\<in>set (all_frames chunks). 0 < wf_sequence f) \<and>
     sorted_wrt (<) (map (\<lambda>x. ch_index (fst x)) chunks) \<and>
     (\<forall>x\<in>set chunks. 0 < ch_index (fst x)) \<and>
     (\<forall>x\<in>set chunks.
        ch_first_sequence (fst x) = (if snd x = [] then -1 else wf_sequence (hd (snd x))) \<and>
        ch_last_sequence (fst x) = (if snd x = [] then -1 else wf_sequence (last (snd x))))"

definition chunk_covers :: "int \<Rightarrow> chunk \<Rightarrow> bool" where
  "chunk_covers s x \<longleftrightarrow>
     snd x \<noteq> [] \<and> ch_first_sequence (fst x) \<le> s \<and> s \<le> ch_last_sequence (fst x)"

lemma takeWhile_sorted:
  "sorted xs \<Longrightarrow> takeWhile (\<lambda>y. y \<le> x) xs = filter (\<lambda>y. y \<le> x) (xs :: int list)"
proof (induction xs)
  case (Cons y xs)
  then have "\<not> y \<le> x \<Longrightarrow> filter (\<lambda>y. y \<le> x) xs = []"
    by (auto simp: filter_empty_conv)
  then show ?case using Cons by auto
qed simp

lemma bisect_candidate:
  assumes "sorted (map key xs)"
  shows "bisect_right (map key xs) s = 0 \<Longrightarrow> x \<in> set xs \<Longrightarrow> \<not> key x \<le> s"
    and "bisect_right (map key xs) s \<noteq> 0 \<Longrightarrow>
      xs ! (bisect_right (map key xs) s - 1) \<in> set xs \<and>
      key (xs ! (bisect_right (map key xs) s - 1)) \<le> s \<and>
      (\<forall>x\<in>set xs. key x \<le> s \<longrightarrow> key x \<le> key (xs ! (bisect_right (map key xs) s - 1)))"
proof -
  let ?n = "bisect_right (map key xs) s"
  have tw: "takeWhile (\<lambda>y. y \<le> s) (map key xs) = filter (\<lambda>y. y \<le> s) (map key xs)"
    by (rule takeWhile_sorted[OF assms])
  show "?n = 0 \<Longrightarrow> x \<in> set xs \<Longrightarrow> \<not> key x \<le> s"
    unfolding bisect_right_def tw by (auto simp: filter_empty_conv)
  assume n: "?n \<noteq> 0"
  have len: "?n \<le> length xs"
    unfolding bisect_right_def by (metis length_map length_takeWhile_le)
  have small: "key (xs ! i) \<le> s" if "i < ?n" for i
  proof -
    have "takeWhile (\<lambda>y. y \<le> s) (map key xs) ! i = map key xs ! i"
      using that by (intro takeWhile_nth) (simp add: bisect_right_def)
    moreover have "takeWhile (\<lambda>y. y \<le> s) (map key xs) ! i \<in> set (takeWhile (\<lambda>y. y \<le> s) (map key xs))"
      using that by (intro nth_mem) (simp add: bisect_right_def)
    ultimately show ?thesis
      using that len by (auto dest: set_takeWhileD)
  qed
  have big: "\<not> key (xs ! i) \<le> s" if "?n \<le> i" "i < length xs" for i
  proof -
    have "\<not> map key xs ! ?n \<le> s"
      using that nth_length_takeWhile[of "\<lambda>y. y \<le> s" "map key xs"] by (simp add: bisect_right_def)
    moreover have "map key xs ! ?n \<le> map key xs ! i"
      using assms that by (intro sorted_nth_mono) simp_all
    ultimately show ?thesis using that by simp
  qed
  have "key x \<le> key (xs ! (?n - 1))" if x: "x \<in> set xs" "key x \<le> s" for x
  proof -
    obtain i where i: "i < length xs" "xs ! i = x" using x(1) by (auto simp: in_set_conv_nth)
    then have "i < ?n" using big[of i] x(2) by (meson linorder_not_le)
    then have "map key xs ! i \<le> map key xs ! (?n - 1)"
      using assms len n by (intro sorted_nth_mono) simp_all
    then show ?thesis using i len n by simp
  qed
  then show "xs ! (?n - 1) \<in> set xs \<and> key (xs ! (?n - 1)) \<le> s \<and>
      (\<forall>x\<in>set xs. key x \<le> s \<longrightarrow> key x \<le> key (xs ! (?n - 1)))"
    using small[of "?n - 1"] len n by simp
qed

text \<open>The snapshot index finds the latest snapshot at or before a sequence number.\<close>

lemma nearest_snapshot:
  assumes "sorted (map sn_sequence_at_capture snaps)"
  shows "nearest_at_or_before snaps s = None \<longleftrightarrow> (\<forall>x\<in>set snaps. s < sn_sequence_at_capture x)"
    and "nearest_at_or_before snaps s = Some x \<Longrightarrow>
      x \<in> set snaps \<and> sn_sequence_at_capture x \<le> s \<and>
      (\<forall>y\<in>set snaps. sn_sequence_at_capture y \<le> s \<longrightarrow>
         sn_sequence_at_capture y \<le> sn_sequence_at_capture x)"
proof -
  note cand = bisect_candidate[OF assms, of s]
  show "nearest_at_or_before snaps s = Some x \<Longrightarrow>
      x \<in> set snaps \<and> sn_sequence_at_capture x \<le> s \<and>
      (\<forall>y\<in>set snaps. sn_sequence_at_capture y \<le> s \<longrightarrow>
         sn_sequence_at_capture y \<le> sn_sequence_at_capture x)"
    using cand(2) by (auto simp: nearest_at_or_before_def Let_def split: if_splits)
  show "nearest_at_or_before snaps s = None \<longleftrightarrow> (\<forall>x\<in>set snaps. s < sn_sequence_at_capture x)"
  proof (cases "bisect_right (map sn_sequence_at_capture snaps) s = 0")
    case True
    then show ?thesis using cand(1) by (auto simp: nearest_at_or_before_def not_le)
  next
    case False
    from cand(2)[OF this] False show ?thesis
      by (auto simp: nearest_at_or_before_def Let_def bisect_right_def not_less)
  qed
qed

lemma all_frames_simps [simp]:
  "all_frames [] = []" "all_frames (x # xs) = snd x @ all_frames xs"
  "all_frames (xs @ ys) = all_frames xs @ all_frames ys"
  by (simp_all add: all_frames_def)

lemma sorted_wrt_hd_last:
  assumes "sorted_wrt (<) (map g fs)" "f \<in> set fs"
  shows "(g (hd fs) :: int) \<le> g f" "g f \<le> g (last fs)"
proof -
  show "g (hd fs) \<le> g f" using assms by (cases fs) (auto simp: less_imp_le)
  show "g f \<le> g (last fs)"
    using assms by (induction fs) (auto simp: less_imp_le last_ConsR)
qed

lemma chunk_split:
  assumes "recording_ok (us @ x # vs)" "snd x \<noteq> []"
  shows "f \<in> set (all_frames us) \<Longrightarrow> wf_sequence f < ch_first_sequence (fst x)"
    and "f \<in> set (all_frames vs) \<Longrightarrow> ch_last_sequence (fst x) < wf_sequence f"
    and "f \<in> set (snd x) \<Longrightarrow>
      ch_first_sequence (fst x) \<le> wf_sequence f \<and> wf_sequence f \<le> ch_last_sequence (fst x)"
proof -
  have sorted: "sorted_wrt (<) (map wf_sequence (all_frames us @ snd x @ all_frames vs))"
    using assms(1) by (simp add: recording_ok_def)
  have ends: "ch_first_sequence (fst x) = wf_sequence (hd (snd x))"
    "ch_last_sequence (fst x) = wf_sequence (last (snd x))"
    using assms by (simp_all add: recording_ok_def)
  have mem: "hd (snd x) \<in> set (snd x)" "last (snd x) \<in> set (snd x)"
    using assms(2) by simp_all
  show "f \<in> set (all_frames us) \<Longrightarrow> wf_sequence f < ch_first_sequence (fst x)"
    using sorted mem by (auto simp: ends sorted_wrt_append)
  show "f \<in> set (all_frames vs) \<Longrightarrow> ch_last_sequence (fst x) < wf_sequence f"
    using sorted mem by (auto simp: ends sorted_wrt_append)
  show "f \<in> set (snd x) \<Longrightarrow>
      ch_first_sequence (fst x) \<le> wf_sequence f \<and> wf_sequence f \<le> ch_last_sequence (fst x)"
    using sorted sorted_wrt_hd_last[of wf_sequence "snd x" f] by (simp add: ends sorted_wrt_append)
qed

lemma covering_chunk_unique:
  assumes "recording_ok chunks" "x \<in> set chunks" "y \<in> set chunks"
    "chunk_covers s x" "snd y \<noteq> []"
    "ch_first_sequence (fst x) \<le> ch_first_sequence (fst y)" "ch_first_sequence (fst y) \<le> s"
  shows "y = x"
proof (rule ccontr)
  assume "y \<noteq> x"
  obtain us vs where split: "chunks = us @ x # vs" using assms(2) by (metis split_list)
  have y: "y \<in> set us \<or> y \<in> set vs" using split assms(3) \<open>y \<noteq> x\<close> by auto
  have h: "hd (snd y) \<in> set (snd y)" using assms(5) by simp
  have first_y: "ch_first_sequence (fst y) = wf_sequence (hd (snd y))"
    using assms(1,3,5) by (simp add: recording_ok_def)
  have x: "snd x \<noteq> []" using assms(4) by (simp add: chunk_covers_def)
  note cs = chunk_split[OF assms(1)[unfolded split] x, of "hd (snd y)"]
  from y show False
  proof
    assume "y \<in> set us"
    then have "hd (snd y) \<in> set (all_frames us)" using h by (auto simp: all_frames_def)
    then show False using cs(1) first_y assms(6) by simp
  next
    assume "y \<in> set vs"
    then have "hd (snd y) \<in> set (all_frames vs)" using h by (auto simp: all_frames_def)
    then show False using cs(2) first_y assms(4,7) by (simp add: chunk_covers_def)
  qed
qed

text \<open>The binary search over the index finds the chunk whose range contains the sequence.\<close>

lemma set_index: "set (index_from_metadata cs) =
  (\<lambda>c. \<lparr>ie_chunk_index = ch_index c, ie_first_sequence = ch_first_sequence c,
        ie_last_sequence = ch_last_sequence c, ie_event_count = ch_event_count c\<rparr>) ` set cs"
  by (simp add: index_from_metadata_def build_index_from_chunks_def)

lemma sorted_index: "sorted (map ie_first_sequence (index_from_metadata cs))"
  by (simp add: index_from_metadata_def)

lemma chunk_lookup:
  assumes "recording_ok chunks" "0 < s"
  shows "chunk_for_sequence (index_from_metadata (map fst chunks)) s = None
           \<longleftrightarrow> \<not> list_ex (chunk_covers s) chunks"
    and "chunk_for_sequence (index_from_metadata (map fst chunks)) s = Some e \<Longrightarrow>
      \<exists>x\<in>set chunks. chunk_covers s x \<and> ie_chunk_index e = ch_index (fst x)"
proof -
  let ?es = "index_from_metadata (map fst chunks)"
  let ?n = "bisect_right (map ie_first_sequence ?es) s"
  note cand = bisect_candidate[OF sorted_index[of "map fst chunks"], of s]
  have entry: "\<exists>x\<in>set chunks. ie_chunk_index e = ch_index (fst x) \<and>
      ie_first_sequence e = ch_first_sequence (fst x) \<and>
      ie_last_sequence e = ch_last_sequence (fst x)" if "e \<in> set ?es" for e
    using that unfolding set_index by force
  have empty: "snd x = [] \<Longrightarrow> ch_last_sequence (fst x) = -1 \<and> ch_first_sequence (fst x) = -1"
    if "x \<in> set chunks" for x
    using assms(1) that by (simp add: recording_ok_def)
  show found: "\<exists>x\<in>set chunks. chunk_covers s x \<and> ie_chunk_index e = ch_index (fst x)"
    if e: "chunk_for_sequence ?es s = Some e" for e
  proof -
    have "?n \<noteq> 0" "e = ?es ! (?n - 1)" "s \<le> ie_last_sequence e"
      using e by (auto simp: chunk_for_sequence_def Let_def split: if_splits)
    then have "e \<in> set ?es" "ie_first_sequence e \<le> s" "s \<le> ie_last_sequence e"
      using cand(2) by simp_all
    then obtain x where x: "x \<in> set chunks" "ie_chunk_index e = ch_index (fst x)"
      "ch_first_sequence (fst x) \<le> s" "s \<le> ch_last_sequence (fst x)"
      using entry[of e] by auto
    then have "snd x \<noteq> []" using empty[of x] assms(2) by auto
    with x show ?thesis unfolding chunk_covers_def by blast
  qed
  have "chunk_for_sequence ?es s \<noteq> None" if x: "x \<in> set chunks" "chunk_covers s x" for x
  proof -
    let ?e = "\<lparr>ie_chunk_index = ch_index (fst x), ie_first_sequence = ch_first_sequence (fst x),
        ie_last_sequence = ch_last_sequence (fst x), ie_event_count = ch_event_count (fst x)\<rparr>"
    have e: "?e \<in> set ?es" "ie_first_sequence ?e \<le> s"
      using x by (auto simp: set_index chunk_covers_def)
    then have n: "?n \<noteq> 0" using cand(1)[of ?e] by blast
    let ?c = "?es ! (?n - 1)"
    have c: "?c \<in> set ?es" "ie_first_sequence ?c \<le> s"
      "ch_first_sequence (fst x) \<le> ie_first_sequence ?c"
      using cand(2)[OF n] e by auto
    obtain y where y: "y \<in> set chunks" "ie_first_sequence ?c = ch_first_sequence (fst y)"
      "ie_last_sequence ?c = ch_last_sequence (fst y)"
      using entry[OF c(1)] by blast
    have "0 < ch_first_sequence (fst x)"
      using assms(1) x by (auto simp: recording_ok_def chunk_covers_def all_frames_def)
    then have "snd y \<noteq> []" using c(3) y(2) empty[OF y(1)] by auto
    then have "y = x"
      using covering_chunk_unique[OF assms(1) x(1) y(1) x(2)] c(2,3) y(2) by simp
    then have "s \<le> ie_last_sequence ?c" using y(3) x(2) by (simp add: chunk_covers_def)
    moreover have "?es \<noteq> []" using e(1) by auto
    ultimately show ?thesis
      using n by (simp add: chunk_for_sequence_def Let_def)
  qed
  then show "chunk_for_sequence ?es s = None \<longleftrightarrow> \<not> list_ex (chunk_covers s) chunks"
    using found by (cases "chunk_for_sequence ?es s") (auto simp: list_ex_iff)
qed

section \<open>What a seek lands on\<close>

lemma find_append: "find P (xs @ ys) = (case find P xs of Some x \<Rightarrow> Some x | None \<Rightarrow> find P ys)"
  by (induction xs) auto

lemma find_None: "(\<And>x. x \<in> set xs \<Longrightarrow> \<not> P x) \<Longrightarrow> find P xs = None"
  by (simp add: find_None_iff)

lemma seek_loop_skip:
  "\<forall>y\<in>set us. ch_index (fst y) < pl_starting_chunk_index plan \<Longrightarrow>
   seek_loop plan P (us @ xs) n = seek_loop plan P xs n"
  by (induction us) auto

lemma seek_covered:
  assumes "recording_ok chunks" "0 < s" "list_ex (chunk_covers s) chunks"
  shows "\<exists>f us x vs. chunks = us @ x # vs \<and>
           sr_landed_frame (seek_to_sequence s (index_from_metadata (map fst chunks)) snaps chunks) = Some f \<and>
           rc_last_sequence (sr_cursor (seek_to_sequence s (index_from_metadata (map fst chunks)) snaps chunks)) = wf_sequence f \<and>
           rc_chunk_index (sr_cursor (seek_to_sequence s (index_from_metadata (map fst chunks)) snaps chunks)) = ch_index (fst x) \<and>
           f \<in> set (snd x) \<and> s \<le> wf_sequence f \<and>
           (\<forall>g\<in>set (all_frames chunks). s \<le> wf_sequence g \<longrightarrow> wf_sequence f \<le> wf_sequence g)"
proof -
  let ?es = "index_from_metadata (map fst chunks)"
  obtain e where e: "chunk_for_sequence ?es s = Some e"
    using chunk_lookup(1)[OF assms(1,2)] assms(3) by (cases "chunk_for_sequence ?es s") auto
  obtain x where x: "x \<in> set chunks" "chunk_covers s x" "ie_chunk_index e = ch_index (fst x)"
    using chunk_lookup(2)[OF assms(1,2) e] by blast
  obtain us vs where split: "chunks = us @ x # vs" using x(1) by (metis split_list)
  have ne: "snd x \<noteq> []" using x(2) by (simp add: chunk_covers_def)
  note cs = chunk_split[OF assms(1)[unfolded split] ne]
  let ?P = "\<lambda>f. s \<le> wf_sequence f"
  have "last (snd x) \<in> set (snd x) \<and> ?P (last (snd x))"
    using ne x(2) assms(1) x(1) by (simp add: chunk_covers_def recording_ok_def)
  then obtain f where f: "find ?P (snd x) = Some f"
    by (metis find_None_iff not_None_eq)
  then have fx: "f \<in> set (snd x)" "?P f" by (auto simp: find_Some_iff)
  have before: "g \<in> set (all_frames us) \<Longrightarrow> \<not> ?P g" for g
    using cs(1)[of g] x(2) by (auto simp: chunk_covers_def)
  have sorted: "sorted_wrt (<) (map wf_sequence (snd x))"
    using assms(1) split by (simp add: recording_ok_def sorted_wrt_append)
  have first: "wf_sequence f \<le> wf_sequence g" if gx: "g \<in> set (snd x)" and gp: "?P g" for g
  proof -
    obtain i where i: "i < length (snd x)" "?P (snd x ! i)" "f = snd x ! i" "\<forall>j<i. \<not> ?P (snd x ! j)"
      using f by (auto simp: find_Some_iff)
    obtain j where j: "j < length (snd x)" "g = snd x ! j" using gx by (metis in_set_conv_nth)
    then have "i \<le> j" using i(4) gp by (metis linorder_not_le)
    then show ?thesis
      using sorted_wrt_nth_less[OF sorted, of i j] i j by (cases "i = j") simp_all
  qed
  have after: "wf_sequence f \<le> wf_sequence g" if "g \<in> set (all_frames vs)" for g
    using cs(2)[OF that] cs(3)[OF fx(1)] by simp
  have idx: "y \<in> set us \<Longrightarrow> ch_index (fst y) < ch_index (fst x)" for y
    using assms(1) split by (simp add: recording_ok_def sorted_wrt_append)
  have pos: "0 < ch_index (fst x)" using assms(1) x(1) by (simp add: recording_ok_def)
  obtain c fs where cf: "x = (c, fs)" by fastforce
  let ?sr = "seek_to_sequence s ?es snaps chunks"
  have sr: "sr_landed_frame ?sr = Some f \<and> rc_last_sequence (sr_cursor ?sr) = wf_sequence f \<and>
      rc_chunk_index (sr_cursor ?sr) = ch_index (fst x)"
  proof -
    let ?plan = "plan_sequence_seek s ?es snaps chunks"
    have start: "pl_starting_chunk_index ?plan = ch_index (fst x)"
      using e x(3) by (simp add: plan_sequence_seek_def)
    have "seek_loop ?plan ?P chunks 0 = seek_loop ?plan ?P (x # vs) 0"
      using seek_loop_skip[of us ?plan ?P "x # vs" 0] idx start split by simp
    then have "?sr = seek_loop ?plan ?P (x # vs) 0"
      using pos start by (simp add: seek_to_sequence_def execute_seek_def)
    then show ?thesis
      using f start cf
      by (simp add: Let_def cursor_advance_def cursor_at_start_def cursor_with_snapshot_def
          split: option.split)
  qed
  have "\<forall>g\<in>set (all_frames chunks). ?P g \<longrightarrow> wf_sequence f \<le> wf_sequence g"
    using before first after split by auto
  with sr split fx show ?thesis by blast
qed

lemma seek_uncovered:
  assumes "recording_ok chunks" "0 < s" "\<not> list_ex (chunk_covers s) chunks"
  shows "sr_landed_frame (seek_to_sequence s (index_from_metadata (map fst chunks)) snaps chunks) = None"
    and "sr_cursor (seek_to_sequence s (index_from_metadata (map fst chunks)) snaps chunks) = cursor_at_start"
  using chunk_lookup(1)[OF assms(1,2)] assms(3)
  by (simp_all add: seek_to_sequence_def plan_sequence_seek_def execute_seek_def)

lemma takeWhile_strict:
  "sorted_wrt (<) (map wf_sequence fs) \<Longrightarrow>
   takeWhile (\<lambda>f. \<not> t < wf_sequence f) fs = filter (\<lambda>f. wf_sequence f \<le> t) fs"
proof (induction fs)
  case (Cons f fs)
  then have "t < wf_sequence f \<Longrightarrow> filter (\<lambda>f. wf_sequence f \<le> t) fs = []"
    by (auto simp: filter_empty_conv)
  then show ?case using Cons by auto
qed simp

lemma iter_after:
  assumes "recording_ok (us @ x # vs)" "rc_chunk_index c = ch_index (fst x)"
    "f \<in> set (snd x)" "rc_last_sequence c = wf_sequence f"
  shows "iter_from_cursor c (us @ x # vs)
           = filter (\<lambda>g. wf_sequence f < wf_sequence g) (all_frames (us @ x # vs))"
proof -
  have ne: "snd x \<noteq> []" using assms(3) by auto
  note cs = chunk_split[OF assms(1) ne]
  have idx: "\<And>y. y \<in> set us \<Longrightarrow> ch_index (fst y) < ch_index (fst x)"
    "\<And>y. y \<in> set vs \<Longrightarrow> ch_index (fst x) < ch_index (fst y)" "0 < ch_index (fst x)"
    using assms(1) by (auto simp: recording_ok_def sorted_wrt_append)
  have "filter (\<lambda>(c', _). \<not> ch_index c' < ch_index (fst x)) us = []"
    using idx(1) by (auto simp: filter_empty_conv)
  moreover have "filter (\<lambda>(c', _). \<not> ch_index c' < ch_index (fst x)) vs = vs"
    using idx(2) by (force intro!: filter_True)
  moreover have "filter (\<lambda>g. wf_sequence f < wf_sequence g) (all_frames us) = []"
    using cs(1) cs(3)[OF assms(3)] by (fastforce simp: filter_empty_conv)
  moreover have "concat (map (\<lambda>(c', fs). filter (\<lambda>g. \<not> wf_sequence g \<le> wf_sequence f) fs) ys)
      = filter (\<lambda>g. wf_sequence f < wf_sequence g) (all_frames ys)" for ys
    by (induction ys) (auto simp: not_le)
  ultimately show ?thesis
    using idx(3) assms(2,4)
    by (cases x) (simp add: iter_from_cursor_def not_le)
qed

section \<open>What a reconstruction replays\<close>

definition reconstruction_start :: "snapshot_entry option \<Rightarrow> int" where
  "reconstruction_start snapshot =
     (case snapshot of Some s \<Rightarrow> sn_sequence_at_capture s + 1 | None \<Rightarrow> 1)"

definition replayed_frames :: "chunk list \<Rightarrow> int \<Rightarrow> int \<Rightarrow> wire_frame list" where
  "replayed_frames chunks start target =
     (if list_ex (chunk_covers start) chunks
      then filter (\<lambda>f. start \<le> wf_sequence f \<and> wf_sequence f \<le> target) (all_frames chunks)
      else filter (\<lambda>f. wf_sequence f \<le> target) (all_frames chunks))"

lemma sorted_filter_strict:
  "sorted_wrt (<) (map g fs) \<Longrightarrow> sorted_wrt (<) (map g (filter P fs) :: int list)"
  by (induction fs) auto

lemma filter_landed:
  assumes "sorted_wrt (<) (map wf_sequence fs)" "f \<in> set fs" "wf_sequence f \<le> t"
    "\<forall>g\<in>set fs. s \<le> wf_sequence g \<longrightarrow> wf_sequence f \<le> wf_sequence g" "s \<le> wf_sequence f"
  shows "f # filter (\<lambda>g. wf_sequence f < wf_sequence g \<and> wf_sequence g \<le> t) fs
           = filter (\<lambda>g. s \<le> wf_sequence g \<and> wf_sequence g \<le> t) fs"
proof -
  obtain us vs where fs: "fs = us @ f # vs" using assms(2) by (metis split_list)
  have us: "g \<in> set us \<Longrightarrow> wf_sequence g < wf_sequence f" for g
    using assms(1) fs by (simp add: sorted_wrt_append)
  have vs: "g \<in> set vs \<Longrightarrow> wf_sequence f < wf_sequence g" for g
    using assms(1) fs by (simp add: sorted_wrt_append)
  have "filter (\<lambda>g. wf_sequence f < wf_sequence g \<and> wf_sequence g \<le> t) us = []"
    using us by (fastforce simp: filter_empty_conv)
  moreover have "filter (\<lambda>g. s \<le> wf_sequence g \<and> wf_sequence g \<le> t) us = []"
    using us assms(4) fs by (fastforce simp: filter_empty_conv)
  moreover have "filter (\<lambda>g. s \<le> wf_sequence g \<and> wf_sequence g \<le> t) vs
      = filter (\<lambda>g. wf_sequence f < wf_sequence g \<and> wf_sequence g \<le> t) vs"
    using vs assms(5) by (intro filter_cong) fastforce+
  ultimately show ?thesis using assms(3,5) fs by simp
qed

text \<open>What a reconstruction computes. For every well-formed recording, set of snapshots and target, the
  state reconstructed at the target is the payload of the latest snapshot at or before it (nothing
  if there is none) with exactly the frames \<open>replayed_frames\<close> reduced into it, in sequence order:
  the frames after the snapshot up to the target, when the sequence number right after the snapshot
  (\<open>1\<close> without a snapshot) lies in the range of some chunk; and every frame of the recording up to
  the target otherwise. No chunk boundary, empty chunk or gap in the numbering changes that.
\<close>

lemma reconstruction_exact:
  assumes "recording_ok chunks" "0 \<le> target"
    and "\<forall>x\<in>set snaps. 0 \<le> sn_sequence_at_capture x"
  shows "map_option re_state (reconstruct_state target (index_from_metadata (map fst chunks))
            (snapshot_index_of snaps) chunks r) =
         (case (case nearest_at_or_before (snapshot_index_of snaps) target of
                  None \<Rightarrow> Some [] | Some s \<Rightarrow> sn_payload s) of
            None \<Rightarrow> None
          | Some seed \<Rightarrow>
              reduce_frames r
                (replayed_frames chunks
                   (reconstruction_start (nearest_at_or_before (snapshot_index_of snaps) target))
                   target) seed)"
proof -
  let ?snaps = "snapshot_index_of snaps"
  let ?es = "index_from_metadata (map fst chunks)"
  let ?snap = "nearest_at_or_before ?snaps target"
  let ?start = "reconstruction_start ?snap"
  let ?sr = "seek_to_sequence ?start ?es ?snaps chunks"
  have sorted: "sorted_wrt (<) (map wf_sequence (all_frames chunks))"
    using assms(1) by (simp add: recording_ok_def)
  have "sorted (map sn_sequence_at_capture ?snaps)" by (simp add: snapshot_index_of_def)
  from nearest_snapshot(2)[OF this, of target] have start: "0 < ?start"
    using assms(3) by (cases ?snap) (auto simp: reconstruction_start_def snapshot_index_of_def)
  have start_eq: "?start = (case ?snap of Some s \<Rightarrow> sn_sequence_at_capture s + 1 | None \<Rightarrow> 1)"
    by (simp add: reconstruction_start_def)
  have unfold: "map_option re_state (reconstruct_state target ?es ?snaps chunks r) =
      (case (case ?snap of None \<Rightarrow> Some [] | Some s \<Rightarrow> sn_payload s) of
         None \<Rightarrow> None
       | Some seed \<Rightarrow>
           if target < rc_last_sequence (sr_cursor ?sr) then Some seed
           else reduce_frames r
             ((case sr_landed_frame ?sr of
                 Some f \<Rightarrow> if wf_sequence f \<le> target then [f] else [] | None \<Rightarrow> []) @
              takeWhile (\<lambda>f. \<not> target < wf_sequence f) (iter_from_cursor (sr_cursor ?sr) chunks)) seed)"
    unfolding reconstruct_state_def Let_def start_eq[symmetric]
    by (simp add: option.map_comp comp_def option.map_id[unfolded id_def] split: option.split)
  show ?thesis
  proof (cases "list_ex (chunk_covers ?start) chunks")
    case False
    have none: "sr_landed_frame ?sr = None" "sr_cursor ?sr = cursor_at_start"
      using seek_uncovered[OF assms(1) start False] by simp_all
    have "takeWhile (\<lambda>f. \<not> target < wf_sequence f) (all_frames chunks)
        = filter (\<lambda>f. wf_sequence f \<le> target) (all_frames chunks)"
      by (rule takeWhile_strict[OF sorted])
    then have "replayed_frames chunks ?start target
        = takeWhile (\<lambda>f. \<not> target < wf_sequence f) (concat (map snd chunks))"
      using False by (simp add: replayed_frames_def all_frames_def)
    then show ?thesis
      unfolding unfold none using assms(2)
      by (simp add: iter_from_cursor_def cursor_at_start_def split: option.split)
  next
    case True
    then obtain f us x vs where split: "chunks = us @ x # vs"
      and sr: "sr_landed_frame ?sr = Some f" "rc_last_sequence (sr_cursor ?sr) = wf_sequence f"
        "rc_chunk_index (sr_cursor ?sr) = ch_index (fst x)"
      and f: "f \<in> set (snd x)" "?start \<le> wf_sequence f"
        "\<forall>g\<in>set (all_frames chunks). ?start \<le> wf_sequence g \<longrightarrow> wf_sequence f \<le> wf_sequence g"
      using seek_covered[OF assms(1) start True, of ?snaps] by blast
    have mem: "f \<in> set (all_frames chunks)" using f(1) split by simp
    have iter: "iter_from_cursor (sr_cursor ?sr) chunks
        = filter (\<lambda>g. wf_sequence f < wf_sequence g) (all_frames chunks)"
      using iter_after[OF assms(1)[unfolded split] sr(3) f(1) sr(2)] split by simp
    have tw: "takeWhile (\<lambda>f. \<not> target < wf_sequence f) (iter_from_cursor (sr_cursor ?sr) chunks)
        = filter (\<lambda>g. wf_sequence f < wf_sequence g \<and> wf_sequence g \<le> target) (all_frames chunks)"
      unfolding iter by (simp add: takeWhile_strict sorted_filter_strict[OF sorted] conj_commute)
    show ?thesis
    proof (cases "target < wf_sequence f")
      case True
      then have "filter (\<lambda>g. ?start \<le> wf_sequence g \<and> wf_sequence g \<le> target) (all_frames chunks) = []"
        using f(3) by (fastforce simp: filter_empty_conv)
      then show ?thesis
        unfolding unfold sr(2) using True \<open>list_ex (chunk_covers ?start) chunks\<close>
        by (simp add: replayed_frames_def split: option.split)
    next
      case False
      have "[f] @ filter (\<lambda>g. wf_sequence f < wf_sequence g \<and> wf_sequence g \<le> target) (all_frames chunks)
          = replayed_frames chunks ?start target"
        using filter_landed[OF sorted mem _ f(3,2)] False \<open>list_ex (chunk_covers ?start) chunks\<close>
        by (simp add: replayed_frames_def)
      then show ?thesis
        unfolding unfold sr(1,2) tw using False by (simp split: option.split)
    qed
  qed
qed

section \<open>What a stream yields\<close>

definition stream_accepts ::
    "frame_window option \<Rightarrow> frame_filter option \<Rightarrow> replay_cursor option \<Rightarrow> wire_frame \<Rightarrow> bool" where
  "stream_accepts w flt from_cursor f \<longleftrightarrow>
     (case w of None \<Rightarrow> True | Some w' \<Rightarrow> window_contains w' f) \<and>
     (case flt of None \<Rightarrow> True | Some g \<Rightarrow> filter_matches g f) \<and>
     (case from_cursor of None \<Rightarrow> True | Some c \<Rightarrow> rc_last_sequence c < wf_sequence f)"

lemma snd_tagged_frames: "map snd (tagged_frames chunks) = all_frames chunks"
  by (induction chunks) (auto simp: tagged_frames_def all_frames_def comp_def)

lemma window_contains_iff: "window_contains w f \<longleftrightarrow> \<not> above_window w f \<and> \<not> below_window w f"
  by (auto simp: window_contains_def above_window_def below_window_def)

lemma above_window_mono:
  assumes "above_window w f" "wf_sequence f \<le> wf_sequence g" "wf_monotonic_ns f \<le> wf_monotonic_ns g"
  shows "above_window w g"
  using assms
  by (cases "fw_end_sequence w"; cases "fw_end_monotonic_ns w") (auto simp: above_window_def)

lemma stream_frames_filter:
  assumes "sorted (map (\<lambda>x. wf_sequence (snd x)) fs)" "sorted (map (\<lambda>x. wf_monotonic_ns (snd x)) fs)"
  shows "fst (stream_frames w flt fs sp) =
    filter (\<lambda>f. window_contains w f \<and> (case flt of None \<Rightarrow> True | Some g \<Rightarrow> filter_matches g f))
      (map snd fs)"
  using assms
proof (induction w flt fs sp rule: stream_frames.induct)
  case (2 w flt i f fs sp)
  show ?case
  proof (cases "above_window w f")
    case True
    have "above_window w g" if "g \<in> set (map snd fs)" for g
      using True that "2.prems" by (auto intro: above_window_mono)
    then have "filter (\<lambda>f. window_contains w f \<and> (case flt of None \<Rightarrow> True | Some g \<Rightarrow> filter_matches g f))
        (map snd fs) = []"
      by (auto simp: filter_empty_conv window_contains_iff)
    with True show ?thesis by (simp add: window_contains_iff)
  next
    case False
    with 2 show ?thesis
      by (auto simp: window_contains_iff split_beta split: option.splits)
  qed
qed simp

lemma stream_frames_cursor:
  "stream_frames w flt fs sp = (out, sp') \<Longrightarrow>
   rc_last_sequence (sp_cursor sp') =
     (if out = [] then rc_last_sequence (sp_cursor sp) else wf_sequence (last out)) \<and>
   rc_frames_consumed (sp_cursor sp') = rc_frames_consumed (sp_cursor sp) + int (length out)"
proof (induction fs arbitrary: sp out sp')
  case (Cons x fs)
  obtain i f where x: "x = (i, f)" by fastforce
  let ?sp = "sp\<lparr>sp_cursor := cursor_advance i (wf_sequence f) (wf_monotonic_ns f) (sp_cursor sp),
                 sp_advanced_by := sp_advanced_by sp + 1\<rparr>"
  consider "out = [] \<and> sp_cursor sp' = sp_cursor sp"
    | sp1 where "stream_frames w flt fs sp1 = (out, sp')" "sp_cursor sp1 = sp_cursor sp"
    | out' where "stream_frames w flt fs ?sp = (out', sp')" "out = f # out'"
    using Cons.prems unfolding x by (fastforce split: if_splits prod.splits)
  then show ?case
  proof cases
    case 3
    from Cons.IH[OF 3(1)] 3(2) show ?thesis by (simp add: cursor_advance_def)
  qed (use Cons.IH in force)+
qed simp

lemma merged_window:
  assumes "0 < wf_sequence f" "0 \<le> wf_monotonic_ns f"
  shows "window_contains (merge_cursor_window w s) f \<longleftrightarrow>
    (case w of None \<Rightarrow> True | Some w' \<Rightarrow> window_contains w' f) \<and> s \<le> wf_sequence f"
  using assms
  by (auto simp: merge_cursor_window_def window_contains_def unbounded_window_def split: option.split)

lemma strict_sorted_sorted: "sorted_wrt (<) (xs :: int list) \<Longrightarrow> sorted xs"
  by (induction xs) (auto simp: less_imp_le)

lemma iter_frames_filter:
  assumes "recording_ok chunks" "sorted (map wf_monotonic_ns (all_frames chunks))"
    and "\<forall>f\<in>set (all_frames chunks). 0 \<le> wf_monotonic_ns f"
    and "iter_frames chunks w flt from_cursor current = (out, sp)"
  shows "out = filter (stream_accepts w flt from_cursor) (all_frames chunks)"
proof -
  let ?start = "case from_cursor of Some c \<Rightarrow> rc_last_sequence c + 1 | None \<Rightarrow> 0"
  let ?sp = "\<lparr>sp_cursor = (case from_cursor of Some c \<Rightarrow> c | None \<Rightarrow> current),
         sp_filtered_drops = 0, sp_window_drops = 0, sp_advanced_by = 0\<rparr>"
  have seqs: "sorted (map (\<lambda>x. wf_sequence (snd x)) (tagged_frames chunks))"
    using assms(1) strict_sorted_sorted[of "map wf_sequence (all_frames chunks)"]
    by (simp add: recording_ok_def snd_tagged_frames[symmetric] comp_def)
  have times: "sorted (map (\<lambda>x. wf_monotonic_ns (snd x)) (tagged_frames chunks))"
    using assms(2) by (simp add: snd_tagged_frames[symmetric] comp_def)
  have "out = filter (\<lambda>f. window_contains (merge_cursor_window w ?start) f \<and>
      (case flt of None \<Rightarrow> True | Some g \<Rightarrow> filter_matches g f)) (all_frames chunks)"
    using stream_frames_filter[OF seqs times, of "merge_cursor_window w ?start" flt ?sp] assms(4)
    by (simp add: snd_tagged_frames iter_frames_def)
  also have "\<dots> = filter (stream_accepts w flt from_cursor) (all_frames chunks)"
  proof (rule filter_cong)
    fix f assume f: "f \<in> set (all_frames chunks)"
    then have "0 < wf_sequence f" "0 \<le> wf_monotonic_ns f"
      using assms(1,3) by (simp_all add: recording_ok_def)
    then show "(window_contains (merge_cursor_window w ?start) f \<and>
        (case flt of None \<Rightarrow> True | Some g \<Rightarrow> filter_matches g f)) = stream_accepts w flt from_cursor f"
      by (auto simp: merged_window stream_accepts_def split: option.split)
  qed simp
  finally show ?thesis .
qed

text \<open>A stream cut after any frame and resumed from the cursor it had then yields the rest.\<close>

lemma resumed_stream:
  assumes "sorted_wrt (<) (map wf_sequence fs)"
    and "filter (stream_accepts w flt None) fs = us @ f # vs" "rc_last_sequence c = wf_sequence f"
  shows "filter (stream_accepts w flt (Some c)) fs = vs"
proof -
  have sorted: "sorted_wrt (<) (map wf_sequence (us @ f # vs))"
    unfolding assms(2)[symmetric] using assms(1) by (rule sorted_filter_strict)
  have "filter (stream_accepts w flt (Some c)) fs
      = filter (\<lambda>g. wf_sequence f < wf_sequence g) (us @ f # vs)"
    unfolding assms(2)[symmetric] filter_filter using assms(3)
    by (intro filter_cong) (auto simp: stream_accepts_def)
  also have "\<dots> = vs"
  proof -
    have "filter (\<lambda>g. wf_sequence f < wf_sequence g) us = []"
      using sorted by (force simp: filter_empty_conv sorted_wrt_append)
    moreover have "filter (\<lambda>g. wf_sequence f < wf_sequence g) vs = vs"
      using sorted by (force simp: sorted_wrt_append intro!: filter_True)
    ultimately show ?thesis by simp
  qed
  finally show ?thesis .
qed

text \<open>What the streaming iterator yields. Over a well-formed recording whose clock readings are
  nonnegative and do not go back, the lazy iterator, which stops at the first frame beyond the window,
  yields exactly the frames of the recording that lie in the window, pass the filter and come after
  the cursor it starts from, in order; its cursor ends on the last frame yielded and has counted every
  one. A stream cut after any frame and resumed from the cursor it had there yields exactly the
  rest: nothing is lost or repeated.
\<close>

theorem iter_frames_exact:
  assumes "recording_ok chunks" "sorted (map wf_monotonic_ns (all_frames chunks))"
    and "\<forall>f\<in>set (all_frames chunks). 0 \<le> wf_monotonic_ns f"
    and "iter_frames chunks w flt from_cursor current = (out, sp)"
  shows "out = filter (stream_accepts w flt from_cursor) (all_frames chunks) \<and>
    (let first = (case from_cursor of None \<Rightarrow> current | Some c \<Rightarrow> c)
     in rc_last_sequence (sp_cursor sp) =
          (if out = [] then rc_last_sequence first else wf_sequence (last out)) \<and>
        rc_frames_consumed (sp_cursor sp) = rc_frames_consumed first + int (length out)) \<and>
    (from_cursor = None \<longrightarrow>
       (\<forall>us f vs c. out = us @ f # vs \<and> rc_last_sequence c = wf_sequence f \<longrightarrow>
          fst (iter_frames chunks w flt (Some c) current) = vs))"
proof -
  note out = iter_frames_filter[OF assms]
  have "fst (iter_frames chunks w flt (Some c) current) = vs"
    if "from_cursor = None" "out = us @ f # vs" "rc_last_sequence c = wf_sequence f" for us f vs c
    using iter_frames_filter[OF assms(1-3), of w flt "Some c" current]
      resumed_stream[of "all_frames chunks" w flt us f vs c] assms(1) out that
    by (cases "iter_frames chunks w flt (Some c) current") (simp add: recording_ok_def)
  moreover have "stream_frames (merge_cursor_window w
        (case from_cursor of Some c \<Rightarrow> rc_last_sequence c + 1 | None \<Rightarrow> 0)) flt (tagged_frames chunks)
      \<lparr>sp_cursor = (case from_cursor of Some c \<Rightarrow> c | None \<Rightarrow> current),
       sp_filtered_drops = 0, sp_window_drops = 0, sp_advanced_by = 0\<rparr> = (out, sp)"
    using assms(4) by (simp add: iter_frames_def)
  note stream_frames_cursor[OF this]
  ultimately show ?thesis using out by (cases from_cursor) (simp_all add: Let_def)
qed

section \<open>A small recording\<close>

definition sample_frame :: "int \<Rightarrow> wire_frame" where
  "sample_frame n =
     \<lparr>wf_schema_version = 1, wf_frame_type = ''event'', wf_sequence = n, wf_monotonic_ns = 10 * n,
      wf_payload_type = ''task.started'', wf_payload = [], wf_runtime_id = None,
      wf_recording_id = None, wf_wall_time_ns = None, wf_extensions = []\<rparr>"

definition sample_chunk :: "int \<Rightarrow> int list \<Rightarrow> chunk" where
  "sample_chunk i ns =
     (\<lparr>ch_index = i, ch_event_count = int (length ns),
       ch_first_sequence = (if ns = [] then -1 else hd ns),
       ch_last_sequence = (if ns = [] then -1 else last ns)\<rparr>, map sample_frame ns)"

definition sample_chunks :: "chunk list" where
  "sample_chunks = [sample_chunk 1 [1, 2], sample_chunk 2 [], sample_chunk 3 [4, 5]]"

definition sample_snapshots :: "snapshot_entry list" where
  "sample_snapshots =
     [\<lparr>sn_index = 1, sn_sequence_at_capture = 2,
       sn_payload = Some (to_dict (with_advance 2 20 (with_advance 1 10 vs_empty)))\<rparr>]"

lemmas sample_defs =
  sample_frame_def sample_chunk_def sample_chunks_def sample_snapshots_def

lemma sample_recording_ok: "recording_ok sample_chunks"
  by (simp add: recording_ok_def all_frames_def sample_defs)

theorem iter_frames_exact_witness:
  "fst (iter_frames sample_chunks
      (Some \<lparr>fw_start_sequence = 2, fw_end_sequence = Some 4, fw_start_monotonic_ns = 0,
             fw_end_monotonic_ns = None\<rparr>) None None cursor_at_start) = map sample_frame [2, 4]"
proof -
  let ?w = "\<lparr>fw_start_sequence = 2, fw_end_sequence = Some 4, fw_start_monotonic_ns = 0,
             fw_end_monotonic_ns = None\<rparr> :: frame_window"
  obtain out sp where run:
    "iter_frames sample_chunks (Some ?w) None None cursor_at_start = (out, sp)" by fastforce
  have "out = filter (stream_accepts (Some ?w) None None) (all_frames sample_chunks)"
    using iter_frames_exact[OF sample_recording_ok _ _ run]
    by (simp add: all_frames_def sample_defs)
  then show ?thesis
    using run by (simp add: all_frames_def sample_defs stream_accepts_def window_contains_def)
qed

end
