(* ===== verification/Playback.thy ===== *)
theory Playback
  imports Recording
begin

text \<open>
  The replay runtime engine (\<open>asyncviz/replay/runtime\<close>): the virtual clock, the scheduler, pause
  and speed controllers, reducers, checkpoints, cursor, integrity guards, the dispatch of a frame,
  the playback loop and the seek.

  The loop is asynchronous: at each of its awaits (the pause gate, the step gate, the wait before
  a dispatch, the push to the sink) other coroutines may call the engine. What they call there is
  an explicit list of controls in the environment of the iteration, so an interleaving is an
  argument of the model. Readings of the wall clock are arguments; the readings of one synchronous
  call are one number. The trace ring, the listeners and the state-push half of the sink do not
  influence the engine and are left out; reducers and the sink's \<open>push_frame\<close> may raise.
\<close>

section \<open>The virtual clock\<close>

record replay_clock =
  ck_wall_anchor_ns :: int
  ck_virtual_anchor_ns :: int
  ck_speed :: real
  ck_paused :: bool
  ck_paused_virtual_ns :: "int option"

text \<open>\<open>None\<close> is the \<open>ValueError\<close> of a speed that is not positive.\<close>

definition new_clock :: "int \<Rightarrow> int \<Rightarrow> real \<Rightarrow> replay_clock option" where
  "new_clock wall virtual speed =
     (if speed \<le> 0 then None
      else Some \<lparr>ck_wall_anchor_ns = wall, ck_virtual_anchor_ns = virtual, ck_speed = speed,
                 ck_paused = False, ck_paused_virtual_ns = None\<rparr>)"

text \<open>The code asserts that a paused clock has its frozen time; \<open>clock_ok\<close> below shows it has.\<close>

definition current_virtual_ns :: "int \<Rightarrow> replay_clock \<Rightarrow> int" where
  "current_virtual_ns wall c =
     (if ck_paused c
      then (case ck_paused_virtual_ns c of Some v \<Rightarrow> v | None \<Rightarrow> ck_virtual_anchor_ns c)
      else
        let elapsed = wall - ck_wall_anchor_ns c;
            elapsed' = (if elapsed < 0 then 0 else elapsed)
        in ck_virtual_anchor_ns c + py_int (real_of_int elapsed' * ck_speed c))"

definition clock_pause :: "int \<Rightarrow> replay_clock \<Rightarrow> replay_clock" where
  "clock_pause wall c =
     (if ck_paused c then c
      else c\<lparr>ck_paused_virtual_ns := Some (current_virtual_ns wall c), ck_paused := True\<rparr>)"

definition clock_resume :: "int \<Rightarrow> replay_clock \<Rightarrow> replay_clock" where
  "clock_resume wall c =
     (if \<not> ck_paused c then c
      else c\<lparr>ck_wall_anchor_ns := wall,
             ck_virtual_anchor_ns :=
               (case ck_paused_virtual_ns c of Some v \<Rightarrow> v | None \<Rightarrow> ck_virtual_anchor_ns c),
             ck_paused_virtual_ns := None, ck_paused := False\<rparr>)"

text \<open>
  A speed change reads the wall clock twice, for the position (unless the clock is paused) and for
  the new anchor; what passes in between is in no stretch.
\<close>

definition clock_set_speed :: "int \<Rightarrow> int \<Rightarrow> real \<Rightarrow> replay_clock \<Rightarrow> replay_clock option" where
  "clock_set_speed wall wall' speed c =
     (if speed \<le> 0 then None
      else
        let current = current_virtual_ns wall c;
            c' = c\<lparr>ck_wall_anchor_ns := wall', ck_virtual_anchor_ns := current, ck_speed := speed\<rparr>
        in Some (if ck_paused c' then c'\<lparr>ck_paused_virtual_ns := Some current\<rparr> else c'))"

definition clock_jump_to :: "int \<Rightarrow> int \<Rightarrow> replay_clock \<Rightarrow> replay_clock" where
  "clock_jump_to wall virtual c =
     (let c' = c\<lparr>ck_wall_anchor_ns := wall, ck_virtual_anchor_ns := virtual\<rparr>
      in if ck_paused c' then c'\<lparr>ck_paused_virtual_ns := Some (ck_virtual_anchor_ns c')\<rparr> else c')"

section \<open>The scheduler\<close>

datatype playback_mode = Realtime | AsFastAsPossible | StepMode

record frame_schedule =
  sc_wait_seconds :: real
  sc_behind_by_ns :: int
  sc_target_virtual_ns :: int

definition catch_up_threshold_ns :: "real \<Rightarrow> int" where
  "catch_up_threshold_ns seconds = py_int (seconds * 1000000000)"

definition schedule :: "playback_mode \<Rightarrow> int \<Rightarrow> int \<Rightarrow> int \<Rightarrow> replay_clock \<Rightarrow> frame_schedule" where
  "schedule mode threshold_ns wall target c =
     (if mode = AsFastAsPossible \<or> mode = StepMode
      then \<lparr>sc_wait_seconds = 0, sc_behind_by_ns = 0, sc_target_virtual_ns = target\<rparr>
      else
        let delta_ns = target - current_virtual_ns wall c in
        if delta_ns \<le> 0
        then \<lparr>sc_wait_seconds = 0, sc_behind_by_ns = - delta_ns, sc_target_virtual_ns = target\<rparr>
        else
          let wait_ns = (if 0 < threshold_ns \<and> threshold_ns < delta_ns then threshold_ns
                         else delta_ns);
              wait_seconds = real_of_int wait_ns / 1000000000;
              scaled = (if 0 < ck_speed c then wait_seconds / ck_speed c else wait_seconds)
          in \<lparr>sc_wait_seconds = max 0 scaled, sc_behind_by_ns = 0,
              sc_target_virtual_ns = target\<rparr>)"

section \<open>Reducers\<close>

text \<open>A reducer returns the next state or raises (\<open>None\<close>).\<close>

type_synonym state_reducer = "virtual_state \<Rightarrow> wire_frame \<Rightarrow> virtual_state option"

record reducer_registry =
  rg_default :: state_reducer
  rg_reducers :: "(string, state_reducer) dict"

definition advance_counters :: "virtual_state \<Rightarrow> wire_frame \<Rightarrow> virtual_state" where
  "advance_counters s f =
     s\<lparr>vs_last_sequence := wf_sequence f, vs_last_monotonic_ns := wf_monotonic_ns f,
       vs_frames_applied := vs_frames_applied s + 1\<rparr>"

definition new_reducer_registry :: reducer_registry where
  "new_reducer_registry =
     \<lparr>rg_default = (\<lambda>s f. Some (advance_counters s f)), rg_reducers = []\<rparr>"

definition reducers_set_default :: "state_reducer \<Rightarrow> reducer_registry \<Rightarrow> reducer_registry" where
  "reducers_set_default r g = g\<lparr>rg_default := r\<rparr>"

definition reducers_register :: "string \<Rightarrow> state_reducer \<Rightarrow> reducer_registry \<Rightarrow> reducer_registry" where
  "reducers_register ty r g = g\<lparr>rg_reducers := dset ty r (rg_reducers g)\<rparr>"

definition reducers_unregister :: "string \<Rightarrow> reducer_registry \<Rightarrow> reducer_registry" where
  "reducers_unregister ty g = g\<lparr>rg_reducers := dpop ty (rg_reducers g)\<rparr>"

definition reducers_reset :: "reducer_registry \<Rightarrow> reducer_registry" where
  "reducers_reset g = new_reducer_registry"

definition reducers_apply :: "reducer_registry \<Rightarrow> state_reducer" where
  "reducers_apply g s f =
     (case rg_default g s f of
        None \<Rightarrow> None
      | Some s' \<Rightarrow>
          (case dget (rg_reducers g) (wf_payload_type f) of
             None \<Rightarrow> Some s'
           | Some r \<Rightarrow> r s' f))"

text \<open>\<open>domain_reducer\<close>: the domain's dictionary, absent or not a dictionary included.\<close>

definition domain_reducer ::
    "string \<Rightarrow> ((string, json) dict \<Rightarrow> wire_frame \<Rightarrow> (string, json) dict option) \<Rightarrow> state_reducer" where
  "domain_reducer domain apply_fn s f =
     (case json_dict (dget_or (JObj []) (vs_domains s) domain) of
        None \<Rightarrow> None
      | Some current \<Rightarrow>
          map_option (\<lambda>d. with_domain domain d s) (apply_fn current f))"

section \<open>Checkpoints and the engine cursor\<close>

record engine_checkpoint =
  ec_sequence :: int
  ec_monotonic_ns :: int
  ec_state :: virtual_state

type_synonym checkpoint_ring = "(int, engine_checkpoint) dict"

definition engine_checkpoint_of :: "virtual_state \<Rightarrow> engine_checkpoint" where
  "engine_checkpoint_of s =
     \<lparr>ec_sequence = vs_last_sequence s, ec_monotonic_ns = vs_last_monotonic_ns s, ec_state = s\<rparr>"

definition record_checkpoint :: "nat \<Rightarrow> virtual_state \<Rightarrow> checkpoint_ring \<Rightarrow> checkpoint_ring" where
  "record_checkpoint capacity s ring =
     (let cp = engine_checkpoint_of s;
          ring' = dpop (ec_sequence cp) ring @ [(ec_sequence cp, cp)]
      in drop (length ring' - capacity) ring')"

fun nearest_loop :: "int \<Rightarrow> checkpoint_ring \<Rightarrow> engine_checkpoint option \<Rightarrow> engine_checkpoint option" where
  "nearest_loop sequence [] best = best"
| "nearest_loop sequence ((seq, cp) # rest) best =
     nearest_loop sequence rest
       (if seq \<le> sequence \<and> (case best of None \<Rightarrow> True | Some b \<Rightarrow> ec_sequence b < seq)
        then Some cp else best)"

definition nearest_checkpoint :: "checkpoint_ring \<Rightarrow> int \<Rightarrow> engine_checkpoint option" where
  "nearest_checkpoint ring sequence = nearest_loop sequence ring None"

record engine_cursor =
  cu_last_sequence :: int
  cu_last_monotonic_ns :: int
  cu_frames_dispatched :: int
  cu_last_virtual_ns :: int
  cu_checkpoint_sequence :: int

definition engine_cursor_at_start :: engine_cursor where
  "engine_cursor_at_start =
     \<lparr>cu_last_sequence = 0, cu_last_monotonic_ns = 0, cu_frames_dispatched = 0,
      cu_last_virtual_ns = 0, cu_checkpoint_sequence = 0\<rparr>"

definition engine_cursor_advance :: "int \<Rightarrow> int \<Rightarrow> int \<Rightarrow> engine_cursor \<Rightarrow> engine_cursor" where
  "engine_cursor_advance sequence monotonic_ns virtual_ns c =
     c\<lparr>cu_last_sequence := sequence, cu_last_monotonic_ns := monotonic_ns,
       cu_frames_dispatched := cu_frames_dispatched c + 1, cu_last_virtual_ns := virtual_ns\<rparr>"

definition with_checkpoint :: "int \<Rightarrow> engine_cursor \<Rightarrow> engine_cursor" where
  "with_checkpoint sequence c = c\<lparr>cu_checkpoint_sequence := sequence\<rparr>"

definition jumped_to :: "int \<Rightarrow> int \<Rightarrow> int \<Rightarrow> engine_cursor \<Rightarrow> engine_cursor" where
  "jumped_to sequence monotonic_ns virtual_ns c =
     c\<lparr>cu_last_sequence := sequence, cu_last_monotonic_ns := monotonic_ns,
       cu_last_virtual_ns := virtual_ns\<rparr>"

section \<open>Integrity guards\<close>

datatype integrity_violation = Duplicate int | OutOfOrder int int | TimeRegression int int
  | StateSequenceMismatch int int

fun violation_detail :: "integrity_violation \<Rightarrow> string" where
  "violation_detail (Duplicate s) = ''sequence '' @ str_of_int s @ '' already dispatched''"
| "violation_detail (OutOfOrder s c) =
     ''sequence '' @ str_of_int s @ '' not strictly after cursor '' @ str_of_int c"
| "violation_detail (TimeRegression t c) =
     ''monotonic_ns '' @ str_of_int t @ '' regresses from cursor '' @ str_of_int c"
| "violation_detail (StateSequenceMismatch s f) =
     ''state last_sequence='' @ str_of_int s @ '' after dispatching frame seq='' @ str_of_int f"

definition check_pre_dispatch :: "wire_frame \<Rightarrow> engine_cursor \<Rightarrow> integrity_violation option" where
  "check_pre_dispatch f c =
     (if wf_sequence f = cu_last_sequence c \<and> cu_last_sequence c \<noteq> 0
      then Some (Duplicate (wf_sequence f))
      else if wf_sequence f < cu_last_sequence c
      then Some (OutOfOrder (wf_sequence f) (cu_last_sequence c))
      else if wf_monotonic_ns f < cu_last_monotonic_ns c
      then Some (TimeRegression (wf_monotonic_ns f) (cu_last_monotonic_ns c))
      else None)"

definition check_post_dispatch :: "wire_frame \<Rightarrow> virtual_state \<Rightarrow> integrity_violation option" where
  "check_post_dispatch f s =
     (if vs_last_sequence s \<noteq> wf_sequence f
      then Some (StateSequenceMismatch (vs_last_sequence s) (wf_sequence f)) else None)"

section \<open>The event router\<close>

text \<open>Topics with their subscribers; a delivery is a subscriber with the frame, in order.\<close>

type_synonym router = "(string, nat list) dict"

definition wildcard :: string where
  "wildcard = ''*''"

definition new_router :: router where
  "new_router = [(wildcard, [])]"

definition router_subscribe :: "string \<Rightarrow> nat \<Rightarrow> router \<Rightarrow> router" where
  "router_subscribe ty sub r = dset ty (dget_or [] r ty @ [sub]) r"

definition router_unsubscribe :: "string \<Rightarrow> nat \<Rightarrow> router \<Rightarrow> router" where
  "router_unsubscribe ty sub r =
     (case dget r ty of
        None \<Rightarrow> r
      | Some subs \<Rightarrow> if sub \<in> set subs then dset ty (remove1 sub subs) r else r)"

definition router_publish :: "wire_frame \<Rightarrow> router \<Rightarrow> (nat \<times> wire_frame) list" where
  "router_publish f r =
     map (\<lambda>sub. (sub, f)) (dget_or [] r wildcard @ dget_or [] r (wf_payload_type f))"

definition router_clear :: "router \<Rightarrow> router" where
  "router_clear r = new_router"

section \<open>Metrics\<close>

record engine_metrics =
  em_engines_started :: int
  em_engines_stopped :: int
  em_frames_dispatched :: int
  em_reducer_invocations :: int
  em_seeks_performed :: int
  em_pauses :: int
  em_resumes :: int
  em_speed_changes :: int
  em_checkpoints_recorded :: int
  em_snapshots_restored :: int
  em_integrity_violations :: int
  em_cumulative_lag_ns :: int
  em_max_lag_ns :: int

definition new_engine_metrics :: engine_metrics where
  "new_engine_metrics =
     \<lparr>em_engines_started = 0, em_engines_stopped = 0, em_frames_dispatched = 0,
      em_reducer_invocations = 0, em_seeks_performed = 0, em_pauses = 0, em_resumes = 0,
      em_speed_changes = 0, em_checkpoints_recorded = 0, em_snapshots_restored = 0,
      em_integrity_violations = 0, em_cumulative_lag_ns = 0, em_max_lag_ns = 0\<rparr>"

definition em_record_lag :: "int \<Rightarrow> engine_metrics \<Rightarrow> engine_metrics" where
  "em_record_lag lag_ns m =
     (if lag_ns \<le> 0 then m
      else m\<lparr>em_cumulative_lag_ns := em_cumulative_lag_ns m + lag_ns,
             em_max_lag_ns := (if em_max_lag_ns m < lag_ns then lag_ns else em_max_lag_ns m)\<rparr>)"

definition em_record_seek :: "engine_metrics \<Rightarrow> engine_metrics" where
  "em_record_seek m = m\<lparr>em_seeks_performed := em_seeks_performed m + 1\<rparr>"

definition em_record_snapshot_restored :: "engine_metrics \<Rightarrow> engine_metrics" where
  "em_record_snapshot_restored m = m\<lparr>em_snapshots_restored := em_snapshots_restored m + 1\<rparr>"

definition em_record_pause :: "engine_metrics \<Rightarrow> engine_metrics" where
  "em_record_pause m = m\<lparr>em_pauses := em_pauses m + 1\<rparr>"

definition em_record_resume :: "engine_metrics \<Rightarrow> engine_metrics" where
  "em_record_resume m = m\<lparr>em_resumes := em_resumes m + 1\<rparr>"

definition em_record_speed_change :: "engine_metrics \<Rightarrow> engine_metrics" where
  "em_record_speed_change m = m\<lparr>em_speed_changes := em_speed_changes m + 1\<rparr>"

definition em_record_checkpoint :: "engine_metrics \<Rightarrow> engine_metrics" where
  "em_record_checkpoint m = m\<lparr>em_checkpoints_recorded := em_checkpoints_recorded m + 1\<rparr>"

definition em_record_integrity_violation :: "engine_metrics \<Rightarrow> engine_metrics" where
  "em_record_integrity_violation m = m\<lparr>em_integrity_violations := em_integrity_violations m + 1\<rparr>"

definition em_record_frame_dispatched :: "engine_metrics \<Rightarrow> engine_metrics" where
  "em_record_frame_dispatched m = m\<lparr>em_frames_dispatched := em_frames_dispatched m + 1\<rparr>"

definition em_record_reducer_invocation :: "engine_metrics \<Rightarrow> engine_metrics" where
  "em_record_reducer_invocation m = m\<lparr>em_reducer_invocations := em_reducer_invocations m + 1\<rparr>"

definition em_record_engine_started :: "engine_metrics \<Rightarrow> engine_metrics" where
  "em_record_engine_started m = m\<lparr>em_engines_started := em_engines_started m + 1\<rparr>"

definition em_record_engine_stopped :: "engine_metrics \<Rightarrow> engine_metrics" where
  "em_record_engine_stopped m = m\<lparr>em_engines_stopped := em_engines_stopped m + 1\<rparr>"

section \<open>The engine\<close>

datatype playback_state = Idle | Playing | Paused | Seeking | Stopped | FailedState

record speed_change =
  sg_old_speed :: real
  sg_new_speed :: real
  sg_at_virtual_ns :: int

record engine_config =
  eg_initial_speed :: real
  eg_playback_mode :: playback_mode
  eg_checkpoint_interval_frames :: int
  eg_catch_up_threshold_seconds :: real
  eg_enforce_strict_ordering :: bool

text \<open>The recording a loader has open: its chunks, its index and its snapshot index.\<close>

record open_recording =
  or_chunks :: "chunk list"
  or_entries :: "index_entry list"
  or_snapshots :: "snapshot_entry list"

record replay_engine =
  en_recording :: open_recording
  en_clock :: replay_clock
  en_running :: bool
  en_pause_history :: "(bool \<times> int) list"
  en_speed_history :: "speed_change list"
  en_mode :: playback_mode
  en_threshold_ns :: int
  en_strict :: bool
  en_checkpoint_interval :: int
  en_reducers :: reducer_registry
  en_state :: virtual_state
  en_router :: router
  en_deliveries :: "(nat \<times> wire_frame) list"
  en_sent :: "wire_frame list"
  en_checkpoints :: checkpoint_ring
  en_cursor :: engine_cursor
  en_playback :: playback_state
  en_error :: string
  en_stop :: bool
  en_step :: bool
  en_metrics :: engine_metrics

text \<open>\<open>en_running\<close> is the pause controller's event: set while playback may go on.\<close>

definition checkpoint_capacity :: nat where
  "checkpoint_capacity = 32"

definition new_replay_engine ::
    "int \<Rightarrow> open_recording \<Rightarrow> engine_config \<Rightarrow> reducer_registry \<Rightarrow> replay_engine option" where
  "new_replay_engine wall rec cfg g =
     (if eg_checkpoint_interval_frames cfg < 1 then None
      else map_option (\<lambda>c.
        \<lparr>en_recording = rec, en_clock = c, en_running = True, en_pause_history = [],
         en_speed_history = [], en_mode = eg_playback_mode cfg,
         en_threshold_ns = catch_up_threshold_ns (eg_catch_up_threshold_seconds cfg),
         en_strict = eg_enforce_strict_ordering cfg,
         en_checkpoint_interval = eg_checkpoint_interval_frames cfg, en_reducers = g,
         en_state = vs_empty, en_router = new_router, en_deliveries = [], en_sent = [],
         en_checkpoints = [], en_cursor = engine_cursor_at_start, en_playback = Idle,
         en_error = [], en_stop = False, en_step = False, en_metrics = new_engine_metrics\<rparr>)
        (new_clock wall 0 (eg_initial_speed cfg)))"

definition count_engine :: "(engine_metrics \<Rightarrow> engine_metrics) \<Rightarrow> replay_engine \<Rightarrow> replay_engine" where
  "count_engine g e = e\<lparr>en_metrics := g (en_metrics e)\<rparr>"

definition pause_controller_pause :: "int \<Rightarrow> replay_engine \<Rightarrow> bool \<times> replay_engine" where
  "pause_controller_pause wall e =
     (if ck_paused (en_clock e) then (False, e)
      else
        let c = clock_pause wall (en_clock e) in
        (True, e\<lparr>en_clock := c, en_running := False,
                 en_pause_history := en_pause_history e @ [(True, current_virtual_ns wall c)]\<rparr>))"

text \<open>The entry of the history is read off the running clock, with a reading of its own (\<open>seen\<close>).\<close>

definition pause_controller_resume :: "int \<Rightarrow> int \<Rightarrow> replay_engine \<Rightarrow> bool \<times> replay_engine" where
  "pause_controller_resume wall seen e =
     (if \<not> ck_paused (en_clock e) then (False, e)
      else
        let c = clock_resume wall (en_clock e) in
        (True, e\<lparr>en_clock := c, en_running := True,
                 en_pause_history := en_pause_history e @ [(False, current_virtual_ns seen c)]\<rparr>))"

definition engine_pause :: "int \<Rightarrow> replay_engine \<Rightarrow> replay_engine" where
  "engine_pause wall e =
     (let (flipped, e') = pause_controller_pause wall e
      in if flipped then count_engine em_record_pause e' else e')"

definition engine_resume :: "int \<Rightarrow> int \<Rightarrow> replay_engine \<Rightarrow> replay_engine" where
  "engine_resume wall seen e =
     (let (flipped, e') = pause_controller_resume wall seen e
      in if flipped then count_engine em_record_resume e' else e')"

definition clamp_speed :: "real \<Rightarrow> real" where
  "clamp_speed speed = max (1 / 20) (min 32 speed)"

definition speed_history_capacity :: nat where
  "speed_history_capacity = 16"

definition speed_controller_set ::
  "int \<Rightarrow> int \<Rightarrow> int \<Rightarrow> real \<Rightarrow> replay_engine \<Rightarrow> replay_engine" where
  "speed_controller_set wall wall' seen speed e =
     (let clamped = clamp_speed speed; old = ck_speed (en_clock e) in
      if old = clamped then e
      else
        (case clock_set_speed wall wall' clamped (en_clock e) of
           None \<Rightarrow> e
         | Some c \<Rightarrow>
             e\<lparr>en_clock := c,
               en_speed_history := ring_push speed_history_capacity
                 \<lparr>sg_old_speed = old, sg_new_speed = clamped,
                  sg_at_virtual_ns = current_virtual_ns seen c\<rparr> (en_speed_history e)\<rparr>))"

definition engine_set_speed ::
  "int \<Rightarrow> int \<Rightarrow> int \<Rightarrow> real \<Rightarrow> replay_engine \<Rightarrow> replay_engine" where
  "engine_set_speed wall wall' seen speed e =
     count_engine em_record_speed_change (speed_controller_set wall wall' seen speed e)"

section \<open>Seeking\<close>

definition state_reducer_adapter :: "reducer_registry \<Rightarrow> dict_reducer" where
  "state_reducer_adapter g d f =
     (case (if d = [] then Some vs_empty else from_dict d) of
        None \<Rightarrow> None
      | Some s \<Rightarrow> map_option to_dict (reducers_apply g s f))"

definition restore_from_checkpoint :: "int \<Rightarrow> engine_checkpoint \<Rightarrow> replay_engine \<Rightarrow> replay_engine" where
  "restore_from_checkpoint wall cp e =
     e\<lparr>en_state := ec_state cp,
       en_cursor := jumped_to (ec_sequence cp) (ec_monotonic_ns cp) (ec_monotonic_ns cp) (en_cursor e),
       en_clock := clock_jump_to wall (ec_monotonic_ns cp) (en_clock e)\<rparr>"

text \<open>Returns the engine and whether a snapshot was used; \<open>None\<close> is an exception on the way.\<close>

definition restore_via_loader :: "int \<Rightarrow> int \<Rightarrow> replay_engine \<Rightarrow> (bool \<times> replay_engine) option" where
  "restore_via_loader wall target e =
     (let rec = en_recording e in
      case reconstruct_state target (or_entries rec) (or_snapshots rec) (or_chunks rec)
             (state_reducer_adapter (en_reducers e)) of
        None \<Rightarrow> None
      | Some r \<Rightarrow>
          (case from_dict (re_state r) of
             None \<Rightarrow> None
           | Some s \<Rightarrow>
               let s' = (case re_snapshot_used r of
                           None \<Rightarrow> s
                         | Some sn \<Rightarrow> s\<lparr>vs_last_sequence :=
                             (if vs_last_sequence s = 0 then sn_sequence_at_capture sn
                              else vs_last_sequence s)\<rparr>);
                   landed = sr_landed_frame (re_seek_result r);
                   landed_seq = (case landed of Some f \<Rightarrow> wf_sequence f | None \<Rightarrow> target);
                   landed_ns = (case landed of Some f \<Rightarrow> wf_monotonic_ns f
                                | None \<Rightarrow> vs_last_monotonic_ns s')
               in Some (re_snapshot_used r \<noteq> None,
                    e\<lparr>en_state := s',
                      en_cursor := jumped_to landed_seq landed_ns landed_ns (en_cursor e),
                      en_clock := clock_jump_to wall landed_ns (en_clock e)\<rparr>)))"

definition engine_seek :: "int \<Rightarrow> int \<Rightarrow> replay_engine \<Rightarrow> replay_engine option" where
  "engine_seek wall target e =
     (case nearest_checkpoint (en_checkpoints e) target of
        Some cp \<Rightarrow>
          if ec_sequence cp = target
          then Some (count_engine em_record_seek (restore_from_checkpoint wall cp e))
          else (case restore_via_loader wall target e of
                  None \<Rightarrow> None
                | Some (used, e') \<Rightarrow>
                    let e1 = count_engine em_record_seek e' in
                    Some (if used then count_engine em_record_snapshot_restored e1 else e1))
      | None \<Rightarrow>
          (case restore_via_loader wall target e of
             None \<Rightarrow> None
           | Some (used, e') \<Rightarrow>
               let e1 = count_engine em_record_seek e' in
               Some (if used then count_engine em_record_snapshot_restored e1 else e1)))"

definition restore_snapshot_at :: "int \<Rightarrow> replay_engine \<Rightarrow> replay_engine option" where
  "restore_snapshot_at sequence e =
     (case nearest_at_or_before (or_snapshots (en_recording e)) sequence of
        None \<Rightarrow> Some (count_engine em_record_snapshot_restored (e\<lparr>en_state := vs_empty\<rparr>))
      | Some sn \<Rightarrow>
          (case sn_payload sn of
             None \<Rightarrow> None
           | Some d \<Rightarrow>
               map_option (\<lambda>s. count_engine em_record_snapshot_restored
                   (e\<lparr>en_state := s\<lparr>vs_last_sequence := sn_sequence_at_capture sn\<rparr>\<rparr>))
                 (from_dict d)))"

section \<open>The playback loop\<close>

text \<open>
  A control comes with its wall readings in the order they are taken; a resume, a stop and a speed
  change take the last one for the history.
\<close>

datatype control =
    CPause int
  | CResume int int
  | CSpeed int int int real
  | CSeek int int
  | CStep
  | CStop int int

definition request_stop :: "int \<Rightarrow> int \<Rightarrow> replay_engine \<Rightarrow> replay_engine" where
  "request_stop wall seen e =
     (snd (pause_controller_resume wall seen (e\<lparr>en_stop := True\<rparr>)))\<lparr>en_step := True\<rparr>"

text \<open>A control that raises leaves the engine as it is (its caller gets the exception).\<close>

fun apply_control :: "control \<Rightarrow> replay_engine \<Rightarrow> replay_engine" where
  "apply_control (CPause w) e = engine_pause w e"
| "apply_control (CResume w h) e = engine_resume w h e"
| "apply_control (CSpeed w w' h s) e = engine_set_speed w w' h s e"
| "apply_control (CSeek w target) e =
     (case engine_seek w target e of None \<Rightarrow> e | Some e' \<Rightarrow> e')"
| "apply_control CStep e = e\<lparr>en_step := True\<rparr>"
| "apply_control (CStop w h) e = request_stop w h e"

text \<open>
  Waiting on an event: the controls run one after another, and the waiter goes on if the event
  was set at some point, even if it has been cleared again since.
\<close>

fun wait_event :: "(replay_engine \<Rightarrow> bool) \<Rightarrow> control list \<Rightarrow> replay_engine \<Rightarrow> bool \<times> replay_engine" where
  "wait_event is_set [] e = (is_set e, e)"
| "wait_event is_set (c # cs) e =
     (let (released, e') = wait_event is_set cs (apply_control c e)
      in (is_set e \<or> released, e'))"

record frame_env =
  env_gate :: "control list"
  env_step :: "control list"
  env_sleep :: "control list"
  env_emit :: "control list"
  env_schedule_wall :: int
  env_dispatch_wall :: int
  env_sink_fails :: bool

datatype loop_result = Continue | Break | Blocked | Raised string

definition guarded :: "integrity_violation option \<Rightarrow> replay_engine \<Rightarrow> (loop_result \<times> replay_engine) option" where
  "guarded v e =
     (case v of
        None \<Rightarrow> None
      | Some x \<Rightarrow>
          let e' = count_engine em_record_integrity_violation e
          in Some (if en_strict e then Raised (violation_detail x) else Continue, e'))"

text \<open>
  The dispatch of one frame from the cursor read before it: the state is swapped and the frame
  published at once, the sink is awaited, and only then the cursor is replaced.
\<close>

definition dispatch_frame ::
    "frame_env \<Rightarrow> wire_frame \<Rightarrow> engine_cursor \<Rightarrow> replay_engine \<Rightarrow> loop_result \<times> replay_engine" where
  "dispatch_frame env f cursor e =
     (let virtual_ns = current_virtual_ns (env_dispatch_wall env) (en_clock e) in
      case reducers_apply (en_reducers e) (en_state e) f of
        None \<Rightarrow> (Raised ''reducer'', e)
      | Some s \<Rightarrow>
          let e1 = e\<lparr>en_state := s\<rparr>;
              cur = engine_cursor_advance (wf_sequence f) (wf_monotonic_ns f) virtual_ns cursor;
              e2 = e1\<lparr>en_deliveries := en_deliveries e1 @ router_publish f (en_router e1)\<rparr>;
              e3 = fold apply_control (env_emit env) e2
          in if env_sink_fails env then (Raised ''sink'', e3)
             else
               let e4 = e3\<lparr>en_sent := en_sent e3 @ [f]\<rparr>;
                   taken = cu_frames_dispatched cur mod en_checkpoint_interval e4 = 0;
                   e5 = (if taken
                         then count_engine em_record_checkpoint
                                (e4\<lparr>en_checkpoints :=
                                      record_checkpoint checkpoint_capacity s (en_checkpoints e4)\<rparr>)
                         else e4);
                   cur' = (if taken then with_checkpoint (vs_last_sequence s) cur else cur);
                   e6 = count_engine em_record_reducer_invocation
                          (count_engine em_record_frame_dispatched (e5\<lparr>en_cursor := cur'\<rparr>))
               in (case guarded (check_post_dispatch f s) e6 of
                     None \<Rightarrow> (Continue, e6)
                   | Some r \<Rightarrow> r))"

text \<open>The wait for the frame's turn; true if playback was stopped during it.\<close>

definition await_turn :: "frame_env \<Rightarrow> wire_frame \<Rightarrow> replay_engine \<Rightarrow> bool \<times> replay_engine" where
  "await_turn env f e =
     (let sched = schedule (en_mode e) (en_threshold_ns e) (env_schedule_wall env)
                    (wf_monotonic_ns f) (en_clock e);
          e1 = (if 0 < sc_behind_by_ns sched
                then count_engine (em_record_lag (sc_behind_by_ns sched)) e else e)
      in if 0 < sc_wait_seconds sched
         then let e2 = fold apply_control (env_sleep env) e1 in (en_stop e2, e2)
         else (False, e1))"

definition loop_body ::
    "frame_env \<Rightarrow> wire_frame \<Rightarrow> replay_engine \<Rightarrow> loop_result \<times> replay_engine" where
  "loop_body env f e =
     (let (stopped, e2) = await_turn env f e in
      if stopped then (Break, e2)
      else
        let cursor = en_cursor e2 in
        case guarded (check_pre_dispatch f cursor) e2 of
          Some r \<Rightarrow> r
        | None \<Rightarrow> dispatch_frame env f cursor e2)"

definition loop_frame ::
    "frame_env \<Rightarrow> wire_frame \<Rightarrow> replay_engine \<Rightarrow> loop_result \<times> replay_engine" where
  "loop_frame env f e =
     (if en_stop e then (Break, e)
      else
        let (released, e1) = (if en_running e then (True, e)
                              else wait_event en_running (env_gate env) e) in
        if \<not> released then (Blocked, e1)
        else if en_stop e1 then (Break, e1)
        else if en_mode e1 = StepMode
        then
          let (stepped, e2) = (if en_step e1 then (True, e1)
                               else wait_event en_step (env_step env) e1) in
          if \<not> stepped then (Blocked, e2)
          else
            let e3 = e2\<lparr>en_step := False\<rparr> in
            if en_stop e3 then (Break, e3) else loop_body env f e3
        else loop_body env f e1)"

text \<open>The loop over a finite stream of frames, each with its environment.\<close>

fun run_loop :: "(frame_env \<times> wire_frame) list \<Rightarrow> replay_engine \<Rightarrow> replay_engine" where
  "run_loop [] e = e\<lparr>en_playback := Stopped\<rparr>"
| "run_loop ((env, f) # fs) e =
     (case loop_frame env f e of
        (Continue, e') \<Rightarrow> run_loop fs e'
      | (Break, e') \<Rightarrow> e'\<lparr>en_playback := Stopped\<rparr>
      | (Blocked, e') \<Rightarrow> e'
      | (Raised msg, e') \<Rightarrow> e'\<lparr>en_playback := FailedState, en_error := msg\<rparr>)"

text \<open>\<open>play\<close> on an engine whose loop is not running.\<close>

definition play :: "(frame_env \<times> wire_frame) list \<Rightarrow> replay_engine \<Rightarrow> replay_engine" where
  "play fs e =
     run_loop fs (count_engine em_record_engine_started
       (e\<lparr>en_stop := False, en_playback := Playing, en_error := []\<rparr>))"

text \<open>\<open>stop\<close> once the loop has ended.\<close>

definition finish_stop :: "replay_engine \<Rightarrow> replay_engine" where
  "finish_stop e =
     count_engine em_record_engine_stopped
       (if en_playback e = FailedState \<or> en_playback e = Stopped then e
        else e\<lparr>en_playback := Stopped\<rparr>)"

section \<open>Virtual time\<close>

definition clock_ok :: "int \<Rightarrow> replay_clock \<Rightarrow> bool" where
  "clock_ok wall c \<longleftrightarrow>
     ck_wall_anchor_ns c \<le> wall \<and> 0 < ck_speed c \<and>
     (ck_paused c \<longleftrightarrow> ck_paused_virtual_ns c \<noteq> None)"

text \<open>The position before the cut to whole nanoseconds.\<close>

definition exact_virtual :: "int \<Rightarrow> replay_clock \<Rightarrow> real" where
  "exact_virtual wall c =
     (case ck_paused_virtual_ns c of
        Some v \<Rightarrow> of_int v
      | None \<Rightarrow> of_int (ck_virtual_anchor_ns c) + of_int (wall - ck_wall_anchor_ns c) * ck_speed c)"

lemma py_int_floor: "0 \<le> r \<Longrightarrow> py_int r = \<lfloor>r\<rfloor>"
  by (simp add: py_int_def)

lemma current_virtual_eq:
  assumes "clock_ok wall c"
  shows "current_virtual_ns wall c = \<lfloor>exact_virtual wall c\<rfloor>"
proof (cases "ck_paused_virtual_ns c")
  case None
  have "0 \<le> real_of_int (wall - ck_wall_anchor_ns c) * ck_speed c"
    using assms by (simp add: clock_ok_def)
  then have "py_int (real_of_int (wall - ck_wall_anchor_ns c) * ck_speed c)
      = \<lfloor>real_of_int (wall - ck_wall_anchor_ns c) * ck_speed c\<rfloor>"
    by (rule py_int_floor)
  then show ?thesis
    using assms None by (simp add: clock_ok_def current_virtual_ns_def exact_virtual_def Let_def)
next
  case (Some v)
  then show ?thesis
    using assms by (simp add: clock_ok_def current_virtual_ns_def exact_virtual_def)
qed

lemma current_virtual_bounds:
  assumes "clock_ok wall c"
  shows "of_int (current_virtual_ns wall c) \<le> exact_virtual wall c"
    and "exact_virtual wall c < of_int (current_virtual_ns wall c) + 1"
  using assms by (simp_all add: current_virtual_eq)

lemma exact_virtual_later:
  assumes "clock_ok wall c"
  shows "exact_virtual wall' c =
    exact_virtual wall c + (if ck_paused c then 0 else of_int (wall' - wall) * ck_speed c)"
  using assms
  by (cases "ck_paused_virtual_ns c") (simp_all add: clock_ok_def exact_virtual_def algebra_simps)

lemma clock_ok_later: "clock_ok wall c \<Longrightarrow> wall \<le> wall' \<Longrightarrow> clock_ok wall' c"
  by (simp add: clock_ok_def)

text \<open>Each operation is continuous: it moves the position only by the cut to whole nanoseconds.\<close>

lemma clock_pause_ok:
  assumes "clock_ok wall c"
  shows "clock_ok wall (clock_pause wall c)" "ck_speed (clock_pause wall c) = ck_speed c"
    "ck_paused (clock_pause wall c)"
    "exact_virtual wall (clock_pause wall c) \<in> {of_int (current_virtual_ns wall c), exact_virtual wall c}"
  using assms by (auto simp: clock_pause_def clock_ok_def exact_virtual_def)

lemma clock_resume_ok:
  assumes "clock_ok wall c"
  shows "clock_ok wall (clock_resume wall c)" "ck_speed (clock_resume wall c) = ck_speed c"
    "\<not> ck_paused (clock_resume wall c)"
    "exact_virtual wall (clock_resume wall c) = exact_virtual wall c"
  using assms by (auto simp: clock_resume_def clock_ok_def exact_virtual_def)

lemma clock_set_speed_ok:
  assumes "clock_ok wall c" "wall \<le> wall'" "clock_set_speed wall wall' s c = Some c'"
  shows "clock_ok wall' c'" "ck_speed c' = s" "ck_paused c' = ck_paused c"
    "exact_virtual wall' c' = of_int (current_virtual_ns wall c)"
  using assms
  by (auto simp: clock_set_speed_def clock_ok_def exact_virtual_def Let_def split: if_splits)

section \<open>Controls and the clock\<close>

definition is_seek :: "control \<Rightarrow> bool" where
  "is_seek c \<longleftrightarrow> (case c of CSeek w t \<Rightarrow> True | _ \<Rightarrow> False)"

text \<open>The readings between which a control takes effect on the clock.\<close>

fun control_span :: "control \<Rightarrow> (int \<times> int) option" where
  "control_span (CPause w) = Some (w, w)"
| "control_span (CResume w h) = Some (w, w)"
| "control_span (CSpeed w w' h s) = Some (w, w')"
| "control_span (CSeek w t) = Some (w, w)"
| "control_span CStep = None"
| "control_span (CStop w h) = Some (w, w)"

text \<open>A speed change to the speed the clock has is no change: nothing is read.\<close>

definition keeps_speed :: "control \<Rightarrow> real \<Rightarrow> bool" where
  "keeps_speed c speed \<longleftrightarrow> (case c of CSpeed w w' h s \<Rightarrow> clamp_speed s = speed | _ \<Rightarrow> False)"

fun speed_after :: "control \<Rightarrow> real \<Rightarrow> real" where
  "speed_after (CSpeed w w' h s) speed = clamp_speed s"
| "speed_after c speed = speed"

fun paused_after :: "control \<Rightarrow> bool \<Rightarrow> bool" where
  "paused_after (CPause w) p = True"
| "paused_after (CResume w h) p = False"
| "paused_after (CStop w h) p = False"
| "paused_after c p = p"

text \<open>
  How far playback should get: wall time times speed, over the stretches it is not paused. The time
  between the two readings of a speed change is in no stretch.
\<close>

fun ideal_position :: "control list \<Rightarrow> int \<Rightarrow> int \<Rightarrow> real \<Rightarrow> bool \<Rightarrow> real" where
  "ideal_position [] until since speed paused =
     (if paused then 0 else of_int (until - since) * speed)"
| "ideal_position (c # cs) until since speed paused =
     (if keeps_speed c speed then ideal_position cs until since speed paused
      else case control_span c of
        None \<Rightarrow> ideal_position cs until since speed paused
      | Some (w, w') \<Rightarrow>
          (if paused then 0 else of_int (w - since) * speed) +
          ideal_position cs until w' (speed_after c speed) (paused_after c paused))"

fun walls_ordered :: "int \<Rightarrow> control list \<Rightarrow> int \<Rightarrow> bool" where
  "walls_ordered since [] until \<longleftrightarrow> since \<le> until"
| "walls_ordered since (c # cs) until \<longleftrightarrow>
     (case control_span c of
        None \<Rightarrow> walls_ordered since cs until
      | Some (w, w') \<Rightarrow> since \<le> w \<and> w \<le> w' \<and> walls_ordered w' cs until)"

lemma walls_ordered_earlier: "walls_ordered b cs until \<Longrightarrow> a \<le> b \<Longrightarrow> walls_ordered a cs until"
  by (induction cs arbitrary: a b) (auto split: option.splits)

lemma clamp_speed_bounds: "1 / 20 \<le> clamp_speed s \<and> clamp_speed s \<le> 32"
  by (simp add: clamp_speed_def)

lemma clamp_speed_pos: "0 < clamp_speed s"
  using clamp_speed_bounds[of s] by linarith

lemma count_engine_clock [simp]: "en_clock (count_engine g e) = en_clock e"
  by (simp add: count_engine_def)

lemma clock_set_speed_some: "0 < s \<Longrightarrow> \<exists>c'. clock_set_speed w w' s c = Some c'"
  by (simp add: clock_set_speed_def Let_def)

lemma control_clock [simp]:
  "en_clock (engine_pause w e) = clock_pause w (en_clock e)"
  "en_clock (engine_resume w h e) = clock_resume w (en_clock e)"
  "en_clock (request_stop w h e) = clock_resume w (en_clock e)"
  by (auto simp: engine_pause_def engine_resume_def pause_controller_pause_def request_stop_def
      pause_controller_resume_def clock_pause_def clock_resume_def Let_def)

lemma speed_clock [simp]:
  "en_clock (engine_set_speed w w' h s e) =
     (if ck_speed (en_clock e) = clamp_speed s then en_clock e
      else the (clock_set_speed w w' (clamp_speed s) (en_clock e)))"
  using clock_set_speed_some[OF clamp_speed_pos[of s], of w w' "en_clock e"]
  by (auto simp: engine_set_speed_def speed_controller_set_def Let_def)

lemma keeps_speed_clock: "keeps_speed c (ck_speed (en_clock e)) \<Longrightarrow> en_clock (apply_control c e) = en_clock e"
  by (cases c) (auto simp: keeps_speed_def)

lemma control_virtual:
  assumes "clock_ok w (en_clock e)" "\<not> is_seek c" "control_span c = Some (w, w')" "w \<le> w'"
    and "\<not> keeps_speed c (ck_speed (en_clock e))"
  shows "clock_ok w' (en_clock (apply_control c e)) \<and>
    ck_speed (en_clock (apply_control c e)) = speed_after c (ck_speed (en_clock e)) \<and>
    ck_paused (en_clock (apply_control c e)) = paused_after c (ck_paused (en_clock e)) \<and>
    exact_virtual w' (en_clock (apply_control c e))
      \<in> {of_int (current_virtual_ns w (en_clock e)), exact_virtual w (en_clock e)}"
proof (cases c)
  case (CSpeed v v' h s)
  obtain c' where set: "clock_set_speed w w' (clamp_speed s) (en_clock e) = Some c'"
    using clock_set_speed_some[OF clamp_speed_pos[of s]] by blast
  show ?thesis
    using assms(3,5) CSpeed set clock_set_speed_ok[OF assms(1,4) set]
    by (auto simp: keeps_speed_def)
qed (use assms clock_pause_ok[OF assms(1)] clock_resume_ok[OF assms(1)] in
    \<open>auto simp: is_seek_def\<close>)

lemma virtual_run:
  assumes "clock_ok since (en_clock e)" "walls_ordered since cs until" "\<forall>c\<in>set cs. \<not> is_seek c"
  shows "clock_ok until (en_clock (fold apply_control cs e)) \<and>
    current_virtual_ns since (en_clock e) \<le> current_virtual_ns until (en_clock (fold apply_control cs e)) \<and>
    exact_virtual since (en_clock e) +
      ideal_position cs until since (ck_speed (en_clock e)) (ck_paused (en_clock e)) - length cs
      \<le> exact_virtual until (en_clock (fold apply_control cs e)) \<and>
    exact_virtual until (en_clock (fold apply_control cs e))
      \<le> exact_virtual since (en_clock e) +
        ideal_position cs until since (ck_speed (en_clock e)) (ck_paused (en_clock e))"
  using assms
proof (induction cs arbitrary: e since)
  case Nil
  have "exact_virtual since (en_clock e) \<le> exact_virtual until (en_clock e)"
    using Nil exact_virtual_later[of since "en_clock e" until] by (simp add: clock_ok_def)
  then show ?case
    using Nil exact_virtual_later[of since "en_clock e" until] clock_ok_later[of since "en_clock e" until]
    by (simp add: current_virtual_eq floor_mono)
next
  case (Cons c cs)
  show ?case
  proof (cases "keeps_speed c (ck_speed (en_clock e)) \<or> control_span c = None")
    case True
    then have same: "en_clock (apply_control c e) = en_clock e"
      using keeps_speed_clock[of c e] by (cases c) auto
    have "walls_ordered since cs until"
      using Cons.prems(2) walls_ordered_earlier[of _ cs until since] by (auto split: option.splits)
    moreover have "ideal_position (c # cs) until since s p = ideal_position cs until since s p"
      if "s = ck_speed (en_clock e)" for s p
      using True that by auto
    ultimately show ?thesis
      using Cons.IH[of since "apply_control c e"] Cons.prems(1,3) same by simp
  next
    case False
    then obtain w w' where Some: "control_span c = Some (w, w')" by auto
    let ?c = "en_clock e" and ?e = "apply_control c e"
    have w: "since \<le> w" "w \<le> w'" "walls_ordered w' cs until" using Cons.prems(2) Some by simp_all
    have ok: "clock_ok w ?c" using clock_ok_later[OF Cons.prems(1) w(1)] .
    have "\<not> is_seek c" "\<not> keeps_speed c (ck_speed ?c)" using Cons.prems(3) False by simp_all
    note step = control_virtual[OF ok this(1) Some w(2) this(2)]
    note IH = Cons.IH[of w' ?e] 
    have later: "exact_virtual w ?c = exact_virtual since ?c +
        (if ck_paused ?c then 0 else of_int (w - since) * ck_speed ?c)"
      by (rule exact_virtual_later[OF Cons.prems(1)])
    have up: "current_virtual_ns since ?c \<le> current_virtual_ns w ?c"
      using later Cons.prems(1) w(1) ok by (simp add: current_virtual_eq floor_mono clock_ok_def)
    have "current_virtual_ns w ?c \<le> current_virtual_ns w' (en_clock ?e)"
      using step ok by (auto simp: current_virtual_eq)
    moreover have "exact_virtual w ?c - 1 \<le> exact_virtual w' (en_clock ?e)"
      "exact_virtual w' (en_clock ?e) \<le> exact_virtual w ?c"
      using step current_virtual_bounds[OF ok] by auto
    moreover have "ideal_position (c # cs) until since (ck_speed ?c) (ck_paused ?c)
        = (if ck_paused ?c then 0 else of_int (w - since) * ck_speed ?c) +
          ideal_position cs until w' (ck_speed (en_clock ?e)) (ck_paused (en_clock ?e))"
      using False Some step by simp
    ultimately show ?thesis
      using IH step w(3) Cons.prems(3) up later by (simp del: apply_control.simps ideal_position.simps)
  qed
qed

end
