(* ===== verification/PlaybackLoop.thy ===== *)
theory PlaybackLoop
  imports Playback
begin

text \<open>
  What the playback loop does under every interleaving of controls: the outcome of one frame's turn,
  runs as sequences of dispatches, the checkpoints a run leaves, runs that nothing holds up, and the
  theorems about whole playbacks. \<open>same_data\<close> is what no control but a seek touches; \<open>dispatched\<close>
  and \<open>lost_in_sink\<close> are the two ways a frame's dispatch can end.
\<close>

section \<open>What a frame's turn in the loop does\<close>

text \<open>What no control but a seek touches.\<close>

definition same_data :: "replay_engine \<Rightarrow> replay_engine \<Rightarrow> bool" where
  "same_data e e' \<longleftrightarrow>
     en_state e' = en_state e \<and> en_cursor e' = en_cursor e \<and> en_sent e' = en_sent e \<and>
     en_deliveries e' = en_deliveries e \<and> en_checkpoints e' = en_checkpoints e \<and>
     en_reducers e' = en_reducers e \<and> en_router e' = en_router e \<and> en_strict e' = en_strict e \<and>
     en_checkpoint_interval e' = en_checkpoint_interval e \<and> en_mode e' = en_mode e \<and>
     en_recording e' = en_recording e \<and>
     em_integrity_violations (en_metrics e') = em_integrity_violations (en_metrics e)"

lemma same_data_refl [simp]: "same_data e e"
  by (simp add: same_data_def)

lemma same_data_trans: "same_data a b \<Longrightarrow> same_data b c \<Longrightarrow> same_data a c"
  by (simp add: same_data_def)

lemmas metrics_defs =
  em_record_lag_def em_record_seek_def em_record_snapshot_restored_def em_record_pause_def
  em_record_resume_def em_record_speed_change_def em_record_checkpoint_def
  em_record_integrity_violation_def em_record_frame_dispatched_def
  em_record_reducer_invocation_def em_record_engine_started_def em_record_engine_stopped_def

lemma control_same_data: "\<not> is_seek c \<Longrightarrow> same_data e (apply_control c e)"
  by (cases c)
    (auto simp: is_seek_def same_data_def engine_pause_def engine_resume_def request_stop_def
      pause_controller_pause_def pause_controller_resume_def engine_set_speed_def
      speed_controller_set_def count_engine_def metrics_defs Let_def split: option.split)

lemma fold_same_data:
  "\<forall>c\<in>set cs. \<not> is_seek c \<Longrightarrow> same_data e (fold apply_control cs e)"
proof (induction cs arbitrary: e)
  case (Cons c cs)
  then show ?case
    using control_same_data[of c e] same_data_trans[of e "apply_control c e"] by simp
qed simp

lemma wait_event_fold: "snd (wait_event P cs e) = fold apply_control cs e"
  by (induction cs arbitrary: e) (simp_all add: split_beta)

definition env_controls :: "frame_env \<Rightarrow> control list" where
  "env_controls env = env_gate env @ env_step env @ env_sleep env @ env_emit env"

definition no_seek :: "frame_env \<Rightarrow> bool" where
  "no_seek env \<longleftrightarrow> (\<forall>c\<in>set (env_controls env). \<not> is_seek c)"

text \<open>Reducers that, like the default one, leave the frame's position in the state.\<close>

definition reducers_sound :: "reducer_registry \<Rightarrow> bool" where
  "reducers_sound g \<longleftrightarrow>
     (\<forall>s f s'. reducers_apply g s f = Some s' \<longrightarrow>
        vs_last_sequence s' = wf_sequence f \<and> vs_last_monotonic_ns s' = wf_monotonic_ns f)"

text \<open>The frame's dispatch: the engine after it, the frame, the state it leaves.\<close>

definition dispatched :: "replay_engine \<Rightarrow> wire_frame \<Rightarrow> virtual_state \<Rightarrow> replay_engine \<Rightarrow> bool" where
  "dispatched e f s e' \<longleftrightarrow>
     en_state e' = s \<and> en_sent e' = en_sent e @ [f] \<and>
     en_deliveries e' = en_deliveries e @ router_publish f (en_router e) \<and>
     en_checkpoints e' =
       (if (cu_frames_dispatched (en_cursor e) + 1) mod en_checkpoint_interval e = 0
        then record_checkpoint checkpoint_capacity s (en_checkpoints e) else en_checkpoints e) \<and>
     cu_last_sequence (en_cursor e') = wf_sequence f \<and>
     cu_last_monotonic_ns (en_cursor e') = wf_monotonic_ns f \<and>
     cu_frames_dispatched (en_cursor e') = cu_frames_dispatched (en_cursor e) + 1 \<and>
     en_reducers e' = en_reducers e \<and> en_router e' = en_router e \<and> en_strict e' = en_strict e \<and>
     en_checkpoint_interval e' = en_checkpoint_interval e \<and> en_mode e' = en_mode e \<and>
     en_recording e' = en_recording e \<and>
     em_integrity_violations (en_metrics e') = em_integrity_violations (en_metrics e)"

text \<open>A frame reduced and published whose push to the sink failed.\<close>

definition lost_in_sink :: "replay_engine \<Rightarrow> wire_frame \<Rightarrow> virtual_state \<Rightarrow> replay_engine \<Rightarrow> bool" where
  "lost_in_sink e f s e' \<longleftrightarrow>
     en_state e' = s \<and> en_sent e' = en_sent e \<and>
     en_deliveries e' = en_deliveries e @ router_publish f (en_router e) \<and>
     en_checkpoints e' = en_checkpoints e \<and> en_cursor e' = en_cursor e \<and>
     em_integrity_violations (en_metrics e') = em_integrity_violations (en_metrics e)"

lemma dispatch_frame_outcome:
  assumes "\<forall>c\<in>set (env_emit env). \<not> is_seek c" "reducers_sound (en_reducers e)"
    and "dispatch_frame env f (en_cursor e) e = (r, e')"
  shows "case reducers_apply (en_reducers e) (en_state e) f of
      None \<Rightarrow> r = Raised ''reducer'' \<and> same_data e e'
    | Some s \<Rightarrow> if env_sink_fails env then r = Raised ''sink'' \<and> lost_in_sink e f s e'
                else r = Continue \<and> dispatched e f s e'"
proof (cases "reducers_apply (en_reducers e) (en_state e) f")
  case None
  then show ?thesis using assms(3) by (auto simp: dispatch_frame_def)
next
  case (Some s)
  have last: "vs_last_sequence s = wf_sequence f"
    using assms(2) Some by (auto simp: reducers_sound_def)
  let ?e2 = "e\<lparr>en_state := s, en_deliveries := en_deliveries e @ router_publish f (en_router e)\<rparr>"
  let ?e3 = "fold apply_control (env_emit env) ?e2"
  have same: "same_data ?e2 ?e3" by (rule fold_same_data[OF assms(1)])
  then have eqs: "en_checkpoint_interval ?e3 = en_checkpoint_interval e"
    by (simp add: same_data_def)
  show ?thesis
  proof (cases "env_sink_fails env")
    case True
    then have "r = Raised ''sink''" "e' = ?e3"
      using assms(3) Some by (simp_all add: dispatch_frame_def Let_def)
    then show ?thesis using Some True same by (simp add: same_data_def lost_in_sink_def)
  next
    case False
    have "r = Continue"
      using assms(3) Some False last
      by (simp add: dispatch_frame_def Let_def guarded_def check_post_dispatch_def split: if_splits)
    moreover have "dispatched e f s e'"
      using assms(3) Some False last same eqs
      by (auto simp: dispatch_frame_def Let_def guarded_def check_post_dispatch_def same_data_def
          dispatched_def count_engine_def metrics_defs engine_cursor_advance_def with_checkpoint_def)
    ultimately show ?thesis using Some False by simp
  qed
qed

lemma await_turn_same:
  assumes "\<forall>c\<in>set (env_sleep env). \<not> is_seek c"
  shows "same_data e (snd (await_turn env f e))"
proof -
  have lag: "same_data e (count_engine (em_record_lag n) e)" for n
    by (simp add: same_data_def count_engine_def em_record_lag_def)
  show ?thesis
    using fold_same_data[OF assms] same_data_trans[OF lag fold_same_data[OF assms]] lag
    by (auto simp: await_turn_def Let_def)
qed

lemma loop_body_outcome:
  assumes "no_seek env" "reducers_sound (en_reducers e)" "check_pre_dispatch f (en_cursor e) = None"
    and "loop_body env f e = (r, e')"
  shows "r = Break \<and> same_data e e' \<or>
    r = Raised ''reducer'' \<and> same_data e e' \<and> reducers_apply (en_reducers e) (en_state e) f = None \<or>
    (\<exists>s. reducers_apply (en_reducers e) (en_state e) f = Some s \<and>
      (r = Raised ''sink'' \<and> env_sink_fails env \<and> lost_in_sink e f s e' \<or>
       r = Continue \<and> \<not> env_sink_fails env \<and> dispatched e f s e'))"
proof -
  obtain stopped e2 where turn: "await_turn env f e = (stopped, e2)" by fastforce
  have same: "same_data e e2"
    using await_turn_same[of env e f] assms(1) turn by (simp add: no_seek_def env_controls_def)
  then have eqs: "en_cursor e2 = en_cursor e" "en_reducers e2 = en_reducers e" "en_state e2 = en_state e"
    by (simp_all add: same_data_def)
  show ?thesis
  proof (cases stopped)
    case True
    then show ?thesis using assms(4) turn same by (simp add: loop_body_def)
  next
    case False
    then have run: "dispatch_frame env f (en_cursor e2) e2 = (r, e')"
      using assms(3,4) eqs(1) turn by (simp add: loop_body_def guarded_def)
    have "\<forall>c\<in>set (env_emit env). \<not> is_seek c"
      using assms(1) by (simp add: no_seek_def env_controls_def)
    note out = dispatch_frame_outcome[OF this _ run]
    have "dispatched e2 f s e' \<Longrightarrow> dispatched e f s e'" for s
      using same by (simp add: same_data_def dispatched_def)
    moreover have "lost_in_sink e2 f s e' \<Longrightarrow> lost_in_sink e f s e'" for s
      using same by (simp add: same_data_def lost_in_sink_def)
    ultimately show ?thesis
      using out same_data_trans[OF same] assms(2) eqs
      by (cases "reducers_apply (en_reducers e) (en_state e) f") (auto split: if_splits)
  qed
qed

lemma loop_frame_outcome:
  assumes "no_seek env" "reducers_sound (en_reducers e)" "check_pre_dispatch f (en_cursor e) = None"
    and "loop_frame env f e = (r, e')"
  shows "(r = Break \<or> r = Blocked) \<and> same_data e e' \<or>
    r = Raised ''reducer'' \<and> same_data e e' \<and> reducers_apply (en_reducers e) (en_state e) f = None \<or>
    (\<exists>s. reducers_apply (en_reducers e) (en_state e) f = Some s \<and>
      (r = Raised ''sink'' \<and> env_sink_fails env \<and> lost_in_sink e f s e' \<or>
       r = Continue \<and> \<not> env_sink_fails env \<and> dispatched e f s e'))"
proof -
  have body: ?thesis if same: "same_data e e1" and run: "loop_body env f e1 = (r, e')" for e1
  proof -
    have "reducers_sound (en_reducers e1)" "check_pre_dispatch f (en_cursor e1) = None"
      using assms(2,3) same by (simp_all add: same_data_def)
    note out = loop_body_outcome[OF assms(1) this run]
    have "dispatched e1 f s e' \<Longrightarrow> dispatched e f s e'" for s
      using same by (simp add: same_data_def dispatched_def)
    moreover have "lost_in_sink e1 f s e' \<Longrightarrow> lost_in_sink e f s e'" for s
      using same by (simp add: same_data_def lost_in_sink_def)
    moreover have "reducers_apply (en_reducers e1) (en_state e1) f = reducers_apply (en_reducers e) (en_state e) f"
      using same by (simp add: same_data_def)
    ultimately show ?thesis using out same_data_trans[OF same] by auto
  qed
  obtain rel e1 where gate: "(if en_running e then (True, e) else wait_event en_running (env_gate env) e) = (rel, e1)"
    by fastforce
  have "\<forall>c\<in>set (env_gate env). \<not> is_seek c" "\<forall>c\<in>set (env_step env). \<not> is_seek c"
    using assms(1) by (simp_all add: no_seek_def env_controls_def)
  then have waits: "same_data x (snd (wait_event P (env_gate env) x))"
    "same_data x (snd (wait_event P (env_step env) x))" for P x
    by (simp_all add: wait_event_fold fold_same_data)
  have same1: "same_data e e1"
    using gate waits(1)[of e en_running] by (auto split: if_splits)
  obtain stp e2 where step: "(if en_step e1 then (True, e1) else wait_event en_step (env_step env) e1) = (stp, e2)"
    by fastforce
  have "same_data e1 e2"
    using step waits(2)[of e1 en_step] by (auto split: if_splits)
  then have same2: "same_data e e2" "same_data e (e2\<lparr>en_step := False\<rparr>)"
    using same_data_trans[OF same1] by (simp_all add: same_data_def)
  show ?thesis
    using assms(4) body[of e1] body[of "e2\<lparr>en_step := False\<rparr>"] same1 same2
    unfolding loop_frame_def gate Let_def prod.case step
    by (auto split: if_splits)
qed

section \<open>What a playback does\<close>

fun run_reducers :: "reducer_registry \<Rightarrow> wire_frame list \<Rightarrow> virtual_state \<Rightarrow> virtual_state option" where
  "run_reducers g [] s = Some s"
| "run_reducers g (f # fs) s =
     (case reducers_apply g s f of None \<Rightarrow> None | Some s' \<Rightarrow> run_reducers g fs s')"

lemma run_reducers_append:
  "run_reducers g (fs @ gs) s =
     (case run_reducers g fs s of None \<Rightarrow> None | Some s' \<Rightarrow> run_reducers g gs s')"
  by (induction fs arbitrary: s) (auto split: option.split)

definition stream_after :: "engine_cursor \<Rightarrow> wire_frame list \<Rightarrow> bool" where
  "stream_after c fs \<longleftrightarrow>
     sorted_wrt (<) (map wf_sequence fs) \<and> sorted (map wf_monotonic_ns fs) \<and>
     (\<forall>f\<in>set fs. cu_last_sequence c < wf_sequence f \<and> cu_last_monotonic_ns c \<le> wf_monotonic_ns f)"

text \<open>A sequence of dispatches, one frame after another.\<close>

inductive steps :: "replay_engine \<Rightarrow> wire_frame list \<Rightarrow> replay_engine \<Rightarrow> bool" where
  steps_none: "steps e [] e"
| steps_more: "steps e1 (f # fs) e3"
  if "reducers_apply (en_reducers e1) (en_state e1) f = Some s" "dispatched e1 f s e2"
    "steps e2 fs e3"

text \<open>How a run of the loop ends: between two frames, or with a frame lost in the sink.\<close>

definition run_ends :: "replay_engine \<Rightarrow> wire_frame list \<Rightarrow> replay_engine \<Rightarrow> bool" where
  "run_ends e rest e' \<longleftrightarrow>
     same_data e e' \<or>
     (\<exists>f fs s. rest = f # fs \<and> reducers_apply (en_reducers e) (en_state e) f = Some s \<and>
        lost_in_sink e f s e' \<and> en_playback e' = FailedState \<and> en_error e' = ''sink'')"

lemma stream_after_check:
  "stream_after c (f # fs) \<Longrightarrow> check_pre_dispatch f c = None"
  by (auto simp: stream_after_def check_pre_dispatch_def)

lemma stream_after_next:
  assumes "stream_after (en_cursor e) (f # fs)" "dispatched e f s e'"
  shows "stream_after (en_cursor e') fs"
  using assms by (simp add: stream_after_def dispatched_def)

lemma run_loop_shape:
  assumes "stream_after (en_cursor e) (map snd fs)" "reducers_sound (en_reducers e)"
    and "\<forall>x\<in>set fs. no_seek (fst x)"
  shows "\<exists>k e1. k \<le> length fs \<and> steps e (map snd (take k fs)) e1 \<and>
    run_ends e1 (map snd (drop k fs)) (run_loop fs e)"
  using assms
proof (induction fs arbitrary: e)
  case Nil
  have "run_ends e [] (e\<lparr>en_playback := Stopped\<rparr>)" by (simp add: run_ends_def same_data_def)
  then show ?case using steps_none[of e] by auto
next
  case (Cons x fs)
  obtain env f where x: "x = (env, f)" by fastforce
  obtain r e1 where frame: "loop_frame env f e = (r, e1)" by fastforce
  have "no_seek env" using Cons.prems(3) x by simp
  moreover have "check_pre_dispatch f (en_cursor e) = None"
    using Cons.prems(1) x stream_after_check by simp
  ultimately consider "r = Break \<or> r = Blocked \<or> r = Raised ''reducer''" "same_data e e1"
    | s where "reducers_apply (en_reducers e) (en_state e) f = Some s" "r = Raised ''sink''" "lost_in_sink e f s e1"
    | s where "reducers_apply (en_reducers e) (en_state e) f = Some s" "r = Continue" "dispatched e f s e1"
    using loop_frame_outcome[OF _ Cons.prems(2) _ frame] by blast
  then show ?case
  proof cases
    case 1
    then have "same_data e (run_loop (x # fs) e)"
      using frame x by (auto simp: same_data_def)
    then have "run_ends e (map snd (drop 0 (x # fs))) (run_loop (x # fs) e)" by (simp add: run_ends_def)
    then show ?thesis using steps_none[of e] by fastforce
  next
    case (2 s)
    then have "lost_in_sink e f s (run_loop (x # fs) e)"
      using frame x by (auto simp: lost_in_sink_def)
    then have "run_ends e (map snd (drop 0 (x # fs))) (run_loop (x # fs) e)"
      using 2 frame x by (simp add: run_ends_def)
    then show ?thesis using steps_none[of e] by fastforce
  next
    case (3 s)
    then have run: "run_loop (x # fs) e = run_loop fs e1" using frame x by simp
    have "stream_after (en_cursor e) (f # map snd fs)" using Cons.prems(1) x by simp
    from stream_after_next[OF this 3(3)] Cons.IH[of e1] Cons.prems(2,3) 3(3)
    obtain k e2 where "k \<le> length fs" "steps e1 (map snd (take k fs)) e2"
      "run_ends e2 (map snd (drop k fs)) (run_loop fs e1)"
      by (auto simp: dispatched_def)
    then show ?thesis
      using steps_more[OF 3(1,3)] run x by (intro exI[of _ "Suc k"] exI[of _ e2]) simp
  qed
qed

text \<open>What a sequence of dispatches adds up to.\<close>

lemma steps_sum:
  assumes "steps e fs e'"
  shows "en_sent e' = en_sent e @ fs \<and>
    run_reducers (en_reducers e) fs (en_state e) = Some (en_state e') \<and>
    en_deliveries e' = en_deliveries e @ concat (map (\<lambda>f. router_publish f (en_router e)) fs) \<and>
    cu_last_sequence (en_cursor e') = last (cu_last_sequence (en_cursor e) # map wf_sequence fs) \<and>
    cu_frames_dispatched (en_cursor e') = cu_frames_dispatched (en_cursor e) + int (length fs) \<and>
    em_integrity_violations (en_metrics e') = em_integrity_violations (en_metrics e) \<and>
    en_reducers e' = en_reducers e \<and> en_router e' = en_router e"
  using assms
proof (induction rule: steps.induct)
  case (steps_more e1 f s e2 fs e3)
  then show ?case by (simp add: dispatched_def)
qed simp

section \<open>Checkpoints\<close>

definition ring_ok :: "reducer_registry \<Rightarrow> wire_frame list \<Rightarrow> checkpoint_ring \<Rightarrow> bool" where
  "ring_ok g fs ring \<longleftrightarrow>
     distinct (dkeys ring) \<and> length ring \<le> checkpoint_capacity \<and>
     (\<forall>(q, cp)\<in>set ring. ec_sequence cp = q \<and>
        (\<exists>f\<in>set fs. wf_sequence f = q \<and> wf_monotonic_ns f = ec_monotonic_ns cp) \<and>
        run_reducers g (filter (\<lambda>f. wf_sequence f \<le> q) fs) vs_empty = Some (ec_state cp))"

lemma ring_ok_later:
  assumes "ring_ok g fs ring" "\<forall>x\<in>set fs. wf_sequence x < wf_sequence f"
  shows "ring_ok g (fs @ [f]) ring"
proof -
  have "filter (\<lambda>x. wf_sequence x \<le> q) (fs @ [f]) = filter (\<lambda>x. wf_sequence x \<le> q) fs"
    if "(q, cp) \<in> set ring" for q cp
    using assms that by (fastforce simp: ring_ok_def)
  then show ?thesis using assms(1) unfolding ring_ok_def by fastforce
qed

lemma distinct_dkeys_drop: "distinct (dkeys d) \<Longrightarrow> distinct (dkeys (drop n d))"
  by (metis distinct_drop drop_map)

lemma record_checkpoint_parts:
  assumes "distinct (dkeys ring)"
  shows "distinct (dkeys (record_checkpoint n s ring))"
    and "length (record_checkpoint n s ring) \<le> n"
    and "x \<in> set (record_checkpoint n s ring) \<Longrightarrow>
      x = (vs_last_sequence s, engine_checkpoint_of s) \<or> x \<in> set ring"
proof -
  let ?q = "vs_last_sequence s"
  let ?ring = "dpop ?q ring @ [(?q, engine_checkpoint_of s)]"
  have rec: "record_checkpoint n s ring = drop (length ?ring - n) ?ring"
    by (simp add: record_checkpoint_def engine_checkpoint_of_def Let_def)
  have "?q \<notin> set (dkeys (dpop ?q ring))" by (simp del: set_map)
  then have "distinct (dkeys ?ring)" using distinct_dpop[OF assms, of ?q] by simp
  then show "distinct (dkeys (record_checkpoint n s ring))"
    unfolding rec by (rule distinct_dkeys_drop)
  show "length (record_checkpoint n s ring) \<le> n" unfolding rec by (simp only: length_drop)
  assume "x \<in> set (record_checkpoint n s ring)"
  then have "x \<in> set ?ring" unfolding rec by (rule in_set_dropD)
  then show "x = (?q, engine_checkpoint_of s) \<or> x \<in> set ring"
    by (auto simp: AList.delete_eq)
qed

lemma record_checkpoint_ring:
  assumes "ring_ok g fs ring" "vs_last_sequence s = wf_sequence f" "vs_last_monotonic_ns s = wf_monotonic_ns f"
    and "f \<in> set fs" "\<forall>x\<in>set fs. wf_sequence x \<le> wf_sequence f" "run_reducers g fs vs_empty = Some s"
  shows "ring_ok g fs (record_checkpoint checkpoint_capacity s ring)"
proof -
  have old: "distinct (dkeys ring)" using assms(1) by (simp add: ring_ok_def)
  let ?ok = "\<lambda>(q, cp). ec_sequence cp = q \<and>
        (\<exists>f\<in>set fs. wf_sequence f = q \<and> wf_monotonic_ns f = ec_monotonic_ns cp) \<and>
        run_reducers g (filter (\<lambda>f. wf_sequence f \<le> q) fs) vs_empty = Some (ec_state cp)"
  have "?ok (vs_last_sequence s, engine_checkpoint_of s)"
    using assms(2-6) by (auto simp: engine_checkpoint_of_def)
  moreover have "\<forall>x\<in>set ring. ?ok x" using assms(1) by (simp add: ring_ok_def)
  ultimately have "\<forall>x\<in>set (record_checkpoint checkpoint_capacity s ring). ?ok x"
    using record_checkpoint_parts(3)[OF old] by blast
  then show ?thesis
    using record_checkpoint_parts(1,2)[OF old] by (simp add: ring_ok_def)
qed

lemma steps_ring:
  assumes "steps e fs e'" "reducers_sound (en_reducers e)"
    and "ring_ok (en_reducers e) past (en_checkpoints e)"
    and "run_reducers (en_reducers e) past vs_empty = Some (en_state e)"
    and "sorted_wrt (<) (map wf_sequence (past @ fs))"
  shows "ring_ok (en_reducers e) (past @ fs) (en_checkpoints e')"
  using assms
proof (induction arbitrary: past rule: steps.induct)
  case (steps_more e1 f s e2 fs e3)
  have before: "\<forall>x\<in>set past. wf_sequence x < wf_sequence f"
    using steps_more.prems(4) by (simp add: sorted_wrt_append)
  have state: "run_reducers (en_reducers e1) (past @ [f]) vs_empty = Some s"
    using steps_more.prems(3) steps_more.hyps(1) by (simp add: run_reducers_append)
  have keep: "ring_ok (en_reducers e1) (past @ [f]) (en_checkpoints e1)"
    by (rule ring_ok_later[OF steps_more.prems(2) before])
  have "vs_last_sequence s = wf_sequence f" "vs_last_monotonic_ns s = wf_monotonic_ns f"
    using steps_more.prems(1) steps_more.hyps(1) by (auto simp: reducers_sound_def)
  from record_checkpoint_ring[OF keep this _ _ state] before
  have "ring_ok (en_reducers e1) (past @ [f]) (en_checkpoints e2)"
    using keep steps_more.hyps(2) by (simp add: dispatched_def less_imp_le)
  then show ?case
    using steps_more.IH[of "past @ [f]"] steps_more.prems(1,4) steps_more.hyps(2) state
    by (simp add: dispatched_def)
qed simp

lemma nearest_keeps:
  "nearest_loop q ring (Some b) = Some b"
  if "ec_sequence b = q"
  using that by (induction ring) auto

lemma nearest_exact:
  assumes "\<forall>(q, cp)\<in>set ring. ec_sequence cp = q" "distinct (dkeys ring)" "(q, cp) \<in> set ring"
    and "case best of None \<Rightarrow> True | Some b \<Rightarrow> ec_sequence b < q"
  shows "nearest_loop q ring best = Some cp"
  using assms
proof (induction ring arbitrary: best)
  case (Cons x ring)
  obtain p c where x: "x = (p, c)" by fastforce
  show ?case
  proof (cases "p = q")
    case True
    then have "c = cp" using Cons.prems(2,3) x by force
    then show ?thesis using True x Cons.prems(1,4) nearest_keeps[of cp q ring] by auto
  next
    case False
    then show ?thesis using Cons x by (auto split: option.splits)
  qed
qed simp

section \<open>Runs nothing holds up\<close>

definition ready :: "replay_engine \<Rightarrow> bool" where
  "ready e \<longleftrightarrow> en_running e \<and> \<not> ck_paused (en_clock e) \<and> \<not> en_stop e"

fun harmless :: "control \<Rightarrow> bool" where
  "harmless (CResume w h) = True"
| "harmless (CSpeed w w' h s) = True"
| "harmless CStep = True"
| "harmless c = False"

text \<open>Nothing keeps the frame from its turn, and in step mode a step is given.\<close>

definition gets_turn :: "playback_mode \<Rightarrow> frame_env \<Rightarrow> bool" where
  "gets_turn mode env \<longleftrightarrow>
     list_all harmless (env_gate env) \<and> list_all harmless (env_step env) \<and>
     list_all harmless (env_sleep env) \<and> (mode = StepMode \<longrightarrow> CStep \<in> set (env_step env))"

text \<open>Nor does anything interfere with its push, which succeeds.\<close>

definition unobstructed :: "playback_mode \<Rightarrow> frame_env \<Rightarrow> bool" where
  "unobstructed mode env \<longleftrightarrow>
     gets_turn mode env \<and> list_all harmless (env_emit env) \<and> \<not> env_sink_fails env"

lemma harmless_not_seek: "harmless c \<Longrightarrow> \<not> is_seek c"
  by (cases c) (simp_all add: is_seek_def)

lemma unobstructed_no_seek: "unobstructed mode env \<Longrightarrow> no_seek env"
  by (auto simp: unobstructed_def gets_turn_def no_seek_def env_controls_def list_all_iff
      dest: harmless_not_seek)

lemma harmless_same_data: "list_all harmless cs \<Longrightarrow> same_data e (fold apply_control cs e)"
  by (intro fold_same_data) (auto simp: list_all_iff dest: harmless_not_seek)

lemma set_speed_paused:
  assumes "clock_set_speed w w' s c = Some c'"
  shows "ck_paused c' = ck_paused c"
  using assms by (auto simp: clock_set_speed_def Let_def split: if_splits)

lemma harmless_ready: "harmless c \<Longrightarrow> ready e \<Longrightarrow> ready (apply_control c e)"
  by (cases c)
    (auto simp: ready_def engine_resume_def pause_controller_resume_def engine_set_speed_def
      speed_controller_set_def count_engine_def Let_def set_speed_paused split: option.split)

lemma harmless_ready_fold:
  "list_all harmless cs \<Longrightarrow> ready e \<Longrightarrow> ready (fold apply_control cs e)"
  by (induction cs arbitrary: e) (auto intro: harmless_ready)

lemma ready_cong:
  "en_running e' = en_running e \<Longrightarrow> en_clock e' = en_clock e \<Longrightarrow> en_stop e' = en_stop e \<Longrightarrow>
   ready e' = ready e"
  by (simp add: ready_def)

lemma wait_event_set: "P e \<Longrightarrow> fst (wait_event P cs e)"
  by (cases cs) (simp_all add: split_beta)

lemma wait_event_step: "CStep \<in> set cs \<Longrightarrow> fst (wait_event en_step cs e)"
  by (induction cs arbitrary: e) (auto simp: split_beta intro: wait_event_set)

lemma dispatch_frame_ready:
  assumes "list_all harmless (env_emit env)" "ready e"
  shows "ready (snd (dispatch_frame env f cursor e))"
proof (cases "reducers_apply (en_reducers e) (en_state e) f")
  case (Some s)
  let ?e2 = "e\<lparr>en_state := s, en_deliveries := en_deliveries e @ router_publish f (en_router e)\<rparr>"
  have "ready ?e2" using assms(2) by (simp add: ready_def)
  then have "ready (fold apply_control (env_emit env) ?e2)"
    by (rule harmless_ready_fold[OF assms(1)])
  then show ?thesis
    using Some
    by (simp add: dispatch_frame_def Let_def ready_def count_engine_def guarded_def split: option.split)
qed (use assms(2) in \<open>simp add: dispatch_frame_def\<close>)

lemma turn_reached:
  assumes "list_all harmless (env_sleep env)" "ready e"
  shows "\<exists>e2. await_turn env f e = (False, e2) \<and> same_data e e2 \<and> ready e2"
proof -
  have sleep: "same_data e (fold apply_control (env_sleep env) x) \<and>
      ready (fold apply_control (env_sleep env) x)" if "same_data e x" "ready x" for x
    using that same_data_trans[OF that(1) harmless_same_data[OF assms(1)]]
      harmless_ready_fold[OF assms(1)] by blast
  have lag: "same_data e (count_engine (em_record_lag n) e)" "ready (count_engine (em_record_lag n) e)" for n
    using assms(2) by (simp_all add: same_data_def ready_def count_engine_def em_record_lag_def)
  have stop: "ready x \<Longrightarrow> \<not> en_stop x" for x by (simp add: ready_def)
  show ?thesis
    using sleep[of e] sleep[OF lag] lag assms(2) stop unfolding await_turn_def Let_def by simp
qed

lemma frame_reached:
  assumes "gets_turn (en_mode e) env" "ready e"
  shows "\<exists>e2. same_data e e2 \<and> ready e2 \<and> loop_frame env f e =
    (case guarded (check_pre_dispatch f (en_cursor e)) e2 of
       Some r \<Rightarrow> r | None \<Rightarrow> dispatch_frame env f (en_cursor e) e2)"
proof -
  have h: "list_all harmless (env_step env)" "list_all harmless (env_sleep env)"
    using assms(1) by (simp_all add: gets_turn_def)
  have "\<exists>e1. same_data e e1 \<and> ready e1 \<and> loop_frame env f e = loop_body env f e1"
  proof (cases "en_mode e = StepMode")
    case True
    let ?w = "if en_step e then (True, e) else wait_event en_step (env_step env) e"
    let ?e3 = "(snd ?w)\<lparr>en_step := False\<rparr>"
    have "fst ?w" using wait_event_step[of "env_step env" e] assms(1) True by (simp add: gets_turn_def)
    moreover have r3: "ready ?e3"
      using harmless_ready_fold[OF h(1) assms(2)] assms(2) by (auto simp: wait_event_fold ready_def)
    ultimately have "loop_frame env f e = loop_body env f ?e3"
      using assms(2) True unfolding ready_def loop_frame_def by (auto simp: split_beta Let_def)
    moreover have "same_data e ?e3"
      using harmless_same_data[OF h(1), of e] by (auto simp: wait_event_fold same_data_def)
    ultimately show ?thesis using r3 by blast
  next
    case False
    then have "loop_frame env f e = loop_body env f e"
      using assms(2) by (simp add: loop_frame_def ready_def)
    then show ?thesis using assms(2) by (intro exI[of _ e]) simp
  qed
  then obtain e1 where e1: "same_data e e1" "ready e1" "loop_frame env f e = loop_body env f e1" by blast
  obtain e2 where e2: "await_turn env f e1 = (False, e2)" "same_data e1 e2" "ready e2"
    using turn_reached[OF h(2) e1(2)] by blast
  have "en_cursor e2 = en_cursor e" using e1(1) e2(2) by (simp add: same_data_def)
  then show ?thesis
    using e1 e2 same_data_trans[OF e1(1) e2(2)]
    by (intro exI[of _ e2]) (simp add: loop_body_def Let_def split: option.split)
qed

lemma loop_frame_ready:
  assumes "unobstructed (en_mode e) env" "ready e" "reducers_sound (en_reducers e)"
    and "check_pre_dispatch f (en_cursor e) = None"
    and "reducers_apply (en_reducers e) (en_state e) f = Some s"
  shows "fst (loop_frame env f e) = Continue \<and> ready (snd (loop_frame env f e))"
proof -
  have h: "list_all harmless (env_emit env)" "gets_turn (en_mode e) env" "\<not> env_sink_fails env"
    using assms(1) by (simp_all add: unobstructed_def)
  obtain e2 where e2: "same_data e e2" "ready e2" "loop_frame env f e = dispatch_frame env f (en_cursor e2) e2"
    using frame_reached[OF h(2) assms(2), of f] assms(4) by (auto simp: guarded_def same_data_def)
  have "fst (dispatch_frame env f (en_cursor e2) e2) = Continue"
    using dispatch_frame_outcome[of env e2 f "fst (dispatch_frame env f (en_cursor e2) e2)"
        "snd (dispatch_frame env f (en_cursor e2) e2)"] h(1,3) e2(1) assms(3,5)
    by (simp add: same_data_def list_all_iff harmless_not_seek)
  then show ?thesis using dispatch_frame_ready[OF h(1) e2(2)] e2(3) by simp
qed

lemma run_loop_completes:
  assumes "stream_after (en_cursor e) (map snd fs)" "reducers_sound (en_reducers e)" "ready e"
    and "\<forall>x\<in>set fs. unobstructed (en_mode e) (fst x)"
    and "run_reducers (en_reducers e) (map snd fs) (en_state e) \<noteq> None"
  shows "en_playback (run_loop fs e) = Stopped \<and>
    (\<exists>e1. steps e (map snd fs) e1 \<and> same_data e1 (run_loop fs e) \<and> ready e1)"
  using assms
proof (induction fs arbitrary: e)
  case Nil
  then show ?case using steps_none[of e] by (auto simp: same_data_def)
next
  case (Cons x fs)
  obtain env f where x: "x = (env, f)" by fastforce
  obtain s where s: "reducers_apply (en_reducers e) (en_state e) f = Some s"
    using Cons.prems(5) x by (cases "reducers_apply (en_reducers e) (en_state e) f") auto
  obtain r e1 where frame: "loop_frame env f e = (r, e1)" by fastforce
  have ok: "check_pre_dispatch f (en_cursor e) = None" "unobstructed (en_mode e) env"
    using Cons.prems(1,4) x stream_after_check by simp_all
  have r: "r = Continue" "ready e1"
    using loop_frame_ready[OF ok(2) Cons.prems(3,2) ok(1) s] frame by simp_all
  then have d: "dispatched e f s e1"
    using loop_frame_outcome[OF unobstructed_no_seek[OF ok(2)] Cons.prems(2) ok(1) frame] s by auto
  have "stream_after (en_cursor e) (f # map snd fs)" using Cons.prems(1) x by simp
  from stream_after_next[OF this d] Cons.IH[of e1] Cons.prems(2,4,5) r(2) d s x
  have "en_playback (run_loop fs e1) = Stopped \<and>
    (\<exists>e2. steps e1 (map snd fs) e2 \<and> same_data e2 (run_loop fs e1) \<and> ready e2)"
    by (simp add: dispatched_def)
  then show ?case using frame r(1) x steps_more[OF s d] by auto
qed

section \<open>Playback\<close>

lemma play_setup:
  obtains e0 where "play fs e = run_loop fs e0" "same_data e e0" "en_stop e0 = False"
    "en_running e0 = en_running e" "en_clock e0 = en_clock e"
proof -
  let ?e0 = "count_engine em_record_engine_started
       (e\<lparr>en_stop := False, en_playback := Playing, en_error := []\<rparr>)"
  have "same_data e ?e0" by (simp add: same_data_def count_engine_def metrics_defs)
  then show thesis using that[of ?e0] by (simp add: play_def count_engine_def)
qed

lemma stream_after_take: "stream_after c fs \<Longrightarrow> stream_after c (take k fs)"
  by (auto simp: stream_after_def take_map[symmetric] sorted_wrt_take dest: in_set_takeD)

text \<open>C20: Controls never damage a playback. Take a stream whose sequence numbers increase and whose
  clock readings do not go back, all beyond the cursor, any interleaving of pauses, resumes, speed
  changes, steps, stops and failing pushes (no seek) with the loop, and reducers that are sound:
  reducers can be registered, and each must leave the frame's sequence and clock in the state, as
  the default one and domain reducers over it do. Then what reached the sink
  is a prefix of the stream, each frame once and in order; the cursor is on its last frame and has
  counted it; no integrity violation is recorded; and the state is the reducers' result of exactly
  that prefix, delivered to the subscribers exactly once. The single exception is a push
  that raises: its frame is in the state and was delivered, but is not behind the cursor, and the
  playback has failed with the sink's error.
\<close>

theorem playback_never_skips_or_repeats:
  assumes "stream_after (en_cursor e) (map snd fs)" "reducers_sound (en_reducers e)"
    and "\<forall>x\<in>set fs. no_seek (fst x)"
  shows "\<exists>k n. k \<le> length fs \<and>
    (n = k \<or> n = Suc k \<and> k < length fs \<and> en_playback (play fs e) = FailedState \<and>
       en_error (play fs e) = ''sink'') \<and>
    en_sent (play fs e) = en_sent e @ map snd (take k fs) \<and>
    cu_last_sequence (en_cursor (play fs e))
      = last (cu_last_sequence (en_cursor e) # map (wf_sequence \<circ> snd) (take k fs)) \<and>
    cu_frames_dispatched (en_cursor (play fs e)) = cu_frames_dispatched (en_cursor e) + int k \<and>
    em_integrity_violations (en_metrics (play fs e)) = em_integrity_violations (en_metrics e) \<and>
    run_reducers (en_reducers e) (map snd (take n fs)) (en_state e) = Some (en_state (play fs e)) \<and>
    en_deliveries (play fs e) = en_deliveries e @
      concat (map (\<lambda>x. router_publish (snd x) (en_router e)) (take n fs))"
proof -
  obtain e0 where e0: "play fs e = run_loop fs e0" "same_data e e0" by (rule play_setup[of fs e])
  have "stream_after (en_cursor e0) (map snd fs)" "reducers_sound (en_reducers e0)"
    using assms(1,2) e0(2) by (simp_all add: same_data_def)
  from run_loop_shape[OF this assms(3)]
  obtain k e1 where k: "k \<le> length fs" "steps e0 (map snd (take k fs)) e1"
    "run_ends e1 (map snd (drop k fs)) (play fs e)"
    unfolding e0(1) by blast
  note sum = steps_sum[OF k(2)]
  have len: "length (take k fs) = k" using k(1) by simp
  from k(3) consider "same_data e1 (play fs e)"
    | f gs s where "map snd (drop k fs) = f # gs" "reducers_apply (en_reducers e1) (en_state e1) f = Some s"
      "lost_in_sink e1 f s (play fs e)" "en_playback (play fs e) = FailedState" "en_error (play fs e) = ''sink''"
    unfolding run_ends_def by (elim disjE exE conjE) simp_all
  then show ?thesis
  proof cases
    case 1
    then show ?thesis
      using k(1) sum e0(2) len by (intro exI[of _ k]) (simp add: same_data_def comp_def)
  next
    case (2 f gs s)
    then have less: "k < length fs" by (cases "k < length fs") simp_all
    have "hd (map snd (drop k fs)) = snd (fs ! k)" using less by (simp add: hd_map hd_drop_conv_nth)
    then have f: "snd (fs ! k) = f" using 2(1) by simp
    have take: "take (Suc k) fs = take k fs @ [fs ! k]" by (rule take_Suc_conv_app_nth[OF less])
    have "run_reducers (en_reducers e) (map snd (take (Suc k) fs)) (en_state e) = Some (en_state (play fs e))"
      using sum 2(2,3) e0(2) by (simp add: take f run_reducers_append same_data_def lost_in_sink_def)
    moreover have "en_deliveries (play fs e) = en_deliveries e @
        concat (map (\<lambda>x. router_publish (snd x) (en_router e)) (take (Suc k) fs))"
      using sum 2(3) e0(2) by (simp add: take f same_data_def lost_in_sink_def comp_def)
    moreover have "en_sent (play fs e) = en_sent e @ map snd (take k fs)"
      "cu_last_sequence (en_cursor (play fs e))
        = last (cu_last_sequence (en_cursor e) # map (wf_sequence \<circ> snd) (take k fs))"
      "cu_frames_dispatched (en_cursor (play fs e)) = cu_frames_dispatched (en_cursor e) + int k"
      "em_integrity_violations (en_metrics (play fs e)) = em_integrity_violations (en_metrics e)"
      using sum 2(3) e0(2) len by (simp_all add: same_data_def lost_in_sink_def comp_def)
    ultimately show ?thesis
      using less 2(4,5) k(1) by (intro exI[of _ k] exI[of _ "Suc k"]) blast
  qed
qed

text \<open>C22: A playback nothing holds up finishes. Take a stream whose sequence numbers increase and whose
  clock readings do not go back, all beyond the cursor. If playback is not paused, no pause, stop or
  seek comes in (resumes, speed changes and steps may, at any await), every push succeeds, in step
  mode every frame gets its step, and the registered reducers accept every frame and are sound
  (each leaves the frame's sequence and clock in the state, as the default one and domain reducers
  over it do), then the run ends in \<open>Stopped\<close>
  with every frame of the stream pushed once and in order, the state the reducers' result of the
  whole stream, and the cursor on its last frame.
\<close>

theorem playback_completes:
  assumes "stream_after (en_cursor e) (map snd fs)" "reducers_sound (en_reducers e)"
    and "en_running e" "\<not> ck_paused (en_clock e)" "\<forall>x\<in>set fs. unobstructed (en_mode e) (fst x)"
    and "run_reducers (en_reducers e) (map snd fs) (en_state e) = Some s"
  shows "en_playback (play fs e) = Stopped \<and> en_sent (play fs e) = en_sent e @ map snd fs \<and>
    en_state (play fs e) = s \<and>
    cu_last_sequence (en_cursor (play fs e))
      = last (cu_last_sequence (en_cursor e) # map (wf_sequence \<circ> snd) fs) \<and>
    cu_frames_dispatched (en_cursor (play fs e)) = cu_frames_dispatched (en_cursor e) + int (length fs)"
proof -
  obtain e0 where e0: "play fs e = run_loop fs e0" "same_data e e0" "en_stop e0 = False"
    "en_running e0 = en_running e" "en_clock e0 = en_clock e" by (rule play_setup[of fs e])
  have "ready e0" using e0 assms(3,4) by (simp add: ready_def)
  moreover have "stream_after (en_cursor e0) (map snd fs)" "reducers_sound (en_reducers e0)"
    "\<forall>x\<in>set fs. unobstructed (en_mode e0) (fst x)"
    "run_reducers (en_reducers e0) (map snd fs) (en_state e0) = Some s"
    using assms e0(2) by (simp_all add: same_data_def)
  ultimately obtain e1 where "en_playback (play fs e) = Stopped" "steps e0 (map snd fs) e1"
    "same_data e1 (play fs e)"
    using run_loop_completes[of e0 fs] unfolding e0(1) by auto
  then show ?thesis
    using steps_sum[of e0 "map snd fs" e1] e0(2) assms(6) by (simp add: same_data_def comp_def)
qed

section \<open>Seeking to a checkpoint\<close>

lemma current_after_jump: "current_virtual_ns w (clock_jump_to w t c) = t"
  by (simp add: current_virtual_ns_def clock_jump_to_def Let_def py_int_def)

lemma ring_ok_append:
  "ring_ok g past ring \<Longrightarrow> sorted_wrt (<) (map wf_sequence (past @ fs)) \<Longrightarrow> ring_ok g (past @ fs) ring"
proof (induction fs arbitrary: past)
  case (Cons f fs)
  have "ring_ok g (past @ [f]) ring"
    using Cons.prems by (intro ring_ok_later) (auto simp: sorted_wrt_append)
  then show ?case using Cons.IH[of "past @ [f]"] Cons.prems(2) by simp
qed simp

lemma ring_after_play:
  assumes "new_replay_engine w0 rec cfg g = Some e" "reducers_sound g"
    and "stream_after engine_cursor_at_start (map snd fs)" "\<forall>x\<in>set fs. no_seek (fst x)"
  shows "ring_ok g (map snd fs) (en_checkpoints (play fs e))"
proof -
  obtain e0 where e0: "play fs e = run_loop fs e0" "same_data e e0" by (rule play_setup[of fs e])
  have new: "en_reducers e = g" "en_cursor e = engine_cursor_at_start" "en_state e = vs_empty"
    "en_checkpoints e = []"
    using assms(1) by (auto simp: new_replay_engine_def split: if_splits)
  then have "stream_after (en_cursor e0) (map snd fs)" "reducers_sound (en_reducers e0)"
    using assms(2,3) e0(2) by (simp_all add: same_data_def)
  from run_loop_shape[OF this assms(4)]
  obtain k e1 where k: "k \<le> length fs" "steps e0 (map snd (take k fs)) e1"
    "run_ends e1 (map snd (drop k fs)) (play fs e)"
    unfolding e0(1) by blast
  have "sorted_wrt (<) (map wf_sequence ([] @ map snd (take k fs)))"
    using stream_after_take[OF assms(3), of k] by (simp add: stream_after_def take_map)
  moreover have "ring_ok (en_reducers e0) [] (en_checkpoints e0)"
    using new e0(2) by (simp add: ring_ok_def same_data_def)
  ultimately have "ring_ok g (map snd (take k fs)) (en_checkpoints e1)"
    using steps_ring[OF k(2), of "[]"] new e0(2) assms(2) by (simp add: same_data_def)
  moreover have "en_checkpoints (play fs e) = en_checkpoints e1"
    using k(3) by (auto simp: run_ends_def same_data_def lost_in_sink_def)
  moreover have "map snd fs = map snd (take k fs) @ map snd (drop k fs)"
    by (metis append_take_drop_id map_append)
  ultimately show ?thesis
    using assms(3) ring_ok_append[of g "map snd (take k fs)" _ "map snd (drop k fs)"]
    by (simp add: stream_after_def)
qed

text \<open>C24: Checkpoints are exact. After any playback from a fresh engine of a stream whose sequence
  numbers increase and whose clock readings do not go back (with any controls but seeks), under
  registered reducers that are sound (each leaves the frame's sequence and clock in the state, as
  the default one and domain reducers over it do), the ring holds at most 32 checkpoints, and a seek to the sequence number of any of them
  restores exactly the state playback had there - the reducers' result of the frames up to it -
  with the cursor on that frame and the virtual clock at its recorded time, paused or not.
\<close>

theorem checkpoint_seek_is_exact:
  assumes "new_replay_engine w0 rec cfg g = Some e" "reducers_sound g"
    and "stream_after engine_cursor_at_start (map snd fs)" "\<forall>x\<in>set fs. no_seek (fst x)"
    and "(q, cp) \<in> set (en_checkpoints (play fs e))"
  shows "length (en_checkpoints (play fs e)) \<le> 32 \<and>
    (\<exists>e' f. engine_seek w q (play fs e) = Some e' \<and> f \<in> set (map snd fs) \<and> wf_sequence f = q \<and>
       run_reducers g (filter (\<lambda>x. wf_sequence x \<le> q) (map snd fs)) vs_empty = Some (en_state e') \<and>
       cu_last_sequence (en_cursor e') = q \<and>
       current_virtual_ns w (en_clock e') = wf_monotonic_ns f)"
proof -
  have ring: "ring_ok g (map snd fs) (en_checkpoints (play fs e))"
    by (rule ring_after_play[OF assms(1-4)])
  then have near: "nearest_checkpoint (en_checkpoints (play fs e)) q = Some cp"
    unfolding nearest_checkpoint_def using assms(5) nearest_exact[of "en_checkpoints (play fs e)" q cp None]
    by (auto simp: ring_ok_def)
  obtain f where cp: "ec_sequence cp = q" "f \<in> set (map snd fs)" "wf_sequence f = q"
    "wf_monotonic_ns f = ec_monotonic_ns cp" "length (en_checkpoints (play fs e)) \<le> 32"
    "run_reducers g (filter (\<lambda>x. wf_sequence x \<le> q) (map snd fs)) vs_empty = Some (ec_state cp)"
    using ring assms(5) by (fastforce simp: ring_ok_def checkpoint_capacity_def)
  let ?e = "count_engine em_record_seek (restore_from_checkpoint w cp (play fs e))"
  have "engine_seek w q (play fs e) = Some ?e" using near cp(1) by (simp add: engine_seek_def)
  moreover have "en_state ?e = ec_state cp" "cu_last_sequence (en_cursor ?e) = q"
    "current_virtual_ns w (en_clock ?e) = wf_monotonic_ns f"
    using cp(1,4)
    by (simp_all add: count_engine_def restore_from_checkpoint_def jumped_to_def current_after_jump)
  ultimately show ?thesis using cp(2,3,5,6) by metis
qed

end
