(* ===== verification/PlaybackSeek.thy ===== *)
theory PlaybackSeek
  imports PlaybackLoop
begin

text \<open>
  Seeking: what a seek through the loader restores (the state, against playing from the start; the
  cursor and the clock), what happens to playback after a seek and to a seek during a push, and the
  pacing and virtual time of playback. The last section evaluates the theorems on a small engine.
\<close>

section \<open>What a seek restores\<close>

text \<open>The loader's dictionary reducer runs the engine's reducers.\<close>

lemma reduce_adapter:
  "reduce_frames (state_reducer_adapter g) fs (to_dict s) = map_option to_dict (run_reducers g fs s)"
  by (induction fs arbitrary: s) (auto simp: state_reducer_adapter_def split: option.split)

lemma reduce_adapter_empty:
  "Option.bind (reduce_frames (state_reducer_adapter g) fs []) from_dict = run_reducers g fs vs_empty"
proof (cases fs)
  case (Cons f fs')
  have "state_reducer_adapter g [] f = state_reducer_adapter g (to_dict vs_empty) f"
    by (simp add: state_reducer_adapter_def)
  then have "reduce_frames (state_reducer_adapter g) fs [] = reduce_frames (state_reducer_adapter g) fs (to_dict vs_empty)"
    using Cons by simp
  then show ?thesis
    using reduce_adapter[of g fs vs_empty] by (simp add: option.map_comp comp_def bind_map_option option.map_id[unfolded id_def]
        split: option.split)
qed simp

lemma run_reducers_last:
  assumes "reducers_sound g" "run_reducers g fs s = Some s'" "fs \<noteq> []"
  shows "vs_last_sequence s' = wf_sequence (last fs) \<and> vs_last_monotonic_ns s' = wf_monotonic_ns (last fs)"
proof -
  obtain us f where fs: "fs = us @ [f]" using assms(3) by (metis append_butlast_last_id)
  then show ?thesis
    using assms(1,2) by (auto simp: run_reducers_append reducers_sound_def split: option.splits)
qed

definition open_recording_of :: "chunk list \<Rightarrow> snapshot_entry list \<Rightarrow> open_recording" where
  "open_recording_of chunks snaps =
     \<lparr>or_chunks = chunks, or_entries = index_from_metadata (map fst chunks),
      or_snapshots = snapshot_index_of snaps\<rparr>"

text \<open>A seek that no checkpoint answers.\<close>

definition no_checkpoint_at :: "int \<Rightarrow> replay_engine \<Rightarrow> bool" where
  "no_checkpoint_at target e \<longleftrightarrow> (\<forall>(q, cp)\<in>set (en_checkpoints e). ec_sequence cp \<noteq> target)"

lemma nearest_loop_mem:
  "nearest_loop q ring best = Some cp \<Longrightarrow> best = Some cp \<or> (\<exists>p. (p, cp) \<in> set ring)"
  by (induction q ring best rule: nearest_loop.induct) (auto split: if_splits)

lemma engine_seek_by_loader:
  assumes "no_checkpoint_at target e" "restore_via_loader w target e = Some (used, e')"
  shows "\<exists>e1. engine_seek w target e = Some e1 \<and> en_state e1 = en_state e' \<and>
    en_cursor e1 = en_cursor e' \<and> en_clock e1 = en_clock e' \<and> en_recording e1 = en_recording e' \<and>
    en_reducers e1 = en_reducers e' \<and> en_sent e1 = en_sent e' \<and> en_mode e1 = en_mode e' \<and>
    en_running e1 = en_running e' \<and> en_stop e1 = en_stop e' \<and> en_strict e1 = en_strict e'"
proof -
  have "ec_sequence cp \<noteq> target" if "nearest_checkpoint (en_checkpoints e) target = Some cp" for cp
    using that assms(1) nearest_loop_mem[of target "en_checkpoints e" None cp]
    by (auto simp: nearest_checkpoint_def no_checkpoint_at_def)
  then show ?thesis
    using assms(2)
    by (auto simp: engine_seek_def count_engine_def Let_def split: option.split)
qed

text \<open>What \<open>restore_via_loader\<close> leaves, from the loader's reconstruction.\<close>

definition seek_frames :: "chunk list \<Rightarrow> snapshot_entry list \<Rightarrow> int \<Rightarrow> wire_frame list" where
  "seek_frames chunks snaps target =
     replayed_frames chunks (reconstruction_start (nearest_at_or_before (snapshot_index_of snaps) target)) target"

definition seek_seed :: "snapshot_entry list \<Rightarrow> int \<Rightarrow> virtual_state option" where
  "seek_seed snaps target =
     (case nearest_at_or_before (snapshot_index_of snaps) target of
        None \<Rightarrow> Some vs_empty
      | Some sn \<Rightarrow> (case sn_payload sn of None \<Rightarrow> None | Some d \<Rightarrow> from_dict d))"

definition engine_snapshots :: "snapshot_entry list \<Rightarrow> bool" where
  "engine_snapshots snaps \<longleftrightarrow>
     (\<forall>sn\<in>set snaps. 0 \<le> sn_sequence_at_capture sn \<and>
        (\<exists>s. sn_payload sn = Some (to_dict s) \<and> 0 < vs_last_sequence s))"

lemma snapshot_index_set [simp]: "set (snapshot_index_of snaps) = set snaps"
  by (simp add: snapshot_index_of_def)

definition seek_landing :: "chunk list \<Rightarrow> snapshot_entry list \<Rightarrow> int \<Rightarrow> wire_frame option" where
  "seek_landing chunks snaps target =
     sr_landed_frame (seek_to_sequence
       (reconstruction_start (nearest_at_or_before (snapshot_index_of snaps) target))
       (index_from_metadata (map fst chunks)) (snapshot_index_of snaps) chunks)"

lemma restore_via_loader_state:
  assumes "recording_ok chunks" "0 \<le> target" "engine_snapshots snaps"
    and "en_recording e = open_recording_of chunks snaps" "reducers_sound (en_reducers e)"
    and "seek_seed snaps target = Some seed"
    and "run_reducers (en_reducers e) (seek_frames chunks snaps target) seed = Some s"
  shows "\<exists>e'. restore_via_loader w target e
      = Some (nearest_at_or_before (snapshot_index_of snaps) target \<noteq> None, e') \<and> en_state e' = s \<and>
    (let f = seek_landing chunks snaps target;
         q = (case f of Some f \<Rightarrow> wf_sequence f | None \<Rightarrow> target);
         t = (case f of Some f \<Rightarrow> wf_monotonic_ns f | None \<Rightarrow> vs_last_monotonic_ns s)
     in e' = e\<lparr>en_state := s, en_cursor := jumped_to q t t (en_cursor e),
               en_clock := clock_jump_to w t (en_clock e)\<rparr>)"
proof -
  let ?snap = "nearest_at_or_before (snapshot_index_of snaps) target"
  let ?rec = "reconstruct_state target (index_from_metadata (map fst chunks)) (snapshot_index_of snaps) chunks
      (state_reducer_adapter (en_reducers e))"
  have caps: "\<forall>x\<in>set snaps. 0 \<le> sn_sequence_at_capture x"
    using assms(3) by (simp add: engine_snapshots_def)
  note rec = reconstruction_exact[OF assms(1,2) caps, of "state_reducer_adapter (en_reducers e)"]
  have positive: "\<forall>f\<in>set (seek_frames chunks snaps target). 0 < wf_sequence f"
    using assms(1) by (auto simp: seek_frames_def replayed_frames_def recording_ok_def)
  obtain r where r: "?rec = Some r" "from_dict (re_state r) = Some s"
    and seq: "?snap \<noteq> None \<Longrightarrow> vs_last_sequence s \<noteq> 0"
  proof (cases ?snap)
    case None
    have "Option.bind (map_option re_state ?rec) from_dict = Some s"
      using rec assms(6,7) None reduce_adapter_empty[of "en_reducers e" "seek_frames chunks snaps target"]
      by (simp add: seek_frames_def seek_seed_def)
    then obtain r where "?rec = Some r" "from_dict (re_state r) = Some s"
      by (auto simp: bind_eq_Some_conv)
    then show thesis using that None by simp
  next
    case (Some sn)
    have "sn \<in> set snaps"
      using nearest_snapshot(2)[of "snapshot_index_of snaps" target sn] Some
      by (simp add: snapshot_index_of_def)
    then obtain s0 where s0: "sn_payload sn = Some (to_dict s0)" "0 < vs_last_sequence s0"
      using assms(3) by (auto simp: engine_snapshots_def)
    then have "seed = s0" using assms(6) Some by (simp add: seek_seed_def)
    then have "map_option re_state ?rec = Some (to_dict s)"
      using rec Some s0 assms(7) by (simp add: reduce_adapter seek_frames_def)
    then obtain r where r: "?rec = Some r" "re_state r = to_dict s" by auto
    have "0 < vs_last_sequence s"
    proof (cases "seek_frames chunks snaps target = []")
      case True
      then show ?thesis using assms(7) s0(2) \<open>seed = s0\<close> by simp
    next
      case False
      then have "last (seek_frames chunks snaps target) \<in> set (seek_frames chunks snaps target)" by simp
      then show ?thesis
        using run_reducers_last[OF assms(5,7) False] positive by simp
    qed
    then show thesis using that[of r] r by simp
  qed
  have used: "re_snapshot_used r = ?snap"
    using r(1) by (auto simp: reconstruct_state_def Let_def split: option.splits if_splits)
  have landed: "sr_landed_frame (re_seek_result r) = seek_landing chunks snaps target"
    using r(1)
    by (auto simp: reconstruct_state_def seek_landing_def reconstruction_start_def Let_def
        split: option.splits if_splits)
  show ?thesis
    using r seq used landed assms(4)
    by (cases ?snap) (auto simp: restore_via_loader_def open_recording_of_def Let_def)
qed

lemma seek_landing_covered:
  assumes "recording_ok chunks" "0 \<le> target" "engine_snapshots snaps"
    and "list_ex (chunk_covers (reconstruction_start (nearest_at_or_before (snapshot_index_of snaps) target))) chunks"
  shows "\<exists>f. seek_landing chunks snaps target = Some f \<and> f \<in> set (all_frames chunks) \<and>
    reconstruction_start (nearest_at_or_before (snapshot_index_of snaps) target) \<le> wf_sequence f \<and>
    (\<forall>g\<in>set (all_frames chunks).
       reconstruction_start (nearest_at_or_before (snapshot_index_of snaps) target) \<le> wf_sequence g \<longrightarrow>
       wf_sequence f \<le> wf_sequence g)"
proof -
  let ?snap = "nearest_at_or_before (snapshot_index_of snaps) target"
  have "0 < reconstruction_start ?snap"
    using assms(3) nearest_snapshot(2)[of "snapshot_index_of snaps" target]
    by (cases ?snap) (auto simp: reconstruction_start_def engine_snapshots_def snapshot_index_of_def)
  from seek_covered[OF assms(1) this assms(4), of "snapshot_index_of snaps"]
  show ?thesis unfolding seek_landing_def by fastforce
qed

section \<open>Seeking through the loader\<close>

definition frames_to :: "chunk list \<Rightarrow> int \<Rightarrow> wire_frame list" where
  "frames_to chunks target = filter (\<lambda>f. wf_sequence f \<le> target) (all_frames chunks)"

text \<open>Snapshots whose payload is the state playback has at the frame they were captured at.\<close>

definition recorded_by :: "reducer_registry \<Rightarrow> chunk list \<Rightarrow> snapshot_entry list \<Rightarrow> bool" where
  "recorded_by g chunks snaps \<longleftrightarrow>
     (\<forall>sn\<in>set snaps. frames_to chunks (sn_sequence_at_capture sn) \<noteq> [] \<and>
        (\<exists>s. run_reducers g (frames_to chunks (sn_sequence_at_capture sn)) vs_empty = Some s \<and>
             sn_payload sn = Some (to_dict s)))"

text \<open>The frame right after each snapshot lies in the range of some chunk.\<close>

definition all_continued :: "chunk list \<Rightarrow> snapshot_entry list \<Rightarrow> bool" where
  "all_continued chunks snaps \<longleftrightarrow>
     (\<forall>sn\<in>set snaps. list_ex (chunk_covers (sn_sequence_at_capture sn + 1)) chunks)"

lemma recorded_engine_snapshots:
  assumes "recording_ok chunks" "reducers_sound g" "recorded_by g chunks snaps"
  shows "engine_snapshots snaps"
  unfolding engine_snapshots_def
proof
  fix sn assume "sn \<in> set snaps"
  then obtain s where s: "frames_to chunks (sn_sequence_at_capture sn) \<noteq> []"
    "run_reducers g (frames_to chunks (sn_sequence_at_capture sn)) vs_empty = Some s"
    "sn_payload sn = Some (to_dict s)"
    using assms(3) unfolding recorded_by_def by blast
  let ?f = "last (frames_to chunks (sn_sequence_at_capture sn))"
  have "?f \<in> set (frames_to chunks (sn_sequence_at_capture sn))" using s(1) by simp
  then have "0 < wf_sequence ?f" "wf_sequence ?f \<le> sn_sequence_at_capture sn"
    using assms(1) by (simp_all add: frames_to_def recording_ok_def)
  moreover have "vs_last_sequence s = wf_sequence ?f"
    using run_reducers_last[OF assms(2) s(2,1)] by simp
  ultimately show "0 \<le> sn_sequence_at_capture sn \<and>
      (\<exists>s. sn_payload sn = Some (to_dict s) \<and> 0 < vs_last_sequence s)"
    using s(3) by auto
qed

lemma frames_to_split:
  assumes "recording_ok chunks" "a \<le> b"
  shows "frames_to chunks b =
    frames_to chunks a @ filter (\<lambda>f. a < wf_sequence f \<and> wf_sequence f \<le> b) (all_frames chunks)"
proof -
  have "sorted_wrt (<) (map wf_sequence fs) \<Longrightarrow> filter (\<lambda>f. wf_sequence f \<le> b) fs =
      filter (\<lambda>f. wf_sequence f \<le> a) fs @ filter (\<lambda>f. a < wf_sequence f \<and> wf_sequence f \<le> b) fs"
    for fs :: "wire_frame list"
  proof (induction fs)
    case (Cons f fs)
    have "a < wf_sequence f \<Longrightarrow> filter (\<lambda>f. wf_sequence f \<le> a) fs = []"
      using Cons.prems by (fastforce simp: filter_empty_conv)
    then show ?case using Cons assms(2) by auto
  qed simp
  then show ?thesis using assms(1) by (simp add: recording_ok_def frames_to_def)
qed

lemma nearest_in_snaps:
  "nearest_at_or_before (snapshot_index_of snaps) target = Some sn \<Longrightarrow>
   sn \<in> set snaps \<and> sn_sequence_at_capture sn \<le> target"
  using nearest_snapshot(2)[of "snapshot_index_of snaps" target sn] by (simp add: snapshot_index_of_def)

lemma seek_run:
  assumes "recording_ok chunks" "reducers_sound g" "recorded_by g chunks snaps"
    and "all_continued chunks snaps" "run_reducers g (frames_to chunks target) vs_empty = Some s"
  shows "\<exists>seed. seek_seed snaps target = Some seed \<and>
    run_reducers g (seek_frames chunks snaps target) seed = Some s"
proof (cases "nearest_at_or_before (snapshot_index_of snaps) target")
  case None
  have "seek_frames chunks snaps target = frames_to chunks target"
    using assms(1) None
    by (auto simp: seek_frames_def replayed_frames_def reconstruction_start_def frames_to_def
        recording_ok_def intro!: filter_cong)
  then show ?thesis using None assms(5) by (simp add: seek_seed_def)
next
  case (Some sn)
  note sn = nearest_in_snaps[OF Some]
  obtain s0 where s0: "run_reducers g (frames_to chunks (sn_sequence_at_capture sn)) vs_empty = Some s0"
    "sn_payload sn = Some (to_dict s0)"
    using assms(3) sn unfolding recorded_by_def by blast
  have "list_ex (chunk_covers (sn_sequence_at_capture sn + 1)) chunks"
    using assms(4) sn by (simp add: all_continued_def)
  then have "seek_frames chunks snaps target = filter (\<lambda>f. sn_sequence_at_capture sn < wf_sequence f \<and>
      wf_sequence f \<le> target) (all_frames chunks)"
    using Some by (auto simp: seek_frames_def replayed_frames_def reconstruction_start_def intro!: filter_cong)
  then have "run_reducers g (seek_frames chunks snaps target) s0 = Some s"
    using assms(5) frames_to_split[OF assms(1), of "sn_sequence_at_capture sn" target] sn s0(1)
    by (simp add: run_reducers_append)
  then show ?thesis using Some s0(2) by (simp add: seek_seed_def)
qed

text \<open>C21: Seeking is equivalent to playing. Over a well-formed recording whose snapshots hold the state
  playback has where they were captured, each followed by a recorded frame in some chunk's range,
  and under registered reducers that are sound (each leaves the frame's sequence and clock in the
  state, as the default one and domain reducers over it do) and accept the frames up to the target,
  a seek to a target not below zero that no checkpoint answers restores, from the nearest snapshot and the frames after it,
  exactly the state that reducing every frame up to the target from the start gives.
\<close>

theorem seek_equals_playback:
  assumes "recording_ok chunks" "0 \<le> target" "reducers_sound (en_reducers e)"
    and "en_recording e = open_recording_of chunks snaps" "no_checkpoint_at target e"
    and "recorded_by (en_reducers e) chunks snaps" "all_continued chunks snaps"
    and "run_reducers (en_reducers e) (frames_to chunks target) vs_empty = Some s"
  shows "\<exists>e'. engine_seek w target e = Some e' \<and> en_state e' = s"
proof -
  obtain seed where seed: "seek_seed snaps target = Some seed"
    "run_reducers (en_reducers e) (seek_frames chunks snaps target) seed = Some s"
    using seek_run[OF assms(1,3,6,7,8)] by blast
  obtain used e1 where "restore_via_loader w target e = Some (used, e1)" "en_state e1 = s"
    using restore_via_loader_state[OF assms(1,2) recorded_engine_snapshots[OF assms(1,3,6)]
        assms(4,3) seed] by blast
  then show ?thesis using engine_seek_by_loader[OF assms(5), of w used e1] by auto
qed

text \<open>A seek leaves the cursor elsewhere. Under the same conditions (and the frame after the
  snapshot, or frame \<open>1\<close>, recorded) the restored state stands at the last frame up to the target, but
  the cursor and the virtual clock are put on the first frame after the snapshot, wherever the target
  is: behind the state when several frames were replayed, and one frame ahead of it, so
  that this frame will be refused as a duplicate, when the target lies before it.
\<close>

theorem seek_cursor_ignores_the_target:
  assumes "recording_ok chunks" "0 \<le> target" "reducers_sound (en_reducers e)"
    and "en_recording e = open_recording_of chunks snaps" "no_checkpoint_at target e"
    and "recorded_by (en_reducers e) chunks snaps" "all_continued chunks snaps"
    and "run_reducers (en_reducers e) (frames_to chunks target) vs_empty = Some s"
    and "frames_to chunks target \<noteq> []"
    and "start = reconstruction_start (nearest_at_or_before (snapshot_index_of snaps) target)"
    and "list_ex (chunk_covers start) chunks"
  shows "\<exists>e' f. engine_seek w target e = Some e' \<and>
    vs_last_sequence (en_state e') = wf_sequence (last (frames_to chunks target)) \<and>
    cu_last_sequence (en_cursor e') = wf_sequence f \<and>
    current_virtual_ns w (en_clock e') = wf_monotonic_ns f \<and>
    f \<in> set (all_frames chunks) \<and> start \<le> wf_sequence f \<and>
    (\<forall>g\<in>set (all_frames chunks). start \<le> wf_sequence g \<longrightarrow> wf_sequence f \<le> wf_sequence g)"
proof -
  obtain seed where seed: "seek_seed snaps target = Some seed"
    "run_reducers (en_reducers e) (seek_frames chunks snaps target) seed = Some s"
    using seek_run[OF assms(1,3,6,7,8)] by blast
  note snaps = recorded_engine_snapshots[OF assms(1,3,6)]
  obtain f where f: "seek_landing chunks snaps target = Some f" "f \<in> set (all_frames chunks)"
    "start \<le> wf_sequence f"
    "\<forall>g\<in>set (all_frames chunks). start \<le> wf_sequence g \<longrightarrow> wf_sequence f \<le> wf_sequence g"
    using seek_landing_covered[OF assms(1,2) snaps] assms(10,11) by metis
  obtain used e1 where e1: "restore_via_loader w target e = Some (used, e1)" "en_state e1 = s"
    "en_cursor e1 = jumped_to (wf_sequence f) (wf_monotonic_ns f) (wf_monotonic_ns f) (en_cursor e)"
    "en_clock e1 = clock_jump_to w (wf_monotonic_ns f) (en_clock e)"
    using restore_via_loader_state[OF assms(1,2) snaps assms(4,3) seed, of w] f(1)
    by (auto simp: Let_def)
  obtain e2 where "engine_seek w target e = Some e2" "en_state e2 = s" "en_cursor e2 = en_cursor e1"
    "en_clock e2 = en_clock e1"
    using engine_seek_by_loader[OF assms(5) e1(1)] e1(2) by blast
  moreover have "vs_last_sequence s = wf_sequence (last (frames_to chunks target))"
    using run_reducers_last[OF assms(3,8,9)] by simp
  ultimately show ?thesis
    using e1 f by (intro exI[of _ e2] exI[of _ f]) (simp add: jumped_to_def current_after_jump)
qed

lemma default_registry_sound: "reducers_sound new_reducer_registry"
  by (simp add: reducers_sound_def reducers_apply_def new_reducer_registry_def advance_counters_def)

lemma run_default:
  "\<exists>s'. run_reducers new_reducer_registry fs s = Some s' \<and>
     vs_frames_applied s' = vs_frames_applied s + int (length fs) \<and>
     vs_domains s' = vs_domains s \<and> vs_notes s' = vs_notes s"
proof (induction fs arbitrary: s)
  case (Cons f fs)
  from Cons.IH[of "advance_counters s f"] show ?case
    by (auto simp: reducers_apply_def new_reducer_registry_def advance_counters_def)
qed simp

text \<open>A snapshot nothing follows is applied twice. If the sequence number right after the nearest
  snapshot lies in no chunk - the snapshot taken when recording stops, or one before a gap in the
  numbering at a chunk boundary - the seek restores the snapshot and then reduces every frame
  of the recording up to the target into it again: with the counting reducers alone, the frames up
  to the snapshot are counted twice.
\<close>

theorem uncontinued_snapshot_is_doubled:
  assumes "recording_ok chunks" "0 \<le> target" "en_reducers e = new_reducer_registry"
    and "en_recording e = open_recording_of chunks snaps" "no_checkpoint_at target e"
    and "recorded_by new_reducer_registry chunks snaps"
    and "nearest_at_or_before (snapshot_index_of snaps) target = Some sn"
    and "\<not> list_ex (chunk_covers (sn_sequence_at_capture sn + 1)) chunks"
  shows "\<exists>e'. engine_seek w target e = Some e' \<and>
    vs_frames_applied (en_state e') =
      int (length (frames_to chunks (sn_sequence_at_capture sn))) + int (length (frames_to chunks target))"
proof -
  note sn = nearest_in_snaps[OF assms(7)]
  have sound: "reducers_sound (en_reducers e)" using assms(3) default_registry_sound by simp
  obtain s0 where s0: "run_reducers new_reducer_registry (frames_to chunks (sn_sequence_at_capture sn)) vs_empty = Some s0"
    "sn_payload sn = Some (to_dict s0)"
    using assms(6) sn unfolding recorded_by_def by blast
  have "seek_frames chunks snaps target = frames_to chunks target"
    using assms(7,8) by (simp add: seek_frames_def replayed_frames_def reconstruction_start_def frames_to_def)
  moreover obtain s where s: "run_reducers new_reducer_registry (frames_to chunks target) s0 = Some s"
    "vs_frames_applied s = vs_frames_applied s0 + int (length (frames_to chunks target))"
    using run_default by blast
  ultimately have "run_reducers (en_reducers e) (seek_frames chunks snaps target) s0 = Some s"
    using assms(3) by simp
  moreover have "seek_seed snaps target = Some s0" using assms(7) s0(2) by (simp add: seek_seed_def)
  ultimately obtain used e1 where "restore_via_loader w target e = Some (used, e1)" "en_state e1 = s"
    using restore_via_loader_state[OF assms(1,2) _ assms(4) sound]
      recorded_engine_snapshots[OF assms(1) default_registry_sound assms(6)] by blast
  then obtain e2 where "engine_seek w target e = Some e2" "en_state e2 = s"
    using engine_seek_by_loader[OF assms(5), of w used e1] by auto
  moreover have "vs_frames_applied s0 = int (length (frames_to chunks (sn_sequence_at_capture sn)))"
    using run_default[of "frames_to chunks (sn_sequence_at_capture sn)" vs_empty] s0(1)
    by (auto simp: vs_empty_def)
  ultimately show ?thesis using s(2) by auto
qed

section \<open>Playing after a seek\<close>

text \<open>After a seek, the recording cannot be played. \<open>play()\<close> streams the recording from its first
  frame, and the guard refuses a frame that is not beyond the cursor. So in strict mode, the default,
  starting playback on an engine whose cursor is at or past the first frame of the stream - after a
  seek, or after a playback that ran to the end - fails on that first frame: nothing is
  dispatched, the state stays as it was, one violation is counted, and the engine is in
  the failed state with the guard's message.
\<close>

theorem play_after_seek_fails:
  assumes "en_strict e" "en_running e" "\<not> ck_paused (en_clock e)" "gets_turn (en_mode e) env"
    and "0 < wf_sequence f" "wf_sequence f \<le> cu_last_sequence (en_cursor e)"
  shows "let e' = play ((env, f) # fs) e in
    en_playback e' = FailedState \<and> en_state e' = en_state e \<and> en_sent e' = en_sent e \<and>
    en_deliveries e' = en_deliveries e \<and> en_cursor e' = en_cursor e \<and>
    em_integrity_violations (en_metrics e') = em_integrity_violations (en_metrics e) + 1 \<and>
    en_error e' =
      (if wf_sequence f = cu_last_sequence (en_cursor e)
       then ''sequence '' @ str_of_int (wf_sequence f) @ '' already dispatched''
       else ''sequence '' @ str_of_int (wf_sequence f) @ '' not strictly after cursor '' @
         str_of_int (cu_last_sequence (en_cursor e)))"
proof -
  obtain e0 where e0: "play ((env, f) # fs) e = run_loop ((env, f) # fs) e0" "same_data e e0"
    "en_stop e0 = False" "en_running e0 = en_running e" "en_clock e0 = en_clock e"
    by (rule play_setup[of "(env, f) # fs" e])
  let ?v = "if wf_sequence f = cu_last_sequence (en_cursor e) then Duplicate (wf_sequence f)
            else OutOfOrder (wf_sequence f) (cu_last_sequence (en_cursor e))"
  have check: "check_pre_dispatch f (en_cursor e0) = Some ?v" "en_strict e0" "gets_turn (en_mode e0) env"
    using assms e0(2) by (auto simp: check_pre_dispatch_def same_data_def)
  have "ready e0" using assms(2,3) e0 by (simp add: ready_def)
  then obtain e2 where e2: "same_data e0 e2" "loop_frame env f e0 =
    (case guarded (check_pre_dispatch f (en_cursor e0)) e2 of
       Some r \<Rightarrow> r | None \<Rightarrow> dispatch_frame env f (en_cursor e0) e2)"
    using frame_reached[OF check(3)] by blast
  moreover have "en_strict e2" using e2(1) check(2) by (simp add: same_data_def)
  ultimately have frame: "loop_frame env f e0
      = (Raised (violation_detail ?v), count_engine em_record_integrity_violation e2)"
    using check(1) by (simp add: guarded_def)
  have same: "same_data e e2" using same_data_trans[OF e0(2) e2(1)] .
  show ?thesis
    unfolding e0(1) Let_def run_loop.simps frame
    using same by (auto simp: same_data_def count_engine_def metrics_defs)
qed

text \<open>A seek during a push is half undone. While the loop awaits the push of a frame, a seek to an
  earlier checkpoint restores its state, cursor and clock; when the push returns, the loop
  replaces the cursor by the one it computed before, for the frame it was sending. The engine is left
  with the state and the clock of the checkpoint and the cursor of the frame, and the next frame
  passes the guard and is reduced into the old state: the frames between are missing from it.
\<close>

theorem seek_during_push_is_half_undone:
  assumes "ready e" "gets_turn (en_mode e) env" "env_emit env = [CSeek w q]" "\<not> env_sink_fails env"
    and "reducers_sound (en_reducers e)" "check_pre_dispatch f (en_cursor e) = None"
    and "reducers_apply (en_reducers e) (en_state e) f = Some s"
    and "nearest_checkpoint (en_checkpoints e) q = Some cp" "ec_sequence cp = q" "q < wf_sequence f"
    and "ec_sequence cp = vs_last_sequence (ec_state cp)"
  shows "\<exists>e'. loop_frame env f e = (Continue, e') \<and>
    en_state e' = ec_state cp \<and> vs_last_sequence (en_state e') = q \<and>
    current_virtual_ns w (en_clock e') = ec_monotonic_ns cp \<and>
    cu_last_sequence (en_cursor e') = wf_sequence f \<and>
    (\<forall>g. wf_sequence f < wf_sequence g \<and> wf_monotonic_ns f \<le> wf_monotonic_ns g \<longrightarrow>
       check_pre_dispatch g (en_cursor e') = None)"
proof -
  obtain e2 where e2: "same_data e e2" "loop_frame env f e = dispatch_frame env f (en_cursor e2) e2"
    using frame_reached[OF assms(2,1), of f] assms(6) by (auto simp: guarded_def same_data_def)
  have s: "reducers_apply (en_reducers e2) (en_state e2) f = Some s"
    using e2(1) assms(7) by (simp add: same_data_def)
  have last: "vs_last_sequence s = wf_sequence f"
    using assms(5,7) by (auto simp: reducers_sound_def)
  let ?x = "e2\<lparr>en_state := s, en_deliveries := en_deliveries e2 @ router_publish f (en_router e2)\<rparr>"
  have seek: "engine_seek w q ?x = Some (count_engine em_record_seek (restore_from_checkpoint w cp ?x))"
    using assms(8,9) e2(1) by (simp add: engine_seek_def same_data_def)
  obtain r e' where run: "dispatch_frame env f (en_cursor e2) e2 = (r, e')" by fastforce
  then have "r = Continue \<and> en_state e' = ec_state cp \<and>
      en_clock e' = clock_jump_to w (ec_monotonic_ns cp) (en_clock e2) \<and>
      cu_last_sequence (en_cursor e') = wf_sequence f \<and>
      cu_last_monotonic_ns (en_cursor e') = wf_monotonic_ns f"
    using s seek last assms(3,4)
    by (auto simp: dispatch_frame_def Let_def guarded_def check_post_dispatch_def count_engine_def
        restore_from_checkpoint_def engine_cursor_advance_def with_checkpoint_def)
  then show ?thesis
    using e2(2) run assms(9,11) by (auto simp: current_after_jump check_pre_dispatch_def)
qed

section \<open>Pacing\<close>

text \<open>How long real-time playback waits. When a frame lies ahead of the virtual time, the wait times the
  speed is the distance to it, but never more than the catch-up threshold, and when the wait is over
  the frame is still ahead by all that exceeds the threshold: it is dispatched that much too early. A
  fresh engine's virtual time starts at zero while frames carry raw monotonic clock readings, so
  until playback has run as long as the recorded clock reads, every wait is the same.
\<close>

theorem realtime_waits_are_capped:
  assumes "clock_ok wall c" "\<not> ck_paused c" "0 < threshold" "current_virtual_ns wall c < target"
  shows "let s = schedule Realtime threshold wall target c;
             d = target - current_virtual_ns wall c
    in sc_behind_by_ns s = 0 \<and> 0 < sc_wait_seconds s \<and>
       sc_wait_seconds s * ck_speed c * 1000000000 = of_int (min d threshold) \<and>
       (\<forall>wall'. of_int (wall' - wall) = sc_wait_seconds s * 1000000000 \<longrightarrow>
          target - current_virtual_ns wall' c = max 0 (d - threshold))"
proof -
  let ?d = "target - current_virtual_ns wall c"
  let ?s = "schedule Realtime threshold wall target c"
  have speed: "0 < ck_speed c" using assms(1) by (simp add: clock_ok_def)
  have wait: "sc_wait_seconds ?s = of_int (min ?d threshold) / 1000000000 / ck_speed c"
    "sc_behind_by_ns ?s = 0"
    using assms(3,4) speed by (auto simp: schedule_def Let_def min_def)
  have pos: "0 < min ?d threshold" using assms(3,4) by simp
  have "target - current_virtual_ns wall' c = max 0 (?d - threshold)"
    if slept: "of_int (wall' - wall) = sc_wait_seconds ?s * 1000000000" for wall'
  proof -
    have real: "of_int (wall' - wall) * ck_speed c = real_of_int (min ?d threshold)"
      unfolding slept wait(1) using speed by simp
    have "0 \<le> real_of_int (wall' - wall)"
      unfolding slept wait(1) using speed pos by simp
    then have later: "clock_ok wall' c" using clock_ok_later[OF assms(1)] by simp
    have "exact_virtual wall' c = exact_virtual wall c + real_of_int (min ?d threshold)"
      using exact_virtual_later[OF assms(1), of wall'] assms(2) real by simp
    then have "current_virtual_ns wall' c = current_virtual_ns wall c + min ?d threshold"
      using assms(1) later by (simp add: current_virtual_eq)
    then show ?thesis by (simp add: min_def max_def)
  qed
  moreover have "0 < sc_wait_seconds ?s" unfolding wait(1) using speed pos by simp
  moreover have "sc_wait_seconds ?s * ck_speed c * 1000000000 = of_int (min ?d threshold)"
    unfolding wait(1) using speed by simp
  ultimately show ?thesis using wait(2) by (simp add: Let_def)
qed


section \<open>Reducers of a domain\<close>

text \<open>Domain reducers over the default one keep the position, so the theorems above apply to them.\<close>

lemma domain_registry_sound:
  "reducers_sound \<lparr>rg_default = rg_default new_reducer_registry,
     rg_reducers = map (\<lambda>(ty, domain, fn). (ty, domain_reducer domain fn)) ds\<rparr>"
proof -
  have keep: "vs_last_sequence s' = vs_last_sequence s \<and> vs_last_monotonic_ns s' = vs_last_monotonic_ns s"
    if "domain_reducer domain fn s f = Some s'" for domain fn s f s'
    using that by (auto simp: domain_reducer_def with_domain_def split: option.splits)
  show ?thesis
    unfolding reducers_sound_def
    by (fastforce simp: reducers_apply_def new_reducer_registry_def advance_counters_def
        dest!: map_of_SomeD keep split: option.splits)
qed

section \<open>The statements at work\<close>

definition sample_config :: "playback_mode \<Rightarrow> engine_config" where
  "sample_config mode =
     \<lparr>eg_initial_speed = 1, eg_playback_mode = mode, eg_checkpoint_interval_frames = 2,
      eg_catch_up_threshold_seconds = 1 / 2, eg_enforce_strict_ordering = True\<rparr>"

definition sample_engine :: "chunk list \<Rightarrow> snapshot_entry list \<Rightarrow> playback_mode \<Rightarrow> replay_engine" where
  "sample_engine chunks snaps mode =
     the (new_replay_engine 0 (open_recording_of chunks snaps) (sample_config mode) new_reducer_registry)"

definition env_with :: "control list \<Rightarrow> control list \<Rightarrow> frame_env" where
  "env_with gate emit =
     \<lparr>env_gate = gate, env_step = [CStep], env_sleep = [], env_emit = emit, env_schedule_wall = 0,
      env_dispatch_wall = 0, env_sink_fails = False\<rparr>"

definition sample_stream :: "(frame_env \<times> wire_frame) list" where
  "sample_stream = map (\<lambda>n. (env_with [] [CSpeed 0 0 0 2], sample_frame n)) [1, 2, 3]"

lemma sample_engine_new:
  "new_replay_engine 0 (open_recording_of chunks snaps) (sample_config mode) new_reducer_registry
     = Some (sample_engine chunks snaps mode)"
  by (simp add: sample_engine_def sample_config_def new_replay_engine_def new_clock_def)

lemma sample_engine_fields [simp]:
  "en_reducers (sample_engine chunks snaps mode) = new_reducer_registry"
  "en_cursor (sample_engine chunks snaps mode) = engine_cursor_at_start"
  "en_state (sample_engine chunks snaps mode) = vs_empty"
  "en_sent (sample_engine chunks snaps mode) = []"
  "en_checkpoints (sample_engine chunks snaps mode) = []"
  "en_recording (sample_engine chunks snaps mode) = open_recording_of chunks snaps"
  "en_running (sample_engine chunks snaps mode)" "en_mode (sample_engine chunks snaps mode) = mode"
  "\<not> ck_paused (en_clock (sample_engine chunks snaps mode))"
  "ck_speed (en_clock (sample_engine chunks snaps mode)) = 1"
  "en_strict (sample_engine chunks snaps mode)" "\<not> en_stop (sample_engine chunks snaps mode)"
  "en_metrics (sample_engine chunks snaps mode) = new_engine_metrics"
  "clock_ok 0 (en_clock (sample_engine chunks snaps mode))"
  "current_virtual_ns 0 (en_clock (sample_engine chunks snaps mode)) = 0"
  by (simp_all add: sample_engine_def new_replay_engine_def new_clock_def sample_config_def
      clock_ok_def current_virtual_ns_def py_int_def)

lemma sample_stream_ok:
  "stream_after engine_cursor_at_start (map snd sample_stream)"
  "\<forall>x\<in>set sample_stream. no_seek (fst x)" "\<forall>x\<in>set sample_stream. unobstructed mode (fst x)"
  by (simp_all add: stream_after_def sample_stream_def engine_cursor_at_start_def sample_frame_def
      no_seek_def env_controls_def env_with_def is_seek_def unobstructed_def gets_turn_def)

theorem playback_never_skips_or_repeats_witness:
  "\<exists>k. k \<le> 3 \<and>
     en_sent (play sample_stream (sample_engine [] [] Realtime)) = map sample_frame (take k [1, 2, 3])"
proof -
  have "map snd (take k sample_stream) = map sample_frame (take k [1, 2, 3])" for k
    unfolding sample_stream_def take_map map_map by (simp add: comp_def)
  moreover obtain k where "k \<le> length sample_stream"
    "en_sent (play sample_stream (sample_engine [] [] Realtime))
      = en_sent (sample_engine [] [] Realtime) @ map snd (take k sample_stream)"
    using playback_never_skips_or_repeats[of "sample_engine [] [] Realtime" sample_stream,
        unfolded sample_engine_fields(1,2), OF sample_stream_ok(1) default_registry_sound sample_stream_ok(2)]
    by (elim exE conjE) (rule that)
  moreover have "length sample_stream = 3" by (simp add: sample_stream_def)
  ultimately show ?thesis by auto
qed

theorem playback_completes_witness:
  "en_playback (play sample_stream (sample_engine [] [] StepMode)) = Stopped \<and>
   en_sent (play sample_stream (sample_engine [] [] StepMode)) = map sample_frame [1, 2, 3] \<and>
   vs_frames_applied (en_state (play sample_stream (sample_engine [] [] StepMode))) = 3"
proof -
  obtain s where s: "run_reducers new_reducer_registry (map snd sample_stream) vs_empty = Some s"
    "vs_frames_applied s = 3"
    using run_default[of "map snd sample_stream" vs_empty] by (auto simp: vs_empty_def sample_stream_def)
  show ?thesis
    using playback_completes[of "sample_engine [] [] StepMode" sample_stream s]
      sample_stream_ok default_registry_sound s
    by (simp add: sample_stream_def)
qed


theorem checkpoint_seek_is_exact_witness:
  "\<exists>e'. engine_seek 9 2 (play sample_stream (sample_engine [] [] AsFastAsPossible)) = Some e' \<and>
     run_reducers new_reducer_registry (map sample_frame [1, 2]) vs_empty = Some (en_state e') \<and>
     cu_last_sequence (en_cursor e') = 2"
proof -
  let ?e = "play sample_stream (sample_engine [] [] AsFastAsPossible)"
  have "map fst (en_checkpoints ?e) = [2]"
    by code_simp
  then obtain cp where "(2, cp) \<in> set (en_checkpoints ?e)" by auto
  from checkpoint_seek_is_exact[OF sample_engine_new default_registry_sound sample_stream_ok(1,2) this]
  show ?thesis by (auto simp: sample_stream_def sample_frame_def)
qed

text \<open>One chunk of four frames with a snapshot at the second, and the same without its end.\<close>

definition sample_whole :: "chunk list" where
  "sample_whole = [sample_chunk 1 [1, 2, 3, 4]]"

definition sample_short :: "chunk list" where
  "sample_short = [sample_chunk 1 [1, 2]]"

lemma sample_whole_ok: "recording_ok sample_whole" "recording_ok sample_short"
  by (simp_all add: recording_ok_def all_frames_def sample_whole_def sample_short_def
      sample_chunk_def sample_frame_def)

lemma sample_snapshots_recorded:
  "recorded_by new_reducer_registry sample_whole sample_snapshots"
  "recorded_by new_reducer_registry sample_short sample_snapshots"
  "all_continued sample_whole sample_snapshots"
  by (simp_all add: recorded_by_def all_continued_def frames_to_def all_frames_def sample_whole_def
      sample_short_def sample_chunk_def sample_frame_def sample_snapshots_def reducers_apply_def
      new_reducer_registry_def advance_counters_def with_advance_def chunk_covers_def)

lemma sample_nearest:
  "nearest_at_or_before (snapshot_index_of sample_snapshots) 2 = Some (hd sample_snapshots)"
  "nearest_at_or_before (snapshot_index_of sample_snapshots) 4 = Some (hd sample_snapshots)"
  by (simp_all add: nearest_at_or_before_def snapshot_index_of_def sample_snapshots_def bisect_right_def)

lemma sample_start:
  "list_ex (chunk_covers 3) sample_whole" "reconstruction_start (Some (hd sample_snapshots)) = 3"
  "\<not> list_ex (chunk_covers (sn_sequence_at_capture (hd sample_snapshots) + 1)) sample_short"
  "sn_sequence_at_capture (hd sample_snapshots) = 2"
  by (simp_all add: chunk_covers_def sample_whole_def sample_short_def sample_chunk_def
      reconstruction_start_def sample_snapshots_def)

lemma sample_frames_to:
  "frames_to sample_whole 4 = map sample_frame [1, 2, 3, 4]" "frames_to sample_short 2 = map sample_frame [1, 2]"
  by (simp_all add: frames_to_def all_frames_def sample_whole_def sample_short_def sample_chunk_def
      sample_frame_def)

lemma sample_no_checkpoint: "no_checkpoint_at n (sample_engine chunks snaps mode)"
  by (simp add: no_checkpoint_at_def)

theorem seek_equals_playback_witness:
  "\<exists>e'. engine_seek 9 4 (sample_engine sample_whole sample_snapshots Realtime) = Some e' \<and>
     vs_frames_applied (en_state e') = 4"
proof -
  obtain s where s: "run_reducers new_reducer_registry (frames_to sample_whole 4) vs_empty = Some s"
    "vs_frames_applied s = 4"
    using run_default[of "frames_to sample_whole 4" vs_empty] by (auto simp: vs_empty_def sample_frames_to)
  show ?thesis
    using seek_equals_playback[where e = "sample_engine sample_whole sample_snapshots Realtime" and
        target = 4 and s = s and w = 9, OF sample_whole_ok(1) _ _ sample_engine_fields(6) sample_no_checkpoint] s default_registry_sound sample_snapshots_recorded
    by auto
qed

theorem seek_cursor_ignores_the_target_witness:
  "\<exists>e'. engine_seek 9 4 (sample_engine sample_whole sample_snapshots Realtime) = Some e' \<and>
     vs_last_sequence (en_state e') = 4 \<and> cu_last_sequence (en_cursor e') = 3"
proof -
  let ?e = "sample_engine sample_whole sample_snapshots Realtime"
  obtain s where s: "run_reducers new_reducer_registry (frames_to sample_whole 4) vs_empty = Some s"
    using run_default[of "frames_to sample_whole 4" vs_empty] by blast
  have "\<exists>e' f. engine_seek 9 4 ?e = Some e' \<and>
    vs_last_sequence (en_state e') = wf_sequence (last (frames_to sample_whole 4)) \<and>
    cu_last_sequence (en_cursor e') = wf_sequence f \<and>
    current_virtual_ns 9 (en_clock e') = wf_monotonic_ns f \<and>
    f \<in> set (all_frames sample_whole) \<and> 3 \<le> wf_sequence f \<and>
    (\<forall>g\<in>set (all_frames sample_whole). 3 \<le> wf_sequence g \<longrightarrow> wf_sequence f \<le> wf_sequence g)"
    by (rule seek_cursor_ignores_the_target[OF sample_whole_ok(1) _ _ sample_engine_fields(6)
          sample_no_checkpoint])
      (use s in \<open>simp_all add: default_registry_sound sample_snapshots_recorded sample_frames_to
        sample_nearest sample_start\<close>)
  then obtain e' f where e': "engine_seek 9 4 ?e = Some e'"
    "vs_last_sequence (en_state e') = wf_sequence (last (frames_to sample_whole 4))"
    "cu_last_sequence (en_cursor e') = wf_sequence f" "f \<in> set (all_frames sample_whole)"
    "3 \<le> wf_sequence f" "\<forall>g\<in>set (all_frames sample_whole). 3 \<le> wf_sequence g \<longrightarrow> wf_sequence f \<le> wf_sequence g"
    by blast
  then have "wf_sequence f = 3"
    by (auto simp: all_frames_def sample_whole_def sample_chunk_def sample_frame_def)
  then show ?thesis using e' by (simp add: sample_frames_to) (simp add: sample_frame_def)
qed

theorem uncontinued_snapshot_is_doubled_witness:
  "\<exists>e'. engine_seek 9 2 (sample_engine sample_short sample_snapshots Realtime) = Some e' \<and>
     vs_frames_applied (en_state e') = 4"
  using uncontinued_snapshot_is_doubled[where e = "sample_engine sample_short sample_snapshots Realtime" and
      target = 2 and sn = "hd sample_snapshots" and w = 9,
      OF sample_whole_ok(2) _ _ sample_engine_fields(6) sample_no_checkpoint]
    sample_snapshots_recorded(2) sample_nearest(1) sample_start(3,4)
  by (simp add: sample_frames_to)

definition sample_mid :: "playback_mode \<Rightarrow> replay_engine" where
  "sample_mid mode = (sample_engine [] [] mode)
     \<lparr>en_checkpoints := [(2, \<lparr>ec_sequence = 2, ec_monotonic_ns = 20, ec_state = with_advance 2 20 vs_empty\<rparr>)],
      en_cursor := jumped_to 4 40 40 engine_cursor_at_start, en_state := with_advance 4 40 vs_empty\<rparr>"

theorem play_after_seek_fails_witness:
  "en_playback (play [(env_with [] [], sample_frame 1)] (sample_mid Realtime)) = FailedState \<and>
   en_error (play [(env_with [] [], sample_frame 1)] (sample_mid Realtime))
     = ''sequence 1 not strictly after cursor 4'' \<and>
   en_sent (play [(env_with [] [], sample_frame 1)] (sample_mid Realtime)) = []"
proof -
  have "str_of_int 1 = ''1''" "str_of_int 4 = ''4''" by code_simp+
  then show ?thesis
    using play_after_seek_fails[of "sample_mid Realtime" "env_with [] []" "sample_frame 1" "[]"]
    by (simp add: sample_mid_def gets_turn_def env_with_def sample_frame_def jumped_to_def Let_def)
qed

theorem seek_during_push_is_half_undone_witness:
  "\<exists>e'. loop_frame (env_with [] [CSeek 9 2]) (sample_frame 5) (sample_mid Realtime) = (Continue, e') \<and>
     vs_last_sequence (en_state e') = 2 \<and> cu_last_sequence (en_cursor e') = 5"
proof -
  obtain s where s: "reducers_apply new_reducer_registry (with_advance 4 40 vs_empty) (sample_frame 5) = Some s"
    by (simp add: reducers_apply_def new_reducer_registry_def)
  have "ready (sample_mid Realtime)" by (simp add: ready_def sample_mid_def)
  from seek_during_push_is_half_undone[OF this, of "env_with [] [CSeek 9 2]" 9 2 "sample_frame 5" s
      "\<lparr>ec_sequence = 2, ec_monotonic_ns = 20, ec_state = with_advance 2 20 vs_empty\<rparr>"]
  show ?thesis
    using s default_registry_sound
    by (auto simp: sample_mid_def gets_turn_def env_with_def sample_frame_def jumped_to_def
        check_pre_dispatch_def nearest_checkpoint_def with_advance_def)
qed

theorem realtime_waits_are_capped_witness:
  "let c = en_clock (sample_engine [] [] Realtime);
       s = schedule Realtime 500000000 0 10000000000 c
   in sc_wait_seconds s * 1000000000 = 500000000 \<and>
      10000000000 - current_virtual_ns 500000000 c = 9500000000"
  using realtime_waits_are_capped[of 0 "en_clock (sample_engine [] [] Realtime)" 500000000 10000000000]
  by (auto simp: Let_def)


section \<open>Well-formed engines\<close>

text \<open>
  What the code assumes of its own state: a paused clock has its frozen time (the clock asserts it),
  the pause gate is open exactly when the clock runs, the speed is positive, and the
  bounded structures are within their bounds with checkpoints filed under their own sequence.
\<close>

definition engine_wf :: "replay_engine \<Rightarrow> bool" where
  "engine_wf e \<longleftrightarrow>
     (ck_paused (en_clock e) \<longleftrightarrow> ck_paused_virtual_ns (en_clock e) \<noteq> None) \<and>
     (en_running e \<longleftrightarrow> \<not> ck_paused (en_clock e)) \<and> 0 < ck_speed (en_clock e) \<and>
     1 \<le> en_checkpoint_interval e \<and> length (en_speed_history e) \<le> speed_history_capacity \<and>
     distinct (dkeys (en_checkpoints e)) \<and> length (en_checkpoints e) \<le> checkpoint_capacity \<and>
     (\<forall>(q, cp)\<in>set (en_checkpoints e). ec_sequence cp = q)"

text \<open>Everything a caller can do with an engine; a playback has its frames with their interleavings.\<close>

datatype engine_call = Control control | Play "(frame_env \<times> wire_frame) list" | FinishStop
  | RestoreSnapshot int

fun engine_do :: "engine_call \<Rightarrow> replay_engine \<Rightarrow> replay_engine" where
  "engine_do (Control c) e = apply_control c e"
| "engine_do (Play fs) e = play fs e"
| "engine_do FinishStop e = finish_stop e"
| "engine_do (RestoreSnapshot q) e = (case restore_snapshot_at q e of None \<Rightarrow> e | Some e' \<Rightarrow> e')"

lemma engine_wf_cong:
  "en_clock e' = en_clock e \<Longrightarrow> en_running e' = en_running e \<Longrightarrow>
   en_checkpoint_interval e' = en_checkpoint_interval e \<Longrightarrow>
   en_speed_history e' = en_speed_history e \<Longrightarrow> en_checkpoints e' = en_checkpoints e \<Longrightarrow>
   engine_wf e' = engine_wf e"
  by (simp add: engine_wf_def)

lemma count_engine_wf [simp]: "engine_wf (count_engine g e) = engine_wf e"
  by (rule engine_wf_cong) (simp_all add: count_engine_def)

lemma seek_wf:
  assumes "engine_wf e" "engine_seek w target e = Some e'"
  shows "engine_wf e'"
proof -
  have jump: "engine_wf (e\<lparr>en_state := s, en_cursor := cu, en_clock := clock_jump_to w t (en_clock e)\<rparr>)" for s cu t
    using assms(1) by (auto simp: engine_wf_def clock_jump_to_def Let_def)
  have "engine_wf e1" if "restore_via_loader w target e = Some (used, e1)" for used e1
    using that jump by (auto simp: restore_via_loader_def Let_def split: option.splits)
  moreover have "engine_wf (restore_from_checkpoint w cp e)" for cp
    unfolding restore_from_checkpoint_def by (rule jump)
  ultimately show ?thesis
    using assms(2) by (auto simp: engine_seek_def Let_def split: option.splits if_splits prod.splits)
qed

lemma control_wf: "engine_wf e \<Longrightarrow> engine_wf (apply_control c e)"
proof (cases c)
  case (CSpeed w w' h s)
  assume wf: "engine_wf e"
  obtain c' where set: "clock_set_speed w w' (clamp_speed s) (en_clock e) = Some c'"
    using clock_set_speed_some[OF clamp_speed_pos[of s]] by blast
  then have "ck_paused c' = ck_paused (en_clock e)" "ck_speed c' = clamp_speed s"
    "ck_paused c' \<longleftrightarrow> ck_paused_virtual_ns c' \<noteq> None"
    using wf by (auto simp: clock_set_speed_def engine_wf_def Let_def split: if_splits)
  then show ?thesis
    using wf set CSpeed clamp_speed_pos[of s]
    by (simp add: engine_set_speed_def speed_controller_set_def Let_def engine_wf_def count_engine_def
        length_ring_push)
next
  case (CSeek w target)
  assume "engine_wf e"
  then show ?thesis using seek_wf[of e w target] CSeek by (auto split: option.split)
qed (auto simp: engine_wf_def engine_pause_def engine_resume_def pause_controller_pause_def request_stop_def
      pause_controller_resume_def clock_pause_def clock_resume_def count_engine_def Let_def)

lemma controls_wf: "engine_wf e \<Longrightarrow> engine_wf (fold apply_control cs e)"
  by (induction cs arbitrary: e) (simp_all add: control_wf)

lemma guarded_wf:
  assumes "engine_wf e" "engine_wf (snd d)"
  shows "engine_wf (snd (case guarded v e of Some r \<Rightarrow> r | None \<Rightarrow> d))"
  using assms by (auto simp: guarded_def Let_def split: option.split)

lemma record_wf:
  assumes "engine_wf e"
  shows "engine_wf (e\<lparr>en_sent := a, en_checkpoints := record_checkpoint checkpoint_capacity s (en_checkpoints e)\<rparr>)"
proof -
  have d: "distinct (dkeys (en_checkpoints e))" using assms by (simp add: engine_wf_def)
  have "\<forall>(q, cp)\<in>set (record_checkpoint checkpoint_capacity s (en_checkpoints e)). ec_sequence cp = q"
    using record_checkpoint_parts(3)[OF d, of _ checkpoint_capacity s] assms
    by (fastforce simp: engine_wf_def engine_checkpoint_of_def)
  then show ?thesis
    using assms record_checkpoint_parts(1,2)[OF d, of checkpoint_capacity s] by (simp add: engine_wf_def)
qed

lemma dispatch_wf:
  assumes "engine_wf e"
  shows "engine_wf (snd (dispatch_frame env f cursor e))"
proof (cases "reducers_apply (en_reducers e) (en_state e) f")
  case (Some s)
  let ?e2 = "e\<lparr>en_state := s, en_deliveries := en_deliveries e @ router_publish f (en_router e)\<rparr>"
  have "engine_wf ?e2" using assms by (simp add: engine_wf_def)
  then have e3: "engine_wf (fold apply_control (env_emit env) ?e2)" by (rule controls_wf)
  have upd: "engine_wf (x\<lparr>en_sent := a\<rparr>) = engine_wf x" "engine_wf (x\<lparr>en_cursor := b\<rparr>) = engine_wf x" for x a b
    by (simp_all add: engine_wf_def)
  show ?thesis
    using Some e3 record_wf[OF e3]
    by (simp add: dispatch_frame_def Let_def) (intro conjI impI guarded_wf; simp add: upd)
qed (use assms in \<open>simp add: dispatch_frame_def\<close>)

lemma loop_body_wf: "engine_wf e \<Longrightarrow> engine_wf (snd (loop_body env f e))"
proof -
  assume wf: "engine_wf e"
  have turn: "engine_wf (snd (await_turn env f e))"
    using wf controls_wf[of "count_engine g e" for g] controls_wf[of e] by (auto simp: await_turn_def Let_def)
  show ?thesis
    using guarded_wf[OF turn dispatch_wf[OF turn]] turn by (simp add: loop_body_def split_beta Let_def)
qed

lemma loop_frame_wf:
  assumes "engine_wf e"
  shows "engine_wf (snd (loop_frame env f e))"
proof -
  have wait: "engine_wf x \<Longrightarrow> engine_wf (snd (wait_event P cs x))" for P cs x
    by (simp add: wait_event_fold controls_wf)
  have step: "engine_wf (x\<lparr>en_step := b\<rparr>) = engine_wf x" for x b by (simp add: engine_wf_def)
  obtain rel e1 where gate: "(if en_running e then (True, e) else wait_event en_running (env_gate env) e) = (rel, e1)"
    by fastforce
  obtain stp e2 where turn: "(if en_step e1 then (True, e1) else wait_event en_step (env_step env) e1) = (stp, e2)"
    by fastforce
  have e1: "engine_wf e1" using gate assms wait[of e en_running "env_gate env"] by (auto split: if_splits)
  have "engine_wf e2" using turn e1 wait[of e1 en_step "env_step env"] by (auto split: if_splits)
  then have e2: "engine_wf (e2\<lparr>en_step := False\<rparr>)" using step by blast
  show ?thesis
    unfolding loop_frame_def gate Let_def prod.case turn
    using assms e1 e2 step loop_body_wf[OF e1] loop_body_wf[OF e2] by simp
qed

lemma run_loop_wf: "engine_wf e \<Longrightarrow> engine_wf (run_loop fs e)"
proof (induction fs arbitrary: e)
  case (Cons x fs)
  obtain env f where x: "x = (env, f)" by fastforce
  obtain r e1 where frame: "loop_frame env f e = (r, e1)" by fastforce
  have "engine_wf e1" using loop_frame_wf[OF Cons.prems, of env f] frame by simp
  then show ?case
    using Cons.IH[of e1] frame x by (cases r) (simp_all add: engine_wf_def)
qed (simp add: engine_wf_def)

lemma engine_do_wf: "engine_wf e \<Longrightarrow> engine_wf (engine_do c e)"
proof (cases c)
  case (Play fs)
  assume wf: "engine_wf e"
  have "engine_wf (e\<lparr>en_stop := False, en_playback := Playing, en_error := []\<rparr>)"
    using wf by (simp add: engine_wf_def)
  then show ?thesis unfolding Play by (simp add: play_def run_loop_wf)
next
  case (RestoreSnapshot q)
  assume wf: "engine_wf e"
  have "engine_wf (e\<lparr>en_state := s\<rparr>)" for s using wf by (simp add: engine_wf_def)
  then show ?thesis
    using wf RestoreSnapshot by (auto simp: restore_snapshot_at_def split: option.splits)
next
  case FinishStop
  assume "engine_wf e"
  then show ?thesis using FinishStop by (auto simp: finish_stop_def engine_wf_def count_engine_def)
qed (simp_all add: control_wf)

text \<open>C23: Every engine stays well formed. Whatever is done with a constructed engine - pauses, resumes,
  speed changes, steps, stops, seeks to anywhere, snapshot restores, and playbacks of any frames with
  any controls at any of their awaits and any failing reducer or push - the clock's internal
  assertion holds, the pause gate agrees with the clock, the speed is positive, the speed
  history has at most 16 entries, and the at most 32 checkpoints have distinct sequence numbers and
  are filed under their own.
\<close>

theorem engine_stays_well_formed:
  assumes "new_replay_engine w rec cfg g = Some e"
  shows "engine_wf (fold engine_do calls e)"
proof -
  have new: "engine_wf e"
    using assms
    by (auto simp: new_replay_engine_def new_clock_def engine_wf_def split: if_splits)
  have "engine_wf x \<Longrightarrow> engine_wf (fold engine_do calls x)" for x
    by (induction calls arbitrary: x) (simp_all add: engine_do_wf)
  then show ?thesis using new by blast
qed

theorem engine_stays_well_formed_witness:
  "engine_wf (fold engine_do [Control (CPause 5), Control (CSeek 6 2), Play [(env_with [] [], sample_frame 1)]]
     (sample_engine sample_whole sample_snapshots Realtime))"
  by (rule engine_stays_well_formed[OF sample_engine_new])

end
