(* ===== verification/Caches.thy ===== *)
theory Caches
  imports Prelude
begin

text \<open>
  Bounded caches. Three classes of the program keep an \<open>OrderedDict\<close> under a capacity and evict from its
  front: the topology view of the backpressure layer, the reducer cache and the replay frame cache
  of the memory layer. The locale \<open>lru_cache\<close> states what storing and reading must do to the entries and
  derives that the cache is the tail of the unbounded recency list; every class interprets it. Here are the two
  caches of \<open>asyncviz/runtime/memory\<close> (\<open>reducer_memory.py\<close>, \<open>replay_compaction.py\<close>) with the projection pool.
\<close>

section \<open>Ordered dictionaries\<close>

text \<open>\<open>d.move_to_end(k)\<close> of a key that is present; and storing under a capacity, as the classes do it.\<close>

definition move_to_end :: "'k \<Rightarrow> ('k, 'v) dict \<Rightarrow> ('k, 'v) dict" where
  "move_to_end k d = (case dget d k of None \<Rightarrow> d | Some v \<Rightarrow> dpop k d @ [(k, v)])"

definition evict_front :: "nat \<Rightarrow> ('k, 'v) dict \<Rightarrow> ('k, 'v) dict" where
  "evict_front n d = drop (length d - n) d"

lemma dpop_append: "dpop k (xs @ ys) = dpop k xs @ dpop k ys"
  by (induction xs) auto

lemma dpop_dset: "dpop k (dset k v d) = dpop k d"
  by (rule delete_update_same)

lemma move_to_end_dset: "move_to_end k (dset k v d) = dpop k d @ [(k, v)]"
  by (simp add: move_to_end_def dget_dset dpop_dset)

lemma evict_front_take_last: "evict_front n d = take_last n d"
  by (simp add: evict_front_def take_last_def)

lemma take_last_tail: "length bs = n \<Longrightarrow> take_last n (as @ bs) = bs"
  by (simp add: take_last_def)

lemma take_last_touch_present:
  assumes "distinct (dkeys d)" "dget (take_last n d) k \<noteq> None"
  shows "take_last n (dpop k d @ [(k, v)]) = dpop k (take_last n d) @ [(k, v)]"
proof -
  define suf pre where "suf = take_last n d" and "pre = take (length d - n) d"
  have d: "d = pre @ suf" by (simp add: pre_def suf_def take_last_def)
  have k: "k \<in> set (dkeys suf)" "k \<notin> set (dkeys pre)"
  proof -
    show "k \<in> set (dkeys suf)" using assms(2) unfolding in_dkeys_iff suf_def .
    moreover have "distinct (dkeys pre @ dkeys suf)" using assms(1) d by (metis map_append)
    ultimately show "k \<notin> set (dkeys pre)" by auto
  qed
  have "distinct (dkeys suf)" using assms(1) d by (metis distinct_append map_append)
  then have len: "length (dpop k suf @ [(k, v)]) = length suf"
    using length_dpop[OF _ k(1)] by simp
  show ?thesis
  proof (cases "length d \<le> n")
    case True
    then have "length (dpop k d @ [(k, v)]) \<le> n" using len by (simp add: suf_def take_last_all)
    then show ?thesis using True by (simp add: take_last_all)
  next
    case False
    then have n: "length (dpop k suf @ [(k, v)]) = n" using len by (simp add: suf_def)
    have "dpop k d @ [(k, v)] = dpop k pre @ (dpop k suf @ [(k, v)])" by (simp add: d dpop_append)
    then show ?thesis unfolding suf_def[symmetric] using take_last_tail[OF n] by simp
  qed
qed

lemma take_last_touch_absent:
  assumes "dget (take_last n d) k = None" "0 < n"
  shows "take_last n (dpop k d @ [(k, v)]) = take_last n (take_last n d @ [(k, v)])"
proof -
  define suf pre where "suf = take_last n d" and "pre = take (length d - n) d"
  have d: "d = pre @ suf" by (simp add: pre_def suf_def take_last_def)
  have "k \<notin> set (dkeys suf)" using assms(1) by (simp add: dget_None_iff suf_def del: set_map)
  then have pop: "dpop k d = dpop k pre @ suf" unfolding d dpop_append by simp
  show ?thesis
  proof (cases "length d \<le> n")
    case True
    then show ?thesis using pop by (simp add: suf_def pre_def take_last_all)
  next
    case False
    then have "length suf = n" by (simp add: suf_def)
    then show ?thesis unfolding suf_def[symmetric] pop by (simp add: take_last_def)
  qed
qed

section \<open>The interface\<close>

datatype ('k, 'v) cache_call = Store 'k 'v | Fetch 'k

text \<open>The reference: everything ever stored, the entry touched last at the end, with capacity \<open>n\<close> for lookups.\<close>

fun recency_do :: "nat \<Rightarrow> ('k, 'v) cache_call \<Rightarrow> ('k, 'v) dict \<Rightarrow> ('k, 'v) dict" where
  "recency_do n (Store k v) d = dpop k d @ [(k, v)]"
| "recency_do n (Fetch k) d =
     (case dget (take_last n d) k of None \<Rightarrow> d | Some v \<Rightarrow> dpop k d @ [(k, v)])"

locale lru_cache =
  fixes entries :: "'s \<Rightarrow> ('k, 'v) dict"
    and room :: "'s \<Rightarrow> nat"
    and store :: "'k \<Rightarrow> 'v \<Rightarrow> 's \<Rightarrow> 's"
    and fetch :: "'k \<Rightarrow> 's \<Rightarrow> 's"
  assumes room_store: "room (store k v s) = room s"
    and room_fetch: "room (fetch k s) = room s"
    and store_present: "dget (entries s) k \<noteq> None \<Longrightarrow> entries (store k v s) = move_to_end k (dset k v (entries s))"
    and store_absent: "dget (entries s) k = None \<Longrightarrow>
      entries (store k v s) = evict_front (room s) (dset k v (entries s))"
    and fetch_touches: "entries (fetch k s) = move_to_end k (entries s)"
begin

fun perform :: "('k, 'v) cache_call \<Rightarrow> 's \<Rightarrow> 's" where
  "perform (Store k v) s = store k v s"
| "perform (Fetch k) s = fetch k s"

lemma perform_step:
  assumes "entries s = take_last (room s) d" "distinct (dkeys d)" "0 < room s"
  shows "entries (perform call s) = take_last (room s) (recency_do (room s) call d) \<and>
    distinct (dkeys (recency_do (room s) call d)) \<and> room (perform call s) = room s"
proof -
  have dist: "distinct (dkeys (dpop k d @ [(k, v)]))" for k v
    using assms(2) by (simp add: delete_notin_dom)
  show ?thesis
  proof (cases call)
    case (Store k v)
    show ?thesis
    proof (cases "dget (entries s) k")
      case None
      then have "dset k v (entries s) = entries s @ [(k, v)]"
        by (simp add: dget_None_iff dset_fresh del: set_map)
      then show ?thesis
        using None Store dist take_last_touch_absent[of "room s" d k v] assms(1,3)
        by (simp add: store_absent room_store evict_front_take_last)
    next
      case (Some w)
      then show ?thesis
        using Store dist take_last_touch_present[OF assms(2), of "room s" k v] assms(1)
        by (simp add: store_present room_store move_to_end_dset)
    qed
  next
    case (Fetch k)
    then show ?thesis
      using assms dist take_last_touch_present[OF assms(2), of "room s" k]
      by (simp add: fetch_touches room_fetch move_to_end_def split: option.split)
  qed
qed

lemma perform_all:
  assumes "entries s = take_last (room s) d" "distinct (dkeys d)" "0 < room s"
  shows "entries (fold perform calls s) = take_last (room s) (fold (recency_do (room s)) calls d) \<and>
    room (fold perform calls s) = room s"
  using assms
proof (induction calls arbitrary: s d)
  case (Cons call calls)
  note P = perform_step[OF Cons.prems, of call]
  have "entries (fold perform calls (perform call s)) =
      take_last (room s) (fold (recency_do (room s)) calls (recency_do (room s) call d)) \<and>
    room (fold perform calls (perform call s)) = room s"
    using Cons.IH[of "perform call s" "recency_do (room s) call d"] P Cons.prems(3) by simp
  then show ?case by simp
qed simp

lemma fresh_is_lru:
  assumes "entries s = []" "0 < room s"
  shows "entries (fold perform calls s) = take_last (room s) (fold (recency_do (room s)) calls []) \<and>
    length (entries (fold perform calls s)) \<le> room s"
  using perform_all[of s "[]" calls] assms by (simp add: take_last_def)

end

section \<open>The reducer cache\<close>

text \<open>A cached value is never \<open>None\<close> here; \<open>get\<close> could not tell it from a miss.\<close>

record ('k, 'v) reducer_cache =
  rh_name :: string
  rh_capacity :: nat
  rh_buf :: "('k, 'v) dict"
  rh_evictions :: nat

definition new_reducer_cache :: "string \<Rightarrow> nat \<Rightarrow> ('k, 'v) reducer_cache option" where
  "new_reducer_cache name capacity =
     (if capacity < 1 then None
      else Some \<lparr>rh_name = name, rh_capacity = capacity, rh_buf = [], rh_evictions = 0\<rparr>)"

definition cache_get :: "'k \<Rightarrow> ('k, 'v) reducer_cache \<Rightarrow> 'v option \<times> ('k, 'v) reducer_cache" where
  "cache_get k c =
     (case dget (rh_buf c) k of
        None \<Rightarrow> (None, c)
      | Some v \<Rightarrow> (Some v, c\<lparr>rh_buf := move_to_end k (rh_buf c)\<rparr>))"

definition cache_put :: "'k \<Rightarrow> 'v \<Rightarrow> ('k, 'v) reducer_cache \<Rightarrow> ('k, 'v) reducer_cache" where
  "cache_put k v c =
     (if dget (rh_buf c) k \<noteq> None
      then c\<lparr>rh_buf := dset k v (move_to_end k (rh_buf c))\<rparr>
      else
        let d = dset k v (rh_buf c) in
        c\<lparr>rh_buf := evict_front (rh_capacity c) d,
          rh_evictions := rh_evictions c + (length d - rh_capacity c)\<rparr>)"

definition cache_discard :: "'k \<Rightarrow> ('k, 'v) reducer_cache \<Rightarrow> ('k, 'v) reducer_cache" where
  "cache_discard k c = c\<lparr>rh_buf := dpop k (rh_buf c)\<rparr>"

definition cache_clear :: "('k, 'v) reducer_cache \<Rightarrow> ('k, 'v) reducer_cache" where
  "cache_clear c = c\<lparr>rh_buf := []\<rparr>"

text \<open>\<open>None\<close> in front: the factory raised.\<close>

definition get_or_compute ::
    "'k \<Rightarrow> 'v option \<Rightarrow> ('k, 'v) reducer_cache \<Rightarrow> 'v option \<times> ('k, 'v) reducer_cache" where
  "get_or_compute k factory c =
     (case cache_get k c of
        (Some v, c') \<Rightarrow> (Some v, c')
      | (None, c') \<Rightarrow>
          (case factory of None \<Rightarrow> (None, c') | Some fresh \<Rightarrow> (Some fresh, cache_put k fresh c')))"

lemma dset_move_to_end:
  assumes "dget d k \<noteq> None"
  shows "dset k v (move_to_end k d) = move_to_end k (dset k v d)"
proof -
  have "dset k v (e @ [(k, w)]) = e @ [(k, v)]" if "k \<notin> fst ` set e" for e w
    using that by (induction e) auto
  from this[OF delete_notin_dom[of k d]] show ?thesis
    using assms by (auto simp: move_to_end_dset) (simp add: move_to_end_def)
qed

lemma move_to_end_absent: "dget d k = None \<Longrightarrow> move_to_end k d = d"
  by (simp add: move_to_end_def)

lemma dget_move_to_end: "dget (move_to_end k d) k' = dget d k'"
  by (auto simp: move_to_end_def map_add_def dget_dpop split: option.split)

interpretation reducer_lru: lru_cache rh_buf rh_capacity cache_put "\<lambda>k c. snd (cache_get k c)"
  by unfold_locales
    (auto simp: cache_put_def cache_get_def Let_def dset_move_to_end[simplified] move_to_end_absent split: option.split)

section \<open>The replay frame cache\<close>

record 'f frame_cache =
  fh_capacity :: nat
  fh_buf :: "(int, 'f) dict"

definition new_frame_cache :: "nat \<Rightarrow> 'f frame_cache option" where
  "new_frame_cache capacity =
     (if capacity < 1 then None else Some \<lparr>fh_capacity = capacity, fh_buf = []\<rparr>)"

definition frame_cache_get :: "int \<Rightarrow> 'f frame_cache \<Rightarrow> 'f option \<times> 'f frame_cache" where
  "frame_cache_get sequence c =
     (case dget (fh_buf c) sequence of
        None \<Rightarrow> (None, c)
      | Some f \<Rightarrow> (Some f, c\<lparr>fh_buf := move_to_end sequence (fh_buf c)\<rparr>))"

text \<open>A frame is stored under its own sequence.\<close>

definition frame_cache_put :: "int \<Rightarrow> 'f \<Rightarrow> 'f frame_cache \<Rightarrow> 'f frame_cache" where
  "frame_cache_put sequence f c =
     (if dget (fh_buf c) sequence \<noteq> None
      then c\<lparr>fh_buf := dset sequence f (move_to_end sequence (fh_buf c))\<rparr>
      else c\<lparr>fh_buf := evict_front (fh_capacity c) (dset sequence f (fh_buf c))\<rparr>)"

definition frame_cache_clear :: "'f frame_cache \<Rightarrow> 'f frame_cache" where
  "frame_cache_clear c = c\<lparr>fh_buf := []\<rparr>"

interpretation frame_lru: lru_cache fh_buf fh_capacity frame_cache_put "\<lambda>k c. snd (frame_cache_get k c)"
  by unfold_locales
    (auto simp: frame_cache_put_def frame_cache_get_def dset_move_to_end[simplified] move_to_end_absent split: option.split)

section \<open>The projection pool\<close>

text \<open>Returns whether the stored projection was reused.\<close>

definition reuse_or_store :: "'k \<Rightarrow> 'p \<Rightarrow> ('k, 'p) dict \<Rightarrow> bool \<times> 'p \<times> ('k, 'p) dict" where
  "reuse_or_store k projection table =
     (case dget table k of
        None \<Rightarrow> (False, projection, dset k projection table)
      | Some previous \<Rightarrow>
          if previous = projection then (True, previous, table)
          else (False, projection, dset k projection table))"

definition invalidate_projection :: "'k \<Rightarrow> ('k, 'p) dict \<Rightarrow> ('k, 'p) dict" where
  "invalidate_projection k table = dpop k table"

section \<open>Properties of the caches\<close>

text \<open>The caller's view of one cache: values asked for, with what the factory would give.\<close>

definition ask :: "'k \<times> 'v \<Rightarrow> ('k, 'v) reducer_cache \<Rightarrow> ('k, 'v) reducer_cache" where
  "ask kv c = snd (get_or_compute (fst kv) (Some (snd kv)) c)"

definition agrees :: "('k \<Rightarrow> 'v) \<Rightarrow> ('k, 'v) reducer_cache \<Rightarrow> bool" where
  "agrees f c \<longleftrightarrow> (\<forall>k v. dget (rh_buf c) k = Some v \<longrightarrow> v = f k) \<and> distinct (dkeys (rh_buf c)) \<and>
     length (rh_buf c) \<le> rh_capacity c"

lemma dget_drop:
  assumes "distinct (dkeys d)" "dget (drop n d) k = Some v"
  shows "dget d k = Some v"
  using assms by (meson distinct_in_dict in_set_dropD map_of_SomeD)

lemma ask_agrees:
  assumes "agrees f c"
  shows "agrees f (ask (x, f x) c) \<and> rh_capacity (ask (x, f x) c) = rh_capacity c"
proof (cases "dget (rh_buf c) x")
  case None
  let ?d = "dset x (f x) (rh_buf c)"
  have d: "distinct (dkeys ?d)" "\<forall>k v. dget ?d k = Some v \<longrightarrow> v = f k"
    using assms by (auto simp: agrees_def dget_dset)
  let ?n = "length ?d - rh_capacity c"
  have buf: "rh_buf (ask (x, f x) c) = drop ?n ?d" "rh_capacity (ask (x, f x) c) = rh_capacity c"
    using None by (simp_all add: ask_def get_or_compute_def cache_get_def cache_put_def evict_front_def Let_def)
  have "distinct (dkeys (drop ?n ?d))" unfolding drop_map[symmetric] using d(1) by (rule distinct_drop)
  moreover have "\<forall>k v. dget (drop ?n ?d) k = Some v \<longrightarrow> v = f k" using d(2) dget_drop[OF d(1)] by blast
  moreover have "length (drop ?n ?d) \<le> rh_capacity c" by (simp only: length_drop)
  ultimately show ?thesis unfolding agrees_def buf by blast
next
  case (Some v)
  have len: "length (dpop x (rh_buf c) @ [(x, v)]) = length (rh_buf c)"
    using assms Some length_dpop[of "rh_buf c" x] by (simp add: in_dkeys_iff agrees_def del: set_map)
  then show ?thesis
  proof -
    have buf: "rh_buf (ask (x, f x) c) = move_to_end x (rh_buf c)" "rh_capacity (ask (x, f x) c) = rh_capacity c"
      using Some by (simp_all add: ask_def get_or_compute_def cache_get_def)
    have "distinct (dkeys (move_to_end x (rh_buf c)))"
      using assms Some by (simp add: move_to_end_def agrees_def delete_notin_dom)
    moreover have "length (move_to_end x (rh_buf c)) = length (rh_buf c)" using len Some by (simp add: move_to_end_def)
    ultimately show ?thesis using assms unfolding agrees_def buf dget_move_to_end by metis
  qed
qed

lemma asks_agree:
  "agrees f c \<Longrightarrow> agrees f (fold ask (map (\<lambda>x. (x, f x)) asked) c) \<and>
     rh_capacity (fold ask (map (\<lambda>x. (x, f x)) asked) c) = rh_capacity c"
  by (induction asked arbitrary: c) (simp_all add: ask_agrees)

text \<open>A cached computation is the computation. Whatever keys were asked for before through \<open>get_or_compute\<close>, with a
  capacity of any size and any evictions, asking for \<open>k\<close> gives the value of the factory function at \<open>k\<close>,
  and at most \<open>capacity\<close> values are held.
\<close>

theorem memoised_is_computed:
  assumes "new_reducer_cache name capacity = Some c"
  shows "fst (get_or_compute k (Some (f k)) (fold ask (map (\<lambda>x. (x, f x)) asked) c)) = Some (f k) \<and>
    length (rh_buf (fold ask (map (\<lambda>x. (x, f x)) asked) c)) \<le> capacity"
proof -
  define z where "z = fold ask (map (\<lambda>x. (x, f x)) asked) c"
  have "agrees f c" "rh_capacity c = capacity"
    using assms by (auto simp: new_reducer_cache_def agrees_def split: if_splits)
  then have z: "agrees f z" "rh_capacity z = capacity" using asks_agree[of f c asked] by (simp_all add: z_def)
  have "fst (get_or_compute k (Some (f k)) z) = Some (f k)"
    using z(1) by (cases "dget (rh_buf z) k") (simp_all add: get_or_compute_def cache_get_def agrees_def)
  then show ?thesis using z by (simp add: z_def[symmetric] agrees_def)
qed

theorem memoised_is_computed_witness:
  "\<exists>c :: (nat, nat) reducer_cache. new_reducer_cache ''tasks'' 1 = Some c \<and>
     fst (get_or_compute 3 (Some (3 * 3)) (fold ask (map (\<lambda>x. (x, x * x)) [3, 4, 3, 5]) c)) = Some 9"
proof -
  obtain c :: "(nat, nat) reducer_cache" where c: "new_reducer_cache ''tasks'' 1 = Some c"
    by (simp add: new_reducer_cache_def)
  show ?thesis using memoised_is_computed[OF c, of 3 "\<lambda>x. x * x" "[3, 4, 3, 5]"] c by auto
qed

end
