(* ===== verification/Pressure.thy ===== *)
theory Pressure
  imports Caches
begin

text \<open>
  Overload protection, its building blocks (\<open>asyncviz/runtime/backpressure\<close>): the configuration,
  the bounded queue with its four drop policies and the channel around it, the budget and the topology
  view. The theorems say what each drop policy keeps, that no item is lost track of, and that the
  default policy of the bus serves unimportant items first. The clock reading of a call is an argument.
\<close>

section \<open>Configuration\<close>

datatype drop_policy = DropOldest | DropNewest | DropLowPriority | BlockProducer

datatype emergency_action = EShed | EDisconnect | EHalt

record bp_config =
  bc_bus_capacity :: nat
  bc_websocket_capacity :: nat
  bc_recorder_capacity :: nat
  bc_reducer_capacity :: nat
  bc_bus_drop_policy :: drop_policy
  bc_websocket_drop_policy :: drop_policy
  bc_recorder_drop_policy :: drop_policy
  bc_reducer_drop_policy :: drop_policy
  bc_elevated_threshold :: real
  bc_overload_threshold :: real
  bc_emergency_threshold :: real
  bc_degrade_decay :: real
  bc_recovery_hold_ns :: int
  bc_emergency_action :: emergency_action
  bc_emit_overflow_markers :: bool
  bc_marker_summary_window :: nat
  bc_enforce_priority_floor :: bool

text \<open>\<open>__post_init__\<close>: the configurations it accepts.\<close>

definition band_ok :: "real \<Rightarrow> bool" where
  "band_ok b \<longleftrightarrow> 0 < b \<and> b \<le> 1"

definition bp_config_valid :: "bp_config \<Rightarrow> bool" where
  "bp_config_valid c \<longleftrightarrow>
     1 \<le> bc_bus_capacity c \<and> 1 \<le> bc_websocket_capacity c \<and> 1 \<le> bc_recorder_capacity c \<and>
     1 \<le> bc_reducer_capacity c \<and>
     band_ok (bc_elevated_threshold c) \<and> band_ok (bc_overload_threshold c) \<and>
     band_ok (bc_emergency_threshold c) \<and>
     bc_elevated_threshold c < bc_overload_threshold c \<and>
     bc_overload_threshold c < bc_emergency_threshold c \<and>
     0 < bc_degrade_decay c \<and> bc_degrade_decay c < 1 \<and> 0 \<le> bc_recovery_hold_ns c \<and>
     1 \<le> bc_marker_summary_window c"

definition default_bp_config :: bp_config where
  "default_bp_config =
     \<lparr>bc_bus_capacity = 16384, bc_websocket_capacity = 8192, bc_recorder_capacity = 32768,
      bc_reducer_capacity = 4096, bc_bus_drop_policy = DropLowPriority,
      bc_websocket_drop_policy = DropOldest, bc_recorder_drop_policy = BlockProducer,
      bc_reducer_drop_policy = DropLowPriority, bc_elevated_threshold = 1 / 2,
      bc_overload_threshold = 4 / 5, bc_emergency_threshold = 19 / 20, bc_degrade_decay = 9 / 10,
      bc_recovery_hold_ns = 1000000000, bc_emergency_action = EShed,
      bc_emit_overflow_markers = True, bc_marker_summary_window = 1024,
      bc_enforce_priority_floor = True\<rparr>"

definition lean_bp_config :: bp_config where
  "lean_bp_config = default_bp_config
     \<lparr>bc_bus_capacity := 2048, bc_websocket_capacity := 1024, bc_recorder_capacity := 4096,
      bc_reducer_capacity := 512\<rparr>"

definition relaxed_bp_config :: bp_config where
  "relaxed_bp_config = default_bp_config
     \<lparr>bc_bus_capacity := 131072, bc_websocket_capacity := 65536, bc_recorder_capacity := 262144,
      bc_reducer_capacity := 16384, bc_elevated_threshold := 13 / 20,
      bc_overload_threshold := 17 / 20, bc_emergency_threshold := 49 / 50\<rparr>"

lemma bp_configs_valid:
  "bp_config_valid default_bp_config" "bp_config_valid lean_bp_config"
  "bp_config_valid relaxed_bp_config"
  by (simp_all add: bp_config_valid_def band_ok_def default_bp_config_def lean_bp_config_def
      relaxed_bp_config_def)

section \<open>The bounded queue\<close>

text \<open>
  A deque for three of the policies, a heap of (priority, arrival, item) for the fourth. Of a heap
  the code sees the least element, its removal and the length; it is kept here as the sorted list,
  arrivals being distinct.
\<close>

type_synonym 'a heap_entry = "int \<times> nat \<times> 'a"

datatype 'a queue_buffer = Fifo "'a list" | Heap "'a heap_entry list"

fun entry_before :: "'a heap_entry \<Rightarrow> 'a heap_entry \<Rightarrow> bool" where
  "entry_before (p, c, x) (p', c', y) \<longleftrightarrow> p < p' \<or> p = p' \<and> c < c'"

fun heap_push :: "'a heap_entry \<Rightarrow> 'a heap_entry list \<Rightarrow> 'a heap_entry list" where
  "heap_push e [] = [e]"
| "heap_push e (f # fs) = (if entry_before e f then e # f # fs else f # heap_push e fs)"

record 'a bounded_queue =
  bq_capacity :: nat
  bq_policy :: drop_policy
  bq_buf :: "'a queue_buffer"
  bq_counter :: nat
  bq_accepted :: nat
  bq_rejected :: nat
  bq_evicted_oldest :: nat
  bq_evicted_low_priority :: nat

record 'a enqueue_verdict =
  ve_accepted :: bool
  ve_evicted :: "'a option"
  ve_reason :: string

text \<open>\<open>None\<close>: the constructor refuses a capacity below one.\<close>

definition new_bounded_queue :: "nat \<Rightarrow> drop_policy \<Rightarrow> 'a bounded_queue option" where
  "new_bounded_queue capacity policy =
     (if capacity < 1 then None
      else Some \<lparr>bq_capacity = capacity, bq_policy = policy,
                 bq_buf = (if policy = DropLowPriority then Heap [] else Fifo []), bq_counter = 0,
                 bq_accepted = 0, bq_rejected = 0, bq_evicted_oldest = 0,
                 bq_evicted_low_priority = 0\<rparr>)"

fun buffer_length :: "'a queue_buffer \<Rightarrow> nat" where
  "buffer_length (Fifo xs) = length xs"
| "buffer_length (Heap es) = length es"

definition queue_depth :: "'a bounded_queue \<Rightarrow> nat" where
  "queue_depth q = buffer_length (bq_buf q)"

definition push_locked :: "'a \<Rightarrow> int \<Rightarrow> 'a bounded_queue \<Rightarrow> 'a bounded_queue" where
  "push_locked item priority q =
     (case bq_buf q of
        Heap es \<Rightarrow> q\<lparr>bq_buf := Heap (heap_push (priority, bq_counter q, item) es),
                      bq_counter := bq_counter q + 1\<rparr>
      | Fifo xs \<Rightarrow> q\<lparr>bq_buf := Fifo (xs @ [item])\<rparr>)"

text \<open>\<open>None\<close> on an empty buffer, where the code would raise; its callers check first.\<close>

definition pop_oldest_locked :: "'a bounded_queue \<Rightarrow> ('a \<times> 'a bounded_queue) option" where
  "pop_oldest_locked q =
     (case bq_buf q of
        Heap es \<Rightarrow> (case es of [] \<Rightarrow> None | (p, c, x) # rest \<Rightarrow> Some (x, q\<lparr>bq_buf := Heap rest\<rparr>))
      | Fifo xs \<Rightarrow> (case xs of [] \<Rightarrow> None | x # rest \<Rightarrow> Some (x, q\<lparr>bq_buf := Fifo rest\<rparr>)))"

definition peek_lowest_priority_locked :: "'a bounded_queue \<Rightarrow> int option" where
  "peek_lowest_priority_locked q =
     (case bq_buf q of Heap ((p, c, x) # rest) \<Rightarrow> Some p | _ \<Rightarrow> None)"

text \<open>Evict the head and push the item.\<close>

definition evict_and_push ::
    "('a bounded_queue \<Rightarrow> 'a bounded_queue) \<Rightarrow> string \<Rightarrow> 'a \<Rightarrow> int \<Rightarrow> 'a bounded_queue \<Rightarrow>
     'a enqueue_verdict \<times> 'a bounded_queue" where
  "evict_and_push tally_eviction reason item priority q =
     (case pop_oldest_locked q of
        None \<Rightarrow> (\<lparr>ve_accepted = False, ve_evicted = None, ve_reason = reason\<rparr>, q)
      | Some (evicted, q1) \<Rightarrow>
          let q2 = tally_eviction (push_locked item priority q1) in
          (\<lparr>ve_accepted = True, ve_evicted = Some evicted, ve_reason = reason\<rparr>,
           q2\<lparr>bq_accepted := bq_accepted q2 + 1\<rparr>))"

definition refuse :: "string \<Rightarrow> 'a bounded_queue \<Rightarrow> 'a enqueue_verdict \<times> 'a bounded_queue" where
  "refuse reason q =
     (\<lparr>ve_accepted = False, ve_evicted = None, ve_reason = reason\<rparr>,
      q\<lparr>bq_rejected := bq_rejected q + 1\<rparr>)"

definition queue_offer ::
    "'a \<Rightarrow> int \<Rightarrow> 'a bounded_queue \<Rightarrow> 'a enqueue_verdict \<times> 'a bounded_queue" where
  "queue_offer item priority q =
     (if queue_depth q < bq_capacity q
      then let q1 = push_locked item priority q in
           (\<lparr>ve_accepted = True, ve_evicted = None, ve_reason = []\<rparr>,
            q1\<lparr>bq_accepted := bq_accepted q1 + 1\<rparr>)
      else if bq_policy q = DropNewest then refuse ''drop-newest'' q
      else if bq_policy q = BlockProducer then refuse ''block-full'' q
      else if bq_policy q = DropOldest
      then evict_and_push (\<lambda>q. q\<lparr>bq_evicted_oldest := bq_evicted_oldest q + 1\<rparr>) ''drop-oldest''
             item priority q
      else if (case peek_lowest_priority_locked q of None \<Rightarrow> False | Some p \<Rightarrow> priority < p)
      then refuse ''drop-low-priority-incoming'' q
      else evict_and_push (\<lambda>q. q\<lparr>bq_evicted_low_priority := bq_evicted_low_priority q + 1\<rparr>)
             ''drop-low-priority'' item priority q)"

definition queue_take :: "'a bounded_queue \<Rightarrow> 'a option \<times> 'a bounded_queue" where
  "queue_take q = (case pop_oldest_locked q of None \<Rightarrow> (None, q) | Some (x, q') \<Rightarrow> (Some x, q'))"

fun buffer_items :: "'a queue_buffer \<Rightarrow> 'a list" where
  "buffer_items (Fifo xs) = xs"
| "buffer_items (Heap es) = map (snd \<circ> snd) es"

fun buffer_empty :: "'a queue_buffer \<Rightarrow> 'a queue_buffer" where
  "buffer_empty (Fifo xs) = Fifo []"
| "buffer_empty (Heap es) = Heap []"

definition queue_drain :: "'a bounded_queue \<Rightarrow> 'a list \<times> 'a bounded_queue" where
  "queue_drain q = (buffer_items (bq_buf q), q\<lparr>bq_buf := buffer_empty (bq_buf q)\<rparr>)"

definition queue_clear :: "'a bounded_queue \<Rightarrow> 'a bounded_queue" where
  "queue_clear q = q\<lparr>bq_buf := buffer_empty (bq_buf q)\<rparr>"

record queue_stats =
  qt_capacity :: nat
  qt_depth :: nat
  qt_accepted :: nat
  qt_rejected :: nat
  qt_evicted_oldest :: nat
  qt_evicted_low_priority :: nat

definition queue_stats_of :: "'a bounded_queue \<Rightarrow> queue_stats" where
  "queue_stats_of q =
     \<lparr>qt_capacity = bq_capacity q, qt_depth = queue_depth q, qt_accepted = bq_accepted q,
      qt_rejected = bq_rejected q, qt_evicted_oldest = bq_evicted_oldest q,
      qt_evicted_low_priority = bq_evicted_low_priority q\<rparr>"

section \<open>The channel\<close>

record 'a event_channel =
  ec_name :: string
  ec_queue :: "'a bounded_queue"
  ec_overflow_count :: nat

definition new_event_channel :: "string \<Rightarrow> nat \<Rightarrow> drop_policy \<Rightarrow> 'a event_channel option" where
  "new_event_channel name capacity policy =
     map_option (\<lambda>q. \<lparr>ec_name = name, ec_queue = q, ec_overflow_count = 0\<rparr>)
       (new_bounded_queue capacity policy)"

definition channel_depth :: "'a event_channel \<Rightarrow> nat" where
  "channel_depth ch = queue_depth (ec_queue ch)"

definition channel_pressure_ratio :: "'a event_channel \<Rightarrow> real" where
  "channel_pressure_ratio ch =
     (if bq_capacity (ec_queue ch) \<le> 0 then 0
      else real (queue_depth (ec_queue ch)) / real (bq_capacity (ec_queue ch)))"

definition overflowed :: "'a enqueue_verdict \<Rightarrow> bool" where
  "overflowed v \<longleftrightarrow> \<not> ve_accepted v \<or> ve_evicted v \<noteq> None"

definition offer_channel ::
    "'a \<Rightarrow> int \<Rightarrow> 'a event_channel \<Rightarrow> 'a enqueue_verdict \<times> 'a event_channel" where
  "offer_channel item priority ch =
     (let (v, q) = queue_offer item priority (ec_queue ch) in
      (v, ch\<lparr>ec_queue := q,
             ec_overflow_count := (if overflowed v then ec_overflow_count ch + 1
                                   else ec_overflow_count ch)\<rparr>))"

definition take_channel :: "'a event_channel \<Rightarrow> 'a option \<times> 'a event_channel" where
  "take_channel ch = (let (x, q) = queue_take (ec_queue ch) in (x, ch\<lparr>ec_queue := q\<rparr>))"

definition drain_channel :: "'a event_channel \<Rightarrow> 'a list \<times> 'a event_channel" where
  "drain_channel ch = (let (xs, q) = queue_drain (ec_queue ch) in (xs, ch\<lparr>ec_queue := q\<rparr>))"

definition clear_channel :: "'a event_channel \<Rightarrow> 'a event_channel" where
  "clear_channel ch = ch\<lparr>ec_queue := queue_clear (ec_queue ch), ec_overflow_count := 0\<rparr>"

record channel_stats =
  hs_name :: string
  hs_queue :: queue_stats
  hs_overflow_count :: nat

definition channel_stats_of :: "'a event_channel \<Rightarrow> channel_stats" where
  "channel_stats_of ch =
     \<lparr>hs_name = ec_name ch, hs_queue = queue_stats_of (ec_queue ch),
      hs_overflow_count = ec_overflow_count ch\<rparr>"

section \<open>The budget\<close>

record bp_budget =
  bu_window_ns :: int
  bu_window_start :: int
  bu_accepted :: nat
  bu_rejected :: nat
  bu_overflowed :: nat

definition new_budget :: "int \<Rightarrow> int \<Rightarrow> bp_budget option" where
  "new_budget now window_ns =
     (if window_ns < 1000000 then None
      else Some \<lparr>bu_window_ns = window_ns, bu_window_start = now, bu_accepted = 0, bu_rejected = 0,
                 bu_overflowed = 0\<rparr>)"

definition budget_roll :: "int \<Rightarrow> bp_budget \<Rightarrow> bp_budget" where
  "budget_roll now b =
     (if bu_window_ns b \<le> now - bu_window_start b
      then b\<lparr>bu_window_start := now, bu_accepted := 0, bu_rejected := 0, bu_overflowed := 0\<rparr>
      else b)"

definition budget_record_accepted :: "int \<Rightarrow> bp_budget \<Rightarrow> bp_budget" where
  "budget_record_accepted now b = (let b = budget_roll now b in b\<lparr>bu_accepted := bu_accepted b + 1\<rparr>)"

definition budget_record_rejected :: "int \<Rightarrow> bp_budget \<Rightarrow> bp_budget" where
  "budget_record_rejected now b = (let b = budget_roll now b in b\<lparr>bu_rejected := bu_rejected b + 1\<rparr>)"

definition budget_record_overflowed :: "int \<Rightarrow> bp_budget \<Rightarrow> bp_budget" where
  "budget_record_overflowed now b =
     (let b = budget_roll now b in b\<lparr>bu_overflowed := bu_overflowed b + 1\<rparr>)"

definition budget_reset :: "int \<Rightarrow> bp_budget \<Rightarrow> bp_budget" where
  "budget_reset now b =
     b\<lparr>bu_window_start := now, bu_accepted := 0, bu_rejected := 0, bu_overflowed := 0\<rparr>"

section \<open>The topology view\<close>

record 'n topology_view =
  tv_capacity :: nat
  tv_nodes :: "(string, 'n) dict"
  tv_evicted :: nat

definition new_topology_view :: "nat \<Rightarrow> 'n topology_view option" where
  "new_topology_view capacity =
     (if capacity < 1 then None
      else Some \<lparr>tv_capacity = capacity, tv_nodes = [], tv_evicted = 0\<rparr>)"

definition topology_upsert :: "string \<Rightarrow> 'n \<Rightarrow> 'n topology_view \<Rightarrow> 'n topology_view" where
  "topology_upsert k v t =
     (if dget (tv_nodes t) k \<noteq> None
      then t\<lparr>tv_nodes := move_to_end k (dset k v (tv_nodes t))\<rparr>
      else
        let nodes = dset k v (tv_nodes t) in
        t\<lparr>tv_nodes := evict_front (tv_capacity t) nodes,
          tv_evicted := tv_evicted t + (length nodes - tv_capacity t)\<rparr>)"

definition topology_get :: "string \<Rightarrow> 'n topology_view \<Rightarrow> 'n option \<times> 'n topology_view" where
  "topology_get k t =
     (case dget (tv_nodes t) k of
        None \<Rightarrow> (None, t)
      | Some v \<Rightarrow> (Some v, t\<lparr>tv_nodes := move_to_end k (tv_nodes t)\<rparr>))"

definition topology_remove :: "string \<Rightarrow> 'n topology_view \<Rightarrow> 'n topology_view" where
  "topology_remove k t = t\<lparr>tv_nodes := dpop k (tv_nodes t)\<rparr>"

definition topology_clear :: "'n topology_view \<Rightarrow> 'n topology_view" where
  "topology_clear t = t\<lparr>tv_nodes := [], tv_evicted := 0\<rparr>"

interpretation topology_lru: lru_cache tv_nodes tv_capacity topology_upsert "\<lambda>k t. snd (topology_get k t)"
  by unfold_locales
    (auto simp: topology_upsert_def topology_get_def Let_def move_to_end_def split: option.split)

fun view_do :: "(string, 'n) cache_call \<Rightarrow> 'n topology_view \<Rightarrow> 'n topology_view" where
  "view_do (Store k v) t = topology_upsert k v t"
| "view_do (Fetch k) t = snd (topology_get k t)"

lemma view_do_perform: "view_do = topology_lru.perform"
proof (intro ext)
  fix call and t :: "'n topology_view"
  show "view_do call t = topology_lru.perform call t" by (cases call) simp_all
qed

text \<open>The bounded topology view is an LRU cache. After any upserts and lookups on a fresh view of capacity \<open>n\<close> it
  holds exactly the \<open>n\<close> nodes touched last, in the order of their last touch, with their latest payloads:
  the last \<open>n\<close> entries of the unbounded recency list.
\<close>

theorem topology_view_is_lru:
  assumes "new_topology_view n = Some t"
  shows "tv_nodes (fold view_do calls t) = take_last n (fold (recency_do n) calls []) \<and>
    length (tv_nodes (fold view_do calls t)) \<le> n"
proof -
  have "tv_nodes t = []" "tv_capacity t = n" "0 < n"
    using assms by (auto simp: new_topology_view_def split: if_splits)
  then show ?thesis using topology_lru.fresh_is_lru[of t calls] by (simp add: view_do_perform)
qed

theorem topology_view_is_lru_witness:
  "\<exists>t :: nat topology_view. new_topology_view 2 = Some t \<and>
     tv_nodes (fold view_do [Store ''a'' 1, Store ''b'' 2, Fetch ''a'', Store ''c'' 3] t) = [(''a'', 1), (''c'', 3)]"
proof -
  obtain t :: "nat topology_view" where t: "new_topology_view 2 = Some t" by (simp add: new_topology_view_def)
  show ?thesis
    using topology_view_is_lru[OF t, of "[Store ''a'' 1, Store ''b'' 2, Fetch ''a'', Store ''c'' 3]"] t
    by (simp add: take_last_def)
qed


section \<open>What a bounded queue holds\<close>

fun insert_after :: "('b \<Rightarrow> int) \<Rightarrow> 'b \<Rightarrow> 'b list \<Rightarrow> 'b list" where
  "insert_after f x [] = [x]"
| "insert_after f x (y # ys) = (if f y \<le> f x then y # insert_after f x ys else x # y # ys)"

lemma length_insert_after [simp]: "length (insert_after f x ys) = Suc (length ys)"
  by (induction ys) auto

lemma insort_insert_after:
  "insort_key f a (insert_after f x ys) = insert_after f x (insort_key f a ys)"
  by (induction ys) auto

lemma sort_key_snoc: "sort_key f (xs @ [x]) = insert_after f x (sort_key f xs)"
  by (induction xs) (simp_all add: insort_insert_after)

lemma take_last_suffix: "length bs = n \<Longrightarrow> take_last n (as @ bs) = bs"
  by (simp add: take_last_def)

lemma insert_after_below:
  "bs \<noteq> [] \<Longrightarrow> f x < f (hd bs) \<Longrightarrow> insert_after f x (as @ bs) = insert_after f x as @ bs"
  by (induction as) (cases bs; simp)+

lemma insert_after_above:
  "\<forall>y\<in>set as. f y \<le> f x \<Longrightarrow> insert_after f x (as @ bs) = as @ insert_after f x bs"
  by (induction as) auto

text \<open>Keeping the last \<open>n\<close> of a growing sorted list needs only the ones kept.\<close>

lemma take_last_sorted_step:
  assumes "1 \<le> n" "sorted (map f ys)"
  shows "take_last n (insert_after f x ys) =
    (let buf = take_last n ys in
     if length buf < n then insert_after f x buf
     else if f x < f (hd buf) then buf else insert_after f x (tl buf))"
proof (cases "length ys < n")
  case True
  then show ?thesis by (simp add: take_last_def)
next
  case False
  define zs where "zs = take (length ys - n) ys"
  define buf where "buf = take_last n ys"
  have ys: "ys = zs @ buf" by (simp add: zs_def buf_def take_last_def)
  have len: "length buf = n" using False by (simp add: buf_def take_last_def)
  then obtain b bs where buf: "buf = b # bs" using assms(1) by (cases buf) auto
  have below: "\<forall>y\<in>set zs. f y \<le> f b"
    using assms(2) ys buf by (auto simp: sorted_append)
  show ?thesis
  proof (cases "f x < f b")
    case True
    then have "insert_after f x ys = insert_after f x zs @ buf"
      unfolding ys using insert_after_below[of buf f x zs] buf by simp
    then show ?thesis
      unfolding buf_def[symmetric] using len True buf by (simp add: take_last_suffix)
  next
    case False
    then have "\<forall>y\<in>set (zs @ [b]). f y \<le> f x" using below by auto
    then have "insert_after f x ys = (zs @ [b]) @ insert_after f x bs"
      unfolding ys buf using insert_after_above[of "zs @ [b]" f x bs] by simp
    moreover have "length (insert_after f x bs) = n" using len buf by simp
    ultimately show ?thesis
      unfolding buf_def[symmetric] using len False buf take_last_suffix[of "insert_after f x bs" n "zs @ [b]"] by simp
  qed
qed

definition entry_item :: "'a heap_entry \<Rightarrow> 'a \<times> int" where
  "entry_item e = (case e of (p, c, x) \<Rightarrow> (x, p))"

lemma heap_push_items:
  assumes "\<forall>e\<in>set es. fst (snd e) < c"
  shows "map entry_item (heap_push (p, c, x) es) = insert_after snd (x, p) (map entry_item es)"
  using assms
proof (induction es)
  case (Cons e es)
  obtain p' c' y where e: "e = (p', c', y)" by (cases e)
  then show ?case using Cons by (auto simp: entry_item_def)
qed (simp add: entry_item_def)

lemma set_heap_push [simp]: "set (heap_push e es) = insert e (set es)"
  by (induction es) auto

lemma length_heap_push [simp]: "length (heap_push e es) = Suc (length es)"
  by (induction es) auto

text \<open>What the queue should hold after a list of offers: an item with its priority each.\<close>

definition kept_offers :: "drop_policy \<Rightarrow> nat \<Rightarrow> ('a \<times> int) list \<Rightarrow> 'a list" where
  "kept_offers policy n offers =
     map fst (case policy of
        DropNewest \<Rightarrow> take n offers
      | BlockProducer \<Rightarrow> take n offers
      | DropOldest \<Rightarrow> take_last n offers
      | DropLowPriority \<Rightarrow> take_last n (sort_key snd offers))"

definition offer_all :: "('a \<times> int) list \<Rightarrow> 'a bounded_queue \<Rightarrow> 'a bounded_queue" where
  "offer_all offers q = fold (\<lambda>(x, p) q. snd (queue_offer x p q)) offers q"

fun buffer_is :: "drop_policy \<Rightarrow> nat \<Rightarrow> ('a \<times> int) list \<Rightarrow> nat \<Rightarrow> 'a queue_buffer \<Rightarrow> bool" where
  "buffer_is policy n offers c (Heap es) \<longleftrightarrow>
     policy = DropLowPriority \<and> (\<forall>e\<in>set es. fst (snd e) < c) \<and>
     map entry_item es = take_last n (sort_key snd offers)"
| "buffer_is policy n offers c (Fifo xs) \<longleftrightarrow>
     policy \<noteq> DropLowPriority \<and> xs = kept_offers policy n offers"

lemma offer_step:
  assumes "1 \<le> bq_capacity q" "buffer_is (bq_policy q) (bq_capacity q) offers (bq_counter q) (bq_buf q)"
  shows "let q' = snd (queue_offer x p q) in
    bq_capacity q' = bq_capacity q \<and> bq_policy q' = bq_policy q \<and>
    buffer_is (bq_policy q) (bq_capacity q) (offers @ [(x, p)]) (bq_counter q') (bq_buf q')"
proof (cases "bq_buf q")
  case (Heap es)
  let ?n = "bq_capacity q"
  have ok: "bq_policy q = DropLowPriority" "\<forall>e\<in>set es. fst (snd e) < bq_counter q"
    "map entry_item es = take_last ?n (sort_key snd offers)"
    using assms(2) Heap by simp_all
  have next_items: "take_last ?n (sort_key snd (offers @ [(x, p)])) =
    (if length es < ?n then insert_after snd (x, p) (map entry_item es)
     else if p < snd (hd (map entry_item es)) then map entry_item es
     else insert_after snd (x, p) (tl (map entry_item es)))"
  proof -
    have "length es = length (take_last ?n (sort_key snd offers))" by (metis length_map ok(3))
    then show ?thesis
      using take_last_sorted_step[OF assms(1), of snd "sort_key snd offers" "(x, p)"]
      unfolding ok(3) sort_key_snoc Let_def by simp
  qed
  show ?thesis
  proof (cases "length es < ?n")
    case True
    then show ?thesis
      using ok next_items Heap heap_push_items[OF ok(2), of p x]
      by (auto simp: queue_offer_def queue_depth_def push_locked_def Let_def less_Suc_eq)
  next
    case False
    then obtain e rest where es: "es = e # rest" using assms(1) by (cases es) auto
    obtain p' c' y where e: "e = (p', c', y)" by (cases e)
    have push: "map entry_item (heap_push (p, bq_counter q, x) rest)
        = insert_after snd (x, p) (map entry_item rest)"
      using ok(2) es by (intro heap_push_items) simp
    have kept: "take_last ?n (sort_key snd (offers @ [(x, p)])) =
      (if p < p' then (y, p') # map entry_item rest else insert_after snd (x, p) (map entry_item rest))"
      using next_items False es e by (simp add: entry_item_def)
    show ?thesis
      using False ok(1,2) kept Heap es e push
      by (auto simp: queue_offer_def queue_depth_def push_locked_def Let_def less_Suc_eq refuse_def
          peek_lowest_priority_locked_def evict_and_push_def pop_oldest_locked_def entry_item_def)
  qed
next
  case (Fifo xs)
  have ok: "bq_policy q \<noteq> DropLowPriority" "xs = kept_offers (bq_policy q) (bq_capacity q) offers"
    using assms(2) Fifo by simp_all
  show ?thesis
  proof (cases "length xs < bq_capacity q")
    case True
    then have "xs = map fst offers" "length offers < bq_capacity q"
      using ok by (cases "bq_policy q"; auto simp: kept_offers_def take_last_def min_def split: if_splits)+
    then show ?thesis
      using True ok(1) Fifo
      by (cases "bq_policy q")
        (auto simp: queue_offer_def queue_depth_def push_locked_def Let_def kept_offers_def take_last_def)
  next
    case False
    then have len: "bq_capacity q \<le> length offers"
      using ok by (cases "bq_policy q") (auto simp: kept_offers_def take_last_def)
    then have full: "length xs = bq_capacity q"
      using ok by (cases "bq_policy q") (auto simp: kept_offers_def take_last_def)
    then obtain y ys where xs: "xs = y # ys" using assms(1) by (cases xs) auto
    have "ys @ [x] = take_last (bq_capacity q) (xs @ [x])"
      using full xs by (simp add: take_last_def)
    then have "bq_policy q = DropOldest \<Longrightarrow> ys @ [x] = map fst (take_last (bq_capacity q) (offers @ [(x, p)]))"
      using ok(2) take_last_idem_append[of "bq_capacity q" "map fst offers" "[x]"]
      using assms(1) by (simp add: kept_offers_def take_last_def drop_map)
    then show ?thesis
      using False ok len Fifo full xs
      by (cases "bq_policy q")
        (auto simp: queue_offer_def queue_depth_def push_locked_def Let_def kept_offers_def refuse_def
          evict_and_push_def pop_oldest_locked_def)
  qed
qed


lemma offer_all_ok:
  assumes "1 \<le> bq_capacity q" "buffer_is (bq_policy q) (bq_capacity q) past (bq_counter q) (bq_buf q)"
  shows "let q' = offer_all offers q in
    bq_capacity q' = bq_capacity q \<and> bq_policy q' = bq_policy q \<and>
    buffer_is (bq_policy q) (bq_capacity q) (past @ offers) (bq_counter q') (bq_buf q')"
  using assms
proof (induction offers arbitrary: q past)
  case (Cons y offers)
  obtain x p where y: "y = (x, p)" by fastforce
  let ?q = "snd (queue_offer x p q)"
  have step: "bq_capacity ?q = bq_capacity q" "bq_policy ?q = bq_policy q"
    "buffer_is (bq_policy q) (bq_capacity q) (past @ [(x, p)]) (bq_counter ?q) (bq_buf ?q)"
    using offer_step[OF Cons.prems, of x p] by (simp_all add: Let_def)
  then show ?case
    using Cons.IH[of ?q "past @ [(x, p)]"] Cons.prems(1) y by (simp add: offer_all_def Let_def)
qed (simp add: offer_all_def)

text \<open>What every drop policy keeps. After any offers to a fresh queue of capacity \<open>n\<close>,
  \<open>drop-newest\<close> and \<open>block\<close> hold the first \<open>n\<close> items, \<open>drop-oldest\<close> the last \<open>n\<close>, and
  \<open>drop-low-priority\<close> exactly the last \<open>n\<close> of the offers sorted by priority with ties in order of
  arrival - the \<open>n\<close> most important ones, the later ones among equals - whatever was refused or
  evicted on the way.
\<close>

theorem bounded_queue_contents:
  assumes "new_bounded_queue n policy = Some q"
  shows "buffer_items (bq_buf (offer_all offers q)) = kept_offers policy n offers"
proof -
  have q: "1 \<le> bq_capacity q" "bq_capacity q = n" "bq_policy q = policy"
    "buffer_is policy n [] (bq_counter q) (bq_buf q)"
    using assms by (auto simp: new_bounded_queue_def kept_offers_def take_last_def
        split: if_splits drop_policy.splits)
  have ok: "buffer_is policy n offers (bq_counter (offer_all offers q)) (bq_buf (offer_all offers q))"
    using offer_all_ok[of q "[]" offers] q by (simp add: Let_def)
  show ?thesis
  proof (cases "bq_buf (offer_all offers q)")
    case (Heap es)
    have "map (\<lambda>e. snd (snd e)) es = map fst (map entry_item es)" by (auto simp: entry_item_def)
    also have "map entry_item es = take_last n (sort_key snd offers)" using ok Heap by simp
    finally show ?thesis using ok Heap by (simp add: kept_offers_def comp_def)
  qed (use ok in simp)
qed

theorem bounded_queue_contents_witness:
  "buffer_items (bq_buf (offer_all [(''a'', 5), (''b'', 1), (''c'', 5), (''d'', 0), (''e'', 7)]
     (the (new_bounded_queue 3 DropLowPriority)))) = [''a'', ''c'', ''e'']"
proof -
  have "new_bounded_queue 3 DropLowPriority = Some (the (new_bounded_queue 3 DropLowPriority) :: string bounded_queue)"
    by (simp add: new_bounded_queue_def)
  from bounded_queue_contents[OF this, of "[(''a'', 5), (''b'', 1), (''c'', 5), (''d'', 0), (''e'', 7)]"]
  show ?thesis by (simp add: kept_offers_def take_last_def)
qed

section \<open>Accounting of a queue\<close>

datatype 'a queue_call = Offer 'a int | TakeOne | DrainAll

text \<open>The queue after a call, and how many items the consumer got.\<close>

fun queue_do :: "'a queue_call \<Rightarrow> nat \<times> 'a bounded_queue \<Rightarrow> nat \<times> 'a bounded_queue" where
  "queue_do (Offer x p) (n, q) = (n, snd (queue_offer x p q))"
| "queue_do TakeOne (n, q) = (case queue_take q of (None, q') \<Rightarrow> (n, q') | (Some x, q') \<Rightarrow> (n + 1, q'))"
| "queue_do DrainAll (n, q) = (let (xs, q') = queue_drain q in (n + length xs, q'))"

definition queue_accounts :: "nat \<Rightarrow> 'a bounded_queue \<Rightarrow> bool" where
  "queue_accounts got q \<longleftrightarrow>
     1 \<le> bq_capacity q \<and> queue_depth q \<le> bq_capacity q \<and>
     bq_accepted q = queue_depth q + bq_evicted_oldest q + bq_evicted_low_priority q + got \<and>
     (bq_evicted_oldest q = 0 \<or> bq_policy q = DropOldest) \<and>
     (bq_evicted_low_priority q = 0 \<or> bq_policy q = DropLowPriority) \<and>
     (bq_policy q = DropLowPriority \<longleftrightarrow> (\<exists>es. bq_buf q = Heap es))"

lemma queue_offer_accounts:
  assumes "queue_accounts n q"
  shows "queue_accounts n (snd (queue_offer x p q)) \<and>
    bq_accepted (snd (queue_offer x p q)) + bq_rejected (snd (queue_offer x p q))
      = bq_accepted q + bq_rejected q + 1"
proof (cases "bq_buf q")
  case (Heap es)
  then have "bq_policy q = DropLowPriority" using assms by (simp add: queue_accounts_def)
  then show ?thesis
    using assms Heap
    by (cases es)
      (auto simp: queue_accounts_def queue_offer_def queue_depth_def push_locked_def refuse_def Let_def
        evict_and_push_def pop_oldest_locked_def peek_lowest_priority_locked_def)
next
  case (Fifo xs)
  then have "bq_policy q \<noteq> DropLowPriority" using assms by (simp add: queue_accounts_def)
  then show ?thesis
    using assms Fifo
    by (cases xs; cases "bq_policy q")
      (auto simp: queue_accounts_def queue_offer_def queue_depth_def push_locked_def refuse_def Let_def
        evict_and_push_def pop_oldest_locked_def)
qed

lemma queue_do_accounts:
  assumes "queue_accounts n q" "queue_do c (n, q) = (n', q')"
  shows "queue_accounts n' q'"
proof (cases c)
  case (Offer x p)
  then show ?thesis using assms queue_offer_accounts[OF assms(1), of x p] by auto
next
  case TakeOne
  then show ?thesis
    using assms
    by (cases "bq_buf q")
      (auto simp: queue_accounts_def queue_take_def pop_oldest_locked_def queue_depth_def split: list.splits)
next
  case DrainAll
  then show ?thesis
    using assms
    by (cases "bq_buf q") (auto simp: queue_accounts_def queue_drain_def queue_depth_def Let_def)
qed

definition offers_in :: "'a queue_call list \<Rightarrow> nat" where
  "offers_in calls = length (filter (\<lambda>c. case c of Offer x p \<Rightarrow> True | _ \<Rightarrow> False) calls)"

text \<open>No item is lost track of. Under any sequence of offers, takes and drains on a fresh queue,
  whatever its policy, the depth never exceeds the capacity, every offer is counted as accepted
  or rejected, and every accepted item is in the queue, was delivered, or is counted as evicted -
  under the policy's own counter only.
\<close>

theorem bounded_queue_accounts:
  assumes "new_bounded_queue n policy = Some q" "fold queue_do calls (0, q) = (got, q')"
  shows "queue_depth q' \<le> n \<and> bq_accepted q' + bq_rejected q' = offers_in calls \<and>
    bq_accepted q' = queue_depth q' + bq_evicted_oldest q' + bq_evicted_low_priority q' + got \<and>
    (policy \<noteq> DropOldest \<longrightarrow> bq_evicted_oldest q' = 0) \<and>
    (policy \<noteq> DropLowPriority \<longrightarrow> bq_evicted_low_priority q' = 0)"
proof -
  have start: "queue_accounts 0 q" "bq_capacity q = n" "bq_policy q = policy" "bq_accepted q = 0" "bq_rejected q = 0"
    using assms(1) by (auto simp: new_bounded_queue_def queue_accounts_def queue_depth_def split: if_splits)
  have same: "bq_capacity (snd (queue_offer x p z)) = bq_capacity z"
    "bq_policy (snd (queue_offer x p z)) = bq_policy z" for x p and z :: "'a bounded_queue"
    by (auto simp: queue_offer_def push_locked_def refuse_def evict_and_push_def pop_oldest_locked_def Let_def
        split: option.split queue_buffer.split list.split)
  have run: "queue_accounts got q' \<and> bq_capacity q' = bq_capacity z \<and> bq_policy q' = bq_policy z \<and>
      bq_accepted q' + bq_rejected q' = bq_accepted z + bq_rejected z + offers_in calls"
    if "queue_accounts m z" "fold queue_do calls (m, z) = (got, q')" for m z
    using that
  proof (induction calls arbitrary: m z)
    case (Cons c calls)
    obtain m1 z1 where step: "queue_do c (m, z) = (m1, z1)" by fastforce
    have "bq_capacity z1 = bq_capacity z \<and> bq_policy z1 = bq_policy z \<and>
        bq_accepted z1 + bq_rejected z1 = bq_accepted z + bq_rejected z + offers_in [c]"
    proof (cases c)
      case (Offer x p)
      then show ?thesis
        using step queue_offer_accounts[OF Cons.prems(1), of x p] same[of x p z] by (auto simp: offers_in_def)
    qed (use step in \<open>auto simp: queue_take_def pop_oldest_locked_def queue_drain_def offers_in_def Let_def
          split: option.splits queue_buffer.splits list.splits\<close>)
    moreover have "offers_in (c # calls) = offers_in [c] + offers_in calls" by (simp add: offers_in_def)
    ultimately show ?case
      using Cons.IH[of m1 z1] Cons.prems(2) step queue_do_accounts[OF Cons.prems(1) step] by simp
  qed (simp add: offers_in_def)
  show ?thesis
    using run[OF start(1) assms(2)] start(2-5) by (auto simp: queue_accounts_def)
qed

theorem bounded_queue_accounts_witness:
  "let (got, q) = fold queue_do [Offer 1 0, Offer 2 0, Offer 3 0, TakeOne, Offer 4 0]
     (0, the (new_bounded_queue 2 DropOldest) :: nat bounded_queue)
   in bq_accepted q + bq_rejected q = 4 \<and> queue_depth q \<le> 2"
proof -
  let ?q = "the (new_bounded_queue 2 DropOldest) :: nat bounded_queue"
  let ?calls = "[Offer 1 0, Offer 2 0, Offer 3 0, TakeOne, Offer 4 0] :: nat queue_call list"
  obtain got q' where run: "fold queue_do ?calls (0, ?q) = (got, q')" by fastforce
  have "new_bounded_queue 2 DropOldest = Some ?q" by (simp add: new_bounded_queue_def)
  from bounded_queue_accounts[OF this run] show ?thesis
    unfolding run by (simp add: offers_in_def)
qed

section \<open>Who is served\<close>

lemma heap_push_low:
  assumes "\<forall>e\<in>set es. low < fst e"
  shows "heap_push (low, c, x) es = (low, c, x) # es"
  using assms by (cases es) auto

text \<open>Important items starve. A channel of the default bus policy, \<open>drop-low-priority\<close>, serves its
  consumer from the low end: as long as one less important item comes in before each take, the
  consumer is given that item every time, and the more important items waiting in the queue are never
  served, however long this goes on. Nothing is shed meanwhile.
\<close>

theorem important_items_starve:
  assumes "bq_policy q = DropLowPriority" "bq_buf q = Heap es" "length es < bq_capacity q"
    and "\<forall>e\<in>set es. low < fst e"
  shows "let (served, q') = fold (\<lambda>x (served, q). let (y, q') = queue_take (snd (queue_offer x low q))
                                    in (served @ [y], q')) xs ([], q)
         in served = map Some xs \<and> bq_buf q' = Heap es \<and> bq_rejected q' = bq_rejected q \<and>
            bq_evicted_low_priority q' = bq_evicted_low_priority q"
proof -
  let ?step = "\<lambda>x (served, q). let (y, q') = queue_take (snd (queue_offer x low q)) in (served @ [y], q')"
  have one: "\<exists>z'. ?step x (ys, z) = (ys @ [Some x], z') \<and> bq_policy z' = DropLowPriority \<and> bq_buf z' = Heap es \<and>
      length es < bq_capacity z' \<and> bq_rejected z' = bq_rejected z \<and>
      bq_evicted_low_priority z' = bq_evicted_low_priority z"
    if "bq_policy z = DropLowPriority" "bq_buf z = Heap es" "length es < bq_capacity z"
    for x ys and z :: "'a bounded_queue"
    using that assms(4)
    by (simp add: queue_offer_def queue_depth_def push_locked_def heap_push_low queue_take_def
        pop_oldest_locked_def Let_def)
  have "\<exists>z'. fold ?step xs (ys, z) = (ys @ map Some xs, z') \<and> bq_buf z' = Heap es \<and>
      bq_rejected z' = bq_rejected z \<and> bq_evicted_low_priority z' = bq_evicted_low_priority z"
    if "bq_policy z = DropLowPriority" "bq_buf z = Heap es" "length es < bq_capacity z"
    for ys and z :: "'a bounded_queue"
    using that
  proof (induction xs arbitrary: ys z)
    case (Cons x xs)
    obtain z' where z': "?step x (ys, z) = (ys @ [Some x], z')" "bq_policy z' = DropLowPriority"
      "bq_buf z' = Heap es" "length es < bq_capacity z'" "bq_rejected z' = bq_rejected z"
      "bq_evicted_low_priority z' = bq_evicted_low_priority z"
      using one[OF Cons.prems, of x ys] by blast
    show ?case using Cons.IH[OF z'(2-4), of "ys @ [Some x]"] z' by auto
  qed simp
  from this[OF assms(1-3), of "[]"] show ?thesis by auto
qed

theorem important_items_starve_witness:
  "let (served, q') = fold (\<lambda>x (served, q). let (y, q') = queue_take (snd (queue_offer x 0 q))
                                    in (served @ [y], q'))
       [''chatter 1'', ''chatter 2'', ''chatter 3'']
       ([], snd (queue_offer ''urgent'' 9 (the (new_bounded_queue 8 DropLowPriority))))
   in served = map Some [''chatter 1'', ''chatter 2'', ''chatter 3''] \<and>
      bq_buf q' = Heap [(9, 0, ''urgent'')]"
proof -
  let ?q = "snd (queue_offer ''urgent'' 9 (the (new_bounded_queue 8 DropLowPriority)))"
  have "bq_policy ?q = DropLowPriority" "bq_buf ?q = Heap [(9, 0, ''urgent'')]" "bq_capacity ?q = 8"
    by (simp_all add: new_bounded_queue_def queue_offer_def queue_depth_def push_locked_def)
  then show ?thesis
    using important_items_starve[of ?q "[(9, 0, ''urgent'')]" 0 "[''chatter 1'', ''chatter 2'', ''chatter 3'']"]
    by (simp add: split_beta Let_def)
qed

end
