(* ===== verification/Overload.thy ===== *)
theory Overload
  imports Pressure
begin

text \<open>
  \<open>runtime/backpressure\<close>, the decision: the thresholds, the overload detector with its smoothed ratio and its
  dwell timer, the policy that turns a change of state into actions, the adaptive controller that
  samples the sources at each tick and hands the actions out, and the runtime checks. The theorems bound
  how often the state changes, show that calm readings bring it back to \<open>NORMAL\<close>, and show two ways in which
  it does not behave as described: downgrades its own checker rejects, and sources that keep counting
  after they were removed. Times are arguments; a float is a real.
\<close>

section \<open>Thresholds\<close>

datatype overload_state = ONormal | OElevated | OOverload | OEmergency

fun overload_level :: "overload_state \<Rightarrow> int" where
  "overload_level ONormal = 0"
| "overload_level OElevated = 1"
| "overload_level OOverload = 2"
| "overload_level OEmergency = 3"

definition state_for_ratio :: "bp_config \<Rightarrow> real \<Rightarrow> overload_state" where
  "state_for_ratio cfg ratio =
     (if bc_emergency_threshold cfg \<le> ratio then OEmergency
      else if bc_overload_threshold cfg \<le> ratio then OOverload
      else if bc_elevated_threshold cfg \<le> ratio then OElevated
      else ONormal)"

definition is_upgrade :: "overload_state \<Rightarrow> overload_state \<Rightarrow> bool" where
  "is_upgrade previous new \<longleftrightarrow> overload_level previous < overload_level new"

definition is_downgrade :: "overload_state \<Rightarrow> overload_state \<Rightarrow> bool" where
  "is_downgrade previous new \<longleftrightarrow> overload_level new < overload_level previous"

fun lower_band :: "bp_config \<Rightarrow> overload_state \<Rightarrow> real" where
  "lower_band cfg OEmergency = bc_overload_threshold cfg"
| "lower_band cfg OOverload = bc_elevated_threshold cfg"
| "lower_band cfg OElevated = bc_elevated_threshold cfg * (3 / 4)"
| "lower_band cfg ONormal = 0"

text \<open>\<open>None\<close> is the \<open>ValueError\<close> of a decay outside the open unit interval.\<close>

definition ema_smooth :: "real \<Rightarrow> real \<Rightarrow> real \<Rightarrow> real option" where
  "ema_smooth decay previous observation =
     (if 0 < decay \<and> decay < 1 then Some (decay * previous + (1 - decay) * observation) else None)"

section \<open>The overload detector\<close>

record pressure_signal =
  ps_source :: string
  ps_value :: int
  ps_capacity :: int

definition signal_ratio :: "pressure_signal \<Rightarrow> real" where
  "signal_ratio s =
     (if ps_capacity s \<le> 0 then 0 else if ps_value s \<le> 0 then 0
      else real_of_int (ps_value s) / real_of_int (ps_capacity s))"

record overload_snapshot =
  os_state :: overload_state
  os_pressure_ratio :: real
  os_raw_pressure :: int
  os_last_transition_at_ns :: int
  os_transitions :: int
  os_emergency_actions_taken :: nat
  os_last_action_detail :: string

record overload_detector =
  dt_config :: bp_config
  dt_signals :: "(string, pressure_signal) dict"
  dt_smoothed :: real
  dt_last_raw :: int
  dt_state :: overload_state
  dt_last_transition_ns :: int
  dt_below_since :: "int option"
  dt_transitions :: int
  dt_emergency_actions :: nat
  dt_action_detail :: string

definition new_detector :: "bp_config \<Rightarrow> overload_detector" where
  "new_detector cfg =
     \<lparr>dt_config = cfg, dt_signals = [], dt_smoothed = 0, dt_last_raw = 0, dt_state = ONormal,
      dt_last_transition_ns = 0, dt_below_since = None, dt_transitions = 0,
      dt_emergency_actions = 0, dt_action_detail = []\<rparr>"

definition aggregate_ratio :: "(string, pressure_signal) dict \<Rightarrow> real" where
  "aggregate_ratio signals =
     (case map signal_ratio (dvals signals) of [] \<Rightarrow> 0 | r # rs \<Rightarrow> fold max rs r)"

definition detector_snapshot :: "overload_detector \<Rightarrow> overload_snapshot" where
  "detector_snapshot d =
     \<lparr>os_state = dt_state d, os_pressure_ratio = dt_smoothed d, os_raw_pressure = dt_last_raw d,
      os_last_transition_at_ns = dt_last_transition_ns d, os_transitions = dt_transitions d,
      os_emergency_actions_taken = dt_emergency_actions d,
      os_last_action_detail = dt_action_detail d\<rparr>"

text \<open>The next state and the dwell timer.\<close>

definition next_overload_state ::
    "int \<Rightarrow> overload_detector \<Rightarrow> overload_state \<times> int option" where
  "next_overload_state now d =
     (let proposed = state_for_ratio (dt_config d) (dt_smoothed d); previous = dt_state d in
      if overload_level previous < overload_level proposed then (proposed, None)
      else if overload_level proposed < overload_level previous
      then
        if dt_smoothed d < lower_band (dt_config d) previous
        then
          let since = (case dt_below_since d of None \<Rightarrow> now | Some t \<Rightarrow> t) in
          if bc_recovery_hold_ns (dt_config d) \<le> now - since then (proposed, None)
          else (previous, Some since)
        else (previous, None)
      else (previous, None))"

text \<open>
  Returns the snapshot and, when the state changed, the pair the listeners get: the snapshot before
  and the one after. Exceptions of listeners are suppressed by the code.
\<close>

definition maybe_transition_locked ::
    "int \<Rightarrow> overload_detector \<Rightarrow>
     overload_snapshot \<times> (overload_snapshot \<times> overload_snapshot) option \<times> overload_detector" where
  "maybe_transition_locked now d =
     (let (next, since) = next_overload_state now d; d1 = d\<lparr>dt_below_since := since\<rparr> in
      if next = dt_state d then (detector_snapshot d1, None, d1)
      else
        let d2 = d1\<lparr>dt_transitions := dt_transitions d1 + 1, dt_last_transition_ns := now,
                    dt_state := next,
                    dt_emergency_actions :=
                      (if next = OEmergency then dt_emergency_actions d1 + 1
                       else dt_emergency_actions d1)\<rparr>;
            after = detector_snapshot d2;
            before = after\<lparr>os_state := dt_state d, os_transitions := dt_transitions d2 - 1\<rparr>
        in (after, Some (before, after), d2))"

definition detector_observe ::
    "int \<Rightarrow> pressure_signal \<Rightarrow> overload_detector \<Rightarrow>
     (overload_snapshot \<times> (overload_snapshot \<times> overload_snapshot) option \<times> overload_detector) option" where
  "detector_observe now s d =
     (let d1 = d\<lparr>dt_signals := dset (ps_source s) s (dt_signals d), dt_last_raw := ps_value s\<rparr> in
      case ema_smooth (bc_degrade_decay (dt_config d1)) (dt_smoothed d1)
             (aggregate_ratio (dt_signals d1)) of
        None \<Rightarrow> None
      | Some r \<Rightarrow> Some (maybe_transition_locked now (d1\<lparr>dt_smoothed := r\<rparr>)))"

definition record_action_detail :: "string \<Rightarrow> overload_detector \<Rightarrow> overload_detector" where
  "record_action_detail detail d = d\<lparr>dt_action_detail := detail\<rparr>"

definition detector_reset :: "overload_detector \<Rightarrow> overload_detector" where
  "detector_reset d = new_detector (dt_config d)"

section \<open>The policy\<close>

datatype action_kind = TightenSampling | EngageWebsocketShedding | DrainLowPriorityQueue
  | DisconnectSlowClients | FlushRecorder | HaltProduction | Release

record degradation_action =
  da_kind :: action_kind
  da_detail :: string
  da_target :: string

fun overload_state_name :: "overload_state \<Rightarrow> string" where
  "overload_state_name ONormal = ''NORMAL''"
| "overload_state_name OElevated = ''ELEVATED''"
| "overload_state_name OOverload = ''OVERLOAD''"
| "overload_state_name OEmergency = ''EMERGENCY''"

definition emergency_action_of :: "bp_config \<Rightarrow> degradation_action" where
  "emergency_action_of cfg =
     (case bc_emergency_action cfg of
        EShed \<Rightarrow> \<lparr>da_kind = TightenSampling, da_detail = ''emergency action: shed'', da_target = ''*''\<rparr>
      | EDisconnect \<Rightarrow> \<lparr>da_kind = DisconnectSlowClients,
                        da_detail = ''emergency action: disconnect'', da_target = ''*''\<rparr>
      | EHalt \<Rightarrow> \<lparr>da_kind = HaltProduction, da_detail = ''emergency action: halt'',
                  da_target = ''*''\<rparr>)"

definition shared_actions :: "string \<Rightarrow> degradation_action list" where
  "shared_actions detail =
     [\<lparr>da_kind = TightenSampling, da_detail = detail, da_target = ''sampler''\<rparr>,
      \<lparr>da_kind = EngageWebsocketShedding, da_detail = detail, da_target = ''websocket''\<rparr>,
      \<lparr>da_kind = DrainLowPriorityQueue, da_detail = detail, da_target = ''bus''\<rparr>,
      \<lparr>da_kind = FlushRecorder, da_detail = detail, da_target = ''recorder''\<rparr>]"

definition actions_for ::
    "bp_config \<Rightarrow> overload_state \<Rightarrow> overload_state \<Rightarrow> degradation_action list" where
  "actions_for cfg previous next =
     (if previous = next then []
      else case next of
        ONormal \<Rightarrow> [\<lparr>da_kind = Release,
                       da_detail = ''pressure cleared (was='' @ overload_state_name previous @ '')'',
                       da_target = []\<rparr>]
      | OElevated \<Rightarrow> [\<lparr>da_kind = TightenSampling, da_detail = ''pressure elevated'',
                         da_target = ''sampler''\<rparr>]
      | OOverload \<Rightarrow> shared_actions ''pressure overload''
      | OEmergency \<Rightarrow> shared_actions ''emergency-mode entered'' @ [emergency_action_of cfg])"

section \<open>The adaptive controller\<close>

text \<open>
  A source is a callable with a capacity; what calling it gives is asked of \<open>read\<close>, \<open>None\<close> if it
  raises. \<open>now i\<close> is the clock at the \<open>i\<close>-th observation of a tick. A listener is a token; a tick
  returns each delivery of an action to a listener, in order.
\<close>

record ('src, 'l) adaptive_controller =
  ad_config :: bp_config
  ad_detector :: overload_detector
  ad_sources :: "(string, 'src \<times> int) dict"
  ad_listeners :: "'l list"
  ad_state :: overload_state

definition new_adaptive :: "bp_config \<Rightarrow> ('src, 'l) adaptive_controller" where
  "new_adaptive cfg =
     \<lparr>ad_config = cfg, ad_detector = new_detector cfg, ad_sources = [], ad_listeners = [],
      ad_state = ONormal\<rparr>"

definition register_source ::
    "string \<Rightarrow> 'src \<Rightarrow> int \<Rightarrow> ('src, 'l) adaptive_controller \<Rightarrow> ('src, 'l) adaptive_controller" where
  "register_source name src capacity a = a\<lparr>ad_sources := dset name (src, capacity) (ad_sources a)\<rparr>"

definition unregister_source ::
    "string \<Rightarrow> ('src, 'l) adaptive_controller \<Rightarrow> ('src, 'l) adaptive_controller" where
  "unregister_source name a = a\<lparr>ad_sources := dpop name (ad_sources a)\<rparr>"

definition subscribe_actions ::
    "'l \<Rightarrow> ('src, 'l) adaptive_controller \<Rightarrow> ('src, 'l) adaptive_controller" where
  "subscribe_actions l a = a\<lparr>ad_listeners := ad_listeners a @ [l]\<rparr>"

definition unsubscribe_actions ::
    "'l \<Rightarrow> ('src, 'l) adaptive_controller \<Rightarrow> ('src, 'l) adaptive_controller" where
  "unsubscribe_actions l a = a\<lparr>ad_listeners := remove1 l (ad_listeners a)\<rparr>"

fun sample_sources ::
    "('src \<Rightarrow> int option) \<Rightarrow> (nat \<Rightarrow> int) \<Rightarrow> nat \<Rightarrow> (string \<times> 'src \<times> int) list \<Rightarrow>
     overload_snapshot option \<Rightarrow> overload_detector \<Rightarrow>
     (overload_snapshot option \<times> overload_detector) option" where
  "sample_sources read now i [] snap d = Some (snap, d)"
| "sample_sources read now i ((name, src, capacity) # rest) snap d =
     (case read src of
        None \<Rightarrow> sample_sources read now i rest snap d
      | Some v \<Rightarrow>
          (case detector_observe (now i) \<lparr>ps_source = name, ps_value = v, ps_capacity = capacity\<rparr> d of
             None \<Rightarrow> None
           | Some (s, _, d') \<Rightarrow> sample_sources read now (i + 1) rest (Some s) d'))"

definition adaptive_tick ::
    "('src \<Rightarrow> int option) \<Rightarrow> (nat \<Rightarrow> int) \<Rightarrow> ('src, 'l) adaptive_controller \<Rightarrow>
     (overload_snapshot \<times> (degradation_action \<times> 'l) list \<times> ('src, 'l) adaptive_controller) option" where
  "adaptive_tick read now a =
     (let previous = dt_state (ad_detector a) in
      case sample_sources read now 0 (ad_sources a) None (ad_detector a) of
        None \<Rightarrow> None
      | Some (snap, d) \<Rightarrow>
          let s = (case snap of Some s \<Rightarrow> s | None \<Rightarrow> detector_snapshot d);
              deliveries = (if os_state s = previous then []
                else List.product (actions_for (ad_config a) previous (os_state s)) (ad_listeners a))
          in Some (s, deliveries, a\<lparr>ad_detector := d, ad_state := os_state s\<rparr>))"

definition adaptive_reset :: "('src, 'l) adaptive_controller \<Rightarrow> ('src, 'l) adaptive_controller" where
  "adaptive_reset a =
     a\<lparr>ad_sources := [], ad_listeners := [], ad_detector := detector_reset (ad_detector a),
       ad_state := ONormal\<rparr>"

section \<open>Runtime checks\<close>

datatype bp_violation = DowngradeSkip overload_state overload_state | NegativeRatio real

definition check_state_transition :: "overload_state \<Rightarrow> overload_state \<Rightarrow> bp_violation option" where
  "check_state_transition previous next =
     (if overload_level next - overload_level previous < -1 then Some (DowngradeSkip previous next)
      else None)"

definition check_pressure_ratio :: "real \<Rightarrow> bp_violation option" where
  "check_pressure_ratio ratio = (if ratio < 0 then Some (NegativeRatio ratio) else None)"

section \<open>The detector's transitions\<close>

lemma state_for_ratio_mono:
  assumes "bp_config_valid cfg" "x \<le> y"
  shows "overload_level (state_for_ratio cfg x) \<le> overload_level (state_for_ratio cfg y)"
  using assms by (auto simp: state_for_ratio_def bp_config_valid_def)

lemma overload_level_bounds: "0 \<le> overload_level s \<and> overload_level s \<le> 3"
  by (cases s) simp_all

lemma overload_level_inject: "overload_level s = overload_level s' \<longleftrightarrow> s = s'"
  by (cases s; cases s') simp_all

lemma observe_parts:
  assumes "detector_observe now s d = Some (snap, nt, d')"
  shows "dt_config d' = dt_config d \<and> dt_signals d' = dset (ps_source s) s (dt_signals d) \<and>
    dt_smoothed d' = bc_degrade_decay (dt_config d) * dt_smoothed d +
      (1 - bc_degrade_decay (dt_config d)) * aggregate_ratio (dset (ps_source s) s (dt_signals d)) \<and>
    os_state snap = dt_state d' \<and>
    (dt_state d', dt_below_since d') = next_overload_state now (d\<lparr>dt_smoothed := dt_smoothed d'\<rparr>) \<and>
    dt_transitions d' = dt_transitions d + (if dt_state d' = dt_state d then 0 else 1)"
proof -
  define sigs where "sigs = dset (ps_source s) s (dt_signals d)"
  define r where "r = bc_degrade_decay (dt_config d) * dt_smoothed d +
      (1 - bc_degrade_decay (dt_config d)) * aggregate_ratio sigs"
  have step: "maybe_transition_locked now (d\<lparr>dt_signals := sigs, dt_last_raw := ps_value s, dt_smoothed := r\<rparr>) =
      (snap, nt, d')"
    using assms by (simp add: detector_observe_def ema_smooth_def Let_def sigs_def r_def split: if_splits)
  obtain nx since where nx: "next_overload_state now (d\<lparr>dt_smoothed := r\<rparr>) = (nx, since)"
    by fastforce
  then have "next_overload_state now (d\<lparr>dt_signals := sigs, dt_last_raw := ps_value s, dt_smoothed := r\<rparr>) = (nx, since)"
    by (simp add: next_overload_state_def Let_def cong: if_cong option.case_cong)
  with step have "d' = (let d1 = d\<lparr>dt_signals := sigs, dt_last_raw := ps_value s, dt_smoothed := r,
        dt_below_since := since\<rparr> in
      if nx = dt_state d then d1
      else d1\<lparr>dt_transitions := dt_transitions d + 1, dt_last_transition_ns := now, dt_state := nx,
              dt_emergency_actions := (if nx = OEmergency then dt_emergency_actions d + 1
                                       else dt_emergency_actions d)\<rparr>) \<and> os_state snap = nx"
    by (auto simp: maybe_transition_locked_def Let_def detector_snapshot_def split: if_splits)
  with nx show ?thesis by (simp add: sigs_def r_def Let_def)
qed

lemma observe_some:
  "bp_config_valid (dt_config d) \<Longrightarrow> \<exists>x. detector_observe now s d = Some x"
  by (simp add: detector_observe_def ema_smooth_def bp_config_valid_def Let_def) (metis prod_cases3)

text \<open>Up at once, down only below the band and after the dwell time.\<close>

lemma next_overload_cases:
  assumes "next_overload_state now d = (s, since)"
    and "proposed = state_for_ratio (dt_config d) (dt_smoothed d)"
  shows "(overload_level (dt_state d) < overload_level proposed \<and> s = proposed \<and> since = None) \<or>
    (overload_level proposed < overload_level (dt_state d) \<and>
       dt_smoothed d < lower_band (dt_config d) (dt_state d) \<and> s = proposed \<and> since = None \<and>
       bc_recovery_hold_ns (dt_config d) \<le> now - (case dt_below_since d of None \<Rightarrow> now | Some t \<Rightarrow> t)) \<or>
    (s = dt_state d \<and> overload_level proposed \<le> overload_level s \<and>
       (since = None \<or>
        since = Some (case dt_below_since d of None \<Rightarrow> now | Some t \<Rightarrow> t) \<and>
          now - the since < bc_recovery_hold_ns (dt_config d) \<and>
          overload_level proposed < overload_level s))"
  using assms by (auto simp: next_overload_state_def Let_def split: if_splits option.splits)

lemma observe_level:
  assumes "detector_observe now s d = Some (snap, nt, d')"
  shows "overload_level (state_for_ratio (dt_config d) (dt_smoothed d')) \<le> overload_level (dt_state d')"
  using observe_parts[OF assms] next_overload_cases[of now "d\<lparr>dt_smoothed := dt_smoothed d'\<rparr>" "dt_state d'" "dt_below_since d'"]
  by auto

text \<open>Every recovery from overload breaks the subsystem's own rule. The checker demands that
  downgrades step one tier at a time. But the band the smoothed pressure must fall below to leave
  \<open>OVERLOAD\<close> is the threshold of \<open>ELEVATED\<close>, and to leave \<open>EMERGENCY\<close> that of \<open>OVERLOAD\<close>, while the next
  state is the one the pressure stands for: so \<open>OVERLOAD\<close> is always left straight to \<open>NORMAL\<close>, \<open>EMERGENCY\<close>
  never to \<open>OVERLOAD\<close>, and every downgrade from either is one that
  \<open>check_state_transition\<close> reports as illegal.
\<close>

theorem deep_downgrades_are_flagged:
  assumes "bp_config_valid (dt_config d)" "detector_observe now s d = Some (snap, nt, d')"
    and "is_downgrade (dt_state d) (dt_state d')" "dt_state d \<in> {OOverload, OEmergency}"
  shows "check_state_transition (dt_state d) (dt_state d') = Some (DowngradeSkip (dt_state d) (dt_state d')) \<and>
    (dt_state d = OOverload \<longrightarrow> dt_state d' = ONormal) \<and> dt_state d' \<noteq> OOverload"
proof -
  let ?d = "d\<lparr>dt_smoothed := dt_smoothed d'\<rparr>"
  have "next_overload_state now ?d = (dt_state d', dt_below_since d')"
    using observe_parts[OF assms(2)] by simp
  then have "dt_smoothed d' < lower_band (dt_config d) (dt_state d)"
    "dt_state d' = state_for_ratio (dt_config d) (dt_smoothed d')"
    using next_overload_cases[of now ?d "dt_state d'" "dt_below_since d'"] assms(3)
    by (auto simp: is_downgrade_def)
  then show ?thesis
    using assms(1,4)
    by (auto simp: state_for_ratio_def check_state_transition_def bp_config_valid_def)
qed

theorem deep_downgrades_are_flagged_witness:
  "\<exists>snap nt d'. detector_observe 5000000000
       \<lparr>ps_source = ''bus'', ps_value = 0, ps_capacity = 10\<rparr>
       ((new_detector default_bp_config)\<lparr>dt_state := OOverload, dt_smoothed := 1 / 2, dt_below_since := Some 0\<rparr>)
     = Some (snap, nt, d') \<and>
     check_state_transition OOverload (dt_state d') = Some (DowngradeSkip OOverload ONormal)"
proof -
  let ?d = "(new_detector default_bp_config)\<lparr>dt_state := OOverload, dt_smoothed := 1 / 2, dt_below_since := Some 0\<rparr>"
  let ?s = "\<lparr>ps_source = ''bus'', ps_value = 0, ps_capacity = 10\<rparr>"
  have valid: "bp_config_valid (dt_config ?d)" by (simp add: new_detector_def bp_configs_valid)
  obtain snap nt d' where obs: "detector_observe 5000000000 ?s ?d = Some (snap, nt, d')"
    using observe_some[OF valid] by (metis prod_cases3)
  then have "dt_state d' = ONormal"
    by (auto simp: detector_observe_def maybe_transition_locked_def next_overload_state_def
        new_detector_def default_bp_config_def ema_smooth_def aggregate_ratio_def signal_ratio_def
        state_for_ratio_def Let_def split: if_splits)
  then show ?thesis
    using deep_downgrades_are_flagged[OF valid obs] obs by (simp add: is_downgrade_def new_detector_def)
qed

section \<open>How often the state can change\<close>

fun observe_all :: "(int \<times> pressure_signal) list \<Rightarrow> overload_detector \<Rightarrow> overload_detector option" where
  "observe_all [] d = Some d"
| "observe_all ((now, s) # obs) d =
     (case detector_observe now s d of None \<Rightarrow> None | Some (_, _, d') \<Rightarrow> observe_all obs d')"

definition flaps_within :: "int \<Rightarrow> int \<Rightarrow> overload_detector \<Rightarrow> bool" where
  "flaps_within start upto_ns d \<longleftrightarrow>
     (\<exists>downs\<ge>0. dt_transitions d \<le> overload_level (dt_state d) + 4 * downs \<and>
        (case dt_below_since d of
           None \<Rightarrow> downs * bc_recovery_hold_ns (dt_config d) \<le> upto_ns - start
         | Some t \<Rightarrow> t \<le> upto_ns \<and> downs * bc_recovery_hold_ns (dt_config d) \<le> t - start))"

lemma observe_flaps:
  assumes "flaps_within start upto_ns d" "upto_ns \<le> now" "detector_observe now s d = Some (snap, nt, d')"
    and "0 \<le> bc_recovery_hold_ns (dt_config d)"
  shows "flaps_within start now d'"
proof -
  let ?d = "d\<lparr>dt_smoothed := dt_smoothed d'\<rparr>"
  let ?hold = "bc_recovery_hold_ns (dt_config d)"
  obtain downs where downs: "0 \<le> downs" "dt_transitions d \<le> overload_level (dt_state d) + 4 * downs"
    "case dt_below_since d of None \<Rightarrow> downs * ?hold \<le> upto_ns - start
       | Some t \<Rightarrow> t \<le> upto_ns \<and> downs * ?hold \<le> t - start"
    using assms(1) by (auto simp: flaps_within_def)
  have parts: "dt_config d' = dt_config d"
    "dt_transitions d' = dt_transitions d + (if dt_state d' = dt_state d then 0 else 1)"
    "next_overload_state now ?d = (dt_state d', dt_below_since d')"
    using observe_parts[OF assms(3)] by simp_all
  define since where "since = (case dt_below_since d of None \<Rightarrow> now | Some t \<Rightarrow> t)"
  have since: "downs * ?hold \<le> since - start" "since \<le> now"
    using downs(3) assms(2) by (auto simp: since_def split: option.splits)
  consider "overload_level (dt_state d) < overload_level (dt_state d')" "dt_below_since d' = None"
    | "overload_level (dt_state d') < overload_level (dt_state d)" "dt_below_since d' = None" "?hold \<le> now - since"
    | "dt_state d' = dt_state d" "dt_below_since d' = None \<or> dt_below_since d' = Some since"
    using next_overload_cases[OF parts(3) refl] by (auto simp: since_def)
  then show ?thesis
  proof cases
    case 1
    then show ?thesis
      unfolding flaps_within_def using parts downs since by (intro exI[of _ downs]) auto
  next
    case 2
    have "(downs + 1) * ?hold \<le> now - start" using since 2(3) by (simp add: algebra_simps)
    then show ?thesis
      unfolding flaps_within_def using parts downs 2 overload_level_bounds[of "dt_state d"]
        overload_level_bounds[of "dt_state d'"]
      by (intro exI[of _ "downs + 1"]) auto
  next
    case 3
    then show ?thesis
      unfolding flaps_within_def using parts downs since by (intro exI[of _ downs]) auto
  qed
qed

text \<open>C27: The state cannot flap. Over any observations at nondecreasing times, whatever the readings, the
  number of transitions beyond the first three times the recovery hold is at most four times the
  elapsed time: every downgrade costs a full dwell time below the band, started after the last one.
\<close>

theorem transitions_are_bounded:
  assumes "bp_config_valid cfg" "observe_all obs (new_detector cfg) = Some d"
    and "sorted (start # map fst obs)"
  shows "(dt_transitions d - 3) * bc_recovery_hold_ns cfg \<le> 4 * (last (start # map fst obs) - start)"
proof -
  let ?hold = "bc_recovery_hold_ns cfg"
  have hold: "0 \<le> ?hold" using assms(1) by (simp add: bp_config_valid_def)
  have "flaps_within start (last (t # map fst obs)) d"
    if "flaps_within start t z" "sorted (t # map fst obs)" "observe_all obs z = Some d" "dt_config z = cfg" for t z
    using that
  proof (induction obs arbitrary: t z)
    case (Cons o' obs)
    obtain now s where o: "o' = (now, s)" by fastforce
    obtain snap nt z' where step: "detector_observe now s z = Some (snap, nt, z')" "observe_all obs z' = Some d"
      using Cons.prems(3) o by (auto split: option.splits prod.splits)
    have "flaps_within start now z'" "dt_config z' = cfg"
      using observe_flaps[OF Cons.prems(1) _ step(1)] observe_parts[OF step(1)] Cons.prems(2,4) o hold by auto
    then show ?case using Cons.IH[of now z'] Cons.prems(2) step(2) o by auto
  qed simp
  moreover have "flaps_within start start (new_detector cfg)"
    by (auto simp: flaps_within_def new_detector_def)
  ultimately have flaps: "flaps_within start (last (start # map fst obs)) d"
    using assms(2,3) by (simp add: new_detector_def)
  have cfg: "observe_all obs z = Some d \<Longrightarrow> dt_config d = dt_config z" for z
    by (induction obs arbitrary: z) (auto dest: observe_parts split: option.splits prod.splits)
  obtain downs where downs: "0 \<le> downs" "dt_transitions d \<le> overload_level (dt_state d) + 4 * downs"
    "downs * ?hold \<le> last (start # map fst obs) - start"
    using flaps cfg[OF assms(2)] by (fastforce simp: flaps_within_def new_detector_def split: option.splits)
  have "dt_transitions d - 3 \<le> 4 * downs" using downs(2) overload_level_bounds[of "dt_state d"] by linarith
  then have "(dt_transitions d - 3) * ?hold \<le> 4 * downs * ?hold" using hold by (rule mult_right_mono)
  then show ?thesis using downs(3) by (simp add: mult.assoc)
qed

lemma observe_all_some: "bp_config_valid (dt_config d) \<Longrightarrow> \<exists>d'. observe_all obs d = Some d'"
proof (induction obs arbitrary: d)
  case (Cons x obs)
  obtain now s snap nt d1 where x: "x = (now, s)" and step: "detector_observe now s d = Some (snap, nt, d1)"
    using observe_some[OF Cons.prems] by (metis prod_cases3 surj_pair)
  show ?case using Cons observe_parts[OF step] step x by simp
qed simp

theorem transitions_are_bounded_witness:
  "\<exists>d. observe_all [(7, \<lparr>ps_source = ''bus'', ps_value = 50, ps_capacity = 10\<rparr>)] (new_detector default_bp_config) = Some d \<and>
     (dt_transitions d - 3) * 1000000000 \<le> 4 * (7 - 0)"
proof -
  let ?obs = "[(7, \<lparr>ps_source = ''bus'', ps_value = 50, ps_capacity = 10\<rparr>)]"
  have valid: "bp_config_valid default_bp_config" by (rule bp_configs_valid)
  obtain d where "observe_all ?obs (new_detector default_bp_config) = Some d"
    using observe_all_some[of "new_detector default_bp_config" ?obs] valid by (auto simp: new_detector_def)
  with transitions_are_bounded[OF valid this, of 0] show ?thesis
    by (simp add: default_bp_config_def)
qed

section \<open>Recovery\<close>

definition calm :: "pressure_signal \<Rightarrow> bool" where
  "calm s \<longleftrightarrow> ps_value s \<le> 0 \<or> ps_capacity s \<le> 0"

lemma calm_ratio: "calm s \<Longrightarrow> signal_ratio s = 0"
  by (auto simp: calm_def signal_ratio_def)

lemma fold_max_zero: "\<forall>x\<in>set xs. x = 0 \<Longrightarrow> fold max xs (0::real) = 0"
  by (induction xs) auto

lemma aggregate_calm:
  assumes "\<forall>s\<in>set (dvals sigs). calm s"
  shows "aggregate_ratio sigs = 0"
proof (cases sigs)
  case (Cons e es)
  then have "signal_ratio (snd e) = 0" "\<forall>x\<in>set (map (\<lambda>e. signal_ratio (snd e)) es). x = 0"
    using assms by (auto intro: calm_ratio)
  then show ?thesis
    using Cons fold_max_zero by (simp add: aggregate_ratio_def comp_def)
qed (simp add: aggregate_ratio_def)

lemma set_dvals_dset: "set (dvals (dset k v d)) \<subseteq> insert v (set (dvals d))"
  by (induction d) auto

lemma observe_calm:
  assumes "detector_observe now s d = Some (snap, nt, d')" "calm s" "\<forall>s\<in>set (dvals (dt_signals d)). calm s"
  shows "dt_smoothed d' = bc_degrade_decay (dt_config d) * dt_smoothed d \<and>
    (\<forall>s\<in>set (dvals (dt_signals d')). calm s)"
proof -
  have "\<forall>s\<in>set (dvals (dset (ps_source s) s (dt_signals d))). calm s"
    using set_dvals_dset assms(2,3) by fastforce
  then show ?thesis using observe_parts[OF assms(1)] aggregate_calm by auto
qed

text \<open>Once the smoothed pressure is below three quarters of the first threshold, the detector is at
  rest or its dwell timer has run since a given time.\<close>

definition recovering :: "int \<Rightarrow> overload_detector \<Rightarrow> bool" where
  "recovering t d \<longleftrightarrow> dt_smoothed d < bc_elevated_threshold (dt_config d) * (3 / 4) \<and>
     (dt_state d = ONormal \<or> (\<exists>u\<le>t. dt_below_since d = Some u))"

lemma observe_recovering:
  assumes "bp_config_valid (dt_config d)" "detector_observe now s d = Some (snap, nt, d')"
    and "dt_smoothed d' < bc_elevated_threshold (dt_config d) * (3 / 4)"
    and "recovering t d \<or> t = now"
    and "dt_below_since d = None \<or> the (dt_below_since d) \<le> now"
  shows "recovering t d' \<and> (recovering t d \<and> t + bc_recovery_hold_ns (dt_config d) \<le> now \<longrightarrow> dt_state d' = ONormal)"
proof -
  let ?d = "d\<lparr>dt_smoothed := dt_smoothed d'\<rparr>"
  have parts: "dt_config d' = dt_config d" "next_overload_state now ?d = (dt_state d', dt_below_since d')"
    using observe_parts[OF assms(2)] by simp_all
  have band: "dt_smoothed d' < bc_elevated_threshold (dt_config d)"
    "state_for_ratio (dt_config d) (dt_smoothed d') = ONormal"
    using assms(1,3) by (auto simp: bp_config_valid_def band_ok_def state_for_ratio_def)
  have below: "dt_smoothed d' < lower_band (dt_config d) (dt_state d)" if "dt_state d \<noteq> ONormal"
    using that assms(1,3) band by (cases "dt_state d") (auto simp: bp_config_valid_def band_ok_def)
  show ?thesis
  proof (cases "dt_state d = ONormal")
    case True
    then show ?thesis
      using parts band assms(3) by (auto simp: next_overload_state_def recovering_def Let_def)
  next
    case False
    moreover have "0 < overload_level (dt_state d)" using False by (cases "dt_state d") simp_all
    ultimately show ?thesis
      using parts band below assms(3,4,5)
      by (auto simp: next_overload_state_def recovering_def Let_def split: if_splits option.splits)
  qed
qed

lemma observe_since:
  assumes "detector_observe now s d = Some (snap, nt, d')"
    and "dt_below_since d = None \<or> the (dt_below_since d) \<le> now"
  shows "dt_below_since d' = None \<or> the (dt_below_since d') \<le> now"
  using next_overload_cases[of now "d\<lparr>dt_smoothed := dt_smoothed d'\<rparr>" "dt_state d'" "dt_below_since d'"]
    observe_parts[OF assms(1)] assms(2) by (auto split: option.splits)

lemma overload_level_nonneg: "0 \<le> overload_level s"
  using overload_level_bounds by blast

lemma observe_normal:
  assumes "detector_observe now s d = Some (snap, nt, d')" "dt_state d' = ONormal"
  shows "dt_below_since d' = None"
  using next_overload_cases[of now "d\<lparr>dt_smoothed := dt_smoothed d'\<rparr>" "dt_state d'" "dt_below_since d'"]
    observe_parts[OF assms(1)] assms(2)
      overload_level_nonneg[of "state_for_ratio (dt_config d) (dt_smoothed d')"]
  by auto

lemma decay_shrinks:
  assumes "bp_config_valid cfg" "x < y" "0 < y"
  shows "bc_degrade_decay cfg * x < y"
proof (cases "0 \<le> x")
  case True
  then have "bc_degrade_decay cfg * x \<le> 1 * x"
    using assms(1) by (intro mult_right_mono) (auto simp: bp_config_valid_def)
  then show ?thesis using assms(2) by linarith
next
  case False
  then show ?thesis using assms by (smt (verit) bp_config_valid_def mult_pos_neg)
qed

lemma recovery_completes:
  assumes "bp_config_valid (dt_config d)" "recovering t d"
    and "\<forall>s\<in>set (dvals (dt_signals d)). calm s" "\<forall>x\<in>set obs. calm (snd x)" "sorted (t # map fst obs)"
    and "obs \<noteq> []" "t + bc_recovery_hold_ns (dt_config d) \<le> fst (last obs)"
    and "observe_all obs d = Some d'" "dt_below_since d = None \<or> the (dt_below_since d) \<le> t"
  shows "dt_state d' = ONormal"
  using assms
proof (induction obs arbitrary: d)
  case (Cons x obs)
  obtain now s where x: "x = (now, s)" by fastforce
  obtain snap nt d1 where step: "detector_observe now s d = Some (snap, nt, d1)" and rest: "observe_all obs d1 = Some d'"
    using Cons.prems(8) x by (auto split: option.splits prod.splits)
  have pos: "0 < bc_elevated_threshold (dt_config d) * (3 / 4)"
    using Cons.prems(1) by (simp add: bp_config_valid_def band_ok_def)
  have calm: "dt_smoothed d1 = bc_degrade_decay (dt_config d) * dt_smoothed d"
      "\<forall>s\<in>set (dvals (dt_signals d1)). calm s" "dt_config d1 = dt_config d"
    using observe_calm[OF step] observe_parts[OF step] Cons.prems(3,4) x by auto
  have below: "dt_smoothed d1 < bc_elevated_threshold (dt_config d) * (3 / 4)"
    using decay_shrinks[OF Cons.prems(1) _ pos] Cons.prems(2) calm(1) by (simp add: recovering_def)
  have now: "t \<le> now" "dt_below_since d = None \<or> the (dt_below_since d) \<le> now"
    using Cons.prems(5,9) x by auto
  have R: "recovering t d1 \<and> (t + bc_recovery_hold_ns (dt_config d) \<le> now \<longrightarrow> dt_state d1 = ONormal)"
    using observe_recovering[OF Cons.prems(1) step below _ now(2), of t] Cons.prems(2) by simp
  have since: "dt_below_since d1 = None \<or> the (dt_below_since d1) \<le> t"
  proof (cases "dt_state d1 = ONormal")
    case True
    then have "dt_below_since d1 = None" by (rule observe_normal[OF step])
    then show ?thesis ..
  next
    case False
    then show ?thesis using R by (auto simp: recovering_def)
  qed
  show ?case
  proof (cases "obs = []")
    case True
    then show ?thesis using R rest Cons.prems(7) x by simp
  next
    case False
    then show ?thesis
      using Cons.IH[of d1] R since calm rest Cons.prems x by simp
  qed
qed simp

lemma calm_prefix:
  assumes "bp_config_valid (dt_config d)" "observe_all obs d = Some d'"
    and "\<forall>s\<in>set (dvals (dt_signals d)). calm s" "\<forall>x\<in>set obs. calm (snd x)" "sorted (map fst obs)"
    and "\<forall>x\<in>set obs. dt_below_since d = None \<or> the (dt_below_since d) \<le> fst x" "obs \<noteq> []"
  shows "dt_smoothed d' = bc_degrade_decay (dt_config d) ^ length obs * dt_smoothed d \<and>
    dt_config d' = dt_config d \<and> (\<forall>s\<in>set (dvals (dt_signals d')). calm s) \<and>
    (dt_below_since d' = None \<or> the (dt_below_since d') \<le> fst (last obs)) \<and>
    (dt_smoothed d' < bc_elevated_threshold (dt_config d) * (3 / 4) \<longrightarrow> recovering (fst (last obs)) d')"
  using assms
proof (induction obs arbitrary: d)
  case (Cons x obs)
  obtain now s where x: "x = (now, s)" by fastforce
  obtain snap nt d1 where step: "detector_observe now s d = Some (snap, nt, d1)" and rest: "observe_all obs d1 = Some d'"
    using Cons.prems(2) x by (auto split: option.splits prod.splits)
  have calm: "dt_smoothed d1 = bc_degrade_decay (dt_config d) * dt_smoothed d"
      "\<forall>s\<in>set (dvals (dt_signals d1)). calm s" "dt_config d1 = dt_config d"
    using observe_calm[OF step] observe_parts[OF step] Cons.prems(3,4) x by auto
  have now: "dt_below_since d = None \<or> the (dt_below_since d) \<le> now" using Cons.prems(6) x by auto
  have since: "dt_below_since d1 = None \<or> the (dt_below_since d1) \<le> now"
    by (rule observe_since[OF step now])
  show ?case
  proof (cases "obs = []")
    case True
    then show ?thesis
      using observe_recovering[OF Cons.prems(1) step _ _ now, of now] calm since rest x by simp
  next
    case False
    have "\<forall>x\<in>set obs. dt_below_since d1 = None \<or> the (dt_below_since d1) \<le> fst x"
      using since Cons.prems(5) x by fastforce
    then show ?thesis
      using Cons.IH[of d1] False calm rest Cons.prems(1,4,5) x by (simp add: mult.assoc mult.left_commute)
  qed
qed simp

lemma observe_all_append:
  "observe_all (xs @ ys) d = (case observe_all xs d of None \<Rightarrow> None | Some d' \<Rightarrow> observe_all ys d')"
  by (induction xs d rule: observe_all.induct) (auto split: option.splits prod.splits)

lemma decay_below:
  assumes "0 < k" "k < 1" "0 < (b::real)"
  shows "\<exists>n. k ^ Suc n * x < b"
proof (cases "x \<le> 0")
  case True
  then have "k ^ Suc 0 * x \<le> 0" using assms by (simp add: mult_nonneg_nonpos)
  then show ?thesis using assms(3) by (intro exI[of _ 0]) linarith
next
  case False
  obtain n where "k ^ n < b / x" using real_arch_pow_inv[of "b / x" k] assms False by auto
  then have "k ^ n * x < b" using False by (simp add: field_simps)
  moreover have "k ^ Suc n * x \<le> k ^ n * x"
    using assms False by (intro mult_right_mono) (simp_all add: mult_left_le_one_le)
  ultimately show ?thesis by (intro exI[of _ n]) linarith
qed

text \<open>C26: Pressure that goes away is noticed. From any detector all of whose stored readings are calm (in
  whatever state, at whatever smoothed ratio), calm readings bring the state back to \<open>NORMAL\<close>: there is a
  number of readings after which the smoothed ratio is below three quarters of the first threshold, and
  as soon as the recovery hold has passed from the reading that reached it, the state is \<open>NORMAL\<close>.
\<close>

theorem calm_readings_recover:
  assumes "bp_config_valid (dt_config d)" "\<forall>s\<in>set (dvals (dt_signals d)). calm s"
  shows "(\<exists>n. bc_degrade_decay (dt_config d) ^ Suc n * dt_smoothed d < bc_elevated_threshold (dt_config d) * (3 / 4)) \<and>
    (\<forall>n obs. bc_degrade_decay (dt_config d) ^ Suc n * dt_smoothed d < bc_elevated_threshold (dt_config d) * (3 / 4) \<and>
       Suc n < length obs \<and> (\<forall>x\<in>set obs. calm (snd x)) \<and> sorted (map fst obs) \<and>
       (\<forall>x\<in>set obs. dt_below_since d = None \<or> the (dt_below_since d) \<le> fst x) \<and>
       fst (obs ! n) + bc_recovery_hold_ns (dt_config d) \<le> fst (last obs) \<longrightarrow>
       (\<exists>d'. observe_all obs d = Some d' \<and> dt_state d' = ONormal))"
proof (intro conjI allI impI)
  let ?k = "bc_degrade_decay (dt_config d)" and ?b = "bc_elevated_threshold (dt_config d) * (3 / 4)"
  have k: "0 < ?k" "?k < 1" and b: "0 < ?b" using assms(1) by (auto simp: bp_config_valid_def band_ok_def)
  show "\<exists>n. ?k ^ Suc n * dt_smoothed d < ?b" by (rule decay_below[OF k b])
next
  fix n obs
  let ?k = "bc_degrade_decay (dt_config d)" and ?b = "bc_elevated_threshold (dt_config d) * (3 / 4)"
  assume A: "?k ^ Suc n * dt_smoothed d < ?b \<and> Suc n < length obs \<and> (\<forall>x\<in>set obs. calm (snd x)) \<and>
    sorted (map fst obs) \<and> (\<forall>x\<in>set obs. dt_below_since d = None \<or> the (dt_below_since d) \<le> fst x) \<and>
    fst (obs ! n) + bc_recovery_hold_ns (dt_config d) \<le> fst (last obs)"
  define xs ys where "xs = take (Suc n) obs" and "ys = drop (Suc n) obs"
  have obs: "obs = xs @ ys" "length xs = Suc n" "last xs = obs ! n" "xs \<noteq> []" "ys \<noteq> []" "last ys = last obs"
    using A id_take_nth_drop[of n obs] by (simp_all add: xs_def ys_def take_Suc_conv_app_nth)
  obtain d1 d' where run: "observe_all xs d = Some d1" "observe_all ys d1 = Some d'" "observe_all obs d = Some d'"
    using observe_all_some[OF assms(1), of obs] by (auto simp: obs(1) observe_all_append split: option.splits)
  have sets: "set xs \<subseteq> set obs" "set ys \<subseteq> set obs" using obs(1) by auto
  have sorted: "sorted (map fst xs)" "sorted (fst (last xs) # map fst ys)"
    using A unfolding obs(1) by (auto simp: sorted_append obs(4))
  have P: "dt_smoothed d1 = ?k ^ Suc n * dt_smoothed d \<and> dt_config d1 = dt_config d \<and>
      (\<forall>s\<in>set (dvals (dt_signals d1)). calm s) \<and>
      (dt_below_since d1 = None \<or> the (dt_below_since d1) \<le> fst (last xs)) \<and>
      (dt_smoothed d1 < ?b \<longrightarrow> recovering (fst (last xs)) d1)"
  proof -
    have "\<forall>x\<in>set xs. calm (snd x)" "\<forall>x\<in>set xs. dt_below_since d = None \<or> the (dt_below_since d) \<le> fst x"
      using A sets(1) by blast+
    then show ?thesis
      using calm_prefix[OF assms(1) run(1) assms(2) _ sorted(1) _ obs(4)] unfolding obs(2) by blast
  qed
  have "dt_state d' = ONormal"
  proof (rule recovery_completes[OF _ _ _ _ sorted(2) obs(5) _ run(2)])
    show "bp_config_valid (dt_config d1)" using P assms(1) by simp
    show "recovering (fst (last xs)) d1" using P A by simp
    show "\<forall>s\<in>set (dvals (dt_signals d1)). calm s" using P by blast
    show "\<forall>x\<in>set ys. calm (snd x)" using A sets(2) by blast
    show "fst (last xs) + bc_recovery_hold_ns (dt_config d1) \<le> fst (last ys)" using A P obs(3,6) by simp
    show "dt_below_since d1 = None \<or> the (dt_below_since d1) \<le> fst (last xs)" using P by blast
  qed
  then show "\<exists>d'. observe_all obs d = Some d' \<and> dt_state d' = ONormal" using run(3) by blast
qed

theorem calm_readings_recover_witness:
  "\<exists>n d'. let d = (new_detector default_bp_config)\<lparr>dt_state := OEmergency, dt_smoothed := 2\<rparr>;
       obs = map (\<lambda>i. (int i * 1000000000, \<lparr>ps_source = ''bus'', ps_value = 0, ps_capacity = 8\<rparr>)) [0..<Suc (Suc n)] in
     observe_all obs d = Some d' \<and> dt_state d' = ONormal"
proof -
  let ?d = "(new_detector default_bp_config)\<lparr>dt_state := OEmergency, dt_smoothed := 2\<rparr>"
  have valid: "bp_config_valid (dt_config ?d)" by (simp add: new_detector_def bp_configs_valid)
  have none: "\<forall>s\<in>set (dvals (dt_signals ?d)). calm s" by (simp add: new_detector_def)
  note R = calm_readings_recover[OF valid none]
  obtain n where n: "bc_degrade_decay (dt_config ?d) ^ Suc n * dt_smoothed ?d < bc_elevated_threshold (dt_config ?d) * (3 / 4)"
    using R by blast
  let ?obs = "map (\<lambda>i. (int i * 1000000000, \<lparr>ps_source = ''bus'', ps_value = 0, ps_capacity = 8\<rparr>)) [0..<Suc (Suc n)]"
  have "sorted (map fst ?obs)" by (simp add: sorted_iff_nth_mono nth_append del: upt_Suc)
  moreover have "fst (?obs ! n) + bc_recovery_hold_ns (dt_config ?d) \<le> fst (last ?obs)"
    by (simp add: new_detector_def default_bp_config_def nth_append)
  moreover have "\<forall>x\<in>set ?obs. calm (snd x)" by (auto simp: calm_def)
  moreover have "\<forall>x\<in>set ?obs. dt_below_since ?d = None \<or> the (dt_below_since ?d) \<le> fst x"
    by (simp add: new_detector_def)
  ultimately have "\<exists>d'. observe_all ?obs ?d = Some d' \<and> dt_state d' = ONormal"
    using R n by (metis (no_types, lifting) length_map length_upt lessI diff_zero)
  then show ?thesis unfolding Let_def by blast
qed

section \<open>Removed sources\<close>

lemma signal_ratio_nonneg: "0 \<le> signal_ratio s"
  by (simp add: signal_ratio_def)

lemma fold_max_ge: "x \<in> insert a (set xs) \<Longrightarrow> (x::real) \<le> fold max xs a"
proof (induction xs arbitrary: a x)
  case (Cons y xs)
  show ?case
  proof (cases "x \<in> insert a (insert y {})")
    case True
    then have "x \<le> max y a" by auto
    also have "\<dots> \<le> fold max xs (max y a)" by (rule Cons.IH) simp
    finally show ?thesis by simp
  next
    case False
    then show ?thesis using Cons by simp
  qed
qed simp

lemma aggregate_ge:
  assumes "s \<in> set (dvals sigs)"
  shows "signal_ratio s \<le> aggregate_ratio sigs"
proof (cases sigs)
  case (Cons e es)
  then have "signal_ratio s \<in> insert (signal_ratio (snd e)) (set (map (\<lambda>e. signal_ratio (snd e)) es))"
    using assms by auto
  then show ?thesis
    using fold_max_ge Cons by (simp add: aggregate_ratio_def comp_def)
qed (use assms in simp)

lemma observe_pinned:
  assumes "bp_config_valid (dt_config d)" "detector_observe now s d = Some (snap, nt, d')" "ps_source s \<noteq> x"
    and "dget (dt_signals d) x = Some hot" "m \<le> signal_ratio hot" "m \<le> dt_smoothed d"
  shows "m \<le> dt_smoothed d' \<and> dget (dt_signals d') x = Some hot \<and> dt_config d' = dt_config d \<and>
    overload_level (state_for_ratio (dt_config d) m) \<le> overload_level (dt_state d')"
proof -
  let ?k = "bc_degrade_decay (dt_config d)" and ?a = "aggregate_ratio (dset (ps_source s) s (dt_signals d))"
  have sig: "dget (dset (ps_source s) s (dt_signals d)) x = Some hot" using assms(3,4) by (simp add: dget_dset)
  then have "hot \<in> set (dvals (dset (ps_source s) s (dt_signals d)))" by (force dest: map_of_SomeD)
  then have "m \<le> ?a" using aggregate_ge assms(5) by fastforce
  moreover have "0 < ?k" "?k < 1" using assms(1) by (auto simp: bp_config_valid_def)
  ultimately have "?k * m + (1 - ?k) * m \<le> ?k * dt_smoothed d + (1 - ?k) * ?a"
    using assms(6) by (intro add_mono mult_left_mono) auto
  then have "m \<le> dt_smoothed d'" using observe_parts[OF assms(2)] by (simp add: algebra_simps)
  then show ?thesis
    using observe_parts[OF assms(2)] sig observe_level[OF assms(2)] state_for_ratio_mono[OF assms(1)]
    by (metis order_trans)
qed

lemma sample_pinned:
  assumes "bp_config_valid (dt_config d)" "sample_sources read now i srcs snap d = Some (snap', d')"
    and "x \<notin> set (dkeys srcs)" "dget (dt_signals d) x = Some hot" "m \<le> signal_ratio hot" "m \<le> dt_smoothed d"
    and "overload_level (state_for_ratio (dt_config d) m) \<le> overload_level (dt_state d)"
  shows "m \<le> dt_smoothed d' \<and> dget (dt_signals d') x = Some hot \<and> dt_config d' = dt_config d \<and>
    overload_level (state_for_ratio (dt_config d) m) \<le> overload_level (dt_state d')"
  using assms
proof (induction read now i srcs snap d rule: sample_sources.induct)
  case (2 read now i name src capacity rest snap d)
  show ?case
  proof (cases "read src")
    case None
    then show ?thesis using 2 by simp
  next
    case (Some v)
    let ?s = "\<lparr>ps_source = name, ps_value = v, ps_capacity = capacity\<rparr>"
    obtain s nt d1 where step: "detector_observe (now i) ?s d = Some (s, nt, d1)"
      and rest: "sample_sources read now (i + 1) rest (Some s) d1 = Some (snap', d')"
      using 2(4) Some by (auto split: option.splits prod.splits)
    have P: "m \<le> dt_smoothed d1 \<and> dget (dt_signals d1) x = Some hot \<and> dt_config d1 = dt_config d \<and>
        overload_level (state_for_ratio (dt_config d) m) \<le> overload_level (dt_state d1)"
      using observe_pinned[OF 2(3) step _ 2(6,7,8)] 2(5) by force
    show ?thesis using 2(2)[OF Some step refl refl _ rest] P 2(3,5,7) by simp
  qed
qed auto

fun tick_all ::
    "(('src \<Rightarrow> int option) \<times> (nat \<Rightarrow> int)) list \<Rightarrow> ('src, 'l) adaptive_controller \<Rightarrow>
     ('src, 'l) adaptive_controller option" where
  "tick_all [] a = Some a"
| "tick_all ((read, now) # ticks) a =
     (case adaptive_tick read now a of None \<Rightarrow> None | Some (_, _, a') \<Rightarrow> tick_all ticks a')"

lemma sample_last:
  "sample_sources read now i srcs snap d = Some (snap', d') \<Longrightarrow>
   (case snap of Some s \<Rightarrow> os_state s = dt_state d | None \<Rightarrow> True) \<Longrightarrow>
   (case snap' of Some s \<Rightarrow> os_state s = dt_state d' | None \<Rightarrow> True)"
proof (induction read now i srcs snap d rule: sample_sources.induct)
  case (2 read now i name src capacity rest snap d)
  show ?case
  proof (cases "read src")
    case None
    then show ?thesis using 2 by simp
  next
    case (Some v)
    obtain s nt d1 where step: "detector_observe (now i)
        \<lparr>ps_source = name, ps_value = v, ps_capacity = capacity\<rparr> d = Some (s, nt, d1)"
      and rest: "sample_sources read now (i + 1) rest (Some s) d1 = Some (snap', d')"
      using 2(3) Some by (auto split: option.splits prod.splits)
    show ?thesis using 2(2)[OF Some step refl refl rest] observe_parts[OF step] by simp
  qed
qed auto

lemma adaptive_tick_parts:
  assumes "adaptive_tick read now a = Some (s, deliveries, a')"
  shows "\<exists>snap. sample_sources read now 0 (ad_sources a) None (ad_detector a) = Some (snap, ad_detector a') \<and>
    os_state s = dt_state (ad_detector a') \<and> ad_state a' = os_state s \<and> ad_sources a' = ad_sources a \<and>
    ad_listeners a' = ad_listeners a \<and> ad_config a' = ad_config a \<and>
    deliveries = (if os_state s = dt_state (ad_detector a) then []
      else List.product (actions_for (ad_config a) (dt_state (ad_detector a)) (os_state s)) (ad_listeners a))"
proof -
  obtain snap d where D: "sample_sources read now 0 (ad_sources a) None (ad_detector a) = Some (snap, d)"
    using assms by (auto simp: adaptive_tick_def Let_def split: option.splits prod.splits)
  have "case snap of Some s \<Rightarrow> os_state s = dt_state d | None \<Rightarrow> True"
    using sample_last[OF D] by simp
  then show ?thesis
    using assms D by (auto simp: adaptive_tick_def Let_def detector_snapshot_def split: option.splits if_splits)
qed

text \<open>A removed source still counts. After \<open>unregister_source\<close> its last reading stays in the detector
  and in the maximum over the sources. If that reading was at or above a threshold when it was taken, the state
  never again falls below the one the reading stands for, or the smoothed ratio at that time stood for, whatever
  the remaining sources report and however many ticks pass: a channel that goes away while full holds the
  controller in overload for good.
\<close>

theorem removed_source_pins_the_state:
  assumes "bp_config_valid (dt_config d)" "detector_observe t hot d = Some (snap, nt, ad_detector a)"
    and "tick_all ticks (unregister_source (ps_source hot) a) = Some a'"
  shows "overload_level (state_for_ratio (dt_config d) (min (signal_ratio hot) (dt_smoothed (ad_detector a))))
    \<le> overload_level (dt_state (ad_detector a')) \<and>
    dget (dt_signals (ad_detector a')) (ps_source hot) = Some hot"
proof -
  let ?x = "ps_source hot" and ?m = "min (signal_ratio hot) (dt_smoothed (ad_detector a))"
  let ?ok = "\<lambda>b. dt_config (ad_detector b) = dt_config d \<and> dget (dt_signals (ad_detector b)) ?x = Some hot \<and>
      ?m \<le> dt_smoothed (ad_detector b) \<and> ?x \<notin> set (dkeys (ad_sources b)) \<and>
      overload_level (state_for_ratio (dt_config d) ?m) \<le> overload_level (dt_state (ad_detector b))"
  have run: "tick_all ticks b = Some b' \<Longrightarrow> ?ok b \<Longrightarrow> ?ok b'" for b b'
  proof (induction ticks arbitrary: b)
    case (Cons rt ticks)
    obtain read now where rt: "rt = (read, now)" by fastforce
    obtain s dv b1 where step: "adaptive_tick read now b = Some (s, dv, b1)" and rest: "tick_all ticks b1 = Some b'"
      using Cons.prems(1) rt by (auto split: option.splits prod.splits)
    obtain sn where sm: "sample_sources read now 0 (ad_sources b) None (ad_detector b) = Some (sn, ad_detector b1)"
      "ad_sources b1 = ad_sources b" using adaptive_tick_parts[OF step] by blast
    have "?ok b1"
      using sample_pinned[OF _ sm(1), of ?x hot ?m] Cons.prems(2) assms(1) sm(2) by simp
    then show ?case using Cons.IH rest by blast
  qed simp
  have "?ok (unregister_source ?x a)"
    using observe_parts[OF assms(2)] observe_level[OF assms(2)]
      order_trans[OF state_for_ratio_mono[OF assms(1)] observe_level[OF assms(2)]]
    by (simp add: unregister_source_def dget_dset del: set_map)
  then show ?thesis using run[OF assms(3)] by simp
qed

theorem removed_source_pins_the_state_witness:
  "\<exists>(a :: (string, string) adaptive_controller) a'. dt_state (ad_detector a) = OEmergency \<and>
     tick_all [(\<lambda>_. Some 0, int)] (unregister_source ''bus'' a) = Some a' \<and>
     overload_level (dt_state (ad_detector a')) \<ge> 3"
proof -
  let ?d = "(new_detector default_bp_config)\<lparr>dt_smoothed := 1\<rparr>"
  let ?s = "\<lparr>ps_source = ''bus'', ps_value = 8, ps_capacity = 8\<rparr>"
  have valid: "bp_config_valid (dt_config ?d)" by (simp add: new_detector_def bp_configs_valid)
  obtain snap nt d where obs: "detector_observe 0 ?s ?d = Some (snap, nt, d)"
    using observe_some[OF valid] by (metis prod_cases3)
  have ratio: "dt_smoothed d = 1" "signal_ratio ?s = 1"
    using observe_parts[OF obs] by (simp_all add: new_detector_def default_bp_config_def aggregate_ratio_def signal_ratio_def)
  have top: "state_for_ratio (dt_config ?d) 1 = OEmergency"
    by (simp add: new_detector_def default_bp_config_def state_for_ratio_def)
  have hot: "dt_state d = OEmergency"
    using observe_level[OF obs] ratio(1) top by (cases "dt_state d") simp_all
  define a :: "(string, string) adaptive_controller" where
    "a = (new_adaptive default_bp_config)\<lparr>ad_detector := d\<rparr>"
  have det: "detector_observe 0 ?s ?d = Some (snap, nt, ad_detector a)" using obs by (simp add: a_def)
  have "\<exists>a'. tick_all [(\<lambda>_. Some 0, int)] (unregister_source ''bus'' a) = Some a'"
    by (simp add: a_def new_adaptive_def unregister_source_def adaptive_tick_def Let_def)
  then obtain a' where run: "tick_all [(\<lambda>_. Some 0, int)] (unregister_source (ps_source ?s) a) = Some a'" by auto
  have "3 \<le> overload_level (dt_state (ad_detector a'))"
    using removed_source_pins_the_state[OF valid det run] ratio top by (simp add: a_def)
  moreover have "dt_state (ad_detector a) = OEmergency" using hot by (simp add: a_def)
  ultimately show ?thesis using run unfolding pressure_signal.simps by blast
qed

end
