(* ===== verification/Backpressure.thy ===== *)
theory Backpressure
  imports Overload
begin

text \<open>
  \<open>runtime/backpressure\<close>, the adapters and the facade: the websocket registry, the recorder's and the
  reducers' inboxes, and \<open>EventBackpressureController\<close>, which owns them with its named channels, registers
  each as a pressure source of the adaptive controller and listens to its actions.

  Every source the facade registers is a closure over an object the facade holds; it is modelled by
  a name for that object, and \<open>read_source\<close> is the call. Two listeners exist: the facade's own and clients', which
  are tokens. The metrics of the process are a part of the state. Traces and locks are left out.
\<close>

section \<open>The websocket registry\<close>

record 'a subscriber_channel =
  wc_id :: string
  wc_channel :: "'a event_channel"
  wc_slow :: bool
  wc_disconnects :: nat
  wc_last_disconnect_ns :: int

record 'a websocket_registry =
  wr_capacity :: nat
  wr_policy :: drop_policy
  wr_channels :: "(string, 'a subscriber_channel) dict"

definition new_subscriber_channel :: "string \<Rightarrow> nat \<Rightarrow> drop_policy \<Rightarrow> 'a subscriber_channel option" where
  "new_subscriber_channel sid capacity policy =
     map_option (\<lambda>ch. \<lparr>wc_id = sid, wc_channel = ch, wc_slow = False, wc_disconnects = 0,
                       wc_last_disconnect_ns = 0\<rparr>)
       (new_event_channel (''ws:'' @ sid) capacity policy)"

definition mark_slow :: "'a subscriber_channel \<Rightarrow> 'a subscriber_channel" where
  "mark_slow w = w\<lparr>wc_slow := True\<rparr>"

definition mark_recovered :: "'a subscriber_channel \<Rightarrow> 'a subscriber_channel" where
  "mark_recovered w = w\<lparr>wc_slow := False\<rparr>"

definition disconnect_subscriber :: "int \<Rightarrow> 'a subscriber_channel \<Rightarrow> 'a subscriber_channel" where
  "disconnect_subscriber now w =
     w\<lparr>wc_disconnects := wc_disconnects w + 1, wc_last_disconnect_ns := now,
       wc_channel := clear_channel (wc_channel w), wc_slow := False\<rparr>"

definition offer_subscriber ::
    "'a \<Rightarrow> int \<Rightarrow> 'a subscriber_channel \<Rightarrow> 'a enqueue_verdict \<times> 'a subscriber_channel" where
  "offer_subscriber frame priority w =
     (let (v, ch) = offer_channel frame priority (wc_channel w) in (v, w\<lparr>wc_channel := ch\<rparr>))"

definition take_subscriber :: "'a subscriber_channel \<Rightarrow> 'a option \<times> 'a subscriber_channel" where
  "take_subscriber w = (let (x, ch) = take_channel (wc_channel w) in (x, w\<lparr>wc_channel := ch\<rparr>))"

definition new_websocket_registry :: "bp_config \<Rightarrow> drop_policy option \<Rightarrow> 'a websocket_registry" where
  "new_websocket_registry cfg policy =
     \<lparr>wr_capacity = bc_websocket_capacity cfg,
      wr_policy = (case policy of Some p \<Rightarrow> p | None \<Rightarrow> bc_websocket_drop_policy cfg),
      wr_channels = []\<rparr>"

definition attach_subscriber ::
    "string \<Rightarrow> 'a websocket_registry \<Rightarrow> ('a subscriber_channel \<times> 'a websocket_registry) option" where
  "attach_subscriber sid r =
     (case dget (wr_channels r) sid of
        Some w \<Rightarrow> Some (w, r)
      | None \<Rightarrow>
          map_option (\<lambda>w. (w, r\<lparr>wr_channels := dset sid w (wr_channels r)\<rparr>))
            (new_subscriber_channel sid (wr_capacity r) (wr_policy r)))"

definition detach_subscriber :: "string \<Rightarrow> 'a websocket_registry \<Rightarrow> 'a websocket_registry" where
  "detach_subscriber sid r = r\<lparr>wr_channels := dpop sid (wr_channels r)\<rparr>"

definition disconnect_slow_clients :: "int \<Rightarrow> 'a websocket_registry \<Rightarrow> nat \<times> 'a websocket_registry" where
  "disconnect_slow_clients now r =
     (length (filter wc_slow (dvals (wr_channels r))),
      r\<lparr>wr_channels := map (\<lambda>(sid, w). (sid, if wc_slow w then disconnect_subscriber now w else w))
                         (wr_channels r)\<rparr>)"

definition max_pressure_ratio :: "'a websocket_registry \<Rightarrow> real" where
  "max_pressure_ratio r =
     (case map (\<lambda>w. channel_pressure_ratio (wc_channel w)) (dvals (wr_channels r)) of
        [] \<Rightarrow> 0 | x # xs \<Rightarrow> fold max xs x)"

definition reset_websocket_registry :: "'a websocket_registry \<Rightarrow> 'a websocket_registry" where
  "reset_websocket_registry r = r\<lparr>wr_channels := []\<rparr>"

section \<open>The recorder's inbox and its overflow markers\<close>

record overflow_marker =
  om_first_sequence :: int
  om_last_sequence :: int
  om_dropped :: nat
  om_subsystem :: string
  om_drop_policy :: drop_policy
  om_state :: overload_state

definition marker_span :: "overflow_marker \<Rightarrow> int" where
  "marker_span m = max 0 (om_last_sequence m - om_first_sequence m + 1)"

record 'a recorder_adapter =
  rb_channel :: "'a event_channel"
  rb_marker_window :: nat
  rb_pending_drops :: nat
  rb_first_drop_seq :: int
  rb_last_drop_seq :: int
  rb_markers_emitted :: nat
  rb_last_marker_seq :: int

definition new_recorder_adapter :: "bp_config \<Rightarrow> drop_policy option \<Rightarrow> 'a recorder_adapter option" where
  "new_recorder_adapter cfg policy =
     map_option (\<lambda>ch. \<lparr>rb_channel = ch, rb_marker_window = bc_marker_summary_window cfg,
                       rb_pending_drops = 0, rb_first_drop_seq = 0, rb_last_drop_seq = 0,
                       rb_markers_emitted = 0, rb_last_marker_seq = 0\<rparr>)
       (new_event_channel ''recorder'' (bc_recorder_capacity cfg)
          (case policy of Some p \<Rightarrow> p | None \<Rightarrow> bc_recorder_drop_policy cfg))"

text \<open>The end of a window, written twice in the code: the marker and the counters reset.\<close>

definition emit_marker ::
    "overload_state \<Rightarrow> 'a recorder_adapter \<Rightarrow> overflow_marker \<times> 'a recorder_adapter" where
  "emit_marker state b =
     (\<lparr>om_first_sequence = rb_first_drop_seq b, om_last_sequence = rb_last_drop_seq b,
       om_dropped = rb_pending_drops b, om_subsystem = ''recorder'',
       om_drop_policy = bq_policy (ec_queue (rb_channel b)), om_state = state\<rparr>,
      b\<lparr>rb_pending_drops := 0, rb_first_drop_seq := 0, rb_last_drop_seq := 0,
        rb_markers_emitted := rb_markers_emitted b + 1, rb_last_marker_seq := rb_last_drop_seq b\<rparr>)"

definition record_drop ::
    "int \<Rightarrow> overload_state \<Rightarrow> 'a recorder_adapter \<Rightarrow> overflow_marker option \<times> 'a recorder_adapter" where
  "record_drop sequence state b =
     (let b1 = (if rb_pending_drops b = 0 then b\<lparr>rb_first_drop_seq := sequence\<rparr> else b);
          b2 = b1\<lparr>rb_last_drop_seq := sequence, rb_pending_drops := rb_pending_drops b1 + 1\<rparr> in
      if rb_pending_drops b2 < rb_marker_window b2 then (None, b2)
      else let (m, b3) = emit_marker state b2 in (Some m, b3))"

definition flush_pending_drops ::
    "overload_state \<Rightarrow> 'a recorder_adapter \<Rightarrow> overflow_marker option \<times> 'a recorder_adapter" where
  "flush_pending_drops state b =
     (if rb_pending_drops b = 0 then (None, b)
      else let (m, b') = emit_marker state b in (Some m, b'))"

definition reset_recorder_adapter :: "'a recorder_adapter \<Rightarrow> 'a recorder_adapter" where
  "reset_recorder_adapter b =
     b\<lparr>rb_pending_drops := 0, rb_first_drop_seq := 0, rb_last_drop_seq := 0, rb_markers_emitted := 0,
       rb_last_marker_seq := 0, rb_channel := clear_channel (rb_channel b)\<rparr>"

definition offer_recorder ::
    "'a \<Rightarrow> int \<Rightarrow> 'a recorder_adapter \<Rightarrow> 'a enqueue_verdict \<times> 'a recorder_adapter" where
  "offer_recorder x priority b =
     (let (v, ch) = offer_channel x priority (rb_channel b) in (v, b\<lparr>rb_channel := ch\<rparr>))"

definition take_recorder :: "'a recorder_adapter \<Rightarrow> 'a option \<times> 'a recorder_adapter" where
  "take_recorder b = (let (x, ch) = take_channel (rb_channel b) in (x, b\<lparr>rb_channel := ch\<rparr>))"

section \<open>The reducers' inboxes\<close>

record 'a reducer_adapter =
  rd_name :: string
  rd_channel :: "'a event_channel"
  rd_deferred :: nat
  rd_shed_count :: nat

definition new_reducer_adapter ::
    "string \<Rightarrow> bp_config \<Rightarrow> drop_policy option \<Rightarrow> nat option \<Rightarrow> 'a reducer_adapter option" where
  "new_reducer_adapter name cfg policy capacity =
     map_option (\<lambda>ch. \<lparr>rd_name = name, rd_channel = ch, rd_deferred = 0, rd_shed_count = 0\<rparr>)
       (new_event_channel (''reducer:'' @ name)
          (case capacity of None \<Rightarrow> bc_reducer_capacity cfg
           | Some c \<Rightarrow> if c = 0 then bc_reducer_capacity cfg else c)
          (case policy of Some p \<Rightarrow> p | None \<Rightarrow> bc_reducer_drop_policy cfg))"

definition offer_reducer ::
    "'a \<Rightarrow> int \<Rightarrow> 'a reducer_adapter \<Rightarrow> 'a enqueue_verdict \<times> 'a reducer_adapter" where
  "offer_reducer item priority r =
     (let (v, ch) = offer_channel item priority (rd_channel r) in
      (v, r\<lparr>rd_channel := ch,
            rd_shed_count := (if overflowed v then rd_shed_count r + 1 else rd_shed_count r)\<rparr>))"

definition take_reducer :: "'a reducer_adapter \<Rightarrow> 'a option \<times> 'a reducer_adapter" where
  "take_reducer r = (let (x, ch) = take_channel (rd_channel r) in (x, r\<lparr>rd_channel := ch\<rparr>))"

definition defer_reducer :: "'a reducer_adapter \<Rightarrow> 'a reducer_adapter" where
  "defer_reducer r = r\<lparr>rd_deferred := rd_deferred r + 1\<rparr>"

definition reset_reducer_adapter :: "'a reducer_adapter \<Rightarrow> 'a reducer_adapter" where
  "reset_reducer_adapter r =
     r\<lparr>rd_deferred := 0, rd_shed_count := 0, rd_channel := clear_channel (rd_channel r)\<rparr>"

section \<open>The metrics\<close>

record bp_metrics =
  me_controllers_started :: nat
  me_controllers_reset :: nat
  me_state_transitions :: nat
  me_emergency_entries :: nat
  me_events_accepted :: nat
  me_events_rejected :: nat
  me_events_evicted :: nat
  me_websocket_disconnects :: nat
  me_overflow_markers_emitted :: nat
  me_actions_dispatched :: nat
  me_integrity_violations :: nat

definition new_bp_metrics :: bp_metrics where
  "new_bp_metrics =
     \<lparr>me_controllers_started = 0, me_controllers_reset = 0, me_state_transitions = 0,
      me_emergency_entries = 0, me_events_accepted = 0, me_events_rejected = 0,
      me_events_evicted = 0, me_websocket_disconnects = 0,
      me_overflow_markers_emitted = 0, me_actions_dispatched = 0, me_integrity_violations = 0\<rparr>"

definition record_state_transition :: "bool \<Rightarrow> bp_metrics \<Rightarrow> bp_metrics" where
  "record_state_transition emergency m =
     m\<lparr>me_state_transitions := me_state_transitions m + 1,
       me_emergency_entries := (if emergency then me_emergency_entries m + 1 else me_emergency_entries m)\<rparr>"

section \<open>The controller\<close>

datatype bp_source = ChannelSource string | WebsocketSource | RecorderSource | ReducerSource string

datatype 'l bp_listener = OwnListener | ClientListener 'l

record ('a, 'n, 'l) bp_controller =
  ct_config :: bp_config
  ct_adaptive :: "(bp_source, 'l bp_listener) adaptive_controller"
  ct_budget :: bp_budget
  ct_channels :: "(string, 'a event_channel) dict"
  ct_reducers :: "(string, 'a reducer_adapter) dict"
  ct_websocket :: "'a websocket_registry option"
  ct_recorder :: "'a recorder_adapter option"
  ct_topology :: "'n topology_view option"
  ct_metrics :: bp_metrics

definition new_bp_controller :: "int \<Rightarrow> bp_config \<Rightarrow> bp_metrics \<Rightarrow> ('a, 'n, 'l) bp_controller option" where
  "new_bp_controller now cfg m =
     map_option (\<lambda>b. \<lparr>ct_config = cfg,
                      ct_adaptive = subscribe_actions OwnListener (new_adaptive cfg),
                      ct_budget = b, ct_channels = [], ct_reducers = [], ct_websocket = None,
                      ct_recorder = None, ct_topology = None,
                      ct_metrics = m\<lparr>me_controllers_started := me_controllers_started m + 1\<rparr>\<rparr>)
       (new_budget now 1000000000)"

text \<open>\<open>capacity or default\<close>: a capacity of zero is the default too.\<close>

definition register_channel ::
    "string \<Rightarrow> nat option \<Rightarrow> drop_policy option \<Rightarrow> ('a, 'n, 'l) bp_controller \<Rightarrow>
     ('a event_channel \<times> ('a, 'n, 'l) bp_controller) option" where
  "register_channel name capacity policy c =
     (case dget (ct_channels c) name of
        Some ch \<Rightarrow> Some (ch, c)
      | None \<Rightarrow>
          map_option (\<lambda>ch. (ch, c\<lparr>ct_channels := dset name ch (ct_channels c),
              ct_adaptive := register_source name (ChannelSource name)
                               (int (bq_capacity (ec_queue ch))) (ct_adaptive c)\<rparr>))
            (new_event_channel name
               (case capacity of None \<Rightarrow> bc_bus_capacity (ct_config c)
                | Some k \<Rightarrow> if k = 0 then bc_bus_capacity (ct_config c) else k)
               (case policy of Some p \<Rightarrow> p | None \<Rightarrow> bc_bus_drop_policy (ct_config c))))"

definition attach_websocket_registry ::
    "drop_policy option \<Rightarrow> ('a, 'n, 'l) bp_controller \<Rightarrow> ('a, 'n, 'l) bp_controller" where
  "attach_websocket_registry policy c =
     (if ct_websocket c = None
      then c\<lparr>ct_websocket := Some (new_websocket_registry (ct_config c) policy),
             ct_adaptive := register_source ''websocket'' WebsocketSource 100 (ct_adaptive c)\<rparr>
      else c)"

definition attach_recorder_adapter ::
    "drop_policy option \<Rightarrow> ('a, 'n, 'l) bp_controller \<Rightarrow> ('a, 'n, 'l) bp_controller option" where
  "attach_recorder_adapter policy c =
     (if ct_recorder c = None
      then map_option (\<lambda>b. c\<lparr>ct_recorder := Some b,
             ct_adaptive := register_source ''recorder'' RecorderSource
               (int (bq_capacity (ec_queue (rb_channel b)))) (ct_adaptive c)\<rparr>)
             (new_recorder_adapter (ct_config c) policy)
      else Some c)"

definition attach_reducer_adapter ::
    "string \<Rightarrow> nat option \<Rightarrow> drop_policy option \<Rightarrow> ('a, 'n, 'l) bp_controller \<Rightarrow>
     ('a, 'n, 'l) bp_controller option" where
  "attach_reducer_adapter name capacity policy c =
     (case dget (ct_reducers c) name of
        Some r \<Rightarrow> Some c
      | None \<Rightarrow>
          map_option (\<lambda>r. c\<lparr>ct_reducers := dset name r (ct_reducers c),
              ct_adaptive := register_source (''reducer:'' @ name) (ReducerSource name)
                               (int (bq_capacity (ec_queue (rd_channel r)))) (ct_adaptive c)\<rparr>)
            (new_reducer_adapter name (ct_config c) policy capacity))"

definition attach_topology_view ::
    "nat \<Rightarrow> ('a, 'n, 'l) bp_controller \<Rightarrow> ('a, 'n, 'l) bp_controller option" where
  "attach_topology_view capacity c =
     (if ct_topology c = None
      then map_option (\<lambda>t. c\<lparr>ct_topology := Some t\<rparr>) (new_topology_view capacity)
      else Some c)"

text \<open>Calling a source; \<open>None\<close> is the exception the tick swallows, which no closure of the facade raises.\<close>

fun read_source :: "('a, 'n, 'l) bp_controller \<Rightarrow> bp_source \<Rightarrow> int option" where
  "read_source c (ChannelSource name) =
     map_option (\<lambda>ch. int (channel_depth ch)) (dget (ct_channels c) name)"
| "read_source c WebsocketSource = map_option (\<lambda>r. py_int (max_pressure_ratio r * 100)) (ct_websocket c)"
| "read_source c RecorderSource = map_option (\<lambda>b. int (channel_depth (rb_channel b))) (ct_recorder c)"
| "read_source c (ReducerSource name) =
     map_option (\<lambda>r. int (channel_depth (rd_channel r))) (dget (ct_reducers c) name)"

definition on_action ::
    "int \<Rightarrow> overload_snapshot \<Rightarrow> degradation_action \<Rightarrow> ('a, 'n, 'l) bp_controller \<Rightarrow>
     ('a, 'n, 'l) bp_controller" where
  "on_action now snap action c =
     (let m = ct_metrics c;
          m = m\<lparr>me_actions_dispatched := me_actions_dispatched m + 1\<rparr>;
          m = record_state_transition (os_state snap = OEmergency) m in
      case (da_kind action = DisconnectSlowClients, ct_websocket c) of
        (True, Some r) \<Rightarrow>
          let (n, r') = disconnect_slow_clients now r in
          c\<lparr>ct_websocket := Some r',
            ct_metrics := m\<lparr>me_websocket_disconnects := me_websocket_disconnects m + n\<rparr>\<rparr>
      | _ \<Rightarrow> c\<lparr>ct_metrics := m\<rparr>)"

text \<open>The facade's own deliveries among those of the tick, and the clients' actions.\<close>

fun deliver_actions ::
    "int \<Rightarrow> overload_snapshot \<Rightarrow> (degradation_action \<times> 'l bp_listener) list \<Rightarrow>
     ('a, 'n, 'l) bp_controller \<Rightarrow> (degradation_action \<times> 'l) list \<times> ('a, 'n, 'l) bp_controller" where
  "deliver_actions now snap [] c = ([], c)"
| "deliver_actions now snap ((action, OwnListener) # rest) c = deliver_actions now snap rest (on_action now snap action c)"
| "deliver_actions now snap ((action, ClientListener l) # rest) c =
     (let (out, c') = deliver_actions now snap rest c in ((action, l) # out, c'))"

definition bp_tick ::
    "(nat \<Rightarrow> int) \<Rightarrow> int \<Rightarrow> ('a, 'n, 'l) bp_controller \<Rightarrow>
     (overload_snapshot \<times> (degradation_action \<times> 'l) list \<times> ('a, 'n, 'l) bp_controller) option" where
  "bp_tick now dispatch_ns c =
     (case adaptive_tick (read_source c) now (ct_adaptive c) of
        None \<Rightarrow> None
      | Some (snap, deliveries, a) \<Rightarrow>
          let (out, c') = deliver_actions dispatch_ns snap deliveries (c\<lparr>ct_adaptive := a\<rparr>) in
          Some (snap, out, c'))"

definition record_event_outcome ::
    "int \<Rightarrow> bool \<Rightarrow> bool \<Rightarrow> ('a, 'n, 'l) bp_controller \<Rightarrow> ('a, 'n, 'l) bp_controller" where
  "record_event_outcome now accepted evicted c =
     (let m = ct_metrics c in
      if accepted
      then
        let c1 = c\<lparr>ct_budget := budget_record_accepted now (ct_budget c),
                   ct_metrics := m\<lparr>me_events_accepted := me_events_accepted m + 1\<rparr>\<rparr> in
        if evicted
        then c1\<lparr>ct_budget := budget_record_overflowed now (ct_budget c1),
                ct_metrics := (ct_metrics c1)\<lparr>me_events_evicted := me_events_evicted m + 1\<rparr>\<rparr>
        else c1
      else c\<lparr>ct_budget := budget_record_rejected now (ct_budget c),
             ct_metrics := m\<lparr>me_events_rejected := me_events_rejected m + 1\<rparr>\<rparr>)"

definition controller_channel_stats :: "('a, 'n, 'l) bp_controller \<Rightarrow> channel_stats list" where
  "controller_channel_stats c =
     map channel_stats_of (dvals (ct_channels c)) @
     (case ct_websocket c of None \<Rightarrow> []
      | Some r \<Rightarrow> map (\<lambda>w. channel_stats_of (wc_channel w)) (dvals (wr_channels r))) @
     (case ct_recorder c of None \<Rightarrow> [] | Some b \<Rightarrow> [channel_stats_of (rb_channel b)]) @
     map (\<lambda>r. channel_stats_of (rd_channel r)) (dvals (ct_reducers c))"

definition bp_reset :: "int \<Rightarrow> ('a, 'n, 'l) bp_controller \<Rightarrow> ('a, 'n, 'l) bp_controller" where
  "bp_reset now c =
     c\<lparr>ct_channels := [], ct_reducers := [],
       ct_websocket := map_option reset_websocket_registry (ct_websocket c),
       ct_recorder := map_option reset_recorder_adapter (ct_recorder c),
       ct_topology := map_option topology_clear (ct_topology c),
       ct_budget := budget_reset now (ct_budget c),
       ct_adaptive := adaptive_reset (ct_adaptive c),
       ct_metrics := (ct_metrics c)\<lparr>me_controllers_reset := me_controllers_reset (ct_metrics c) + 1\<rparr>\<rparr>"

definition bp_close :: "('a, 'n, 'l) bp_controller \<Rightarrow> ('a, 'n, 'l) bp_controller" where
  "bp_close c = c\<lparr>ct_adaptive := unsubscribe_actions OwnListener (ct_adaptive c)\<rparr>"

section \<open>Overflow markers\<close>

definition marker_of :: "drop_policy \<Rightarrow> (int \<times> overload_state) list \<Rightarrow> overflow_marker" where
  "marker_of policy xs =
     \<lparr>om_first_sequence = fst (hd xs), om_last_sequence = fst (last xs), om_dropped = length xs,
      om_subsystem = ''recorder'', om_drop_policy = policy, om_state = snd (last xs)\<rparr>"

function chunks :: "nat \<Rightarrow> 'b list \<Rightarrow> 'b list list" where
  "chunks w xs = (if w = 0 \<or> length xs < w then [] else take w xs # chunks w (drop w xs))"
  by pat_completeness auto
termination by (relation "measure (\<lambda>(w, xs). length xs)") auto

function remainder :: "nat \<Rightarrow> 'b list \<Rightarrow> 'b list" where
  "remainder w xs = (if w = 0 \<or> length xs < w then xs else remainder w (drop w xs))"
  by pat_completeness auto
termination by (relation "measure (\<lambda>(w, xs). length xs)") auto

declare chunks.simps [simp del] remainder.simps [simp del]

lemma chunks_short: "length xs < w \<Longrightarrow> chunks w xs = [] \<and> remainder w xs = xs"
  by (simp add: chunks.simps[of w xs] remainder.simps[of w xs])

lemma chunks_full:
  "length xs = w \<Longrightarrow> 0 < w \<Longrightarrow> chunks w (xs @ ys) = xs # chunks w ys \<and> remainder w (xs @ ys) = remainder w ys"
  by (simp add: chunks.simps[of w "xs @ ys"] remainder.simps[of w "xs @ ys"])

fun record_drops ::
    "(int \<times> overload_state) list \<Rightarrow> 'a recorder_adapter \<Rightarrow> overflow_marker list \<times> 'a recorder_adapter" where
  "record_drops [] b = ([], b)"
| "record_drops ((sequence, state) # drops) b =
     (let (m, b1) = record_drop sequence state b; (ms, b2) = record_drops drops b1 in
      (case m of None \<Rightarrow> ms | Some m \<Rightarrow> m # ms, b2))"

definition pending_is :: "(int \<times> overload_state) list \<Rightarrow> 'a recorder_adapter \<Rightarrow> bool" where
  "pending_is ys b \<longleftrightarrow> rb_pending_drops b = length ys \<and> length ys < rb_marker_window b \<and>
     (ys \<noteq> [] \<longrightarrow> rb_first_drop_seq b = fst (hd ys) \<and> rb_last_drop_seq b = fst (last ys))"

lemma record_drop_pending:
  assumes "pending_is ys b" "record_drop sequence state b = (m, b')"
  shows "rb_marker_window b' = rb_marker_window b \<and> rb_channel b' = rb_channel b \<and>
    (if Suc (length ys) < rb_marker_window b then m = None \<and> pending_is (ys @ [(sequence, state)]) b'
     else m = Some (marker_of (bq_policy (ec_queue (rb_channel b))) (ys @ [(sequence, state)])) \<and> pending_is [] b')"
  using assms
  by (cases ys) (auto simp: record_drop_def pending_is_def emit_marker_def marker_of_def Let_def split: if_splits)

lemma record_drops_chunks:
  assumes "pending_is ys b" "record_drops drops b = (ms, b')"
  shows "ms = map (marker_of (bq_policy (ec_queue (rb_channel b)))) (chunks (rb_marker_window b) (ys @ drops)) \<and>
    pending_is (remainder (rb_marker_window b) (ys @ drops)) b' \<and> rb_channel b' = rb_channel b"
  using assms
proof (induction drops arbitrary: ys b ms)
  case Nil
  then show ?case using chunks_short[of ys "rb_marker_window b"] by (simp add: pending_is_def)
next
  case (Cons x drops)
  obtain sequence state where x: "x = (sequence, state)" by fastforce
  obtain m b1 where step: "record_drop sequence state b = (m, b1)" by fastforce
  obtain ms' b2 where rest: "record_drops drops b1 = (ms', b2)" by fastforce
  have out: "ms = (case m of None \<Rightarrow> ms' | Some m \<Rightarrow> m # ms')" "b2 = b'"
    using Cons.prems(2) step rest x by auto
  note P = record_drop_pending[OF Cons.prems(1) step]
  show ?case
  proof (cases "Suc (length ys) < rb_marker_window b")
    case True
    then have "m = None" "pending_is (ys @ [x]) b1" using P x by simp_all
    then show ?thesis using Cons.IH[of "ys @ [x]" b1 ms'] rest out P by simp
  next
    case False
    then have m: "m = Some (marker_of (bq_policy (ec_queue (rb_channel b))) (ys @ [x]))" "pending_is [] b1"
      using P x by simp_all
    have "length (ys @ [x]) = rb_marker_window b" using False Cons.prems(1) by (simp add: pending_is_def)
    then show ?thesis
      using Cons.IH[OF m(2)] rest out P m(1) chunks_full[of "ys @ [x]" "rb_marker_window b" drops] by simp
  qed
qed

text \<open>Every drop is in exactly one gap marker. Reporting any drops to a fresh recorder inbox emits one marker
  for each full window of them, in order, with the first and last sequence and the count of that window, and the final
  flush one for the rest, if any: the markers cut the list of drops into consecutive pieces and lose none.
\<close>

theorem overflow_markers_partition_the_drops:
  assumes "new_recorder_adapter cfg policy = Some b" "0 < bc_marker_summary_window cfg"
    and "record_drops drops b = (ms, b1)" "flush_pending_drops state b1 = (flushed, b2)"
  shows "ms = map (marker_of (bq_policy (ec_queue (rb_channel b)))) (chunks (bc_marker_summary_window cfg) drops) \<and>
    (let rest = remainder (bc_marker_summary_window cfg) drops in
     flushed = (if rest = [] then None
       else Some ((marker_of (bq_policy (ec_queue (rb_channel b))) rest)\<lparr>om_state := state\<rparr>)) \<and>
     concat (chunks (bc_marker_summary_window cfg) drops) @ rest = drops \<and>
     sum_list (map om_dropped (ms @ (case flushed of None \<Rightarrow> [] | Some m \<Rightarrow> [m]))) = length drops)"
proof -
  let ?w = "bc_marker_summary_window cfg"
  have fresh: "pending_is [] b" "rb_marker_window b = ?w"
    using assms(1,2) by (auto simp: new_recorder_adapter_def pending_is_def)
  have R: "ms = map (marker_of (bq_policy (ec_queue (rb_channel b)))) (chunks ?w drops)"
    "pending_is (remainder ?w drops) b1" "rb_channel b1 = rb_channel b"
    using record_drops_chunks[OF fresh(1) assms(3)] fresh(2) by simp_all
  have flush: "flushed = (if remainder ?w drops = [] then None
       else Some ((marker_of (bq_policy (ec_queue (rb_channel b))) (remainder ?w drops))\<lparr>om_state := state\<rparr>))"
    using R(2,3) assms(4)
    by (auto simp: pending_is_def flush_pending_drops_def emit_marker_def marker_of_def)
  have cut: "concat (chunks w xs) @ remainder w xs = xs" for w and xs :: "(int \<times> overload_state) list"
    by (induction w xs rule: chunks.induct) (simp add: chunks.simps remainder.simps)
  have "sum_list (map length (chunks ?w drops)) + length (remainder ?w drops) = length drops"
    using arg_cong[OF cut, of length] by (simp add: length_concat)
  moreover have "map (om_dropped \<circ> marker_of p) xss = map length xss" for p xss
    by (simp add: marker_of_def)
  ultimately have "sum_list (map om_dropped (ms @ (case flushed of None \<Rightarrow> [] | Some m \<Rightarrow> [m]))) = length drops"
    unfolding R(1) flush by (auto simp: marker_of_def comp_def)
  then show ?thesis unfolding Let_def using R(1) flush cut by blast
qed

theorem overflow_markers_partition_the_drops_witness:
  "let cfg = default_bp_config\<lparr>bc_marker_summary_window := 2\<rparr>; drops = [(4, OOverload), (7, OOverload), (9, OEmergency)] in
   (\<exists>b :: nat recorder_adapter. new_recorder_adapter cfg None = Some b \<and>
     map (\<lambda>m. (om_first_sequence m, om_last_sequence m, om_dropped m)) (fst (record_drops drops b)) = [(4, 7, 2)])"
proof -
  let ?cfg = "default_bp_config\<lparr>bc_marker_summary_window := 2\<rparr>"
  let ?drops = "[(4, OOverload), (7, OOverload), (9, OEmergency)]"
  obtain b :: "nat recorder_adapter" where b: "new_recorder_adapter ?cfg None = Some b"
    by (simp add: new_recorder_adapter_def new_event_channel_def new_bounded_queue_def default_bp_config_def)
  have "fst (record_drops ?drops b) = map (marker_of (bq_policy (ec_queue (rb_channel b)))) (chunks 2 ?drops)"
    using overflow_markers_partition_the_drops[OF b, of ?drops "fst (record_drops ?drops b)" "snd (record_drops ?drops b)"
        ONormal "fst (flush_pending_drops ONormal (snd (record_drops ?drops b)))"
        "snd (flush_pending_drops ONormal (snd (record_drops ?drops b)))"] by simp
  then show ?thesis using b by (auto simp: marker_of_def chunks.simps)
qed

section \<open>Actions and metrics\<close>

definition own_deliveries :: "(degradation_action \<times> 'l bp_listener) list \<Rightarrow> nat" where
  "own_deliveries ds = length (filter (\<lambda>d. snd d = OwnListener) ds)"

lemma on_action_metrics:
  "me_state_transitions (ct_metrics (on_action now snap action c)) = Suc (me_state_transitions (ct_metrics c)) \<and>
   me_emergency_entries (ct_metrics (on_action now snap action c)) =
     me_emergency_entries (ct_metrics c) + (if os_state snap = OEmergency then 1 else 0)"
  by (simp add: on_action_def record_state_transition_def disconnect_slow_clients_def Let_def split: option.split bool.split)

lemma deliver_metrics:
  "deliver_actions now snap ds c = (out, c') \<Longrightarrow>
   me_state_transitions (ct_metrics c') = me_state_transitions (ct_metrics c) + own_deliveries ds \<and>
   me_emergency_entries (ct_metrics c') =
     me_emergency_entries (ct_metrics c) + (if os_state snap = OEmergency then own_deliveries ds else 0)"
  by (induction now snap ds c arbitrary: out rule: deliver_actions.induct)
    (auto simp: own_deliveries_def on_action_metrics split: prod.splits)

lemma own_deliveries_product:
  "own_deliveries (List.product as ls) = length as * length (filter (\<lambda>l. l = OwnListener) ls)"
  by (induction as) (simp_all add: own_deliveries_def filter_map comp_def)

lemma length_actions_for:
  "previous \<noteq> next \<Longrightarrow> length (actions_for cfg previous next) =
     (case next of ONormal \<Rightarrow> 1 | OElevated \<Rightarrow> 1 | OOverload \<Rightarrow> 4 | OEmergency \<Rightarrow> 5)"
  by (simp add: actions_for_def shared_actions_def split: overload_state.split)

text \<open>The metrics count one state change several times. The facade's own listener books a state transition for
  every action it is handed, and a change of state has one action or several: a tick that enters \<open>OVERLOAD\<close> adds four
  transitions to the metrics, one that enters \<open>EMERGENCY\<close> five, and five emergency entries.
\<close>

theorem one_transition_is_counted_per_action:
  assumes "bp_tick now dispatch_ns c = Some (snap, out, c')"
    and "filter (\<lambda>l. l = OwnListener) (ad_listeners (ct_adaptive c)) = [OwnListener]"
    and "os_state snap \<noteq> dt_state (ad_detector (ct_adaptive c))"
  shows "me_state_transitions (ct_metrics c') = me_state_transitions (ct_metrics c) +
      (case os_state snap of ONormal \<Rightarrow> 1 | OElevated \<Rightarrow> 1 | OOverload \<Rightarrow> 4 | OEmergency \<Rightarrow> 5) \<and>
    me_emergency_entries (ct_metrics c') =
      me_emergency_entries (ct_metrics c) + (if os_state snap = OEmergency then 5 else 0)"
proof -
  obtain ds a where tick: "adaptive_tick (read_source c) now (ct_adaptive c) = Some (snap, ds, a)"
    and del: "deliver_actions dispatch_ns snap ds (c\<lparr>ct_adaptive := a\<rparr>) = (out, c')"
    using assms(1) by (auto simp: bp_tick_def Let_def split: option.splits prod.splits)
  have "ds = List.product (actions_for (ad_config (ct_adaptive c)) (dt_state (ad_detector (ct_adaptive c))) (os_state snap))
      (ad_listeners (ct_adaptive c))"
    using adaptive_tick_parts[OF tick] assms(3) by auto
  then have "own_deliveries ds =
      (case os_state snap of ONormal \<Rightarrow> 1 | OElevated \<Rightarrow> 1 | OOverload \<Rightarrow> 4 | OEmergency \<Rightarrow> 5)"
    using length_actions_for assms(2,3) by (simp add: own_deliveries_product)
  then show ?thesis using deliver_metrics[OF del] by simp
qed

theorem one_transition_is_counted_per_action_witness:
  "\<exists>(c :: (nat, nat, nat) bp_controller) snap out c'.
     bp_tick (\<lambda>_. 0) 0 c = Some (snap, out, c') \<and> os_state snap = OEmergency \<and>
     me_state_transitions (ct_metrics c) = 0 \<and> me_state_transitions (ct_metrics c') = 5"
proof -
  let ?cfg = default_bp_config
  let ?a = "(subscribe_actions OwnListener (new_adaptive ?cfg))
      \<lparr>ad_sources := [(''recorder'', RecorderSource, 1)],
       ad_detector := (new_detector ?cfg)\<lparr>dt_smoothed := 20\<rparr>\<rparr>"
  let ?b = "\<lparr>rb_channel = \<lparr>ec_name = [], ec_queue = \<lparr>bq_capacity = 1, bq_policy = BlockProducer, bq_buf = Fifo [3],
       bq_counter = 0, bq_accepted = 1, bq_rejected = 0, bq_evicted_oldest = 0, bq_evicted_low_priority = 0\<rparr>,
       ec_overflow_count = 0\<rparr>, rb_marker_window = 2, rb_pending_drops = 0, rb_first_drop_seq = 0,
       rb_last_drop_seq = 0, rb_markers_emitted = 0, rb_last_marker_seq = 0\<rparr>"
  define c :: "(nat, nat, nat) bp_controller" where
    "c = \<lparr>ct_config = ?cfg, ct_adaptive = ?a,
          ct_budget = \<lparr>bu_window_ns = 1, bu_window_start = 0, bu_accepted = 0, bu_rejected = 0, bu_overflowed = 0\<rparr>,
          ct_channels = [], ct_reducers = [], ct_websocket = None, ct_recorder = Some ?b, ct_topology = None,
          ct_metrics = new_bp_metrics\<rparr>"
  have own: "filter (\<lambda>l. l = OwnListener) (ad_listeners (ct_adaptive c)) = [OwnListener]"
    by (simp add: c_def subscribe_actions_def new_adaptive_def)
  have normal: "dt_state (ad_detector (ct_adaptive c)) = ONormal" by (simp add: c_def new_detector_def)
  have "\<exists>snap ds a. adaptive_tick (read_source c) (\<lambda>_. 0) (ct_adaptive c) = Some (snap, ds, a) \<and> os_state snap = OEmergency"
    by (simp add: c_def subscribe_actions_def new_adaptive_def adaptive_tick_def detector_observe_def
        ema_smooth_def maybe_transition_locked_def next_overload_state_def new_detector_def default_bp_config_def
        aggregate_ratio_def signal_ratio_def state_for_ratio_def channel_depth_def queue_depth_def
        detector_snapshot_def Let_def)
  then obtain snap ds a where tick: "adaptive_tick (read_source c) (\<lambda>_. 0) (ct_adaptive c) = Some (snap, ds, a)"
    and emergency: "os_state snap = OEmergency" by blast
  obtain out c' where "deliver_actions 0 snap ds (c\<lparr>ct_adaptive := a\<rparr>) = (out, c')" by fastforce
  then have run: "bp_tick (\<lambda>_. 0) 0 c = Some (snap, out, c')" using tick by (simp add: bp_tick_def)
  have "me_state_transitions (ct_metrics c') = 5"
    using one_transition_is_counted_per_action[OF run own] emergency normal by (simp add: c_def new_bp_metrics_def)
  moreover have "me_state_transitions (ct_metrics c) = 0" by (simp add: c_def new_bp_metrics_def)
  ultimately show ?thesis using run emergency by blast
qed

section \<open>After a reset\<close>

datatype 'a bp_command =
    OfferWebsocket string 'a int
  | MarkSlow string
  | OfferRecorder 'a int
  | AttachWebsocket "drop_policy option"
  | AttachRecorder "drop_policy option"
  | Tick "nat \<Rightarrow> int" int

fun bp_run ::
    "'a bp_command list \<Rightarrow> ('a, 'n, 'l) bp_controller \<Rightarrow>
     ((overload_state \<times> (degradation_action \<times> 'l) list) list \<times> ('a, 'n, 'l) bp_controller) option" where
  "bp_run [] c = Some ([], c)"
| "bp_run (OfferWebsocket sid frame priority # cmds) c =
     bp_run cmds (c\<lparr>ct_websocket := map_option (\<lambda>r.
       case attach_subscriber sid r of None \<Rightarrow> r
       | Some (w, r') \<Rightarrow> r'\<lparr>wr_channels := dset sid (snd (offer_subscriber frame priority w)) (wr_channels r')\<rparr>)
       (ct_websocket c)\<rparr>)"
| "bp_run (MarkSlow sid # cmds) c =
     bp_run cmds (c\<lparr>ct_websocket := map_option (\<lambda>r.
       case dget (wr_channels r) sid of None \<Rightarrow> r
       | Some w \<Rightarrow> r\<lparr>wr_channels := dset sid (mark_slow w) (wr_channels r)\<rparr>) (ct_websocket c)\<rparr>)"
| "bp_run (OfferRecorder x priority # cmds) c =
     bp_run cmds (c\<lparr>ct_recorder := map_option (\<lambda>b. snd (offer_recorder x priority b)) (ct_recorder c)\<rparr>)"
| "bp_run (AttachWebsocket policy # cmds) c = bp_run cmds (attach_websocket_registry policy c)"
| "bp_run (AttachRecorder policy # cmds) c =
     (case attach_recorder_adapter policy c of None \<Rightarrow> None | Some c' \<Rightarrow> bp_run cmds c')"
| "bp_run (Tick now dispatch_ns # cmds) c =
     (case bp_tick now dispatch_ns c of
        None \<Rightarrow> None
      | Some (snap, out, c1) \<Rightarrow>
          (case bp_run cmds c1 of None \<Rightarrow> None | Some (trace, c2) \<Rightarrow> Some ((os_state snap, out) # trace, c2)))"

definition deaf :: "('a, 'n, 'l) bp_controller \<Rightarrow> bool" where
  "deaf c \<longleftrightarrow> ct_websocket c \<noteq> None \<and> ct_recorder c \<noteq> None \<and> ad_sources (ct_adaptive c) = [] \<and>
     ad_listeners (ct_adaptive c) = [] \<and> dt_state (ad_detector (ct_adaptive c)) = ONormal"

lemma deaf_tick:
  assumes "deaf c"
  shows "\<exists>snap c'. bp_tick now dispatch_ns c = Some (snap, [], c') \<and> os_state snap = ONormal \<and> deaf c' \<and>
    ct_metrics c' = ct_metrics c"
  using assms by (auto simp: deaf_def bp_tick_def adaptive_tick_def detector_snapshot_def Let_def)

lemma deaf_run:
  "deaf c \<Longrightarrow> \<exists>trace c'. bp_run cmds c = Some (trace, c') \<and> set trace \<subseteq> {(ONormal, [])} \<and> deaf c' \<and>
     ct_metrics c' = ct_metrics c"
proof (induction cmds c rule: bp_run.induct)
  case (7 now dispatch_ns cmds c)
  obtain snap c1 where step: "bp_tick now dispatch_ns c = Some (snap, [], c1)" "os_state snap = ONormal" "deaf c1"
    "ct_metrics c1 = ct_metrics c"
    using deaf_tick[OF 7(2)] by blast
  show ?case using 7(1)[OF step(1) refl refl step(3)] step by auto
qed (auto simp: deaf_def attach_websocket_registry_def attach_recorder_adapter_def)

text \<open>After a reset the controller no longer listens. \<open>reset()\<close> clears the pressure sources and the action listeners, its
  own among them, but keeps the websocket registry and the recorder inbox attached, and attaching them again registers
  nothing. So whatever is offered to them afterwards, whoever is marked slow and however often it ticks, every tick
  reports \<open>NORMAL\<close>, no action is dispatched and no metric moves.
\<close>

theorem reset_deafens_the_controller:
  assumes "ct_websocket c \<noteq> None" "ct_recorder c \<noteq> None"
  shows "\<exists>trace c'. bp_run cmds (bp_reset now c) = Some (trace, c') \<and> set trace \<subseteq> {(ONormal, [])} \<and>
    ct_metrics c' = ct_metrics (bp_reset now c)"
proof -
  have "deaf (bp_reset now c)"
    using assms by (simp add: deaf_def bp_reset_def adaptive_reset_def detector_reset_def new_detector_def)
  from deaf_run[OF this] show ?thesis by blast
qed

theorem reset_deafens_the_controller_witness:
  "\<exists>(c :: (nat, nat, nat) bp_controller) trace c'.
     bp_run [OfferRecorder 5 0, AttachRecorder None, Tick (\<lambda>_. 0) 0] (bp_reset 0 c) = Some (trace, c') \<and>
     trace = [(ONormal, [])] \<and> read_source c' RecorderSource = Some 1 \<and>
     map_option (\<lambda>b. bq_capacity (ec_queue (rb_channel b))) (ct_recorder c') = Some 1"
proof -
  let ?cfg = "default_bp_config\<lparr>bc_recorder_capacity := 1\<rparr>"
  obtain b :: "nat recorder_adapter" where b: "new_recorder_adapter ?cfg None = Some b"
    by (simp add: new_recorder_adapter_def new_event_channel_def new_bounded_queue_def)
  define c :: "(nat, nat, nat) bp_controller" where
    "c = \<lparr>ct_config = ?cfg, ct_adaptive = subscribe_actions OwnListener (new_adaptive ?cfg),
          ct_budget = \<lparr>bu_window_ns = 1, bu_window_start = 0, bu_accepted = 0, bu_rejected = 0, bu_overflowed = 0\<rparr>,
          ct_channels = [], ct_reducers = [], ct_websocket = Some (new_websocket_registry ?cfg None),
          ct_recorder = Some b, ct_topology = None, ct_metrics = new_bp_metrics\<rparr>"
  let ?cmds = "[OfferRecorder 5 0, AttachRecorder None, Tick (\<lambda>_. 0) 0] :: nat bp_command list"
  have "ct_websocket c \<noteq> None" "ct_recorder c \<noteq> None" by (simp_all add: c_def)
  then obtain trace c' where run: "bp_run ?cmds (bp_reset 0 c) = Some (trace, c')" "set trace \<subseteq> {(ONormal, [])}"
    using reset_deafens_the_controller[of c ?cmds 0] by blast
  have queue: "ct_recorder (bp_reset 0 c) = Some (reset_recorder_adapter b)" by (simp add: bp_reset_def c_def)
  have "trace = [(ONormal, [])] \<and> ct_recorder c' = Some (snd (offer_recorder 5 0 (reset_recorder_adapter b)))"
    using run queue
    by (auto simp: attach_recorder_adapter_def bp_tick_def adaptive_tick_def bp_reset_def adaptive_reset_def
        detector_reset_def new_detector_def detector_snapshot_def Let_def split: prod.splits option.splits)
  moreover have "channel_depth (rb_channel (snd (offer_recorder 5 0 (reset_recorder_adapter b)))) = 1 \<and>
      bq_capacity (ec_queue (rb_channel (snd (offer_recorder 5 0 (reset_recorder_adapter b))))) = 1"
    using b by (auto simp: new_recorder_adapter_def new_event_channel_def new_bounded_queue_def default_bp_config_def
        offer_recorder_def reset_recorder_adapter_def clear_channel_def queue_clear_def offer_channel_def queue_offer_def
        queue_depth_def channel_depth_def push_locked_def Let_def)
  ultimately show ?thesis using run(1) by (intro exI[of _ c] exI[of _ trace] exI[of _ c']) simp
qed

end
