(* ===== verification/Sampling.thy ===== *)
theory Sampling
  imports Prelude
begin

text \<open>
  Event sampling (\<open>asyncviz/runtime/sampling\<close>): the priority of an event type, the deterministic bucket, the
  policies and their composition, the retention budget, the sampler, the two controllers that
  switch its overload mode (the adaptive one and the websocket one), the bookkeeping of sampled-out events, and
  the integrity check of a decision.

  The four bytes of BLAKE2b, a hash of the standard library, are an argument \<open>digest\<close> (their value as a number); nothing
  is assumed of it. Clock readings are arguments. Floats are reals.
\<close>

section \<open>Priorities\<close>

datatype sampling_priority = Delta | State | Structural | Critical

fun priority_rank :: "sampling_priority \<Rightarrow> int" where
  "priority_rank Delta = 1"
| "priority_rank State = 2"
| "priority_rank Structural = 3"
| "priority_rank Critical = 4"

definition priority_prefixes :: "(string \<times> sampling_priority) list" where
  "priority_prefixes =
     [(''runtime.warning'', Critical), (''runtime.started'', Critical), (''runtime.stopped'', Critical),
      (''asyncio.loop.blocked'', Critical),
      (''asyncio.task.created'', Structural), (''asyncio.task.completed'', Structural),
      (''asyncio.task.cancelled'', Structural), (''asyncio.task.failed'', Structural),
      (''asyncio.queue.created'', Structural), (''asyncio.queue.cancelled'', Structural),
      (''asyncio.semaphore.created'', Structural), (''asyncio.gather.created'', Structural),
      (''asyncio.gather.completed'', Structural), (''asyncio.gather.cancelled'', Structural),
      (''asyncio.gather.failed'', Structural), (''asyncio.executor.registered'', Structural),
      (''asyncio.gather.child.attached'', Structural),
      (''asyncio.queue.metrics.updated'', Delta), (''asyncio.executor.metrics.updated'', Delta),
      (''asyncio.executor.saturation.changed'', Delta), (''asyncio.queue.pressure.changed'', Delta),
      (''asyncio.queue.saturation.detected'', Delta), (''asyncio.executor.contention.detected'', Delta),
      (''asyncio.executor.latency.spike.detected'', Delta), (''asyncio.queue.contention.detected'', Delta),
      (''asyncio.semaphore.contention.detected'', Delta), (''runtime.metric'', Delta)]"

definition category_defaults :: "(string \<times> sampling_priority) list" where
  "category_defaults =
     [(''asyncio.task.'', State), (''asyncio.queue.'', State), (''asyncio.semaphore.'', State),
      (''asyncio.gather.'', State), (''asyncio.executor.'', State), (''runtime.'', State)]"

definition classify_event_priority :: "string \<Rightarrow> sampling_priority" where
  "classify_event_priority et =
     (case find (\<lambda>(p, _). et = p \<or> starts_with (p @ ''.'') et) priority_prefixes of
        Some (_, q) \<Rightarrow> q
      | None \<Rightarrow>
          (case find (\<lambda>(p, _). starts_with p et) category_defaults of
             Some (_, q) \<Rightarrow> q
           | None \<Rightarrow> State))"

definition structural_event_types :: "string set" where
  "structural_event_types =
     {''asyncio.task.created'', ''asyncio.task.completed'', ''asyncio.task.cancelled'',
      ''asyncio.task.failed'', ''asyncio.queue.created'', ''asyncio.queue.cancelled'',
      ''asyncio.semaphore.created'', ''asyncio.gather.created'', ''asyncio.gather.completed'',
      ''asyncio.gather.cancelled'', ''asyncio.gather.failed'', ''asyncio.gather.child.attached'',
      ''asyncio.executor.registered'', ''runtime.started'', ''runtime.stopped''}"

definition is_structural_event :: "string \<Rightarrow> bool" where
  "is_structural_event et \<longleftrightarrow>
     et \<in> structural_event_types \<or> classify_event_priority et \<in> {Structural, Critical}"

definition force_retain_structural :: "string \<Rightarrow> sampling_priority option" where
  "force_retain_structural et = (if et \<in> structural_event_types then Some Structural else None)"

section \<open>Configuration\<close>

datatype sampling_mode = ModeOff | ModeFixed | ModeAdaptive

record sampling_config =
  sc_mode :: sampling_mode
  sc_critical_retention :: real
  sc_structural_retention :: real
  sc_state_retention :: real
  sc_delta_retention :: real
  sc_budget_window_ns :: int
  sc_budget_target_events :: int
  sc_overload_ratio :: real
  sc_overload_floor :: real
  sc_relax_decay :: real
  sc_marker_window_events :: nat
  sc_never_drop :: "string list"
  sc_seed :: int

definition unit_rate :: "real \<Rightarrow> bool" where
  "unit_rate r \<longleftrightarrow> 0 \<le> r \<and> r \<le> 1"

text \<open>\<open>__post_init__\<close>: the configurations it accepts.\<close>

definition sampling_config_valid :: "sampling_config \<Rightarrow> bool" where
  "sampling_config_valid cfg \<longleftrightarrow>
     unit_rate (sc_critical_retention cfg) \<and> unit_rate (sc_structural_retention cfg) \<and>
     unit_rate (sc_state_retention cfg) \<and> unit_rate (sc_delta_retention cfg) \<and>
     unit_rate (sc_overload_floor cfg) \<and> 1000000 \<le> sc_budget_window_ns cfg \<and>
     1 \<le> sc_budget_target_events cfg \<and> 1 < sc_overload_ratio cfg \<and> sc_overload_ratio cfg < 100 \<and>
     0 < sc_relax_decay cfg \<and> sc_relax_decay cfg < 1 \<and> 1 \<le> sc_marker_window_events cfg"

definition default_sampling_config :: sampling_config where
  "default_sampling_config =
     \<lparr>sc_mode = ModeAdaptive, sc_critical_retention = 1, sc_structural_retention = 1,
      sc_state_retention = 1 / 2, sc_delta_retention = 1 / 10, sc_budget_window_ns = 1000000000,
      sc_budget_target_events = 50000, sc_overload_ratio = 3 / 2, sc_overload_floor = 1 / 20,
      sc_relax_decay = 9 / 10, sc_marker_window_events = 256, sc_never_drop = [],
      sc_seed = 10862327\<rparr>"

definition off_sampling_config :: sampling_config where
  "off_sampling_config = default_sampling_config\<lparr>sc_mode := ModeOff\<rparr>"

definition aggressive_sampling_config :: sampling_config where
  "aggressive_sampling_config =
     default_sampling_config\<lparr>sc_state_retention := 1 / 5, sc_delta_retention := 1 / 50,
       sc_budget_target_events := 10000, sc_overload_floor := 1 / 100\<rparr>"

definition relaxed_sampling_config :: sampling_config where
  "relaxed_sampling_config =
     default_sampling_config\<lparr>sc_state_retention := 3 / 4, sc_delta_retention := 1 / 4,
       sc_budget_target_events := 500000, sc_overload_floor := 1 / 10\<rparr>"

section \<open>The bucket\<close>

definition bucket_count :: int where
  "bucket_count = 1024"

definition sampling_key :: "string \<Rightarrow> int \<Rightarrow> int \<Rightarrow> string" where
  "sampling_key et sequence seed = str_of_int seed @ ''|'' @ et @ ''|'' @ str_of_int sequence"

definition deterministic_bucket :: "(string \<Rightarrow> nat) \<Rightarrow> string \<Rightarrow> int \<Rightarrow> int \<Rightarrow> int" where
  "deterministic_bucket digest et sequence seed = int (digest (sampling_key et sequence seed)) mod bucket_count"

section \<open>Decisions and policies\<close>

datatype sampling_reason = ReasonOff | NeverDropType | CriticalPriority | StructuralPriority
  | RetainedByRate | DroppedByRate | DroppedByBudget | DroppedByOverload | DroppedByBackpressure

record sampling_decision =
  sd_retain :: bool
  sd_priority :: sampling_priority
  sd_reason :: sampling_reason
  sd_sequence :: int
  sd_bucket :: int

definition rate_for_priority :: "sampling_config \<Rightarrow> sampling_priority \<Rightarrow> real" where
  "rate_for_priority cfg p =
     (case p of
        Critical \<Rightarrow> min 1 (sc_critical_retention cfg)
      | Structural \<Rightarrow> min 1 (sc_structural_retention cfg)
      | State \<Rightarrow> sc_state_retention cfg
      | Delta \<Rightarrow> sc_delta_retention cfg)"

definition bucket_below_rate :: "int \<Rightarrow> real \<Rightarrow> bool" where
  "bucket_below_rate b rate \<longleftrightarrow>
     (if 1 \<le> rate then True else if rate \<le> 0 then False
      else b < py_int (rate * real_of_int bucket_count))"

definition default_decide ::
    "sampling_config \<Rightarrow> sampling_priority \<Rightarrow> int \<Rightarrow> int \<Rightarrow> bool \<Rightarrow> bool \<Rightarrow> sampling_decision" where
  "default_decide cfg p sequence b over_budget overload =
     (let decision = (\<lambda>keep reason. \<lparr>sd_retain = keep, sd_priority = p, sd_reason = reason,
                                      sd_sequence = sequence, sd_bucket = b\<rparr>) in
      if sc_mode cfg = ModeOff then decision True ReasonOff
      else if p = Critical then decision True CriticalPriority
      else if p = Structural \<and> 1 \<le> sc_structural_retention cfg then decision True StructuralPriority
      else if over_budget \<and> overload \<and> priority_rank p < priority_rank Structural
      then (if bucket_below_rate b (max (sc_overload_floor cfg) 0) then decision True RetainedByRate
            else decision False DroppedByOverload)
      else if over_budget \<and> priority_rank p < priority_rank Structural
      then (if bucket_below_rate b (rate_for_priority cfg p * (1 / 2)) then decision True RetainedByRate
            else decision False DroppedByBudget)
      else if bucket_below_rate b (rate_for_priority cfg p) then decision True RetainedByRate
      else decision False DroppedByRate)"

text \<open>The three policies of the package; the two adapters wrap any other. A custom policy is not modelled.\<close>

datatype sampling_policy =
    DefaultPolicy sampling_config
  | NeverDropPolicy sampling_policy "string set"
  | CappedRatePolicy sampling_policy real

fun decide ::
    "(string \<Rightarrow> nat) \<Rightarrow> sampling_policy \<Rightarrow> string \<Rightarrow> sampling_priority \<Rightarrow> int \<Rightarrow> int \<Rightarrow> bool \<Rightarrow> bool \<Rightarrow>
     sampling_decision" where
  "decide digest (DefaultPolicy cfg) et p sequence seed over_budget overload =
     default_decide cfg p sequence (deterministic_bucket digest et sequence seed) over_budget overload"
| "decide digest (NeverDropPolicy inner allowed) et p sequence seed over_budget overload =
     (if et \<in> allowed
      then \<lparr>sd_retain = True, sd_priority = p, sd_reason = NeverDropType, sd_sequence = sequence,
            sd_bucket = deterministic_bucket digest et sequence seed\<rparr>
      else decide digest inner et p sequence seed over_budget overload)"
| "decide digest (CappedRatePolicy inner cap_rate) et p sequence seed over_budget overload =
     (let d = decide digest inner et p sequence seed over_budget overload in
      if p = Critical \<or> \<not> sd_retain d then d
      else if sd_bucket d < py_int (cap_rate * real_of_int bucket_count) then d
      else \<lparr>sd_retain = False, sd_priority = p, sd_reason = DroppedByRate, sd_sequence = sequence,
            sd_bucket = sd_bucket d\<rparr>)"

section \<open>The budget\<close>

record sampling_budget =
  sb_target :: int
  sb_window_ns :: int
  sb_window_start :: int
  sb_current :: int

definition new_sampling_budget :: "int \<Rightarrow> int \<Rightarrow> int \<Rightarrow> sampling_budget option" where
  "new_sampling_budget now target window_ns =
     (if target < 1 \<or> window_ns < 1000000 then None
      else Some \<lparr>sb_target = target, sb_window_ns = window_ns, sb_window_start = now, sb_current = 0\<rparr>)"

definition roll_budget :: "int \<Rightarrow> sampling_budget \<Rightarrow> sampling_budget" where
  "roll_budget now b =
     (if sb_window_ns b \<le> now - sb_window_start b
      then b\<lparr>sb_window_start := now, sb_current := 0\<rparr> else b)"

definition record_retained :: "int \<Rightarrow> sampling_budget \<Rightarrow> sampling_budget" where
  "record_retained now b = (let b = roll_budget now b in b\<lparr>sb_current := sb_current b + 1\<rparr>)"

definition is_over_budget :: "int \<Rightarrow> sampling_budget \<Rightarrow> bool \<times> sampling_budget" where
  "is_over_budget now b = (let b = roll_budget now b in (sb_target b < sb_current b, b))"

definition reset_sampling_budget :: "int \<Rightarrow> sampling_budget \<Rightarrow> sampling_budget" where
  "reset_sampling_budget now b = b\<lparr>sb_window_start := now, sb_current := 0\<rparr>"

section \<open>The sampler\<close>

record event_sampler =
  es_config :: sampling_config
  es_policy :: sampling_policy
  es_budget :: sampling_budget
  es_sequence :: int
  es_overload :: bool

definition new_event_sampler :: "int \<Rightarrow> sampling_config \<Rightarrow> sampling_policy option \<Rightarrow> event_sampler option" where
  "new_event_sampler now cfg policy =
     (let base = (case policy of None \<Rightarrow> DefaultPolicy cfg | Some p \<Rightarrow> p);
          wrapped = (if sc_never_drop cfg = [] then base
                     else NeverDropPolicy base (set (sc_never_drop cfg)))
      in map_option (\<lambda>b. \<lparr>es_config = cfg, es_policy = wrapped, es_budget = b, es_sequence = 0,
                          es_overload = False\<rparr>)
           (new_sampling_budget now (sc_budget_target_events cfg) (sc_budget_window_ns cfg)))"

definition set_overload :: "bool \<Rightarrow> event_sampler \<Rightarrow> event_sampler" where
  "set_overload v s = s\<lparr>es_overload := v\<rparr>"

text \<open>The clock is read when the budget is asked and again when a retention is recorded.\<close>

definition evaluate ::
    "(string \<Rightarrow> nat) \<Rightarrow> int \<times> int \<Rightarrow> string \<Rightarrow> sampling_priority option \<Rightarrow> event_sampler \<Rightarrow>
     sampling_decision \<times> event_sampler" where
  "evaluate digest clock et priority s =
     (let s1 = s\<lparr>es_sequence := es_sequence s + 1\<rparr>;
          p = (case priority of Some p \<Rightarrow> p | None \<Rightarrow> classify_event_priority et);
          (over, b) = is_over_budget (fst clock) (es_budget s1);
          d = decide digest (es_policy s1) et p (es_sequence s1) (sc_seed (es_config s1)) over (es_overload s1);
          b' = (if sd_retain d then record_retained (snd clock) b else b)
      in (d, s1\<lparr>es_budget := b'\<rparr>))"

definition reset_sampler :: "int \<Rightarrow> event_sampler \<Rightarrow> event_sampler" where
  "reset_sampler now s =
     s\<lparr>es_sequence := 0, es_overload := False, es_budget := reset_sampling_budget now (es_budget s)\<rparr>"

section \<open>The integrity check\<close>

datatype sampling_violation = DroppedCritical | DroppedStructural | NonMonotonicSequence | BucketOutOfRange

definition check_decision :: "sampling_decision \<Rightarrow> int \<Rightarrow> sampling_violation option" where
  "check_decision d previous =
     (if \<not> sd_retain d \<and> sd_priority d = Critical then Some DroppedCritical
      else if \<not> sd_retain d \<and> sd_priority d = Structural \<and>
              sd_reason d \<in> {DroppedByRate, DroppedByBudget, DroppedByOverload}
      then Some DroppedStructural
      else if sd_sequence d \<le> previous then Some NonMonotonicSequence
      else if \<not> (0 \<le> sd_bucket d \<and> sd_bucket d < bucket_count) then Some BucketOutOfRange
      else None)"

section \<open>The adaptive controller\<close>

text \<open>The controllers share the sampler; their operations take and return it.\<close>

record adaptive_sampling =
  as_decay :: real
  as_smoothed :: real
  as_last_pressure :: int
  as_transitions :: nat
  as_high :: real
  as_low :: real

record adaptive_snapshot =
  an_smoothed :: real
  an_last :: int
  an_overload :: bool
  an_transitions :: nat

definition new_adaptive_sampling :: "sampling_config \<Rightarrow> adaptive_sampling" where
  "new_adaptive_sampling cfg =
     \<lparr>as_decay = sc_relax_decay cfg, as_smoothed = 0, as_last_pressure = 0, as_transitions = 0,
      as_high = real_of_int (sc_budget_target_events cfg) * sc_overload_ratio cfg,
      as_low = real_of_int (sc_budget_target_events cfg) * 1\<rparr>"

definition observe_pressure ::
    "int \<Rightarrow> adaptive_sampling \<times> event_sampler \<Rightarrow> adaptive_snapshot \<times> adaptive_sampling \<times> event_sampler" where
  "observe_pressure reading = (\<lambda>(a, s).
     let v = (if reading < 0 then 0 else reading);
         a1 = a\<lparr>as_last_pressure := v,
                as_smoothed := as_decay a * as_smoothed a + (1 - as_decay a) * real_of_int v\<rparr>;
         (a2, s2) =
           (if \<not> es_overload s \<and> as_high a1 \<le> as_smoothed a1
            then (a1\<lparr>as_transitions := as_transitions a1 + 1\<rparr>, set_overload True s)
            else if es_overload s \<and> as_smoothed a1 \<le> as_low a1
            then (a1\<lparr>as_transitions := as_transitions a1 + 1\<rparr>, set_overload False s)
            else (a1, s))
     in (\<lparr>an_smoothed = as_smoothed a2, an_last = as_last_pressure a2, an_overload = es_overload s2,
          an_transitions = as_transitions a2\<rparr>, a2, s2))"

text \<open>A tick asks the pressure source; \<open>None\<close> is no source, or one that raised.\<close>

definition sampling_tick ::
    "int option \<Rightarrow> adaptive_sampling \<times> event_sampler \<Rightarrow>
     adaptive_snapshot option \<times> adaptive_sampling \<times> event_sampler" where
  "sampling_tick source c =
     (case source of None \<Rightarrow> (None, c)
      | Some v \<Rightarrow> (let (n, c') = observe_pressure v c in (Some n, c')))"

definition reset_adaptive_sampling ::
    "adaptive_sampling \<times> event_sampler \<Rightarrow> adaptive_sampling \<times> event_sampler" where
  "reset_adaptive_sampling = (\<lambda>(a, s).
     (a\<lparr>as_smoothed := 0, as_last_pressure := 0, as_transitions := 0\<rparr>, set_overload False s))"

section \<open>The websocket controller\<close>

record websocket_shedding =
  ws_high :: int
  ws_low :: int
  ws_engaged :: bool
  ws_times_engaged :: nat
  ws_times_released :: nat
  ws_last_depth :: int

definition new_websocket_shedding :: "int \<Rightarrow> int \<Rightarrow> websocket_shedding option" where
  "new_websocket_shedding high low =
     (if high \<le> low then None
      else Some \<lparr>ws_high = high, ws_low = low, ws_engaged = False, ws_times_engaged = 0,
                 ws_times_released = 0, ws_last_depth = 0\<rparr>)"

definition observe_queue_depth ::
    "int \<Rightarrow> websocket_shedding \<times> event_sampler \<Rightarrow> bool \<times> websocket_shedding \<times> event_sampler" where
  "observe_queue_depth depth = (\<lambda>(w, s).
     let w1 = w\<lparr>ws_last_depth := depth\<rparr>;
         (w2, s2) =
           (if \<not> ws_engaged w1 \<and> ws_high w1 \<le> depth
            then (w1\<lparr>ws_engaged := True, ws_times_engaged := ws_times_engaged w1 + 1\<rparr>, set_overload True s)
            else if ws_engaged w1 \<and> depth \<le> ws_low w1
            then (w1\<lparr>ws_engaged := False, ws_times_released := ws_times_released w1 + 1\<rparr>, set_overload False s)
            else (w1, s))
     in (ws_engaged w2, w2, s2))"

definition should_send ::
    "(string \<Rightarrow> nat) \<Rightarrow> int \<times> int \<Rightarrow> string \<Rightarrow> sampling_priority option \<Rightarrow> websocket_shedding \<times> event_sampler \<Rightarrow>
     sampling_decision \<times> websocket_shedding \<times> event_sampler" where
  "should_send digest clock et priority = (\<lambda>(w, s).
     let (d, s') = evaluate digest clock et priority s in (d, w, s'))"

definition reset_websocket_shedding :: "websocket_shedding \<Rightarrow> websocket_shedding" where
  "reset_websocket_shedding w =
     w\<lparr>ws_engaged := False, ws_times_engaged := 0, ws_times_released := 0, ws_last_depth := 0\<rparr>"

section \<open>Bookkeeping\<close>

record sampling_marker =
  mk_first_sequence :: int
  mk_last_sequence :: int
  mk_retained :: nat
  mk_dropped :: nat
  mk_dropped_by_priority :: "(sampling_priority, nat) dict"

record drop_window =
  dw_first_sequence :: int
  dw_last_sequence :: int
  dw_retained :: nat
  dw_dropped :: nat
  dw_dropped_by_priority :: "(sampling_priority, nat) dict"

definition new_drop_window :: drop_window where
  "new_drop_window =
     \<lparr>dw_first_sequence = 0, dw_last_sequence = 0, dw_retained = 0, dw_dropped = 0,
      dw_dropped_by_priority = [(Delta, 0), (State, 0), (Structural, 0), (Critical, 0)]\<rparr>"

definition bump_count :: "'k \<Rightarrow> ('k, nat) dict \<Rightarrow> ('k, nat) dict" where
  "bump_count k d = dset k (dget_or 0 d k + 1) d"

definition window_observe :: "sampling_decision \<Rightarrow> drop_window \<Rightarrow> drop_window" where
  "window_observe d w =
     (let w1 = (if dw_first_sequence w = 0 then w\<lparr>dw_first_sequence := sd_sequence d\<rparr> else w);
          w2 = w1\<lparr>dw_last_sequence := sd_sequence d\<rparr> in
      if sd_retain d then w2\<lparr>dw_retained := dw_retained w2 + 1\<rparr>
      else w2\<lparr>dw_dropped := dw_dropped w2 + 1,
              dw_dropped_by_priority := bump_count (sd_priority d) (dw_dropped_by_priority w2)\<rparr>)"

definition window_flush :: "drop_window \<Rightarrow> sampling_marker \<times> drop_window" where
  "window_flush w =
     (\<lparr>mk_first_sequence = dw_first_sequence w, mk_last_sequence = dw_last_sequence w,
       mk_retained = dw_retained w, mk_dropped = dw_dropped w,
       mk_dropped_by_priority = filter (\<lambda>(_, c). 0 < c) (dw_dropped_by_priority w)\<rparr>,
      w\<lparr>dw_first_sequence := 0, dw_last_sequence := 0, dw_retained := 0, dw_dropped := 0,
        dw_dropped_by_priority := map (\<lambda>(p, _). (p, 0)) (dw_dropped_by_priority w)\<rparr>)"

record sampling_bookkeeper =
  bk_window_size :: nat
  bk_window :: drop_window
  bk_marker_count :: nat

definition new_bookkeeper :: "nat \<Rightarrow> sampling_bookkeeper option" where
  "new_bookkeeper n =
     (if n < 1 then None
      else Some \<lparr>bk_window_size = n, bk_window = new_drop_window, bk_marker_count = 0\<rparr>)"

definition close_window :: "sampling_bookkeeper \<Rightarrow> sampling_marker \<times> sampling_bookkeeper" where
  "close_window k =
     (let (m, w) = window_flush (bk_window k) in
      (m, k\<lparr>bk_window := w, bk_marker_count := bk_marker_count k + 1\<rparr>))"

definition bookkeeper_observe ::
    "sampling_decision \<Rightarrow> sampling_bookkeeper \<Rightarrow> sampling_marker option \<times> sampling_bookkeeper" where
  "bookkeeper_observe d k =
     (let k1 = k\<lparr>bk_window := window_observe d (bk_window k)\<rparr> in
      if dw_retained (bk_window k1) + dw_dropped (bk_window k1) < bk_window_size k1 then (None, k1)
      else let (m, k2) = close_window k1 in (Some m, k2))"

definition bookkeeper_flush :: "sampling_bookkeeper \<Rightarrow> sampling_marker option \<times> sampling_bookkeeper" where
  "bookkeeper_flush k =
     (if dw_retained (bk_window k) + dw_dropped (bk_window k) = 0 then (None, k)
      else let (m, k') = close_window k in (Some m, k'))"

definition reset_bookkeeper :: "sampling_bookkeeper \<Rightarrow> sampling_bookkeeper" where
  "reset_bookkeeper k = k\<lparr>bk_window := new_drop_window, bk_marker_count := 0\<rparr>"

record sampling_statistics =
  sx_observed :: nat
  sx_retained :: nat
  sx_dropped :: nat
  sx_retained_by_priority :: "(sampling_priority, nat) dict"
  sx_dropped_by_priority :: "(sampling_priority, nat) dict"
  sx_dropped_by_reason :: "(sampling_reason, nat) dict"

definition new_sampling_statistics :: sampling_statistics where
  "new_sampling_statistics =
     \<lparr>sx_observed = 0, sx_retained = 0, sx_dropped = 0, sx_retained_by_priority = [],
      sx_dropped_by_priority = [], sx_dropped_by_reason = []\<rparr>"

definition statistics_observe :: "sampling_decision \<Rightarrow> sampling_statistics \<Rightarrow> sampling_statistics" where
  "statistics_observe d x =
     (let x1 = x\<lparr>sx_observed := sx_observed x + 1\<rparr> in
      if sd_retain d
      then x1\<lparr>sx_retained := sx_retained x1 + 1,
              sx_retained_by_priority := bump_count (sd_priority d) (sx_retained_by_priority x1)\<rparr>
      else x1\<lparr>sx_dropped := sx_dropped x1 + 1,
              sx_dropped_by_priority := bump_count (sd_priority d) (sx_dropped_by_priority x1),
              sx_dropped_by_reason := bump_count (sd_reason d) (sx_dropped_by_reason x1)\<rparr>)"

record sampling_queue =
  sq_capacity :: nat
  sq_buf :: "sampling_decision list"
  sq_accepted :: nat
  sq_dropped :: nat

definition new_sampling_queue :: "nat \<Rightarrow> sampling_queue option" where
  "new_sampling_queue capacity =
     (if capacity < 1 then None
      else Some \<lparr>sq_capacity = capacity, sq_buf = [], sq_accepted = 0, sq_dropped = 0\<rparr>)"

definition sampling_queue_offer ::
    "sampling_decision \<Rightarrow> sampling_queue \<Rightarrow> sampling_decision option \<times> sampling_queue" where
  "sampling_queue_offer d q =
     (if sq_capacity q \<le> length (sq_buf q)
      then (first_of (sq_buf q),
            q\<lparr>sq_buf := tl (sq_buf q) @ [d], sq_dropped := sq_dropped q + 1, sq_accepted := sq_accepted q + 1\<rparr>)
      else (None, q\<lparr>sq_buf := sq_buf q @ [d], sq_accepted := sq_accepted q + 1\<rparr>))"

definition sampling_queue_drain :: "sampling_queue \<Rightarrow> sampling_decision list \<times> sampling_queue" where
  "sampling_queue_drain q = (sq_buf q, q\<lparr>sq_buf := []\<rparr>)"

record overflow_sampler =
  of_window_seconds :: real
  of_threshold :: int
  of_count :: int
  of_window_start :: real

definition overflow_trip :: "real \<Rightarrow> overflow_sampler \<Rightarrow> bool \<times> overflow_sampler" where
  "overflow_trip now v =
     (let v1 = (if of_window_seconds v < now - of_window_start v
                then v\<lparr>of_window_start := now, of_count := 0\<rparr> else v);
          v2 = v1\<lparr>of_count := of_count v1 + 1\<rparr>
      in (of_threshold v2 \<le> of_count v2, v2))"

definition overflow_reset :: "overflow_sampler \<Rightarrow> overflow_sampler" where
  "overflow_reset v = v\<lparr>of_count := 0, of_window_start := 0\<rparr>"

section \<open>What is never dropped\<close>

lemma bucket_in_range: "0 \<le> deterministic_bucket digest et sequence seed \<and> deterministic_bucket digest et sequence seed < bucket_count"
  by (simp add: deterministic_bucket_def bucket_count_def)

lemma decide_shape:
  "sd_priority (decide digest policy et p sequence seed over overload) = p \<and>
   sd_sequence (decide digest policy et p sequence seed over overload) = sequence \<and>
   sd_bucket (decide digest policy et p sequence seed over overload) = deterministic_bucket digest et sequence seed"
  by (induction policy) (simp_all add: default_decide_def Let_def)

lemma critical_retained: "sd_retain (decide digest policy et Critical sequence seed over overload)"
  by (induction policy) (simp_all add: default_decide_def Let_def)

text \<open>A policy that never lowers the structural rate and is not capped.\<close>

fun keeps_structure :: "sampling_policy \<Rightarrow> bool" where
  "keeps_structure (DefaultPolicy cfg) \<longleftrightarrow> 1 \<le> sc_structural_retention cfg"
| "keeps_structure (NeverDropPolicy inner allowed) \<longleftrightarrow> keeps_structure inner"
| "keeps_structure (CappedRatePolicy inner cap_rate) \<longleftrightarrow> 1 \<le> cap_rate \<and> keeps_structure inner"

lemma structural_retained:
  "keeps_structure policy \<Longrightarrow> sd_retain (decide digest policy et Structural sequence seed over overload)"
proof (induction policy)
  case (CappedRatePolicy inner cap_rate)
  have "1024 \<le> py_int (cap_rate * real_of_int bucket_count)"
    using CappedRatePolicy.prems by (simp add: py_int_def bucket_count_def le_floor_iff)
  moreover have "deterministic_bucket digest et sequence seed < 1024"
    using bucket_in_range[of digest et sequence seed] by (simp add: bucket_count_def)
  ultimately show ?case using CappedRatePolicy decide_shape[of digest inner et Structural sequence seed over overload] by simp
qed (simp_all add: default_decide_def Let_def)

datatype sampler_call = Evaluate "int \<times> int" string "sampling_priority option" | SetOverload bool

fun sampler_run ::
    "(string \<Rightarrow> nat) \<Rightarrow> sampler_call list \<Rightarrow> event_sampler \<Rightarrow> sampling_decision list \<times> event_sampler" where
  "sampler_run digest [] s = ([], s)"
| "sampler_run digest (SetOverload v # calls) s = sampler_run digest calls (set_overload v s)"
| "sampler_run digest (Evaluate clock et p # calls) s =
     (let (d, s1) = evaluate digest clock et p s; (ds, s2) = sampler_run digest calls s1 in (d # ds, s2))"

fun passes_checks :: "int \<Rightarrow> sampling_decision list \<Rightarrow> bool" where
  "passes_checks previous [] \<longleftrightarrow> True"
| "passes_checks previous (d # ds) \<longleftrightarrow> check_decision d previous = None \<and> passes_checks (sd_sequence d) ds"

lemma evaluate_parts:
  assumes "evaluate digest clock et p s = (d, s')"
  shows "es_sequence s' = es_sequence s + 1 \<and> es_policy s' = es_policy s \<and> es_overload s' = es_overload s \<and>
    es_config s' = es_config s \<and>
    d = decide digest (es_policy s) et (case p of Some p \<Rightarrow> p | None \<Rightarrow> classify_event_priority et)
          (es_sequence s + 1) (sc_seed (es_config s)) (fst (is_over_budget (fst clock) (es_budget s))) (es_overload s)"
  using assms by (auto simp: evaluate_def is_over_budget_def Let_def)

text \<open>Every decision passes the layer's own integrity check. Whatever is evaluated, with or without an explicit
  priority, whatever the budget and however the overload mode is switched in between, no critical event is dropped, no
  structural one either as long as the policy keeps the structural rate at one, the sequence numbers grow and
  every bucket is in range; and this holds for any hash.
\<close>

theorem decisions_pass_the_checks:
  assumes "keeps_structure (es_policy s)" "sampler_run digest calls s = (ds, s')"
  shows "passes_checks (es_sequence s) ds \<and> (\<forall>d\<in>set ds. sd_priority d \<in> {Structural, Critical} \<longrightarrow> sd_retain d)"
  using assms
proof (induction digest calls s arbitrary: ds rule: sampler_run.induct)
  case (3 digest clock et p calls s)
  obtain d s1 where step: "evaluate digest clock et p s = (d, s1)" by fastforce
  obtain ds' s2 where rest: "sampler_run digest calls s1 = (ds', s2)" by fastforce
  have out: "ds = d # ds'" "s2 = s'" using 3(3) step rest by auto
  note E = evaluate_parts[OF step]
  have keep: "sd_priority d \<in> {Structural, Critical} \<longrightarrow> sd_retain d"
    using E decide_shape critical_retained structural_retained[OF 3(2)] by (metis empty_iff insert_iff)
  have "check_decision d (es_sequence s) = None"
    using keep E decide_shape bucket_in_range by (auto simp: check_decision_def)
  moreover have "passes_checks (es_sequence s1) ds' \<and> (\<forall>d\<in>set ds'. sd_priority d \<in> {Structural, Critical} \<longrightarrow> sd_retain d)"
    using 3(1)[OF step[symmetric] refl, of ds'] E rest out 3(2) by simp
  moreover have "sd_sequence d = es_sequence s1" using E decide_shape by simp
  ultimately show ?case using keep out(1) by simp
qed (auto simp: set_overload_def)

theorem decisions_pass_the_checks_witness:
  "\<exists>s ds s'. new_event_sampler 0 aggressive_sampling_config None = Some s \<and>
     sampler_run (\<lambda>k. length k) [SetOverload True, Evaluate (0, 1) ''asyncio.task.created'' None, Evaluate (2, 3) ''x'' None] s = (ds, s') \<and>
     passes_checks 0 ds \<and> length ds = 2"
proof -
  let ?calls = "[SetOverload True, Evaluate (0, 1) ''asyncio.task.created'' None, Evaluate (2, 3) ''x'' None]"
  obtain s where s: "new_event_sampler 0 aggressive_sampling_config None = Some s"
    "keeps_structure (es_policy s)" "es_sequence s = 0"
    by (auto simp: new_event_sampler_def aggressive_sampling_config_def default_sampling_config_def new_sampling_budget_def Let_def)
  obtain ds s' where run: "sampler_run (\<lambda>k. length k) ?calls s = (ds, s')" by fastforce
  have "length ds = 2" using run by (auto split: prod.splits)
  then show ?thesis using decisions_pass_the_checks[OF s(2) run] s run by auto
qed

section \<open>Load\<close>

lemma bucket_below_mono: "x \<le> y \<Longrightarrow> bucket_below_rate b x \<Longrightarrow> bucket_below_rate b y"
  by (auto simp: bucket_below_rate_def py_int_def bucket_count_def split: if_splits)
    (smt (verit, ccfv_SIG) floor_mono)

definition floor_below_half :: "sampling_config \<Rightarrow> bool" where
  "floor_below_half cfg \<longleftrightarrow> sc_overload_floor cfg \<le> sc_state_retention cfg * (1 / 2) \<and>
     sc_overload_floor cfg \<le> sc_delta_retention cfg * (1 / 2)"

lemma shipped_floors:
  "floor_below_half default_sampling_config" "floor_below_half aggressive_sampling_config"
  "floor_below_half relaxed_sampling_config"
  by (simp_all add: floor_below_half_def default_sampling_config_def aggressive_sampling_config_def relaxed_sampling_config_def)

text \<open>More load never brings an event back. If the overload floor is at most half of the rates, as in the default, the aggressive
  and the relaxed configuration, an event kept in overload is kept when only the budget is exceeded, and one
  kept then is kept under no load: the samples taken under load are nested, the same event at the same sequence number
  always landing in the same bucket.
\<close>

theorem load_sheds_monotonically:
  assumes "sampling_config_valid cfg" "floor_below_half cfg"
  shows "(sd_retain (default_decide cfg p sequence b True True) \<longrightarrow> sd_retain (default_decide cfg p sequence b True False)) \<and>
    (sd_retain (default_decide cfg p sequence b True False) \<longrightarrow> sd_retain (default_decide cfg p sequence b False overload))"
proof -
  have floor: "max (sc_overload_floor cfg) 0 \<le> rate_for_priority cfg q / 2"
    and half: "rate_for_priority cfg q / 2 \<le> rate_for_priority cfg q" if "q \<in> {State, Delta}" for q
    using that assms
    by (auto simp: floor_below_half_def rate_for_priority_def sampling_config_valid_def unit_rate_def)
  have "bucket_below_rate b (max (sc_overload_floor cfg) 0) \<Longrightarrow> bucket_below_rate b (rate_for_priority cfg q / 2)"
    "bucket_below_rate b (rate_for_priority cfg q / 2) \<Longrightarrow> bucket_below_rate b (rate_for_priority cfg q)"
    if "q \<in> {State, Delta}" for q
    using bucket_below_mono[OF floor[OF that]] bucket_below_mono[OF half[OF that]] by blast+
  then show ?thesis by (cases p) (simp_all add: default_decide_def Let_def)
qed

theorem load_sheds_monotonically_witness:
  "sd_retain (default_decide default_sampling_config State 7 20 True True) \<and>
   sd_retain (default_decide default_sampling_config State 7 20 True False) \<and>
   \<not> sd_retain (default_decide default_sampling_config State 7 60 True True) \<and>
   sd_retain (default_decide default_sampling_config State 7 20 False True)"
proof -
  have valid: "sampling_config_valid default_sampling_config"
    by (simp add: sampling_config_valid_def default_sampling_config_def unit_rate_def)
  have kept: "sd_retain (default_decide default_sampling_config State 7 20 True True)"
    by (simp add: default_decide_def default_sampling_config_def bucket_below_rate_def py_int_def bucket_count_def Let_def)
  moreover have "\<not> sd_retain (default_decide default_sampling_config State 7 60 True True)"
    by (simp add: default_decide_def default_sampling_config_def bucket_below_rate_def py_int_def bucket_count_def Let_def)
  ultimately show ?thesis using load_sheds_monotonically[OF valid shipped_floors(1), of State 7 20 True] by blast
qed

section \<open>Forced retention\<close>

text \<open>The structural guard can drop what it is meant to keep. \<open>force_retain_structural\<close> hands the lifecycle events
  \<open>runtime.started\<close> and \<open>runtime.stopped\<close> the priority \<open>STRUCTURAL\<close>, but they are \<open>CRITICAL\<close> by classification. With a
  structural rate of zero, which the configuration allows, the events are always retained without the guard and never with it.
\<close>

theorem guard_demotes_lifecycle_events:
  assumes "sc_mode cfg \<noteq> ModeOff" "sc_structural_retention cfg = 0" "et \<in> {''runtime.started'', ''runtime.stopped''}"
  shows "force_retain_structural et = Some Structural \<and>
    sd_retain (decide digest (DefaultPolicy cfg) et (classify_event_priority et) sequence seed over overload) \<and>
    \<not> sd_retain (decide digest (DefaultPolicy cfg) et (the (force_retain_structural et)) sequence seed over overload)"
proof -
  have "classify_event_priority ''runtime.started'' = Critical" "classify_event_priority ''runtime.stopped'' = Critical"
    by code_simp+
  then have "classify_event_priority et = Critical" using assms(3) by blast
  moreover have "force_retain_structural et = Some Structural"
    using assms(3) by (auto simp: force_retain_structural_def structural_event_types_def)
  ultimately show ?thesis
    using assms(1,2) critical_retained[of digest "DefaultPolicy cfg" et]
    by (simp add: default_decide_def rate_for_priority_def bucket_below_rate_def Let_def)
qed

theorem guard_demotes_lifecycle_events_witness:
  "let cfg = default_sampling_config\<lparr>sc_structural_retention := 0\<rparr> in
   \<not> sd_retain (decide length (DefaultPolicy cfg) ''runtime.started'' Structural 1 0 False False)"
proof -
  let ?cfg = "default_sampling_config\<lparr>sc_structural_retention := 0\<rparr>"
  have "sc_mode ?cfg \<noteq> ModeOff" "sc_structural_retention ?cfg = 0" by (simp_all add: default_sampling_config_def)
  from guard_demotes_lifecycle_events[OF this, of "''runtime.started''" length 1 0 False False] show ?thesis
    unfolding Let_def by (metis insertI1 option.sel)
qed

section \<open>Switching overload\<close>

datatype shedding_call = Depth int | Send "int \<times> int" string "sampling_priority option"

fun shedding_run ::
    "(string \<Rightarrow> nat) \<Rightarrow> shedding_call list \<Rightarrow> websocket_shedding \<times> event_sampler \<Rightarrow> websocket_shedding \<times> event_sampler" where
  "shedding_run digest [] c = c"
| "shedding_run digest (Depth n # calls) c = shedding_run digest calls (snd (observe_queue_depth n c))"
| "shedding_run digest (Send clock et p # calls) c = shedding_run digest calls (snd (should_send digest clock et p c))"

text \<open>A reset while shedding leaves the sampler in overload. \<open>WebsocketSamplingController.reset\<close> forgets that it had engaged
  but does not release the sampler. From then on no queue depth below the high watermark, an empty queue included,
  ends the overload mode, however many readings and sends follow.
\<close>

theorem reset_while_shedding_sticks:
  assumes "es_overload s" "\<And>n. Depth n \<in> set calls \<Longrightarrow> n < ws_high w"
    and "shedding_run digest calls (reset_websocket_shedding w, s) = (w', s')"
  shows "es_overload s' \<and> \<not> ws_engaged w'"
proof -
  have "es_overload s' \<and> \<not> ws_engaged w'"
    if "es_overload s" "\<not> ws_engaged v" "ws_high v = h" "\<And>n. Depth n \<in> set calls \<Longrightarrow> n < h"
      "shedding_run digest calls (v, s) = (w', s')" for v s h
    using that
  proof (induction calls arbitrary: v s)
    case (Cons call calls)
    show ?case
    proof (cases call)
      case (Depth n)
      then have n: "n < ws_high v" using Cons.prems(3,4) by simp
      have step: "snd (observe_queue_depth n (v, s)) = (v\<lparr>ws_last_depth := n\<rparr>, s)"
        using n Cons.prems(2) by (simp add: observe_queue_depth_def Let_def)
      then show ?thesis using Cons.IH[of s "v\<lparr>ws_last_depth := n\<rparr>"] Cons.prems Depth by simp
    next
      case (Send clock et p)
      obtain d s1 where step: "evaluate digest clock et p s = (d, s1)" by fastforce
      then have "es_overload s1" using evaluate_parts[OF step] Cons.prems(1) by simp
      then show ?thesis using Cons.IH[of s1 v] Cons.prems step Send by (simp add: should_send_def)
    qed
  qed simp
  from this[of s "reset_websocket_shedding w" "ws_high w"] assms show ?thesis
    by (simp add: reset_websocket_shedding_def)
qed

theorem reset_while_shedding_sticks_witness:
  "\<exists>w s w1 s1 w2 s2. new_websocket_shedding 8 2 = Some w \<and> new_event_sampler 0 default_sampling_config None = Some s \<and>
     observe_queue_depth 9 (w, s) = (True, w1, s1) \<and>
     shedding_run length [Depth 0, Depth 1] (reset_websocket_shedding w1, s1) = (w2, s2) \<and> es_overload s2 \<and> \<not> ws_engaged w2"
proof -
  obtain w s where ws: "new_websocket_shedding 8 2 = Some w" "new_event_sampler 0 default_sampling_config None = Some s"
    by (auto simp: new_websocket_shedding_def new_event_sampler_def default_sampling_config_def new_sampling_budget_def Let_def)
  have h: "ws_high w = 8" "\<not> ws_engaged w" using ws(1) by (auto simp: new_websocket_shedding_def)
  obtain w1 s1 where step: "observe_queue_depth 9 (w, s) = (True, w1, s1)" "es_overload s1" "ws_high w1 = 8"
    using h by (auto simp: observe_queue_depth_def set_overload_def)
  obtain w2 s2 where run: "shedding_run length [Depth 0, Depth 1] (reset_websocket_shedding w1, s1) = (w2, s2)" by fastforce
  have "n < ws_high w1" if "Depth n \<in> set [Depth 0, Depth 1]" for n using that step(3) by auto
  from reset_while_shedding_sticks[OF step(2) this run] show ?thesis using ws step(1) run by blast
qed

section \<open>The adaptive controller's reach\<close>

fun observe_readings ::
    "int list \<Rightarrow> adaptive_sampling \<times> event_sampler \<Rightarrow> adaptive_sampling \<times> event_sampler" where
  "observe_readings [] c = c"
| "observe_readings (v # vs) c = observe_readings vs (snd (observe_pressure v c))"

text \<open>The adaptive controller compares a queue depth with a number of events per window. As long as every reading is
  below \<open>target * ratio\<close> it never engages, however long the pressure lasts. With the default configuration that is
  75000, more than any queue of the program holds, so a full websocket queue never switches the sampler.
\<close>

theorem low_readings_never_engage:
  assumes "sampling_config_valid cfg" "\<not> es_overload s"
    and "\<forall>v\<in>set vs. real_of_int v < real_of_int (sc_budget_target_events cfg) * sc_overload_ratio cfg"
    and "observe_readings vs (new_adaptive_sampling cfg, s) = (a', s')"
  shows "\<not> es_overload s' \<and> as_transitions a' = 0 \<and> as_smoothed a' < as_high a'"
proof -
  let ?h = "real_of_int (sc_budget_target_events cfg) * sc_overload_ratio cfg"
  have pos: "0 < ?h" using assms(1) by (simp add: sampling_config_valid_def)
  have k: "0 < sc_relax_decay cfg" "sc_relax_decay cfg < 1" using assms(1) by (auto simp: sampling_config_valid_def)
  have "\<not> es_overload s' \<and> as_transitions a' = 0 \<and> as_smoothed a' < as_high a'"
    if "\<not> es_overload s" "as_transitions a = 0" "as_smoothed a < ?h" "as_high a = ?h" "as_decay a = sc_relax_decay cfg"
      "\<forall>v\<in>set vs. real_of_int v < ?h" "observe_readings vs (a, s) = (a', s')" for a s
    using that
  proof (induction vs arbitrary: a s)
    case (Cons v vs)
    define u where "u = (if v < 0 then 0 else v)"
    define x where "x = as_decay a * as_smoothed a + (1 - as_decay a) * real_of_int u"
    have u: "real_of_int u < ?h" using Cons.prems(6) pos by (simp add: u_def)
    have "x < as_decay a * ?h + (1 - as_decay a) * ?h"
      using k Cons.prems(3,5) u by (auto simp: x_def intro!: add_strict_mono)
    then have x: "x < ?h" by (simp add: algebra_simps)
    have step: "snd (observe_pressure v (a, s)) = (a\<lparr>as_last_pressure := u, as_smoothed := x\<rparr>, s)"
      using Cons.prems(1,4) x by (auto simp: observe_pressure_def Let_def u_def[symmetric] x_def[symmetric])
    show ?case
      using Cons.IH[of s "a\<lparr>as_last_pressure := u, as_smoothed := x\<rparr>"] Cons.prems x step by simp
  qed simp
  from this[of s "new_adaptive_sampling cfg"] assms pos show ?thesis
    by (simp add: new_adaptive_sampling_def)
qed

theorem low_readings_never_engage_witness:
  "\<exists>s a' s'. new_event_sampler 0 default_sampling_config None = Some s \<and>
     observe_readings [8192, 8192, 8192] (new_adaptive_sampling default_sampling_config, s) = (a', s') \<and> \<not> es_overload s'"
proof -
  have valid: "sampling_config_valid default_sampling_config"
    by (simp add: sampling_config_valid_def default_sampling_config_def unit_rate_def)
  obtain s where s: "new_event_sampler 0 default_sampling_config None = Some s" "\<not> es_overload s"
    by (auto simp: new_event_sampler_def default_sampling_config_def new_sampling_budget_def Let_def)
  obtain a' s' where run: "observe_readings [8192, 8192, 8192] (new_adaptive_sampling default_sampling_config, s) = (a', s')"
    by fastforce
  have "\<forall>v\<in>set [8192, 8192, 8192 :: int]. real_of_int v <
      real_of_int (sc_budget_target_events default_sampling_config) * sc_overload_ratio default_sampling_config"
    by (simp add: default_sampling_config_def)
  from low_readings_never_engage[OF valid s(2) this run] show ?thesis using s run by blast
qed

section \<open>The statistics\<close>

text \<open>The statistics are exact. After any decisions, each counter is the number of decisions of its kind, and the
  totals by priority and by reason add up to the totals.
\<close>

theorem statistics_are_exact:
  shows "let x = fold statistics_observe ds new_sampling_statistics in
    sx_observed x = length ds \<and> sx_retained x + sx_dropped x = length ds \<and>
    sx_retained x = length (filter sd_retain ds) \<and>
    (\<forall>p. dget_or 0 (sx_retained_by_priority x) p = length (filter (\<lambda>d. sd_retain d \<and> sd_priority d = p) ds)) \<and>
    (\<forall>p. dget_or 0 (sx_dropped_by_priority x) p = length (filter (\<lambda>d. \<not> sd_retain d \<and> sd_priority d = p) ds)) \<and>
    (\<forall>r. dget_or 0 (sx_dropped_by_reason x) r = length (filter (\<lambda>d. \<not> sd_retain d \<and> sd_reason d = r) ds))"
proof (induction ds rule: rev_induct)
  case Nil
  then show ?case by (simp add: new_sampling_statistics_def)
next
  case (snoc d ds)
  then show ?case
    by (auto simp: Let_def statistics_observe_def bump_count_def dict_simps)
qed

end
