(* ===== verification/Memory.thy ===== *)
theory Memory
  imports Recording Caches
begin

text \<open>
  The memory layer (\<open>asyncviz/runtime/memory\<close>): the string interner, the deduplicator, the object pool
  and the websocket buffer pool, compact events and frames, the bounded topology graph, the threshold
  monitor, and \<open>EventMemoryOptimizer\<close>, which owns one of each.

  Where the code speaks of the identity of an object (interned strings, pooled objects, buffers) the model
  carries it as a value of a type \<open>'o\<close>; elsewhere strings are their contents. \<open>sys.intern\<close>, SHA-256 and
  \<open>repr\<close> are arguments. The metrics and the trace ring are left out: nothing reads them but the diagnostics.
\<close>

section \<open>Configuration\<close>

record memory_config =
  mc_interning_enabled :: bool
  mc_interner_capacity :: nat
  mc_dedup_enabled :: bool
  mc_dedup_window :: nat
  mc_pool_capacity :: nat
  mc_reducer_cache_capacity :: nat
  mc_topology_node_capacity :: nat
  mc_websocket_buffer_count :: nat
  mc_websocket_buffer_bytes :: nat
  mc_replay_frame_cache_capacity :: nat

definition memory_config_valid :: "memory_config \<Rightarrow> bool" where
  "memory_config_valid cfg \<longleftrightarrow>
     1 \<le> mc_interner_capacity cfg \<and> 1 \<le> mc_pool_capacity cfg \<and> 1 \<le> mc_dedup_window cfg \<and>
     1 \<le> mc_reducer_cache_capacity cfg \<and> 1 \<le> mc_topology_node_capacity cfg \<and>
     1 \<le> mc_websocket_buffer_count cfg \<and> 256 \<le> mc_websocket_buffer_bytes cfg \<and>
     1 \<le> mc_replay_frame_cache_capacity cfg"

definition default_memory_config :: memory_config where
  "default_memory_config =
     \<lparr>mc_interning_enabled = True, mc_interner_capacity = 4096, mc_dedup_enabled = True,
      mc_dedup_window = 1024, mc_pool_capacity = 256, mc_reducer_cache_capacity = 512,
      mc_topology_node_capacity = 65536, mc_websocket_buffer_count = 16,
      mc_websocket_buffer_bytes = 64 * 1024, mc_replay_frame_cache_capacity = 32\<rparr>"

section \<open>The interner\<close>

record 'o interner =
  in_capacity :: nat
  in_table :: "(string, 'o) dict"
  in_hits :: nat
  in_misses :: nat
  in_bypassed :: nat

definition new_interner :: "nat \<Rightarrow> 'o interner option" where
  "new_interner capacity =
     (if capacity < 1 then None
      else Some \<lparr>in_capacity = capacity, in_table = [], in_hits = 0, in_misses = 0, in_bypassed = 0\<rparr>)"

text \<open>The identity returned for the string \<open>v\<close> passed as the object \<open>i\<close>; its contents are \<open>v\<close> in every case.\<close>

definition intern :: "(string \<Rightarrow> 'o \<Rightarrow> 'o) \<Rightarrow> string \<Rightarrow> 'o \<Rightarrow> 'o interner \<Rightarrow> 'o \<times> 'o interner" where
  "intern sys_intern v i s =
     (case dget (in_table s) v of
        Some existing \<Rightarrow> (existing, s\<lparr>in_hits := in_hits s + 1\<rparr>)
      | None \<Rightarrow>
          if in_capacity s \<le> length (in_table s)
          then (i, s\<lparr>in_bypassed := in_bypassed s + 1\<rparr>)
          else
            let canonical = sys_intern v i in
            (canonical, s\<lparr>in_table := dset v canonical (in_table s), in_misses := in_misses s + 1\<rparr>))"

definition interner_clear :: "'o interner \<Rightarrow> 'o interner" where
  "interner_clear s = s\<lparr>in_table := [], in_hits := 0, in_misses := 0, in_bypassed := 0\<rparr>"

text \<open>Interning where only the contents matter.\<close>

definition intern_text :: "string \<Rightarrow> unit interner \<Rightarrow> string \<times> unit interner" where
  "intern_text v s = (v, snd (intern (\<lambda>_ i. i) v () s))"

section \<open>Compact events\<close>

definition category_prefixes :: "(string \<times> string) list" where
  "category_prefixes =
     [(''asyncio.task.'', ''task''), (''asyncio.queue.'', ''queue''),
      (''asyncio.semaphore.'', ''semaphore''), (''asyncio.gather.'', ''gather''),
      (''asyncio.executor.'', ''executor''), (''runtime.'', ''runtime'')]"

definition categorize_event_type :: "string \<Rightarrow> string" where
  "categorize_event_type et =
     (if et = ''runtime.metric'' then ''metric''
      else if et = ''runtime.warning'' then ''warning''
      else (case find (\<lambda>(p, _). starts_with p et) category_prefixes of
              Some (_, c) \<Rightarrow> c | None \<Rightarrow> ''other''))"

record compact_event =
  ce_event_type :: string
  ce_event_id :: string
  ce_monotonic_ns :: int
  ce_category :: string
  ce_payload :: "(string, json) dict"
  ce_runtime_id :: string
  ce_wall_time_ns :: int

definition event_as_dict :: "compact_event \<Rightarrow> (string, json) dict" where
  "event_as_dict e =
     [(''event_type'', JStr (ce_event_type e)), (''event_id'', JStr (ce_event_id e)),
      (''monotonic_ns'', JInt (ce_monotonic_ns e)), (''category'', JStr (ce_category e)),
      (''payload'', JObj (ce_payload e))] @
     (if ce_runtime_id e \<noteq> [] then [(''runtime_id'', JStr (ce_runtime_id e))] else []) @
     (if ce_wall_time_ns e \<noteq> 0 then [(''wall_time_ns'', JInt (ce_wall_time_ns e))] else [])"

definition envelope_keys :: "string set" where
  "envelope_keys = {''event_type'', ''event_id'', ''monotonic_ns'', ''wall_time_ns'', ''runtime_id''}"

text \<open>Keys and string values go through the interner; the dictionary is rebuilt in order.\<close>

fun intern_value :: "json \<Rightarrow> unit interner \<Rightarrow> json \<times> unit interner" where
  "intern_value (JStr v) s = (let (v', s') = intern_text v s in (JStr v', s'))"
| "intern_value other s = (other, s)"

fun intern_payload_loop ::
    "(string, json) dict \<Rightarrow> (string, json) dict \<Rightarrow> unit interner \<Rightarrow> (string, json) dict \<times> unit interner" where
  "intern_payload_loop [] out s = (out, s)"
| "intern_payload_loop ((k, v) # items) out s =
     (let (k', s1) = intern_text k s; (v', s2) = intern_value v s1 in
      intern_payload_loop items (dset k' v' out) s2)"

definition intern_payload :: "(string, json) dict \<Rightarrow> unit interner \<Rightarrow> (string, json) dict \<times> unit interner" where
  "intern_payload payload s = intern_payload_loop payload [] s"

text \<open>\<open>int(data.get(k, 0) or 0)\<close>; \<open>None\<close> where \<open>int\<close> raises.\<close>

definition int_field :: "(string, json) dict \<Rightarrow> string \<Rightarrow> int option" where
  "int_field data k =
     (case dget data k of None \<Rightarrow> Some 0 | Some v \<Rightarrow> if truthy v then json_int v else Some 0)"

definition str_field :: "(json \<Rightarrow> string) \<Rightarrow> (string, json) dict \<Rightarrow> string \<Rightarrow> string" where
  "str_field render data k = (case dget data k of None \<Rightarrow> [] | Some v \<Rightarrow> json_str render v)"

text \<open>\<open>interner.intern(str(data.get(k, ""))) if data.get(k) else ""\<close>.\<close>

definition optional_text ::
    "(json \<Rightarrow> string) \<Rightarrow> (string, json) dict \<Rightarrow> string \<Rightarrow> unit interner \<Rightarrow> string \<times> unit interner" where
  "optional_text render data k s =
     (if (case dget data k of None \<Rightarrow> False | Some v \<Rightarrow> truthy v)
      then intern_text (str_field render data k) s else ([], s))"

definition compact_dict_event ::
    "(json \<Rightarrow> string) \<Rightarrow> bool \<Rightarrow> (string, json) dict \<Rightarrow> unit interner \<Rightarrow>
     (compact_event \<times> unit interner) option" where
  "compact_dict_event render interning data s =
     (let raw = str_field render data ''event_type'';
          (et, s1) = (if raw \<noteq> [] then intern_text raw s else (raw, s));
          inner = filter (\<lambda>(k, _). k \<notin> envelope_keys) data;
          (payload, s2) = (if interning then intern_payload inner s1 else (inner, s1))
      in case int_field data ''monotonic_ns'' of None \<Rightarrow> None
      | Some at_ns \<Rightarrow>
          let (rid, s3) = optional_text render data ''runtime_id'' s2 in
          (case int_field data ''wall_time_ns'' of None \<Rightarrow> None
           | Some wall \<Rightarrow>
               Some (\<lparr>ce_event_type = et, ce_event_id = str_field render data ''event_id'',
                      ce_monotonic_ns = at_ns, ce_category = categorize_event_type et,
                      ce_payload = payload, ce_runtime_id = rid, ce_wall_time_ns = wall\<rparr>, s3)))"

section \<open>Compact frames\<close>

record compact_frame =
  cf_schema_version :: int
  cf_frame_type :: string
  cf_sequence :: int
  cf_monotonic_ns :: int
  cf_payload_type :: string
  cf_payload :: "(string, json) dict"
  cf_runtime_id :: string
  cf_recording_id :: string
  cf_wall_time_ns :: int

definition frame_as_dict :: "compact_frame \<Rightarrow> (string, json) dict" where
  "frame_as_dict f =
     [(''schema_version'', JInt (cf_schema_version f)), (''frame_type'', JStr (cf_frame_type f)),
      (''sequence'', JInt (cf_sequence f)), (''monotonic_ns'', JInt (cf_monotonic_ns f)),
      (''payload_type'', JStr (cf_payload_type f)), (''payload'', JObj (cf_payload f))] @
     (if cf_runtime_id f \<noteq> [] then [(''runtime_id'', JStr (cf_runtime_id f))] else []) @
     (if cf_recording_id f \<noteq> [] then [(''recording_id'', JStr (cf_recording_id f))] else []) @
     (if cf_wall_time_ns f \<noteq> 0 then [(''wall_time_ns'', JInt (cf_wall_time_ns f))] else [])"

definition optional_id :: "string option \<Rightarrow> unit interner \<Rightarrow> string \<times> unit interner" where
  "optional_id x s =
     (case x of None \<Rightarrow> ([], s) | Some v \<Rightarrow> if v = [] then ([], s) else intern_text v s)"

definition compact_replay_frame :: "bool \<Rightarrow> wire_frame \<Rightarrow> unit interner \<Rightarrow> compact_frame \<times> unit interner" where
  "compact_replay_frame interning f s =
     (let (payload, s1) = (if interning then intern_payload (wf_payload f) s else (wf_payload f, s));
          (ft, s2) = intern_text (wf_frame_type f) s1;
          (pt, s3) = intern_text (wf_payload_type f) s2;
          (rid, s4) = optional_id (wf_runtime_id f) s3;
          (rcd, s5) = optional_id (wf_recording_id f) s4
      in (\<lparr>cf_schema_version = wf_schema_version f, cf_frame_type = ft, cf_sequence = wf_sequence f,
           cf_monotonic_ns = wf_monotonic_ns f, cf_payload_type = pt, cf_payload = payload,
           cf_runtime_id = rid, cf_recording_id = rcd,
           cf_wall_time_ns = (case wf_wall_time_ns f of None \<Rightarrow> 0 | Some w \<Rightarrow> w)\<rparr>, s5))"

text \<open>\<open>data.get("payload") or {}\<close> must be a dictionary for the code to go on.\<close>

definition compact_replay_dict ::
    "(json \<Rightarrow> string) \<Rightarrow> bool \<Rightarrow> (string, json) dict \<Rightarrow> unit interner \<Rightarrow>
     (compact_frame \<times> unit interner) option" where
  "compact_replay_dict render interning data s =
     (case (case dget data ''payload'' of None \<Rightarrow> Some [] | Some v \<Rightarrow> if truthy v then json_dict v else Some []) of
        None \<Rightarrow> None
      | Some raw \<Rightarrow>
          let (payload, s1) = (if interning then intern_payload raw s else (raw, s)) in
          (case ((case dget data ''schema_version'' of None \<Rightarrow> Some 1 | Some v \<Rightarrow> json_int v),
                 (case dget data ''sequence'' of None \<Rightarrow> Some 0 | Some v \<Rightarrow> json_int v),
                 int_field data ''monotonic_ns'', int_field data ''wall_time_ns'') of
             (Some version, Some sequence, Some at_ns, Some wall) \<Rightarrow>
               let (ft, s2) = intern_text (str_field render data ''frame_type'') s1;
                   (pt, s3) = intern_text (str_field render data ''payload_type'') s2;
                   (rid, s4) = optional_text render data ''runtime_id'' s3;
                   (rcd, s5) = optional_text render data ''recording_id'' s4
               in Some (\<lparr>cf_schema_version = version, cf_frame_type = ft, cf_sequence = sequence,
                         cf_monotonic_ns = at_ns, cf_payload_type = pt, cf_payload = payload,
                         cf_runtime_id = rid, cf_recording_id = rcd, cf_wall_time_ns = wall\<rparr>, s5)
           | _ \<Rightarrow> None))"

section \<open>Deduplication\<close>

record deduplicator =
  dd_window_size :: nat
  dd_recent :: "string list"

definition new_deduplicator :: "nat \<Rightarrow> deduplicator option" where
  "new_deduplicator n = (if n < 1 then None else Some \<lparr>dd_window_size = n, dd_recent = []\<rparr>)"

text \<open>The bytes hashed for an event.\<close>

definition digest_input :: "(json \<Rightarrow> string) \<Rightarrow> compact_event \<Rightarrow> string" where
  "digest_input repr e =
     ce_event_type e @ ''|'' @ str_of_int (ce_monotonic_ns e) @ ''|'' @
     concat (map (\<lambda>k. k @ ''='' @ repr (the (dget (ce_payload e) k)) @ '';'')
               (sort (dkeys (ce_payload e))))"

definition dedup_observe ::
    "(string \<Rightarrow> string) \<Rightarrow> (json \<Rightarrow> string) \<Rightarrow> compact_event \<Rightarrow> deduplicator \<Rightarrow>
     (bool \<times> string) \<times> deduplicator" where
  "dedup_observe sha256 repr e d =
     (let digest = sha256 (digest_input repr e) in
      if digest \<in> set (dd_recent d) then ((True, digest), d)
      else ((False, digest), d\<lparr>dd_recent := ring_push (dd_window_size d) digest (dd_recent d)\<rparr>))"

definition dedup_reset :: "deduplicator \<Rightarrow> deduplicator" where
  "dedup_reset d = d\<lparr>dd_recent := []\<rparr>"

section \<open>The object pool\<close>

datatype pool_error = TokenReleased | NotInFlight | FactoryRaised | ResetRaised

record 'o object_pool =
  op_capacity :: nat
  op_strict :: bool
  op_buf :: "'o list"
  op_in_flight :: "'o set"
  op_acquires :: nat
  op_releases :: nat
  op_hits :: nat
  op_misses :: nat
  op_double_releases :: nat

record 'o pool_token =
  tk_obj :: 'o
  tk_released :: bool

definition new_object_pool :: "nat \<Rightarrow> bool \<Rightarrow> 'o object_pool option" where
  "new_object_pool capacity strict =
     (if capacity < 1 then None
      else Some \<lparr>op_capacity = capacity, op_strict = strict, op_buf = [], op_in_flight = {},
                 op_acquires = 0, op_releases = 0, op_hits = 0, op_misses = 0,
                 op_double_releases = 0\<rparr>)"

text \<open>The pool is a stack, its top at the end. \<open>made\<close> is what the factory gives if it is called.\<close>

definition pool_acquire ::
    "'o option \<Rightarrow> 'o object_pool \<Rightarrow> (pool_error + 'o pool_token) \<times> 'o object_pool" where
  "pool_acquire made p =
     (let p1 = p\<lparr>op_acquires := op_acquires p + 1\<rparr> in
      if op_buf p \<noteq> []
      then
        let x = last (op_buf p) in
        (Inr \<lparr>tk_obj = x, tk_released = False\<rparr>,
         p1\<lparr>op_buf := butlast (op_buf p), op_hits := op_hits p + 1,
            op_in_flight := insert x (op_in_flight p)\<rparr>)
      else (case made of
              None \<Rightarrow> (Inl FactoryRaised, p1)
            | Some x \<Rightarrow>
                (Inr \<lparr>tk_obj = x, tk_released = False\<rparr>,
                 p1\<lparr>op_misses := op_misses p + 1, op_in_flight := insert x (op_in_flight p)\<rparr>)))"

text \<open>\<open>reset_ok\<close>: the reset hook, if any, returns.\<close>

definition pool_release ::
    "bool \<Rightarrow> 'o \<Rightarrow> 'o object_pool \<Rightarrow> pool_error option \<times> 'o object_pool" where
  "pool_release reset_ok x p =
     (if x \<notin> op_in_flight p
      then (if op_strict p then Some NotInFlight else None,
            p\<lparr>op_double_releases := op_double_releases p + 1\<rparr>)
      else
        let p1 = p\<lparr>op_in_flight := op_in_flight p - {x}, op_releases := op_releases p + 1\<rparr> in
        if \<not> reset_ok then (Some ResetRaised, p1)
        else (None, if length (op_buf p1) < op_capacity p1 then p1\<lparr>op_buf := op_buf p1 @ [x]\<rparr> else p1))"

definition token_release ::
    "bool \<Rightarrow> 'o pool_token \<Rightarrow> 'o object_pool \<Rightarrow> pool_error option \<times> 'o pool_token \<times> 'o object_pool" where
  "token_release reset_ok t p =
     (if tk_released t then (if op_strict p then Some TokenReleased else None, t, p)
      else let (e, p') = pool_release reset_ok (tk_obj t) p in (e, t\<lparr>tk_released := True\<rparr>, p'))"

definition pool_clear :: "'o object_pool \<Rightarrow> 'o object_pool" where
  "pool_clear p = p\<lparr>op_buf := [], op_in_flight := {}\<rparr>"

section \<open>Websocket buffers\<close>

text \<open>A buffer is an object; \<open>len\<close> gives the length of its contents, which its holder may change.\<close>

record 'o buffer_pool =
  wb_capacity :: nat
  wb_default_bytes :: nat
  wb_buf :: "'o list"
  wb_acquires :: nat
  wb_hits :: nat
  wb_grow_events :: nat

definition new_buffer_pool :: "nat \<Rightarrow> nat \<Rightarrow> 'o buffer_pool option" where
  "new_buffer_pool capacity default_bytes =
     (if capacity < 1 \<or> default_bytes < 256 then None
      else Some \<lparr>wb_capacity = capacity, wb_default_bytes = default_bytes, wb_buf = [],
                 wb_acquires = 0, wb_hits = 0, wb_grow_events = 0\<rparr>)"

definition buffer_acquire ::
    "nat \<Rightarrow> 'o \<Rightarrow> ('o \<Rightarrow> nat) \<Rightarrow> 'o buffer_pool \<Rightarrow> 'o \<times> ('o \<Rightarrow> nat) \<times> 'o buffer_pool" where
  "buffer_acquire min_bytes made len p =
     (let target = max min_bytes (wb_default_bytes p); p1 = p\<lparr>wb_acquires := wb_acquires p + 1\<rparr> in
      if wb_buf p \<noteq> []
      then
        let b = last (wb_buf p) in
        (b, len(b := 0),
         p1\<lparr>wb_buf := butlast (wb_buf p), wb_hits := wb_hits p + 1,
            wb_grow_events := (if len b < target then wb_grow_events p + 1 else wb_grow_events p)\<rparr>)
      else (made, len(made := 0), p1))"

definition buffer_release :: "'o \<Rightarrow> ('o \<Rightarrow> nat) \<Rightarrow> 'o buffer_pool \<Rightarrow> ('o \<Rightarrow> nat) \<times> 'o buffer_pool" where
  "buffer_release b len p =
     (if wb_capacity p \<le> length (wb_buf p) then (len, p)
      else (len(b := 0), p\<lparr>wb_buf := wb_buf p @ [b]\<rparr>))"

definition buffers_clear :: "'o buffer_pool \<Rightarrow> 'o buffer_pool" where
  "buffers_clear p = p\<lparr>wb_buf := [], wb_acquires := 0, wb_hits := 0, wb_grow_events := 0\<rparr>"

section \<open>The topology graph\<close>

record compact_topology =
  tg_capacity :: nat
  tg_nodes :: "(string, string set) dict"
  tg_evictions :: nat

definition new_topology :: "nat \<Rightarrow> compact_topology option" where
  "new_topology capacity =
     (if capacity < 1 then None
      else Some \<lparr>tg_capacity = capacity, tg_nodes = [], tg_evictions = 0\<rparr>)"

text \<open>Evicts from the front and strips the evicted node from the other adjacencies.\<close>

function evict_nodes :: "nat \<Rightarrow> (string, string set) dict \<Rightarrow> (string, string set) dict \<times> nat" where
  "evict_nodes cap nodes =
     (if length nodes \<le> cap then (nodes, 0)
      else
        let (d, n) = evict_nodes cap (map (\<lambda>(k, a). (k, a - {fst (hd nodes)})) (tl nodes)) in (d, n + 1))"
  by pat_completeness auto
termination by (relation "measure (\<lambda>(_, nodes). length nodes)") auto

declare evict_nodes.simps [simp del]

definition add_node :: "string \<Rightarrow> compact_topology \<Rightarrow> compact_topology" where
  "add_node k t =
     (let (nodes, n) = evict_nodes (tg_capacity t) (tg_nodes t @ [(k, {})]) in
      t\<lparr>tg_nodes := nodes, tg_evictions := tg_evictions t + n\<rparr>)"

text \<open>\<open>True\<close> is the \<open>KeyError\<close> of the last \<open>move_to_end(src)\<close>.\<close>

definition link_nodes :: "string \<Rightarrow> string \<Rightarrow> compact_topology \<Rightarrow> bool \<times> compact_topology" where
  "link_nodes src tgt t =
     (let t1 = (if dget (tg_nodes t) src = None then add_node src t else t);
          t2 = t1\<lparr>tg_nodes := dset src (insert tgt (the (dget (tg_nodes t1) src))) (tg_nodes t1)\<rparr>;
          t3 = (if dget (tg_nodes t2) tgt = None then add_node tgt t2
                else t2\<lparr>tg_nodes := move_to_end tgt (tg_nodes t2)\<rparr>)
      in if dget (tg_nodes t3) src = None then (True, t3)
         else (False, t3\<lparr>tg_nodes := move_to_end src (tg_nodes t3)\<rparr>))"

definition add_edge ::
    "string \<Rightarrow> string \<Rightarrow> unit interner \<times> compact_topology \<Rightarrow> bool \<times> unit interner \<times> compact_topology" where
  "add_edge source target = (\<lambda>(s, t).
     let (src, s1) = intern_text source s; (tgt, s2) = intern_text target s1;
         (raised, t') = link_nodes src tgt t
     in (raised, s2, t'))"

definition remove_node :: "string \<Rightarrow> compact_topology \<Rightarrow> compact_topology" where
  "remove_node k t = t\<lparr>tg_nodes := map (\<lambda>(x, a). (x, a - {k})) (dpop k (tg_nodes t))\<rparr>"

definition neighbors :: "string \<Rightarrow> compact_topology \<Rightarrow> string set" where
  "neighbors k t = (case dget (tg_nodes t) k of None \<Rightarrow> {} | Some a \<Rightarrow> a)"

definition topology_edge_count :: "compact_topology \<Rightarrow> nat" where
  "topology_edge_count t = sum_list (map card (dvals (tg_nodes t)))"

definition topology_reset :: "compact_topology \<Rightarrow> compact_topology" where
  "topology_reset t = t\<lparr>tg_nodes := [], tg_evictions := 0\<rparr>"

section \<open>Thresholds\<close>

record 'l threshold_monitor =
  th_thresholds :: "(string, int) dict"
  th_listeners :: "'l list"
  th_breach_count :: nat

definition set_threshold :: "string \<Rightarrow> int \<Rightarrow> 'l threshold_monitor \<Rightarrow> 'l threshold_monitor" where
  "set_threshold name v m = m\<lparr>th_thresholds := dset name v (th_thresholds m)\<rparr>"

definition remove_threshold :: "string \<Rightarrow> 'l threshold_monitor \<Rightarrow> 'l threshold_monitor" where
  "remove_threshold name m = m\<lparr>th_thresholds := dpop name (th_thresholds m)\<rparr>"

text \<open>The breach with its threshold, and the listeners it is handed to.\<close>

definition observe_threshold ::
    "string \<Rightarrow> int \<Rightarrow> 'l threshold_monitor \<Rightarrow> (int \<times> 'l list) option \<times> 'l threshold_monitor" where
  "observe_threshold name observed m =
     (case dget (th_thresholds m) name of
        None \<Rightarrow> (None, m)
      | Some v \<Rightarrow>
          if observed \<le> v then (None, m)
          else (Some (v, th_listeners m), m\<lparr>th_breach_count := th_breach_count m + 1\<rparr>))"

definition subscribe_breaches :: "'l \<Rightarrow> 'l threshold_monitor \<Rightarrow> 'l threshold_monitor" where
  "subscribe_breaches l m = m\<lparr>th_listeners := th_listeners m @ [l]\<rparr>"

definition unsubscribe_breaches :: "'l \<Rightarrow> 'l threshold_monitor \<Rightarrow> 'l threshold_monitor" where
  "unsubscribe_breaches l m = m\<lparr>th_listeners := remove1 l (th_listeners m)\<rparr>"

definition reset_thresholds :: "'l threshold_monitor \<Rightarrow> 'l threshold_monitor" where
  "reset_thresholds m = m\<lparr>th_thresholds := [], th_listeners := [], th_breach_count := 0\<rparr>"

section \<open>The optimizer\<close>

record ('o, 'l) memory_optimizer =
  mo_config :: memory_config
  mo_interner :: "unit interner"
  mo_dedup :: deduplicator
  mo_topology :: compact_topology
  mo_buffers :: "'o buffer_pool"
  mo_frames :: "compact_frame frame_cache"
  mo_thresholds :: "'l threshold_monitor"
  mo_pools :: "(string, 'o object_pool) dict"

definition new_optimizer :: "memory_config \<Rightarrow> ('o, 'l) memory_optimizer option" where
  "new_optimizer cfg =
     (case (new_interner (mc_interner_capacity cfg), new_deduplicator (mc_dedup_window cfg),
            new_topology (mc_topology_node_capacity cfg),
            new_buffer_pool (mc_websocket_buffer_count cfg) (mc_websocket_buffer_bytes cfg),
            new_frame_cache (mc_replay_frame_cache_capacity cfg)) of
        (Some i, Some d, Some t, Some b, Some f) \<Rightarrow>
          Some \<lparr>mo_config = cfg, mo_interner = i, mo_dedup = d, mo_topology = t, mo_buffers = b,
                mo_frames = f,
                mo_thresholds = \<lparr>th_thresholds = [], th_listeners = [], th_breach_count = 0\<rparr>,
                mo_pools = []\<rparr>
      | _ \<Rightarrow> None)"

definition opt_intern :: "string \<Rightarrow> ('o, 'l) memory_optimizer \<Rightarrow> string \<times> ('o, 'l) memory_optimizer" where
  "opt_intern v m =
     (if \<not> mc_interning_enabled (mo_config m) then (v, m)
      else let (v', i) = intern_text v (mo_interner m) in (v', m\<lparr>mo_interner := i\<rparr>))"

definition opt_compact_dict_event ::
    "(json \<Rightarrow> string) \<Rightarrow> bool \<Rightarrow> (string, json) dict \<Rightarrow> ('o, 'l) memory_optimizer \<Rightarrow>
     (compact_event \<times> ('o, 'l) memory_optimizer) option" where
  "opt_compact_dict_event render interning data m =
     map_option (\<lambda>(e, i). (e, m\<lparr>mo_interner := i\<rparr>)) (compact_dict_event render interning data (mo_interner m))"

definition opt_compact_replay_frame ::
    "bool \<Rightarrow> bool \<Rightarrow> wire_frame \<Rightarrow> ('o, 'l) memory_optimizer \<Rightarrow> compact_frame \<times> ('o, 'l) memory_optimizer" where
  "opt_compact_replay_frame interning cache f m =
     (let (c, i) = compact_replay_frame interning f (mo_interner m); m1 = m\<lparr>mo_interner := i\<rparr> in
      (c, if cache then m1\<lparr>mo_frames := frame_cache_put (cf_sequence c) c (mo_frames m1)\<rparr> else m1))"

definition opt_observe_event ::
    "(string \<Rightarrow> string) \<Rightarrow> (json \<Rightarrow> string) \<Rightarrow> compact_event \<Rightarrow> ('o, 'l) memory_optimizer \<Rightarrow>
     (bool \<times> string) \<times> ('o, 'l) memory_optimizer" where
  "opt_observe_event sha256 repr e m =
     (if \<not> mc_dedup_enabled (mo_config m) then ((False, []), m)
      else let (r, d) = dedup_observe sha256 repr e (mo_dedup m) in (r, m\<lparr>mo_dedup := d\<rparr>))"

definition opt_register_pool ::
    "string \<Rightarrow> 'o object_pool \<Rightarrow> ('o, 'l) memory_optimizer \<Rightarrow> ('o, 'l) memory_optimizer" where
  "opt_register_pool name p m = m\<lparr>mo_pools := dset name p (mo_pools m)\<rparr>"

text \<open>\<open>None\<close>: no such pool.\<close>

definition opt_acquire_from_pool ::
    "string \<Rightarrow> 'o option \<Rightarrow> ('o, 'l) memory_optimizer \<Rightarrow>
     ((pool_error + 'o pool_token) \<times> ('o, 'l) memory_optimizer) option" where
  "opt_acquire_from_pool name made m =
     (case dget (mo_pools m) name of None \<Rightarrow> None
      | Some p \<Rightarrow> (let (r, p') = pool_acquire made p in Some (r, m\<lparr>mo_pools := dset name p' (mo_pools m)\<rparr>)))"

text \<open>The context manager: acquired, used by the body, which leaves the lengths \<open>body len\<close>, released.\<close>

definition opt_websocket_buffer ::
    "nat \<Rightarrow> 'o \<Rightarrow> ('o \<Rightarrow> ('o \<Rightarrow> nat) \<Rightarrow> ('o \<Rightarrow> nat)) \<Rightarrow> ('o \<Rightarrow> nat) \<Rightarrow> ('o, 'l) memory_optimizer \<Rightarrow>
     ('o \<Rightarrow> nat) \<times> ('o, 'l) memory_optimizer" where
  "opt_websocket_buffer min_bytes made body len m =
     (let (b, len1, p1) = buffer_acquire min_bytes made len (mo_buffers m);
          (len2, p2) = buffer_release b (body b len1) p1
      in (len2, m\<lparr>mo_buffers := p2\<rparr>))"

definition opt_add_edge ::
    "string \<Rightarrow> string \<Rightarrow> ('o, 'l) memory_optimizer \<Rightarrow> bool \<times> ('o, 'l) memory_optimizer" where
  "opt_add_edge source target m =
     (let (raised, i, t) = add_edge source target (mo_interner m, mo_topology m) in
      (raised, m\<lparr>mo_interner := i, mo_topology := t\<rparr>))"

definition opt_reset :: "('o, 'l) memory_optimizer \<Rightarrow> ('o, 'l) memory_optimizer" where
  "opt_reset m =
     m\<lparr>mo_interner := interner_clear (mo_interner m), mo_dedup := dedup_reset (mo_dedup m),
       mo_topology := topology_reset (mo_topology m), mo_buffers := buffers_clear (mo_buffers m),
       mo_frames := frame_cache_clear (mo_frames m),
       mo_pools := map (\<lambda>(n, p). (n, pool_clear p)) (mo_pools m),
       mo_thresholds := reset_thresholds (mo_thresholds m)\<rparr>"

section \<open>The interner keeps identities\<close>

fun intern_all ::
    "(string \<Rightarrow> 'o \<Rightarrow> 'o) \<Rightarrow> (string \<times> 'o) list \<Rightarrow> 'o interner \<Rightarrow> (string \<times> 'o \<times> 'o) list \<times> 'o interner" where
  "intern_all sys_intern [] s = ([], s)"
| "intern_all sys_intern ((v, i) # calls) s =
     (let (x, s1) = intern sys_intern v i s; (out, s2) = intern_all sys_intern calls s1 in ((v, i, x) # out, s2))"

lemma intern_keeps:
  assumes "intern sys_intern v i s = (x, s')"
  shows "in_capacity s' = in_capacity s \<and>
    (\<forall>u y. dget (in_table s) u = Some y \<longrightarrow> dget (in_table s') u = Some y) \<and>
    (dget (in_table s') v = Some x \<or> dget (in_table s') v = None \<and> x = i \<and> in_table s' = in_table s \<and>
       in_capacity s \<le> length (in_table s)) \<and>
    (\<forall>u. u \<noteq> v \<longrightarrow> dget (in_table s') u = dget (in_table s) u) \<and>
    in_hits s' + in_misses s' + in_bypassed s' = Suc (in_hits s + in_misses s + in_bypassed s)"
  using assms by (auto simp: intern_def dget_dset Let_def split: option.splits if_splits)

lemma intern_size:
  assumes "intern sys_intern v i s = (x, s')" "in_misses s = length (in_table s)" "length (in_table s) \<le> in_capacity s"
  shows "in_misses s' = length (in_table s') \<and> length (in_table s') \<le> in_capacity s'"
  using assms by (auto simp: intern_def length_dset dget_None_iff Let_def simp del: set_map split: option.splits if_splits)

lemma intern_full:
  assumes "intern_all sys_intern calls s = (out, s')" "dget (in_table s) v = None" "in_capacity s \<le> length (in_table s)"
  shows "dget (in_table s') v = None"
  using assms
proof (induction sys_intern calls s arbitrary: out rule: intern_all.induct)
  case (2 sys_intern u i calls s)
  obtain x s1 where step: "intern sys_intern u i s = (x, s1)" by fastforce
  have "dget (in_table s1) v = None" "in_capacity s1 \<le> length (in_table s1)"
    using step 2(3,4) by (auto simp: intern_def split: option.splits)
  then show ?case using 2(1)[OF step[symmetric] refl] 2(2) step by (auto split: prod.splits)
qed simp

lemma intern_all_keeps:
  "intern_all sys_intern calls s = (out, s') \<Longrightarrow> dget (in_table s) v = Some y \<Longrightarrow> dget (in_table s') v = Some y"
proof (induction sys_intern calls s arbitrary: out rule: intern_all.induct)
  case (2 sys_intern u i calls s)
  obtain x s1 where step: "intern sys_intern u i s = (x, s1)" by fastforce
  then show ?case using 2(1)[OF step[symmetric] refl] 2(2,3) intern_keeps[OF step] by (auto split: prod.splits)
qed simp

text \<open>A string is canonical from its first use or never. Over any calls on a fresh interner, all uses of a string
  get one and the same object, the one in the table, or, if the table was full when it first came, each gets the object it passed
  in; nothing is evicted in between. The counters add up to the calls and the table stays within its capacity.
\<close>

theorem interner_is_canonical:
  assumes "new_interner capacity = Some s" "intern_all sys_intern calls s = (out, s')"
  shows "(\<forall>(v, i, x)\<in>set out. case dget (in_table s') v of Some y \<Rightarrow> x = y | None \<Rightarrow> x = i) \<and>
    in_hits s' + in_misses s' + in_bypassed s' = length calls \<and>
    in_misses s' = length (in_table s') \<and> length (in_table s') \<le> capacity"
proof -
  have "(\<forall>(v, i, x)\<in>set out. case dget (in_table s') v of Some y \<Rightarrow> x = y | None \<Rightarrow> x = i) \<and>
      in_hits s' + in_misses s' + in_bypassed s' = in_hits s + in_misses s + in_bypassed s + length calls \<and>
      in_misses s' = length (in_table s') \<and> length (in_table s') \<le> in_capacity s"
    if "in_misses s = length (in_table s)" "length (in_table s) \<le> in_capacity s" "intern_all sys_intern calls s = (out, s')" for s
    using that
  proof (induction sys_intern calls s arbitrary: out rule: intern_all.induct)
    case (2 sys_intern v i calls s)
    obtain x s1 where step: "intern sys_intern v i s = (x, s1)" by fastforce
    obtain out' s2 where rest: "intern_all sys_intern calls s1 = (out', s2)" by fastforce
    have out: "out = (v, i, x) # out'" "s2 = s'" using 2(4) step rest by auto
    note K = intern_keeps[OF step]
    have "case dget (in_table s') v of Some y \<Rightarrow> x = y | None \<Rightarrow> x = i"
    proof (cases "dget (in_table s1) v")
      case None
      then have "x = i" "in_capacity s1 \<le> length (in_table s1)" using K by auto
      then show ?thesis using intern_full[OF rest None] out(2) by simp
    next
      case (Some y)
      then show ?thesis using K intern_all_keeps[OF rest Some] out(2) by simp
    qed
    then show ?case
      using 2(1)[OF step[symmetric] refl, of out'] intern_size[OF step 2(2,3)] K rest out by simp
  qed simp
  from this[of s] show ?thesis using assms by (auto simp: new_interner_def split: if_splits)
qed

theorem interner_is_canonical_witness:
  "\<exists>(s :: nat interner) out s'. new_interner 1 = Some s \<and>
     intern_all (\<lambda>_ i. i) [(''a'', 1), (''b'', 2), (''a'', 3), (''b'', 4)] s = (out, s') \<and>
     out = [(''a'', 1, 1), (''b'', 2, 2), (''a'', 3, 1), (''b'', 4, 4)] \<and> in_misses s' \<le> 1"
proof -
  obtain s :: "nat interner" where s: "new_interner 1 = Some s" by (simp add: new_interner_def)
  let ?calls = "[(''a'', 1), (''b'', 2), (''a'', 3), (''b'', 4)] :: (string \<times> nat) list"
  obtain out s' where run: "intern_all (\<lambda>_ i. i) ?calls s = (out, s')" by fastforce
  have "out = [(''a'', 1, 1), (''b'', 2, 2), (''a'', 3, 1), (''b'', 4, 4)]"
    using run s by (auto simp: new_interner_def intern_def)
  then show ?thesis using interner_is_canonical[OF s run] s run by auto
qed

section \<open>Digests\<close>

text \<open>Different events can have the same digest, whatever the hash. The bytes hashed join keys and values without
  quoting, so a payload with the one key \<open>a=r;b\<close>, where \<open>r\<close> is the printed form of \<open>x\<close>, hashes like the payload with \<open>a\<close> mapped to
  \<open>x\<close> and \<open>b\<close>: after one of them has been observed, the other is reported as its duplicate.
\<close>

theorem digests_are_ambiguous:
  assumes "new_deduplicator n = Some d"
  shows "let one = e\<lparr>ce_payload := [(''a'', x), (''b'', y)]\<rparr>;
      other = e\<lparr>ce_payload := [(''a='' @ repr x @ '';b'', y)]\<rparr> in
    one \<noteq> other \<and> digest_input repr one = digest_input repr other \<and>
    fst (fst (dedup_observe sha256 repr other (snd (dedup_observe sha256 repr one d))))"
proof -
  let ?one = "e\<lparr>ce_payload := [(''a'', x), (''b'', y)]\<rparr>"
  let ?other = "e\<lparr>ce_payload := [(''a='' @ repr x @ '';b'', y)]\<rparr>"
  have "sort [''a'', ''b''] = [''a'', ''b'']" by (simp add: less_eq_char_def)
  then have same: "digest_input repr ?one = digest_input repr ?other" by (simp add: digest_input_def)
  have "dd_recent d = []" "0 < dd_window_size d" using assms by (auto simp: new_deduplicator_def split: if_splits)
  then have "sha256 (digest_input repr ?one) \<in> set (dd_recent (snd (dedup_observe sha256 repr ?one d)))"
    by (simp add: dedup_observe_def ring_push_def Let_def)
  then have "fst (fst (dedup_observe sha256 repr ?other (snd (dedup_observe sha256 repr ?one d))))"
    using same unfolding dedup_observe_def[of sha256 repr ?other] Let_def by simp
  moreover have "ce_payload ?one \<noteq> ce_payload ?other" by simp
  then have "?one \<noteq> ?other" by metis
  ultimately show ?thesis using same unfolding Let_def by blast
qed

theorem digests_are_ambiguous_witness:
  "\<exists>d e. new_deduplicator 4 = Some d \<and> fst (fst (dedup_observe id (\<lambda>_. ''1'')
      (e\<lparr>ce_payload := [(''a=1;b'', JInt 1)]\<rparr>)
      (snd (dedup_observe id (\<lambda>_. ''1'') (e\<lparr>ce_payload := [(''a'', JInt 1), (''b'', JInt 1)]\<rparr>) d))))"
proof -
  obtain d where d: "new_deduplicator 4 = Some d" by (simp add: new_deduplicator_def)
  show ?thesis
    using digests_are_ambiguous[OF d, where x = "JInt 1" and y = "JInt 1" and repr = "\<lambda>_. ''1''" and ?sha256.0 = id] d
    by (auto simp: Let_def)
qed

section \<open>The object pool\<close>

text \<open>The objects that the holders of unreleased tokens have.\<close>

definition held :: "'o pool_token list \<Rightarrow> 'o list" where
  "held ts = map tk_obj (filter (\<lambda>t. \<not> tk_released t) ts)"

definition fresh_object :: "'o option \<Rightarrow> 'o object_pool \<Rightarrow> 'o pool_token list \<Rightarrow> bool" where
  "fresh_object made p ts \<longleftrightarrow> (\<forall>x. made = Some x \<longrightarrow> x \<notin> set (op_buf p) \<union> op_in_flight p \<union> set (held ts))"

text \<open>
  A pool together with all the tokens it ever gave out. Their holders may release any of them at any time and any
  number of times; a factory makes objects that are not alive yet.
\<close>

inductive pool_used :: "'o object_pool \<Rightarrow> 'o pool_token list \<Rightarrow> bool" where
  created: "new_object_pool capacity strict = Some p \<Longrightarrow> pool_used p []"
| acquired: "pool_used p ts \<Longrightarrow> fresh_object made p ts \<Longrightarrow> pool_acquire made p = (Inr t, p') \<Longrightarrow> pool_used p' (ts @ [t])"
| not_made: "pool_used p ts \<Longrightarrow> pool_acquire made p = (Inl e, p') \<Longrightarrow> pool_used p' ts"
| released: "pool_used p ts \<Longrightarrow> k < length ts \<Longrightarrow> token_release reset_ok (ts ! k) p = (e, t', p') \<Longrightarrow> pool_used p' (ts[k := t'])"
| cleared: "pool_used p ts \<Longrightarrow> pool_used (pool_clear p) ts"

definition pool_ok :: "'o object_pool \<Rightarrow> 'o pool_token list \<Rightarrow> bool" where
  "pool_ok p ts \<longleftrightarrow> distinct (held ts) \<and> distinct (op_buf p) \<and> set (held ts) \<inter> set (op_buf p) = {} \<and>
     op_in_flight p \<subseteq> set (held ts) \<and> length (op_buf p) \<le> op_capacity p"

lemma held_append: "held (ts @ [t]) = held ts @ (if tk_released t then [] else [tk_obj t])"
  by (simp add: held_def)

text \<open>Releasing a token takes its object from the held ones, once.\<close>

lemma held_release:
  assumes "k < length ts" "\<not> tk_released (ts ! k)" "distinct (held ts)"
  shows "tk_obj (ts ! k) \<in> set (held ts)" "distinct (held (ts[k := (ts ! k)\<lparr>tk_released := True\<rparr>]))"
    "set (held (ts[k := (ts ! k)\<lparr>tk_released := True\<rparr>])) = set (held ts) - {tk_obj (ts ! k)}"
proof -
  have split: "held ts = held (take k ts) @ tk_obj (ts ! k) # held (drop (Suc k) ts)"
    using assms(2) by (subst id_take_nth_drop[OF assms(1)]) (simp add: held_def)
  moreover have "held (ts[k := (ts ! k)\<lparr>tk_released := True\<rparr>]) = held (take k ts) @ held (drop (Suc k) ts)"
    using assms(1) by (simp add: upd_conv_take_nth_drop held_def)
  ultimately show "tk_obj (ts ! k) \<in> set (held ts)" "distinct (held (ts[k := (ts ! k)\<lparr>tk_released := True\<rparr>]))"
    "set (held (ts[k := (ts ! k)\<lparr>tk_released := True\<rparr>])) = set (held ts) - {tk_obj (ts ! k)}"
    using assms(3) by auto
qed

lemma pool_acquire_ok:
  assumes "pool_ok p ts" "fresh_object made p ts" "pool_acquire made p = (Inr t, p')"
  shows "pool_ok p' (ts @ [t]) \<and> tk_obj t \<notin> set (held ts) \<and> tk_obj t \<in> op_in_flight p'"
proof (cases "op_buf p = []")
  case True
  then show ?thesis
    using assms by (cases made) (auto simp: pool_acquire_def pool_ok_def fresh_object_def held_append)
next
  case False
  then obtain ys x where "op_buf p = ys @ [x]" by (metis rev_exhaust)
  then show ?thesis using assms by (auto simp: pool_acquire_def pool_ok_def held_append)
qed

lemma token_release_ok:
  assumes ok: "pool_ok p ts" and k: "k < length ts" and run: "token_release reset_ok (ts ! k) p = (e, t', p')"
  shows "pool_ok p' (ts[k := t'])"
proof (cases "tk_released (ts ! k)")
  case True
  then show ?thesis using ok run k by (auto simp: token_release_def)
next
  case False
  have t': "t' = (ts ! k)\<lparr>tk_released := True\<rparr>" and p': "pool_release reset_ok (tk_obj (ts ! k)) p = (e, p')"
    using run False by (auto simp: token_release_def split: prod.splits)
  have "distinct (held ts)" using ok by (simp add: pool_ok_def)
  note less = held_release[OF k False this]
  show ?thesis using ok less p' unfolding t' pool_ok_def
    by (auto simp: pool_release_def Let_def split: if_splits)
qed

lemma pool_used_ok: "pool_used p ts \<Longrightarrow> pool_ok p ts"
proof (induction rule: pool_used.induct)
  case (created capacity strict p)
  then show ?case by (auto simp: new_object_pool_def pool_ok_def held_def split: if_splits)
next
  case (acquired p ts made t p')
  then show ?case using pool_acquire_ok by blast
next
  case (not_made p ts made e p')
  then show ?case by (auto simp: pool_acquire_def pool_ok_def Let_def split: if_splits option.splits)
next
  case (released p ts k reset_ok e t' p')
  then show ?case using token_release_ok by blast
next
  case (cleared p ts)
  then show ?case by (auto simp: pool_clear_def pool_ok_def)
qed

text \<open>C28: No object has two holders. Whatever the holders of a pool's tokens do - release them in any order, repeatedly, or never,
  with failing factories and reset hooks, and \<open>clear\<close> in between - the objects of the unreleased tokens are distinct and none of
  them waits in the pool, those in flight are among them, at most \<open>capacity\<close> distinct objects wait, and an acquire hands out an
  object that no unreleased token has. A factory, when it makes an object, makes one that neither the pool nor a token has.
\<close>

theorem pool_objects_are_exclusive:
  assumes "pool_used p ts"
  shows "distinct (held ts @ op_buf p) \<and> op_in_flight p \<subseteq> set (held ts) \<and> length (op_buf p) \<le> op_capacity p \<and>
    (\<forall>made t p'. fresh_object made p ts \<and> pool_acquire made p = (Inr t, p') \<longrightarrow>
       tk_obj t \<notin> set (held ts) \<and> tk_obj t \<in> op_in_flight p')"
proof -
  have ok: "pool_ok p ts" by (rule pool_used_ok[OF assms])
  then show ?thesis using pool_acquire_ok[OF ok] unfolding pool_ok_def distinct_append by blast
qed

section \<open>Websocket buffers\<close>

datatype 'o buffer_call = Acquire nat 'o | GiveBack 'o | WriteTo 'o nat

text \<open>A client writes only to buffers that are not in the pool.\<close>

fun buffer_run :: "'o buffer_call list \<Rightarrow> ('o \<Rightarrow> nat) \<times> 'o buffer_pool \<Rightarrow> ('o \<Rightarrow> nat) \<times> 'o buffer_pool" where
  "buffer_run [] c = c"
| "buffer_run (Acquire n made # calls) (len, p) = buffer_run calls (snd (buffer_acquire n made len p))"
| "buffer_run (GiveBack b # calls) (len, p) = buffer_run calls (buffer_release b len p)"
| "buffer_run (WriteTo b n # calls) (len, p) =
     buffer_run calls (if b \<in> set (wb_buf p) then (len, p) else (len(b := n), p))"

text \<open>The growth counter counts every hit. A buffer goes back to the pool emptied, so when it is taken again its length,
  which the code compares with the wanted size, is zero: whatever sizes are asked for, each reuse is counted and traced as
  growth, even of a buffer that once held far more.
\<close>

theorem every_hit_counts_as_growth:
  assumes "new_buffer_pool capacity default_bytes = Some p" "buffer_run calls (len, p) = (len', p')"
  shows "wb_grow_events p' = wb_hits p'"
proof -
  have "wb_grow_events p' = wb_hits p'"
    if "wb_grow_events p = wb_hits p" "\<forall>b\<in>set (wb_buf p). len b = 0" "0 < wb_default_bytes p"
      "buffer_run calls (len, p) = (len', p')" for len p
    using that
  proof (induction calls arbitrary: len p)
    case (Cons call calls)
    show ?case
    proof (cases call)
      case (Acquire n made)
      obtain b len1 p1 where step: "buffer_acquire n made len p = (b, len1, p1)" by (metis prod_cases3)
      have "wb_grow_events p1 = wb_hits p1 \<and> (\<forall>b\<in>set (wb_buf p1). len1 b = 0) \<and> 0 < wb_default_bytes p1"
      proof (cases "wb_buf p = []")
        case True
        then show ?thesis using step Cons.prems(1-3) by (auto simp: buffer_acquire_def Let_def)
      next
        case False
        then have "len (last (wb_buf p)) = 0" "\<forall>b\<in>set (butlast (wb_buf p)). len b = 0"
          using Cons.prems(2) by (auto dest: in_set_butlastD)
        then show ?thesis using step Cons.prems(1,3) False by (auto simp: buffer_acquire_def Let_def)
      qed
      then show ?thesis using Cons.IH[of p1 len1] Cons.prems(4) step Acquire by simp
    next
      case (GiveBack b)
      have "\<forall>x\<in>set (wb_buf (p\<lparr>wb_buf := wb_buf p @ [b]\<rparr>)). (len(b := 0)) x = 0" using Cons.prems(2) by simp
      then show ?thesis
        using GiveBack Cons.IH[of p len] Cons.IH[of "p\<lparr>wb_buf := wb_buf p @ [b]\<rparr>" "len(b := 0)"] Cons.prems
        by (simp add: buffer_release_def del: fun_upd_apply split: if_splits)
    next
      case (WriteTo b n)
      have "\<forall>x\<in>set (wb_buf p). (len(b := n)) x = 0" if "b \<notin> set (wb_buf p)"
        using Cons.prems(2) that by auto
      then show ?thesis
        using WriteTo Cons.IH[of p len] Cons.IH[of p "len(b := n)"] Cons.prems
        by (cases "b \<in> set (wb_buf p)") (simp_all del: fun_upd_apply)
    qed
  qed simp
  from this[of p] assms show ?thesis by (auto simp: new_buffer_pool_def split: if_splits)
qed

theorem every_hit_counts_as_growth_witness:
  "\<exists>(p :: nat buffer_pool) len p'. new_buffer_pool 2 256 = Some p \<and>
     buffer_run [Acquire 9000 1, WriteTo 1 9000, GiveBack 1, Acquire 10 2] (\<lambda>_. 0, p) = (len, p') \<and> wb_grow_events p' = 1"
proof -
  obtain p :: "nat buffer_pool" where p: "new_buffer_pool 2 256 = Some p" by (simp add: new_buffer_pool_def)
  obtain len p' where run: "buffer_run [Acquire 9000 1, WriteTo 1 9000, GiveBack 1, Acquire 10 2] (\<lambda>_. 0, p) = (len, p')"
    by fastforce
  have "wb_hits p' = 1"
    using run p by (auto simp: new_buffer_pool_def buffer_acquire_def buffer_release_def Let_def)
  then show ?thesis using every_hit_counts_as_growth[OF p run] p run by auto
qed

text \<open>Releasing a buffer twice shares it. Unlike the object pool, the buffer pool does not notice: with room for two, the same
  buffer is put back twice and then handed to the next two acquirers at the same time.
\<close>

theorem double_release_shares_a_buffer:
  assumes "wb_buf p = []" "2 \<le> wb_capacity p"
  shows "let (len1, p1) = buffer_release b len p; (len2, p2) = buffer_release b len1 p1;
      (x, len3, p3) = buffer_acquire n made len2 p2; (y, _) = buffer_acquire m made' len3 p3 in x = b \<and> y = b"
  using assms by (simp add: buffer_release_def buffer_acquire_def Let_def)

theorem double_release_shares_a_buffer_witness:
  "\<exists>p :: nat buffer_pool. new_buffer_pool 2 256 = Some p \<and>
     (let (len1, p1) = buffer_release 7 (\<lambda>_. 0) p; (len2, p2) = buffer_release 7 len1 p1;
        (x, len3, p3) = buffer_acquire 0 8 len2 p2; (y, _) = buffer_acquire 0 9 len3 p3 in x = 7 \<and> y = 7)"
proof -
  obtain p :: "nat buffer_pool" where p: "new_buffer_pool 2 256 = Some p" "wb_buf p = []" "2 \<le> wb_capacity p"
    by (simp add: new_buffer_pool_def)
  show ?thesis using double_release_shares_a_buffer[OF p(2,3), of 7 "\<lambda>_. 0" 0 8 0 9] p(1) by blast
qed

section \<open>The topology graph\<close>

definition closed_graph :: "(string, string set) dict \<Rightarrow> bool" where
  "closed_graph d \<longleftrightarrow> distinct (dkeys d) \<and> (\<forall>(k, a)\<in>set d. a \<subseteq> set (dkeys d))"

definition graph_ok :: "compact_topology \<Rightarrow> bool" where
  "graph_ok t \<longleftrightarrow> closed_graph (tg_nodes t) \<and> length (tg_nodes t) \<le> tg_capacity t \<and> 0 < tg_capacity t"

lemma dkeys_strip: "dkeys (map (\<lambda>(k, a). (k, a - S)) d) = dkeys d"
  by (induction d) auto

lemma closed_strip_head:
  assumes "closed_graph ((x, b) # rest)"
  shows "closed_graph (map (\<lambda>(k, a). (k, a - {x})) rest)"
  using assms unfolding closed_graph_def dkeys_strip by fastforce

lemma evict_nodes_Cons:
  "cap < Suc (length rest) \<Longrightarrow> evict_nodes cap ((x, b) # rest) =
     (let (d, n) = evict_nodes cap (map (\<lambda>(k, a). (k, a - {x})) rest) in (d, n + 1))"
  by (simp add: evict_nodes.simps[of cap "(x, b) # rest"])

lemma evict_nodes_fit: "length nodes \<le> cap \<Longrightarrow> evict_nodes cap nodes = (nodes, 0)"
  by (simp add: evict_nodes.simps[of cap nodes])

lemma evict_nodes_ok:
  assumes "closed_graph nodes" "evict_nodes cap nodes = (d, n)"
  shows "closed_graph d \<and> length d \<le> cap \<and> length d + n = length nodes \<and>
    dkeys d = drop n (dkeys nodes)"
  using assms
proof (induction cap nodes arbitrary: d n rule: evict_nodes.induct)
  case (1 cap nodes)
  show ?case
  proof (cases "length nodes \<le> cap")
    case True
    then show ?thesis using 1(2,3) by (simp add: evict_nodes_fit)
  next
    case False
    then obtain x b rest where nodes: "nodes = (x, b) # rest" by (cases nodes) auto
    let ?stripped = "map (\<lambda>(k, a). (k, a - {x})) rest"
    obtain d' m where step: "evict_nodes cap ?stripped = (d', m)" by fastforce
    have out: "d = d'" "n = m + 1" using 1(3) False step by (simp_all add: evict_nodes_Cons nodes)
    have closed: "closed_graph ?stripped" using closed_strip_head 1(2) nodes by blast
    have "closed_graph d' \<and> length d' \<le> cap \<and> length d' + m = length ?stripped \<and> dkeys d' = drop m (dkeys ?stripped)"
      using 1(1)[OF False, of d' m] closed step by (simp add: nodes)
    then show ?thesis unfolding out nodes dkeys_strip by simp
  qed
qed

lemma add_node_ok:
  assumes "closed_graph (tg_nodes t @ [(k, {})])" "length (tg_nodes t) \<le> tg_capacity t" "0 < tg_capacity t"
  shows "graph_ok (add_node k t) \<and> tg_capacity (add_node k t) = tg_capacity t \<and>
    dkeys (tg_nodes (add_node k t)) =
      drop (if length (tg_nodes t) = tg_capacity t then 1 else 0) (dkeys (tg_nodes t) @ [k])"
proof -
  obtain d n where step: "evict_nodes (tg_capacity t) (tg_nodes t @ [(k, {})]) = (d, n)" by fastforce
  note E = evict_nodes_ok[OF assms(1) step]
  have "n = (if length (tg_nodes t) = tg_capacity t then 1 else 0)"
  proof (cases "length (tg_nodes t) = tg_capacity t")
    case True
    then obtain x b rest where nodes: "tg_nodes t = (x, b) # rest" using assms(3) by (cases "tg_nodes t") auto
    then show ?thesis using step True by (auto simp: evict_nodes_Cons evict_nodes_fit)
  next
    case False
    then show ?thesis using assms(2) step by (simp add: evict_nodes_fit)
  qed
  then show ?thesis
    using E assms(3) step by (simp add: add_node_def graph_ok_def)
qed

lemma add_fresh_node_ok:
  assumes "graph_ok t" "dget (tg_nodes t) k = None"
  shows "closed_graph (tg_nodes t @ [(k, {})])" "length (tg_nodes t) \<le> tg_capacity t" "0 < tg_capacity t"
  using assms by (auto simp: graph_ok_def closed_graph_def dget_None_iff)

lemma dkeys_move_to_end:
  "set (dkeys (move_to_end k d)) = set (dkeys d)" "distinct (dkeys d) \<Longrightarrow> distinct (dkeys (move_to_end k d))"
  "distinct (dkeys d) \<Longrightarrow> length (move_to_end k d) = length d"
proof -
  show "set (dkeys (move_to_end k d)) = set (dkeys d)"
    using dget_move_to_end[of k d] by (auto simp: set_dkeys_dom simp del: set_map)
  show "distinct (dkeys d) \<Longrightarrow> distinct (dkeys (move_to_end k d))"
    by (simp add: move_to_end_def delete_notin_dom split: option.split)
  show "distinct (dkeys d) \<Longrightarrow> length (move_to_end k d) = length d"
    using length_dpop[of d k] by (auto simp: move_to_end_def in_dkeys_iff simp del: set_map split: option.split)
qed

lemma closed_graph_get:
  "distinct (dkeys d) \<Longrightarrow> closed_graph d \<longleftrightarrow> (\<forall>k a. dget d k = Some a \<longrightarrow> a \<subseteq> set (dkeys d))"
  by (auto simp: closed_graph_def distinct_in_dict[symmetric])

lemma graph_ok_move: "graph_ok t \<Longrightarrow> graph_ok (t\<lparr>tg_nodes := move_to_end k (tg_nodes t)\<rparr>)"
  using dkeys_move_to_end[where d = "tg_nodes t" and k = k]
  by (auto simp: graph_ok_def closed_graph_get dget_move_to_end closed_graph_def[of "tg_nodes t"]) 

text \<open>The state before the target is looked at: the source is there, its adjacency has the target.\<close>

lemma link_source:
  assumes "graph_ok t" "t1 = (if dget (tg_nodes t) src = None then add_node src t else t)"
  shows "graph_ok t1 \<and> tg_capacity t1 = tg_capacity t \<and> src \<in> set (dkeys (tg_nodes t1)) \<and>
    (dget (tg_nodes t) src \<noteq> None \<longrightarrow> t1 = t)"
proof (cases "dget (tg_nodes t) src")
  case None
  have "src \<in> set (drop n (dkeys (tg_nodes t) @ [src]))" if "n \<le> 1" "0 < n \<longrightarrow> tg_nodes t \<noteq> []" for n
    using that by (cases "tg_nodes t"; cases n) auto
  then show ?thesis
    using None add_node_ok[OF add_fresh_node_ok[OF assms(1) None]] add_fresh_node_ok(3)[OF assms(1) None]
    unfolding assms(2) by (auto simp del: set_map)
next
  case (Some a)
  then show ?thesis using assms by (simp add: in_dkeys_iff del: set_map)
qed

lemma closed_insert:
  assumes "closed_graph d" "dget d src = Some a"
  shows "dkeys (dset src (insert tgt a) d) = dkeys d"
    "dget d tgt = None \<Longrightarrow> closed_graph (dset src (insert tgt a) d @ [(tgt, {})])"
    "dget d tgt \<noteq> None \<Longrightarrow> closed_graph (dset src (insert tgt a) d)"
proof -
  let ?d = "dset src (insert tgt a) d"
  have src: "src \<in> set (dkeys d)" using assms(2) by (simp add: in_dkeys_iff del: set_map)
  show keys: "dkeys ?d = dkeys d" using src by (simp add: dkeys_dset del: set_map)
  have dist: "distinct (dkeys d)" using assms(1) by (simp add: closed_graph_def)
  have sub: "b \<subseteq> insert tgt (set (dkeys d))" if "(k, b) \<in> set ?d" for k b
  proof -
    have "dget ?d k = Some b" using that distinct_in_dict[of ?d k b] dist keys by metis
    then show ?thesis using assms dist by (auto simp: dget_dset closed_graph_get split: if_splits)
  qed
  show "closed_graph (?d @ [(tgt, {})])" if "dget d tgt = None"
    using sub dist that keys unfolding closed_graph_def by (auto simp: dget_None_iff simp del: set_map)
  show "closed_graph ?d" if "dget d tgt \<noteq> None"
    using sub dist that keys unfolding closed_graph_def in_dkeys_iff[symmetric] by (auto simp del: set_map)
qed

lemma link_nodes_ok:
  assumes "graph_ok t" "link_nodes src tgt t = (raised, t')"
  shows "graph_ok t' \<and> tg_capacity t' = tg_capacity t \<and>
    (dget (tg_nodes t) src \<noteq> None \<longrightarrow>
      raised = (dget (tg_nodes t) tgt = None \<and> length (tg_nodes t) = tg_capacity t \<and> fst (hd (tg_nodes t)) = src))"
proof -
  define t1 where "t1 = (if dget (tg_nodes t) src = None then add_node src t else t)"
  note S = link_source[OF assms(1) t1_def]
  obtain a where a: "dget (tg_nodes t1) src = Some a" using S by (auto simp: in_dkeys_iff simp del: set_map)
  define t2 where "t2 = t1\<lparr>tg_nodes := dset src (insert tgt a) (tg_nodes t1)\<rparr>"
  have closed: "closed_graph (tg_nodes t1)" using S by (simp add: graph_ok_def)
  note C = closed_insert[OF closed a, of tgt]
  define t3 where "t3 = (if dget (tg_nodes t2) tgt = None then add_node tgt t2
      else t2\<lparr>tg_nodes := move_to_end tgt (tg_nodes t2)\<rparr>)"
  have keys2: "dkeys (tg_nodes t2) = dkeys (tg_nodes t1)" "tg_capacity t2 = tg_capacity t1"
    using C(1) by (simp_all add: t2_def)
  then have len2: "length (tg_nodes t2) = length (tg_nodes t1)" by (metis length_map)
  have none2: "dget (tg_nodes t2) k = None \<longleftrightarrow> dget (tg_nodes t1) k = None" for k
    using keys2(1) by (simp add: dget_None_iff del: set_map)
  have G3: "graph_ok t3 \<and> tg_capacity t3 = tg_capacity t1"
  proof (cases "dget (tg_nodes t1) tgt")
    case None
    have "closed_graph (tg_nodes t2 @ [(tgt, {})])" using C(2) None by (simp add: t2_def)
    then show ?thesis using add_node_ok[of t2 tgt] None none2 S len2 keys2(2) by (simp add: t3_def graph_ok_def)
  next
    case (Some b)
    have "graph_ok t2" using C(3) Some S len2 keys2(2) by (simp add: t2_def graph_ok_def)
    moreover have "dget (tg_nodes t2) tgt \<noteq> None" unfolding none2 using Some by simp
    ultimately show ?thesis using graph_ok_move[of t2 tgt] keys2(2) by (simp only: t3_def if_False) simp
  qed
  have out: "raised = (dget (tg_nodes t3) src = None)"
    "t' = (if raised then t3 else t3\<lparr>tg_nodes := move_to_end src (tg_nodes t3)\<rparr>)"
  proof -
    have "link_nodes src tgt t = (if dget (tg_nodes t3) src = None then (True, t3)
        else (False, t3\<lparr>tg_nodes := move_to_end src (tg_nodes t3)\<rparr>))"
      unfolding link_nodes_def Let_def t1_def[symmetric] a option.sel t2_def[symmetric] t3_def[symmetric] by (rule refl)
    then show "raised = (dget (tg_nodes t3) src = None)"
      "t' = (if raised then t3 else t3\<lparr>tg_nodes := move_to_end src (tg_nodes t3)\<rparr>)"
      using assms(2) by (simp_all split: if_splits)
  qed
  have "raised = (dget (tg_nodes t) tgt = None \<and> length (tg_nodes t) = tg_capacity t \<and> fst (hd (tg_nodes t)) = src)"
    if "dget (tg_nodes t) src \<noteq> None"
  proof -
    have t1: "t1 = t" using S that by blast
    show ?thesis
    proof (cases "dget (tg_nodes t) tgt")
      case None
      have "closed_graph (tg_nodes t2 @ [(tgt, {})])" using C(2) None t1 by (simp add: t2_def)
      then have keys3: "dkeys (tg_nodes t3) = drop (if length (tg_nodes t) = tg_capacity t then 1 else 0) (dkeys (tg_nodes t) @ [tgt])"
        using add_node_ok[of t2 tgt] None none2 S len2 keys2 t1 by (simp add: t3_def graph_ok_def)
      have ne: "src \<noteq> tgt" "src \<in> set (dkeys (tg_nodes t))" "distinct (dkeys (tg_nodes t))"
        using that None closed t1 by (auto simp: in_dkeys_iff closed_graph_def simp del: set_map)
      then obtain x b rest where nodes: "tg_nodes t = (x, b) # rest" by (cases "tg_nodes t") auto
      show ?thesis
        using keys3 ne None unfolding out(1) dget_None_iff nodes
        by (auto simp del: set_map)
    next
      case (Some b)
      then have "dget (tg_nodes t2) tgt \<noteq> None" "dget (tg_nodes t2) src \<noteq> None"
        using that t1 unfolding none2 by simp_all
      then have "dget (tg_nodes t3) src \<noteq> None"
        by (simp only: t3_def if_False) (simp add: dget_move_to_end)
      then show ?thesis using out(1) Some by simp
    qed
  qed
  moreover have "graph_ok t'" using out(2) G3 graph_ok_move by simp
  ultimately show ?thesis using G3 S out(2) by simp
qed

datatype graph_call = AddEdge string string | RemoveNode string

fun graph_do :: "graph_call \<Rightarrow> unit interner \<times> compact_topology \<Rightarrow> unit interner \<times> compact_topology" where
  "graph_do (AddEdge a b) c = snd (add_edge a b c)"
| "graph_do (RemoveNode k) (s, t) = (s, remove_node k t)"

lemma add_edge_link:
  "add_edge a b (s, t) = (raised, s', t') \<Longrightarrow> link_nodes a b t = (raised, t')"
  by (auto simp: add_edge_def intern_text_def split: prod.splits)

lemma remove_node_ok: "graph_ok t \<Longrightarrow> graph_ok (remove_node k t) \<and> tg_capacity (remove_node k t) = tg_capacity t"
proof -
  assume ok: "graph_ok t"
  have "set (dpop k d) \<subseteq> set d" for d :: "(string, string set) dict" by (induction d) auto
  then have sub: "set (dpop k (tg_nodes t)) \<subseteq> set (tg_nodes t)" .
  have "length (dpop k (tg_nodes t)) \<le> length (tg_nodes t)" by (rule length_delete_le)
  moreover have "closed_graph (map (\<lambda>(x, a). (x, a - {k})) (dpop k (tg_nodes t)))"
    unfolding closed_graph_def dkeys_strip
  proof (intro conjI ballI)
    show "distinct (dkeys (dpop k (tg_nodes t)))" using ok by (simp add: graph_ok_def closed_graph_def)
    fix e assume "e \<in> set (map (\<lambda>(x, a). (x, a - {k})) (dpop k (tg_nodes t)))"
    then obtain x a where e: "e = (x, a - {k})" "(x, a) \<in> set (tg_nodes t)" using sub by auto
    then have "a \<subseteq> set (dkeys (tg_nodes t))" using ok by (auto simp: graph_ok_def closed_graph_def)
    then show "case e of (x, a) \<Rightarrow> a \<subseteq> set (dkeys (dpop k (tg_nodes t)))"
      unfolding e(1) set_dkeys_dpop prod.case by blast
  qed
  ultimately show ?thesis using ok by (simp add: remove_node_def graph_ok_def)
qed

text \<open>C29: The bounded graph never dangles. After any edges and removals on a fresh graph, including those in which adding an edge
  raised half-way, there are at most \<open>capacity\<close> nodes, each once, and every adjacency points to nodes that are
  in the graph: an evicted or removed node leaves no reference behind.
\<close>

theorem topology_never_dangles:
  assumes "new_topology capacity = Some t" "fold graph_do calls (s, t) = (s', t')"
  shows "distinct (dkeys (tg_nodes t')) \<and> length (tg_nodes t') \<le> capacity \<and>
    (\<forall>k. neighbors k t' \<subseteq> set (dkeys (tg_nodes t')))"
proof -
  have "graph_ok t' \<and> tg_capacity t' = capacity"
    if "graph_ok t" "tg_capacity t = capacity" "fold graph_do calls (s, t) = (s', t')" for s t
    using that
  proof (induction calls arbitrary: s t)
    case (Cons call calls)
    obtain s1 t1 where step: "graph_do call (s, t) = (s1, t1)" by fastforce
    have "graph_ok t1 \<and> tg_capacity t1 = capacity"
    proof (cases call)
      case (AddEdge a b)
      obtain raised where "add_edge a b (s, t) = (raised, s1, t1)" using AddEdge step by (metis graph_do.simps(1) prod.collapse)
      then show ?thesis using link_nodes_ok[OF Cons.prems(1)] add_edge_link Cons.prems(2) by blast
    next
      case (RemoveNode k)
      then show ?thesis using step remove_node_ok[OF Cons.prems(1)] Cons.prems(2) by auto
    qed
    then show ?case using Cons.IH[of t1 s1] Cons.prems(3) step by simp
  qed simp
  moreover have "graph_ok t \<and> tg_capacity t = capacity"
    using assms(1) by (auto simp: new_topology_def graph_ok_def closed_graph_def split: if_splits)
  ultimately have ok: "graph_ok t'" "tg_capacity t' = capacity" using assms(2) by blast+
  then have "neighbors k t' \<subseteq> set (dkeys (tg_nodes t'))" for k
    by (auto simp: neighbors_def graph_ok_def closed_graph_get closed_graph_def[of "tg_nodes t'"] split: option.splits simp del: set_map)
  then show ?thesis using ok by (simp add: graph_ok_def closed_graph_def)
qed

text \<open>In a full graph the oldest node cannot reach a new one. Adding an edge from a node that is present raises a \<open>KeyError\<close> exactly
  when the target is new, the graph is full and the source is the node at the front: inserting the target evicts the source, which
  the code only moves to the end afterwards. The source and all its edges are gone, the target stays.
\<close>

theorem edge_from_oldest_node_raises:
  assumes "graph_ok t" "a \<in> set (dkeys (tg_nodes t))" "add_edge a b (s, t) = (raised, s', t')"
  shows "(raised \<longleftrightarrow> b \<notin> set (dkeys (tg_nodes t)) \<and> length (tg_nodes t) = tg_capacity t \<and> fst (hd (tg_nodes t)) = a) \<and>
    (raised \<longrightarrow> a \<notin> set (dkeys (tg_nodes t')))"
proof -
  have link: "link_nodes a b t = (raised, t')" by (rule add_edge_link[OF assms(3)])
  have present: "dget (tg_nodes t) a \<noteq> None" using assms(2) by (simp add: in_dkeys_iff del: set_map)
  have "raised \<longrightarrow> dget (tg_nodes t') a = None"
    using link by (auto simp: link_nodes_def Let_def split: if_splits)
  then show ?thesis
    using link_nodes_ok[OF assms(1) link] present by (auto simp: dget_None_iff simp del: set_map)
qed

theorem topology_never_dangles_witness:
  "\<exists>t s s' t'. new_topology 2 = Some t \<and>
     fold graph_do [AddEdge ''a'' ''b'', AddEdge ''b'' ''c'', RemoveNode ''c''] (s, t) = (s', t') \<and>
     length (tg_nodes t') \<le> 2 \<and> neighbors ''b'' t' \<subseteq> set (dkeys (tg_nodes t'))"
proof -
  obtain t where t: "new_topology 2 = Some t" by (simp add: new_topology_def)
  obtain s :: "unit interner" where "new_interner 4 = Some s" by (simp add: new_interner_def)
  obtain s' t' where run: "fold graph_do [AddEdge ''a'' ''b'', AddEdge ''b'' ''c'', RemoveNode ''c''] (s, t) = (s', t')"
    by fastforce
  show ?thesis using topology_never_dangles[OF t run] t run by blast
qed

theorem edge_from_oldest_node_raises_witness:
  "\<exists>t s s' t'. graph_ok t \<and> dkeys (tg_nodes t) = [''a'', ''b''] \<and>
     add_edge ''a'' ''c'' (s, t) = (True, s', t') \<and> ''a'' \<notin> set (dkeys (tg_nodes t'))"
proof -
  define t where "t = \<lparr>tg_capacity = 2, tg_nodes = [(''a'', {''b''}), (''b'', {})], tg_evictions = 0\<rparr>"
  have ok: "graph_ok t" "''a'' \<in> set (dkeys (tg_nodes t))" by (auto simp: t_def graph_ok_def closed_graph_def)
  obtain s :: "unit interner" where "new_interner 4 = Some s" by (simp add: new_interner_def)
  obtain raised s' t' where run: "add_edge ''a'' ''c'' (s, t) = (raised, s', t')" by (metis prod_cases3)
  have "raised" "''a'' \<notin> set (dkeys (tg_nodes t'))"
    using edge_from_oldest_node_raises[OF ok run] by (simp_all add: t_def)
  then show ?thesis using ok run by (intro exI[of _ t] exI[of _ s] exI[of _ s'] exI[of _ t']) (simp add: t_def)
qed

text \<open>One object is taken, given back, taken again by a second holder, and then released once more by the first.\<close>

theorem pool_objects_are_exclusive_witness:
  "\<exists>(p :: nat object_pool) ts. pool_used p ts \<and> held ts = [7] \<and> map tk_released ts = [True, False] \<and> op_buf p = [] \<and>
     distinct (held ts @ op_buf p)"
proof -
  let ?pool = "\<lambda>buf inf a r h. \<lparr>op_capacity = 2, op_strict = False, op_buf = buf, op_in_flight = inf, op_acquires = a,
    op_releases = r, op_hits = h, op_misses = min a 1, op_double_releases = 0\<rparr> :: nat object_pool"
  let ?t = "\<lambda>b. \<lparr>tk_obj = 7 :: nat, tk_released = b\<rparr>"
  have "pool_used (?pool [] {} 0 0 0) []" by (rule pool_used.created[of 2 False]) (simp add: new_object_pool_def)
  then have "pool_used (?pool [] {7} 1 0 0) ([] @ [?t False])"
    by (rule pool_used.acquired[where made = "Some 7"]) (simp_all add: fresh_object_def held_def pool_acquire_def)
  moreover have "token_release True ([?t False] ! 0) (?pool [] {7} 1 0 0) = (None, ?t True, ?pool [7] {} 1 1 0)"
    by (simp add: token_release_def pool_release_def)
  ultimately have "pool_used (?pool [7] {} 1 1 0) ([?t False][0 := ?t True])" by (intro pool_used.released) auto
  then have "pool_used (?pool [] {7} 2 1 1) ([?t True] @ [?t False])"
    by (intro pool_used.acquired[where made = None]) (auto simp: fresh_object_def pool_acquire_def)
  moreover have "token_release True ([?t True, ?t False] ! 0) (?pool [] {7} 2 1 1) = (None, ?t True, ?pool [] {7} 2 1 1)"
    by (simp add: token_release_def)
  ultimately have "pool_used (?pool [] {7} 2 1 1) ([?t True, ?t False][0 := ?t True])" by (intro pool_used.released) auto
  then have used: "pool_used (?pool [] {7} 2 1 1) [?t True, ?t False]" by simp
  have "held [?t True, ?t False] = [7]" "map tk_released [?t True, ?t False] = [True, False]" by (simp_all add: held_def)
  then show ?thesis using used pool_objects_are_exclusive[OF used] by (intro exI conjI) (assumption | simp)+
qed

section \<open>Frames round trip\<close>

lemma intern_text_fst: "intern_text v s = (v', s') \<Longrightarrow> v' = v"
  by (simp add: intern_text_def)

lemma intern_payload_loop_same:
  assumes "distinct (dkeys (out @ items))" "intern_payload_loop items out s = (d, s')"
  shows "d = out @ items"
  using assms
proof (induction items out s rule: intern_payload_loop.induct)
  case (2 k v items out s)
  obtain s1 where a: "intern_text k s = (k, s1)" by (simp add: intern_text_def)
  obtain s2 where b: "intern_value v s1 = (v, s2)" by (cases v) (simp_all add: intern_text_def)
  have fresh: "k \<notin> set (dkeys out)" using 2(2) by auto
  have rest: "intern_payload_loop items (out @ [(k, v)]) s2 = (d, s')"
    using 2(3) a b fresh by (simp add: dset_fresh del: set_map)
  have "d = (out @ [(k, v)]) @ items"
    using 2(1)[OF a[symmetric] refl b[symmetric] refl] 2(2) rest fresh by (simp add: dset_fresh del: set_map)
  then show ?case by simp
qed simp

lemma intern_payload_same: "distinct (dkeys p) \<Longrightarrow> intern_payload p s = (d, s') \<Longrightarrow> d = p"
  using intern_payload_loop_same[of "[]" p s d s'] by (simp add: intern_payload_def)

text \<open>Compact frames survive their dictionary form. Reading back what \<open>as_dict\<close> writes gives the same frame, whatever the interner
  holds and whether the payload is interned or not: the absent optional fields come back as the empty string
  and zero they stood for.
\<close>

theorem compact_frame_round_trip:
  assumes "distinct (dkeys (cf_payload f))"
  shows "map_option fst (compact_replay_dict render interning (frame_as_dict f) s) = Some f"
proof -
  obtain d s1 where payload: "(if interning then intern_payload (cf_payload f) s else (cf_payload f, s)) = (d, s1)" by fastforce
  then have d: "d = cf_payload f" using intern_payload_same[OF assms] by (auto split: if_splits)
  show ?thesis
    using payload unfolding d
    by (auto simp: compact_replay_dict_def frame_as_dict_def str_field_def int_field_def optional_text_def intern_text_def
        Let_def split: if_splits prod.splits)
qed

theorem compact_frame_round_trip_witness:
  "\<exists>s. map_option fst (compact_replay_dict (\<lambda>_. []) True (frame_as_dict
     \<lparr>cf_schema_version = 1, cf_frame_type = ''runtime_event'', cf_sequence = 5, cf_monotonic_ns = 9, cf_payload_type = ''t'',
      cf_payload = [(''k'', JStr ''v'')], cf_runtime_id = [], cf_recording_id = ''r'', cf_wall_time_ns = 0\<rparr>) s) =
   Some \<lparr>cf_schema_version = 1, cf_frame_type = ''runtime_event'', cf_sequence = 5, cf_monotonic_ns = 9, cf_payload_type = ''t'',
      cf_payload = [(''k'', JStr ''v'')], cf_runtime_id = [], cf_recording_id = ''r'', cf_wall_time_ns = 0\<rparr>"
  by (rule exI, rule compact_frame_round_trip) simp

end
