(* ===== verification/Metrics.thy ===== *)
theory Metrics
  imports StateStore "HOL-Library.Multiset"
begin

text \<open>
  The metrics aggregator (\<open>asyncviz/runtime/metrics\<close>): counters, duration statistics with a reservoir
  histogram, rolling rate meters, the aggregator that keeps one set of each up to date from the store's
  announcements, and the snapshot it composes.

  The reservoir's random numbers are an argument: \<open>rng k n\<close> is the \<open>k\<close>-th draw of \<open>randrange(0, n)\<close>. The
  timeline block of the snapshot, a copy of the timeline engine's counters, is left out.
\<close>

section \<open>Counters\<close>

type_synonym counter_set = "(string, int) dict"

definition counter_inc :: "string \<Rightarrow> int \<Rightarrow> counter_set \<Rightarrow> counter_set" where
  "counter_inc k delta c = dset k (dget_or 0 c k + delta) c"

definition counter_get :: "counter_set \<Rightarrow> string \<Rightarrow> int" where
  "counter_get c k = dget_or 0 c k"

definition counter_total :: "counter_set \<Rightarrow> int" where
  "counter_total c = sum_list (dvals c)"

section \<open>Histograms\<close>

text \<open>The extrema start at infinity, here \<open>None\<close>.\<close>

record histogram =
  hg_capacity :: nat
  hg_reservoir :: "real list"
  hg_count :: nat
  hg_sum :: real
  hg_min :: "real option"
  hg_max :: "real option"
  hg_draws :: nat

record histogram_snapshot =
  hs_count :: nat
  hs_min_value :: real
  hs_max_value :: real
  hs_mean :: real
  hs_p50 :: real
  hs_p95 :: real
  hs_p99 :: real
  hs_sum_value :: real
  hs_samples :: nat

definition new_histogram :: "nat \<Rightarrow> histogram option" where
  "new_histogram capacity =
     (if capacity < 1 then None
      else Some \<lparr>hg_capacity = capacity, hg_reservoir = [], hg_count = 0, hg_sum = 0,
                 hg_min = None, hg_max = None, hg_draws = 0\<rparr>)"

definition lower_of :: "real \<Rightarrow> real option \<Rightarrow> real option" where
  "lower_of v m = (case m of None \<Rightarrow> Some v | Some w \<Rightarrow> if v < w then Some v else m)"

definition upper_of :: "real \<Rightarrow> real option \<Rightarrow> real option" where
  "upper_of v m = (case m of None \<Rightarrow> Some v | Some w \<Rightarrow> if w < v then Some v else m)"

definition histogram_observe :: "(nat \<Rightarrow> nat \<Rightarrow> nat) \<Rightarrow> real \<Rightarrow> histogram \<Rightarrow> histogram" where
  "histogram_observe rng v h =
     (if v < 0 then h
      else
        let n = hg_count h + 1;
            h1 = h\<lparr>hg_count := n, hg_sum := hg_sum h + v, hg_min := lower_of v (hg_min h),
                   hg_max := upper_of v (hg_max h)\<rparr> in
        if length (hg_reservoir h) < hg_capacity h then h1\<lparr>hg_reservoir := hg_reservoir h @ [v]\<rparr>
        else
          let j = rng (hg_draws h) n; h2 = h1\<lparr>hg_draws := hg_draws h + 1\<rparr> in
          if j < hg_capacity h then h2\<lparr>hg_reservoir := (hg_reservoir h)[j := v]\<rparr> else h2)"

definition histogram_reset :: "histogram \<Rightarrow> histogram" where
  "histogram_reset h =
     h\<lparr>hg_reservoir := [], hg_count := 0, hg_sum := 0, hg_min := None, hg_max := None\<rparr>"

definition percentile :: "real list \<Rightarrow> real \<Rightarrow> real" where
  "percentile xs q =
     (if xs = [] then 0
      else if length xs = 1 then hd xs
      else
        let pos = q * (real (length xs) - 1); lo = nat (py_int pos);
            hi = min (lo + 1) (length xs - 1); frac = pos - real lo
        in xs ! lo * (1 - frac) + xs ! hi * frac)"

definition histogram_snapshot_of :: "histogram \<Rightarrow> histogram_snapshot" where
  "histogram_snapshot_of h =
     (if hg_count h = 0
      then \<lparr>hs_count = 0, hs_min_value = 0, hs_max_value = 0, hs_mean = 0, hs_p50 = 0, hs_p95 = 0,
            hs_p99 = 0, hs_sum_value = 0, hs_samples = 0\<rparr>
      else
        let xs = sort (hg_reservoir h) in
        \<lparr>hs_count = hg_count h, hs_min_value = the (hg_min h), hs_max_value = the (hg_max h),
         hs_mean = hg_sum h / real (hg_count h), hs_p50 = percentile xs (1 / 2),
         hs_p95 = percentile xs (19 / 20), hs_p99 = percentile xs (99 / 100),
         hs_sum_value = hg_sum h, hs_samples = length xs\<rparr>)"

section \<open>Durations\<close>

record duration_stats =
  du_count :: nat
  du_sum :: real
  du_min :: "real option"
  du_max :: "real option"
  du_histogram :: histogram

record duration_snapshot =
  ds_count :: nat
  ds_total_seconds :: real
  ds_min_seconds :: real
  ds_max_seconds :: real
  ds_mean_seconds :: real
  ds_histogram :: histogram_snapshot

definition new_durations :: "nat \<Rightarrow> duration_stats option" where
  "new_durations capacity =
     map_option (\<lambda>h. \<lparr>du_count = 0, du_sum = 0, du_min = None, du_max = None, du_histogram = h\<rparr>)
       (new_histogram capacity)"

definition duration_observe :: "(nat \<Rightarrow> nat \<Rightarrow> nat) \<Rightarrow> real option \<Rightarrow> duration_stats \<Rightarrow> duration_stats" where
  "duration_observe rng v d =
     (case v of
        None \<Rightarrow> d
      | Some s \<Rightarrow>
          if s < 0 then d
          else d\<lparr>du_count := du_count d + 1, du_sum := du_sum d + s, du_min := lower_of s (du_min d),
                 du_max := upper_of s (du_max d), du_histogram := histogram_observe rng s (du_histogram d)\<rparr>)"

definition durations_reset :: "duration_stats \<Rightarrow> duration_stats" where
  "durations_reset d =
     d\<lparr>du_count := 0, du_sum := 0, du_min := None, du_max := None,
       du_histogram := histogram_reset (du_histogram d)\<rparr>"

definition duration_snapshot_of :: "duration_stats \<Rightarrow> duration_snapshot" where
  "duration_snapshot_of d =
     (if du_count d = 0
      then \<lparr>ds_count = 0, ds_total_seconds = 0, ds_min_seconds = 0, ds_max_seconds = 0,
            ds_mean_seconds = 0, ds_histogram = histogram_snapshot_of (du_histogram d)\<rparr>
      else \<lparr>ds_count = du_count d, ds_total_seconds = du_sum d, ds_min_seconds = the (du_min d),
            ds_max_seconds = the (du_max d), ds_mean_seconds = du_sum d / real (du_count d),
            ds_histogram = histogram_snapshot_of (du_histogram d)\<rparr>)"

section \<open>Rate meters\<close>

record rate_meter =
  rm_window :: nat
  rm_buckets :: "int list"
  rm_start :: "int option"
  rm_observations :: int

record rate_snapshot =
  rs_rate_per_second :: real
  rs_total_observations :: int
  rs_window_seconds :: nat

definition new_rate_meter :: "nat \<Rightarrow> rate_meter option" where
  "new_rate_meter window =
     (if window < 1 then None
      else Some \<lparr>rm_window = window, rm_buckets = [], rm_start = None, rm_observations = 0\<rparr>)"

text \<open>The zero buckets pushed for \<open>gap\<close> silent seconds.\<close>

definition pad_buckets :: "int \<Rightarrow> rate_meter \<Rightarrow> int list" where
  "pad_buckets gap m = fold (ring_push (rm_window m)) (replicate (nat gap) 0) (rm_buckets m)"

text \<open>\<open>None\<close> is the \<open>IndexError\<close> of \<open>self._buckets[-1]\<close> on an empty deque.\<close>

definition meter_observe :: "real \<Rightarrow> int \<Rightarrow> rate_meter \<Rightarrow> rate_meter option" where
  "meter_observe seconds n m =
     (let second = py_int seconds;
          m1 = (case rm_start m of
                  None \<Rightarrow> m\<lparr>rm_start := Some second, rm_buckets := ring_push (rm_window m) 0 (rm_buckets m)\<rparr>
                | Some s \<Rightarrow>
                    if s < second
                    then m\<lparr>rm_buckets := (if int (rm_window m) \<le> second - s then [0] else pad_buckets (second - s) m),
                           rm_start := Some second\<rparr>
                    else m)
      in if rm_buckets m1 = [] then None
         else Some (m1\<lparr>rm_buckets := butlast (rm_buckets m1) @ [last (rm_buckets m1) + n],
                       rm_observations := rm_observations m1 + n\<rparr>))"

definition meter_reset :: "rate_meter \<Rightarrow> rate_meter" where
  "meter_reset m = m\<lparr>rm_buckets := [], rm_start := None, rm_observations := 0\<rparr>"

text \<open>Reading a rate advances the meter's own time.\<close>

definition meter_snapshot :: "real option \<Rightarrow> rate_meter \<Rightarrow> rate_snapshot \<times> rate_meter" where
  "meter_snapshot reading m =
     (let m1 = (case (reading, rm_start m) of
                  (Some seconds, Some s) \<Rightarrow>
                    let second = py_int seconds in
                    if s < second
                    then m\<lparr>rm_buckets := (if int (rm_window m) \<le> second - s then [] else pad_buckets (second - s) m),
                           rm_start := Some second\<rparr>
                    else m
                | _ \<Rightarrow> m)
      in (\<lparr>rs_rate_per_second = (if rm_window m1 = 0 then 0
                                 else real_of_int (sum_list (rm_buckets m1)) / real (rm_window m1)),
           rs_total_observations = rm_observations m1, rs_window_seconds = rm_window m1\<rparr>, m1))"

section \<open>Events to intents\<close>

datatype metrics_intent =
    MCreate | MStart | MWait | MResume | MComplete | MCancel | MFail | MIgnore

fun metrics_intent_of :: "event_body \<Rightarrow> metrics_intent" where
  "metrics_intent_of (TaskCreatedEvent f) = MCreate"
| "metrics_intent_of (TaskStartedEvent f) = MStart"
| "metrics_intent_of (TaskWaitingEvent f reason) = MWait"
| "metrics_intent_of (TaskResumedEvent f) = MResume"
| "metrics_intent_of (TaskCompletedEvent f tm) = MComplete"
| "metrics_intent_of (TaskCancelledEvent f tm origin) = MCancel"
| "metrics_intent_of (TaskFailedEvent f tm exc_type exc_message) = MFail"
| "metrics_intent_of (OtherEvent ty) = MIgnore"

record metrics_event =
  me_intent :: metrics_intent
  me_sequence :: "int option"
  me_event_id :: string
  me_coroutine_name :: "string option"
  me_task_id :: "task_id option"
  me_duration_seconds :: "real option"
  me_cancellation_origin :: "string option"

fun duration_of :: "event_body \<Rightarrow> real option" where
  "duration_of (TaskCompletedEvent f tm) = te_duration_seconds tm"
| "duration_of (TaskCancelledEvent f tm origin) = te_duration_seconds tm"
| "duration_of (TaskFailedEvent f tm exc_type exc_message) = te_duration_seconds tm"
| "duration_of _ = None"

fun origin_of :: "event_body \<Rightarrow> string option" where
  "origin_of (TaskCancelledEvent f tm origin) = origin"
| "origin_of _ = None"

definition metrics_normalize :: "runtime_event \<Rightarrow> int option \<Rightarrow> metrics_event" where
  "metrics_normalize e sequence =
     \<lparr>me_intent = metrics_intent_of (ev_body e), me_sequence = sequence, me_event_id = ev_event_id e,
      me_coroutine_name = Option.bind (body_fields (ev_body e)) te_coroutine_name,
      me_task_id = map_option te_task_id (body_fields (ev_body e)),
      me_duration_seconds = duration_of (ev_body e), me_cancellation_origin = origin_of (ev_body e)\<rparr>"

section \<open>Reducing one event\<close>

record aggregates =
  ag_counts :: counter_set
  ag_by_origin :: counter_set
  ag_coroutines :: counter_set
  ag_completed :: duration_stats
  ag_cancelled :: duration_stats
  ag_failed :: duration_stats
  ag_overall :: duration_stats

record reducer_outcome =
  ro_changes :: "(string, int) dict"
  ro_duration_added :: "real option"
  ro_terminal_state :: "string option"

definition or_name :: "string \<Rightarrow> string option \<Rightarrow> string" where
  "or_name fallback v = (case v of None \<Rightarrow> fallback | Some s \<Rightarrow> if s = [] then fallback else s)"

text \<open>The counters of a task that ends in the bucket \<open>b\<close>.\<close>

definition count_terminal :: "string \<Rightarrow> counter_set \<Rightarrow> counter_set" where
  "count_terminal b c = counter_inc ''terminal'' 1 (counter_inc b 1 (counter_inc ''active'' (- 1) c))"

definition terminal_outcome :: "string \<Rightarrow> real option \<Rightarrow> reducer_outcome" where
  "terminal_outcome b d =
     \<lparr>ro_changes = [(''active'', - 1), (b, 1), (''terminal'', 1)], ro_duration_added = d,
      ro_terminal_state = Some b\<rparr>"

text \<open>\<open>rngs\<close> gives each duration histogram, by name, its random numbers.\<close>

type_synonym rngs = "string \<Rightarrow> nat \<Rightarrow> nat \<Rightarrow> nat"

definition apply_lifecycle :: "rngs \<Rightarrow> metrics_event \<Rightarrow> aggregates \<Rightarrow> reducer_outcome \<times> aggregates" where
  "apply_lifecycle rngs n g =
     (let quiet = (\<lambda>ch. \<lparr>ro_changes = ch, ro_duration_added = None, ro_terminal_state = None\<rparr>);
          d = me_duration_seconds n; overall = duration_observe (rngs ''overall'') d (ag_overall g) in
      (case me_intent n of
         MCreate \<Rightarrow>
           (quiet [(''total'', 1), (''active'', 1)],
            g\<lparr>ag_counts := counter_inc ''active'' 1 (counter_inc ''total'' 1 (ag_counts g)),
              ag_coroutines := counter_inc (or_name ''<anonymous>'' (me_coroutine_name n)) 1 (ag_coroutines g)\<rparr>)
       | MWait \<Rightarrow>
           (quiet [(''waiting'', 1)],
            g\<lparr>ag_counts := counter_inc ''active'' 0 (counter_inc ''waiting'' 1 (ag_counts g))\<rparr>)
       | MComplete \<Rightarrow>
           (terminal_outcome ''completed'' d,
            g\<lparr>ag_counts := count_terminal ''completed'' (ag_counts g),
              ag_completed := duration_observe (rngs ''completed'') d (ag_completed g), ag_overall := overall\<rparr>)
       | MCancel \<Rightarrow>
           (terminal_outcome ''cancelled'' d,
            g\<lparr>ag_counts := count_terminal ''cancelled'' (ag_counts g),
              ag_by_origin := counter_inc (or_name ''unknown'' (me_cancellation_origin n)) 1 (ag_by_origin g),
              ag_cancelled := duration_observe (rngs ''cancelled'') d (ag_cancelled g), ag_overall := overall\<rparr>)
       | MFail \<Rightarrow>
           (terminal_outcome ''failed'' d,
            g\<lparr>ag_counts := count_terminal ''failed'' (ag_counts g),
              ag_failed := duration_observe (rngs ''failed'') d (ag_failed g), ag_overall := overall\<rparr>)
       | _ \<Rightarrow> (quiet [], g)))"

section \<open>Self metrics\<close>

record self_metrics =
  sf_observed :: nat
  sf_stale :: nat
  sf_duplicate :: nat
  sf_snapshots :: nat
  sf_rebuilds :: nat
  sf_dispatches :: nat
  sf_dispatch_failures :: nat
  sf_last_event_sequence :: int
  sf_seen_ids :: "string set"
  sf_seen_order :: "string list"
  sf_dedupe_window :: nat

definition new_self_metrics :: "nat \<Rightarrow> self_metrics" where
  "new_self_metrics window =
     \<lparr>sf_observed = 0, sf_stale = 0, sf_duplicate = 0, sf_snapshots = 0, sf_rebuilds = 0, sf_dispatches = 0,
      sf_dispatch_failures = 0, sf_last_event_sequence = 0, sf_seen_ids = {}, sf_seen_order = [],
      sf_dedupe_window = window\<rparr>"

definition newest :: "int option \<Rightarrow> int \<Rightarrow> int" where
  "newest sequence n = (case sequence of Some k \<Rightarrow> if n < k then k else n | None \<Rightarrow> n)"

definition record_observed :: "int option \<Rightarrow> string \<Rightarrow> self_metrics \<Rightarrow> self_metrics" where
  "record_observed sequence i m =
     (let m1 = m\<lparr>sf_observed := sf_observed m + 1,
                 sf_last_event_sequence := newest sequence (sf_last_event_sequence m),
                 sf_seen_ids := insert i (sf_seen_ids m), sf_seen_order := sf_seen_order m @ [i]\<rparr>
      in if sf_dedupe_window m1 < length (sf_seen_order m1)
         then m1\<lparr>sf_seen_ids := sf_seen_ids m1 - {hd (sf_seen_order m1)}, sf_seen_order := tl (sf_seen_order m1)\<rparr>
         else m1)"

definition self_metrics_reset :: "self_metrics \<Rightarrow> self_metrics" where
  "self_metrics_reset m =
     m\<lparr>sf_observed := 0, sf_stale := 0, sf_duplicate := 0, sf_last_event_sequence := 0,
       sf_seen_ids := {}, sf_seen_order := []\<rparr>"

section \<open>The aggregator\<close>

record metrics_delta =
  mdl_event :: runtime_event
  mdl_sequence :: "int option"
  mdl_last_sequence :: int
  mdl_changes :: "(string, int) dict"
  mdl_duration_added :: "real option"
  mdl_coroutine_name :: "string option"
  mdl_terminal_state :: "string option"

text \<open>A listener is represented by whether it raises on a delta.\<close>

record metrics_aggregator =
  mx_last_sequence :: int
  mx_aggregates :: aggregates
  mx_tasks :: rate_meter
  mx_completions :: rate_meter
  mx_cancellations :: rate_meter
  mx_failures :: rate_meter
  mx_next_id :: int
  mx_listeners :: "(int, metrics_delta \<Rightarrow> bool) dict"
  mx_self :: self_metrics

definition new_aggregator :: "nat \<Rightarrow> nat \<Rightarrow> metrics_aggregator option" where
  "new_aggregator window capacity =
     (case (new_rate_meter window, new_durations capacity) of
        (Some m, Some d) \<Rightarrow>
          Some \<lparr>mx_last_sequence = 0,
                mx_aggregates = \<lparr>ag_counts = [], ag_by_origin = [], ag_coroutines = [], ag_completed = d,
                                 ag_cancelled = d, ag_failed = d, ag_overall = d\<rparr>,
                mx_tasks = m, mx_completions = m, mx_cancellations = m, mx_failures = m,
                mx_next_id = 0, mx_listeners = [], mx_self = new_self_metrics 4096\<rparr>
      | _ \<Rightarrow> None)"

definition observe_rates :: "metrics_intent \<Rightarrow> real \<Rightarrow> metrics_aggregator \<Rightarrow> metrics_aggregator option" where
  "observe_rates i seconds a =
     (case i of
        MCreate \<Rightarrow> map_option (\<lambda>m. a\<lparr>mx_tasks := m\<rparr>) (meter_observe seconds 1 (mx_tasks a))
      | MComplete \<Rightarrow> map_option (\<lambda>m. a\<lparr>mx_completions := m\<rparr>) (meter_observe seconds 1 (mx_completions a))
      | MCancel \<Rightarrow> map_option (\<lambda>m. a\<lparr>mx_cancellations := m\<rparr>) (meter_observe seconds 1 (mx_cancellations a))
      | MFail \<Rightarrow> map_option (\<lambda>m. a\<lparr>mx_failures := m\<rparr>) (meter_observe seconds 1 (mx_failures a))
      | _ \<Rightarrow> Some a)"

definition metrics_notify :: "metrics_delta \<Rightarrow> metrics_aggregator \<Rightarrow> metrics_aggregator" where
  "metrics_notify delta a =
     (let failures = length (filter (\<lambda>raises. raises delta) (dvals (mx_listeners a))) in
      a\<lparr>mx_self := (mx_self a)\<lparr>sf_dispatches := sf_dispatches (mx_self a) + 1,
                              sf_dispatch_failures := sf_dispatch_failures (mx_self a) + failures\<rparr>\<rparr>)"

datatype metrics_result = NotApplied | Observed metrics_delta | MeterIndexError

text \<open>An \<open>IndexError\<close> of the meter leaves the counters already updated and the event unrecorded.\<close>

definition metrics_apply ::
    "rngs \<Rightarrow> runtime_event \<Rightarrow> int option \<Rightarrow> metrics_aggregator \<Rightarrow> metrics_result \<times> metrics_aggregator" where
  "metrics_apply rngs e sequence a =
     (let n = metrics_normalize e sequence; self = mx_self a in
      if me_intent n = MIgnore then (NotApplied, a)
      else if me_event_id n \<in> sf_seen_ids self
      then (NotApplied, a\<lparr>mx_self := self\<lparr>sf_duplicate := sf_duplicate self + 1\<rparr>\<rparr>)
      else if (case sequence of Some k \<Rightarrow> k \<le> mx_last_sequence a | None \<Rightarrow> False)
      then (NotApplied, a\<lparr>mx_self := self\<lparr>sf_stale := sf_stale self + 1\<rparr>\<rparr>)
      else
        let (out, g) = apply_lifecycle rngs n (mx_aggregates a); a1 = a\<lparr>mx_aggregates := g\<rparr> in
        (case observe_rates (me_intent n) (real_of_int (ev_monotonic_ns e) / 10 ^ 9) a1 of
           None \<Rightarrow> (MeterIndexError, a1)
         | Some a2 \<Rightarrow>
             let a3 = a2\<lparr>mx_self := record_observed sequence (me_event_id n) (mx_self a2),
                         mx_last_sequence := newest sequence (mx_last_sequence a2)\<rparr>;
                 delta = \<lparr>mdl_event = e, mdl_sequence = sequence, mdl_last_sequence = mx_last_sequence a3,
                          mdl_changes = ro_changes out, mdl_duration_added = ro_duration_added out,
                          mdl_coroutine_name = me_coroutine_name n, mdl_terminal_state = ro_terminal_state out\<rparr>
             in (Observed delta, metrics_notify delta a3)))"

definition apply_state_change :: "rngs \<Rightarrow> state_change \<Rightarrow> metrics_aggregator \<Rightarrow> metrics_result \<times> metrics_aggregator" where
  "apply_state_change rngs c = metrics_apply rngs (sc_event c) (sc_sequence c)"

text \<open>What \<open>CancellationStormDetector\<close> reads; the reading moves the meter.\<close>

definition cancellation_rate :: "real \<Rightarrow> metrics_aggregator \<Rightarrow> rate_snapshot \<times> metrics_aggregator" where
  "cancellation_rate seconds a =
     (let (r, m) = meter_snapshot (Some seconds) (mx_cancellations a) in (r, a\<lparr>mx_cancellations := m\<rparr>))"

definition metrics_subscribe :: "(metrics_delta \<Rightarrow> bool) \<Rightarrow> metrics_aggregator \<Rightarrow> int \<times> metrics_aggregator" where
  "metrics_subscribe l a =
     (let i = mx_next_id a + 1 in (i, a\<lparr>mx_next_id := i, mx_listeners := dset i l (mx_listeners a)\<rparr>))"

definition metrics_unsubscribe :: "int \<Rightarrow> metrics_aggregator \<Rightarrow> bool \<times> metrics_aggregator" where
  "metrics_unsubscribe i a =
     (dget (mx_listeners a) i \<noteq> None, a\<lparr>mx_listeners := dpop i (mx_listeners a)\<rparr>)"

definition aggregates_reset :: "aggregates \<Rightarrow> aggregates" where
  "aggregates_reset g =
     \<lparr>ag_counts = [], ag_by_origin = [], ag_coroutines = [], ag_completed = durations_reset (ag_completed g),
      ag_cancelled = durations_reset (ag_cancelled g), ag_failed = durations_reset (ag_failed g),
      ag_overall = durations_reset (ag_overall g)\<rparr>"

definition reset_aggregator :: "metrics_aggregator \<Rightarrow> metrics_aggregator" where
  "reset_aggregator a =
     a\<lparr>mx_aggregates := aggregates_reset (mx_aggregates a), mx_tasks := meter_reset (mx_tasks a),
       mx_completions := meter_reset (mx_completions a), mx_cancellations := meter_reset (mx_cancellations a),
       mx_failures := meter_reset (mx_failures a), mx_self := self_metrics_reset (mx_self a),
       mx_last_sequence := 0\<rparr>"

text \<open>The replay stops at the first exception, before the rebuild is counted.\<close>

fun replay_metrics ::
    "rngs \<Rightarrow> (runtime_event \<times> int option) list \<Rightarrow> metrics_aggregator \<Rightarrow> nat option \<times> metrics_aggregator" where
  "replay_metrics rngs [] a = (Some 0, a)"
| "replay_metrics rngs ((e, s) # es) a =
     (case metrics_apply rngs e s a of
        (MeterIndexError, a') \<Rightarrow> (None, a')
      | (r, a') \<Rightarrow>
          let (n, a'') = replay_metrics rngs es a' in
          (map_option (\<lambda>k. if r = NotApplied then k else k + 1) n, a''))"

definition metrics_rebuild ::
    "rngs \<Rightarrow> (runtime_event \<times> int option) list \<Rightarrow> metrics_aggregator \<Rightarrow> nat option \<times> metrics_aggregator" where
  "metrics_rebuild rngs es a =
     (case replay_metrics rngs es (reset_aggregator a) of
        (None, a') \<Rightarrow> (None, a')
      | (Some n, a') \<Rightarrow> (Some n, a'\<lparr>mx_self := (mx_self a')\<lparr>sf_rebuilds := sf_rebuilds (mx_self a') + 1\<rparr>\<rparr>))"

section \<open>Projections over the registry\<close>

record coroutine_row =
  cr_coroutine_name :: string
  cr_task_count :: nat
  cr_active_count :: nat
  cr_completed_count :: nat
  cr_cancelled_count :: nat
  cr_failed_count :: nat
  cr_completed_total :: real
  cr_completed_avg :: "real option"
  cr_max_duration :: "real option"

text \<open>\<open>grouped[key].append(x)\<close>.\<close>

definition group_add :: "'k \<Rightarrow> 'a \<Rightarrow> ('k, 'a list) dict \<Rightarrow> ('k, 'a list) dict" where
  "group_add k x d = dset k (dget_or [] d k @ [x]) d"

definition group_tasks :: "('a \<Rightarrow> 'k) \<Rightarrow> 'a list \<Rightarrow> ('k, 'a list) dict" where
  "group_tasks key xs = fold (\<lambda>x. group_add (key x) x) xs []"

definition greatest :: "real list \<Rightarrow> real option" where
  "greatest xs = (if xs = [] then None else Some (Max (set xs)))"

definition row_of :: "string \<Rightarrow> task_snapshot list \<Rightarrow> coroutine_row" where
  "row_of name ts =
     (let in_state = (\<lambda>s. filter (\<lambda>t. rt_state t = s) ts);
          durations = List.map_filter rt_duration_seconds;
          finished = durations (in_state COMPLETED) in
      \<lparr>cr_coroutine_name = name, cr_task_count = length ts,
       cr_active_count = length (filter (\<lambda>t. rt_state t \<in> {CREATED, RUNNING, WAITING}) ts),
       cr_completed_count = length (in_state COMPLETED), cr_cancelled_count = length (in_state CANCELLED),
       cr_failed_count = length (in_state FAILED), cr_completed_total = sum_list finished,
       cr_completed_avg = (if finished = [] then None else Some (sum_list finished / real (length finished))),
       cr_max_duration = greatest (durations ts)\<rparr>)"

definition aggregate_coroutine_groups :: "task_snapshot list \<Rightarrow> coroutine_row list" where
  "aggregate_coroutine_groups ts =
     sort_key (\<lambda>r. - int (cr_task_count r))
       (sort_key cr_coroutine_name
          (map (\<lambda>(name, g). row_of name g)
             (group_tasks (\<lambda>t. or_name ''<anonymous>'' (rt_coroutine_name t)) ts)))"

text \<open>\<open>list.sort(reverse=True)\<close> keeps equal elements in their order.\<close>

definition longest_running_tasks :: "nat \<Rightarrow> task_snapshot list \<Rightarrow> task_snapshot list" where
  "longest_running_tasks limit ts =
     take limit (sort_key (\<lambda>t. - the (rt_duration_seconds t)) (filter (\<lambda>t. rt_duration_seconds t \<noteq> None) ts))"

definition shortest_running_tasks :: "nat \<Rightarrow> task_snapshot list \<Rightarrow> task_snapshot list" where
  "shortest_running_tasks limit ts =
     take limit (sort_key (\<lambda>t. the (rt_duration_seconds t)) (filter (\<lambda>t. rt_duration_seconds t \<noteq> None) ts))"

record lineage_aggregate =
  la_root_count :: nat
  la_max_depth :: nat
  la_average_fanout :: real
  la_largest_tree_size :: int
  la_largest_tree_root_id :: "task_id option"
  la_cancellations_propagated :: nat

definition count_keys :: "'k list \<Rightarrow> ('k, int) dict" where
  "count_keys ks = fold (\<lambda>k d. dset k (dget_or 0 d k + 1) d) ks []"

text \<open>\<open>max(d, key=lambda k: d[k])\<close>: the first of the greatest.\<close>

fun first_max :: "('k \<times> int) list \<Rightarrow> ('k \<times> int) option" where
  "first_max [] = None"
| "first_max (p # ps) =
     (case first_max ps of None \<Rightarrow> Some p | Some q \<Rightarrow> Some (if snd p < snd q then q else p))"

definition root_key :: "task_snapshot \<Rightarrow> task_id" where
  "root_key t = or_name (rt_task_id t) (rt_root_task_id t)"

definition aggregate_lineage :: "task_snapshot list \<Rightarrow> lineage_aggregate" where
  "aggregate_lineage ts =
     (if ts = []
      then \<lparr>la_root_count = 0, la_max_depth = 0, la_average_fanout = 0, la_largest_tree_size = 0,
            la_largest_tree_root_id = None, la_cancellations_propagated = 0\<rparr>
      else
        let parents = count_keys (List.map_filter rt_parent_task_id ts);
            trees = count_keys (map root_key ts); largest = map_option fst (first_max trees) in
        \<lparr>la_root_count = length (filter (\<lambda>t. rt_parent_task_id t = None) ts),
         la_max_depth = Max (set (map rt_depth ts)),
         la_average_fanout =
           (if parents = [] then 0 else real_of_int (sum_list (dvals parents)) / real (length parents)),
         la_largest_tree_size =
           (case largest of None \<Rightarrow> 0 | Some r \<Rightarrow> if r = [] then 0 else dget_or 0 trees r),
         la_largest_tree_root_id = largest,
         la_cancellations_propagated =
           length (filter (\<lambda>t. rt_cancellation_origin t = Some ''parent'') ts)\<rparr>)"

section \<open>The snapshot\<close>

record task_counts =
  tc_total :: int
  tc_active :: int
  tc_waiting :: int
  tc_completed :: int
  tc_cancelled :: int
  tc_failed :: int
  tc_terminal :: int

record metrics_aggregate_snapshot =
  as_last_sequence :: int
  as_counts :: task_counts
  as_tasks_rate :: rate_snapshot
  as_completions_rate :: rate_snapshot
  as_cancellations_rate :: rate_snapshot
  as_failures_rate :: rate_snapshot
  as_completed :: duration_snapshot
  as_cancelled :: duration_snapshot
  as_failed :: duration_snapshot
  as_overall :: duration_snapshot
  as_coroutines :: "coroutine_row list"
  as_lineage :: lineage_aggregate
  as_by_origin :: counter_set
  as_longest :: "task_snapshot list"
  as_shortest :: "task_snapshot list"
  as_self :: self_metrics

definition counts_model :: "counter_set \<Rightarrow> task_counts" where
  "counts_model c =
     \<lparr>tc_total = counter_get c ''total'', tc_active = counter_get c ''active'',
      tc_waiting = counter_get c ''waiting'', tc_completed = counter_get c ''completed'',
      tc_cancelled = counter_get c ''cancelled'', tc_failed = counter_get c ''failed'',
      tc_terminal = counter_get c ''terminal''\<rparr>"

text \<open>\<open>uptime\<close> is \<open>clock.runtime_uptime()\<close>, seconds since the start of the process's runtime.\<close>

definition metrics_snapshot_at ::
    "real \<Rightarrow> task_snapshot list \<Rightarrow> metrics_aggregator \<Rightarrow> metrics_aggregate_snapshot \<times> metrics_aggregator" where
  "metrics_snapshot_at uptime ts a =
     (let a1 = a\<lparr>mx_self := (mx_self a)\<lparr>sf_snapshots := sf_snapshots (mx_self a) + 1\<rparr>\<rparr>;
          (r1, m1) = meter_snapshot (Some uptime) (mx_tasks a1);
          (r2, m2) = meter_snapshot (Some uptime) (mx_completions a1);
          (r3, m3) = meter_snapshot (Some uptime) (mx_cancellations a1);
          (r4, m4) = meter_snapshot (Some uptime) (mx_failures a1);
          g = mx_aggregates a1
      in (\<lparr>as_last_sequence = mx_last_sequence a1, as_counts = counts_model (ag_counts g),
           as_tasks_rate = r1, as_completions_rate = r2, as_cancellations_rate = r3, as_failures_rate = r4,
           as_completed = duration_snapshot_of (ag_completed g),
           as_cancelled = duration_snapshot_of (ag_cancelled g),
           as_failed = duration_snapshot_of (ag_failed g), as_overall = duration_snapshot_of (ag_overall g),
           as_coroutines = aggregate_coroutine_groups ts, as_lineage = aggregate_lineage ts,
           as_by_origin = ag_by_origin g, as_longest = longest_running_tasks 10 ts,
           as_shortest = shortest_running_tasks 10 ts, as_self = mx_self a1\<rparr>,
          a1\<lparr>mx_tasks := m1, mx_completions := m2, mx_cancellations := m3, mx_failures := m4\<rparr>))"

section \<open>Percentiles\<close>

lemma percentile_single [simp]: "percentile [x] q = x"
  by (simp add: percentile_def)

text \<open>The value at the fractional position \<open>pos\<close>.\<close>

definition value_at :: "real list \<Rightarrow> real \<Rightarrow> real" where
  "value_at xs pos =
     (let lo = nat \<lfloor>pos\<rfloor>; hi = min (lo + 1) (length xs - 1); frac = pos - real lo
      in xs ! lo * (1 - frac) + xs ! hi * frac)"

lemma percentile_value_at:
  assumes "2 \<le> length xs" "0 \<le> q"
  shows "percentile xs q = value_at xs (q * (real (length xs) - 1))"
proof -
  have "0 \<le> q * (real (length xs) - 1)" using assms by simp
  then show ?thesis using assms
    by (cases xs) (auto simp: percentile_def value_at_def py_int_def Let_def)
qed

lemma value_between:
  assumes "sorted xs" "0 \<le> pos" "pos \<le> real (length xs - 1)" "xs \<noteq> []"
  shows "xs ! nat \<lfloor>pos\<rfloor> \<le> value_at xs pos"
    and "value_at xs pos \<le> xs ! min (nat \<lfloor>pos\<rfloor> + 1) (length xs - 1)"
    and "nat \<lfloor>pos\<rfloor> < length xs"
proof -
  let ?lo = "nat \<lfloor>pos\<rfloor>"
  have lo: "?lo \<le> length xs - 1" using assms(2,3) by linarith
  then show len: "?lo < length xs" using assms(4) by (cases xs) auto
  have frac: "0 \<le> pos - real ?lo" "pos - real ?lo < 1" using assms(2) by linarith+
  let ?hi = "min (?lo + 1) (length xs - 1)"
  have "?hi < length xs" using assms(4) by (cases xs) auto
  then have step: "xs ! ?lo \<le> xs ! ?hi" using lo by (intro sorted_nth_mono[OF assms(1)]) auto
  have eq: "value_at xs pos = xs ! ?lo + (xs ! ?hi - xs ! ?lo) * (pos - real ?lo)"
    by (simp add: value_at_def Let_def algebra_simps)
  have "0 \<le> (xs ! ?hi - xs ! ?lo) * (pos - real ?lo)" using step frac by simp
  then show "xs ! ?lo \<le> value_at xs pos" using eq by linarith
  have "(xs ! ?hi - xs ! ?lo) * (pos - real ?lo) \<le> xs ! ?hi - xs ! ?lo"
    using step frac by (intro mult_left_le) auto
  then show "value_at xs pos \<le> xs ! ?hi" using eq by linarith
qed

lemma value_at_mono:
  assumes "sorted xs" "0 \<le> p" "p \<le> q" "q \<le> real (length xs - 1)" "xs \<noteq> []"
  shows "value_at xs p \<le> value_at xs q"
proof (cases "\<lfloor>p\<rfloor> = \<lfloor>q\<rfloor>")
  case True
  let ?lo = "nat \<lfloor>p\<rfloor>"
  let ?hi = "min (?lo + 1) (length xs - 1)"
  have "?lo \<le> length xs - 1" using assms(2-4) by linarith
  moreover have "?hi < length xs" using assms(5) by (cases xs) auto
  ultimately have "xs ! ?lo \<le> xs ! ?hi" by (intro sorted_nth_mono[OF assms(1)]) auto
  then have "(xs ! ?hi - xs ! ?lo) * (p - real ?lo) \<le> (xs ! ?hi - xs ! ?lo) * (q - real ?lo)"
    using assms(3) by (intro mult_left_mono) auto
  moreover have "value_at xs p = xs ! ?lo + (xs ! ?hi - xs ! ?lo) * (p - real ?lo)"
    "value_at xs q = xs ! ?lo + (xs ! ?hi - xs ! ?lo) * (q - real ?lo)"
    by (simp_all add: value_at_def Let_def True[symmetric] algebra_simps)
  ultimately show ?thesis by linarith
next
  case False
  then have less: "nat \<lfloor>p\<rfloor> + 1 \<le> nat \<lfloor>q\<rfloor>" using assms(2,3) by linarith
  have q: "nat \<lfloor>q\<rfloor> < length xs" using value_between(3)[OF assms(1) _ assms(4,5)] assms(2,3) by linarith
  have "value_at xs p \<le> xs ! min (nat \<lfloor>p\<rfloor> + 1) (length xs - 1)"
    using value_between(2)[of xs p] assms by auto
  also have "\<dots> \<le> xs ! nat \<lfloor>q\<rfloor>" using less q by (intro sorted_nth_mono[OF assms(1)]) auto
  also have "\<dots> \<le> value_at xs q" using value_between(1)[of xs q] assms by auto
  finally show ?thesis .
qed

lemma percentile_mono:
  assumes "sorted xs" "xs \<noteq> []" "0 \<le> p" "p \<le> q" "q \<le> 1"
  shows "hd xs \<le> percentile xs p" "percentile xs p \<le> percentile xs q" "percentile xs q \<le> last xs"
proof -
  have "hd xs \<le> percentile xs p \<and> percentile xs p \<le> percentile xs q \<and> percentile xs q \<le> last xs"
  proof (cases "length xs = 1")
    case True
    then obtain x where "xs = [x]" by (metis One_nat_def length_0_conv length_Suc_conv)
    then show ?thesis by simp
  next
    case False
    then have two: "2 \<le> length xs" using assms(2) by (cases xs) (auto simp: Suc_le_eq)
    let ?n = "real (length xs) - 1"
    have n: "?n = real (length xs - 1)" "0 \<le> ?n" using two by (auto simp: of_nat_diff)
    have pos: "0 \<le> p * ?n" "p * ?n \<le> q * ?n" "q * ?n \<le> real (length xs - 1)"
      using assms(3-5) n by (auto simp: mult_right_mono mult_left_le_one_le)
    have lo: "hd xs \<le> xs ! nat \<lfloor>p * ?n\<rfloor>"
      using value_between(3)[OF assms(1) pos(1) _ assms(2)] pos assms(1,2)
      by (simp add: hd_conv_nth sorted_nth_mono)
    have hi: "xs ! min (nat \<lfloor>q * ?n\<rfloor> + 1) (length xs - 1) \<le> last xs"
      using assms(1,2) two by (auto simp: last_conv_nth intro!: sorted_nth_mono)
    have "xs ! nat \<lfloor>p * ?n\<rfloor> \<le> value_at xs (p * ?n)"
      using value_between(1)[OF assms(1) pos(1) _ assms(2)] pos by linarith
    moreover have "value_at xs (p * ?n) \<le> value_at xs (q * ?n)"
      by (rule value_at_mono[OF assms(1) pos assms(2)])
    moreover have "value_at xs (q * ?n) \<le> xs ! min (nat \<lfloor>q * ?n\<rfloor> + 1) (length xs - 1)"
      using value_between(2)[OF assms(1) _ pos(3) assms(2)] pos by linarith
    ultimately show ?thesis
      using lo hi percentile_value_at[OF two] assms(3,4) by (auto intro: order_trans)
  qed
  then show "hd xs \<le> percentile xs p" "percentile xs p \<le> percentile xs q" "percentile xs q \<le> last xs"
    by blast+
qed

text \<open>A histogram that has observed \<open>vs\<close>, all non-negative, since its last reset.\<close>

definition histogram_of :: "real list \<Rightarrow> histogram \<Rightarrow> bool" where
  "histogram_of vs h \<longleftrightarrow>
     1 \<le> hg_capacity h \<and> hg_count h = length vs \<and> hg_sum h = sum_list vs \<and>
     hg_min h = (if vs = [] then None else Some (Min (set vs))) \<and>
     hg_max h = (if vs = [] then None else Some (Max (set vs))) \<and>
     length (hg_reservoir h) = min (length vs) (hg_capacity h) \<and> set (hg_reservoir h) \<subseteq> set vs \<and>
     (length vs \<le> hg_capacity h \<longrightarrow> hg_reservoir h = vs)"

lemma lower_of_Min: "lower_of v (if vs = [] then None else Some (Min (set vs))) = Some (Min (set (vs @ [v])))"
proof (cases "vs = []")
  case False
  then have "Min (set (vs @ [v])) = min v (Min (set vs))" by simp
  moreover have "lower_of v (Some w) = Some (min v w)" for w by (auto simp: lower_of_def)
  ultimately show ?thesis using False by presburger
qed (simp add: lower_of_def)

lemma upper_of_Max: "upper_of v (if vs = [] then None else Some (Max (set vs))) = Some (Max (set (vs @ [v])))"
proof (cases "vs = []")
  case False
  then have "Max (set (vs @ [v])) = max v (Max (set vs))" by simp
  moreover have "upper_of v (Some w) = Some (max v w)" for w by (auto simp: upper_of_def)
  ultimately show ?thesis using False by presburger
qed (simp add: upper_of_def)

lemma histogram_of_observe:
  assumes "histogram_of vs h" "0 \<le> v"
  shows "histogram_of (vs @ [v]) (histogram_observe rng v h)"
    and "hg_capacity (histogram_observe rng v h) = hg_capacity h"
proof -
  let ?j = "rng (hg_draws h) (length vs + 1)"
  have upd: "set ((hg_reservoir h)[?j := v]) \<subseteq> set (vs @ [v])"
    using set_update_subset_insert[of "hg_reservoir h" ?j v] assms(1) by (auto simp: histogram_of_def)
  show "hg_capacity (histogram_observe rng v h) = hg_capacity h"
    by (simp add: histogram_observe_def Let_def)
  show "histogram_of (vs @ [v]) (histogram_observe rng v h)"
  proof (cases "length (hg_reservoir h) < hg_capacity h")
    case True
    then have "hg_reservoir h = vs" "length vs < hg_capacity h" using assms(1) by (auto simp: histogram_of_def)
    then show ?thesis using assms True
      by (simp add: histogram_of_def histogram_observe_def Let_def lower_of_Min upper_of_Max)
  next
    case False
    then have full: "hg_capacity h \<le> length vs" "length (hg_reservoir h) = hg_capacity h"
      using assms(1) by (auto simp: histogram_of_def)
    have same: "set (hg_reservoir h) \<subseteq> set (vs @ [v])" using assms(1) by (auto simp: histogram_of_def)
    show ?thesis using assms False full upd same
      by (cases "?j < hg_capacity h")
        (simp_all add: histogram_of_def histogram_observe_def Let_def lower_of_Min upper_of_Max del: set_append)
  qed
qed

lemma histogram_of_fold:
  "histogram_of vs h \<Longrightarrow> histogram_of (vs @ filter (\<lambda>v. 0 \<le> v) us) (fold (histogram_observe rng) us h) \<and>
     hg_capacity (fold (histogram_observe rng) us h) = hg_capacity h"
proof (induction us arbitrary: vs h)
  case (Cons u us)
  show ?case
  proof (cases "0 \<le> u")
    case True
    show ?thesis using Cons.IH[OF histogram_of_observe(1)[OF Cons.prems True, of rng]] True
        histogram_of_observe(2)[OF Cons.prems True, of rng] by simp
  next
    case False
    then show ?thesis using Cons.IH[OF Cons.prems] by (simp add: histogram_observe_def)
  qed
qed simp

text \<open>A histogram's summary is ordered and honest. After any observations, of which the negative ones are ignored, the
  count, sum, minimum and maximum are those of all the observations, the number of samples is the lesser of their number and
  the capacity, and the percentiles, interpolated in whatever sample the random numbers left, lie in order between the
  minimum and the maximum, as the mean does; while the reservoir is not full the sample is all of the observations.
\<close>

theorem percentiles_are_ordered:
  assumes "new_histogram capacity = Some h0"
    and "vs = filter (\<lambda>v. 0 \<le> v) us" and "vs \<noteq> []"
    and "s = histogram_snapshot_of (fold (histogram_observe rng) us h0)"
  shows "hs_count s = length vs \<and> hs_sum_value s = sum_list vs \<and> hs_min_value s = Min (set vs) \<and>
    hs_max_value s = Max (set vs) \<and> hs_samples s = min (length vs) capacity \<and>
    hs_min_value s \<le> hs_p50 s \<and> hs_p50 s \<le> hs_p95 s \<and> hs_p95 s \<le> hs_p99 s \<and> hs_p99 s \<le> hs_max_value s \<and>
    hs_min_value s \<le> hs_mean s \<and> hs_mean s \<le> hs_max_value s \<and>
    (length vs \<le> capacity \<longrightarrow> hg_reservoir (fold (histogram_observe rng) us h0) = vs)"
proof -
  define h where "h = fold (histogram_observe rng) us h0"
  have "histogram_of [] h0" "hg_capacity h0 = capacity"
    using assms(1) by (auto simp: new_histogram_def histogram_of_def split: if_splits)
  then have h: "histogram_of vs h" "hg_capacity h = capacity"
    using histogram_of_fold[of "[]" h0 us rng] assms(2) by (simp_all add: h_def)
  let ?xs = "sort (hg_reservoir h)"
  have res: "1 \<le> capacity" "hg_count h = length vs" "hg_count h \<noteq> 0" "set (hg_reservoir h) \<subseteq> set vs"
    "hg_min h = Some (Min (set vs))" "hg_max h = Some (Max (set vs))" "hg_sum h = sum_list vs"
    "length (hg_reservoir h) = min (length vs) capacity" "length vs \<le> capacity \<longrightarrow> hg_reservoir h = vs"
    using h assms(3) by (auto simp: histogram_of_def)
  have ne: "?xs \<noteq> []" using res(1,8) assms(3) by (metis Suc_le_eq One_nat_def length_0_conv length_sort min_def neq0_conv not_less_zero)
  have "hd ?xs \<in> set vs" "last ?xs \<in> set vs" using ne res(4) by (metis hd_in_set last_in_set set_sort subsetD)+
  then have ends: "Min (set vs) \<le> hd ?xs" "last ?xs \<le> Max (set vs)" by simp_all
  have p: "hd ?xs \<le> percentile ?xs (1 / 2)" "percentile ?xs (1 / 2) \<le> percentile ?xs (19 / 20)"
    "percentile ?xs (19 / 20) \<le> percentile ?xs (99 / 100)" "percentile ?xs (99 / 100) \<le> last ?xs"
    using percentile_mono[of ?xs "1 / 2" "19 / 20"] percentile_mono[of ?xs "19 / 20" "99 / 100"] ne by auto
  have n: "0 < real (length vs)" using assms(3) by simp
  have "real (length vs) * Min (set vs) \<le> sum_list vs" "sum_list vs \<le> real (length vs) * Max (set vs)"
    using sum_list_mono[of vs "\<lambda>_. Min (set vs)" id] sum_list_mono[of vs id "\<lambda>_. Max (set vs)"]
    by (auto simp: sum_list_triv)
  then have "Min (set vs) \<le> sum_list vs / real (length vs)" "sum_list vs / real (length vs) \<le> Max (set vs)"
    using n by (simp_all add: field_simps)
  then show ?thesis
    using assms(4) res ends p unfolding h_def[symmetric]
    by (simp add: histogram_snapshot_of_def Let_def)
qed

theorem percentiles_are_ordered_witness:
  "\<exists>h0. new_histogram 3 = Some h0 \<and>
     hs_p50 (histogram_snapshot_of (fold (histogram_observe (\<lambda>_ _. 1)) [4, - 1, 2, 9, 7] h0)) \<le> 9"
proof -
  obtain h0 where h0: "new_histogram 3 = Some h0" by (simp add: new_histogram_def)
  have "filter (\<lambda>v. 0 \<le> v) [4, - 1, 2, 9, 7 :: real] = [4, 2, 9, 7]" by simp
  from percentiles_are_ordered[OF h0 this[symmetric] _ refl, of "\<lambda>_ _. 1"] h0
  show ?thesis by (auto intro!: exI[of _ h0])
qed

section \<open>Rate meters are sliding windows\<close>

text \<open>A use of a meter: an observation or a reading, at a time in seconds.\<close>

datatype meter_call = MeterTick real | MeterRead real

fun meter_time :: "meter_call \<Rightarrow> real" where
  "meter_time (MeterTick t) = t"
| "meter_time (MeterRead t) = t"

fun meter_run :: "meter_call list \<Rightarrow> rate_meter \<Rightarrow> (real list \<times> rate_meter) option" where
  "meter_run [] m = Some ([], m)"
| "meter_run (MeterTick t # cs) m = Option.bind (meter_observe t 1 m) (meter_run cs)"
| "meter_run (MeterRead t # cs) m =
     (let (r, m') = meter_snapshot (Some t) m in
      map_option (\<lambda>(rs, m''). (rs_rate_per_second r # rs, m'')) (meter_run cs m'))"

text \<open>What the readings should be: the observations in the seconds after \<open>now - w\<close>, per second.\<close>

fun window_rates :: "nat \<Rightarrow> int list \<Rightarrow> meter_call list \<Rightarrow> real list" where
  "window_rates w seen [] = []"
| "window_rates w seen (MeterTick t # cs) = window_rates w (seen @ [py_int t]) cs"
| "window_rates w seen (MeterRead t # cs) =
     real (length (filter (\<lambda>x. py_int t - int w < x) seen)) / real w # window_rates w seen cs"

text \<open>No reading comes a whole window or more after the call before it.\<close>

fun reads_busy :: "nat \<Rightarrow> int option \<Rightarrow> meter_call list \<Rightarrow> bool" where
  "reads_busy w prev [] = True"
| "reads_busy w prev (MeterTick t # cs) = reads_busy w (Some (py_int t)) cs"
| "reads_busy w prev (MeterRead t # cs) =
     (case prev of
        None \<Rightarrow> reads_busy w None cs
      | Some s \<Rightarrow> py_int t - s < int w \<and> reads_busy w (Some (py_int t)) cs)"

lemma py_int_mono:
  assumes "x \<le> y"
  shows "py_int x \<le> py_int y"
proof (cases "0 \<le> x \<or> y < 0")
  case True
  then show ?thesis using assms by (auto simp: py_int_def floor_mono ceiling_mono)
next
  case False
  then have "py_int x \<le> 0" "0 \<le> py_int y" by (simp_all add: py_int_def ceiling_le_iff)
  then show ?thesis by linarith
qed

definition seen_at :: "int list \<Rightarrow> int \<Rightarrow> int" where
  "seen_at xs s = int (length (filter (\<lambda>x. x = s) xs))"

lemma seen_at_append [simp]: "seen_at (xs @ [y]) s = seen_at xs s + of_bool (y = s)"
  by (simp add: seen_at_def)

lemma seen_at_zero: "\<forall>x\<in>set xs. x < s \<Longrightarrow> seen_at xs s = 0"
  by (auto simp: seen_at_def filter_empty_conv)

text \<open>The \<open>i\<close>-th bucket from the right, zero beyond the left end.\<close>

definition bucket_back :: "int list \<Rightarrow> nat \<Rightarrow> int" where
  "bucket_back b i = (if i < length b then rev b ! i else 0)"

definition meter_matches :: "nat \<Rightarrow> int list \<Rightarrow> rate_meter \<Rightarrow> bool" where
  "meter_matches w xs m \<longleftrightarrow>
     1 \<le> w \<and> rm_window m = w \<and> rm_observations m = int (length xs) \<and>
     (case rm_start m of
        None \<Rightarrow> xs = [] \<and> rm_buckets m = []
      | Some s \<Rightarrow> (\<forall>x\<in>set xs. x \<le> s) \<and> length (rm_buckets m) \<le> w \<and>
          (\<forall>i<w. bucket_back (rm_buckets m) i = seen_at xs (s - int i)))"

lemma sum_seen_at: "(\<Sum>i<w. seen_at xs (s - int i)) = int (length (filter (\<lambda>x. s - int w < x \<and> x \<le> s) xs))"
proof (induction w)
  case (Suc w)
  have "length (filter (\<lambda>x. s - int (Suc w) < x \<and> x \<le> s) xs)
      = length (filter (\<lambda>x. s - int w < x \<and> x \<le> s) xs) + length (filter (\<lambda>x. x = s - int w) xs)"
    by (induction xs) auto
  then show ?case using Suc.IH by (simp add: seen_at_def)
qed (auto simp: filter_empty_conv)

lemma sum_rev_nth: "sum_list (b :: int list) = (\<Sum>i<length b. rev b ! i)"
  by (metis atLeast0LessThan length_rev sum_list_rev sum_list_sum_nth)

lemma meter_sum:
  assumes "meter_matches w xs m" "rm_start m = Some s"
  shows "sum_list (rm_buckets m) = int (length (filter (\<lambda>x. s - int w < x) xs))"
proof -
  let ?b = "rm_buckets m"
  have le: "length ?b \<le> w" and nth: "\<forall>i<w. bucket_back ?b i = seen_at xs (s - int i)"
    and upto: "\<forall>x\<in>set xs. x \<le> s"
    using assms by (simp_all add: meter_matches_def)
  have "(\<Sum>i<w. seen_at xs (s - int i)) = (\<Sum>i<w. bucket_back ?b i)"
    using nth by simp
  also have "\<dots> = (\<Sum>i<length ?b. rev ?b ! i)"
    using le by (intro sum.mono_neutral_cong_right) (auto simp: bucket_back_def)
  finally have "sum_list ?b = (\<Sum>i<w. seen_at xs (s - int i))" by (simp add: sum_rev_nth)
  moreover have "filter (\<lambda>x. s - int w < x \<and> x \<le> s) xs = filter (\<lambda>x. s - int w < x) xs"
    using upto by (auto intro: filter_cong)
  ultimately show ?thesis by (simp add: sum_seen_at)
qed

lemma rev_pad:
  assumes "length b \<le> w" "1 \<le> w"
  shows "rev (fold (ring_push w) (replicate g 0) b) = take w (replicate g 0 @ rev b)"
proof -
  have "length (b @ replicate g 0) - (length (b @ replicate g 0) - w) = min w (length b + g)" by simp
  then have "rev (take_last w (b @ replicate g 0)) = take (min w (length b + g)) (rev (b @ replicate g 0))"
    unfolding take_last_def rev_drop by presburger
  also have "\<dots> = take w (replicate g 0 @ rev b)" by (cases "w \<le> length b + g") (simp_all add: min_def)
  finally show ?thesis using fold_ring_push[OF assms(2,1), of "replicate g 0"] by simp
qed

text \<open>Advancing the meter's second, however it is done, keeps the match.\<close>

lemma meter_advance:
  assumes m: "meter_matches w xs m" "rm_start m = Some s" "s < s'"
    and b: "b = (if int w \<le> s' - s then b0 else pad_buckets (s' - s) m)" "b0 = [] \<or> b0 = [0]"
  shows "meter_matches w xs (m\<lparr>rm_buckets := b, rm_start := Some s'\<rparr>)"
proof -
  let ?c = "rm_buckets m"
  have w: "1 \<le> w" and le: "length ?c \<le> w" and upto: "\<forall>x\<in>set xs. x \<le> s"
    and nth: "\<And>i. i < w \<Longrightarrow> bucket_back ?c i = seen_at xs (s - int i)"
    using m(1,2) by (simp_all add: meter_matches_def)
  have "length b \<le> w \<and> bucket_back b i = seen_at xs (s' - int i)" if i: "i < w" for i
  proof (cases "int w \<le> s' - s")
    case True
    then have "\<forall>x\<in>set xs. x < s' - int i" using upto i by force
    then show ?thesis using True b w i by (auto simp: seen_at_zero bucket_back_def)
  next
    case False
    define g where "g = nat (s' - s)"
    have g: "s' = s + int g" "g < w" using m(3) False by (auto simp: g_def)
    have r: "rev b = take w (replicate g 0 @ rev ?c)"
      using False b(1) m(1) rev_pad[OF le w, of g] by (simp add: pad_buckets_def g_def meter_matches_def)
    then have lb: "length b = min w (g + length ?c)" by (metis length_append length_replicate length_rev length_take min.commute)
    show ?thesis
    proof (cases "i < g")
      case True
      then have "\<forall>x\<in>set xs. x < s' - int i" using upto g by force
      then show ?thesis using True i lb r by (simp add: seen_at_zero nth_append bucket_back_def)
    next
      case False
      then have "seen_at xs (s' - int i) = seen_at xs (s - int (i - g))" using g by (simp add: of_nat_diff algebra_simps)
      moreover have "i < length b \<longleftrightarrow> i - g < length ?c" "i < length b \<Longrightarrow> rev b ! i = rev ?c ! (i - g)"
        using False i lb r by (auto simp: nth_append)
      ultimately show ?thesis using nth[of "i - g"] i lb by (auto simp: bucket_back_def)
    qed
  qed
  moreover have "length b \<le> w" using calculation[of 0] w by simp
  ultimately show ?thesis using m upto by (auto simp: meter_matches_def)
qed

lemma meter_bump:
  assumes "meter_matches w xs m" "rm_start m = Some s" "rm_buckets m \<noteq> []"
  shows "meter_matches w (xs @ [s])
    (m\<lparr>rm_buckets := butlast (rm_buckets m) @ [last (rm_buckets m) + 1], rm_observations := rm_observations m + 1\<rparr>)"
proof -
  obtain c x where b: "rm_buckets m = c @ [x]" using assms(3) by (metis append_butlast_last_id)
  have "bucket_back (c @ [x + 1]) i = seen_at (xs @ [s]) (s - int i)" if "i < w" for i
  proof -
    have "bucket_back (c @ [x]) i = seen_at xs (s - int i)"
      using assms(1,2) that unfolding b[symmetric] meter_matches_def by simp
    then show ?thesis by (cases i) (auto simp: bucket_back_def)
  qed
  then show ?thesis using assms(1,2) b by (auto simp: meter_matches_def)
qed

lemma meter_matches_observe:
  assumes "meter_matches w xs m" "meter_observe t 1 m = Some m'" "\<And>s. rm_start m = Some s \<Longrightarrow> s \<le> py_int t"
  shows "meter_matches w (xs @ [py_int t]) m'" and "rm_start m' = Some (py_int t)" and "rm_buckets m' \<noteq> []"
proof -
  have w: "1 \<le> w" "rm_window m = w" using assms(1) by (simp_all add: meter_matches_def)
  obtain m1 where m1: "meter_matches w xs m1" "rm_start m1 = Some (py_int t)" "rm_buckets m1 \<noteq> []"
    "m' = m1\<lparr>rm_buckets := butlast (rm_buckets m1) @ [last (rm_buckets m1) + 1], rm_observations := rm_observations m1 + 1\<rparr>"
  proof (cases "rm_start m")
    case None
    then have "xs = []" "rm_buckets m = []" "rm_observations m = 0" using assms(1) by (simp_all add: meter_matches_def)
    then have "meter_matches w xs (m\<lparr>rm_start := Some (py_int t), rm_buckets := [0]\<rparr>)"
      using w by (auto simp: meter_matches_def seen_at_def nth_Cons' bucket_back_def)
    then show ?thesis using that[of "m\<lparr>rm_start := Some (py_int t), rm_buckets := [0]\<rparr>"] assms(2) None w
        \<open>rm_buckets m = []\<close> by (auto simp: meter_observe_def ring_push_def Let_def)
  next
    case (Some s)
    show ?thesis
    proof (cases "s < py_int t")
      case True
      let ?b = "if int w \<le> py_int t - s then [0] else pad_buckets (py_int t - s) m"
      have "meter_matches w xs (m\<lparr>rm_buckets := ?b, rm_start := Some (py_int t)\<rparr>)"
        by (rule meter_advance[OF assms(1) Some True refl]) simp
      then show ?thesis using that[of "m\<lparr>rm_buckets := ?b, rm_start := Some (py_int t)\<rparr>"] assms(2) Some w True
        by (auto simp: meter_observe_def Let_def split: if_splits)
    next
      case False
      then have "s = py_int t" using assms(3)[OF Some] by simp
      then show ?thesis using that[of m] assms(1,2) Some
        by (auto simp: meter_observe_def Let_def split: if_splits)
    qed
  qed
  then show "meter_matches w (xs @ [py_int t]) m'" "rm_start m' = Some (py_int t)" "rm_buckets m' \<noteq> []"
    using meter_bump[OF m1(1-3)] by simp_all
qed

lemma meter_matches_look:
  assumes "meter_matches w xs m" "\<And>s. rm_start m = Some s \<Longrightarrow> s \<le> py_int t" "meter_snapshot (Some t) m = (r, m')"
  shows "meter_matches w xs m'"
    and "rs_rate_per_second r = real (length (filter (\<lambda>x. py_int t - int w < x) xs)) / real w"
    and "rm_start m' = (if rm_start m = None then None else Some (py_int t))"
proof -
  have w: "1 \<le> w" "rm_window m = w" using assms(1) by (simp_all add: meter_matches_def)
  have "meter_matches w xs m' \<and> rs_rate_per_second r = real (length (filter (\<lambda>x. py_int t - int w < x) xs)) / real w \<and>
      rm_start m' = (if rm_start m = None then None else Some (py_int t))"
  proof (cases "rm_start m")
    case None
    then show ?thesis using assms w by (auto simp: meter_snapshot_def meter_matches_def)
  next
    case (Some s)
    define m1 where "m1 = (if s < py_int t
      then m\<lparr>rm_buckets := (if int (rm_window m) \<le> py_int t - s then [] else pad_buckets (py_int t - s) m),
             rm_start := Some (py_int t)\<rparr> else m)"
    have m1: "m' = m1" "rs_rate_per_second r = real_of_int (sum_list (rm_buckets m1)) / real (rm_window m1)"
      using assms(3) Some w by (auto simp: m1_def meter_snapshot_def Let_def split: if_splits)
    have "meter_matches w xs m1 \<and> rm_start m1 = Some (py_int t)"
      using meter_advance[OF assms(1) Some, of "py_int t" _ "[]"] assms(1) assms(2)[OF Some] Some w
      by (auto simp: m1_def)
    then show ?thesis using m1 meter_sum[of w xs m1 "py_int t"] Some by (auto simp: meter_matches_def)
  qed
  then show "meter_matches w xs m'"
    and "rs_rate_per_second r = real (length (filter (\<lambda>x. py_int t - int w < x) xs)) / real w"
    and "rm_start m' = (if rm_start m = None then None else Some (py_int t))"
    by blast+
qed

lemma pad_nonempty:
  assumes "1 \<le> rm_window m" "rm_buckets m \<noteq> []"
  shows "pad_buckets g m \<noteq> []"
proof -
  have "1 \<le> w \<Longrightarrow> b \<noteq> [] \<Longrightarrow> fold (ring_push w) xs b \<noteq> []" for w and xs b :: "int list"
    by (induction xs arbitrary: b) (auto simp: ring_push_def)
  then show ?thesis using assms unfolding pad_buckets_def by blast
qed

lemma meter_observe_busy:
  assumes "rm_start m = None \<or> rm_buckets m \<noteq> []" "1 \<le> rm_window m"
  shows "meter_observe t n m \<noteq> None"
  using assms pad_nonempty[OF assms(2)]
  by (auto simp: meter_observe_def Let_def ring_push_def split: option.splits)

lemma meter_snapshot_busy:
  assumes "meter_matches w xs m" "rm_buckets m \<noteq> []" "rm_start m = Some s" "py_int t - s < int w" "meter_snapshot (Some t) m = (r, m')"
  shows "rm_buckets m' \<noteq> []"
  using assms pad_nonempty[of m "py_int t - s"]
  by (auto simp: meter_snapshot_def meter_matches_def Let_def split: if_splits)

lemma meter_run_exact:
  assumes "meter_matches w xs m" "\<forall>c\<in>set cs. \<forall>s. rm_start m = Some s \<longrightarrow> s \<le> py_int (meter_time c)" "sorted (map meter_time cs)"
  shows "(\<forall>rates m'. meter_run cs m = Some (rates, m') \<longrightarrow> rates = window_rates w xs cs) \<and>
    (reads_busy w (rm_start m) cs \<and> (rm_start m = None \<or> rm_buckets m \<noteq> []) \<longrightarrow> meter_run cs m \<noteq> None)"
  using assms
proof (induction cs arbitrary: xs m)
  case (Cons c cs)
  show ?case
  proof (cases c)
    case (MeterTick t)
    have le: "rm_start m = Some s \<Longrightarrow> s \<le> py_int t" for s using Cons.prems(2) MeterTick by auto
    have w: "1 \<le> rm_window m" using Cons.prems(1) by (simp add: meter_matches_def)
    show ?thesis
    proof (cases "meter_observe t 1 m")
      case None
      then have "\<not> (rm_start m = None \<or> rm_buckets m \<noteq> [])" using meter_observe_busy[OF _ w, of t 1] by blast
      then show ?thesis using MeterTick None by simp
    next
      case (Some m1)
      note step = meter_matches_observe[OF Cons.prems(1) Some le]
      have "\<forall>c\<in>set cs. \<forall>s. rm_start m1 = Some s \<longrightarrow> s \<le> py_int (meter_time c)"
        using Cons.prems(3) step(2) MeterTick by (auto intro: py_int_mono)
      from Cons.IH[OF step(1) this] Cons.prems(3) step(2,3) MeterTick Some show ?thesis by auto
    qed
  next
    case (MeterRead t)
    have le: "rm_start m = Some s \<Longrightarrow> s \<le> py_int t" for s using Cons.prems(2) MeterRead by auto
    obtain r m1 where look: "meter_snapshot (Some t) m = (r, m1)" by fastforce
    note step = meter_matches_look[OF Cons.prems(1) le look]
    have "\<forall>c\<in>set cs. \<forall>s. rm_start m1 = Some s \<longrightarrow> s \<le> py_int (meter_time c)"
      using Cons.prems(3) step(3) MeterRead by (auto intro: py_int_mono)
    note IH = Cons.IH[OF step(1) this]
    have "reads_busy w (rm_start m1) cs \<and> (rm_start m1 = None \<or> rm_buckets m1 \<noteq> [])"
      if "reads_busy w (rm_start m) (c # cs)" "rm_start m = None \<or> rm_buckets m \<noteq> []"
      using that step(3) MeterRead meter_snapshot_busy[OF Cons.prems(1) _ _ _ look] by (auto split: option.splits)
    then show ?thesis using IH Cons.prems(3) MeterRead look step(2) by auto
  qed
qed simp

text \<open>C32: A rate meter is a sliding window. Over any observations and readings in order of time, every reading is the number of
  observations in the last \<open>window\<close> seconds, the current one included, divided by the window, whatever was read before; and
  as long as no reading comes a whole window or more after the call before it, every call returns.
\<close>

theorem rate_meter_is_a_sliding_window:
  assumes "new_rate_meter w = Some m" "sorted (map meter_time cs)"
  shows "(\<forall>rates m'. meter_run cs m = Some (rates, m') \<longrightarrow> rates = window_rates w [] cs) \<and>
    (reads_busy w None cs \<longrightarrow> meter_run cs m \<noteq> None)"
proof -
  have "meter_matches w [] m" "rm_start m = None"
    using assms(1) by (auto simp: new_rate_meter_def meter_matches_def split: if_splits)
  then show ?thesis using meter_run_exact[of w "[]" m cs] assms(2) by simp
qed

theorem rate_meter_is_a_sliding_window_witness:
  "\<exists>m m'. new_rate_meter 3 = Some m \<and> meter_run [MeterTick 10, MeterTick (21 / 2), MeterRead 12, MeterTick 12, MeterRead 13] m = Some ([2 / 3, 1 / 3], m')"
proof -
  obtain m where m: "new_rate_meter 3 = Some m" by (simp add: new_rate_meter_def)
  let ?cs = "[MeterTick 10, MeterTick (21 / 2), MeterRead 12, MeterTick 12, MeterRead 13]"
  have "reads_busy 3 None ?cs" by (simp add: py_int_def)
  then obtain rates m' where run: "meter_run ?cs m = Some (rates, m')"
    using rate_meter_is_a_sliding_window[OF m, of ?cs] by auto
  have "window_rates 3 [] ?cs = [2 / 3, 1 / 3]"
    by (simp add: py_int_def floor_divide_of_int_eq[symmetric] del: floor_divide_of_int_eq)
  with rate_meter_is_a_sliding_window[OF m, of ?cs] run m show ?thesis by auto
qed

end
