(* ===== verification/MetricsStore.thy ===== *)
theory MetricsStore
  imports Metrics
begin

text \<open>
  The metrics aggregator bound to the state store: its counters are the numbers of the store's tasks, what a
  reading after a silent window does to the next event, the rates a snapshot reports, and the coroutine table.
\<close>

section \<open>The counters follow the store\<close>

definition in_states :: "lifecycle \<Rightarrow> task_state set \<Rightarrow> int" where
  "in_states ls S = int (card {t. \<exists>s. ls t = Some s \<and> s \<in> S})"

lemma in_states_move:
  assumes "finite {t. ls t \<noteq> None}"
  shows "in_states (ls(k \<mapsto> v)) S = in_states ls S + of_bool (v \<in> S) - of_bool (\<exists>s. ls k = Some s \<and> s \<in> S)"
proof -
  let ?A = "{t. \<exists>s. ls t = Some s \<and> s \<in> S}"
  have fin: "finite ?A" by (rule finite_subset[OF _ assms]) auto
  have "{t. \<exists>s. (ls(k \<mapsto> v)) t = Some s \<and> s \<in> S} = (if v \<in> S then insert k ?A else ?A - {k})" by auto
  moreover have "int (card (insert k ?A)) = int (card ?A) + 1 - of_bool (k \<in> ?A)"
    using fin by (simp add: card_insert_if)
  moreover have "int (card (?A - {k})) = int (card ?A) - of_bool (k \<in> ?A)"
    using fin card_gt_0_iff[of ?A] by (auto simp: card_Diff_singleton_if of_nat_diff Suc_le_eq)
  ultimately show ?thesis unfolding in_states_def by (cases "v \<in> S") simp_all
qed

definition counts_match :: "counter_set \<Rightarrow> lifecycle \<Rightarrow> bool" where
  "counts_match c ls \<longleftrightarrow>
     finite {t. ls t \<noteq> None} \<and> counter_get c ''total'' = in_states ls UNIV \<and>
     counter_get c ''active'' = in_states ls {CREATED, RUNNING, WAITING} \<and>
     counter_get c ''completed'' = in_states ls {COMPLETED} \<and>
     counter_get c ''cancelled'' = in_states ls {CANCELLED} \<and>
     counter_get c ''failed'' = in_states ls {FAILED} \<and>
     counter_get c ''terminal'' = in_states ls TERMINAL_STATES"

lemma counter_get_inc [simp]: "counter_get (counter_inc k d c) j = counter_get c j + (if j = k then d else 0)"
  by (simp add: counter_get_def counter_inc_def dict_simps)

lemma counts_match_upd:
  assumes m: "counts_match c ls"
    and old: "ls k = None \<and> v = CREATED \<or> (\<exists>x. ls k = Some x \<and> x \<in> {CREATED, RUNNING, WAITING})"
    and c': "counter_get c' ''total'' = counter_get c ''total'' + of_bool (ls k = None)"
      "counter_get c' ''active'' = counter_get c ''active'' + of_bool (v \<in> {CREATED, RUNNING, WAITING}) - of_bool (ls k \<noteq> None)"
      "counter_get c' ''completed'' = counter_get c ''completed'' + of_bool (v = COMPLETED)"
      "counter_get c' ''cancelled'' = counter_get c ''cancelled'' + of_bool (v = CANCELLED)"
      "counter_get c' ''failed'' = counter_get c ''failed'' + of_bool (v = FAILED)"
      "counter_get c' ''terminal'' = counter_get c ''terminal'' + of_bool (v \<in> TERMINAL_STATES)"
  shows "counts_match c' (ls(k \<mapsto> v))"
proof -
  have fin: "finite {t. ls t \<noteq> None}" using m by (simp add: counts_match_def)
  have fin': "finite {t. (ls(k \<mapsto> v)) t \<noteq> None}"
    by (rule finite_subset[of _ "insert k {t. ls t \<noteq> None}"]) (use fin in auto)
  note move = in_states_move[OF fin, of k v]
  have gone: "(\<exists>s. ls k = Some s \<and> s \<in> S) = False" if "S \<inter> {CREATED, RUNNING, WAITING} = {}" for S
    using old that by auto
  have was: "(\<exists>s. ls k = Some s \<and> s \<in> {CREATED, RUNNING, WAITING}) = (ls k \<noteq> None)"
    "(\<exists>s. ls k = Some s \<and> s \<in> UNIV) = (ls k \<noteq> None)"
    using old by auto
  have "in_states (ls(k \<mapsto> v)) UNIV = in_states ls UNIV + of_bool (ls k = None)"
    unfolding move was by simp
  moreover have "in_states (ls(k \<mapsto> v)) {CREATED, RUNNING, WAITING}
      = in_states ls {CREATED, RUNNING, WAITING} + of_bool (v \<in> {CREATED, RUNNING, WAITING}) - of_bool (ls k \<noteq> None)"
    unfolding move was by (rule refl)
  moreover have "in_states (ls(k \<mapsto> v)) S = in_states ls S + of_bool (v \<in> S)"
    if "S \<inter> {CREATED, RUNNING, WAITING} = {}" for S
    unfolding move gone[OF that] by simp
  from this[of "{COMPLETED}"] this[of "{CANCELLED}"] this[of "{FAILED}"] this[of TERMINAL_STATES]
  have "in_states (ls(k \<mapsto> v)) {COMPLETED} = in_states ls {COMPLETED} + of_bool (v = COMPLETED)"
    "in_states (ls(k \<mapsto> v)) {CANCELLED} = in_states ls {CANCELLED} + of_bool (v = CANCELLED)"
    "in_states (ls(k \<mapsto> v)) {FAILED} = in_states ls {FAILED} + of_bool (v = FAILED)"
    "in_states (ls(k \<mapsto> v)) TERMINAL_STATES = in_states ls TERMINAL_STATES + of_bool (v \<in> TERMINAL_STATES)"
    by (simp_all add: TERMINAL_STATES_def)
  ultimately show ?thesis using m fin' c' unfolding counts_match_def by presburger
qed

lemma transition_source: "v \<in> TRANSITIONS x \<Longrightarrow> x \<in> {CREATED, RUNNING, WAITING}"
  by (cases x) auto

lemma counts_match_move:
  assumes m: "counts_match c ls" and acc: "lifecycle_accepts b ls"
    and step: "apply_lifecycle rngs (metrics_normalize e s) g = (out, g')" "ev_body e = b" "ag_counts g = c"
  shows "counts_match (ag_counts g') (lifecycle_move b ls)"
proof (cases "body_target b")
  case None
  then show ?thesis using m step
    by (cases b) (auto simp: apply_lifecycle_def metrics_normalize_def lifecycle_move_def Let_def)
next
  case (Some v)
  then obtain f where f: "body_fields b = Some f" by (cases b) auto
  let ?k = "te_task_id f"
  have "CREATED \<notin> TRANSITIONS x" for x by (cases x) auto
  moreover have "is_legal_transition (ls ?k) v" using acc Some f by (simp add: lifecycle_accepts_def)
  ultimately have cases: "ls ?k = None \<and> v = CREATED \<or> (\<exists>x. ls ?k = Some x \<and> v \<in> TRANSITIONS x \<and> v \<noteq> CREATED)"
    by (auto simp: is_legal_iff can_transition_def split: option.splits)
  then have old: "ls ?k = None \<and> v = CREATED \<or> (\<exists>x. ls ?k = Some x \<and> x \<in> {CREATED, RUNNING, WAITING})"
    and new: "ls ?k = None \<longleftrightarrow> v = CREATED"
    using transition_source by fastforce+
  have "counts_match (ag_counts g') (ls(?k \<mapsto> v))"
    by (rule counts_match_upd[OF m old])
      (use step Some new in \<open>cases b; force simp: apply_lifecycle_def metrics_normalize_def Let_def count_terminal_def TERMINAL_STATES_def\<close>)+
  then show ?thesis using Some f by (simp add: lifecycle_move_def)
qed

text \<open>A meter that no reading has emptied.\<close>

definition meter_ready :: "rate_meter \<Rightarrow> bool" where
  "meter_ready m \<longleftrightarrow> 1 \<le> rm_window m \<and> (rm_start m = None \<or> rm_buckets m \<noteq> [])"

lemma meter_ready_observe:
  assumes "meter_ready m"
  shows "\<exists>m'. meter_observe t n m = Some m' \<and> meter_ready m'"
proof -
  obtain m' where m': "meter_observe t n m = Some m'"
    using meter_observe_busy[of m t n] assms by (auto simp: meter_ready_def)
  then have "rm_buckets m' \<noteq> [] \<and> rm_window m' = rm_window m"
    by (auto simp: meter_observe_def Let_def split: if_splits option.splits)
  then show ?thesis using m' assms by (simp add: meter_ready_def)
qed

definition meters_ready :: "metrics_aggregator \<Rightarrow> bool" where
  "meters_ready a \<longleftrightarrow> meter_ready (mx_tasks a) \<and> meter_ready (mx_completions a) \<and>
     meter_ready (mx_cancellations a) \<and> meter_ready (mx_failures a)"

lemma observe_rates_ready:
  assumes "meters_ready a"
  shows "\<exists>a'. observe_rates i t a = Some a' \<and> meters_ready a' \<and> mx_aggregates a' = mx_aggregates a \<and>
    mx_self a' = mx_self a \<and> mx_last_sequence a' = mx_last_sequence a"
proof -
  have "meter_ready (mx_tasks a)" "meter_ready (mx_completions a)" "meter_ready (mx_cancellations a)" "meter_ready (mx_failures a)"
    using assms by (simp_all add: meters_ready_def)
  then obtain m1 m2 m3 m4 where
    "meter_observe t 1 (mx_tasks a) = Some m1" "meter_ready m1"
    "meter_observe t 1 (mx_completions a) = Some m2" "meter_ready m2"
    "meter_observe t 1 (mx_cancellations a) = Some m3" "meter_ready m3"
    "meter_observe t 1 (mx_failures a) = Some m4" "meter_ready m4"
    using meter_ready_observe by metis
  then show ?thesis using assms by (cases i) (simp_all add: observe_rates_def meters_ready_def)
qed

definition agrees_with :: "lifecycle \<Rightarrow> state_change list \<Rightarrow> metrics_aggregator \<Rightarrow> bool" where
  "agrees_with ls cs a \<longleftrightarrow>
     meters_ready a \<and> counts_match (ag_counts (mx_aggregates a)) ls \<and>
     sf_seen_ids (mx_self a) \<subseteq> set (map sc_event_id cs) \<and>
     mx_last_sequence a \<le> fold max (notified_sequences cs) 0"

lemma record_observed_seen: "sf_seen_ids (record_observed s i m) \<subseteq> insert i (sf_seen_ids m)"
  by (auto simp: record_observed_def Let_def)

lemma metrics_apply_ignored:
  assumes "metrics_intent_of (ev_body e) = MIgnore"
  shows "metrics_apply rngs e s a = (NotApplied, a)" and "lifecycle_move (ev_body e) ls = ls"
  using assms by (simp add: metrics_apply_def metrics_normalize_def, cases "ev_body e") (simp_all add: lifecycle_move_def)

lemma metrics_apply_fresh:
  assumes "metrics_intent_of (ev_body e) \<noteq> MIgnore" "ev_event_id e \<notin> sf_seen_ids (mx_self a)"
    and "\<not> (case s of Some k \<Rightarrow> k \<le> mx_last_sequence a | None \<Rightarrow> False)"
    and red: "apply_lifecycle rngs (metrics_normalize e s) (mx_aggregates a) = (out, g)"
    and rates: "observe_rates (metrics_intent_of (ev_body e)) (real_of_int (ev_monotonic_ns e) / 10 ^ 9) (a\<lparr>mx_aggregates := g\<rparr>) = Some a2"
  shows "\<exists>delta. metrics_apply rngs e s a = (Observed delta, metrics_notify delta
    (a2\<lparr>mx_self := record_observed s (ev_event_id e) (mx_self a2), mx_last_sequence := newest s (mx_last_sequence a2)\<rparr>))"
proof -
  have n: "me_intent (metrics_normalize e s) = metrics_intent_of (ev_body e)" "me_event_id (metrics_normalize e s) = ev_event_id e"
    by (simp_all add: metrics_normalize_def)
  show ?thesis
    unfolding metrics_apply_def Let_def n red prod.case rates option.case using assms(1-3) by simp
qed

lemma agrees_step:
  assumes ok: "agrees_with ls cs a" and acc: "lifecycle_accepts (ev_body (sc_event c)) ls"
    and id: "sc_event_id c = ev_event_id (sc_event c)" "sc_event_id c \<notin> set (map sc_event_id cs)"
    and seq: "\<And>k. sc_sequence c = Some k \<Longrightarrow> fold max (notified_sequences cs) 0 < k"
    and step: "apply_state_change rngs c a = (r, a')"
  shows "agrees_with (lifecycle_move (ev_body (sc_event c)) ls) (cs @ [c]) a'" and "r \<noteq> MeterIndexError"
proof -
  let ?e = "sc_event c" and ?last = "fold max (notified_sequences cs) 0"
  have ready: "meters_ready a" and cm: "counts_match (ag_counts (mx_aggregates a)) ls"
    and seen: "sf_seen_ids (mx_self a) \<subseteq> set (map sc_event_id cs)" and last: "mx_last_sequence a \<le> ?last"
    using ok by (simp_all add: agrees_with_def)
  have grow: "fold max (notified_sequences (cs @ [c])) 0 = (case sc_sequence c of None \<Rightarrow> ?last | Some k \<Rightarrow> max k ?last)"
    by (simp split: option.split)
  have "agrees_with (lifecycle_move (ev_body ?e) ls) (cs @ [c]) a' \<and> r \<noteq> MeterIndexError"
  proof (cases "metrics_intent_of (ev_body ?e) = MIgnore")
    case True
    then have "lifecycle_move (ev_body ?e) ls = ls" "a' = a" "r = NotApplied"
      using step metrics_apply_ignored(1)[OF True, of rngs "sc_sequence c" a] metrics_apply_ignored(2)[OF True, of ls] unfolding apply_state_change_def by auto
    moreover have "mx_last_sequence a \<le> fold max (notified_sequences (cs @ [c])) 0"
      unfolding grow using last by (cases "sc_sequence c") simp_all
    ultimately show ?thesis using ready cm seen unfolding agrees_with_def by auto
  next
    case False
    obtain out g where red: "apply_lifecycle rngs (metrics_normalize ?e (sc_sequence c)) (mx_aggregates a) = (out, g)" by fastforce
    let ?a1 = "a\<lparr>mx_aggregates := g\<rparr>"
    have "meters_ready ?a1" using ready by (simp add: meters_ready_def)
    then obtain a2 where a2: "observe_rates (metrics_intent_of (ev_body ?e)) (real_of_int (ev_monotonic_ns ?e) / 10 ^ 9) ?a1 = Some a2"
      "meters_ready a2" "mx_aggregates a2 = g" "mx_self a2 = mx_self a" "mx_last_sequence a2 = mx_last_sequence a"
      using observe_rates_ready[of ?a1] by fastforce
    have fresh: "ev_event_id ?e \<notin> sf_seen_ids (mx_self a)" using id seen by auto
    have notstale: "\<not> (case sc_sequence c of Some k \<Rightarrow> k \<le> mx_last_sequence a | None \<Rightarrow> False)"
      using seq last by (cases "sc_sequence c") (simp, fastforce)
    obtain delta where final: "r = Observed delta"
      "a' = metrics_notify delta (a2\<lparr>mx_self := record_observed (sc_sequence c) (ev_event_id ?e) (mx_self a2),
         mx_last_sequence := newest (sc_sequence c) (mx_last_sequence a2)\<rparr>)"
      using metrics_apply_fresh[OF False fresh notstale red a2(1)] step unfolding apply_state_change_def by auto
    have res: "r \<noteq> MeterIndexError" "meters_ready a'" "mx_aggregates a' = g"
      "sf_seen_ids (mx_self a') = sf_seen_ids (record_observed (sc_sequence c) (ev_event_id ?e) (mx_self a))"
      "mx_last_sequence a' = newest (sc_sequence c) (mx_last_sequence a)"
      using a2(2-5) unfolding final by (simp_all add: metrics_notify_def meters_ready_def Let_def)
    have "counts_match (ag_counts g) (lifecycle_move (ev_body ?e) ls)"
      by (rule counts_match_move[OF cm acc red refl refl])
    moreover have "sf_seen_ids (mx_self a') \<subseteq> set (map sc_event_id (cs @ [c]))"
    proof -
      have "sf_seen_ids (mx_self a') \<subseteq> insert (ev_event_id ?e) (sf_seen_ids (mx_self a))"
        unfolding res(4) by (rule record_observed_seen)
      then show ?thesis using seen id(1) by auto
    qed
    moreover have "mx_last_sequence a' \<le> fold max (notified_sequences (cs @ [c])) 0"
      unfolding grow res(5) newest_def using last by (cases "sc_sequence c") simp_all
    ultimately show ?thesis using res(1,2,3) by (simp add: agrees_with_def)
  qed
  then show "agrees_with (lifecycle_move (ev_body ?e) ls) (cs @ [c]) a'" "r \<noteq> MeterIndexError" by blast+
qed

lemma store_change:
  assumes "store_ok st cs" "apply_item it st = (st', d, cs')"
  shows "cs' = [] \<and> store_states st' = store_states st \<or>
    (\<exists>c. cs' = [c] \<and> sc_event c = si_event it \<and> sc_event_id c = ev_event_id (sc_event c) \<and>
       lifecycle_accepts (ev_body (sc_event c)) (store_states st) \<and>
       store_states st' = lifecycle_move (ev_body (sc_event c)) (store_states st) \<and>
       (\<forall>k. sc_sequence c = Some k \<longrightarrow> fold max (notified_sequences cs) 0 < k))"
proof -
  have base: "base_ok st" and pol: "policy_matches (ss_policy st) cs" using assms(1) by (simp_all add: store_ok_def)
  note ref = store_apply_refines[OF base, of "si_now it" "si_later it" "si_event it" "si_sequence it"]
  have st': "st' = fst (store_apply (si_now it) (si_later it) (si_event it) (si_sequence it) st)"
    using assms(2) by (simp add: apply_item_def)
  have fresh: "\<forall>k. si_sequence it = Some k \<longrightarrow> fold max (notified_sequences cs) 0 < k"
    if "admits (ss_policy st) (si_event it) (si_sequence it)"
    using that pol by (auto simp: admits_def policy_evaluate_def policy_matches_def split: if_splits)
  show ?thesis
  proof (cases rule: store_apply_cases[OF base, of "si_sequence it" "si_event it" "si_now it" "si_later it",
        case_names stale duplicate passed rejected accepted])
    case passed
    then show ?thesis using assms(2) ref(1) st' fresh
      by (auto simp: apply_item_def announce_def Let_def lifecycle_step_def lifecycle_accepts_def lifecycle_move_def is_task_event_def split: event_body.splits)
  next
    case (accepted f target bus m)
    have "lifecycle_accepts (ev_body (si_event it)) (store_states st)"
      using accepted by (simp add: lifecycle_accepts_def)
    then show ?thesis using assms(2) ref(1) st' fresh accepted(1,5)
      by (auto simp: apply_item_def announce_def Let_def lifecycle_step_def)
  next
    case (rejected f target m)
    then show ?thesis using assms(2) ref(1) st'
      by (auto simp: apply_item_def lifecycle_step_def lifecycle_accepts_def)
  qed (use assms(2) ref(1) st' in \<open>auto simp: apply_item_def lifecycle_step_def admits_def\<close>)
qed

fun feed_metrics :: "rngs \<Rightarrow> state_change list \<Rightarrow> metrics_aggregator \<Rightarrow> metrics_result list \<times> metrics_aggregator" where
  "feed_metrics rngs [] a = ([], a)"
| "feed_metrics rngs (c # cs) a =
     (let (r, a1) = apply_state_change rngs c a; (rs, a2) = feed_metrics rngs cs a1 in (r # rs, a2))"

lemma feed_append:
  "feed_metrics rngs (cs @ cs') a =
     (let (rs, a1) = feed_metrics rngs cs a; (rs', a2) = feed_metrics rngs cs' a1 in (rs @ rs', a2))"
  by (induction cs arbitrary: a) (auto simp: Let_def split: prod.split)

lemma agrees_all:
  assumes "store_ok st cs" "agrees_with (store_states st) cs a" "apply_all its st = (st', ds, cs')"
    and "distinct (map sc_event_id (cs @ cs'))" "feed_metrics rngs cs' a = (rs, a')"
  shows "agrees_with (store_states st') (cs @ cs') a' \<and> MeterIndexError \<notin> set rs"
  using assms
proof (induction its arbitrary: st cs a ds cs' rs)
  case (Cons it its)
  obtain sa d ca where one: "apply_item it st = (sa, d, ca)" by (cases "apply_item it st")
  obtain sb db cb where rest: "apply_all its sa = (sb, db, cb)" by (cases "apply_all its sa")
  have split: "st' = sb" "cs' = ca @ cb" using Cons.prems(3) one rest by auto
  obtain r1 a1 where f1: "feed_metrics rngs ca a = (r1, a1)" by fastforce
  obtain r2 a2 where f2: "feed_metrics rngs cb a1 = (r2, a2)" by fastforce
  have out: "rs = r1 @ r2" "a' = a2" using Cons.prems(5) f1 f2 split by (simp_all add: feed_append)
  have ok: "store_ok sa (cs @ ca)"
    using store_ok_apply[OF Cons.prems(1), of "si_now it" "si_later it" "si_event it" "si_sequence it"] one
    by (simp add: apply_item_def)
  have "agrees_with (store_states sa) (cs @ ca) a1 \<and> MeterIndexError \<notin> set r1"
    using store_change[OF Cons.prems(1) one]
  proof
    assume "ca = [] \<and> store_states sa = store_states st"
    then show ?thesis using Cons.prems(2) f1 by simp
  next
    assume "\<exists>c. ca = [c] \<and> sc_event c = si_event it \<and> sc_event_id c = ev_event_id (sc_event c) \<and>
       lifecycle_accepts (ev_body (sc_event c)) (store_states st) \<and>
       store_states sa = lifecycle_move (ev_body (sc_event c)) (store_states st) \<and>
       (\<forall>k. sc_sequence c = Some k \<longrightarrow> fold max (notified_sequences cs) 0 < k)"
    then obtain c where c: "ca = [c]" "sc_event_id c = ev_event_id (sc_event c)"
      "lifecycle_accepts (ev_body (sc_event c)) (store_states st)"
      "store_states sa = lifecycle_move (ev_body (sc_event c)) (store_states st)"
      "\<And>k. sc_sequence c = Some k \<Longrightarrow> fold max (notified_sequences cs) 0 < k" by blast
    obtain r where r: "apply_state_change rngs c a = (r, a1)" "r1 = [r]"
      using f1 c(1) by (auto split: prod.splits)
    have new: "sc_event_id c \<notin> set (map sc_event_id cs)" using Cons.prems(4) split c(1) by auto
    show ?thesis using agrees_step[OF Cons.prems(2) c(3,2) new c(5) r(1)] c(1,4) r(2) by simp
  qed
  then show ?case
    using Cons.IH[of sa "cs @ ca" a1 db cb r2] ok rest Cons.prems(4) f2 out split by simp
qed simp

text \<open>C31: The aggregator counts the store's tasks. Whatever events the store is fed, as long as no two announced events share an
  id, an aggregator bound to it that is not read in between applies every announcement without an error, and its counters
  are the numbers of tasks the store knows, has active, completed, cancelled, failed and terminal.
\<close>

theorem metrics_follow_the_store:
  assumes "fresh_store depth window limit = Some st0" and "new_aggregator seconds capacity = Some a0"
    and "distinct (map sc_event_id (changes its st0))"
    and "feed_metrics rngs (changes its st0) a0 = (rs, a)"
  shows "MeterIndexError \<notin> set rs \<and>
    (let c = counts_model (ag_counts (mx_aggregates a)); states = store_states (after its st0) in
     finite {t. states t \<noteq> None} \<and> tc_total c = in_states states UNIV \<and>
     tc_active c = in_states states {CREATED, RUNNING, WAITING} \<and> tc_completed c = in_states states {COMPLETED} \<and>
     tc_cancelled c = in_states states {CANCELLED} \<and> tc_failed c = in_states states {FAILED} \<and>
     tc_terminal c = in_states states TERMINAL_STATES)"
proof -
  have ok: "store_ok st0 []" using assms(1) by (rule store_ok_fresh)
  have "store_states st0 = (\<lambda>_. None)"
    using assms(1) by (auto simp: fresh_store_def new_policy_def new_history_def new_store_def
        states_of_def registry_get_def new_registry_def empty_index_def split: if_splits option.splits)
  moreover have "meters_ready a0" "ag_counts (mx_aggregates a0) = []" "mx_last_sequence a0 = 0" "sf_seen_ids (mx_self a0) = {}"
    using assms(2) by (auto simp: new_aggregator_def meters_ready_def meter_ready_def new_rate_meter_def
        new_self_metrics_def split: if_splits option.splits)
  ultimately have "agrees_with (store_states st0) [] a0"
    by (simp add: agrees_with_def counts_match_def in_states_def counter_get_def notified_sequences_def List.map_filter_def)
  from agrees_all[OF ok this, of its "after its st0" "decisions its st0" "changes its st0" rngs rs a] assms(3,4)
  have "agrees_with (store_states (after its st0)) (changes its st0) a \<and> MeterIndexError \<notin> set rs"
    by (metis append_Nil prod.collapse)
  then show ?thesis by (simp add: agrees_with_def counts_match_def counts_model_def Let_def)
qed

theorem metrics_follow_the_store_witness:
  "\<exists>st0 a0 rs a. fresh_store 8192 4096 1024 = Some st0 \<and> new_aggregator 30 2048 = Some a0 \<and>
     feed_metrics (\<lambda>_ _ _. 0) (changes [sample_item ''e1'' 1 (TaskCreatedEvent (sample_fields ''a''))] st0) a0 = (rs, a) \<and>
     tc_active (counts_model (ag_counts (mx_aggregates a)))
       = in_states (store_states (after [sample_item ''e1'' 1 (TaskCreatedEvent (sample_fields ''a''))] st0)) {CREATED, RUNNING, WAITING}"
proof -
  obtain st0 where st0: "fresh_store 8192 4096 1024 = Some st0"
    using fresh_store_exists[of 4096 1024 8192] by auto
  obtain a0 where a0: "new_aggregator 30 2048 = Some a0"
    by (simp add: new_aggregator_def new_rate_meter_def new_durations_def new_histogram_def)
  let ?its = "[sample_item ''e1'' 1 (TaskCreatedEvent (sample_fields ''a''))]"
  obtain st1 d cs where one: "apply_item (hd ?its) st0 = (st1, d, cs)" by (metis prod_cases3)
  have "length cs \<le> 1" using store_change[OF store_ok_fresh(1)[OF st0] one] by auto
  then have dist: "distinct (map sc_event_id (changes ?its st0))" using one by (cases cs) auto
  obtain rs a where feed: "feed_metrics (\<lambda>_ _ _. 0) (changes ?its st0) a0 = (rs, a)" by fastforce
  show ?thesis using metrics_follow_the_store[OF st0 a0 dist feed] st0 a0 feed by (metis (no_types, lifting))
qed

section \<open>Reading a meter after a silent window\<close>

text \<open>C34: A reading after a silent window makes the next event fail and count again. If the cancellation rate is read, as
  the storm detector does, a whole window or more after the meter's last second, the meter is left without a bucket; a fresh
  cancellation in the same second then raises \<open>IndexError\<close>, after its counters were increased and before it is recorded as seen,
  so each delivery of that one event raises and is counted again.
\<close>

theorem idle_read_counts_twice:
  assumes "rm_start (mx_cancellations a) = Some s" and "s + int (rm_window (mx_cancellations a)) \<le> py_int t"
    and "1 \<le> rm_window (mx_cancellations a)"
    and "ev_body e = TaskCancelledEvent f tm origin" and "py_int (real_of_int (ev_monotonic_ns e) / 10 ^ 9) \<le> py_int t"
    and "ev_event_id e \<notin> sf_seen_ids (mx_self a)" and "mx_last_sequence a < k"
  shows "\<exists>a2 a3. metrics_apply rngs e (Some k) (snd (cancellation_rate t a)) = (MeterIndexError, a2) \<and>
    metrics_apply rngs e (Some k) a2 = (MeterIndexError, a3) \<and>
    tc_cancelled (counts_model (ag_counts (mx_aggregates a3))) = tc_cancelled (counts_model (ag_counts (mx_aggregates a))) + 2 \<and>
    tc_active (counts_model (ag_counts (mx_aggregates a3))) = tc_active (counts_model (ag_counts (mx_aggregates a))) - 2 \<and>
    mx_last_sequence a3 = mx_last_sequence a \<and> mx_self a3 = mx_self a"
proof -
  define dead where "dead m \<longleftrightarrow> rm_buckets m = [] \<and> rm_start m = Some (py_int t)" for m :: rate_meter
  have fails: "\<exists>a'. metrics_apply rngs e (Some k) b = (MeterIndexError, a') \<and> dead (mx_cancellations a') \<and>
      counter_get (ag_counts (mx_aggregates a')) ''cancelled'' = counter_get (ag_counts (mx_aggregates b)) ''cancelled'' + 1 \<and>
      counter_get (ag_counts (mx_aggregates a')) ''active'' = counter_get (ag_counts (mx_aggregates b)) ''active'' - 1 \<and>
      mx_last_sequence a' = mx_last_sequence b \<and> mx_self a' = mx_self b"
    if "dead (mx_cancellations b)" "mx_self b = mx_self a" "mx_last_sequence b = mx_last_sequence a" for b
  proof -
    obtain out g where red: "apply_lifecycle rngs (metrics_normalize e (Some k)) (mx_aggregates b) = (out, g)" by fastforce
    have g: "ag_counts g = count_terminal ''cancelled'' (ag_counts (mx_aggregates b))"
      using red assms(4) by (auto simp: apply_lifecycle_def metrics_normalize_def Let_def)
    have n: "me_intent (metrics_normalize e (Some k)) = MCancel" "me_event_id (metrics_normalize e (Some k)) = ev_event_id e"
      using assms(4) by (simp_all add: metrics_normalize_def)
    have "observe_rates MCancel (real_of_int (ev_monotonic_ns e) / 10 ^ 9) (b\<lparr>mx_aggregates := g\<rparr>) = None"
      using that(1) assms(5) by (simp add: observe_rates_def meter_observe_def dead_def Let_def)
    then have "metrics_apply rngs e (Some k) b = (MeterIndexError, b\<lparr>mx_aggregates := g\<rparr>)"
      using that assms(6,7) unfolding metrics_apply_def Let_def n red prod.case by simp
    then show ?thesis using that(1) g by (simp add: count_terminal_def)
  qed
  have a1: "dead (mx_cancellations (snd (cancellation_rate t a)))" "mx_self (snd (cancellation_rate t a)) = mx_self a"
    "mx_last_sequence (snd (cancellation_rate t a)) = mx_last_sequence a"
    "mx_aggregates (snd (cancellation_rate t a)) = mx_aggregates a"
    using assms(1-3) by (auto simp: cancellation_rate_def meter_snapshot_def dead_def Let_def)
  obtain a2 where a2: "metrics_apply rngs e (Some k) (snd (cancellation_rate t a)) = (MeterIndexError, a2)"
    "dead (mx_cancellations a2)" "mx_self a2 = mx_self a" "mx_last_sequence a2 = mx_last_sequence a"
    "counter_get (ag_counts (mx_aggregates a2)) ''cancelled'' = counter_get (ag_counts (mx_aggregates a)) ''cancelled'' + 1"
    "counter_get (ag_counts (mx_aggregates a2)) ''active'' = counter_get (ag_counts (mx_aggregates a)) ''active'' - 1"
    using fails[OF a1(1-3)] unfolding a1(2-4) by blast
  obtain a3 where a3: "metrics_apply rngs e (Some k) a2 = (MeterIndexError, a3)"
    "mx_self a3 = mx_self a" "mx_last_sequence a3 = mx_last_sequence a"
    "counter_get (ag_counts (mx_aggregates a3)) ''cancelled'' = counter_get (ag_counts (mx_aggregates a2)) ''cancelled'' + 1"
    "counter_get (ag_counts (mx_aggregates a3)) ''active'' = counter_get (ag_counts (mx_aggregates a2)) ''active'' - 1"
    using fails[OF a2(2-4)] unfolding a2(3,4) by blast
  show ?thesis
    by (intro exI[of _ a2] exI[of _ a3] conjI a2(1) a3(1)) (simp_all add: counts_model_def a2 a3)
qed

text \<open>The aggregator of the example has metered a cancellation in second 10.\<close>

theorem idle_read_counts_twice_witness:
  "\<exists>a0 a2 a3. map_option (\<lambda>a. a\<lparr>mx_cancellations := (mx_cancellations a)\<lparr>rm_buckets := [1], rm_start := Some 10\<rparr>\<rparr>)
       (new_aggregator 30 2048) = Some a0 \<and>
     (let e = sample_event ''e2'' 40000000000 (TaskCancelledEvent (sample_fields ''b'') \<lparr>te_created_at = None, te_completed_at = None, te_duration_seconds = None\<rparr> None) in
      metrics_apply (\<lambda>_ _ _. 0) e (Some 2) (snd (cancellation_rate 40 a0)) = (MeterIndexError, a2) \<and>
      metrics_apply (\<lambda>_ _ _. 0) e (Some 2) a2 = (MeterIndexError, a3) \<and>
      tc_cancelled (counts_model (ag_counts (mx_aggregates a3))) = 2)"
proof -
  obtain a where a: "new_aggregator 30 2048 = Some a" "mx_last_sequence a = 0" "sf_seen_ids (mx_self a) = {}"
    "rm_window (mx_cancellations a) = 30" "ag_counts (mx_aggregates a) = []"
    by (simp add: new_aggregator_def new_rate_meter_def new_durations_def new_histogram_def new_self_metrics_def)
  let ?a0 = "a\<lparr>mx_cancellations := (mx_cancellations a)\<lparr>rm_buckets := [1], rm_start := Some 10\<rparr>\<rparr>"
  let ?e = "sample_event ''e2'' 40000000000 (TaskCancelledEvent (sample_fields ''b'') \<lparr>te_created_at = None, te_completed_at = None, te_duration_seconds = None\<rparr> None)"
  have "\<exists>a2 a3. metrics_apply (\<lambda>_ _ _. 0) ?e (Some 2) (snd (cancellation_rate 40 ?a0)) = (MeterIndexError, a2) \<and>
    metrics_apply (\<lambda>_ _ _. 0) ?e (Some 2) a2 = (MeterIndexError, a3) \<and>
    tc_cancelled (counts_model (ag_counts (mx_aggregates a3))) = tc_cancelled (counts_model (ag_counts (mx_aggregates ?a0))) + 2 \<and>
    tc_active (counts_model (ag_counts (mx_aggregates a3))) = tc_active (counts_model (ag_counts (mx_aggregates ?a0))) - 2 \<and>
    mx_last_sequence a3 = mx_last_sequence ?a0 \<and> mx_self a3 = mx_self ?a0"
    by (rule idle_read_counts_twice[where s = 10 and f = "sample_fields ''b''" and origin = None
          and tm = "\<lparr>te_created_at = None, te_completed_at = None, te_duration_seconds = None\<rparr>"])
      (use a in \<open>simp_all add: sample_event_def py_int_def\<close>)
  then obtain a2 a3 where r: "metrics_apply (\<lambda>_ _ _. 0) ?e (Some 2) (snd (cancellation_rate 40 ?a0)) = (MeterIndexError, a2)"
    "metrics_apply (\<lambda>_ _ _. 0) ?e (Some 2) a2 = (MeterIndexError, a3)"
    "tc_cancelled (counts_model (ag_counts (mx_aggregates a3))) = tc_cancelled (counts_model (ag_counts (mx_aggregates ?a0))) + 2"
    by blast
  have "tc_cancelled (counts_model (ag_counts (mx_aggregates ?a0))) = 0" using a(5) by (simp add: counts_model_def counter_get_def)
  with r a(1) show ?thesis by (intro exI[of _ ?a0] exI[of _ a2] exI[of _ a3]) (simp add: Let_def)
qed

section \<open>Rates in the snapshot\<close>

text \<open>The throughput of a snapshot stands still. Events are metered by the machine's monotonic clock, but the snapshot reads the
  meters at the uptime of the process, which is smaller by the time the machine ran before: until the uptime reaches the last
  metered second, every snapshot reports the rate of that second, however long ago it was, and moves no meter.
\<close>

theorem snapshot_rates_stand_still:
  assumes "rm_start (mx_tasks a) = Some s" and "1 \<le> rm_window (mx_tasks a)" and "\<forall>u\<in>set uptimes. py_int u \<le> s"
  shows "mx_tasks (fold (\<lambda>u b. snd (metrics_snapshot_at u ts b)) uptimes a) = mx_tasks a \<and>
    (\<forall>u. py_int u \<le> s \<longrightarrow> rs_rate_per_second (as_tasks_rate (fst (metrics_snapshot_at u ts
        (fold (\<lambda>u b. snd (metrics_snapshot_at u ts b)) uptimes a))))
      = real_of_int (sum_list (rm_buckets (mx_tasks a))) / real (rm_window (mx_tasks a)))"
proof -
  have step: "mx_tasks (snd (metrics_snapshot_at u ts b)) = mx_tasks b \<and>
      rs_rate_per_second (as_tasks_rate (fst (metrics_snapshot_at u ts b)))
        = real_of_int (sum_list (rm_buckets (mx_tasks b))) / real (rm_window (mx_tasks b))"
    if "rm_start (mx_tasks b) = Some s" "py_int u \<le> s" "1 \<le> rm_window (mx_tasks b)" for b u
    using that by (simp add: metrics_snapshot_at_def Let_def meter_snapshot_def split: prod.split)
  have "mx_tasks (fold (\<lambda>u b. snd (metrics_snapshot_at u ts b)) uptimes b) = mx_tasks b"
    if "mx_tasks b = mx_tasks a" for b
    using that assms(3)
  proof (induction uptimes arbitrary: b)
    case (Cons u us)
    have "mx_tasks (snd (metrics_snapshot_at u ts b)) = mx_tasks b"
      using step[of b u] Cons.prems assms(1,2) by simp
    then show ?case using Cons by simp
  qed simp
  then show ?thesis using step assms(1,2) by simp
qed

theorem snapshot_rates_stand_still_witness:
  "\<exists>a. map_option (\<lambda>a. a\<lparr>mx_tasks := (mx_tasks a)\<lparr>rm_buckets := [60], rm_start := Some 5000\<rparr>\<rparr>) (new_aggregator 30 2048) = Some a \<and>
     rs_rate_per_second (as_tasks_rate (fst (metrics_snapshot_at 4000 [] a))) = 2"
proof -
  obtain a where a: "new_aggregator 30 2048 = Some a" "rm_window (mx_tasks a) = 30"
    by (simp add: new_aggregator_def new_rate_meter_def new_durations_def new_histogram_def)
  let ?a = "a\<lparr>mx_tasks := (mx_tasks a)\<lparr>rm_buckets := [60], rm_start := Some 5000\<rparr>\<rparr>"
  show ?thesis
    using snapshot_rates_stand_still[of ?a 5000 "[]" "[]"] a by (intro exI[of _ ?a]) (simp add: py_int_def)
qed

section \<open>Coroutine rows\<close>

lemma group_add_get: "dget_or [] (group_add k x d) k' = (if k' = k then dget_or [] d k @ [x] else dget_or [] d k')"
  by (simp add: group_add_def dict_simps)

lemma group_tasks_get:
  "dget_or [] (fold (\<lambda>x. group_add (key x) x) xs d) k = dget_or [] d k @ filter (\<lambda>x. key x = k) xs"
  by (induction xs arbitrary: d) (auto simp: group_add_get)

lemma group_tasks_keys:
  "set (dkeys (fold (\<lambda>x. group_add (key x) x) xs d)) = set (dkeys d) \<union> key ` set xs"
  by (induction xs arbitrary: d) (auto simp: group_add_def simp del: set_map)

lemma group_tasks_distinct:
  "distinct (dkeys d) \<Longrightarrow> distinct (dkeys (fold (\<lambda>x. group_add (key x) x) xs d))"
  by (induction xs arbitrary: d) (simp_all add: group_add_def del: distinct_map)

lemma group_tasks_items:
  "(k, g) \<in> set (group_tasks key xs) \<longleftrightarrow> k \<in> key ` set xs \<and> g = filter (\<lambda>x. key x = k) xs"
proof -
  let ?d = "group_tasks key xs"
  have dist: "distinct (dkeys ?d)" by (simp add: group_tasks_def group_tasks_distinct del: distinct_map)
  have keys: "set (dkeys ?d) = key ` set xs" by (simp add: group_tasks_def group_tasks_keys del: set_map)
  have get: "dget_or [] ?d k = filter (\<lambda>x. key x = k) xs" by (simp add: group_tasks_def group_tasks_get)
  have "(k, g) \<in> set ?d \<longleftrightarrow> dget ?d k = Some g" by (rule distinct_in_dict[OF dist])
  also have "\<dots> \<longleftrightarrow> k \<in> set (dkeys ?d) \<and> g = dget_or [] ?d k"
    by (auto simp: in_dkeys_iff dget_or_def simp del: set_map split: option.split)
  finally show ?thesis unfolding keys get .
qed

lemma group_add_total:
  "distinct (dkeys d) \<Longrightarrow> sum_list (map (\<lambda>(k, g). length g) (group_add k x d)) = Suc (sum_list (map (\<lambda>(k, g). length g) d))"
  unfolding group_add_def
proof (induction d)
  case (Cons p d)
  then show ?case by (cases "fst p = k") (auto simp: dget_or_def split: prod.splits)
qed simp

lemma group_tasks_total:
  "distinct (dkeys d) \<Longrightarrow> sum_list (map (\<lambda>(k, g). length g) (fold (\<lambda>x. group_add (key x) x) xs d))
     = sum_list (map (\<lambda>(k, g). length g) d) + length xs"
proof (induction xs arbitrary: d)
  case (Cons x xs)
  have "distinct (dkeys (group_add (key x) x d))" using Cons.prems by (simp add: group_add_def del: distinct_map)
  then show ?case using Cons.IH group_add_total[OF Cons.prems, of "key x" x] by simp
qed simp

lemma states_partition:
  "length (filter (\<lambda>t. rt_state t \<in> {CREATED, RUNNING, WAITING}) g) + length (filter (\<lambda>t. rt_state t = COMPLETED) g) +
     length (filter (\<lambda>t. rt_state t = CANCELLED) g) + length (filter (\<lambda>t. rt_state t = FAILED) g) = length (g :: task_snapshot list)"
proof (induction g)
  case (Cons t g)
  then show ?case by (cases "rt_state t") auto
qed simp

abbreviation row_key :: "task_snapshot \<Rightarrow> string" where
  "row_key t \<equiv> or_name ''<anonymous>'' (rt_coroutine_name t)"

lemma mset_map_cong: "mset xs = mset ys \<Longrightarrow> mset (map f xs) = mset (map f ys)"
  by simp

lemma row_partition:
  "cr_active_count (row_of n g) + cr_completed_count (row_of n g) + cr_cancelled_count (row_of n g) +
     cr_failed_count (row_of n g) = cr_task_count (row_of n g)"
  using states_partition[of g] by (simp add: row_of_def Let_def)

lemma coroutine_rows_mset:
  "mset (aggregate_coroutine_groups ts) = mset (map (\<lambda>(name, g). row_of name g) (group_tasks row_key ts))"
  by (simp add: aggregate_coroutine_groups_def)

lemma coroutine_rows_set:
  "set (aggregate_coroutine_groups ts) = (\<lambda>n. row_of n (filter (\<lambda>t. row_key t = n) ts)) ` (row_key ` set ts)"
proof -
  have "set (group_tasks row_key ts) = (\<lambda>k. (k, filter (\<lambda>t. row_key t = k) ts)) ` (row_key ` set ts)"
    using group_tasks_items[of _ _ row_key ts] by (auto simp: set_eq_iff image_iff)
  then show ?thesis by (simp add: aggregate_coroutine_groups_def image_image)
qed

lemma coroutine_rows_distinct: "distinct (map cr_coroutine_name (aggregate_coroutine_groups ts))"
proof -
  let ?rows = "map (\<lambda>(name, g). row_of name g) (group_tasks row_key ts)"
  have names: "map cr_coroutine_name ?rows = dkeys (group_tasks row_key ts)"
    by (simp add: comp_def case_prod_unfold row_of_def Let_def)
  have "distinct (dkeys (group_tasks row_key ts))"
    unfolding group_tasks_def by (rule group_tasks_distinct) simp
  then have "distinct (map cr_coroutine_name ?rows)" unfolding names .
  moreover have "mset (map cr_coroutine_name ?rows) = mset (map cr_coroutine_name (aggregate_coroutine_groups ts))"
    by (rule mset_map_cong[OF coroutine_rows_mset[symmetric]])
  ultimately show ?thesis by (rule mset_eq_imp_distinct_iff[THEN iffD1, rotated])
qed

lemma coroutine_rows_total: "sum_list (map cr_task_count (aggregate_coroutine_groups ts)) = length ts"
proof -
  have "sum_list (map cr_task_count (map (\<lambda>(name, g). row_of name g) (group_tasks row_key ts)))
      = sum_list (map (\<lambda>(k, g). length g) (group_tasks row_key ts))"
    by (simp add: row_of_def Let_def comp_def case_prod_unfold)
  also have "\<dots> = length ts" unfolding group_tasks_def by (subst group_tasks_total) simp_all
  finally show ?thesis using arg_cong[OF mset_map_cong[OF coroutine_rows_mset[of ts]], of sum_mset cr_task_count]
    by (simp only: sum_mset_sum_list)
qed

text \<open>The coroutine table accounts for every task. Its rows are one per coroutine name in use, each computed from exactly the
  tasks of that name; in each row the active, completed, cancelled and failed tasks add up to all of them, and over the
  table all rows add up to all tasks; the busiest coroutine comes first and equally busy ones are in alphabetical order.
\<close>

theorem coroutine_rows_account_for_all_tasks:
  "set (aggregate_coroutine_groups ts) = (\<lambda>n. row_of n (filter (\<lambda>t. row_key t = n) ts)) ` (row_key ` set ts) \<and>
   distinct (map cr_coroutine_name (aggregate_coroutine_groups ts)) \<and>
   (\<forall>r\<in>set (aggregate_coroutine_groups ts).
      cr_active_count r + cr_completed_count r + cr_cancelled_count r + cr_failed_count r = cr_task_count r) \<and>
   sum_list (map cr_task_count (aggregate_coroutine_groups ts)) = length ts \<and>
   sorted_wrt (\<lambda>a b. cr_task_count b < cr_task_count a \<or>
      cr_task_count b = cr_task_count a \<and> cr_coroutine_name a \<le> cr_coroutine_name b) (aggregate_coroutine_groups ts)"
proof -
  have rows: "\<forall>r\<in>set (aggregate_coroutine_groups ts).
      cr_active_count r + cr_completed_count r + cr_cancelled_count r + cr_failed_count r = cr_task_count r"
    unfolding coroutine_rows_set using row_partition by blast
  have "sorted_wrt (\<lambda>a b. - int (cr_task_count a) < - int (cr_task_count b) \<or>
      - int (cr_task_count a) = - int (cr_task_count b) \<and> cr_coroutine_name a \<le> cr_coroutine_name b) (aggregate_coroutine_groups ts)"
    unfolding aggregate_coroutine_groups_def by (rule sorted_sort_key_pair)
  then have "sorted_wrt (\<lambda>a b. cr_task_count b < cr_task_count a \<or>
      cr_task_count b = cr_task_count a \<and> cr_coroutine_name a \<le> cr_coroutine_name b) (aggregate_coroutine_groups ts)"
    by (simp add: eq_commute)
  then show ?thesis
    by (intro conjI coroutine_rows_set coroutine_rows_distinct rows coroutine_rows_total)
qed

end
