(* ===== verification/Warnings.thy ===== *)
theory Warnings
  imports PyValues Metrics
begin

text \<open>
  The warning system (\<open>asyncviz/runtime/warnings\<close>): the lifecycle of a warning, deduplication by key,
  expiration, the eight default detectors, \<open>RuntimeWarningManager\<close> and its snapshot.

  The manager keeps one mutable object per warning in two dictionaries. Here the dictionary by id holds the
  record and the one by key holds the id, which no two objects share. The payload of a generic event, the
  formatting of numbers and the \<open>k\<close>-th fresh uuid are arguments. A listener is represented by whether it
  raises; the deltas it is given are part of the result. A detector's exception is \<open>None\<close>.
\<close>

section \<open>Severities\<close>

datatype warning_severity = SevInfo | SevWarning | SevError | SevCritical

fun severity_rank :: "warning_severity \<Rightarrow> int" where
  "severity_rank SevInfo = 0"
| "severity_rank SevWarning = 1"
| "severity_rank SevError = 2"
| "severity_rank SevCritical = 3"

definition is_at_least :: "warning_severity \<Rightarrow> warning_severity \<Rightarrow> bool" where
  "is_at_least s threshold \<longleftrightarrow> severity_rank threshold \<le> severity_rank s"

text \<open>\<open>max(severities, key=severity_rank)\<close>, which raises on no arguments.\<close>

definition max_severity :: "warning_severity list \<Rightarrow> warning_severity option" where
  "max_severity ss =
     (case ss of
        [] \<Rightarrow> None
      | s # rest \<Rightarrow> Some (fold (\<lambda>x m. if severity_rank m < severity_rank x then x else m) rest s))"

section \<open>Triggers and lifecycles\<close>

record warning_trigger =
  wt_type :: string
  wt_key :: string
  wt_severity :: warning_severity
  wt_message :: string
  wt_detector :: string
  wt_sequence :: "int option"
  wt_monotonic_ns :: int
  wt_wall_seconds :: real
  wt_related_task_ids :: "task_id list"
  wt_lineage_root_id :: "task_id option"
  wt_metadata :: "(string, json) dict"

record warning_lifecycle =
  wl_id :: string
  wl_key :: string
  wl_type :: string
  wl_severity :: warning_severity
  wl_detector :: string
  wl_message :: string
  wl_created_sequence :: "int option"
  wl_created_monotonic_ns :: int
  wl_created_at_wall :: real
  wl_last_sequence :: "int option"
  wl_last_monotonic_ns :: int
  wl_last_wall :: real
  wl_occurrences :: nat
  wl_resolved :: bool
  wl_resolved_sequence :: "int option"
  wl_resolved_monotonic_ns :: "int option"
  wl_resolved_at_wall :: "real option"
  wl_expired :: bool
  wl_related_task_ids :: "task_id list"
  wl_lineage_root_id :: "task_id option"
  wl_metadata :: "(string, json) dict"
  wl_runtime_id :: "string option"

definition open_warning :: "string \<Rightarrow> string \<Rightarrow> warning_trigger \<Rightarrow> warning_lifecycle" where
  "open_warning i runtime_id t =
     \<lparr>wl_id = i, wl_key = wt_key t, wl_type = wt_type t, wl_severity = wt_severity t,
      wl_detector = wt_detector t, wl_message = wt_message t, wl_created_sequence = wt_sequence t,
      wl_created_monotonic_ns = wt_monotonic_ns t, wl_created_at_wall = wt_wall_seconds t,
      wl_last_sequence = wt_sequence t, wl_last_monotonic_ns = wt_monotonic_ns t,
      wl_last_wall = wt_wall_seconds t, wl_occurrences = 1, wl_resolved = False,
      wl_resolved_sequence = None, wl_resolved_monotonic_ns = None, wl_resolved_at_wall = None,
      wl_expired = False, wl_related_task_ids = wt_related_task_ids t,
      wl_lineage_root_id = wt_lineage_root_id t, wl_metadata = wt_metadata t,
      wl_runtime_id = Some runtime_id\<rparr>"

definition mark_observed ::
    "int option \<Rightarrow> int \<Rightarrow> real \<Rightarrow> string option \<Rightarrow> warning_lifecycle \<Rightarrow> warning_lifecycle" where
  "mark_observed sequence ns wall message w =
     w\<lparr>wl_occurrences := wl_occurrences w + 1,
       wl_last_sequence := (if sequence \<noteq> None then sequence else wl_last_sequence w),
       wl_last_monotonic_ns := ns, wl_last_wall := wall,
       wl_message := (case message of Some m \<Rightarrow> m | None \<Rightarrow> wl_message w)\<rparr>"

definition mark_resolved :: "int option \<Rightarrow> int \<Rightarrow> real \<Rightarrow> warning_lifecycle \<Rightarrow> warning_lifecycle" where
  "mark_resolved sequence ns wall w =
     (if wl_resolved w then w
      else w\<lparr>wl_resolved := True, wl_resolved_sequence := sequence,
             wl_resolved_monotonic_ns := Some ns, wl_resolved_at_wall := Some wall\<rparr>)"

definition mark_expired :: "int \<Rightarrow> real \<Rightarrow> warning_lifecycle \<Rightarrow> warning_lifecycle" where
  "mark_expired ns wall w =
     (if wl_expired w then w
      else
        let w1 = w\<lparr>wl_expired := True\<rparr> in
        if wl_resolved w1 then w1
        else w1\<lparr>wl_resolved := True, wl_resolved_sequence := None,
                wl_resolved_monotonic_ns := Some ns, wl_resolved_at_wall := Some wall\<rparr>)"

datatype dedup_decision = Activate | Refresh | Suppress

definition evaluate_dedup :: "warning_lifecycle option \<Rightarrow> int option \<Rightarrow> dedup_decision" where
  "evaluate_dedup existing sequence =
     (case existing of
        None \<Rightarrow> Activate
      | Some w \<Rightarrow>
          (case (sequence, wl_last_sequence w) of
             (Some n, Some k) \<Rightarrow> if n \<le> k then Suppress else if wl_resolved w then Activate else Refresh
           | _ \<Rightarrow> if wl_resolved w then Activate else Refresh))"

definition is_expired :: "real \<Rightarrow> warning_lifecycle \<Rightarrow> int \<Rightarrow> bool" where
  "is_expired ttl w now \<longleftrightarrow>
     \<not> wl_resolved w \<and> py_int (ttl * 10 ^ 9) \<le> now - wl_last_monotonic_ns w"

section \<open>Detectors\<close>

text \<open>What a detector may read. Reading the cancellation rate moves the aggregator's meter.\<close>

record detector_context =
  dx_registry :: task_registry
  dx_aggregator :: "metrics_aggregator option"

record warning_detector =
  wd_name :: string
  wd_snapshot_driven :: bool
  wd_event :: "detector_context \<Rightarrow> runtime_event \<Rightarrow> int option \<Rightarrow> warning_trigger list option"
  wd_snapshot :: "detector_context \<Rightarrow> int \<Rightarrow> real \<Rightarrow> warning_trigger list option \<times> detector_context"

definition base_detector :: "string \<Rightarrow> warning_detector" where
  "base_detector name =
     \<lparr>wd_name = name, wd_snapshot_driven = False, wd_event = \<lambda>_ _ _. Some [],
      wd_snapshot = \<lambda>ctx _ _. (Some [], ctx)\<rparr>"

text \<open>\<open>f"{x:.3f}"\<close>, \<open>repr\<close> of a string, and \<open>str\<close> of a value whose form is not fixed here.\<close>

record text_format =
  tf_fixed :: "nat \<Rightarrow> real \<Rightarrow> string"
  tf_repr :: "string \<Rightarrow> string"
  tf_render :: "json \<Rightarrow> string"

definition event_trigger ::
    "string \<Rightarrow> runtime_event \<Rightarrow> int option \<Rightarrow> string \<Rightarrow> warning_severity \<Rightarrow> string \<Rightarrow> task_id list \<Rightarrow>
     (string, json) dict \<Rightarrow> warning_trigger" where
  "event_trigger name e sequence key severity message tasks metadata =
     \<lparr>wt_type = name, wt_key = key, wt_severity = severity, wt_message = message, wt_detector = name,
      wt_sequence = sequence, wt_monotonic_ns = ev_monotonic_ns e, wt_wall_seconds = ev_timestamp e,
      wt_related_task_ids = tasks, wt_lineage_root_id = None, wt_metadata = metadata\<rparr>"

definition snapshot_trigger ::
    "string \<Rightarrow> int \<Rightarrow> real \<Rightarrow> string \<Rightarrow> warning_severity \<Rightarrow> string \<Rightarrow> (string, json) dict \<Rightarrow> warning_trigger" where
  "snapshot_trigger name ns wall key severity message metadata =
     \<lparr>wt_type = name, wt_key = key, wt_severity = severity, wt_message = message, wt_detector = name,
      wt_sequence = None, wt_monotonic_ns = ns, wt_wall_seconds = wall, wt_related_task_ids = [],
      wt_lineage_root_id = None, wt_metadata = metadata\<rparr>"

definition slow_task_event ::
    "text_format \<Rightarrow> real \<Rightarrow> detector_context \<Rightarrow> runtime_event \<Rightarrow> int option \<Rightarrow> warning_trigger list option" where
  "slow_task_event tf threshold ctx e sequence =
     (case ev_body e of
        TaskCompletedEvent f tm \<Rightarrow>
          (case te_duration_seconds tm of
             None \<Rightarrow> Some []
           | Some d \<Rightarrow>
               if d < threshold then Some []
               else Some [(event_trigger ''slow_task'' e sequence (''slow_task:'' @ te_task_id f) SevWarning
                  (''task '' @ tf_repr tf (te_task_id f) @ '' completed in '' @ tf_fixed tf 3 d @
                   ''s (threshold '' @ tf_fixed tf 3 threshold @ ''s)'')
                  [te_task_id f]
                  [(''duration_seconds'', JFloat d), (''threshold_seconds'', JFloat threshold),
                   (''coroutine_name'', json_of_option JStr (te_coroutine_name f))])
                  \<lparr>wt_lineage_root_id := Option.bind (registry_get (dx_registry ctx) (te_task_id f)) rt_root_task_id\<rparr>])
      | _ \<Rightarrow> Some [])"

definition slow_task_detector :: "text_format \<Rightarrow> real \<Rightarrow> warning_detector" where
  "slow_task_detector tf threshold = (base_detector ''slow_task'')\<lparr>wd_event := slow_task_event tf threshold\<rparr>"

definition cancellation_storm_snapshot ::
    "text_format \<Rightarrow> real \<Rightarrow> detector_context \<Rightarrow> int \<Rightarrow> real \<Rightarrow> warning_trigger list option \<times> detector_context" where
  "cancellation_storm_snapshot tf threshold ctx ns wall =
     (case dx_aggregator ctx of
        None \<Rightarrow> (Some [], ctx)
      | Some a \<Rightarrow>
          let (r, a') = cancellation_rate (real_of_int ns / 10 ^ 9) a; ctx' = ctx\<lparr>dx_aggregator := Some a'\<rparr>;
              window = str_of_int (int (rs_window_seconds r)) in
          if rs_rate_per_second r < threshold then (Some [], ctx')
          else (Some [snapshot_trigger ''cancellation_storm'' ns wall
                  (''cancellation_storm:rate_'' @ window @ ''s'') SevError
                  (''cancellations at '' @ tf_fixed tf 2 (rs_rate_per_second r) @ ''/s (window='' @ window @
                   ''s, threshold '' @ tf_fixed tf 2 threshold @ ''/s)'')
                  [(''rate_per_second'', JFloat (rs_rate_per_second r)),
                   (''threshold_per_second'', JFloat threshold),
                   (''window_seconds'', JInt (int (rs_window_seconds r)))]], ctx'))"

definition cancellation_storm_detector :: "text_format \<Rightarrow> real \<Rightarrow> warning_detector" where
  "cancellation_storm_detector tf threshold =
     (base_detector ''cancellation_storm'')\<lparr>wd_snapshot_driven := True,
        wd_snapshot := cancellation_storm_snapshot tf threshold\<rparr>"

definition deep_lineage_snapshot ::
    "int \<Rightarrow> detector_context \<Rightarrow> int \<Rightarrow> real \<Rightarrow> warning_trigger list option \<times> detector_context" where
  "deep_lineage_snapshot threshold ctx ns wall =
     (case dx_aggregator ctx of
        None \<Rightarrow> (Some [], ctx)
      | Some a \<Rightarrow>
          let l = lineage_metrics_snapshot (reg_lineage (dx_registry ctx)); d = int (lm_max_depth l) in
          if d < threshold then (Some [], ctx)
          else (Some [snapshot_trigger ''deep_lineage'' ns wall (''deep_lineage:depth_>='' @ str_of_int threshold)
                  SevWarning
                  (''lineage depth at '' @ str_of_int d @ '' (threshold '' @ str_of_int threshold @ '')'')
                  [(''max_depth'', JInt d), (''threshold'', JInt threshold),
                   (''tracked_tasks'', JInt (int (lm_tracked_tasks l)))]], ctx))"

definition deep_lineage_detector :: "int \<Rightarrow> warning_detector" where
  "deep_lineage_detector threshold =
     (base_detector ''deep_lineage'')\<lparr>wd_snapshot_driven := True, wd_snapshot := deep_lineage_snapshot threshold\<rparr>"

definition excessive_active_snapshot ::
    "int \<Rightarrow> detector_context \<Rightarrow> int \<Rightarrow> real \<Rightarrow> warning_trigger list option \<times> detector_context" where
  "excessive_active_snapshot threshold ctx ns wall =
     (case dx_aggregator ctx of
        None \<Rightarrow> (Some [], ctx)
      | Some a \<Rightarrow>
          let n = counter_get (ag_counts (mx_aggregates a)) ''active'' in
          if n < threshold then (Some [], ctx)
          else (Some [snapshot_trigger ''excessive_active_tasks'' ns wall
                  (''excessive_active_tasks:>='' @ str_of_int threshold) SevError
                  (''active task count at '' @ str_of_int n @ '' (threshold '' @ str_of_int threshold @ '')'')
                  [(''active'', JInt n), (''threshold'', JInt threshold)]], ctx))"

definition excessive_active_detector :: "int \<Rightarrow> warning_detector" where
  "excessive_active_detector threshold =
     (base_detector ''excessive_active_tasks'')\<lparr>wd_snapshot_driven := True,
        wd_snapshot := excessive_active_snapshot threshold\<rparr>"

definition cancellation_origin_event ::
    "text_format \<Rightarrow> detector_context \<Rightarrow> runtime_event \<Rightarrow> int option \<Rightarrow> warning_trigger list option" where
  "cancellation_origin_event tf ctx e sequence =
     (case ev_body e of
        TaskCancelledEvent f tm origin \<Rightarrow>
          (case origin of
             None \<Rightarrow> Some []
           | Some r \<Rightarrow>
               if r = ''explicit'' \<or> r = ''shutdown'' then Some []
               else Some [event_trigger ''non_explicit_cancellation'' e sequence
                  (''non_explicit_cancellation:'' @ te_task_id f) SevInfo
                  (''task '' @ tf_repr tf (te_task_id f) @ '' cancelled by '' @ tf_repr tf r) [te_task_id f]
                  [(''cancellation_origin'', JStr r)]])
      | _ \<Rightarrow> Some [])"

definition cancellation_origin_detector :: "text_format \<Rightarrow> warning_detector" where
  "cancellation_origin_detector tf =
     (base_detector ''non_explicit_cancellation'')\<lparr>wd_event := cancellation_origin_event tf\<rparr>"

text \<open>The detectors of generic events read the payload, \<open>payload_of e\<close>.\<close>

type_synonym payloads = "runtime_event \<Rightarrow> (string, json) dict"

definition severity_map :: "(string \<times> warning_severity) list" where
  "severity_map = [(''WARNING'', SevWarning), (''CRITICAL'', SevError), (''FREEZE'', SevCritical)]"

definition millis :: "int \<Rightarrow> real" where
  "millis ns = real_of_int ns / 10 ^ 6"

definition LAG_THRESHOLD_BREACH_EVENT_TYPE :: string where
  "LAG_THRESHOLD_BREACH_EVENT_TYPE = ''runtime.monitoring.lag.threshold''"

definition event_loop_lag_event ::
    "text_format \<Rightarrow> payloads \<Rightarrow> detector_context \<Rightarrow> runtime_event \<Rightarrow> int option \<Rightarrow> warning_trigger list option" where
  "event_loop_lag_event tf payload_of ctx e sequence =
     (if ev_body e \<noteq> OtherEvent LAG_THRESHOLD_BREACH_EVENT_TYPE then Some []
      else
        let p = payload_of e; name = str_upper (get_str (tf_render tf) p ''severity'') in
        (case map_of severity_map name of
           None \<Rightarrow> Some []
         | Some severity \<Rightarrow>
             (case (get_int 0 p ''lag_ns'', get_int 0 p ''threshold_ns'',
                    Option.bind (get_dict p ''measurement'') (\<lambda>m. get_int (- 1) m ''sample_index'')) of
                (Some lag, Some threshold, Some index) \<Rightarrow>
                  Some [event_trigger ''event_loop_lag'' e sequence (''event_loop_lag:'' @ str_lower name) severity
                    (''event loop lag '' @ tf_fixed tf 2 (millis lag) @ ''ms crossed '' @ str_lower name @
                     '' threshold ('' @ tf_fixed tf 2 (millis threshold) @ ''ms)'') []
                    [(''severity'', JStr name), (''lag_ns'', JInt lag), (''lag_ms'', JFloat (millis lag)),
                     (''threshold_ns'', JInt threshold), (''threshold_ms'', JFloat (millis threshold)),
                     (''sample_index'', JInt index)]]
              | _ \<Rightarrow> None)))"

definition event_loop_lag_detector :: "text_format \<Rightarrow> payloads \<Rightarrow> warning_detector" where
  "event_loop_lag_detector tf payload_of =
     (base_detector ''event_loop_lag'')\<lparr>wd_event := event_loop_lag_event tf payload_of\<rparr>"

definition BLOCKING_VIOLATION_EVENT_TYPE :: string where
  "BLOCKING_VIOLATION_EVENT_TYPE = ''runtime.monitoring.blocking.violation''"

definition BLOCKING_ESCALATION_EVENT_TYPE :: string where
  "BLOCKING_ESCALATION_EVENT_TYPE = ''runtime.monitoring.blocking.escalation''"

definition BLOCKING_WINDOW_CLOSED_EVENT_TYPE :: string where
  "BLOCKING_WINDOW_CLOSED_EVENT_TYPE = ''runtime.monitoring.blocking.window.closed''"

text \<open>\<open>window_id or None\<close> as a value of the metadata.\<close>

definition window_value :: "string \<Rightarrow> json" where
  "window_value w = (if w = [] then JNull else JStr w)"

definition keyed_by_window :: "string \<Rightarrow> string \<Rightarrow> string \<Rightarrow> string" where
  "keyed_by_window prefix w name = prefix @ '':'' @ (if w = [] then [] else w @ '':'') @ str_lower name"

definition trigger_for_violation ::
    "text_format \<Rightarrow> runtime_event \<Rightarrow> (string, json) dict \<Rightarrow> int option \<Rightarrow> warning_trigger list option" where
  "trigger_for_violation tf e p sequence =
     (let name = str_upper (get_str (tf_render tf) p ''effective_severity'') in
      (case map_of severity_map name of
         None \<Rightarrow> Some []
       | Some severity \<Rightarrow>
           (case (Option.bind (get_dict p ''classification'') (\<lambda>c. get_int 0 c ''lag_ns''),
                  Option.bind (get_dict p ''classification'') (\<lambda>c. get_int 0 c ''threshold_ns''),
                  get_dict p ''active_window'') of
              (Some lag, Some threshold, Some window) \<Rightarrow>
                let w = get_str (tf_render tf) window ''window_id'' in
                Some [event_trigger ''blocking_violation'' e sequence
                  (keyed_by_window ''blocking_violation'' w name) severity
                  (''event loop blocking violation: '' @ tf_fixed tf 2 (millis lag) @ ''ms ('' @ str_lower name @
                   '' threshold '' @ tf_fixed tf 2 (millis threshold) @ ''ms)'') []
                  [(''kind'', JStr ''violation''), (''severity'', JStr name), (''lag_ns'', JInt lag),
                   (''lag_ms'', JFloat (millis lag)), (''threshold_ns'', JInt threshold),
                   (''window_id'', window_value w), (''consecutive_warning'', get_json p ''consecutive_warning''),
                   (''consecutive_critical'', get_json p ''consecutive_critical''),
                   (''consecutive_freeze'', get_json p ''consecutive_freeze'')]]
            | _ \<Rightarrow> None)))"

definition trigger_for_escalation ::
    "text_format \<Rightarrow> runtime_event \<Rightarrow> (string, json) dict \<Rightarrow> int option \<Rightarrow> warning_trigger list option" where
  "trigger_for_escalation tf e p sequence =
     (let to_name = str_upper (get_str (tf_render tf) p ''to_severity'');
          from_name = str_upper (get_str (tf_render tf) p ''from_severity'') in
      (case map_of severity_map to_name of
         None \<Rightarrow> Some []
       | Some severity \<Rightarrow>
           (case get_dict p ''active_window'' of
              Some window \<Rightarrow>
                let w = get_str (tf_render tf) window ''window_id'' in
                Some [(event_trigger ''blocking_violation'' e sequence
                  (keyed_by_window ''blocking_escalation'' w to_name) severity
                  (''blocking severity escalated '' @ str_lower from_name @ '' -> '' @ str_lower to_name) []
                  [(''kind'', JStr ''escalation''), (''from_severity'', JStr from_name),
                   (''to_severity'', JStr to_name), (''window_id'', window_value w)])
                  \<lparr>wt_type := ''blocking_violation:escalation''\<rparr>]
            | None \<Rightarrow> None)))"

definition trigger_for_window_closed ::
    "text_format \<Rightarrow> runtime_event \<Rightarrow> (string, json) dict \<Rightarrow> int option \<Rightarrow> warning_trigger list option" where
  "trigger_for_window_closed tf e p sequence =
     (case get_dict p ''window'' of
        None \<Rightarrow> None
      | Some window \<Rightarrow>
          let peak = str_upper (get_str (tf_render tf) window ''peak_severity'');
              w = get_str (tf_render tf) window ''window_id'' in
          (case (get_int 0 window ''duration_ns'', get_int 0 window ''violation_count'', get_int 0 window ''peak_lag_ns'') of
             (Some duration, Some number, Some lag) \<Rightarrow>
               Some [(event_trigger ''blocking_violation'' e sequence (''blocking_window_closed:'' @ w) SevWarning
                 (''blocking window '' @ w @ '' closed: '' @ tf_fixed tf 2 (millis duration) @ ''ms, '' @
                  str_of_int number @ '' violations, peak '' @ tf_fixed tf 2 (millis lag) @ ''ms ('' @
                  str_lower peak @ '')'') []
                 [(''kind'', JStr ''window_closed''), (''window_id'', JStr w), (''duration_ns'', JInt duration),
                  (''duration_ms'', JFloat (millis duration)), (''violation_count'', JInt number),
                  (''peak_lag_ns'', JInt lag), (''peak_severity'', JStr peak)])
                 \<lparr>wt_type := ''blocking_violation:window_closed''\<rparr>]
           | _ \<Rightarrow> None))"

definition blocking_violation_event ::
    "text_format \<Rightarrow> payloads \<Rightarrow> detector_context \<Rightarrow> runtime_event \<Rightarrow> int option \<Rightarrow> warning_trigger list option" where
  "blocking_violation_event tf payload_of ctx e sequence =
     (if ev_body e = OtherEvent BLOCKING_VIOLATION_EVENT_TYPE then trigger_for_violation tf e (payload_of e) sequence
      else if ev_body e = OtherEvent BLOCKING_ESCALATION_EVENT_TYPE then trigger_for_escalation tf e (payload_of e) sequence
      else if ev_body e = OtherEvent BLOCKING_WINDOW_CLOSED_EVENT_TYPE
      then trigger_for_window_closed tf e (payload_of e) sequence
      else Some [])"

definition blocking_violation_detector :: "text_format \<Rightarrow> payloads \<Rightarrow> warning_detector" where
  "blocking_violation_detector tf payload_of =
     (base_detector ''blocking_violation'')\<lparr>wd_event := blocking_violation_event tf payload_of\<rparr>"

definition blocking_warning_types :: "(string \<times> string) list" where
  "blocking_warning_types =
     [(''opened'', ''runtime.warnings.blocking.opened''),
      (''escalated'', ''runtime.warnings.blocking.escalated''),
      (''active'', ''runtime.warnings.blocking.active''),
      (''recovered'', ''runtime.warnings.blocking.recovered''),
      (''expired'', ''runtime.warnings.blocking.expired'')]"

definition is_blocking_warning_event :: "string \<Rightarrow> bool" where
  "is_blocking_warning_event ty \<longleftrightarrow> ty \<in> set (map snd blocking_warning_types)"

definition group_related_task_ids :: "(string, json) dict \<Rightarrow> task_id list" where
  "group_related_task_ids p =
     (case get_json p ''task_id'' of JStr t \<Rightarrow> if t = [] then [] else [t] | _ \<Rightarrow> [])"

definition group_metadata :: "(string, json) dict \<Rightarrow> string \<Rightarrow> (string, json) dict option" where
  "group_metadata p transition =
     (case (get_int 0 p ''peak_lag_ns'', get_int 0 p ''freeze_duration_ns'') of
        (Some peak, Some duration) \<Rightarrow>
          Some ([(''kind'', JStr ''blocking_warning_group''), (''transition'', JStr transition)] @
            map (\<lambda>k. (k, get_json p k)) [''window_id'', ''warning_id'', ''group_id'', ''severity'', ''peak_severity''] @
            [(''peak_lag_ns'', JInt peak), (''peak_lag_ms'', JFloat (millis peak)),
             (''freeze_duration_ns'', JInt duration), (''freeze_duration_ms'', JFloat (millis duration))] @
            map (\<lambda>k. (k, get_json p k)) [''violation_count'', ''escalation_count''] @
            [(''capture_ids'', if truthy (get_json p ''capture_ids'') then get_json p ''capture_ids'' else JList [])] @
            map (\<lambda>k. (k, get_json p k)) [''task_name'', ''coroutine_name'', ''state'', ''first_seen_ns'', ''last_seen_ns''])
      | _ \<Rightarrow> None)"

definition group_message :: "text_format \<Rightarrow> (string, json) dict \<Rightarrow> string \<Rightarrow> string option" where
  "group_message tf p transition =
     (let s = str_lower (get_str (tf_render tf) p ''severity''); sev = (if s = [] then ''unknown'' else s) in
      (case (get_int 0 p ''peak_lag_ns'', get_int 0 p ''freeze_duration_ns'') of
         (Some peak, Some duration) \<Rightarrow>
           let after = tf_fixed tf 1 (millis duration) @ ''ms'';
               base = (if transition = ''opened'' then ''event loop blocking ('' @ sev @ '') opened''
                       else if transition = ''escalated'' then ''event loop blocking escalated to '' @ sev
                       else if transition = ''recovered''
                       then ''event loop blocking ('' @ sev @ '') recovered after '' @ after
                       else if transition = ''expired''
                       then ''event loop blocking ('' @ sev @ '') expired after '' @ after
                       else ''event loop blocking ('' @ sev @ '') refresh'');
               w = get_json p ''window_id''
           in Some (base @ (if truthy w then '' [window='' @ json_str (tf_render tf) w @ '']'' else []) @
                    (if peak \<noteq> 0 then '' peak='' @ tf_fixed tf 1 (millis peak) @ ''ms'' else []))
       | _ \<Rightarrow> None))"

definition warning_group_event ::
    "text_format \<Rightarrow> payloads \<Rightarrow> detector_context \<Rightarrow> runtime_event \<Rightarrow> int option \<Rightarrow> warning_trigger list option" where
  "warning_group_event tf payload_of ctx e sequence =
     (case ev_body e of
        OtherEvent ty \<Rightarrow>
          if \<not> is_blocking_warning_event ty then Some []
          else
            let p = payload_of e; group = get_str (tf_render tf) p ''group_id'' in
            if group = [] then Some []
            else
              let name = str_upper (get_str (tf_render tf) p ''severity'');
                  severity = (case map_of severity_map name of None \<Rightarrow> SevWarning | Some s \<Rightarrow> s);
                  t = str_lower (get_str (tf_render tf) p ''transition''); transition = (if t = [] then ty else t) in
              (case (group_message tf p transition, group_metadata p transition) of
                 (Some message, Some metadata) \<Rightarrow>
                   Some [event_trigger ''blocking_warning_group'' e sequence
                     (''blocking_warning_group:'' @ group) severity message (group_related_task_ids p) metadata]
               | _ \<Rightarrow> None)
      | _ \<Rightarrow> Some [])"

definition warning_group_detector :: "text_format \<Rightarrow> payloads \<Rightarrow> warning_detector" where
  "warning_group_detector tf payload_of =
     (base_detector ''blocking_warning_group'')\<lparr>wd_event := warning_group_event tf payload_of\<rparr>"

definition default_detectors :: "text_format \<Rightarrow> payloads \<Rightarrow> warning_detector list" where
  "default_detectors tf payload_of =
     [slow_task_detector tf 5, cancellation_storm_detector tf 5, deep_lineage_detector 32,
      excessive_active_detector 1000, cancellation_origin_detector tf, event_loop_lag_detector tf payload_of,
      blocking_violation_detector tf payload_of, warning_group_detector tf payload_of]"

section \<open>The manager\<close>

datatype warning_change = WActivated | WUpdated | WDeduplicated | WResolved | WExpired

record warning_delta =
  wdl_warning :: warning_lifecycle
  wdl_change :: warning_change
  wdl_sequence :: "int option"
  wdl_last_sequence :: int

record warning_counters =
  wc_evaluations_run :: nat
  wc_detector_failures :: nat
  wc_emitted :: nat
  wc_resolved :: nat
  wc_expired :: nat
  wc_suppressions :: nat
  wc_snapshots :: nat
  wc_dispatches :: nat
  wc_dispatch_failures :: nat
  wc_last_event_sequence :: int

definition no_warning_counters :: warning_counters where
  "no_warning_counters =
     \<lparr>wc_evaluations_run = 0, wc_detector_failures = 0, wc_emitted = 0, wc_resolved = 0, wc_expired = 0,
      wc_suppressions = 0, wc_snapshots = 0, wc_dispatches = 0, wc_dispatch_failures = 0,
      wc_last_event_sequence = 0\<rparr>"

text \<open>\<open>wm_keys\<close> is \<open>_lifecycles\<close>, \<open>wm_warnings\<close> is \<open>_by_id\<close>, and \<open>wm_drawn\<close> counts the uuids drawn.\<close>

record warning_manager =
  wm_keys :: "(string, string) dict"
  wm_warnings :: "(string, warning_lifecycle) dict"
  wm_drawn :: nat
  wm_detectors :: "(string, warning_detector) dict"
  wm_next_id :: int
  wm_listeners :: "(int, warning_delta \<Rightarrow> bool) dict"
  wm_ttl :: real
  wm_counters :: warning_counters
  wm_last_sequence :: int
  wm_context :: detector_context
  wm_runtime_id :: string

text \<open>\<open>None\<close> is \<open>DetectorRegistrationError\<close>.\<close>

definition register_detector :: "warning_detector \<Rightarrow> warning_manager \<Rightarrow> warning_manager option" where
  "register_detector d m =
     (if dget (wm_detectors m) (wd_name d) \<noteq> None then None
      else Some (m\<lparr>wm_detectors := dset (wd_name d) d (wm_detectors m)\<rparr>))"

definition unregister_detector :: "string \<Rightarrow> warning_manager \<Rightarrow> bool \<times> warning_manager" where
  "unregister_detector name m =
     (dget (wm_detectors m) name \<noteq> None, m\<lparr>wm_detectors := dpop name (wm_detectors m)\<rparr>)"

fun register_all :: "warning_detector list \<Rightarrow> warning_manager \<Rightarrow> warning_manager option" where
  "register_all [] m = Some m"
| "register_all (d # ds) m = Option.bind (register_detector d m) (register_all ds)"

definition new_warning_manager ::
    "detector_context \<Rightarrow> warning_detector list \<Rightarrow> real \<Rightarrow> string \<Rightarrow> warning_manager option" where
  "new_warning_manager ctx ds ttl runtime_id =
     register_all ds
       \<lparr>wm_keys = [], wm_warnings = [], wm_drawn = 0, wm_detectors = [], wm_next_id = 0, wm_listeners = [],
        wm_ttl = ttl, wm_counters = no_warning_counters, wm_last_sequence = 0, wm_context = ctx,
        wm_runtime_id = runtime_id\<rparr>"

definition warning_notify :: "warning_delta \<Rightarrow> warning_manager \<Rightarrow> warning_manager" where
  "warning_notify delta m =
     (let c = wm_counters m in
      m\<lparr>wm_counters := c\<lparr>wc_dispatches := wc_dispatches c + 1,
          wc_dispatch_failures :=
            wc_dispatch_failures c + length (filter (\<lambda>raises. raises delta) (dvals (wm_listeners m)))\<rparr>\<rparr>)"

text \<open>Mutates the warning \<open>i\<close>, and announces it.\<close>

definition announce_change ::
    "string \<Rightarrow> (warning_lifecycle \<Rightarrow> warning_lifecycle) \<Rightarrow> warning_change \<Rightarrow> int option \<Rightarrow> warning_manager \<Rightarrow>
     warning_delta list \<times> warning_manager" where
  "announce_change i f change sequence m =
     (case dget (wm_warnings m) i of
        None \<Rightarrow> ([], m)
      | Some w \<Rightarrow>
          let delta = \<lparr>wdl_warning = f w, wdl_change = change, wdl_sequence = sequence,
                       wdl_last_sequence = wm_last_sequence m\<rparr>
          in ([delta], warning_notify delta (m\<lparr>wm_warnings := dset i (f w) (wm_warnings m)\<rparr>)))"

definition count_warning :: "(warning_counters \<Rightarrow> warning_counters) \<Rightarrow> warning_manager \<Rightarrow> warning_manager" where
  "count_warning f m = m\<lparr>wm_counters := f (wm_counters m)\<rparr>"

definition find_by_key :: "string \<Rightarrow> warning_manager \<Rightarrow> warning_lifecycle option" where
  "find_by_key k m = Option.bind (dget (wm_keys m) k) (dget (wm_warnings m))"

definition apply_trigger ::
    "(nat \<Rightarrow> string) \<Rightarrow> warning_trigger \<Rightarrow> warning_manager \<Rightarrow> warning_delta list \<times> warning_manager" where
  "apply_trigger uuid t m =
     (let existing = find_by_key (wt_key t) m in
      (case evaluate_dedup existing (wt_sequence t) of
         Suppress \<Rightarrow> ([], count_warning (\<lambda>c. c\<lparr>wc_suppressions := wc_suppressions c + 1\<rparr>) m)
       | Activate \<Rightarrow>
           let i = uuid (wm_drawn m); w = open_warning i (wm_runtime_id m) t;
               m1 = count_warning (\<lambda>c. c\<lparr>wc_emitted := wc_emitted c + 1\<rparr>)
                      (m\<lparr>wm_keys := dset (wt_key t) i (wm_keys m), wm_warnings := dset i w (wm_warnings m),
                         wm_drawn := wm_drawn m + 1\<rparr>)
           in announce_change i (\<lambda>w. w) WActivated (wt_sequence t) m1
       | Refresh \<Rightarrow>
           (case dget (wm_keys m) (wt_key t) of
              None \<Rightarrow> ([], m)
            | Some i \<Rightarrow>
                announce_change i
                  (\<lambda>w. let w1 = mark_observed (wt_sequence t) (wt_monotonic_ns t) (wt_wall_seconds t)
                                  (Some (wt_message t)) w
                       in w1\<lparr>wl_metadata := dict_update (wt_metadata t) (wl_metadata w1)\<rparr>)
                  WDeduplicated (wt_sequence t) m)))"

fun apply_triggers ::
    "(nat \<Rightarrow> string) \<Rightarrow> warning_trigger list \<Rightarrow> warning_manager \<Rightarrow> warning_delta list \<times> warning_manager" where
  "apply_triggers uuid [] m = ([], m)"
| "apply_triggers uuid (t # ts) m =
     (let (ds, m1) = apply_trigger uuid t m; (ds', m2) = apply_triggers uuid ts m1 in (ds @ ds', m2))"

fun run_event_detectors ::
    "(nat \<Rightarrow> string) \<Rightarrow> runtime_event \<Rightarrow> int option \<Rightarrow> warning_detector list \<Rightarrow> warning_manager \<Rightarrow>
     warning_delta list \<times> warning_manager" where
  "run_event_detectors uuid e sequence [] m = ([], m)"
| "run_event_detectors uuid e sequence (d # ds) m =
     (let (out, m1) =
        (case wd_event d (wm_context m) e sequence of
           None \<Rightarrow> ([], count_warning (\<lambda>c. c\<lparr>wc_detector_failures := wc_detector_failures c + 1\<rparr>) m)
         | Some ts \<Rightarrow>
             apply_triggers uuid ts (count_warning (\<lambda>c. c\<lparr>wc_evaluations_run := wc_evaluations_run c + 1\<rparr>) m));
          (out', m2) = run_event_detectors uuid e sequence ds m1
      in (out @ out', m2))"

definition warning_apply_event ::
    "(nat \<Rightarrow> string) \<Rightarrow> runtime_event \<Rightarrow> int option \<Rightarrow> warning_manager \<Rightarrow> warning_delta list \<times> warning_manager" where
  "warning_apply_event uuid e sequence m =
     (let (out, m1) = run_event_detectors uuid e sequence (dvals (wm_detectors m)) m in
      (case sequence of
         Some n \<Rightarrow>
           if wm_last_sequence m1 < n
           then (out, count_warning (\<lambda>c. c\<lparr>wc_last_event_sequence := n\<rparr>) (m1\<lparr>wm_last_sequence := n\<rparr>))
           else (out, m1)
       | None \<Rightarrow> (out, m1)))"

definition mark_resolved_internal ::
    "string \<Rightarrow> int option \<Rightarrow> int \<Rightarrow> real \<Rightarrow> warning_manager \<Rightarrow> warning_delta list \<times> warning_manager" where
  "mark_resolved_internal i sequence ns wall m =
     announce_change i (mark_resolved sequence ns wall) WResolved sequence
       (count_warning (\<lambda>c. c\<lparr>wc_resolved := wc_resolved c + 1\<rparr>) m)"

text \<open>Resolves what the detector did not fire again, over the list of lifecycles at the start.\<close>

fun resolve_unfired ::
    "string \<Rightarrow> string list \<Rightarrow> int \<Rightarrow> real \<Rightarrow> string list \<Rightarrow> warning_manager \<Rightarrow> warning_delta list \<times> warning_manager" where
  "resolve_unfired name fired ns wall [] m = ([], m)"
| "resolve_unfired name fired ns wall (i # is) m =
     (let (out, m1) =
        (case dget (wm_warnings m) i of
           Some w \<Rightarrow>
             if wl_detector w = name \<and> \<not> wl_resolved w \<and> wl_key w \<notin> set fired
             then mark_resolved_internal i (Some (wm_last_sequence m)) ns wall m else ([], m)
         | None \<Rightarrow> ([], m));
          (out', m2) = resolve_unfired name fired ns wall is m1
      in (out @ out', m2))"

fun run_snapshot_detectors ::
    "(nat \<Rightarrow> string) \<Rightarrow> int \<Rightarrow> real \<Rightarrow> warning_detector list \<Rightarrow> warning_manager \<Rightarrow> warning_delta list \<times> warning_manager" where
  "run_snapshot_detectors uuid ns wall [] m = ([], m)"
| "run_snapshot_detectors uuid ns wall (d # ds) m =
     (let (r, ctx) = wd_snapshot d (wm_context m) ns wall; m0 = m\<lparr>wm_context := ctx\<rparr>;
          (out, m1) =
        (case r of
           None \<Rightarrow> ([], count_warning (\<lambda>c. c\<lparr>wc_detector_failures := wc_detector_failures c + 1\<rparr>) m0)
         | Some ts \<Rightarrow>
             let (o1, ma) = apply_triggers uuid ts
                   (count_warning (\<lambda>c. c\<lparr>wc_evaluations_run := wc_evaluations_run c + 1\<rparr>) m0);
                 (o2, mb) = (if wd_snapshot_driven d
                             then resolve_unfired (wd_name d) (map wt_key ts) ns wall (dvals (wm_keys ma)) ma
                             else ([], ma))
             in (o1 @ o2, mb));
          (out', m2) = run_snapshot_detectors uuid ns wall ds m1
      in (out @ out', m2))"

fun sweep_expired :: "int \<Rightarrow> real \<Rightarrow> string list \<Rightarrow> warning_manager \<Rightarrow> warning_delta list \<times> warning_manager" where
  "sweep_expired ns wall [] m = ([], m)"
| "sweep_expired ns wall (i # is) m =
     (let (out, m1) =
        (case dget (wm_warnings m) i of
           Some w \<Rightarrow>
             if is_expired (wm_ttl m) w ns
             then announce_change i (mark_expired ns wall) WExpired (Some (wm_last_sequence m))
                    (count_warning (\<lambda>c. c\<lparr>wc_expired := wc_expired c + 1\<rparr>) m)
             else ([], m)
         | None \<Rightarrow> ([], m));
          (out', m2) = sweep_expired ns wall is m1
      in (out @ out', m2))"

definition warning_evaluate ::
    "(nat \<Rightarrow> string) \<Rightarrow> int \<Rightarrow> real \<Rightarrow> warning_manager \<Rightarrow> warning_delta list \<times> warning_manager" where
  "warning_evaluate uuid ns wall m =
     (let (out, m1) = run_snapshot_detectors uuid ns wall (dvals (wm_detectors m)) m;
          (out', m2) = sweep_expired ns wall (dvals (wm_keys m1)) m1
      in (out @ out', m2))"

definition resolve_warning ::
    "string \<Rightarrow> int option \<Rightarrow> int \<Rightarrow> real \<Rightarrow> warning_manager \<Rightarrow> bool \<times> warning_delta list \<times> warning_manager" where
  "resolve_warning i sequence ns wall m =
     (case dget (wm_warnings m) i of
        None \<Rightarrow> (False, [], m)
      | Some w \<Rightarrow> if wl_resolved w then (False, [], m) else (True, mark_resolved_internal i sequence ns wall m))"

definition lifecycles_view :: "warning_manager \<Rightarrow> warning_lifecycle list" where
  "lifecycles_view m = List.map_filter (dget (wm_warnings m)) (dvals (wm_keys m))"

definition active_view :: "warning_manager \<Rightarrow> warning_lifecycle list" where
  "active_view m = filter (\<lambda>w. \<not> wl_resolved w) (lifecycles_view m)"

definition resolved_view :: "warning_manager \<Rightarrow> warning_lifecycle list" where
  "resolved_view m = filter wl_resolved (lifecycles_view m)"

definition warning_subscribe :: "(warning_delta \<Rightarrow> bool) \<Rightarrow> warning_manager \<Rightarrow> int \<times> warning_manager" where
  "warning_subscribe l m =
     (let i = wm_next_id m + 1 in (i, m\<lparr>wm_next_id := i, wm_listeners := dset i l (wm_listeners m)\<rparr>))"

definition warning_unsubscribe :: "int \<Rightarrow> warning_manager \<Rightarrow> bool \<times> warning_manager" where
  "warning_unsubscribe i m =
     (dget (wm_listeners m) i \<noteq> None, m\<lparr>wm_listeners := dpop i (wm_listeners m)\<rparr>)"

definition warning_clear :: "warning_manager \<Rightarrow> warning_manager" where
  "warning_clear m =
     m\<lparr>wm_keys := [], wm_warnings := [], wm_counters := no_warning_counters, wm_last_sequence := 0\<rparr>"

definition warning_rebuild ::
    "(nat \<Rightarrow> string) \<Rightarrow> (runtime_event \<times> int option) list \<Rightarrow> warning_manager \<Rightarrow> nat \<times> warning_manager" where
  "warning_rebuild uuid es m =
     (length es, fold (\<lambda>(e, s) m. snd (warning_apply_event uuid e s m)) es (warning_clear m))"

section \<open>Projections and the snapshot\<close>

record severity_counts =
  vc_info :: nat
  vc_warning :: nat
  vc_error :: nat
  vc_critical :: nat

definition count_by_severity :: "warning_lifecycle list \<Rightarrow> severity_counts" where
  "count_by_severity ws =
     (let n = (\<lambda>s. length (filter (\<lambda>w. wl_severity w = s) ws)) in
      \<lparr>vc_info = n SevInfo, vc_warning = n SevWarning, vc_error = n SevError, vc_critical = n SevCritical\<rparr>)"

definition count_by_type :: "warning_lifecycle list \<Rightarrow> (string, int) dict" where
  "count_by_type ws = count_keys (map wl_type ws)"

definition group_by_task :: "warning_lifecycle list \<Rightarrow> (string, warning_lifecycle list) dict" where
  "group_by_task ws =
     fold (\<lambda>w d. if wl_related_task_ids w = [] then group_add [] w d
                 else fold (\<lambda>t. group_add t w) (wl_related_task_ids w) d) ws []"

definition group_by_lineage :: "warning_lifecycle list \<Rightarrow> (string, warning_lifecycle list) dict" where
  "group_by_lineage ws = group_tasks (\<lambda>w. or_name [] (wl_lineage_root_id w)) ws"

record warning_snapshot =
  vs_last_seq :: int
  vs_active :: "warning_lifecycle list"
  vs_resolved :: "warning_lifecycle list"
  vs_by_severity :: severity_counts
  vs_by_type :: "(string, int) dict"
  vs_counters :: warning_counters

definition build_warning_snapshot ::
    "warning_lifecycle list \<Rightarrow> warning_lifecycle list \<Rightarrow> warning_counters \<Rightarrow> int \<Rightarrow> warning_snapshot" where
  "build_warning_snapshot active resolved counters last_seq =
     (let xs = sort_key (\<lambda>w. - severity_rank (wl_severity w))
                 (sort_key wl_created_monotonic_ns (sort_key wl_id active));
          ys = sort_key (\<lambda>w. case wl_resolved_monotonic_ns w of None \<Rightarrow> 0 | Some n \<Rightarrow> n) (sort_key wl_id resolved) in
      \<lparr>vs_last_seq = last_seq, vs_active = xs, vs_resolved = ys, vs_by_severity = count_by_severity xs,
       vs_by_type = count_by_type xs, vs_counters = counters\<rparr>)"

definition warning_snapshot_at ::
    "int \<Rightarrow> real \<Rightarrow> warning_manager \<Rightarrow> warning_snapshot \<times> warning_delta list \<times> warning_manager" where
  "warning_snapshot_at ns wall m =
     (let (out, m1) = sweep_expired ns wall (dvals (wm_keys m)) m;
          m2 = count_warning (\<lambda>c. c\<lparr>wc_snapshots := wc_snapshots c + 1\<rparr>) m1
      in (build_warning_snapshot (active_view m2) (resolved_view m2) (wm_counters m2) (wm_last_sequence m2), out, m2))"

end
