(* ===== verification/WarningBooks.thy ===== *)
theory WarningBooks
  imports Warnings
begin

text \<open>
  What the warning manager keeps true whatever its detectors do: its tables and counters balance, a warning
  evolves only forward and is final once closed, silence closes warnings, the warnings of a snapshot-driven
  detector follow its condition, and the snapshot is ordered.
\<close>

section \<open>How a warning can change\<close>

text \<open>A warning keeps its identity and severity, is observed ever more often, and is final once resolved.\<close>

definition evolves :: "warning_lifecycle \<Rightarrow> warning_lifecycle \<Rightarrow> bool" where
  "evolves w w' \<longleftrightarrow>
     wl_id w' = wl_id w \<and> wl_key w' = wl_key w \<and> wl_type w' = wl_type w \<and> wl_severity w' = wl_severity w \<and>
     wl_detector w' = wl_detector w \<and> wl_created_sequence w' = wl_created_sequence w \<and>
     wl_created_monotonic_ns w' = wl_created_monotonic_ns w \<and> wl_occurrences w \<le> wl_occurrences w' \<and>
     (wl_resolved w \<longrightarrow> w' = w)"

lemma evolves_refl [simp]: "evolves w w"
  by (simp add: evolves_def)

lemma evolves_trans: "evolves a b \<Longrightarrow> evolves b c \<Longrightarrow> evolves a c"
  unfolding evolves_def by (metis order_trans)

lemma evolves_steps:
  "\<not> wl_resolved w \<Longrightarrow> evolves w (mark_resolved sequence ns wall w)"
  "\<not> wl_resolved w \<Longrightarrow> evolves w (mark_expired ns wall w)"
  "\<not> wl_resolved w \<Longrightarrow> evolves w (mark_observed sequence ns wall message w\<lparr>wl_metadata := d\<rparr>)"
  by (auto simp: evolves_def mark_resolved_def mark_expired_def mark_observed_def Let_def)

section \<open>The manager's books\<close>

definition books_ok :: "(nat \<Rightarrow> string) \<Rightarrow> warning_manager \<Rightarrow> bool" where
  "books_ok uuid m \<longleftrightarrow>
     distinct (dkeys (wm_keys m)) \<and> distinct (dkeys (wm_warnings m)) \<and>
     set (dkeys (wm_warnings m)) \<subseteq> uuid ` {..<wm_drawn m} \<and>
     (\<forall>k i. dget (wm_keys m) k = Some i \<longrightarrow> (\<exists>w. dget (wm_warnings m) i = Some w \<and> wl_key w = k)) \<and>
     (\<forall>i w. dget (wm_warnings m) i = Some w \<longrightarrow>
        wl_id w = i \<and> (\<not> wl_resolved w \<longrightarrow> dget (wm_keys m) (wl_key w) = Some i) \<and> (wl_expired w \<longrightarrow> wl_resolved w)) \<and>
     wc_emitted (wm_counters m) = length (wm_warnings m) \<and>
     wc_resolved (wm_counters m) = card (keys_where (\<lambda>w. wl_resolved w \<and> \<not> wl_expired w) (wm_warnings m)) \<and>
     wc_expired (wm_counters m) = card (keys_where wl_expired (wm_warnings m))"

lemma books_okD:
  assumes "books_ok uuid m"
  shows "distinct (dkeys (wm_keys m))" "distinct (dkeys (wm_warnings m))"
    "dget (wm_keys m) k = Some i \<Longrightarrow> \<exists>w. dget (wm_warnings m) i = Some w \<and> wl_key w = k"
    "dget (wm_warnings m) i = Some w \<Longrightarrow> wl_id w = i"
    "dget (wm_warnings m) i = Some w \<Longrightarrow> \<not> wl_resolved w \<Longrightarrow> dget (wm_keys m) (wl_key w) = Some i"
    "dget (wm_warnings m) i = Some w \<Longrightarrow> wl_expired w \<Longrightarrow> wl_resolved w"
  using assms unfolding books_ok_def by blast+

text \<open>The parts of the manager that only the tables and the three counters depend on.\<close>

definition same_books :: "warning_manager \<Rightarrow> warning_manager \<Rightarrow> bool" where
  "same_books m m' \<longleftrightarrow>
     wm_keys m' = wm_keys m \<and> wm_warnings m' = wm_warnings m \<and> wm_drawn m' = wm_drawn m \<and>
     wc_emitted (wm_counters m') = wc_emitted (wm_counters m) \<and>
     wc_resolved (wm_counters m') = wc_resolved (wm_counters m) \<and>
     wc_expired (wm_counters m') = wc_expired (wm_counters m)"

lemma books_same:
  assumes "books_ok uuid m" "same_books m m'"
  shows "books_ok uuid m'"
proof -
  have eq: "wm_keys m' = wm_keys m" "wm_warnings m' = wm_warnings m" "wm_drawn m' = wm_drawn m"
    "wc_emitted (wm_counters m') = wc_emitted (wm_counters m)"
    "wc_resolved (wm_counters m') = wc_resolved (wm_counters m)"
    "wc_expired (wm_counters m') = wc_expired (wm_counters m)"
    using assms(2) by (simp_all add: same_books_def)
  show ?thesis using assms(1) unfolding books_ok_def eq .
qed

lemma warning_notify_simps [simp]:
  "wm_keys (warning_notify d m) = wm_keys m" "wm_warnings (warning_notify d m) = wm_warnings m"
  "wm_drawn (warning_notify d m) = wm_drawn m" "wm_ttl (warning_notify d m) = wm_ttl m"
  "wm_last_sequence (warning_notify d m) = wm_last_sequence m" "wm_detectors (warning_notify d m) = wm_detectors m"
  "wm_context (warning_notify d m) = wm_context m" "wm_runtime_id (warning_notify d m) = wm_runtime_id m"
  "wc_emitted (wm_counters (warning_notify d m)) = wc_emitted (wm_counters m)"
  "wc_resolved (wm_counters (warning_notify d m)) = wc_resolved (wm_counters m)"
  "wc_expired (wm_counters (warning_notify d m)) = wc_expired (wm_counters m)"
  by (simp_all add: warning_notify_def Let_def)

lemma count_warning_simps [simp]:
  "wm_keys (count_warning f m) = wm_keys m" "wm_warnings (count_warning f m) = wm_warnings m"
  "wm_drawn (count_warning f m) = wm_drawn m" "wm_ttl (count_warning f m) = wm_ttl m"
  "wm_last_sequence (count_warning f m) = wm_last_sequence m" "wm_detectors (count_warning f m) = wm_detectors m"
  "wm_context (count_warning f m) = wm_context m" "wm_runtime_id (count_warning f m) = wm_runtime_id m"
  "wm_counters (count_warning f m) = f (wm_counters m)"
  by (simp_all add: count_warning_def)

text \<open>What every operation but \<open>clear\<close> does: it keeps the books, only adds warnings, and only lets them evolve.\<close>

definition grows :: "(nat \<Rightarrow> string) \<Rightarrow> warning_manager \<Rightarrow> warning_manager \<Rightarrow> bool" where
  "grows uuid m m' \<longleftrightarrow>
     books_ok uuid m' \<and> wm_ttl m' = wm_ttl m \<and> wm_detectors m' = wm_detectors m \<and>
     (\<forall>i w. dget (wm_warnings m) i = Some w \<longrightarrow> (\<exists>w'. dget (wm_warnings m') i = Some w' \<and> evolves w w'))"

lemma grows_refl: "books_ok uuid m \<Longrightarrow> grows uuid m m"
  by (auto simp: grows_def)

lemma grows_books: "grows uuid m m' \<Longrightarrow> books_ok uuid m'"
  by (simp add: grows_def)

lemma grows_trans: "grows uuid a b \<Longrightarrow> grows uuid b c \<Longrightarrow> grows uuid a c"
  unfolding grows_def by (metis evolves_trans)

lemma grows_same:
  "books_ok uuid m \<Longrightarrow> same_books m m' \<Longrightarrow> wm_ttl m' = wm_ttl m \<Longrightarrow> wm_detectors m' = wm_detectors m \<Longrightarrow> grows uuid m m'"
  using books_same by (auto simp: grows_def same_books_def)

lemma card_where_dset:
  assumes "dget d i = Some w"
  shows "card (keys_where P (dset i v d)) + of_bool (P w) = card (keys_where P d) + of_bool (P v)"
  using card_keys_where_dset[of P i v d] in_keys_where[OF assms, of P] by auto

lemma announce_grows:
  assumes ok: "books_ok uuid m" and w: "dget (wm_warnings m) i = Some w" "\<not> wl_resolved w" "evolves w (f w)"
    and m1: "wm_keys m1 = wm_keys m" "wm_warnings m1 = wm_warnings m" "wm_drawn m1 = wm_drawn m"
      "wm_ttl m1 = wm_ttl m" "wm_detectors m1 = wm_detectors m" "wc_emitted (wm_counters m1) = wc_emitted (wm_counters m)"
    and how: "\<not> wl_resolved (f w) \<and> \<not> wl_expired (f w) \<and> wc_resolved (wm_counters m1) = wc_resolved (wm_counters m) \<and>
        wc_expired (wm_counters m1) = wc_expired (wm_counters m) \<or>
      wl_resolved (f w) \<and> \<not> wl_expired (f w) \<and> wc_resolved (wm_counters m1) = wc_resolved (wm_counters m) + 1 \<and>
        wc_expired (wm_counters m1) = wc_expired (wm_counters m) \<or>
      wl_resolved (f w) \<and> wl_expired (f w) \<and> wc_resolved (wm_counters m1) = wc_resolved (wm_counters m) \<and>
        wc_expired (wm_counters m1) = wc_expired (wm_counters m) + 1"
  shows "grows uuid m (snd (announce_change i f change sequence m1))"
proof -
  let ?m' = "snd (announce_change i f change sequence m1)" and ?d = "dset i (f w) (wm_warnings m)"
  have m': "wm_keys ?m' = wm_keys m" "wm_warnings ?m' = ?d" "wm_drawn ?m' = wm_drawn m" "wm_ttl ?m' = wm_ttl m"
    "wm_detectors ?m' = wm_detectors m" "wc_emitted (wm_counters ?m') = wc_emitted (wm_counters m)"
    "wc_resolved (wm_counters ?m') = wc_resolved (wm_counters m1)" "wc_expired (wm_counters ?m') = wc_expired (wm_counters m1)"
    using w(1) m1 by (simp_all add: announce_change_def Let_def)
  have id: "wl_id (f w) = i" "wl_key (f w) = wl_key w"
    using w(3) books_okD(4)[OF ok w(1)] by (simp_all add: evolves_def)
  have alive: "\<not> wl_expired w" using books_okD(6)[OF ok w(1)] w(2) by blast
  have in_keys: "i \<in> set (dkeys (wm_warnings m))" using w(1) by (simp add: in_dkeys_iff del: set_map)
  have keys: "dkeys ?d = dkeys (wm_warnings m)" using in_keys by (simp only: dkeys_dset if_True)
  have len: "length ?d = length (wm_warnings m)" using keys by (metis length_map)
  have c1: "card (keys_where (\<lambda>w. wl_resolved w \<and> \<not> wl_expired w) ?d)
      = card (keys_where (\<lambda>w. wl_resolved w \<and> \<not> wl_expired w) (wm_warnings m)) + of_bool (wl_resolved (f w) \<and> \<not> wl_expired (f w))"
    using card_where_dset[OF w(1), of "\<lambda>w. wl_resolved w \<and> \<not> wl_expired w" "f w"] w(2) by simp
  have c2: "card (keys_where wl_expired ?d) = card (keys_where wl_expired (wm_warnings m)) + of_bool (wl_expired (f w))"
    using card_where_dset[OF w(1), of wl_expired "f w"] alive by simp
  have table: "\<forall>k j. dget (wm_keys m) k = Some j \<longrightarrow> (\<exists>w. dget ?d j = Some w \<and> wl_key w = k)"
  proof (intro allI impI)
    fix k j assume "dget (wm_keys m) k = Some j"
    then obtain v where v: "dget (wm_warnings m) j = Some v" "wl_key v = k" using books_okD(3)[OF ok] by blast
    show "\<exists>w. dget ?d j = Some w \<and> wl_key w = k"
      using v w(1) id(2) by (cases "j = i") (simp_all add: dget_dset)
  qed
  have recs: "\<forall>j v. dget ?d j = Some v \<longrightarrow> wl_id v = j \<and> (\<not> wl_resolved v \<longrightarrow> dget (wm_keys m) (wl_key v) = Some j) \<and>
      (wl_expired v \<longrightarrow> wl_resolved v)"
    using books_okD(4-6)[OF ok] id books_okD(5)[OF ok w(1,2)] how by (auto simp: dict_simps)
  have "books_ok uuid ?m'"
    using ok table recs c1 c2 how unfolding books_ok_def m' keys len by auto
  moreover have "\<forall>j v. dget (wm_warnings m) j = Some v \<longrightarrow> (\<exists>v'. dget ?d j = Some v' \<and> evolves v v')"
    using w by (auto simp: dict_simps)
  ultimately show ?thesis using m' by (simp add: grows_def)
qed

lemma activate_grows:
  assumes inj: "inj uuid" and ok: "books_ok uuid m"
    and free: "case find_by_key (wt_key t) m of None \<Rightarrow> True | Some w \<Rightarrow> wl_resolved w"
  shows "grows uuid m (count_warning (\<lambda>c. c\<lparr>wc_emitted := wc_emitted c + 1\<rparr>)
    (m\<lparr>wm_keys := dset (wt_key t) (uuid (wm_drawn m)) (wm_keys m),
       wm_warnings := dset (uuid (wm_drawn m)) (open_warning (uuid (wm_drawn m)) (wm_runtime_id m) t) (wm_warnings m),
       wm_drawn := wm_drawn m + 1\<rparr>))" (is "grows uuid m ?m'")
proof -
  let ?i = "uuid (wm_drawn m)" and ?w = "open_warning (uuid (wm_drawn m)) (wm_runtime_id m) t"
  have "set (dkeys (wm_warnings m)) \<subseteq> uuid ` {..<wm_drawn m}" using ok by (simp add: books_ok_def del: set_map)
  then have new: "?i \<notin> set (dkeys (wm_warnings m))" using inj by (auto simp: inj_eq simp del: set_map)
  then have none: "dget (wm_warnings m) ?i = None" by (simp add: dget_None_iff del: set_map)
  have other: "wl_key w \<noteq> wt_key t" if "dget (wm_warnings m) j = Some w" "\<not> wl_resolved w" for j w
    using free books_okD(5)[OF ok that] that by (auto simp: find_by_key_def)
  have w: "wl_id ?w = ?i" "wl_key ?w = wt_key t" "\<not> wl_resolved ?w" "\<not> wl_expired ?w"
    by (simp_all add: open_warning_def)
  have notk: "?i \<notin> keys_where P (wm_warnings m)" for P using new by (rule not_in_keys_where)
  have cards: "card (keys_where (\<lambda>w. wl_resolved w \<and> \<not> wl_expired w) (dset ?i ?w (wm_warnings m)))
      = card (keys_where (\<lambda>w. wl_resolved w \<and> \<not> wl_expired w) (wm_warnings m))"
    "card (keys_where wl_expired (dset ?i ?w (wm_warnings m))) = card (keys_where wl_expired (wm_warnings m))"
    using card_keys_where_dset[of "\<lambda>w. wl_resolved w \<and> \<not> wl_expired w" ?i ?w "wm_warnings m"]
      card_keys_where_dset[of wl_expired ?i ?w "wm_warnings m"] w notk by simp_all
  have len: "length (dset ?i ?w (wm_warnings m)) = length (wm_warnings m) + 1"
    using new by (simp add: dset_fresh del: set_map)
  have sub: "set (dkeys (dset ?i ?w (wm_warnings m))) \<subseteq> uuid ` {..<wm_drawn m + 1}"
  proof -
    have "set (dkeys (wm_warnings m)) \<subseteq> uuid ` {..<wm_drawn m}" using ok by (simp add: books_ok_def del: set_map)
    moreover have "uuid ` {..<wm_drawn m} \<subseteq> uuid ` {..<wm_drawn m + 1}" by (rule image_mono) auto
    moreover have "?i \<in> uuid ` {..<wm_drawn m + 1}" by simp
    ultimately show ?thesis unfolding set_dkeys_dset by blast
  qed
  have table: "\<forall>k j. dget (dset (wt_key t) ?i (wm_keys m)) k = Some j \<longrightarrow>
      (\<exists>v. dget (dset ?i ?w (wm_warnings m)) j = Some v \<and> wl_key v = k)"
  proof (intro allI impI)
    fix k j assume a: "dget (dset (wt_key t) ?i (wm_keys m)) k = Some j"
    show "\<exists>v. dget (dset ?i ?w (wm_warnings m)) j = Some v \<and> wl_key v = k"
    proof (cases "k = wt_key t")
      case True
      then show ?thesis using a w(2) by (simp add: dget_dset)
    next
      case False
      then obtain v where v: "dget (wm_warnings m) j = Some v" "wl_key v = k"
        using a books_okD(3)[OF ok, of k j] by (auto simp: dget_dset)
      then show ?thesis using none by (cases "j = ?i") (simp_all add: dget_dset)
    qed
  qed
  have recs: "\<forall>j v. dget (dset ?i ?w (wm_warnings m)) j = Some v \<longrightarrow> wl_id v = j \<and>
      (\<not> wl_resolved v \<longrightarrow> dget (dset (wt_key t) ?i (wm_keys m)) (wl_key v) = Some j) \<and> (wl_expired v \<longrightarrow> wl_resolved v)"
    using books_okD(4-6)[OF ok] w other by (auto simp: dict_simps)
  have "books_ok uuid ?m'"
    using ok sub table recs cards len unfolding books_ok_def
    by (simp del: set_map distinct_map set_dkeys_dset)
  moreover have "\<forall>j v. dget (wm_warnings m) j = Some v \<longrightarrow> (\<exists>v'. dget (wm_warnings ?m') j = Some v' \<and> evolves v v')"
    using none by (auto simp: dict_simps)
  ultimately show ?thesis by (simp add: grows_def)
qed

lemma find_by_key_ok:
  assumes "books_ok uuid m" "find_by_key k m = Some w"
  obtains i where "dget (wm_keys m) k = Some i" "dget (wm_warnings m) i = Some w" "wl_key w = k"
  using assms books_okD(3)[OF assms(1)] by (fastforce simp: find_by_key_def bind_eq_Some_conv)

lemma dedup_cases:
  "evaluate_dedup existing s = Activate \<Longrightarrow> (case existing of None \<Rightarrow> True | Some w \<Rightarrow> wl_resolved w)"
  "evaluate_dedup existing s = Refresh \<Longrightarrow> \<exists>w. existing = Some w \<and> \<not> wl_resolved w"
  by (auto simp: evaluate_dedup_def split: option.splits if_splits)

lemma apply_trigger_grows:
  assumes inj: "inj uuid" and ok: "books_ok uuid m"
  shows "grows uuid m (snd (apply_trigger uuid t m))"
proof (cases "evaluate_dedup (find_by_key (wt_key t) m) (wt_sequence t)")
  case Suppress
  then show ?thesis
    by (simp add: apply_trigger_def grows_same[OF ok] same_books_def)
next
  case Activate
  let ?i = "uuid (wm_drawn m)"
  define m1 where "m1 = count_warning (\<lambda>c. c\<lparr>wc_emitted := wc_emitted c + 1\<rparr>)
    (m\<lparr>wm_keys := dset (wt_key t) ?i (wm_keys m), wm_warnings := dset ?i (open_warning ?i (wm_runtime_id m) t) (wm_warnings m),
       wm_drawn := wm_drawn m + 1\<rparr>)"
  have g: "grows uuid m m1" unfolding m1_def by (rule activate_grows[OF inj ok dedup_cases(1)[OF Activate]])
  have w: "dget (wm_warnings m1) ?i = Some (open_warning ?i (wm_runtime_id m) t)" by (simp add: m1_def dget_dset)
  have "grows uuid m1 (snd (announce_change ?i (\<lambda>w. w) WActivated (wt_sequence t) m1))"
    by (rule announce_grows[OF grows_books[OF g] w]) (simp_all add: open_warning_def)
  then show ?thesis using Activate grows_trans[OF g] unfolding apply_trigger_def Let_def m1_def by simp
next
  case Refresh
  then obtain w where w: "find_by_key (wt_key t) m = Some w" "\<not> wl_resolved w" using dedup_cases(2) by blast
  then obtain i where i: "dget (wm_keys m) (wt_key t) = Some i" "dget (wm_warnings m) i = Some w"
    using find_by_key_ok[OF ok] by metis
  let ?f = "\<lambda>w. let w1 = mark_observed (wt_sequence t) (wt_monotonic_ns t) (wt_wall_seconds t) (Some (wt_message t)) w
    in w1\<lparr>wl_metadata := dict_update (wt_metadata t) (wl_metadata w1)\<rparr>"
  have "\<not> wl_expired w" using books_okD(6)[OF ok i(2)] w(2) by blast
  then have "grows uuid m (snd (announce_change i ?f WDeduplicated (wt_sequence t) m))"
    using w(2) by (intro announce_grows[OF ok i(2)]) (simp_all add: Let_def evolves_steps, simp_all add: mark_observed_def)
  then show ?thesis using Refresh i(1) by (simp add: apply_trigger_def)
qed

lemma apply_triggers_grows:
  "inj uuid \<Longrightarrow> books_ok uuid m \<Longrightarrow> grows uuid m (snd (apply_triggers uuid ts m))"
proof (induction ts arbitrary: m)
  case (Cons t ts)
  have g: "grows uuid m (snd (apply_trigger uuid t m))" by (rule apply_trigger_grows[OF Cons.prems])
  from grows_trans[OF g Cons.IH[OF Cons.prems(1) grows_books[OF g]]] show ?case by (simp add: case_prod_unfold Let_def)
qed (simp add: grows_refl)

lemma count_grows:
  assumes "books_ok uuid m" "\<And>c. wc_emitted (f c) = wc_emitted c \<and> wc_resolved (f c) = wc_resolved c \<and> wc_expired (f c) = wc_expired c"
  shows "grows uuid m (count_warning f m)"
  by (rule grows_same[OF assms(1)]) (simp_all add: same_books_def assms(2))

lemma run_event_detectors_grows:
  "inj uuid \<Longrightarrow> books_ok uuid m \<Longrightarrow> grows uuid m (snd (run_event_detectors uuid e s ds m))"
proof (induction ds arbitrary: m)
  case (Cons d ds)
  define m1 where "m1 = snd (case wd_event d (wm_context m) e s of
      None \<Rightarrow> ([], count_warning (\<lambda>c. c\<lparr>wc_detector_failures := wc_detector_failures c + 1\<rparr>) m)
    | Some ts \<Rightarrow> apply_triggers uuid ts (count_warning (\<lambda>c. c\<lparr>wc_evaluations_run := wc_evaluations_run c + 1\<rparr>) m))"
  have c: "grows uuid m (count_warning (\<lambda>c. c\<lparr>wc_evaluations_run := wc_evaluations_run c + 1\<rparr>) m)"
    "grows uuid m (count_warning (\<lambda>c. c\<lparr>wc_detector_failures := wc_detector_failures c + 1\<rparr>) m)"
    by (rule count_grows[OF Cons.prems(2)]; simp)+
  have g: "grows uuid m m1"
    using c grows_trans[OF c(1) apply_triggers_grows[OF Cons.prems(1) grows_books[OF c(1)]]]
    by (cases "wd_event d (wm_context m) e s") (simp_all add: m1_def)
  from grows_trans[OF g Cons.IH[OF Cons.prems(1) grows_books[OF g]]] show ?case
    by (simp add: case_prod_unfold m1_def Let_def)
qed (simp add: grows_refl)

lemma apply_event_grows:
  assumes "inj uuid" "books_ok uuid m"
  shows "grows uuid m (snd (warning_apply_event uuid e s m))"
proof -
  define m1 where "m1 = snd (run_event_detectors uuid e s (dvals (wm_detectors m)) m)"
  have g: "grows uuid m m1" unfolding m1_def by (rule run_event_detectors_grows[OF assms])
  have "grows uuid m1 (count_warning (\<lambda>c. c\<lparr>wc_last_event_sequence := n\<rparr>) (m1\<lparr>wm_last_sequence := n\<rparr>))" for n
    by (rule grows_same[OF grows_books[OF g]]) (simp_all add: same_books_def)
  then show ?thesis using grows_trans[OF g] g
    by (cases s) (simp_all add: warning_apply_event_def case_prod_unfold m1_def Let_def)
qed

lemma resolve_grows:
  assumes ok: "books_ok uuid m" and w: "dget (wm_warnings m) i = Some w" "\<not> wl_resolved w"
  shows "grows uuid m (snd (mark_resolved_internal i s ns wall m))"
proof -
  have "\<not> wl_expired w" using books_okD(6)[OF ok w(1)] w(2) by blast
  then show ?thesis using w(2) unfolding mark_resolved_internal_def
    by (intro announce_grows[OF ok w]) (simp_all add: evolves_steps, simp_all add: mark_resolved_def)
qed

lemma resolve_unfired_grows:
  "books_ok uuid m \<Longrightarrow> grows uuid m (snd (resolve_unfired name fired ns wall is m))"
proof (induction "is" arbitrary: m)
  case (Cons i "is")
  define m1 where "m1 = snd (case dget (wm_warnings m) i of
      Some w \<Rightarrow> if wl_detector w = name \<and> \<not> wl_resolved w \<and> wl_key w \<notin> set fired
        then mark_resolved_internal i (Some (wm_last_sequence m)) ns wall m else ([], m)
    | None \<Rightarrow> ([], m))"
  have g: "grows uuid m m1"
    using resolve_grows[OF Cons.prems] grows_refl[OF Cons.prems] by (auto simp: m1_def split: option.split)
  from grows_trans[OF g Cons.IH[OF grows_books[OF g]]] show ?case by (simp add: case_prod_unfold m1_def Let_def)
qed (simp add: grows_refl)

lemma sweep_grows:
  "books_ok uuid m \<Longrightarrow> grows uuid m (snd (sweep_expired ns wall is m))"
proof (induction "is" arbitrary: m)
  case (Cons i "is")
  define m1 where "m1 = snd (case dget (wm_warnings m) i of
      Some w \<Rightarrow> if is_expired (wm_ttl m) w ns
        then announce_change i (mark_expired ns wall) WExpired (Some (wm_last_sequence m))
               (count_warning (\<lambda>c. c\<lparr>wc_expired := wc_expired c + 1\<rparr>) m)
        else ([], m)
    | None \<Rightarrow> ([], m))"
  have "grows uuid m (snd (announce_change i (mark_expired ns wall) WExpired (Some (wm_last_sequence m))
      (count_warning (\<lambda>c. c\<lparr>wc_expired := wc_expired c + 1\<rparr>) m)))"
    if "dget (wm_warnings m) i = Some w" "is_expired (wm_ttl m) w ns" for w
  proof -
    have w: "\<not> wl_resolved w" "\<not> wl_expired w"
      using that books_okD(6)[OF Cons.prems that(1)] by (auto simp: is_expired_def)
    then show ?thesis
      by (intro announce_grows[OF Cons.prems that(1)]) (simp_all add: evolves_steps, simp_all add: mark_expired_def)
  qed
  then have g: "grows uuid m m1" using grows_refl[OF Cons.prems] by (auto simp: m1_def split: option.split)
  from grows_trans[OF g Cons.IH[OF grows_books[OF g]]] show ?case by (simp add: case_prod_unfold m1_def Let_def)
qed (simp add: grows_refl)

text \<open>One snapshot-driven evaluation.\<close>

definition snapshot_step ::
    "(nat \<Rightarrow> string) \<Rightarrow> int \<Rightarrow> real \<Rightarrow> warning_detector \<Rightarrow> warning_manager \<Rightarrow> warning_manager" where
  "snapshot_step uuid ns wall d m = snd (run_snapshot_detectors uuid ns wall [d] m)"

lemma run_snapshot_Cons:
  "snd (run_snapshot_detectors uuid ns wall (d # ds) m)
     = snd (run_snapshot_detectors uuid ns wall ds (snapshot_step uuid ns wall d m))"
  by (simp add: snapshot_step_def case_prod_unfold Let_def split: option.split)

lemma snapshot_step_alt:
  "snapshot_step uuid ns wall d m =
     (let (r, ctx) = wd_snapshot d (wm_context m) ns wall; m0 = m\<lparr>wm_context := ctx\<rparr> in
      (case r of
         None \<Rightarrow> count_warning (\<lambda>c. c\<lparr>wc_detector_failures := wc_detector_failures c + 1\<rparr>) m0
       | Some ts \<Rightarrow>
           let ma = snd (apply_triggers uuid ts (count_warning (\<lambda>c. c\<lparr>wc_evaluations_run := wc_evaluations_run c + 1\<rparr>) m0)) in
           if wd_snapshot_driven d
           then snd (resolve_unfired (wd_name d) (map wt_key ts) ns wall (dvals (wm_keys ma)) ma) else ma))"
  by (simp add: snapshot_step_def case_prod_unfold Let_def split: option.split)

lemma snapshot_step_grows:
  assumes "inj uuid" "books_ok uuid m"
  shows "grows uuid m (snapshot_step uuid ns wall d m)"
proof -
  obtain r ctx where r: "wd_snapshot d (wm_context m) ns wall = (r, ctx)" by fastforce
  let ?m0 = "m\<lparr>wm_context := ctx\<rparr>"
  have g0: "grows uuid m ?m0" by (rule grows_same[OF assms(2)]) (simp_all add: same_books_def)
  have c: "grows uuid ?m0 (count_warning (\<lambda>c. c\<lparr>wc_evaluations_run := wc_evaluations_run c + 1\<rparr>) ?m0)"
    "grows uuid ?m0 (count_warning (\<lambda>c. c\<lparr>wc_detector_failures := wc_detector_failures c + 1\<rparr>) ?m0)"
    by (rule count_grows[OF grows_books[OF g0]]; simp)+
  show ?thesis
  proof (cases r)
    case None
    then show ?thesis using grows_trans[OF g0 c(2)] r by (simp add: snapshot_step_alt)
  next
    case (Some ts)
    define ma where "ma = snd (apply_triggers uuid ts (count_warning (\<lambda>c. c\<lparr>wc_evaluations_run := wc_evaluations_run c + 1\<rparr>) ?m0))"
    have "grows uuid ?m0 ma"
      unfolding ma_def by (rule grows_trans[OF c(1) apply_triggers_grows[OF assms(1) grows_books[OF c(1)]]])
    then have g: "grows uuid m ma" by (rule grows_trans[OF g0])
    have "snapshot_step uuid ns wall d m = (if wd_snapshot_driven d
        then snd (resolve_unfired (wd_name d) (map wt_key ts) ns wall (dvals (wm_keys ma)) ma) else ma)"
      unfolding snapshot_step_alt r Some ma_def Let_def by simp
    then show ?thesis using g grows_trans[OF g resolve_unfired_grows[OF grows_books[OF g]]] by simp
  qed
qed

lemma run_snapshot_grows:
  "inj uuid \<Longrightarrow> books_ok uuid m \<Longrightarrow> grows uuid m (snd (run_snapshot_detectors uuid ns wall ds m))"
proof (induction ds arbitrary: m)
  case (Cons d ds)
  have g: "grows uuid m (snapshot_step uuid ns wall d m)" by (rule snapshot_step_grows[OF Cons.prems])
  from grows_trans[OF g Cons.IH[OF Cons.prems(1) grows_books[OF g]]] show ?case by (simp only: run_snapshot_Cons)
qed (simp add: grows_refl)

lemma evaluate_grows:
  assumes "inj uuid" "books_ok uuid m"
  shows "grows uuid m (snd (warning_evaluate uuid ns wall m))"
proof -
  let ?m1 = "snd (run_snapshot_detectors uuid ns wall (dvals (wm_detectors m)) m)"
  have g: "grows uuid m ?m1" by (rule run_snapshot_grows[OF assms])
  from grows_trans[OF g sweep_grows[OF grows_books[OF g]]] show ?thesis
    by (simp add: warning_evaluate_def case_prod_unfold Let_def)
qed

section \<open>Runs of a manager\<close>

datatype warning_call =
    WEvent runtime_event "int option"
  | WEvaluate int real
  | WResolve string "int option" int real
  | WSnapshot int real

fun warning_do :: "(nat \<Rightarrow> string) \<Rightarrow> warning_call \<Rightarrow> warning_manager \<Rightarrow> warning_manager" where
  "warning_do uuid (WEvent e s) m = snd (warning_apply_event uuid e s m)"
| "warning_do uuid (WEvaluate ns wall) m = snd (warning_evaluate uuid ns wall m)"
| "warning_do uuid (WResolve i s ns wall) m = snd (snd (resolve_warning i s ns wall m))"
| "warning_do uuid (WSnapshot ns wall) m = snd (snd (warning_snapshot_at ns wall m))"

lemma warning_do_grows:
  assumes "inj uuid" "books_ok uuid m"
  shows "grows uuid m (warning_do uuid c m)"
proof (cases c)
  case (WResolve i s ns wall)
  then show ?thesis using resolve_grows[OF assms(2)] grows_refl[OF assms(2)]
    by (auto simp: resolve_warning_def split: option.split)
next
  case (WSnapshot ns wall)
  have g: "grows uuid m (snd (sweep_expired ns wall (dvals (wm_keys m)) m))" by (rule sweep_grows[OF assms(2)])
  have "grows uuid (snd (sweep_expired ns wall (dvals (wm_keys m)) m))
      (count_warning (\<lambda>c. c\<lparr>wc_snapshots := wc_snapshots c + 1\<rparr>) (snd (sweep_expired ns wall (dvals (wm_keys m)) m)))"
    by (rule count_grows[OF grows_books[OF g]]) simp
  from grows_trans[OF g this] show ?thesis using WSnapshot
    by (simp add: warning_snapshot_at_def case_prod_unfold Let_def)
qed (use apply_event_grows[OF assms] evaluate_grows[OF assms] in simp_all)

lemma warning_run_grows:
  "inj uuid \<Longrightarrow> books_ok uuid m \<Longrightarrow> grows uuid m (fold (warning_do uuid) cs m)"
proof (induction cs arbitrary: m)
  case (Cons c cs)
  have g: "grows uuid m (warning_do uuid c m)" by (rule warning_do_grows[OF Cons.prems])
  from grows_trans[OF g Cons.IH[OF Cons.prems(1) grows_books[OF g]]] show ?case by simp
qed (simp add: grows_refl)

lemma register_all_books: "books_ok uuid m \<Longrightarrow> register_all ds m = Some m' \<Longrightarrow> books_ok uuid m'"
proof (induction ds arbitrary: m)
  case (Cons d ds)
  then obtain m1 where m1: "register_detector d m = Some m1" "register_all ds m1 = Some m'"
    by (auto simp: bind_eq_Some_conv)
  have "same_books m m1" using m1(1) by (auto simp: register_detector_def same_books_def split: if_splits)
  then show ?case using Cons.IH[OF books_same[OF Cons.prems(1)] m1(2)] by blast
qed simp

lemma new_manager_books:
  assumes "new_warning_manager ctx ds ttl rt = Some m"
  shows "books_ok uuid m"
  using assms unfolding new_warning_manager_def
  by (rule register_all_books[rotated]) (simp add: books_ok_def no_warning_counters_def)

text \<open>The manager's tables after \<open>clear\<close> are empty, whatever was drawn before.\<close>

lemma clear_books: "books_ok uuid (warning_clear m)"
  by (simp add: books_ok_def warning_clear_def no_warning_counters_def)

lemma key_entry:
  assumes ok: "books_ok uuid m" and "(k, i) \<in> set (wm_keys m)"
  shows "\<exists>w. dget (wm_warnings m) i = Some w \<and> wl_key w = k \<and> wl_id w = i"
proof -
  have "dget (wm_keys m) k = Some i" using assms(2) distinct_in_dict[OF books_okD(1)[OF ok]] by blast
  then obtain w where "dget (wm_warnings m) i = Some w" "wl_key w = k" using books_okD(3)[OF ok] by blast
  then show ?thesis using books_okD(4)[OF ok] by blast
qed

lemma view_tables:
  assumes ok: "books_ok uuid m" and "set d \<subseteq> set (wm_keys m)"
  shows "map wl_key (List.map_filter (dget (wm_warnings m)) (dvals d)) = dkeys d \<and>
    map wl_id (List.map_filter (dget (wm_warnings m)) (dvals d)) = dvals d"
  using assms(2)
proof (induction d)
  case (Cons p d)
  obtain k i where p: "p = (k, i)" by fastforce
  obtain w where "dget (wm_warnings m) i = Some w" "wl_key w = k" "wl_id w = i" using key_entry[OF ok, of k i] Cons.prems p by auto
  then show ?case using Cons p by (simp add: List.map_filter_def)
qed (simp add: List.map_filter_def)

lemma view_keys:
  assumes ok: "books_ok uuid m"
  shows "map wl_key (lifecycles_view m) = dkeys (wm_keys m)" "map wl_id (lifecycles_view m) = dvals (wm_keys m)"
  using view_tables[OF ok, of "wm_keys m"] by (simp_all add: lifecycles_view_def)

lemma view_distinct:
  assumes ok: "books_ok uuid m"
  shows "distinct (map wl_key (lifecycles_view m))" "distinct (map wl_id (lifecycles_view m))"
proof -
  show "distinct (map wl_key (lifecycles_view m))" unfolding view_keys(1)[OF ok] by (rule books_okD(1)[OF ok])
  have "inj_on snd (set (wm_keys m))"
  proof (rule inj_onI)
    fix p q assume pq: "p \<in> set (wm_keys m)" "q \<in> set (wm_keys m)" "snd p = snd q"
    obtain w where "dget (wm_warnings m) (snd p) = Some w" "wl_key w = fst p" using key_entry[OF ok, of "fst p" "snd p"] pq(1) by auto
    moreover obtain w' where "dget (wm_warnings m) (snd q) = Some w'" "wl_key w' = fst q"
      using key_entry[OF ok, of "fst q" "snd q"] pq(2) by auto
    ultimately show "p = q" using pq(3) by (simp add: prod_eq_iff)
  qed
  moreover have "distinct (wm_keys m)" using books_okD(1)[OF ok] by (simp add: distinct_map)
  ultimately show "distinct (map wl_id (lifecycles_view m))"
    unfolding view_keys(2)[OF ok] distinct_map by blast
qed

lemma in_view:
  assumes ok: "books_ok uuid m"
  shows "w \<in> set (lifecycles_view m) \<longleftrightarrow> find_by_key (wl_key w) m = Some w"
proof
  assume "w \<in> set (lifecycles_view m)"
  then obtain i where i: "i \<in> set (dvals (wm_keys m))" "dget (wm_warnings m) i = Some w"
    unfolding lifecycles_view_def in_map_filter by blast
  then obtain k where k: "(k, i) \<in> set (wm_keys m)" by auto
  then have "wl_key w = k" using key_entry[OF ok k] i(2) by auto
  moreover have "dget (wm_keys m) k = Some i" using k distinct_in_dict[OF books_okD(1)[OF ok]] by blast
  ultimately show "find_by_key (wl_key w) m = Some w" using i(2) by (simp add: find_by_key_def)
next
  assume "find_by_key (wl_key w) m = Some w"
  then obtain i where i: "dget (wm_keys m) (wl_key w) = Some i" "dget (wm_warnings m) i = Some w"
    by (auto simp: find_by_key_def bind_eq_Some_conv)
  then have "i \<in> set (dvals (wm_keys m))" using map_of_SomeD by force
  then show "w \<in> set (lifecycles_view m)" using i(2) unfolding lifecycles_view_def in_map_filter by blast
qed

lemma in_active_view:
  assumes ok: "books_ok uuid m"
  shows "w \<in> set (active_view m) \<longleftrightarrow> dget (wm_warnings m) (wl_id w) = Some w \<and> \<not> wl_resolved w"
proof
  assume "w \<in> set (active_view m)"
  then have "find_by_key (wl_key w) m = Some w" "\<not> wl_resolved w" using in_view[OF ok] by (auto simp: active_view_def)
  then obtain i where "dget (wm_warnings m) i = Some w" "\<not> wl_resolved w" using find_by_key_ok[OF ok] by metis
  then show "dget (wm_warnings m) (wl_id w) = Some w \<and> \<not> wl_resolved w" using books_okD(4)[OF ok] by blast
next
  assume w: "dget (wm_warnings m) (wl_id w) = Some w \<and> \<not> wl_resolved w"
  then have "dget (wm_keys m) (wl_key w) = Some (wl_id w)" using books_okD(5)[OF ok] by blast
  then have "find_by_key (wl_key w) m = Some w" using w by (simp add: find_by_key_def)
  then show "w \<in> set (active_view m)" using w in_view[OF ok] by (simp add: active_view_def)
qed

lemma active_count_exact:
  assumes ok: "books_ok uuid m"
  shows "length (active_view m) = card (keys_where (\<lambda>w. \<not> wl_resolved w) (wm_warnings m))"
proof -
  have "set (map wl_id (active_view m)) = keys_where (\<lambda>w. \<not> wl_resolved w) (wm_warnings m)"
  proof (intro set_eqI iffI)
    fix i assume "i \<in> set (map wl_id (active_view m))"
    then show "i \<in> keys_where (\<lambda>w. \<not> wl_resolved w) (wm_warnings m)"
      using in_active_view[OF ok] by (auto simp: keys_where_def)
  next
    fix i assume "i \<in> keys_where (\<lambda>w. \<not> wl_resolved w) (wm_warnings m)"
    then obtain w where w: "dget (wm_warnings m) i = Some w" "\<not> wl_resolved w" by (auto simp: keys_where_def)
    then have "wl_id w = i" using books_okD(4)[OF ok] by blast
    then show "i \<in> set (map wl_id (active_view m))" using w in_active_view[OF ok, of w] by force
  qed
  moreover have "distinct (map wl_id (active_view m))"
    using view_distinct(2)[OF ok] unfolding active_view_def by (rule distinct_map_filter)
  ultimately show ?thesis by (metis distinct_card length_map)
qed

lemma card_split3:
  assumes "distinct (dkeys d)" "\<And>k w. dget d k = Some w \<Longrightarrow> wl_expired w \<Longrightarrow> wl_resolved w"
  shows "length d = card (keys_where (\<lambda>w. \<not> wl_resolved w) d) + card (keys_where (\<lambda>w. wl_resolved w \<and> \<not> wl_expired w) d)
    + card (keys_where wl_expired d)"
proof -
  let ?A = "keys_where (\<lambda>w. \<not> wl_resolved w) d" and ?B = "keys_where (\<lambda>w. wl_resolved w \<and> \<not> wl_expired w) d"
    and ?C = "keys_where wl_expired d"
  have "k \<in> set (dkeys d) \<longleftrightarrow> k \<in> ?A \<union> ?B \<union> ?C" for k
    by (cases "dget d k") (auto simp: keys_where_def in_dkeys_iff simp del: set_map)
  then have "set (dkeys d) = ?A \<union> ?B \<union> ?C" by blast
  moreover have "?A \<inter> ?B = {}" "(?A \<union> ?B) \<inter> ?C = {}" using assms(2) by (auto simp: keys_where_def)
  ultimately have "card (set (dkeys d)) = card ?A + card ?B + card ?C"
    by (simp only: card_Un_disjoint finite_UnI finite_keys_where)
  then show ?thesis using distinct_card[OF assms(1)] by simp
qed

text \<open>C30: The manager's books balance. Whatever events, evaluations, manual resolutions and snapshots a manager goes through, with
  any detectors, every warning it emitted is active, or was counted as resolved, or as expired, exactly once; no two open warnings
  share a key, an open warning is the one its key finds, and one found by an id has that id.
\<close>

theorem warnings_are_conserved:
  assumes "inj uuid" and "new_warning_manager ctx ds ttl rt = Some m0" and "m = fold (warning_do uuid) cs m0"
  shows "wc_emitted (wm_counters m) = length (active_view m) + wc_resolved (wm_counters m) + wc_expired (wm_counters m) \<and>
    distinct (map wl_key (lifecycles_view m)) \<and> distinct (map wl_id (lifecycles_view m)) \<and>
    (\<forall>w\<in>set (active_view m). find_by_key (wl_key w) m = Some w \<and> dget (wm_warnings m) (wl_id w) = Some w \<and>
       \<not> wl_expired w) \<and>
    (\<forall>i w. dget (wm_warnings m) i = Some w \<longrightarrow> wl_id w = i)"
proof -
  have ok: "books_ok uuid m"
    unfolding assms(3) by (rule grows_books[OF warning_run_grows[OF assms(1) new_manager_books[OF assms(2)]]])
  have emitted: "wc_emitted (wm_counters m) = length (wm_warnings m)"
    "wc_resolved (wm_counters m) = card (keys_where (\<lambda>w. wl_resolved w \<and> \<not> wl_expired w) (wm_warnings m))"
    "wc_expired (wm_counters m) = card (keys_where wl_expired (wm_warnings m))"
    using ok by (simp_all add: books_ok_def)
  have active: "find_by_key (wl_key w) m = Some w \<and> dget (wm_warnings m) (wl_id w) = Some w \<and> \<not> wl_expired w"
    if "w \<in> set (active_view m)" for w
  proof -
    have w: "dget (wm_warnings m) (wl_id w) = Some w" "\<not> wl_resolved w" using that in_active_view[OF ok] by blast+
    moreover have "find_by_key (wl_key w) m = Some w"
      using books_okD(5)[OF ok w] w(1) unfolding find_by_key_def by simp
    ultimately show ?thesis using books_okD(6)[OF ok w(1)] by blast
  qed
  have "length (wm_warnings m) = length (active_view m) + wc_resolved (wm_counters m) + wc_expired (wm_counters m)"
    unfolding active_count_exact[OF ok] emitted(2,3) by (rule card_split3[OF books_okD(2)[OF ok] books_okD(6)[OF ok]])
  then have "wc_emitted (wm_counters m) = length (active_view m) + wc_resolved (wm_counters m) + wc_expired (wm_counters m)"
    using emitted(1) by simp
  then show ?thesis using active view_distinct[OF ok] books_okD(4)[OF ok] by blast
qed

text \<open>A warning never gets more severe, and a closed one never changes. Over any calls, a warning keeps its key, type, severity
  and creation, its occurrences only grow, and once resolved or expired it stays exactly as it is. So an escalation, which the
  group detector is documented to pass on by raising the severity, only replaces the message.
\<close>

theorem severity_is_final:
  assumes "inj uuid" and "new_warning_manager ctx ds ttl rt = Some m0"
    and "dget (wm_warnings (fold (warning_do uuid) cs m0)) i = Some w"
  shows "\<exists>w'. dget (wm_warnings (fold (warning_do uuid) (cs @ cs') m0)) i = Some w' \<and>
    wl_key w' = wl_key w \<and> wl_type w' = wl_type w \<and> wl_severity w' = wl_severity w \<and>
    wl_created_sequence w' = wl_created_sequence w \<and> wl_occurrences w \<le> wl_occurrences w' \<and>
    (wl_resolved w \<longrightarrow> w' = w)"
proof -
  have ok: "books_ok uuid (fold (warning_do uuid) cs m0)"
    by (rule grows_books[OF warning_run_grows[OF assms(1) new_manager_books[OF assms(2)]]])
  have "grows uuid (fold (warning_do uuid) cs m0) (fold (warning_do uuid) (cs @ cs') m0)"
    using warning_run_grows[OF assms(1) ok, of cs'] by simp
  then show ?thesis using assms(3) by (fastforce simp: grows_def evolves_def)
qed

section \<open>Expiry\<close>

lemma announce_change_simps [simp]:
  "wm_keys (snd (announce_change i f c s m)) = wm_keys m"
  "wm_ttl (snd (announce_change i f c s m)) = wm_ttl m"
  "wm_warnings (snd (announce_change i f c s m)) =
     (case dget (wm_warnings m) i of None \<Rightarrow> wm_warnings m | Some w \<Rightarrow> dset i (f w) (wm_warnings m))"
  by (simp_all add: announce_change_def Let_def split: option.split)

lemma sweep_keys [simp]: "wm_keys (snd (sweep_expired ns wall is m)) = wm_keys m"
  by (induction "is" arbitrary: m) (simp_all add: case_prod_unfold Let_def split: option.split)

text \<open>What a sweep or a resolution pass leaves open it has not touched.\<close>

lemma sweep_untouched:
  "books_ok uuid m \<Longrightarrow> dget (wm_warnings (snd (sweep_expired ns wall is m))) i = Some w \<Longrightarrow> \<not> wl_resolved w \<Longrightarrow>
     dget (wm_warnings m) i = Some w \<and> (i \<in> set is \<longrightarrow> \<not> is_expired (wm_ttl m) w ns)"
proof (induction "is" arbitrary: m)
  case (Cons j "is")
  define m1 where "m1 = snd (case dget (wm_warnings m) j of
      Some w \<Rightarrow> if is_expired (wm_ttl m) w ns
        then announce_change j (mark_expired ns wall) WExpired (Some (wm_last_sequence m))
               (count_warning (\<lambda>c. c\<lparr>wc_expired := wc_expired c + 1\<rparr>) m)
        else ([], m)
    | None \<Rightarrow> ([], m))"
  have ttl: "wm_ttl m1 = wm_ttl m" by (simp add: m1_def split: option.split)
  have "snd (sweep_expired ns wall (j # is) m) = snd (sweep_expired ns wall is m1)"
    by (simp add: case_prod_unfold m1_def Let_def)
  moreover have eq1: "m1 = snd (sweep_expired ns wall [j] m)"
    by (simp add: case_prod_unfold m1_def Let_def split: option.split)
  moreover have "books_ok uuid m1" unfolding eq1 by (rule grows_books[OF sweep_grows[OF Cons.prems(1)]])
  ultimately have IH: "dget (wm_warnings m1) i = Some w" "i \<in> set is \<longrightarrow> \<not> is_expired (wm_ttl m) w ns"
    using Cons.IH[of m1] Cons.prems ttl by simp_all
  have closed: "wl_resolved (mark_expired ns wall v)" if "\<not> wl_expired v \<or> wl_resolved v" for v
    using that by (auto simp: mark_expired_def Let_def)
  show ?case
  proof (cases "dget (wm_warnings m) j")
    case None
    then show ?thesis using IH by (auto simp: m1_def)
  next
    case (Some v)
    show ?thesis
    proof (cases "is_expired (wm_ttl m) v ns")
      case False
      then show ?thesis using IH Some by (auto simp: m1_def)
    next
      case True
      then have w1: "wm_warnings m1 = dset j (mark_expired ns wall v) (wm_warnings m)" using Some by (simp add: m1_def)
      have "j \<noteq> i"
      proof
        assume "j = i"
        then have eq: "w = mark_expired ns wall v" using IH(1) w1 by (simp add: dget_dset)
        have "\<not> wl_expired v \<or> wl_resolved v" using books_okD(6)[OF Cons.prems(1) Some] by blast
        then show False using closed eq Cons.prems(3) by simp
      qed
      then show ?thesis using IH w1 by (simp add: dget_dset)
    qed
  qed
qed simp

text \<open>C33: Silence closes a warning. After any calls, an evaluation at a time \<open>ns\<close> leaves open only warnings observed less than the
  time to live before, whatever the detectors do; a warning nobody observes for that long is therefore closed by the next
  evaluation, or by the next snapshot.
\<close>

theorem silent_warnings_close:
  assumes "inj uuid" and "new_warning_manager ctx ds ttl rt = Some m0" and "m = fold (warning_do uuid) cs m0"
  shows "(\<forall>w\<in>set (active_view (snd (warning_evaluate uuid ns wall m))). ns - wl_last_monotonic_ns w < py_int (ttl * 10 ^ 9)) \<and>
    (\<forall>w\<in>set (vs_active (fst (warning_snapshot_at ns wall m))). ns - wl_last_monotonic_ns w < py_int (ttl * 10 ^ 9))"
proof -
  have ok0: "books_ok uuid m0" by (rule new_manager_books[OF assms(2)])
  have g: "grows uuid m0 m" unfolding assms(3) by (rule warning_run_grows[OF assms(1) ok0])
  have reg: "register_all ds x = Some y \<Longrightarrow> wm_ttl y = wm_ttl x" for ds x y
    by (induction ds arbitrary: x) (auto simp: register_detector_def bind_eq_Some_conv split: if_splits)
  have "wm_ttl m0 = ttl" using reg assms(2) by (fastforce simp: new_warning_manager_def)
  then have ttl: "wm_ttl m = ttl" using g by (simp add: grows_def)
  have sweep: "ns - wl_last_monotonic_ns w < py_int (ttl * 10 ^ 9)"
    if x: "books_ok uuid x" "wm_ttl x = ttl" and w: "w \<in> set (active_view (snd (sweep_expired ns wall (dvals (wm_keys x)) x)))" for x w
  proof -
    let ?y = "snd (sweep_expired ns wall (dvals (wm_keys x)) x)"
    have ok: "books_ok uuid ?y" by (rule grows_books[OF sweep_grows[OF x(1)]])
    have w': "dget (wm_warnings ?y) (wl_id w) = Some w" "\<not> wl_resolved w" using in_active_view[OF ok] w by blast+
    have "dget (wm_keys ?y) (wl_key w) = Some (wl_id w)" by (rule books_okD(5)[OF ok w'])
    then have "wl_id w \<in> set (dvals (wm_keys x))" using map_of_SomeD by force
    then have "\<not> is_expired (wm_ttl x) w ns" using sweep_untouched[OF x(1) w'] by blast
    then show ?thesis using w'(2) x(2) by (simp add: is_expired_def)
  qed
  have m1: "grows uuid m (snd (run_snapshot_detectors uuid ns wall (dvals (wm_detectors m)) m))"
    by (rule run_snapshot_grows[OF assms(1) grows_books[OF g]])
  have "wm_ttl (snd (run_snapshot_detectors uuid ns wall (dvals (wm_detectors m)) m)) = ttl"
    using m1 ttl by (simp add: grows_def)
  then have "\<forall>w\<in>set (active_view (snd (warning_evaluate uuid ns wall m))). ns - wl_last_monotonic_ns w < py_int (ttl * 10 ^ 9)"
    using sweep[OF grows_books[OF m1]] by (simp add: warning_evaluate_def case_prod_unfold Let_def)
  moreover have view: "active_view (count_warning f x) = active_view x" for f x
    by (simp add: active_view_def lifecycles_view_def)
  have "set (vs_active (fst (warning_snapshot_at ns wall m)))
      = set (active_view (snd (sweep_expired ns wall (dvals (wm_keys m)) m)))"
    by (simp add: warning_snapshot_at_def build_warning_snapshot_def case_prod_unfold Let_def view)
  ultimately show ?thesis using sweep[OF grows_books[OF g] ttl] by blast
qed

section \<open>Snapshot-driven warnings\<close>

definition open_key :: "warning_manager \<Rightarrow> string \<Rightarrow> bool" where
  "open_key m k \<longleftrightarrow> (\<exists>w. find_by_key k m = Some w \<and> \<not> wl_resolved w)"

lemma find_announce:
  assumes "dget (wm_warnings m) i = Some w"
  shows "find_by_key k (snd (announce_change i f c s m)) = (if dget (wm_keys m) k = Some i then Some (f w) else find_by_key k m)"
  using assms by (cases "dget (wm_keys m) k") (auto simp: find_by_key_def dget_dset)

lemma apply_trigger_open:
  assumes inj: "inj uuid" and ok: "books_ok uuid m"
  shows "open_key m k \<Longrightarrow> open_key (snd (apply_trigger uuid t m)) k"
    and "wt_sequence t = None \<Longrightarrow> open_key (snd (apply_trigger uuid t m)) (wt_key t)"
proof -
  have "(open_key m k \<longrightarrow> open_key (snd (apply_trigger uuid t m)) k) \<and>
    (wt_sequence t = None \<longrightarrow> open_key (snd (apply_trigger uuid t m)) (wt_key t))"
  proof (cases "evaluate_dedup (find_by_key (wt_key t) m) (wt_sequence t)")
    case Suppress
    then have "wt_sequence t \<noteq> None" by (auto simp: evaluate_dedup_def split: option.splits if_splits)
    moreover have out: "snd (apply_trigger uuid t m) = count_warning (\<lambda>c. c\<lparr>wc_suppressions := wc_suppressions c + 1\<rparr>) m"
      using Suppress by (simp add: apply_trigger_def)
    ultimately show ?thesis unfolding out open_key_def find_by_key_def by auto
  next
    case Activate
    let ?i = "uuid (wm_drawn m)" and ?w = "open_warning (uuid (wm_drawn m)) (wm_runtime_id m) t"
    define m1 where "m1 = count_warning (\<lambda>c. c\<lparr>wc_emitted := wc_emitted c + 1\<rparr>)
      (m\<lparr>wm_keys := dset (wt_key t) ?i (wm_keys m), wm_warnings := dset ?i ?w (wm_warnings m), wm_drawn := wm_drawn m + 1\<rparr>)"
    have out: "snd (apply_trigger uuid t m) = snd (announce_change ?i (\<lambda>w. w) WActivated (wt_sequence t) m1)"
      using Activate unfolding apply_trigger_def Let_def m1_def by simp
    have w: "dget (wm_warnings m1) ?i = Some ?w" by (simp add: m1_def dget_dset)
    have "set (dkeys (wm_warnings m)) \<subseteq> uuid ` {..<wm_drawn m}" using ok by (simp add: books_ok_def del: set_map)
    then have "?i \<notin> set (dkeys (wm_warnings m))" using inj by (auto simp: inj_eq simp del: set_map)
    then have old: "dget (wm_keys m) j \<noteq> Some ?i" for j
      using books_okD(3)[OF ok] by (auto simp: dget_None_iff[symmetric] simp del: set_map) (metis option.distinct(1))
    have find: "find_by_key j (snd (apply_trigger uuid t m)) = (if j = wt_key t then Some ?w else find_by_key j m)" for j
      unfolding out find_announce[OF w] using old[of j]
      by (cases "dget (wm_keys m) j") (auto simp: m1_def find_by_key_def dget_dset)
    show ?thesis using find by (auto simp: open_key_def open_warning_def)
  next
    case Refresh
    then obtain w where w: "find_by_key (wt_key t) m = Some w" "\<not> wl_resolved w" using dedup_cases(2) by blast
    then obtain i where i: "dget (wm_keys m) (wt_key t) = Some i" "dget (wm_warnings m) i = Some w"
      using find_by_key_ok[OF ok] by metis
    let ?f = "\<lambda>w. let w1 = mark_observed (wt_sequence t) (wt_monotonic_ns t) (wt_wall_seconds t) (Some (wt_message t)) w
      in w1\<lparr>wl_metadata := dict_update (wt_metadata t) (wl_metadata w1)\<rparr>"
    have out: "snd (apply_trigger uuid t m) = snd (announce_change i ?f WDeduplicated (wt_sequence t) m)"
      using Refresh i(1) by (simp add: apply_trigger_def)
    have "\<not> wl_resolved (?f w)" using w(2) by (simp add: Let_def mark_observed_def)
    then show ?thesis unfolding out open_key_def find_announce[OF i(2)] using i w(2) by auto
  qed
  then show "open_key m k \<Longrightarrow> open_key (snd (apply_trigger uuid t m)) k"
    and "wt_sequence t = None \<Longrightarrow> open_key (snd (apply_trigger uuid t m)) (wt_key t)"
    by blast+
qed

lemma apply_triggers_open:
  "inj uuid \<Longrightarrow> books_ok uuid m \<Longrightarrow> open_key m k \<or> (\<exists>t\<in>set ts. wt_key t = k \<and> wt_sequence t = None) \<Longrightarrow>
     open_key (snd (apply_triggers uuid ts m)) k"
proof (induction ts arbitrary: m)
  case (Cons t ts)
  have ok: "books_ok uuid (snd (apply_trigger uuid t m))" by (rule grows_books[OF apply_trigger_grows[OF Cons.prems(1,2)]])
  have "open_key (snd (apply_trigger uuid t m)) k \<or> (\<exists>t\<in>set ts. wt_key t = k \<and> wt_sequence t = None)"
    using Cons.prems(3) apply_trigger_open[OF Cons.prems(1,2)] by auto
  from Cons.IH[OF Cons.prems(1) ok this] show ?case by (simp add: case_prod_unfold Let_def)
qed simp

lemma resolve_unfired_keys [simp]: "wm_keys (snd (resolve_unfired name fired ns wall is m)) = wm_keys m"
  by (induction "is" arbitrary: m) (simp_all add: case_prod_unfold Let_def mark_resolved_internal_def split: option.split)

lemma resolve_unfired_untouched:
  "dget (wm_warnings (snd (resolve_unfired name fired ns wall is m))) i = Some w \<Longrightarrow> \<not> wl_resolved w \<Longrightarrow>
     dget (wm_warnings m) i = Some w \<and> (i \<in> set is \<longrightarrow> wl_detector w = name \<longrightarrow> wl_key w \<in> set fired)"
proof (induction "is" arbitrary: m)
  case (Cons j "is")
  define m1 where "m1 = snd (case dget (wm_warnings m) j of
      Some w \<Rightarrow> if wl_detector w = name \<and> \<not> wl_resolved w \<and> wl_key w \<notin> set fired
        then mark_resolved_internal j (Some (wm_last_sequence m)) ns wall m else ([], m)
    | None \<Rightarrow> ([], m))"
  have "snd (resolve_unfired name fired ns wall (j # is) m) = snd (resolve_unfired name fired ns wall is m1)"
    by (simp add: case_prod_unfold m1_def Let_def)
  then have IH: "dget (wm_warnings m1) i = Some w" "i \<in> set is \<longrightarrow> wl_detector w = name \<longrightarrow> wl_key w \<in> set fired"
    using Cons.IH[of m1] Cons.prems by simp_all
  have closed: "wl_resolved (mark_resolved s ns wall v)" for s v by (simp add: mark_resolved_def)
  show ?case
  proof (cases "dget (wm_warnings m) j")
    case None
    then show ?thesis using IH by (auto simp: m1_def)
  next
    case (Some v)
    then show ?thesis using IH Cons.prems(2) closed
      by (cases "wl_detector v = name \<and> \<not> wl_resolved v \<and> wl_key v \<notin> set fired"; cases "j = i")
        (auto simp: m1_def mark_resolved_internal_def dget_dset)
  qed
qed simp

lemma resolve_unfired_keeps:
  "books_ok uuid m \<Longrightarrow> open_key m k \<Longrightarrow> k \<in> set fired \<Longrightarrow> open_key (snd (resolve_unfired name fired ns wall is m)) k"
proof (induction "is" arbitrary: m)
  case (Cons j "is")
  define m1 where "m1 = snd (case dget (wm_warnings m) j of
      Some w \<Rightarrow> if wl_detector w = name \<and> \<not> wl_resolved w \<and> wl_key w \<notin> set fired
        then mark_resolved_internal j (Some (wm_last_sequence m)) ns wall m else ([], m)
    | None \<Rightarrow> ([], m))"
  have step: "snd (resolve_unfired name fired ns wall (j # is) m) = snd (resolve_unfired name fired ns wall is m1)"
    "m1 = snd (resolve_unfired name fired ns wall [j] m)"
    by (simp_all add: case_prod_unfold m1_def Let_def split: option.split)
  have ok: "books_ok uuid m1" unfolding step(2) by (rule grows_books[OF resolve_unfired_grows[OF Cons.prems(1)]])
  have "open_key m1 k"
  proof (cases "dget (wm_warnings m) j")
    case (Some v)
    have other: "dget (wm_keys m) k \<noteq> Some j" if "wl_key v \<notin> set fired"
      using books_okD(3)[OF Cons.prems(1), of k j] Some that Cons.prems(3) by auto
    have "find_by_key k m1 = find_by_key k m"
    proof (cases "wl_detector v = name \<and> \<not> wl_resolved v \<and> wl_key v \<notin> set fired")
      case True
      then have "wm_keys m1 = wm_keys m" "wm_warnings m1 = dset j (mark_resolved (Some (wm_last_sequence m)) ns wall v) (wm_warnings m)"
        using Some by (simp_all add: m1_def mark_resolved_internal_def)
      then show ?thesis using other True by (cases "dget (wm_keys m) k") (auto simp: find_by_key_def dget_dset)
    next
      case False
      then show ?thesis using Some by (auto simp: m1_def)
    qed
    then show ?thesis using Cons.prems(2) by (simp add: open_key_def)
  qed (use Cons.prems(2) in \<open>simp add: m1_def\<close>)
  from Cons.IH[OF ok this Cons.prems(3)] show ?case using step(1) by simp
qed simp

text \<open>Snapshot-driven warnings follow their condition. After any calls, one evaluation of a snapshot-driven detector that returns
  triggers leaves open, of its own warnings, only those it just fired, and leaves open a warning for each key it fired, since its
  triggers carry no sequence number and can so not be taken for stale ones.
\<close>

theorem snapshot_warnings_follow_the_condition:
  assumes "inj uuid" and "new_warning_manager ctx ds ttl rt = Some m0" and "m = fold (warning_do uuid) cs m0"
    and "wd_snapshot_driven d" and "wd_snapshot d (wm_context m) ns wall = (Some ts, ctx')"
    and "\<forall>t\<in>set ts. wt_sequence t = None"
    and "m' = snd (run_snapshot_detectors uuid ns wall [d] m)"
  shows "(\<forall>w\<in>set (active_view m'). wl_detector w = wd_name d \<longrightarrow> wl_key w \<in> wt_key ` set ts) \<and>
    (\<forall>t\<in>set ts. \<exists>w\<in>set (active_view m'). wl_key w = wt_key t)"
proof -
  define m1 where "m1 = count_warning (\<lambda>c. c\<lparr>wc_evaluations_run := wc_evaluations_run c + 1\<rparr>) (m\<lparr>wm_context := ctx'\<rparr>)"
  define ma where "ma = snd (apply_triggers uuid ts m1)"
  have ok: "books_ok uuid m"
    unfolding assms(3) by (rule grows_books[OF warning_run_grows[OF assms(1) new_manager_books[OF assms(2)]]])
  have ok1: "books_ok uuid m1" by (rule books_same[OF ok]) (simp add: m1_def same_books_def)
  have oka: "books_ok uuid ma" unfolding ma_def by (rule grows_books[OF apply_triggers_grows[OF assms(1) ok1]])
  have "m' = snapshot_step uuid ns wall d m" by (simp only: assms(7) snapshot_step_def)
  then have m': "m' = snd (resolve_unfired (wd_name d) (map wt_key ts) ns wall (dvals (wm_keys ma)) ma)"
    unfolding snapshot_step_alt assms(5) ma_def m1_def Let_def using assms(4) by simp
  have ok': "books_ok uuid m'" unfolding m' by (rule grows_books[OF resolve_unfired_grows[OF oka]])
  have "wl_key w \<in> wt_key ` set ts" if "w \<in> set (active_view m')" "wl_detector w = wd_name d" for w
  proof -
    have w: "dget (wm_warnings m') (wl_id w) = Some w" "\<not> wl_resolved w" using in_active_view[OF ok'] that(1) by blast+
    have "dget (wm_keys m') (wl_key w) = Some (wl_id w)" by (rule books_okD(5)[OF ok' w])
    then have "wl_id w \<in> set (dvals (wm_keys ma))" using map_of_SomeD by (force simp: m')
    then show ?thesis using resolve_unfired_untouched[OF w(1)[unfolded m'] w(2)] that(2) by simp
  qed
  moreover have "\<exists>w\<in>set (active_view m'). wl_key w = wt_key t" if t: "t \<in> set ts" for t
  proof -
    have "open_key ma (wt_key t)"
      unfolding ma_def using apply_triggers_open[OF assms(1) ok1, of "wt_key t" ts] assms(6) t by blast
    then have "open_key m' (wt_key t)" unfolding m' using resolve_unfired_keeps[OF oka] t by simp
    then obtain w where w: "find_by_key (wt_key t) m' = Some w" "\<not> wl_resolved w" by (auto simp: open_key_def)
    then have "wl_key w = wt_key t" using find_by_key_ok[OF ok'] by metis
    moreover have "w \<in> set (active_view m')"
      using w in_view[OF ok', of w] calculation by (simp add: active_view_def)
    ultimately show ?thesis by blast
  qed
  ultimately show ?thesis by blast
qed

section \<open>The snapshot's order\<close>

lemma severity_counts_total:
  "vc_info (count_by_severity ws) + vc_warning (count_by_severity ws) + vc_error (count_by_severity ws) +
     vc_critical (count_by_severity ws) = length ws"
  unfolding count_by_severity_def Let_def
proof (induction ws)
  case (Cons w ws)
  then show ?case by (cases "wl_severity w") auto
qed simp

lemma count_keys_total:
  "distinct (dkeys d) \<Longrightarrow> sum_list (dvals (fold (\<lambda>k d. dset k (dget_or 0 d k + 1) d) ks d)) = sum_list (dvals d) + int (length ks)"
proof (induction ks arbitrary: d)
  case (Cons k ks)
  have "sum_list (dvals (dset k (dget_or 0 d k + 1) d)) = sum_list (dvals d) + 1"
    using Cons.prems
  proof (induction d)
    case (Cons p d)
    then show ?case by (cases "fst p = k") (auto simp: dget_or_def split: prod.splits)
  qed (simp add: dget_or_def)
  then show ?case using Cons.IH[OF distinct_dset[OF Cons.prems]] by simp
qed simp

lemma type_counts_total: "sum_list (dvals (count_by_type ws)) = int (length ws)"
  using count_keys_total[of "[]" "map wl_type ws"] by (simp add: count_by_type_def count_keys_def)

text \<open>The snapshot lists the worst first and counts what it lists. Its active warnings are the manager's open warnings, the most
  severe first and, within a severity, the oldest first; the four severity counts add up to their number, and so do the counts by
  type; the resolved ones are in order of their resolution.
\<close>

theorem warning_snapshot_is_ordered:
  assumes "s = build_warning_snapshot active resolved counters n"
  shows "mset (vs_active s) = mset active \<and> mset (vs_resolved s) = mset resolved \<and>
    sorted_wrt (\<lambda>a b. severity_rank (wl_severity b) < severity_rank (wl_severity a) \<or>
      severity_rank (wl_severity b) = severity_rank (wl_severity a) \<and> wl_created_monotonic_ns a \<le> wl_created_monotonic_ns b) (vs_active s) \<and>
    vc_info (vs_by_severity s) + vc_warning (vs_by_severity s) + vc_error (vs_by_severity s) + vc_critical (vs_by_severity s) = length active \<and>
    sum_list (dvals (vs_by_type s)) = int (length active)"
proof -
  let ?xs = "sort_key (\<lambda>w. - severity_rank (wl_severity w)) (sort_key wl_created_monotonic_ns (sort_key wl_id active))"
  have s: "vs_active s = ?xs" "vs_by_severity s = count_by_severity ?xs" "vs_by_type s = count_by_type ?xs"
    "mset (vs_resolved s) = mset resolved"
    by (simp_all add: assms build_warning_snapshot_def Let_def)
  have "sorted_wrt (\<lambda>a b. - severity_rank (wl_severity a) < - severity_rank (wl_severity b) \<or>
      - severity_rank (wl_severity a) = - severity_rank (wl_severity b) \<and> wl_created_monotonic_ns a \<le> wl_created_monotonic_ns b) ?xs"
    by (rule sorted_sort_key_pair)
  then have "sorted_wrt (\<lambda>a b. severity_rank (wl_severity b) < severity_rank (wl_severity a) \<or>
      severity_rank (wl_severity b) = severity_rank (wl_severity a) \<and> wl_created_monotonic_ns a \<le> wl_created_monotonic_ns b) ?xs"
    by (simp add: eq_commute)
  moreover have "mset ?xs = mset active" "length ?xs = length active" by simp_all
  ultimately show ?thesis unfolding s severity_counts_total type_counts_total by (intro conjI refl) simp_all
qed

section \<open>Examples\<close>

definition plain_text :: text_format where
  "plain_text = \<lparr>tf_fixed = (\<lambda>_ _. []), tf_repr = (\<lambda>s. s), tf_render = (\<lambda>_. [])\<rparr>"

definition counting_uuid :: "nat \<Rightarrow> string" where
  "counting_uuid k = replicate k CHR ''x''"

lemma inj_counting_uuid: "inj counting_uuid"
  by (rule injI) (metis counting_uuid_def length_replicate)

definition cancelled_by_parent :: runtime_event where
  "cancelled_by_parent = sample_event ''e1'' 5 (TaskCancelledEvent (sample_fields ''t'')
     \<lparr>te_created_at = None, te_completed_at = None, te_duration_seconds = None\<rparr> (Some ''parent''))"

definition idle_context :: detector_context where
  "idle_context = \<lparr>dx_registry = new_registry (new_tracker 8), dx_aggregator = new_aggregator 30 2048\<rparr>"

definition origin_manager :: warning_manager where
  "origin_manager = the (new_warning_manager idle_context [cancellation_origin_detector plain_text] 60 ''rt'')"

lemma origin_manager_created:
  "new_warning_manager idle_context [cancellation_origin_detector plain_text] 60 ''rt'' = Some origin_manager"
  by (simp add: origin_manager_def new_warning_manager_def register_detector_def)

lemma origin_manager_fires:
  "map wl_severity (active_view (warning_do counting_uuid (WEvent cancelled_by_parent (Some 1)) origin_manager)) = [SevInfo]"
  "dget (wm_warnings (warning_do counting_uuid (WEvent cancelled_by_parent (Some 1)) origin_manager)) []
     = Some (open_warning [] ''rt'' (hd (the (cancellation_origin_event plain_text idle_context cancelled_by_parent (Some 1)))))"
  by (simp_all add: origin_manager_def new_warning_manager_def register_detector_def warning_apply_event_def
      cancellation_origin_detector_def base_detector_def cancellation_origin_event_def cancelled_by_parent_def
      sample_event_def sample_fields_def event_trigger_def apply_trigger_def find_by_key_def evaluate_dedup_def
      announce_change_def warning_notify_def count_warning_def no_warning_counters_def counting_uuid_def
      active_view_def lifecycles_view_def List.map_filter_def open_warning_def Let_def)

theorem warnings_are_conserved_witness:
  "wc_emitted (wm_counters (fold (warning_do counting_uuid) [WEvent cancelled_by_parent (Some 1)] origin_manager)) = 1 +
     wc_resolved (wm_counters (fold (warning_do counting_uuid) [WEvent cancelled_by_parent (Some 1)] origin_manager)) +
     wc_expired (wm_counters (fold (warning_do counting_uuid) [WEvent cancelled_by_parent (Some 1)] origin_manager))"
proof -
  have "length (active_view (fold (warning_do counting_uuid) [WEvent cancelled_by_parent (Some 1)] origin_manager)) = 1"
    using arg_cong[OF origin_manager_fires(1), of length] by simp
  then show ?thesis
    using warnings_are_conserved[OF inj_counting_uuid origin_manager_created refl, of "[WEvent cancelled_by_parent (Some 1)]"]
    by simp
qed

theorem severity_is_final_witness:
  "\<exists>w'. dget (wm_warnings (fold (warning_do counting_uuid)
       ([WEvent cancelled_by_parent (Some 1)] @ [WEvent cancelled_by_parent (Some 2)]) origin_manager)) [] = Some w' \<and>
     wl_severity w' = SevInfo"
proof -
  let ?w = "open_warning [] ''rt'' (hd (the (cancellation_origin_event plain_text idle_context cancelled_by_parent (Some 1))))"
  have w: "dget (wm_warnings (fold (warning_do counting_uuid) [WEvent cancelled_by_parent (Some 1)] origin_manager)) [] = Some ?w"
    using origin_manager_fires(2) by simp
  have "wl_severity ?w = SevInfo"
    by (simp add: open_warning_def cancellation_origin_event_def cancelled_by_parent_def sample_event_def event_trigger_def)
  then show ?thesis
    using severity_is_final[OF inj_counting_uuid origin_manager_created w, of "[WEvent cancelled_by_parent (Some 2)]"] by auto
qed

theorem silent_warnings_close_witness:
  "list_all (\<lambda>w. 100000000000 - wl_last_monotonic_ns w < 60000000000)
     (active_view (snd (warning_evaluate counting_uuid 100000000000 0
        (fold (warning_do counting_uuid) [WEvent cancelled_by_parent (Some 1)] origin_manager))))"
  using silent_warnings_close[OF inj_counting_uuid origin_manager_created refl, of 100000000000 0 "[WEvent cancelled_by_parent (Some 1)]"]
  by (simp add: py_int_def list_all_iff)

theorem snapshot_warnings_follow_the_condition_witness:
  "\<exists>w\<in>set (active_view (snd (run_snapshot_detectors counting_uuid 7 0 [excessive_active_detector 0] origin_manager))).
     wl_key w = ''excessive_active_tasks:>=0''"
proof -
  obtain a where a: "new_aggregator 30 2048 = Some a" "ag_counts (mx_aggregates a) = []"
    by (simp add: new_aggregator_def new_rate_meter_def new_durations_def new_histogram_def)
  have ctx: "wm_context origin_manager = idle_context"
    by (simp add: origin_manager_def new_warning_manager_def register_detector_def)
  have zero: "str_of_int 0 = ''0''" by code_simp
  obtain t where t: "wd_snapshot (excessive_active_detector 0) (wm_context origin_manager) 7 0 = (Some [t], idle_context)"
    "wt_sequence t = None" "wt_key t = ''excessive_active_tasks:>=0''"
    unfolding ctx using a
    by (simp add: excessive_active_detector_def excessive_active_snapshot_def base_detector_def idle_context_def
        counter_get_def snapshot_trigger_def zero)
  have "\<forall>x\<in>set [t]. wt_sequence x = None" using t(2) by simp
  from snapshot_warnings_follow_the_condition[OF inj_counting_uuid origin_manager_created, of origin_manager "[]", OF _ _ t(1) this refl]
  show ?thesis using t(3) by (simp add: excessive_active_detector_def base_detector_def)
qed

theorem warning_snapshot_is_ordered_witness:
  "length (vs_active (build_warning_snapshot (active_view origin_manager) [] no_warning_counters 0)) = length (active_view origin_manager)"
  using warning_snapshot_is_ordered[OF refl, of "active_view origin_manager" "[]" no_warning_counters 0]
  by (metis size_mset)

end
