(* ===== verification/LagMonitor.thy ===== *)
theory LagMonitor
  imports PyValues
begin

text \<open>
  The event-loop lag monitor (\<open>asyncviz/runtime/monitoring/event_loop\<close>): a measurement is how late a
  scheduled wake-up ran; the thresholds grade it; the statistics keep a rolling window; the cadence loop
  schedules the wake-ups on a fixed grid and reports the deadlines it had to skip.

  The readings of the clock are arguments, one per call of \<open>now_ns\<close>. The bus is a function of how often
  it was called and of the event: accepted, dropped, or \<open>None\<close> when it raises. A listener is represented
  by whether it raises. The opt-in trace ring is not modelled.
\<close>

section \<open>Severities\<close>

datatype lag_severity = LagNormal | LagWarning | LagCritical | LagFreeze

fun lag_severity_value :: "lag_severity \<Rightarrow> int" where
  "lag_severity_value LagNormal = 0"
| "lag_severity_value LagWarning = 1"
| "lag_severity_value LagCritical = 2"
| "lag_severity_value LagFreeze = 3"

fun lag_severity_name :: "lag_severity \<Rightarrow> string" where
  "lag_severity_name LagNormal = ''NORMAL''"
| "lag_severity_name LagWarning = ''WARNING''"
| "lag_severity_name LagCritical = ''CRITICAL''"
| "lag_severity_name LagFreeze = ''FREEZE''"

text \<open>An \<open>IntEnum\<close> is ordered by its values.\<close>

lemma lag_severity_value_inj: "lag_severity_value s = lag_severity_value t \<longleftrightarrow> s = t"
  by (cases s; cases t) simp_all

instantiation lag_severity :: linorder
begin

definition less_eq_lag_severity :: "lag_severity \<Rightarrow> lag_severity \<Rightarrow> bool" where
  "less_eq_lag_severity s t \<longleftrightarrow> lag_severity_value s \<le> lag_severity_value t"

definition less_lag_severity :: "lag_severity \<Rightarrow> lag_severity \<Rightarrow> bool" where
  "less_lag_severity s t \<longleftrightarrow> lag_severity_value s < lag_severity_value t"

instance
  by standard (auto simp: less_eq_lag_severity_def less_lag_severity_def lag_severity_value_inj)

end

section \<open>Measurements and thresholds\<close>

record lag_measurement =
  lm_sample_index :: int
  lm_scheduled_ns :: int
  lm_actual_ns :: int
  lm_interval_ns :: int
  lm_lag_ns :: int
  lm_scheduler_delay_ns :: int
  lm_runtime_id :: string

definition calculate_lag :: "int \<Rightarrow> int \<Rightarrow> int \<Rightarrow> int \<Rightarrow> string \<Rightarrow> lag_measurement" where
  "calculate_lag scheduled actual interval idx rid =
     (let lag = if actual - scheduled < 0 then 0 else actual - scheduled in
      \<lparr>lm_sample_index = idx, lm_scheduled_ns = scheduled, lm_actual_ns = actual, lm_interval_ns = interval,
       lm_lag_ns = lag, lm_scheduler_delay_ns = lag, lm_runtime_id = rid\<rparr>)"

definition in_seconds :: "int \<Rightarrow> real" where
  "in_seconds ns = real_of_int ns / 10 ^ 9"

definition in_millis :: "int \<Rightarrow> real" where
  "in_millis ns = real_of_int ns / 10 ^ 6"

definition measurement_payload :: "lag_measurement \<Rightarrow> (string, json) dict" where
  "measurement_payload m =
     [(''sample_index'', JInt (lm_sample_index m)), (''scheduled_ns'', JInt (lm_scheduled_ns m)),
      (''actual_ns'', JInt (lm_actual_ns m)), (''interval_ns'', JInt (lm_interval_ns m)),
      (''interval_seconds'', JFloat (in_seconds (lm_interval_ns m))), (''lag_ns'', JInt (lm_lag_ns m)),
      (''lag_seconds'', JFloat (in_seconds (lm_lag_ns m))), (''lag_ms'', JFloat (in_millis (lm_lag_ns m))),
      (''scheduler_delay_ns'', JInt (lm_scheduler_delay_ns m)),
      (''scheduler_delay_seconds'', JFloat (in_seconds (lm_scheduler_delay_ns m))),
      (''runtime_id'', JStr (lm_runtime_id m))]"

text \<open>\<open>round\<close>, which takes the even neighbour of a half.\<close>

definition py_round :: "real \<Rightarrow> int" where
  "py_round r =
     (let f = \<lfloor>r\<rfloor>; d = r - real_of_int f in
      if d < 1 / 2 then f else if 1 / 2 < d then f + 1 else if even f then f else f + 1)"

definition seconds_to_ns :: "real \<Rightarrow> int" where
  "seconds_to_ns s = (if s \<le> 0 then 0 else py_round (s * 10 ^ 9))"

record lag_thresholds =
  lt_warning_ns :: "int option"
  lt_critical_ns :: "int option"
  lt_freeze_ns :: "int option"

text \<open>A negative threshold raises; \<open>None\<close> is the exception.\<close>

definition convert_threshold :: "real option \<Rightarrow> int option option" where
  "convert_threshold seconds =
     (case seconds of
        None \<Rightarrow> Some None
      | Some s \<Rightarrow> if s < 0 then None else Some (Some (seconds_to_ns s)))"

fun monotonic_thresholds :: "int option \<Rightarrow> int option list \<Rightarrow> bool" where
  "monotonic_thresholds previous [] \<longleftrightarrow> True"
| "monotonic_thresholds previous (None # ts) \<longleftrightarrow> monotonic_thresholds previous ts"
| "monotonic_thresholds previous (Some v # ts) \<longleftrightarrow>
     (case previous of None \<Rightarrow> True | Some p \<Rightarrow> p \<le> v) \<and> monotonic_thresholds (Some v) ts"

definition new_lag_thresholds :: "real option \<Rightarrow> real option \<Rightarrow> real option \<Rightarrow> lag_thresholds option" where
  "new_lag_thresholds warning critical freeze =
     (case (convert_threshold warning, convert_threshold critical, convert_threshold freeze) of
        (Some w, Some c, Some f) \<Rightarrow>
          if monotonic_thresholds None [w, c, f]
          then Some \<lparr>lt_warning_ns = w, lt_critical_ns = c, lt_freeze_ns = f\<rparr> else None
      | _ \<Rightarrow> None)"

record lag_evaluation =
  le_severity :: lag_severity
  le_breached :: bool
  le_lag_ns :: int
  le_threshold_ns :: int

definition trips :: "int option \<Rightarrow> int \<Rightarrow> bool" where
  "trips threshold lag \<longleftrightarrow> (case threshold of None \<Rightarrow> False | Some t \<Rightarrow> t \<le> lag)"

definition evaluate_lag :: "lag_thresholds \<Rightarrow> int \<Rightarrow> lag_evaluation" where
  "evaluate_lag t lag =
     (if trips (lt_freeze_ns t) lag
      then \<lparr>le_severity = LagFreeze, le_breached = True, le_lag_ns = lag, le_threshold_ns = the (lt_freeze_ns t)\<rparr>
      else if trips (lt_critical_ns t) lag
      then \<lparr>le_severity = LagCritical, le_breached = True, le_lag_ns = lag, le_threshold_ns = the (lt_critical_ns t)\<rparr>
      else if trips (lt_warning_ns t) lag
      then \<lparr>le_severity = LagWarning, le_breached = True, le_lag_ns = lag, le_threshold_ns = the (lt_warning_ns t)\<rparr>
      else \<lparr>le_severity = LagNormal, le_breached = False, le_lag_ns = lag, le_threshold_ns = 0\<rparr>)"

section \<open>Statistics\<close>

record lag_statistics =
  ls_window :: nat
  ls_values :: "int list"
  ls_sum :: int
  ls_sample_count :: nat
  ls_peak :: int
  ls_last :: int
  ls_consecutive_warning :: nat
  ls_consecutive_critical :: nat
  ls_consecutive_freeze :: nat
  ls_freeze_segments :: nat
  ls_in_freeze :: bool
  ls_current_freeze_ns :: int
  ls_last_freeze_ns :: int
  ls_longest_freeze_ns :: int

definition fresh_lag_statistics :: "nat \<Rightarrow> lag_statistics" where
  "fresh_lag_statistics window =
     \<lparr>ls_window = window, ls_values = [], ls_sum = 0, ls_sample_count = 0, ls_peak = 0, ls_last = 0,
      ls_consecutive_warning = 0, ls_consecutive_critical = 0, ls_consecutive_freeze = 0,
      ls_freeze_segments = 0, ls_in_freeze = False, ls_current_freeze_ns = 0, ls_last_freeze_ns = 0,
      ls_longest_freeze_ns = 0\<rparr>"

definition new_lag_statistics :: "int \<Rightarrow> lag_statistics option" where
  "new_lag_statistics window = (if window \<le> 0 then None else Some (fresh_lag_statistics (nat window)))"

definition lag_statistics_reset :: "lag_statistics \<Rightarrow> lag_statistics" where
  "lag_statistics_reset s = fresh_lag_statistics (ls_window s)"

definition run_length :: "bool \<Rightarrow> nat \<Rightarrow> nat" where
  "run_length holds n = (if holds then n + 1 else 0)"

definition update_consecutive :: "lag_severity \<Rightarrow> int \<Rightarrow> lag_statistics \<Rightarrow> lag_statistics" where
  "update_consecutive severity lag s =
     (let s1 = s\<lparr>ls_consecutive_warning := run_length (LagWarning \<le> severity) (ls_consecutive_warning s),
                 ls_consecutive_critical := run_length (LagCritical \<le> severity) (ls_consecutive_critical s),
                 ls_consecutive_freeze := run_length (LagFreeze \<le> severity) (ls_consecutive_freeze s)\<rparr> in
      if LagFreeze \<le> severity then
        let s2 = (if ls_in_freeze s then s1\<lparr>ls_current_freeze_ns := ls_current_freeze_ns s + lag\<rparr>
                  else s1\<lparr>ls_in_freeze := True, ls_freeze_segments := ls_freeze_segments s + 1,
                          ls_current_freeze_ns := lag\<rparr>);
            s3 = s2\<lparr>ls_last_freeze_ns := ls_current_freeze_ns s2\<rparr>
        in if ls_longest_freeze_ns s < ls_current_freeze_ns s2
           then s3\<lparr>ls_longest_freeze_ns := ls_current_freeze_ns s2\<rparr> else s3
      else s1\<lparr>ls_in_freeze := False, ls_current_freeze_ns := 0\<rparr>)"

definition lag_observe :: "int \<Rightarrow> lag_severity \<Rightarrow> lag_statistics \<Rightarrow> lag_statistics" where
  "lag_observe lag severity s =
     (let sum = (if length (ls_values s) = ls_window s then ls_sum s - hd (ls_values s) else ls_sum s);
          s1 = s\<lparr>ls_values := ring_push (ls_window s) lag (ls_values s), ls_sum := sum + lag,
                 ls_sample_count := ls_sample_count s + 1, ls_last := lag,
                 ls_peak := (if ls_peak s < lag then lag else ls_peak s)\<rparr>
      in update_consecutive severity lag s1)"

definition nearest_rank :: "int list \<Rightarrow> real \<Rightarrow> int" where
  "nearest_rank xs q =
     (if xs = [] then 0 else if q \<le> 0 then hd xs else if 1 \<le> q then last xs
      else
        let rank = nat (py_int (q * real (length xs))); rank' = (if rank = 0 then 1 else rank)
        in xs ! (min rank' (length xs) - 1))"

record lag_statistics_snapshot =
  lss_sample_count :: nat
  lss_window_capacity :: nat
  lss_window_filled :: nat
  lss_sum_ns :: int
  lss_min_ns :: int
  lss_max_ns :: int
  lss_mean_ns :: int
  lss_p50_ns :: int
  lss_p95_ns :: int
  lss_p99_ns :: int
  lss_peak_ns :: int
  lss_last_ns :: int
  lss_consecutive_warning :: nat
  lss_consecutive_critical :: nat
  lss_consecutive_freeze :: nat
  lss_freeze_segments :: nat
  lss_last_freeze_ns :: int
  lss_longest_freeze_ns :: int

definition lag_snapshot_of :: "lag_statistics \<Rightarrow> lag_statistics_snapshot" where
  "lag_snapshot_of s =
     (let xs = sort (ls_values s); filled = length xs; empty = (xs = []) in
      \<lparr>lss_sample_count = ls_sample_count s, lss_window_capacity = ls_window s, lss_window_filled = filled,
       lss_sum_ns = (if empty then 0 else ls_sum s), lss_min_ns = (if empty then 0 else hd xs),
       lss_max_ns = (if empty then 0 else last xs),
       lss_mean_ns = (if empty then 0 else ls_sum s div int filled),
       lss_p50_ns = (if empty then 0 else nearest_rank xs (50 / 100)),
       lss_p95_ns = (if empty then 0 else nearest_rank xs (95 / 100)),
       lss_p99_ns = (if empty then 0 else nearest_rank xs (99 / 100)),
       lss_peak_ns = ls_peak s, lss_last_ns = ls_last s, lss_consecutive_warning = ls_consecutive_warning s,
       lss_consecutive_critical = ls_consecutive_critical s, lss_consecutive_freeze = ls_consecutive_freeze s,
       lss_freeze_segments = ls_freeze_segments s, lss_last_freeze_ns = ls_last_freeze_ns s,
       lss_longest_freeze_ns = ls_longest_freeze_ns s\<rparr>)"

section \<open>Self-metrics and the in-flight cap\<close>

record lag_metrics =
  lx_attempted :: nat
  lx_recorded :: nat
  lx_dropped :: nat
  lx_consecutive_drops :: nat
  lx_max_consecutive_drops :: nat
  lx_drift_ns :: int
  lx_warning_hits :: nat
  lx_critical_hits :: nat
  lx_freeze_hits :: nat
  lx_measurement_events :: nat
  lx_measurement_events_dropped :: nat
  lx_breach_events :: nat
  lx_invocations :: nat
  lx_failures :: nat
  lx_reconfigurations :: nat

definition new_lag_metrics :: lag_metrics where
  "new_lag_metrics =
     \<lparr>lx_attempted = 0, lx_recorded = 0, lx_dropped = 0, lx_consecutive_drops = 0, lx_max_consecutive_drops = 0,
      lx_drift_ns = 0, lx_warning_hits = 0, lx_critical_hits = 0, lx_freeze_hits = 0, lx_measurement_events = 0,
      lx_measurement_events_dropped = 0, lx_breach_events = 0, lx_invocations = 0, lx_failures = 0,
      lx_reconfigurations = 0\<rparr>"

definition record_sample_recorded :: "lag_metrics \<Rightarrow> lag_metrics" where
  "record_sample_recorded m = m\<lparr>lx_recorded := lx_recorded m + 1, lx_consecutive_drops := 0\<rparr>"

definition record_sample_dropped :: "lag_metrics \<Rightarrow> lag_metrics" where
  "record_sample_dropped m =
     (let n = lx_consecutive_drops m + 1 in
      m\<lparr>lx_dropped := lx_dropped m + 1, lx_consecutive_drops := n,
        lx_max_consecutive_drops := (if lx_max_consecutive_drops m < n then n else lx_max_consecutive_drops m)\<rparr>)"

definition record_scheduler_drift :: "int \<Rightarrow> lag_metrics \<Rightarrow> lag_metrics" where
  "record_scheduler_drift drift m = (if drift \<le> 0 then m else m\<lparr>lx_drift_ns := lx_drift_ns m + drift\<rparr>)"

definition record_threshold_hit :: "lag_severity \<Rightarrow> lag_metrics \<Rightarrow> lag_metrics" where
  "record_threshold_hit severity m =
     m\<lparr>lx_warning_hits := lx_warning_hits m + (if LagWarning \<le> severity then 1 else 0),
       lx_critical_hits := lx_critical_hits m + (if LagCritical \<le> severity then 1 else 0),
       lx_freeze_hits := lx_freeze_hits m + (if LagFreeze \<le> severity then 1 else 0)\<rparr>"

record inflight =
  fl_capacity :: nat
  fl_pending :: nat
  fl_denied :: nat

definition new_inflight :: "int \<Rightarrow> inflight option" where
  "new_inflight capacity =
     (if capacity < 0 then None else Some \<lparr>fl_capacity = nat capacity, fl_pending = 0, fl_denied = 0\<rparr>)"

definition inflight_acquire :: "inflight \<Rightarrow> bool \<times> inflight" where
  "inflight_acquire b =
     (if fl_capacity b = 0 then (True, b\<lparr>fl_pending := fl_pending b + 1\<rparr>)
      else if fl_capacity b \<le> fl_pending b then (False, b\<lparr>fl_denied := fl_denied b + 1\<rparr>)
      else (True, b\<lparr>fl_pending := fl_pending b + 1\<rparr>))"

definition inflight_release :: "inflight \<Rightarrow> inflight" where
  "inflight_release b = (if 0 < fl_pending b then b\<lparr>fl_pending := fl_pending b - 1\<rparr> else b)"

definition inflight_reset :: "inflight \<Rightarrow> inflight" where
  "inflight_reset b = b\<lparr>fl_pending := 0, fl_denied := 0\<rparr>"

section \<open>Configuration\<close>

record lag_configuration =
  lc_sample_interval :: real
  lc_thresholds :: lag_thresholds
  lc_statistics_window :: int
  lc_max_consecutive_drops :: int
  lc_max_pending_events :: int
  lc_emit_measurements :: bool
  lc_emit_breaches :: bool

definition lag_configuration_valid :: "lag_configuration \<Rightarrow> bool" where
  "lag_configuration_valid c \<longleftrightarrow>
     0 < lc_sample_interval c \<and> 0 < lc_statistics_window c \<and> 0 \<le> lc_max_consecutive_drops c \<and>
     0 \<le> lc_max_pending_events c"

definition default_lag_configuration :: lag_configuration where
  "default_lag_configuration =
     \<lparr>lc_sample_interval = 1 / 5,
      lc_thresholds = \<lparr>lt_warning_ns = Some 50000000, lt_critical_ns = Some 250000000, lt_freeze_ns = Some 1000000000\<rparr>,
      lc_statistics_window = 256, lc_max_consecutive_drops = 8, lc_max_pending_events = 512,
      lc_emit_measurements = False, lc_emit_breaches = True\<rparr>"

section \<open>The cadence loop\<close>

text \<open>
  One iteration of \<open>_run\<close> reads the clock three times: before the sleep, in the sampler and after the sample
  was applied. The loop may also find the stop event set at its head, or have it set during a sleep.
\<close>

record lag_scheduler =
  sch_interval_ns :: int
  sch_running :: bool
  sch_sample_index :: int
  sch_deadline :: int

datatype cadence_reading = Wake int int int | StoppedAsleep int | StoppedAwake

record sample_request =
  sq_sample_index :: int
  sq_scheduled_ns :: int
  sq_interval_ns :: int

definition sampler_sample :: "string \<Rightarrow> int \<Rightarrow> sample_request \<Rightarrow> lag_measurement" where
  "sampler_sample rid actual q =
     calculate_lag (sq_scheduled_ns q) actual (sq_interval_ns q) (sq_sample_index q) rid"

text \<open>The drift-corrected next deadline and the number of deadlines it skips.\<close>

definition next_deadline :: "int \<Rightarrow> int \<Rightarrow> int \<Rightarrow> int \<times> int" where
  "next_deadline previous interval now =
     (let d = previous + interval; overshoot = now - d;
          missed = (if 0 < overshoot \<and> 0 < interval then overshoot div interval else 0)
      in if 0 < missed then (missed, d + missed * interval) else (0, d))"

definition scheduler_configure :: "int \<Rightarrow> lag_scheduler \<Rightarrow> lag_scheduler option" where
  "scheduler_configure interval s = (if interval \<le> 0 then None else Some (s\<lparr>sch_interval_ns := interval\<rparr>))"

text \<open>\<open>start\<close> creates the task whose first step reads the clock for the first deadline.\<close>

definition scheduler_start :: "int \<Rightarrow> lag_scheduler \<Rightarrow> lag_scheduler option" where
  "scheduler_start now s =
     (if sch_running s then Some s
      else if sch_interval_ns s \<le> 0 then None
      else Some (s\<lparr>sch_running := True, sch_sample_index := 0, sch_deadline := now + sch_interval_ns s\<rparr>))"

definition scheduler_stop :: "lag_scheduler \<Rightarrow> lag_scheduler" where
  "scheduler_stop s = s\<lparr>sch_running := False\<rparr>"

definition sleeps_for :: "int \<Rightarrow> lag_scheduler \<Rightarrow> int" where
  "sleeps_for now s = (if 0 < sch_deadline s - now then sch_deadline s - now else 0)"

section \<open>The monitor\<close>

datatype engine_state = EngIdle | EngStarting | EngRunning | EngStopping | EngStopped | EngFailed

type_synonym monitor_event = "string \<times> (string, json) dict"
type_synonym event_bus = "nat \<Rightarrow> monitor_event \<Rightarrow> bool option"

definition LAG_MEASUREMENT_EVENT :: string where
  "LAG_MEASUREMENT_EVENT = ''runtime.monitoring.lag.sample''"

definition LAG_BREACH_EVENT :: string where
  "LAG_BREACH_EVENT = ''runtime.monitoring.lag.threshold''"

definition build_lag_measurement_event :: "lag_measurement \<Rightarrow> monitor_event" where
  "build_lag_measurement_event m = (LAG_MEASUREMENT_EVENT, [(''measurement'', JObj (measurement_payload m))])"

definition build_lag_breach_event :: "lag_measurement \<Rightarrow> lag_evaluation \<Rightarrow> monitor_event" where
  "build_lag_breach_event m e =
     (LAG_BREACH_EVENT,
      [(''measurement'', JObj (measurement_payload m)), (''severity'', JStr (lag_severity_name (le_severity e))),
       (''severity_value'', JInt (lag_severity_value (le_severity e))), (''threshold_ns'', JInt (le_threshold_ns e)),
       (''lag_ns'', JInt (le_lag_ns e)), (''breached'', JBool (le_breached e))])"

record lag_monitor =
  mo_configuration :: lag_configuration
  mo_statistics :: lag_statistics
  mo_metrics :: lag_metrics
  mo_inflight :: inflight
  mo_state :: engine_state
  mo_listeners :: "(int, bool) dict"
  mo_next_id :: int
  mo_last :: "lag_measurement option"
  mo_scheduler :: lag_scheduler
  mo_has_bus :: bool
  mo_bus_calls :: nat
  mo_runtime_id :: string

definition new_lag_monitor :: "string \<Rightarrow> bool \<Rightarrow> lag_configuration \<Rightarrow> lag_monitor option" where
  "new_lag_monitor rid has_bus c =
     (case (new_lag_statistics (lc_statistics_window c), new_inflight (lc_max_pending_events c)) of
        (Some st, Some fl) \<Rightarrow>
          Some \<lparr>mo_configuration = c, mo_statistics = st, mo_metrics = new_lag_metrics, mo_inflight = fl,
                mo_state = EngIdle, mo_listeners = [], mo_next_id = 0, mo_last = None,
                mo_scheduler = \<lparr>sch_interval_ns = 0, sch_running = False, sch_sample_index = 0, sch_deadline = 0\<rparr>,
                mo_has_bus = has_bus, mo_bus_calls = 0, mo_runtime_id = rid\<rparr>
      | _ \<Rightarrow> None)"

definition count_lag :: "(lag_metrics \<Rightarrow> lag_metrics) \<Rightarrow> lag_monitor \<Rightarrow> lag_monitor" where
  "count_lag f mo = mo\<lparr>mo_metrics := f (mo_metrics mo)\<rparr>"

text \<open>The events handed to the bus are part of every result.\<close>

definition lag_emit ::
    "event_bus \<Rightarrow> monitor_event \<Rightarrow> (lag_metrics \<Rightarrow> lag_metrics) \<Rightarrow> lag_monitor \<Rightarrow> monitor_event list \<times> lag_monitor" where
  "lag_emit bus ev emitted mo =
     (let dropped = (\<lambda>m. m\<lparr>lx_measurement_events_dropped := lx_measurement_events_dropped m + 1\<rparr>);
          (ok, fl) = inflight_acquire (mo_inflight mo)
      in if \<not> ok then ([], count_lag dropped (mo\<lparr>mo_inflight := fl\<rparr>))
         else
           let accepted = (bus (mo_bus_calls mo) ev = Some True);
               mo1 = mo\<lparr>mo_inflight := inflight_release fl, mo_bus_calls := mo_bus_calls mo + 1\<rparr>
           in ([ev], count_lag (if accepted then emitted else dropped) mo1))"

definition emit_for_measurement ::
    "event_bus \<Rightarrow> lag_measurement \<Rightarrow> lag_evaluation \<Rightarrow> lag_monitor \<Rightarrow> monitor_event list \<times> lag_monitor" where
  "emit_for_measurement bus m e mo =
     (if \<not> mo_has_bus mo then ([], mo)
      else
        let c = mo_configuration mo;
            (out1, mo1) =
              (if lc_emit_measurements c
               then lag_emit bus (build_lag_measurement_event m)
                      (\<lambda>x. x\<lparr>lx_measurement_events := lx_measurement_events x + 1\<rparr>) mo
               else ([], mo));
            (out2, mo2) =
              (if lc_emit_breaches c \<and> le_breached e
               then lag_emit bus (build_lag_breach_event m e)
                      (\<lambda>x. x\<lparr>lx_breach_events := lx_breach_events x + 1\<rparr>) mo1
               else ([], mo1))
        in (out1 @ out2, mo2))"

definition apply_measurement ::
    "event_bus \<Rightarrow> lag_measurement \<Rightarrow> lag_monitor \<Rightarrow> lag_evaluation \<times> monitor_event list \<times> lag_monitor" where
  "apply_measurement bus m mo =
     (let e = evaluate_lag (lc_thresholds (mo_configuration mo)) (lm_lag_ns m);
          mo1 = count_lag (\<lambda>x. x\<lparr>lx_attempted := lx_attempted x + 1\<rparr>) mo;
          mo2 = mo1\<lparr>mo_statistics := lag_observe (lm_lag_ns m) (le_severity e) (mo_statistics mo1)\<rparr>;
          mo3 = count_lag record_sample_recorded mo2;
          mo4 = (if LagNormal < le_severity e then count_lag (record_threshold_hit (le_severity e)) mo3 else mo3);
          (out, mo5) = emit_for_measurement bus m e (mo4\<lparr>mo_last := Some m\<rparr>)
      in (e, out, mo5))"

definition on_scheduler_sample ::
    "event_bus \<Rightarrow> lag_measurement \<Rightarrow> lag_monitor \<Rightarrow> lag_evaluation \<times> monitor_event list \<times> lag_monitor" where
  "on_scheduler_sample bus m mo =
     apply_measurement bus m (count_lag (\<lambda>x. x\<lparr>lx_invocations := lx_invocations x + 1\<rparr>) mo)"

definition on_scheduler_drops :: "nat \<Rightarrow> lag_monitor \<Rightarrow> lag_monitor" where
  "on_scheduler_drops n mo =
     (let drift = seconds_to_ns (lc_sample_interval (mo_configuration mo))
      in ((\<lambda>x. count_lag (record_scheduler_drift drift \<circ> record_sample_dropped) x) ^^ n) mo)"

text \<open>
  One iteration of the loop; a stop event can only end a sleep there is. The sampler is the
  monitor's own, which does not raise; the branch that skips the sample of one that does is not
  modelled.
\<close>

fun monitor_iterate ::
    "event_bus \<Rightarrow> cadence_reading \<Rightarrow> lag_monitor \<Rightarrow>
     (lag_measurement \<times> lag_evaluation) option \<times> monitor_event list \<times> lag_monitor" where
  "monitor_iterate bus (Wake now actual later) mo =
     (let s = mo_scheduler mo; interval = sch_interval_ns s;
          q = \<lparr>sq_sample_index = sch_sample_index s, sq_scheduled_ns = sch_deadline s, sq_interval_ns = interval\<rparr>;
          m = sampler_sample (mo_runtime_id mo) actual q;
          (e, out, mo1) = on_scheduler_sample bus m mo;
          (missed, d) = next_deadline (sch_deadline s) interval later;
          mo2 = on_scheduler_drops (nat missed) mo1
      in (Some (m, e), out,
          mo2\<lparr>mo_scheduler := s\<lparr>sch_sample_index := sch_sample_index s + 1, sch_deadline := d\<rparr>\<rparr>))"
| "monitor_iterate bus (StoppedAsleep now) mo =
     (if 0 < sleeps_for now (mo_scheduler mo)
      then (None, [], mo\<lparr>mo_scheduler := scheduler_stop (mo_scheduler mo)\<rparr>) else (None, [], mo))"
| "monitor_iterate bus StoppedAwake mo = (None, [], mo\<lparr>mo_scheduler := scheduler_stop (mo_scheduler mo)\<rparr>)"

fun monitor_run ::
    "event_bus \<Rightarrow> cadence_reading list \<Rightarrow> lag_monitor \<Rightarrow>
     (lag_measurement \<times> lag_evaluation) list \<times> monitor_event list \<times> lag_monitor" where
  "monitor_run bus [] mo = ([], [], mo)"
| "monitor_run bus (r # rs) mo =
     (if \<not> sch_running (mo_scheduler mo) then ([], [], mo)
      else
        let (m, out, mo1) = monitor_iterate bus r mo; (ms, outs, mo2) = monitor_run bus rs mo1
        in ((case m of None \<Rightarrow> ms | Some x \<Rightarrow> x # ms), out @ outs, mo2))"

definition monitor_start :: "int \<Rightarrow> lag_monitor \<Rightarrow> bool \<times> lag_monitor" where
  "monitor_start now mo =
     (if mo_state mo = EngRunning then (True, mo)
      else
        case scheduler_configure (seconds_to_ns (lc_sample_interval (mo_configuration mo))) (mo_scheduler mo) of
          None \<Rightarrow> (False, mo\<lparr>mo_state := EngFailed\<rparr>)
        | Some s \<Rightarrow>
            (case scheduler_start now s of
               None \<Rightarrow> (False, mo\<lparr>mo_state := EngFailed, mo_scheduler := s\<rparr>)
             | Some s' \<Rightarrow> (True, mo\<lparr>mo_state := EngRunning, mo_scheduler := s'\<rparr>)))"

definition monitor_stop :: "lag_monitor \<Rightarrow> lag_monitor" where
  "monitor_stop mo =
     (if mo_state mo \<in> {EngIdle, EngStopped} then mo\<lparr>mo_state := EngStopped\<rparr>
      else mo\<lparr>mo_state := EngStopped, mo_scheduler := scheduler_stop (mo_scheduler mo)\<rparr>)"

text \<open>
  \<open>reconfigure\<close> with the very object the monitor already has does nothing, which is \<open>None\<close> here. The result
  is whether it returned: a running scheduler rejects an interval that rounds to zero.
\<close>

definition monitor_reconfigure :: "lag_configuration option \<Rightarrow> lag_monitor \<Rightarrow> bool \<times> lag_monitor" where
  "monitor_reconfigure configuration mo =
     (case configuration of
        None \<Rightarrow> (True, mo)
      | Some c \<Rightarrow>
          let previous = mo_configuration mo;
              mo1 = (if lc_statistics_window c = lc_statistics_window previous then mo
                     else mo\<lparr>mo_statistics := fresh_lag_statistics (nat (lc_statistics_window c))\<rparr>);
              mo2 = (if lc_max_pending_events c = lc_max_pending_events previous then mo1
                     else mo1\<lparr>mo_inflight := \<lparr>fl_capacity = nat (lc_max_pending_events c), fl_pending = 0, fl_denied = 0\<rparr>\<rparr>);
              mo3 = count_lag (\<lambda>x. x\<lparr>lx_reconfigurations := lx_reconfigurations x + 1\<rparr>)
                      (mo2\<lparr>mo_configuration := c\<rparr>)
          in if sch_running (mo_scheduler mo3)
             then case scheduler_configure (seconds_to_ns (lc_sample_interval c)) (mo_scheduler mo3) of
                    None \<Rightarrow> (False, mo3)
                  | Some s \<Rightarrow> (True, mo3\<lparr>mo_scheduler := s\<rparr>)
             else (True, mo3))"

definition monitor_subscribe :: "bool \<Rightarrow> lag_monitor \<Rightarrow> int \<times> lag_monitor" where
  "monitor_subscribe raises mo =
     (let i = mo_next_id mo + 1 in (i, mo\<lparr>mo_next_id := i, mo_listeners := dset i raises (mo_listeners mo)\<rparr>))"

definition monitor_unsubscribe :: "int \<Rightarrow> lag_monitor \<Rightarrow> bool \<times> lag_monitor" where
  "monitor_unsubscribe i mo =
     (dget (mo_listeners mo) i \<noteq> None, mo\<lparr>mo_listeners := dpop i (mo_listeners mo)\<rparr>)"

section \<open>The statistics follow the samples\<close>

text \<open>The maximal runs of freezes, with the newest sample first: what a freeze segment is meant to be.\<close>

definition newest_freezes :: "(int \<times> lag_severity) list \<Rightarrow> bool" where
  "newest_freezes xs \<longleftrightarrow> (case xs of [] \<Rightarrow> False | (_, s) # _ \<Rightarrow> s = LagFreeze)"

fun freeze_runs :: "(int \<times> lag_severity) list \<Rightarrow> int list list" where
  "freeze_runs [] = []"
| "freeze_runs ((l, s) # older) =
     (if s \<noteq> LagFreeze then freeze_runs older
      else if newest_freezes older then (l # hd (freeze_runs older)) # tl (freeze_runs older)
      else [l] # freeze_runs older)"

definition trailing_run :: "lag_severity \<Rightarrow> (int \<times> lag_severity) list \<Rightarrow> nat" where
  "trailing_run level xs = length (takeWhile (\<lambda>(_, s). level \<le> s) xs)"

definition lag_statistics_of :: "nat \<Rightarrow> (int \<times> lag_severity) list \<Rightarrow> lag_statistics \<Rightarrow> bool" where
  "lag_statistics_of w xs s \<longleftrightarrow>
     1 \<le> w \<and> ls_window s = w \<and> ls_values s = take_last w (map fst (rev xs)) \<and>
     ls_sum s = sum_list (ls_values s) \<and> ls_sample_count s = length xs \<and>
     ls_peak s = Max (insert 0 (fst ` set xs)) \<and>
     ls_consecutive_warning s = trailing_run LagWarning xs \<and>
     ls_consecutive_critical s = trailing_run LagCritical xs \<and>
     ls_consecutive_freeze s = trailing_run LagFreeze xs \<and>
     ls_freeze_segments s = length (freeze_runs xs) \<and> ls_in_freeze s = newest_freezes xs \<and>
     ls_current_freeze_ns s = (if newest_freezes xs then sum_list (hd (freeze_runs xs)) else 0) \<and>
     ls_last_freeze_ns s = (case freeze_runs xs of [] \<Rightarrow> 0 | r # _ \<Rightarrow> sum_list r) \<and>
     ls_longest_freeze_ns s = Max (insert 0 (sum_list ` set (freeze_runs xs)))"

lemma newest_freezes_simps [simp]: "\<not> newest_freezes []" "newest_freezes ((l, s) # xs) \<longleftrightarrow> s = LagFreeze"
  by (simp_all add: newest_freezes_def)

lemma newest_freezes_runs: "newest_freezes xs \<Longrightarrow> freeze_runs xs \<noteq> []"
  by (cases xs rule: freeze_runs.cases) simp_all

lemma sum_ring_push:
  assumes "1 \<le> w" "length xs \<le> w"
  shows "sum_list (ring_push w x xs) = (if length xs = w then sum_list xs - hd xs else sum_list xs) + (x::int)"
  using assms by (cases xs) (auto simp: ring_push_def)

lemma trailing_run_Cons: "trailing_run level ((l, s) # xs) = run_length (level \<le> s) (trailing_run level xs)"
  by (simp add: trailing_run_def run_length_def)

lemma freeze_le: "LagFreeze \<le> s \<longleftrightarrow> s = LagFreeze"
  by (cases s) (simp_all add: less_eq_lag_severity_def)

lemma Max_insert_step:
  fixes x :: int
  assumes "finite A"
  shows "Max (insert 0 (insert x A)) = (if Max (insert 0 A) < x then x else Max (insert 0 A))"
proof -
  have "Max (insert x (insert 0 A)) = max x (Max (insert 0 A))" using assms by (simp add: Max_insert)
  then show ?thesis by (simp add: insert_commute max_def)
qed

lemma lag_statistics_of_observe:
  assumes "lag_statistics_of w xs s" and "0 \<le> l"
  shows "lag_statistics_of w ((l, v) # xs) (lag_observe l v s)"
proof -
  let ?s = "lag_observe l v s"
  have w: "1 \<le> w" "ls_window s = w" "length (ls_values s) \<le> w" and vals: "ls_values s = take_last w (map fst (rev xs))"
    and sum: "ls_sum s = sum_list (ls_values s)"
    using assms by (simp_all add: lag_statistics_of_def)
  have fields: "ls_window ?s = w" "ls_values ?s = ring_push w l (ls_values s)"
      "ls_sum ?s = (if length (ls_values s) = w then ls_sum s - hd (ls_values s) else ls_sum s) + l"
      "ls_sample_count ?s = ls_sample_count s + 1" "ls_peak ?s = (if ls_peak s < l then l else ls_peak s)"
      "ls_consecutive_warning ?s = run_length (LagWarning \<le> v) (ls_consecutive_warning s)"
      "ls_consecutive_critical ?s = run_length (LagCritical \<le> v) (ls_consecutive_critical s)"
      "ls_consecutive_freeze ?s = run_length (LagFreeze \<le> v) (ls_consecutive_freeze s)"
    using w(2) by (simp_all add: lag_observe_def update_consecutive_def Let_def)
  have freeze: "ls_in_freeze ?s = (v = LagFreeze)"
      "ls_freeze_segments ?s = ls_freeze_segments s + (if v = LagFreeze \<and> \<not> ls_in_freeze s then 1 else 0)"
      "ls_current_freeze_ns ?s = (if v \<noteq> LagFreeze then 0 else if ls_in_freeze s then ls_current_freeze_ns s + l else l)"
      "ls_last_freeze_ns ?s = (if v \<noteq> LagFreeze then ls_last_freeze_ns s else ls_current_freeze_ns ?s)"
      "ls_longest_freeze_ns ?s =
         (if v \<noteq> LagFreeze then ls_longest_freeze_ns s
          else if ls_longest_freeze_ns s < ls_current_freeze_ns ?s then ls_current_freeze_ns ?s else ls_longest_freeze_ns s)"
    by (simp_all add: lag_observe_def update_consecutive_def Let_def freeze_le)
  have kept: "ls_values ?s = take_last w (map fst (rev ((l, v) # xs)))"
    using ring_push_take_last[OF w(1,3), of l] unfolding fields(2) by (simp add: vals take_last_idem_append)
  have sums: "ls_sum ?s = sum_list (ls_values ?s)"
    unfolding fields(2,3) sum using sum_ring_push[OF w(1,3)] by simp
  have longest: "ls_longest_freeze_ns ?s = Max (insert 0 (sum_list ` set (freeze_runs ((l, v) # xs))))"
  proof (cases "v = LagFreeze")
    case False
    then show ?thesis using freeze(5) assms by (simp add: lag_statistics_of_def)
  next
    case True
    show ?thesis
    proof (cases "newest_freezes xs")
      case False
      have old: "ls_longest_freeze_ns s = Max (insert 0 (sum_list ` set (freeze_runs xs)))"
        using assms(1) by (simp add: lag_statistics_of_def)
      have "ls_current_freeze_ns ?s = l" using freeze(3) assms(1) True False by (simp add: lag_statistics_of_def)
      then have "ls_longest_freeze_ns ?s = (if ls_longest_freeze_ns s < l then l else ls_longest_freeze_ns s)"
        using freeze(5) True by simp
      also have "\<dots> = Max (insert 0 (insert l (sum_list ` set (freeze_runs xs))))"
        unfolding old by (rule Max_insert_step[symmetric]) simp
      finally show ?thesis using True False by simp
    next
      case grown: True
      then obtain r rs where runs: "freeze_runs xs = r # rs" using newest_freezes_runs by (cases "freeze_runs xs") auto
      have old: "ls_longest_freeze_ns s = Max (insert 0 (insert (sum_list r) (sum_list ` set rs)))"
        using assms(1) runs by (simp add: lag_statistics_of_def)
      have "ls_current_freeze_ns ?s = l + sum_list r"
        using freeze(3) assms(1) True grown runs by (simp add: lag_statistics_of_def)
      then have "ls_longest_freeze_ns ?s
          = (if ls_longest_freeze_ns s < l + sum_list r then l + sum_list r else ls_longest_freeze_ns s)"
        using freeze(5) True by simp
      also have "\<dots> = Max (insert 0 (insert (l + sum_list r) (sum_list ` set rs)))"
        unfolding old Max_insert_step[OF finite_imageI[OF finite_set]] using assms(2) by auto
      finally show ?thesis using True grown runs by simp
    qed
  qed
  have old: "ls_peak s = Max (insert 0 (fst ` set xs))" "ls_freeze_segments s = length (freeze_runs xs)"
      "ls_in_freeze s = newest_freezes xs"
      "ls_current_freeze_ns s = (if newest_freezes xs then sum_list (hd (freeze_runs xs)) else 0)"
      "ls_last_freeze_ns s = (case freeze_runs xs of [] \<Rightarrow> 0 | r # _ \<Rightarrow> sum_list r)"
    using assms(1) by (simp_all add: lag_statistics_of_def)
  have peak: "ls_peak ?s = Max (insert 0 (fst ` set ((l, v) # xs)))"
    unfolding fields(5) old(1) list.set image_insert fst_conv
    by (rule Max_insert_step[symmetric]) simp
  have segments: "ls_freeze_segments ?s = length (freeze_runs ((l, v) # xs))"
    unfolding freeze(2) old(2,3) using newest_freezes_runs[of xs] by (cases "freeze_runs xs") auto
  have current: "ls_current_freeze_ns ?s
      = (if newest_freezes ((l, v) # xs) then sum_list (hd (freeze_runs ((l, v) # xs))) else 0)"
    unfolding freeze(3) old(3,4) by simp
  have newest: "ls_last_freeze_ns ?s = (case freeze_runs ((l, v) # xs) of [] \<Rightarrow> 0 | r # _ \<Rightarrow> sum_list r)"
    unfolding freeze(4) current unfolding old(5) by simp
  have consecutive: "ls_consecutive_warning ?s = trailing_run LagWarning ((l, v) # xs)"
      "ls_consecutive_critical ?s = trailing_run LagCritical ((l, v) # xs)"
      "ls_consecutive_freeze ?s = trailing_run LagFreeze ((l, v) # xs)"
    unfolding fields(6,7,8) trailing_run_Cons using assms(1) by (simp_all add: lag_statistics_of_def)
  have count: "ls_sample_count ?s = length ((l, v) # xs)" using fields(4) assms(1) by (simp add: lag_statistics_of_def)
  have flag: "ls_in_freeze ?s = newest_freezes ((l, v) # xs)" using freeze(1) by simp
  show ?thesis
    unfolding lag_statistics_of_def
    by (intro conjI) (fact w(1) fields(1) kept sums count peak consecutive segments flag current newest longest)+
qed

lemma lag_statistics_of_fold:
  assumes "lag_statistics_of w ys s" and "\<forall>(l, v)\<in>set xs. 0 \<le> l"
  shows "lag_statistics_of w (rev xs @ ys) (fold (\<lambda>(l, v). lag_observe l v) xs s)"
  using assms
proof (induction xs arbitrary: ys s)
  case (Cons x xs)
  obtain l v where x: "x = (l, v)" by fastforce
  have "lag_statistics_of w ((l, v) # ys) (lag_observe l v s)"
    using Cons.prems x by (intro lag_statistics_of_observe) auto
  then show ?case using Cons.IH[of "(l, v) # ys"] Cons.prems(2) x by simp
qed simp

lemma nearest_rank_mono:
  assumes "sorted xs" "xs \<noteq> []" "p \<le> q" "0 < p" "q < 1"
  shows "nearest_rank xs p \<le> nearest_rank xs q" and "hd xs \<le> nearest_rank xs p" and "nearest_rank xs q \<le> last xs"
proof -
  define rank where "rank r = (let k = nat (py_int (r * real (length xs))) in min (if k = 0 then 1 else k) (length xs) - 1)" for r
  have at: "nearest_rank xs r = xs ! rank r" if "0 < r" "r < 1" for r
    using that assms(2) by (simp add: nearest_rank_def rank_def Let_def)
  have below: "rank r < length xs" for r using assms(2) by (auto simp: rank_def Let_def min_def)
  have "py_int (p * real (length xs)) \<le> py_int (q * real (length xs))"
    using assms by (auto simp: py_int_def intro!: floor_mono mult_right_mono)
  then have "rank p \<le> rank q" by (auto simp: rank_def Let_def intro!: diff_le_mono min.mono nat_mono)
  then show "nearest_rank xs p \<le> nearest_rank xs q"
    using at[of p] at[of q] assms below[of q] by (simp add: sorted_nth_mono)
  show "hd xs \<le> nearest_rank xs p"
    using at[of p] assms below[of p] sorted_nth_mono[OF assms(1), of 0 "rank p"] by (simp add: hd_conv_nth)
  show "nearest_rank xs q \<le> last xs"
    using at[of q] assms below[of q] sorted_nth_mono[OF assms(1), of "rank q" "length xs - 1"]
    by (simp add: last_conv_nth)
qed

lemma sorted_ends:
  fixes xs :: "int list"
  assumes "xs \<noteq> []"
  shows "hd (sort xs) = Min (set xs)" and "last (sort xs) = Max (set xs)"
proof -
  have ne: "sort xs \<noteq> []" using assms by (metis length_0_conv length_sort)
  then obtain y ys where front: "sort xs = y # ys" by (cases "sort xs") auto
  have "\<forall>x\<in>set (y # ys). y \<le> x" using sorted_sort[of xs] unfolding front by simp
  then have "\<forall>x\<in>set xs. y \<le> x" unfolding front[symmetric] by simp
  moreover have "y \<in> set xs" using front by (metis list.set_intros(1) set_sort)
  ultimately show "hd (sort xs) = Min (set xs)" unfolding front by (auto intro!: Min_eqI[symmetric])
  obtain zs z where rear: "sort xs = zs @ [z]" using ne by (cases "sort xs" rule: rev_cases) auto
  have "\<forall>x\<in>set (zs @ [z]). x \<le> z" using sorted_sort[of xs] unfolding rear by (simp add: sorted_append)
  then have "\<forall>x\<in>set xs. x \<le> z" unfolding rear[symmetric] by simp
  moreover have "z \<in> set xs" using rear by (metis in_set_conv_decomp set_sort)
  ultimately show "last (sort xs) = Max (set xs)" unfolding rear by (auto intro!: Max_eqI[symmetric])
qed

text \<open>C40: The lag statistics are those of the samples. After any samples of non-negative lag, the window holds the last ones and
  its count, sum, extrema and floored mean are theirs, the percentiles lie in order between the extrema; the peak is that of all
  samples; the consecutive warning, critical and freeze counts are the lengths of the trailing runs; and the freeze segments are the maximal runs of frozen
  samples, the longest of them, and the latest, summed up over its samples.
\<close>

theorem lag_statistics_follow_the_samples:
  assumes "new_lag_statistics w = Some s0" and "xs \<noteq> []" and "\<forall>(l, v)\<in>set xs. 0 \<le> l"
    and "snap = lag_snapshot_of (fold (\<lambda>(l, v). lag_observe l v) xs s0)"
  shows "let window = take_last (nat w) (map fst xs); runs = freeze_runs (rev xs) in
    lss_sample_count snap = length xs \<and> lss_window_filled snap = length window \<and> lss_sum_ns snap = sum_list window \<and>
    lss_min_ns snap = Min (set window) \<and> lss_max_ns snap = Max (set window) \<and>
    lss_mean_ns snap = sum_list window div int (length window) \<and>
    lss_min_ns snap \<le> lss_p50_ns snap \<and> lss_p50_ns snap \<le> lss_p95_ns snap \<and> lss_p95_ns snap \<le> lss_p99_ns snap \<and>
    lss_p99_ns snap \<le> lss_max_ns snap \<and> lss_peak_ns snap = Max (fst ` set xs) \<and>
    lss_consecutive_warning snap = trailing_run LagWarning (rev xs) \<and>
    lss_consecutive_critical snap = trailing_run LagCritical (rev xs) \<and>
    lss_consecutive_freeze snap = trailing_run LagFreeze (rev xs) \<and>
    lss_freeze_segments snap = length runs \<and> lss_longest_freeze_ns snap = Max (insert 0 (sum_list ` set runs)) \<and>
    lss_last_freeze_ns snap = (case runs of [] \<Rightarrow> 0 | r # _ \<Rightarrow> sum_list r)"
proof -
  define s where "s = fold (\<lambda>(l, v). lag_observe l v) xs s0"
  define win where "win = take_last (nat w) (map fst xs)"
  have start: "lag_statistics_of (nat w) [] s0"
    using assms(1) by (cases "w \<le> 0") (simp_all add: new_lag_statistics_def, force simp: fresh_lag_statistics_def
        lag_statistics_of_def trailing_run_def take_last_def)
  have s: "lag_statistics_of (nat w) (rev xs) s"
    using lag_statistics_of_fold[OF start assms(3)] by (simp add: s_def)
  have vals: "ls_values s = win" "ls_sum s = sum_list win" and w: "1 \<le> nat w"
    using s by (simp_all add: lag_statistics_of_def win_def)
  have ne: "win \<noteq> []" using assms(2) w by (simp add: win_def)
  then have "length (sort win) \<noteq> 0" by simp
  then have sne: "sort win \<noteq> []" by blast
  have peak: "ls_peak s = Max (fst ` set xs)"
  proof -
    obtain x where x: "x \<in> set xs" using assms(2) by (cases xs) auto
    then have "0 \<le> fst x" using assms(3) by (cases x) auto
    also have "fst x \<le> Max (fst ` set xs)" using x by simp
    finally have "0 \<le> Max (fst ` set xs)" .
    then show ?thesis using s assms(2) by (simp add: lag_statistics_of_def Max_insert)
  qed
  note rank = nearest_rank_mono[OF sorted_sort sne]
  have snap: "snap = lag_snapshot_of s" by (simp add: assms(4) s_def)
  have "lss_sample_count snap = ls_sample_count s" "lss_window_filled snap = length win" "lss_sum_ns snap = sum_list win"
      "lss_min_ns snap = hd (sort win)" "lss_max_ns snap = last (sort win)"
      "lss_mean_ns snap = sum_list win div int (length win)" "lss_p50_ns snap = nearest_rank (sort win) (50 / 100)"
      "lss_p95_ns snap = nearest_rank (sort win) (95 / 100)" "lss_p99_ns snap = nearest_rank (sort win) (99 / 100)"
      "lss_peak_ns snap = ls_peak s" "lss_consecutive_warning snap = ls_consecutive_warning s"
      "lss_consecutive_critical snap = ls_consecutive_critical s"
      "lss_consecutive_freeze snap = ls_consecutive_freeze s" "lss_freeze_segments snap = ls_freeze_segments s"
      "lss_longest_freeze_ns snap = ls_longest_freeze_ns s" "lss_last_freeze_ns snap = ls_last_freeze_ns s"
    unfolding snap lag_snapshot_of_def Let_def vals using sne by simp_all
  moreover have "nearest_rank (sort win) (50 / 100) \<le> nearest_rank (sort win) (95 / 100)"
      "nearest_rank (sort win) (95 / 100) \<le> nearest_rank (sort win) (99 / 100)"
      "hd (sort win) \<le> nearest_rank (sort win) (50 / 100)" "nearest_rank (sort win) (99 / 100) \<le> last (sort win)"
    using rank(1)[of "50 / 100" "95 / 100"] rank(1)[of "95 / 100" "99 / 100"] rank(2)[of "50 / 100" "95 / 100"]
      rank(3)[of "95 / 100" "99 / 100"]
    by simp_all
  moreover have "ls_sample_count s = length xs" "ls_consecutive_warning s = trailing_run LagWarning (rev xs)"
      "ls_consecutive_critical s = trailing_run LagCritical (rev xs)"
      "ls_consecutive_freeze s = trailing_run LagFreeze (rev xs)" "ls_freeze_segments s = length (freeze_runs (rev xs))"
      "ls_longest_freeze_ns s = Max (insert 0 (sum_list ` set (freeze_runs (rev xs))))"
      "ls_last_freeze_ns s = (case freeze_runs (rev xs) of [] \<Rightarrow> 0 | r # _ \<Rightarrow> sum_list r)"
    using s by (simp_all add: lag_statistics_of_def)
  ultimately show ?thesis
    unfolding Let_def win_def[symmetric] sorted_ends[OF ne] by (simp only: peak simp_thms)
qed

theorem lag_statistics_follow_the_samples_witness:
  "\<exists>s0. new_lag_statistics 3 = Some s0 \<and>
     lss_longest_freeze_ns (lag_snapshot_of (fold (\<lambda>(l, v). lag_observe l v)
       [(5::int, LagFreeze), (7, LagFreeze), (1, LagNormal), (9, LagFreeze)] s0)) = 12"
proof -
  let ?xs = "[(5::int, LagFreeze), (7, LagFreeze), (1, LagNormal), (9, LagFreeze)]"
  obtain s0 where s0: "new_lag_statistics 3 = Some s0" by (simp add: new_lag_statistics_def)
  have "\<forall>(l, v)\<in>set ?xs. 0 \<le> l" by simp
  from lag_statistics_follow_the_samples[OF s0 _ this refl] s0
  show ?thesis by (simp add: Let_def)
qed

text \<open>The documented rank is \<open>ceil(q * n)\<close>; the code rounds down, so below a hundred samples p99 is not the last one.\<close>

lemma percentile_rounds_down:
  assumes "2 \<le> length xs" "length xs < 100"
  shows "\<exists>k < length xs - 1. nearest_rank xs (99 / 100) = xs ! k"
proof -
  have ne: "xs \<noteq> []" using assms(1) by (cases xs) auto
  define k where "k = nat (py_int (99 / 100 * real (length xs)))"
  have "99 / 100 * real (length xs) < real (length xs)" using ne by simp
  then have "k < length xs" by (auto simp: k_def py_int_def nat_less_iff floor_less_iff)
  then have "min (if k = 0 then 1 else k) (length xs) - 1 < length xs - 1" using assms(1) by auto
  then show ?thesis using ne by (auto simp: nearest_rank_def Let_def k_def)
qed

section \<open>The cadence\<close>

lemma lag_emit_frame:
  assumes "lag_emit bus ev f mo = (out, mo')" and "\<And>x. lx_attempted (f x) = lx_attempted x \<and> lx_dropped (f x) = lx_dropped x \<and>
    lx_recorded (f x) = lx_recorded x \<and> lx_drift_ns (f x) = lx_drift_ns x"
  shows "mo_scheduler mo' = mo_scheduler mo \<and> mo_configuration mo' = mo_configuration mo \<and>
    lx_attempted (mo_metrics mo') = lx_attempted (mo_metrics mo) \<and> lx_dropped (mo_metrics mo') = lx_dropped (mo_metrics mo) \<and>
    lx_recorded (mo_metrics mo') = lx_recorded (mo_metrics mo) \<and> lx_drift_ns (mo_metrics mo') = lx_drift_ns (mo_metrics mo)"
  using assms by (auto simp: lag_emit_def Let_def count_lag_def split: prod.splits if_splits)

lemma emit_for_measurement_frame:
  assumes "emit_for_measurement bus m e mo = (out, mo')"
  shows "mo_scheduler mo' = mo_scheduler mo \<and> mo_configuration mo' = mo_configuration mo \<and>
    lx_attempted (mo_metrics mo') = lx_attempted (mo_metrics mo) \<and> lx_dropped (mo_metrics mo') = lx_dropped (mo_metrics mo) \<and>
    lx_recorded (mo_metrics mo') = lx_recorded (mo_metrics mo) \<and> lx_drift_ns (mo_metrics mo') = lx_drift_ns (mo_metrics mo)"
  using assms by (auto simp: emit_for_measurement_def Let_def split: prod.splits if_splits dest!: lag_emit_frame)

lemma apply_measurement_frame:
  assumes "apply_measurement bus m mo = (e, out, mo')"
  shows "mo_scheduler mo' = mo_scheduler mo \<and> mo_configuration mo' = mo_configuration mo \<and>
    lx_attempted (mo_metrics mo') = lx_attempted (mo_metrics mo) + 1 \<and> lx_dropped (mo_metrics mo') = lx_dropped (mo_metrics mo) \<and>
    lx_recorded (mo_metrics mo') = lx_recorded (mo_metrics mo) + 1 \<and> lx_drift_ns (mo_metrics mo') = lx_drift_ns (mo_metrics mo)"
  using assms by (auto simp: apply_measurement_def Let_def count_lag_def record_sample_recorded_def record_threshold_hit_def
      split: prod.splits if_splits dest!: emit_for_measurement_frame)

lemma on_scheduler_drops_frame:
  "mo_scheduler (on_scheduler_drops n mo) = mo_scheduler mo \<and> mo_configuration (on_scheduler_drops n mo) = mo_configuration mo \<and>
   lx_attempted (mo_metrics (on_scheduler_drops n mo)) = lx_attempted (mo_metrics mo) \<and>
   lx_recorded (mo_metrics (on_scheduler_drops n mo)) = lx_recorded (mo_metrics mo) \<and>
   lx_dropped (mo_metrics (on_scheduler_drops n mo)) = lx_dropped (mo_metrics mo) + n"
  unfolding on_scheduler_drops_def Let_def
  by (induction n) (auto simp: count_lag_def record_sample_dropped_def record_scheduler_drift_def Let_def)

lemma next_deadline_exact:
  assumes "0 < interval" "next_deadline d interval now = (missed, d')"
  shows "0 \<le> missed" and "d' = d + interval * (1 + missed)" and "now < d' + interval"
proof -
  have "0 \<le> missed \<and> d' = d + interval * (1 + missed) \<and> now < d' + interval"
  proof (cases "0 < now - (d + interval)")
    case True
    define q where "q = (now - (d + interval)) div interval"
    have "now - (d + interval) = interval * q + (now - (d + interval)) mod interval" by (simp add: q_def)
    moreover have "(now - (d + interval)) mod interval < interval" using assms(1) by simp
    ultimately have "now < d + interval + interval * q + interval" by linarith
    moreover have "0 \<le> q" using True assms(1) by (simp add: q_def pos_imp_zdiv_nonneg_iff)
    ultimately show ?thesis using assms True
      by (auto simp: next_deadline_def Let_def q_def[symmetric] algebra_simps split: if_splits)
  next
    case False
    then show ?thesis using assms by (auto simp: next_deadline_def Let_def algebra_simps)
  qed
  then show "0 \<le> missed" "d' = d + interval * (1 + missed)" "now < d' + interval" by blast+
qed

definition read_last :: "cadence_reading list \<Rightarrow> int option" where
  "read_last rs = (case last_of rs of Some (Wake now actual later) \<Rightarrow> Some later | _ \<Rightarrow> None)"

lemma cadence_run:
  assumes "\<forall>r\<in>set rs. \<exists>now actual later. r = Wake now actual later"
    and "sch_running (mo_scheduler mo)" and "0 < sch_interval_ns (mo_scheduler mo)"
    and "monitor_run bus rs mo = (ms, out, mo')"
  shows "let i = sch_interval_ns (mo_scheduler mo); d = sch_deadline (mo_scheduler mo); d' = sch_deadline (mo_scheduler mo')
    in map (lm_sample_index \<circ> fst) ms = map (\<lambda>k. sch_sample_index (mo_scheduler mo) + int k) [0..<length rs] \<and>
       sorted_wrt (<) (map (lm_scheduled_ns \<circ> fst) ms) \<and>
       (\<forall>(m, e)\<in>set ms. d \<le> lm_scheduled_ns m \<and> lm_scheduled_ns m < d' \<and> i dvd lm_scheduled_ns m - d) \<and>
       lx_attempted (mo_metrics mo') = lx_attempted (mo_metrics mo) + length rs \<and>
       lx_recorded (mo_metrics mo') = lx_recorded (mo_metrics mo) + length rs \<and>
       lx_dropped (mo_metrics mo) \<le> lx_dropped (mo_metrics mo') \<and>
       d' = d + i * (int (length rs) + int (lx_dropped (mo_metrics mo')) - int (lx_dropped (mo_metrics mo))) \<and>
       (\<forall>later. read_last rs = Some later \<longrightarrow> later < d' + i)"
  using assms
proof (induction rs arbitrary: mo ms out)
  case Nil
  then show ?case by (simp add: read_last_def)
next
  case (Cons r rs)
  let ?s = "mo_scheduler mo" and ?i = "sch_interval_ns (mo_scheduler mo)" and ?d = "sch_deadline (mo_scheduler mo)"
  obtain now actual later where r: "r = Wake now actual later" using Cons.prems(1) by auto
  obtain missed d1 where nd: "next_deadline ?d ?i later = (missed, d1)" by fastforce
  note deadline = next_deadline_exact[OF Cons.prems(3) nd]
  define m where "m = sampler_sample (mo_runtime_id mo) actual
    \<lparr>sq_sample_index = sch_sample_index ?s, sq_scheduled_ns = ?d, sq_interval_ns = ?i\<rparr>"
  obtain e out1 moa where applied: "on_scheduler_sample bus m mo = (e, out1, moa)" by (metis prod_cases3)
  define mo1 where "mo1 = on_scheduler_drops (nat missed) moa
    \<lparr>mo_scheduler := ?s\<lparr>sch_sample_index := sch_sample_index ?s + 1, sch_deadline := d1\<rparr>\<rparr>"
  have first: "monitor_iterate bus r mo = (Some (m, e), out1, mo1)"
    using applied nd by (simp add: r Let_def m_def mo1_def)
  obtain ms' out2 where rest: "monitor_run bus rs mo1 = (ms', out2, mo')" and ms: "ms = (m, e) # ms'"
    using Cons.prems(2,4) first by (auto split: prod.splits)
  have step: "mo_scheduler mo1 = ?s\<lparr>sch_sample_index := sch_sample_index ?s + 1, sch_deadline := d1\<rparr>"
      "lx_attempted (mo_metrics mo1) = lx_attempted (mo_metrics mo) + 1" "lx_recorded (mo_metrics mo1) = lx_recorded (mo_metrics mo) + 1"
      "lx_dropped (mo_metrics mo1) = lx_dropped (mo_metrics mo) + nat missed"
      "lm_sample_index m = sch_sample_index ?s" "lm_scheduled_ns m = ?d"
    using apply_measurement_frame[OF applied[unfolded on_scheduler_sample_def]] on_scheduler_drops_frame[of "nat missed" moa]
    by (simp_all add: mo1_def m_def count_lag_def sampler_sample_def calculate_lag_def Let_def)
  have "sch_running (mo_scheduler mo1)" "0 < sch_interval_ns (mo_scheduler mo1)" "\<forall>r\<in>set rs. \<exists>now actual later. r = Wake now actual later"
    using Cons.prems(1-3) step(1) by auto
  note IH = Cons.IH[OF this(3,1,2) rest, unfolded Let_def step(1), simplified]
  have mono: "d1 \<le> sch_deadline (mo_scheduler mo')" using IH Cons.prems(3) by auto
  have above: "?d < d1" using deadline(1,2) Cons.prems(3) by (simp add: zero_less_mult_iff)
  have idx: "map (lm_sample_index \<circ> fst) ms = map (\<lambda>k. sch_sample_index ?s + int k) [0..<length (r # rs)]"
    using IH by (simp add: ms step(5) map_upt_Suc o_def algebra_simps del: upt_Suc)
  have grid: "?i dvd d1 - ?d" using deadline(2) by simp
  have each: "?d \<le> lm_scheduled_ns x \<and> lm_scheduled_ns x < sch_deadline (mo_scheduler mo') \<and> ?i dvd lm_scheduled_ns x - ?d"
    if "(x, y) \<in> set ms" for x y
  proof (cases "(x, y) = (m, e)")
    case True
    then show ?thesis using step(6) mono above by simp
  next
    case False
    then have "(x, y) \<in> set ms'" using that ms by auto
    then have x: "d1 \<le> lm_scheduled_ns x" "lm_scheduled_ns x < sch_deadline (mo_scheduler mo')" "?i dvd lm_scheduled_ns x - d1"
      using IH by auto
    have "?i dvd (lm_scheduled_ns x - d1) + (d1 - ?d)" using x(3) grid by (rule dvd_add)
    then show ?thesis using x(1,2) above by simp
  qed
  have order: "sorted_wrt (<) (map (lm_scheduled_ns \<circ> fst) ms)" using IH above by (auto simp: ms step(6))
  have total: "sch_deadline (mo_scheduler mo') = ?d + ?i * (int (length (r # rs)) + int (lx_dropped (mo_metrics mo')) - int (lx_dropped (mo_metrics mo)))"
    using IH deadline(1,2) step(4) by (simp add: algebra_simps)
  have late: "l < sch_deadline (mo_scheduler mo') + ?i" if "read_last (r # rs) = Some l" for l
    using that IH deadline(3) rest Cons.prems(2) step(1) by (cases "rs = []") (auto simp: read_last_def r)
  have each': "\<forall>(x, y)\<in>set ms. ?d \<le> lm_scheduled_ns x \<and> lm_scheduled_ns x < sch_deadline (mo_scheduler mo') \<and> ?i dvd lm_scheduled_ns x - ?d"
    using each by auto
  have late': "\<forall>l. read_last (r # rs) = Some l \<longrightarrow> l < sch_deadline (mo_scheduler mo') + ?i" using late by blast
  have counts: "lx_attempted (mo_metrics mo') = lx_attempted (mo_metrics mo) + length (r # rs)"
      "lx_recorded (mo_metrics mo') = lx_recorded (mo_metrics mo) + length (r # rs)"
      "lx_dropped (mo_metrics mo) \<le> lx_dropped (mo_metrics mo')"
    using IH step(2,3,4) by simp_all
  show ?case unfolding Let_def by (intro conjI) (fact idx order each' counts total late')+
qed

text \<open>C39: The cadence loop accounts for every deadline. However late the readings of the clock are, the samples of a started monitor are
  numbered consecutively and scheduled at strictly increasing deadlines on the grid of the interval; the deadlines passed are the
  samples recorded plus the ones reported as dropped; and after each sample the loop is less than one interval behind.
\<close>

theorem cadence_accounts_for_every_deadline:
  assumes "new_lag_monitor rid has_bus c = Some mo0" and "monitor_start now0 mo0 = (True, mo1)"
    and "\<forall>r\<in>set rs. \<exists>now actual later. r = Wake now actual later"
    and "monitor_run bus rs mo1 = (ms, out, mo)" and "i = seconds_to_ns (lc_sample_interval c)"
  shows "map (lm_sample_index \<circ> fst) ms = map int [0..<length rs] \<and> sorted_wrt (<) (map (lm_scheduled_ns \<circ> fst) ms) \<and>
    (\<forall>(m, e)\<in>set ms. now0 + i \<le> lm_scheduled_ns m \<and> i dvd lm_scheduled_ns m - now0) \<and>
    lx_recorded (mo_metrics mo) = length rs \<and>
    sch_deadline (mo_scheduler mo) = now0 + i * (1 + int (lx_recorded (mo_metrics mo)) + int (lx_dropped (mo_metrics mo))) \<and>
    (\<forall>later. read_last rs = Some later \<longrightarrow> later < sch_deadline (mo_scheduler mo) + i)"
proof -
  have fresh: "mo_state mo0 = EngIdle" "mo_configuration mo0 = c" "mo_metrics mo0 = new_lag_metrics" "\<not> sch_running (mo_scheduler mo0)"
    using assms(1) by (auto simp: new_lag_monitor_def split: option.splits)
  have started: "sch_running (mo_scheduler mo1)" "sch_interval_ns (mo_scheduler mo1) = i" "0 < i"
      "sch_sample_index (mo_scheduler mo1) = 0" "sch_deadline (mo_scheduler mo1) = now0 + i" "mo_metrics mo1 = new_lag_metrics"
    using assms(2) fresh by (auto simp: monitor_start_def scheduler_configure_def scheduler_start_def assms(5) split: if_splits)
  have zero: "lx_recorded new_lag_metrics = 0" "lx_dropped new_lag_metrics = 0" by (simp_all add: new_lag_metrics_def)
  note run = cadence_run[OF assms(3) started(1) _ assms(4), unfolded Let_def started(2), OF started(3)]
  have "i dvd lm_scheduled_ns m - now0" if "(m, e) \<in> set ms" for m e
  proof -
    have "i dvd (lm_scheduled_ns m - (now0 + i)) + i" using run that started(5) by (intro dvd_add) auto
    then show ?thesis by simp
  qed
  then show ?thesis using run started zero by (auto simp: algebra_simps)
qed

theorem cadence_accounts_for_every_deadline_witness:
  "\<exists>mo0 mo1. new_lag_monitor ''r'' False default_lag_configuration = Some mo0 \<and> monitor_start 0 mo0 = (True, mo1) \<and>
     lx_recorded (mo_metrics (snd (snd (monitor_run (\<lambda>_ _. None) [Wake 0 200000000 900000000] mo1)))) = 1"
proof -
  obtain mo0 where mo0: "new_lag_monitor ''r'' False default_lag_configuration = Some mo0"
    by (simp add: new_lag_monitor_def new_lag_statistics_def new_inflight_def default_lag_configuration_def)
  have "mo_state mo0 = EngIdle" "mo_configuration mo0 = default_lag_configuration" "\<not> sch_running (mo_scheduler mo0)"
    using mo0 by (auto simp: new_lag_monitor_def split: option.splits)
  then obtain mo1 where mo1: "monitor_start 0 mo0 = (True, mo1)"
    by (auto simp: monitor_start_def default_lag_configuration_def seconds_to_ns_def py_round_def Let_def
        scheduler_configure_def scheduler_start_def)
  obtain ms out mo where run: "monitor_run (\<lambda>_ _. None) [Wake 0 200000000 900000000] mo1 = (ms, out, mo)" by (metis prod_cases3)
  have "\<forall>r\<in>set [Wake 0 200000000 900000000]. \<exists>now actual later. r = Wake now actual later" by simp
  from cadence_accounts_for_every_deadline[OF mo0 mo1 this run refl] show ?thesis using mo0 mo1 run by simp
qed

end
