(* ===== verification/Blocking.thy ===== *)
theory Blocking
  imports LagMonitor
begin

text \<open>
  The blocking detector (\<open>asyncviz/runtime/monitoring/blocking\<close>): each graded measurement is classified,
  escalated when the pressure lasts, folded into the open blocking window, rate-limited per severity and
  reported. The rest of the conventions are those of \<open>LagMonitor\<close>: the bus is a function of its calls, and a
  listener is represented by whether it raises.
\<close>

section \<open>Classification\<close>

datatype blocking_severity = BlkNone | BlkWarning | BlkCritical | BlkFreeze

fun blocking_value :: "blocking_severity \<Rightarrow> int" where
  "blocking_value BlkNone = 0"
| "blocking_value BlkWarning = 1"
| "blocking_value BlkCritical = 2"
| "blocking_value BlkFreeze = 3"

fun blocking_name :: "blocking_severity \<Rightarrow> string" where
  "blocking_name BlkNone = ''NONE''"
| "blocking_name BlkWarning = ''WARNING''"
| "blocking_name BlkCritical = ''CRITICAL''"
| "blocking_name BlkFreeze = ''FREEZE''"

lemma blocking_value_inj: "blocking_value s = blocking_value t \<longleftrightarrow> s = t"
  by (cases s; cases t) simp_all

lemma blocking_name_inj: "blocking_name s = blocking_name t \<longleftrightarrow> s = t"
  by (cases s; cases t) simp_all

instantiation blocking_severity :: linorder
begin

definition less_eq_blocking_severity :: "blocking_severity \<Rightarrow> blocking_severity \<Rightarrow> bool" where
  "less_eq_blocking_severity s t \<longleftrightarrow> blocking_value s \<le> blocking_value t"

definition less_blocking_severity :: "blocking_severity \<Rightarrow> blocking_severity \<Rightarrow> bool" where
  "less_blocking_severity s t \<longleftrightarrow> blocking_value s < blocking_value t"

instance
  by standard (auto simp: less_eq_blocking_severity_def less_blocking_severity_def blocking_value_inj)

end

lemmas blocking_order = less_eq_blocking_severity_def less_blocking_severity_def

fun lag_to_blocking :: "lag_severity \<Rightarrow> blocking_severity" where
  "lag_to_blocking LagNormal = BlkNone"
| "lag_to_blocking LagWarning = BlkWarning"
| "lag_to_blocking LagCritical = BlkCritical"
| "lag_to_blocking LagFreeze = BlkFreeze"

record blocking_classification =
  bc_severity :: blocking_severity
  bc_measurement :: lag_measurement
  bc_lag_ns :: int
  bc_threshold_ns :: int
  bc_source :: lag_severity

definition classify_lag :: "lag_measurement \<Rightarrow> lag_evaluation \<Rightarrow> blocking_classification" where
  "classify_lag m e =
     \<lparr>bc_severity = lag_to_blocking (le_severity e), bc_measurement = m, bc_lag_ns = le_lag_ns e,
      bc_threshold_ns = le_threshold_ns e, bc_source = le_severity e\<rparr>"

definition classification_payload :: "blocking_classification \<Rightarrow> (string, json) dict" where
  "classification_payload c =
     [(''severity'', JStr (blocking_name (bc_severity c))), (''severity_value'', JInt (blocking_value (bc_severity c))),
      (''lag_ns'', JInt (bc_lag_ns c)), (''threshold_ns'', JInt (bc_threshold_ns c)),
      (''source_severity'', JStr (lag_severity_name (bc_source c))),
      (''sample_index'', JInt (lm_sample_index (bc_measurement c))),
      (''scheduled_ns'', JInt (lm_scheduled_ns (bc_measurement c))),
      (''actual_ns'', JInt (lm_actual_ns (bc_measurement c)))]"

section \<open>Policy and escalation\<close>

record blocking_policy =
  bp_min_violation :: blocking_severity
  bp_window_open :: blocking_severity
  bp_close_normals :: int
  bp_warning_threshold :: int
  bp_critical_threshold :: int

definition blocking_policy_valid :: "blocking_policy \<Rightarrow> bool" where
  "blocking_policy_valid p \<longleftrightarrow>
     1 \<le> bp_close_normals p \<and> 1 \<le> bp_warning_threshold p \<and> 1 \<le> bp_critical_threshold p \<and> bp_window_open p \<noteq> BlkNone"

definition default_blocking_policy :: blocking_policy where
  "default_blocking_policy =
     \<lparr>bp_min_violation = BlkWarning, bp_window_open = BlkWarning, bp_close_normals = 2, bp_warning_threshold = 5,
      bp_critical_threshold = 3\<rparr>"

definition is_blocking_violation :: "blocking_policy \<Rightarrow> blocking_severity \<Rightarrow> bool" where
  "is_blocking_violation p s \<longleftrightarrow> bp_min_violation p \<le> s"

definition should_open_window :: "blocking_policy \<Rightarrow> blocking_severity \<Rightarrow> bool" where
  "should_open_window p s \<longleftrightarrow> bp_window_open p \<le> s"

record escalation =
  ec_policy :: blocking_policy
  ec_warning :: int
  ec_critical :: int
  ec_freeze :: int

definition new_escalation :: "blocking_policy \<Rightarrow> escalation" where
  "new_escalation p = \<lparr>ec_policy = p, ec_warning = 0, ec_critical = 0, ec_freeze = 0\<rparr>"

definition escalation_reset :: "escalation \<Rightarrow> escalation" where
  "escalation_reset ec = new_escalation (ec_policy ec)"

record escalation_outcome =
  eo_classification :: blocking_classification
  eo_severity :: blocking_severity
  eo_from :: "blocking_severity option"
  eo_to :: "blocking_severity option"
  eo_warning :: int
  eo_critical :: int
  eo_freeze :: int

definition eo_escalated :: "escalation_outcome \<Rightarrow> bool" where
  "eo_escalated o' \<longleftrightarrow> eo_from o' \<noteq> None"

definition escalation_process ::
    "blocking_classification \<Rightarrow> escalation \<Rightarrow> escalation_outcome \<times> escalation" where
  "escalation_process c ec =
     (let p = ec_policy ec; source = bc_severity c;
          w = (if BlkWarning \<le> source then ec_warning ec + 1 else 0);
          k = (if BlkCritical \<le> source then ec_critical ec + 1 else 0);
          f = (if BlkFreeze \<le> source then ec_freeze ec + 1 else 0);
          e1 = (if source = BlkWarning \<and> bp_warning_threshold p \<le> w then BlkCritical else source);
          e2 = (if e1 = BlkCritical \<and> bp_critical_threshold p \<le> k then BlkFreeze else e1);
          up = source < e2
      in (\<lparr>eo_classification = c, eo_severity = e2, eo_from = (if up then Some source else None),
           eo_to = (if up then Some e2 else None), eo_warning = w, eo_critical = k, eo_freeze = f\<rparr>,
          \<lparr>ec_policy = p, ec_warning = w, ec_critical = k, ec_freeze = f\<rparr>))"

section \<open>Cooldowns\<close>

record blocking_cooldowns =
  cd_warning_ns :: int
  cd_critical_ns :: int
  cd_freeze_ns :: int
  cd_last_warning :: int
  cd_last_critical :: int
  cd_last_freeze :: int

definition new_cooldowns :: "int \<Rightarrow> int \<Rightarrow> int \<Rightarrow> blocking_cooldowns option" where
  "new_cooldowns w c f =
     (if w < 0 \<or> c < 0 \<or> f < 0 then None
      else Some \<lparr>cd_warning_ns = w, cd_critical_ns = c, cd_freeze_ns = f, cd_last_warning = - (10 ^ 12),
                 cd_last_critical = - (10 ^ 12), cd_last_freeze = - (10 ^ 12)\<rparr>)"

fun cooldown_for :: "blocking_cooldowns \<Rightarrow> blocking_severity \<Rightarrow> int" where
  "cooldown_for cd BlkNone = 0"
| "cooldown_for cd BlkWarning = cd_warning_ns cd"
| "cooldown_for cd BlkCritical = cd_critical_ns cd"
| "cooldown_for cd BlkFreeze = cd_freeze_ns cd"

fun last_emit_of :: "blocking_cooldowns \<Rightarrow> blocking_severity \<Rightarrow> int" where
  "last_emit_of cd BlkNone = - (10 ^ 12)"
| "last_emit_of cd BlkWarning = cd_last_warning cd"
| "last_emit_of cd BlkCritical = cd_last_critical cd"
| "last_emit_of cd BlkFreeze = cd_last_freeze cd"

fun record_emit :: "blocking_severity \<Rightarrow> int \<Rightarrow> blocking_cooldowns \<Rightarrow> blocking_cooldowns" where
  "record_emit BlkNone now cd = cd"
| "record_emit BlkWarning now cd = cd\<lparr>cd_last_warning := now\<rparr>"
| "record_emit BlkCritical now cd = cd\<lparr>cd_last_critical := now\<rparr>"
| "record_emit BlkFreeze now cd = cd\<lparr>cd_last_freeze := now\<rparr>"

definition cooldown_reset :: "blocking_cooldowns \<Rightarrow> blocking_cooldowns" where
  "cooldown_reset cd =
     cd\<lparr>cd_last_warning := - (10 ^ 12), cd_last_critical := - (10 ^ 12), cd_last_freeze := - (10 ^ 12)\<rparr>"

record cooldown_decision =
  cx_severity :: blocking_severity
  cx_suppressed :: bool
  cx_remaining_ns :: int

definition cooldown_passed :: "blocking_severity \<Rightarrow> cooldown_decision" where
  "cooldown_passed s = \<lparr>cx_severity = s, cx_suppressed = False, cx_remaining_ns = 0\<rparr>"

definition cooldown_check ::
    "blocking_severity \<Rightarrow> int \<Rightarrow> blocking_cooldowns \<Rightarrow> cooldown_decision \<times> blocking_cooldowns" where
  "cooldown_check s now cd =
     (if s = BlkNone then (cooldown_passed s, cd)
      else
        let cooldown = cooldown_for cd s; since = now - last_emit_of cd s in
        if cooldown \<le> 0 \<or> cooldown \<le> since then (cooldown_passed s, record_emit s now cd)
        else (\<lparr>cx_severity = s, cx_suppressed = True, cx_remaining_ns = cooldown - since\<rparr>, cd))"

definition cooldown_configure :: "int \<Rightarrow> int \<Rightarrow> int \<Rightarrow> blocking_cooldowns \<Rightarrow> blocking_cooldowns" where
  "cooldown_configure w c f cd = cd\<lparr>cd_warning_ns := w, cd_critical_ns := c, cd_freeze_ns := f\<rparr>"

section \<open>Windows\<close>

record blocking_window =
  bw_id :: string
  bw_runtime_id :: string
  bw_open_index :: int
  bw_close_index :: "int option"
  bw_open_ns :: int
  bw_close_ns :: "int option"
  bw_peak_lag_ns :: int
  bw_peak_severity :: blocking_severity
  bw_violations :: nat
  bw_escalations :: nat
  bw_closed :: bool

definition window_duration :: "blocking_window \<Rightarrow> int" where
  "window_duration w =
     (case bw_close_ns w of
        None \<Rightarrow> 0
      | Some c \<Rightarrow> if 0 < c - bw_open_ns w then c - bw_open_ns w else 0)"

definition window_payload :: "blocking_window \<Rightarrow> (string, json) dict" where
  "window_payload w =
     [(''window_id'', JStr (bw_id w)), (''runtime_id'', JStr (bw_runtime_id w)),
      (''open_sample_index'', JInt (bw_open_index w)),
      (''close_sample_index'', json_of_option JInt (bw_close_index w)), (''open_monotonic_ns'', JInt (bw_open_ns w)),
      (''close_monotonic_ns'', json_of_option JInt (bw_close_ns w)), (''peak_lag_ns'', JInt (bw_peak_lag_ns w)),
      (''peak_severity'', JStr (blocking_name (bw_peak_severity w))), (''violation_count'', JInt (int (bw_violations w))),
      (''escalation_count'', JInt (int (bw_escalations w))), (''closed'', JBool (bw_closed w)),
      (''duration_ns'', JInt (window_duration w)), (''duration_ms'', JFloat (in_millis (window_duration w)))]"

record active_window =
  aw_id :: string
  aw_runtime_id :: string
  aw_open_index :: int
  aw_open_ns :: int
  aw_peak_lag_ns :: int
  aw_peak_severity :: blocking_severity
  aw_violations :: nat
  aw_escalations :: nat
  aw_normals :: int
  aw_last_index :: int
  aw_last_ns :: int

definition to_window :: "(int \<times> int) option \<Rightarrow> active_window \<Rightarrow> blocking_window" where
  "to_window close a =
     \<lparr>bw_id = aw_id a, bw_runtime_id = aw_runtime_id a, bw_open_index = aw_open_index a,
      bw_close_index = map_option fst close, bw_open_ns = aw_open_ns a, bw_close_ns = map_option snd close,
      bw_peak_lag_ns = aw_peak_lag_ns a, bw_peak_severity = aw_peak_severity a, bw_violations = aw_violations a,
      bw_escalations = aw_escalations a, bw_closed = (close \<noteq> None)\<rparr>"

record window_tracker =
  tk_policy :: blocking_policy
  tk_runtime_id :: string
  tk_capacity :: nat
  tk_active :: "active_window option"
  tk_history :: "blocking_window list"
  tk_next_id :: nat
  tk_opened :: nat
  tk_closed :: nat

definition fresh_tracker :: "blocking_policy \<Rightarrow> string \<Rightarrow> nat \<Rightarrow> window_tracker" where
  "fresh_tracker p rid capacity =
     \<lparr>tk_policy = p, tk_runtime_id = rid, tk_capacity = capacity, tk_active = None, tk_history = [], tk_next_id = 0,
      tk_opened = 0, tk_closed = 0\<rparr>"

definition new_tracker_of :: "blocking_policy \<Rightarrow> string \<Rightarrow> int \<Rightarrow> window_tracker option" where
  "new_tracker_of p rid capacity = (if capacity \<le> 0 then None else Some (fresh_tracker p rid (nat capacity)))"

definition tracker_reset :: "window_tracker \<Rightarrow> window_tracker" where
  "tracker_reset tk = fresh_tracker (tk_policy tk) (tk_runtime_id tk) (tk_capacity tk)"

record window_transition =
  wx_opened :: "blocking_window option"
  wx_extended :: "blocking_window option"
  wx_closed :: "blocking_window option"
  wx_active :: "blocking_window option"

definition blocking_window_id :: "string \<Rightarrow> nat \<Rightarrow> string" where
  "blocking_window_id rid n = rid @ '':bw:'' @ str_of_nat n"

definition open_window :: "escalation_outcome \<Rightarrow> window_tracker \<Rightarrow> active_window" where
  "open_window o' tk =
     (let m = bc_measurement (eo_classification o') in
      \<lparr>aw_id = blocking_window_id (tk_runtime_id tk) (tk_next_id tk + 1), aw_runtime_id = tk_runtime_id tk,
       aw_open_index = lm_sample_index m, aw_open_ns = lm_actual_ns m,
       aw_peak_lag_ns = bc_lag_ns (eo_classification o'), aw_peak_severity = eo_severity o', aw_violations = 1,
       aw_escalations = (if eo_escalated o' then 1 else 0), aw_normals = 0, aw_last_index = lm_sample_index m,
       aw_last_ns = lm_actual_ns m\<rparr>)"

definition extend_window :: "escalation_outcome \<Rightarrow> active_window \<Rightarrow> active_window" where
  "extend_window o' a =
     (let c = eo_classification o'; m = bc_measurement c in
      a\<lparr>aw_violations := aw_violations a + 1,
        aw_escalations := aw_escalations a + (if eo_escalated o' then 1 else 0),
        aw_peak_lag_ns := (if aw_peak_lag_ns a < bc_lag_ns c then bc_lag_ns c else aw_peak_lag_ns a),
        aw_peak_severity := (if aw_peak_severity a < eo_severity o' then eo_severity o' else aw_peak_severity a),
        aw_normals := 0, aw_last_index := lm_sample_index m, aw_last_ns := lm_actual_ns m\<rparr>)"

definition tracker_close :: "int \<Rightarrow> active_window \<Rightarrow> window_tracker \<Rightarrow> blocking_window \<times> window_tracker" where
  "tracker_close ns a tk =
     (let w = to_window (Some (aw_last_index a, ns)) a
      in (w, tk\<lparr>tk_history := ring_push (tk_capacity tk) w (tk_history tk), tk_closed := tk_closed tk + 1,
                 tk_active := None\<rparr>))"

definition tracker_process :: "escalation_outcome \<Rightarrow> window_tracker \<Rightarrow> window_transition \<times> window_tracker" where
  "tracker_process o' tk =
     (if should_open_window (tk_policy tk) (eo_severity o') then
        (case tk_active tk of
           None \<Rightarrow>
             let a = open_window o' tk; w = to_window None a
             in (\<lparr>wx_opened = Some w, wx_extended = None, wx_closed = None, wx_active = Some w\<rparr>,
                 tk\<lparr>tk_active := Some a, tk_next_id := tk_next_id tk + 1, tk_opened := tk_opened tk + 1\<rparr>)
         | Some a0 \<Rightarrow>
             let a = extend_window o' a0; w = to_window None a
             in (\<lparr>wx_opened = None, wx_extended = Some w, wx_closed = None, wx_active = Some w\<rparr>,
                 tk\<lparr>tk_active := Some a\<rparr>))
      else
        (case tk_active tk of
           None \<Rightarrow> (\<lparr>wx_opened = None, wx_extended = None, wx_closed = None, wx_active = None\<rparr>, tk)
         | Some a0 \<Rightarrow>
             let a = a0\<lparr>aw_normals := aw_normals a0 + 1\<rparr> in
             if bp_close_normals (tk_policy tk) \<le> aw_normals a then
               let (w, tk') = tracker_close (aw_last_ns a) a tk
               in (\<lparr>wx_opened = None, wx_extended = None, wx_closed = Some w, wx_active = None\<rparr>, tk')
             else (\<lparr>wx_opened = None, wx_extended = None, wx_closed = None, wx_active = Some (to_window None a)\<rparr>,
                   tk\<lparr>tk_active := Some a\<rparr>)))"

definition tracker_force_close :: "int \<Rightarrow> window_tracker \<Rightarrow> blocking_window option \<times> window_tracker" where
  "tracker_force_close ns tk =
     (case tk_active tk of
        None \<Rightarrow> (None, tk)
      | Some a \<Rightarrow> let (w, tk') = tracker_close (max ns (aw_open_ns a)) a tk in (Some w, tk'))"

section \<open>Statistics and self-metrics\<close>

record blocking_statistics =
  bs_windows_seen :: nat
  bs_closed_windows :: nat
  bs_total_duration_ns :: int
  bs_longest_duration_ns :: int
  bs_longest_id :: "string option"
  bs_max_violations :: nat
  bs_total_violations :: nat
  bs_peak_lag_ns :: int
  bs_peak_severity :: blocking_severity
  bs_warning_windows :: nat
  bs_critical_windows :: nat
  bs_freeze_windows :: nat

definition new_blocking_statistics :: blocking_statistics where
  "new_blocking_statistics =
     \<lparr>bs_windows_seen = 0, bs_closed_windows = 0, bs_total_duration_ns = 0, bs_longest_duration_ns = 0,
      bs_longest_id = None, bs_max_violations = 0, bs_total_violations = 0, bs_peak_lag_ns = 0,
      bs_peak_severity = BlkNone, bs_warning_windows = 0, bs_critical_windows = 0, bs_freeze_windows = 0\<rparr>"

definition blocking_statistics_reset :: "blocking_statistics \<Rightarrow> blocking_statistics" where
  "blocking_statistics_reset s = new_blocking_statistics"

definition observe_window_opened :: "blocking_statistics \<Rightarrow> blocking_statistics" where
  "observe_window_opened s = s\<lparr>bs_windows_seen := bs_windows_seen s + 1\<rparr>"

definition observe_peak_lag :: "int \<Rightarrow> blocking_statistics \<Rightarrow> blocking_statistics" where
  "observe_peak_lag lag s = (if bs_peak_lag_ns s < lag then s\<lparr>bs_peak_lag_ns := lag\<rparr> else s)"

definition observe_window_closed :: "blocking_window \<Rightarrow> blocking_statistics \<Rightarrow> blocking_statistics" where
  "observe_window_closed w s =
     (let dur = window_duration w;
          s1 = s\<lparr>bs_closed_windows := bs_closed_windows s + 1, bs_total_duration_ns := bs_total_duration_ns s + dur,
                 bs_longest_duration_ns := (if bs_longest_duration_ns s < dur then dur else bs_longest_duration_ns s),
                 bs_longest_id := (if bs_longest_duration_ns s < dur then Some (bw_id w) else bs_longest_id s),
                 bs_max_violations := max (bs_max_violations s) (bw_violations w),
                 bs_total_violations := bs_total_violations s + bw_violations w,
                 bs_peak_severity := (if bs_peak_severity s < bw_peak_severity w then bw_peak_severity w else bs_peak_severity s)\<rparr>;
          s2 = observe_peak_lag (bw_peak_lag_ns w) s1
      in (case bw_peak_severity w of
            BlkFreeze \<Rightarrow> s2\<lparr>bs_freeze_windows := bs_freeze_windows s2 + 1\<rparr>
          | BlkCritical \<Rightarrow> s2\<lparr>bs_critical_windows := bs_critical_windows s2 + 1\<rparr>
          | BlkWarning \<Rightarrow> s2\<lparr>bs_warning_windows := bs_warning_windows s2 + 1\<rparr>
          | BlkNone \<Rightarrow> s2))"

definition mean_window_duration :: "blocking_statistics \<Rightarrow> int" where
  "mean_window_duration s =
     (if 0 < bs_closed_windows s then bs_total_duration_ns s div int (bs_closed_windows s) else 0)"

record blocking_metrics =
  bx_measurements :: nat
  bx_violations :: nat
  bx_violations_by :: "(string, nat) dict"
  bx_warning_to_critical :: nat
  bx_critical_to_freeze :: nat
  bx_windows_opened :: nat
  bx_windows_closed :: nat
  bx_suppressions :: nat
  bx_suppressions_by :: "(string, nat) dict"
  bx_violation_events :: nat
  bx_violation_events_dropped :: nat
  bx_window_events :: nat
  bx_window_events_dropped :: nat
  bx_escalation_events :: nat
  bx_escalation_events_dropped :: nat
  bx_reconfigurations :: nat
  bx_handler_failures :: nat

definition zero_by_severity :: "(string, nat) dict" where
  "zero_by_severity = map (\<lambda>s. (blocking_name s, 0)) [BlkNone, BlkWarning, BlkCritical, BlkFreeze]"

definition new_blocking_metrics :: blocking_metrics where
  "new_blocking_metrics =
     \<lparr>bx_measurements = 0, bx_violations = 0, bx_violations_by = zero_by_severity, bx_warning_to_critical = 0,
      bx_critical_to_freeze = 0, bx_windows_opened = 0, bx_windows_closed = 0, bx_suppressions = 0,
      bx_suppressions_by = zero_by_severity, bx_violation_events = 0, bx_violation_events_dropped = 0,
      bx_window_events = 0, bx_window_events_dropped = 0, bx_escalation_events = 0, bx_escalation_events_dropped = 0,
      bx_reconfigurations = 0, bx_handler_failures = 0\<rparr>"

definition bump_named :: "string \<Rightarrow> (string, nat) dict \<Rightarrow> (string, nat) dict" where
  "bump_named k d = dset k (dget_or 0 d k + 1) d"

definition record_violation :: "blocking_severity \<Rightarrow> blocking_metrics \<Rightarrow> blocking_metrics" where
  "record_violation s m =
     m\<lparr>bx_violations := bx_violations m + 1, bx_violations_by := bump_named (blocking_name s) (bx_violations_by m)\<rparr>"

definition record_cooldown_suppression :: "blocking_severity \<Rightarrow> blocking_metrics \<Rightarrow> blocking_metrics" where
  "record_cooldown_suppression s m =
     m\<lparr>bx_suppressions := bx_suppressions m + 1, bx_suppressions_by := bump_named (blocking_name s) (bx_suppressions_by m)\<rparr>"

definition record_escalation :: "blocking_severity option \<Rightarrow> blocking_severity option \<Rightarrow> blocking_metrics \<Rightarrow> blocking_metrics" where
  "record_escalation from to m =
     (let wc = m\<lparr>bx_warning_to_critical := bx_warning_to_critical m + 1\<rparr> in
      if from = Some BlkWarning \<and> to = Some BlkCritical then wc
      else if from = Some BlkCritical \<and> to = Some BlkFreeze then m\<lparr>bx_critical_to_freeze := bx_critical_to_freeze m + 1\<rparr>
      else if from = Some BlkWarning \<and> to = Some BlkFreeze then wc\<lparr>bx_critical_to_freeze := bx_critical_to_freeze m + 1\<rparr>
      else m)"

section \<open>Events\<close>

definition optional_window :: "blocking_window option \<Rightarrow> json" where
  "optional_window w = json_of_option (\<lambda>x. JObj (window_payload x)) w"

definition severity_json :: "blocking_severity option \<Rightarrow> json" where
  "severity_json s = json_of_option (\<lambda>x. JStr (blocking_name x)) s"

definition severity_value_json :: "blocking_severity option \<Rightarrow> json" where
  "severity_value_json s = json_of_option (\<lambda>x. JInt (blocking_value x)) s"

definition build_violation_event ::
    "blocking_classification \<Rightarrow> escalation_outcome \<Rightarrow> blocking_window option \<Rightarrow> monitor_event" where
  "build_violation_event c o' w =
     (''runtime.monitoring.blocking.violation'',
      [(''classification'', JObj (classification_payload c)),
       (''effective_severity'', JStr (blocking_name (eo_severity o'))),
       (''effective_severity_value'', JInt (blocking_value (eo_severity o'))), (''escalated'', JBool (eo_escalated o')),
       (''consecutive_warning'', JInt (eo_warning o')), (''consecutive_critical'', JInt (eo_critical o')),
       (''consecutive_freeze'', JInt (eo_freeze o')), (''active_window'', optional_window w)])"

definition build_escalation_event :: "escalation_outcome \<Rightarrow> blocking_window option \<Rightarrow> monitor_event" where
  "build_escalation_event o' w =
     (''runtime.monitoring.blocking.escalation'',
      [(''from_severity'', severity_json (eo_from o')), (''from_severity_value'', severity_value_json (eo_from o')),
       (''to_severity'', severity_json (eo_to o')), (''to_severity_value'', severity_value_json (eo_to o')),
       (''classification'', JObj (classification_payload (eo_classification o'))),
       (''consecutive_warning'', JInt (eo_warning o')), (''consecutive_critical'', JInt (eo_critical o')),
       (''active_window'', optional_window w)])"

definition build_window_opened_event :: "blocking_window \<Rightarrow> blocking_classification \<Rightarrow> monitor_event" where
  "build_window_opened_event w c =
     (''runtime.monitoring.blocking.window.opened'',
      [(''window'', JObj (window_payload w)), (''trigger_classification'', JObj (classification_payload c))])"

definition build_window_closed_event :: "blocking_window \<Rightarrow> monitor_event" where
  "build_window_closed_event w =
     (''runtime.monitoring.blocking.window.closed'', [(''window'', JObj (window_payload w))])"

section \<open>The detector\<close>

record detector_configuration =
  dc_thresholds :: blocking_policy
  dc_warning_ns :: int
  dc_critical_ns :: int
  dc_freeze_ns :: int
  dc_history_capacity :: int
  dc_max_pending :: int
  dc_emit_violations :: bool
  dc_emit_windows :: bool
  dc_emit_escalations :: bool

definition detector_configuration_valid :: "detector_configuration \<Rightarrow> bool" where
  "detector_configuration_valid c \<longleftrightarrow>
     0 \<le> dc_warning_ns c \<and> 0 \<le> dc_critical_ns c \<and> 0 \<le> dc_freeze_ns c \<and> 0 \<le> dc_max_pending c \<and> 0 < dc_history_capacity c"

definition default_detector_configuration :: detector_configuration where
  "default_detector_configuration =
     \<lparr>dc_thresholds = default_blocking_policy, dc_warning_ns = 250000000, dc_critical_ns = 500000000, dc_freeze_ns = 0,
      dc_history_capacity = 64, dc_max_pending = 512, dc_emit_violations = True, dc_emit_windows = True,
      dc_emit_escalations = True\<rparr>"

record detection =
  de_classification :: blocking_classification
  de_outcome :: escalation_outcome
  de_is_violation :: bool
  de_cooldown :: cooldown_decision
  de_transition :: window_transition
  de_emitted :: bool

record blocking_detector =
  bd_runtime_id :: string
  bd_configuration :: detector_configuration
  bd_has_bus :: bool
  bd_escalation :: escalation
  bd_windows :: window_tracker
  bd_cooldowns :: blocking_cooldowns
  bd_statistics :: blocking_statistics
  bd_metrics :: blocking_metrics
  bd_inflight :: inflight
  bd_state :: engine_state
  bd_monitor_id :: "int option"
  bd_listeners :: "(int, bool) dict"
  bd_next_id :: int
  bd_bus_calls :: nat

definition new_blocking_detector :: "string \<Rightarrow> bool \<Rightarrow> detector_configuration \<Rightarrow> blocking_detector option" where
  "new_blocking_detector rid has_bus c =
     (case (new_tracker_of (dc_thresholds c) rid (dc_history_capacity c),
            new_cooldowns (dc_warning_ns c) (dc_critical_ns c) (dc_freeze_ns c), new_inflight (dc_max_pending c)) of
        (Some tk, Some cd, Some fl) \<Rightarrow>
          Some \<lparr>bd_runtime_id = rid, bd_configuration = c, bd_has_bus = has_bus,
                bd_escalation = new_escalation (dc_thresholds c), bd_windows = tk, bd_cooldowns = cd,
                bd_statistics = new_blocking_statistics, bd_metrics = new_blocking_metrics, bd_inflight = fl,
                bd_state = EngIdle, bd_monitor_id = None, bd_listeners = [], bd_next_id = 0, bd_bus_calls = 0\<rparr>
      | _ \<Rightarrow> None)"

definition count_blocking :: "(blocking_metrics \<Rightarrow> blocking_metrics) \<Rightarrow> blocking_detector \<Rightarrow> blocking_detector" where
  "count_blocking f d = d\<lparr>bd_metrics := f (bd_metrics d)\<rparr>"

text \<open>
  The four emitters differ in the flag, the event and the counter pair. The result is whether the bus accepted
  and the event handed to it, if any. A bus that raises is counted as a failed handler.
\<close>

definition blocking_emit ::
    "event_bus \<Rightarrow> bool \<Rightarrow> monitor_event \<Rightarrow> (bool \<Rightarrow> blocking_metrics \<Rightarrow> blocking_metrics) \<Rightarrow> blocking_detector \<Rightarrow>
     bool \<times> monitor_event list \<times> blocking_detector" where
  "blocking_emit bus enabled ev count_event d =
     (if \<not> enabled \<or> \<not> bd_has_bus d then (False, [], d)
      else
        let (ok, fl) = inflight_acquire (bd_inflight d) in
        if \<not> ok then (False, [], count_blocking (count_event False) (d\<lparr>bd_inflight := fl\<rparr>))
        else
          let answer = bus (bd_bus_calls d) ev; accepted = (answer = Some True);
              d1 = d\<lparr>bd_inflight := inflight_release fl, bd_bus_calls := bd_bus_calls d + 1\<rparr>;
              d2 = (if answer = None then count_blocking (\<lambda>m. m\<lparr>bx_handler_failures := bx_handler_failures m + 1\<rparr>) d1
                    else d1)
          in (accepted, [ev], count_blocking (count_event accepted) d2))"

definition record_violation_event :: "bool \<Rightarrow> blocking_metrics \<Rightarrow> blocking_metrics" where
  "record_violation_event accepted m =
     (if accepted then m\<lparr>bx_violation_events := bx_violation_events m + 1\<rparr>
      else m\<lparr>bx_violation_events_dropped := bx_violation_events_dropped m + 1\<rparr>)"

definition record_window_event :: "bool \<Rightarrow> blocking_metrics \<Rightarrow> blocking_metrics" where
  "record_window_event accepted m =
     (if accepted then m\<lparr>bx_window_events := bx_window_events m + 1\<rparr>
      else m\<lparr>bx_window_events_dropped := bx_window_events_dropped m + 1\<rparr>)"

definition record_escalation_event :: "bool \<Rightarrow> blocking_metrics \<Rightarrow> blocking_metrics" where
  "record_escalation_event accepted m =
     (if accepted then m\<lparr>bx_escalation_events := bx_escalation_events m + 1\<rparr>
      else m\<lparr>bx_escalation_events_dropped := bx_escalation_events_dropped m + 1\<rparr>)"

definition emit_violation ::
    "event_bus \<Rightarrow> blocking_classification \<Rightarrow> escalation_outcome \<Rightarrow> blocking_window option \<Rightarrow> blocking_detector \<Rightarrow>
     bool \<times> monitor_event list \<times> blocking_detector" where
  "emit_violation bus c o' w d =
     blocking_emit bus (dc_emit_violations (bd_configuration d)) (build_violation_event c o' w) record_violation_event d"

definition emit_escalation ::
    "event_bus \<Rightarrow> escalation_outcome \<Rightarrow> blocking_window option \<Rightarrow> blocking_detector \<Rightarrow> monitor_event list \<times> blocking_detector" where
  "emit_escalation bus o' w d =
     snd (blocking_emit bus (dc_emit_escalations (bd_configuration d)) (build_escalation_event o' w) record_escalation_event d)"

definition emit_window_opened ::
    "event_bus \<Rightarrow> blocking_window \<Rightarrow> blocking_classification \<Rightarrow> blocking_detector \<Rightarrow> monitor_event list \<times> blocking_detector" where
  "emit_window_opened bus w c d =
     snd (blocking_emit bus (dc_emit_windows (bd_configuration d)) (build_window_opened_event w c) record_window_event d)"

definition emit_window_closed ::
    "event_bus \<Rightarrow> blocking_window \<Rightarrow> blocking_detector \<Rightarrow> monitor_event list \<times> blocking_detector" where
  "emit_window_closed bus w d =
     snd (blocking_emit bus (dc_emit_windows (bd_configuration d)) (build_window_closed_event w) record_window_event d)"

definition note_opened ::
    "event_bus \<Rightarrow> window_transition \<Rightarrow> blocking_classification \<Rightarrow> blocking_detector \<Rightarrow> monitor_event list \<times> blocking_detector" where
  "note_opened bus tr c d =
     (case wx_opened tr of
        None \<Rightarrow> ([], d)
      | Some w \<Rightarrow>
          emit_window_opened bus w c
            (count_blocking (\<lambda>m. m\<lparr>bx_windows_opened := bx_windows_opened m + 1\<rparr>)
               (d\<lparr>bd_statistics := observe_window_opened (bd_statistics d)\<rparr>)))"

definition note_closed ::
    "event_bus \<Rightarrow> blocking_window option \<Rightarrow> blocking_detector \<Rightarrow> monitor_event list \<times> blocking_detector" where
  "note_closed bus shut d =
     (case shut of
        None \<Rightarrow> ([], d)
      | Some w \<Rightarrow>
          emit_window_closed bus w
            (count_blocking (\<lambda>m. m\<lparr>bx_windows_closed := bx_windows_closed m + 1\<rparr>)
               (d\<lparr>bd_statistics := observe_window_closed w (bd_statistics d)\<rparr>)))"

text \<open>The accounting of a violation: the escalation first, then the cooldown.\<close>

definition note_violation ::
    "event_bus \<Rightarrow> escalation_outcome \<Rightarrow> window_transition \<Rightarrow> blocking_detector \<Rightarrow>
     cooldown_decision \<times> bool \<times> monitor_event list \<times> blocking_detector" where
  "note_violation bus o' tr d =
     (let s = eo_severity o'; c = eo_classification o';
          d1 = count_blocking (record_violation s) d;
          (out1, d2) =
            (if eo_escalated o'
             then emit_escalation bus o' (wx_active tr) (count_blocking (record_escalation (eo_from o') (eo_to o')) d1)
             else ([], d1));
          (decision, cd) = cooldown_check s (lm_actual_ns (bc_measurement c)) (bd_cooldowns d2);
          d3 = d2\<lparr>bd_cooldowns := cd\<rparr>
      in if cx_suppressed decision then (decision, False, out1, count_blocking (record_cooldown_suppression s) d3)
         else let (accepted, out2, d4) = emit_violation bus c o' (wx_active tr) d3
              in (decision, accepted, out1 @ out2, d4))"

definition notify_detection :: "blocking_detector \<Rightarrow> blocking_detector" where
  "notify_detection d =
     (let raised = length (filter id (dvals (bd_listeners d)))
      in count_blocking (\<lambda>m. m\<lparr>bx_handler_failures := bx_handler_failures m + raised\<rparr>) d)"

definition detector_process ::
    "event_bus \<Rightarrow> lag_measurement \<Rightarrow> lag_evaluation \<Rightarrow> blocking_detector \<Rightarrow>
     detection \<times> monitor_event list \<times> blocking_detector" where
  "detector_process bus m e d =
     (let d1 = count_blocking (\<lambda>x. x\<lparr>bx_measurements := bx_measurements x + 1\<rparr>) d;
          c = classify_lag m e;
          d2 = d1\<lparr>bd_statistics := observe_peak_lag (bc_lag_ns c) (bd_statistics d1)\<rparr>;
          (o', ec) = escalation_process c (bd_escalation d2);
          (tr, tk) = tracker_process o' (bd_windows d2);
          (out1, d3) = note_opened bus tr c (d2\<lparr>bd_escalation := ec, bd_windows := tk\<rparr>);
          (out2, d4) = note_closed bus (wx_closed tr) d3;
          violation = is_blocking_violation (dc_thresholds (bd_configuration d4)) (eo_severity o');
          (decision, emitted, out3, d5) =
            (if violation then note_violation bus o' tr d4 else (cooldown_passed (eo_severity o'), False, [], d4))
      in (\<lparr>de_classification = c, de_outcome = o', de_is_violation = violation, de_cooldown = decision,
           de_transition = tr, de_emitted = emitted\<rparr>, out1 @ out2 @ out3, notify_detection d5))"

fun detector_run ::
    "event_bus \<Rightarrow> (lag_measurement \<times> lag_evaluation) list \<Rightarrow> blocking_detector \<Rightarrow>
     detection list \<times> monitor_event list \<times> blocking_detector" where
  "detector_run bus [] d = ([], [], d)"
| "detector_run bus ((m, e) # xs) d =
     (let (x, out, d1) = detector_process bus m e d; (ys, outs, d2) = detector_run bus xs d1
      in (x # ys, out @ outs, d2))"

definition detector_start :: "blocking_detector \<Rightarrow> blocking_detector" where
  "detector_start d = d\<lparr>bd_state := EngRunning\<rparr>"

definition detector_bind :: "lag_monitor \<Rightarrow> blocking_detector \<Rightarrow> int \<times> lag_monitor \<times> blocking_detector" where
  "detector_bind mo d =
     (case bd_monitor_id d of
        Some i \<Rightarrow> (i, mo, d)
      | None \<Rightarrow> let (i, mo') = monitor_subscribe False mo in (i, mo', d\<lparr>bd_monitor_id := Some i\<rparr>))"

definition detector_unbind :: "lag_monitor \<Rightarrow> blocking_detector \<Rightarrow> bool \<times> lag_monitor \<times> blocking_detector" where
  "detector_unbind mo d =
     (case bd_monitor_id d of
        None \<Rightarrow> (False, mo, d)
      | Some i \<Rightarrow> let (removed, mo') = monitor_unsubscribe i mo in (removed, mo', d\<lparr>bd_monitor_id := None\<rparr>))"

text \<open>\<open>stop\<close> reads the runtime clock once.\<close>

definition detector_stop ::
    "event_bus \<Rightarrow> int \<Rightarrow> lag_monitor \<Rightarrow> blocking_detector \<Rightarrow> monitor_event list \<times> lag_monitor \<times> blocking_detector" where
  "detector_stop bus now mo d =
     (if bd_state d \<in> {EngIdle, EngStopped} then ([], mo, d\<lparr>bd_state := EngStopped\<rparr>)
      else
        let (removed, mo', d1) = detector_unbind mo d; (shut, tk) = tracker_force_close now (bd_windows d1);
            (out, d2) = note_closed bus shut (d1\<lparr>bd_windows := tk\<rparr>)
        in (out, mo', d2\<lparr>bd_state := EngStopped\<rparr>))"

definition detector_reconfigure :: "detector_configuration option \<Rightarrow> blocking_detector \<Rightarrow> blocking_detector" where
  "detector_reconfigure configuration d =
     (case configuration of
        None \<Rightarrow> d
      | Some c \<Rightarrow>
          let previous = bd_configuration d;
              tk = (if dc_history_capacity c = dc_history_capacity previous
                    then (bd_windows d)\<lparr>tk_policy := dc_thresholds c\<rparr>
                    else fresh_tracker (dc_thresholds c) (bd_runtime_id d) (nat (dc_history_capacity c)));
              fl = (if dc_max_pending c = dc_max_pending previous then bd_inflight d
                    else \<lparr>fl_capacity = nat (dc_max_pending c), fl_pending = 0, fl_denied = 0\<rparr>)
          in count_blocking (\<lambda>m. m\<lparr>bx_reconfigurations := bx_reconfigurations m + 1\<rparr>)
               (d\<lparr>bd_windows := tk, bd_inflight := fl, bd_escalation := (bd_escalation d)\<lparr>ec_policy := dc_thresholds c\<rparr>,
                  bd_cooldowns := cooldown_configure (dc_warning_ns c) (dc_critical_ns c) (dc_freeze_ns c) (bd_cooldowns d),
                  bd_configuration := c\<rparr>))"

definition detector_subscribe :: "bool \<Rightarrow> blocking_detector \<Rightarrow> int \<times> blocking_detector" where
  "detector_subscribe raises d =
     (let i = bd_next_id d + 1 in (i, d\<lparr>bd_next_id := i, bd_listeners := dset i raises (bd_listeners d)\<rparr>))"

definition detector_unsubscribe :: "int \<Rightarrow> blocking_detector \<Rightarrow> bool \<times> blocking_detector" where
  "detector_unsubscribe i d =
     (dget (bd_listeners d) i \<noteq> None, d\<lparr>bd_listeners := dpop i (bd_listeners d)\<rparr>)"

section \<open>Windows are the clusters of violations\<close>

fun tracker_run :: "escalation_outcome list \<Rightarrow> window_tracker \<Rightarrow> blocking_window list \<times> window_tracker" where
  "tracker_run [] tk = ([], tk)"
| "tracker_run (x # xs) tk =
     (let (tr, tk1) = tracker_process x tk; (ws, tk2) = tracker_run xs tk1
      in ((case wx_closed tr of None \<Rightarrow> ws | Some w \<Rightarrow> w # ws), tk2))"

lemma tracker_run_append:
  "tracker_run (xs @ ys) tk =
     (let (ws, tk1) = tracker_run xs tk; (ws', tk2) = tracker_run ys tk1 in (ws @ ws', tk2))"
  by (induction xs arbitrary: tk) (auto simp: Let_def split: prod.splits option.splits)

text \<open>Positions grouped so that neighbours in a group are at most \<open>n\<close> apart and groups are further apart.\<close>

fun cluster :: "nat \<Rightarrow> nat list \<Rightarrow> nat list list" where
  "cluster n [] = []"
| "cluster n (k # ks) =
     (case cluster n ks of
        (j # js) # gs \<Rightarrow> if j - k \<le> n then (k # j # js) # gs else [k] # (j # js) # gs
      | gs \<Rightarrow> [k] # gs)"

lemma cluster_Cons: "\<exists>js gs. cluster n (y # ys) = (y # js) # gs"
  by (auto split: list.splits)

lemma cluster_snoc:
  "cluster n (ks @ [k]) =
     (if ks \<noteq> [] \<and> k - last ks \<le> n then butlast (cluster n ks) @ [last (cluster n ks) @ [k]]
      else cluster n ks @ [[k]])"
proof (induction ks)
  case (Cons x ks)
  show ?case
  proof (cases ks)
    case Nil
    then show ?thesis by simp
  next
    case (Cons y ys)
    then obtain j js gs where split: "cluster n ks = (j # js) # gs" using cluster_Cons by blast
    show ?thesis
    proof (cases "k - last ks \<le> n")
      case True
      then have new: "cluster n (ks @ [k]) = butlast ((j # js) # gs) @ [last ((j # js) # gs) @ [k]]"
        using Cons.IH split Cons by simp
      then show ?thesis using True split Cons by (cases gs) auto
    next
      case False
      then have new: "cluster n (ks @ [k]) = (j # js) # gs @ [[k]]" using Cons.IH split Cons by simp
      then show ?thesis using False split Cons by auto
    qed
  qed
qed simp

lemma cluster_nonempty: "ks \<noteq> [] \<Longrightarrow> cluster n ks \<noteq> []" "g \<in> set (cluster n ks) \<Longrightarrow> g \<noteq> []"
  "concat (cluster n ks) = ks"
  by (induction ks arbitrary: g) (auto split: list.splits if_splits)

definition hot_positions :: "blocking_policy \<Rightarrow> escalation_outcome list \<Rightarrow> nat list" where
  "hot_positions p xs = filter (\<lambda>k. should_open_window p (eo_severity (xs ! k))) [0..<length xs]"

lemma hot_positions_snoc:
  "hot_positions p (xs @ [x]) = hot_positions p xs @ (if should_open_window p (eo_severity x) then [length xs] else [])"
proof -
  have "filter (\<lambda>k. should_open_window p (eo_severity ((xs @ [x]) ! k))) [0..<length xs] = hot_positions p xs"
    unfolding hot_positions_def by (rule filter_cong) (auto simp: nth_append)
  then show ?thesis by (simp add: hot_positions_def)
qed

definition sample_of :: "escalation_outcome \<Rightarrow> lag_measurement" where
  "sample_of x = bc_measurement (eo_classification x)"

text \<open>What a window reports about its samples.\<close>

definition spans :: "escalation_outcome list \<Rightarrow> active_window \<Rightarrow> bool" where
  "spans ys a \<longleftrightarrow>
     aw_open_index a = lm_sample_index (sample_of (hd ys)) \<and> aw_open_ns a = lm_actual_ns (sample_of (hd ys)) \<and>
     aw_last_index a = lm_sample_index (sample_of (last ys)) \<and> aw_last_ns a = lm_actual_ns (sample_of (last ys)) \<and>
     aw_violations a = length ys \<and> aw_escalations a = length (filter eo_escalated ys) \<and>
     aw_peak_lag_ns a = Max ((bc_lag_ns \<circ> eo_classification) ` set ys) \<and> aw_peak_severity a = Max (eo_severity ` set ys)"

definition window_reports :: "escalation_outcome list \<Rightarrow> blocking_window \<Rightarrow> bool" where
  "window_reports ys w \<longleftrightarrow>
     bw_open_index w = lm_sample_index (sample_of (hd ys)) \<and> bw_open_ns w = lm_actual_ns (sample_of (hd ys)) \<and>
     bw_close_index w = Some (lm_sample_index (sample_of (last ys))) \<and>
     bw_close_ns w = Some (lm_actual_ns (sample_of (last ys))) \<and>
     bw_violations w = length ys \<and> bw_escalations w = length (filter eo_escalated ys) \<and>
     bw_peak_lag_ns w = Max ((bc_lag_ns \<circ> eo_classification) ` set ys) \<and> bw_peak_severity w = Max (eo_severity ` set ys) \<and>
     bw_closed w"

lemma spans_close: "spans ys a \<Longrightarrow> window_reports ys (to_window (Some (aw_last_index a, aw_last_ns a)) a)"
  by (simp add: spans_def window_reports_def to_window_def)

lemma spans_normals [simp]: "spans ys (a\<lparr>aw_normals := n\<rparr>) = spans ys a"
  by (simp add: spans_def)

lemma spans_open: "spans [x] (open_window x tk)"
  by (simp add: spans_def open_window_def sample_of_def Let_def)

lemma Max_image_snoc:
  fixes f :: "'a \<Rightarrow> 'b::linorder"
  assumes "ys \<noteq> []"
  shows "Max (f ` set (ys @ [x])) = (if Max (f ` set ys) < f x then f x else Max (f ` set ys))"
proof -
  have "Max (insert (f x) (f ` set ys)) = max (f x) (Max (f ` set ys))" using assms by (intro Max_insert) auto
  then show ?thesis by (auto simp: max_def)
qed

lemma spans_extend:
  assumes "spans ys a" "ys \<noteq> []"
  shows "spans (ys @ [x]) (extend_window x a)"
  unfolding spans_def Max_image_snoc[OF assms(2)]
  using assms by (simp add: spans_def extend_window_def sample_of_def Let_def)

definition members :: "'a list \<Rightarrow> nat list \<Rightarrow> 'a list" where
  "members xs g = map ((!) xs) g"

lemma members_append: "\<forall>k\<in>set g. k < length xs \<Longrightarrow> members (xs @ ys) g = members xs g"
  by (auto simp: members_def nth_append)

definition tracked :: "nat \<Rightarrow> escalation_outcome list \<Rightarrow> blocking_window list \<Rightarrow> window_tracker \<Rightarrow> bool" where
  "tracked n xs ws tk \<longleftrightarrow>
     (let G = cluster n (hot_positions (tk_policy tk) xs) in
      1 \<le> n \<and> bp_close_normals (tk_policy tk) = int n \<and> tk_next_id tk = length G \<and> tk_opened tk = length G \<and>
      tk_closed tk = length ws \<and>
      map bw_id ws = map (\<lambda>k. blocking_window_id (tk_runtime_id tk) (k + 1)) [0..<length ws] \<and>
      (case tk_active tk of
         None \<Rightarrow> list_all2 (\<lambda>g w. window_reports (members xs g) w) G ws \<and> (G \<noteq> [] \<longrightarrow> last (last G) + n < length xs)
       | Some a \<Rightarrow> G \<noteq> [] \<and> list_all2 (\<lambda>g w. window_reports (members xs g) w) (butlast G) ws \<and>
           spans (members xs (last G)) a \<and> aw_id a = blocking_window_id (tk_runtime_id tk) (length G) \<and>
           last (last G) < length xs \<and> aw_normals a = int (length xs) - 1 - int (last (last G)) \<and> aw_normals a < int n))"

lemma cluster_positions:
  assumes "g \<in> set (cluster n (hot_positions p xs))" "k \<in> set g"
  shows "k < length xs"
proof -
  have "k \<in> set (concat (cluster n (hot_positions p xs)))" using assms by auto
  then show ?thesis by (auto simp: cluster_nonempty(3) hot_positions_def)
qed

lemma reports_append:
  assumes "set gs \<subseteq> set (cluster n (hot_positions p xs))"
  shows "list_all2 (\<lambda>g w. window_reports (members (xs @ ys) g) w) gs ws = list_all2 (\<lambda>g w. window_reports (members xs g) w) gs ws"
proof -
  have at: "members (xs @ ys) g = members xs g" if "g \<in> set gs" for g
    using that assms cluster_positions by (intro members_append) blast
  show ?thesis unfolding list_all2_conv_all_nth using at by (metis nth_mem)
qed

lemma last_cluster: "ks \<noteq> [] \<Longrightarrow> last (last (cluster n ks)) = last ks"
proof (induction ks rule: rev_induct)
  case (snoc k ks)
  then show ?case by (simp add: cluster_snoc)
qed simp

lemma tracked_step:
  assumes "tracked n xs ws tk" and "tracker_process x tk = (tr, tk')"
  shows "tracked n (xs @ [x]) (ws @ (case wx_closed tr of None \<Rightarrow> [] | Some w \<Rightarrow> [w])) tk' \<and> tk_policy tk' = tk_policy tk"
proof -
  let ?p = "tk_policy tk" and ?ks = "hot_positions (tk_policy tk) xs"
  let ?G = "cluster n ?ks" and ?k = "length xs"
  note T = assms(1)[unfolded tracked_def Let_def]
  have ends: "last (last ?G) = last ?ks \<and> ?ks \<noteq> []" if "?G \<noteq> []" using that last_cluster by (cases "?ks = []") auto
  have within: "g \<in> set ?G \<Longrightarrow> \<forall>k\<in>set g. k < ?k" for g using cluster_positions by blast
  show ?thesis
  proof (cases "should_open_window ?p (eo_severity x)")
    case True
    then have ks': "hot_positions ?p (xs @ [x]) = ?ks @ [?k]" by (simp add: hot_positions_snoc)
    show ?thesis
    proof (cases "tk_active tk")
      case None
      have far: "\<not> (?ks \<noteq> [] \<and> ?k - last ?ks \<le> n)"
      proof
        assume near: "?ks \<noteq> [] \<and> ?k - last ?ks \<le> n"
        then have "?G \<noteq> []" by (simp add: cluster_nonempty(1))
        then have "last ?ks + n < ?k" using T None ends by simp
        then show False using near by arith
      qed
      then have G': "cluster n (hot_positions ?p (xs @ [x])) = ?G @ [[?k]]" unfolding ks' cluster_snoc by (rule if_not_P)
      have "members (xs @ [x]) [?k] = [x]" by (simp add: members_def)
      then show ?thesis
        using T None True assms(2) spans_open[of x tk] reports_append[of ?G n ?p xs "[x]" ws]
        by (auto simp: tracked_def tracker_process_def Let_def G' open_window_def)
    next
      case (Some a)
      have G: "?G \<noteq> []" and last_hot: "last (last ?G) = last ?ks" "?ks \<noteq> []" using T Some ends by auto
      have near: "?ks \<noteq> [] \<and> ?k - last ?ks \<le> n" using T Some last_hot by auto
      then have G': "cluster n (hot_positions ?p (xs @ [x])) = butlast ?G @ [last ?G @ [?k]]" unfolding ks' cluster_snoc by (rule if_P)
      have lg: "last ?G \<noteq> []" "\<forall>k\<in>set (last ?G). k < ?k" using G cluster_nonempty(2) within by (meson last_in_set)+
      have mem: "members (xs @ [x]) (last ?G @ [?k]) = members xs (last ?G) @ [x]"
        using members_append[OF lg(2), of "[x]"] by (simp add: members_def)
      have sp: "spans (members xs (last ?G) @ [x]) (extend_window x a)"
        using T Some lg(1) by (intro spans_extend) (auto simp: members_def)
      have sub: "set (butlast ?G) \<subseteq> set ?G" by (auto dest: in_set_butlastD)
      show ?thesis
        using T Some True assms(2) mem sp G reports_append[OF sub, of "[x]" ws]
        by (auto simp: tracked_def tracker_process_def Let_def G' extend_window_def)
    qed
  next
    case False
    then have ks': "hot_positions ?p (xs @ [x]) = ?ks" by (simp add: hot_positions_snoc)
    show ?thesis
    proof (cases "tk_active tk")
      case None
      have same: "tk' = tk" "wx_closed tr = None" using assms(2) False None by (auto simp: tracker_process_def)
      show ?thesis
        using T None reports_append[of ?G n ?p xs "[x]" ws] unfolding same
        by (auto simp: tracked_def Let_def ks')
    next
      case (Some a)
      have G: "?G \<noteq> []" using T Some by auto
      have sub: "set (butlast ?G) \<subseteq> set ?G" by (auto dest: in_set_butlastD)
      have lg: "\<forall>k\<in>set (last ?G). k < ?k" using G within by (meson last_in_set)
      have sp: "spans (members (xs @ [x]) (last ?G)) a" using T Some members_append[OF lg] by simp
      define a' where "a' = a\<lparr>aw_normals := aw_normals a + 1\<rparr>"
      show ?thesis
      proof (cases "bp_close_normals ?p \<le> aw_normals a'")
        case True
        define w where "w = to_window (Some (aw_last_index a', aw_last_ns a')) a'"
        have w: "window_reports (members (xs @ [x]) (last ?G)) w" "bw_id w = aw_id a"
          unfolding w_def by (rule spans_close) (use sp in \<open>simp add: a'_def\<close>, simp add: to_window_def a'_def)
        have out: "wx_closed tr = Some w" "tk' = snd (tracker_close (aw_last_ns a') a' tk)"
          using assms(2) False Some True by (auto simp: tracker_process_def Let_def a'_def[symmetric] w_def tracker_close_def)
        have "length ?G - 1 = length ws" using T Some by (auto dest!: list_all2_lengthD)
        moreover have "length ?G \<noteq> 0" using G by simp
        ultimately have len: "length ?G = length ws + 1" by arith
        have "list_all2 (\<lambda>g w. window_reports (members (xs @ [x]) g) w) (butlast ?G @ [last ?G]) (ws @ [w])"
          using T Some reports_append[OF sub, of "[x]" ws] w(1) by (intro list_all2_appendI) auto
        then have all: "list_all2 (\<lambda>g w. window_reports (members (xs @ [x]) g) w) ?G (ws @ [w])" using G by simp
        show ?thesis
          using T Some all out w(2) len True
          by (auto simp: tracked_def Let_def ks' tracker_close_def a'_def)
      next
        case stays: False
        then show ?thesis
          using T Some False assms(2) sp reports_append[OF sub, of "[x]" ws]
          by (auto simp: tracked_def tracker_process_def Let_def ks' a'_def)
      qed
    qed
  qed
qed

lemma tracked_run:
  assumes "tracked n [] [] tk" and "tracker_run xs tk = (ws, tk')"
  shows "tracked n xs ws tk' \<and> tk_policy tk' = tk_policy tk"
  using assms(2)
proof (induction xs arbitrary: ws tk' rule: rev_induct)
  case Nil
  then show ?case using assms(1) by simp
next
  case (snoc x xs)
  obtain vs tk1 where before: "tracker_run xs tk = (vs, tk1)" by fastforce
  obtain tr tk2 where one: "tracker_process x tk1 = (tr, tk2)" by fastforce
  have "ws = vs @ (case wx_closed tr of None \<Rightarrow> [] | Some w \<Rightarrow> [w])" "tk' = tk2"
    using snoc.prems before one by (auto simp: tracker_run_append split: option.splits)
  then show ?case using tracked_step[OF _ one, of n xs vs] snoc.IH[OF before] by auto
qed

text \<open>A quiet sample, for examples.\<close>

definition quiet_outcome :: escalation_outcome where
  "quiet_outcome =
     \<lparr>eo_classification = classify_lag (calculate_lag 0 0 1 0 ''r'')
        \<lparr>le_severity = LagNormal, le_breached = False, le_lag_ns = 0, le_threshold_ns = 0\<rparr>,
      eo_severity = BlkNone, eo_from = None, eo_to = None, eo_warning = 0, eo_critical = 0, eo_freeze = 0\<rparr>"

text \<open>C38: Blocking windows are the clusters of violations. Over any outcomes, group the positions at or above the opening severity so that
  neighbours in a group have fewer than \<open>n\<close> quieter samples between them, where \<open>n\<close> is the configured number of normals: the closed
  windows are these groups in order, each reporting the first and last sample of its group, its size, its escalations and its peaks;
  only the last group may still be open, and exactly while fewer than \<open>n\<close> quieter samples followed it. A quieter sample is any
  below the opening severity, a warning included if windows open at critical, although the policy's text says that only samples
  of severity NONE count towards the closing.
\<close>

theorem windows_are_the_clusters:
  assumes "new_tracker_of p rid capacity = Some tk0" and "blocking_policy_valid p" and "tracker_run xs tk0 = (ws, tk)"
    and "G = cluster (nat (bp_close_normals p)) (hot_positions p xs)"
  shows "tk_opened tk = length G \<and> tk_closed tk = length ws \<and>
    map bw_id ws = map (\<lambda>k. blocking_window_id rid (k + 1)) [0..<length ws] \<and>
    (if G \<noteq> [] \<and> length xs \<le> last (last G) + nat (bp_close_normals p)
     then list_all2 (\<lambda>g w. window_reports (members xs g) w) (butlast G) ws \<and> (\<exists>a. tk_active tk = Some a \<and> spans (members xs (last G)) a)
     else list_all2 (\<lambda>g w. window_reports (members xs g) w) G ws \<and> tk_active tk = None)"
proof -
  let ?n = "nat (bp_close_normals p)"
  have tk0: "tk_policy tk0 = p" "tk_runtime_id tk0 = rid" "tracked ?n [] [] tk0"
    using assms(1,2)
    by (auto simp: new_tracker_of_def fresh_tracker_def tracked_def hot_positions_def blocking_policy_valid_def split: if_splits)
  have rid: "tk_runtime_id (snd (tracker_process x y)) = tk_runtime_id y" for x y
    by (auto simp: tracker_process_def Let_def tracker_close_def split: option.splits)
  have "tk_runtime_id (snd (tracker_run xs y)) = tk_runtime_id y" for y
  proof (induction xs arbitrary: y)
    case (Cons x xs)
    then show ?case using rid[of x y] by (simp add: Let_def split: prod.splits) (metis snd_conv)
  qed simp
  from this[of tk0] have "tk_runtime_id tk = rid" using assms(3) tk0(2) by simp
  then show ?thesis
    using tracked_run[OF tk0(3) assms(3)] unfolding tk0(1) assms(4)
    by (auto simp: tracked_def Let_def split: option.splits)
qed


text \<open>Windows open at critical; two warnings count as quiet and close the first one, and the last sample opens a second.\<close>

definition severity_outcome :: "blocking_severity \<Rightarrow> escalation_outcome" where
  "severity_outcome v = quiet_outcome\<lparr>eo_severity := v\<rparr>"

definition critical_policy :: blocking_policy where
  "critical_policy = default_blocking_policy\<lparr>bp_window_open := BlkCritical\<rparr>"

theorem windows_are_the_clusters_witness:
  "\<exists>tk0 w tk a. new_tracker_of critical_policy ''r'' 64 = Some tk0 \<and>
     tracker_run (map severity_outcome [BlkCritical, BlkWarning, BlkWarning, BlkCritical]) tk0 = ([w], tk) \<and>
     tk_opened tk = 2 \<and> bw_id w = blocking_window_id ''r'' 1 \<and> bw_violations w = 1 \<and> tk_active tk = Some a \<and> aw_violations a = 1"
proof -
  let ?xs = "map severity_outcome [BlkCritical, BlkWarning, BlkWarning, BlkCritical]"
  obtain tk0 where tk0: "new_tracker_of critical_policy ''r'' 64 = Some tk0" by (simp add: new_tracker_of_def)
  obtain ws tk where run: "tracker_run ?xs tk0 = (ws, tk)" by fastforce
  have valid: "blocking_policy_valid critical_policy"
    by (simp add: blocking_policy_valid_def critical_policy_def default_blocking_policy_def)
  have hot: "hot_positions critical_policy ?xs = [0, 3]"
    by (simp add: hot_positions_def severity_outcome_def should_open_window_def critical_policy_def default_blocking_policy_def
        blocking_order upt_rec)
  have n: "nat (bp_close_normals critical_policy) = 2" by (simp add: critical_policy_def default_blocking_policy_def)
  have members: "members ?xs [0] = [severity_outcome BlkCritical]" "members ?xs [3] = [severity_outcome BlkCritical]"
    by (simp_all add: members_def)
  have two: "cluster (nat (bp_close_normals critical_policy)) (hot_positions critical_policy ?xs) = [[0], [3]]"
    unfolding hot n by simp
  from windows_are_the_clusters[OF tk0 valid run refl] members n
  have all: "tk_opened tk = 2" "map bw_id ws = map (\<lambda>k. blocking_window_id ''r'' (k + 1)) [0..<length ws]"
    "list_all2 (\<lambda>g w. window_reports (members ?xs g) w) [[0]] ws" "\<exists>a. tk_active tk = Some a \<and> spans [severity_outcome BlkCritical] a"
    unfolding two by simp_all
  then obtain w where w: "ws = [w]" "window_reports [severity_outcome BlkCritical] w"
    using members by (auto simp: list_all2_Cons1)
  have "bw_id w = blocking_window_id ''r'' 1" using all(2) w(1) by simp
  then show ?thesis using tk0 run all w by (auto simp: window_reports_def spans_def)
qed

section \<open>Escalation\<close>

fun escalation_run :: "blocking_classification list \<Rightarrow> escalation \<Rightarrow> escalation_outcome list \<times> escalation" where
  "escalation_run [] ec = ([], ec)"
| "escalation_run (c # cs) ec =
     (let (x, ec1) = escalation_process c ec; (xs, ec2) = escalation_run cs ec1 in (x # xs, ec2))"

lemma escalation_run_append:
  "escalation_run (cs @ ds) ec =
     (let (xs, ec1) = escalation_run cs ec; (ys, ec2) = escalation_run ds ec1 in (xs @ ys, ec2))"
  by (induction cs arbitrary: ec) (auto simp: Let_def split: prod.splits)

definition pressure :: "blocking_severity \<Rightarrow> blocking_classification list \<Rightarrow> int" where
  "pressure level cs = int (length (takeWhile (\<lambda>c. level \<le> bc_severity c) (rev cs)))"

lemma pressure_snoc: "pressure level (cs @ [c]) = (if level \<le> bc_severity c then pressure level cs + 1 else 0)"
  by (simp add: pressure_def)

lemma escalation_counts:
  assumes "escalation_run cs (new_escalation p) = (xs, ec)"
  shows "ec = \<lparr>ec_policy = p, ec_warning = pressure BlkWarning cs, ec_critical = pressure BlkCritical cs,
               ec_freeze = pressure BlkFreeze cs\<rparr> \<and> length xs = length cs"
  using assms
proof (induction cs arbitrary: xs ec rule: rev_induct)
  case Nil
  then show ?case by (simp add: new_escalation_def pressure_def)
next
  case (snoc c cs)
  obtain ys ec1 where before: "escalation_run cs (new_escalation p) = (ys, ec1)" by fastforce
  then show ?case using snoc.IH[OF before] snoc.prems
    by (auto simp: escalation_run_append escalation_process_def Let_def pressure_snoc)
qed

text \<open>Escalation follows the pressure, one step at a time. Over any classifications, the last outcome is critical if it was a warning and
  at least the configured number of latest samples were warnings or worse, a freeze if it was critical and enough of the latest
  were critical or worse, and otherwise as measured. So warnings alone, however long they last, never become a freeze, although
  the module text counts escalated warnings towards it.
\<close>

theorem escalation_follows_the_pressure:
  assumes "blocking_policy_valid p" and "escalation_run (cs @ [c]) (new_escalation p) = (xs, ec)"
  shows "eo_severity (last xs) =
      (if bc_severity c = BlkWarning \<and> bp_warning_threshold p \<le> pressure BlkWarning (cs @ [c]) then BlkCritical
       else if bc_severity c = BlkCritical \<and> bp_critical_threshold p \<le> pressure BlkCritical (cs @ [c]) then BlkFreeze
       else bc_severity c) \<and>
    eo_escalated (last xs) = (bc_severity c < eo_severity (last xs)) \<and>
    blocking_value (eo_severity (last xs)) \<le> blocking_value (bc_severity c) + 1 \<and>
    (bc_severity c = BlkWarning \<longrightarrow> eo_severity (last xs) \<noteq> BlkFreeze)"
proof -
  obtain ys ec1 where before: "escalation_run cs (new_escalation p) = (ys, ec1)" by fastforce
  note ec1 = escalation_counts[OF before, THEN conjunct1]
  define x where "x = fst (escalation_process c ec1)"
  have x: "last xs = x" using assms(2) before by (auto simp: escalation_run_append x_def Let_def split: prod.splits)
  have one: "1 \<le> bp_warning_threshold p" "1 \<le> bp_critical_threshold p" using assms(1) by (simp_all add: blocking_policy_valid_def)
  have sev: "eo_severity x =
      (if bc_severity c = BlkWarning \<and> bp_warning_threshold p \<le> pressure BlkWarning (cs @ [c]) then BlkCritical
       else if bc_severity c = BlkCritical \<and> bp_critical_threshold p \<le> pressure BlkCritical (cs @ [c]) then BlkFreeze
       else bc_severity c)"
    using one unfolding x_def escalation_process_def Let_def ec1 pressure_snoc
    by (cases "bc_severity c") (auto simp: blocking_order)
  have esc: "eo_escalated x = (bc_severity c < eo_severity x)"
    by (simp add: x_def escalation_process_def Let_def eo_escalated_def)
  have "blocking_value (eo_severity x) \<le> blocking_value (bc_severity c) + 1" "bc_severity c = BlkWarning \<longrightarrow> eo_severity x \<noteq> BlkFreeze"
    unfolding sev by (cases "bc_severity c"; simp)+
  then show ?thesis using sev esc unfolding x by blast
qed

theorem escalation_follows_the_pressure_witness:
  "\<exists>xs ec. escalation_run [eo_classification quiet_outcome] (new_escalation default_blocking_policy) = (xs, ec) \<and>
     eo_severity (last xs) = BlkNone"
proof -
  let ?c = "eo_classification quiet_outcome"
  obtain xs ec where run: "escalation_run ([] @ [?c]) (new_escalation default_blocking_policy) = (xs, ec)" by fastforce
  have valid: "blocking_policy_valid default_blocking_policy" by (simp add: blocking_policy_valid_def default_blocking_policy_def)
  have "bc_severity ?c = BlkNone" by (simp add: quiet_outcome_def classify_lag_def)
  then show ?thesis using escalation_follows_the_pressure[OF valid run] run by auto
qed

section \<open>Cooldowns\<close>

fun cooldown_run :: "(blocking_severity \<times> int) list \<Rightarrow> blocking_cooldowns \<Rightarrow> cooldown_decision list \<times> blocking_cooldowns" where
  "cooldown_run [] cd = ([], cd)"
| "cooldown_run ((s, now) # cs) cd =
     (let (x, cd1) = cooldown_check s now cd; (xs, cd2) = cooldown_run cs cd1 in (x # xs, cd2))"

lemma cooldown_run_append:
  "cooldown_run (cs @ ds) cd =
     (let (xs, cd1) = cooldown_run cs cd; (ys, cd2) = cooldown_run ds cd1 in (xs @ ys, cd2))"
  by (induction cs cd rule: cooldown_run.induct) (auto simp: Let_def split: prod.splits)

text \<open>When a violation of this severity was last let through.\<close>

definition last_accepted :: "blocking_severity \<Rightarrow> (blocking_severity \<times> int) list \<Rightarrow> cooldown_decision list \<Rightarrow> int option" where
  "last_accepted s cs xs = last_of (map (snd \<circ> fst) (filter (\<lambda>((s', _), x). s' = s \<and> \<not> cx_suppressed x) (zip cs xs)))"

lemma last_emit_record: "s \<noteq> BlkNone \<Longrightarrow> last_emit_of (record_emit s now cd) t = (if t = s then now else last_emit_of cd t)"
  by (cases s; cases t) simp_all

lemma cooldown_for_record [simp]: "cooldown_for (record_emit s now cd) t = cooldown_for cd t"
  by (cases s; cases t) simp_all

lemma cooldown_state:
  assumes "new_cooldowns w c f = Some cd0" and "cooldown_run cs cd0 = (xs, cd)"
  shows "length xs = length cs \<and> (\<forall>s. cooldown_for cd s = cooldown_for cd0 s) \<and>
    (\<forall>s. s \<noteq> BlkNone \<longrightarrow> last_emit_of cd s = (case last_accepted s cs xs of None \<Rightarrow> - (10 ^ 12) | Some t \<Rightarrow> t))"
  using assms(2)
proof (induction cs arbitrary: xs cd rule: rev_induct)
  case Nil
  have "last_emit_of cd0 s = - (10 ^ 12)" for s using assms(1) by (cases s) (auto simp: new_cooldowns_def split: if_splits)
  then show ?case using Nil by (simp add: last_accepted_def)
next
  case (snoc y cs)
  obtain s now where y: "y = (s, now)" by fastforce
  obtain ys cd1 where before: "cooldown_run cs cd0 = (ys, cd1)" by fastforce
  obtain x cd2 where one: "cooldown_check s now cd1 = (x, cd2)" by fastforce
  note IH = snoc.IH[OF before]
  have eq: "xs = ys @ [x]" "cd = cd2" using snoc.prems before one by (auto simp: cooldown_run_append y)
  have last: "last_accepted t (cs @ [y]) xs = (if t = s \<and> \<not> cx_suppressed x then Some now else last_accepted t cs ys)" for t
    using IH by (simp add: last_accepted_def eq(1) y)
  show ?case using IH one unfolding eq(2) last
    by (auto simp: eq(1) cooldown_check_def Let_def cooldown_passed_def last_emit_record split: if_splits)
qed

text \<open>Cooldowns are per severity and exact. After any checks at non-negative times, a violation is held back exactly when the latest one of
  the same severity that was let through is less than the cooldown of that severity ago, and the decision names the time that
  remains. What was let through at other severities does not matter, although the module text says that it does.
\<close>

theorem cooldowns_are_per_severity:
  assumes "new_cooldowns w c f = Some cd0" and "cooldown_run cs cd0 = (xs, cd)"
    and "s \<noteq> BlkNone" and "0 \<le> now" and "cooldown_for cd0 s \<le> 10 ^ 12" and "decision = fst (cooldown_check s now cd)"
  shows "(case last_accepted s cs xs of
           None \<Rightarrow> \<not> cx_suppressed decision
         | Some t \<Rightarrow> cx_suppressed decision = (now - t < cooldown_for cd0 s \<and> 0 < cooldown_for cd0 s) \<and>
             (cx_suppressed decision \<longrightarrow> cx_remaining_ns decision = t + cooldown_for cd0 s - now))"
  using cooldown_state[OF assms(1,2)] assms(3-6)
  by (auto simp: cooldown_check_def Let_def cooldown_passed_def split: option.splits if_splits)

theorem cooldowns_are_per_severity_witness:
  "\<exists>cd0 xs cd. new_cooldowns 250 500 0 = Some cd0 \<and> cooldown_run [(BlkWarning, 10), (BlkCritical, 20)] cd0 = (xs, cd) \<and>
     cx_suppressed (fst (cooldown_check BlkWarning 100 cd)) \<and> cx_remaining_ns (fst (cooldown_check BlkWarning 100 cd)) = 160"
proof -
  obtain cd0 where cd0: "new_cooldowns 250 500 0 = Some cd0" by (simp add: new_cooldowns_def)
  obtain xs cd where run: "cooldown_run [(BlkWarning, 10), (BlkCritical, 20)] cd0 = (xs, cd)" by fastforce
  have two: "cooldown_for cd0 BlkWarning = 250" "last_accepted BlkWarning [(BlkWarning, 10), (BlkCritical, 20)] xs = Some 10"
    using cd0 run by (auto simp: new_cooldowns_def cooldown_check_def Let_def cooldown_passed_def last_accepted_def)
  have "BlkWarning \<noteq> BlkNone" "(0::int) \<le> 100" "cooldown_for cd0 BlkWarning \<le> 10 ^ 12" using two by simp_all
  from cooldowns_are_per_severity[OF cd0 run this refl] show ?thesis using cd0 run two by simp
qed

end
