(* ===== verification/BlockingGroups.thy ===== *)
theory BlockingGroups
  imports Blocking
begin

text \<open>
  The blocking warning emitter (\<open>asyncviz/runtime/warnings/blocking\<close>): it aggregates the detector's outcomes into
  one warning group per blocking window, walks each group through opened, escalated, active, recovered and
  expired, rate-limits the transitions and publishes them.

  A group is a mutable object of the code that lives in the registry's dictionary under its id; here the
  dictionary holds the record. The payloads handed to the router are part of every result; the bus is a
  function of how often it was called, and a listener is represented by whether it raises. The opt-in trace
  ring and the binding to the capture engine are not modelled; a capture is an argument.
\<close>

section \<open>Groups\<close>

datatype group_state = GrpOpened | GrpEscalating | GrpActive | GrpRecovered | GrpExpired

fun group_state_value :: "group_state \<Rightarrow> string" where
  "group_state_value GrpOpened = ''opened''"
| "group_state_value GrpEscalating = ''escalating''"
| "group_state_value GrpActive = ''active''"
| "group_state_value GrpRecovered = ''recovered''"
| "group_state_value GrpExpired = ''expired''"

definition group_is_open :: "group_state \<Rightarrow> bool" where
  "group_is_open s \<longleftrightarrow> s = GrpOpened \<or> s = GrpEscalating \<or> s = GrpActive"

definition group_is_terminal :: "group_state \<Rightarrow> bool" where
  "group_is_terminal s \<longleftrightarrow> s = GrpRecovered \<or> s = GrpExpired"

record escalation_entry =
  ee_from :: string
  ee_to :: string
  ee_monotonic_ns :: int
  ee_sample_index :: "int option"

record warning_group =
  wg_id :: string
  wg_warning_id :: string
  wg_runtime_id :: string
  wg_window_id :: "string option"
  wg_state :: group_state
  wg_severity :: string
  wg_peak_severity :: string
  wg_first_seen_ns :: int
  wg_last_seen_ns :: int
  wg_peak_lag_ns :: int
  wg_last_lag_ns :: int
  wg_violations :: nat
  wg_escalations :: nat
  wg_captures :: "int list"
  wg_history :: "escalation_entry list"
  wg_recovered_ns :: "int option"
  wg_expired_ns :: "int option"
  wg_task_id :: "string option"
  wg_task_name :: "string option"
  wg_coroutine_name :: "string option"

definition name_rank :: "string \<Rightarrow> int" where
  "name_rank name =
     dget_or 0 [(''NONE'', 0), (''WARNING'', 1), (''CRITICAL'', 2), (''FREEZE'', 3)] name"

definition group_observe :: "blocking_severity \<Rightarrow> int \<Rightarrow> int \<Rightarrow> int option \<Rightarrow> warning_group \<Rightarrow> warning_group" where
  "group_observe severity lag ns idx g =
     (let name = blocking_name severity;
          g1 = g\<lparr>wg_last_seen_ns := ns, wg_last_lag_ns := lag, wg_violations := wg_violations g + 1,
                 wg_peak_lag_ns := (if wg_peak_lag_ns g < lag then lag else wg_peak_lag_ns g),
                 wg_peak_severity := (if name_rank (wg_peak_severity g) < name_rank name then name else wg_peak_severity g)\<rparr>
      in if name_rank (wg_severity g) < name_rank name then
           g1\<lparr>wg_escalations := wg_escalations g + 1,
              wg_history := ring_push 16
                \<lparr>ee_from = wg_severity g, ee_to = name, ee_monotonic_ns = ns, ee_sample_index = idx\<rparr> (wg_history g),
              wg_severity := name, wg_state := GrpEscalating\<rparr>
         else
           g1\<lparr>wg_state := (if wg_state g = GrpOpened \<or> wg_state g = GrpEscalating then GrpActive else wg_state g),
              wg_severity := name\<rparr>)"

definition group_recovered :: "int \<Rightarrow> warning_group \<Rightarrow> warning_group" where
  "group_recovered ns g = g\<lparr>wg_state := GrpRecovered, wg_recovered_ns := Some ns\<rparr>"

definition group_expired :: "int \<Rightarrow> warning_group \<Rightarrow> warning_group" where
  "group_expired ns g = g\<lparr>wg_state := GrpExpired, wg_expired_ns := Some ns\<rparr>"

definition fill :: "'a option \<Rightarrow> 'a option \<Rightarrow> 'a option" where
  "fill slot v = (if slot = None \<and> v \<noteq> None then v else slot)"

definition attach_task :: "string option \<Rightarrow> string option \<Rightarrow> string option \<Rightarrow> warning_group \<Rightarrow> warning_group" where
  "attach_task tid name coroutine g =
     g\<lparr>wg_task_id := fill (wg_task_id g) tid, wg_task_name := fill (wg_task_name g) name,
       wg_coroutine_name := fill (wg_coroutine_name g) coroutine\<rparr>"

definition record_capture :: "int \<Rightarrow> warning_group \<Rightarrow> warning_group" where
  "record_capture i g = g\<lparr>wg_captures := wg_captures g @ [i]\<rparr>"

definition freeze_duration :: "warning_group \<Rightarrow> int" where
  "freeze_duration g =
     (let stop = (case wg_recovered_ns g of Some n \<Rightarrow> n | None \<Rightarrow> wg_last_seen_ns g); delta = stop - wg_first_seen_ns g
      in if 0 < delta then delta else 0)"

section \<open>The registry\<close>

record group_registry =
  gr_capacity :: nat
  gr_active :: "(string, warning_group) dict"
  gr_recent :: "warning_group list"
  gr_by_window :: "(string, string) dict"
  gr_sequence :: nat

definition fresh_groups :: "nat \<Rightarrow> group_registry" where
  "fresh_groups capacity = \<lparr>gr_capacity = capacity, gr_active = [], gr_recent = [], gr_by_window = [], gr_sequence = 0\<rparr>"

definition new_groups :: "int \<Rightarrow> group_registry option" where
  "new_groups capacity = (if capacity \<le> 0 then None else Some (fresh_groups (nat capacity)))"

definition groups_add :: "warning_group \<Rightarrow> group_registry \<Rightarrow> group_registry" where
  "groups_add g r =
     (let r1 = r\<lparr>gr_active := dset (wg_id g) g (gr_active r)\<rparr> in
      (case wg_window_id g of None \<Rightarrow> r1 | Some w \<Rightarrow> r1\<lparr>gr_by_window := dset w (wg_id g) (gr_by_window r1)\<rparr>))"

definition find_group :: "string \<Rightarrow> group_registry \<Rightarrow> warning_group option" where
  "find_group i r = dget (gr_active r) i"

definition find_by_window :: "string \<Rightarrow> group_registry \<Rightarrow> warning_group option" where
  "find_by_window w r = Option.bind (dget (gr_by_window r) w) (dget (gr_active r))"

text \<open>The object changed in place.\<close>

definition group_update :: "warning_group \<Rightarrow> group_registry \<Rightarrow> group_registry" where
  "group_update g r = r\<lparr>gr_active := dset (wg_id g) g (gr_active r)\<rparr>"

definition group_finalize :: "warning_group \<Rightarrow> group_registry \<Rightarrow> group_registry" where
  "group_finalize g r =
     r\<lparr>gr_active := dpop (wg_id g) (gr_active r),
       gr_by_window :=
         (case wg_window_id g of
            None \<Rightarrow> gr_by_window r
          | Some w \<Rightarrow> if dget (gr_by_window r) w = Some (wg_id g) then dpop w (gr_by_window r) else gr_by_window r),
       gr_recent := ring_push (gr_capacity r) g (gr_recent r)\<rparr>"

definition groups_reset :: "group_registry \<Rightarrow> group_registry" where
  "groups_reset r = fresh_groups (gr_capacity r)"

section \<open>Deduplication\<close>

datatype group_transition = TrOpened | TrEscalated | TrActive | TrRecovered | TrExpired

fun transition_name :: "group_transition \<Rightarrow> string" where
  "transition_name TrOpened = ''opened''"
| "transition_name TrEscalated = ''escalated''"
| "transition_name TrActive = ''active''"
| "transition_name TrRecovered = ''recovered''"
| "transition_name TrExpired = ''expired''"

record transition_dedup =
  td_opened_ns :: int
  td_escalated_ns :: int
  td_active_ns :: int
  td_recovered_ns :: int
  td_expired_ns :: int
  td_last :: "(string \<times> group_transition, int) dict"

fun transition_cooldown :: "transition_dedup \<Rightarrow> group_transition \<Rightarrow> int" where
  "transition_cooldown td TrOpened = td_opened_ns td"
| "transition_cooldown td TrEscalated = td_escalated_ns td"
| "transition_cooldown td TrActive = td_active_ns td"
| "transition_cooldown td TrRecovered = td_recovered_ns td"
| "transition_cooldown td TrExpired = td_expired_ns td"

definition dedup_check :: "string \<Rightarrow> group_transition \<Rightarrow> int \<Rightarrow> transition_dedup \<Rightarrow> bool \<times> int \<times> transition_dedup" where
  "dedup_check gid t now td =
     (let cooldown = transition_cooldown td t; accepted = td\<lparr>td_last := dset (gid, t) now (td_last td)\<rparr> in
      if cooldown \<le> 0 then (False, 0, accepted)
      else
        (case dget (td_last td) (gid, t) of
           None \<Rightarrow> (False, 0, accepted)
         | Some l \<Rightarrow> if cooldown \<le> now - l then (False, 0, accepted) else (True, cooldown - (now - l), td)))"

definition forget_group :: "string \<Rightarrow> transition_dedup \<Rightarrow> transition_dedup" where
  "forget_group gid td = td\<lparr>td_last := filter (\<lambda>((i, t), n). i \<noteq> gid) (td_last td)\<rparr>"

definition transitions_reset :: "transition_dedup \<Rightarrow> transition_dedup" where
  "transitions_reset td = td\<lparr>td_last := []\<rparr>"

section \<open>Configuration and policy\<close>

record emitter_configuration =
  wc_enabled :: bool
  wc_min_severity :: blocking_severity
  wc_include_no_window :: bool
  wc_escalations_only :: bool
  wc_opened_ns :: int
  wc_escalated_ns :: int
  wc_active_ns :: int
  wc_recovered_ns :: int
  wc_expired_ns :: int
  wc_recent_capacity :: int
  wc_top_limit :: int
  wc_ttl_ns :: int
  wc_max_pending :: int
  wc_emit_events :: bool

definition emitter_configuration_valid :: "emitter_configuration \<Rightarrow> bool" where
  "emitter_configuration_valid c \<longleftrightarrow>
     0 \<le> wc_opened_ns c \<and> 0 \<le> wc_escalated_ns c \<and> 0 \<le> wc_active_ns c \<and> 0 \<le> wc_recovered_ns c \<and>
     0 \<le> wc_expired_ns c \<and> 0 \<le> wc_ttl_ns c \<and> 0 \<le> wc_max_pending c \<and> 0 < wc_recent_capacity c \<and> 0 < wc_top_limit c"

definition default_emitter_configuration :: emitter_configuration where
  "default_emitter_configuration =
     \<lparr>wc_enabled = True, wc_min_severity = BlkCritical, wc_include_no_window = False, wc_escalations_only = False,
      wc_opened_ns = 0, wc_escalated_ns = 0, wc_active_ns = 250000000, wc_recovered_ns = 0, wc_expired_ns = 0,
      wc_recent_capacity = 64, wc_top_limit = 5, wc_ttl_ns = 30000000000, wc_max_pending = 256, wc_emit_events = True\<rparr>"

definition transitions_dedup :: "emitter_configuration \<Rightarrow> transition_dedup" where
  "transitions_dedup c =
     \<lparr>td_opened_ns = wc_opened_ns c, td_escalated_ns = wc_escalated_ns c, td_active_ns = wc_active_ns c,
      td_recovered_ns = wc_recovered_ns c, td_expired_ns = wc_expired_ns c, td_last = []\<rparr>"

record warning_policy =
  bwp_min_severity :: blocking_severity
  bwp_include_no_window :: bool
  bwp_escalations_only :: bool

definition policy_of :: "emitter_configuration \<Rightarrow> warning_policy" where
  "policy_of c =
     \<lparr>bwp_min_severity = wc_min_severity c, bwp_include_no_window = wc_include_no_window c,
      bwp_escalations_only = wc_escalations_only c\<rparr>"

definition active_or_opened :: "window_transition \<Rightarrow> blocking_window option" where
  "active_or_opened tr = (case wx_active tr of None \<Rightarrow> wx_opened tr | Some w \<Rightarrow> Some w)"

datatype policy_reason = SeverityNone | BelowMinSeverity | NoWindow | NotAnEscalation | Accepted

definition warning_policy_evaluate :: "warning_policy \<Rightarrow> detection \<Rightarrow> policy_reason" where
  "warning_policy_evaluate p x =
     (let severity = eo_severity (de_outcome x) in
      if severity = BlkNone then SeverityNone
      else if severity < bwp_min_severity p then BelowMinSeverity
      else if active_or_opened (de_transition x) = None \<and> \<not> bwp_include_no_window p then NoWindow
      else if bwp_escalations_only p \<and> \<not> eo_escalated (de_outcome x) then NotAnEscalation
      else Accepted)"

section \<open>Payloads and the router\<close>

record group_payload =
  gp_group :: warning_group
  gp_transition :: group_transition
  gp_sequence :: nat

definition entry_payload :: "escalation_entry \<Rightarrow> json" where
  "entry_payload e =
     JObj [(''from_severity'', JStr (ee_from e)), (''to_severity'', JStr (ee_to e)), (''monotonic_ns'', JInt (ee_monotonic_ns e)),
           (''sample_index'', json_of_option JInt (ee_sample_index e))]"

definition group_payload_dict :: "group_payload \<Rightarrow> (string, json) dict" where
  "group_payload_dict p =
     (let g = gp_group p in
      [(''warning_id'', JStr (wg_warning_id g)), (''group_id'', JStr (wg_id g)), (''runtime_id'', JStr (wg_runtime_id g)),
       (''window_id'', json_of_option JStr (wg_window_id g)), (''state'', JStr (group_state_value (wg_state g))),
       (''severity'', JStr (wg_severity g)), (''peak_severity'', JStr (wg_peak_severity g)),
       (''first_seen_ns'', JInt (wg_first_seen_ns g)), (''last_seen_ns'', JInt (wg_last_seen_ns g)),
       (''recovered_ns'', json_of_option JInt (wg_recovered_ns g)), (''expired_ns'', json_of_option JInt (wg_expired_ns g)),
       (''freeze_duration_ns'', JInt (freeze_duration g)), (''freeze_duration_ms'', JFloat (in_millis (freeze_duration g))),
       (''peak_lag_ns'', JInt (wg_peak_lag_ns g)), (''last_lag_ns'', JInt (wg_last_lag_ns g)),
       (''violation_count'', JInt (int (wg_violations g))), (''escalation_count'', JInt (int (wg_escalations g))),
       (''capture_ids'', JList (map JInt (wg_captures g))), (''escalation_history'', JList (map entry_payload (wg_history g))),
       (''task_id'', json_of_option JStr (wg_task_id g)), (''task_name'', json_of_option JStr (wg_task_name g)),
       (''coroutine_name'', json_of_option JStr (wg_coroutine_name g)),
       (''transition'', JStr (transition_name (gp_transition p))), (''sequence'', JInt (int (gp_sequence p)))])"

definition event_type_for_transition :: "group_transition \<Rightarrow> string" where
  "event_type_for_transition t = ''runtime.warnings.blocking.'' @ transition_name t"

definition build_group_event :: "group_payload \<Rightarrow> monitor_event" where
  "build_group_event p = (event_type_for_transition (gp_transition p), group_payload_dict p)"

record warning_router =
  wr_has_bus :: bool
  wr_bus_calls :: nat
  wr_listeners :: "(int, bool) dict"
  wr_next_id :: int

definition payload_subscribe :: "bool \<Rightarrow> warning_router \<Rightarrow> int \<times> warning_router" where
  "payload_subscribe raises r =
     (let i = wr_next_id r + 1 in (i, r\<lparr>wr_next_id := i, wr_listeners := dset i raises (wr_listeners r)\<rparr>))"

definition payload_unsubscribe :: "int \<Rightarrow> warning_router \<Rightarrow> bool \<times> warning_router" where
  "payload_unsubscribe i r =
     (dget (wr_listeners r) i \<noteq> None, r\<lparr>wr_listeners := dpop i (wr_listeners r)\<rparr>)"

text \<open>\<open>None\<close> is the exception of the bus, which keeps the listeners from being called.\<close>

definition router_dispatch ::
    "event_bus \<Rightarrow> monitor_event option \<Rightarrow> warning_router \<Rightarrow> (bool \<times> nat) option \<times> warning_router" where
  "router_dispatch bus event r =
     (let errors = length (filter id (dvals (wr_listeners r))) in
      (case event of
         None \<Rightarrow> (Some (True, errors), r)
       | Some ev \<Rightarrow>
           if \<not> wr_has_bus r then (Some (True, errors), r)
           else (map_option (\<lambda>accepted. (accepted, errors)) (bus (wr_bus_calls r) ev),
                 r\<lparr>wr_bus_calls := wr_bus_calls r + 1\<rparr>)))"

section \<open>Statistics and self-metrics\<close>

record group_statistics =
  gs_top_limit :: nat
  gs_seen :: nat
  gs_recovered :: nat
  gs_expired :: nat
  gs_by_peak :: "(string, nat) dict"
  gs_total_freeze_ns :: int
  gs_longest_freeze_ns :: int
  gs_longest_id :: "string option"
  gs_peak_lag_ns :: int
  gs_captures :: nat
  gs_coroutines :: "(string, nat) dict"

definition fresh_group_statistics :: "nat \<Rightarrow> group_statistics" where
  "fresh_group_statistics limit =
     \<lparr>gs_top_limit = limit, gs_seen = 0, gs_recovered = 0, gs_expired = 0, gs_by_peak = [], gs_total_freeze_ns = 0,
      gs_longest_freeze_ns = 0, gs_longest_id = None, gs_peak_lag_ns = 0, gs_captures = 0, gs_coroutines = []\<rparr>"

definition group_statistics_reset :: "group_statistics \<Rightarrow> group_statistics" where
  "group_statistics_reset s = fresh_group_statistics (gs_top_limit s)"

definition observe_group_opened :: "warning_group \<Rightarrow> group_statistics \<Rightarrow> group_statistics" where
  "observe_group_opened g s =
     s\<lparr>gs_seen := gs_seen s + 1, gs_by_peak := bump_named (wg_peak_severity g) (gs_by_peak s),
       gs_peak_lag_ns := (if gs_peak_lag_ns s < wg_peak_lag_ns g then wg_peak_lag_ns g else gs_peak_lag_ns s)\<rparr>"

definition roll_finalize :: "warning_group \<Rightarrow> group_statistics \<Rightarrow> group_statistics" where
  "roll_finalize g s =
     (let dur = freeze_duration g in
      s\<lparr>gs_total_freeze_ns := gs_total_freeze_ns s + dur,
        gs_longest_freeze_ns := (if gs_longest_freeze_ns s < dur then dur else gs_longest_freeze_ns s),
        gs_longest_id := (if gs_longest_freeze_ns s < dur then Some (wg_id g) else gs_longest_id s),
        gs_peak_lag_ns := (if gs_peak_lag_ns s < wg_peak_lag_ns g then wg_peak_lag_ns g else gs_peak_lag_ns s),
        gs_by_peak := (if dget (gs_by_peak s) (wg_peak_severity g) = None
                       then bump_named (wg_peak_severity g) (gs_by_peak s) else gs_by_peak s)\<rparr>)"

definition observe_group_recovered :: "warning_group \<Rightarrow> group_statistics \<Rightarrow> group_statistics" where
  "observe_group_recovered g s = roll_finalize g (s\<lparr>gs_recovered := gs_recovered s + 1\<rparr>)"

definition observe_group_expired :: "warning_group \<Rightarrow> group_statistics \<Rightarrow> group_statistics" where
  "observe_group_expired g s = roll_finalize g (s\<lparr>gs_expired := gs_expired s + 1\<rparr>)"

definition observe_coroutine :: "string option \<Rightarrow> group_statistics \<Rightarrow> group_statistics" where
  "observe_coroutine name s =
     (case name of
        None \<Rightarrow> s
      | Some n \<Rightarrow> if n = [] then s else s\<lparr>gs_coroutines := bump_named n (gs_coroutines s)\<rparr>)"

text \<open>\<open>Counter.most_common(n)\<close>: the largest counts first, equal ones in insertion order.\<close>

definition most_common :: "nat \<Rightarrow> (string, nat) dict \<Rightarrow> (string \<times> nat) list" where
  "most_common n d = take n (sort_key (\<lambda>(k, c). - int c) d)"

record group_statistics_snapshot =
  gss_seen :: nat
  gss_recovered :: nat
  gss_expired :: nat
  gss_by_peak :: "(string, nat) dict"
  gss_total_freeze_ns :: int
  gss_longest_freeze_ns :: int
  gss_longest_id :: "string option"
  gss_mean_freeze_ns :: int
  gss_peak_lag_ns :: int
  gss_captures :: nat
  gss_top_coroutines :: "(string \<times> nat) list"

definition group_statistics_snapshot_of :: "group_statistics \<Rightarrow> group_statistics_snapshot" where
  "group_statistics_snapshot_of s =
     (let n = gs_recovered s + gs_expired s in
      \<lparr>gss_seen = gs_seen s, gss_recovered = gs_recovered s, gss_expired = gs_expired s, gss_by_peak = gs_by_peak s,
       gss_total_freeze_ns = gs_total_freeze_ns s, gss_longest_freeze_ns = gs_longest_freeze_ns s,
       gss_longest_id = gs_longest_id s,
       gss_mean_freeze_ns = (if 0 < n then gs_total_freeze_ns s div int n else 0), gss_peak_lag_ns = gs_peak_lag_ns s,
       gss_captures = gs_captures s, gss_top_coroutines = most_common (gs_top_limit s) (gs_coroutines s)\<rparr>)"

record group_metrics =
  gm_outcomes :: nat
  gm_captures :: nat
  gm_opened :: nat
  gm_recovered :: nat
  gm_expired :: nat
  gm_transitions :: "(group_transition, nat) dict"
  gm_suppressed_by_policy :: nat
  gm_suppressed_by_dedup :: nat
  gm_correlated :: nat
  gm_uncorrelated :: nat
  gm_emitted :: nat
  gm_dropped_backpressure :: nat
  gm_dropped_emitter :: nat
  gm_emitter_failures :: nat
  gm_listener_failures :: nat
  gm_reconfigurations :: nat

definition new_group_metrics :: group_metrics where
  "new_group_metrics =
     \<lparr>gm_outcomes = 0, gm_captures = 0, gm_opened = 0, gm_recovered = 0, gm_expired = 0,
      gm_transitions = map (\<lambda>t. (t, 0)) [TrOpened, TrEscalated, TrActive, TrRecovered, TrExpired],
      gm_suppressed_by_policy = 0, gm_suppressed_by_dedup = 0, gm_correlated = 0, gm_uncorrelated = 0, gm_emitted = 0,
      gm_dropped_backpressure = 0, gm_dropped_emitter = 0, gm_emitter_failures = 0, gm_listener_failures = 0,
      gm_reconfigurations = 0\<rparr>"

definition record_transition_of :: "group_transition \<Rightarrow> group_metrics \<Rightarrow> group_metrics" where
  "record_transition_of t m =
     m\<lparr>gm_transitions := dset t (dget_or 0 (gm_transitions m) t + 1) (gm_transitions m)\<rparr>"

section \<open>The emitter\<close>

record captured_stack =
  cs_window_id :: "string option"
  cs_capture_id :: int
  cs_task_id :: "string option"
  cs_task_name :: "string option"
  cs_coroutine_name :: "string option"

record warning_emitter =
  be_runtime_id :: string
  be_configuration :: emitter_configuration
  be_policy :: warning_policy
  be_registry :: group_registry
  be_dedup :: transition_dedup
  be_statistics :: group_statistics
  be_metrics :: group_metrics
  be_inflight :: inflight
  be_router :: warning_router
  be_state :: engine_state
  be_detector_id :: "int option"
  be_in_dispatch :: bool
  be_latest_ns :: int

definition new_emitter :: "string \<Rightarrow> bool \<Rightarrow> emitter_configuration \<Rightarrow> warning_emitter option" where
  "new_emitter rid has_bus c =
     (if \<not> emitter_configuration_valid c then None
      else
        (case (new_groups (wc_recent_capacity c), new_inflight (wc_max_pending c)) of
           (Some r, Some fl) \<Rightarrow>
             Some \<lparr>be_runtime_id = rid, be_configuration = c, be_policy = policy_of c, be_registry = r,
                   be_dedup = transitions_dedup c, be_statistics = fresh_group_statistics (nat (wc_top_limit c)),
                   be_metrics = new_group_metrics, be_inflight = fl,
                   be_router = \<lparr>wr_has_bus = has_bus, wr_bus_calls = 0, wr_listeners = [], wr_next_id = 0\<rparr>,
                   be_state = EngIdle, be_detector_id = None, be_in_dispatch = False, be_latest_ns = 0\<rparr>
         | _ \<Rightarrow> None))"

definition count_group :: "(group_metrics \<Rightarrow> group_metrics) \<Rightarrow> warning_emitter \<Rightarrow> warning_emitter" where
  "count_group f em = em\<lparr>be_metrics := f (be_metrics em)\<rparr>"

definition observe_groups :: "(group_statistics \<Rightarrow> group_statistics) \<Rightarrow> warning_emitter \<Rightarrow> warning_emitter" where
  "observe_groups f em = em\<lparr>be_statistics := f (be_statistics em)\<rparr>"

definition next_group_sequence :: "warning_emitter \<Rightarrow> nat \<times> warning_emitter" where
  "next_group_sequence em =
     (let n = gr_sequence (be_registry em) + 1 in (n, em\<lparr>be_registry := (be_registry em)\<lparr>gr_sequence := n\<rparr>\<rparr>))"

text \<open>
  The routing of a payload. The router is called with the re-entry flag set, which is cleared and the cap
  released whether or not the bus raises.
\<close>

definition route_payload :: "event_bus \<Rightarrow> group_payload \<Rightarrow> warning_emitter \<Rightarrow> group_payload option \<times> warning_emitter" where
  "route_payload bus p em =
     (let event = (if wc_emit_events (be_configuration em) then Some (build_group_event p) else None);
          (res, r) = router_dispatch bus event (be_router em);
          em1 = em\<lparr>be_router := r, be_inflight := inflight_release (be_inflight em), be_in_dispatch := False\<rparr>
      in (case res of
            None \<Rightarrow> (None, count_group (\<lambda>m. m\<lparr>gm_emitter_failures := gm_emitter_failures m + 1\<rparr>) em1)
          | Some (accepted, errors) \<Rightarrow>
              let em2 = (if 0 < errors then count_group (\<lambda>m. m\<lparr>gm_listener_failures := gm_listener_failures m + 1\<rparr>) em1 else em1)
              in (Some p,
                  if accepted then count_group (\<lambda>m. m\<lparr>gm_emitted := gm_emitted m + 1\<rparr>) em2
                  else count_group (\<lambda>m. m\<lparr>gm_dropped_emitter := gm_dropped_emitter m + 1\<rparr>) em2)))"

text \<open>The result is the returned payload and the payloads handed to the router.\<close>

definition emit_transition ::
    "event_bus \<Rightarrow> warning_group \<Rightarrow> group_transition \<Rightarrow> int \<Rightarrow> warning_emitter \<Rightarrow>
     group_payload option \<times> group_payload list \<times> warning_emitter" where
  "emit_transition bus g t ns em =
     (let em1 = count_group (record_transition_of t) em;
          (suppressed, remaining, td) = dedup_check (wg_id g) t ns (be_dedup em1);
          em2 = em1\<lparr>be_dedup := td\<rparr>
      in if suppressed
         then (None, [], count_group (\<lambda>m. m\<lparr>gm_suppressed_by_dedup := gm_suppressed_by_dedup m + 1\<rparr>) em2)
         else
           let (n, em3) = next_group_sequence em2; p = \<lparr>gp_group = g, gp_transition = t, gp_sequence = n\<rparr>;
               (ok, fl) = inflight_acquire (be_inflight em3); em4 = em3\<lparr>be_inflight := fl\<rparr>
           in if \<not> ok
              then (None, [], count_group (\<lambda>m. m\<lparr>gm_dropped_backpressure := gm_dropped_backpressure m + 1\<rparr>) em4)
              else let (r, em5) = route_payload bus p em4 in (r, [p], em5))"

definition no_window_key :: string where
  "no_window_key = ''_no_window_''"

definition effective_window_id :: "detection \<Rightarrow> string option" where
  "effective_window_id x =
     (case active_or_opened (de_transition x) of
        Some w \<Rightarrow> Some (bw_id w)
      | None \<Rightarrow> map_option bw_id (wx_closed (de_transition x)))"

definition window_key :: "detection \<Rightarrow> string" where
  "window_key x = (case effective_window_id x of Some w \<Rightarrow> w | None \<Rightarrow> no_window_key)"

text \<open>The group is registered under the key and then shows the key unless it is the bucket without a window.\<close>

definition open_group :: "detection \<Rightarrow> string \<Rightarrow> int \<Rightarrow> warning_emitter \<Rightarrow> warning_group \<times> warning_emitter" where
  "open_group x key ns em =
     (let (n, em1) = next_group_sequence em;
          gid = ''bw:'' @ be_runtime_id em @ '':'' @ str_of_nat n; severity = blocking_name (eo_severity (de_outcome x));
          lag = bc_lag_ns (de_classification x);
          g = \<lparr>wg_id = gid, wg_warning_id = gid, wg_runtime_id = be_runtime_id em, wg_window_id = Some key,
               wg_state = GrpOpened, wg_severity = severity, wg_peak_severity = severity, wg_first_seen_ns = ns,
               wg_last_seen_ns = ns, wg_peak_lag_ns = lag, wg_last_lag_ns = lag, wg_violations = 1, wg_escalations = 0,
               wg_captures = [], wg_history = [], wg_recovered_ns = None, wg_expired_ns = None, wg_task_id = None,
               wg_task_name = None, wg_coroutine_name = None\<rparr>;
          r = groups_add g (be_registry em1);
          g' = (if key = no_window_key then g\<lparr>wg_window_id := None\<rparr> else g);
          em2 = em1\<lparr>be_registry := group_update g' r\<rparr>
      in (g', observe_groups (observe_group_opened g')
                (count_group (\<lambda>m. m\<lparr>gm_opened := gm_opened m + 1\<rparr>) em2)))"

definition finalize_recovered ::
    "event_bus \<Rightarrow> warning_group \<Rightarrow> int \<Rightarrow> warning_emitter \<Rightarrow> group_payload list \<times> warning_emitter" where
  "finalize_recovered bus g ns em =
     (if wg_state g = GrpRecovered then ([], em)
      else
        let g1 = group_recovered ns g;
            em1 = observe_groups (observe_group_recovered g1) (em\<lparr>be_registry := group_update g1 (be_registry em)\<rparr>);
            em2 = count_group (\<lambda>m. m\<lparr>gm_recovered := gm_recovered m + 1\<rparr>) em1;
            (r, out, em3) = emit_transition bus g1 TrRecovered ns em2
        in (out, em3))"

definition suppress_by_policy :: "warning_emitter \<Rightarrow> warning_emitter" where
  "suppress_by_policy em = count_group (\<lambda>m. m\<lparr>gm_suppressed_by_policy := gm_suppressed_by_policy m + 1\<rparr>) em"

text \<open>The part of \<open>on_detection\<close> after the closed window's group was recovered.\<close>

definition apply_outcome ::
    "event_bus \<Rightarrow> detection \<Rightarrow> int \<Rightarrow> warning_emitter \<Rightarrow> group_payload option \<times> group_payload list \<times> warning_emitter" where
  "apply_outcome bus x ns em =
     (let decision = warning_policy_evaluate (be_policy em) x; key = window_key x;
          existing = find_by_window key (be_registry em); severity = eo_severity (de_outcome x)
      in if decision \<noteq> Accepted then
           (if existing = None \<and> bwp_escalations_only (be_policy em) \<and> wc_min_severity (be_configuration em) \<le> severity
            then (None, [], suppress_by_policy (snd (open_group x key ns em)))
            else (None, [], suppress_by_policy em))
         else
           (case existing of
              None \<Rightarrow> let (g, em1) = open_group x key ns em in emit_transition bus g TrOpened ns em1
            | Some g \<Rightarrow>
                if group_is_terminal (wg_state g) then (None, [], suppress_by_policy em)
                else
                  let m = bc_measurement (de_classification x);
                      g1 = group_observe severity (bc_lag_ns (de_classification x)) ns (Some (lm_sample_index m)) g;
                      em1 = em\<lparr>be_registry := group_update g1 (be_registry em)\<rparr>
                  in emit_transition bus g1 (if wg_state g1 = GrpEscalating then TrEscalated else TrActive) ns em1))"

definition on_detection ::
    "event_bus \<Rightarrow> detection \<Rightarrow> warning_emitter \<Rightarrow> group_payload option \<times> group_payload list \<times> warning_emitter" where
  "on_detection bus x em =
     (let em0 = count_group (\<lambda>m. m\<lparr>gm_outcomes := gm_outcomes m + 1\<rparr>) em in
      if \<not> wc_enabled (be_configuration em) \<or> be_in_dispatch em then (None, [], em0)
      else
        let ns = lm_actual_ns (bc_measurement (de_classification x));
            em1 = em0\<lparr>be_latest_ns := (if be_latest_ns em0 < ns then ns else be_latest_ns em0)\<rparr>;
            (out1, em2) =
              (case Option.bind (wx_closed (de_transition x)) (\<lambda>w. find_by_window (bw_id w) (be_registry em1)) of
                 None \<Rightarrow> ([], em1)
               | Some g \<Rightarrow> finalize_recovered bus g ns em1);
            (r, out2, em3) = apply_outcome bus x ns em2
        in (r, out1 @ out2, em3))"

definition on_capture :: "captured_stack \<Rightarrow> warning_emitter \<Rightarrow> bool \<times> warning_emitter" where
  "on_capture st em =
     (let em0 = count_group (\<lambda>m. m\<lparr>gm_captures := gm_captures m + 1\<rparr>) em in
      if \<not> wc_enabled (be_configuration em) then (False, em0)
      else
        (case Option.bind (cs_window_id st) (\<lambda>w. find_by_window w (be_registry em0)) of
           None \<Rightarrow> (False, count_group (\<lambda>m. m\<lparr>gm_uncorrelated := gm_uncorrelated m + 1\<rparr>) em0)
         | Some g \<Rightarrow>
             let g1 = attach_task (cs_task_id st) (cs_task_name st) (cs_coroutine_name st) (record_capture (cs_capture_id st) g);
                 em1 = count_group (\<lambda>m. m\<lparr>gm_correlated := gm_correlated m + 1\<rparr>)
                         (em0\<lparr>be_registry := group_update g1 (be_registry em0)\<rparr>)
             in (True, observe_groups (observe_coroutine (cs_coroutine_name st) \<circ> (\<lambda>s. s\<lparr>gs_captures := gs_captures s + 1\<rparr>)) em1)))"

text \<open>The expiration of one group of the copied list.\<close>

definition expire_group :: "event_bus \<Rightarrow> int \<Rightarrow> warning_group \<Rightarrow> warning_emitter \<Rightarrow> nat \<times> group_payload list \<times> warning_emitter" where
  "expire_group bus now snap em =
     (if wg_state snap \<noteq> GrpRecovered then (0, [], em)
      else
        let recovered = (case wg_recovered_ns snap of None \<Rightarrow> 0 | Some n \<Rightarrow> n) in
        if recovered = 0 \<or> now - recovered < wc_ttl_ns (be_configuration em) then (0, [], em)
        else
          (case find_group (wg_id snap) (be_registry em) of
             None \<Rightarrow> (0, [], em)
           | Some g \<Rightarrow>
               let g1 = group_expired now g;
                   em1 = observe_groups (observe_group_expired g1) (em\<lparr>be_registry := group_update g1 (be_registry em)\<rparr>);
                   em2 = count_group (\<lambda>m. m\<lparr>gm_expired := gm_expired m + 1\<rparr>) em1;
                   em3 = em2\<lparr>be_dedup := forget_group (wg_id g1) (be_dedup em2)\<rparr>;
                   (r, out, em4) = emit_transition bus g1 TrExpired now em3
               in (1, out, em4\<lparr>be_registry := group_finalize g1 (be_registry em4)\<rparr>)))"

fun expire_groups ::
    "event_bus \<Rightarrow> int \<Rightarrow> warning_group list \<Rightarrow> warning_emitter \<Rightarrow> nat \<times> group_payload list \<times> warning_emitter" where
  "expire_groups bus now [] em = (0, [], em)"
| "expire_groups bus now (g # gs) em =
     (let (n, out, em1) = expire_group bus now g em; (k, outs, em2) = expire_groups bus now gs em1
      in (n + k, out @ outs, em2))"

definition sweep_expirations ::
    "event_bus \<Rightarrow> int option \<Rightarrow> warning_emitter \<Rightarrow> nat \<times> group_payload list \<times> warning_emitter" where
  "sweep_expirations bus now em =
     (let t = (case now of Some n \<Rightarrow> n | None \<Rightarrow> be_latest_ns em) in
      if wc_ttl_ns (be_configuration em) \<le> 0 \<or> t \<le> 0 then (0, [], em)
      else expire_groups bus t (dvals (gr_active (be_registry em))) em)"

text \<open>Starting, binding, stopping. \<open>stop\<close> reads the runtime clock once.\<close>

definition emitter_start :: "warning_emitter \<Rightarrow> warning_emitter" where
  "emitter_start em = em\<lparr>be_state := EngRunning\<rparr>"

definition bind_to_detector :: "blocking_detector \<Rightarrow> warning_emitter \<Rightarrow> int \<times> blocking_detector \<times> warning_emitter" where
  "bind_to_detector d em =
     (case be_detector_id em of
        Some i \<Rightarrow> (i, d, em)
      | None \<Rightarrow> let (i, d1) = detector_subscribe False d in (i, d1, em\<lparr>be_detector_id := Some i\<rparr>))"

definition unbind_from_detector :: "blocking_detector \<Rightarrow> warning_emitter \<Rightarrow> bool \<times> blocking_detector \<times> warning_emitter" where
  "unbind_from_detector d em =
     (case be_detector_id em of
        None \<Rightarrow> (False, d, em)
      | Some i \<Rightarrow> let (removed, d1) = detector_unsubscribe i d in (removed, d1, em\<lparr>be_detector_id := None\<rparr>))"

fun recover_groups ::
    "event_bus \<Rightarrow> int \<Rightarrow> warning_group list \<Rightarrow> warning_emitter \<Rightarrow> group_payload list \<times> warning_emitter" where
  "recover_groups bus now [] em = ([], em)"
| "recover_groups bus now (snap # gs) em =
     (let (out, em1) =
            (case find_group (wg_id snap) (be_registry em) of
               None \<Rightarrow> ([], em)
             | Some g \<Rightarrow> finalize_recovered bus g now em);
          (outs, em2) = recover_groups bus now gs em1
      in (out @ outs, em2))"

definition emitter_stop ::
    "event_bus \<Rightarrow> int \<Rightarrow> blocking_detector \<Rightarrow> warning_emitter \<Rightarrow> group_payload list \<times> blocking_detector \<times> warning_emitter" where
  "emitter_stop bus now d em =
     (if be_state em \<in> {EngIdle, EngStopped} then ([], d, em\<lparr>be_state := EngStopped\<rparr>)
      else
        let (removed, d1, em1) = unbind_from_detector d em;
            (out, em2) = recover_groups bus now (dvals (gr_active (be_registry em1))) em1
        in (out, d1, em2\<lparr>be_state := EngStopped\<rparr>))"

definition emitter_subscribe :: "bool \<Rightarrow> warning_emitter \<Rightarrow> int \<times> warning_emitter" where
  "emitter_subscribe raises em =
     (let (i, r) = payload_subscribe raises (be_router em) in (i, em\<lparr>be_router := r\<rparr>))"

definition emitter_unsubscribe :: "int \<Rightarrow> warning_emitter \<Rightarrow> bool \<times> warning_emitter" where
  "emitter_unsubscribe i em =
     (let (removed, r) = payload_unsubscribe i (be_router em) in (removed, em\<lparr>be_router := r\<rparr>))"

text \<open>The swap of the registry: a new one, to which the groups that are still active are added.\<close>

definition swap_registry :: "nat \<Rightarrow> group_registry \<Rightarrow> group_registry" where
  "swap_registry capacity r =
     fold (\<lambda>snap acc. case find_group (wg_id snap) r of None \<Rightarrow> acc | Some g \<Rightarrow> groups_add g acc)
       (dvals (gr_active r)) (fresh_groups capacity)"

definition emitter_reconfigure :: "emitter_configuration option \<Rightarrow> warning_emitter \<Rightarrow> warning_emitter" where
  "emitter_reconfigure configuration em =
     (case configuration of
        None \<Rightarrow> em
      | Some c \<Rightarrow>
          let old = be_configuration em;
              r = (if wc_recent_capacity c = wc_recent_capacity old then be_registry em
                   else swap_registry (nat (wc_recent_capacity c)) (be_registry em));
              st = (if wc_top_limit c = wc_top_limit old then be_statistics em
                    else fresh_group_statistics (nat (wc_top_limit c)));
              fl = (if wc_max_pending c = wc_max_pending old then be_inflight em
                    else \<lparr>fl_capacity = nat (wc_max_pending c), fl_pending = 0, fl_denied = 0\<rparr>);
              td = (if wc_opened_ns c = wc_opened_ns old \<and> wc_escalated_ns c = wc_escalated_ns old \<and>
                       wc_active_ns c = wc_active_ns old \<and> wc_recovered_ns c = wc_recovered_ns old \<and>
                       wc_expired_ns c = wc_expired_ns old then be_dedup em
                    else transitions_dedup c)
          in count_group (\<lambda>m. m\<lparr>gm_reconfigurations := gm_reconfigurations m + 1\<rparr>)
               (em\<lparr>be_registry := r, be_statistics := st, be_inflight := fl, be_dedup := td, be_policy := policy_of c,
                   be_configuration := c\<rparr>))"

section \<open>Replay\<close>

datatype emitter_input = InOutcome detection | InCapture captured_stack

definition emitter_feed :: "event_bus \<Rightarrow> emitter_input \<Rightarrow> warning_emitter \<Rightarrow> group_payload list \<times> warning_emitter" where
  "emitter_feed bus i em =
     (case i of
        InOutcome x \<Rightarrow> snd (on_detection bus x em)
      | InCapture st \<Rightarrow> ([], snd (on_capture st em)))"

fun replay_into_emitter ::
    "event_bus \<Rightarrow> emitter_input list \<Rightarrow> warning_emitter \<Rightarrow> nat \<times> group_payload list \<times> warning_emitter" where
  "replay_into_emitter bus [] em = (0, [], em)"
| "replay_into_emitter bus (i # is) em =
     (let (out, em1) = emitter_feed bus i em; (n, outs, em2) = replay_into_emitter bus is em1
      in (n + 1, out @ outs, em2))"

text \<open>A decoded payload keeps the fields that are passed through unconverted as parsed JSON.\<close>

record decoded_payload =
  dp_warning_id :: string
  dp_group_id :: string
  dp_runtime_id :: string
  dp_window_id :: json
  dp_state :: string
  dp_severity :: string
  dp_peak_severity :: string
  dp_first_seen_ns :: int
  dp_last_seen_ns :: int
  dp_recovered_ns :: json
  dp_expired_ns :: json
  dp_freeze_duration_ns :: int
  dp_peak_lag_ns :: int
  dp_last_lag_ns :: int
  dp_violations :: int
  dp_escalations :: int
  dp_captures :: "int list"
  dp_history :: "(string, json) dict list"
  dp_task_id :: json
  dp_task_name :: json
  dp_coroutine_name :: json
  dp_transition :: string
  dp_sequence :: int

definition get_list :: "(string, json) dict \<Rightarrow> string \<Rightarrow> json list option" where
  "get_list d k =
     (let v = get_json d k in if \<not> truthy v then Some [] else (case v of JList xs \<Rightarrow> Some xs | _ \<Rightarrow> None))"

fun all_ints :: "json list \<Rightarrow> int list option" where
  "all_ints [] = Some []"
| "all_ints (x # xs) = Option.bind (json_int x) (\<lambda>i. map_option ((#) i) (all_ints xs))"

definition only_dicts :: "json list \<Rightarrow> (string, json) dict list" where
  "only_dicts xs = List.map_filter (\<lambda>x. case x of JObj d \<Rightarrow> Some d | _ \<Rightarrow> None) xs"

definition decode_payload :: "(json \<Rightarrow> string) \<Rightarrow> (string, json) dict \<Rightarrow> decoded_payload option" where
  "decode_payload render d =
     (case (get_list d ''capture_ids'', get_list d ''escalation_history'') of
        (Some captures, Some history) \<Rightarrow>
          Option.bind (get_int 0 d ''first_seen_ns'') (\<lambda>first.
          Option.bind (get_int 0 d ''last_seen_ns'') (\<lambda>seen.
          Option.bind (get_int 0 d ''freeze_duration_ns'') (\<lambda>dur.
          Option.bind (get_int 0 d ''peak_lag_ns'') (\<lambda>peak.
          Option.bind (get_int 0 d ''last_lag_ns'') (\<lambda>lag.
          Option.bind (get_int 0 d ''violation_count'') (\<lambda>violations.
          Option.bind (get_int 0 d ''escalation_count'') (\<lambda>escalations.
          Option.bind (all_ints captures) (\<lambda>ids.
          Option.bind (get_int 0 d ''sequence'') (\<lambda>sequence.
            Some \<lparr>dp_warning_id = get_str render d ''warning_id'', dp_group_id = get_str render d ''group_id'',
                  dp_runtime_id = get_str render d ''runtime_id'', dp_window_id = get_json d ''window_id'',
                  dp_state = get_str render d ''state'', dp_severity = get_str render d ''severity'',
                  dp_peak_severity =
                    (case dget d ''peak_severity'' of
                       Some v \<Rightarrow> json_str render v
                     | None \<Rightarrow> get_str render d ''severity''),
                  dp_first_seen_ns = first, dp_last_seen_ns = seen, dp_recovered_ns = get_json d ''recovered_ns'',
                  dp_expired_ns = get_json d ''expired_ns'', dp_freeze_duration_ns = dur, dp_peak_lag_ns = peak,
                  dp_last_lag_ns = lag, dp_violations = violations, dp_escalations = escalations, dp_captures = ids,
                  dp_history = only_dicts history, dp_task_id = get_json d ''task_id'',
                  dp_task_name = get_json d ''task_name'', dp_coroutine_name = get_json d ''coroutine_name'',
                  dp_transition = get_str render d ''transition'', dp_sequence = sequence\<rparr>)))))))))
      | _ \<Rightarrow> None)"

definition is_group_event_type :: "string \<Rightarrow> bool" where
  "is_group_event_type ty \<longleftrightarrow>
     ty \<in> set (map event_type_for_transition [TrOpened, TrEscalated, TrActive, TrRecovered, TrExpired])"

definition decode_blocking_warning_event :: "(json \<Rightarrow> string) \<Rightarrow> string \<times> json \<Rightarrow> decoded_payload option" where
  "decode_blocking_warning_event render ev =
     (if \<not> is_group_event_type (fst ev) then None
      else (case snd ev of JObj d \<Rightarrow> decode_payload render d | _ \<Rightarrow> None))"

section \<open>Group identifiers\<close>

lemma str_of_nat_unroll: "str_of_nat n = (if n < 10 then [] else str_of_nat (n div 10)) @ [char_of (48 + n mod 10)]"
  by (subst str_of_nat.simps) auto

lemma digit_inj: "char_of (48 + m mod 10 :: nat) = (char_of (48 + n mod 10) :: char) \<Longrightarrow> m mod 10 = n mod 10"
  by (drule arg_cong[where f = "of_char :: char \<Rightarrow> nat"]) simp

lemma str_of_nat_nonempty: "str_of_nat n \<noteq> []"
  by (subst str_of_nat_unroll) simp

lemma str_of_nat_inj: "str_of_nat m = str_of_nat n \<longleftrightarrow> m = n"
proof
  show "str_of_nat m = str_of_nat n \<Longrightarrow> m = n"
  proof (induction m arbitrary: n rule: less_induct)
    case (less m)
    from less.prems have heads: "(if m < 10 then [] else str_of_nat (m div 10)) = (if n < 10 then [] else str_of_nat (n div 10))"
      and digits: "m mod 10 = n mod 10"
      by (subst (asm) (1 2) str_of_nat_unroll, auto dest: digit_inj)+
    have "m div 10 = n div 10"
      using heads less.IH[of "m div 10" "n div 10"] str_of_nat_nonempty
      by (auto split: if_splits) (metis str_of_nat_nonempty)+
    with digits show ?case by (metis mult_div_mod_eq)
  qed
qed simp

definition group_id_of :: "string \<Rightarrow> nat \<Rightarrow> string" where
  "group_id_of rid n = ''bw:'' @ rid @ '':'' @ str_of_nat n"

lemma group_id_of_inj: "group_id_of rid m = group_id_of rid n \<longleftrightarrow> m = n"
  by (simp add: group_id_of_def str_of_nat_inj)

section \<open>The life of a group\<close>

text \<open>Everything that can be asked of a bound emitter, except a swap of the registry.\<close>

datatype emitter_call =
    CallFeed emitter_input
  | CallSweep "int option"
  | CallStop int blocking_detector
  | CallConfigure emitter_configuration

fun emitter_answer :: "event_bus \<Rightarrow> emitter_call \<Rightarrow> warning_emitter \<Rightarrow> group_payload list \<times> warning_emitter" where
  "emitter_answer bus (CallFeed i) em = emitter_feed bus i em"
| "emitter_answer bus (CallSweep now) em = snd (sweep_expirations bus now em)"
| "emitter_answer bus (CallStop now d) em = (let (out, d1, em1) = emitter_stop bus now d em in (out, em1))"
| "emitter_answer bus (CallConfigure c) em = ([], emitter_reconfigure (Some c) em)"

fun emitter_calls :: "event_bus \<Rightarrow> emitter_call list \<Rightarrow> warning_emitter \<Rightarrow> group_payload list \<times> warning_emitter" where
  "emitter_calls bus [] em = ([], em)"
| "emitter_calls bus (i # is) em =
     (let (out, em1) = emitter_answer bus i em; (outs, em2) = emitter_calls bus is em1 in (out @ outs, em2))"

fun keeps_capacity :: "int \<Rightarrow> emitter_call \<Rightarrow> bool" where
  "keeps_capacity n (CallConfigure c) \<longleftrightarrow> wc_recent_capacity c = n"
| "keeps_capacity n call \<longleftrightarrow> True"

fun life_rank :: "group_transition \<Rightarrow> nat" where
  "life_rank TrOpened = 0"
| "life_rank TrEscalated = 1"
| "life_rank TrActive = 1"
| "life_rank TrRecovered = 2"
| "life_rank TrExpired = 3"

definition may_follow :: "group_transition \<Rightarrow> group_transition \<Rightarrow> bool" where
  "may_follow s t \<longleftrightarrow> life_rank s < life_rank t \<or> life_rank s = 1 \<and> life_rank t = 1"

fun state_after :: "group_transition \<Rightarrow> group_state" where
  "state_after TrOpened = GrpOpened"
| "state_after TrEscalated = GrpEscalating"
| "state_after TrActive = GrpActive"
| "state_after TrRecovered = GrpRecovered"
| "state_after TrExpired = GrpExpired"

definition in_life_order :: "group_payload \<Rightarrow> group_payload \<Rightarrow> bool" where
  "in_life_order p q \<longleftrightarrow>
     gp_sequence p < gp_sequence q \<and>
     (wg_id (gp_group p) = wg_id (gp_group q) \<longrightarrow> may_follow (gp_transition p) (gp_transition q))"

definition state_shown :: "group_payload \<Rightarrow> bool" where
  "state_shown p \<longleftrightarrow> wg_state (gp_group p) = state_after (gp_transition p)"

definition life_bound :: "warning_group \<Rightarrow> nat" where
  "life_bound g = (if wg_state g = GrpRecovered then 2 else 1)"

definition rank_within :: "group_payload list \<Rightarrow> string \<Rightarrow> nat \<Rightarrow> bool" where
  "rank_within out i k \<longleftrightarrow> (\<forall>p\<in>set out. wg_id (gp_group p) = i \<longrightarrow> life_rank (gp_transition p) \<le> k)"

definition numbered :: "string \<Rightarrow> nat \<Rightarrow> string \<Rightarrow> bool" where
  "numbered rid n i \<longleftrightarrow> (\<exists>k. 0 < k \<and> k \<le> n \<and> i = group_id_of rid k)"

definition life_ok :: "string \<Rightarrow> (string \<Rightarrow> warning_group option) \<Rightarrow> nat \<Rightarrow> group_payload list \<Rightarrow> bool" where
  "life_ok rid m n out \<longleftrightarrow>
     (\<forall>i g. m i = Some g \<longrightarrow> wg_id g = i \<and> numbered rid n i \<and> wg_state g \<noteq> GrpExpired \<and> rank_within out i (life_bound g)) \<and>
     (\<forall>p\<in>set out. state_shown p \<and> gp_sequence p \<le> n \<and> numbered rid n (wg_id (gp_group p))) \<and>
     sorted_wrt in_life_order out"

lemma numbered_mono: "numbered rid n i \<Longrightarrow> n \<le> n' \<Longrightarrow> numbered rid n' i"
  by (auto simp: numbered_def intro: le_trans)

lemma life_ok_mono: "life_ok rid m n out \<Longrightarrow> n \<le> n' \<Longrightarrow> life_ok rid m n' out"
  unfolding life_ok_def by (meson le_trans numbered_mono)

lemma life_ok_get:
  assumes "life_ok rid m n out" and "m i = Some g"
  shows "wg_id g = i" "numbered rid n i" "wg_state g \<noteq> GrpExpired" "rank_within out i (life_bound g)"
  using assms by (auto simp: life_ok_def)

lemma life_ok_put:
  assumes "life_ok rid m n out" and "wg_id g = i" and "numbered rid n i" and "wg_state g \<noteq> GrpExpired"
    and "rank_within out i (life_bound g)"
  shows "life_ok rid (m(i \<mapsto> g)) n out"
  using assms by (auto simp: life_ok_def)

lemma life_ok_drop: "life_ok rid m n out \<Longrightarrow> life_ok rid (m(i := None)) n out"
  by (auto simp: life_ok_def)

lemma life_ok_emit:
  assumes ok: "life_ok rid m n out" and p: "wg_id (gp_group p) = i" "state_shown p" "gp_sequence p = n + 1" "numbered rid n i"
    and before: "\<forall>q\<in>set out. wg_id (gp_group q) = i \<longrightarrow> may_follow (gp_transition q) (gp_transition p)"
    and live: "\<forall>g. m i = Some g \<longrightarrow> life_rank (gp_transition p) \<le> life_bound g"
  shows "life_ok rid m (n + 1) (out @ [p])"
proof -
  have "rank_within (out @ [p]) j (life_bound g)" if "m j = Some g" for j g
    using life_ok_get(4)[OF ok that] live that p(1) by (auto simp: rank_within_def)
  moreover have "sorted_wrt in_life_order (out @ [p])"
    using ok before p(1,3) by (auto simp: life_ok_def sorted_wrt_append in_life_order_def)
  ultimately show ?thesis
    using ok p numbered_mono[of rid n _ "n + 1"] unfolding life_ok_def by (auto simp: le_Suc_eq)
qed

lemma life_ok_fresh:
  assumes "life_ok rid m n out"
  shows "m (group_id_of rid (n + 1)) = None" "rank_within out (group_id_of rid (n + 1)) k"
    "\<forall>q\<in>set out. wg_id (gp_group q) \<noteq> group_id_of rid (n + 1)"
proof -
  have no: "\<not> numbered rid n (group_id_of rid (n + 1))" by (auto simp: numbered_def group_id_of_inj)
  then show "m (group_id_of rid (n + 1)) = None" using assms by (metis life_ok_get(2) not_None_eq)
  show absent: "\<forall>q\<in>set out. wg_id (gp_group q) \<noteq> group_id_of rid (n + 1)" using no assms by (auto simp: life_ok_def)
  then show "rank_within out (group_id_of rid (n + 1)) k" by (auto simp: rank_within_def)
qed

section \<open>The emitter's steps keep the order\<close>

definition emitter_ok :: "string \<Rightarrow> int \<Rightarrow> group_payload list \<Rightarrow> warning_emitter \<Rightarrow> bool" where
  "emitter_ok rid capacity out em \<longleftrightarrow>
     be_runtime_id em = rid \<and> wc_recent_capacity (be_configuration em) = capacity \<and>
     life_ok rid (dget (gr_active (be_registry em))) (gr_sequence (be_registry em)) out"

text \<open>What an emission leaves alone, and what it hands to the router.\<close>

lemma emit_transition_frame:
  assumes "emit_transition bus g t ns em = (r, new, em')"
  shows "be_runtime_id em' = be_runtime_id em" "be_configuration em' = be_configuration em" "be_policy em' = be_policy em"
    "\<exists>n. be_registry em' = (be_registry em)\<lparr>gr_sequence := n\<rparr> \<and> gr_sequence (be_registry em) \<le> n \<and>
       (new = [] \<or> n = gr_sequence (be_registry em) + 1 \<and> new = [\<lparr>gp_group = g, gp_transition = t, gp_sequence = n\<rparr>])"
  using assms
  by (auto simp: emit_transition_def route_payload_def router_dispatch_def next_group_sequence_def count_group_def Let_def
      split: prod.splits if_splits option.splits intro: exI[of _ "gr_sequence (be_registry em)"])


lemma emitter_ok_put:
  assumes "emitter_ok rid capacity out em" and "be_runtime_id em' = be_runtime_id em"
    and "wc_recent_capacity (be_configuration em') = wc_recent_capacity (be_configuration em)"
    and "gr_active (be_registry em') = dset (wg_id g) g (gr_active (be_registry em))"
    and "gr_sequence (be_registry em') = gr_sequence (be_registry em)"
    and "numbered rid (gr_sequence (be_registry em)) (wg_id g)" and "wg_state g \<noteq> GrpExpired"
    and "rank_within out (wg_id g) (life_bound g)"
  shows "emitter_ok rid capacity out em'"
proof -
  have "dget (gr_active (be_registry em')) = (dget (gr_active (be_registry em)))(wg_id g \<mapsto> g)"
    by (rule ext) (simp add: assms(4) dget_dset)
  moreover have "life_ok rid ((dget (gr_active (be_registry em)))(wg_id g \<mapsto> g)) (gr_sequence (be_registry em)) out"
    using assms by (intro life_ok_put) (simp_all add: emitter_ok_def)
  ultimately have "life_ok rid (dget (gr_active (be_registry em'))) (gr_sequence (be_registry em')) out" unfolding assms(5) by metis
  then show ?thesis using assms(1-3) by (simp add: emitter_ok_def)
qed

lemma emitter_ok_emit:
  assumes ok: "emitter_ok rid capacity out em" and g: "dget (gr_active (be_registry em)) (wg_id g) = Some g"
    and t: "wg_state g = state_after t" and before: "\<forall>q\<in>set out. wg_id (gp_group q) = wg_id g \<longrightarrow> may_follow (gp_transition q) t"
    and emit: "emit_transition bus g t ns em = (r, new, em')"
  shows "emitter_ok rid capacity (out @ new) em'"
proof -
  let ?r = "be_registry em"
  note frame = emit_transition_frame[OF emit]
  have life: "life_ok rid (dget (gr_active ?r)) (gr_sequence ?r) out" using ok by (simp add: emitter_ok_def)
  have t': "t \<noteq> TrExpired" using life_ok_get(3)[OF life g] t by auto
  obtain n where n: "be_registry em' = ?r\<lparr>gr_sequence := n\<rparr>" "gr_sequence ?r \<le> n"
      "new = [] \<or> n = gr_sequence ?r + 1 \<and> new = [\<lparr>gp_group = g, gp_transition = t, gp_sequence = n\<rparr>]"
    using frame(4) by blast
  have "life_ok rid (dget (gr_active ?r)) n (out @ new)"
  proof (cases "new = []")
    case True
    then show ?thesis using life_ok_mono[OF life n(2)] by simp
  next
    case False
    then have eq: "n = gr_sequence ?r + 1" "new = [\<lparr>gp_group = g, gp_transition = t, gp_sequence = gr_sequence ?r + 1\<rparr>]"
      using n(3) by simp_all
    show ?thesis unfolding eq
      using t t' g before life_ok_get(2)[OF life g]
      by (intro life_ok_emit[OF life, where i = "wg_id g"]) (cases t; auto simp: state_shown_def life_bound_def)+
  qed
  then show ?thesis using ok frame n(1) by (simp add: emitter_ok_def)
qed

lemma open_then_recovers:
  assumes "life_ok rid m n out" and "m i = Some g" and "wg_state g \<noteq> GrpRecovered"
  shows "rank_within out i 1"
  using life_ok_get(4)[OF assms(1,2)] assms(3) by (simp add: life_bound_def)

lemma finalize_recovered_ok:
  assumes ok: "emitter_ok rid capacity out em" and g: "dget (gr_active (be_registry em)) i = Some g"
    and run: "finalize_recovered bus g ns em = (new, em')"
  shows "emitter_ok rid capacity (out @ new) em'"
proof (cases "wg_state g = GrpRecovered")
  case True
  then show ?thesis using ok run by (simp add: finalize_recovered_def)
next
  case False
  have life: "life_ok rid (dget (gr_active (be_registry em))) (gr_sequence (be_registry em)) out"
    using ok by (simp add: emitter_ok_def)
  have i: "wg_id g = i" and num: "numbered rid (gr_sequence (be_registry em)) i" using life_ok_get[OF life g] by simp_all
  note low = open_then_recovers[OF life g False]
  define g1 where "g1 = group_recovered ns g"
  define em1 where "em1 = count_group (\<lambda>m. m\<lparr>gm_recovered := gm_recovered m + 1\<rparr>)
    (observe_groups (observe_group_recovered g1) (em\<lparr>be_registry := group_update g1 (be_registry em)\<rparr>))"
  have g1: "wg_id g1 = i" "wg_state g1 = GrpRecovered" using i by (simp_all add: g1_def group_recovered_def)
  obtain r where emit: "emit_transition bus g1 TrRecovered ns em1 = (r, new, em')"
    using run False unfolding finalize_recovered_def Let_def g1_def[symmetric] em1_def[symmetric] by (auto split: prod.splits)
  have active: "gr_active (be_registry em1) = dset (wg_id g1) g1 (gr_active (be_registry em))"
    by (simp add: em1_def count_group_def observe_groups_def group_update_def)
  have "emitter_ok rid capacity out em1"
    using low num g1
    by (intro emitter_ok_put[OF ok _ _ active])
      (auto simp: em1_def count_group_def observe_groups_def group_update_def life_bound_def rank_within_def)
  moreover have "dget (gr_active (be_registry em1)) (wg_id g1) = Some g1" by (simp add: active dget_dset)
  moreover have "\<forall>q\<in>set out. wg_id (gp_group q) = wg_id g1 \<longrightarrow> may_follow (gp_transition q) TrRecovered"
    using low g1(1) by (force simp: rank_within_def may_follow_def)
  ultimately show ?thesis using g1(2) by (intro emitter_ok_emit[OF _ _ _ _ emit]) auto
qed

lemma open_group_ok:
  assumes ok: "emitter_ok rid capacity out em" and op: "open_group x key ns em = (g, em')"
  shows "emitter_ok rid capacity out em'" "dget (gr_active (be_registry em')) (wg_id g) = Some g" "wg_state g = GrpOpened"
    "\<forall>q\<in>set out. wg_id (gp_group q) \<noteq> wg_id g"
proof -
  let ?r = "be_registry em"
  let ?n = "gr_sequence ?r + 1"
  have life: "life_ok rid (dget (gr_active ?r)) (gr_sequence ?r) out" using ok by (simp add: emitter_ok_def)
  note fresh = life_ok_fresh[OF life]
  have g: "wg_id g = group_id_of rid ?n" "wg_state g = GrpOpened" and em': "be_runtime_id em' = be_runtime_id em"
      "be_configuration em' = be_configuration em" "gr_sequence (be_registry em') = ?n"
    using op ok by (auto simp: open_group_def next_group_sequence_def Let_def group_id_of_def emitter_ok_def observe_groups_def
        count_group_def group_update_def groups_add_def)
  have active: "dget (gr_active (be_registry em')) = (dget (gr_active ?r))(wg_id g \<mapsto> g)"
    using op by (auto simp: open_group_def next_group_sequence_def Let_def observe_groups_def
        count_group_def group_update_def groups_add_def dget_dset)
  have "life_ok rid (dget (gr_active ?r)) ?n out" using life_ok_mono[OF life, of ?n] by simp
  from life_ok_put[OF this, of g "wg_id g"] fresh(2)[of "life_bound g"] g
  have "life_ok rid ((dget (gr_active ?r))(wg_id g \<mapsto> g)) ?n out" by (auto simp: numbered_def)
  then have "life_ok rid (dget (gr_active (be_registry em'))) (gr_sequence (be_registry em')) out" unfolding em'(3) by (metis active)
  then show "emitter_ok rid capacity out em'" using ok em' by (simp add: emitter_ok_def)
  show "dget (gr_active (be_registry em')) (wg_id g) = Some g" by (simp add: active)
  show "wg_state g = GrpOpened" by (rule g(2))
  show "\<forall>q\<in>set out. wg_id (gp_group q) \<noteq> wg_id g" using fresh(3) g(1) by simp
qed


lemma emitter_ok_frame [simp]:
  "emitter_ok rid capacity out (count_group f em) = emitter_ok rid capacity out em"
  "emitter_ok rid capacity out (observe_groups h em) = emitter_ok rid capacity out em"
  "emitter_ok rid capacity out (em\<lparr>be_latest_ns := t\<rparr>) = emitter_ok rid capacity out em"
  "emitter_ok rid capacity out (em\<lparr>be_dedup := td\<rparr>) = emitter_ok rid capacity out em"
  "emitter_ok rid capacity out (em\<lparr>be_state := s\<rparr>) = emitter_ok rid capacity out em"
  "emitter_ok rid capacity out (em\<lparr>be_detector_id := d\<rparr>) = emitter_ok rid capacity out em"
  by (simp_all add: emitter_ok_def count_group_def observe_groups_def)

lemma found_is_live:
  assumes "emitter_ok rid capacity out em" and "find_by_window w (be_registry em) = Some g"
  shows "dget (gr_active (be_registry em)) (wg_id g) = Some g"
proof -
  obtain i where i: "dget (gr_active (be_registry em)) i = Some g"
    using assms(2) by (auto simp: find_by_window_def bind_eq_Some_conv)
  moreover have "life_ok rid (dget (gr_active (be_registry em))) (gr_sequence (be_registry em)) out"
    using assms(1) by (simp add: emitter_ok_def)
  ultimately show ?thesis using life_ok_get(1)[of rid _ _ out i g] by simp
qed

lemma group_observe_shape:
  assumes "\<not> group_is_terminal (wg_state g)" and "g1 = group_observe severity lag ns idx g"
  shows "wg_id g1 = wg_id g" "wg_state g1 = GrpEscalating \<or> wg_state g1 = GrpActive"
  using assms by (cases "wg_state g"; auto simp: group_observe_def Let_def group_is_terminal_def)+

lemma apply_outcome_ok:
  assumes ok: "emitter_ok rid capacity out em" and run: "apply_outcome bus x ns em = (r, new, em')"
  shows "emitter_ok rid capacity (out @ new) em'"
proof -
  let ?found = "find_by_window (window_key x) (be_registry em)"
  obtain g0 em0 where op: "open_group x (window_key x) ns em = (g0, em0)" by fastforce
  note opened = open_group_ok[OF ok op]
  show ?thesis
  proof (cases "warning_policy_evaluate (be_policy em) x = Accepted")
    case False
    then have "new = [] \<and> (em' = suppress_by_policy em \<or> em' = suppress_by_policy em0)"
      using run op by (auto simp: apply_outcome_def Let_def split: if_splits)
    then show ?thesis using ok opened(1) by (auto simp: suppress_by_policy_def)
  next
    case accepted: True
    show ?thesis
    proof (cases ?found)
      case None
      then have "emit_transition bus g0 TrOpened ns em0 = (r, new, em')" using run op accepted by (simp add: apply_outcome_def Let_def)
      then show ?thesis using opened by (intro emitter_ok_emit[OF opened(1,2)]) auto
    next
      case (Some g)
      note live = found_is_live[OF ok Some]
      show ?thesis
      proof (cases "group_is_terminal (wg_state g)")
        case True
        then show ?thesis using run Some accepted ok by (auto simp: apply_outcome_def Let_def suppress_by_policy_def)
      next
        case False
        define g1 where "g1 = group_observe (eo_severity (de_outcome x)) (bc_lag_ns (de_classification x)) ns
          (Some (lm_sample_index (bc_measurement (de_classification x)))) g"
        define em1 where "em1 = em\<lparr>be_registry := group_update g1 (be_registry em)\<rparr>"
        have emit: "emit_transition bus g1 (if wg_state g1 = GrpEscalating then TrEscalated else TrActive) ns em1 = (r, new, em')"
          using run Some accepted False by (simp add: apply_outcome_def Let_def g1_def em1_def)
        note g1 = group_observe_shape[OF False g1_def]
        have life: "life_ok rid (dget (gr_active (be_registry em))) (gr_sequence (be_registry em)) out"
          using ok by (simp add: emitter_ok_def)
        have low: "rank_within out (wg_id g) 1"
          using open_then_recovers[OF life live] False by (auto simp: group_is_terminal_def)
        have active: "gr_active (be_registry em1) = dset (wg_id g1) g1 (gr_active (be_registry em))"
          by (simp add: em1_def group_update_def)
        have "emitter_ok rid capacity out em1"
          using low g1 life_ok_get(2)[OF life live]
          by (intro emitter_ok_put[OF ok _ _ active]) (auto simp: em1_def group_update_def life_bound_def)
        moreover have "dget (gr_active (be_registry em1)) (wg_id g1) = Some g1" by (simp add: active dget_dset)
        moreover have "may_follow (gp_transition q) TrEscalated \<and> may_follow (gp_transition q) TrActive"
          if "q \<in> set out" "wg_id (gp_group q) = wg_id g1" for q
          using low g1(1) that by (cases "gp_transition q") (force simp: rank_within_def may_follow_def)+
        ultimately show ?thesis using g1(2) by (intro emitter_ok_emit[OF _ _ _ _ emit]) auto
      qed
    qed
  qed
qed

lemma on_detection_ok:
  assumes ok: "emitter_ok rid capacity out em" and run: "on_detection bus x em = (r, new, em')"
  shows "emitter_ok rid capacity (out @ new) em'"
proof -
  define em0 where "em0 = count_group (\<lambda>m. m\<lparr>gm_outcomes := gm_outcomes m + 1\<rparr>) em"
  define ns where "ns = lm_actual_ns (bc_measurement (de_classification x))"
  define em1 where "em1 = em0\<lparr>be_latest_ns := (if be_latest_ns em0 < ns then ns else be_latest_ns em0)\<rparr>"
  define found where "found = Option.bind (wx_closed (de_transition x)) (\<lambda>w. find_by_window (bw_id w) (be_registry em1))"
  obtain out1 em2 where first: "(case found of None \<Rightarrow> ([], em1) | Some g \<Rightarrow> finalize_recovered bus g ns em1) = (out1, em2)"
    by fastforce
  obtain r2 out2 em3 where second: "apply_outcome bus x ns em2 = (r2, out2, em3)" by (metis prod_cases3)
  have ok1: "emitter_ok rid capacity out em1" using ok by (simp add: em1_def em0_def)
  have "emitter_ok rid capacity (out @ out1) em2"
  proof (cases found)
    case None
    then show ?thesis using first ok1 by simp
  next
    case (Some g)
    then obtain w where "find_by_window w (be_registry em1) = Some g" by (auto simp: found_def bind_eq_Some_conv)
    then show ?thesis using finalize_recovered_ok[OF ok1 found_is_live[OF ok1]] first Some by auto
  qed
  note ok3 = apply_outcome_ok[OF this second]
  show ?thesis
  proof (cases "\<not> wc_enabled (be_configuration em0) \<or> be_in_dispatch em0")
    case True
    have "on_detection bus x em = (None, [], em0)"
      using True by (simp add: on_detection_def em0_def count_group_def)
    then show ?thesis using run ok by (simp add: em0_def)
  next
    case False
    have "be_configuration em0 = be_configuration em" "be_in_dispatch em0 = be_in_dispatch em" by (simp_all add: em0_def count_group_def)
    then have "on_detection bus x em = (r2, out1 @ out2, em3)"
      unfolding on_detection_def Let_def em0_def[symmetric] ns_def[symmetric] em1_def[symmetric] found_def[symmetric]
      using False first second by simp
    then show ?thesis using run ok3 by simp
  qed
qed


lemma on_capture_ok:
  assumes ok: "emitter_ok rid capacity out em" and run: "on_capture st em = (b, em')"
  shows "emitter_ok rid capacity out em'"
proof -
  define em0 where "em0 = count_group (\<lambda>m. m\<lparr>gm_captures := gm_captures m + 1\<rparr>) em"
  define found where "found = Option.bind (cs_window_id st) (\<lambda>w. find_by_window w (be_registry em0))"
  have ok0: "emitter_ok rid capacity out em0" using ok by (simp add: em0_def)
  show ?thesis
  proof (cases found)
    case None
    then show ?thesis using run ok0 unfolding on_capture_def Let_def em0_def[symmetric] found_def[symmetric] by (auto split: if_splits)
  next
    case (Some g)
    then obtain w where "find_by_window w (be_registry em0) = Some g" by (auto simp: found_def bind_eq_Some_conv)
    note live = found_is_live[OF ok0 this]
    have life: "life_ok rid (dget (gr_active (be_registry em0))) (gr_sequence (be_registry em0)) out"
      using ok0 by (simp add: emitter_ok_def)
    define g1 where "g1 = attach_task (cs_task_id st) (cs_task_name st) (cs_coroutine_name st) (record_capture (cs_capture_id st) g)"
    have g1: "wg_id g1 = wg_id g" "wg_state g1 = wg_state g" by (simp_all add: g1_def attach_task_def record_capture_def)
    then have "life_bound g1 = life_bound g" by (simp add: life_bound_def)
    then have "emitter_ok rid capacity out (em0\<lparr>be_registry := group_update g1 (be_registry em0)\<rparr>)"
      using life_ok_get[OF life live] g1 by (intro emitter_ok_put[OF ok0, where g = g1]) (auto simp: group_update_def)
    then show ?thesis using run ok0 Some
      unfolding on_capture_def Let_def em0_def[symmetric] found_def[symmetric] by (auto simp: g1_def split: if_splits)
  qed
qed

lemma expire_group_ok:
  assumes ok: "emitter_ok rid capacity out em" and run: "expire_group bus now snap em = (k, new, em')"
  shows "emitter_ok rid capacity (out @ new) em'"
proof (cases "k = 0")
  case True
  then have "em' = em \<and> new = []"
    using run by (auto simp: expire_group_def Let_def split: if_splits option.splits prod.splits)
  then show ?thesis using ok by simp
next
  case False
  then obtain g where g: "find_group (wg_id snap) (be_registry em) = Some g"
    using run by (auto simp: expire_group_def Let_def split: if_splits option.splits prod.splits)
  let ?r = "be_registry em"
  define g1 where "g1 = group_expired now g"
  define em3 where "em3 = (count_group (\<lambda>m. m\<lparr>gm_expired := gm_expired m + 1\<rparr>)
    (observe_groups (observe_group_expired g1) (em\<lparr>be_registry := group_update g1 ?r\<rparr>)))
    \<lparr>be_dedup := forget_group (wg_id g1) (be_dedup (count_group (\<lambda>m. m\<lparr>gm_expired := gm_expired m + 1\<rparr>)
       (observe_groups (observe_group_expired g1) (em\<lparr>be_registry := group_update g1 ?r\<rparr>))))\<rparr>"
  obtain res new4 em4 where emit4: "emit_transition bus g1 TrExpired now em3 = (res, new4, em4)" by (metis prod_cases3)
  then have eq: "new = new4" "em' = em4\<lparr>be_registry := group_finalize g1 (be_registry em4)\<rparr>"
    using run g False by (auto simp: expire_group_def Let_def em3_def g1_def split: if_splits)
  note em' = eq(2) and emit = emit4[folded eq(1)]
  have life: "life_ok rid (dget (gr_active ?r)) (gr_sequence ?r) out" using ok by (simp add: emitter_ok_def)
  have live: "dget (gr_active ?r) (wg_id snap) = Some g" using g by (simp add: find_group_def)
  note got = life_ok_get[OF life live]
  have g1: "wg_id g1 = wg_id g" "wg_state g1 = GrpExpired" by (simp_all add: g1_def group_expired_def)
  have em3: "be_runtime_id em3 = rid" "wc_recent_capacity (be_configuration em3) = capacity"
      "be_registry em3 = group_update g1 ?r"
    using ok by (simp_all add: em3_def count_group_def observe_groups_def emitter_ok_def)
  note frame = emit_transition_frame[OF emit]
  obtain n where n: "be_registry em4 = (group_update g1 ?r)\<lparr>gr_sequence := n\<rparr>" "gr_sequence ?r \<le> n"
      "new = [] \<or> n = gr_sequence ?r + 1 \<and> new = [\<lparr>gp_group = g1, gp_transition = TrExpired, gp_sequence = n\<rparr>]"
    using frame(4) by (auto simp: em3(3) group_update_def)
  let ?m = "(dget (gr_active ?r))(wg_id g := None)"
  have gone: "dget (gr_active (be_registry em')) = ?m"
    by (rule ext) (simp add: em' n(1) group_finalize_def group_update_def dget_dpop dget_dset g1(1))
  have less: "life_ok rid ?m (gr_sequence ?r) out" by (rule life_ok_drop[OF life])
  have "life_ok rid ?m n (out @ new)"
  proof (cases "new = []")
    case True
    then show ?thesis using life_ok_mono[OF less n(2)] by simp
  next
    case False
    then have eq: "n = gr_sequence ?r + 1" "new = [\<lparr>gp_group = g1, gp_transition = TrExpired, gp_sequence = gr_sequence ?r + 1\<rparr>]"
      using n(3) by simp_all
    have "\<forall>q\<in>set out. wg_id (gp_group q) = wg_id g \<longrightarrow> may_follow (gp_transition q) TrExpired"
      using got(1,4) by (force simp: rank_within_def may_follow_def life_bound_def split: if_splits)
    then show ?thesis unfolding eq
      using g1 got(1,2) by (intro life_ok_emit[OF less, where i = "wg_id g"]) (auto simp: state_shown_def)
  qed
  moreover have "be_runtime_id em' = rid" "wc_recent_capacity (be_configuration em') = capacity" "gr_sequence (be_registry em') = n"
    using em3 frame n(1) by (simp_all add: em' group_finalize_def)
  ultimately show ?thesis unfolding emitter_ok_def gone by blast
qed

lemma expire_groups_ok:
  "emitter_ok rid capacity out em \<Longrightarrow> expire_groups bus now gs em = (k, new, em') \<Longrightarrow> emitter_ok rid capacity (out @ new) em'"
proof (induction gs arbitrary: out em k new)
  case (Cons g gs)
  obtain a out1 em1 where one: "expire_group bus now g em = (a, out1, em1)" by (metis prod_cases3)
  obtain b outs em2 where rest: "expire_groups bus now gs em1 = (b, outs, em2)" by (metis prod_cases3)
  have "emitter_ok rid capacity ((out @ out1) @ outs) em2"
    using Cons.IH[OF expire_group_ok[OF Cons.prems(1) one], of b outs] rest Cons.prems(2) one by simp
  then show ?case using Cons.prems(2) one rest by simp
qed simp

lemma recover_groups_ok:
  "emitter_ok rid capacity out em \<Longrightarrow> recover_groups bus now gs em = (new, em') \<Longrightarrow> emitter_ok rid capacity (out @ new) em'"
proof (induction gs arbitrary: out em new)
  case (Cons g gs)
  obtain out1 em1 where one: "(case find_group (wg_id g) (be_registry em) of None \<Rightarrow> ([], em)
      | Some l \<Rightarrow> finalize_recovered bus l now em) = (out1, em1)" by fastforce
  obtain outs em2 where rest: "recover_groups bus now gs em1 = (outs, em2)" by fastforce
  have eq: "new = out1 @ outs" "em' = em2" using Cons.prems(2) one rest by simp_all
  have "emitter_ok rid capacity (out @ out1) em1"
    using one Cons.prems(1) finalize_recovered_ok[OF Cons.prems(1)] by (auto simp: find_group_def split: option.splits)
  from Cons.IH[OF this, of outs] rest eq show ?case by simp
qed simp


lemma emitter_feed_ok:
  assumes ok: "emitter_ok rid capacity out em" and run: "emitter_feed bus i em = (new, em')"
  shows "emitter_ok rid capacity (out @ new) em'"
proof (cases i)
  case (InOutcome x)
  obtain r new1 em1 where "on_detection bus x em = (r, new1, em1)" by (metis prod_cases3)
  then show ?thesis using on_detection_ok[OF ok] run InOutcome by (simp add: emitter_feed_def)
next
  case (InCapture st)
  obtain b em1 where "on_capture st em = (b, em1)" by fastforce
  then show ?thesis using on_capture_ok[OF ok] run InCapture by (simp add: emitter_feed_def)
qed

lemma sweep_expirations_ok:
  assumes ok: "emitter_ok rid capacity out em" and run: "sweep_expirations bus now em = (k, new, em')"
  shows "emitter_ok rid capacity (out @ new) em'"
  using run ok expire_groups_ok[OF ok] unfolding sweep_expirations_def Let_def by (simp split: if_splits)

lemma emitter_stop_ok:
  assumes ok: "emitter_ok rid capacity out em" and run: "emitter_stop bus now d em = (new, d', em')"
  shows "emitter_ok rid capacity (out @ new) em'"
proof (cases "be_state em \<in> {EngIdle, EngStopped}")
  case True
  then have "new = []" "em' = em\<lparr>be_state := EngStopped\<rparr>" using run by (simp_all add: emitter_stop_def)
  then show ?thesis using ok by simp
next
  case False
  obtain removed d1 em1 where un: "unbind_from_detector d em = (removed, d1, em1)" by (metis prod_cases3)
  then have "em1 = em \<or> em1 = em\<lparr>be_detector_id := None\<rparr>" by (auto simp: unbind_from_detector_def split: option.splits prod.splits)
  then have ok1: "emitter_ok rid capacity out em1" using ok by auto
  obtain outs em2 where rec: "recover_groups bus now (dvals (gr_active (be_registry em1))) em1 = (outs, em2)" by fastforce
  have "new = outs" "em' = em2\<lparr>be_state := EngStopped\<rparr>" using run False un rec by (simp_all add: emitter_stop_def)
  then show ?thesis using recover_groups_ok[OF ok1 rec] by simp
qed

lemma emitter_answer_ok:
  assumes ok: "emitter_ok rid capacity out em" and keep: "keeps_capacity capacity call"
    and run: "emitter_answer bus call em = (new, em')"
  shows "emitter_ok rid capacity (out @ new) em'"
proof (cases call)
  case (CallFeed i)
  then show ?thesis using run emitter_feed_ok[OF ok] by simp
next
  case (CallSweep now)
  obtain k new1 em1 where "sweep_expirations bus now em = (k, new1, em1)" by (metis prod_cases3)
  then show ?thesis using run CallSweep sweep_expirations_ok[OF ok] by simp
next
  case (CallStop now d)
  obtain new1 d1 em1 where "emitter_stop bus now d em = (new1, d1, em1)" by (metis prod_cases3)
  then show ?thesis using run CallStop emitter_stop_ok[OF ok] by simp
next
  case (CallConfigure c)
  then have eq: "new = []" "em' = emitter_reconfigure (Some c) em" and cap: "wc_recent_capacity c = wc_recent_capacity (be_configuration em)"
    using run keep ok by (simp_all add: emitter_ok_def)
  have "be_runtime_id em' = be_runtime_id em" "be_registry em' = be_registry em" "be_configuration em' = c"
    unfolding eq(2) emitter_reconfigure_def by (simp_all add: Let_def count_group_def cap)
  then show ?thesis using ok eq(1) cap by (simp add: emitter_ok_def)
qed

lemma emitter_calls_ok:
  "emitter_ok rid capacity out em \<Longrightarrow> list_all (keeps_capacity capacity) calls \<Longrightarrow>
   emitter_calls bus calls em = (new, em') \<Longrightarrow> emitter_ok rid capacity (out @ new) em'"
proof (induction calls arbitrary: out em new)
  case (Cons c calls)
  obtain out1 em1 where one: "emitter_answer bus c em = (out1, em1)" by fastforce
  obtain outs em2 where rest: "emitter_calls bus calls em1 = (outs, em2)" by fastforce
  have "emitter_ok rid capacity (out @ out1) em1" using emitter_answer_ok[OF Cons.prems(1) _ one] Cons.prems(2) by simp
  from Cons.IH[OF this, of outs] Cons.prems(2,3) one rest show ?case by simp
qed simp

text \<open>C37: A warning group lives in one direction. Whatever outcomes, captures, sweeps, stops and reconfigurations that keep the ring size a new
  emitter is given, the payloads it routes carry increasing sequence numbers, each shows the group in the state its transition
  names, and those of one group are: opened at most once and first, then escalations and refreshes, then recovered at most once,
  then expired at most once.
\<close>

theorem groups_follow_their_lifecycle:
  assumes "new_emitter rid has_bus c = Some em0" and "list_all (keeps_capacity (wc_recent_capacity c)) calls"
    and "emitter_calls bus calls em0 = (out, em)"
  shows "sorted_wrt in_life_order out \<and> list_all state_shown out"
proof -
  have "emitter_ok rid (wc_recent_capacity c) [] em0"
    using assms(1)
    by (auto simp: new_emitter_def emitter_ok_def life_ok_def new_groups_def fresh_groups_def split: if_splits option.splits)
  from emitter_calls_ok[OF this assms(2,3)] show ?thesis by (auto simp: emitter_ok_def life_ok_def list_all_iff)
qed

text \<open>A first violation that opens a window, for examples.\<close>

definition first_detection :: detection where
  "first_detection =
     (let c = classify_lag (calculate_lag 0 900 1 1 ''r'')
            \<lparr>le_severity = LagCritical, le_breached = True, le_lag_ns = 899, le_threshold_ns = 500\<rparr>;
          o' = \<lparr>eo_classification = c, eo_severity = BlkCritical, eo_from = None, eo_to = None, eo_warning = 1, eo_critical = 1,
                eo_freeze = 0\<rparr>;
          tr = fst (tracker_process o' (fresh_tracker default_blocking_policy ''r'' 64))
      in \<lparr>de_classification = c, de_outcome = o', de_is_violation = True, de_cooldown = cooldown_passed BlkCritical,
          de_transition = tr, de_emitted = True\<rparr>)"

theorem groups_follow_their_lifecycle_witness:
  "\<exists>em0 out em. new_emitter ''r'' False default_emitter_configuration = Some em0 \<and>
     emitter_calls (\<lambda>n e. None) [CallFeed (InOutcome first_detection), CallFeed (InOutcome first_detection), CallSweep None] em0 = (out, em) \<and>
     sorted_wrt in_life_order out"
proof -
  let ?calls = "[CallFeed (InOutcome first_detection), CallFeed (InOutcome first_detection), CallSweep None]"
  obtain em0 where em0: "new_emitter ''r'' False default_emitter_configuration = Some em0"
    by (simp add: new_emitter_def default_emitter_configuration_def emitter_configuration_valid_def new_groups_def new_inflight_def)
  obtain out em where run: "emitter_calls (\<lambda>n e. None) ?calls em0 = (out, em)" by fastforce
  have "list_all (keeps_capacity (wc_recent_capacity default_emitter_configuration)) ?calls" by simp
  from groups_follow_their_lifecycle[OF em0 this run] show ?thesis using em0 run by blast
qed

section \<open>A swapped registry starts numbering again\<close>

lemma swap_registry_sequence: "gr_sequence (swap_registry n r) = 0"
proof -
  have "gr_sequence (fold (\<lambda>snap acc. case find_group (wg_id snap) r of None \<Rightarrow> acc | Some g \<Rightarrow> groups_add g acc) gs acc) = gr_sequence acc"
    for gs :: "warning_group list" and acc :: group_registry
    by (induction gs arbitrary: acc) (auto simp: groups_add_def Let_def split: option.splits)
  then show ?thesis by (simp add: swap_registry_def fresh_groups_def)
qed

text \<open>The next group takes the identifier of the first one ever opened, live or not, and replaces it.\<close>

lemma swapped_registry_reuses_ids:
  assumes "wc_recent_capacity c \<noteq> wc_recent_capacity (be_configuration em)"
    and "open_group x key ns (emitter_reconfigure (Some c) em) = (g, em')"
  shows "wg_id g = group_id_of (be_runtime_id em) 1 \<and> find_group (group_id_of (be_runtime_id em) 1) (be_registry em') = Some g"
  using assms
  by (auto simp: emitter_reconfigure_def Let_def count_group_def open_group_def next_group_sequence_def swap_registry_sequence
      group_id_of_def observe_groups_def find_group_def group_update_def dget_dset)

section \<open>Payloads decode to what was built\<close>

fun entry_fields :: "escalation_entry \<Rightarrow> (string, json) dict" where
  "entry_fields e =
     [(''from_severity'', JStr (ee_from e)), (''to_severity'', JStr (ee_to e)), (''monotonic_ns'', JInt (ee_monotonic_ns e)),
      (''sample_index'', json_of_option JInt (ee_sample_index e))]"

lemma all_ints_JInt: "all_ints (map JInt xs) = Some xs"
  by (induction xs) simp_all

lemma only_dicts_entries: "only_dicts (map entry_payload es) = map entry_fields es"
  by (induction es) (simp_all add: only_dicts_def entry_payload_def List.map_filter_simps)

lemma get_list_JList: "dget d k = Some (JList xs) \<Longrightarrow> get_list d k = Some xs"
  by (simp add: get_list_def get_json_def dget_or_def)

text \<open>Decoding an emitted event gives back what was put in. For every payload the emitter can build, the decoder recognises the event
  type and returns its fields: the identifiers, state, severities, times, counters, captures in order, the escalation history entry
  by entry, the task attribution, the transition and the sequence number; optional fields come back as the value or null.
\<close>

theorem payload_round_trip:
  "decode_blocking_warning_event render (fst (build_group_event p), JObj (snd (build_group_event p))) =
     (let g = gp_group p in
      Some \<lparr>dp_warning_id = wg_warning_id g, dp_group_id = wg_id g, dp_runtime_id = wg_runtime_id g,
            dp_window_id = json_of_option JStr (wg_window_id g), dp_state = group_state_value (wg_state g),
            dp_severity = wg_severity g, dp_peak_severity = wg_peak_severity g, dp_first_seen_ns = wg_first_seen_ns g,
            dp_last_seen_ns = wg_last_seen_ns g, dp_recovered_ns = json_of_option JInt (wg_recovered_ns g),
            dp_expired_ns = json_of_option JInt (wg_expired_ns g), dp_freeze_duration_ns = freeze_duration g,
            dp_peak_lag_ns = wg_peak_lag_ns g, dp_last_lag_ns = wg_last_lag_ns g, dp_violations = int (wg_violations g),
            dp_escalations = int (wg_escalations g), dp_captures = wg_captures g, dp_history = map entry_fields (wg_history g),
            dp_task_id = json_of_option JStr (wg_task_id g), dp_task_name = json_of_option JStr (wg_task_name g),
            dp_coroutine_name = json_of_option JStr (wg_coroutine_name g), dp_transition = transition_name (gp_transition p),
            dp_sequence = int (gp_sequence p)\<rparr>)"
proof -
  let ?d = "group_payload_dict p" and ?g = "gp_group p"
  have lists: "get_list ?d ''capture_ids'' = Some (map JInt (wg_captures ?g))"
    "get_list ?d ''escalation_history'' = Some (map entry_payload (wg_history ?g))"
    by (rule get_list_JList; simp add: group_payload_dict_def Let_def)+
  have known: "is_group_event_type (event_type_for_transition (gp_transition p))"
    by (cases "gp_transition p") (simp_all add: is_group_event_type_def)
  show ?thesis
    unfolding decode_blocking_warning_event_def build_group_event_def fst_conv snd_conv
    using known
    by (simp add: decode_payload_def lists all_ints_JInt only_dicts_entries Let_def)
      (simp add: group_payload_dict_def Let_def get_int_def get_str_def get_json_def dget_or_def)
qed

end
