(* ===== verification/BlockingWatch.thy ===== *)
theory BlockingWatch
  imports BlockingGroups
begin

text \<open>
  The detector and the emitter bound to it (\<open>asyncviz/runtime/monitoring/blocking\<close> and
  \<open>asyncviz/runtime/warnings/blocking\<close>): every measurement passes through the detector, whose outcome goes to the
  emitter. What is shown: groups are opened, kept and recovered exactly as the windows they stand for are, and
  what a change of the detector's history size does to that.
\<close>

section \<open>The pipeline\<close>

fun watched_run ::
    "event_bus \<Rightarrow> event_bus \<Rightarrow> (lag_measurement \<times> lag_evaluation) list \<Rightarrow> blocking_detector \<Rightarrow> warning_emitter \<Rightarrow>
     detection list \<times> group_payload list \<times> blocking_detector \<times> warning_emitter" where
  "watched_run bus bus' [] d em = ([], [], d, em)"
| "watched_run bus bus' ((m, e) # xs) d em =
     (let (x, events, d1) = detector_process bus m e d; (r, out, em1) = on_detection bus' x em;
          (ys, outs, d2, em2) = watched_run bus bus' xs d1 em1
      in (x # ys, out @ outs, d2, em2))"

definition closed_windows :: "detection list \<Rightarrow> blocking_window list" where
  "closed_windows xs = List.map_filter (\<lambda>x. wx_closed (de_transition x)) xs"

definition recoveries :: "group_payload list \<Rightarrow> string option list" where
  "recoveries out = map (\<lambda>p. wg_window_id (gp_group p)) (filter (\<lambda>p. gp_transition p = TrRecovered) out)"

lemma recoveries_append: "recoveries (xs @ ys) = recoveries xs @ recoveries ys"
  by (simp add: recoveries_def)

text \<open>What the detector's accounting leaves alone.\<close>

lemma blocking_emit_frame:
  assumes "blocking_emit bus enabled ev f d = (b, out, d')"
  shows "bd_windows d' = bd_windows d" "bd_configuration d' = bd_configuration d" "bd_escalation d' = bd_escalation d"
  using assms by (auto simp: blocking_emit_def Let_def count_blocking_def split: if_splits prod.splits)

lemma snd_blocking_emit_frame:
  assumes "snd (blocking_emit bus enabled ev f d) = (out, d')"
  shows "bd_windows d' = bd_windows d \<and> bd_configuration d' = bd_configuration d"
  using assms blocking_emit_frame[of bus enabled ev f d "fst (blocking_emit bus enabled ev f d)" out d']
  by (simp_all add: prod_eq_iff)

lemma note_opened_frame:
  assumes "note_opened bus tr c d = (out, d')"
  shows "bd_windows d' = bd_windows d" "bd_configuration d' = bd_configuration d"
  using assms
  by (auto simp: note_opened_def emit_window_opened_def count_blocking_def split: option.splits dest!: snd_blocking_emit_frame)

lemma note_closed_frame:
  assumes "note_closed bus shut d = (out, d')"
  shows "bd_windows d' = bd_windows d" "bd_configuration d' = bd_configuration d"
  using assms
  by (auto simp: note_closed_def emit_window_closed_def count_blocking_def split: option.splits dest!: snd_blocking_emit_frame)

lemma note_violation_frame:
  assumes "note_violation bus o' tr d = (decision, b, out, d')"
  shows "bd_windows d' = bd_windows d \<and> bd_configuration d' = bd_configuration d"
proof -
  define d1 where "d1 = count_blocking (record_violation (eo_severity o')) d"
  obtain out1 d2 where esc: "(if eo_escalated o'
      then emit_escalation bus o' (wx_active tr) (count_blocking (record_escalation (eo_from o') (eo_to o')) d1)
      else ([], d1)) = (out1, d2)" by fastforce
  have two: "bd_windows d2 = bd_windows d" "bd_configuration d2 = bd_configuration d"
    using esc
    by (auto simp: emit_escalation_def d1_def count_blocking_def split: if_splits dest!: snd_blocking_emit_frame)
  obtain dec cd where check: "cooldown_check (eo_severity o') (lm_actual_ns (bc_measurement (eo_classification o'))) (bd_cooldowns d2)
      = (dec, cd)" by fastforce
  obtain acc out2 d4 where emit: "emit_violation bus (eo_classification o') o' (wx_active tr) (d2\<lparr>bd_cooldowns := cd\<rparr>) = (acc, out2, d4)"
    by (metis prod_cases3)
  have four: "bd_windows d4 = bd_windows d2" "bd_configuration d4 = bd_configuration d2"
    using blocking_emit_frame[OF emit[unfolded emit_violation_def]] by simp_all
  have "d' = d4 \<or> d' = count_blocking (record_cooldown_suppression (eo_severity o')) (d2\<lparr>bd_cooldowns := cd\<rparr>)"
    using assms unfolding note_violation_def Let_def d1_def[symmetric] esc check
    by (simp add: check emit split: if_splits)
  then show ?thesis using two four by (auto simp: count_blocking_def)
qed

lemma detector_process_windows:
  assumes "detector_process bus m e d = (x, out, d')"
  shows "tracker_process (de_outcome x) (bd_windows d) = (de_transition x, bd_windows d')"
    "eo_classification (de_outcome x) = de_classification x" "bd_configuration d' = bd_configuration d"
proof -
  define d2 where "d2 = (count_blocking (\<lambda>x. x\<lparr>bx_measurements := bx_measurements x + 1\<rparr>) d)
    \<lparr>bd_statistics := observe_peak_lag (bc_lag_ns (classify_lag m e)) (bd_statistics (count_blocking (\<lambda>x. x\<lparr>bx_measurements := bx_measurements x + 1\<rparr>) d))\<rparr>"
  have d2: "bd_windows d2 = bd_windows d" "bd_configuration d2 = bd_configuration d" "bd_escalation d2 = bd_escalation d"
    by (simp_all add: d2_def count_blocking_def)
  obtain o' ec where esc: "escalation_process (classify_lag m e) (bd_escalation d2) = (o', ec)" by fastforce
  obtain tr tk where win: "tracker_process o' (bd_windows d2) = (tr, tk)" by fastforce
  obtain out1 d3 where op: "note_opened bus tr (classify_lag m e) (d2\<lparr>bd_escalation := ec, bd_windows := tk\<rparr>) = (out1, d3)" by fastforce
  obtain out2 d4 where cl: "note_closed bus (wx_closed tr) d3 = (out2, d4)" by fastforce
  obtain decision emitted out3 d5 where vi:
    "(if is_blocking_violation (dc_thresholds (bd_configuration d4)) (eo_severity o') then note_violation bus o' tr d4
      else (cooldown_passed (eo_severity o'), False, [], d4)) = (decision, emitted, out3, d5)" by (metis prod_cases4)
  have five: "bd_windows d5 = bd_windows d4" "bd_configuration d5 = bd_configuration d4"
    using vi note_violation_frame[of bus o' tr d4] by (auto split: if_splits)
  have x: "x = \<lparr>de_classification = classify_lag m e, de_outcome = o',
      de_is_violation = is_blocking_violation (dc_thresholds (bd_configuration d4)) (eo_severity o'), de_cooldown = decision,
      de_transition = tr, de_emitted = emitted\<rparr>" "d' = notify_detection d5"
    using assms unfolding detector_process_def Let_def d2_def[symmetric] by (simp_all add: esc win op cl vi)
  have win': "bd_windows d' = tk" "bd_configuration d' = bd_configuration d"
    using five note_opened_frame[OF op] note_closed_frame[OF cl] d2 by (simp_all add: x(2) notify_detection_def Let_def count_blocking_def)
  show "tracker_process (de_outcome x) (bd_windows d) = (de_transition x, bd_windows d')" using win d2(1) by (simp add: x(1) win')
  show "bd_configuration d' = bd_configuration d" by (rule win'(2))
  have "eo_classification o' = classify_lag m e" using esc by (auto simp: escalation_process_def Let_def)
  then show "eo_classification (de_outcome x) = de_classification x" by (simp add: x(1))
qed

section \<open>What the emitter does with an outcome\<close>

lemma last_str_of_nat: "last (str_of_nat n) = char_of (48 + n mod 10)"
  by (subst str_of_nat_unroll) simp

lemma window_id_not_bucket: "blocking_window_id rid n \<noteq> no_window_key"
proof
  assume eq: "blocking_window_id rid n = no_window_key"
  have "last (blocking_window_id rid n) = last (str_of_nat n)"
    by (simp add: blocking_window_id_def str_of_nat_nonempty)
  moreover have "last no_window_key = CHR ''_''" by (simp add: no_window_key_def)
  ultimately have "char_of (48 + n mod 10) = CHR ''_''" using eq by (simp add: last_str_of_nat)
  then have "of_char (char_of (48 + n mod 10) :: char) = (of_char (CHR ''_'') :: nat)" by simp
  then show False by simp
qed

lemma blocking_window_id_inj: "blocking_window_id rid m = blocking_window_id rid n \<longleftrightarrow> m = n"
  by (simp add: blocking_window_id_def str_of_nat_inj)

text \<open>The emitter between calls: not inside a dispatch, nothing pending, the configuration as given.\<close>

definition at_rest :: "emitter_configuration \<Rightarrow> warning_emitter \<Rightarrow> bool" where
  "at_rest c em \<longleftrightarrow>
     be_policy em = policy_of c \<and> be_configuration em = c \<and> \<not> be_in_dispatch em \<and> fl_pending (be_inflight em) = 0"

definition active_of :: "warning_emitter \<Rightarrow> string \<Rightarrow> warning_group option" where
  "active_of em = dget (gr_active (be_registry em))"

definition windows_of :: "warning_emitter \<Rightarrow> string \<Rightarrow> string option" where
  "windows_of em = dget (gr_by_window (be_registry em))"

text \<open>Only groups that have recovered have the key of that transition recorded.\<close>

definition recoveries_due :: "warning_emitter \<Rightarrow> bool" where
  "recoveries_due em \<longleftrightarrow>
     (\<forall>i. dget (td_last (be_dedup em)) (i, TrRecovered) \<noteq> None \<longrightarrow>
        (\<exists>g. active_of em i = Some g \<and> wg_state g = GrpRecovered))"

lemma at_rest_frame [simp]:
  "at_rest c (count_group f em) = at_rest c em"
  "at_rest c (observe_groups h em) = at_rest c em"
  "at_rest c (em\<lparr>be_latest_ns := t\<rparr>) = at_rest c em"
  "at_rest c (em\<lparr>be_registry := r\<rparr>) = at_rest c em"
  by (simp_all add: at_rest_def count_group_def observe_groups_def)

lemma views_frame [simp]:
  "active_of (count_group f em) = active_of em" "windows_of (count_group f em) = windows_of em"
  "active_of (observe_groups h em) = active_of em" "windows_of (observe_groups h em) = windows_of em"
  "active_of (em\<lparr>be_latest_ns := t\<rparr>) = active_of em" "windows_of (em\<lparr>be_latest_ns := t\<rparr>) = windows_of em"
  "be_dedup (count_group f em) = be_dedup em" "be_dedup (observe_groups h em) = be_dedup em"
  by (simp_all add: active_of_def windows_of_def count_group_def observe_groups_def)

lemma views_update [simp]:
  "active_of (em\<lparr>be_registry := group_update g (be_registry em)\<rparr>) = (active_of em)(wg_id g \<mapsto> g)"
  "windows_of (em\<lparr>be_registry := group_update g (be_registry em)\<rparr>) = windows_of em"
  by (rule ext, simp add: active_of_def windows_of_def group_update_def dget_dset)+

lemma emit_transition_views:
  assumes "emit_transition bus g t ns em = (r, new, em')"
  shows "active_of em' = active_of em" "windows_of em' = windows_of em"
  using emit_transition_frame(4)[OF assms] by (auto simp: active_of_def windows_of_def)

lemma dedup_check_keys:
  assumes "dedup_check i t now td = (s, k, td')"
  shows "dget (td_last td') (j, u) \<noteq> None \<Longrightarrow> dget (td_last td) (j, u) \<noteq> None \<or> j = i \<and> u = t"
    "dget (td_last td) (i, t) = None \<Longrightarrow> \<not> s"
  using assms by (auto simp: dedup_check_def Let_def dget_dset split: if_splits option.splits)

lemma emit_transition_rest:
  assumes "emit_transition bus g t ns em = (r, new, em')" and "at_rest c em"
  shows "at_rest c em'"
    "dget (td_last (be_dedup em')) (j, u) \<noteq> None \<Longrightarrow> dget (td_last (be_dedup em)) (j, u) \<noteq> None \<or> j = wg_id g \<and> u = t"
    "\<forall>p\<in>set new. gp_transition p = t" "dget (td_last (be_dedup em)) (wg_id g, t) = None \<Longrightarrow> \<exists>n. new = [\<lparr>gp_group = g, gp_transition = t, gp_sequence = n\<rparr>]"
proof -
  obtain s k td where check: "dedup_check (wg_id g) t ns (be_dedup em) = (s, k, td)" by (metis prod_cases3)
  have em': "be_dedup em' = td" "at_rest c em'" "\<forall>p\<in>set new. gp_transition p = t"
      "\<not> s \<Longrightarrow> \<exists>n. new = [\<lparr>gp_group = g, gp_transition = t, gp_sequence = n\<rparr>]"
    using assms check
    by (auto simp: emit_transition_def route_payload_def router_dispatch_def next_group_sequence_def count_group_def Let_def
        at_rest_def inflight_acquire_def inflight_release_def split: prod.splits if_splits option.splits)
  show "at_rest c em'" "\<forall>p\<in>set new. gp_transition p = t" by (fact em')+
  show "dget (td_last (be_dedup em')) (j, u) \<noteq> None \<Longrightarrow> dget (td_last (be_dedup em)) (j, u) \<noteq> None \<or> j = wg_id g \<and> u = t"
    using dedup_check_keys(1)[OF check] em'(1) by simp
  show "dget (td_last (be_dedup em)) (wg_id g, t) = None \<Longrightarrow> \<exists>n. new = [\<lparr>gp_group = g, gp_transition = t, gp_sequence = n\<rparr>]"
    using dedup_check_keys(2)[OF check] em'(4) by simp
qed

lemma open_group_views:
  assumes "open_group x key ns em = (g, em')" and "key \<noteq> no_window_key"
  shows "active_of em' = (active_of em)(wg_id g \<mapsto> g)" "windows_of em' = (windows_of em)(key \<mapsto> wg_id g)"
    "wg_window_id g = Some key" "wg_state g = GrpOpened" "be_dedup em' = be_dedup em" "at_rest c em' = at_rest c em"
  using assms
  by (auto simp: open_group_def next_group_sequence_def Let_def active_of_def windows_of_def observe_groups_def count_group_def
      group_update_def groups_add_def dget_dset fun_upd_def at_rest_def)

lemma recoveries_due_step:
  assumes "recoveries_due em" and "active_of em' = (active_of em)(i \<mapsto> g')"
    and "\<forall>g. active_of em i = Some g \<longrightarrow> wg_state g \<noteq> GrpRecovered"
    and "\<And>j. dget (td_last (be_dedup em')) (j, TrRecovered) \<noteq> None \<Longrightarrow> dget (td_last (be_dedup em)) (j, TrRecovered) \<noteq> None"
  shows "recoveries_due em'"
  unfolding recoveries_due_def
proof (intro allI impI)
  fix j
  assume "dget (td_last (be_dedup em')) (j, TrRecovered) \<noteq> None"
  then obtain g where g: "active_of em j = Some g" "wg_state g = GrpRecovered"
    using assms(4)[of j] assms(1) unfolding recoveries_due_def by blast
  then have "j \<noteq> i" using assms(3) by blast
  then show "\<exists>g. active_of em' j = Some g \<and> wg_state g = GrpRecovered" using g assms(2) by simp
qed

lemma recoveries_due_same: "recoveries_due em \<Longrightarrow> active_of em' = active_of em \<Longrightarrow> be_dedup em' = be_dedup em \<Longrightarrow> recoveries_due em'"
  by (simp add: recoveries_due_def)

lemma recoveries_none: "\<forall>p\<in>set new. gp_transition p = t \<Longrightarrow> t \<noteq> TrRecovered \<Longrightarrow> recoveries new = []"
  by (auto simp: recoveries_def filter_empty_conv)

text \<open>The configurations considered: neither outcomes without a window nor silent openings.\<close>

definition plain_configuration :: "emitter_configuration \<Rightarrow> bool" where
  "plain_configuration c \<longleftrightarrow> wc_enabled c \<and> \<not> wc_include_no_window c \<and> \<not> wc_escalations_only c"

lemma apply_outcome_rejected:
  assumes "at_rest c em" and "plain_configuration c" and "warning_policy_evaluate (policy_of c) x \<noteq> Accepted"
    and "apply_outcome bus x ns em = (r, new, em')"
  shows "new = []" "em' = suppress_by_policy em"
  using assms by (auto simp: apply_outcome_def Let_def at_rest_def plain_configuration_def policy_of_def)

lemma policy_needs_window:
  "plain_configuration c \<Longrightarrow> active_or_opened (de_transition x) = None \<Longrightarrow> warning_policy_evaluate (policy_of c) x \<noteq> Accepted"
  by (auto simp: warning_policy_evaluate_def Let_def plain_configuration_def policy_of_def)

lemma policy_in_window:
  assumes "plain_configuration c" and "active_or_opened (de_transition x) = Some w"
  shows "warning_policy_evaluate (policy_of c) x = Accepted \<longleftrightarrow>
    eo_severity (de_outcome x) \<noteq> BlkNone \<and> wc_min_severity c \<le> eo_severity (de_outcome x)"
  using assms by (auto simp: warning_policy_evaluate_def Let_def plain_configuration_def policy_of_def)

lemma find_by_window_views: "find_by_window w (be_registry em) = Option.bind (windows_of em w) (active_of em)"
  by (simp add: find_by_window_def windows_of_def active_of_def)

lemma apply_outcome_accepted:
  assumes ok: "emitter_ok rid' capacity out em" and rest: "at_rest c em" and due: "recoveries_due em"
    and plain: "plain_configuration c" and win: "active_or_opened (de_transition x) = Some w0" "w = bw_id w0" "w \<noteq> no_window_key"
    and sev: "eo_severity (de_outcome x) \<noteq> BlkNone" "wc_min_severity c \<le> eo_severity (de_outcome x)"
    and live: "\<And>i. windows_of em w = Some i \<Longrightarrow> \<exists>g. active_of em i = Some g \<and> wg_state g \<noteq> GrpRecovered \<and> wg_window_id g = Some w"
    and run: "apply_outcome bus x ns em = (r, new, em')"
  shows "at_rest c em' \<and> recoveries_due em' \<and> recoveries new = [] \<and>
    (\<exists>i g. active_of em' = (active_of em)(i \<mapsto> g) \<and> windows_of em' = (windows_of em)(w \<mapsto> i) \<and> wg_state g \<noteq> GrpRecovered \<and>
       wg_window_id g = Some w \<and> (case windows_of em w of None \<Rightarrow> active_of em i = None | Some j \<Rightarrow> j = i))"
proof -
  have key: "window_key x = w" using win by (simp add: window_key_def effective_window_id_def)
  have pol: "warning_policy_evaluate (be_policy em) x = Accepted"
    using policy_in_window[OF plain win(1)] sev rest by (simp add: at_rest_def)
  have life: "life_ok rid' (active_of em) (gr_sequence (be_registry em)) out"
    using ok by (simp add: emitter_ok_def active_of_def)
  show ?thesis
  proof (cases "windows_of em w")
    case None
    obtain g0 em0 where op: "open_group x w ns em = (g0, em0)" by fastforce
    note views = open_group_views[OF op win(3)]
    have new_id: "active_of em (wg_id g0) = None"
      using life_ok_fresh(1)[OF life] op ok
      by (auto simp: open_group_def next_group_sequence_def Let_def group_id_of_def emitter_ok_def)
    have emit: "emit_transition bus g0 TrOpened ns em0 = (r, new, em')"
      using run pol key None op by (simp add: apply_outcome_def Let_def find_by_window_views)
    have rest0: "at_rest c em0" using rest views(6) by simp
    note after = emit_transition_rest[OF emit rest0] and same = emit_transition_views[OF emit]
    have "dget (td_last (be_dedup em')) (j, TrRecovered) \<noteq> None \<Longrightarrow> dget (td_last (be_dedup em)) (j, TrRecovered) \<noteq> None" for j
      using after(2)[of j TrRecovered] views(5) by simp
    then have "recoveries_due em'"
      by (intro recoveries_due_step[OF due, of _ "wg_id g0" g0]) (use same views new_id in auto)
    then show ?thesis
      using after(1) recoveries_none[OF after(3)] same views None new_id
      by (intro conjI exI[of _ "wg_id g0"] exI[of _ g0]) auto
  next
    case (Some i)
    obtain g where g: "active_of em i = Some g" "wg_state g \<noteq> GrpRecovered" "wg_window_id g = Some w" using live[OF Some] by blast
    have i: "wg_id g = i" and open': "\<not> group_is_terminal (wg_state g)"
      using life_ok_get[OF life g(1)] g(2) by (auto simp: group_is_terminal_def)
    define g1 where "g1 = group_observe (eo_severity (de_outcome x)) (bc_lag_ns (de_classification x)) ns
      (Some (lm_sample_index (bc_measurement (de_classification x)))) g"
    define em1 where "em1 = em\<lparr>be_registry := group_update g1 (be_registry em)\<rparr>"
    define t where "t = (if wg_state g1 = GrpEscalating then TrEscalated else TrActive)"
    have emit: "emit_transition bus g1 t ns em1 = (r, new, em')"
      using run pol key Some g open' by (simp add: apply_outcome_def Let_def g1_def em1_def t_def find_by_window_views)
    note g1 = group_observe_shape[OF open' g1_def]
    have w1: "wg_window_id g1 = Some w" using g(3) by (simp add: g1_def group_observe_def Let_def)
    have rest1: "at_rest c em1" using rest by (simp add: em1_def)
    note after = emit_transition_rest[OF emit rest1] and same = emit_transition_views[OF emit]
    have t: "t \<noteq> TrRecovered" by (simp add: t_def)
    have views: "active_of em' = (active_of em)(i \<mapsto> g1)" "windows_of em' = windows_of em" "be_dedup em1 = be_dedup em"
      using same g1(1) i by (simp_all add: em1_def)
    have "dget (td_last (be_dedup em')) (j, TrRecovered) \<noteq> None \<Longrightarrow> dget (td_last (be_dedup em)) (j, TrRecovered) \<noteq> None" for j
      using after(2)[of j TrRecovered] views(3) t by simp
    then have "recoveries_due em'"
      by (intro recoveries_due_step[OF due views(1)]) (use g in auto)
    then show ?thesis
      using after(1) recoveries_none[OF after(3) t] views g1(2) w1 Some
      by (intro conjI exI[of _ i] exI[of _ g1]) (auto simp: fun_upd_idem)
  qed
qed

lemma finalize_recovered_views:
  assumes rest: "at_rest c em" and due: "recoveries_due em" and g: "active_of em i = Some g" "wg_id g = i" "wg_state g \<noteq> GrpRecovered"
    and run: "finalize_recovered bus g ns em = (new, em')"
  shows "at_rest c em' \<and> recoveries_due em' \<and> recoveries new = [wg_window_id g] \<and> windows_of em' = windows_of em \<and>
    (\<exists>g1. active_of em' = (active_of em)(i \<mapsto> g1) \<and> wg_state g1 = GrpRecovered \<and> wg_window_id g1 = wg_window_id g)"
proof -
  define g1 where "g1 = group_recovered ns g"
  define em1 where "em1 = count_group (\<lambda>m. m\<lparr>gm_recovered := gm_recovered m + 1\<rparr>)
    (observe_groups (observe_group_recovered g1) (em\<lparr>be_registry := group_update g1 (be_registry em)\<rparr>))"
  have g1: "wg_id g1 = i" "wg_state g1 = GrpRecovered" "wg_window_id g1 = wg_window_id g"
    using g(2) by (simp_all add: g1_def group_recovered_def)
  obtain r where emit: "emit_transition bus g1 TrRecovered ns em1 = (r, new, em')"
    using run g(3) unfolding finalize_recovered_def Let_def g1_def[symmetric] em1_def[symmetric] by (auto split: prod.splits)
  have rest1: "at_rest c em1" using rest by (simp add: em1_def)
  note after = emit_transition_rest[OF emit rest1] and same = emit_transition_views[OF emit]
  have views: "active_of em' = (active_of em)(i \<mapsto> g1)" "windows_of em' = windows_of em" "be_dedup em1 = be_dedup em"
    using same g1(1) by (simp_all add: em1_def)
  have "dget (td_last (be_dedup em1)) (wg_id g1, TrRecovered) = None"
    using due g g1(1) by (fastforce simp: recoveries_due_def views(3))
  then obtain n where "new = [\<lparr>gp_group = g1, gp_transition = TrRecovered, gp_sequence = n\<rparr>]" using after(4) by blast
  then have "recoveries new = [wg_window_id g]" using g1(3) by (simp add: recoveries_def)
  moreover have "recoveries_due em'"
    unfolding recoveries_due_def
  proof (intro allI impI)
    fix j
    assume "dget (td_last (be_dedup em')) (j, TrRecovered) \<noteq> None"
    then have "dget (td_last (be_dedup em)) (j, TrRecovered) \<noteq> None \<or> j = i" using after(2)[of j TrRecovered] g1(1) by (simp add: views(3))
    then show "\<exists>g. active_of em' j = Some g \<and> wg_state g = GrpRecovered"
      using due g1(2) unfolding views(1) recoveries_due_def by (cases "j = i") auto
  qed
  ultimately show ?thesis using after(1) views g1 by blast
qed

section \<open>Groups mirror windows\<close>

text \<open>
  The index leads to the group of the window it names, of a window opened so far. Only the group of the open window
  is not yet recovered, and there is one exactly if the window has reached the emitter's severity.
\<close>

definition window_books :: "string \<Rightarrow> blocking_severity \<Rightarrow> window_tracker \<Rightarrow>
    (string \<Rightarrow> warning_group option) \<Rightarrow> (string \<Rightarrow> string option) \<Rightarrow> bool" where
  "window_books rid low tk A B \<longleftrightarrow>
     (\<forall>w i. B w = Some i \<longrightarrow> (\<exists>k g. k \<le> tk_next_id tk \<and> w = blocking_window_id rid k \<and> A i = Some g \<and> wg_window_id g = Some w)) \<and>
     (case tk_active tk of
        None \<Rightarrow> \<forall>i g. A i = Some g \<longrightarrow> wg_state g = GrpRecovered
      | Some a \<Rightarrow>
          aw_id a = blocking_window_id rid (tk_next_id tk) \<and> bp_window_open (tk_policy tk) \<le> aw_peak_severity a \<and>
          (\<forall>i g. A i = Some g \<and> wg_state g \<noteq> GrpRecovered \<longrightarrow> B (aw_id a) = Some i) \<and>
          (case B (aw_id a) of
             None \<Rightarrow> aw_peak_severity a < low
           | Some i \<Rightarrow> low \<le> aw_peak_severity a \<and> (\<exists>g. A i = Some g \<and> wg_state g \<noteq> GrpRecovered)))"

definition window_index_ok :: "string \<Rightarrow> nat \<Rightarrow> (string \<Rightarrow> warning_group option) \<Rightarrow> (string \<Rightarrow> string option) \<Rightarrow> bool" where
  "window_index_ok rid n A B \<longleftrightarrow>
     (\<forall>w i. B w = Some i \<longrightarrow> (\<exists>k g. k \<le> n \<and> w = blocking_window_id rid k \<and> A i = Some g \<and> wg_window_id g = Some w))"

lemma window_books_shut:
  "tk_active tk = None \<Longrightarrow> window_books rid low tk A B \<longleftrightarrow>
     window_index_ok rid (tk_next_id tk) A B \<and> (\<forall>i g. A i = Some g \<longrightarrow> wg_state g = GrpRecovered)"
  by (simp add: window_books_def window_index_ok_def)

lemma window_books_open:
  "tk_active tk = Some a \<Longrightarrow> window_books rid low tk A B \<longleftrightarrow>
     window_index_ok rid (tk_next_id tk) A B \<and> aw_id a = blocking_window_id rid (tk_next_id tk) \<and>
     bp_window_open (tk_policy tk) \<le> aw_peak_severity a \<and>
     (\<forall>i g. A i = Some g \<longrightarrow> wg_state g \<noteq> GrpRecovered \<longrightarrow> B (aw_id a) = Some i) \<and>
     (B (aw_id a) = None \<longrightarrow> aw_peak_severity a < low) \<and>
     (\<forall>i. B (aw_id a) = Some i \<longrightarrow> low \<le> aw_peak_severity a \<and> (\<exists>g. A i = Some g \<and> wg_state g \<noteq> GrpRecovered))"
  by (auto simp: window_books_def window_index_ok_def split: option.splits)

lemma window_index_ok_mono: "window_index_ok rid n A B \<Longrightarrow> n \<le> n' \<Longrightarrow> window_index_ok rid n' A B"
  unfolding window_index_ok_def by (meson le_trans)

lemma window_index_ok_group: "window_index_ok rid n A B \<Longrightarrow> B w = Some i \<Longrightarrow> \<exists>g. A i = Some g \<and> wg_window_id g = Some w"
  unfolding window_index_ok_def by blast

lemma window_index_ok_replace:
  assumes "window_index_ok rid n A B" and "wg_window_id g1 = wg_window_id g" and "A i = Some g"
  shows "window_index_ok rid n (A(i \<mapsto> g1)) B"
  unfolding window_index_ok_def
proof (intro allI impI)
  fix w j
  assume "B w = Some j"
  then obtain k h where "k \<le> n" "w = blocking_window_id rid k" "A j = Some h" "wg_window_id h = Some w"
    using assms(1) unfolding window_index_ok_def by blast
  then show "\<exists>k h. k \<le> n \<and> w = blocking_window_id rid k \<and> (A(i \<mapsto> g1)) j = Some h \<and> wg_window_id h = Some w"
    using assms(2,3) by (cases "j = i") auto
qed

lemma window_index_ok_insert:
  assumes "window_index_ok rid n A B" and "wg_window_id g = Some (blocking_window_id rid n)" and "A i = None"
  shows "window_index_ok rid n (A(i \<mapsto> g)) (B(blocking_window_id rid n \<mapsto> i))"
  unfolding window_index_ok_def
proof (intro allI impI)
  fix w j
  assume at: "(B(blocking_window_id rid n \<mapsto> i)) w = Some j"
  show "\<exists>k h. k \<le> n \<and> w = blocking_window_id rid k \<and> (A(i \<mapsto> g)) j = Some h \<and> wg_window_id h = Some w"
  proof (cases "w = blocking_window_id rid n")
    case True
    then show ?thesis using at assms(2) by (intro exI[of _ n] exI[of _ g]) auto
  next
    case False
    then have "B w = Some j" using at by simp
    then obtain k h where kh: "k \<le> n" "w = blocking_window_id rid k" "A j = Some h" "wg_window_id h = Some w"
      using assms(1) unfolding window_index_ok_def by blast
    moreover have "j \<noteq> i" using kh(3) assms(3) by auto
    ultimately show ?thesis by (intro exI[of _ k] exI[of _ h]) auto
  qed
qed

lemma window_books_index: "window_books rid low tk A B \<Longrightarrow> window_index_ok rid (tk_next_id tk) A B"
  by (simp add: window_books_def window_index_ok_def)

lemma window_books_live:
  assumes "window_books rid low tk A B" and "tk_active tk = Some a" and "B (aw_id a) = Some i"
  shows "\<exists>g. A i = Some g \<and> wg_state g \<noteq> GrpRecovered \<and> wg_window_id g = Some (aw_id a)"
proof -
  obtain g where "A i = Some g" "wg_state g \<noteq> GrpRecovered" using assms(1,3) unfolding window_books_open[OF assms(2)] by blast
  then show ?thesis using window_index_ok_group[OF window_books_index[OF assms(1)] assms(3)] by auto
qed

lemma window_books_fresh:
  assumes "window_books rid low tk A B"
  shows "B (blocking_window_id rid (tk_next_id tk + 1)) = None"
proof (rule ccontr)
  assume "B (blocking_window_id rid (tk_next_id tk + 1)) \<noteq> None"
  then obtain k where "k \<le> tk_next_id tk" "blocking_window_id rid (tk_next_id tk + 1) = blocking_window_id rid k"
    using window_books_index[OF assms] unfolding window_index_ok_def by blast
  then show False by (simp add: blocking_window_id_inj)
qed

lemma window_books_opened:
  assumes "window_books rid low tk A B" and "tk_active tk = None"
    and tk': "tk_active tk' = Some a" "tk_next_id tk' = tk_next_id tk + 1" "tk_policy tk' = tk_policy tk"
    and a: "aw_id a = blocking_window_id rid (tk_next_id tk + 1)" "bp_window_open (tk_policy tk) \<le> aw_peak_severity a"
  shows "aw_peak_severity a < low \<Longrightarrow> window_books rid low tk' A B"
    "low \<le> aw_peak_severity a \<Longrightarrow> A i = None \<Longrightarrow> wg_state g \<noteq> GrpRecovered \<Longrightarrow> wg_window_id g = Some (aw_id a) \<Longrightarrow>
      window_books rid low tk' (A(i \<mapsto> g)) (B(aw_id a \<mapsto> i))"
proof -
  have rec: "wg_state g = GrpRecovered" if "A i = Some g" for i g using assms(1) that unfolding window_books_shut[OF assms(2)] by blast
  have none: "B (aw_id a) = None" using window_books_fresh[OF assms(1)] by (simp add: a(1))
  have index: "window_index_ok rid (tk_next_id tk') A B" using window_index_ok_mono[OF window_books_index[OF assms(1)]] tk'(2) by simp
  show "window_books rid low tk' A B" if "aw_peak_severity a < low"
    unfolding window_books_open[OF tk'(1)] using that rec none index a tk' by auto
  show "window_books rid low tk' (A(i \<mapsto> g)) (B(aw_id a \<mapsto> i))"
    if new: "low \<le> aw_peak_severity a" "A i = None" "wg_state g \<noteq> GrpRecovered" "wg_window_id g = Some (aw_id a)"
    using window_index_ok_insert[OF index, of g i] new rec a tk'
    unfolding window_books_open[OF tk'(1)] by (auto split: if_splits)
qed

lemma window_books_stays:
  assumes books: "window_books rid low tk A B" and a0: "tk_active tk = Some a0"
    and tk': "tk_active tk' = Some a" "tk_next_id tk' = tk_next_id tk" "tk_policy tk' = tk_policy tk"
    and a: "aw_id a = aw_id a0" "aw_peak_severity a0 \<le> aw_peak_severity a"
  shows "(B (aw_id a) = None \<Longrightarrow> aw_peak_severity a < low) \<Longrightarrow> window_books rid low tk' A B"
    "low \<le> aw_peak_severity a \<Longrightarrow> wg_state g \<noteq> GrpRecovered \<Longrightarrow> wg_window_id g = Some (aw_id a) \<Longrightarrow>
      (case B (aw_id a) of None \<Rightarrow> A i = None | Some j \<Rightarrow> j = i) \<Longrightarrow> window_books rid low tk' (A(i \<mapsto> g)) (B(aw_id a \<mapsto> i))"
proof -
  note old = books[unfolded window_books_open[OF a0]]
  have index: "window_index_ok rid (tk_next_id tk') A B" using window_books_index[OF books] tk'(2) by simp
  have peak: "bp_window_open (tk_policy tk') \<le> aw_peak_severity a" using old a(2) unfolding tk'(3) by (meson order_trans)
  have id: "aw_id a = blocking_window_id rid (tk_next_id tk')" using old unfolding a(1) tk'(2) by blast
  have mine: "B (aw_id a) = Some i" if "A i = Some g" "wg_state g \<noteq> GrpRecovered" for i g using old that unfolding a(1) by blast
  show "window_books rid low tk' A B" if none: "B (aw_id a) = None \<Longrightarrow> aw_peak_severity a < low"
  proof -
    have "low \<le> aw_peak_severity a \<and> (\<exists>g. A i = Some g \<and> wg_state g \<noteq> GrpRecovered)" if "B (aw_id a) = Some i" for i
      using old that a(2) unfolding a(1) by (meson order_trans)
    then show ?thesis unfolding window_books_open[OF tk'(1)] using index peak id mine none by blast
  qed
  show "window_books rid low tk' (A(i \<mapsto> g)) (B(aw_id a \<mapsto> i))"
    if new: "low \<le> aw_peak_severity a" "wg_state g \<noteq> GrpRecovered" "wg_window_id g = Some (aw_id a)"
      "case B (aw_id a) of None \<Rightarrow> A i = None | Some j \<Rightarrow> j = i"
  proof -
    have "window_index_ok rid (tk_next_id tk') (A(i \<mapsto> g)) (B(aw_id a \<mapsto> i))"
    proof (cases "B (aw_id a)")
      case None
      then show ?thesis using window_index_ok_insert[OF index, of g i] new(3,4) id by simp
    next
      case (Some j)
      then obtain g0 where "A i = Some g0" "wg_window_id g0 = Some (aw_id a)" and ji: "j = i"
        using new(4) window_index_ok_group[OF index Some] by auto
      then have "window_index_ok rid (tk_next_id tk') (A(i \<mapsto> g)) B" using window_index_ok_replace[OF index, of g g0 i] new(3) by simp
      then show ?thesis using Some ji by (simp add: fun_upd_idem)
    qed
    moreover have "j = i" if "(A(i \<mapsto> g)) j = Some h" "wg_state h \<noteq> GrpRecovered" for j h
    proof (rule ccontr)
      assume "j \<noteq> i"
      then have "A j = Some h" using that(1) by simp
      then have "B (aw_id a) = Some j" using mine that(2) by blast
      then show False using new(4) \<open>j \<noteq> i\<close> by simp
    qed
    moreover have "(B(aw_id a \<mapsto> i)) (aw_id a) = Some i" "(A(i \<mapsto> g)) i = Some g" by simp_all
    ultimately show ?thesis unfolding window_books_open[OF tk'(1)] using peak id new(1,2) by (metis option.inject option.distinct(1))
  qed
qed

lemma window_books_closed:
  assumes books: "window_books rid low tk A B" and a0: "tk_active tk = Some a0"
    and tk': "tk_active tk' = None" "tk_next_id tk' = tk_next_id tk"
  shows "B (aw_id a0) = None \<Longrightarrow> window_books rid low tk' A B"
    "B (aw_id a0) = Some i \<Longrightarrow> A i = Some g \<Longrightarrow> wg_state g1 = GrpRecovered \<Longrightarrow> wg_window_id g1 = wg_window_id g \<Longrightarrow>
      window_books rid low tk' (A(i \<mapsto> g1)) B"
proof -
  have old: "B (aw_id a0) = Some i" if "A i = Some g" "wg_state g \<noteq> GrpRecovered" for i g
    using books that unfolding window_books_open[OF a0] by blast
  have index: "window_index_ok rid (tk_next_id tk') A B" using window_books_index[OF books] tk'(2) by simp
  show "window_books rid low tk' A B" if "B (aw_id a0) = None"
    unfolding window_books_shut[OF tk'(1)] using that old index by fastforce
  show "window_books rid low tk' (A(i \<mapsto> g1)) B"
    if at: "B (aw_id a0) = Some i" "A i = Some g" "wg_state g1 = GrpRecovered" "wg_window_id g1 = wg_window_id g"
  proof -
    have "wg_state h = GrpRecovered" if "(A(i \<mapsto> g1)) j = Some h" for j h
      using that old[of j h] at(1,3) by (cases "j = i") auto
    then show ?thesis unfolding window_books_shut[OF tk'(1)] using window_index_ok_replace[OF index at(4,2)] by blast
  qed
qed

section \<open>One outcome\<close>

lemma on_detection_split:
  assumes "at_rest c em" and "plain_configuration c" and "on_detection bus x em = (r, new, em')"
  obtains t em1 out1 em2 out2 ns where
    "em1 = (count_group (\<lambda>m. m\<lparr>gm_outcomes := gm_outcomes m + 1\<rparr>) em)\<lparr>be_latest_ns := t\<rparr>"
    "(case Option.bind (wx_closed (de_transition x)) (\<lambda>w. find_by_window (bw_id w) (be_registry em1)) of
        None \<Rightarrow> ([], em1) | Some g \<Rightarrow> finalize_recovered bus g ns em1) = (out1, em2)"
    "apply_outcome bus x ns em2 = (r, out2, em')" "new = out1 @ out2"
proof -
  define em0 where "em0 = count_group (\<lambda>m. m\<lparr>gm_outcomes := gm_outcomes m + 1\<rparr>) em"
  define ns where "ns = lm_actual_ns (bc_measurement (de_classification x))"
  define t where "t = (if be_latest_ns em0 < ns then ns else be_latest_ns em0)"
  define em1 where "em1 = em0\<lparr>be_latest_ns := t\<rparr>"
  define found where "found = Option.bind (wx_closed (de_transition x)) (\<lambda>w. find_by_window (bw_id w) (be_registry em1))"
  obtain out1 em2 where first: "(case found of None \<Rightarrow> ([], em1) | Some g \<Rightarrow> finalize_recovered bus g ns em1) = (out1, em2)"
    by fastforce
  obtain r2 out2 em3 where second: "apply_outcome bus x ns em2 = (r2, out2, em3)" by (metis prod_cases3)
  have "wc_enabled (be_configuration em)" "\<not> be_in_dispatch em"
    using assms(1,2) by (auto simp: at_rest_def plain_configuration_def)
  moreover have "be_configuration em0 = be_configuration em" "be_in_dispatch em0 = be_in_dispatch em"
    by (simp_all add: em0_def count_group_def)
  ultimately have "on_detection bus x em = (r2, out1 @ out2, em3)"
    unfolding on_detection_def Let_def em0_def[symmetric] ns_def[symmetric] t_def[symmetric] em1_def[symmetric] found_def[symmetric]
    using first second by simp
  then show ?thesis
    using that[OF em1_def[unfolded em0_def] first[unfolded found_def]] second assms(3) by simp
qed

text \<open>The state of the pair between measurements.\<close>

definition pair_ok :: "string \<Rightarrow> emitter_configuration \<Rightarrow> window_tracker \<Rightarrow> warning_emitter \<Rightarrow> bool" where
  "pair_ok rid c tk em \<longleftrightarrow>
     tk_runtime_id tk = rid \<and> bp_window_open (tk_policy tk) \<noteq> BlkNone \<and> at_rest c em \<and> recoveries_due em \<and>
     window_books rid (wc_min_severity c) tk (active_of em) (windows_of em)"

definition worth_recovering :: "emitter_configuration \<Rightarrow> window_transition \<Rightarrow> string option list" where
  "worth_recovering c tr =
     (case wx_closed tr of None \<Rightarrow> [] | Some w \<Rightarrow> if wc_min_severity c \<le> bw_peak_severity w then [Some (bw_id w)] else [])"

lemma pair_ok_rejected:
  assumes "at_rest c em" "plain_configuration c" "recoveries_due em" "warning_policy_evaluate (policy_of c) x \<noteq> Accepted"
    and "apply_outcome bus x ns em = (r, new, em')"
  shows "new = [] \<and> at_rest c em' \<and> recoveries_due em' \<and> active_of em' = active_of em \<and> windows_of em' = windows_of em"
  using apply_outcome_rejected[OF assms(1,2,4,5)] assms(1) recoveries_due_same[OF assms(3), of em']
  by (simp add: suppress_by_policy_def)

text \<open>A sample of a window that is open after it, whether it opened the window, extended it or passed quietly.\<close>

lemma pair_ok_in_window:
  assumes plain: "plain_configuration c" and ok: "emitter_ok rid' capacity out em" and rest: "at_rest c em" "recoveries_due em"
    and win: "active_or_opened (de_transition x) = Some (to_window None a)" "aw_id a = blocking_window_id rid (tk_next_id tk')"
    and live: "\<And>i. windows_of em (aw_id a) = Some i \<Longrightarrow>
        \<exists>g. active_of em i = Some g \<and> wg_state g \<noteq> GrpRecovered \<and> wg_window_id g = Some (aw_id a)"
    and run: "apply_outcome bus x ns em = (r, new, em')"
    and rejected: "\<not> (eo_severity (de_outcome x) \<noteq> BlkNone \<and> wc_min_severity c \<le> eo_severity (de_outcome x)) \<Longrightarrow>
        window_books rid (wc_min_severity c) tk' (active_of em) (windows_of em)"
    and accepted: "\<And>i g. eo_severity (de_outcome x) \<noteq> BlkNone \<Longrightarrow> wc_min_severity c \<le> eo_severity (de_outcome x) \<Longrightarrow>
        wg_state g \<noteq> GrpRecovered \<Longrightarrow> wg_window_id g = Some (aw_id a) \<Longrightarrow>
        (case windows_of em (aw_id a) of None \<Rightarrow> active_of em i = None | Some j \<Rightarrow> j = i) \<Longrightarrow>
        window_books rid (wc_min_severity c) tk' ((active_of em)(i \<mapsto> g)) ((windows_of em)(aw_id a \<mapsto> i))"
  shows "recoveries new = [] \<and> at_rest c em' \<and> recoveries_due em' \<and>
    window_books rid (wc_min_severity c) tk' (active_of em') (windows_of em')"
proof (cases "eo_severity (de_outcome x) \<noteq> BlkNone \<and> wc_min_severity c \<le> eo_severity (de_outcome x)")
  case True
  have id: "aw_id a = bw_id (to_window None a)" by (simp add: to_window_def)
  have bucket: "aw_id a \<noteq> no_window_key" by (simp add: win(2) window_id_not_bucket)
  from apply_outcome_accepted[OF ok rest plain win(1) id bucket True[THEN conjunct1] True[THEN conjunct2] live run]
  show ?thesis using accepted True by metis
next
  case False
  then have "warning_policy_evaluate (policy_of c) x \<noteq> Accepted" using policy_in_window[OF plain win(1)] by simp
  from pair_ok_rejected[OF rest(1) plain rest(2) this run] show ?thesis using rejected[OF False] by (simp add: recoveries_def)
qed

lemma above_none: "a \<le> s \<Longrightarrow> a \<noteq> BlkNone \<Longrightarrow> s \<noteq> BlkNone" for a s :: blocking_severity
  by (cases a; cases s) (simp_all add: blocking_order)

text \<open>The emitter and its books after an outcome that recovered nothing.\<close>

definition pair_settled ::
    "string \<Rightarrow> emitter_configuration \<Rightarrow> window_tracker \<Rightarrow> group_payload list \<Rightarrow> warning_emitter \<Rightarrow> bool" where
  "pair_settled rid c tk new em \<longleftrightarrow>
     recoveries new = [] \<and> at_rest c em \<and> recoveries_due em \<and>
     window_books rid (wc_min_severity c) tk (active_of em) (windows_of em)"

lemma outcome_opens:
  assumes plain: "plain_configuration c" and ok: "emitter_ok rid' capacity out em" and rest: "at_rest c em" "recoveries_due em"
    and books: "window_books rid (wc_min_severity c) tk (active_of em) (windows_of em)"
    and tk: "tk_runtime_id tk = rid" "bp_window_open (tk_policy tk) \<noteq> BlkNone"
    and track: "tracker_process (de_outcome x) tk = (de_transition x, tk')"
    and hot: "should_open_window (tk_policy tk) (eo_severity (de_outcome x))" and none: "tk_active tk = None"
    and run: "apply_outcome bus x ns em = (r, new, em')"
  shows "pair_settled rid c tk' new em'"
proof -
  let ?s = "eo_severity (de_outcome x)" and ?low = "wc_min_severity c"
  define a where "a = open_window (de_outcome x) tk"
  have win: "active_or_opened (de_transition x) = Some (to_window None a)"
    and tk': "tk_active tk' = Some a" "tk_next_id tk' = tk_next_id tk + 1" "tk_policy tk' = tk_policy tk"
    using track[symmetric] hot none by (simp_all add: tracker_process_def Let_def a_def active_or_opened_def)
  have a: "aw_id a = blocking_window_id rid (tk_next_id tk + 1)" "aw_peak_severity a = ?s"
    using tk(1) by (simp_all add: a_def open_window_def Let_def)
  have high: "bp_window_open (tk_policy tk) \<le> aw_peak_severity a" using hot a(2) by (simp add: should_open_window_def)
  have some: "?s \<noteq> BlkNone" using above_none[OF high tk(2)] a(2) by simp
  have fresh: "windows_of em (aw_id a) = None" using window_books_fresh[OF books] by (simp add: a(1))
  note opened = window_books_opened[OF books none tk' a(1) high]
  show ?thesis unfolding pair_settled_def
  proof (rule pair_ok_in_window[OF plain ok rest win _ _ run])
    show "aw_id a = blocking_window_id rid (tk_next_id tk')" by (simp add: a(1) tk'(2))
    show "\<exists>g. active_of em i = Some g \<and> wg_state g \<noteq> GrpRecovered \<and> wg_window_id g = Some (aw_id a)"
      if "windows_of em (aw_id a) = Some i" for i using that fresh by simp
    show "window_books rid ?low tk' (active_of em) (windows_of em)" if "\<not> (?s \<noteq> BlkNone \<and> ?low \<le> ?s)"
      using that some opened(1) a(2) by (simp add: not_le)
    show "window_books rid ?low tk' ((active_of em)(i \<mapsto> g)) ((windows_of em)(aw_id a \<mapsto> i))"
      if "?low \<le> ?s" "wg_state g \<noteq> GrpRecovered" "wg_window_id g = Some (aw_id a)"
        "case windows_of em (aw_id a) of None \<Rightarrow> active_of em i = None | Some j \<Rightarrow> j = i" for i g
      using opened(2)[of i g] that fresh a(2) by simp
  qed
qed

lemma outcome_stays:
  assumes plain: "plain_configuration c" and ok: "emitter_ok rid' capacity out em" and rest: "at_rest c em" "recoveries_due em"
    and books: "window_books rid (wc_min_severity c) tk (active_of em) (windows_of em)"
    and a0: "tk_active tk = Some a0"
    and tk': "tk_active tk' = Some a" "tk_next_id tk' = tk_next_id tk" "tk_policy tk' = tk_policy tk"
    and a: "aw_id a = aw_id a0" "aw_peak_severity a0 \<le> aw_peak_severity a"
    and win: "active_or_opened (de_transition x) = Some (to_window None a)"
    and quiet: "eo_severity (de_outcome x) = BlkNone \<or> eo_severity (de_outcome x) < wc_min_severity c \<Longrightarrow>
        aw_peak_severity a0 < wc_min_severity c \<Longrightarrow> aw_peak_severity a < wc_min_severity c"
    and loud: "wc_min_severity c \<le> eo_severity (de_outcome x) \<Longrightarrow> wc_min_severity c \<le> aw_peak_severity a"
    and run: "apply_outcome bus x ns em = (r, new, em')"
  shows "pair_settled rid c tk' new em'"
proof -
  let ?s = "eo_severity (de_outcome x)" and ?low = "wc_min_severity c"
  note stays = window_books_stays[OF books a0 tk' a]
  show ?thesis unfolding pair_settled_def
  proof (rule pair_ok_in_window[OF plain ok rest win _ _ run])
    show "aw_id a = blocking_window_id rid (tk_next_id tk')"
      using books unfolding window_books_open[OF a0] by (simp add: a(1) tk'(2))
    show "\<exists>g. active_of em i = Some g \<and> wg_state g \<noteq> GrpRecovered \<and> wg_window_id g = Some (aw_id a)"
      if "windows_of em (aw_id a) = Some i" for i using window_books_live[OF books a0] that by (simp add: a(1))
    show "window_books rid ?low tk' (active_of em) (windows_of em)" if "\<not> (?s \<noteq> BlkNone \<and> ?low \<le> ?s)"
    proof (rule stays(1))
      assume "windows_of em (aw_id a) = None"
      then have "aw_peak_severity a0 < ?low" using books unfolding window_books_open[OF a0] a(1) by blast
      then show "aw_peak_severity a < ?low" using quiet that by (auto simp: not_le)
    qed
    show "window_books rid ?low tk' ((active_of em)(i \<mapsto> g)) ((windows_of em)(aw_id a \<mapsto> i))"
      if "?low \<le> ?s" "wg_state g \<noteq> GrpRecovered" "wg_window_id g = Some (aw_id a)"
        "case windows_of em (aw_id a) of None \<Rightarrow> active_of em i = None | Some j \<Rightarrow> j = i" for i g
      using stays(2)[of g i] loud[OF that(1)] that(2-4) by simp
  qed
qed

lemma outcome_extends:
  assumes plain: "plain_configuration c" and ok: "emitter_ok rid' capacity out em" and rest: "at_rest c em" "recoveries_due em"
    and books: "window_books rid (wc_min_severity c) tk (active_of em) (windows_of em)"
    and tk: "bp_window_open (tk_policy tk) \<noteq> BlkNone"
    and track: "tracker_process (de_outcome x) tk = (de_transition x, tk')"
    and hot: "should_open_window (tk_policy tk) (eo_severity (de_outcome x))" and a0: "tk_active tk = Some a0"
    and run: "apply_outcome bus x ns em = (r, new, em')"
  shows "pair_settled rid c tk' new em'"
proof -
  let ?s = "eo_severity (de_outcome x)" and ?low = "wc_min_severity c"
  define a where "a = extend_window (de_outcome x) a0"
  have win: "active_or_opened (de_transition x) = Some (to_window None a)"
    and tk': "tk_active tk' = Some a" "tk_next_id tk' = tk_next_id tk" "tk_policy tk' = tk_policy tk"
    using track[symmetric] hot a0 by (simp_all add: tracker_process_def Let_def a_def active_or_opened_def)
  have a: "aw_id a = aw_id a0" and peak: "aw_peak_severity a = (if aw_peak_severity a0 < ?s then ?s else aw_peak_severity a0)"
    by (simp_all add: a_def extend_window_def Let_def)
  have up: "aw_peak_severity a0 \<le> aw_peak_severity a" "?s \<le> aw_peak_severity a" unfolding peak by auto
  have some: "?s \<noteq> BlkNone" using above_none[OF _ tk] hot by (simp add: should_open_window_def)
  show ?thesis
  proof (rule outcome_stays[OF plain ok rest books a0 tk' a up(1) win _ _ run])
    show "aw_peak_severity a < ?low" if "?s = BlkNone \<or> ?s < ?low" "aw_peak_severity a0 < ?low" using that some unfolding peak by simp
    show "?low \<le> aw_peak_severity a" if "?low \<le> ?s" by (rule order_trans[OF that up(2)])
  qed
qed

lemma outcome_quiet:
  assumes plain: "plain_configuration c" and ok: "emitter_ok rid' capacity out em" and rest: "at_rest c em" "recoveries_due em"
    and books: "window_books rid (wc_min_severity c) tk (active_of em) (windows_of em)"
    and track: "tracker_process (de_outcome x) tk = (de_transition x, tk')"
    and cold: "\<not> should_open_window (tk_policy tk) (eo_severity (de_outcome x))" and a0: "tk_active tk = Some a0"
    and stays: "\<not> bp_close_normals (tk_policy tk) \<le> aw_normals a0 + 1"
    and run: "apply_outcome bus x ns em = (r, new, em')"
  shows "pair_settled rid c tk' new em'"
proof -
  let ?s = "eo_severity (de_outcome x)" and ?low = "wc_min_severity c"
  define a where "a = a0\<lparr>aw_normals := aw_normals a0 + 1\<rparr>"
  have win: "active_or_opened (de_transition x) = Some (to_window None a)"
    and tk': "tk_active tk' = Some a" "tk_next_id tk' = tk_next_id tk" "tk_policy tk' = tk_policy tk"
    using track[symmetric] cold a0 stays by (simp_all add: tracker_process_def Let_def a_def active_or_opened_def)
  have a: "aw_id a = aw_id a0" "aw_peak_severity a = aw_peak_severity a0" by (simp_all add: a_def)
  have "bp_window_open (tk_policy tk) \<le> aw_peak_severity a" using books unfolding window_books_open[OF a0] a(2) by blast
  then have loud: "?low \<le> aw_peak_severity a" if "?low \<le> ?s" using that cold by (auto simp: should_open_window_def not_le)
  show ?thesis
    by (rule outcome_stays[OF plain ok rest books a0 tk' a(1) eq_refl[OF a(2)[symmetric]] win _ loud run]) (simp_all add: a(2))
qed

lemma outcome_closes:
  assumes plain: "plain_configuration c" and ok: "emitter_ok rid' capacity out em" and rest: "at_rest c em" "recoveries_due em"
    and books: "window_books rid (wc_min_severity c) tk (active_of em) (windows_of em)"
    and track: "tracker_process (de_outcome x) tk = (de_transition x, tk')"
    and cold: "\<not> should_open_window (tk_policy tk) (eo_severity (de_outcome x))" and a0: "tk_active tk = Some a0"
    and shut: "bp_close_normals (tk_policy tk) \<le> aw_normals a0 + 1"
    and first: "(case Option.bind (wx_closed (de_transition x)) (\<lambda>w. find_by_window (bw_id w) (be_registry em)) of
        None \<Rightarrow> ([], em) | Some g \<Rightarrow> finalize_recovered bus g ns em) = (out1, em2)"
  shows "at_rest c em2 \<and> recoveries_due em2 \<and> recoveries out1 = worth_recovering c (de_transition x) \<and>
    window_books rid (wc_min_severity c) tk' (active_of em2) (windows_of em2) \<and> active_or_opened (de_transition x) = None"
proof -
  let ?low = "wc_min_severity c"
  define w where "w = to_window (Some (aw_last_index a0, aw_last_ns a0)) (a0\<lparr>aw_normals := aw_normals a0 + 1\<rparr>)"
  have tr: "de_transition x = \<lparr>wx_opened = None, wx_extended = None, wx_closed = Some w, wx_active = None\<rparr>"
    and tk': "tk_active tk' = None" "tk_next_id tk' = tk_next_id tk"
    using track[symmetric] cold a0 shut by (simp_all add: tracker_process_def Let_def w_def tracker_close_def)
  have w: "bw_id w = aw_id a0" "bw_peak_severity w = aw_peak_severity a0" by (simp_all add: w_def to_window_def)
  have no: "active_or_opened (de_transition x) = None" by (simp add: tr active_or_opened_def)
  note closing = window_books_closed[OF books a0 tk'] and open' = books[unfolded window_books_open[OF a0]]
  show ?thesis
  proof (cases "windows_of em (aw_id a0)")
    case None
    then have "em2 = em" "out1 = []" using first by (simp_all add: tr find_by_window_views w)
    moreover have "aw_peak_severity a0 < ?low" using open' None by blast
    ultimately show ?thesis using closing(1)[OF None] rest no by (simp add: recoveries_def worth_recovering_def tr w not_le)
  next
    case found: (Some i)
    obtain g where g: "active_of em i = Some g" "wg_state g \<noteq> GrpRecovered" "wg_window_id g = Some (aw_id a0)"
      using window_books_live[OF books a0 found] by blast
    have fin: "finalize_recovered bus g ns em = (out1, em2)" using first g(1) found by (simp add: tr find_by_window_views w)
    have "life_ok rid' (active_of em) (gr_sequence (be_registry em)) out" using ok by (simp add: emitter_ok_def active_of_def)
    then have id: "wg_id g = i" using life_ok_get(1) g(1) by blast
    from finalize_recovered_views[OF rest g(1) id g(2) fin] obtain g1 where
      after: "at_rest c em2" "recoveries_due em2" "recoveries out1 = [wg_window_id g]" "windows_of em2 = windows_of em"
        "active_of em2 = (active_of em)(i \<mapsto> g1)" "wg_state g1 = GrpRecovered" "wg_window_id g1 = wg_window_id g" by blast
    have "?low \<le> aw_peak_severity a0" using open' found by blast
    then have "worth_recovering c (de_transition x) = [Some (aw_id a0)]" by (simp add: worth_recovering_def tr w)
    then show ?thesis using after closing(2)[OF found g(1) after(6,7)] g(3) no by simp
  qed
qed

lemma tracker_process_frame:
  assumes "tracker_process o' tk = (tr, tk')"
  shows "tk_runtime_id tk' = tk_runtime_id tk" "tk_policy tk' = tk_policy tk"
    "wx_closed tr \<noteq> None \<longleftrightarrow> \<not> should_open_window (tk_policy tk) (eo_severity o') \<and>
       (\<exists>a. tk_active tk = Some a \<and> bp_close_normals (tk_policy tk) \<le> aw_normals a + 1)"
proof -
  have "tk_runtime_id tk' = tk_runtime_id tk \<and> tk_policy tk' = tk_policy tk \<and>
    (wx_closed tr \<noteq> None \<longleftrightarrow> \<not> should_open_window (tk_policy tk) (eo_severity o') \<and>
       (\<exists>a. tk_active tk = Some a \<and> bp_close_normals (tk_policy tk) \<le> aw_normals a + 1))"
  proof (cases "tk_active tk")
    case None
    then show ?thesis using assms[symmetric] by (cases "should_open_window (tk_policy tk) (eo_severity o')") (simp_all add: tracker_process_def Let_def)
  next
    case (Some a)
    then show ?thesis using assms[symmetric]
      by (cases "should_open_window (tk_policy tk) (eo_severity o')"; cases "bp_close_normals (tk_policy tk) \<le> aw_normals a + 1")
        (simp_all add: tracker_process_def Let_def tracker_close_def)
  qed
  then show "tk_runtime_id tk' = tk_runtime_id tk" "tk_policy tk' = tk_policy tk"
    "wx_closed tr \<noteq> None \<longleftrightarrow> \<not> should_open_window (tk_policy tk) (eo_severity o') \<and>
       (\<exists>a. tk_active tk = Some a \<and> bp_close_normals (tk_policy tk) \<le> aw_normals a + 1)" by blast+
qed

lemma pair_ok_step:
  assumes plain: "plain_configuration c" and ok: "emitter_ok rid' capacity out em" and pair: "pair_ok rid c tk em"
    and track: "tracker_process (de_outcome x) tk = (de_transition x, tk')" and run: "on_detection bus x em = (r, new, em')"
  shows "pair_ok rid c tk' em' \<and> recoveries new = worth_recovering c (de_transition x)"
proof -
  let ?hot = "should_open_window (tk_policy tk) (eo_severity (de_outcome x))"
  have rest: "at_rest c em" "recoveries_due em" and books: "window_books rid (wc_min_severity c) tk (active_of em) (windows_of em)"
    and tk: "tk_runtime_id tk = rid" "bp_window_open (tk_policy tk) \<noteq> BlkNone"
    using pair by (simp_all add: pair_ok_def)
  note same = tracker_process_frame[OF track]
  obtain t em1 out1 em2 out2 ns where
    em1: "em1 = (count_group (\<lambda>m. m\<lparr>gm_outcomes := gm_outcomes m + 1\<rparr>) em)\<lparr>be_latest_ns := t\<rparr>" and
    first: "(case Option.bind (wx_closed (de_transition x)) (\<lambda>w. find_by_window (bw_id w) (be_registry em1)) of
        None \<Rightarrow> ([], em1) | Some g \<Rightarrow> finalize_recovered bus g ns em1) = (out1, em2)" and
    second: "apply_outcome bus x ns em2 = (r, out2, em')" and new: "new = out1 @ out2"
    by (rule on_detection_split[OF rest(1) plain run])
  have ok1: "emitter_ok rid' capacity out em1" using ok by (simp add: em1)
  have rest1: "at_rest c em1" "recoveries_due em1" using rest recoveries_due_same[OF rest(2), of em1] by (simp_all add: em1)
  have books1: "window_books rid (wc_min_severity c) tk (active_of em1) (windows_of em1)" using books by (simp add: em1)
  show ?thesis
  proof (cases "wx_closed (de_transition x) = None")
    case open': True
    then have two: "em2 = em1" "out1 = []" using first by simp_all
    note sec = second[unfolded two(1)]
    have "pair_settled rid c tk' out2 em'"
    proof (cases "tk_active tk")
      case None
      show ?thesis
      proof (cases ?hot)
        case True
        show ?thesis by (rule outcome_opens[OF plain ok1 rest1 books1 tk track True None sec])
      next
        case False
        then have tk': "tk' = tk" and tr: "active_or_opened (de_transition x) = None"
          using track[symmetric] None by (simp_all add: tracker_process_def active_or_opened_def)
        from pair_ok_rejected[OF rest1(1) plain rest1(2) policy_needs_window[OF plain tr] sec] books1
        show ?thesis by (simp add: pair_settled_def tk' recoveries_def)
      qed
    next
      case (Some a0)
      show ?thesis
      proof (cases ?hot)
        case True
        show ?thesis by (rule outcome_extends[OF plain ok1 rest1 books1 tk(2) track True Some sec])
      next
        case False
        then have "\<not> bp_close_normals (tk_policy tk) \<le> aw_normals a0 + 1" using same(3) open' Some by simp
        then show ?thesis by (rule outcome_quiet[OF plain ok1 rest1 books1 track False Some _ sec])
      qed
    qed
    then show ?thesis using two new open' tk same(1,2)
      by (simp add: pair_settled_def pair_ok_def worth_recovering_def recoveries_append)
  next
    case False
    then obtain a0 where cold: "\<not> ?hot" "tk_active tk = Some a0" "bp_close_normals (tk_policy tk) \<le> aw_normals a0 + 1"
      using same(3) by blast
    from outcome_closes[OF plain ok1 rest1 books1 track cold first]
    have mid: "at_rest c em2" "recoveries_due em2" "recoveries out1 = worth_recovering c (de_transition x)"
      "window_books rid (wc_min_severity c) tk' (active_of em2) (windows_of em2)" "active_or_opened (de_transition x) = None" by blast+
    from pair_ok_rejected[OF mid(1) plain mid(2) policy_needs_window[OF plain mid(5)] second]
    show ?thesis using new mid tk same(1,2) by (simp add: pair_ok_def recoveries_append recoveries_def)
  qed
qed

lemma closed_windows_Cons:
  "closed_windows (x # xs) = (case wx_closed (de_transition x) of None \<Rightarrow> [] | Some w \<Rightarrow> [w]) @ closed_windows xs"
  by (simp add: closed_windows_def List.map_filter_simps split: option.splits)

lemma watched_run_ok:
  assumes "plain_configuration c" and "watched_run bus bus' xs d em = (ys, out, d', em')"
    and "emitter_ok rid' capacity before em" and "pair_ok rid c (bd_windows d) em"
  shows "emitter_ok rid' capacity (before @ out) em' \<and> pair_ok rid c (bd_windows d') em' \<and>
    recoveries out = map (\<lambda>w. Some (bw_id w)) (filter (\<lambda>w. wc_min_severity c \<le> bw_peak_severity w) (closed_windows ys))"
  using assms(2-4)
proof (induction xs arbitrary: d em before ys out)
  case Nil
  then show ?case by (simp add: recoveries_def closed_windows_def List.map_filter_simps)
next
  case (Cons me xs)
  obtain m e where me: "me = (m, e)" by fastforce
  obtain x events d1 where proc: "detector_process bus m e d = (x, events, d1)" by (metis prod_cases3)
  obtain r out1 em1 where hear: "on_detection bus' x em = (r, out1, em1)" by (metis prod_cases3)
  obtain zs outs d2 em2 where rest: "watched_run bus bus' xs d1 em1 = (zs, outs, d2, em2)" by (metis prod_cases4)
  have eq: "ys = x # zs" "out = out1 @ outs" "d' = d2" "em' = em2" using Cons.prems(1) by (simp_all add: me proc hear rest)
  have ok1: "emitter_ok rid' capacity (before @ out1) em1" by (rule on_detection_ok[OF Cons.prems(2) hear])
  have step: "pair_ok rid c (bd_windows d1) em1" "recoveries out1 = worth_recovering c (de_transition x)"
    using pair_ok_step[OF assms(1) Cons.prems(2,3) detector_process_windows(1)[OF proc] hear] by simp_all
  from Cons.IH[of d1 em1 zs outs "before @ out1"] rest ok1 step(1)
  have IH: "emitter_ok rid' capacity ((before @ out1) @ outs) em2" "pair_ok rid c (bd_windows d2) em2"
    "recoveries outs = map (\<lambda>w. Some (bw_id w)) (filter (\<lambda>w. wc_min_severity c \<le> bw_peak_severity w) (closed_windows zs))"
    by (simp_all add: eq(3,4))
  then show ?case
    using step(2) by (simp add: eq recoveries_append closed_windows_Cons worth_recovering_def split: option.splits)
qed

text \<open>C35: The emitter bound to the detector recovers exactly the windows that matter, in order. Over any measurements, with outcomes outside
  windows and silent openings switched off, the recovered transitions it routes name the closed windows whose peak reached the
  emitter's severity; and afterwards any group not yet recovered is the group of the window the detector still has open.
\<close>

theorem recoveries_are_the_closed_windows:
  assumes "new_blocking_detector rid has_bus dc = Some d0" and "blocking_policy_valid (dc_thresholds dc)"
    and "new_emitter rid' has_bus' c = Some em0" and "plain_configuration c"
    and "watched_run bus bus' xs d0 em0 = (ys, out, d, em)"
  shows "recoveries out = map (\<lambda>w. Some (bw_id w)) (filter (\<lambda>w. wc_min_severity c \<le> bw_peak_severity w) (closed_windows ys)) \<and>
    (\<forall>i g. find_group i (be_registry em) = Some g \<longrightarrow> wg_state g = GrpRecovered \<or>
       (\<exists>a. tk_active (bd_windows d) = Some a \<and> wg_state g \<noteq> GrpExpired \<and> wg_window_id g = Some (aw_id a)))"
proof -
  have em0: "emitter_ok rid' (wc_recent_capacity c) [] em0"
    using assms(3)
    by (auto simp: new_emitter_def emitter_ok_def life_ok_def new_groups_def fresh_groups_def split: if_splits option.splits)
  have "pair_ok rid c (bd_windows d0) em0"
    using assms(1-3)
    by (auto simp: new_blocking_detector_def new_tracker_of_def fresh_tracker_def new_emitter_def new_groups_def fresh_groups_def
        new_inflight_def pair_ok_def at_rest_def recoveries_due_def transitions_dedup_def window_books_def active_of_def windows_of_def
        blocking_policy_valid_def split: if_splits option.splits)
  from watched_run_ok[OF assms(4,5) em0 this]
  have ok: "emitter_ok rid' (wc_recent_capacity c) out em" "pair_ok rid c (bd_windows d) em"
    and rec: "recoveries out = map (\<lambda>w. Some (bw_id w)) (filter (\<lambda>w. wc_min_severity c \<le> bw_peak_severity w) (closed_windows ys))"
    by simp_all
  have books: "window_books rid (wc_min_severity c) (bd_windows d) (active_of em) (windows_of em)" using ok(2) by (simp add: pair_ok_def)
  have life: "life_ok rid' (active_of em) (gr_sequence (be_registry em)) out" using ok(1) by (simp add: emitter_ok_def active_of_def)
  have "\<exists>a. tk_active (bd_windows d) = Some a \<and> wg_state g \<noteq> GrpExpired \<and> wg_window_id g = Some (aw_id a)"
    if g: "active_of em i = Some g" "wg_state g \<noteq> GrpRecovered" for i g
  proof (cases "tk_active (bd_windows d)")
    case None
    then show ?thesis using books g by (simp add: window_books_shut)
  next
    case (Some a)
    have "windows_of em (aw_id a) = Some i" using books g unfolding window_books_open[OF Some] by blast
    from window_books_live[OF books Some this] g(1) show ?thesis using Some life_ok_get(3)[OF life g(1)] by auto
  qed
  then show ?thesis using rec by (auto simp: find_group_def active_of_def)
qed

text \<open>A critical measurement and two quiet ones, which close its window again.\<close>

definition critical_sample :: "lag_measurement \<times> lag_evaluation" where
  "critical_sample =
     (calculate_lag 0 900 1 1 ''r'', \<lparr>le_severity = LagCritical, le_breached = True, le_lag_ns = 899, le_threshold_ns = 500\<rparr>)"

definition quiet_sample :: "lag_measurement \<times> lag_evaluation" where
  "quiet_sample =
     (calculate_lag 0 1 1 1 ''r'', \<lparr>le_severity = LagNormal, le_breached = False, le_lag_ns = 0, le_threshold_ns = 0\<rparr>)"

definition silent_configuration :: emitter_configuration where
  "silent_configuration = default_emitter_configuration\<lparr>wc_emit_events := False\<rparr>"

definition after_recovery :: "detection list \<times> group_payload list \<times> blocking_detector \<times> warning_emitter" where
  "after_recovery =
     watched_run (\<lambda>n e. None) (\<lambda>n e. None) [critical_sample, quiet_sample, quiet_sample]
       (the (new_blocking_detector ''r'' False default_detector_configuration)) (the (new_emitter ''r'' False silent_configuration))"

lemma examples_built:
  "new_blocking_detector ''r'' False default_detector_configuration = Some (the (new_blocking_detector ''r'' False default_detector_configuration))"
  "new_emitter ''r'' False silent_configuration = Some (the (new_emitter ''r'' False silent_configuration))"
  by (simp_all add: new_blocking_detector_def default_detector_configuration_def new_tracker_of_def new_cooldowns_def new_inflight_def
      new_emitter_def default_emitter_configuration_def silent_configuration_def emitter_configuration_valid_def new_groups_def)

lemma example_windows:
  "map bw_id (filter (\<lambda>w. wc_min_severity silent_configuration \<le> bw_peak_severity w) (closed_windows (fst after_recovery))) = [''r:bw:1'']"
  by code_simp

lemma example_plain: "blocking_policy_valid (dc_thresholds default_detector_configuration)" "plain_configuration silent_configuration"
  by code_simp+

theorem recoveries_are_the_closed_windows_witness:
  "\<exists>d0 em0 ys out d em. new_blocking_detector ''r'' False default_detector_configuration = Some d0 \<and>
     new_emitter ''r'' False silent_configuration = Some em0 \<and>
     watched_run (\<lambda>n e. None) (\<lambda>n e. None) [critical_sample, quiet_sample, quiet_sample] d0 em0 = (ys, out, d, em) \<and>
     recoveries out = [Some ''r:bw:1'']"
proof -
  obtain ys out d em where run: "after_recovery = (ys, out, d, em)" by (metis prod_cases4)
  from recoveries_are_the_closed_windows[OF examples_built(1) example_plain(1) examples_built(2) example_plain(2) run[unfolded after_recovery_def]]
  have "recoveries out = map (\<lambda>w. Some (bw_id w)) (filter (\<lambda>w. wc_min_severity silent_configuration \<le> bw_peak_severity w) (closed_windows ys))"
    by (rule conjunct1)
  also have "\<dots> = map Some (map bw_id (filter (\<lambda>w. wc_min_severity silent_configuration \<le> bw_peak_severity w) (closed_windows (fst after_recovery))))"
    by (simp add: run)
  finally have "recoveries out = [Some ''r:bw:1'']" unfolding example_windows by simp
  then show ?thesis using examples_built run unfolding after_recovery_def by blast
qed

section \<open>What a change of the history size does\<close>

text \<open>C36: A detector reconfigured to another history size numbers its windows from one again, and a freeze whose window takes the number of one
  that has recovered is lost on the emitter. The window it opens has the first identifier; if the emitter still holds a recovered
  group under that identifier, the outcome routes nothing and leaves the registry of groups as it was.
\<close>

theorem renumbered_windows_are_ignored:
  assumes "dc_history_capacity c' \<noteq> dc_history_capacity (bd_configuration d)"
    and "detector_process bus m e (detector_reconfigure (Some c') d) = (x, events, d')"
    and "should_open_window (dc_thresholds c') (eo_severity (de_outcome x))"
    and "find_by_window (blocking_window_id (bd_runtime_id d) 1) (be_registry em) = Some g" and "wg_state g = GrpRecovered"
    and "on_detection bus' x em = (r, out, em')"
  shows "map_option bw_id (wx_opened (de_transition x)) = Some (blocking_window_id (bd_runtime_id d) 1) \<and>
    r = None \<and> out = [] \<and> be_registry em' = be_registry em"
proof -
  let ?tk = "fresh_tracker (dc_thresholds c') (bd_runtime_id d) (nat (dc_history_capacity c'))"
  have tk: "bd_windows (detector_reconfigure (Some c') d) = ?tk"
    using assms(1) by (simp add: detector_reconfigure_def Let_def count_blocking_def)
  define w where "w = to_window None (open_window (de_outcome x) ?tk)"
  have tr: "de_transition x = \<lparr>wx_opened = Some w, wx_extended = None, wx_closed = None, wx_active = Some w\<rparr>"
    using detector_process_windows(1)[OF assms(2), symmetric] assms(3) unfolding tk
    by (simp add: tracker_process_def Let_def w_def fresh_tracker_def)
  have id: "bw_id w = blocking_window_id (bd_runtime_id d) 1"
    by (simp add: w_def to_window_def open_window_def Let_def fresh_tracker_def)
  have key: "window_key x = blocking_window_id (bd_runtime_id d) 1"
    by (simp add: window_key_def effective_window_id_def active_or_opened_def tr id)
  have ignored: "apply_outcome bus' x ns em1 = (None, [], suppress_by_policy em1)" if "be_registry em1 = be_registry em" for ns em1
    using assms(4,5) that by (simp add: apply_outcome_def Let_def key group_is_terminal_def)
  have "r = None \<and> out = [] \<and> be_registry em' = be_registry em"
    using assms(6) ignored by (auto simp: on_detection_def Let_def tr count_group_def suppress_by_policy_def split: if_splits)
  then show ?thesis using tr id by simp
qed

definition shorter_history :: detector_configuration where
  "shorter_history = default_detector_configuration\<lparr>dc_history_capacity := 32\<rparr>"

lemma example_renumbered:
  "dc_history_capacity shorter_history \<noteq> dc_history_capacity (bd_configuration (fst (snd (snd after_recovery))))"
  "should_open_window (dc_thresholds shorter_history) (eo_severity (de_outcome (fst
     (detector_process (\<lambda>n e. None) (fst critical_sample) (snd critical_sample)
       (detector_reconfigure (Some shorter_history) (fst (snd (snd after_recovery))))))))"
  "map_option wg_state (find_by_window (blocking_window_id (bd_runtime_id (fst (snd (snd after_recovery)))) 1)
     (be_registry (snd (snd (snd after_recovery))))) = Some GrpRecovered"
  by code_simp+

theorem renumbered_windows_are_ignored_witness:
  "\<exists>ys before d em x events d' r out em'. after_recovery = (ys, before, d, em) \<and>
     detector_process (\<lambda>n e. None) (fst critical_sample) (snd critical_sample) (detector_reconfigure (Some shorter_history) d) = (x, events, d') \<and>
     on_detection (\<lambda>n e. None) x em = (r, out, em') \<and> out = [] \<and> be_registry em' = be_registry em"
proof -
  obtain ys before d em where run: "after_recovery = (ys, before, d, em)" by (metis prod_cases4)
  obtain x events d' where next': "detector_process (\<lambda>n e. None) (fst critical_sample) (snd critical_sample)
      (detector_reconfigure (Some shorter_history) d) = (x, events, d')" by (metis prod_cases3)
  obtain r out em' where hear: "on_detection (\<lambda>n e. None) x em = (r, out, em')" by (metis prod_cases3)
  note facts = example_renumbered[unfolded run fst_conv snd_conv next']
  obtain g where g: "find_by_window (blocking_window_id (bd_runtime_id d) 1) (be_registry em) = Some g" "wg_state g = GrpRecovered"
    using facts(3) by auto
  from renumbered_windows_are_ignored[OF facts(1) next' facts(2) g hear] show ?thesis using run next' hear by blast
qed

end
