(* ===== verification/Spec2Isabelle.thy ===== *)
theory Spec2Isabelle
  imports StateViews ReplayBuffer EventQueue Timeline Resilience PlaybackSeek Backpressure Sampling Memory MetricsStore WarningBooks BlockingWatch
begin

text \<open>
  AsyncViz watches the tasks of an asyncio program. Instrumentation turns what happens to a task
  into typed events; the event queue numbers and dispatches them; the state store reduces them into
  a registry of tasks; a replay buffer and a timeline engine listen to the store; and the dashboard
  answers reconnecting clients from the buffer. This development models that path, from the queue's
  \<open>publish\<close> to the handshake's decision, with the code's own states, operations and error paths. Two
  more parts stand beside it: the isolation of failing subsystems, and the playback of a recording
  (reading it back, rebuilding states, the playback engine).

  \<^bold>\<open>Theories and the code they model\<close> (paths below \<open>src/asyncviz/\<close>)

  \<^item> \<open>Prelude\<close>: Python's dictionaries as association lists in insertion order, dictionaries of sets,
    \<open>deque(maxlen=n)\<close> as \<open>ring_push\<close>, and the interface \<open>ring_log\<close> every bounded log provides.
  \<^item> \<open>PyValues\<close>: Python's conversions of parsed JSON values, which the readers of payloads share.
  \<^item> \<open>Events\<close>: \<open>runtime/events/models/{enums,base,task}.py\<close>. The envelope of an event and the seven
    task events; every other event is \<open>OtherEvent\<close> with its type string.
  \<^item> \<open>Lineage\<close>: \<open>runtime/lineage/{tracker,ancestry,graph,models}.py\<close>. The parent, children and
    ancestor maps of \<open>LineageTracker\<close>, the ancestor walk and the breadth-first descent.
  \<^item> \<open>Tasks\<close>: \<open>runtime/tasks/*.py\<close>. The lifecycle table, \<open>RuntimeTask\<close>, \<open>TaskIndex\<close>,
    \<open>RegistryMetrics\<close> and \<open>TaskRegistry\<close> with its event handler.
  \<^item> \<open>Reducers\<close>: \<open>runtime/state/reducers/*.py\<close>. Validation, \<open>TransitionHistory\<close>, projection
    invalidation, reducer metrics and registry, and the seven reducers.
  \<^item> \<open>StateStore\<close>: \<open>runtime/state/{normalization,reconciliation,metrics,subscriptions,store}.py\<close>.
    \<open>RuntimeStateStore.apply\<close> with every branch, \<open>rebuild\<close>, and the lifecycle automaton it implements.
  \<^item> \<open>StateViews\<close>: \<open>runtime/state/{indexes,projections,queries,snapshots,models}.py\<close>. What the store
    shows: the index view, three projections and the runtime snapshot.
  \<^item> \<open>ReplayBuffer\<close>: \<open>runtime/replay/*.py\<close>, \<open>from_dict\<close> with its registry of event classes in
    \<open>runtime/events/models/serialization.py\<close>, and \<open>dashboard/websocket/handshake.py\<close>. The frame ring
    with its index, the checkpoint ring, \<open>EventReplayBuffer\<close>, what it feeds back to itself when it
    replays into the store it is bound to, and the handshake decision.
  \<^item> \<open>EventQueue\<close>: \<open>runtime/queue/*.py\<close>, \<open>runtime/events/subscriber.py\<close>, \<open>runtime/clock/sequence.py\<close>.
    The queue as a step relation over its interleaved producers, callbacks and dispatcher.
  \<^item> \<open>Timeline\<close>: \<open>runtime/timeline/*.py\<close>. The segment engine, its snapshot, tracks and reconstruction.
  \<^item> \<open>Breaker\<close>: \<open>runtime/resilience/{circuit_breaker,failure_classifier,isolation_configuration}.py\<close>
    and the models. The circuit breaker, the policies and the classification of exceptions.
  \<^item> \<open>Resilience\<close>: the rest of \<open>runtime/resilience\<close>. Failure domains with quarantine, boundaries,
    the five adapters, recovery supervisors, degradation, the backpressure bridge, the integrity
    checks and \<open>RuntimeFailureManager\<close>.
  \<^item> \<open>Recording\<close>: \<open>replay/loading/*.py\<close> and \<open>VirtualRuntimeState\<close>. Indexes, cursors, windows,
    filters, the streaming iterator, seeks and the reconstruction of a state.
  \<^item> \<open>Playback\<close>: \<open>replay/runtime/*.py\<close>. The virtual clock, scheduler, reducers, checkpoints, guards,
    router, the engine, its seeks, and the playback loop as a function of the frames and of the
    controls that other coroutines run at each of its awaits. \<open>PlaybackLoop\<close> holds the theorems about
    whole playbacks, \<open>PlaybackSeek\<close> those about seeking, pacing and well-formed engines.
  \<^item> \<open>Pressure\<close>, \<open>Overload\<close>, \<open>Backpressure\<close>: \<open>runtime/backpressure\<close>. The bounded queue and its drop
    policies, the channel, the budget and the LRU view; the overload detector, the policy and the
    adaptive controller; the websocket, recorder and reducer adapters and the facade over all of it.
  \<^item> \<open>Caches\<close>: the bounded caches of \<open>runtime/memory\<close> (reducer results, replay frames, projections) and
    the interface \<open>lru_cache\<close>, which the topology view of \<open>Pressure\<close> provides too.
  \<^item> \<open>Sampling\<close>: \<open>runtime/sampling\<close>. Priorities, the hash buckets, the policies, the budget, the
    sampler, its controllers, the replay bookkeeper and the integrity check.
  \<^item> \<open>Memory\<close>: the rest of \<open>runtime/memory\<close>. The interner, compact events and frames, deduplication,
    the object and buffer pools, the bounded topology graph and the optimizer that owns them.
  \<^item> \<open>Metrics\<close>, \<open>MetricsStore\<close>: \<open>runtime/metrics\<close>. Counters, histograms, durations, rate meters, the aggregator,
    its projections and its snapshot; then the aggregator bound to the state store.
  \<^item> \<open>Warnings\<close>, \<open>WarningBooks\<close>: \<open>runtime/warnings\<close>. Lifecycles, deduplication, the eight detectors, the manager
    and its snapshot; then what holds of a manager over any sequence of calls.
  \<^item> \<open>LagMonitor\<close>, \<open>Blocking\<close>: \<open>runtime/monitoring/{event_loop,blocking}\<close>. Lag samples, thresholds, statistics,
    the cadence loop and its monitor; then classification, escalation, blocking windows, cooldowns and the detector.
  \<^item> \<open>BlockingGroups\<close>, \<open>BlockingWatch\<close>: \<open>runtime/warnings/blocking\<close>. Warning groups, their registry, the policy and
    the emitter with its payloads and their decoder; then the detector and the emitter bound to it as a pair.
  \<^item> This theory: the properties that span the store, the replay buffer and the queue.

  \<^bold>\<open>How the model corresponds to the code\<close>

  A class is a record with a field for each attribute (the locks excepted: every modelled operation
  runs under the lock of its object), a method a function from the record to the updated record and
  its result, an enumeration a datatype. An exception is the left side of a sum, or \<open>None\<close> where
  there is only one. Dictionaries keep Python's insertion order; sets are HOL sets, and where the
  code iterates one, the order is an argument. Python's integers are \<open>int\<close>, sequence numbers and
  nanoseconds included; counters are \<open>nat\<close>, except where the code subtracts and the absence of a
  negative value is what is proved. Wall-clock seconds and durations are real numbers: the rounding
  of floats is not modelled. The readings of the clock, fresh identifiers, pydantic's JSON dump of
  an event and its validation of one as a given class are arguments. A listener is represented by whether it raises; the changes
  it is given are part of the result of the operation that calls it.

  Loops are structural recursion or terminate by a measure, so no fuel is needed: the ancestor walk
  decreases the nodes not yet visited and stops at the configured depth as the code does; the
  breadth-first descent decreases the set of unseen tasks; the playback loop runs over its finite
  stream, and waiting for an event that never comes is the outcome \<open>Blocked\<close>.

  The files of a recording are arguments: a chunk is its manifest record with the frames its lines
  decode to. A sink's push, a reducer and a recovery hook succeed or raise as an argument says.

  \<^bold>\<open>What the lemmas show\<close>

  \<^item> Invariants: the registry's counters, buckets and lineage mirror (\<open>registry_ok\<close>, from which the
    counter, listing and ancestry properties follow); the tracker's forest (\<open>lineage_ok\<close>); the
    store's reconciliation window and history (\<open>store_ok\<close>); the queue's channel, accounting and order
    (\<open>channel_ok\<close>, \<open>conserved\<close>, \<open>in_order\<close>); the timeline's segments (\<open>timeline_ok\<close>, \<open>timed\<close>); the
    breakers and the failure manager (\<open>breaker_ok\<close>, \<open>manager_ok\<close>); the engine's checkpoints
    (\<open>ring_ok\<close>) and its well-formedness under everything a caller can do (\<open>engine_wf\<close>).
  \<^item> Refinements: the store implements a three-line lifecycle automaton; the replay buffer's content
    is the tail of the store's announcements; the timeline engine shows the store's state of every
    task; a breaker is a count of the failures in a window.
  \<^item> Playback: no interleaving of controls makes it skip, repeat or reorder a frame; left alone it
    finishes; seeking to a target restores the state that playing to it gives; virtual time follows
    the controls to within a nanosecond each, but for the time between the two readings of a speed
    change. These hold for reducers that leave a frame's position in the state (\<open>reducers_sound\<close>), which
    the default ones and domain reducers over them are shown to do.
  \<^item> Overload protection: what each drop policy keeps, as a function of the offers alone; how often the
    state can change in a given time; recovery once the pressure is gone; the gap markers cut the list
    of dropped events into consecutive pieces; the topology view is an LRU cache.
  \<^item> Sampling and memory: every decision passes the layer's own integrity check; a string is canonical
    from its first use or never; no pooled object has two holders; the bounded graph never dangles.
  \<^item> Metrics and warnings: the counters are the store's task counts; a rate meter is a sliding window; every
    warning emitted is open, resolved or expired exactly once, never changes its severity, and closes when
    nobody observes it any more.
  \<^item> Blocking: the cadence accounts for every deadline; windows are the clusters of violations; a warning group lives
    in one direction, and the emitter recovers exactly the closed windows that reached its severity.
  \<^item> Round trips: a decoded warning payload is what was built; rebuilding a store from the applied events, or from the replay buffer, reproduces it.
  \<^item> Completeness: a replay hit returns exactly the missed events, and the handshake hands over without
    gap or overlap.
  \<^item> Divergences: events lost by publishing from two threads, checkpoint batches with a gap, stale
    ancestor chains, phantom spans, breakers wedged by cancelled probes, cursors left behind by a
    seek, snapshots applied twice, a replay log doubled by its own replay, playback refused after a seek, seeks half undone by the loop, a
    controller that hears nothing after its reset, removed sources that keep counting, cancellations counted twice after a silent window, freezes lost on the
    emitter after window identifiers start again, and the places where the code and its documentation disagree.

  The locale \<open>ring_log\<close> is interpreted on the transition history (\<open>history_log\<close>), the frame ring
  (\<open>frame_log\<close>) and the checkpoint ring (\<open>checkpoint_log\<close>), and the ring facts used for them come from it.
  \<open>lru_cache\<close> is interpreted on the reducer cache, the frame cache and the topology view.

  \<^bold>\<open>Not modelled\<close>

  The operating system's clock, pydantic's validation, JSON, logging, websockets and files; the
  capture of stacks, the opt-in trace rings and the binding of the monitor to another thread's loop; the query facades, which
  forward; the writing, encoding and repair of recordings, and the
  control, seek and speed services layered over the playback engine; the dashboard's routes, the
  command line and the instrumentation that patches asyncio. The lag sampler is the monitor's own,
  which does not raise. Constructors take the parts in effect, after the code's \<open>x or Default()\<close>, which
  also replaces a passed part that is empty. Locks are not modelled, so calls from
  several threads are interleaved at whole operations, or at awaits where the code awaits. A start of the queue while
  a stop is being awaited is excluded; the loop is assumed to run scheduled callbacks in the order
  they were scheduled, as asyncio documents.
\<close>

section \<open>The store feeds the replay buffer\<close>

text \<open>The frames the bound buffer appends for a list of notified changes.\<close>

definition frames_of ::
  "(runtime_event \<Rightarrow> 'p) \<Rightarrow> (runtime_event \<Rightarrow> task_id option \<times> task_id option) \<Rightarrow> state_change list
     \<Rightarrow> 'p replay_frame list" where
  "frames_of dump attrs cs =
     List.map_filter (\<lambda>c. map_option (frame_from_event dump attrs (sc_event c)) (sc_sequence c)) cs"

lemma changes_in_buffer:
  "fold (on_state_change dump attrs) cs b =
     fold append_frame (frames_of dump attrs cs) b"
  by (induction cs arbitrary: b)
    (auto simp: frames_of_def on_state_change_def append_event_def List.map_filter_def split: option.split)

lemma sequences_of_changes:
  "map fr_sequence (frames_of dump attrs cs) = notified_sequences cs"
  by (induction cs)
    (auto simp: frames_of_def notified_sequences_def List.map_filter_def frame_from_event_def Let_def split: option.split)

lemma frames_of_sorted:
  assumes "fresh_store depth window limit = Some st0"
  shows "sorted_wrt before (frames_of dump attrs (changes its st0))"
    and "\<And>f. f \<in> set (frames_of dump attrs (changes its st0)) \<Longrightarrow> 0 < fr_sequence f"
proof -
  have s: "sorted_wrt (<) (0 # notified_sequences (changes its st0))"
    using store_ok_after[OF assms] by (simp add: store_ok_def)
  then have "sorted_wrt (<) (map fr_sequence (frames_of dump attrs (changes its st0)))"
    by (simp add: sequences_of_changes)
  then show "sorted_wrt before (frames_of dump attrs (changes its st0))"
    by (simp add: sorted_wrt_map)
  show "0 < fr_sequence f" if "f \<in> set (frames_of dump attrs (changes its st0))" for f
    using s that sequences_of_changes[of dump attrs "changes its st0"]
    by (metis image_eqI list.set_map sorted_wrt.simps(2))
qed

lemma length_accepted_items: "length (accepted_items its ds) \<le> length its"
  by (induction its ds rule: accepted_items.induct) auto

lemma accepted_items_subset: "set (accepted_items its ds) \<subseteq> set its"
  by (induction its ds rule: accepted_items.induct) auto

lemma frames_of_kept:
  assumes "map (\<lambda>c. (sc_event c, sc_sequence c)) cs = map (\<lambda>it. (si_event it, si_sequence it)) kept"
    and "\<forall>it\<in>set kept. si_sequence it \<noteq> None"
  shows "frames_of dump attrs cs
    = map (\<lambda>it. frame_from_event dump attrs (si_event it) (the (si_sequence it))) kept"
  using assms
proof (induction kept arbitrary: cs)
  case Nil
  then show ?case by (simp add: frames_of_def List.map_filter_def)
next
  case (Cons it kept)
  then obtain c cs' where "cs = c # cs'" by (cases cs) auto
  then show ?case using Cons by (auto simp: frames_of_def List.map_filter_def)
qed

lemma load_frames_kept:
  assumes "\<forall>it\<in>set kept. event_from_dict validate (dump (si_event it)) = Some (si_event it)"
    and "\<forall>it\<in>set kept. si_sequence it \<noteq> None"
  shows "load_frames validate (map (\<lambda>it. (si_now it, si_later it)) kept)
    (map (\<lambda>it. frame_from_event dump attrs (si_event it) (the (si_sequence it))) kept) = Some kept"
proof -
  have payload: "fr_payload (frame_from_event dump attrs e n) = dump e"
    "fr_sequence (frame_from_event dump attrs e n) = n" for e n
    by (simp_all add: frame_from_event_def Let_def)
  have "map (\<lambda>(f, (now, later)).
             \<lparr>si_now = now, si_later = later, si_event = the (event_from_dict validate (fr_payload f)),
              si_sequence = Some (fr_sequence f)\<rparr>)
      (zip (map (\<lambda>it. frame_from_event dump attrs (si_event it) (the (si_sequence it))) kept)
           (map (\<lambda>it. (si_now it, si_later it)) kept)) = kept"
    using assms by (induction kept) (auto simp: payload)
  moreover have "\<not> (\<exists>f\<in>set (map (\<lambda>it. frame_from_event dump attrs (si_event it) (the (si_sequence it))) kept).
      event_from_dict validate (fr_payload f) = None)"
    using assms(1) by (auto simp: payload)
  ultimately show ?thesis by (simp add: load_frames_def)
qed

text \<open>The frames a bound buffer holds after changes were announced to it, sorted or not.\<close>

lemma frames_refed:
  assumes "new_buffer capacity cps = Some b0" and "b = fold append_frame fs b0" "sorted_wrt before fs"
  shows "fq_frames (rb_retention (fold append_frame gs b)) = take_last (nat capacity) (fs @ gs)"
proof -
  have m: "retention_matches (rb_retention b) fs"
    using retention_matches_fold[OF retention_matches_new(1)[OF assms(1)]] assms(2,3) by simp
  have cap: "fq_capacity (rb_retention b) = nat capacity"
    using retention_matches_new(2)[OF assms(1)] assms(2) by (simp add: capacity_fold)
  have fits: "frame_log.fits (rb_retention b)"
    using m by (simp add: retention_matches_def frame_log.fits_def)
  have "rb_retention (fold append_frame gs b) = fold (\<lambda>f q. fst (retention_append f q)) gs (rb_retention b)"
    by (induction gs arbitrary: b) simp_all
  then have "fq_frames (rb_retention (fold append_frame gs b))
      = take_last (nat capacity) (fq_frames (rb_retention b) @ gs)"
    using frame_log.items_fold[OF fits, of gs] cap by simp
  then show ?thesis using m cap by (simp add: retention_matches_def take_last_idem_append)
qed

section \<open>Properties that span components\<close>

text \<open>C2: The replay log is faithful to the store. Whatever stream the store is fed, the buffer bound
  to it holds exactly the last \<open>capacity\<close> sequenced changes in strictly increasing sequence order,
  and a client asking for everything after a positive sequence either gets exactly the applied
  events after it, or is told that it missed the window.\<close>

theorem replay_log_follows_the_store:
  assumes "fresh_store depth window limit = Some st0" and "new_buffer capacity cps = Some b0"
    and "b = fold (on_state_change dump attrs) (changes its st0) b0"
    and "0 < since"
    and "w = rbt_window (snd (replay_since since wc b))"
  shows "fq_frames (rb_retention b) = take_last (nat capacity) (frames_of dump attrs (changes its st0)) \<and>
         sorted_wrt before (fq_frames (rb_retention b)) \<and>
         (rw_hit w \<longrightarrow> map fr_sequence (rw_frames w)
            = filter (\<lambda>n. since < n) (notified_sequences (changes its st0))) \<and>
         (\<not> rw_hit w \<longrightarrow> rw_frames w = [])"
proof -
  let ?fs = "frames_of dump attrs (changes its st0)"
  have b: "b = fold append_frame ?fs b0" using assms(3) by (simp add: changes_in_buffer)
  have sorted: "sorted_wrt before ?fs" by (rule frames_of_sorted[OF assms(1)])
  have m: "retention_matches (rb_retention b) ?fs"
    using retention_matches_fold[OF retention_matches_new(1)[OF assms(2)]] sorted b by simp
  have frames: "fq_frames (rb_retention b) = take_last (nat capacity) ?fs"
    unfolding b by (rule frames_after[OF assms(2) sorted])
  have hit: "rw_hit w = covers (rb_retention b) since"
    "rw_frames w = (if covers (rb_retention b) since then retention_since (rb_retention b) since else [])"
    by (simp_all add: assms(5) replay_since_def Let_def build_batch_def build_window_def)
  have "map fr_sequence (filter (\<lambda>f. since < fr_sequence f) ?fs)
      = filter (\<lambda>n. since < n) (notified_sequences (changes its st0))"
    unfolding sequences_of_changes[of dump attrs, symmetric] by (simp add: filter_map o_def)
  then show ?thesis
    using hit covered_is_complete[OF m sorted _ assms(4)] frames sorted
    by (simp add: sorted_wrt_take_last)
qed

theorem replay_log_follows_the_store_witness:
  "\<exists>st0 b0. fresh_store 8192 4096 1024 = Some st0 \<and> new_buffer 16 4 = Some b0 \<and>
     sorted_wrt before (fq_frames (rb_retention (fold (on_state_change id (\<lambda>_. (None, None)))
       (changes [sample_item ''e1'' 5 (OtherEvent ''x''), sample_item ''e2'' 3 (OtherEvent ''x'')] st0) b0)))"
proof -
  obtain st0 where st0: "fresh_store 8192 4096 1024 = Some st0"
    using fresh_store_exists[of 4096 1024 8192] by auto
  obtain b0 :: "runtime_event replay_buffer" where b0: "new_buffer 16 4 = Some b0"
    using new_buffer_exists[of 16 4] by auto
  show ?thesis
    using st0 b0 replay_log_follows_the_store[OF st0 b0 refl zero_less_one refl, THEN conjunct2, THEN conjunct1]
    by blast
qed

text \<open>The retained log is not a superset of what is broadcast. A fresh task event the lifecycle
  rejects is broadcast by the bridge with its sequence but announced to no listener: the buffer is
  exactly as before, and a client that received the event and reconnects from its sequence finds no
  coverage and falls back to a full snapshot although it missed nothing.\<close>

theorem rejected_event_is_not_retained:
  assumes "fresh_store depth window limit = Some st0" and "new_buffer capacity cps = Some b0"
    and "admits (ss_policy (after its st0)) (si_event it) (Some n)" and "si_sequence it = Some n"
    and "\<not> lifecycle_accepts (ev_body (si_event it)) (store_states (after its st0))"
    and "b = fold (on_state_change dump attrs) (changes its st0) b0"
  shows "changes (its @ [it]) st0 = changes its st0 \<and>
         hd_mode (snd (evaluate_handshake
            (Some (fold (on_state_change dump attrs) (changes (its @ [it]) st0) b0)) n current))
           = SNAPSHOT_FALLBACK"
proof -
  let ?st = "after its st0"
  have ok: "store_ok ?st (changes its st0)" by (rule store_ok_after[OF assms(1)])
  then have base: "base_ok ?st" and pol: "policy_matches (ss_policy ?st) (changes its st0)"
    by (simp_all add: store_ok_def)
  have dropped: "snd (snd (apply_item it ?st)) = []"
    using store_apply_refines(2)[OF base, of "si_now it" "si_later it" "si_event it" "Some n"]
      agree_dropped(2)[OF base, of "si_now it" "si_later it" "si_event it" "Some n"] assms(3,4,5)
    by (simp add: apply_item_def)
  have append: "changes (xs @ [it]) st = changes xs st @ snd (snd (apply_item it (after xs st)))" for xs st
    by (induction xs arbitrary: st) (simp_all add: split_beta)
  have same: "changes (its @ [it]) st0 = changes its st0" using append dropped by simp
  let ?fs = "frames_of dump attrs (changes its st0)"
  have b: "b = fold append_frame ?fs b0" using assms(6) by (simp add: changes_in_buffer)
  have sorted: "sorted_wrt before ?fs" by (rule frames_of_sorted[OF assms(1)])
  have frames: "fq_frames (rb_retention b) = take_last (nat capacity) ?fs"
    unfolding b by (rule frames_after[OF assms(2) sorted])
  have new: "fold max (notified_sequences (changes its st0)) 0 < n"
    using assms(3) pol by (auto simp: admits_def policy_evaluate_def policy_matches_def split: if_splits)
  have "fr_sequence f < n" if "f \<in> set (fq_frames (rb_retention b))" for f
  proof -
    have "f \<in> set ?fs" using that frames set_take_last by fastforce
    then have "fr_sequence f \<in> set (notified_sequences (changes its st0))"
      using sequences_of_changes[of dump attrs "changes its st0"] by (metis image_eqI list.set_map)
    then show ?thesis using le_fold_max_elem[of _ _ 0] new by fastforce
  qed
  moreover have "0 < n" using new le_fold_max[of 0 "notified_sequences (changes its st0)"] by linarith
  ultimately have "\<not> covers (rb_retention b) n"
    using last_in_set[of "fq_frames (rb_retention b)"]
    by (cases "fq_frames (rb_retention b) = []")
      (fastforce simp: covers_def newest_sequence_def oldest_sequence_def last_of_def split: option.splits)+
  then show ?thesis
    using same assms(6) \<open>0 < n\<close>
    by (simp add: evaluate_handshake_def replay_since_def Let_def build_batch_def build_window_def)
qed

theorem rejected_event_is_not_retained_witness:
  "\<exists>st0. fresh_store 8192 4096 1024 = Some st0 \<and>
     changes ([] @ [sample_item ''e1'' 5 (TaskStartedEvent (sample_fields ''a''))]) st0 = changes [] st0"
proof -
  obtain st0 where st0: "fresh_store 8192 4096 1024 = Some st0"
    using fresh_store_exists[of 4096 1024 8192] by auto
  obtain b0 :: "runtime_event replay_buffer" where b0: "new_buffer 16 4 = Some b0"
    using new_buffer_exists[of 16 4] by auto
  let ?it = "sample_item ''e1'' 5 (TaskStartedEvent (sample_fields ''a''))"
  have "admits (ss_policy (after [] st0)) (si_event ?it) (Some 5)"
    "\<not> lifecycle_accepts (ev_body (si_event ?it)) (store_states (after [] st0))"
    using st0 by (auto simp: fresh_store_def new_policy_def new_history_def new_store_def admits_def
        policy_evaluate_def states_of_def registry_get_def new_registry_def empty_index_def
        lifecycle_accepts_def sample_item_def sample_event_def sample_fields_def is_legal_iff)
  then show ?thesis
    using st0 rejected_event_is_not_retained[OF st0 b0, of "[]" ?it 5 _ id "\<lambda>_. (None, None)"]
    by (simp add: sample_item_def)
qed

text \<open>C3: The replay buffer can rebuild the store. If every event of a stream was sequenced and
  carries a type of its own class (all task events do; a generic event must not borrow a registered
  type), the buffer was large enough to retain all applied ones, and pydantic reads its own dumps
  back, then replaying the buffer (with the original clock readings) into any store configured
  alike reproduces registry, transition history and reconciliation policy exactly, and reports the
  number of applied events. A buffer bound to that store hears the replay: every frame is appended
  to its log a second time. An unbound one keeps its log.\<close>

theorem replay_buffer_rebuilds_the_store:
  assumes "fresh_store depth window limit = Some st0" and "new_buffer capacity cps = Some b0"
    and "\<forall>it\<in>set its. si_sequence it \<noteq> None \<and> well_typed other (si_event it)"
    and "\<forall>it\<in>set its. reads_back other dump validate (si_event it)"
    and "length (changes its st0) \<le> nat capacity"
    and "clock = map (\<lambda>it. (si_now it, si_later it)) (accepted_items its (decisions its st0))"
    and "b = fold (on_state_change dump attrs) (changes its st0) b0"
    and "same_setup st0 target"
  shows "\<exists>b' st'. replay_into_state bound dump attrs validate clock 0 target b
             = Some (b', st', length (changes its st0)) \<and>
           agree (after its st0) st' \<and>
           fq_frames (rb_retention b) = frames_of dump attrs (changes its st0) \<and>
           fq_frames (rb_retention b')
             = (if bound then take_last (nat capacity) (fq_frames (rb_retention b) @ fq_frames (rb_retention b))
                else fq_frames (rb_retention b))"
proof -
  let ?cs = "changes its st0"
  define kept where "kept = accepted_items its (decisions its st0)"
  define fs where "fs = frames_of dump attrs ?cs"
  have ok0: "base_ok st0" using store_ok_fresh(1)[OF assms(1)] by (simp add: store_ok_def)
  have ann: "map (\<lambda>c. (sc_event c, sc_sequence c)) ?cs = map (\<lambda>it. (si_event it, si_sequence it)) kept"
    using announced_all[OF ok0, of its "after its st0" "decisions its st0" ?cs] by (simp add: kept_def)
  have seqs: "\<forall>it\<in>set kept. si_sequence it \<noteq> None"
    and readable: "\<forall>it\<in>set kept. event_from_dict validate (dump (si_event it)) = Some (si_event it)"
    using assms(3,4) event_from_dict_dump[of other _ dump validate] accepted_items_subset[of its "decisions its st0"]
    unfolding kept_def by blast+
  have fs: "fs = map (\<lambda>it. frame_from_event dump attrs (si_event it) (the (si_sequence it))) kept"
    using frames_of_kept[OF ann seqs, of dump attrs] by (simp add: fs_def)
  have len: "length fs = length ?cs" using fs arg_cong[OF ann, of length] by simp
  have sorted: "sorted_wrt before fs" and positive: "\<And>f. f \<in> set fs \<Longrightarrow> 0 < fr_sequence f"
    using frames_of_sorted[OF assms(1), where dump = dump and attrs = attrs and its = its] by (simp_all add: fs_def)
  have b: "b = fold append_frame fs b0" using assms(7) by (simp add: changes_in_buffer fs_def)
  have frames: "fq_frames (rb_retention b) = fs"
    using frames_after[OF assms(2) sorted] assms(5) len by (simp add: b take_last_all)
  then have since: "retention_since (rb_retention b) 0 = fs"
    using positive by (auto simp: retention_since_def filter_id_conv)
  have loaded: "load_frames validate clock (retention_since (rb_retention b) 0) = Some kept"
    using load_frames_kept[OF readable seqs, of attrs] assms(6)
    unfolding since fs kept_def[symmetric] by simp
  obtain st2 where run: "rebuild kept target = (st2, length ?cs, ?cs)" and ag: "agree (after its st0) st2"
    using rebuild_kept[OF assms(1,8), of its] by (auto simp: kept_def)
  have again: "fq_frames (rb_retention (fold (on_state_change dump attrs) ?cs b)) = take_last (nat capacity) (fs @ fs)"
    using frames_refed[OF assms(2) b sorted, of fs] by (simp add: changes_in_buffer fs_def)
  show ?thesis
    using loaded run ag frames again by (auto simp: replay_into_state_def Let_def fs_def)
qed

text \<open>Dumps cut down to the type and the id, with a validator that knows the events of a stream.\<close>

definition sample_dump :: "runtime_event \<Rightarrow> (string, json) dict" where
  "sample_dump e = [(''event_type'', JStr (event_type e)), (''event_id'', JStr (ev_event_id e))]"

definition sample_validate ::
  "runtime_event list \<Rightarrow> string \<Rightarrow> (string, json) dict \<Rightarrow> runtime_event option" where
  "sample_validate es cls d = find (\<lambda>e. sample_dump e = d \<and> python_class registered_class (ev_body e) = cls) es"

definition sample_life :: "store_item list" where
  "sample_life =
     [sample_item ''e1'' 5 (TaskCreatedEvent (sample_fields ''a'')),
      sample_item ''e2'' 6 (TaskStartedEvent (sample_fields ''a'')),
      sample_item ''e3'' 7 (OtherEvent ''x'')]"

theorem replay_buffer_rebuilds_the_store_witness:
  "\<exists>st0 b0 b b' st' n. fresh_store 8192 4096 1024 = Some st0 \<and> new_buffer 16 4 = Some b0 \<and>
     b = fold (on_state_change sample_dump (\<lambda>_. (None, None))) (changes sample_life st0) b0 \<and>
     replay_into_state True sample_dump (\<lambda>_. (None, None)) (sample_validate (map si_event sample_life))
        (map (\<lambda>it. (si_now it, si_later it)) (accepted_items sample_life (decisions sample_life st0)))
        0 (after sample_life st0) b = Some (b', st', n) \<and>
     agree (after sample_life st0) st' \<and>
     fq_frames (rb_retention b') = take_last 16 (fq_frames (rb_retention b) @ fq_frames (rb_retention b))"
proof -
  obtain st0 where st0: "fresh_store 8192 4096 1024 = Some st0"
    using fresh_store_exists[of 4096 1024 8192] by auto
  obtain b0 :: "(string, json) dict replay_buffer" where b0: "new_buffer 16 4 = Some b0"
    using new_buffer_exists[of 16 4] by auto
  have base: "base_ok st0" using store_ok_fresh(1)[OF st0] by (simp add: store_ok_def)
  have "length (changes sample_life st0) = length (accepted_items sample_life (decisions sample_life st0))"
    using arg_cong[OF announced_all[OF base, of sample_life "after sample_life st0" "decisions sample_life st0"
          "changes sample_life st0"], of length] by simp
  also have "\<dots> \<le> nat 16"
    using length_accepted_items[of sample_life "decisions sample_life st0"] by (simp add: sample_life_def)
  finally have len: "length (changes sample_life st0) \<le> nat 16" .
  have typed: "\<forall>it\<in>set sample_life. si_sequence it \<noteq> None \<and> well_typed registered_class (si_event it)"
    by (simp add: sample_life_def sample_item_def sample_event_def well_typed_def)
  have readable: "\<forall>it\<in>set sample_life.
      reads_back registered_class sample_dump (sample_validate (map si_event sample_life)) (si_event it)"
    by (simp add: sample_life_def sample_item_def sample_event_def reads_back_def sample_validate_def
        sample_dump_def event_type_def)
  obtain b' st' where run: "replay_into_state True sample_dump (\<lambda>_. (None, None))
        (sample_validate (map si_event sample_life))
        (map (\<lambda>it. (si_now it, si_later it)) (accepted_items sample_life (decisions sample_life st0))) 0
        (after sample_life st0)
        (fold (on_state_change sample_dump (\<lambda>_. (None, None))) (changes sample_life st0) b0)
      = Some (b', st', length (changes sample_life st0))"
    and "agree (after sample_life st0) st'" and "fq_frames (rb_retention b') = take_last (nat 16)
        (fq_frames (rb_retention (fold (on_state_change sample_dump (\<lambda>_. (None, None))) (changes sample_life st0) b0)) @
         fq_frames (rb_retention (fold (on_state_change sample_dump (\<lambda>_. (None, None))) (changes sample_life st0) b0)))"
    using replay_buffer_rebuilds_the_store[where attrs = "\<lambda>_. (None, None)" and bound = True,
        OF st0 b0 typed readable len refl refl same_setup_after[OF st0, of sample_life]]
    by auto
  then show ?thesis using st0 b0 by auto
qed

section \<open>The queue feeds the store\<close>

text \<open>The websocket bridge hands every hooked item to the store with \<open>apply_queued\<close>.\<close>

lemma applied_raises_high_water:
  assumes "fst (snd (store_apply now now' e (Some n) st)) = Apply"
  shows "n \<le> last_sequence (ss_policy (fst (store_apply now now' e (Some n) st)))"
  using assms
  by (auto simp: store_apply_def Let_def announce_def record_policy_def notify_def with_context_def
      normalize_event_def policy_record_applied_def
      split: decision.splits option.splits prod.splits sum.splits if_splits)

lemma below_high_water_is_dropped:
  assumes "n \<le> last_sequence (ss_policy st)"
  obtains m d where "store_apply now now' e (Some n) st = (st\<lparr>ss_metrics := m\<rparr>, d, [])" "d \<noteq> Apply"
  using assms
  by (cases "ev_event_id e \<in> seen_ids_set (ss_policy st)")
    (auto simp: store_apply_def Let_def normalize_event_def policy_evaluate_def)

text \<open>The schedule: an event published from another thread, one from the loop, then the loop turns.\<close>

definition crossing :: "runtime_event \<Rightarrow> runtime_event \<Rightarrow> queue_label list" where
  "crossing a b =
     [QStart, QHook True, QPublish False a, QPublish True b, QTake, QFinish, QCallback, QTake, QFinish]"

lemma crossing_hooked:
  assumes "new_event_queue capacity retention overflow clock = Some q0"
    and "sg_value clock + 2 \<le> sg_max clock"
  obtains outs q where "queue_run order q0 (crossing a b) outs q"
    "hooked outs = [\<lparr>qe_sequence = sg_value clock + 2, qe_event = b\<rparr>,
                    \<lparr>qe_sequence = sg_value clock + 1, qe_event = a\<rparr>]"
proof -
  have cap: "0 < capacity" using assms(1) by (simp add: new_event_queue_def split: if_splits)
  obtain outs q where ex: "queue_exec_all order (crossing a b) [] q0 = Some (outs, q)"
    and out: "hooked outs = [\<lparr>qe_sequence = sg_value clock + 2, qe_event = b\<rparr>,
                    \<lparr>qe_sequence = sg_value clock + 1, qe_event = a\<rparr>]"
    using assms cap
    by (auto simp: crossing_def new_event_queue_def queue_start_def new_channel_def
        set_post_dispatch_hook_def publish_def sequence_next_def enqueue_def channel_offer_def
        channel_take_nowait_def dispatch_take_def dispatch_finish_def enqueue_cross_thread_def
        channel_task_done_def hooked_def List.map_filter_simps Let_def)
  show thesis by (rule that[OF queue_run_exec[OF ex] out])
qed

text \<open>C7: Publishing from two threads loses events. The sequence number is taken when \<open>publish\<close> is
  called, but an event from another thread enters the channel only when the loop runs its callback;
  an event published on the loop in between overtakes it with a higher number. Both reach the
  bridge's hook in that order, and once the store has applied the second, the first is dropped as
  stale (or duplicate): the store changes nothing but its metrics, and nobody is notified.\<close>

theorem cross_thread_event_is_lost:
  assumes new: "new_event_queue capacity retention overflow clock = Some q0"
    and room: "sg_value clock + 2 \<le> sg_max clock"
    and na: "na = sg_value clock + 1" and nb: "nb = sg_value clock + 2"
  shows "(\<exists>outs q. queue_run order q0 (crossing a b) outs q \<and>
            hooked outs = [\<lparr>qe_sequence = nb, qe_event = b\<rparr>, \<lparr>qe_sequence = na, qe_event = a\<rparr>]) \<and>
         (\<forall>now now' st st' cs. store_apply now now' b (Some nb) st = (st', Apply, cs) \<longrightarrow>
            (\<exists>m d. store_apply now now' a (Some na) st' = (st'\<lparr>ss_metrics := m\<rparr>, d, []) \<and> d \<noteq> Apply))"
proof (intro conjI allI impI)
  show "\<exists>outs q. queue_run order q0 (crossing a b) outs q \<and>
      hooked outs = [\<lparr>qe_sequence = nb, qe_event = b\<rparr>, \<lparr>qe_sequence = na, qe_event = a\<rparr>]"
    using crossing_hooked[OF new room, of order a b] na nb by blast
  fix now now' st st' cs
  assume "store_apply now now' b (Some nb) st = (st', Apply, cs)"
  then have "na \<le> last_sequence (ss_policy st')"
    using applied_raises_high_water[of now now' b nb st] na nb by simp
  then show "\<exists>m d. store_apply now now' a (Some na) st' = (st'\<lparr>ss_metrics := m\<rparr>, d, []) \<and> d \<noteq> Apply"
    using below_high_water_is_dropped by metis
qed

text \<open>A creation is overtaken by an unrelated event: the store never learns of the task.\<close>

theorem cross_thread_event_is_lost_witness:
  "\<exists>st st'. fresh_store 8192 4096 1024 = Some st \<and>
     fst (store_apply 0 0 (sample_event ''b'' 2 (OtherEvent ''x'')) (Some 2) st) = st' \<and>
     fst (snd (store_apply 0 0 (sample_event ''a'' 1 (TaskCreatedEvent (sample_fields ''t''))) (Some 1) st'))
       \<noteq> Apply"
proof -
  obtain st where st: "fresh_store 8192 4096 1024 = Some st"
    using fresh_store_exists[of 4096 1024 8192] by auto
  let ?b = "sample_event ''b'' 2 (OtherEvent ''x'')"
  have "fst (snd (store_apply 0 0 ?b (Some 2) st)) = Apply"
    using st by (auto simp: fresh_store_def new_policy_def new_history_def new_store_def sample_event_def
        store_apply_def normalize_event_def policy_evaluate_def is_task_event_def announce_def Let_def)
  then obtain st' cs where "store_apply 0 0 ?b (Some 2) st = (st', Apply, cs)"
    by (metis prod.collapse)
  then show ?thesis
    using st cross_thread_event_is_lost[OF sample_queue, of 1 2 "\<lambda>_. []"
        "sample_event ''a'' 1 (TaskCreatedEvent (sample_fields ''t''))" ?b]
    by (fastforce simp: MAX_SEQUENCE_def)
qed

end
